(* ===== verification/Pj_Prelude.thy ===== *)
theory Pj_Prelude
  imports Main "HOL-Library.Word"
begin

unbundle bit_operations_syntax

text \<open>
  Shared vocabulary of the PJLIB development: the machine integers of the 32-bit
  little-endian target (\<^verbatim>\<open>include/pj/compat/os_zephyr.h\<close> fixes ARMv7-M, little endian),
  the status codes of \<^verbatim>\<open>include/pj/errno.h\<close>, byte memory with native 32-bit loads and
  stores, and the generic lemmas the component theories share.
\<close>

section \<open>Types\<close>

type_synonym u8 = "8 word"
type_synonym u16 = "16 word"
type_synonym u32 = "32 word"
type_synonym u64 = "64 word"

text \<open>Addresses are integers: a \<^verbatim>\<open>char*\<close> that has been moved below its buffer is a
  smaller integer, so that the range checks of the code are meaningful.\<close>

type_synonym addr = int
type_synonym mem = "addr \<Rightarrow> u8"

text \<open>\<^verbatim>\<open>pj_status_t\<close> is an \<^verbatim>\<open>int\<close>; zero is success.\<close>

type_synonym pj_status_t = int

definition PJ_SUCCESS :: pj_status_t where "PJ_SUCCESS = 0"
definition PJ_ERRNO_START_STATUS :: pj_status_t where "PJ_ERRNO_START_STATUS = 70000"
definition PJ_EPENDING :: pj_status_t where "PJ_EPENDING = PJ_ERRNO_START_STATUS + 2"
definition PJ_EINVAL :: pj_status_t where "PJ_EINVAL = PJ_ERRNO_START_STATUS + 4"
definition PJ_ENOTFOUND :: pj_status_t where "PJ_ENOTFOUND = PJ_ERRNO_START_STATUS + 6"
definition PJ_ENOMEM :: pj_status_t where "PJ_ENOMEM = PJ_ERRNO_START_STATUS + 7"
definition PJ_EBUG :: pj_status_t where "PJ_EBUG = PJ_ERRNO_START_STATUS + 8"
definition PJ_ETOOMANY :: pj_status_t where "PJ_ETOOMANY = PJ_ERRNO_START_STATUS + 10"
definition PJ_EINVALIDOP :: pj_status_t where "PJ_EINVALIDOP = PJ_ERRNO_START_STATUS + 13"
definition PJ_ECANCELLED :: pj_status_t where "PJ_ECANCELLED = PJ_ERRNO_START_STATUS + 14"
definition PJ_EEXISTS :: pj_status_t where "PJ_EEXISTS = PJ_ERRNO_START_STATUS + 15"
definition PJ_ETOOBIG :: pj_status_t where "PJ_ETOOBIG = PJ_ERRNO_START_STATUS + 17"
definition PJ_ETOOSMALL :: pj_status_t where "PJ_ETOOSMALL = PJ_ERRNO_START_STATUS + 19"

named_theorems pj_status
named_theorems pj_arith

lemmas pj_status_defs [pj_status] =
  PJ_SUCCESS_def PJ_ERRNO_START_STATUS_def PJ_EINVAL_def PJ_ENOTFOUND_def PJ_ENOMEM_def
  PJ_ETOOMANY_def PJ_EINVALIDOP_def PJ_EEXISTS_def PJ_ETOOBIG_def PJ_ETOOSMALL_def

section \<open>Unsigned conversions\<close>

text \<open>The C cast \<^verbatim>\<open>(unsigned)d\<close> of a pointer difference: reduction modulo $2^{32}$.\<close>

definition unsigned_of :: "int \<Rightarrow> u32" where
  "unsigned_of d = word_of_int d"

lemma uint_unsigned_of [pj_arith]: "0 \<le> d \<Longrightarrow> d < 2 ^ 32 \<Longrightarrow> uint (unsigned_of d) = d"
  by (simp add: unsigned_of_def uint_word_of_int)

lemma uint_u32_bounds: "0 \<le> uint (w :: u32)" "uint (w :: u32) < 2 ^ 32"
  using uint_lt2p [of w] by simp_all

lemma uint_plus_u32 [pj_arith]:
  "uint (a :: u32) + uint b < 2 ^ 32 \<Longrightarrow> uint (a + b) = uint a + uint b"
  by (subst uint_add_lem [symmetric]) simp

lemma uint_minus_u32 [pj_arith]: "(b :: u32) \<le> a \<Longrightarrow> uint (a - b) = uint a - uint b"
  by (simp add: uint_sub_lem [symmetric] word_le_def)

section \<open>Native 32-bit stores and loads\<close>

text \<open>\<^verbatim>\<open>pj_memcpy\<close> of an \<^verbatim>\<open>unsigned\<close> to and from an arbitrary address.\<close>

definition store32 :: "mem \<Rightarrow> addr \<Rightarrow> u32 \<Rightarrow> mem" where
  "store32 m p w = m(p := ucast w, p + 1 := ucast (drop_bit 8 w),
                     p + 2 := ucast (drop_bit 16 w), p + 3 := ucast (drop_bit 24 w))"

definition load32 :: "mem \<Rightarrow> addr \<Rightarrow> u32" where
  "load32 m p = ucast (m p) OR push_bit 8 (ucast (m (p + 1)))
     OR push_bit 16 (ucast (m (p + 2))) OR push_bit 24 (ucast (m (p + 3)))"

lemma bytes_of_u32:
  "ucast (ucast w :: u8) OR push_bit 8 (ucast (ucast (drop_bit 8 w) :: u8))
     OR push_bit 16 (ucast (ucast (drop_bit 16 w) :: u8))
     OR push_bit 24 (ucast (ucast (drop_bit 24 w) :: u8)) = (w :: u32)"
proof (rule bit_word_eqI)
  fix n assume "n < LENGTH(32)"
  then consider "n < 8" | "8 \<le> n" "n < 16" | "16 \<le> n" "n < 24" | "24 \<le> n" "n < 32"
    by fastforce
  then show "bit (ucast (ucast w :: u8) OR push_bit 8 (ucast (ucast (drop_bit 8 w) :: u8))
     OR push_bit 16 (ucast (ucast (drop_bit 16 w) :: u8))
     OR push_bit 24 (ucast (ucast (drop_bit 24 w) :: u8)) :: u32) n = bit w n"
    by cases (auto simp: bit_or_iff bit_push_bit_iff bit_ucast_iff bit_drop_bit_eq)
qed

lemma load32_store32 [simp]: "load32 (store32 m p w) p = w"
  by (simp add: load32_def store32_def bytes_of_u32)

lemma load32_cong:
  "(\<And>q. p \<le> q \<Longrightarrow> q < p + 4 \<Longrightarrow> m q = m' q) \<Longrightarrow> load32 m p = load32 m' p"
  by (simp add: load32_def)

lemma store32_other [simp]: "q < p \<or> p + 4 \<le> q \<Longrightarrow> store32 m p w q = m q"
  by (auto simp: store32_def)

lemma load32_store32_other [simp]:
  "q + 4 \<le> p \<or> p + 4 \<le> q \<Longrightarrow> load32 (store32 m p w) q = load32 m q"
  by (rule load32_cong) auto

section \<open>Maps\<close>

lemma ran_empty_iff: "ran m = {} \<longleftrightarrow> m = Map.empty"
  by (auto simp: ran_def fun_eq_iff) (metis not_None_eq)

text \<open>Association lists updated, extended and shortened by position.\<close>

lemma map_of_nth_update:
  "i < length xs \<Longrightarrow> distinct (map fst xs) \<Longrightarrow> fst (xs ! i) = k \<Longrightarrow>
     map_of (xs[i := (k, v)]) = (map_of xs)(k \<mapsto> v)"
proof (induction xs arbitrary: i)
  case (Cons x xs)
  show ?case
  proof (cases i)
    case 0
    with Cons.prems show ?thesis by (cases x) (auto simp: fun_eq_iff)
  next
    case (Suc j)
    then have "fst x \<noteq> k" using Cons.prems by (auto dest: nth_mem)
    with Suc Cons show ?thesis by (cases x) (auto simp: fun_eq_iff)
  qed
qed simp

lemma map_of_nth_delete:
  "i < length xs \<Longrightarrow> distinct (map fst xs) \<Longrightarrow> fst (xs ! i) = k \<Longrightarrow>
     map_of (take i xs @ drop (Suc i) xs) = (map_of xs)(k := None)"
proof (induction xs arbitrary: i)
  case (Cons x xs)
  show ?case
  proof (cases i)
    case 0
    with Cons.prems show ?thesis by (cases x) (auto simp: fun_eq_iff map_of_eq_None_iff)
  next
    case (Suc j)
    then have "fst x \<noteq> k" using Cons.prems by (auto dest: nth_mem)
    with Suc Cons show ?thesis by (cases x) (auto simp: fun_eq_iff)
  qed
qed simp

lemma map_of_snoc: "k \<notin> fst ` set xs \<Longrightarrow> map_of (xs @ [(k, v)]) = (map_of xs)(k \<mapsto> v)"
  by (induction xs) auto

lemma sum_concat_update:
  fixes g :: "'a \<Rightarrow> 'b :: comm_monoid_add"
  shows "b < length xss \<Longrightarrow> sum_list (map g (concat (xss[b := ys]))) + sum_list (map g (xss ! b)) =
     sum_list (map g (concat xss)) + sum_list (map g ys)"
proof (induction xss arbitrary: b)
  case (Cons x xss)
  then show ?case by (cases b) (auto simp: ac_simps)
qed simp

lemma length_concat_update:
  "b < length xss \<Longrightarrow>
     length (concat (xss[b := ys])) + length (xss ! b) = length (concat xss) + length ys"
proof (induction xss arbitrary: b)
  case (Cons x xss)
  then show ?case by (cases b) auto
qed simp

lemma distinct_nth_delete:
  assumes "distinct xs"
  shows "distinct (take i xs @ drop (Suc i) xs)"
proof (cases "i < length xs")
  case True
  with assms have "distinct (take i xs @ xs ! i # drop (Suc i) xs)" by (simp only: id_take_nth_drop [symmetric])
  then show ?thesis by simp
qed (use assms in simp)

end
