(* ===== verification/Pj_Fifobuf.thy ===== *)
theory Pj_Fifobuf
  imports Pj_Prelude
begin

text \<open>
  The circular allocator of \<^verbatim>\<open>pjlib/src/pj/fifobuf.c\<close>. The buffer is a range of byte
  memory; every chunk is preceded by a 4-byte header holding its total size, written with
  \<^verbatim>\<open>put_size\<close> and read back with \<^verbatim>\<open>get_size\<close> when the chunk is returned. The abstract
  specification is the queue of live chunks, oldest first, as pairs of header address and
  total size; \<open>fifo_rep\<close> relates the pointers and the bytes of the headers to it.
  \<^verbatim>\<open>pj_assert\<close> is compiled out (release build), so a failed check returns
  \<^verbatim>\<open>PJ_EINVAL\<close>; logging is not modelled.
\<close>

section \<open>The code\<close>

record pj_fifobuf_t =
  fb_first :: addr
  fb_last :: addr
  fb_ubegin :: addr
  fb_uend :: addr
  fb_full :: bool

definition SZ :: u32 where
  "SZ = 4"

definition put_size :: "mem \<Rightarrow> addr \<Rightarrow> u32 \<Rightarrow> mem" where
  "put_size m ptr n = store32 m ptr n"

definition get_size :: "mem \<Rightarrow> addr \<Rightarrow> u32" where
  "get_size m ptr = load32 m ptr"

definition pj_fifobuf_init :: "addr \<Rightarrow> u32 \<Rightarrow> pj_fifobuf_t" where
  "pj_fifobuf_init buffer n =
     \<lparr>fb_first = buffer, fb_last = buffer + uint n, fb_ubegin = buffer, fb_uend = buffer,
      fb_full = (buffer + uint n = buffer)\<rparr>"

definition pj_fifobuf_capacity :: "pj_fifobuf_t \<Rightarrow> u32" where
  "pj_fifobuf_capacity f =
     (let cap = unsigned_of (fb_last f - fb_first f) in if cap > 0 then cap - SZ else 0)"

definition pj_fifobuf_available_size :: "pj_fifobuf_t \<Rightarrow> u32" where
  "pj_fifobuf_available_size f =
     (if fb_full f then 0
      else if fb_uend f \<ge> fb_ubegin f then
        let s1 = unsigned_of (fb_last f - fb_uend f);
            s2 = unsigned_of (fb_ubegin f - fb_first f);
            s = (if s1 \<le> SZ then s2 else if s2 \<le> SZ then s1 else if s1 < s2 then s2 else s1)
        in if s \<ge> SZ then s - SZ else 0
      else
        let s = unsigned_of (fb_ubegin f - fb_uend f) in if s \<ge> SZ then s - SZ else 0)"

definition pj_fifobuf_alloc ::
  "mem \<Rightarrow> pj_fifobuf_t \<Rightarrow> u32 \<Rightarrow> addr option \<times> mem \<times> pj_fifobuf_t" where
  "pj_fifobuf_alloc m f n =
     (if fb_full f then (None, m, f)
      else if fb_uend f \<ge> fb_ubegin f \<and> unsigned_of (fb_last f - fb_uend f) \<ge> n + SZ then
        let ptr = fb_uend f;
            e1 = fb_uend f + uint (n + SZ);
            e2 = (if e1 = fb_last f then fb_first f else e1)
        in (Some (ptr + uint SZ), put_size m ptr (n + SZ),
            f\<lparr>fb_uend := e2, fb_full := (if e2 = fb_ubegin f then True else fb_full f)\<rparr>)
      else
        let start = (if fb_uend f \<le> fb_ubegin f then fb_uend f else fb_first f)
        in if unsigned_of (fb_ubegin f - start) \<ge> n + SZ then
             let e = start + uint n + uint SZ
             in (Some (start + uint SZ), put_size m start (n + SZ),
                 f\<lparr>fb_uend := e, fb_full := (if e = fb_ubegin f then True else fb_full f)\<rparr>)
           else (None, m, f))"

definition pj_fifobuf_free :: "mem \<Rightarrow> pj_fifobuf_t \<Rightarrow> addr \<Rightarrow> pj_status_t \<times> pj_fifobuf_t" where
  "pj_fifobuf_free m f buf =
     (let ptr = buf - uint SZ in
      if ptr < fb_first f \<or> ptr \<ge> fb_last f then (PJ_EINVAL, f)
      else if ptr \<noteq> fb_ubegin f \<and> ptr \<noteq> fb_first f then (PJ_EINVAL, f)
      else
        let lim = (if fb_uend f > fb_ubegin f then fb_uend f else fb_last f);
            sz = get_size m ptr
        in if ptr + uint sz > lim then (PJ_EINVAL, f)
           else
             let b1 = ptr + uint sz;
                 b2 = (if b1 = fb_last f then fb_first f else b1)
             in if b2 = fb_uend f
                then (PJ_SUCCESS, f\<lparr>fb_ubegin := fb_first f, fb_uend := fb_first f,
                                    fb_full := False\<rparr>)
                else (PJ_SUCCESS, f\<lparr>fb_ubegin := b2, fb_full := False\<rparr>))"

section \<open>The abstract queue of chunks and the representation relation\<close>

type_synonym chunk = "addr \<times> int"

text \<open>A run of chunks laid out back to back from one address to another, each with its total
  size in its header.\<close>

fun chain :: "mem \<Rightarrow> addr \<Rightarrow> chunk list \<Rightarrow> addr \<Rightarrow> bool" where
  "chain m a [] b \<longleftrightarrow> a = b"
| "chain m a ((p, n) # cs) b \<longleftrightarrow>
     p = a \<and> 4 \<le> n \<and> uint (get_size m a) = n \<and> chain m (a + n) cs b"

definition fb_bounds :: "pj_fifobuf_t \<Rightarrow> bool" where
  "fb_bounds f \<longleftrightarrow> fb_first f < fb_last f \<and> fb_last f - fb_first f < 2 ^ 32"

definition rep_empty :: "pj_fifobuf_t \<Rightarrow> chunk list \<Rightarrow> bool" where
  "rep_empty f cs \<longleftrightarrow> cs = [] \<and> fb_ubegin f = fb_first f \<and> fb_uend f = fb_first f \<and> \<not> fb_full f"

definition rep_linear :: "mem \<Rightarrow> pj_fifobuf_t \<Rightarrow> chunk list \<Rightarrow> bool" where
  "rep_linear m f cs \<longleftrightarrow> chain m (fb_ubegin f) cs (fb_uend f) \<and> fb_first f \<le> fb_ubegin f \<and>
     fb_ubegin f < fb_uend f \<and> fb_uend f < fb_last f \<and> \<not> fb_full f"

definition rep_wrapped :: "mem \<Rightarrow> pj_fifobuf_t \<Rightarrow> chunk list \<Rightarrow> chunk list \<Rightarrow> addr \<Rightarrow> bool" where
  "rep_wrapped m f cs1 cs2 g \<longleftrightarrow>
     chain m (fb_ubegin f) cs1 g \<and> chain m (fb_first f) cs2 (fb_uend f) \<and>
     fb_first f \<le> fb_uend f \<and> fb_uend f \<le> fb_ubegin f \<and> fb_ubegin f < fb_last f \<and>
     g \<le> fb_last f \<and> (cs2 = [] \<longrightarrow> g = fb_last f) \<and>
     fb_full f = (fb_uend f = fb_ubegin f)"

definition fifo_rep :: "mem \<times> pj_fifobuf_t \<Rightarrow> chunk list \<Rightarrow> bool" where
  "fifo_rep s cs \<longleftrightarrow> (case s of (m, f) \<Rightarrow> fb_bounds f \<and>
     (rep_empty f cs \<or> rep_linear m f cs \<or>
      (\<exists>cs1 cs2 g. cs = cs1 @ cs2 \<and> rep_wrapped m f cs1 cs2 g)))"

definition chunk_bytes :: "chunk \<Rightarrow> addr set" where
  "chunk_bytes c = {fst c ..< fst c + snd c}"

definition chunk_header :: "chunk \<Rightarrow> addr set" where
  "chunk_header c = {fst c ..< fst c + 4}"

lemmas rep_defs = fb_bounds_def rep_empty_def rep_linear_def rep_wrapped_def

section \<open>Lemmas on chunk runs\<close>

lemma uint_SZ [simp]: "uint SZ = 4"
  by (simp add: SZ_def)

lemma chain_le: "chain m a cs b \<Longrightarrow> a \<le> b"
  by (induction m a cs b rule: chain.induct) auto

lemma chain_nonempty_less: "chain m a cs b \<Longrightarrow> cs \<noteq> [] \<Longrightarrow> a + 4 \<le> b"
  by (cases "(m, a, cs, b)" rule: chain.cases) (auto dest: chain_le)

lemma chain_self_iff [simp]: "chain m a cs a \<longleftrightarrow> cs = []"
  using chain_nonempty_less [of m a cs a] by auto

lemma chain_append:
  "chain m a (cs @ ds) b \<longleftrightarrow> (\<exists>c. chain m a cs c \<and> chain m c ds b)"
  by (induction m a cs b rule: chain.induct) auto

lemma chain_snoc:
  "chain m a cs b \<Longrightarrow> 4 \<le> n \<Longrightarrow> uint (get_size m b) = n \<Longrightarrow> chain m a (cs @ [(b, n)]) (b + n)"
  by (simp add: chain_append)

lemma chain_members:
  "chain m a cs b \<Longrightarrow> (p, n) \<in> set cs \<Longrightarrow> a \<le> p \<and> p + n \<le> b \<and> 4 \<le> n"
proof (induction m a cs b rule: chain.induct)
  case (2 m a q k cs b)
  then show ?case
    using chain_le [of m "a + k" cs b] by fastforce
qed simp

lemma chain_cong:
  assumes "chain m a cs b"
    and "\<And>c q. c \<in> set cs \<Longrightarrow> q \<in> chunk_header c \<Longrightarrow> m' q = m q"
  shows "chain m' a cs b"
  using assms
proof (induction m a cs b rule: chain.induct)
  case (2 m a p n cs b)
  have "get_size m' a = get_size m a"
    unfolding get_size_def
    by (rule load32_cong) (use "2.prems"(2) [of "(p, n)"] "2.prems"(1) in \<open>auto simp: chunk_header_def\<close>)
  with 2 show ?case by auto
qed simp

lemma chain_store_outside:
  assumes "chain m a cs b" and "b \<le> p \<or> p + 4 \<le> a"
  shows "chain (put_size m p w) a cs b"
proof (rule chain_cong [OF assms(1)])
  fix c q assume "c \<in> set cs" and "q \<in> chunk_header c"
  moreover from this have "a \<le> fst c" "fst c + 4 \<le> b"
    using chain_members [OF assms(1), of "fst c" "snd c"] by auto
  ultimately show "put_size m p w q = m q"
    using assms(2) by (auto simp: put_size_def chunk_header_def)
qed

lemma get_put_size [simp]: "get_size (put_size m p w) p = w"
  by (simp add: get_size_def put_size_def)

section \<open>Allocation and release keep the representation\<close>

lemma fifo_rep_init: "n \<noteq> 0 \<Longrightarrow> fifo_rep (m, pj_fifobuf_init buffer n) []"
  using uint_u32_bounds [of n]
  by (auto simp: fifo_rep_def rep_defs pj_fifobuf_init_def word_neq_0_conv word_less_def)

text \<open>A request that does not wrap the \<^verbatim>\<open>unsigned\<close> addition of the header size.\<close>

lemma uint_need [pj_arith]: "uint n + 4 < 2 ^ 32 \<Longrightarrow> uint (n + SZ) = uint n + 4"
  using uint_plus_u32 [of n SZ] by simp

lemma unsigned_ge_need [pj_arith]:
  "0 \<le> d \<Longrightarrow> d < 2 ^ 32 \<Longrightarrow> uint n + 4 < 2 ^ 32 \<Longrightarrow>
     (n + SZ \<le> unsigned_of d) = (uint n + 4 \<le> d)"
  by (simp add: word_le_def uint_need uint_unsigned_of)

lemma uint_plus4_nonzero [simp]: "uint (n :: u32) + 4 \<noteq> 0"
  using uint_u32_bounds(1) [of n] by linarith

lemma alloc_empty:
  assumes "fb_bounds f" "rep_empty f cs" "uint n + 4 < 2 ^ 32"
  shows "pj_fifobuf_alloc m f n =
     (if uint n + 4 \<le> fb_last f - fb_first f
      then (Some (fb_first f + 4), put_size m (fb_first f) (n + SZ),
            (if fb_first f + (uint n + 4) = fb_last f then f\<lparr>fb_full := True\<rparr>
             else f\<lparr>fb_uend := fb_first f + (uint n + 4)\<rparr>))
      else (None, m, f))"
  using assms uint_u32_bounds [of n]
  by (auto simp: pj_fifobuf_alloc_def rep_defs unsigned_ge_need uint_need Let_def)

lemma alloc_linear:
  assumes "fb_bounds f" "rep_linear m f cs" "uint n + 4 < 2 ^ 32"
  shows "pj_fifobuf_alloc m f n =
     (if uint n + 4 \<le> fb_last f - fb_uend f
      then (let e = (if fb_uend f + (uint n + 4) = fb_last f then fb_first f
                     else fb_uend f + (uint n + 4))
            in (Some (fb_uend f + 4), put_size m (fb_uend f) (n + SZ),
                f\<lparr>fb_uend := e, fb_full := (e = fb_ubegin f)\<rparr>))
      else if uint n + 4 \<le> fb_ubegin f - fb_first f
      then (Some (fb_first f + 4), put_size m (fb_first f) (n + SZ),
            f\<lparr>fb_uend := fb_first f + (uint n + 4),
              fb_full := (fb_first f + (uint n + 4) = fb_ubegin f)\<rparr>)
      else (None, m, f))"
  using assms uint_u32_bounds [of n]
  by (auto simp: pj_fifobuf_alloc_def rep_defs unsigned_ge_need uint_need Let_def add.assoc)

lemma alloc_wrapped:
  assumes "fb_bounds f" "rep_wrapped m f cs1 cs2 g" "uint n + 4 < 2 ^ 32"
  shows "pj_fifobuf_alloc m f n =
     (if \<not> fb_full f \<and> uint n + 4 \<le> fb_ubegin f - fb_uend f
      then (Some (fb_uend f + 4), put_size m (fb_uend f) (n + SZ),
            f\<lparr>fb_uend := fb_uend f + (uint n + 4),
              fb_full := (fb_uend f + (uint n + 4) = fb_ubegin f)\<rparr>)
      else (None, m, f))"
  using assms uint_u32_bounds [of n]
  by (auto simp: pj_fifobuf_alloc_def rep_defs unsigned_ge_need uint_need Let_def add.assoc)

text \<open>The three layouts after a successful allocation.\<close>

lemma rep_linear_snoc:
  assumes "rep_linear m f cs" "4 \<le> k" "k < 2 ^ 32" "fb_uend f + k < fb_last f"
  shows "rep_linear (put_size m (fb_uend f) (word_of_int k)) (f\<lparr>fb_uend := fb_uend f + k\<rparr>)
           (cs @ [(fb_uend f, k)])"
proof -
  let ?m = "put_size m (fb_uend f) (word_of_int k)"
  have "chain ?m (fb_ubegin f) cs (fb_uend f)"
    using assms(1) by (intro chain_store_outside) (auto simp: rep_defs)
  then have "chain ?m (fb_ubegin f) (cs @ [(fb_uend f, k)]) (fb_uend f + k)"
    by (rule chain_snoc) (use assms(2,3) in \<open>auto simp: uint_word_of_int\<close>)
  with assms show ?thesis by (auto simp: rep_defs)
qed

lemma rep_linear_to_end:
  assumes "rep_linear m f cs" "4 \<le> k" "k < 2 ^ 32" "fb_uend f + k = fb_last f"
  shows "rep_wrapped (put_size m (fb_uend f) (word_of_int k))
           (f\<lparr>fb_uend := fb_first f, fb_full := (fb_first f = fb_ubegin f)\<rparr>)
           (cs @ [(fb_uend f, k)]) [] (fb_last f)"
proof -
  let ?m = "put_size m (fb_uend f) (word_of_int k)"
  have "chain ?m (fb_ubegin f) cs (fb_uend f)"
    using assms(1) by (intro chain_store_outside) (auto simp: rep_defs)
  then have "chain ?m (fb_ubegin f) (cs @ [(fb_uend f, k)]) (fb_uend f + k)"
    by (rule chain_snoc) (use assms(2,3) in \<open>auto simp: uint_word_of_int\<close>)
  with assms show ?thesis by (auto simp: rep_defs)
qed

lemma rep_linear_wrap:
  assumes "rep_linear m f cs" "4 \<le> k" "k < 2 ^ 32" "fb_first f + k \<le> fb_ubegin f"
  shows "rep_wrapped (put_size m (fb_first f) (word_of_int k))
           (f\<lparr>fb_uend := fb_first f + k, fb_full := (fb_first f + k = fb_ubegin f)\<rparr>)
           cs [(fb_first f, k)] (fb_uend f)"
proof -
  have "chain (put_size m (fb_first f) (word_of_int k)) (fb_ubegin f) cs (fb_uend f)"
    using assms by (intro chain_store_outside) (auto simp: rep_defs)
  with assms show ?thesis by (auto simp: rep_defs uint_word_of_int)
qed

lemma rep_wrapped_snoc:
  assumes "rep_wrapped m f cs1 cs2 g" "4 \<le> k" "k < 2 ^ 32" "fb_uend f + k \<le> fb_ubegin f"
  shows "rep_wrapped (put_size m (fb_uend f) (word_of_int k))
           (f\<lparr>fb_uend := fb_uend f + k, fb_full := (fb_uend f + k = fb_ubegin f)\<rparr>)
           cs1 (cs2 @ [(fb_uend f, k)]) g"
proof -
  let ?m = "put_size m (fb_uend f) (word_of_int k)"
  have 1: "chain ?m (fb_ubegin f) cs1 g"
    using assms by (intro chain_store_outside) (auto simp: rep_defs)
  have "chain ?m (fb_first f) cs2 (fb_uend f)"
    using assms by (intro chain_store_outside) (auto simp: rep_defs)
  then have "chain ?m (fb_first f) (cs2 @ [(fb_uend f, k)]) (fb_uend f + k)"
    by (rule chain_snoc) (use assms(2,3) in \<open>auto simp: uint_word_of_int\<close>)
  with 1 assms show ?thesis by (auto simp: rep_defs)
qed

lemma rep_empty_alloc:
  assumes "fb_bounds f" "rep_empty f cs" "4 \<le> k" "fb_first f + k \<le> fb_last f"
  shows "fifo_rep (put_size m (fb_first f) (word_of_int k),
           if fb_first f + k = fb_last f then f\<lparr>fb_full := True\<rparr>
           else f\<lparr>fb_uend := fb_first f + k\<rparr>) [(fb_first f, k)]"
proof (cases "fb_first f + k = fb_last f")
  case True
  let ?m = "put_size m (fb_first f) (word_of_int k)"
  from assms True have "rep_wrapped ?m (f\<lparr>fb_full := True\<rparr>) [(fb_first f, k)] [] (fb_last f)"
    by (auto simp: rep_defs uint_word_of_int)
  then have "\<exists>cs1 cs2 g. [(fb_first f, k)] = cs1 @ cs2 \<and> rep_wrapped ?m (f\<lparr>fb_full := True\<rparr>) cs1 cs2 g"
    by (intro exI [of _ "[(fb_first f, k)]"] exI [of _ "[]"] exI [of _ "fb_last f"]) simp
  with assms True show ?thesis by (simp add: fifo_rep_def fb_bounds_def)
next
  case False
  with assms show ?thesis by (auto simp: fifo_rep_def rep_defs uint_word_of_int)
qed

lemma fifo_repI_wrapped:
  "fb_bounds f \<Longrightarrow> rep_wrapped m f cs1 cs2 g \<Longrightarrow> cs = cs1 @ cs2 \<Longrightarrow> fifo_rep (m, f) cs"
  by (auto simp: fifo_rep_def)

lemma fifo_repI_linear: "fb_bounds f \<Longrightarrow> rep_linear m f cs \<Longrightarrow> fifo_rep (m, f) cs"
  by (simp add: fifo_rep_def)

lemma fifo_repE [consumes 1, case_names empty linear wrapped]:
  assumes "fifo_rep (m, f) cs"
  obtains "fb_bounds f" "rep_empty f cs"
    | "fb_bounds f" "rep_linear m f cs"
    | cs1 cs2 g where "fb_bounds f" "cs = cs1 @ cs2" "rep_wrapped m f cs1 cs2 g"
  using assms by (auto simp: fifo_rep_def)

lemma word_of_int_need [simp]: "word_of_int (uint n + 4) = n + SZ"
  by (simp add: SZ_def wi_hom_syms)

lemma fifo_alloc_rep:
  assumes rep: "fifo_rep (m, f) cs" and n: "uint n + 4 < 2 ^ 32"
    and al: "pj_fifobuf_alloc m f n = (Some q, m', f')"
  shows "fifo_rep (m', f') (cs @ [(q - 4, uint n + 4)]) \<and>
         m' = put_size m (q - 4) (n + SZ) \<and> fb_first f' = fb_first f \<and> fb_last f' = fb_last f"
  using rep
proof (cases rule: fifo_repE)
  case empty
  with al n rep_empty_alloc [of f cs "uint n + 4" m] show ?thesis
    by (auto simp: alloc_empty [OF empty n] rep_empty_def uint_u32_bounds SZ_def split: if_splits)
next
  case linear
  note l = alloc_linear [OF linear n]
  have k: "4 \<le> uint n + 4" using uint_u32_bounds(1) [of n] by simp
  show ?thesis
  proof (cases "uint n + 4 \<le> fb_last f - fb_uend f")
    case True
    show ?thesis
    proof (cases "fb_uend f + (uint n + 4) = fb_last f")
      case True
      with al l rep_linear_to_end [OF linear(2) k n True] linear(1) show ?thesis
        by (auto simp: Let_def fb_bounds_def SZ_def intro!: fifo_repI_wrapped)
    next
      case False
      with True have "fb_uend f + (uint n + 4) < fb_last f" by simp
      from rep_linear_snoc [OF linear(2) k n this] True False al l linear show ?thesis
        by (auto simp: Let_def rep_defs SZ_def intro!: fifo_repI_linear)
    qed
  next
    case False
    with al l have w: "fb_first f + (uint n + 4) \<le> fb_ubegin f" by (auto split: if_splits)
    from rep_linear_wrap [OF linear(2) k n w] False al l linear(1) show ?thesis
      by (auto simp: fb_bounds_def SZ_def intro!: fifo_repI_wrapped split: if_splits)
  qed
next
  case (wrapped cs1 cs2 g)
  note l = alloc_wrapped [OF wrapped(1,3) n]
  have k: "4 \<le> uint n + 4" using uint_u32_bounds(1) [of n] by simp
  from al l have w: "fb_uend f + (uint n + 4) \<le> fb_ubegin f" by (auto split: if_splits)
  from rep_wrapped_snoc [OF wrapped(3) k n w] al l wrapped show ?thesis
    by (auto simp: fb_bounds_def SZ_def intro!: fifo_repI_wrapped split: if_splits)
qed

text \<open>Live chunks lie inside the buffer and do not overlap.\<close>

fun disjoint_chunks :: "chunk list \<Rightarrow> bool" where
  "disjoint_chunks [] \<longleftrightarrow> True"
| "disjoint_chunks (c # cs) \<longleftrightarrow>
     (\<forall>d \<in> set cs. chunk_bytes c \<inter> chunk_bytes d = {}) \<and> disjoint_chunks cs"

lemma chain_disjoint: "chain m a cs b \<Longrightarrow> disjoint_chunks cs"
proof (induction m a cs b rule: chain.induct)
  case (2 m a p n cs b)
  then show ?case
    by (fastforce simp: chunk_bytes_def dest: chain_members)
qed simp

lemma disjoint_chunks_append:
  "disjoint_chunks (cs @ ds) \<longleftrightarrow> disjoint_chunks cs \<and> disjoint_chunks ds \<and>
     (\<forall>c \<in> set cs. \<forall>d \<in> set ds. chunk_bytes c \<inter> chunk_bytes d = {})"
  by (induction cs) auto

lemma wrapped_members:
  assumes "rep_wrapped m f cs1 cs2 g"
  shows "c \<in> set cs1 \<Longrightarrow> fb_ubegin f \<le> fst c \<and> fst c + snd c \<le> fb_last f \<and> 4 \<le> snd c"
    and "d \<in> set cs2 \<Longrightarrow> fb_first f \<le> fst d \<and> fst d + snd d \<le> fb_uend f \<and> 4 \<le> snd d"
  using assms chain_members [of m "fb_ubegin f" cs1 g "fst c" "snd c"]
    chain_members [of m "fb_first f" cs2 "fb_uend f" "fst d" "snd d"]
  by (auto simp: rep_wrapped_def)

lemma fifo_rep_disjoint:
  assumes "fifo_rep (m, f) cs"
  shows "disjoint_chunks cs"
  using assms
proof (cases rule: fifo_repE)
  case (wrapped cs1 cs2 g)
  have "chunk_bytes c \<inter> chunk_bytes d = {}" if "c \<in> set cs1" "d \<in> set cs2" for c d
    using wrapped_members(1) [OF wrapped(3) that(1)] wrapped_members(2) [OF wrapped(3) that(2)]
      wrapped(3) by (auto simp: chunk_bytes_def rep_wrapped_def)
  with wrapped show ?thesis
    by (auto simp: disjoint_chunks_append rep_wrapped_def dest: chain_disjoint)
qed (auto simp: rep_defs dest: chain_disjoint)

lemma fifo_rep_bounds:
  assumes "fifo_rep (m, f) cs" "c \<in> set cs"
  shows "fb_first f \<le> fst c \<and> fst c + snd c \<le> fb_last f \<and> 4 \<le> snd c"
  using assms(1)
proof (cases rule: fifo_repE)
  case linear
  with chain_members [of m "fb_ubegin f" cs "fb_uend f" "fst c" "snd c"] assms(2)
  show ?thesis by (auto simp: rep_linear_def)
next
  case (wrapped cs1 cs2 g)
  with assms(2) have "c \<in> set cs1 \<or> c \<in> set cs2" by simp
  then show ?thesis
    using wrapped_members(1) [OF wrapped(3), of c] wrapped_members(2) [OF wrapped(3), of c] wrapped(3) by (auto simp: rep_wrapped_def)
qed (use assms in \<open>auto simp: rep_empty_def\<close>)

lemma fifo_rep_cong:
  assumes "fifo_rep (m, f) cs"
    and "\<And>c q. c \<in> set cs \<Longrightarrow> q \<in> chunk_header c \<Longrightarrow> m' q = m q"
  shows "fifo_rep (m', f) cs"
  using assms(1)
proof (cases rule: fifo_repE)
  case empty
  then show ?thesis by (simp add: fifo_rep_def)
next
  case linear
  then have "chain m' (fb_ubegin f) cs (fb_uend f)"
    by (intro chain_cong [OF _ assms(2)]) (simp_all add: rep_linear_def)
  with linear show ?thesis by (simp add: fifo_repI_linear rep_linear_def)
next
  case (wrapped cs1 cs2 g)
  have "chain m' (fb_ubegin f) cs1 g" "chain m' (fb_first f) cs2 (fb_uend f)"
    using wrapped by (auto simp: rep_wrapped_def intro!: chain_cong [OF _ assms(2)])
  with wrapped have "rep_wrapped m' f cs1 cs2 g" by (simp add: rep_wrapped_def)
  with wrapped show ?thesis by (blast intro: fifo_repI_wrapped)
qed

text \<open>Returning the oldest chunk.\<close>

lemma free_linear:
  assumes "fb_bounds f" "rep_linear m f ((p, n) # cs)"
  shows "pj_fifobuf_free m f (p + 4) = (PJ_SUCCESS,
     if cs = [] then f\<lparr>fb_ubegin := fb_first f, fb_uend := fb_first f, fb_full := False\<rparr>
     else f\<lparr>fb_ubegin := p + n, fb_full := False\<rparr>)"
  using assms chain_le [of m "p + n" cs "fb_uend f"]
    chain_nonempty_less [of m "p + n" cs "fb_uend f"]
  by (auto simp: pj_fifobuf_free_def rep_defs Let_def)

lemma free_wrapped:
  assumes "fb_bounds f" "rep_wrapped m f ((p, n) # cs1) cs2 g"
  shows "pj_fifobuf_free m f (p + 4) = (PJ_SUCCESS,
     if p + n = fb_last f then
       (if fb_uend f = fb_first f
        then f\<lparr>fb_ubegin := fb_first f, fb_uend := fb_first f, fb_full := False\<rparr>
        else f\<lparr>fb_ubegin := fb_first f, fb_full := False\<rparr>)
     else f\<lparr>fb_ubegin := p + n, fb_full := False\<rparr>)"
  using assms chain_le [of m "p + n" cs1 g]
  by (auto simp: pj_fifobuf_free_def rep_defs Let_def)

lemma free_wrapped_gap:
  assumes "fb_bounds f" "rep_wrapped m f [] ((p, n) # cs2) g"
  shows "pj_fifobuf_free m f (p + 4) = (PJ_SUCCESS,
     if cs2 = [] then f\<lparr>fb_ubegin := fb_first f, fb_uend := fb_first f, fb_full := False\<rparr>
     else f\<lparr>fb_ubegin := p + n, fb_full := False\<rparr>)"
  using assms chain_le [of m "p + n" cs2 "fb_uend f"]
    chain_nonempty_less [of m "p + n" cs2 "fb_uend f"]
  by (auto simp: pj_fifobuf_free_def rep_defs Let_def)

lemma fifo_free_rep:
  assumes "fifo_rep (m, f) ((p, n) # cs)"
  shows "\<exists>f'. pj_fifobuf_free m f (p + 4) = (PJ_SUCCESS, f') \<and> fifo_rep (m, f') cs \<and>
     fb_first f' = fb_first f \<and> fb_last f' = fb_last f"
  using assms
proof (cases rule: fifo_repE)
  case empty
  then show ?thesis by (simp add: rep_empty_def)
next
  case linear
  have "cs \<noteq> [] \<Longrightarrow> rep_linear m (f\<lparr>fb_ubegin := p + n, fb_full := False\<rparr>) cs"
    using linear chain_nonempty_less [of m "p + n" cs "fb_uend f"] by (auto simp: rep_defs)
  with linear show ?thesis
    by (auto simp: free_linear fifo_rep_def rep_empty_def fb_bounds_def)
next
  case (wrapped cs1 cs2 g)
  show ?thesis
  proof (cases cs1)
    case Nil
    with wrapped have w: "rep_wrapped m f [] ((p, n) # cs) g" by simp
    have "cs \<noteq> [] \<Longrightarrow> rep_linear m (f\<lparr>fb_ubegin := p + n, fb_full := False\<rparr>) cs"
      using w chain_nonempty_less [of m "p + n" cs "fb_uend f"] by (auto simp: rep_defs)
    with w wrapped(1) show ?thesis
      by (auto simp: free_wrapped_gap fifo_rep_def rep_empty_def fb_bounds_def)
  next
    case (Cons c cs1')
    with wrapped have w: "rep_wrapped m f ((p, n) # cs1') cs2 g" and cs: "cs = cs1' @ cs2"
      by auto
    have free: "pj_fifobuf_free m f (p + 4) = (PJ_SUCCESS,
       if p + n = fb_last f then
         (if fb_uend f = fb_first f
          then f\<lparr>fb_ubegin := fb_first f, fb_uend := fb_first f, fb_full := False\<rparr>
          else f\<lparr>fb_ubegin := fb_first f, fb_full := False\<rparr>)
       else f\<lparr>fb_ubegin := p + n, fb_full := False\<rparr>)"
      by (rule free_wrapped [OF wrapped(1) w])
    show ?thesis
    proof (cases "p + n = fb_last f")
      case True
      with w have e: "cs1' = []" using chain_nonempty_less [of m "p + n" cs1' g]
        by (auto simp: rep_defs)
      have "cs2 = [] \<longleftrightarrow> fb_uend f = fb_first f"
        using w by (auto simp: rep_wrapped_def)
      with True e cs w wrapped(1) free show ?thesis
        by (auto simp: fifo_rep_def rep_defs)
    next
      case False
      have "rep_wrapped m (f\<lparr>fb_ubegin := p + n, fb_full := False\<rparr>) cs1' cs2 g"
        using w False chain_le [of m "p + n" cs1' g] by (auto simp: rep_defs)
      with False cs free wrapped(1) show ?thesis
        by (auto simp: fb_bounds_def intro!: fifo_repI_wrapped)
    qed
  qed
qed

section \<open>The interface a client relies on\<close>

datatype fifo_op = Alloc u32 | FreeOldest | Write addr u8

text \<open>A client in the discipline the header asks for: it allocates, writes into the payload of
  its live chunks and returns the oldest chunk. It keeps the queue of its live chunks and
  the statuses of its releases.\<close>

fun fifo_client ::
  "('s \<Rightarrow> u32 \<Rightarrow> addr option \<times> 's) \<Rightarrow> ('s \<Rightarrow> addr \<Rightarrow> pj_status_t \<times> 's) \<Rightarrow> ('s \<Rightarrow> addr \<Rightarrow> u8 \<Rightarrow> 's) \<Rightarrow>
   fifo_op list \<Rightarrow> 's \<times> chunk list \<times> pj_status_t list \<Rightarrow> 's \<times> chunk list \<times> pj_status_t list" where
  "fifo_client al fr wr [] c = c"
| "fifo_client al fr wr (Alloc n # os) (s, cs, sts) =
     (case al s n of
        (None, s') \<Rightarrow> fifo_client al fr wr os (s', cs, sts)
      | (Some q, s') \<Rightarrow> fifo_client al fr wr os (s', cs @ [(q - 4, uint n + 4)], sts))"
| "fifo_client al fr wr (FreeOldest # os) (s, [], sts) = fifo_client al fr wr os (s, [], sts)"
| "fifo_client al fr wr (FreeOldest # os) (s, (p, n) # cs, sts) =
     (case fr s (p + 4) of (st, s') \<Rightarrow> fifo_client al fr wr os (s', cs, st # sts))"
| "fifo_client al fr wr (Write a b # os) (s, cs, sts) =
     (if \<exists>c \<in> set cs. fst c + 4 \<le> a \<and> a < fst c + snd c
      then fifo_client al fr wr os (wr s a b, cs, sts)
      else fifo_client al fr wr os (s, cs, sts))"

definition sizes_ok :: "fifo_op list \<Rightarrow> bool" where
  "sizes_ok os \<longleftrightarrow> (\<forall>n. Alloc n \<in> set os \<longrightarrow> uint n + 4 < 2 ^ 32)"

locale fifo_allocator =
  fixes rep :: "'s \<Rightarrow> chunk list \<Rightarrow> bool"
    and al :: "'s \<Rightarrow> u32 \<Rightarrow> addr option \<times> 's"
    and fr :: "'s \<Rightarrow> addr \<Rightarrow> pj_status_t \<times> 's"
    and wr :: "'s \<Rightarrow> addr \<Rightarrow> u8 \<Rightarrow> 's"
  assumes alloc_none: "rep s cs \<Longrightarrow> al s n = (None, s') \<Longrightarrow> s' = s"
    and alloc_some: "rep s cs \<Longrightarrow> uint n + 4 < 2 ^ 32 \<Longrightarrow> al s n = (Some q, s') \<Longrightarrow>
      rep s' (cs @ [(q - 4, uint n + 4)])"
    and free_oldest: "rep s ((p, k) # cs) \<Longrightarrow>
      \<exists>s'. fr s (p + 4) = (PJ_SUCCESS, s') \<and> rep s' cs"
    and write_payload: "rep s cs \<Longrightarrow> c \<in> set cs \<Longrightarrow> fst c + 4 \<le> a \<Longrightarrow> a < fst c + snd c \<Longrightarrow>
      rep (wr s a b) cs"
begin

lemma client_keeps_rep:
  "rep s cs \<Longrightarrow> sizes_ok os \<Longrightarrow> set sts \<subseteq> {PJ_SUCCESS} \<Longrightarrow>
   fifo_client al fr wr os (s, cs, sts) = (s', cs', sts') \<Longrightarrow>
   rep s' cs' \<and> set sts' \<subseteq> {PJ_SUCCESS}"
proof (induction os arbitrary: s cs sts)
  case Nil
  then show ?case by simp
next
  case (Cons x os)
  have ok: "sizes_ok os" and okx: "\<And>n. x = Alloc n \<Longrightarrow> uint n + 4 < 2 ^ 32"
    using Cons.prems(2) by (auto simp: sizes_ok_def)
  note IH = Cons.IH [OF _ ok]
  show ?case
  proof (cases x)
    case (Alloc n)
    obtain r t where rt: "al s n = (r, t)" by fastforce
    show ?thesis
      using Cons.prems Alloc rt okx [OF Alloc] alloc_none [OF Cons.prems(1), of n t]
        alloc_some [OF Cons.prems(1), of n _ t] IH
      by (cases r) auto
  next
    case FreeOldest
    show ?thesis
    proof (cases cs)
      case Nil
      with Cons.prems FreeOldest IH show ?thesis by auto
    next
      case (Cons c ds)
      obtain p n where c: "c = (p, n)" by fastforce
      obtain t where "fr s (p + 4) = (PJ_SUCCESS, t)" "rep t ds"
        using free_oldest [of s p n ds] \<open>rep s cs\<close> Cons c by auto
      with Cons.prems FreeOldest Cons c IH [of t ds "PJ_SUCCESS # sts"] show ?thesis by auto
    qed
  next
    case (Write a b)
    define t where "t = (if \<exists>c \<in> set cs. fst c + 4 \<le> a \<and> a < fst c + snd c then wr s a b else s)"
    have "rep t cs" using Cons.prems(1) write_payload [OF Cons.prems(1)] by (auto simp: t_def)
    moreover have "fifo_client al fr wr os (t, cs, sts) = (s', cs', sts')"
      using Cons.prems(4) Write by (auto simp: t_def split: if_splits)
    ultimately show ?thesis using Cons.prems(3) IH by blast
  qed
qed

end

text \<open>The model's operations over memory and control block together.\<close>

definition fifo_al :: "mem \<times> pj_fifobuf_t \<Rightarrow> u32 \<Rightarrow> addr option \<times> (mem \<times> pj_fifobuf_t)" where
  "fifo_al s n = pj_fifobuf_alloc (fst s) (snd s) n"

definition fifo_fr :: "mem \<times> pj_fifobuf_t \<Rightarrow> addr \<Rightarrow> pj_status_t \<times> (mem \<times> pj_fifobuf_t)" where
  "fifo_fr s buf = (case pj_fifobuf_free (fst s) (snd s) buf of (st, f) \<Rightarrow> (st, (fst s, f)))"

definition fifo_wr :: "mem \<times> pj_fifobuf_t \<Rightarrow> addr \<Rightarrow> u8 \<Rightarrow> mem \<times> pj_fifobuf_t" where
  "fifo_wr s a b = ((fst s)(a := b), snd s)"

lemma fifo_alloc_none:
  "pj_fifobuf_alloc m f n = (None, m', f') \<Longrightarrow> m' = m \<and> f' = f"
  by (auto simp: pj_fifobuf_alloc_def Let_def split: if_splits)

lemma disjoint_chunksD:
  "disjoint_chunks cs \<Longrightarrow> c \<in> set cs \<Longrightarrow> d \<in> set cs \<Longrightarrow> c \<noteq> d \<Longrightarrow>
     chunk_bytes c \<inter> chunk_bytes d = {}"
  by (induction cs) auto

lemma fifo_write_rep:
  assumes rep: "fifo_rep (m, f) cs" and c: "c \<in> set cs" "fst c + 4 \<le> a" "a < fst c + snd c"
  shows "fifo_rep (m(a := b), f) cs"
proof (rule fifo_rep_cong [OF rep])
  fix d q assume d: "d \<in> set cs" "q \<in> chunk_header d"
  have "q \<noteq> a"
  proof (cases "d = c")
    case True
    with c d show ?thesis by (auto simp: chunk_header_def)
  next
    case False
    with disjoint_chunksD [OF fifo_rep_disjoint [OF rep] c(1) d(1)] have
      "chunk_bytes c \<inter> chunk_bytes d = {}" by simp
    moreover have "a \<in> chunk_bytes c" "q \<in> chunk_bytes d"
      using c d fifo_rep_bounds [OF rep d(1)] by (auto simp: chunk_bytes_def chunk_header_def)
    ultimately show ?thesis by auto
  qed
  then show "(m(a := b)) q = m q" by simp
qed

interpretation fifobuf: fifo_allocator fifo_rep fifo_al fifo_fr fifo_wr
proof
  fix s :: "mem \<times> pj_fifobuf_t" and cs n s'
  show "fifo_rep s cs \<Longrightarrow> fifo_al s n = (None, s') \<Longrightarrow> s' = s"
    by (cases s; cases s') (auto simp: fifo_al_def dest: fifo_alloc_none)
next
  fix s :: "mem \<times> pj_fifobuf_t" and cs n q s'
  show "fifo_rep s cs \<Longrightarrow> uint n + 4 < 2 ^ 32 \<Longrightarrow> fifo_al s n = (Some q, s') \<Longrightarrow>
      fifo_rep s' (cs @ [(q - 4, uint n + 4)])"
    by (cases s; cases s') (auto simp: fifo_al_def dest: fifo_alloc_rep)
next
  fix s :: "mem \<times> pj_fifobuf_t" and p n cs
  show "fifo_rep s ((p, n) # cs) \<Longrightarrow> \<exists>s'. fifo_fr s (p + 4) = (PJ_SUCCESS, s') \<and> fifo_rep s' cs"
    using fifo_free_rep [of "fst s" "snd s" p n cs] by (cases s) (auto simp: fifo_fr_def)
next
  fix s :: "mem \<times> pj_fifobuf_t" and cs c a b
  show "fifo_rep s cs \<Longrightarrow> c \<in> set cs \<Longrightarrow> fst c + 4 \<le> a \<Longrightarrow> a < fst c + snd c \<Longrightarrow>
      fifo_rep (fifo_wr s a b) cs"
    by (cases s) (auto simp: fifo_wr_def intro: fifo_write_rep)
qed

section \<open>Properties\<close>

text \<open>C1: whatever a client that returns its chunks oldest first does with a fresh buffer
  (allocations, writes into its own chunks, releases), every release returns
  \<^verbatim>\<open>PJ_SUCCESS\<close>, and at the end the pointers and headers of the buffer represent exactly
  its live chunks, which are inside the buffer and pairwise disjoint.\<close>

theorem fifobuf_refines_queue:
  assumes "n \<noteq> 0" and "sizes_ok os"
    and "fifo_client fifo_al fifo_fr fifo_wr os ((m, pj_fifobuf_init buffer n), [], []) =
         ((m', f'), cs, sts)"
  shows "fifo_rep (m', f') cs \<and> set sts \<subseteq> {PJ_SUCCESS} \<and> disjoint_chunks cs \<and>
    (\<forall>c \<in> set cs. fb_first f' \<le> fst c \<and> fst c + snd c \<le> fb_last f')"
proof -
  have *: "fifo_rep (m', f') cs \<and> set sts \<subseteq> {PJ_SUCCESS}"
    by (rule fifobuf.client_keeps_rep [OF fifo_rep_init [OF assms(1)] assms(2) _ assms(3)]) simp
  then show ?thesis using fifo_rep_disjoint fifo_rep_bounds by blast
qed

theorem fifobuf_refines_queue_witness:
  "\<exists>m' f' sts. fifo_client fifo_al fifo_fr fifo_wr [Alloc 8, Alloc 4, FreeOldest, Alloc 2]
     ((\<lambda>_. 0, pj_fifobuf_init 100 24), [], []) = ((m', f'), [(112, 8), (100, 6)], sts) \<and>
     fifo_rep (m', f') [(112, 8), (100, 6)] \<and> set sts \<subseteq> {PJ_SUCCESS}"
proof -
  obtain m' f' sts where r: "fifo_client fifo_al fifo_fr fifo_wr [Alloc 8, Alloc 4, FreeOldest, Alloc 2]
     ((\<lambda>_. 0, pj_fifobuf_init 100 24), [], []) = ((m', f'), [(112, 8), (100, 6)], sts)"
    by (simp add: fifo_al_def fifo_fr_def pj_fifobuf_alloc_def pj_fifobuf_free_def
        pj_fifobuf_init_def Let_def SZ_def unsigned_of_def put_size_def get_size_def)
  have "sizes_ok [Alloc 8, Alloc 4, FreeOldest, Alloc 2]" by (auto simp: sizes_ok_def)
  from fifobuf_refines_queue [OF _ this r] r show ?thesis by auto
qed

text \<open>Allocation never touches a byte of a live chunk, so what an application stored in a
  chunk stays there until the chunk is returned.\<close>

theorem fifobuf_alloc_frame:
  assumes "fifo_rep (m, f) cs" and "uint n + 4 < 2 ^ 32"
    and "pj_fifobuf_alloc m f n = (Some q, m', f')"
    and "c \<in> set cs" and "a \<in> chunk_bytes c"
  shows "m' a = m a"
proof -
  have rep: "fifo_rep (m', f') (cs @ [(q - 4, uint n + 4)])" and m': "m' = put_size m (q - 4) (n + SZ)"
    using fifo_alloc_rep [OF assms(1-3)] by auto
  from fifo_rep_disjoint [OF rep] assms(4) have
    "chunk_bytes c \<inter> chunk_bytes (q - 4, uint n + 4) = {}"
    by (auto simp: disjoint_chunks_append)
  with assms(5) have "a \<notin> chunk_bytes (q - 4, uint n + 4)" by auto
  then have "a < q - 4 \<or> (q - 4) + 4 \<le> a"
    by (simp add: chunk_bytes_def) (use uint_u32_bounds(1) [of n] in linarith)
  then show ?thesis by (simp only: m' put_size_def store32_other)
qed

theorem fifobuf_alloc_frame_witness:
  "\<exists>m' f'. pj_fifobuf_alloc (\<lambda>_. 7) (pj_fifobuf_init 100 24) 8 = (Some 104, m', f') \<and>
     (\<exists>m'' f''. pj_fifobuf_alloc m' f' 4 = (Some 116, m'', f'') \<and> m'' 105 = m' 105)"
proof -
  obtain m' f' where 1: "pj_fifobuf_alloc (\<lambda>_. 7) (pj_fifobuf_init 100 24) 8 = (Some 104, m', f')"
    and f': "f' = (pj_fifobuf_init 100 24)\<lparr>fb_uend := 112\<rparr>"
    by (simp add: pj_fifobuf_alloc_def pj_fifobuf_init_def Let_def SZ_def unsigned_of_def)
  obtain m'' f'' where 2: "pj_fifobuf_alloc m' f' 4 = (Some 116, m'', f'')"
    by (simp add: f' pj_fifobuf_alloc_def pj_fifobuf_init_def Let_def SZ_def unsigned_of_def)
  have rep: "fifo_rep (m', f') [(100, 12)]"
    using fifo_alloc_rep [OF fifo_rep_init _ 1] by auto
  have "m'' 105 = m' 105"
    by (rule fifobuf_alloc_frame [OF rep _ 2]) (auto simp: chunk_bytes_def)
  with 1 2 show ?thesis by blast
qed

text \<open>\<^verbatim>\<open>pj_fifobuf_available_size\<close> is exact: a request of at least one byte is granted if
  and only if it is at most the reported size.\<close>

theorem fifobuf_available_exact:
  assumes rep: "fifo_rep (m, f) cs" and n: "0 < n" "uint n + 4 < 2 ^ 32"
  shows "fst (pj_fifobuf_alloc m f n) \<noteq> None \<longleftrightarrow> n \<le> pj_fifobuf_available_size f"
proof -
  have n0: "0 < uint n" using n(1) by (simp add: word_less_def)
  show ?thesis
    using rep
  proof (cases rule: fifo_repE)
    case empty
    with n n0 show ?thesis
      by (simp add: alloc_empty [OF empty n(2)] pj_fifobuf_available_size_def rep_defs Let_def
          word_le_def word_less_def uint_unsigned_of SZ_def uint_minus_u32)
  next
    case linear
    then show ?thesis
      using n0 by (auto simp: alloc_linear [OF linear n(2)] pj_fifobuf_available_size_def rep_defs
          Let_def word_le_def word_less_def uint_unsigned_of uint_minus_u32)
  next
    case (wrapped cs1 cs2 g)
    then show ?thesis
      using n0 by (auto simp: alloc_wrapped [OF wrapped(1,3) n(2)] pj_fifobuf_available_size_def rep_defs
          Let_def word_le_def word_less_def uint_unsigned_of uint_minus_u32)
  qed
qed

theorem fifobuf_available_exact_witness:
  "fst (pj_fifobuf_alloc (\<lambda>_. 0) (pj_fifobuf_init 100 24) 20) \<noteq> None \<and>
   pj_fifobuf_available_size (pj_fifobuf_init 100 24) = 20"
proof -
  have "pj_fifobuf_available_size (pj_fifobuf_init 100 24) = 20"
    by (simp add: pj_fifobuf_available_size_def pj_fifobuf_init_def Let_def SZ_def unsigned_of_def)
  with fifobuf_available_exact [OF fifo_rep_init, of 24 20 "\<lambda>_. 0" 100] show ?thesis by simp
qed

text \<open>The release order is not enforced for a chunk at the start of the buffer: it is
  accepted with \<^verbatim>\<open>PJ_SUCCESS\<close> even when an older chunk is still live, where the code's own
  check (\<^verbatim>\<open>Invalid free() sequence!\<close>) means to refuse it.\<close>

theorem fifobuf_free_start_unchecked:
  assumes "fifo_rep (m, f) ((p, n) # cs)" and "(q, k) \<in> set cs" and "q = fb_first f"
  shows "fst (pj_fifobuf_free m f (q + 4)) = PJ_SUCCESS"
  using assms(1)
proof (cases rule: fifo_repE)
  case linear
  with assms(2,3) chain_members [of m "p + n" cs "fb_uend f" q k] show ?thesis
    by (auto simp: rep_linear_def)
next
  case (wrapped cs1 cs2 g)
  show ?thesis
  proof (cases cs2)
    case Nil
    with wrapped assms have "chain m (p + n) cs g" "fb_first f \<le> p" "4 \<le> n"
      by (auto simp: rep_wrapped_def)
    with chain_members [of m "p + n" cs g q k] assms(2,3) show ?thesis by auto
  next
    case (Cons c ds)
    with wrapped(3) have "chain m (fb_first f + uint (get_size m (fb_first f))) ds (fb_uend f)"
      by (cases c) (auto simp: rep_wrapped_def)
    with wrapped(3) chain_le have "fb_first f + uint (get_size m (fb_first f)) \<le> fb_last f"
      by (fastforce simp: rep_wrapped_def)
    with wrapped(1,3) assms(3) show ?thesis
      by (auto simp: pj_fifobuf_free_def Let_def rep_defs)
  qed
qed (use assms in \<open>auto simp: rep_empty_def\<close>)

theorem fifobuf_free_start_unchecked_witness:
  "\<exists>m f. fifo_rep (m, f) [(112, 8), (100, 6)] \<and> fst (pj_fifobuf_free m f 104) = PJ_SUCCESS"
proof -
  obtain m f sts where r: "fifo_client fifo_al fifo_fr fifo_wr [Alloc 8, Alloc 4, FreeOldest, Alloc 2]
     ((\<lambda>_. 0, pj_fifobuf_init 100 24), [], []) = ((m, f), [(112, 8), (100, 6)], sts)"
    and f: "fb_first f = 100"
    by (simp add: fifo_al_def fifo_fr_def pj_fifobuf_alloc_def pj_fifobuf_free_def
        pj_fifobuf_init_def Let_def SZ_def unsigned_of_def put_size_def get_size_def)
  have ok: "sizes_ok [Alloc 8, Alloc 4, FreeOldest, Alloc 2]" by (auto simp: sizes_ok_def)
  have rep: "fifo_rep (m, f) [(112, 8), (100, 6)]"
    by (rule fifobuf.client_keeps_rep [OF fifo_rep_init ok _ r, THEN conjunct1]) simp_all
  have "fst (pj_fifobuf_free m f (100 + 4)) = PJ_SUCCESS"
    by (rule fifobuf_free_start_unchecked [OF rep _ f [symmetric], of 6]) simp
  then have "fst (pj_fifobuf_free m f 104) = PJ_SUCCESS" by simp
  with rep show ?thesis by blast
qed

text \<open>The header size is added to the request without an overflow check, so a request of
  \<^verbatim>\<open>0xFFFFFFFC\<close> bytes is granted from a fresh buffer of any size, with an empty chunk, and
  marks the buffer full.\<close>

theorem fifobuf_alloc_size_wraps:
  assumes "n \<noteq> 0"
  shows "pj_fifobuf_alloc m (pj_fifobuf_init b n) 0xFFFFFFFC =
    (Some (b + 4), put_size m b 0, (pj_fifobuf_init b n)\<lparr>fb_full := True\<rparr>)"
proof -
  have "0 < uint n" using assms by (simp add: word_less_def word_neq_0_conv)
  moreover have "0xFFFFFFFC + SZ = 0" by (simp add: SZ_def)
  ultimately show ?thesis
    by (simp add: pj_fifobuf_alloc_def pj_fifobuf_init_def Let_def unsigned_of_def)
qed

theorem fifobuf_alloc_size_wraps_witness:
  "fst (pj_fifobuf_alloc (\<lambda>_. 0) (pj_fifobuf_init 100 16) 0xFFFFFFFC) = Some 104"
  using fifobuf_alloc_size_wraps [of 16 "\<lambda>_. 0" 100] by simp

end
