(* ===== verification/Pj_Time.thy ===== *)
theory Pj_Time
  imports Pj_Prelude
begin

text \<open>
  Time values (\<^verbatim>\<open>pjlib/include/pj/types.h\<close>, \<^verbatim>\<open>pjlib/src/pj/types.c\<close>): the structure
  \<^verbatim>\<open>pj_time_val\<close>, the comparison and arithmetic macros and \<^verbatim>\<open>pj_time_val_normalize\<close>. Both
  fields are C \<^verbatim>\<open>long\<close>s; they are modelled by integers, so the results hold where the C
  arithmetic does not overflow. The comparison macros are shown to be a linear order, which
  is what the timer heap relies on.
\<close>

section \<open>The code\<close>

datatype pj_time_val = Time_Val (tv_sec: int) (tv_msec: int)

definition PJ_TIME_VAL_MSEC :: "pj_time_val \<Rightarrow> int" where
  "PJ_TIME_VAL_MSEC t = tv_sec t * 1000 + tv_msec t"

definition PJ_TIME_VAL_EQ :: "pj_time_val \<Rightarrow> pj_time_val \<Rightarrow> bool" where
  "PJ_TIME_VAL_EQ t1 t2 \<longleftrightarrow> tv_sec t1 = tv_sec t2 \<and> tv_msec t1 = tv_msec t2"

definition PJ_TIME_VAL_GT :: "pj_time_val \<Rightarrow> pj_time_val \<Rightarrow> bool" where
  "PJ_TIME_VAL_GT t1 t2 \<longleftrightarrow>
     tv_sec t1 > tv_sec t2 \<or> (tv_sec t1 = tv_sec t2 \<and> tv_msec t1 > tv_msec t2)"

definition PJ_TIME_VAL_GTE :: "pj_time_val \<Rightarrow> pj_time_val \<Rightarrow> bool" where
  "PJ_TIME_VAL_GTE t1 t2 \<longleftrightarrow> PJ_TIME_VAL_GT t1 t2 \<or> PJ_TIME_VAL_EQ t1 t2"

definition PJ_TIME_VAL_LT :: "pj_time_val \<Rightarrow> pj_time_val \<Rightarrow> bool" where
  "PJ_TIME_VAL_LT t1 t2 \<longleftrightarrow> \<not> PJ_TIME_VAL_GTE t1 t2"

definition PJ_TIME_VAL_LTE :: "pj_time_val \<Rightarrow> pj_time_val \<Rightarrow> bool" where
  "PJ_TIME_VAL_LTE t1 t2 \<longleftrightarrow> \<not> PJ_TIME_VAL_GT t1 t2"

text \<open>The \<^verbatim>\<open>do ... while\<close> loop for fields at or below minus one second; its guard is also the
  guard of the branch that enters it.\<close>

function normalize_neg :: "pj_time_val \<Rightarrow> pj_time_val" where
  "normalize_neg t =
     (if tv_msec t \<le> -1000 then normalize_neg (Time_Val (tv_sec t - 1) (tv_msec t + 1000)) else t)"
  by pat_completeness auto
termination
  by (relation "measure (\<lambda>t. nat (- tv_msec t))") auto

definition normalize_range :: "pj_time_val \<Rightarrow> pj_time_val" where
  "normalize_range t =
     (if tv_msec t \<ge> 1000 then Time_Val (tv_sec t + tv_msec t div 1000) (tv_msec t mod 1000)
      else if tv_msec t \<le> -1000 then normalize_neg t
      else t)"

definition normalize_sign :: "pj_time_val \<Rightarrow> pj_time_val" where
  "normalize_sign t =
     (if tv_sec t \<ge> 1 \<and> tv_msec t < 0 then Time_Val (tv_sec t - 1) (tv_msec t + 1000)
      else if tv_sec t < 0 \<and> tv_msec t > 0 then Time_Val (tv_sec t + 1) (tv_msec t - 1000)
      else t)"

definition pj_time_val_normalize :: "pj_time_val \<Rightarrow> pj_time_val" where
  "pj_time_val_normalize t = normalize_sign (normalize_range t)"

definition PJ_TIME_VAL_ADD :: "pj_time_val \<Rightarrow> pj_time_val \<Rightarrow> pj_time_val" where
  "PJ_TIME_VAL_ADD t1 t2 =
     pj_time_val_normalize (Time_Val (tv_sec t1 + tv_sec t2) (tv_msec t1 + tv_msec t2))"

definition PJ_TIME_VAL_SUB :: "pj_time_val \<Rightarrow> pj_time_val \<Rightarrow> pj_time_val" where
  "PJ_TIME_VAL_SUB t1 t2 =
     pj_time_val_normalize (Time_Val (tv_sec t1 - tv_sec t2) (tv_msec t1 - tv_msec t2))"

section \<open>The macros as a linear order\<close>

lemma time_val_eq_iff: "a = b \<longleftrightarrow> tv_sec a = tv_sec b \<and> tv_msec a = tv_msec b"
  by (cases a; cases b) auto

lemmas time_val_macros = PJ_TIME_VAL_LTE_def PJ_TIME_VAL_LT_def PJ_TIME_VAL_GTE_def
  PJ_TIME_VAL_GT_def PJ_TIME_VAL_EQ_def

instantiation pj_time_val :: linorder
begin

definition less_eq_pj_time_val :: "pj_time_val \<Rightarrow> pj_time_val \<Rightarrow> bool" where
  "less_eq_pj_time_val a b \<longleftrightarrow> PJ_TIME_VAL_LTE a b"

definition less_pj_time_val :: "pj_time_val \<Rightarrow> pj_time_val \<Rightarrow> bool" where
  "less_pj_time_val a b \<longleftrightarrow> PJ_TIME_VAL_LT a b"

instance
proof
  fix x y z :: pj_time_val
  show "x < y \<longleftrightarrow> x \<le> y \<and> \<not> y \<le> x"
    unfolding less_eq_pj_time_val_def less_pj_time_val_def time_val_macros by linarith
  show "x \<le> x"
    unfolding less_eq_pj_time_val_def time_val_macros by linarith
  show "x \<le> y \<Longrightarrow> y \<le> z \<Longrightarrow> x \<le> z"
    unfolding less_eq_pj_time_val_def time_val_macros by linarith
  show "x \<le> y \<Longrightarrow> y \<le> x \<Longrightarrow> x = y"
    unfolding less_eq_pj_time_val_def time_val_macros time_val_eq_iff by linarith
  show "x \<le> y \<or> y \<le> x"
    unfolding less_eq_pj_time_val_def time_val_macros by linarith
qed

end

lemma time_val_order [simp]:
  "PJ_TIME_VAL_LTE a b \<longleftrightarrow> a \<le> b" "PJ_TIME_VAL_LT a b \<longleftrightarrow> a < b"
  "PJ_TIME_VAL_GT a b \<longleftrightarrow> b < a" "PJ_TIME_VAL_GTE a b \<longleftrightarrow> b \<le> a"
  "PJ_TIME_VAL_EQ a b \<longleftrightarrow> a = b"
  unfolding less_eq_pj_time_val_def less_pj_time_val_def time_val_macros time_val_eq_iff
  by (rule refl | linarith)+

lemma time_val_less_iff:
  "a < b \<longleftrightarrow> tv_sec a < tv_sec b \<or> tv_sec a = tv_sec b \<and> tv_msec a < tv_msec b"
  unfolding less_pj_time_val_def time_val_macros by linarith

section \<open>Normalization\<close>

definition normalized :: "pj_time_val \<Rightarrow> bool" where
  "normalized t \<longleftrightarrow> \<bar>tv_msec t\<bar> < 1000 \<and> (1 \<le> tv_sec t \<longrightarrow> 0 \<le> tv_msec t) \<and>
     (tv_sec t < 0 \<longrightarrow> tv_msec t \<le> 0)"

declare normalize_neg.simps [simp del]

lemma normalize_neg_msec:
  "tv_msec t \<le> 0 \<Longrightarrow> PJ_TIME_VAL_MSEC (normalize_neg t) = PJ_TIME_VAL_MSEC t \<and>
     -1000 < tv_msec (normalize_neg t) \<and> tv_msec (normalize_neg t) \<le> 0"
proof (induction t rule: normalize_neg.induct)
  case (1 t)
  show ?case
  proof (cases "tv_msec t \<le> -1000")
    case True
    with 1 show ?thesis
      by (simp add: normalize_neg.simps [of t] PJ_TIME_VAL_MSEC_def algebra_simps)
  next
    case False
    with 1 show ?thesis by (simp add: normalize_neg.simps [of t])
  qed
qed

lemma normalize_range_msec:
  "PJ_TIME_VAL_MSEC (normalize_range t) = PJ_TIME_VAL_MSEC t \<and> \<bar>tv_msec (normalize_range t)\<bar> < 1000"
  using normalize_neg_msec [of t]
  by (auto simp: normalize_range_def PJ_TIME_VAL_MSEC_def algebra_simps)

lemma normalize_sign_msec:
  "\<bar>tv_msec t\<bar> < 1000 \<Longrightarrow>
     PJ_TIME_VAL_MSEC (normalize_sign t) = PJ_TIME_VAL_MSEC t \<and> normalized (normalize_sign t)"
  by (auto simp: normalize_sign_def PJ_TIME_VAL_MSEC_def normalized_def)

lemma pj_time_val_normalize_msec:
  "PJ_TIME_VAL_MSEC (pj_time_val_normalize t) = PJ_TIME_VAL_MSEC t"
  "normalized (pj_time_val_normalize t)"
  using normalize_range_msec [of t] normalize_sign_msec [of "normalize_range t"]
  by (simp_all add: pj_time_val_normalize_def)

lemma normalized_less_iff:
  "normalized a \<Longrightarrow> normalized b \<Longrightarrow> a < b \<longleftrightarrow> PJ_TIME_VAL_MSEC a < PJ_TIME_VAL_MSEC b"
  by (auto simp: time_val_less_iff normalized_def PJ_TIME_VAL_MSEC_def)

lemma time_val_add_normalized [simp]: "normalized (PJ_TIME_VAL_ADD a b)"
  by (simp add: PJ_TIME_VAL_ADD_def pj_time_val_normalize_msec)

section \<open>Properties\<close>

text \<open>Normalization, and with it the addition and subtraction macros, keeps the total number
  of milliseconds, bounds the millisecond field below one second with the sign of the
  seconds, and on normalized values the comparison macro is the order of the totals.\<close>

theorem time_val_arithmetic:
  "PJ_TIME_VAL_MSEC (PJ_TIME_VAL_ADD a b) = PJ_TIME_VAL_MSEC a + PJ_TIME_VAL_MSEC b \<and>
   PJ_TIME_VAL_MSEC (PJ_TIME_VAL_SUB a b) = PJ_TIME_VAL_MSEC a - PJ_TIME_VAL_MSEC b \<and>
   normalized (PJ_TIME_VAL_ADD a b) \<and> normalized (PJ_TIME_VAL_SUB a b) \<and>
   PJ_TIME_VAL_LT (PJ_TIME_VAL_ADD a b) (PJ_TIME_VAL_SUB c d) =
     (PJ_TIME_VAL_MSEC a + PJ_TIME_VAL_MSEC b < PJ_TIME_VAL_MSEC c - PJ_TIME_VAL_MSEC d)"
proof -
  have "PJ_TIME_VAL_MSEC (PJ_TIME_VAL_ADD x y) = PJ_TIME_VAL_MSEC x + PJ_TIME_VAL_MSEC y" for x y
    by (simp add: PJ_TIME_VAL_ADD_def pj_time_val_normalize_msec) (simp add: PJ_TIME_VAL_MSEC_def)
  moreover have "PJ_TIME_VAL_MSEC (PJ_TIME_VAL_SUB x y) = PJ_TIME_VAL_MSEC x - PJ_TIME_VAL_MSEC y" for x y
    by (simp add: PJ_TIME_VAL_SUB_def pj_time_val_normalize_msec) (simp add: PJ_TIME_VAL_MSEC_def)
  moreover have "normalized (PJ_TIME_VAL_SUB x y)" for x y
    by (simp add: PJ_TIME_VAL_SUB_def pj_time_val_normalize_msec)
  ultimately show ?thesis by (simp add: normalized_less_iff)
qed

end
