(* ===== verification/Pj_Timer.thy ===== *)
theory Pj_Timer
  imports Pj_Time
begin

text \<open>
  The timer heap of \<^verbatim>\<open>pjlib/src/pj/timer.c\<close>, in the default configuration of
  \<^verbatim>\<open>include/pj/config.h\<close>: \<^verbatim>\<open>PJ_TIMER_USE_COPY\<close> and \<^verbatim>\<open>PJ_TIMER_DEBUG\<close> on,
  \<^verbatim>\<open>PJ_TIMER_USE_LINKED_LIST\<close> off. A pointer into the array \<^verbatim>\<open>timer_dups\<close> is its index; index 0
  is never a scheduled copy (timer ids start at 1) and stands for the \<^verbatim>\<open>NULL\<close> of unused
  \<^verbatim>\<open>heap\<close> slots. \<^verbatim>\<open>pj_size_t\<close> and \<^verbatim>\<open>unsigned\<close> counters are naturals, timer ids and time fields are
  integers. The world record holds what the functions reach: the heap, the application's
  timer entries, the reference counts of group locks, the depth of the heap's lock, and the
  tick counter. Application callbacks, the pool allocator's answers and the tick
  counter's readings are parameters.
\<close>

section \<open>Data\<close>

record pj_timer_entry =
  te_user_data :: nat
  te_id :: int
  te_cb :: "nat option"
  te_timer_id :: int

record pj_timer_entry_dup =
  td_dup :: pj_timer_entry
  td_entry :: nat
  td_timer_value :: pj_time_val
  td_grp_lock :: "nat option"
  td_src_file :: string
  td_src_line :: int

record pj_timer_heap_t =
  th_max_size :: nat
  th_cur_size :: nat
  th_max_entries_per_poll :: nat
  th_lock :: "nat option"
  th_auto_delete_lock :: bool
  th_heap :: "nat list"
  th_timer_ids :: "int list"
  th_timer_dups :: "pj_timer_entry_dup list"
  th_freelist :: int

record timer_world =
  tw_ht :: pj_timer_heap_t
  tw_entries :: "nat \<Rightarrow> pj_timer_entry"
  tw_refs :: "nat \<Rightarrow> int"
  tw_lock_depth :: int
  tw_destroyed :: "nat list"
  tw_ticks :: "nat \<Rightarrow> pj_time_val"
  tw_reads :: nat

text \<open>What the pool answers to the three allocations of \<^verbatim>\<open>grow_heap\<close>, and the contents of the
  uninitialised memory it returns for the array of copies.\<close>

record alloc_env =
  ae_heap_ok :: bool
  ae_dups_ok :: bool
  ae_ids_ok :: bool
  ae_junk :: "nat \<Rightarrow> pj_timer_entry_dup"

definition F_DONT_CALL :: u32 where "F_DONT_CALL = 1"
definition F_DONT_ASSERT :: u32 where "F_DONT_ASSERT = 2"
definition F_SET_ID :: u32 where "F_SET_ID = 4"

definition DEFAULT_MAX_TIMED_OUT_PER_POLL :: nat where
  "DEFAULT_MAX_TIMED_OUT_PER_POLL = 64"

definition PJ_MAXINT32 :: int where "PJ_MAXINT32 = 0x7fffffff"

section \<open>Heap primitives\<close>

definition HEAP_PARENT :: "nat \<Rightarrow> nat" where
  "HEAP_PARENT x = (if x = 0 then 0 else (x - 1) div 2)"

definition HEAP_LEFT :: "nat \<Rightarrow> nat" where
  "HEAP_LEFT x = x + x + 1"

definition tval :: "pj_timer_heap_t \<Rightarrow> nat \<Rightarrow> pj_time_val" where
  "tval ht d = td_timer_value (th_timer_dups ht ! d)"

definition dup_timer_id :: "pj_timer_heap_t \<Rightarrow> nat \<Rightarrow> int" where
  "dup_timer_id ht d = te_timer_id (td_dup (th_timer_dups ht ! d))"

definition copy_node :: "pj_timer_heap_t \<Rightarrow> nat \<Rightarrow> nat \<Rightarrow> pj_timer_heap_t" where
  "copy_node ht slot moved_node =
     ht\<lparr>th_heap := (th_heap ht)[slot := moved_node],
        th_timer_ids := (th_timer_ids ht)[nat (dup_timer_id ht moved_node) := int slot]\<rparr>"

definition pop_freelist :: "pj_timer_heap_t \<Rightarrow> int \<times> pj_timer_heap_t" where
  "pop_freelist ht =
     (th_freelist ht, ht\<lparr>th_freelist := - (th_timer_ids ht ! nat (th_freelist ht))\<rparr>)"

definition push_freelist :: "pj_timer_heap_t \<Rightarrow> int \<Rightarrow> pj_timer_heap_t" where
  "push_freelist ht old_id =
     ht\<lparr>th_timer_ids := (th_timer_ids ht)[nat old_id := - th_freelist ht], th_freelist := old_id\<rparr>"

lemma copy_node_simps [simp]:
  "th_cur_size (copy_node ht s m) = th_cur_size ht"
  "th_max_size (copy_node ht s m) = th_max_size ht"
  "th_timer_dups (copy_node ht s m) = th_timer_dups ht"
  "th_freelist (copy_node ht s m) = th_freelist ht"
  "th_heap (copy_node ht s m) = (th_heap ht)[s := m]"
  "th_max_entries_per_poll (copy_node ht s m) = th_max_entries_per_poll ht"
  "th_lock (copy_node ht s m) = th_lock ht"
  "th_auto_delete_lock (copy_node ht s m) = th_auto_delete_lock ht"
  "tval (copy_node ht s m) = tval ht"
  "dup_timer_id (copy_node ht s m) = dup_timer_id ht"
  by (auto simp: copy_node_def tval_def dup_timer_id_def fun_eq_iff)

text \<open>The loop of \<^verbatim>\<open>reheap_down\<close>, which moves children up until the moved node fits.\<close>

function reheap_down :: "pj_timer_heap_t \<Rightarrow> nat \<Rightarrow> nat \<Rightarrow> nat \<Rightarrow> pj_timer_heap_t" where
  "reheap_down ht moved_node slot child =
     (if child < th_cur_size ht then
        let c = (if child + 1 < th_cur_size ht \<and>
                    PJ_TIME_VAL_LT (tval ht (th_heap ht ! (child + 1))) (tval ht (th_heap ht ! child))
                 then child + 1 else child)
        in if PJ_TIME_VAL_LT (tval ht (th_heap ht ! c)) (tval ht moved_node)
           then reheap_down (copy_node ht slot (th_heap ht ! c)) moved_node c (HEAP_LEFT c)
           else copy_node ht slot moved_node
      else copy_node ht slot moved_node)"
  by pat_completeness auto
termination
  by (relation "measure (\<lambda>(ht, m, slot, child). th_cur_size ht - child)")
     (auto simp: HEAP_LEFT_def Let_def split: if_splits)

text \<open>The loop of \<^verbatim>\<open>reheap_up\<close>. Its parameter \<^verbatim>\<open>parent\<close> is \<^verbatim>\<open>HEAP_PARENT(slot)\<close> at every call and
  after every iteration, so the model computes it from the slot.\<close>

function reheap_up :: "pj_timer_heap_t \<Rightarrow> nat \<Rightarrow> nat \<Rightarrow> pj_timer_heap_t" where
  "reheap_up ht moved_node slot =
     (if slot > 0 then
        (let parent = HEAP_PARENT slot
         in if PJ_TIME_VAL_LT (tval ht moved_node) (tval ht (th_heap ht ! parent))
            then reheap_up (copy_node ht slot (th_heap ht ! parent)) moved_node parent
            else copy_node ht slot moved_node)
      else copy_node ht slot moved_node)"
  by pat_completeness auto
termination
  by (relation "measure (\<lambda>(ht, m, slot). slot)") (auto simp: HEAP_PARENT_def)

declare reheap_down.simps [simp del] reheap_up.simps [simp del]

section \<open>Removing, growing, inserting\<close>

text \<open>\<^verbatim>\<open>remove_node\<close> returns the copy that was at the slot; the entry's id is reset only when it
  still agrees with the copy's.\<close>

definition remove_node :: "timer_world \<Rightarrow> nat \<Rightarrow> nat \<times> timer_world" where
  "remove_node w slot =
     (let ht = tw_ht w;
          removed_node = th_heap ht ! slot;
          id = dup_timer_id ht removed_node;
          e = td_entry (th_timer_dups ht ! removed_node);
          ht1 = (push_freelist ht id)\<lparr>th_cur_size := th_cur_size ht - 1\<rparr>;
          entries1 = (if id \<noteq> te_timer_id (tw_entries w e) then tw_entries w
                      else (tw_entries w)(e := (tw_entries w e)\<lparr>te_timer_id := -1\<rparr>));
          d = th_timer_dups ht1 ! removed_node;
          ht2 = ht1\<lparr>th_timer_dups :=
                  (th_timer_dups ht1)[removed_node := d\<lparr>td_dup := (td_dup d)\<lparr>te_timer_id := -1\<rparr>\<rparr>]\<rparr>;
          ht3 = (if slot < th_cur_size ht2 then
                   let moved_node = th_heap ht2 ! th_cur_size ht2;
                       h = copy_node ht2 slot moved_node;
                       parent = HEAP_PARENT slot
                   in if PJ_TIME_VAL_GTE (tval h moved_node) (tval h (th_heap h ! parent))
                      then reheap_down h moved_node slot (HEAP_LEFT slot)
                      else reheap_up h moved_node slot
                 else ht2)
      in (removed_node, w\<lparr>tw_ht := ht3, tw_entries := entries1\<rparr>))"

definition grow_heap :: "alloc_env \<Rightarrow> pj_timer_heap_t \<Rightarrow> pj_status_t \<times> pj_timer_heap_t" where
  "grow_heap env ht =
     (let new_size = th_max_size ht * 2 in
      if \<not> ae_heap_ok env then (PJ_ENOMEM, ht)
      else if \<not> ae_dups_ok env then (PJ_ENOMEM, ht)
      else
        let new_dups = take (th_max_size ht) (th_timer_dups ht)
              @ map (ae_junk env) [th_max_size ht ..< new_size];
            new_heap = take (th_cur_size ht) (th_heap ht) @ replicate (new_size - th_cur_size ht) 0;
            ht1 = ht\<lparr>th_timer_dups := new_dups, th_heap := new_heap\<rparr>
        in if \<not> ae_ids_ok env then (PJ_ENOMEM, ht1)
           else (PJ_SUCCESS,
                 ht1\<lparr>th_timer_ids := take (th_max_size ht) (th_timer_ids ht)
                        @ map (\<lambda>i. - (int i + 1)) [th_max_size ht ..< new_size],
                     th_max_size := new_size\<rparr>))"

definition insert_node ::
  "alloc_env \<Rightarrow> timer_world \<Rightarrow> nat \<Rightarrow> pj_time_val \<Rightarrow> pj_status_t \<times> timer_world" where
  "insert_node env w new_node future_time =
     (let ht = tw_ht w;
          (status, ht1) = (if th_cur_size ht + 2 \<ge> th_max_size ht then grow_heap env ht
                           else (PJ_SUCCESS, ht))
      in if status \<noteq> PJ_SUCCESS then (status, w\<lparr>tw_ht := ht1\<rparr>)
         else
           let e = tw_entries w new_node;
               timer_copy = nat (te_timer_id e);
               ht2 = ht1\<lparr>th_timer_dups := (th_timer_dups ht1)[timer_copy :=
                       \<lparr>td_dup = e, td_entry = new_node, td_timer_value = future_time,
                        td_grp_lock = None, td_src_file = [], td_src_line = 0\<rparr>]\<rparr>;
               ht3 = reheap_up ht2 timer_copy (th_cur_size ht2)
           in (PJ_SUCCESS, w\<lparr>tw_ht := ht3\<lparr>th_cur_size := th_cur_size ht3 + 1\<rparr>\<rparr>))"

definition schedule_entry ::
  "alloc_env \<Rightarrow> timer_world \<Rightarrow> nat \<Rightarrow> pj_time_val \<Rightarrow> pj_status_t \<times> timer_world" where
  "schedule_entry env w entry future_time =
     (if th_cur_size (tw_ht w) < th_max_size (tw_ht w) then
        let (new_id, ht1) = pop_freelist (tw_ht w);
            w1 = w\<lparr>tw_ht := ht1,
                   tw_entries := (tw_entries w)(entry := (tw_entries w entry)\<lparr>te_timer_id := new_id\<rparr>)\<rparr>
        in insert_node env w1 entry future_time
      else (-1, w))"

definition cancel ::
  "(timer_world \<Rightarrow> nat \<Rightarrow> timer_world) \<Rightarrow> timer_world \<Rightarrow> nat \<Rightarrow> u32 \<Rightarrow> int \<times> timer_world" where
  "cancel close_hook w entry flags =
     (let ht = tw_ht w;
          timer_node_slot = th_timer_ids ht ! nat (te_timer_id (tw_entries w entry));
          reset = w\<lparr>tw_entries := (tw_entries w)(entry := (tw_entries w entry)\<lparr>te_timer_id := -1\<rparr>)\<rparr>
      in if timer_node_slot < 0 then (0, reset)
         else if entry \<noteq> td_entry (th_timer_dups ht ! (th_heap ht ! nat timer_node_slot)) then (0, reset)
         else
           let (n, w1) = remove_node w (nat timer_node_slot)
           in (1, if flags AND F_DONT_CALL = 0 then close_hook w1 entry else w1))"

section \<open>The public interface\<close>

definition lock_timer_heap :: "timer_world \<Rightarrow> timer_world" where
  "lock_timer_heap w =
     (if th_lock (tw_ht w) \<noteq> None then w\<lparr>tw_lock_depth := tw_lock_depth w + 1\<rparr> else w)"

definition unlock_timer_heap :: "timer_world \<Rightarrow> timer_world" where
  "unlock_timer_heap w =
     (if th_lock (tw_ht w) \<noteq> None then w\<lparr>tw_lock_depth := tw_lock_depth w - 1\<rparr> else w)"

definition pj_gettickcount :: "timer_world \<Rightarrow> pj_time_val \<times> timer_world" where
  "pj_gettickcount w = (tw_ticks w (tw_reads w), w\<lparr>tw_reads := tw_reads w + 1\<rparr>)"

definition grp_lock_add_ref :: "timer_world \<Rightarrow> nat option \<Rightarrow> timer_world" where
  "grp_lock_add_ref w g =
     (case g of None \<Rightarrow> w | Some l \<Rightarrow> w\<lparr>tw_refs := (tw_refs w)(l := tw_refs w l + 1)\<rparr>)"

definition grp_lock_dec_ref :: "timer_world \<Rightarrow> nat option \<Rightarrow> timer_world" where
  "grp_lock_dec_ref w g =
     (case g of None \<Rightarrow> w | Some l \<Rightarrow> w\<lparr>tw_refs := (tw_refs w)(l := tw_refs w l - 1)\<rparr>)"

definition pj_timer_heap_create ::
  "alloc_env \<Rightarrow> nat \<Rightarrow> pj_timer_heap_t option" where
  "pj_timer_heap_create env count =
     (let n = count + 2 in
      if \<not> ae_heap_ok env \<or> \<not> ae_dups_ok env \<or> \<not> ae_ids_ok env then None
      else Some \<lparr>th_max_size = n, th_cur_size = 0,
                 th_max_entries_per_poll = DEFAULT_MAX_TIMED_OUT_PER_POLL,
                 th_lock = None, th_auto_delete_lock = False,
                 th_heap = replicate n 0,
                 th_timer_ids = map (\<lambda>i. - (int i + 1)) [0 ..< n],
                 th_timer_dups = map (ae_junk env) [0 ..< n],
                 th_freelist = 1\<rparr>)"

definition pj_timer_heap_destroy :: "timer_world \<Rightarrow> timer_world" where
  "pj_timer_heap_destroy w =
     (case th_lock (tw_ht w) of
        Some l \<Rightarrow> if th_auto_delete_lock (tw_ht w)
                   then w\<lparr>tw_destroyed := l # tw_destroyed w, tw_ht := (tw_ht w)\<lparr>th_lock := None\<rparr>\<rparr>
                   else w
      | None \<Rightarrow> w)"

definition pj_timer_heap_set_lock :: "timer_world \<Rightarrow> nat option \<Rightarrow> bool \<Rightarrow> timer_world" where
  "pj_timer_heap_set_lock w lock auto_del =
     (let w1 = (case th_lock (tw_ht w) of
                  Some l \<Rightarrow> if th_auto_delete_lock (tw_ht w)
                             then w\<lparr>tw_destroyed := l # tw_destroyed w\<rparr> else w
                | None \<Rightarrow> w)
      in w1\<lparr>tw_ht := (tw_ht w1)\<lparr>th_lock := lock, th_auto_delete_lock := auto_del\<rparr>\<rparr>)"

definition pj_timer_heap_set_max_timed_out_per_poll :: "timer_world \<Rightarrow> nat \<Rightarrow> nat \<times> timer_world" where
  "pj_timer_heap_set_max_timed_out_per_poll w count =
     (th_max_entries_per_poll (tw_ht w),
      w\<lparr>tw_ht := (tw_ht w)\<lparr>th_max_entries_per_poll := count\<rparr>\<rparr>)"

definition pj_timer_entry_init :: "int \<Rightarrow> nat \<Rightarrow> nat option \<Rightarrow> pj_timer_entry" where
  "pj_timer_entry_init entry_id user_data cb =
     \<lparr>te_user_data = user_data, te_id = entry_id, te_cb = cb, te_timer_id = -1\<rparr>"

definition pj_timer_entry_running :: "pj_timer_entry \<Rightarrow> bool" where
  "pj_timer_entry_running e \<longleftrightarrow> te_timer_id e \<ge> 1"

definition finish_schedule ::
  "timer_world \<Rightarrow> nat \<Rightarrow> bool \<Rightarrow> int \<Rightarrow> nat option \<Rightarrow> string \<Rightarrow> int \<Rightarrow> timer_world" where
  "finish_schedule w entry set_id id_val grp_lock src_file src_line =
     (let timer_copy = nat (te_timer_id (tw_entries w entry));
          ht = tw_ht w;
          d = th_timer_dups ht ! timer_copy;
          d1 = (if set_id then d\<lparr>td_dup := (td_dup d)\<lparr>te_id := id_val\<rparr>\<rparr> else d);
          entries1 = (if set_id then (tw_entries w)(entry := (tw_entries w entry)\<lparr>te_id := id_val\<rparr>)
                      else tw_entries w);
          d2 = d1\<lparr>td_grp_lock := grp_lock, td_src_file := src_file, td_src_line := src_line\<rparr>
      in grp_lock_add_ref
           (w\<lparr>tw_ht := ht\<lparr>th_timer_dups := (th_timer_dups ht)[timer_copy := d2]\<rparr>,
              tw_entries := entries1\<rparr>) grp_lock)"

definition schedule_w_grp_lock ::
  "alloc_env \<Rightarrow> timer_world \<Rightarrow> nat \<Rightarrow> pj_time_val \<Rightarrow> bool \<Rightarrow> int \<Rightarrow> nat option \<Rightarrow> string \<Rightarrow> int
     \<Rightarrow> pj_status_t \<times> timer_world" where
  "schedule_w_grp_lock env w entry delay set_id id_val grp_lock src_file src_line =
     (if te_cb (tw_entries w entry) = None then (PJ_EINVAL, w)
      else
        let (now, w1) = pj_gettickcount w;
            expires = PJ_TIME_VAL_ADD now delay;
            w2 = lock_timer_heap w1
        in if pj_timer_entry_running (tw_entries w2 entry)
           then (PJ_EINVALIDOP, unlock_timer_heap w2)
           else
             let (status, w3) = schedule_entry env w2 entry expires;
                 w4 = (if status = PJ_SUCCESS
                       then finish_schedule w3 entry set_id id_val grp_lock src_file src_line
                       else w3)
             in (status, unlock_timer_heap w4))"

definition pj_timer_heap_schedule ::
  "alloc_env \<Rightarrow> timer_world \<Rightarrow> nat \<Rightarrow> pj_time_val \<Rightarrow> string \<Rightarrow> int \<Rightarrow> pj_status_t \<times> timer_world" where
  "pj_timer_heap_schedule env w entry delay src_file src_line =
     schedule_w_grp_lock env w entry delay False 1 None src_file src_line"

definition pj_timer_heap_schedule_w_grp_lock ::
  "alloc_env \<Rightarrow> timer_world \<Rightarrow> nat \<Rightarrow> pj_time_val \<Rightarrow> int \<Rightarrow> nat option \<Rightarrow> string \<Rightarrow> int
     \<Rightarrow> pj_status_t \<times> timer_world" where
  "pj_timer_heap_schedule_w_grp_lock env w entry delay id_val grp_lock src_file src_line =
     schedule_w_grp_lock env w entry delay True id_val grp_lock src_file src_line"

definition cancel_timer ::
  "(timer_world \<Rightarrow> nat \<Rightarrow> timer_world) \<Rightarrow> timer_world \<Rightarrow> nat \<Rightarrow> u32 \<Rightarrow> int \<Rightarrow> int \<times> timer_world" where
  "cancel_timer close_hook w entry flags id_val =
     (let w1 = lock_timer_heap w;
          tid = te_timer_id (tw_entries w1 entry)
      in if tid < 1 \<or> tid \<ge> int (th_max_size (tw_ht w1)) then (0, unlock_timer_heap w1)
         else
           let grp_lock = td_grp_lock (th_timer_dups (tw_ht w1) ! nat tid);
               (count, w2) = cancel close_hook w1 entry (flags OR F_DONT_CALL);
               w3 = (if count > 0 \<and> flags AND F_SET_ID \<noteq> 0
                     then w2\<lparr>tw_entries := (tw_entries w2)(entry := (tw_entries w2 entry)\<lparr>te_id := id_val\<rparr>)\<rparr>
                     else w2);
               w4 = (if count > 0 then grp_lock_dec_ref w3 grp_lock else w3)
           in (count, unlock_timer_heap w4))"

definition pj_timer_heap_cancel ::
  "(timer_world \<Rightarrow> nat \<Rightarrow> timer_world) \<Rightarrow> timer_world \<Rightarrow> nat \<Rightarrow> int \<times> timer_world" where
  "pj_timer_heap_cancel close_hook w entry = cancel_timer close_hook w entry 0 0"

definition pj_timer_heap_cancel_if_active ::
  "(timer_world \<Rightarrow> nat \<Rightarrow> timer_world) \<Rightarrow> timer_world \<Rightarrow> nat \<Rightarrow> int \<Rightarrow> int \<times> timer_world" where
  "pj_timer_heap_cancel_if_active close_hook w entry id_val =
     cancel_timer close_hook w entry (F_SET_ID OR F_DONT_ASSERT) id_val"

text \<open>One iteration of the loop of \<^verbatim>\<open>pj_timer_heap_poll\<close>: the earliest copy is removed, the lock is
  released around the callback, and the reference held by the copy is dropped.\<close>

definition poll_body :: "(nat \<Rightarrow> nat \<Rightarrow> timer_world \<Rightarrow> timer_world) \<Rightarrow> timer_world \<Rightarrow> timer_world" where
  "poll_body call w =
     (let (node, w1) = remove_node w 0;
          d = th_timer_dups (tw_ht w1) ! node;
          entry = td_entry d;
          grp_lock = td_grp_lock d;
          w2 = w1\<lparr>tw_ht := (tw_ht w1)\<lparr>th_timer_dups :=
                    (th_timer_dups (tw_ht w1))[node := d\<lparr>td_grp_lock := None\<rparr>]\<rparr>\<rparr>;
          e = tw_entries w2 entry;
          valid = (te_cb (td_dup d) = te_cb e \<and> te_user_data (td_dup d) = te_user_data e);
          w3 = unlock_timer_heap w2;
          w4 = (if valid then (case te_cb (tw_entries w3 entry) of Some cb \<Rightarrow> call cb entry w3 | None \<Rightarrow> w3)
                else w3);
          w5 = (if valid then grp_lock_dec_ref w4 grp_lock else w4)
      in lock_timer_heap w5)"

text \<open>The loop. A callback may raise the per-poll limit for ever, so the loop carries fuel and
  running out of it is \<^term>\<open>None\<close>.\<close>

fun poll_loop ::
  "nat \<Rightarrow> (nat \<Rightarrow> nat \<Rightarrow> timer_world \<Rightarrow> timer_world) \<Rightarrow> nat \<Rightarrow> pj_time_val \<Rightarrow> pj_time_val \<Rightarrow> timer_world
     \<Rightarrow> (nat \<times> pj_time_val \<times> timer_world) option" where
  "poll_loop 0 call count min_time_node now w = None"
| "poll_loop (Suc fuel) call count min_time_node now w =
     (if th_cur_size (tw_ht w) \<noteq> 0 \<and> PJ_TIME_VAL_LTE min_time_node now \<and>
         count < th_max_entries_per_poll (tw_ht w)
      then
        let w1 = poll_body call w
        in if th_cur_size (tw_ht w1) \<noteq> 0
           then let m = tval (tw_ht w1) (th_heap (tw_ht w1) ! 0);
                    (now1, w2) = pj_gettickcount w1
                in poll_loop fuel call (count + 1) m now1 w2
           else poll_loop fuel call (count + 1) min_time_node now w1
      else Some (count, now, w))"

definition poll_next_delay ::
  "bool \<Rightarrow> nat \<Rightarrow> pj_time_val \<Rightarrow> timer_world \<Rightarrow> pj_time_val option \<times> timer_world" where
  "poll_next_delay want count now w =
     (if \<not> want then (None, w)
      else if th_cur_size (tw_ht w) \<noteq> 0 then
        let v = tval (tw_ht w) (th_heap (tw_ht w) ! 0);
            (now1, w1) = (if count > 0 then pj_gettickcount w else (now, w));
            d = PJ_TIME_VAL_SUB v now1
        in (Some (if tv_sec d < 0 \<or> tv_msec d < 0 then Time_Val 0 0 else d), w1)
      else (Some (Time_Val PJ_MAXINT32 PJ_MAXINT32), w))"

definition pj_timer_heap_poll ::
  "nat \<Rightarrow> (nat \<Rightarrow> nat \<Rightarrow> timer_world \<Rightarrow> timer_world) \<Rightarrow> bool \<Rightarrow> timer_world
     \<Rightarrow> (nat \<times> pj_time_val option \<times> timer_world) option" where
  "pj_timer_heap_poll fuel call want w =
     (let w1 = lock_timer_heap w in
      if th_cur_size (tw_ht w1) = 0 \<and> want
      then Some (0, Some (Time_Val PJ_MAXINT32 PJ_MAXINT32), unlock_timer_heap w1)
      else
        let (now, w2) = pj_gettickcount w1;
            m = (if th_cur_size (tw_ht w2) \<noteq> 0 then tval (tw_ht w2) (th_heap (tw_ht w2) ! 0)
                 else Time_Val 0 0)
        in (case poll_loop fuel call 0 m now w2 of
              None \<Rightarrow> None
            | Some (count, now1, w3) \<Rightarrow>
                (let (nd, w4) = poll_next_delay want count now1 w3
                 in Some (count, nd, unlock_timer_heap w4))))"

definition pj_timer_heap_count :: "timer_world \<Rightarrow> nat \<times> timer_world" where
  "pj_timer_heap_count w =
     (let w1 = lock_timer_heap w in (th_cur_size (tw_ht w1), unlock_timer_heap w1))"

definition pj_timer_heap_earliest_time ::
  "timer_world \<Rightarrow> (pj_status_t \<times> pj_time_val option) \<times> timer_world" where
  "pj_timer_heap_earliest_time w =
     (let w1 = lock_timer_heap w in
      (if th_cur_size (tw_ht w1) = 0 then (PJ_ENOTFOUND, None)
       else (PJ_SUCCESS, Some (tval (tw_ht w1) (th_heap (tw_ht w1) ! 0))),
       unlock_timer_heap w1))"

end
