(* ===== verification/Pj_Timer_Inv.thy ===== *)
theory Pj_Timer_Inv
  imports Pj_Timer
begin

text \<open>
  The invariant of the timer heap and the proof that sifting restores it. The array part is
  stated over the conceptual array \<open>C\<close>, the heap array with the moved node written into
  the hole at \<open>slot\<close>: every iteration of the loops of \<^verbatim>\<open>reheap_up\<close> and \<^verbatim>\<open>reheap_down\<close> swaps
  two of its cells.
\<close>

section \<open>Tree arithmetic\<close>

lemma heap_parent_iff: "0 < i \<Longrightarrow> HEAP_PARENT i = s \<longleftrightarrow> i = 2 * s + 1 \<or> i = 2 * s + 2"
  by (auto simp: HEAP_PARENT_def)

lemma heap_parent_less: "0 < i \<Longrightarrow> HEAP_PARENT i < i"
  by (auto simp: HEAP_PARENT_def)

lemma heap_parent_0 [simp]: "HEAP_PARENT 0 = 0"
  by (simp add: HEAP_PARENT_def)

section \<open>Order of the conceptual array\<close>

definition heap_ordered :: "(nat \<Rightarrow> 'k::linorder) \<Rightarrow> nat list \<Rightarrow> nat \<Rightarrow> bool" where
  "heap_ordered k C n \<longleftrightarrow> (\<forall>i. 0 < i \<and> i < n \<longrightarrow> k (C ! HEAP_PARENT i) \<le> k (C ! i))"

definition hole_up :: "(nat \<Rightarrow> 'k::linorder) \<Rightarrow> nat list \<Rightarrow> nat \<Rightarrow> nat \<Rightarrow> bool" where
  "hole_up k C n s \<longleftrightarrow>
     (\<forall>i. 0 < i \<and> i < n \<and> i \<noteq> s \<longrightarrow> k (C ! HEAP_PARENT i) \<le> k (C ! i)) \<and>
     (\<forall>i. 0 < i \<and> i < n \<and> 0 < s \<and> HEAP_PARENT i = s \<longrightarrow> k (C ! HEAP_PARENT s) \<le> k (C ! i))"

definition hole_down :: "(nat \<Rightarrow> 'k::linorder) \<Rightarrow> nat list \<Rightarrow> nat \<Rightarrow> nat \<Rightarrow> bool" where
  "hole_down k C n s \<longleftrightarrow>
     (\<forall>i. 0 < i \<and> i < n \<and> HEAP_PARENT i \<noteq> s \<longrightarrow> k (C ! HEAP_PARENT i) \<le> k (C ! i)) \<and>
     (\<forall>i. 0 < i \<and> i < n \<and> 0 < s \<and> HEAP_PARENT i = s \<longrightarrow> k (C ! HEAP_PARENT s) \<le> k (C ! i))"

definition swap_at :: "'a list \<Rightarrow> nat \<Rightarrow> nat \<Rightarrow> 'a list" where
  "swap_at C s p = C[s := C ! p, p := C ! s]"

lemma swap_at_nth:
  "s < length C \<Longrightarrow> p < length C \<Longrightarrow>
     swap_at C s p ! i = (if i = p then C ! s else if i = s then C ! p else C ! i)"
  by (auto simp: swap_at_def nth_list_update)

lemma length_swap_at [simp]: "length (swap_at C s p) = length C"
  by (simp add: swap_at_def)

lemma hole_up_step:
  assumes up: "hole_up k C n s" and s: "0 < s" "s < n" "n \<le> length C"
    and lt: "k (C ! s) < k (C ! HEAP_PARENT s)"
  shows "hole_up k (swap_at C s (HEAP_PARENT s)) n (HEAP_PARENT s)"
proof -
  let ?p = "HEAP_PARENT s" and ?D = "swap_at C s (HEAP_PARENT s)"
  have ps: "?p < s" using s heap_parent_less by blast
  have D: "?D ! i = (if i = ?p then C ! s else if i = s then C ! ?p else C ! i)" for i
    using s ps by (intro swap_at_nth) auto
  have ord: "k (C ! HEAP_PARENT i) \<le> k (C ! i)" if "0 < i" "i < n" "i \<noteq> s" for i
    using up that by (auto simp: hole_up_def)
  have grand: "k (C ! ?p) \<le> k (C ! i)" if "0 < i" "i < n" "HEAP_PARENT i = s" for i
    using up s that by (auto simp: hole_up_def)
  have "k (?D ! HEAP_PARENT i) \<le> k (?D ! i)" if i: "0 < i" "i < n" "i \<noteq> ?p" for i
  proof -
    have "HEAP_PARENT i \<noteq> i" using heap_parent_less [OF i(1)] by simp
    consider "i = s" | "i \<noteq> s" "HEAP_PARENT i = s" | "i \<noteq> s" "HEAP_PARENT i = ?p"
      | "i \<noteq> s" "HEAP_PARENT i \<noteq> s" "HEAP_PARENT i \<noteq> ?p" by blast
    then show ?thesis
    proof cases
      case 1 then show ?thesis using lt ps by (simp add: D)
    next
      case 2 then show ?thesis using grand [OF i(1,2)] ps i(3) by (simp add: D)
    next
      case 3
      then have "k (C ! ?p) \<le> k (C ! i)" using ord [OF i(1,2)] by simp
      with 3 lt i(3) show ?thesis by (simp add: D)
    next
      case 4 then show ?thesis using ord [OF i(1,2)] i(3) by (simp add: D)
    qed
  qed
  moreover have "k (?D ! HEAP_PARENT ?p) \<le> k (?D ! i)"
    if i: "0 < i" "i < n" "0 < ?p" "HEAP_PARENT i = ?p" for i
  proof -
    have pp: "HEAP_PARENT ?p < ?p" using that heap_parent_less by blast
    have 1: "k (C ! HEAP_PARENT ?p) \<le> k (C ! ?p)" using ord [of ?p] that ps s by simp
    have "i \<noteq> ?p" using heap_parent_less [OF i(1)] i(4) by auto
    with 1 pp ps show ?thesis using ord [OF i(1,2)] i(4) by (auto simp: D)
  qed
  ultimately show ?thesis by (auto simp: hole_up_def)
qed

lemma hole_up_done:
  "hole_up k C n s \<Longrightarrow> s = 0 \<or> k (C ! HEAP_PARENT s) \<le> k (C ! s) \<Longrightarrow> heap_ordered k C n"
  by (auto simp: hole_up_def heap_ordered_def)

lemma hole_down_step:
  assumes down: "hole_down k C n s" and c: "HEAP_PARENT c = s" "0 < c" "c < n" "n \<le> length C"
    and least: "\<And>i. 0 < i \<Longrightarrow> i < n \<Longrightarrow> HEAP_PARENT i = s \<Longrightarrow> k (C ! c) \<le> k (C ! i)"
    and lt: "k (C ! c) < k (C ! s)"
  shows "hole_down k (swap_at C s c) n c"
proof -
  let ?D = "swap_at C s c"
  have sc: "s < c" using heap_parent_less c by blast
  have D: "?D ! i = (if i = c then C ! s else if i = s then C ! c else C ! i)" for i
    using c sc by (intro swap_at_nth) auto
  have ord: "k (C ! HEAP_PARENT i) \<le> k (C ! i)" if "0 < i" "i < n" "HEAP_PARENT i \<noteq> s" for i
    using down that by (auto simp: hole_down_def)
  have "k (?D ! HEAP_PARENT i) \<le> k (?D ! i)" if i: "0 < i" "i < n" "HEAP_PARENT i \<noteq> c" for i
  proof -
    have pi: "HEAP_PARENT i < i" by (rule heap_parent_less [OF i(1)])
    show ?thesis
    proof (cases "i = s")
      case True
      with down c i have "k (C ! HEAP_PARENT s) \<le> k (C ! c)" by (auto simp: hole_down_def)
      with True pi i(3) sc show ?thesis by (simp add: D)
    next
      case False
      then show ?thesis
        using least [OF i(1,2)] ord [OF i(1,2)] lt i(3) c sc pi by (auto simp: D less_imp_le)
    qed
  qed
  moreover have "k (?D ! HEAP_PARENT c) \<le> k (?D ! i)"
    if i: "0 < i" "i < n" "0 < c" "HEAP_PARENT i = c" for i
    using ord [OF i(1,2)] i(4) c(1) sc heap_parent_less [OF i(1)] by (auto simp: D)
  ultimately show ?thesis by (auto simp: hole_down_def)
qed

lemma hole_down_done:
  "hole_down k C n s \<Longrightarrow> (\<And>i. 0 < i \<Longrightarrow> i < n \<Longrightarrow> HEAP_PARENT i = s \<Longrightarrow> k (C ! s) \<le> k (C ! i)) \<Longrightarrow>
     heap_ordered k C n"
  by (auto simp: hole_down_def heap_ordered_def)

lemma heap_ordered_root: "heap_ordered k C n \<Longrightarrow> i < n \<Longrightarrow> k (C ! 0) \<le> k (C ! i)"
proof (induction i rule: less_induct)
  case (less i)
  show ?case
  proof (cases "i = 0")
    case False
    then have p: "HEAP_PARENT i < i" by (simp add: heap_parent_less)
    have "k (C ! 0) \<le> k (C ! HEAP_PARENT i)" using less.IH [OF p less.prems(1)] less.prems p by simp
    also have "\<dots> \<le> k (C ! i)" using less.prems False by (simp add: heap_ordered_def)
    finally show ?thesis .
  qed simp
qed

section \<open>Where the copies are\<close>

definition node_ok :: "pj_timer_heap_t \<Rightarrow> nat \<Rightarrow> bool" where
  "node_ok ht d \<longleftrightarrow> 1 \<le> d \<and> d < length (th_timer_ids ht) \<and> dup_timer_id ht d = int d"

definition inj_upto :: "nat list \<Rightarrow> nat \<Rightarrow> bool" where
  "inj_upto C n \<longleftrightarrow> (\<forall>i<n. \<forall>j<n. C ! i = C ! j \<longrightarrow> i = j)"

abbreviation nodes :: "nat list \<Rightarrow> nat \<Rightarrow> nat set" where
  "nodes C n \<equiv> (!) C ` {..<n}"

definition conc :: "pj_timer_heap_t \<Rightarrow> nat \<Rightarrow> nat \<Rightarrow> nat list" where
  "conc ht s m = (th_heap ht)[s := m]"

definition placed :: "pj_timer_heap_t \<Rightarrow> nat list \<Rightarrow> nat \<Rightarrow> nat \<Rightarrow> bool" where
  "placed ht C n s \<longleftrightarrow> n \<le> length C \<and> s < n \<and> inj_upto C n \<and> (\<forall>i<n. node_ok ht (C ! i)) \<and>
     (\<forall>i<n. i \<noteq> s \<longrightarrow> th_timer_ids ht ! (C ! i) = int i)"

lemma nth_update_outside: "x \<notin> nodes C n \<Longrightarrow> i < n \<Longrightarrow> xs[C ! i := v] ! x = xs ! x"
  by (metis imageI lessThan_iff nth_list_update_neq)

lemma node_ok_copy [simp]: "node_ok (copy_node ht s d) = node_ok ht"
  by (auto simp: node_ok_def copy_node_def dup_timer_id_def fun_eq_iff)

lemma copy_node_ids:
  "node_ok ht d \<Longrightarrow> th_timer_ids (copy_node ht s d) = (th_timer_ids ht)[d := int s]"
  by (simp add: copy_node_def node_ok_def)

lemma conc_step:
  "s < length (th_heap ht) \<Longrightarrow> p \<noteq> s \<Longrightarrow>
     conc (copy_node ht s (th_heap ht ! p)) p m = swap_at (conc ht s m) s p"
  by (simp add: conc_def swap_at_def list_update_overwrite)

lemma inj_upto_swap:
  "inj_upto C n \<Longrightarrow> s < n \<Longrightarrow> p < n \<Longrightarrow> n \<le> length C \<Longrightarrow> inj_upto (swap_at C s p) n"
  unfolding inj_upto_def by (simp add: swap_at_nth) metis

lemma nodes_swap:
  assumes "s < n" "p < n" "n \<le> length C"
  shows "nodes (swap_at C s p) n = nodes C n"
proof
  show "nodes (swap_at C s p) n \<subseteq> nodes C n"
    using assms by (auto simp: swap_at_nth)
  show "nodes C n \<subseteq> nodes (swap_at C s p) n"
  proof
    fix x assume "x \<in> nodes C n"
    then obtain i where i: "i < n" "x = C ! i" by auto
    define j where "j = (if i = s then p else if i = p then s else i)"
    have "j < n" "swap_at C s p ! j = x"
      using assms i by (auto simp: j_def swap_at_nth)
    then show "x \<in> nodes (swap_at C s p) n" by blast
  qed
qed

lemma placed_step:
  assumes pl: "placed ht C n s" and C: "C = conc ht s m" and p: "p < n" "p \<noteq> s"
  shows "placed (copy_node ht s (th_heap ht ! p)) (swap_at C s p) n p"
proof -
  have len: "n \<le> length C" "s < n" using pl by (auto simp: placed_def)
  have Cp: "th_heap ht ! p = C ! p" using p by (simp add: C conc_def)
  have ok: "node_ok ht (C ! p)" using pl p by (auto simp: placed_def)
  have "inj_upto (swap_at C s p) n"
    using pl p len by (intro inj_upto_swap) (auto simp: placed_def)
  moreover have "node_ok ht (swap_at C s p ! i)" if "i < n" for i
    using pl p len that by (auto simp: placed_def swap_at_nth)
  moreover have "(th_timer_ids ht)[C ! p := int s] ! (swap_at C s p ! i) = int i"
    if i: "i < n" "i \<noteq> p" for i
  proof (cases "i = s")
    case True
    with ok p len show ?thesis by (simp add: swap_at_nth node_ok_def)
  next
    case False
    with pl i p have "C ! i \<noteq> C ! p" by (auto simp: placed_def inj_upto_def)
    with False i pl p len show ?thesis by (auto simp: swap_at_nth placed_def)
  qed
  ultimately show ?thesis
    using len p Cp ok by (auto simp: placed_def copy_node_ids)
qed

text \<open>What a completed sift establishes.\<close>

definition sift_ok :: "pj_timer_heap_t \<Rightarrow> pj_timer_heap_t \<Rightarrow> nat list \<Rightarrow> nat \<Rightarrow> bool" where
  "sift_ok ht ht' C n \<longleftrightarrow>
     ht' = ht\<lparr>th_heap := th_heap ht', th_timer_ids := th_timer_ids ht'\<rparr> \<and>
     length (th_heap ht') = length (th_heap ht) \<and>
     length (th_timer_ids ht') = length (th_timer_ids ht) \<and>
     nodes (th_heap ht') n = nodes C n \<and> inj_upto (th_heap ht') n \<and>
     (\<forall>i<n. th_timer_ids ht' ! (th_heap ht' ! i) = int i) \<and>
     (\<forall>x. x \<notin> nodes C n \<longrightarrow> th_timer_ids ht' ! x = th_timer_ids ht ! x) \<and>
     heap_ordered (tval ht) (th_heap ht') n"

lemma sift_ok_finish:
  assumes pl: "placed ht C n s" and C: "C = conc ht s m" and o: "heap_ordered (tval ht) C n"
  shows "sift_ok ht (copy_node ht s m) C n"
proof -
  have len: "n \<le> length (th_heap ht)" "s < n" using pl by (auto simp: placed_def C conc_def)
  have m: "C ! s = m" using len by (simp add: C conc_def)
  have ok: "node_ok ht m" using pl m by (auto simp: placed_def)
  have h: "th_heap (copy_node ht s m) = C" by (simp add: C conc_def)
  have ids: "(th_timer_ids ht)[m := int s] ! (C ! i) = int i" if "i < n" for i
  proof (cases "i = s")
    case True with ok m show ?thesis by (simp add: node_ok_def)
  next
    case False
    with pl that len m have "C ! i \<noteq> m" by (auto simp: placed_def inj_upto_def)
    with False pl that show ?thesis by (simp add: placed_def)
  qed
  have fr: "(th_timer_ids ht)[m := int s] ! x = th_timer_ids ht ! x" if "x \<notin> nodes C n" for x
    using nth_update_outside [OF that len(2)] m by simp
  show ?thesis
    unfolding sift_ok_def h copy_node_ids [OF ok]
    using ids fr pl o ok by (auto simp: placed_def copy_node_def C conc_def node_ok_def)
qed

lemma sift_ok_trans:
  assumes pl: "placed ht C n s" and p: "p < n" and d: "d = C ! p"
    and step: "sift_ok (copy_node ht s d) ht' (swap_at C s p) n"
  shows "sift_ok ht ht' C n"
proof -
  have len: "n \<le> length C" "s < n" using pl by (auto simp: placed_def)
  have ok: "node_ok ht d" using pl p d by (auto simp: placed_def)
  have n: "nodes (swap_at C s p) n = nodes C n" by (rule nodes_swap) (use len p in auto)
  have eq: "ht' = (copy_node ht s d)\<lparr>th_heap := th_heap ht', th_timer_ids := th_timer_ids ht'\<rparr>"
    using step by (simp add: sift_ok_def)
  have "ht' = ht\<lparr>th_heap := th_heap ht', th_timer_ids := th_timer_ids ht'\<rparr>"
    by (subst eq) (simp add: copy_node_def)
  moreover have "(th_timer_ids ht)[d := int s] ! x = th_timer_ids ht ! x" if "x \<notin> nodes C n" for x
    using nth_update_outside [OF that p] d by simp
  ultimately show ?thesis
    using step by (simp add: sift_ok_def n copy_node_ids [OF ok])
qed

lemma reheap_up_ok:
  "placed ht C n s \<Longrightarrow> C = conc ht s m \<Longrightarrow> hole_up (tval ht) C n s \<Longrightarrow>
     sift_ok ht (reheap_up ht m s) C n"
proof (induction ht m s arbitrary: C rule: reheap_up.induct)
  case (1 ht m s)
  have len: "n \<le> length C" "s < n" using "1.prems"(1) by (auto simp: placed_def)
  have Cs: "C ! s = m" using len "1.prems"(2) by (auto simp: conc_def)
  show ?case
  proof (cases "0 < s \<and> tval ht m < tval ht (th_heap ht ! HEAP_PARENT s)")
    case True
    define p where "p = HEAP_PARENT s"
    have p: "p < n" "p \<noteq> s" "p < s" using heap_parent_less [of s] True len by (auto simp: p_def)
    have Cp: "th_heap ht ! p = C ! p" using p "1.prems"(2) by (simp add: conc_def)
    let ?ht = "copy_node ht s (th_heap ht ! p)"
    have "sift_ok ?ht (reheap_up ?ht m p) (swap_at C s p) n"
    proof (rule "1.IH" [of p, folded p_def])
      show "placed ?ht (swap_at C s p) n p" by (rule placed_step [OF "1.prems"(1,2) p(1,2)])
      show "swap_at C s p = conc ?ht p m" using len "1.prems"(2) p(2)
        by (simp add: conc_step [of s ht p m] conc_def [of ht s])
      show "hole_up (tval ?ht) (swap_at C s p) n p"
        using hole_up_step [OF "1.prems"(3), folded p_def] True len Cs Cp by (simp add: p_def)
    qed (use True p_def in auto)
    then have "sift_ok ht (reheap_up ?ht m p) C n"
      by (intro sift_ok_trans [OF "1.prems"(1) p(1) Cp])
    with True show ?thesis by (subst reheap_up.simps) (simp add: p_def Let_def)
  next
    case False
    have "th_heap ht ! HEAP_PARENT s = C ! HEAP_PARENT s" if "0 < s"
      using heap_parent_less [OF that] "1.prems"(2) by (simp add: conc_def)
    with False Cs have "s = 0 \<or> tval ht (C ! HEAP_PARENT s) \<le> tval ht (C ! s)"
      by (cases "s = 0") auto
    with "1.prems" have "sift_ok ht (copy_node ht s m) C n"
      by (intro sift_ok_finish hole_up_done)
    with False show ?thesis by (subst reheap_up.simps) (auto simp: Let_def)
  qed
qed

lemma reheap_up_cur_size [simp]: "th_cur_size (reheap_up ht m s) = th_cur_size ht"
proof (induction ht m s rule: reheap_up.induct)
  case (1 ht m s)
  then show ?case by (subst reheap_up.simps) (auto simp: Let_def)
qed

definition least_child :: "pj_timer_heap_t \<Rightarrow> nat \<Rightarrow> nat" where
  "least_child ht child =
     (if child + 1 < th_cur_size ht \<and>
         tval ht (th_heap ht ! (child + 1)) < tval ht (th_heap ht ! child)
      then child + 1 else child)"

lemma reheap_down_unfold:
  "reheap_down ht m s child =
     (if child < th_cur_size ht \<and> tval ht (th_heap ht ! least_child ht child) < tval ht m
      then reheap_down (copy_node ht s (th_heap ht ! least_child ht child)) m
             (least_child ht child) (HEAP_LEFT (least_child ht child))
      else copy_node ht s m)"
  by (subst reheap_down.simps) (simp add: least_child_def Let_def)

lemma least_child_props:
  assumes "HEAP_LEFT s < th_cur_size ht"
  shows "HEAP_PARENT (least_child ht (HEAP_LEFT s)) = s" "0 < least_child ht (HEAP_LEFT s)"
    "least_child ht (HEAP_LEFT s) < th_cur_size ht" "s < least_child ht (HEAP_LEFT s)"
  using assms by (auto simp: least_child_def HEAP_LEFT_def heap_parent_iff)

lemma least_child_least:
  assumes "0 < i" "i < th_cur_size ht" "HEAP_PARENT i = s"
  shows "HEAP_LEFT s < th_cur_size ht \<and>
     tval ht (th_heap ht ! least_child ht (HEAP_LEFT s)) \<le> tval ht (th_heap ht ! i)"
  using assms by (auto simp: heap_parent_iff least_child_def HEAP_LEFT_def mult_2)

lemma reheap_down_ok:
  "placed ht C n s \<Longrightarrow> C = conc ht s m \<Longrightarrow> hole_down (tval ht) C n s \<Longrightarrow> n = th_cur_size ht \<Longrightarrow>
     child = HEAP_LEFT s \<Longrightarrow> sift_ok ht (reheap_down ht m s child) C n"
proof (induction ht m s child arbitrary: C rule: reheap_down.induct)
  case (1 ht m s child)
  have len: "n \<le> length C" "s < n" using "1.prems"(1) by (auto simp: placed_def)
  have Cs: "C ! s = m" using len "1.prems"(2) by (auto simp: conc_def)
  have Ci: "th_heap ht ! i = C ! i" if "i \<noteq> s" for i
    using that "1.prems"(2) by (simp add: conc_def)
  define c where "c = least_child ht child"
  have least: "tval ht (C ! c) \<le> tval ht (C ! i) \<and> child < n"
    if "0 < i" "i < n" "HEAP_PARENT i = s" for i
    using least_child_least [of i ht s] least_child_props(4) [of s ht] that "1.prems"(4,5)
      heap_parent_less [OF that(1)] by (simp add: c_def Ci)
  show ?case
  proof (cases "child < th_cur_size ht \<and> tval ht (th_heap ht ! c) < tval ht m")
    case True
    have c': "HEAP_PARENT c = s" "0 < c" "c < n" "c \<noteq> s"
      using least_child_props [of s ht] True "1.prems"(4,5) by (auto simp: c_def)
    have Cc: "th_heap ht ! c = C ! c" by (rule Ci [OF c'(4)])
    let ?ht = "copy_node ht s (th_heap ht ! c)"
    have "sift_ok ?ht (reheap_down ?ht m c (HEAP_LEFT c)) (swap_at C s c) n"
    proof (rule "1.IH" [of c])
      show "placed ?ht (swap_at C s c) n c" by (rule placed_step [OF "1.prems"(1,2) c'(3,4)])
      show "swap_at C s c = conc ?ht c m" using len "1.prems"(2) c'(4)
        by (simp add: conc_step [of s ht c m] conc_def [of ht s])
      show "hole_down (tval ?ht) (swap_at C s c) n c"
        using hole_down_step [OF "1.prems"(3) c'(1-3) len(1)] least True Cs Cc by simp
    qed (use True "1.prems"(4) in \<open>auto simp: c_def least_child_def\<close>)
    then have "sift_ok ht (reheap_down ?ht m c (HEAP_LEFT c)) C n"
      by (intro sift_ok_trans [OF "1.prems"(1) c'(3) Cc])
    with True show ?thesis by (subst reheap_down_unfold) (simp add: c_def)
  next
    case False
    have "tval ht (C ! s) \<le> tval ht (C ! i)" if "0 < i" "i < n" "HEAP_PARENT i = s" for i
    proof -
      have "c \<noteq> s" using least_child_props(4) [of s ht] least [OF that] "1.prems"(4,5)
        by (auto simp: c_def)
      then show ?thesis using False least [OF that] "1.prems"(4) Cs Ci [of c] by auto
    qed
    with "1.prems" have "sift_ok ht (copy_node ht s m) C n"
      by (intro sift_ok_finish hole_down_done)
    with False show ?thesis by (subst reheap_down_unfold) (auto simp: c_def)
  qed
qed

end
