(* ===== verification/Pj_Timer_Ops.thy ===== *)
theory Pj_Timer_Ops
  imports Pj_Timer_Inv
begin

text \<open>
  The invariant of the whole timer heap structure: the heap array and the id array point at
  each other, the array is heap ordered, and the ids not in use form the free list threaded
  through the id array with negated links. Every operation keeps it. The abstract view is
  the finite map from timer ids to the scheduled copies.
\<close>

section \<open>Invariant and abstraction\<close>

fun free_path :: "int list \<Rightarrow> int \<Rightarrow> nat list \<Rightarrow> bool" where
  "free_path ids f [] \<longleftrightarrow> f = int (length ids)"
| "free_path ids f (x # xs) \<longleftrightarrow>
     f = int x \<and> 1 \<le> x \<and> x < length ids \<and> free_path ids (- (ids ! x)) xs"

definition free_ok :: "pj_timer_heap_t \<Rightarrow> nat set \<Rightarrow> bool" where
  "free_ok ht X \<longleftrightarrow> (\<exists>fs. free_path (th_timer_ids ht) (th_freelist ht) fs \<and> distinct fs \<and>
     set fs = {1..<th_max_size ht} - X)"

definition lengths_ok :: "pj_timer_heap_t \<Rightarrow> bool" where
  "lengths_ok ht \<longleftrightarrow> length (th_heap ht) = th_max_size ht \<and>
     length (th_timer_ids ht) = th_max_size ht \<and> length (th_timer_dups ht) = th_max_size ht \<and>
     th_cur_size ht + 2 \<le> th_max_size ht"

definition heap_ok :: "pj_timer_heap_t \<Rightarrow> nat \<Rightarrow> bool" where
  "heap_ok ht n \<longleftrightarrow> inj_upto (th_heap ht) n \<and> (\<forall>i<n. node_ok ht (th_heap ht ! i)) \<and>
     (\<forall>i<n. th_timer_ids ht ! (th_heap ht ! i) = int i) \<and> heap_ordered (tval ht) (th_heap ht) n"

abbreviation active :: "pj_timer_heap_t \<Rightarrow> nat set" where
  "active ht \<equiv> nodes (th_heap ht) (th_cur_size ht)"

definition th_inv :: "pj_timer_heap_t \<Rightarrow> bool" where
  "th_inv ht \<longleftrightarrow> lengths_ok ht \<and> heap_ok ht (th_cur_size ht) \<and> free_ok ht (active ht)"

definition scheduled :: "pj_timer_heap_t \<Rightarrow> nat \<rightharpoonup> pj_timer_entry_dup" where
  "scheduled ht d = (if d \<in> active ht then Some (th_timer_dups ht ! d) else None)"

section \<open>Free list\<close>

lemma free_path_cong:
  "free_path ids f fs \<Longrightarrow> length ids' = length ids \<Longrightarrow> (\<And>x. x \<in> set fs \<Longrightarrow> ids' ! x = ids ! x) \<Longrightarrow>
     free_path ids' f fs"
  by (induction ids f fs rule: free_path.induct) auto

lemma free_path_grow_tail:
  "n = length ids \<Longrightarrow> m \<ge> n \<Longrightarrow> 1 \<le> n \<Longrightarrow>
     ids' = ids @ map (\<lambda>i. - (int i + 1)) [n..<m] \<Longrightarrow> n \<le> k \<Longrightarrow> k \<le> m \<Longrightarrow>
     free_path ids' (int k) [k..<m]"
proof (induction "m - k" arbitrary: k)
  case 0
  then show ?case by simp
next
  case (Suc d)
  then have k: "k < m" by simp
  then have "[k..<m] = k # [Suc k..<m]" by (simp add: upt_conv_Cons)
  moreover have "ids' ! k = - (int k + 1)" using Suc k by (simp add: nth_append)
  moreover have "free_path ids' (int (Suc k)) [Suc k..<m]"
    by (rule Suc.hyps(1)) (use Suc.prems Suc.hyps(2) k in auto)
  moreover have "- (- (int k + 1)) = int (Suc k)" by simp
  moreover have "1 \<le> k" "k < length ids'" using Suc.prems k by auto
  ultimately show ?case by (simp only: free_path.simps)
qed

lemma free_path_grow:
  "free_path ids f fs \<Longrightarrow> 1 \<le> length ids \<Longrightarrow> length ids \<le> m \<Longrightarrow>
     free_path (ids @ map (\<lambda>i. - (int i + 1)) [length ids..<m]) f (fs @ [length ids..<m])"
proof (induction ids f fs rule: free_path.induct)
  case (1 ids f)
  then show ?case using free_path_grow_tail [of "length ids" ids m] by simp
next
  case (2 ids f x xs)
  then show ?case by (auto simp: nth_append)
qed

lemma free_ok_nonempty:
  assumes "free_ok ht X" "X \<subseteq> {1..<th_max_size ht}" "finite X" "card X + 2 \<le> th_max_size ht"
  obtains x fs where "free_path (th_timer_ids ht) (th_freelist ht) (x # fs)" "distinct (x # fs)"
    "set (x # fs) = {1..<th_max_size ht} - X"
proof -
  obtain fs where fs: "free_path (th_timer_ids ht) (th_freelist ht) fs" "distinct fs"
    "set fs = {1..<th_max_size ht} - X" using assms(1) by (auto simp: free_ok_def)
  have "card ({1..<th_max_size ht} - X) = th_max_size ht - 1 - card X"
    using assms by (simp add: card_Diff_subset)
  with assms(4) fs have "fs \<noteq> []" by (metis One_nat_def add_2_eq_Suc' card.empty diff_diff_eq diff_is_0_eq
      list.set(1) not_less_eq_eq plus_1_eq_Suc)
  with fs that show thesis by (cases fs) auto
qed

lemma card_nodes: "inj_upto C n \<Longrightarrow> card (nodes C n) = n"
  by (subst card_image) (auto simp: inj_upto_def inj_on_def)

lemma finite_nodes [simp]: "finite (nodes C n)"
  by simp

lemma active_range: "heap_ok ht n \<Longrightarrow> lengths_ok ht \<Longrightarrow> nodes (th_heap ht) n \<subseteq> {1..<th_max_size ht}"
  by (auto simp: heap_ok_def node_ok_def lengths_ok_def)

section \<open>Creation\<close>

lemma create_inv:
  assumes "pj_timer_heap_create env count = Some ht"
  shows "th_inv ht" "scheduled ht = Map.empty"
proof -
  let ?n = "count + 2"
  have ht: "th_max_size ht = ?n" "th_cur_size ht = 0" "th_heap ht = replicate ?n 0"
    "th_timer_ids ht = map (\<lambda>i. - (int i + 1)) [0..<?n]" "length (th_timer_dups ht) = ?n"
    "th_freelist ht = 1"
    using assms by (auto simp: pj_timer_heap_create_def Let_def split: if_splits)
  have ids: "th_timer_ids ht = [-1] @ map (\<lambda>i. - (int i + 1)) [1..<?n]"
    by (simp add: ht upt_conv_Cons del: upt_Suc)
  have "free_path (th_timer_ids ht) (int 1) [1..<?n]"
    by (rule free_path_grow_tail [where n = 1 and ids = "[-1]"]) (simp_all add: ids)
  then have "free_ok ht {}" by (auto simp: free_ok_def ht intro!: exI [of _ "[1..<?n]"])
  then show "th_inv ht" by (simp add: th_inv_def lengths_ok_def heap_ok_def inj_upto_def
        heap_ordered_def ht)
  show "scheduled ht = Map.empty" by (simp add: scheduled_def fun_eq_iff ht)
qed

section \<open>Removal\<close>

text \<open>The heap structure just before the array is repaired: the id is on the free list, the size
  is one less, the copy's id is reset.\<close>

definition unlinked :: "pj_timer_heap_t \<Rightarrow> nat \<Rightarrow> pj_timer_heap_t" where
  "unlinked ht r =
     ht\<lparr>th_timer_ids := (th_timer_ids ht)[nat (dup_timer_id ht r) := - th_freelist ht],
        th_freelist := dup_timer_id ht r,
        th_cur_size := th_cur_size ht - 1,
        th_timer_dups := (th_timer_dups ht)[r := (th_timer_dups ht ! r)
          \<lparr>td_dup := (td_dup (th_timer_dups ht ! r))\<lparr>te_timer_id := -1\<rparr>\<rparr>]\<rparr>"

definition repaired :: "pj_timer_heap_t \<Rightarrow> nat \<Rightarrow> pj_timer_heap_t" where
  "repaired ht slot =
     (if slot < th_cur_size ht then
        let m = th_heap ht ! th_cur_size ht; h = copy_node ht slot m
        in if tval h (th_heap h ! HEAP_PARENT slot) \<le> tval h m
           then reheap_down h m slot (HEAP_LEFT slot) else reheap_up h m slot
      else ht)"

lemma remove_node_eq:
  "remove_node w slot =
     (let r = th_heap (tw_ht w) ! slot; id = dup_timer_id (tw_ht w) r;
          e = td_entry (th_timer_dups (tw_ht w) ! r)
      in (r, w\<lparr>tw_ht := repaired (unlinked (tw_ht w) r) slot,
               tw_entries := (if id \<noteq> te_timer_id (tw_entries w e) then tw_entries w
                 else (tw_entries w)(e := (tw_entries w e)\<lparr>te_timer_id := -1\<rparr>))\<rparr>))"
  by (simp add: remove_node_def unlinked_def repaired_def push_freelist_def Let_def)

lemma unlinked_tval [simp]: "tval (unlinked ht r) = tval ht"
  proof
  fix d show "tval (unlinked ht r) d = tval ht d"
    by (cases "d = r"; cases "r < length (th_timer_dups ht)")
       (auto simp: tval_def unlinked_def list_update_beyond)
qed

lemma unlinked_simps [simp]:
  "th_heap (unlinked ht r) = th_heap ht" "th_cur_size (unlinked ht r) = th_cur_size ht - 1"
  "th_max_size (unlinked ht r) = th_max_size ht"
  "th_freelist (unlinked ht r) = dup_timer_id ht r"
  "length (th_timer_dups (unlinked ht r)) = length (th_timer_dups ht)"
  "length (th_timer_ids (unlinked ht r)) = length (th_timer_ids ht)"
  "th_max_entries_per_poll (unlinked ht r) = th_max_entries_per_poll ht"
  "th_lock (unlinked ht r) = th_lock ht"
  "th_auto_delete_lock (unlinked ht r) = th_auto_delete_lock ht"
  by (simp_all add: unlinked_def)

lemma unlinked_other:
  "d \<noteq> r \<Longrightarrow> th_timer_dups (unlinked ht r) ! d = th_timer_dups ht ! d"
  "d \<noteq> r \<Longrightarrow> node_ok (unlinked ht r) d = node_ok ht d"
  by (auto simp: unlinked_def node_ok_def dup_timer_id_def)

lemma unlinked_ids:
  "node_ok ht r \<Longrightarrow> th_timer_ids (unlinked ht r) = (th_timer_ids ht)[r := - th_freelist ht]"
  by (simp add: unlinked_def node_ok_def)

lemma inj_upto_iff: "inj_upto C n \<Longrightarrow> i < n \<Longrightarrow> j < n \<Longrightarrow> C ! i = C ! j \<longleftrightarrow> i = j"
  by (auto simp: inj_upto_def)

lemma nodes_remove_last: "inj_upto C (Suc n) \<Longrightarrow> nodes C n = nodes C (Suc n) - {C ! n}"
  using inj_upto_iff [of C "Suc n" _ n] by (auto simp: lessThan_Suc)

lemma nodes_move_last:
  assumes inj: "inj_upto C (Suc n)" and s: "s < n" "Suc n \<le> length C"
  shows "nodes (C[s := C ! n]) n = nodes C (Suc n) - {C ! s}"
proof (intro set_eqI iffI)
  fix x assume "x \<in> nodes (C[s := C ! n]) n"
  then obtain i where i: "i < n" "x = C[s := C ! n] ! i" by auto
  then have "x = C ! (if i = s then n else i)" using s by (auto simp: nth_list_update)
  with i s inj_upto_iff [OF inj, of "if i = s then n else i" s] show "x \<in> nodes C (Suc n) - {C ! s}"
    by (auto split: if_splits)
next
  fix x assume "x \<in> nodes C (Suc n) - {C ! s}"
  then obtain i where i: "i < Suc n" "x = C ! i" "i \<noteq> s" by auto
  define j where "j = (if i = n then s else i)"
  have "x = C[s := C ! n] ! j" "j < n" using i s by (auto simp: j_def nth_list_update)
  then show "x \<in> nodes (C[s := C ! n]) n" by blast
qed

lemma inj_upto_move_last:
  assumes inj: "inj_upto C (Suc n)" and s: "s < n" "Suc n \<le> length C"
  shows "inj_upto (C[s := C ! n]) n"
  unfolding inj_upto_def
proof (intro allI impI)
  fix i j assume ij: "i < n" "j < n" "C[s := C ! n] ! i = C[s := C ! n] ! j"
  define a where "a = (if i = s then n else i)"
  define b where "b = (if j = s then n else j)"
  have "C[s := C ! n] ! i = C ! a" "C[s := C ! n] ! j = C ! b"
    using s ij(1,2) by (auto simp: a_def b_def nth_list_update)
  with ij(3) have "a = b" using inj_upto_iff [OF inj, of a b] ij(1,2) by (auto simp: a_def b_def)
  with ij(1,2) show "i = j" by (auto simp: a_def b_def split: if_splits)
qed

lemma heap_ordered_hole:
  assumes o: "heap_ordered k C (Suc n)" and s: "s < n" "Suc n \<le> length C"
  shows "k (C ! HEAP_PARENT s) \<le> k (C ! n) \<or> s = 0 \<Longrightarrow> hole_down k (C[s := C ! n]) n s"
    and "0 < s \<Longrightarrow> k (C ! n) < k (C ! HEAP_PARENT s) \<Longrightarrow> hole_up k (C[s := C ! n]) n s"
proof -
  let ?D = "C[s := C ! n]"
  have ord: "k (C ! HEAP_PARENT i) \<le> k (C ! i)" if "0 < i" "i < Suc n" for i
    using o that by (simp add: heap_ordered_def)
  have D: "?D ! i = (if i = s then C ! n else C ! i)" for i
    using s by (auto simp: nth_list_update)
  have ne: "HEAP_PARENT i \<noteq> i" if "0 < i" for i using heap_parent_less [OF that] by simp
  have grand: "k (?D ! HEAP_PARENT s) \<le> k (?D ! i)"
    if i: "0 < i" "i < n" "0 < s" "HEAP_PARENT i = s" for i
  proof -
    have "k (C ! HEAP_PARENT s) \<le> k (C ! s)" using ord [of s] that s by simp
    also have "\<dots> \<le> k (C ! i)" using ord [of i] that by simp
    finally show ?thesis using ne [OF that(1)] ne [OF that(3)] that by (auto simp: D)
  qed
  show "hole_down k ?D n s" if c: "k (C ! HEAP_PARENT s) \<le> k (C ! n) \<or> s = 0"
  proof -
    have "k (?D ! HEAP_PARENT i) \<le> k (?D ! i)" if "0 < i" "i < n" "HEAP_PARENT i \<noteq> s" for i
      using c ord [of i] that by (simp add: D) auto
    with grand show ?thesis by (auto simp: hole_down_def)
  qed
  show "hole_up k ?D n s" if c: "0 < s" "k (C ! n) < k (C ! HEAP_PARENT s)"
  proof -
    have "k (?D ! HEAP_PARENT i) \<le> k (?D ! i)" if i: "0 < i" "i < n" "i \<noteq> s" for i
    proof (cases "HEAP_PARENT i = s")
      case True
      have "k (C ! n) \<le> k (C ! HEAP_PARENT s)" using c by simp
      also have "\<dots> \<le> k (C ! s)" using ord [of s] c s by simp
      also have "\<dots> \<le> k (C ! i)" using ord [of i] i True by simp
      finally show ?thesis using True i by (simp add: D)
    next
      case False with ord [of i] i show ?thesis by (simp add: D)
    qed
    with grand show ?thesis by (auto simp: hole_up_def)
  qed
qed

definition repair_ok :: "pj_timer_heap_t \<Rightarrow> pj_timer_heap_t \<Rightarrow> nat set \<Rightarrow> bool" where
  "repair_ok u ht' X \<longleftrightarrow> ht' = u\<lparr>th_heap := th_heap ht', th_timer_ids := th_timer_ids ht'\<rparr> \<and>
     length (th_heap ht') = length (th_heap u) \<and>
     length (th_timer_ids ht') = length (th_timer_ids u) \<and>
     heap_ok ht' (th_cur_size u) \<and> active ht' = X \<and>
     (\<forall>x. x \<notin> X \<longrightarrow> th_timer_ids ht' ! x = th_timer_ids u ! x)"

lemma repair_ok_fields:
  assumes "repair_ok u ht' X"
  shows "th_timer_dups ht' = th_timer_dups u" "th_cur_size ht' = th_cur_size u"
    "th_max_size ht' = th_max_size u" "th_freelist ht' = th_freelist u"
    "th_lock ht' = th_lock u" "th_max_entries_per_poll ht' = th_max_entries_per_poll u"
    "th_auto_delete_lock ht' = th_auto_delete_lock u" "tval ht' = tval u"
    "dup_timer_id ht' = dup_timer_id u"
proof -
  have eq: "ht' = u\<lparr>th_heap := th_heap ht', th_timer_ids := th_timer_ids ht'\<rparr>"
    using assms by (simp add: repair_ok_def)
  show "th_timer_dups ht' = th_timer_dups u" "th_cur_size ht' = th_cur_size u"
    "th_max_size ht' = th_max_size u" "th_freelist ht' = th_freelist u"
    "th_lock ht' = th_lock u" "th_max_entries_per_poll ht' = th_max_entries_per_poll u"
    "th_auto_delete_lock ht' = th_auto_delete_lock u" "tval ht' = tval u"
    "dup_timer_id ht' = dup_timer_id u"
    by (subst eq, simp add: tval_def dup_timer_id_def fun_eq_iff)+
qed

lemma sift_ok_repair:
  assumes sift: "sift_ok h ht' C (th_cur_size u)" and h: "h = u \<or> (\<exists>s. h = copy_node u s m \<and> m \<in> nodes C (th_cur_size u))"
    and ok: "\<And>i. i < th_cur_size u \<Longrightarrow> node_ok u (C ! i)"
  shows "repair_ok u ht' (nodes C (th_cur_size u))"
proof -
  let ?n = "th_cur_size u"
  have hu: "h = u\<lparr>th_heap := th_heap h, th_timer_ids := th_timer_ids h\<rparr>" "tval h = tval u"
    "dup_timer_id h = dup_timer_id u" "length (th_heap h) = length (th_heap u)"
    "length (th_timer_ids h) = length (th_timer_ids u)"
    using h by (auto simp: copy_node_def tval_def dup_timer_id_def fun_eq_iff)
  have eq: "ht' = h\<lparr>th_heap := th_heap ht', th_timer_ids := th_timer_ids ht'\<rparr>"
    using sift by (simp add: sift_ok_def)
  have e': "ht' = u\<lparr>th_heap := th_heap ht', th_timer_ids := th_timer_ids ht'\<rparr>"
    by (subst eq, subst hu(1)) simp
  have tv: "tval ht' = tval u" "dup_timer_id ht' = dup_timer_id u" "th_cur_size ht' = ?n"
    by (subst e', simp add: tval_def dup_timer_id_def fun_eq_iff)+
  have len: "length (th_timer_ids ht') = length (th_timer_ids u)" "length (th_heap ht') = length (th_heap u)"
    using sift hu by (auto simp: sift_ok_def)
  have nd: "nodes (th_heap ht') ?n = nodes C ?n" using sift by (simp add: sift_ok_def)
  have nok: "node_ok ht' (th_heap ht' ! i)" if "i < ?n" for i
  proof -
    have "th_heap ht' ! i \<in> nodes C ?n" using that nd by blast
    then show ?thesis using ok by (auto simp: node_ok_def tv len)
  qed
  have fr: "th_timer_ids ht' ! x = th_timer_ids u ! x" if "x \<notin> nodes C ?n" for x
  proof -
    have "th_timer_ids ht' ! x = th_timer_ids h ! x" using sift that by (simp add: sift_ok_def)
    also have "\<dots> = th_timer_ids u ! x"
    proof (cases "h = u")
      case False
      then obtain s where s: "h = copy_node u s m" "m \<in> nodes C ?n" using h by auto
      then obtain i where "i < ?n" "m = C ! i" by auto
      then have "node_ok u m" using ok by simp
      moreover have "x \<noteq> m" using s(2) that by metis
      ultimately show ?thesis using s(1) by (simp add: copy_node_ids)
    qed simp
    finally show ?thesis .
  qed
  show ?thesis
    using sift nok fr len e' by (auto simp: repair_ok_def heap_ok_def sift_ok_def tv hu(2))
qed

lemma repaired_ok:
  assumes inv: "th_inv ht" and slot: "slot < th_cur_size ht" and r: "r = th_heap ht ! slot"
  shows "repair_ok (unlinked ht r) (repaired (unlinked ht r) slot) (active ht - {r})"
proof -
  obtain n where n: "th_cur_size ht = Suc n" using slot by (cases "th_cur_size ht") auto
  let ?u = "unlinked ht r" and ?C = "(th_heap ht)[slot := th_heap ht ! n]"
  have H: "inj_upto (th_heap ht) (Suc n)" "heap_ordered (tval ht) (th_heap ht) (Suc n)"
    "\<And>i. i < Suc n \<Longrightarrow> node_ok ht (th_heap ht ! i)"
    "\<And>i. i < Suc n \<Longrightarrow> th_timer_ids ht ! (th_heap ht ! i) = int i"
    and len: "Suc n \<le> length (th_heap ht)"
    using inv n by (auto simp: th_inv_def heap_ok_def lengths_ok_def)
  have rok: "node_ok ht r" using H(3) slot n r by simp
  have ids: "th_timer_ids ?u = (th_timer_ids ht)[r := - th_freelist ht]" by (rule unlinked_ids [OF rok])
  have ne: "th_heap ht ! i \<noteq> r" if "i < Suc n" "i \<noteq> slot" for i
    using inj_upto_iff [OF H(1), of i slot] that slot n r by auto
  show ?thesis
  proof (cases "slot < n")
    case True
    let ?m = "th_heap ht ! n" and ?h = "copy_node ?u slot (th_heap ht ! n)"
    have C: "?C = conc ?h slot ?m" by (simp add: conc_def)
    have Cn: "?C ! i = (if i = slot then ?m else th_heap ht ! i)" for i
      using True len by (auto simp: nth_list_update)
    have mok: "node_ok ?u ?m" using unlinked_other(2) ne [of n] True H(3) by simp
    have okC: "node_ok ?u (?C ! i)" if "i < n" for i
      using unlinked_other(2) ne [of i] mok H(3) [of i] that by (simp add: Cn)
    have "(th_timer_ids ?u)[?m := int slot] ! (?C ! i) = int i" if "i < n" "i \<noteq> slot" for i
      using that ne [of i] H(4) [of i] inj_upto_iff [OF H(1), of i n] by (simp add: Cn ids)
    then have pl: "placed ?h ?C n slot"
      using True len okC inj_upto_move_last [OF H(1) True len] by (auto simp: placed_def copy_node_ids mok)
    have hp: "th_heap ?h ! HEAP_PARENT slot = (if slot = 0 then ?m else th_heap ht ! HEAP_PARENT slot)"
      using True len heap_parent_less [of slot] by (auto simp: nth_list_update)
    note hole = heap_ordered_hole [OF H(2) True len]
    have "sift_ok ?h (repaired ?u slot) ?C n"
    proof (cases "tval ht (th_heap ?h ! HEAP_PARENT slot) \<le> tval ht ?m")
      case le: True
      then have "hole_down (tval ht) ?C n slot" using hole(1) hp by (auto split: if_splits)
      then have "sift_ok ?h (reheap_down ?h ?m slot (HEAP_LEFT slot)) ?C n"
        by (intro reheap_down_ok [OF pl C]) (simp_all add: n)
      with le True show ?thesis by (simp add: repaired_def Let_def n)
    next
      case gt: False
      then have "hole_up (tval ht) ?C n slot" using hole(2) hp by (auto split: if_splits)
      then have "sift_ok ?h (reheap_up ?h ?m slot) ?C n"
        by (intro reheap_up_ok [OF pl C]) simp_all
      with gt True show ?thesis by (simp add: repaired_def Let_def n)
    qed
    moreover have "?m \<in> nodes ?C n" using True Cn [of slot] by (metis imageI lessThan_iff)
    ultimately have "repair_ok ?u (repaired ?u slot) (nodes ?C n)"
      using sift_ok_repair [of ?h "repaired ?u slot" ?C ?u ?m] okC n by auto
    then show ?thesis using nodes_move_last [OF H(1) True len] by (simp add: n r)
  next
    case False
    then have sn: "slot = n" using slot n by simp
    have "th_timer_ids ?u ! (th_heap ht ! i) = int i \<and> node_ok ?u (th_heap ht ! i)" if "i < n" for i
      using ne [of i] H(3,4) [of i] that sn by (simp add: ids unlinked_other(2))
    then have "heap_ok ?u n"
      using H(1,2) by (auto simp: heap_ok_def inj_upto_def heap_ordered_def)
    moreover have "nodes (th_heap ht) n = active ht - {r}"
      using nodes_remove_last [OF H(1)] n r sn by simp
    ultimately show ?thesis using False n by (simp add: repair_ok_def repaired_def)
  qed
qed

lemma repaired_inv:
  assumes inv: "th_inv ht" and slot: "slot < th_cur_size ht" and r: "r = th_heap ht ! slot"
    and ht': "ht' = repaired (unlinked ht r) slot"
  shows "th_inv ht'" "active ht' = active ht - {r}"
    "scheduled ht' = (scheduled ht)(r := None)"
proof -
  have ok: "repair_ok (unlinked ht r) ht' (active ht - {r})"
    using repaired_ok [OF assms(1-3)] ht' by simp
  note f = repair_ok_fields [OF ok]
  show act: "active ht' = active ht - {r}" using ok by (simp add: repair_ok_def)
  have rok: "node_ok ht r" and rin: "r \<in> active ht"
    using inv slot r by (auto simp: th_inv_def heap_ok_def)
  have rmax: "1 \<le> r" "r < th_max_size ht" using rok inv by (auto simp: node_ok_def th_inv_def lengths_ok_def)
  have ids: "th_timer_ids ht' ! x = (th_timer_ids ht)[r := - th_freelist ht] ! x"
    if "x \<notin> active ht - {r}" for x
    using ok that by (simp add: repair_ok_def unlinked_ids [OF rok])
  have len: "length (th_timer_ids ht') = length (th_timer_ids ht)"
    using ok by (simp add: repair_ok_def)
  obtain fs where fs: "free_path (th_timer_ids ht) (th_freelist ht) fs" "distinct fs"
    "set fs = {1..<th_max_size ht} - active ht" using inv by (auto simp: th_inv_def free_ok_def)
  have "r \<notin> set fs" using fs(3) rin by simp
  have "free_path (th_timer_ids ht') (th_freelist ht) fs"
  proof (rule free_path_cong [OF fs(1) len])
    fix x assume x: "x \<in> set fs"
    with \<open>r \<notin> set fs\<close> have "x \<noteq> r" by blast
    moreover have "x \<notin> active ht - {r}" using x fs(3) by blast
    ultimately show "th_timer_ids ht' ! x = th_timer_ids ht ! x" using ids by simp
  qed
  moreover have "th_timer_ids ht' ! r = - th_freelist ht"
    using ids [of r] rok by (simp add: node_ok_def)
  ultimately have "free_path (th_timer_ids ht') (th_freelist ht') (r # fs)"
    using rok f(4) len by (simp add: node_ok_def)
  moreover have "set (r # fs) = {1..<th_max_size ht'} - active ht'"
    using fs(3) f(3) act rin rmax by auto
  ultimately have "free_ok ht' (active ht')"
    using fs(2) \<open>r \<notin> set fs\<close> unfolding free_ok_def by (intro exI [of _ "r # fs"]) auto
  moreover have "lengths_ok ht'"
    using ok f inv slot by (auto simp: lengths_ok_def th_inv_def repair_ok_def)
  moreover have "heap_ok ht' (th_cur_size ht')" using ok f(2) by (simp add: repair_ok_def)
  ultimately show "th_inv ht'" by (simp add: th_inv_def)
  show "scheduled ht' = (scheduled ht)(r := None)"
    by (auto simp: scheduled_def act f(1) fun_eq_iff unlinked_other(1))
qed

end
