(* ===== verification/Pj_Timer_Sched.thy ===== *)
theory Pj_Timer_Sched
  imports Pj_Timer_Ops
begin

text \<open>
  Scheduling: taking an id from the free list, growing the arrays, and inserting the copy.
\<close>

section \<open>Taking an id\<close>

definition popped :: "pj_timer_heap_t \<Rightarrow> nat \<Rightarrow> bool" where
  "popped ht x \<longleftrightarrow> lengths_ok ht \<and> heap_ok ht (th_cur_size ht) \<and> 1 \<le> x \<and> x < th_max_size ht \<and>
     x \<notin> active ht \<and> free_ok ht (insert x (active ht))"

lemma pop_freelist_ok:
  assumes "th_inv ht"
  obtains x ht1 where "pop_freelist ht = (int x, ht1)" "popped ht1 x"
    "ht1 = ht\<lparr>th_freelist := th_freelist ht1\<rparr>"
proof -
  have inv: "lengths_ok ht" "heap_ok ht (th_cur_size ht)" "free_ok ht (active ht)"
    using assms by (auto simp: th_inv_def)
  have c: "card (active ht) = th_cur_size ht" using inv(2) by (simp add: heap_ok_def card_nodes)
  obtain x fs where fs: "free_path (th_timer_ids ht) (th_freelist ht) (x # fs)" "distinct (x # fs)"
    "set (x # fs) = {1..<th_max_size ht} - active ht"
    by (rule free_ok_nonempty [OF inv(3) active_range [OF inv(2,1)]])
       (use c inv(1) in \<open>auto simp: lengths_ok_def\<close>)
  define ht1 where "ht1 = ht\<lparr>th_freelist := - (th_timer_ids ht ! x)\<rparr>"
  have xin: "x \<in> {1..<th_max_size ht} - active ht" using fs(3) by auto
  have s: "th_heap ht1 = th_heap ht" "th_cur_size ht1 = th_cur_size ht" "th_max_size ht1 = th_max_size ht"
    "th_timer_ids ht1 = th_timer_ids ht" "th_timer_dups ht1 = th_timer_dups ht"
    "th_freelist ht1 = - (th_timer_ids ht ! x)"
    by (simp_all add: ht1_def)
  have "free_ok ht1 (insert x (active ht1))"
    unfolding free_ok_def using fs xin s by (intro exI [of _ fs]) auto
  moreover have "lengths_ok ht1" "heap_ok ht1 (th_cur_size ht1)"
    using inv by (auto simp: lengths_ok_def heap_ok_def node_ok_def dup_timer_id_def tval_def
        heap_ordered_def s)
  ultimately have "popped ht1 x" using xin by (auto simp: popped_def s)
  moreover have "pop_freelist ht = (int x, ht1)" using fs(1) by (simp add: pop_freelist_def ht1_def)
  moreover have "ht1 = ht\<lparr>th_freelist := th_freelist ht1\<rparr>" by (simp add: ht1_def)
  ultimately show thesis using that by blast
qed

section \<open>Growing\<close>

lemma free_set_grow:
  "A \<subseteq> {1..<m} \<Longrightarrow> 1 \<le> x \<Longrightarrow> x < m \<Longrightarrow>
     ({1..<m} - insert x A) \<union> {m..<m * 2} = {1..<m * (2::nat)} - insert x A"
  by (auto simp: subset_iff)

lemma grow_heap_ok:
  assumes pop: "popped ht x" and env: "ae_heap_ok env" "ae_dups_ok env" "ae_ids_ok env"
    and g: "grow_heap env ht = (st, ht')"
  shows "st = PJ_SUCCESS" "popped ht' x" "th_cur_size ht' + 3 \<le> th_max_size ht'"
    "scheduled ht' = scheduled ht" "th_cur_size ht' = th_cur_size ht" "th_lock ht' = th_lock ht"
    "th_max_entries_per_poll ht' = th_max_entries_per_poll ht"
proof -
  let ?m = "th_max_size ht"
  have L: "length (th_heap ht) = ?m" "length (th_timer_ids ht) = ?m" "length (th_timer_dups ht) = ?m"
    "th_cur_size ht + 2 \<le> ?m" using pop by (auto simp: popped_def lengths_ok_def)
  have ht': "th_timer_ids ht' = th_timer_ids ht @ map (\<lambda>i. - (int i + 1)) [?m..<?m * 2]"
    "th_timer_dups ht' = th_timer_dups ht @ map (ae_junk env) [?m..<?m * 2]"
    "th_heap ht' = take (th_cur_size ht) (th_heap ht) @ replicate (?m * 2 - th_cur_size ht) 0"
    "th_max_size ht' = ?m * 2" "th_freelist ht' = th_freelist ht"
    and cur: "th_cur_size ht' = th_cur_size ht" "th_lock ht' = th_lock ht"
      "th_max_entries_per_poll ht' = th_max_entries_per_poll ht" and st: "st = PJ_SUCCESS"
    using g env L by (auto simp: grow_heap_def Let_def)
  show "st = PJ_SUCCESS" "th_cur_size ht' = th_cur_size ht" "th_lock ht' = th_lock ht"
    "th_max_entries_per_poll ht' = th_max_entries_per_poll ht" by fact+
  show "th_cur_size ht' + 3 \<le> th_max_size ht'" using L cur ht' by simp
  have h: "th_heap ht' ! i = th_heap ht ! i" if "i < th_cur_size ht" for i
    using that L by (simp add: ht' nth_append)
  have d: "th_timer_dups ht' ! i = th_timer_dups ht ! i" if "i < ?m" for i
    using that L by (simp add: ht' nth_append)
  have act: "active ht' = active ht" using h by (auto simp: cur image_def)
  have rng: "th_heap ht ! i < ?m" if "i < th_cur_size ht" for i
    using pop that L by (auto simp: popped_def heap_ok_def node_ok_def)
  show "scheduled ht' = scheduled ht"
    using d rng by (auto simp: scheduled_def act fun_eq_iff)
  have "heap_ok ht' (th_cur_size ht')"
    unfolding heap_ok_def cur
  proof (intro conjI allI impI)
    show "inj_upto (th_heap ht') (th_cur_size ht)"
      using pop h by (auto simp: popped_def heap_ok_def inj_upto_def)
    show "heap_ordered (tval ht') (th_heap ht') (th_cur_size ht)"
      unfolding heap_ordered_def
    proof (intro allI impI)
      fix i assume i: "0 < i \<and> i < th_cur_size ht"
      then have "HEAP_PARENT i < th_cur_size ht" using heap_parent_less [of i] by simp
      with i show "tval ht' (th_heap ht' ! HEAP_PARENT i) \<le> tval ht' (th_heap ht' ! i)"
        using pop d rng by (simp add: h tval_def popped_def heap_ok_def heap_ordered_def)
    qed
  next
    fix i assume i: "i < th_cur_size ht"
    then show "node_ok ht' (th_heap ht' ! i)" "th_timer_ids ht' ! (th_heap ht' ! i) = int i"
      using pop d [OF rng [OF i]] rng [OF i] L
      by (auto simp: popped_def heap_ok_def node_ok_def dup_timer_id_def h ht'(1) nth_append)
  qed
  moreover have "free_ok ht' (insert x (active ht'))"
  proof -
    obtain fs where fs: "free_path (th_timer_ids ht) (th_freelist ht) fs" "distinct fs"
      "set fs = {1..<?m} - insert x (active ht)" using pop by (auto simp: popped_def free_ok_def)
    have "free_path (th_timer_ids ht') (th_freelist ht') (fs @ [?m..<?m * 2])"
      using free_path_grow [OF fs(1), of "?m * 2"] L by (simp add: ht')
    moreover have "distinct (fs @ [?m..<?m * 2])" using fs by auto
    moreover have "set (fs @ [?m..<?m * 2]) = {1..<th_max_size ht'} - insert x (active ht')"
      using fs(3) free_set_grow [OF active_range, of ht "th_cur_size ht" x] pop
      by (simp add: act ht'(4) popped_def)
    ultimately show ?thesis unfolding free_ok_def by blast
  qed
  moreover have "lengths_ok ht'" using L by (simp add: lengths_ok_def ht' cur)
  moreover have "1 \<le> x \<and> x < th_max_size ht' \<and> x \<notin> active ht'"
    using pop unfolding act by (simp add: popped_def ht'(4))
  ultimately show "popped ht' x" by (simp only: popped_def simp_thms)
qed

section \<open>Inserting the copy\<close>

lemma insert_copy_ok:
  assumes pop: "popped ht x" and room: "th_cur_size ht + 3 \<le> th_max_size ht"
    and D: "te_timer_id (td_dup D) = int x"
    and ht2: "ht2 = ht\<lparr>th_timer_dups := (th_timer_dups ht)[x := D]\<rparr>"
    and ht4: "ht4 = (reheap_up ht2 x (th_cur_size ht))\<lparr>th_cur_size := th_cur_size ht + 1\<rparr>"
  shows "th_inv ht4" "scheduled ht4 = (scheduled ht)(x \<mapsto> D)" "th_lock ht4 = th_lock ht"
    "th_max_entries_per_poll ht4 = th_max_entries_per_poll ht"
proof -
  let ?n = "th_cur_size ht" and ?C = "(th_heap ht)[th_cur_size ht := x]"
  have L: "length (th_heap ht) = th_max_size ht" "length (th_timer_ids ht) = th_max_size ht"
    "length (th_timer_dups ht) = th_max_size ht" using pop by (auto simp: popped_def lengths_ok_def)
  have H: "inj_upto (th_heap ht) ?n" "\<And>i. i < ?n \<Longrightarrow> node_ok ht (th_heap ht ! i)"
    "\<And>i. i < ?n \<Longrightarrow> th_timer_ids ht ! (th_heap ht ! i) = int i"
    "heap_ordered (tval ht) (th_heap ht) ?n" and x: "1 \<le> x" "x < th_max_size ht" "x \<notin> active ht"
    using pop by (auto simp: popped_def heap_ok_def)
  have ne: "th_heap ht ! i \<noteq> x" if "i < ?n" for i using x(3) that by blast
  have Cn: "?C ! i = (if i = ?n then x else th_heap ht ! i)" for i
    using L room by (auto simp: nth_list_update)
  have s: "th_heap ht2 = th_heap ht" "th_timer_ids ht2 = th_timer_ids ht"
    "th_timer_dups ht2 = (th_timer_dups ht)[x := D]" "th_cur_size ht2 = ?n"
    "th_freelist ht2 = th_freelist ht" "th_max_size ht2 = th_max_size ht"
    by (simp_all add: ht2)
  have tv: "tval ht2 d = tval ht d" "node_ok ht2 d = node_ok ht d" if "d \<noteq> x" for d
    using that by (auto simp: tval_def node_ok_def dup_timer_id_def s)
  have xok: "node_ok ht2 x" using x L D by (simp add: node_ok_def dup_timer_id_def s)
  have okC: "node_ok ht2 (?C ! i)" if "i < Suc ?n" for i
    using that xok tv(2) ne H(2) by (auto simp: Cn less_Suc_eq)
  have C: "?C = conc ht2 ?n x" by (simp add: conc_def s)
  have inj: "inj_upto ?C (Suc ?n)"
    unfolding inj_upto_def using H(1) ne
    by (auto simp: Cn less_Suc_eq inj_upto_def dest: sym)
  have pl: "placed ht2 ?C (Suc ?n) ?n"
    using L room inj okC H(3) by (auto simp: placed_def s Cn less_Suc_eq)
  have up: "hole_up (tval ht2) ?C (Suc ?n) ?n"
    unfolding hole_up_def
  proof (intro conjI allI impI)
    fix i assume i: "0 < i \<and> i < Suc ?n \<and> i \<noteq> ?n"
    then have "HEAP_PARENT i < ?n" "i < ?n" using heap_parent_less [of i] by auto
    with i H(4) ne show "tval ht2 (?C ! HEAP_PARENT i) \<le> tval ht2 (?C ! i)"
      by (simp add: Cn tv heap_ordered_def)
  next
    fix i assume "0 < i \<and> i < Suc ?n \<and> 0 < ?n \<and> HEAP_PARENT i = ?n"
    then show "tval ht2 (?C ! HEAP_PARENT ?n) \<le> tval ht2 (?C ! i)"
      using heap_parent_less [of i] by auto
  qed
  have sift: "sift_ok ht2 (reheap_up ht2 x ?n) ?C (Suc ?n)" by (rule reheap_up_ok [OF pl C up])
  let ?u = "ht2\<lparr>th_cur_size := Suc ?n\<rparr>"
  have "sift_ok ?u ht4 ?C (Suc ?n)"
  proof -
    have eq: "reheap_up ht2 x ?n = ht2\<lparr>th_heap := th_heap (reheap_up ht2 x ?n),
        th_timer_ids := th_timer_ids (reheap_up ht2 x ?n)\<rparr>" using sift by (simp add: sift_ok_def)
    have "ht4 = ?u\<lparr>th_heap := th_heap ht4, th_timer_ids := th_timer_ids ht4\<rparr>"
      unfolding ht4 by (subst eq) simp
    moreover have "tval ?u = tval ht2" by (simp add: tval_def fun_eq_iff)
    ultimately show ?thesis using sift by (simp add: sift_ok_def ht4)
  qed
  moreover have "node_ok ?u (?C ! i)" if "i < Suc ?n" for i
    using okC [OF that] by (simp add: node_ok_def dup_timer_id_def)
  ultimately have ok: "repair_ok ?u ht4 (nodes ?C (Suc ?n))"
    using sift_ok_repair [of ?u ht4 ?C ?u] by simp
  note f = repair_ok_fields [OF ok]
  have nd: "nodes ?C (Suc ?n) = insert x (active ht)"
    using Cn by (auto simp: lessThan_Suc image_def)
  have act: "active ht4 = insert x (active ht)" using ok nd by (simp add: repair_ok_def)
  have ids: "th_timer_ids ht4 ! y = th_timer_ids ht ! y" if "y \<notin> insert x (active ht)" for y
    using ok that nd by (simp add: repair_ok_def s)
  have len: "length (th_timer_ids ht4) = length (th_timer_ids ht)" using ok by (simp add: repair_ok_def s)
  obtain fs where fs: "free_path (th_timer_ids ht) (th_freelist ht) fs" "distinct fs"
    "set fs = {1..<th_max_size ht} - insert x (active ht)" using pop by (auto simp: popped_def free_ok_def)
  have "free_path (th_timer_ids ht4) (th_freelist ht4) fs"
    using free_path_cong [OF fs(1) len] fs(3) ids f(4) by (auto simp: s)
  then have "free_ok ht4 (active ht4)"
    unfolding free_ok_def act using fs f(3) by (intro exI [of _ fs]) (simp add: s)
  moreover have "lengths_ok ht4"
    using ok f L room by (auto simp: lengths_ok_def repair_ok_def s)
  moreover have "heap_ok ht4 (th_cur_size ht4)" using ok f(2) by (simp add: repair_ok_def)
  ultimately show "th_inv ht4" by (simp add: th_inv_def)
  show "scheduled ht4 = (scheduled ht)(x \<mapsto> D)"
    using x L by (auto simp: scheduled_def act f(1) s fun_eq_iff)
  show "th_lock ht4 = th_lock ht" "th_max_entries_per_poll ht4 = th_max_entries_per_poll ht"
    using f(5,6) by (simp_all add: ht2)
qed

end
