(* ===== verification/Pj_Timer_Props.thy ===== *)
theory Pj_Timer_Props
  imports Pj_Timer_Sched
begin

text \<open>
  The timer heap against its abstract specification: a finite map \<open>pending\<close> from the
  application's entries to their expiry times. Scheduling adds a binding, cancelling
  removes one, the earliest time is the least value, and polling fires the least bindings
  that have expired. The locale \<open>timer_queue\<close> states this contract and proves the
  consequences a client uses; it is interpreted on the model of the code.
\<close>

section \<open>World invariant and abstraction\<close>

definition linked :: "timer_world \<Rightarrow> bool" where
  "linked w \<longleftrightarrow>
     (\<forall>e. 1 \<le> te_timer_id (tw_entries w e) \<longrightarrow>
        (\<exists>D. scheduled (tw_ht w) (nat (te_timer_id (tw_entries w e))) = Some D \<and> td_entry D = e)) \<and>
     (\<forall>d D. scheduled (tw_ht w) d = Some D \<longrightarrow> 1 \<le> d \<and>
        te_timer_id (tw_entries w (td_entry D)) = int d \<and> te_timer_id (td_dup D) = int d)"

definition tw_inv :: "timer_world \<Rightarrow> bool" where
  "tw_inv w \<longleftrightarrow> th_inv (tw_ht w) \<and> linked w"

definition pending :: "timer_world \<Rightarrow> nat \<rightharpoonup> pj_time_val" where
  "pending w e = (if 1 \<le> te_timer_id (tw_entries w e)
     then map_option td_timer_value (scheduled (tw_ht w) (nat (te_timer_id (tw_entries w e)))) else None)"

lemma tw_inv_cong:
  "tw_ht w' = tw_ht w \<Longrightarrow> tw_entries w' = tw_entries w \<Longrightarrow> tw_inv w' = tw_inv w"
  "tw_ht w' = tw_ht w \<Longrightarrow> tw_entries w' = tw_entries w \<Longrightarrow> pending w' = pending w"
  by (auto simp: tw_inv_def linked_def pending_def fun_eq_iff)

lemma lock_simps [simp]:
  "tw_ht (lock_timer_heap w) = tw_ht w" "tw_entries (lock_timer_heap w) = tw_entries w"
  "tw_refs (lock_timer_heap w) = tw_refs w" "tw_ticks (lock_timer_heap w) = tw_ticks w"
  "tw_reads (lock_timer_heap w) = tw_reads w" "tw_destroyed (lock_timer_heap w) = tw_destroyed w"
  "tw_ht (unlock_timer_heap w) = tw_ht w" "tw_entries (unlock_timer_heap w) = tw_entries w"
  "tw_refs (unlock_timer_heap w) = tw_refs w" "tw_ticks (unlock_timer_heap w) = tw_ticks w"
  "tw_reads (unlock_timer_heap w) = tw_reads w" "tw_destroyed (unlock_timer_heap w) = tw_destroyed w"
  by (simp_all add: lock_timer_heap_def unlock_timer_heap_def)

lemma ref_simps [simp]:
  "tw_ht (grp_lock_add_ref w g) = tw_ht w" "tw_entries (grp_lock_add_ref w g) = tw_entries w"
  "tw_lock_depth (grp_lock_add_ref w g) = tw_lock_depth w"
  "tw_ht (grp_lock_dec_ref w g) = tw_ht w" "tw_entries (grp_lock_dec_ref w g) = tw_entries w"
  "tw_lock_depth (grp_lock_dec_ref w g) = tw_lock_depth w"
  "tw_ticks (grp_lock_dec_ref w g) = tw_ticks w" "tw_reads (grp_lock_dec_ref w g) = tw_reads w"
  by (simp_all add: grp_lock_add_ref_def grp_lock_dec_ref_def split: option.split)

lemma lock_depth_simps:
  "tw_lock_depth (lock_timer_heap w) = tw_lock_depth w + (if th_lock (tw_ht w) = None then 0 else 1)"
  "tw_lock_depth (unlock_timer_heap w) = tw_lock_depth w - (if th_lock (tw_ht w) = None then 0 else 1)"
  by (simp_all add: lock_timer_heap_def unlock_timer_heap_def)

lemma linkedD:
  assumes "tw_inv w" "scheduled (tw_ht w) d = Some D"
  shows "1 \<le> d" "te_timer_id (tw_entries w (td_entry D)) = int d" "te_timer_id (td_dup D) = int d"
  using assms by (auto simp: tw_inv_def linked_def)

lemma runningE:
  assumes "tw_inv w" "1 \<le> te_timer_id (tw_entries w e)"
  obtains D where "scheduled (tw_ht w) (nat (te_timer_id (tw_entries w e))) = Some D" "td_entry D = e"
  using assms unfolding tw_inv_def linked_def by blast

lemma linkedI:
  assumes "\<And>e. 1 \<le> te_timer_id (tw_entries w e) \<Longrightarrow>
      \<exists>D. scheduled (tw_ht w) (nat (te_timer_id (tw_entries w e))) = Some D \<and> td_entry D = e"
    and "\<And>d D. scheduled (tw_ht w) d = Some D \<Longrightarrow> 1 \<le> d \<and>
      te_timer_id (tw_entries w (td_entry D)) = int d \<and> te_timer_id (td_dup D) = int d"
  shows "linked w"
  using assms unfolding linked_def by blast

lemma pending_scheduled:
  assumes "tw_inv w" "scheduled (tw_ht w) d = Some D"
  shows "pending w (td_entry D) = Some (td_timer_value D)"
  using linkedD [OF assms] assms(2) by (simp add: pending_def)

lemma pendingE:
  assumes "tw_inv w" "pending w e = Some v"
  obtains d D where "scheduled (tw_ht w) d = Some D" "td_entry D = e" "td_timer_value D = v"
    "te_timer_id (tw_entries w e) = int d"
proof -
  have 1: "1 \<le> te_timer_id (tw_entries w e)" using assms(2) by (simp add: pending_def split: if_splits)
  then obtain D where D: "scheduled (tw_ht w) (nat (te_timer_id (tw_entries w e))) = Some D" "td_entry D = e"
    by (rule runningE [OF assms(1)])
  have "td_timer_value D = v" using assms(2) 1 D(1) by (simp add: pending_def)
  with D 1 that show thesis by simp
qed

lemma running_iff:
  assumes "tw_inv w"
  shows "pj_timer_entry_running (tw_entries w e) \<longleftrightarrow> pending w e \<noteq> None"
  by (cases "1 \<le> te_timer_id (tw_entries w e)")
     (auto simp: pj_timer_entry_running_def pending_def elim: runningE [OF assms])

section \<open>Removal\<close>

lemma remove_node_spec:
  assumes inv: "tw_inv w" and slot: "slot < th_cur_size (tw_ht w)"
    and rm: "remove_node w slot = (r, w')"
  shows "tw_inv w'" "r = th_heap (tw_ht w) ! slot"
    "scheduled (tw_ht w) r = Some (th_timer_dups (tw_ht w) ! r)"
    "pending w' = (pending w)(td_entry (th_timer_dups (tw_ht w) ! r) := None)"
    "td_entry (th_timer_dups (tw_ht w') ! r) = td_entry (th_timer_dups (tw_ht w) ! r)"
    "td_timer_value (th_timer_dups (tw_ht w) ! r) = tval (tw_ht w) r"
    "th_lock (tw_ht w') = th_lock (tw_ht w)" "tw_lock_depth w' = tw_lock_depth w"
    "th_max_entries_per_poll (tw_ht w') = th_max_entries_per_poll (tw_ht w)"
    "tw_ticks w' = tw_ticks w" "tw_reads w' = tw_reads w" "r \<notin> active (tw_ht w')"
    "th_cur_size (tw_ht w') = th_cur_size (tw_ht w) - 1"
proof -
  let ?ht = "tw_ht w"
  have th: "th_inv ?ht" using inv by (simp add: tw_inv_def)
  show r: "r = th_heap ?ht ! slot" using rm by (auto simp: remove_node_eq Let_def)
  let ?D = "th_timer_dups ?ht ! r"
  have rin: "r \<in> active ?ht" using slot r by blast
  show D: "scheduled ?ht r = Some ?D" using rin by (simp add: scheduled_def)
  note L = linkedD [OF inv D]
  have id: "dup_timer_id ?ht r = int r" using L by (simp add: dup_timer_id_def)
  have w': "w' = w\<lparr>tw_ht := repaired (unlinked ?ht r) slot,
      tw_entries := (tw_entries w)(td_entry ?D := (tw_entries w (td_entry ?D))\<lparr>te_timer_id := -1\<rparr>)\<rparr>"
    using rm r id L by (auto simp: remove_node_eq Let_def)
  note R = repaired_inv [OF th slot r refl]
  note F = repair_ok_fields [OF repaired_ok [OF th slot r]]
  have sch: "scheduled (tw_ht w') = (scheduled ?ht)(r := None)" using R(3) by (simp add: w')
  have other: "td_entry E \<noteq> td_entry ?D" if "scheduled ?ht d = Some E" "d \<noteq> r" for d E
    using linkedD(2) [OF inv that(1)] L(2) that(2) by auto
  have ne: "nat (te_timer_id (tw_entries w e)) \<noteq> r"
    if "1 \<le> te_timer_id (tw_entries w e)" "e \<noteq> td_entry ?D" for e
    using runningE [OF inv that(1)] D that(2) by (metis option.inject)
  have "linked w'"
  proof (rule linkedI)
    fix e assume 1: "1 \<le> te_timer_id (tw_entries w' e)"
    then have e: "e \<noteq> td_entry ?D" "tw_entries w' e = tw_entries w e" by (auto simp: w' split: if_splits)
    with 1 have 2: "1 \<le> te_timer_id (tw_entries w e)" by simp
    obtain E where "scheduled ?ht (nat (te_timer_id (tw_entries w e))) = Some E" "td_entry E = e"
      by (rule runningE [OF inv 2])
    with e ne [OF 2 e(1)] show "\<exists>D. scheduled (tw_ht w') (nat (te_timer_id (tw_entries w' e))) = Some D \<and> td_entry D = e"
      by (simp add: sch)
  next
    fix d E assume "scheduled (tw_ht w') d = Some E"
    then have E: "scheduled ?ht d = Some E" "d \<noteq> r" by (auto simp: sch split: if_splits)
    then show "1 \<le> d \<and> te_timer_id (tw_entries w' (td_entry E)) = int d \<and> te_timer_id (td_dup E) = int d"
      using linkedD [OF inv E(1)] other [OF E] by (simp add: w')
  qed
  then show inv': "tw_inv w'" using R(1) by (simp add: tw_inv_def w')
  show "pending w' = (pending w)(td_entry ?D := None)"
  proof
    fix e show "pending w' e = ((pending w)(td_entry ?D := None)) e"
    proof (cases "e = td_entry ?D")
      case True then show ?thesis by (simp add: pending_def w')
    next
      case False
      then have "tw_entries w' e = tw_entries w e" by (simp add: w')
      with False show ?thesis using ne [of e] by (auto simp: pending_def sch)
    qed
  qed
  show "td_entry (th_timer_dups (tw_ht w') ! r) = td_entry ?D"
    by (simp add: w' F(1)) (cases "r < length (th_timer_dups ?ht)";
       simp add: unlinked_def list_update_beyond)
  show "td_timer_value ?D = tval ?ht r" by (simp add: tval_def)
  show "th_lock (tw_ht w') = th_lock ?ht" "tw_lock_depth w' = tw_lock_depth w"
    "th_max_entries_per_poll (tw_ht w') = th_max_entries_per_poll ?ht"
    "tw_ticks w' = tw_ticks w" "tw_reads w' = tw_reads w"
    "th_cur_size (tw_ht w') = th_cur_size ?ht - 1" using F by (simp_all add: w')
  show "r \<notin> active (tw_ht w')" using R(2) by (simp add: w')
qed

section \<open>Scheduling\<close>

definition env_ok :: "alloc_env \<Rightarrow> bool" where
  "env_ok env \<longleftrightarrow> ae_heap_ok env \<and> ae_dups_ok env \<and> ae_ids_ok env"

lemma scheduled_field_update:
  "scheduled (ht\<lparr>th_timer_dups := (th_timer_dups ht)[x := D]\<rparr>) =
     (if x \<in> active ht \<and> x < length (th_timer_dups ht) then (scheduled ht)(x \<mapsto> D) else scheduled ht)"
proof
  fix d
  show "scheduled (ht\<lparr>th_timer_dups := (th_timer_dups ht)[x := D]\<rparr>) d = (if x \<in> active ht \<and>
      x < length (th_timer_dups ht) then (scheduled ht)(x \<mapsto> D) else scheduled ht) d"
    by (cases "d = x"; cases "x < length (th_timer_dups ht)")
       (simp_all add: scheduled_def list_update_beyond)
qed

lemma th_inv_dups_cong:
  assumes inv: "th_inv ht" and len: "length ds = length (th_timer_dups ht)"
    and v: "\<And>d. td_timer_value (ds ! d) = td_timer_value (th_timer_dups ht ! d)"
    and id: "\<And>d. d \<in> active ht \<Longrightarrow>
      te_timer_id (td_dup (ds ! d)) = te_timer_id (td_dup (th_timer_dups ht ! d))"
  shows "th_inv (ht\<lparr>th_timer_dups := ds\<rparr>)"
proof -
  let ?h = "ht\<lparr>th_timer_dups := ds\<rparr>"
  have t: "tval ?h = tval ht" using v by (simp add: tval_def fun_eq_iff)
  have "node_ok ?h d = node_ok ht d" if "d \<in> active ht" for d
    using id [OF that] len by (simp add: node_ok_def dup_timer_id_def)
  then have "heap_ok ?h (th_cur_size ht)" using inv by (auto simp: th_inv_def heap_ok_def t)
  moreover have "lengths_ok ?h" using inv len by (simp add: th_inv_def lengths_ok_def)
  moreover have "free_ok ?h (active ht)" using inv by (simp add: th_inv_def free_ok_def)
  ultimately show ?thesis by (simp add: th_inv_def)
qed

text \<open>The world after a copy \<open>D\<close> of entry \<open>e\<close> has been added under the unused id \<open>x\<close>.\<close>

lemma linked_add:
  assumes inv: "tw_inv w" and idle: "\<not> pj_timer_entry_running (tw_entries w e)"
    and x: "1 \<le> x" "scheduled (tw_ht w) x = None"
    and ht': "th_inv (tw_ht w')" "scheduled (tw_ht w') = (scheduled (tw_ht w))(x \<mapsto> D)"
    and ents: "tw_entries w' = (tw_entries w)(e := E)" "te_timer_id E = int x"
    and D: "td_entry D = e" "te_timer_id (td_dup D) = int x"
  shows "tw_inv w'" "pending w' = (pending w)(e \<mapsto> td_timer_value D)"
proof -
  have nx: "nat (te_timer_id (tw_entries w a)) \<noteq> x" if "1 \<le> te_timer_id (tw_entries w a)" for a
    using runningE [OF inv that] x(2) by (metis option.distinct(1))
  have other: "td_entry F \<noteq> e" if "scheduled (tw_ht w) d = Some F" for d F
    using linkedD [OF inv that] idle by (auto simp: pj_timer_entry_running_def)
  have "linked w'"
  proof (rule linkedI)
    fix a assume 1: "1 \<le> te_timer_id (tw_entries w' a)"
    show "\<exists>D. scheduled (tw_ht w') (nat (te_timer_id (tw_entries w' a))) = Some D \<and> td_entry D = a"
    proof (cases "a = e")
      case True then show ?thesis using ents ht' D by simp
    next
      case False
      with 1 have 2: "1 \<le> te_timer_id (tw_entries w a)" by (simp add: ents)
      from nx [OF 2] False show ?thesis using runningE [OF inv 2] by (auto simp: ents ht' elim!: runningE [OF inv 2])
    qed
  next
    fix d F assume F: "scheduled (tw_ht w') d = Some F"
    show "1 \<le> d \<and> te_timer_id (tw_entries w' (td_entry F)) = int d \<and> te_timer_id (td_dup F) = int d"
    proof (cases "d = x")
      case True then show ?thesis using F ht' D ents x by simp
    next
      case False
      with F have F': "scheduled (tw_ht w) d = Some F" by (simp add: ht')
      show ?thesis using linkedD [OF inv F'] other [OF F'] by (simp add: ents)
    qed
  qed
  with ht' show "tw_inv w'" by (simp add: tw_inv_def)
  show "pending w' = (pending w)(e \<mapsto> td_timer_value D)"
  proof
    fix a show "pending w' a = ((pending w)(e \<mapsto> td_timer_value D)) a"
      using nx [of a] x ents ht' by (cases "a = e") (auto simp: pending_def)
  qed
qed

lemma schedule_entry_spec:
  assumes inv: "tw_inv w" and env: "env_ok env" and idle: "\<not> pj_timer_entry_running (tw_entries w e)"
    and sch: "schedule_entry env w e t = (st, w')"
  shows "st = PJ_SUCCESS" "tw_inv w'" "pending w' = (pending w)(e \<mapsto> t)"
    "th_lock (tw_ht w') = th_lock (tw_ht w)" "tw_lock_depth w' = tw_lock_depth w"
    "\<exists>x. te_timer_id (tw_entries w' e) = int x \<and> 1 \<le> x"
proof -
  let ?ht = "tw_ht w"
  have th: "th_inv ?ht" using inv by (simp add: tw_inv_def)
  obtain x ht1 where pop: "pop_freelist ?ht = (int x, ht1)" "popped ht1 x"
    and ht1: "ht1 = ?ht\<lparr>th_freelist := th_freelist ht1\<rparr>" by (rule pop_freelist_ok [OF th])
  define E where "E = (tw_entries w e)\<lparr>te_timer_id := int x\<rparr>"
  define D where "D = \<lparr>td_dup = E, td_entry = e, td_timer_value = t, td_grp_lock = None,
    td_src_file = [], td_src_line = 0\<rparr>"
  obtain st2 ht2 where g: "(if th_cur_size ht1 + 2 \<ge> th_max_size ht1 then grow_heap env ht1
      else (PJ_SUCCESS, ht1)) = (st2, ht2)" by fastforce
  have sch1: "scheduled ht1 = scheduled ?ht" "th_lock ht1 = th_lock ?ht"
    by (subst ht1, simp add: scheduled_def fun_eq_iff)+
  have st2: "st2 = PJ_SUCCESS \<and> popped ht2 x \<and> th_cur_size ht2 + 3 \<le> th_max_size ht2 \<and>
      scheduled ht2 = scheduled ?ht \<and> th_lock ht2 = th_lock ?ht"
  proof (cases "th_cur_size ht1 + 2 \<ge> th_max_size ht1")
    case True
    then have "grow_heap env ht1 = (st2, ht2)" using g by simp
    from grow_heap_ok [OF pop(2) _ _ _ this] env sch1 show ?thesis by (simp add: env_ok_def)
  next
    case False
    then show ?thesis using g pop(2) sch1 by auto
  qed
  define ht4 where "ht4 = (reheap_up (ht2\<lparr>th_timer_dups := (th_timer_dups ht2)[x := D]\<rparr>) x
      (th_cur_size ht2))\<lparr>th_cur_size := th_cur_size ht2 + 1\<rparr>"
  note I = insert_copy_ok [of ht2 x D, OF _ _ _ refl ht4_def]
  have I': "th_inv ht4" "scheduled ht4 = (scheduled ?ht)(x \<mapsto> D)" "th_lock ht4 = th_lock ?ht"
    using I st2 by (auto simp: D_def E_def)
  have cur: "th_cur_size ?ht < th_max_size ?ht" using th by (simp add: th_inv_def lengths_ok_def)
  let ?w1 = "w\<lparr>tw_ht := ht1, tw_entries := (tw_entries w)(e := E)\<rparr>"
  have "(st, w') = insert_node env ?w1 e t"
    using sch cur by (simp add: schedule_entry_def pop(1) Let_def E_def)
  also have "\<dots> = (PJ_SUCCESS, w\<lparr>tw_ht := ht4, tw_entries := (tw_entries w)(e := E)\<rparr>)"
  proof -
    have w1: "tw_ht ?w1 = ht1" "tw_entries ?w1 e = E" by simp_all
    show ?thesis unfolding insert_node_def Let_def w1 g prod.case
      by (simp add: st2) (simp add: E_def D_def ht4_def)
  qed
  finally have w': "w' = w\<lparr>tw_ht := ht4, tw_entries := (tw_entries w)(e := E)\<rparr>"
    and st: "st = PJ_SUCCESS" by auto
  have "x \<notin> active ht1" "1 \<le> x" using pop(2) by (auto simp: popped_def)
  then have x: "1 \<le> x" "scheduled ?ht x = None" using sch1(1) by (auto simp: scheduled_def fun_eq_iff split: if_splits)
  have A: "tw_inv w'" "pending w' = (pending w)(e \<mapsto> td_timer_value D)"
    by (rule linked_add [OF inv idle x, where E = E and D = D]; simp add: w' I' E_def D_def)+
  show "st = PJ_SUCCESS" "tw_inv w'" "pending w' = (pending w)(e \<mapsto> t)"
    "th_lock (tw_ht w') = th_lock (tw_ht w)" "tw_lock_depth w' = tw_lock_depth w"
    "\<exists>x. te_timer_id (tw_entries w' e) = int x \<and> 1 \<le> x"
    using A st I' x by (simp_all add: w' D_def E_def)
qed

text \<open>Rewriting fields of copies that neither order nor link anything keeps invariant and view.\<close>

lemma metadata_update:
  assumes inv: "tw_inv w" and ht': "tw_ht w' = (tw_ht w)\<lparr>th_timer_dups := ds\<rparr>"
    and len: "length ds = length (th_timer_dups (tw_ht w))"
    and v: "\<And>d. td_timer_value (ds ! d) = td_timer_value (th_timer_dups (tw_ht w) ! d)"
    and id: "\<And>d. te_timer_id (td_dup (ds ! d)) = te_timer_id (td_dup (th_timer_dups (tw_ht w) ! d))"
    and en: "\<And>d. td_entry (ds ! d) = td_entry (th_timer_dups (tw_ht w) ! d)"
    and ents: "\<And>e. te_timer_id (tw_entries w' e) = te_timer_id (tw_entries w e)"
  shows "tw_inv w'" "pending w' = pending w"
proof -
  have s: "scheduled (tw_ht w') d = (if d \<in> active (tw_ht w) then Some (ds ! d) else None)"
    "scheduled (tw_ht w) d = (if d \<in> active (tw_ht w) then Some (th_timer_dups (tw_ht w) ! d) else None)" for d
    by (simp_all add: scheduled_def ht')
  have "th_inv (tw_ht w')" unfolding ht' using inv len v id by (intro th_inv_dups_cong) (auto simp: tw_inv_def)
  moreover have "linked w'"
    using inv by (auto simp: tw_inv_def linked_def s ents id en split: if_splits)
  ultimately show "tw_inv w'" by (simp add: tw_inv_def)
  show "pending w' = pending w" by (auto simp: pending_def s ents v fun_eq_iff)
qed

lemma list_update_field:
  "f D = f (xs ! x) \<Longrightarrow> f (xs[x := D] ! d) = f (xs ! d)"
  by (cases "x < length xs"; cases "d = x") (auto simp: list_update_beyond)

lemma finish_schedule_spec:
  assumes inv: "tw_inv w" and w': "w' = finish_schedule w e set_id i g file line"
  shows "tw_inv w'" "pending w' = pending w" "th_lock (tw_ht w') = th_lock (tw_ht w)"
    "tw_lock_depth w' = tw_lock_depth w"
proof -
  let ?x = "nat (te_timer_id (tw_entries w e))" and ?ds = "th_timer_dups (tw_ht w)"
  define D where "D = (if set_id then (?ds ! ?x)\<lparr>td_dup := (td_dup (?ds ! ?x))\<lparr>te_id := i\<rparr>\<rparr> else ?ds ! ?x)
      \<lparr>td_grp_lock := g, td_src_file := file, td_src_line := line\<rparr>"
  have D: "td_timer_value D = td_timer_value (?ds ! ?x)" "td_entry D = td_entry (?ds ! ?x)"
    "te_timer_id (td_dup D) = te_timer_id (td_dup (?ds ! ?x))" by (simp_all add: D_def)
  have ht: "tw_ht w' = (tw_ht w)\<lparr>th_timer_dups := ?ds[?x := D]\<rparr>"
    by (simp add: w' finish_schedule_def Let_def D_def)
  have E: "te_timer_id (tw_entries w' a) = te_timer_id (tw_entries w a)" for a
    by (simp add: w' finish_schedule_def Let_def)
  note U = list_update_field [of td_timer_value, OF D(1)] list_update_field [of td_entry, OF D(2)]
    list_update_field [of "\<lambda>d. te_timer_id (td_dup d)", OF D(3)]
  show "tw_inv w'" "pending w' = pending w"
    by (rule metadata_update [OF inv ht]; simp add: E U)+
  show "th_lock (tw_ht w') = th_lock (tw_ht w)" by (simp add: ht)
  show "tw_lock_depth w' = tw_lock_depth w" by (simp add: w' finish_schedule_def Let_def)
qed

section \<open>The interface functions against the specification\<close>

lemma schedule_ok:
  assumes inv: "tw_inv w" and env: "env_ok env" and cb: "te_cb (tw_entries w e) \<noteq> None"
    and idle: "pending w e = None"
    and sch: "schedule_w_grp_lock env w e delay set_id i g file line = (st, w')"
  shows "st = PJ_SUCCESS" "tw_inv w'"
    "pending w' = (pending w)(e \<mapsto> PJ_TIME_VAL_ADD (tw_ticks w (tw_reads w)) delay)"
    "tw_lock_depth w' = tw_lock_depth w"
proof -
  let ?t = "PJ_TIME_VAL_ADD (tw_ticks w (tw_reads w)) delay"
  define w2 where "w2 = lock_timer_heap (w\<lparr>tw_reads := tw_reads w + 1\<rparr>)"
  have w2: "tw_inv w2" "pending w2 = pending w" "th_lock (tw_ht w2) = th_lock (tw_ht w)"
    using inv tw_inv_cong [of w2 w] by (simp_all add: w2_def)
  have idle2: "\<not> pj_timer_entry_running (tw_entries w2 e)"
    using running_iff [OF w2(1)] w2(2) idle by simp
  obtain st3 w3 where s3: "schedule_entry env w2 e ?t = (st3, w3)" by fastforce
  note S = schedule_entry_spec [OF w2(1) env idle2 s3]
  define w4 where "w4 = finish_schedule w3 e set_id i g file line"
  note F = finish_schedule_spec [OF S(2) w4_def]
  have r: "st = PJ_SUCCESS" "w' = unlock_timer_heap w4"
    using sch cb idle2 s3 S(1)
    by (auto simp: schedule_w_grp_lock_def pj_gettickcount_def Let_def w4_def w2_def)
  show "st = PJ_SUCCESS" by (rule r)
  show "tw_inv w'" "pending w' = (pending w)(e \<mapsto> ?t)"
    using tw_inv_cong [of w' w4] F S w2 by (simp_all add: r)
  show "tw_lock_depth w' = tw_lock_depth w"
    using F S w2(3) by (simp add: r lock_depth_simps w2_def)
qed

lemma schedule_running:
  assumes inv: "tw_inv w" and cb: "te_cb (tw_entries w e) \<noteq> None" and run: "pending w e \<noteq> None"
  shows "schedule_w_grp_lock env w e delay set_id i g file line =
    (PJ_EINVALIDOP, w\<lparr>tw_reads := tw_reads w + 1\<rparr>)"
proof -
  have "pj_timer_entry_running (tw_entries w e)" using running_iff [OF inv] run by simp
  then show ?thesis using cb
    by (auto simp: schedule_w_grp_lock_def pj_gettickcount_def Let_def lock_timer_heap_def unlock_timer_heap_def)
qed

lemma slot_of:
  assumes "th_inv ht" "d \<in> active ht"
  obtains s where "th_timer_ids ht ! d = int s" "s < th_cur_size ht" "th_heap ht ! s = d"
    "d < th_max_size ht"
  using assms by (auto simp: th_inv_def heap_ok_def node_ok_def lengths_ok_def)

lemma cancel_ok:
  assumes inv: "tw_inv w" and run: "pending w e \<noteq> None"
    and c: "cancel_timer hook w e flags i = (n, w')"
  shows "n = 1" "tw_inv w'" "pending w' = (pending w)(e := None)" "tw_lock_depth w' = tw_lock_depth w"
proof -
  define w1 where "w1 = lock_timer_heap w"
  have w1: "tw_inv w1" "pending w1 = pending w" "tw_ht w1 = tw_ht w" "tw_entries w1 = tw_entries w"
    using inv tw_inv_cong [of w1 w] by (simp_all add: w1_def)
  obtain v where "pending w1 e = Some v" using run w1 by auto
  then obtain d D where d: "scheduled (tw_ht w1) d = Some D" "td_entry D = e"
    "te_timer_id (tw_entries w1 e) = int d" by (rule pendingE [OF w1(1)])
  have dD: "d \<in> active (tw_ht w1)" "D = th_timer_dups (tw_ht w1) ! d"
    using d(1) by (auto simp: scheduled_def split: if_splits)
  obtain s where s: "th_timer_ids (tw_ht w1) ! d = int s" "s < th_cur_size (tw_ht w1)"
    "th_heap (tw_ht w1) ! s = d" "d < th_max_size (tw_ht w1)"
    using slot_of [OF _ dD(1)] w1(1) by (auto simp: tw_inv_def)
  obtain r w2 where rm: "remove_node w1 s = (r, w2)" by fastforce
  note R = remove_node_spec [OF w1(1) s(2) rm]
  have "bit ((flags OR F_DONT_CALL) AND F_DONT_CALL) 0" by (simp add: F_DONT_CALL_def bit_simps)
  then have fl: "(flags OR F_DONT_CALL) AND F_DONT_CALL \<noteq> 0" by auto
  have c1: "cancel hook w1 e (flags OR F_DONT_CALL) = (1, w2)"
    using d s dD fl rm by (simp add: cancel_def Let_def)
  define w3 where "w3 = (if flags AND F_SET_ID \<noteq> 0
    then w2\<lparr>tw_entries := (tw_entries w2)(e := (tw_entries w2 e)\<lparr>te_id := i\<rparr>)\<rparr> else w2)"
  define w4 where "w4 = grp_lock_dec_ref w3 (td_grp_lock (th_timer_dups (tw_ht w1) ! d))"
  have nw: "n = 1" "w' = unlock_timer_heap w4"
    using c d(3) s(4) linkedD(1) [OF w1(1) d(1)] c1
    by (auto simp: cancel_timer_def Let_def w4_def w3_def simp flip: w1_def)
  have h: "tw_ht w' = tw_ht w2" by (simp add: nw w4_def w3_def)
  have "tw_inv w'" "pending w' = pending w2"
    by (rule metadata_update [OF R(1), where ds = "th_timer_dups (tw_ht w2)"];
        simp add: nw w4_def w3_def)+
  then show "n = 1" "tw_inv w'" "pending w' = (pending w)(e := None)"
    using nw R(2,4) s dD d(2) w1(2) by simp_all
  have "th_lock (tw_ht w4) = th_lock (tw_ht w)" "tw_lock_depth w4 = tw_lock_depth w1"
    using R(7,8) w1(3) by (simp_all add: w4_def w3_def)
  then show "tw_lock_depth w' = tw_lock_depth w" by (simp add: nw lock_depth_simps w1_def)
qed

lemma cancel_idle:
  assumes inv: "tw_inv w" and idle: "pending w e = None"
  shows "cancel_timer hook w e flags i = (0, w)"
proof -
  have "te_timer_id (tw_entries w e) < 1"
    using running_iff [OF inv, of e] idle by (simp add: pj_timer_entry_running_def)
  then show ?thesis by (simp add: cancel_timer_def Let_def lock_timer_heap_def unlock_timer_heap_def)
qed

end
