(* ===== verification/Pj_Timer_Poll.thy ===== *)
theory Pj_Timer_Poll
  imports Pj_Timer_Props
begin

text \<open>
  Counting, the earliest time, and polling, against the map of pending entries. A callback
  is an arbitrary function of the world; the lemmas on polling name what they rely on: that
  callbacks use the timer heap through its interface and so keep its invariant, leave its
  lock as they found it, and do not change the per-poll limit.
\<close>

section \<open>The root of the heap\<close>

lemma pending_bij:
  assumes inv: "tw_inv w"
  shows "bij_betw (\<lambda>d. td_entry (th_timer_dups (tw_ht w) ! d)) (active (tw_ht w)) (dom (pending w))"
proof (rule bij_betw_imageI)
  let ?f = "\<lambda>d. td_entry (th_timer_dups (tw_ht w) ! d)"
  have s: "scheduled (tw_ht w) d = Some (th_timer_dups (tw_ht w) ! d)" if "d \<in> active (tw_ht w)" for d
    using that by (simp add: scheduled_def)
  show "inj_on ?f (active (tw_ht w))"
    using linkedD(2) [OF inv s] by (intro inj_onI) (metis of_nat_eq_iff)
  show "?f ` active (tw_ht w) = dom (pending w)"
  proof (intro set_eqI iffI)
    fix e assume "e \<in> ?f ` active (tw_ht w)"
    then show "e \<in> dom (pending w)" using pending_scheduled [OF inv s] by auto
  next
    fix e assume "e \<in> dom (pending w)"
    then obtain v where "pending w e = Some v" by auto
    then obtain d D where "scheduled (tw_ht w) d = Some D" "td_entry D = e" by (rule pendingE [OF inv])
    then show "e \<in> ?f ` active (tw_ht w)" by (auto simp: scheduled_def split: if_splits)
  qed
qed

lemma cur_size_pending:
  assumes "tw_inv w"
  shows "th_cur_size (tw_ht w) = card (dom (pending w))" "finite (dom (pending w))"
proof -
  have "card (active (tw_ht w)) = th_cur_size (tw_ht w)"
    using assms by (simp add: tw_inv_def th_inv_def heap_ok_def card_nodes)
  then show "th_cur_size (tw_ht w) = card (dom (pending w))"
    using bij_betw_same_card [OF pending_bij [OF assms]] by simp
  show "finite (dom (pending w))"
    using bij_betw_finite [OF pending_bij [OF assms]] by simp
qed

lemma root_least:
  assumes inv: "tw_inv w" and ne: "th_cur_size (tw_ht w) \<noteq> 0"
    and e: "e = td_entry (th_timer_dups (tw_ht w) ! (th_heap (tw_ht w) ! 0))"
  shows "pending w e = Some (tval (tw_ht w) (th_heap (tw_ht w) ! 0))"
    "pending w a = Some v \<Longrightarrow> tval (tw_ht w) (th_heap (tw_ht w) ! 0) \<le> v"
proof -
  let ?r = "th_heap (tw_ht w) ! 0"
  have "?r \<in> active (tw_ht w)" using ne by auto
  then have "scheduled (tw_ht w) ?r = Some (th_timer_dups (tw_ht w) ! ?r)" by (simp add: scheduled_def)
  from pending_scheduled [OF inv this] show "pending w e = Some (tval (tw_ht w) ?r)" by (simp add: e tval_def)
  assume "pending w a = Some v"
  then obtain d D where d: "scheduled (tw_ht w) d = Some D" "td_timer_value D = v" by (rule pendingE [OF inv])
  then obtain i where "i < th_cur_size (tw_ht w)" "d = th_heap (tw_ht w) ! i" "v = tval (tw_ht w) d"
    by (auto simp: scheduled_def tval_def split: if_splits)
  with heap_ordered_root [of "tval (tw_ht w)" "th_heap (tw_ht w)" "th_cur_size (tw_ht w)" i] inv
  show "tval (tw_ht w) ?r \<le> v" by (simp add: tw_inv_def th_inv_def heap_ok_def)
qed

lemma earliest_ok:
  assumes inv: "tw_inv w"
  shows "snd (pj_timer_heap_earliest_time w) = w"
    "pending w = Map.empty \<Longrightarrow> fst (pj_timer_heap_earliest_time w) = (PJ_ENOTFOUND, None)"
    "pending w \<noteq> Map.empty \<Longrightarrow> \<exists>t. fst (pj_timer_heap_earliest_time w) = (PJ_SUCCESS, Some t) \<and>
       t \<in> ran (pending w) \<and> (\<forall>v \<in> ran (pending w). t \<le> v)"
proof -
  have z: "th_cur_size (tw_ht w) = 0 \<longleftrightarrow> pending w = Map.empty"
    using cur_size_pending [OF inv] by (auto simp: dom_eq_empty_conv)
  show "snd (pj_timer_heap_earliest_time w) = w"
    by (simp add: pj_timer_heap_earliest_time_def Let_def lock_timer_heap_def unlock_timer_heap_def)
  show "pending w = Map.empty \<Longrightarrow> fst (pj_timer_heap_earliest_time w) = (PJ_ENOTFOUND, None)"
    using z by (simp add: pj_timer_heap_earliest_time_def Let_def)
  assume "pending w \<noteq> Map.empty"
  with z have c: "th_cur_size (tw_ht w) \<noteq> 0" by simp
  then have "fst (pj_timer_heap_earliest_time w) = (PJ_SUCCESS, Some (tval (tw_ht w) (th_heap (tw_ht w) ! 0)))"
    by (simp add: pj_timer_heap_earliest_time_def Let_def)
  with root_least [OF inv c refl] show "\<exists>t. fst (pj_timer_heap_earliest_time w) = (PJ_SUCCESS, Some t) \<and>
       t \<in> ran (pending w) \<and> (\<forall>v \<in> ran (pending w). t \<le> v)"
    by (auto simp: ran_def)
qed

section \<open>Polling\<close>

text \<open>The world handed to the callback: the earliest entry is no longer pending and the lock is
  released once.\<close>

definition fired :: "timer_world \<Rightarrow> timer_world \<Rightarrow> nat \<Rightarrow> bool" where
  "fired w w3 e \<longleftrightarrow> tw_inv w3 \<and> pending w3 = (pending w)(e := None) \<and>
     pending w e = Some (tval (tw_ht w) (th_heap (tw_ht w) ! 0)) \<and>
     tw_lock_depth w3 = tw_lock_depth w - (if th_lock (tw_ht w) = None then 0 else 1) \<and>
     th_lock (tw_ht w3) = th_lock (tw_ht w) \<and>
     th_max_entries_per_poll (tw_ht w3) = th_max_entries_per_poll (tw_ht w) \<and>
     tw_ticks w3 = tw_ticks w \<and> tw_reads w3 = tw_reads w"

lemma poll_body_cases:
  assumes inv: "tw_inv w" and ne: "th_cur_size (tw_ht w) \<noteq> 0"
  obtains w3 e cb g where "fired w w3 e"
    "poll_body call w = lock_timer_heap w3 \<or> poll_body call w = lock_timer_heap (grp_lock_dec_ref w3 g) \<or>
     poll_body call w = lock_timer_heap (grp_lock_dec_ref (call cb e w3) g)"
proof -
  obtain r w1 where rm: "remove_node w 0 = (r, w1)" by fastforce
  have ne0: "0 < th_cur_size (tw_ht w)" using ne by simp
  note R = remove_node_spec [OF inv ne0 rm]
  define d where "d = th_timer_dups (tw_ht w1) ! r"
  define e where "e = td_entry d"
  define w2 where "w2 = w1\<lparr>tw_ht := (tw_ht w1)\<lparr>th_timer_dups :=
    (th_timer_dups (tw_ht w1))[r := d\<lparr>td_grp_lock := None\<rparr>]\<rparr>\<rparr>"
  define w3 where "w3 = unlock_timer_heap w2"
  have U': "td_entry ((th_timer_dups (tw_ht w1))[r := d\<lparr>td_grp_lock := None\<rparr>] ! x) = td_entry (th_timer_dups (tw_ht w1) ! x)"
    "td_timer_value ((th_timer_dups (tw_ht w1))[r := d\<lparr>td_grp_lock := None\<rparr>] ! x) = td_timer_value (th_timer_dups (tw_ht w1) ! x)" for x
    by (rule list_update_field, simp add: d_def)+
  have U'': "te_timer_id (td_dup ((th_timer_dups (tw_ht w1))[r := d\<lparr>td_grp_lock := None\<rparr>] ! x)) =
      te_timer_id (td_dup (th_timer_dups (tw_ht w1) ! x))" for x
    by (rule list_update_field [of "\<lambda>d. te_timer_id (td_dup d)"]) (simp add: d_def)
  have "tw_inv w2" "pending w2 = pending w1"
    by (rule metadata_update [OF R(1), where ds = "(th_timer_dups (tw_ht w1))[r := d\<lparr>td_grp_lock := None\<rparr>]"];
        simp add: w2_def U' U'')+
  then have i3: "tw_inv w3" "pending w3 = pending w1"
    using tw_inv_cong [of w3 w2] by (simp_all add: w3_def)
  have e: "e = td_entry (th_timer_dups (tw_ht w) ! (th_heap (tw_ht w) ! 0))"
    using R(2,5) by (simp add: e_def d_def)
  have "pending w3 = (pending w)(e := None)" using i3(2) R(2,4) e by simp
  then have f: "fired w w3 e"
    using i3 R root_least [OF inv ne e] by (simp add: fired_def w3_def w2_def lock_depth_simps)
  have "poll_body call w = lock_timer_heap w3 \<or>
    poll_body call w = lock_timer_heap (grp_lock_dec_ref w3 (td_grp_lock d)) \<or>
    (\<exists>cb. poll_body call w = lock_timer_heap (grp_lock_dec_ref (call cb e w3) (td_grp_lock d)))"
    unfolding poll_body_def rm Let_def prod.case
    by (auto simp: d_def e_def w2_def w3_def split: option.split)
  with f that show thesis by blast
qed

definition callbacks_ok :: "(nat \<Rightarrow> nat \<Rightarrow> timer_world \<Rightarrow> timer_world) \<Rightarrow> bool" where
  "callbacks_ok call \<longleftrightarrow> (\<forall>cb e w. tw_inv w \<and> pending w e = None \<longrightarrow>
     tw_inv (call cb e w) \<and> th_lock (tw_ht (call cb e w)) = th_lock (tw_ht w) \<and>
     tw_lock_depth (call cb e w) = tw_lock_depth w \<and>
     th_max_entries_per_poll (tw_ht (call cb e w)) = th_max_entries_per_poll (tw_ht w))"

definition poll_kept :: "timer_world \<Rightarrow> timer_world \<Rightarrow> bool" where
  "poll_kept w w' \<longleftrightarrow> tw_inv w' \<and> tw_lock_depth w' = tw_lock_depth w \<and>
     th_lock (tw_ht w') = th_lock (tw_ht w) \<and>
     th_max_entries_per_poll (tw_ht w') = th_max_entries_per_poll (tw_ht w)"

lemma tw_inv_frame [simp]:
  "tw_inv (lock_timer_heap w) = tw_inv w" "tw_inv (unlock_timer_heap w) = tw_inv w"
  "tw_inv (grp_lock_dec_ref w g) = tw_inv w" "tw_inv (w\<lparr>tw_reads := n\<rparr>) = tw_inv w"
  "pending (lock_timer_heap w) = pending w" "pending (unlock_timer_heap w) = pending w"
  "pending (grp_lock_dec_ref w g) = pending w" "pending (w\<lparr>tw_reads := n\<rparr>) = pending w"
  by (rule tw_inv_cong; simp)+

lemma poll_body_kept:
  assumes cbs: "callbacks_ok call" and inv: "tw_inv w" and ne: "th_cur_size (tw_ht w) \<noteq> 0"
  shows "poll_kept w (poll_body call w)"
proof -
  obtain w3 e cb g where f: "fired w w3 e" and p: "poll_body call w = lock_timer_heap w3 \<or>
     poll_body call w = lock_timer_heap (grp_lock_dec_ref w3 g) \<or>
     poll_body call w = lock_timer_heap (grp_lock_dec_ref (call cb e w3) g)"
    by (rule poll_body_cases [OF inv ne])
  have c: "tw_inv (call cb e w3) \<and> th_lock (tw_ht (call cb e w3)) = th_lock (tw_ht w3) \<and>
     tw_lock_depth (call cb e w3) = tw_lock_depth w3 \<and>
     th_max_entries_per_poll (tw_ht (call cb e w3)) = th_max_entries_per_poll (tw_ht w3)"
    using cbs f unfolding callbacks_ok_def fired_def by simp
  show ?thesis using p f c by (elim disjE) (simp_all add: poll_kept_def fired_def lock_depth_simps)
qed

text \<open>One turn of the loop: the next world is the body's, with the clock read when the heap is
  not empty.\<close>

lemma poll_loop_turn:
  assumes "th_cur_size (tw_ht w) \<noteq> 0" "m \<le> now" "count < th_max_entries_per_poll (tw_ht w)"
  obtains m' now' k where
    "poll_loop (Suc fuel) call count m now w =
       poll_loop fuel call (count + 1) m' now' ((poll_body call w)\<lparr>tw_reads := k\<rparr>)"
    "th_cur_size (tw_ht (poll_body call w)) \<noteq> 0 \<Longrightarrow>
       m' = tval (tw_ht (poll_body call w)) (th_heap (tw_ht (poll_body call w)) ! 0)"
    "now' = now \<or> now' = tw_ticks (poll_body call w) (tw_reads (poll_body call w))"
proof (cases "th_cur_size (tw_ht (poll_body call w)) = 0")
  case True
  with assms show thesis
    by (intro that [where k = "tw_reads (poll_body call w)" and m' = m and now' = now]) (simp_all add: Let_def)
next
  case False
  with assms show thesis
    by (intro that [where k = "tw_reads (poll_body call w) + 1"
          and m' = "tval (tw_ht (poll_body call w)) (th_heap (tw_ht (poll_body call w)) ! 0)"
          and now' = "tw_ticks (poll_body call w) (tw_reads (poll_body call w))"])
       (simp_all add: Let_def pj_gettickcount_def)
qed

lemma poll_loop_stop:
  "\<not> (th_cur_size (tw_ht w) \<noteq> 0 \<and> m \<le> now \<and> count < th_max_entries_per_poll (tw_ht w)) \<Longrightarrow>
     poll_loop (Suc fuel) call count m now w = Some (count, now, w)"
  by auto

lemma poll_loop_kept:
  assumes cbs: "callbacks_ok call"
  shows "tw_inv w \<Longrightarrow> th_max_entries_per_poll (tw_ht w) < fuel + count \<Longrightarrow> 0 < fuel \<Longrightarrow>
    \<exists>n now' w'. poll_loop fuel call count m now w = Some (n, now', w') \<and> poll_kept w w' \<and>
      n \<le> max count (th_max_entries_per_poll (tw_ht w))"
proof (induction fuel arbitrary: count m now w)
  case (Suc fuel)
  let ?guard = "th_cur_size (tw_ht w) \<noteq> 0 \<and> m \<le> now \<and> count < th_max_entries_per_poll (tw_ht w)"
  show ?case
  proof (cases ?guard)
    case True
    then have g: "th_cur_size (tw_ht w) \<noteq> 0" "m \<le> now" "count < th_max_entries_per_poll (tw_ht w)" by auto
    obtain m' now' k where t: "poll_loop (Suc fuel) call count m now w =
        poll_loop fuel call (count + 1) m' now' ((poll_body call w)\<lparr>tw_reads := k\<rparr>)"
      by (rule poll_loop_turn [OF g])
    define w1 where "w1 = (poll_body call w)\<lparr>tw_reads := k\<rparr>"
    have kept: "poll_kept w w1"
      using poll_body_kept [OF cbs Suc.prems(1) g(1)] by (simp add: w1_def poll_kept_def)
    then obtain n now2 w' where "poll_loop fuel call (count + 1) m' now' w1 = Some (n, now2, w')"
      "poll_kept w1 w'" "n \<le> max (count + 1) (th_max_entries_per_poll (tw_ht w1))"
      using Suc.IH [of w1 "count + 1" m' now'] Suc.prems g(3) by (auto simp: poll_kept_def)
    with kept g(3) t show ?thesis by (auto simp: poll_kept_def w1_def)
  next
    case False
    from poll_loop_stop [OF this] Suc.prems(1) show ?thesis by (simp add: poll_kept_def)
  qed
qed simp

lemma poll_next_delay_frame:
  "poll_next_delay want count now w = (nd, w') \<Longrightarrow> \<exists>k. w' = w\<lparr>tw_reads := k\<rparr>"
  by (auto simp: poll_next_delay_def pj_gettickcount_def Let_def split: if_splits intro: exI [of _ "tw_reads w"])

text \<open>The whole call: after the lock and the first reading of the clock it is the loop, the
  computation of the next delay, and the unlock.\<close>

lemma poll_ends:
  assumes c: "th_cur_size (tw_ht w) \<noteq> 0"
    and l: "poll_loop fuel call 0 (tval (tw_ht w) (th_heap (tw_ht w) ! 0)) (tw_ticks w (tw_reads w))
      ((lock_timer_heap w)\<lparr>tw_reads := tw_reads w + 1\<rparr>) = Some (n, now', w3)"
  obtains nd w4 where "pj_timer_heap_poll fuel call want w = Some (n, nd, unlock_timer_heap w4)"
    "poll_next_delay want n now' w3 = (nd, w4)"
proof -
  obtain nd w4 where "poll_next_delay want n now' w3 = (nd, w4)" by fastforce
  then show thesis using c l by (intro that) (simp_all add: pj_timer_heap_poll_def pj_gettickcount_def Let_def)
qed

lemma poll_kept_ok:
  assumes cbs: "callbacks_ok call" and inv: "tw_inv w"
    and fuel: "th_max_entries_per_poll (tw_ht w) < fuel"
  shows "\<exists>n nd w'. pj_timer_heap_poll fuel call want w = Some (n, nd, w') \<and> poll_kept w w' \<and>
    n \<le> th_max_entries_per_poll (tw_ht w)"
proof (cases "th_cur_size (tw_ht w) = 0")
  case True
  then obtain f where f: "fuel = Suc f" using fuel by (cases fuel) auto
  show ?thesis using True inv unfolding f
    by (cases want) (auto simp: pj_timer_heap_poll_def pj_gettickcount_def Let_def poll_next_delay_def
        poll_kept_def lock_depth_simps)
next
  case False
  let ?w2 = "(lock_timer_heap w)\<lparr>tw_reads := tw_reads w + 1\<rparr>"
  obtain n now' w3 where l: "poll_loop fuel call 0 (tval (tw_ht w) (th_heap (tw_ht w) ! 0))
      (tw_ticks w (tw_reads w)) ?w2 = Some (n, now', w3)"
    "poll_kept ?w2 w3" "n \<le> th_max_entries_per_poll (tw_ht w)"
    using poll_loop_kept [OF cbs, of ?w2 fuel 0 "tval (tw_ht w) (th_heap (tw_ht w) ! 0)"
        "tw_ticks w (tw_reads w)"] inv fuel by auto
  obtain nd w4 where p: "pj_timer_heap_poll fuel call want w = Some (n, nd, unlock_timer_heap w4)"
    "poll_next_delay want n now' w3 = (nd, w4)" by (rule poll_ends [OF False l(1)])
  obtain k where k: "w4 = w3\<lparr>tw_reads := k\<rparr>" using poll_next_delay_frame [OF p(2)] by blast
  show ?thesis using p(1) l(2,3) by (simp add: k poll_kept_def lock_depth_simps)
qed

section \<open>Exactly the expired entries, earliest first\<close>

definition callbacks_passive :: "(nat \<Rightarrow> nat \<Rightarrow> timer_world \<Rightarrow> timer_world) \<Rightarrow> bool" where
  "callbacks_passive call \<longleftrightarrow> (\<forall>cb e w. tw_ht (call cb e w) = tw_ht w \<and>
     tw_entries (call cb e w) = tw_entries w \<and> tw_ticks (call cb e w) = tw_ticks w \<and>
     tw_lock_depth (call cb e w) = tw_lock_depth w)"

lemma passive_ok: "callbacks_passive call \<Longrightarrow> callbacks_ok call"
  unfolding callbacks_ok_def callbacks_passive_def by (metis tw_inv_cong(1))

definition fires :: "(nat \<rightharpoonup> pj_time_val) \<Rightarrow> pj_time_val \<Rightarrow> nat \<Rightarrow> nat set \<Rightarrow> bool" where
  "fires P now limit F \<longleftrightarrow> F \<subseteq> dom P \<and> card F \<le> limit \<and> (\<forall>e\<in>F. the (P e) \<le> now) \<and>
     (\<forall>e\<in>F. \<forall>a\<in>dom P - F. the (P e) \<le> the (P a)) \<and>
     (card F = limit \<or> (\<forall>a\<in>dom P - F. now < the (P a)))"

lemma fires_step:
  assumes "finite (dom P)" "P e = Some v" "v \<le> now" "\<And>a u. P a = Some u \<Longrightarrow> v \<le> u"
    and F: "fires (P(e := None)) now limit F"
  shows "fires P now (Suc limit) (insert e F)" "card (insert e F) = Suc (card F)"
proof -
  have e: "e \<notin> F" "F \<subseteq> dom P" using F by (auto simp: fires_def)
  then have "finite F" using assms(1) finite_subset by blast
  with e show c: "card (insert e F) = Suc (card F)" by simp
  show "fires P now (Suc limit) (insert e F)"
    using F assms(2-4) e unfolding fires_def c by (auto simp: domIff split: if_splits)
qed

lemma poll_body_passive:
  assumes pas: "callbacks_passive call" and inv: "tw_inv w" and ne: "th_cur_size (tw_ht w) \<noteq> 0"
  obtains e where "tw_inv (poll_body call w)" "pending (poll_body call w) = (pending w)(e := None)"
    "pending w e = Some (tval (tw_ht w) (th_heap (tw_ht w) ! 0))"
    "tw_ticks (poll_body call w) = tw_ticks w"
    "th_max_entries_per_poll (tw_ht (poll_body call w)) = th_max_entries_per_poll (tw_ht w)"
proof -
  obtain w3 e cb g where f: "fired w w3 e" and p: "poll_body call w = lock_timer_heap w3 \<or>
     poll_body call w = lock_timer_heap (grp_lock_dec_ref w3 g) \<or>
     poll_body call w = lock_timer_heap (grp_lock_dec_ref (call cb e w3) g)"
    by (rule poll_body_cases [OF inv ne])
  have c: "tw_ht (call cb e w3) = tw_ht w3" "tw_entries (call cb e w3) = tw_entries w3"
    "tw_ticks (call cb e w3) = tw_ticks w3" using pas by (auto simp: callbacks_passive_def)
  have "pending (call cb e w3) = pending w3" "tw_inv (call cb e w3) = tw_inv w3"
    using tw_inv_cong c by blast+
  with p f c show thesis by (intro that [of e]; elim disjE) (auto simp: fired_def)
qed

lemma poll_loop_exact:
  assumes pas: "callbacks_passive call"
  shows "tw_inv w \<Longrightarrow> (\<And>i. tw_ticks w i = now) \<Longrightarrow>
    (th_cur_size (tw_ht w) \<noteq> 0 \<Longrightarrow> m = tval (tw_ht w) (th_heap (tw_ht w) ! 0)) \<Longrightarrow>
    count \<le> th_max_entries_per_poll (tw_ht w) \<Longrightarrow>
    poll_loop fuel call count m now w = Some (n, now', w') \<Longrightarrow>
    now' = now \<and> (\<forall>i. tw_ticks w' i = now) \<and>
    (\<exists>F. fires (pending w) now (th_max_entries_per_poll (tw_ht w) - count) F \<and>
      n = count + card F \<and> pending w' = pending w |` (- F))"
proof (induction fuel arbitrary: count m w)
  case (Suc fuel)
  let ?guard = "th_cur_size (tw_ht w) \<noteq> 0 \<and> m \<le> now \<and> count < th_max_entries_per_poll (tw_ht w)"
  note size = cur_size_pending [OF Suc.prems(1)]
  show ?case
  proof (cases ?guard)
    case True
    then have g: "th_cur_size (tw_ht w) \<noteq> 0" "m \<le> now" "count < th_max_entries_per_poll (tw_ht w)" by auto
    obtain e where b: "tw_inv (poll_body call w)" "pending (poll_body call w) = (pending w)(e := None)"
      "pending w e = Some (tval (tw_ht w) (th_heap (tw_ht w) ! 0))"
      "tw_ticks (poll_body call w) = tw_ticks w"
      "th_max_entries_per_poll (tw_ht (poll_body call w)) = th_max_entries_per_poll (tw_ht w)"
      by (rule poll_body_passive [OF pas Suc.prems(1) g(1)])
    obtain m' now1 k where t: "poll_loop (Suc fuel) call count m now w =
        poll_loop fuel call (count + 1) m' now1 ((poll_body call w)\<lparr>tw_reads := k\<rparr>)"
      "th_cur_size (tw_ht (poll_body call w)) \<noteq> 0 \<Longrightarrow>
        m' = tval (tw_ht (poll_body call w)) (th_heap (tw_ht (poll_body call w)) ! 0)"
      "now1 = now \<or> now1 = tw_ticks (poll_body call w) (tw_reads (poll_body call w))"
      by (rule poll_loop_turn [OF g]) blast
    have now1: "now1 = now" using t(3) b(4) Suc.prems(2) by auto
    define w1 where "w1 = (poll_body call w)\<lparr>tw_reads := k\<rparr>"
    have w1: "tw_inv w1" "pending w1 = (pending w)(e := None)" "tw_ticks w1 = tw_ticks w"
      "th_max_entries_per_poll (tw_ht w1) = th_max_entries_per_poll (tw_ht w)"
      "tw_ht w1 = tw_ht (poll_body call w)" using b by (simp_all add: w1_def)
    have "now' = now \<and> (\<forall>i. tw_ticks w' i = now) \<and>
      (\<exists>F. fires (pending w1) now (th_max_entries_per_poll (tw_ht w1) - (count + 1)) F \<and>
        n = count + 1 + card F \<and> pending w' = pending w1 |` (- F))"
      using Suc.prems t g w1 unfolding now1 by (intro Suc.IH [of w1 m']) (auto simp: w1_def)
    then obtain F where F: "now' = now" "\<forall>i. tw_ticks w' i = now"
      "fires ((pending w)(e := None)) now (th_max_entries_per_poll (tw_ht w) - (count + 1)) F"
      "n = count + 1 + card F" "pending w' = (pending w)(e := None) |` (- F)"
      unfolding w1(2,4) by blast
    have lim: "Suc (th_max_entries_per_poll (tw_ht w) - (count + 1)) = th_max_entries_per_poll (tw_ht w) - count"
      using g(3) by simp
    have le: "tval (tw_ht w) (th_heap (tw_ht w) ! 0) \<le> now" using Suc.prems(3) g by simp
    note S = fires_step [OF size(2) b(3) le root_least(2) [OF Suc.prems(1) g(1) refl] F(3)]
    have "pending w' = pending w |` (- insert e F)" using F(5) by (auto simp: restrict_map_def fun_eq_iff)
    with S F(1,2,4) lim show ?thesis by (intro conjI exI [of _ "insert e F"]) auto
  next
    case False
    then have r: "n = count" "now' = now" "w' = w"
      using Suc.prems(5) poll_loop_stop [OF False, of fuel call] by auto
    have "now < the (pending w a)" if "a \<in> dom (pending w)" "count < th_max_entries_per_poll (tw_ht w)" for a
    proof -
      have c: "th_cur_size (tw_ht w) \<noteq> 0" using that(1) size by (auto simp: card_eq_0_iff)
      with False that Suc.prems(3) have "now < tval (tw_ht w) (th_heap (tw_ht w) ! 0)" by auto
      then show ?thesis using root_least(2) [OF Suc.prems(1) c refl] that(1) by fastforce
    qed
    then have "fires (pending w) now (th_max_entries_per_poll (tw_ht w) - count) {}"
      using Suc.prems(4) by (fastforce simp: fires_def)
    with r Suc.prems(2) show ?thesis by (auto intro!: exI [of _ "{}"])
  qed
qed simp

end
