(* ===== verification/Pj_Timer_Spec.thy ===== *)
theory Pj_Timer_Spec
  imports Pj_Timer_Poll
begin

text \<open>
  The contract of a timer queue as a locale, its interpretation on the timer heap, and the
  properties of the timer component.
\<close>

section \<open>The contract\<close>

datatype 'd timer_op = Schedule_Op nat 'd | Cancel_Op nat

primrec timer_run ::
  "('s \<Rightarrow> nat \<Rightarrow> 'd \<Rightarrow> 's) \<Rightarrow> ('s \<Rightarrow> nat \<Rightarrow> 's) \<Rightarrow> 'd timer_op list \<Rightarrow> 's \<Rightarrow> 's" where
  "timer_run sch can [] s = s"
| "timer_run sch can (x # xs) s = timer_run sch can xs
     (case x of Schedule_Op e d \<Rightarrow> sch s e d | Cancel_Op e \<Rightarrow> can s e)"

locale timer_queue =
  fixes tq_inv :: "'s \<Rightarrow> bool"
    and tq_view :: "'s \<Rightarrow> nat \<rightharpoonup> 'k::linorder"
    and tq_ready :: "'s \<Rightarrow> nat \<Rightarrow> bool"
    and tq_due :: "'s \<Rightarrow> 'd \<Rightarrow> 'k"
    and tq_schedule :: "'s \<Rightarrow> nat \<Rightarrow> 'd \<Rightarrow> 's"
    and tq_cancel :: "'s \<Rightarrow> nat \<Rightarrow> 's"
    and tq_earliest :: "'s \<Rightarrow> 'k option"
  assumes schedule_keeps: "tq_inv s \<Longrightarrow> tq_inv (tq_schedule s e d)"
    and schedule_view: "tq_inv s \<Longrightarrow> tq_view (tq_schedule s e d) =
      (if tq_ready s e \<and> tq_view s e = None then (tq_view s)(e \<mapsto> tq_due s d) else tq_view s)"
    and cancel_keeps: "tq_inv s \<Longrightarrow> tq_inv (tq_cancel s e)"
    and cancel_view: "tq_inv s \<Longrightarrow> tq_view (tq_cancel s e) = (tq_view s)(e := None)"
    and finite_view: "tq_inv s \<Longrightarrow> finite (dom (tq_view s))"
    and earliest_least: "tq_inv s \<Longrightarrow> tq_earliest s =
      (if tq_view s = Map.empty then None else Some (Min (ran (tq_view s))))"
begin

lemma schedule_cancel:
  "tq_inv s \<Longrightarrow> tq_view s e = None \<Longrightarrow> tq_view (tq_cancel (tq_schedule s e d) e) = tq_view s"
  by (simp add: cancel_view schedule_keeps schedule_view fun_upd_idem)

lemma earliest_after_schedule:
  assumes "tq_inv s" "tq_ready s e" "tq_view s e = None"
  shows "tq_earliest (tq_schedule s e d) =
    Some (case tq_earliest s of None \<Rightarrow> tq_due s d | Some t \<Rightarrow> min (tq_due s d) t)"
proof -
  have v: "tq_view (tq_schedule s e d) = (tq_view s)(e \<mapsto> tq_due s d)"
    using assms by (simp add: schedule_view)
  have r: "ran ((tq_view s)(e \<mapsto> tq_due s d)) = insert (tq_due s d) (ran (tq_view s))"
    using assms(3) by simp
  have "finite (ran (tq_view s))" using finite_view [OF assms(1)] by (rule finite_ran)
  moreover have "ran (tq_view s) \<noteq> {}" if "tq_view s \<noteq> Map.empty" using that by (simp add: ran_empty_iff)
  moreover have "tq_earliest (tq_schedule s e d) = Some (Min (insert (tq_due s d) (ran (tq_view s))))"
    using earliest_least [OF schedule_keeps [OF assms(1)], of e d] by (simp add: v r)
  ultimately show ?thesis using earliest_least [OF assms(1)] by (auto split: option.split if_splits)
qed

lemma run_keeps: "tq_inv s \<Longrightarrow> tq_inv (timer_run tq_schedule tq_cancel ops s)"
  by (induction ops arbitrary: s)
     (auto simp: schedule_keeps cancel_keeps split: timer_op.split)

lemma run_earliest:
  "tq_inv s \<Longrightarrow> tq_earliest (timer_run tq_schedule tq_cancel ops s) = Some t \<Longrightarrow>
     (\<exists>e. tq_view (timer_run tq_schedule tq_cancel ops s) e = Some t) \<and>
     (\<forall>e u. tq_view (timer_run tq_schedule tq_cancel ops s) e = Some u \<longrightarrow> t \<le> u)"
proof -
  let ?s = "timer_run tq_schedule tq_cancel ops s"
  assume "tq_inv s" and t: "tq_earliest ?s = Some t"
  then have i: "tq_inv ?s" by (simp add: run_keeps)
  have fin: "finite (ran (tq_view ?s))" using finite_view [OF i] by (rule finite_ran)
  have ne: "tq_view ?s \<noteq> Map.empty" and m: "t = Min (ran (tq_view ?s))"
    using t earliest_least [OF i] by (auto split: if_splits)
  from ne have "ran (tq_view ?s) \<noteq> {}" by (simp add: ran_empty_iff)
  with fin m have "t \<in> ran (tq_view ?s)" "\<forall>u\<in>ran (tq_view ?s). t \<le> u" by auto
  then show ?thesis by (auto simp: ran_def)
qed

end

section \<open>The timer heap meets the contract\<close>

definition th_schedule :: "alloc_env \<Rightarrow> timer_world \<Rightarrow> nat \<Rightarrow> pj_time_val \<Rightarrow> timer_world" where
  "th_schedule env w e d = snd (pj_timer_heap_schedule env w e d [] 0)"

definition th_cancel :: "timer_world \<Rightarrow> nat \<Rightarrow> timer_world" where
  "th_cancel w e = snd (pj_timer_heap_cancel (\<lambda>w e. w) w e)"

definition th_earliest :: "timer_world \<Rightarrow> pj_time_val option" where
  "th_earliest w = snd (fst (pj_timer_heap_earliest_time w))"

definition granting :: alloc_env where
  "granting = \<lparr>ae_heap_ok = True, ae_dups_ok = True, ae_ids_ok = True,
     ae_junk = (\<lambda>i. \<lparr>td_dup = pj_timer_entry_init 0 0 None, td_entry = 0,
       td_timer_value = Time_Val 0 0, td_grp_lock = None, td_src_file = [], td_src_line = 0\<rparr>)\<rparr>"

lemma granting_ok [simp]: "env_ok granting"
  by (simp add: env_ok_def granting_def)

text \<open>All outcomes of scheduling at once.\<close>

lemma schedule_cases:
  assumes inv: "tw_inv w" and env: "env_ok env"
    and s: "schedule_w_grp_lock env w e delay set_id i g file line = (st, w')"
  shows "tw_inv w' \<and> tw_lock_depth w' = tw_lock_depth w \<and>
    (st, pending w') =
      (if te_cb (tw_entries w e) = None then (PJ_EINVAL, pending w)
       else if pending w e \<noteq> None then (PJ_EINVALIDOP, pending w)
       else (PJ_SUCCESS, (pending w)(e \<mapsto> PJ_TIME_VAL_ADD (tw_ticks w (tw_reads w)) delay)))"
proof (cases "te_cb (tw_entries w e) = None")
  case True
  then show ?thesis using s inv by (simp add: schedule_w_grp_lock_def)
next
  case cb: False
  show ?thesis
  proof (cases "pending w e = None")
    case True
    from schedule_ok [OF inv env cb True s] cb True show ?thesis by auto
  next
    case False
    from schedule_running [OF inv cb False] s inv cb False show ?thesis by auto
  qed
qed

lemma cancel_cases:
  assumes inv: "tw_inv w" and c: "cancel_timer hook w e flags i = (n, w')"
  shows "tw_inv w' \<and> tw_lock_depth w' = tw_lock_depth w \<and> pending w' = (pending w)(e := None) \<and>
    n = (if pending w e = None then 0 else 1)"
proof (cases "pending w e = None")
  case True
  with cancel_idle [OF inv True] c inv show ?thesis by (auto simp: fun_upd_idem)
next
  case False
  with cancel_ok [OF inv False c] show ?thesis by simp
qed

lemma th_earliest_min:
  assumes "tw_inv w"
  shows "th_earliest w = (if pending w = Map.empty then None else Some (Min (ran (pending w))))"
proof (cases "pending w = Map.empty")
  case True
  then show ?thesis using earliest_ok(2) [OF assms] by (simp add: th_earliest_def)
next
  case False
  have "finite (ran (pending w))" using cur_size_pending(2) [OF assms] by (rule finite_ran)
  then show ?thesis using earliest_ok(3) [OF assms False] False
    by (auto simp: th_earliest_def intro!: Min_eqI [symmetric])
qed

interpretation heap_timers: timer_queue tw_inv pending "\<lambda>w e. te_cb (tw_entries w e) \<noteq> None"
  "\<lambda>w d. PJ_TIME_VAL_ADD (tw_ticks w (tw_reads w)) d" "th_schedule granting" th_cancel th_earliest
proof
  fix s e d assume inv: "tw_inv s"
  obtain st w' where "pj_timer_heap_schedule granting s e d [] 0 = (st, w')" by fastforce
  from this [unfolded pj_timer_heap_schedule_def] this schedule_cases [OF inv granting_ok]
  show "tw_inv (th_schedule granting s e d)"
    "pending (th_schedule granting s e d) =
      (if te_cb (tw_entries s e) \<noteq> None \<and> pending s e = None
       then (pending s)(e \<mapsto> PJ_TIME_VAL_ADD (tw_ticks s (tw_reads s)) d) else pending s)"
    by (fastforce simp: th_schedule_def split: if_splits)+
next
  fix s e assume inv: "tw_inv s"
  obtain n w' where "cancel_timer (\<lambda>w e. w) s e 0 0 = (n, w')" by fastforce
  with cancel_cases [OF inv this] show "tw_inv (th_cancel s e)" "pending (th_cancel s e) = (pending s)(e := None)"
    by (simp_all add: th_cancel_def pj_timer_heap_cancel_def)
qed (simp_all add: cur_size_pending th_earliest_min)

lemma th_schedule_ticks [simp]: "tw_ticks (th_schedule env w e d) = tw_ticks w"
  by (simp add: th_schedule_def pj_timer_heap_schedule_def schedule_w_grp_lock_def pj_gettickcount_def
      schedule_entry_def pop_freelist_def insert_node_def finish_schedule_def grp_lock_add_ref_def
      Let_def split: prod.split)

text \<open>A heap just created, with entries that are initialised and not scheduled.\<close>

lemma created_inv:
  assumes "pj_timer_heap_create env count = Some (tw_ht w)"
    and "\<And>e. te_timer_id (tw_entries w e) = -1"
  shows "tw_inv w" "pending w = Map.empty"
  using create_inv [OF assms(1)] assms(2) by (auto simp: tw_inv_def linked_def pending_def)

definition sample_world :: "nat \<Rightarrow> timer_world" where
  "sample_world count = \<lparr>tw_ht = the (pj_timer_heap_create granting count),
     tw_entries = (\<lambda>e. pj_timer_entry_init 0 e (if e = 9 then None else Some 0)), tw_refs = (\<lambda>l. 0), tw_lock_depth = 0,
     tw_destroyed = [], tw_ticks = (\<lambda>n. Time_Val 10 0), tw_reads = 0\<rparr>"

lemma sample_created [simp]: "tw_inv (sample_world n)" "pending (sample_world n) = Map.empty"
proof -
  have "pj_timer_heap_create granting n = Some (tw_ht (sample_world n))"
    by (simp add: sample_world_def pj_timer_heap_create_def granting_def)
  moreover have "te_timer_id (tw_entries (sample_world n) e) = -1" for e
    by (simp add: sample_world_def pj_timer_entry_init_def)
  ultimately show "tw_inv (sample_world n)" "pending (sample_world n) = Map.empty"
    by (rule created_inv)+
qed

text \<open>The sample world with entry 1 scheduled 5 seconds ahead.\<close>

definition sample_pending :: timer_world where
  "sample_pending = th_schedule granting (sample_world 2) 1 (Time_Val 5 0)"

lemma sample_pending_ok [simp]: "tw_inv sample_pending" "pending sample_pending = [1 \<mapsto> Time_Val 15 0]"
proof -
  have "PJ_TIME_VAL_ADD (Time_Val 10 0) (Time_Val 5 0) = Time_Val 15 0" by code_simp
  then show "tw_inv sample_pending" "pending sample_pending = [1 \<mapsto> Time_Val 15 0]"
    unfolding sample_pending_def
    by (simp_all add: heap_timers.schedule_keeps heap_timers.schedule_view)
       (simp_all add: sample_world_def pj_timer_entry_init_def)
qed

section \<open>Properties\<close>

text \<open>C2: scheduling an entry, when the pool can serve it, keeps the invariant of the timer heap and
  the depth of its lock; an entry without a callback is refused with \<^verbatim>\<open>PJ_EINVAL\<close>, an entry
  already running with \<^verbatim>\<open>PJ_EINVALIDOP\<close>, both without effect, and any other becomes pending at
  the current tick plus the delay with no other entry changed.\<close>

theorem timer_schedule_refines:
  assumes "tw_inv w" and "env_ok env"
    and "schedule_w_grp_lock env w e delay set_id i g file line = (st, w')"
  shows "tw_inv w' \<and> tw_lock_depth w' = tw_lock_depth w \<and>
    (st, pending w') =
      (if te_cb (tw_entries w e) = None then (PJ_EINVAL, pending w)
       else if pending w e \<noteq> None then (PJ_EINVALIDOP, pending w)
       else (PJ_SUCCESS, (pending w)(e \<mapsto> PJ_TIME_VAL_ADD (tw_ticks w (tw_reads w)) delay)))"
  by (rule schedule_cases [OF assms])

theorem timer_schedule_refines_witness:
  "fst (schedule_w_grp_lock granting sample_pending 1 (Time_Val 1 0) False 0 None [] 0) = PJ_EINVALIDOP \<and>
   fst (schedule_w_grp_lock granting (sample_world 2) 4 (Time_Val 1 0) True 3 None [] 0) = PJ_SUCCESS"
proof -
  have cb: "te_cb (tw_entries sample_pending 1) = Some 0" "te_cb (tw_entries (sample_world 2) 4) = Some 0"
    by code_simp+
  show ?thesis
    using timer_schedule_refines [OF sample_pending_ok(1) granting_ok prod.collapse [symmetric],
        of 1 "Time_Val 1 0" False 0 None "[]" 0] cb(1)
      timer_schedule_refines [OF sample_created(1) granting_ok prod.collapse [symmetric],
        of 2 4 "Time_Val 1 0" True 3 None "[]" 0] cb(2)
    by simp
qed

text \<open>Cancelling, through either entry point and with any flags, returns 1 exactly when the entry
  was pending and 0 otherwise, removes exactly that entry from the pending ones, and keeps the
  invariant and the depth of the lock.\<close>

theorem timer_cancel_exact:
  assumes "tw_inv w" and "cancel_timer hook w e flags i = (n, w')"
  shows "tw_inv w' \<and> tw_lock_depth w' = tw_lock_depth w \<and> pending w' = (pending w)(e := None) \<and>
    n = (if pending w e = None then 0 else 1)"
  by (rule cancel_cases [OF assms])

theorem timer_cancel_exact_witness:
  "fst (cancel_timer (\<lambda>w e. w) sample_pending 1 0 0) = 1 \<and>
   fst (cancel_timer (\<lambda>w e. w) sample_pending 2 F_SET_ID 0) = 0"
  using timer_cancel_exact [OF sample_pending_ok(1) prod.collapse [symmetric], of "\<lambda>w e. w" 1 0 0]
    timer_cancel_exact [OF sample_pending_ok(1) prod.collapse [symmetric], of "\<lambda>w e. w" 2 F_SET_ID 0]
  by simp

text \<open>The earliest time is reported without changing anything, it is a pending expiry time no
  later than any other, and \<^verbatim>\<open>PJ_ENOTFOUND\<close> is returned exactly when nothing is pending; the
  count is the number of pending entries.\<close>

theorem timer_earliest_exact:
  assumes "tw_inv w"
  shows "snd (pj_timer_heap_earliest_time w) = w \<and>
    fst (pj_timer_heap_earliest_time w) =
      (if pending w = Map.empty then (PJ_ENOTFOUND, None)
       else (PJ_SUCCESS, Some (Min (ran (pending w))))) \<and>
    pj_timer_heap_count w = (card (dom (pending w)), w)"
proof -
  have "pj_timer_heap_count w = (card (dom (pending w)), w)"
    by (simp add: pj_timer_heap_count_def Let_def cur_size_pending(1) [OF assms]
        lock_timer_heap_def unlock_timer_heap_def)
  moreover have "fst (pj_timer_heap_earliest_time w) =
      (if pending w = Map.empty then (PJ_ENOTFOUND, None) else (PJ_SUCCESS, Some (Min (ran (pending w)))))"
  proof (cases "pending w = Map.empty")
    case True
    then show ?thesis using earliest_ok(2) [OF assms] by simp
  next
    case False
    then show ?thesis using earliest_ok(3) [OF assms False] th_earliest_min [OF assms]
      by (auto simp: th_earliest_def)
  qed
  ultimately show ?thesis using earliest_ok(1) [OF assms] by simp
qed

theorem timer_earliest_exact_witness:
  "fst (pj_timer_heap_earliest_time sample_pending) = (PJ_SUCCESS, Some (Time_Val 15 0)) \<and>
   fst (pj_timer_heap_count sample_pending) = 1"
  using timer_earliest_exact [OF sample_pending_ok(1)] by simp

text \<open>C3: polling with callbacks that use the heap through its interface always returns, with fuel
  beyond the per-poll limit enough; it keeps the invariant, returns with the lock at the depth
  it was entered with, and never fires more entries than the limit.\<close>

theorem timer_poll_safe:
  assumes "callbacks_ok call" and "tw_inv w" and "th_max_entries_per_poll (tw_ht w) < fuel"
  shows "\<exists>n nd w'. pj_timer_heap_poll fuel call want w = Some (n, nd, w') \<and> tw_inv w' \<and>
    tw_lock_depth w' = tw_lock_depth w \<and> n \<le> th_max_entries_per_poll (tw_ht w)"
  using poll_kept_ok [OF assms] unfolding poll_kept_def by blast

theorem timer_poll_safe_witness:
  "\<exists>n nd w'. pj_timer_heap_poll 65 (\<lambda>cb e w. th_cancel w e) True (sample_world 2) = Some (n, nd, w') \<and>
     tw_inv w' \<and> tw_lock_depth w' = tw_lock_depth (sample_world 2) \<and>
     n \<le> th_max_entries_per_poll (tw_ht (sample_world 2))"
proof (rule timer_poll_safe)
  show "callbacks_ok (\<lambda>cb e w. th_cancel w e)"
    unfolding callbacks_ok_def by (simp add: th_cancel_def pj_timer_heap_cancel_def cancel_idle)
  show "th_max_entries_per_poll (tw_ht (sample_world 2)) < 65" by code_simp
qed simp







text \<open>C6: when the arrays are full and cannot grow, scheduling returns \<^verbatim>\<open>PJ_ENOMEM\<close> after the entry
  has been given an id. The entry then counts as running although no copy of it is in the
  heap, the id is lost, and the free list ends one past the id array, where the next
  schedule reads.\<close>

theorem timer_schedule_enomem_leaks:
  assumes inv: "tw_inv w" and full: "th_max_size (tw_ht w) \<le> th_cur_size (tw_ht w) + 2"
    and cb: "te_cb (tw_entries w e) \<noteq> None" and idle: "pending w e = None"
    and mem: "\<not> ae_heap_ok env"
    and s: "schedule_w_grp_lock env w e delay set_id i g file line = (st, w')"
  shows "st = PJ_ENOMEM \<and> pj_timer_entry_running (tw_entries w' e) \<and>
    (\<forall>d D. scheduled (tw_ht w') d = Some D \<longrightarrow> td_entry D \<noteq> e) \<and> \<not> tw_inv w' \<and>
    th_freelist (tw_ht w') = int (length (th_timer_ids (tw_ht w')))"
proof -
  let ?ht = "tw_ht w"
  have th: "th_inv ?ht" using inv by (simp add: tw_inv_def)
  obtain x ht1 where pop: "pop_freelist ?ht = (int x, ht1)" "popped ht1 x"
    and ht1: "ht1 = ?ht\<lparr>th_freelist := th_freelist ht1\<rparr>" by (rule pop_freelist_ok [OF th])
  have f: "th_cur_size ht1 = th_cur_size ?ht" "th_max_size ht1 = th_max_size ?ht" "scheduled ht1 = scheduled ?ht"
    "th_timer_ids ht1 = th_timer_ids ?ht" "th_heap ht1 = th_heap ?ht"
    by (subst ht1, simp add: scheduled_def fun_eq_iff)+
  have cur: "th_cur_size ?ht < th_max_size ?ht" using th by (simp add: th_inv_def lengths_ok_def)
  have run: "\<not> pj_timer_entry_running (tw_entries w e)" using running_iff [OF inv] idle by simp
  have st: "st = PJ_ENOMEM" and ht': "tw_ht w' = ht1" and E: "te_timer_id (tw_entries w' e) = int x"
    using s cb run full mem cur
    by (auto simp: schedule_w_grp_lock_def pj_gettickcount_def Let_def schedule_entry_def pop(1)
        insert_node_def grow_heap_def f pj_status)
  have x: "1 \<le> x" "scheduled ht1 x = None" using pop(2) by (auto simp: popped_def scheduled_def)
  have r: "pj_timer_entry_running (tw_entries w' e)" using E x by (simp add: pj_timer_entry_running_def)
  have noc: "\<forall>d D. scheduled (tw_ht w') d = Some D \<longrightarrow> td_entry D \<noteq> e"
    using linkedD [OF inv] run by (auto simp: ht' f pj_timer_entry_running_def)
  have "\<not> tw_inv w'" using runningE [of w' e] x E by (auto simp: ht')
  moreover have "th_freelist ht1 = int (length (th_timer_ids ht1))"
  proof -
    obtain fs where fs: "free_path (th_timer_ids ht1) (th_freelist ht1) fs" "distinct fs"
      "set fs = {1..<th_max_size ht1} - insert x (active ht1)" using pop(2) by (auto simp: popped_def free_ok_def)
    have ok: "heap_ok ht1 (th_cur_size ht1)" "lengths_ok ht1" "x \<in> {1..<th_max_size ht1}" "x \<notin> active ht1"
      using pop(2) by (auto simp: popped_def)
    have "card (insert x (active ht1)) = th_cur_size ht1 + 1"
      using ok by (simp add: heap_ok_def card_nodes)
    moreover have "insert x (active ht1) \<subseteq> {1..<th_max_size ht1}" using active_range [OF ok(1,2)] ok(3) by simp
    ultimately have "card (set fs) = 0" using fs(3) full f by (simp add: card_Diff_subset)
    then have "fs = []" using fs(2) by (simp add: distinct_card)
    with fs(1) show ?thesis by simp
  qed
  ultimately show ?thesis using st r noc by (simp add: ht')
qed

definition refusing :: alloc_env where
  "refusing = granting\<lparr>ae_heap_ok := False\<rparr>"

theorem timer_schedule_enomem_leaks_witness:
  "fst (schedule_w_grp_lock refusing (sample_world 0) 1 (Time_Val 1 0) False 1 None [] 0) = PJ_ENOMEM \<and>
   fst (schedule_w_grp_lock granting
     (snd (schedule_w_grp_lock refusing (sample_world 0) 1 (Time_Val 1 0) False 1 None [] 0))
     1 (Time_Val 1 0) False 1 None [] 0) = PJ_EINVALIDOP"
proof -
  have "th_max_size (tw_ht (sample_world 0)) \<le> th_cur_size (tw_ht (sample_world 0)) + 2"
    "te_cb (tw_entries (sample_world 0) 1) \<noteq> None" "\<not> ae_heap_ok refusing" by code_simp+
  note T = timer_schedule_enomem_leaks [OF sample_created(1) this(1,2) _ this(3) prod.collapse [symmetric],
      of "Time_Val 1 0" False 1 None "[]" 0]
  let ?w = "snd (schedule_w_grp_lock refusing (sample_world 0) 1 (Time_Val 1 0) False 1 None [] 0)"
  have "te_cb (tw_entries ?w 1) = Some 0" by code_simp
  then show ?thesis using T
    by (simp add: schedule_w_grp_lock_def [of granting] pj_gettickcount_def Let_def)
qed

end
