(* ===== verification/Pj_Ctype.thy ===== *)
theory Pj_Ctype
  imports Pj_Prelude
begin

text \<open>
  The character classes of \<^verbatim>\<open>include/pj/ctype.h\<close> on bytes, in the C locale, and its conversions
  between values and hexadecimal digits.
\<close>

definition pj_isdigit :: "u8 \<Rightarrow> bool" where
  "pj_isdigit c \<longleftrightarrow> 48 \<le> c \<and> c \<le> 57"

definition pj_isupper :: "u8 \<Rightarrow> bool" where
  "pj_isupper c \<longleftrightarrow> 65 \<le> c \<and> c \<le> 90"

definition pj_islower :: "u8 \<Rightarrow> bool" where
  "pj_islower c \<longleftrightarrow> 97 \<le> c \<and> c \<le> 122"

definition pj_isalpha :: "u8 \<Rightarrow> bool" where
  "pj_isalpha c \<longleftrightarrow> pj_isupper c \<or> pj_islower c"

definition pj_isalnum :: "u8 \<Rightarrow> bool" where
  "pj_isalnum c \<longleftrightarrow> pj_isalpha c \<or> pj_isdigit c"

definition pj_isspace :: "u8 \<Rightarrow> bool" where
  "pj_isspace c \<longleftrightarrow> c = 32 \<or> 9 \<le> c \<and> c \<le> 13"

definition pj_isblank :: "u8 \<Rightarrow> bool" where
  "pj_isblank c \<longleftrightarrow> c = 32 \<or> c = 9"

definition pj_isxdigit :: "u8 \<Rightarrow> bool" where
  "pj_isxdigit c \<longleftrightarrow> pj_isdigit c \<or> 65 \<le> c \<and> c \<le> 70 \<or> 97 \<le> c \<and> c \<le> 102"

definition pj_tolower :: "u8 \<Rightarrow> u8" where
  "pj_tolower c = (if pj_isupper c then c + 32 else c)"

definition pj_toupper :: "u8 \<Rightarrow> u8" where
  "pj_toupper c = (if pj_islower c then c - 32 else c)"

definition pj_hex_digits :: "u8 list" where
  "pj_hex_digits = [48, 49, 50, 51, 52, 53, 54, 55, 56, 57, 97, 98, 99, 100, 101, 102]"

text \<open>The two characters written for a value.\<close>

definition pj_val_to_hex_digit :: "u32 \<Rightarrow> u8 list" where
  "pj_val_to_hex_digit v =
     [pj_hex_digits ! unat (drop_bit 4 (v AND 0xF0)), pj_hex_digits ! unat (v AND 0x0F)]"

definition pj_hex_digit_to_val :: "u8 \<Rightarrow> u32" where
  "pj_hex_digit_to_val c =
     (if c \<le> 57 then (ucast c - 48) AND 0x0F
      else if c \<le> 70 then (ucast c - 65 + 10) AND 0x0F
      else (ucast c - 97 + 10) AND 0x0F)"

section \<open>Lemmas\<close>

text \<open>A statement about every byte follows from its 256 instances.\<close>

lemma all_bytes:
  "(\<forall>c :: u8. P c) \<longleftrightarrow> (\<forall>n \<in> set [0..<256]. P (of_nat n))"
proof
  assume *: "\<forall>n \<in> set [0..<256]. P (of_nat n)"
  show "\<forall>c. P c"
  proof
    fix c :: u8
    have "unat c < 256" using unsigned_less [of c, where ?'a = nat] by simp
    then have "unat c \<in> set [0..<256]" by simp
    with * have "P (of_nat (unat c))" by blast
    then show "P c" by simp
  qed
qed simp

lemma tolower_idem [simp]: "pj_tolower (pj_tolower c) = pj_tolower c"
proof -
  have "\<forall>c. pj_tolower (pj_tolower c) = pj_tolower c" unfolding all_bytes by code_simp
  then show ?thesis by blast
qed

lemma tolower_zero_iff [simp]: "pj_tolower c = 0 \<longleftrightarrow> c = 0"
proof -
  have "\<forall>c. (pj_tolower c = 0) = (c = 0)" unfolding all_bytes by code_simp
  then show ?thesis by blast
qed

end
