(* ===== verification/Pj_Hash.thy ===== *)
theory Pj_Hash
  imports Pj_Ctype
begin

text \<open>
  The chained hash table of \<^verbatim>\<open>pjlib/src/pj/hash.c\<close>, in the default configuration with the keyed
  table hash (\<^verbatim>\<open>PJ_HASH_TABLE_USE_SIPHASH\<close>). A bucket's linked list is a list of entries and
  the link \<^verbatim>\<open>find_entry\<close> returns is a position in it. A key buffer is a list of bytes; an entry's
  key is the bytes it refers to, copied into the pool or kept in the caller's buffer. A value
  is an address, with \<^term>\<open>None\<close> for \<^verbatim>\<open>NULL\<close>. What the entropy sources return is a
  parameter.
\<close>

section \<open>Data\<close>

record pj_hash_entry =
  he_key :: "u8 list"
  he_hash :: u32
  he_keylen :: u32
  he_value :: nat

record pj_hash_table_t =
  ht_table :: "pj_hash_entry list list"
  ht_count :: u32
  ht_rows :: u32

record pj_hash_iterator_t =
  it_index :: nat
  it_entry :: "nat option"

definition PJ_HASH_MULTIPLIER :: u32 where "PJ_HASH_MULTIPLIER = 33"
definition PJ_HASH_KEY_STRING :: u32 where "PJ_HASH_KEY_STRING = -1"

section \<open>SipHash-2-4\<close>

type_synonym sip_vec = "u64 \<times> u64 \<times> u64 \<times> u64"

definition SIP_U64 :: "u32 \<Rightarrow> u32 \<Rightarrow> u64" where
  "SIP_U64 hi lo = push_bit 32 (ucast hi) OR ucast lo"

definition SIP_ROTL :: "u64 \<Rightarrow> nat \<Rightarrow> u64" where
  "SIP_ROTL x b = push_bit b x OR drop_bit (64 - b) x"

definition SIP_ROUND :: "sip_vec \<Rightarrow> sip_vec" where
  "SIP_ROUND v =
     (case v of (v0, v1, v2, v3) \<Rightarrow>
      let v0 = v0 + v1; v1 = SIP_ROTL v1 13; v1 = v1 XOR v0; v0 = SIP_ROTL v0 32;
          v2 = v2 + v3; v3 = SIP_ROTL v3 16; v3 = v3 XOR v2;
          v0 = v0 + v3; v3 = SIP_ROTL v3 21; v3 = v3 XOR v0;
          v2 = v2 + v1; v1 = SIP_ROTL v1 17; v1 = v1 XOR v2; v2 = SIP_ROTL v2 32
      in (v0, v1, v2, v3))"

definition sip_char :: "bool \<Rightarrow> u8 \<Rightarrow> u8" where
  "sip_char lower c = (if lower then pj_tolower c else c)"

text \<open>The inner loops: byte \<open>i\<close> is merged at bit \<open>8 * i\<close>.\<close>

fun sip_merge :: "bool \<Rightarrow> u8 list \<Rightarrow> nat \<Rightarrow> u64 \<Rightarrow> u64" where
  "sip_merge lower [] i m = m"
| "sip_merge lower (c # cs) i m =
     sip_merge lower cs (i + 1) (m OR push_bit (8 * i) (ucast (sip_char lower c)))"

definition sip_absorb :: "u64 \<Rightarrow> sip_vec \<Rightarrow> sip_vec" where
  "sip_absorb m v =
     (case v of (v0, v1, v2, v3) \<Rightarrow>
      case SIP_ROUND (SIP_ROUND (v0, v1, v2, v3 XOR m)) of (v0, v1, v2, v3) \<Rightarrow> (v0 XOR m, v1, v2, v3))"

primrec sip_blocks :: "nat \<Rightarrow> bool \<Rightarrow> u8 list \<Rightarrow> sip_vec \<Rightarrow> sip_vec" where
  "sip_blocks 0 lower bs v = v"
| "sip_blocks (Suc n) lower bs v =
     sip_blocks n lower (drop 8 bs) (sip_absorb (sip_merge lower (take 8 bs) 0 0) v)"

definition siphash24 :: "u64 \<Rightarrow> u64 \<Rightarrow> u8 list \<Rightarrow> u32 \<Rightarrow> bool \<Rightarrow> u64" where
  "siphash24 k0 k1 data len lower =
     (let left = len AND 7;
          n = unat (len - left);
          v = (SIP_U64 0x736f6d65 0x70736575 XOR k0, SIP_U64 0x646f7261 0x6e646f6d XOR k1,
               SIP_U64 0x6c796765 0x6e657261 XOR k0, SIP_U64 0x74656462 0x79746573 XOR k1);
          v = sip_blocks (n div 8) lower data v;
          b = sip_merge lower (take (unat left) (drop n data)) 0 (push_bit 56 (ucast len))
      in case sip_absorb b v of (v0, v1, v2, v3) \<Rightarrow>
         case SIP_ROUND (SIP_ROUND (SIP_ROUND (SIP_ROUND (v0, v1, v2 XOR 0xff, v3)))) of
           (v0, v1, v2, v3) \<Rightarrow> v0 XOR v1 XOR v2 XOR v3)"

definition pj_hash_test_siphash24 :: "u64 \<Rightarrow> u64 \<Rightarrow> u8 list \<Rightarrow> u32 \<Rightarrow> u64" where
  "pj_hash_test_siphash24 k0 k1 data len = siphash24 k0 k1 data len False"

section \<open>The process key\<close>

record sip_state =
  sip_k0 :: u64
  sip_k1 :: u64
  sip_key_ready :: bool

fun mix_entropy :: "u8 list \<Rightarrow> nat \<Rightarrow> u8 list \<Rightarrow> u8 list \<times> nat" where
  "mix_entropy k idx [] = (k, idx)"
| "mix_entropy k idx (p # ps) =
     (let j = idx mod 16 in mix_entropy (k[j := k ! j * 33 + p]) (idx + 1) ps)"

record entropy =
  en_guids :: "u8 list option list"
  en_timestamp :: "u8 list option"
  en_pid :: "u8 list"
  en_ptrs :: "u8 list"
  en_rands :: "u8 list list"

definition be_u32 :: "u8 list \<Rightarrow> nat \<Rightarrow> u32" where
  "be_u32 k i = push_bit 24 (ucast (k ! i)) OR push_bit 16 (ucast (k ! (i + 1)))
     OR push_bit 8 (ucast (k ! (i + 2))) OR ucast (k ! (i + 3))"

definition mix_opt :: "u8 list option \<Rightarrow> u8 list \<times> nat \<Rightarrow> u8 list \<times> nat" where
  "mix_opt d s = (case d of None \<Rightarrow> s | Some bs \<Rightarrow> mix_entropy (fst s) (snd s) bs)"

definition pj_hash_init_key :: "entropy \<Rightarrow> sip_state \<Rightarrow> sip_state" where
  "pj_hash_init_key en st =
     (if sip_key_ready st then st
      else
        let s = (replicate 16 0, 0);
            s = fold mix_opt (take 2 (en_guids en)) s;
            s = mix_opt (en_timestamp en) s;
            s = mix_opt (Some (en_pid en)) s;
            s = mix_opt (Some (en_ptrs en)) s;
            s = fold (\<lambda>r. mix_opt (Some r)) (take 4 (en_rands en)) s;
            k = fst s
        in \<lparr>sip_k0 = SIP_U64 (be_u32 k 0) (be_u32 k 4), sip_k1 = SIP_U64 (be_u32 k 8) (be_u32 k 12),
            sip_key_ready = True\<rparr>)"

definition calc_table_hash :: "sip_state \<Rightarrow> u8 list \<Rightarrow> u32 \<Rightarrow> bool \<Rightarrow> u32" where
  "calc_table_hash st key len lower =
     (let b = siphash24 (sip_k0 st) (sip_k1 st) key len lower in ucast b XOR ucast (drop_bit 32 b))"

section \<open>The plain hash\<close>

fun djb2 :: "u32 \<Rightarrow> u8 list \<Rightarrow> u32" where
  "djb2 hash [] = hash"
| "djb2 hash (p # ps) = djb2 (hash * PJ_HASH_MULTIPLIER + ucast p) ps"

text \<open>The bytes before the terminator.\<close>

definition c_string :: "u8 list \<Rightarrow> u8 list" where
  "c_string key = takeWhile (\<lambda>c. c \<noteq> 0) key"

definition pj_hash_calc :: "u32 \<Rightarrow> u8 list \<Rightarrow> u32 \<Rightarrow> u32" where
  "pj_hash_calc hash key keylen =
     (if keylen = PJ_HASH_KEY_STRING then djb2 hash (c_string key)
      else djb2 hash (take (unat keylen) key))"

text \<open>The hash and the lowered characters written to the result buffer.\<close>

fun pj_hash_calc_tolower :: "u32 \<Rightarrow> u8 list \<Rightarrow> u32 \<times> u8 list" where
  "pj_hash_calc_tolower hval [] = (hval, [])"
| "pj_hash_calc_tolower hval (c # cs) =
     (let lower = pj_tolower c;
          (h, r) = pj_hash_calc_tolower (hval * PJ_HASH_MULTIPLIER + ucast lower) cs
      in (h, lower # r))"

section \<open>Creation\<close>

text \<open>The sizing loop: a do-while over a 32-bit shift.\<close>

partial_function (option) table_size_loop :: "u32 \<Rightarrow> u32 \<Rightarrow> u32 option" where
  "table_size_loop table_size n =
     (let ts = push_bit 1 table_size
      in if ts < n \<and> ts \<le> drop_bit 1 (-1) then table_size_loop ts n else Some ts)"

definition pj_hash_create :: "u32 \<Rightarrow> pj_hash_table_t option" where
  "pj_hash_create n =
     (case table_size_loop 8 n of
        None \<Rightarrow> None
      | Some ts \<Rightarrow>
          let table_size = ts - 1
          in Some \<lparr>ht_table = replicate (unat (table_size + 1)) [], ht_count = 0, ht_rows = table_size\<rparr>)"

section \<open>Lookup and update\<close>

text \<open>\<^verbatim>\<open>strncasecmp\<close> of the C library, whether it returns zero: it stops at a terminator.\<close>

fun strnicmp_eq :: "nat \<Rightarrow> u8 list \<Rightarrow> u8 list \<Rightarrow> bool" where
  "strnicmp_eq 0 a b \<longleftrightarrow> True"
| "strnicmp_eq (Suc n) (x # a) (y # b) \<longleftrightarrow>
     pj_tolower x = pj_tolower y \<and> (x = 0 \<or> strnicmp_eq n a b)"
| "strnicmp_eq (Suc n) _ _ \<longleftrightarrow> False"

definition entry_matches :: "u32 \<Rightarrow> u8 list \<Rightarrow> u32 \<Rightarrow> bool \<Rightarrow> pj_hash_entry \<Rightarrow> bool" where
  "entry_matches hash key keylen lower e \<longleftrightarrow> he_hash e = hash \<and> he_keylen e = keylen \<and>
     (lower \<and> strnicmp_eq (unat keylen) (he_key e) key \<or>
      \<not> lower \<and> take (unat keylen) (he_key e) = take (unat keylen) key)"

text \<open>The scan of a bucket: the position of the first matching entry, or of the final link.\<close>

fun scan :: "(pj_hash_entry \<Rightarrow> bool) \<Rightarrow> pj_hash_entry list \<Rightarrow> nat" where
  "scan P [] = 0"
| "scan P (e # es) = (if P e then 0 else Suc (scan P es))"

text \<open>The result of \<^verbatim>\<open>find_entry\<close>: the bucket and position of the returned link (or \<^term>\<open>None\<close> for
  the \<^verbatim>\<open>NULL\<close> of a failed assertion), the table, and the hash value reported back.\<close>

definition find_entry ::
  "sip_state \<Rightarrow> bool \<Rightarrow> pj_hash_table_t \<Rightarrow> u8 list \<Rightarrow> u32 \<Rightarrow> nat option \<Rightarrow> u32 option \<Rightarrow> bool \<Rightarrow> bool
     \<Rightarrow> (nat \<times> nat) option \<times> pj_hash_table_t \<times> u32 option" where
  "find_entry st pool ht key keylen0 val hval entry_buf lower =
     (let keylen = (if keylen0 = PJ_HASH_KEY_STRING then of_nat (length (c_string key)) else keylen0);
          hash = calc_table_hash st key keylen lower;
          hval1 = (case hval of
                     None \<Rightarrow> None
                   | Some h \<Rightarrow> Some (if h = 0
                       then (if lower then fst (pj_hash_calc_tolower 0 (take (unat keylen) key))
                             else pj_hash_calc 0 key keylen)
                       else h));
          b = unat (hash AND ht_rows ht);
          chain = ht_table ht ! b;
          i = scan (entry_matches hash key keylen lower) chain
      in if i < length chain \<or> val = None then (Some (b, i), ht, hval1)
         else if \<not> entry_buf \<and> \<not> pool then (None, ht, hval1)
         else
           let entry = \<lparr>he_key = take (unat keylen) key, he_hash = hash, he_keylen = keylen,
                        he_value = the val\<rparr>
           in (Some (b, i), ht\<lparr>ht_table := (ht_table ht)[b := chain @ [entry]],
                               ht_count := ht_count ht + 1\<rparr>, hval1))"

definition link_entry :: "pj_hash_table_t \<Rightarrow> nat \<times> nat \<Rightarrow> pj_hash_entry option" where
  "link_entry ht p = (let chain = ht_table ht ! fst p in if snd p < length chain then Some (chain ! snd p) else None)"

text \<open>The lookup: the value, and the hash value reported back.\<close>

definition hash_get ::
  "sip_state \<Rightarrow> pj_hash_table_t \<Rightarrow> u8 list \<Rightarrow> u32 \<Rightarrow> u32 option \<Rightarrow> bool \<Rightarrow> nat option \<times> u32 option" where
  "hash_get st ht key keylen hval lower =
     (case find_entry st False ht key keylen None hval False lower of
        (Some p, ht1, h) \<Rightarrow> (map_option he_value (link_entry ht1 p), h)
      | (None, ht1, h) \<Rightarrow> (None, h))"

definition pj_hash_get ::
  "sip_state \<Rightarrow> pj_hash_table_t \<Rightarrow> u8 list \<Rightarrow> u32 \<Rightarrow> u32 option \<Rightarrow> nat option \<times> u32 option" where
  "pj_hash_get st ht key keylen hval = hash_get st ht key keylen hval False"

definition pj_hash_get_lower ::
  "sip_state \<Rightarrow> pj_hash_table_t \<Rightarrow> u8 list \<Rightarrow> u32 \<Rightarrow> u32 option \<Rightarrow> nat option \<times> u32 option" where
  "pj_hash_get_lower st ht key keylen hval = hash_get st ht key keylen hval True"

text \<open>The update; \<^term>\<open>None\<close> is the dereference of the \<^verbatim>\<open>NULL\<close> link when neither pool nor buffer is given.\<close>

definition hash_set ::
  "sip_state \<Rightarrow> bool \<Rightarrow> pj_hash_table_t \<Rightarrow> u8 list \<Rightarrow> u32 \<Rightarrow> u32 \<Rightarrow> nat option \<Rightarrow> bool \<Rightarrow> bool
     \<Rightarrow> pj_hash_table_t option" where
  "hash_set st pool ht key keylen hval val entry_buf lower =
     (case find_entry st pool ht key keylen val (Some hval) entry_buf lower of
        (None, ht1, h) \<Rightarrow> None
      | (Some (b, i), ht1, h) \<Rightarrow>
          (case link_entry ht1 (b, i) of
             None \<Rightarrow> Some ht1
           | Some e \<Rightarrow>
               let chain = ht_table ht1 ! b
               in (case val of
                     None \<Rightarrow> Some (ht1\<lparr>ht_table := (ht_table ht1)[b := take i chain @ drop (Suc i) chain],
                                       ht_count := ht_count ht1 - 1\<rparr>)
                   | Some v \<Rightarrow> Some (ht1\<lparr>ht_table := (ht_table ht1)[b := chain[i := e\<lparr>he_value := v\<rparr>]]\<rparr>))))"

definition pj_hash_set ::
  "sip_state \<Rightarrow> bool \<Rightarrow> pj_hash_table_t \<Rightarrow> u8 list \<Rightarrow> u32 \<Rightarrow> u32 \<Rightarrow> nat option \<Rightarrow> pj_hash_table_t option" where
  "pj_hash_set st pool ht key keylen hval val = hash_set st pool ht key keylen hval val False False"

definition pj_hash_set_lower ::
  "sip_state \<Rightarrow> bool \<Rightarrow> pj_hash_table_t \<Rightarrow> u8 list \<Rightarrow> u32 \<Rightarrow> u32 \<Rightarrow> nat option \<Rightarrow> pj_hash_table_t option" where
  "pj_hash_set_lower st pool ht key keylen hval val = hash_set st pool ht key keylen hval val False True"

definition pj_hash_set_np ::
  "sip_state \<Rightarrow> pj_hash_table_t \<Rightarrow> u8 list \<Rightarrow> u32 \<Rightarrow> u32 \<Rightarrow> nat option \<Rightarrow> pj_hash_table_t option" where
  "pj_hash_set_np st ht key keylen hval val = hash_set st False ht key keylen hval val True False"

definition pj_hash_set_np_lower ::
  "sip_state \<Rightarrow> pj_hash_table_t \<Rightarrow> u8 list \<Rightarrow> u32 \<Rightarrow> u32 \<Rightarrow> nat option \<Rightarrow> pj_hash_table_t option" where
  "pj_hash_set_np_lower st ht key keylen hval val = hash_set st False ht key keylen hval val True True"

definition pj_hash_count :: "pj_hash_table_t \<Rightarrow> u32" where
  "pj_hash_count ht = ht_count ht"

section \<open>Iteration\<close>

text \<open>The loop over the rows: from the given index to the first bucket that is not empty.\<close>

function next_row :: "pj_hash_table_t \<Rightarrow> nat \<Rightarrow> pj_hash_iterator_t" where
  "next_row ht i =
     (if i \<le> unat (ht_rows ht) then
        (if ht_table ht ! i \<noteq> [] then \<lparr>it_index = i, it_entry = Some 0\<rparr> else next_row ht (i + 1))
      else \<lparr>it_index = i, it_entry = None\<rparr>)"
  by pat_completeness auto
termination
  by (relation "measure (\<lambda>(ht, i). Suc (unat (ht_rows ht)) - i)") auto

declare next_row.simps [simp del]

definition pj_hash_first :: "pj_hash_table_t \<Rightarrow> pj_hash_iterator_t option" where
  "pj_hash_first ht = (let it = next_row ht 0 in if it_entry it = None then None else Some it)"

definition pj_hash_next :: "pj_hash_table_t \<Rightarrow> pj_hash_iterator_t \<Rightarrow> pj_hash_iterator_t option" where
  "pj_hash_next ht it =
     (let k = the (it_entry it) + 1
      in if k < length (ht_table ht ! it_index it) then Some (it\<lparr>it_entry := Some k\<rparr>)
         else let it1 = next_row ht (it_index it + 1) in if it_entry it1 = None then None else Some it1)"

definition pj_hash_this :: "pj_hash_table_t \<Rightarrow> pj_hash_iterator_t \<Rightarrow> nat" where
  "pj_hash_this ht it = he_value (ht_table ht ! it_index it ! the (it_entry it))"

end
