(* ===== verification/Pj_Hash_Spec.thy ===== *)
theory Pj_Hash_Spec
  imports Pj_Hash
begin

text \<open>
  The hash table against its specification, a finite map from keys to values. Keys are
  compared as they are or, for the \<open>lower\<close> functions, up to the case of letters; the locale
  \<open>keyed_table\<close> states the contract for both and is interpreted twice.
\<close>

section \<open>The hash of a key\<close>

abbreviation norm_key :: "bool \<Rightarrow> u8 list \<Rightarrow> u8 list" where
  "norm_key lower k \<equiv> map (sip_char lower) k"

lemma sip_char_simps [simp]:
  "sip_char False c = c" "sip_char l (sip_char l c) = sip_char l c"
  by (auto simp: sip_char_def)

lemma norm_key_idem [simp]: "norm_key l (norm_key l k) = norm_key l k"
  by simp

lemma norm_key_False [simp]: "norm_key False k = k"
  by (simp add: map_idI)

lemma sip_merge_lower: "sip_merge l cs i m = sip_merge False (norm_key l cs) i m"
  by (induction cs arbitrary: i m) auto

lemma sip_blocks_lower: "sip_blocks n l bs v = sip_blocks n False (norm_key l bs) v"
  by (induction n arbitrary: bs v) (auto simp: drop_map take_map sip_merge_lower [of l])

lemma sip_blocks_take: "8 * n \<le> m \<Longrightarrow> sip_blocks n l (take m bs) v = sip_blocks n l bs v"
proof (induction n arbitrary: bs v m)
  case (Suc n)
  then have "sip_blocks n l (take (m - 8) (drop 8 bs)) u = sip_blocks n l (drop 8 bs) u" for u
    by (intro Suc.IH) simp
  then show ?case using Suc.prems by (simp add: drop_take min_def)
qed simp

text \<open>The hash reads exactly the given number of bytes, and the hash of a key without regard to
  case is the hash of the lowered key.\<close>

lemma siphash24_norm:
  "siphash24 k0 k1 data len l = siphash24 k0 k1 (norm_key l (take (unat len) data)) len False"
proof -
  have n: "unat (len - (len AND 7)) + unat (len AND 7) = unat len" for len :: u32
    by (metis add_diff_cancel_right' diff_add_cancel unat_plus_if_size unat_sub word_and_le1 word_and_le2
        word_sub_le le_add_diff_inverse2 word_le_nat_alt)
  let ?n = "unat (len - (len AND 7))" and ?r = "unat (len AND 7)"
  have "sip_blocks (?n div 8) l data v = sip_blocks (?n div 8) False (norm_key l (take (unat len) data)) v" for v
    using n [of len] sip_blocks_take [of "?n div 8" "unat len" False "norm_key l data" v]
    by (simp add: sip_blocks_lower [of _ l] take_map)
  moreover have "sip_merge l (take ?r (drop ?n data)) 0 m =
      sip_merge False (take ?r (drop ?n (norm_key l (take (unat len) data)))) 0 m" for m
    by (simp add: sip_merge_lower [of l] take_map drop_map drop_take n [of len, symmetric])
  ultimately show ?thesis by (simp add: siphash24_def Let_def)
qed

definition key_len :: "u8 list \<Rightarrow> u32 \<Rightarrow> u32" where
  "key_len key keylen = (if keylen = PJ_HASH_KEY_STRING then of_nat (length (c_string key)) else keylen)"

text \<open>The key a call names, and when its buffer really holds it. The comparison without regard to case
  stops at a terminator, which may only be the last byte.\<close>

definition key_of :: "u8 list \<Rightarrow> u32 \<Rightarrow> u8 list" where
  "key_of key keylen = take (unat (key_len key keylen)) key"

definition key_ok :: "bool \<Rightarrow> u8 list \<Rightarrow> u32 \<Rightarrow> bool" where
  "key_ok lower key keylen \<longleftrightarrow> unat (key_len key keylen) \<le> length key \<and>
     (lower \<longrightarrow> 0 \<notin> set (butlast (key_of key keylen)))"

definition table_hash :: "sip_state \<Rightarrow> u8 list \<Rightarrow> u32" where
  "table_hash st k = calc_table_hash st k (of_nat (length k)) False"

lemma calc_table_hash_eq:
  assumes "unat len \<le> length key"
  shows "calc_table_hash st key len l = table_hash st (norm_key l (take (unat len) key))"
proof -
  have "of_nat (length (norm_key l (take (unat len) key))) = len" using assms by simp
  then show ?thesis
    using siphash24_norm [of _ _ key len l] by (simp add: calc_table_hash_def table_hash_def Let_def)
qed

section \<open>Invariant and view\<close>

definition entry_ok :: "sip_state \<Rightarrow> bool \<Rightarrow> pj_hash_entry \<Rightarrow> bool" where
  "entry_ok st l e \<longleftrightarrow> he_hash e = table_hash st (norm_key l (he_key e)) \<and>
     unat (he_keylen e) = length (he_key e) \<and> (l \<longrightarrow> 0 \<notin> set (butlast (he_key e)))"

definition bucket :: "sip_state \<Rightarrow> pj_hash_table_t \<Rightarrow> u8 list \<Rightarrow> nat" where
  "bucket st ht k = unat (table_hash st k AND ht_rows ht)"

definition pair_of :: "bool \<Rightarrow> pj_hash_entry \<Rightarrow> u8 list \<times> nat" where
  "pair_of l e = (norm_key l (he_key e), he_value e)"

definition hash_inv :: "sip_state \<Rightarrow> bool \<Rightarrow> pj_hash_table_t \<Rightarrow> bool" where
  "hash_inv st l ht \<longleftrightarrow> length (ht_table ht) = Suc (unat (ht_rows ht)) \<and>
     ht_count ht = of_nat (length (concat (ht_table ht))) \<and>
     (\<forall>b < length (ht_table ht). distinct (map fst (map (pair_of l) (ht_table ht ! b))) \<and>
        (\<forall>e \<in> set (ht_table ht ! b). entry_ok st l e \<and> bucket st ht (norm_key l (he_key e)) = b))"

definition hash_view :: "sip_state \<Rightarrow> bool \<Rightarrow> pj_hash_table_t \<Rightarrow> u8 list \<rightharpoonup> nat" where
  "hash_view st l ht k = map_of (map (pair_of l) (ht_table ht ! bucket st ht k)) k"

lemma bucket_less: "hash_inv st l ht \<Longrightarrow> bucket st ht k < length (ht_table ht)"
  unfolding hash_inv_def bucket_def by (simp add: less_Suc_eq_le word_le_nat_alt [symmetric] word_and_le1)

section \<open>The scan of a bucket\<close>

lemma strnicmp_eq_iff:
  "length a \<le> length b \<Longrightarrow> 0 \<notin> set (butlast a) \<Longrightarrow>
     strnicmp_eq (length a) a b \<longleftrightarrow> map pj_tolower a = map pj_tolower (take (length a) b)"
proof (induction a arbitrary: b)
  case (Cons x a)
  then show ?case by (cases b; cases "a = []") auto
qed simp

lemma entry_matches_iff:
  assumes e: "entry_ok st l e" and k: "unat n \<le> length key" "l \<longrightarrow> 0 \<notin> set (butlast (take (unat n) key))"
  shows "entry_matches (table_hash st (norm_key l (take (unat n) key))) key n l e \<longleftrightarrow>
    norm_key l (he_key e) = norm_key l (take (unat n) key)" (is "?L \<longleftrightarrow> ?R")
proof -
  have len: "length (he_key e) = unat (he_keylen e)" using e by (simp add: entry_ok_def)
  have lw: "sip_char True = pj_tolower" by (simp add: sip_char_def fun_eq_iff)
  have same: "norm_key l (he_key e) = norm_key l (take (unat n) key) \<Longrightarrow> he_keylen e = n"
    using k(1) len by (metis length_map length_take min.absorb2 word_unat_eq_iff)
  show ?thesis
  proof (cases "he_keylen e = n")
    case True
    then have ln: "length (he_key e) = unat n" using len by simp
    have "strnicmp_eq (unat n) (he_key e) key \<longleftrightarrow>
        map pj_tolower (he_key e) = map pj_tolower (take (unat n) key)" if l
      using strnicmp_eq_iff [of "he_key e" key] ln k that e by (simp add: entry_ok_def)
    then show ?thesis
      using True ln e by (cases l) (auto simp: entry_matches_def entry_ok_def lw)
  qed (use same in \<open>auto simp: entry_matches_def\<close>)
qed

lemma scan_cases:
  "scan P xs < length xs \<and> P (xs ! scan P xs) \<or> scan P xs = length xs \<and> (\<forall>x \<in> set xs. \<not> P x)"
  by (induction xs) auto

text \<open>What \<^verbatim>\<open>find_entry\<close> finds, in terms of the view.\<close>

lemma find_scan:
  assumes inv: "hash_inv st l ht" and ok: "key_ok l key keylen"
    and k: "k = norm_key l (key_of key keylen)" and b: "b = bucket st ht k"
    and i: "i = scan (entry_matches (calc_table_hash st key (key_len key keylen) l) key (key_len key keylen) l)
      (ht_table ht ! b)"
  shows "i < length (ht_table ht ! b) \<and> fst (pair_of l (ht_table ht ! b ! i)) = k \<and>
      hash_view st l ht k = Some (he_value (ht_table ht ! b ! i)) \<or>
    i = length (ht_table ht ! b) \<and> k \<notin> fst ` set (map (pair_of l) (ht_table ht ! b)) \<and>
      hash_view st l ht k = None"
proof -
  let ?c = "ht_table ht ! b" and ?n = "key_len key keylen"
  have n: "unat ?n \<le> length key" "l \<longrightarrow> 0 \<notin> set (butlast (take (unat ?n) key))"
    using ok by (auto simp: key_ok_def key_of_def)
  let ?P = "entry_matches (calc_table_hash st key ?n l) key ?n l"
  have eo: "entry_ok st l e" if "e \<in> set ?c" for e
    using inv that bucket_less [OF inv, of k] by (auto simp: hash_inv_def b)
  have m: "?P e \<longleftrightarrow> fst (pair_of l e) = k" if "e \<in> set ?c" for e
    using entry_matches_iff [OF eo [OF that] n] by (simp add: calc_table_hash_eq [OF n(1)] pair_of_def k key_of_def)
  have d: "distinct (map fst (map (pair_of l) ?c))" using inv bucket_less [OF inv, of k] by (simp add: hash_inv_def b)
  from scan_cases [of ?P ?c] show ?thesis
  proof
    assume "scan ?P ?c < length ?c \<and> ?P (?c ! scan ?P ?c)"
    then have s: "i < length ?c" "fst (pair_of l (?c ! i)) = k" using m i by auto
    have "pair_of l (?c ! i) \<in> set (map (pair_of l) ?c)" using s(1) by auto
    moreover have "pair_of l (?c ! i) = (k, he_value (?c ! i))" using s(2) by (simp add: pair_of_def)
    ultimately have "map_of (map (pair_of l) ?c) k = Some (he_value (?c ! i))"
      using d by (metis map_of_is_SomeI)
    with s show ?thesis by (simp add: hash_view_def b)
  next
    assume "scan ?P ?c = length ?c \<and> (\<forall>x\<in>set ?c. \<not> ?P x)"
    then have s: "i = length ?c" "k \<notin> fst ` set (map (pair_of l) ?c)" using m i by auto
    then have "map_of (map (pair_of l) ?c) k = None" by (simp only: map_of_eq_None_iff not_False_eq_True)
    with s show ?thesis by (simp add: hash_view_def b)
  qed
qed

section \<open>Lookup and update against the view\<close>

lemma find_entry_bucket:
  assumes "key_ok l key keylen"
  shows "unat (calc_table_hash st key (key_len key keylen) l AND ht_rows ht) =
    bucket st ht (norm_key l (key_of key keylen))"
  using assms by (simp add: bucket_def calc_table_hash_eq key_of_def key_ok_def)

lemma hash_get_view:
  assumes inv: "hash_inv st l ht" and ok: "key_ok l key keylen"
  shows "fst (hash_get st ht key keylen hval l) = hash_view st l ht (norm_key l (key_of key keylen))"
proof -
  note F = find_scan [OF inv ok refl refl refl]
  show ?thesis using F
    by (auto simp: hash_get_def find_entry_def Let_def link_entry_def find_entry_bucket [OF ok] simp flip: key_len_def)
qed

text \<open>Replacing one bucket by one with the same kind of entries.\<close>

lemma replace_bucket:
  assumes inv: "hash_inv st l ht" and b: "b = bucket st ht k"
    and ht': "ht' = ht\<lparr>ht_table := (ht_table ht)[b := c], ht_count := n\<rparr>"
    and c: "distinct (map fst (map (pair_of l) c))"
      "\<And>e. e \<in> set c \<Longrightarrow> entry_ok st l e \<and> bucket st ht (norm_key l (he_key e)) = b"
    and n: "n + of_nat (length (ht_table ht ! b)) = ht_count ht + of_nat (length c)"
    and v: "map_of (map (pair_of l) c) = (map_of (map (pair_of l) (ht_table ht ! b)))(k := v)"
  shows "hash_inv st l ht'" "hash_view st l ht' = (hash_view st l ht)(k := v)"
proof -
  have bl: "b < length (ht_table ht)" using bucket_less [OF inv] b by simp
  have bk: "bucket st ht' = bucket st ht" by (simp add: fun_eq_iff bucket_def ht')
  have tb: "ht_table ht' = (ht_table ht)[b := c]" by (simp add: ht')
  have "n = of_nat (length (concat ((ht_table ht)[b := c])))"
  proof -
    have "of_nat (length (concat ((ht_table ht)[b := c]))) + of_nat (length (ht_table ht ! b)) =
        (of_nat (length (concat (ht_table ht))) + of_nat (length c) :: u32)"
      using length_concat_update [OF bl, of c] by (metis of_nat_add)
    also have "\<dots> = n + of_nat (length (ht_table ht ! b))" using n inv by (simp add: hash_inv_def)
    finally show ?thesis by simp
  qed
  moreover have "distinct (map fst (map (pair_of l) ((ht_table ht)[b := c] ! x))) \<and>
      (\<forall>e\<in>set ((ht_table ht)[b := c] ! x). entry_ok st l e \<and> bucket st ht (norm_key l (he_key e)) = x)"
    if "x < length (ht_table ht)" for x
    using c inv that by (cases "x = b") (auto simp: hash_inv_def)
  ultimately show "hash_inv st l ht'" using inv bk by (simp add: hash_inv_def ht')
  show "hash_view st l ht' = (hash_view st l ht)(k := v)"
  proof
    fix x
    show "hash_view st l ht' x = ((hash_view st l ht)(k := v)) x"
      using v bl by (cases "bucket st ht x = b") (auto simp: hash_view_def bk tb b)
  qed
qed

lemma hash_set_view:
  assumes inv: "hash_inv st l ht" and ok: "key_ok l key keylen" and mem: "pool \<or> entry_buf"
    and k: "k = norm_key l (key_of key keylen)"
  obtains ht' where "hash_set st pool ht key keylen hval val entry_buf l = Some ht'"
    "hash_inv st l ht'" "hash_view st l ht' = (hash_view st l ht)(k := val)"
proof -
  let ?n = "key_len key keylen"
  define b where "b = bucket st ht k"
  define c where "c = ht_table ht ! b"
  let ?h = "calc_table_hash st key ?n l"
  define i where "i = scan (entry_matches ?h key ?n l) c"
  have bl: "b < length (ht_table ht)" using bucket_less [OF inv] b_def by simp
  have d: "distinct (map fst (map (pair_of l) c))" "\<And>e. e \<in> set c \<Longrightarrow> entry_ok st l e \<and>
      bucket st ht (norm_key l (he_key e)) = b"
    using inv bl by (auto simp: hash_inv_def c_def)
  note F = find_scan [OF inv ok k b_def i_def [unfolded c_def], folded c_def]
  have bk: "unat (?h AND ht_rows ht) = b" using find_entry_bucket [OF ok] k b_def by simp
  note code = hash_set_def find_entry_def Let_def link_entry_def bk c_def [symmetric] i_def [symmetric]
  show thesis
  proof (cases "i < length c")
    case found: True
    then have kv: "fst (pair_of l (c ! i)) = k" using F by auto
    show thesis
    proof (cases val)
      case None
      define c' where "c' = take i c @ drop (Suc i) c"
      define ht' where "ht' = ht\<lparr>ht_table := (ht_table ht)[b := c'], ht_count := ht_count ht - 1\<rparr>"
      have s: "hash_set st pool ht key keylen hval val entry_buf l = Some ht'"
        using found None unfolding code by (simp add: ht'_def c'_def code(4-) flip: key_len_def)
      have "set c' \<subseteq> set c" by (auto simp: c'_def dest: in_set_takeD in_set_dropD)
      then have e: "entry_ok st l e \<and> bucket st ht (norm_key l (he_key e)) = b" if "e \<in> set c'" for e
        using d(2) that by blast
      have dc: "distinct (map fst (map (pair_of l) c'))"
        using distinct_nth_delete [OF d(1), of i] by (simp add: c'_def take_map drop_map)
      have v: "map_of (map (pair_of l) c') = (map_of (map (pair_of l) c))(k := None)"
        using map_of_nth_delete [OF _ d(1)] found kv by (simp add: c'_def take_map drop_map)
      have n: "ht_count ht - 1 + of_nat (length c) = ht_count ht + of_nat (length c')"
        using found by (simp add: c'_def of_nat_diff)
      show thesis
        using replace_bucket [OF inv b_def ht'_def dc e n [unfolded c_def] v [unfolded c_def]] s None
        by (intro that) simp_all
    next
      case (Some v)
      define c' where "c' = c[i := (c ! i)\<lparr>he_value := v\<rparr>]"
      define ht' where "ht' = ht\<lparr>ht_table := (ht_table ht)[b := c'], ht_count := ht_count ht\<rparr>"
      have s: "hash_set st pool ht key keylen hval val entry_buf l = Some ht'"
        using found Some unfolding code by (simp add: ht'_def c'_def code(4-) flip: key_len_def)
      have p: "map (pair_of l) c' = (map (pair_of l) c)[i := (k, v)]"
        using kv by (simp add: c'_def map_update pair_of_def)
      have e: "entry_ok st l e \<and> bucket st ht (norm_key l (he_key e)) = b" if "e \<in> set c'" for e
      proof -
        have "e \<in> set c \<or> e = (c ! i)\<lparr>he_value := v\<rparr>" using that set_update_subset_insert [of c i] by (auto simp: c'_def)
        then show ?thesis using d(2) [of e] d(2) [OF nth_mem [OF found]] by (auto simp: entry_ok_def)
      qed
      have dc: "distinct (map fst (map (pair_of l) c'))"
      proof -
        have "map fst (map (pair_of l) c') = map fst (map (pair_of l) c)"
          using found kv unfolding p map_update by (simp add: list_update_same_conv)
        with d(1) show ?thesis by (simp only:)
      qed
      have v: "map_of (map (pair_of l) c') = (map_of (map (pair_of l) c))(k := Some v)"
        unfolding p using map_of_nth_update [OF _ d(1)] found kv by simp
      have n: "ht_count ht + of_nat (length c) = ht_count ht + of_nat (length c')" by (simp add: c'_def)
      show thesis
        using replace_bucket [OF inv b_def ht'_def dc e n [unfolded c_def] v [unfolded c_def]] s Some
        by (intro that) simp_all
    qed
  next
    case False
    then have ic: "i = length c" "k \<notin> fst ` set (map (pair_of l) c)" "hash_view st l ht k = None" using F by auto
    show thesis
    proof (cases val)
      case None
      have "hash_set st pool ht key keylen hval val entry_buf l = Some ht"
        using False None unfolding code by (simp add: code(4-) flip: key_len_def)
      then show thesis using that [of ht] inv None ic(3) by (simp add: fun_upd_idem)
    next
      case (Some v)
      define e0 where "e0 = \<lparr>he_key = key_of key keylen, he_hash = ?h, he_keylen = ?n, he_value = v\<rparr>"
      define c' where "c' = c @ [e0]"
      define ht' where "ht' = ht\<lparr>ht_table := (ht_table ht)[b := c'], ht_count := ht_count ht + 1\<rparr>"
      have tb: "(ht_table ht)[b := c @ [e0]] ! b = c @ [e0]" using bl by simp
      have s: "hash_set st pool ht key keylen hval val entry_buf l = Some ht'"
        using False Some mem ic(1) tb unfolding code
        by (auto simp: ht'_def c'_def e0_def key_of_def code(4-) simp flip: key_len_def)
      have e0: "pair_of l e0 = (k, v)" "entry_ok st l e0"
        using ok k by (simp_all add: pair_of_def e0_def entry_ok_def key_ok_def key_of_def calc_table_hash_eq)
      have e: "entry_ok st l e \<and> bucket st ht (norm_key l (he_key e)) = b" if "e \<in> set c'" for e
        using that d(2) e0(2) k b_def by (auto simp: c'_def e0_def)
      have dc: "distinct (map fst (map (pair_of l) c'))" using d(1) ic(2) e0(1) by (auto simp: c'_def)
      have v: "map_of (map (pair_of l) c') = (map_of (map (pair_of l) c))(k := Some v)"
        using map_of_snoc [OF ic(2)] by (simp add: c'_def e0(1))
      have n: "ht_count ht + 1 + of_nat (length c) = ht_count ht + of_nat (length c')" by (simp add: c'_def)
      show thesis
        using replace_bucket [OF inv b_def ht'_def dc e n [unfolded c_def] v [unfolded c_def]] s Some
        by (intro that) simp_all
    qed
  qed
qed

end
