(* ===== verification/Pj_Hash_Props.thy ===== *)
theory Pj_Hash_Props
  imports Pj_Hash_Spec
begin

text \<open>
  The sizing of a new table, iteration, the contract of a keyed table as a locale with its two
  interpretations, and the properties of the hash table component.
\<close>

section \<open>Creation\<close>

lemma unat_pow2: "a < 32 \<Longrightarrow> unat ((2 :: u32) ^ a) = 2 ^ a"
proof -
  assume "a < 32"
  then have "(2 :: nat) ^ a < 2 ^ 32" by (intro power_strict_increasing) auto
  then have "unat (of_nat (2 ^ a) :: u32) = 2 ^ a" by (simp only: unat_of_nat) simp
  then show ?thesis by simp
qed

lemma table_size_loop_ok:
  assumes "3 \<le> j" "j \<le> 30"
  shows "\<exists>m. j < m \<and> m \<le> 31 \<and> table_size_loop (2 ^ j) n = Some (2 ^ m) \<and>
    (n \<le> 2 ^ m \<or> m = 31) \<and> (m = j + 1 \<or> 2 ^ (m - 1) < n)"
  using assms
proof (induction "30 - j" arbitrary: j)
  case 0
  then have j: "j = 30" by simp
  have c: "\<not> (2 :: u32) ^ 31 \<le> drop_bit 1 (-1)" "push_bit 1 ((2 :: u32) ^ 30) = 2 ^ 31" by code_simp+
  have "table_size_loop (2 ^ 30) n = Some (2 ^ 31)"
    by (subst table_size_loop.simps) (simp only: Let_def c simp_thms if_False)
  then show ?case unfolding j by (intro exI [of _ 31]) simp
next
  case (Suc d)
  then have j: "j < 30" by simp
  let ?ts = "2 ^ (j + 1) :: u32"
  have ts: "push_bit 1 ((2 :: u32) ^ j) = ?ts" by (simp add: push_bit_eq_mult)
  have half: "?ts \<le> drop_bit 1 (-1)"
  proof -
    have "unat ?ts \<le> 2 ^ 30" using unat_pow2 [of "j + 1"] j power_increasing [of "j + 1" 30 "2 :: nat"] by simp
    moreover have "drop_bit 1 (-1) = (0x7fffffff :: u32)" by code_simp
    ultimately show ?thesis by (simp only: word_le_nat_alt) simp
  qed
  show ?case
  proof (cases "?ts < n")
    case True
    obtain m where m: "j + 1 < m" "m \<le> 31" "table_size_loop ?ts n = Some (2 ^ m)"
      "n \<le> 2 ^ m \<or> m = 31" "m = j + 1 + 1 \<or> 2 ^ (m - 1) < n"
    proof -
      have "d = 30 - (j + 1)" "3 \<le> j + 1" "j + 1 \<le> 30" using Suc.hyps(2) Suc.prems j by auto
      from Suc.hyps(1) [OF this] that show thesis by blast
    qed
    have "table_size_loop (2 ^ j) n = Some (2 ^ m)"
      by (subst table_size_loop.simps) (simp only: Let_def ts True half m(3) simp_thms if_True)
    moreover have "2 ^ (m - 1) < n" using m(5) True by auto
    ultimately show ?thesis using m(1,2,4) by (intro exI [of _ m]) auto
  next
    case False
    then have "table_size_loop (2 ^ j) n = Some ?ts"
      by (subst table_size_loop.simps) (simp only: Let_def ts simp_thms if_False)
    with False j show ?thesis by (intro exI [of _ "j + 1"]) auto
  qed
qed

lemma create_ok:
  obtains ht m where "pj_hash_create n = Some ht" "4 \<le> m" "m \<le> 31" "unat (ht_rows ht) = 2 ^ m - 1"
    "unat n \<le> 2 ^ m \<or> m = 31" "m = 4 \<or> 2 ^ (m - 1) < unat n"
    "hash_inv st l ht" "hash_view st l ht = Map.empty" "ht_count ht = 0"
proof -
  obtain m where m: "3 < m" "m \<le> 31" "table_size_loop (2 ^ 3) n = Some (2 ^ m)"
    "n \<le> 2 ^ m \<or> m = 31" "m = 3 + 1 \<or> 2 ^ (m - 1) < n"
    using table_size_loop_ok [of 3 n] by auto
  define ht where "ht = \<lparr>ht_table = replicate (unat ((2 :: u32) ^ m - 1 + 1)) [], ht_count = 0,
    ht_rows = 2 ^ m - 1\<rparr>"
  have c: "pj_hash_create n = Some ht" using m(3) by (simp add: pj_hash_create_def ht_def)
  have u: "unat ((2 :: u32) ^ m) = 2 ^ m" "unat ((2 :: u32) ^ (m - 1)) = 2 ^ (m - 1)" using unat_pow2 m by simp_all
  have "(1 :: u32) \<le> 2 ^ m" by (simp add: word_le_nat_alt u)
  then have r: "unat (ht_rows ht) = 2 ^ m - 1" by (simp add: ht_def unat_sub u)
  have t: "ht_table ht = replicate (2 ^ m) []" "ht_count ht = 0" by (simp_all add: ht_def u)
  have "hash_inv st l ht" using r by (simp add: hash_inv_def t concat_replicate_trivial)
  moreover from this have "hash_view st l ht = Map.empty"
    using bucket_less [of st l ht] by (auto simp: hash_view_def fun_eq_iff t)
  ultimately show thesis using c r m u t
    by (intro that [of ht m]) (auto simp: word_le_nat_alt word_less_nat_alt)
qed

section \<open>Iteration\<close>

definition it_valid :: "pj_hash_table_t \<Rightarrow> pj_hash_iterator_t \<Rightarrow> bool" where
  "it_valid ht it \<longleftrightarrow> it_index it < length (ht_table ht) \<and>
     (\<exists>k < length (ht_table ht ! it_index it). it_entry it = Some k)"

definition it_rest :: "pj_hash_table_t \<Rightarrow> pj_hash_iterator_t option \<Rightarrow> pj_hash_entry list" where
  "it_rest ht it = (case it of None \<Rightarrow> [] | Some i \<Rightarrow>
     drop (the (it_entry i)) (ht_table ht ! it_index i) @ concat (drop (Suc (it_index i)) (ht_table ht)))"

definition it_opt :: "pj_hash_iterator_t \<Rightarrow> pj_hash_iterator_t option" where
  "it_opt it = (if it_entry it = None then None else Some it)"

lemma next_row_rest:
  assumes "length (ht_table ht) = Suc (unat (ht_rows ht))"
  shows "it_rest ht (it_opt (next_row ht i)) = concat (drop i (ht_table ht)) \<and>
    (it_entry (next_row ht i) \<noteq> None \<longrightarrow> it_valid ht (next_row ht i))"
  using assms
proof (induction ht i rule: next_row.induct)
  case (1 ht i)
  show ?case
  proof (cases "i \<le> unat (ht_rows ht)")
    case True
    then have d: "concat (drop i (ht_table ht)) = ht_table ht ! i @ concat (drop (Suc i) (ht_table ht))"
      using 1(2) by (metis Cons_nth_drop_Suc concat.simps(2) less_Suc_eq_le)
    show ?thesis
    proof (cases "ht_table ht ! i = []")
      case True
      then show ?thesis using 1 \<open>i \<le> unat (ht_rows ht)\<close> d by (simp add: next_row.simps [of ht i])
    next
      case False
      then show ?thesis using True d 1(2)
        by (simp add: next_row.simps [of ht i] it_opt_def it_rest_def it_valid_def)
    qed
  next
    case False
    then show ?thesis using 1(2) by (simp add: next_row.simps [of ht i] it_opt_def it_rest_def)
  qed
qed

lemma hash_next_rest:
  assumes v: "it_valid ht it" and len: "length (ht_table ht) = Suc (unat (ht_rows ht))"
  shows "it_rest ht (Some it) = (ht_table ht ! it_index it ! the (it_entry it)) # it_rest ht (pj_hash_next ht it)"
    "pj_hash_next ht it = Some it' \<Longrightarrow> it_valid ht it'"
proof -
  obtain k where k: "it_entry it = Some k" "k < length (ht_table ht ! it_index it)"
    using v by (auto simp: it_valid_def)
  note N = next_row_rest [OF len, of "Suc (it_index it)"]
  have d: "drop k (ht_table ht ! it_index it) = ht_table ht ! it_index it ! k # drop (Suc k) (ht_table ht ! it_index it)"
    using k(2) by (simp add: Cons_nth_drop_Suc)
  show "it_rest ht (Some it) = (ht_table ht ! it_index it ! the (it_entry it)) # it_rest ht (pj_hash_next ht it)"
    using k d N by (auto simp: pj_hash_next_def Let_def it_rest_def [of _ "Some _"] it_opt_def split: if_splits)
  show "pj_hash_next ht it = Some it' \<Longrightarrow> it_valid ht it'"
    using k v N by (auto simp: pj_hash_next_def Let_def it_valid_def split: if_splits)
qed

text \<open>The loop of a client over all entries; fuel bounds the number of entries.\<close>

fun hash_walk :: "nat \<Rightarrow> pj_hash_table_t \<Rightarrow> pj_hash_iterator_t option \<Rightarrow> nat list option" where
  "hash_walk fuel ht None = Some []"
| "hash_walk 0 ht (Some it) = None"
| "hash_walk (Suc fuel) ht (Some it) =
     map_option ((#) (pj_hash_this ht it)) (hash_walk fuel ht (pj_hash_next ht it))"

lemma hash_walk_rest:
  "length (ht_table ht) = Suc (unat (ht_rows ht)) \<Longrightarrow> (\<And>i. it = Some i \<Longrightarrow> it_valid ht i) \<Longrightarrow>
     length (it_rest ht it) \<le> fuel \<Longrightarrow> hash_walk fuel ht it = Some (map he_value (it_rest ht it))"
proof (induction fuel ht it rule: hash_walk.induct)
  case (1 fuel ht)
  then show ?case by (simp add: it_rest_def)
next
  case (2 ht it)
  then show ?case using hash_next_rest(1) [of ht it] by simp
next
  case (3 fuel ht it)
  have v: "it_valid ht it" using 3(3) by simp
  note N = hash_next_rest [OF v 3(2)]
  have "hash_walk fuel ht (pj_hash_next ht it) = Some (map he_value (it_rest ht (pj_hash_next ht it)))"
    using 3 N by simp
  then show ?case using N(1) by (simp add: pj_hash_this_def)
qed

lemma hash_walk_all:
  assumes inv: "hash_inv st l ht" and fuel: "length (concat (ht_table ht)) \<le> fuel"
  shows "hash_walk fuel ht (pj_hash_first ht) = Some (map he_value (concat (ht_table ht)))"
proof -
  have len: "length (ht_table ht) = Suc (unat (ht_rows ht))" using inv by (simp add: hash_inv_def)
  have f: "pj_hash_first ht = it_opt (next_row ht 0)" by (simp add: pj_hash_first_def it_opt_def Let_def)
  have "it_valid ht i" if "pj_hash_first ht = Some i" for i
    using that next_row_rest [OF len, of 0] unfolding f by (simp add: it_opt_def split: if_splits)
  moreover have "it_rest ht (pj_hash_first ht) = concat (ht_table ht)"
    using next_row_rest [OF len, of 0] f by simp
  ultimately show ?thesis using hash_walk_rest [OF len, of "pj_hash_first ht" fuel] fuel by simp
qed

text \<open>The entries are exactly the bindings of the view, each once.\<close>

lemma entries_view:
  assumes inv: "hash_inv st l ht"
  shows "set (map (pair_of l) (concat (ht_table ht))) = {(k, v). hash_view st l ht k = Some v}"
    "distinct (map fst (map (pair_of l) (concat (ht_table ht))))"
proof -
  let ?t = "ht_table ht"
  have D: "distinct (map fst (map (pair_of l) (?t ! b)))" "e \<in> set (?t ! b) \<Longrightarrow> bucket st ht (fst (pair_of l e)) = b"
    if "b < length ?t" for b e using inv that by (auto simp: hash_inv_def pair_of_def)
  show "set (map (pair_of l) (concat ?t)) = {(k, v). hash_view st l ht k = Some v}"
  proof (intro set_eqI iffI)
    fix p assume "p \<in> set (map (pair_of l) (concat ?t))"
    then obtain e b where e: "p = pair_of l e" "e \<in> set (?t ! b)" "b < length ?t"
      by (auto simp: in_set_conv_nth [of _ ?t])
    then show "p \<in> {(k, v). hash_view st l ht k = Some v}"
      using D [OF e(3)] by (auto simp: hash_view_def pair_of_def intro!: map_of_is_SomeI)
  next
    fix p assume "p \<in> {(k, v). hash_view st l ht k = Some v}"
    then obtain k v where p: "p = (k, v)" "map_of (map (pair_of l) (?t ! bucket st ht k)) k = Some v"
      by (auto simp: hash_view_def)
    then have "(k, v) \<in> set (map (pair_of l) (?t ! bucket st ht k))" using map_of_SomeD by fast
    then show "p \<in> set (map (pair_of l) (concat ?t))"
      using bucket_less [OF inv, of k] p(1) by (auto simp: set_conv_nth [of ?t] intro: bexI)
  qed
  have "distinct (map fst (map (pair_of l) (concat (take n ?t)))) \<and>
      (\<forall>e \<in> set (concat (take n ?t)). bucket st ht (fst (pair_of l e)) < n)" if "n \<le> length ?t" for n
    using that
  proof (induction n)
    case (Suc n)
    then have n: "n < length ?t" by simp
    have "take (Suc n) ?t = take n ?t @ [?t ! n]" using n by (simp add: take_Suc_conv_app_nth)
    moreover have IH: "distinct (map fst (map (pair_of l) (concat (take n ?t))))"
      "\<And>e. e \<in> set (concat (take n ?t)) \<Longrightarrow> bucket st ht (fst (pair_of l e)) < n" using Suc n by auto
    moreover have "fst (pair_of l e) \<noteq> fst (pair_of l f)"
      if "e \<in> set (concat (take n ?t))" "f \<in> set (?t ! n)" for e f
      using IH(2) [OF that(1)] D(2) [OF n that(2)] by auto
    ultimately show ?case using D [OF n] by (fastforce simp: less_Suc_eq)
  qed simp
  from this [of "length ?t"] show "distinct (map fst (map (pair_of l) (concat ?t)))" by simp
qed

section \<open>The contract of a keyed table\<close>

primrec table_run :: "('s \<Rightarrow> 'k \<Rightarrow> 'v option \<Rightarrow> 's) \<Rightarrow> ('k \<times> 'v option) list \<Rightarrow> 's \<Rightarrow> 's" where
  "table_run put [] s = s"
| "table_run put (x # xs) s = table_run put xs (put s (fst x) (snd x))"

locale keyed_table =
  fixes kt_inv :: "'s \<Rightarrow> bool"
    and kt_key :: "'k \<Rightarrow> bool"
    and kt_norm :: "'k \<Rightarrow> 'n"
    and kt_view :: "'s \<Rightarrow> 'n \<rightharpoonup> 'v"
    and kt_get :: "'s \<Rightarrow> 'k \<Rightarrow> 'v option"
    and kt_put :: "'s \<Rightarrow> 'k \<Rightarrow> 'v option \<Rightarrow> 's"
  assumes get_view: "kt_inv s \<Longrightarrow> kt_key k \<Longrightarrow> kt_get s k = kt_view s (kt_norm k)"
    and put_keeps: "kt_inv s \<Longrightarrow> kt_key k \<Longrightarrow> kt_inv (kt_put s k v)"
    and put_view: "kt_inv s \<Longrightarrow> kt_key k \<Longrightarrow> kt_view (kt_put s k v) = (kt_view s)(kt_norm k := v)"
begin

lemma get_put:
  "kt_inv s \<Longrightarrow> kt_key k \<Longrightarrow> kt_key k' \<Longrightarrow>
     kt_get (kt_put s k v) k' = (if kt_norm k = kt_norm k' then v else kt_get s k')"
  by (simp add: get_view put_keeps put_view)

lemma run_view:
  "kt_inv s \<Longrightarrow> (\<And>k v. (k, v) \<in> set xs \<Longrightarrow> kt_key k) \<Longrightarrow>
     kt_inv (table_run kt_put xs s) \<and>
     kt_view (table_run kt_put xs s) = fold (\<lambda>(k, v) m. m(kt_norm k := v)) xs (kt_view s)"
proof (induction xs arbitrary: s)
  case (Cons x xs)
  obtain k v where x: "x = (k, v)" by (cases x)
  have "kt_key k" using Cons.prems(2) [of k v] x by simp
  then have s: "kt_inv (kt_put s k v)" "kt_view (kt_put s k v) = (kt_view s)(kt_norm k := v)"
    using Cons.prems(1) by (simp_all add: put_keeps put_view)
  have "\<And>k v. (k, v) \<in> set xs \<Longrightarrow> kt_key k" using Cons.prems(2) by auto
  from Cons.IH [OF s(1) this] s(2) show ?case by (simp add: x)
qed simp

lemma run_get:
  assumes "kt_inv s" "\<And>k v. (k, v) \<in> set xs \<Longrightarrow> kt_key k" "kt_key k'"
  shows "kt_get (table_run kt_put xs s) k' = (fold (\<lambda>(k, v) m. m(kt_norm k := v)) xs (kt_view s)) (kt_norm k')"
  using run_view [OF assms(1,2)] assms(3) by (simp add: get_view)

end

definition hash_put ::
  "sip_state \<Rightarrow> bool \<Rightarrow> pj_hash_table_t \<Rightarrow> u8 list \<times> u32 \<Rightarrow> nat option \<Rightarrow> pj_hash_table_t" where
  "hash_put st l ht k v = (case hash_set st True ht (fst k) (snd k) 0 v False l of Some h \<Rightarrow> h | None \<Rightarrow> ht)"

definition hash_lookup :: "sip_state \<Rightarrow> bool \<Rightarrow> pj_hash_table_t \<Rightarrow> u8 list \<times> u32 \<Rightarrow> nat option" where
  "hash_lookup st l ht k = fst (hash_get st ht (fst k) (snd k) None l)"

interpretation hash_map: keyed_table "hash_inv st l" "\<lambda>k. key_ok l (fst k) (snd k)"
  "\<lambda>k. norm_key l (key_of (fst k) (snd k))" "hash_view st l" "hash_lookup st l" "hash_put st l" for st l
proof
  fix s and k :: "u8 list \<times> u32" and v
  assume i: "hash_inv st l s" and k: "key_ok l (fst k) (snd k)"
  show "hash_lookup st l s k = hash_view st l s (norm_key l (key_of (fst k) (snd k)))"
    using hash_get_view [OF i k] by (simp add: hash_lookup_def)
  obtain ht' where "hash_set st True s (fst k) (snd k) 0 v False l = Some ht'" "hash_inv st l ht'"
    "hash_view st l ht' = (hash_view st l s)(norm_key l (key_of (fst k) (snd k)) := v)"
    by (rule hash_set_view [OF i k _ refl, of True False]) simp
  then show "hash_inv st l (hash_put st l s k v)"
    "hash_view st l (hash_put st l s k v) = (hash_view st l s)(norm_key l (key_of (fst k) (snd k)) := v)"
    by (simp_all add: hash_put_def)
qed

section \<open>Properties\<close>

text \<open>A small table for the witnesses: 16 rows, with one binding made by the case-insensitive
  functions.\<close>

definition sample_key :: "sip_state" where
  "sample_key = \<lparr>sip_k0 = 1, sip_k1 = 2, sip_key_ready = True\<rparr>"

definition sample_table :: pj_hash_table_t where
  "sample_table = \<lparr>ht_table = replicate 16 [], ht_count = 0, ht_rows = 15\<rparr>"

lemma sample_table_ok [simp]: "hash_inv st l sample_table" "hash_view st l sample_table = Map.empty"
proof -
  show i: "hash_inv st l sample_table" by (simp add: hash_inv_def sample_table_def concat_replicate_trivial)
  have "bucket st sample_table k < 16" for k using bucket_less [OF i, of k] by (simp add: sample_table_def)
  then show "hash_view st l sample_table = Map.empty" by (simp add: hash_view_def sample_table_def fun_eq_iff)
qed

text \<open>C7: the table refines a map, both for exact keys and for keys up to the case of letters. Setting a
  key keeps the invariant; a lookup of the same key then returns the new value (nothing, when
  the value was \<^verbatim>\<open>NULL\<close> and the binding deleted), and a lookup of any other key what it
  returned before, whatever hash values the callers pass in.\<close>

theorem hash_refines_map:
  assumes inv: "hash_inv st l ht" and ok: "key_ok l key keylen" and mem: "pool \<or> entry_buf"
  shows "\<exists>ht'. hash_set st pool ht key keylen hval val entry_buf l = Some ht' \<and> hash_inv st l ht' \<and>
    (\<forall>key' keylen' hv. key_ok l key' keylen' \<longrightarrow>
      fst (hash_get st ht' key' keylen' hv l) =
        (if norm_key l (key_of key' keylen') = norm_key l (key_of key keylen) then val
         else fst (hash_get st ht key' keylen' hv l)))"
proof -
  obtain ht' where h: "hash_set st pool ht key keylen hval val entry_buf l = Some ht'" "hash_inv st l ht'"
    "hash_view st l ht' = (hash_view st l ht)(norm_key l (key_of key keylen) := val)"
    by (rule hash_set_view [OF inv ok mem refl])
  then show ?thesis using hash_get_view [OF h(2)] hash_get_view [OF inv] by (intro exI [of _ ht']) simp
qed

text \<open>The keys \<^verbatim>\<open>Ab\<close> and \<^verbatim>\<open>aB\<close>, as terminated strings.\<close>

theorem hash_refines_map_witness:
  "\<exists>ht'. hash_set sample_key True sample_table [65, 98, 0] PJ_HASH_KEY_STRING 0 (Some 7) False True = Some ht' \<and>
     fst (hash_get sample_key ht' [97, 66, 0] PJ_HASH_KEY_STRING None True) = Some 7"
proof -
  have k: "key_ok True [65, 98, 0] PJ_HASH_KEY_STRING" "key_ok True [97, 66, 0] PJ_HASH_KEY_STRING"
    "norm_key True (key_of [97, 66, 0] PJ_HASH_KEY_STRING) = norm_key True (key_of [65, 98, 0] PJ_HASH_KEY_STRING)"
    by code_simp+
  have m: "True \<or> False" by simp
  obtain ht' where h: "hash_set sample_key True sample_table [65, 98, 0] PJ_HASH_KEY_STRING 0 (Some 7) False True = Some ht'"
    and g: "\<forall>key' keylen' hv. key_ok True key' keylen' \<longrightarrow>
      fst (hash_get sample_key ht' key' keylen' hv True) =
        (if norm_key True (key_of key' keylen') = norm_key True (key_of [65, 98, 0] PJ_HASH_KEY_STRING) then Some 7
         else fst (hash_get sample_key sample_table key' keylen' hv True))"
    using hash_refines_map [OF sample_table_ok(1) k(1) m, of sample_key 0 "Some 7"] by blast
  from g k(2,3) have "fst (hash_get sample_key ht' [97, 66, 0] PJ_HASH_KEY_STRING None True) = Some 7" by simp
  with h show ?thesis by blast
qed

text \<open>Creating a table always succeeds in sizing it, also for the sizes near the largest
  \<^verbatim>\<open>unsigned\<close> where the shift would overflow: the rows are $2^m - 1$ with $m$ between 4 and 31, the
  least such $m$ that holds the requested size (capped at 31), and the table is empty.\<close>

theorem hash_create_sized:
  "\<exists>ht m. pj_hash_create n = Some ht \<and> 4 \<le> m \<and> m \<le> 31 \<and> unat (ht_rows ht) = 2 ^ m - 1 \<and>
     (unat n \<le> 2 ^ m \<or> m = 31) \<and> (m = 4 \<or> 2 ^ (m - 1) < unat n) \<and>
     pj_hash_count ht = 0 \<and> hash_inv st l ht \<and> hash_view st l ht = Map.empty"
  by (rule create_ok [of n st l]) (auto simp: pj_hash_count_def)

text \<open>C8: starting with \<^verbatim>\<open>pj_hash_first\<close> and following \<^verbatim>\<open>pj_hash_next\<close> visits the value of every
  binding exactly once and ends; the count of the table is the number of bindings.\<close>

theorem hash_iterates_all:
  assumes inv: "hash_inv st l ht" and fuel: "length (concat (ht_table ht)) \<le> fuel"
  shows "\<exists>ks. hash_walk fuel ht (pj_hash_first ht) = Some (map (\<lambda>k. the (hash_view st l ht k)) ks) \<and>
    distinct ks \<and> set ks = dom (hash_view st l ht) \<and> pj_hash_count ht = of_nat (length ks)"
proof -
  let ?ps = "map (pair_of l) (concat (ht_table ht))"
  have "map he_value (concat (ht_table ht)) = map (\<lambda>k. the (hash_view st l ht k)) (map fst ?ps)"
  proof -
    have "hash_view st l ht (fst (pair_of l e)) = Some (he_value e)" if "e \<in> set (concat (ht_table ht))" for e
    proof -
      have "pair_of l e \<in> set ?ps" using that by simp
      then show ?thesis unfolding entries_view(1) [OF inv] by (auto simp: pair_of_def)
    qed
    then show ?thesis by simp
  qed
  moreover have "set (map fst ?ps) = dom (hash_view st l ht)"
  proof -
    have "fst ` {(k, v). f k = Some v} = dom f" for f :: "u8 list \<rightharpoonup> nat" by force
    with entries_view(1) [OF inv] show ?thesis by (simp only: set_map)
  qed
  moreover have "pj_hash_count ht = of_nat (length (map fst ?ps))"
    using inv by (simp add: pj_hash_count_def hash_inv_def)
  ultimately show ?thesis
    using hash_walk_all [OF inv fuel] entries_view(2) [OF inv] by (intro exI [of _ "map fst ?ps"]) simp
qed

theorem hash_iterates_all_witness:
  "hash_walk 0 sample_table (pj_hash_first sample_table) = Some []"
proof -
  have "length (concat (ht_table sample_table)) \<le> 0" by (simp add: sample_table_def concat_replicate_trivial)
  from hash_iterates_all [OF sample_table_ok(1) this, of sample_key True] show ?thesis by auto
qed

text \<open>After any sequence of updates from a table created with any size, a lookup returns what the
  last update of that key set, as for a map updated in the same order.\<close>

theorem hash_update_sequence:
  assumes c: "pj_hash_create n = Some ht" and ok: "\<And>k v. (k, v) \<in> set xs \<Longrightarrow> key_ok l (fst k) (snd k)"
    and k: "key_ok l key keylen"
  shows "fst (hash_get st (table_run (hash_put st l) xs ht) key keylen None l) =
    fold (\<lambda>(k, v) m. m(norm_key l (key_of (fst k) (snd k)) := v)) xs Map.empty (norm_key l (key_of key keylen))"
proof -
  obtain ht1 where "pj_hash_create n = Some ht1" "hash_inv st l ht1" "hash_view st l ht1 = Map.empty"
    by (rule create_ok [of n st l]) blast
  with c have i: "hash_inv st l ht" "hash_view st l ht = Map.empty" by simp_all
  show ?thesis using hash_map.run_get [OF i(1), of xs "(key, keylen)"] ok k
    by (simp add: i(2) hash_lookup_def)
qed

theorem hash_update_sequence_witness:
  "\<exists>ht. pj_hash_create 10 = Some ht \<and>
     fst (hash_get sample_key (table_run (hash_put sample_key False)
       [(([1, 2], 2), Some 5), (([3], 1), Some 6), (([1, 2], 2), Some 8)] ht) [1, 2, 9] 2 None False) = Some 8"
proof -
  obtain ht where c: "pj_hash_create 10 = Some ht" by (rule create_ok [of 10 sample_key False])
  have k: "key_ok False [1, 2] 2" "key_ok False [3] 1" "key_ok False [1, 2, 9] 2"
    "key_of [1, 2] 2 = [1, 2]" "key_of [3] 1 = [3]" "key_of [1, 2, 9] 2 = [1, 2]" by code_simp+
  let ?xs = "[(([1, 2], 2), Some 5), (([3], 1), Some 6), (([1, 2], 2), Some 8)] :: ((u8 list \<times> u32) \<times> nat option) list"
  have "\<And>k v. (k, v) \<in> set ?xs \<Longrightarrow> key_ok False (fst k) (snd k)" using k by auto
  from hash_update_sequence [where xs = ?xs, OF c this k(3), where st = sample_key] c k(4-) show ?thesis by auto
qed

text \<open>The keyed hash reads exactly the given number of bytes, and without regard to case it is the
  hash of the lowered bytes; so is the plain hash, which also returns the lowered bytes.\<close>

theorem hash_of_lowered:
  "siphash24 k0 k1 key len True = siphash24 k0 k1 (map pj_tolower (take (unat len) key)) len False \<and>
   pj_hash_calc_tolower h key = (djb2 h (map pj_tolower key), map pj_tolower key)"
proof -
  have "sip_char True = pj_tolower" by (simp add: sip_char_def fun_eq_iff)
  moreover have "pj_hash_calc_tolower h key = (djb2 h (map pj_tolower key), map pj_tolower key)"
    by (induction key arbitrary: h) (auto simp: Let_def)
  ultimately show ?thesis using siphash24_norm [of k0 k1 key len True] by simp
qed

end
