(* ===== verification/Pj_Pool.thy ===== *)
theory Pj_Pool
  imports Pj_Prelude
begin

text \<open>
  The memory pool of \<^verbatim>\<open>pjlib/src/pj/pool.c\<close> and \<^verbatim>\<open>include/pj/pool_i.h\<close>, and the pool on a caller's buffer of
  \<^verbatim>\<open>pool_buf.c\<close>. Pointers and sizes are 32-bit words. The list of blocks is a list, newest
  first; the block that shares its memory with the pool structure is last. The factory's
  policy (obtaining and returning blocks, the no-memory callback) is a parameter acting on a
  state of its own; a callback that does not return is not modelled. The structure sizes are
  those of the 32-bit target.
\<close>

section \<open>Data\<close>

record pj_pool_block =
  pb_hdr :: u32
  pb_buf :: u32
  pb_cur :: u32
  pb_end :: u32

record pj_pool_t =
  po_addr :: u32
  po_obj_name :: "u8 list"
  po_factory_data :: nat
  po_capacity :: u32
  po_increment_size :: u32
  po_blocks :: "pj_pool_block list"
  po_callback :: nat
  po_alignment :: u32

record 'f pj_pool_factory_policy =
  fp_block_alloc :: "'f \<Rightarrow> u32 \<Rightarrow> u32 option \<times> 'f"
  fp_block_free :: "('f \<Rightarrow> u32 \<Rightarrow> u32 \<Rightarrow> 'f) option"
  fp_call :: "nat \<Rightarrow> 'f \<Rightarrow> u32 \<Rightarrow> 'f"
  fp_callback :: nat
  fp_format :: "u8 list \<Rightarrow> u32 \<Rightarrow> u8 list"

definition PJ_POOL_ALIGNMENT :: u32 where "PJ_POOL_ALIGNMENT = 8"
definition PJ_POOL_MAX_SEARCH_BLOCK_COUNT :: nat where "PJ_POOL_MAX_SEARCH_BLOCK_COUNT = 5"
definition PJ_MAX_OBJ_NAME :: nat where "PJ_MAX_OBJ_NAME = 32"
definition sizeof_pool :: u32 where "sizeof_pool = 84"
definition sizeof_block :: u32 where "sizeof_block = 20"

definition PJ_POOL_ALIGN_PTR :: "u32 \<Rightarrow> u32 \<Rightarrow> u32" where
  "PJ_POOL_ALIGN_PTR ptr alignment = ptr + ((- ptr) AND (alignment - 1))"

definition PJ_IS_POWER_OF_TWO :: "u32 \<Rightarrow> bool" where
  "PJ_IS_POWER_OF_TWO v \<longleftrightarrow> v > 0 \<and> v AND (v - 1) = 0"

section \<open>Allocation\<close>

definition pj_pool_get_capacity :: "pj_pool_t \<Rightarrow> u32" where
  "pj_pool_get_capacity pool = po_capacity pool"

definition pj_pool_get_used_size :: "pj_pool_t \<Rightarrow> u32" where
  "pj_pool_get_used_size pool =
     fold (\<lambda>b used_size. used_size + ((pb_cur b - pb_buf b) + sizeof_block)) (po_blocks pool) sizeof_pool"

definition pj_pool_alloc_from_block :: "pj_pool_block \<Rightarrow> u32 \<Rightarrow> u32 \<Rightarrow> u32 option \<times> pj_pool_block" where
  "pj_pool_alloc_from_block block alignment sz =
     (let ptr = PJ_POOL_ALIGN_PTR (pb_cur block) alignment
      in if pb_cur block \<le> ptr \<and> ptr \<le> pb_end block \<and> pb_end block - ptr \<ge> sz
         then (Some ptr, block\<lparr>pb_cur := ptr + sz\<rparr>)
         else (None, block))"

definition pj_pool_create_block ::
  "'f pj_pool_factory_policy \<Rightarrow> 'f \<Rightarrow> pj_pool_t \<Rightarrow> u32 \<Rightarrow> pj_pool_block option \<times> 'f \<times> pj_pool_t" where
  "pj_pool_create_block pol f pool sz =
     (case fp_block_alloc pol f sz of
        (None, f1) \<Rightarrow> (None, fp_call pol (po_callback pool) f1 sz, pool)
      | (Some a, f1) \<Rightarrow>
          let block = \<lparr>pb_hdr = a, pb_buf = a + sizeof_block, pb_cur = a + sizeof_block, pb_end = a + sz\<rparr>
          in (Some block, f1, pool\<lparr>po_capacity := po_capacity pool + sz, po_blocks := block # po_blocks pool\<rparr>))"

text \<open>The search loop of \<^verbatim>\<open>pj_pool_allocate_find\<close>.\<close>

fun find_block :: "nat \<Rightarrow> u32 \<Rightarrow> u32 \<Rightarrow> pj_pool_block list \<Rightarrow> u32 option \<times> pj_pool_block list" where
  "find_block i alignment sz [] = (None, [])"
| "find_block i alignment sz (b # bs) =
     (case pj_pool_alloc_from_block b alignment sz of
        (Some p, b1) \<Rightarrow> (Some p, b1 # bs)
      | (None, b1) \<Rightarrow>
          if i \<ge> PJ_POOL_MAX_SEARCH_BLOCK_COUNT then (None, b1 # bs)
          else (case find_block (i + 1) alignment sz bs of (r, bs1) \<Rightarrow> (r, b1 # bs1)))"

definition pj_pool_allocate_find ::
  "'f pj_pool_factory_policy \<Rightarrow> 'f \<Rightarrow> pj_pool_t \<Rightarrow> u32 \<Rightarrow> u32 \<Rightarrow> u32 option \<times> 'f \<times> pj_pool_t" where
  "pj_pool_allocate_find pol f pool alignment sz =
     (case find_block 0 alignment sz (po_blocks pool) of
        (Some p, bs) \<Rightarrow> (Some p, f, pool\<lparr>po_blocks := bs\<rparr>)
      | (None, bs) \<Rightarrow>
          if po_increment_size pool = 0 then (None, fp_call pol (po_callback pool) f sz, pool)
          else
            let needed = sizeof_block + alignment - 1 + sz;
                block_size =
                  (if po_increment_size pool < needed
                   then ((po_increment_size pool + needed) div po_increment_size pool) * po_increment_size pool
                   else po_increment_size pool)
            in (case pj_pool_create_block pol f pool block_size of
                  (None, f1, pool1) \<Rightarrow> (None, f1, pool1)
                | (Some block, f1, pool1) \<Rightarrow>
                    (case pj_pool_alloc_from_block block alignment sz of
                       (p, b1) \<Rightarrow> (p, f1, pool1\<lparr>po_blocks := b1 # tl (po_blocks pool1)\<rparr>))))"

definition pj_pool_aligned_alloc ::
  "'f pj_pool_factory_policy \<Rightarrow> 'f \<Rightarrow> pj_pool_t \<Rightarrow> u32 \<Rightarrow> u32 \<Rightarrow> u32 option \<times> 'f \<times> pj_pool_t" where
  "pj_pool_aligned_alloc pol f pool alignment0 sz =
     (if alignment0 \<noteq> 0 \<and> \<not> PJ_IS_POWER_OF_TWO alignment0 then (None, f, pool)
      else
        let alignment = (if alignment0 = 0 then po_alignment pool else alignment0)
        in (case pj_pool_alloc_from_block (hd (po_blocks pool)) alignment sz of
              (Some p, b) \<Rightarrow> (Some p, f, pool\<lparr>po_blocks := b # tl (po_blocks pool)\<rparr>)
            | (None, b) \<Rightarrow> pj_pool_allocate_find pol f pool alignment sz))"

definition pj_pool_alloc ::
  "'f pj_pool_factory_policy \<Rightarrow> 'f \<Rightarrow> pj_pool_t \<Rightarrow> u32 \<Rightarrow> u32 option \<times> 'f \<times> pj_pool_t" where
  "pj_pool_alloc pol f pool sz = pj_pool_aligned_alloc pol f pool 0 sz"

text \<open>The memory is zeroed after a successful allocation; \<^verbatim>\<open>pj_bzero\<close> acts on the byte memory.\<close>

definition pj_bzero :: "mem \<Rightarrow> u32 \<Rightarrow> u32 \<Rightarrow> mem" where
  "pj_bzero m p sz = (\<lambda>a. if uint p \<le> a \<and> a < uint p + uint sz then 0 else m a)"

definition pj_pool_calloc ::
  "'f pj_pool_factory_policy \<Rightarrow> mem \<Rightarrow> 'f \<Rightarrow> pj_pool_t \<Rightarrow> u32 \<Rightarrow> u32
     \<Rightarrow> u32 option \<times> mem \<times> 'f \<times> pj_pool_t" where
  "pj_pool_calloc pol m f pool count sz =
     (if count \<noteq> 0 \<and> sz > (-1) div count
      then (None, m, fp_call pol (po_callback pool) f (-1), pool)
      else
        (case pj_pool_alloc pol f pool (sz * count) of
           (None, f1, pool1) \<Rightarrow> (None, m, f1, pool1)
         | (Some p, f1, pool1) \<Rightarrow> (Some p, pj_bzero m p (sz * count), f1, pool1)))"

section \<open>Creation, reset, destruction\<close>

text \<open>\<^verbatim>\<open>pj_ansi_strxcpy\<close> and \<^verbatim>\<open>pj_ansi_snprintf\<close> leave room for the terminator.\<close>

definition pool_name :: "'f pj_pool_factory_policy \<Rightarrow> u32 \<Rightarrow> u8 list option \<Rightarrow> u8 list" where
  "pool_name pol addr name =
     (case name of
        None \<Rightarrow> []
      | Some s \<Rightarrow>
          if dropWhile (\<lambda>c. c \<noteq> 37) s = [37, 112] then take (PJ_MAX_OBJ_NAME - 1) (fp_format pol s addr)
          else take (PJ_MAX_OBJ_NAME - 1) s)"

definition pj_pool_init_int ::
  "'f pj_pool_factory_policy \<Rightarrow> pj_pool_t \<Rightarrow> u8 list option \<Rightarrow> u32 \<Rightarrow> u32 \<Rightarrow> nat \<Rightarrow> pj_pool_t" where
  "pj_pool_init_int pol pool name increment_size alignment callback =
     pool\<lparr>po_increment_size := increment_size, po_callback := callback,
          po_alignment := (if alignment = 0 then PJ_POOL_ALIGNMENT else alignment),
          po_obj_name := pool_name pol (po_addr pool) name\<rparr>"

definition pj_pool_create_int ::
  "'f pj_pool_factory_policy \<Rightarrow> 'f \<Rightarrow> u8 list option \<Rightarrow> u32 \<Rightarrow> u32 \<Rightarrow> u32 \<Rightarrow> nat option
     \<Rightarrow> pj_pool_t option \<times> 'f" where
  "pj_pool_create_int pol f name initial_size increment_size alignment callback =
     (if \<not> initial_size \<ge> sizeof_pool + sizeof_block then (None, f)
      else if \<not> (alignment = 0 \<or> PJ_IS_POWER_OF_TWO alignment) then (None, f)
      else
        let cb = (case callback of None \<Rightarrow> fp_callback pol | Some c \<Rightarrow> c)
        in (case fp_block_alloc pol f initial_size of
              (None, f1) \<Rightarrow> (None, f1)
            | (Some buffer, f1) \<Rightarrow>
                let hdr = buffer + sizeof_pool;
                    block = \<lparr>pb_hdr = hdr, pb_buf = hdr + sizeof_block, pb_cur = hdr + sizeof_block,
                             pb_end = buffer + initial_size\<rparr>;
                    pool = \<lparr>po_addr = buffer, po_obj_name = [], po_factory_data = 0, po_capacity = 0,
                            po_increment_size = 0, po_blocks = [block], po_callback = 0, po_alignment = 0\<rparr>
                in (Some ((pj_pool_init_int pol pool name increment_size alignment cb)
                            \<lparr>po_capacity := initial_size\<rparr>), f1)))"

text \<open>\<^verbatim>\<open>reset_pool\<close> walks from the oldest block to the newest; \<^term>\<open>None\<close> is a call through a missing
  \<^verbatim>\<open>block_free\<close>.\<close>

fun free_blocks :: "'f pj_pool_factory_policy \<Rightarrow> 'f \<Rightarrow> pj_pool_block list \<Rightarrow> 'f option" where
  "free_blocks pol f [] = Some f"
| "free_blocks pol f (b # bs) =
     (case fp_block_free pol of
        None \<Rightarrow> None
      | Some fr \<Rightarrow> free_blocks pol (fr f (pb_hdr b) (pb_end b - pb_hdr b)) bs)"

definition reset_pool :: "'f pj_pool_factory_policy \<Rightarrow> 'f \<Rightarrow> pj_pool_t \<Rightarrow> ('f \<times> pj_pool_t) option" where
  "reset_pool pol f pool =
     (if po_blocks pool = [] then Some (f, pool)
      else
        (case free_blocks pol f (rev (butlast (po_blocks pool))) of
           None \<Rightarrow> None
         | Some f1 \<Rightarrow>
             let block = last (po_blocks pool)
             in Some (f1, pool\<lparr>po_blocks := [block\<lparr>pb_cur := pb_buf block\<rparr>],
                               po_capacity := pb_end block - po_addr pool\<rparr>)))"

definition pj_pool_reset :: "'f pj_pool_factory_policy \<Rightarrow> 'f \<Rightarrow> pj_pool_t \<Rightarrow> ('f \<times> pj_pool_t) option" where
  "pj_pool_reset pol f pool = reset_pool pol f pool"

definition pj_pool_destroy_int :: "'f pj_pool_factory_policy \<Rightarrow> 'f \<Rightarrow> pj_pool_t \<Rightarrow> 'f option" where
  "pj_pool_destroy_int pol f pool =
     (case reset_pool pol f pool of
        None \<Rightarrow> None
      | Some (f1, pool1) \<Rightarrow>
          let initial_size = pb_end (hd (po_blocks pool1)) - po_addr pool1
          in (case fp_block_free pol of
                None \<Rightarrow> Some f1
              | Some fr \<Rightarrow> Some (fr f1 (po_addr pool1) initial_size)))"

section \<open>A pool on a buffer\<close>

text \<open>\<^verbatim>\<open>stack_alloc\<close> serves one request from the buffer left in thread local storage; the state is that
  storage, the buffer and its size.\<close>

type_synonym creation_param = "(u32 \<times> u32) option"

definition stack_alloc :: "creation_param \<Rightarrow> u32 \<Rightarrow> u32 option \<times> creation_param" where
  "stack_alloc tls sz =
     (case tls of
        None \<Rightarrow> (None, None)
      | Some (buf, n) \<Rightarrow> if \<not> sz \<le> n then (None, None) else (Some buf, None))"

definition stack_based_factory :: "nat \<Rightarrow> (u8 list \<Rightarrow> u32 \<Rightarrow> u8 list) \<Rightarrow> creation_param pj_pool_factory_policy" where
  "stack_based_factory cb fmt = \<lparr>fp_block_alloc = stack_alloc, fp_block_free = None,
     fp_call = (\<lambda>c tls sz. tls), fp_callback = cb, fp_format = fmt\<rparr>"

definition pj_pool_create_on_buf ::
  "nat \<Rightarrow> (u8 list \<Rightarrow> u32 \<Rightarrow> u8 list) \<Rightarrow> u8 list option \<Rightarrow> u32 \<Rightarrow> u32 \<Rightarrow> pj_pool_t option \<times> creation_param" where
  "pj_pool_create_on_buf cb fmt name buf0 sz0 =
     (if buf0 = 0 \<or> sz0 = 0 then (None, None)
      else
        let align_diff = buf0 AND (PJ_POOL_ALIGNMENT - 1);
            pad = PJ_POOL_ALIGNMENT - align_diff
        in if align_diff \<noteq> 0 \<and> \<not> sz0 > pad then (None, None)
           else
             let buf = (if align_diff \<noteq> 0 then buf0 + pad else buf0);
                 sz = (if align_diff \<noteq> 0 then sz0 - pad else sz0)
             in pj_pool_create_int (stack_based_factory cb fmt) (Some (buf, sz)) name sz 0
                  PJ_POOL_ALIGNMENT (Some cb))"

end
