(* ===== verification/Pj_Pool_Spec.thy ===== *)
theory Pj_Pool_Spec
  imports Pj_Pool
begin

text \<open>
  The pool against its specification: the chunks it hands out are aligned, lie in memory the
  factory gave it, and overlap nothing handed out before. What the pool relies on, that a
  factory's blocks are fresh, is the locale \<open>block_source\<close>; the buffer based factory of the
  library is an instance.
\<close>

section \<open>Alignment\<close>

lemma nat_and_pred_power:
  "0 < n \<Longrightarrow> n AND (n - 1) = 0 \<Longrightarrow> \<exists>a. n = (2 :: nat) ^ a"
proof (induction n rule: less_induct)
  case (less n)
  show ?case
  proof (cases "odd n")
    case True
    then obtain k where k: "n = 2 * k + 1" by (rule oddE)
    then have "n AND (n - 1) = 2 * k" by simp (subst and_nat_rec, simp)
    with less.prems k show ?thesis by (auto intro: exI [of _ 0])
  next
    case False
    then obtain k where k: "n = 2 * k" by (auto elim: evenE)
    with less.prems(1) have k0: "0 < k" "k < n" "(n - 1) div 2 = k - 1" by auto
    have "n AND (n - 1) = of_bool (odd n \<and> odd (n - 1)) + 2 * ((n div 2) AND ((n - 1) div 2))"
      by (rule and_nat_rec)
    then have "n AND (n - 1) = 2 * (k AND (k - 1))" using k k0 by simp
    with less.prems(2) less.IH [OF k0(2,1)] obtain a where "k = 2 ^ a" by auto
    with k show ?thesis by (intro exI [of _ "Suc a"]) simp
  qed
qed

lemma power_of_two_mask:
  assumes "PJ_IS_POWER_OF_TWO v"
  obtains a where "v - 1 = mask a" "unat v = 2 ^ a" "a < 32"
proof -
  have v: "0 < v" "v AND (v - 1) = 0" using assms by (auto simp: PJ_IS_POWER_OF_TWO_def)
  have u: "unat (v - 1) = unat v - 1" using v(1) by (simp add: unat_minus_one)
  have "unat v AND (unat v - 1) = 0" using v(2) u by (metis unsigned_and_eq unsigned_0)
  moreover have "0 < unat v" using v(1) by (simp add: word_less_nat_alt)
  ultimately obtain a where a: "unat v = 2 ^ a" using nat_and_pred_power by blast
  have "2 ^ a < (2 :: nat) ^ 32" using unsigned_less [of v, where ?'a = nat] a by simp
  then have a32: "a < 32" by (simp only: power_strict_increasing_iff)
  have "of_nat (unat v) = v" by simp
  then have "v = of_nat (2 ^ a)" using a by simp
  then have "v - 1 = mask a" by (simp add: mask_eq_exp_minus_1)
  then show thesis using that a a32 by blast
qed

definition aligned :: "u32 \<Rightarrow> u32 \<Rightarrow> bool" where
  "aligned p al \<longleftrightarrow> p AND (al - 1) = 0"

lemma align_ptr_aligned:
  assumes "PJ_IS_POWER_OF_TWO al"
  shows "aligned (PJ_POOL_ALIGN_PTR p al) al"
proof -
  obtain a where a: "al - 1 = mask a" by (rule power_of_two_mask [OF assms])
  show ?thesis unfolding aligned_def PJ_POOL_ALIGN_PTR_def a mask_eqs(2) by simp
qed

text \<open>The gap is less than the alignment.\<close>

lemma align_gap:
  assumes "PJ_IS_POWER_OF_TWO al"
  shows "unat ((- p) AND (al - 1)) < unat al"
proof -
  obtain a where a: "al - 1 = mask a" "unat al = 2 ^ a" "a < 32" by (rule power_of_two_mask [OF assms])
  have "uint ((- p) AND mask a) < 2 ^ a" by (rule and_mask_lt_2p)
  then show ?thesis using a by (metis nat_less_numeral_power_cancel_iff nat_uint_eq)
qed

section \<open>Blocks\<close>

definition block_ok :: "pj_pool_block \<Rightarrow> bool" where
  "block_ok b \<longleftrightarrow> unat (pb_buf b) = unat (pb_hdr b) + 20 \<and> pb_buf b \<le> pb_cur b \<and> pb_cur b \<le> pb_end b"

definition space :: "pj_pool_block \<Rightarrow> nat set" where
  "space b = {unat (pb_buf b)..<unat (pb_end b)}"

definition used :: "pj_pool_block \<Rightarrow> nat set" where
  "used b = {unat (pb_buf b)..<unat (pb_cur b)}"

definition chunk_at :: "u32 \<Rightarrow> u32 \<Rightarrow> nat set" where
  "chunk_at p n = {unat p..<unat p + unat n}"

lemma used_space: "block_ok b \<Longrightarrow> used b \<subseteq> space b"
  by (auto simp: used_def space_def block_ok_def word_le_nat_alt)

lemma alloc_from_block_ok:
  assumes b: "block_ok b" and al: "PJ_IS_POWER_OF_TWO al"
    and r: "pj_pool_alloc_from_block b al n = (Some p, b')"
  shows "b' = b\<lparr>pb_cur := p + n\<rparr>" "block_ok b'" "aligned p al"
    "chunk_at p n \<subseteq> space b" "chunk_at p n \<inter> used b = {}" "used b \<union> chunk_at p n \<subseteq> used b'"
proof -
  have p: "p = PJ_POOL_ALIGN_PTR (pb_cur b) al" "pb_cur b \<le> p" "p \<le> pb_end b" "n \<le> pb_end b - p"
    and b': "b' = b\<lparr>pb_cur := p + n\<rparr>"
    using r by (auto simp: pj_pool_alloc_from_block_def Let_def split: if_splits)
  show "b' = b\<lparr>pb_cur := p + n\<rparr>" by (rule b')
  show "aligned p al" using align_ptr_aligned [OF al] p(1) by simp
  have "unat n \<le> unat (pb_end b) - unat p" using p(3,4) by (simp add: word_le_nat_alt unat_sub)
  then have le: "unat p + unat n \<le> unat (pb_end b)" using p(3) by (simp add: word_le_nat_alt)
  then have u: "unat (p + n) = unat p + unat n"
    using unsigned_less [of "pb_end b", where ?'a = nat] by (simp add: unat_word_ariths)
  have c: "unat (pb_buf b) \<le> unat (pb_cur b)" "unat (pb_cur b) \<le> unat p"
    using b p(2) by (simp_all add: block_ok_def word_le_nat_alt)
  show "block_ok b'" using b c le u by (simp add: b' block_ok_def word_le_nat_alt)
  show "chunk_at p n \<subseteq> space b" "chunk_at p n \<inter> used b = {}" "used b \<union> chunk_at p n \<subseteq> used b'"
    using c le u by (auto simp: chunk_at_def space_def used_def b')
qed

lemma alloc_from_block_none: "pj_pool_alloc_from_block b al n = (None, b') \<Longrightarrow> b' = b"
  by (auto simp: pj_pool_alloc_from_block_def Let_def split: if_splits)

lemma find_block_cases:
  "find_block i al n bs = (r, bs') \<Longrightarrow> r = None \<and> bs' = bs \<or>
     (\<exists>k p b'. k < length bs \<and> r = Some p \<and> pj_pool_alloc_from_block (bs ! k) al n = (Some p, b') \<and>
       bs' = bs[k := b'])"
proof (induction i al n bs arbitrary: r bs' rule: find_block.induct)
  case (2 i al n b bs)
  obtain q b1 where q: "pj_pool_alloc_from_block b al n = (q, b1)" by fastforce
  show ?case
  proof (cases q)
    case (Some p)
    with 2(2) q show ?thesis by (intro disjI2 exI [of _ 0] exI [of _ p] exI [of _ b1]) auto
  next
    case None
    then have b1: "b1 = b" using q alloc_from_block_none by simp
    show ?thesis
    proof (cases "i \<ge> PJ_POOL_MAX_SEARCH_BLOCK_COUNT")
      case True
      with 2(2) q None b1 show ?thesis by simp
    next
      case False
      obtain r2 bs2 where f: "find_block (i + 1) al n bs = (r2, bs2)" by fastforce
      then have e: "r = r2" "bs' = b # bs2" using 2(2) q None False b1 by auto
      from 2(1) [OF q [symmetric] None False f] show ?thesis
      proof
        assume "\<exists>k p b'. k < length bs \<and> r2 = Some p \<and> pj_pool_alloc_from_block (bs ! k) al n = (Some p, b') \<and>
          bs2 = bs[k := b']"
        then obtain k p b' where "k < length bs" "r2 = Some p"
          "pj_pool_alloc_from_block (bs ! k) al n = (Some p, b')" "bs2 = bs[k := b']" by blast
        then show ?thesis using e by (intro disjI2 exI [of _ "Suc k"] exI [of _ p] exI [of _ b']) auto
      qed (use e in simp)
    qed
  qed
qed simp

section \<open>The pool invariant\<close>

fun disjoint_spaces :: "pj_pool_block list \<Rightarrow> bool" where
  "disjoint_spaces [] \<longleftrightarrow> True"
| "disjoint_spaces (b # bs) \<longleftrightarrow> (\<forall>c \<in> set bs. space b \<inter> space c = {}) \<and> disjoint_spaces bs"

text \<open>The regions a pool has from its factory: one per block, the last with the pool structure in
  front of the block header.\<close>

definition region :: "u32 \<times> u32 \<Rightarrow> nat set" where
  "region r = {unat (fst r)..<unat (fst r) + unat (snd r)}"

definition owned :: "pj_pool_t \<Rightarrow> (u32 \<times> u32) list" where
  "owned pool = map (\<lambda>b. (pb_hdr b, pb_end b - pb_hdr b)) (butlast (po_blocks pool)) @
     [(po_addr pool, pb_end (last (po_blocks pool)) - po_addr pool)]"

definition pool_ok :: "pj_pool_t \<Rightarrow> bool" where
  "pool_ok pool \<longleftrightarrow> po_blocks pool \<noteq> [] \<and> (\<forall>b \<in> set (po_blocks pool). block_ok b) \<and>
     disjoint_spaces (po_blocks pool) \<and> PJ_IS_POWER_OF_TWO (po_alignment pool) \<and>
     unat (pb_hdr (last (po_blocks pool))) = unat (po_addr pool) + 84 \<and>
     po_capacity pool = sum_list (map snd (owned pool))"

definition pool_used :: "pj_pool_t \<Rightarrow> nat set" where
  "pool_used pool = (\<Union>b \<in> set (po_blocks pool). used b)"

definition pool_space :: "pj_pool_t \<Rightarrow> nat set" where
  "pool_space pool = (\<Union>r \<in> set (owned pool). region r)"

lemma disjoint_spaces_nth:
  "disjoint_spaces bs \<Longrightarrow> b \<in> set bs \<Longrightarrow> c \<in> set bs \<Longrightarrow> b \<noteq> c \<Longrightarrow> space b \<inter> space c = {}"
  by (induction bs) auto

lemma disjoint_spaces_cong: "map space bs = map space bs' \<Longrightarrow> disjoint_spaces bs = disjoint_spaces bs'"
proof (induction bs arbitrary: bs')
  case (Cons b bs)
  then obtain c cs where c: "bs' = c # cs" "space b = space c" "map space bs = map space cs" by (cases bs') auto
  have "space ` set bs = space ` set cs" using c(3) by (metis set_map)
  then have "(\<forall>x \<in> set bs. space b \<inter> space x = {}) = (\<forall>x \<in> set cs. space c \<inter> space x = {})"
    using c(2) by (auto simp: set_eq_iff image_iff) metis+
  with Cons.IH [OF c(3)] show ?case by (simp add: c(1))
qed simp

lemma map_list_update_same: "k < length xs \<Longrightarrow> f y = f (xs ! k) \<Longrightarrow> map f (xs[k := y]) = map f xs"
  by (simp add: map_update list_update_same_conv)

lemma space_region:
  assumes "pool_ok pool" "b \<in> set (po_blocks pool)"
  obtains r where "r \<in> set (owned pool)" "space b \<subseteq> region r"
proof -
  have ok: "block_ok b" using assms by (simp add: pool_ok_def)
  then have le: "unat (pb_hdr b) + 20 = unat (pb_buf b)" "unat (pb_buf b) \<le> unat (pb_end b)"
    by (auto simp: block_ok_def word_le_nat_alt)
  show thesis
  proof (cases "b \<in> set (butlast (po_blocks pool))")
    case True
    have "unat (pb_end b - pb_hdr b) = unat (pb_end b) - unat (pb_hdr b)"
      using le by (intro unat_sub) (simp add: word_le_nat_alt)
    with le True show thesis
      by (intro that [of "(pb_hdr b, pb_end b - pb_hdr b)"]) (auto simp: owned_def space_def region_def)
  next
    case False
    then have b: "b = last (po_blocks pool)"
      using assms by (metis append_butlast_last_id pool_ok_def in_set_conv_decomp rotate1.simps(2) set_ConsD set_rotate1)
    have h: "unat (pb_hdr b) = unat (po_addr pool) + 84" using assms b by (simp add: pool_ok_def)
    have "unat (pb_end b - po_addr pool) = unat (pb_end b) - unat (po_addr pool)"
      using le h by (intro unat_sub) (simp add: word_le_nat_alt)
    with le h b show thesis
      by (intro that [of "(po_addr pool, pb_end b - po_addr pool)"]) (auto simp: owned_def space_def region_def)
  qed
qed

text \<open>Advancing the current pointer of one block.\<close>

lemma advance_block:
  assumes ok: "pool_ok pool" and k: "k < length (po_blocks pool)"
    and a: "pj_pool_alloc_from_block (po_blocks pool ! k) al n = (Some p, b')" and al: "PJ_IS_POWER_OF_TWO al"
    and p': "pool' = pool\<lparr>po_blocks := (po_blocks pool)[k := b']\<rparr>"
  shows "pool_ok pool'" "owned pool' = owned pool" "aligned p al" "chunk_at p n \<subseteq> pool_space pool"
    "chunk_at p n \<inter> pool_used pool = {}" "pool_used pool \<union> chunk_at p n \<subseteq> pool_used pool'"
proof -
  let ?bs = "po_blocks pool" and ?b = "po_blocks pool ! k"
  have bk: "block_ok ?b" "?b \<in> set ?bs" using ok k by (auto simp: pool_ok_def)
  note A = alloc_from_block_ok [OF bk(1) al a]
  note same = map_list_update_same [OF k]
  have sp: "space b' = space ?b" by (simp add: A(1) space_def)
  have lst: "pb_hdr (last (?bs[k := b'])) = pb_hdr (last ?bs)" "pb_end (last (?bs[k := b'])) = pb_end (last ?bs)"
    using same [of pb_hdr b'] same [of pb_end b'] A(1) k
    by (metis (no_types, lifting) last_map length_greater_0_conv length_list_update list.size(3) not_less_zero
        pj_pool_block.select_convs pj_pool_block.surjective pj_pool_block.update_convs(3))+
  have bl: "map (\<lambda>b. (pb_hdr b, pb_end b - pb_hdr b)) (butlast (?bs[k := b'])) =
      map (\<lambda>b. (pb_hdr b, pb_end b - pb_hdr b)) (butlast ?bs)"
    using same [of "\<lambda>b. (pb_hdr b, pb_end b - pb_hdr b)" b'] A(1) by (simp add: map_butlast)
  show ow: "owned pool' = owned pool" using lst bl by (simp add: owned_def p')
  have "disjoint_spaces (?bs[k := b'])"
    using ok disjoint_spaces_cong [OF same [of space]] sp by (simp add: pool_ok_def)
  moreover have "\<forall>b \<in> set (?bs[k := b']). block_ok b"
    using ok A(2) set_update_subset_insert [of ?bs k b'] by (auto simp: pool_ok_def)
  ultimately show "pool_ok pool'" using ok ow lst by (simp add: pool_ok_def p')
  show "aligned p al" by (rule A)
  obtain r where "r \<in> set (owned pool)" "space ?b \<subseteq> region r" by (rule space_region [OF ok bk(2)])
  then show "chunk_at p n \<subseteq> pool_space pool" using A(4) by (auto simp: pool_space_def)
  have "chunk_at p n \<inter> used c = {}" if c: "c \<in> set ?bs" for c
  proof (cases "c = ?b")
    case False
    have "space ?b \<inter> space c = {}"
      using ok False by (intro disjoint_spaces_nth [OF _ bk(2) c]) (auto simp: pool_ok_def)
    then show ?thesis using A(4) used_space [of c] ok c by (auto simp: pool_ok_def)
  qed (use A(5) in simp)
  then show "chunk_at p n \<inter> pool_used pool = {}" by (auto simp: pool_used_def)
  have "used c \<subseteq> pool_used pool'" if c: "c \<in> set ?bs" for c
  proof -
    obtain j where j: "j < length ?bs" "c = ?bs ! j" using c by (auto simp: in_set_conv_nth)
    have "used c \<subseteq> used (?bs[k := b'] ! j)" using A(6) j k by (cases "j = k") auto
    moreover have "?bs[k := b'] ! j \<in> set (?bs[k := b'])" using j by simp
    ultimately show ?thesis by (auto simp: pool_used_def p')
  qed
  moreover have "chunk_at p n \<subseteq> pool_used pool'"
    using A(6) set_update_memI [OF k, of b'] by (auto simp: pool_used_def p')
  ultimately show "pool_used pool \<union> chunk_at p n \<subseteq> pool_used pool'" by (auto simp: pool_used_def [of pool])
qed

section \<open>The source of blocks\<close>

text \<open>What a pool relies on: with the regions \<open>R\<close> in use, a block the factory returns does not reach
  beyond the address space and overlaps none of them, and freeing a region releases only it.\<close>

locale block_source =
  fixes pol :: "'f pj_pool_factory_policy"
    and safe :: "'f \<Rightarrow> (u32 \<times> u32) set \<Rightarrow> bool"
  assumes alloc_some: "safe f R \<Longrightarrow> fp_block_alloc pol f n = (Some a, f') \<Longrightarrow>
      unat a + unat n < 2 ^ 32 \<and> (\<forall>r \<in> R. region r \<inter> region (a, n) = {}) \<and> safe f' (insert (a, n) R)"
    and alloc_none: "safe f R \<Longrightarrow> fp_block_alloc pol f n = (None, f') \<Longrightarrow> safe f' R"
    and call_keeps: "safe f R \<Longrightarrow> safe (fp_call pol c f n) R"
    and free_keeps: "safe f R \<Longrightarrow> fp_block_free pol = Some fr \<Longrightarrow> safe (fr f (fst r) (snd r)) (R - {r})"
    and shrink: "safe f R \<Longrightarrow> S \<subseteq> R \<Longrightarrow> safe f S"
begin

lemma create_block_ok:
  assumes ok: "pool_ok pool" and safe: "safe f R" and own: "set (owned pool) \<subseteq> R"
    and n: "20 \<le> unat n"
    and c: "pj_pool_create_block pol f pool n = (Some b, f', pool')"
  shows "pool_ok pool'" "po_blocks pool' = b # po_blocks pool" "safe f' (R \<union> set (owned pool'))"
    "set (owned pool) \<subseteq> set (owned pool')" "pool_used pool' = pool_used pool"
    "pb_cur b = pb_buf b" "unat (pb_buf b) + (unat n - 20) = unat (pb_end b)"
    "\<exists>x. owned pool' = x # owned pool \<and> 20 \<le> unat (snd x) \<and> unat (fst x) + unat (snd x) < 2 ^ 32 \<and> (\<forall>y \<in> R. region y \<inter> region x = {})"
proof -
  obtain a where a: "fp_block_alloc pol f n = (Some a, f')"
    and b: "b = \<lparr>pb_hdr = a, pb_buf = a + 20, pb_cur = a + 20, pb_end = a + n\<rparr>"
    and p': "pool' = pool\<lparr>po_capacity := po_capacity pool + n, po_blocks := b # po_blocks pool\<rparr>"
    using c by (auto simp: pj_pool_create_block_def Let_def sizeof_block_def split: prod.splits option.splits)
  note S = alloc_some [OF safe a]
  have u: "unat (a + n) = unat a + unat n" "unat (a + 20) = unat a + 20"
    using S n by (simp_all add: unat_word_ariths)
  have bo: "block_ok b" using n u by (simp add: b block_ok_def word_le_nat_alt)
  have ne: "po_blocks pool \<noteq> []" using ok by (simp add: pool_ok_def)
  then have ow: "owned pool' = (a, n) # owned pool" by (simp add: owned_def p' b)
  have sb: "space b \<subseteq> region (a, n)" using u by (auto simp: space_def region_def b)
  have "space b \<inter> space c = {}" if c: "c \<in> set (po_blocks pool)" for c
  proof -
    obtain r where "r \<in> set (owned pool)" "space c \<subseteq> region r" by (rule space_region [OF ok c])
    with S own sb show ?thesis by blast
  qed
  with ok bo ow show "pool_ok pool'" by (simp add: pool_ok_def p' add.commute)
  show "po_blocks pool' = b # po_blocks pool" by (simp add: p')
  have "R \<union> set (owned pool') = insert (a, n) R" using own ow by auto
  then show "safe f' (R \<union> set (owned pool'))" using S by simp
  show "set (owned pool) \<subseteq> set (owned pool')" by (auto simp: ow)
  show "pool_used pool' = pool_used pool" by (auto simp: pool_used_def p' used_def b)
  show "pb_cur b = pb_buf b" "unat (pb_buf b) + (unat n - 20) = unat (pb_end b)" using u n by (simp_all add: b)
  show "\<exists>x. owned pool' = x # owned pool \<and> 20 \<le> unat (snd x) \<and> unat (fst x) + unat (snd x) < 2 ^ 32 \<and> (\<forall>y \<in> R. region y \<inter> region x = {})"
    using S ow n by auto
qed

end

section \<open>Allocation\<close>

text \<open>The size of a new block holds the header, the alignment gap and the request, when the sums do
  not wrap.\<close>

definition fits :: "pj_pool_t \<Rightarrow> u32 \<Rightarrow> u32 \<Rightarrow> bool" where
  "fits pool al n \<longleftrightarrow> unat (po_increment_size pool) + 20 + unat al + unat n < 2 ^ 32"

definition expand_size :: "u32 \<Rightarrow> u32 \<Rightarrow> u32 \<Rightarrow> u32" where
  "expand_size inc al n =
     (let needed = sizeof_block + al - 1 + n
      in if inc < needed then ((inc + needed) div inc) * inc else inc)"

lemma expand_size_enough:
  assumes "unat inc + 20 + unat al + unat n < 2 ^ 32" "inc \<noteq> 0" "al \<noteq> 0"
  shows "20 + unat al - 1 + unat n \<le> unat (expand_size inc al n)"
proof -
  let ?needed = "sizeof_block + al - 1 + n"
  have al: "1 \<le> unat al" using assms(3) by (simp add: Suc_leI unat_gt_0)
  have s1: "unat (sizeof_block + al) = 20 + unat al"
    using assms(1) by (simp add: sizeof_block_def unat_word_ariths)
  have s2: "unat (sizeof_block + al - 1) = 20 + unat al - 1"
    using s1 al by (subst unat_sub) (simp_all add: word_le_nat_alt)
  have need: "unat ?needed = 20 + unat al - 1 + unat n"
    using assms(1) s2 by (simp add: unat_word_ariths(1) [of "sizeof_block + al - 1" n])
  show ?thesis
  proof (cases "inc < ?needed")
    case True
    have sum: "unat (inc + ?needed) = unat inc + unat ?needed"
      using assms(1) need al by (simp add: unat_word_ariths(1) [of inc ?needed])
    let ?x = "unat inc + unat ?needed"
    have i0: "0 < unat inc" using assms(2) by (simp add: unat_gt_0)
    have dm: "?x = (?x div unat inc) * unat inc + ?x mod unat inc" by (rule div_mult_mod_eq [symmetric])
    have "?x mod unat inc < unat inc" using i0 by simp
    then have ge: "unat ?needed \<le> (?x div unat inc) * unat inc" using dm by linarith
    have "(?x div unat inc) * unat inc \<le> ?x" by (simp add: div_times_less_eq_dividend)
    then have lt: "(?x div unat inc) * unat inc < 2 ^ 32" using assms(1) need al by linarith
    have "unat ((inc + ?needed) div inc * inc) = (?x div unat inc) * unat inc"
      using lt by (simp add: unat_word_ariths(2) unat_div sum)
    then show ?thesis using ge need True by (simp add: expand_size_def Let_def)
  next
    case False
    then show ?thesis using need by (simp add: expand_size_def Let_def word_less_nat_alt)
  qed
qed

text \<open>A block with room for the gap and the request serves it.\<close>

lemma alloc_from_fresh_block:
  assumes al: "PJ_IS_POWER_OF_TWO al" and room: "unat (pb_cur b) + (unat al - 1) + unat n \<le> unat (pb_end b)"
  obtains p b' where "pj_pool_alloc_from_block b al n = (Some p, b')"
proof -
  let ?g = "(- pb_cur b) AND (al - 1)"
  have g: "unat ?g < unat al" by (rule align_gap [OF al])
  have u: "unat (pb_cur b + ?g) = unat (pb_cur b) + unat ?g"
    using g room unsigned_less [of "pb_end b", where ?'a = nat] by (simp add: unat_word_ariths(1))
  have "unat (pb_end b - (pb_cur b + ?g)) = unat (pb_end b) - (unat (pb_cur b) + unat ?g)"
    using u g room by (subst unat_sub) (simp_all add: word_le_nat_alt)
  then show thesis using u g room
    by (intro that) (auto simp: pj_pool_alloc_from_block_def PJ_POOL_ALIGN_PTR_def Let_def word_le_nat_alt)
qed

lemma allocate_find_eq:
  "pj_pool_allocate_find pol f pool al n =
     (case find_block 0 al n (po_blocks pool) of
        (Some p, bs) \<Rightarrow> (Some p, f, pool\<lparr>po_blocks := bs\<rparr>)
      | (None, bs) \<Rightarrow>
          if po_increment_size pool = 0 then (None, fp_call pol (po_callback pool) f n, pool)
          else (case pj_pool_create_block pol f pool (expand_size (po_increment_size pool) al n) of
                  (None, f1, pool1) \<Rightarrow> (None, f1, pool1)
                | (Some block, f1, pool1) \<Rightarrow>
                    (case pj_pool_alloc_from_block block al n of
                       (p, b1) \<Rightarrow> (p, f1, pool1\<lparr>po_blocks := b1 # tl (po_blocks pool1)\<rparr>))))"
  by (simp only: pj_pool_allocate_find_def expand_size_def Let_def)

text \<open>What an allocation promises: with the chunk, where one is returned.\<close>

definition alloc_result :: "pj_pool_t \<Rightarrow> pj_pool_t \<Rightarrow> u32 \<Rightarrow> u32 \<Rightarrow> u32 option \<Rightarrow> bool" where
  "alloc_result pool pool' al n r \<longleftrightarrow> pool_ok pool' \<and> set (owned pool) \<subseteq> set (owned pool') \<and>
     (case r of
        None \<Rightarrow> pool_used pool' = pool_used pool
      | Some p \<Rightarrow> aligned p al \<and> chunk_at p n \<subseteq> pool_space pool' \<and> chunk_at p n \<inter> pool_used pool = {} \<and>
          pool_used pool \<union> chunk_at p n \<subseteq> pool_used pool')"

lemma alloc_result_advance:
  assumes "pool_ok pool" "k < length (po_blocks pool)" "PJ_IS_POWER_OF_TWO al"
    "pj_pool_alloc_from_block (po_blocks pool ! k) al n = (Some p, b')"
  shows "alloc_result pool (pool\<lparr>po_blocks := (po_blocks pool)[k := b']\<rparr>) al n (Some p)"
    "owned (pool\<lparr>po_blocks := (po_blocks pool)[k := b']\<rparr>) = owned pool"
  using advance_block [OF assms(1,2,4,3) refl] by (auto simp: alloc_result_def pool_space_def)

context block_source
begin

lemma aligned_alloc_ok:
  assumes ok: "pool_ok pool" and safe: "safe f R" and own: "set (owned pool) \<subseteq> R"
    and al: "al \<noteq> 0 \<Longrightarrow> PJ_IS_POWER_OF_TWO al" and al1: "al1 = (if al = 0 then po_alignment pool else al)"
    and fit: "fits pool al1 n"
    and r: "pj_pool_aligned_alloc pol f pool al n = (r, f', pool')"
  shows "alloc_result pool pool' al1 n r" "safe f' (R \<union> set (owned pool'))"
    "r = None \<Longrightarrow> po_increment_size pool \<noteq> 0 \<Longrightarrow>
      \<exists>f1. fp_block_alloc pol f (expand_size (po_increment_size pool) al1 n) = (None, f1)"
    "owned pool' = owned pool \<or> (\<exists>x. owned pool' = x # owned pool \<and> 20 \<le> unat (snd x) \<and> unat (fst x) + unat (snd x) < 2 ^ 32 \<and>
      (\<forall>y \<in> R. region y \<inter> region x = {}))"
proof -
  have p2: "PJ_IS_POWER_OF_TWO al1" using al al1 ok by (simp add: pool_ok_def)
  then have al0: "al1 \<noteq> 0" by (auto simp: PJ_IS_POWER_OF_TWO_def)
  have R: "R \<union> set (owned pool) = R" using own by auto
  have ne: "0 < length (po_blocks pool)" "hd (po_blocks pool) = po_blocks pool ! 0"
    using ok by (auto simp: pool_ok_def hd_conv_nth)
  have none: "alloc_result pool pool al1 n None" using ok by (simp add: alloc_result_def)
  have "\<not> (al \<noteq> 0 \<and> \<not> PJ_IS_POWER_OF_TWO al)" using al by blast
  then have r0: "(case pj_pool_alloc_from_block (hd (po_blocks pool)) al1 n of
      (Some p, b) \<Rightarrow> (Some p, f, pool\<lparr>po_blocks := b # tl (po_blocks pool)\<rparr>)
    | (None, b) \<Rightarrow> pj_pool_allocate_find pol f pool al1 n) = (r, f', pool')"
    using r unfolding pj_pool_aligned_alloc_def Let_def al1 [symmetric] by (simp only: if_False)
  let ?grown = "owned pool' = owned pool \<or> (\<exists>x. owned pool' = x # owned pool \<and>
    20 \<le> unat (snd x) \<and> unat (fst x) + unat (snd x) < 2 ^ 32 \<and> (\<forall>y \<in> R. region y \<inter> region x = {}))"
  have goal: "?grown \<and> alloc_result pool pool' al1 n r \<and> safe f' (R \<union> set (owned pool')) \<and>
    (r = None \<longrightarrow> po_increment_size pool \<noteq> 0 \<longrightarrow>
      (\<exists>f1. fp_block_alloc pol f (expand_size (po_increment_size pool) al1 n) = (None, f1)))"
  proof (cases "fst (pj_pool_alloc_from_block (hd (po_blocks pool)) al1 n)")
    case (Some p)
    then obtain b' where b': "pj_pool_alloc_from_block (po_blocks pool ! 0) al1 n = (Some p, b')"
      by (metis ne(2) prod.collapse)
    have "r = Some p" "f' = f" "pool' = pool\<lparr>po_blocks := (po_blocks pool)[0 := b']\<rparr>"
      using r0 b' ne by (auto simp: neq_Nil_conv)
    then show ?thesis using alloc_result_advance [OF ok ne(1) p2 b'] safe R by simp
  next
    case None
    then have r1: "pj_pool_allocate_find pol f pool al1 n = (r, f', pool')"
      using r0 by (auto split: prod.splits option.splits)
    obtain q bs where q: "find_block 0 al1 n (po_blocks pool) = (q, bs)" by fastforce
    show ?thesis
    proof (cases q)
      case (Some p)
      then obtain k b' where k: "k < length (po_blocks pool)" "bs = (po_blocks pool)[k := b']"
        "pj_pool_alloc_from_block (po_blocks pool ! k) al1 n = (Some p, b')"
        using find_block_cases [OF q] by auto
      have "r = Some p" "f' = f" "pool' = pool\<lparr>po_blocks := bs\<rparr>" using r1 q Some by (simp_all add: allocate_find_eq)
      then show ?thesis using alloc_result_advance [OF ok k(1) p2 k(3)] safe R k(2) by simp
    next
      case qn: None
      let ?sz = "expand_size (po_increment_size pool) al1 n"
      show ?thesis
      proof (cases "po_increment_size pool = 0")
        case True
        then have "r = None" "f' = fp_call pol (po_callback pool) f n" "pool' = pool"
          using r1 q qn by (auto simp: allocate_find_eq)
        then show ?thesis using none call_keeps [OF safe] R True by simp
      next
        case inc: False
        have sz: "20 + unat al1 - 1 + unat n \<le> unat ?sz"
          using expand_size_enough [OF _ inc al0] fit by (simp add: fits_def)
        have a1: "1 \<le> unat al1" using al0 by (simp add: Suc_leI unat_gt_0)
        obtain b f1 pool1 where c: "pj_pool_create_block pol f pool ?sz = (b, f1, pool1)" by (metis prod_cases3)
        show ?thesis
        proof (cases b)
          case None
          then have "r = None" "f' = f1" "pool' = pool1" using r1 q qn inc c by (simp_all add: allocate_find_eq)
          moreover have "pool1 = pool" "safe f1 R" "\<exists>f1. fp_block_alloc pol f ?sz = (None, f1)"
            using c None alloc_none [OF safe] call_keeps
            by (auto simp: pj_pool_create_block_def Let_def split: prod.splits option.splits)
          ultimately show ?thesis using none R by simp
        next
          case (Some blk)
          note c' = c [unfolded Some]
          have "20 \<le> unat ?sz" using sz a1 by linarith
          note B = create_block_ok [OF ok safe own this c']
          have "unat (pb_cur blk) + (unat al1 - 1) + unat n \<le> unat (pb_end blk)" using B(6,7) sz a1 by simp
          then obtain p b' where p: "pj_pool_alloc_from_block blk al1 n = (Some p, b')"
            by (rule alloc_from_fresh_block [OF p2])
          have e: "r = Some p" "f' = f1" "pool' = pool1\<lparr>po_blocks := (po_blocks pool1)[0 := b']\<rparr>"
            using r1 q qn inc c' p B(2) by (simp_all add: allocate_find_eq)
          have "alloc_result pool1 pool' al1 n (Some p)" "owned pool' = owned pool1"
            using alloc_result_advance [OF B(1) _ p2, of 0 n p b'] p e(3) B(2) by simp_all
          then show ?thesis using B(3-5,8) e by (simp add: alloc_result_def)
        qed
      qed
    qed
  qed
  then show "alloc_result pool pool' al1 n r" "safe f' (R \<union> set (owned pool'))"
    "r = None \<Longrightarrow> po_increment_size pool \<noteq> 0 \<Longrightarrow>
      \<exists>f1. fp_block_alloc pol f (expand_size (po_increment_size pool) al1 n) = (None, f1)" "?grown"
    by blast+
qed

end

end
