(* ===== verification/Pj_Pool_Props.thy ===== *)
theory Pj_Pool_Props
  imports Pj_Pool_Spec
begin

text \<open>
  Creating and resetting pools, sequences of allocations, the buffer based factory as a source
  of blocks, and the properties of the pool component.
\<close>

section \<open>Fields an allocation keeps\<close>

lemma allocate_find_fields:
  assumes "pj_pool_allocate_find pol f pool al n = (r, f', pool')"
  shows "po_increment_size pool' = po_increment_size pool" "po_alignment pool' = po_alignment pool"
    "po_addr pool' = po_addr pool" "po_callback pool' = po_callback pool"
  using assms
  by (auto simp: allocate_find_eq pj_pool_create_block_def Let_def
      split: prod.splits option.splits if_splits)

lemma aligned_alloc_fields:
  assumes "pj_pool_aligned_alloc pol f pool al n = (r, f', pool')"
  shows "po_increment_size pool' = po_increment_size pool" "po_alignment pool' = po_alignment pool"
    "po_addr pool' = po_addr pool" "po_callback pool' = po_callback pool"
  using assms
  by (auto simp: pj_pool_aligned_alloc_def Let_def dest: allocate_find_fields
      split: prod.splits option.splits if_splits)

section \<open>Sequences of allocations\<close>

fun alloc_run ::
  "'f pj_pool_factory_policy \<Rightarrow> (u32 \<times> u32) list \<Rightarrow> 'f \<Rightarrow> pj_pool_t \<Rightarrow> (u32 \<times> u32) list
     \<Rightarrow> 'f \<times> pj_pool_t \<times> (u32 \<times> u32) list" where
  "alloc_run pol [] f pool cs = (f, pool, cs)"
| "alloc_run pol ((al, n) # xs) f pool cs =
     (case pj_pool_aligned_alloc pol f pool al n of
        (None, f1, pool1) \<Rightarrow> alloc_run pol xs f1 pool1 cs
      | (Some p, f1, pool1) \<Rightarrow> alloc_run pol xs f1 pool1 ((p, n) # cs))"

fun apart :: "(u32 \<times> u32) list \<Rightarrow> bool" where
  "apart [] \<longleftrightarrow> True"
| "apart (c # cs) \<longleftrightarrow> (\<forall>d \<in> set cs. region c \<inter> region d = {}) \<and> apart cs"

lemma chunk_region: "chunk_at p n = region (p, n)"
  by (simp add: chunk_at_def region_def)

definition request_ok :: "u32 \<Rightarrow> u32 \<Rightarrow> u32 \<times> u32 \<Rightarrow> bool" where
  "request_ok inc dflt r \<longleftrightarrow> (fst r \<noteq> 0 \<longrightarrow> PJ_IS_POWER_OF_TWO (fst r)) \<and>
     unat inc + 20 + unat (if fst r = 0 then dflt else fst r) + unat (snd r) < 2 ^ 32"

lemma pool_used_space:
  assumes "pool_ok pool"
  shows "pool_used pool \<subseteq> pool_space pool"
proof
  fix x assume "x \<in> pool_used pool"
  then obtain b where b: "b \<in> set (po_blocks pool)" "x \<in> used b" by (auto simp: pool_used_def)
  then have "x \<in> space b" using used_space [of b] assms by (auto simp: pool_ok_def)
  moreover obtain r where "r \<in> set (owned pool)" "space b \<subseteq> region r" by (rule space_region [OF assms b(1)])
  ultimately show "x \<in> pool_space pool" by (auto simp: pool_space_def)
qed

context block_source
begin

lemma alloc_run_ok:
  "pool_ok pool \<Longrightarrow> safe f R \<Longrightarrow> set (owned pool) \<subseteq> R \<Longrightarrow>
     (\<And>r. r \<in> set xs \<Longrightarrow> request_ok (po_increment_size pool) (po_alignment pool) r) \<Longrightarrow>
     apart cs \<Longrightarrow> (\<And>c. c \<in> set cs \<Longrightarrow> region c \<subseteq> pool_used pool) \<Longrightarrow>
     alloc_run pol xs f pool cs = (f', pool', cs') \<Longrightarrow>
     pool_ok pool' \<and> apart cs' \<and> (\<forall>c \<in> set cs'. region c \<subseteq> pool_used pool') \<and>
     safe f' (R \<union> set (owned pool'))"
proof (induction xs arbitrary: f pool cs R)
  case Nil
  then show ?case by (auto simp: Un_absorb2)
next
  case (Cons x xs)
  obtain al n where x: "x = (al, n)" by (cases x)
  obtain r f1 pool1 where a: "pj_pool_aligned_alloc pol f pool al n = (r, f1, pool1)" by (metis prod_cases3)
  have q: "request_ok (po_increment_size pool) (po_alignment pool) (al, n)" using Cons.prems(4) x by simp
  have al: "al \<noteq> 0 \<Longrightarrow> PJ_IS_POWER_OF_TWO al" and fit: "fits pool (if al = 0 then po_alignment pool else al) n"
    using q by (auto simp: request_ok_def fits_def)
  note A = aligned_alloc_ok [OF Cons.prems(1-3) al refl fit a]
  note F = aligned_alloc_fields [OF a]
  let ?al = "if al = 0 then po_alignment pool else al"
  have p1: "pool_ok pool1" "set (owned pool) \<subseteq> set (owned pool1)" using A(1) by (auto simp: alloc_result_def)
  have mono: "pool_used pool \<subseteq> pool_used pool1" using A(1) by (cases r) (auto simp: alloc_result_def)
  have req: "\<And>r. r \<in> set xs \<Longrightarrow> request_ok (po_increment_size pool1) (po_alignment pool1) r"
    using Cons.prems(4) F by simp
  have sub: "set (owned pool1) \<subseteq> R \<union> set (owned pool1)" by auto
  have step: "pool_ok pool' \<and> apart cs' \<and> (\<forall>c \<in> set cs'. region c \<subseteq> pool_used pool') \<and>
      safe f' (R \<union> set (owned pool'))"
    if "apart cs1" "\<And>c. c \<in> set cs1 \<Longrightarrow> region c \<subseteq> pool_used pool1"
      "alloc_run pol xs f1 pool1 cs1 = (f', pool', cs')" for cs1
    using Cons.IH [OF p1(1) A(2) sub req that] shrink [of f' "R \<union> set (owned pool1) \<union> set (owned pool')" "R \<union> set (owned pool')"]
    by blast
  show ?case
  proof (cases r)
    case None
    then show ?thesis using Cons.prems(5-7) mono a x by (intro step [of cs]) auto
  next
    case (Some p)
    then have c: "region (p, n) \<inter> pool_used pool = {}" "region (p, n) \<subseteq> pool_used pool1"
      using A(1) by (auto simp: alloc_result_def chunk_region)
    have "region (p, n) \<inter> region d = {}" if "d \<in> set cs" for d using c(1) Cons.prems(6) [OF that] by blast
    then have ap: "apart ((p, n) # cs)" using Cons.prems(5) by simp
    have inu: "region d \<subseteq> pool_used pool1" if "d \<in> set ((p, n) # cs)" for d
      using that c(2) subset_trans [OF Cons.prems(6) mono] by (metis set_ConsD)
    show ?thesis by (rule step [OF ap inu]) (use Cons.prems(7) a x Some in simp_all)
  qed
qed

lemma create_int_ok:
  assumes safe: "safe f R" and c: "pj_pool_create_int pol f name n inc al cb = (Some pool, f')"
  shows "pool_ok pool" "pool_used pool = {}" "po_capacity pool = n" "owned pool = [(po_addr pool, n)]"
    "safe f' (insert (po_addr pool, n) R)" "\<And>r. r \<in> R \<Longrightarrow> region r \<inter> region (po_addr pool, n) = {}"
    "po_increment_size pool = inc" "po_alignment pool = (if al = 0 then PJ_POOL_ALIGNMENT else al)"
    "104 \<le> unat n" "unat (po_addr pool) + unat n < 2 ^ 32"
proof -
  have n: "104 \<le> n" and al: "al = 0 \<or> PJ_IS_POWER_OF_TWO al"
    using c by (auto simp: pj_pool_create_int_def sizeof_pool_def sizeof_block_def split: if_splits)
  obtain a where a: "fp_block_alloc pol f n = (Some a, f')"
    and b: "po_blocks pool = [\<lparr>pb_hdr = a + 84, pb_buf = a + 84 + 20, pb_cur = a + 84 + 20, pb_end = a + n\<rparr>]"
    and p: "po_addr pool = a" "po_capacity pool = n" "po_increment_size pool = inc"
      "po_alignment pool = (if al = 0 then PJ_POOL_ALIGNMENT else al)"
    using c n al by (auto simp: pj_pool_create_int_def Let_def pj_pool_init_int_def sizeof_pool_def sizeof_block_def
        split: prod.splits option.splits if_splits)
  note S = alloc_some [OF safe a]
  have n': "104 \<le> unat n" using n by (simp add: word_le_nat_alt)
  have u: "unat (a + n) = unat a + unat n" "unat (a + 84) = unat a + 84" "unat (a + 84 + 20) = unat a + 104"
    using S n' by (simp_all add: unat_word_ariths)
  have "PJ_IS_POWER_OF_TWO PJ_POOL_ALIGNMENT" by code_simp
  then have "PJ_IS_POWER_OF_TWO (po_alignment pool)" using al p(4) by auto
  moreover show "owned pool = [(po_addr pool, n)]" by (simp add: owned_def b p)
  ultimately show "pool_ok pool" using u n' p
    by (simp add: pool_ok_def b block_ok_def word_le_nat_alt)
  show "pool_used pool = {}" by (simp add: pool_used_def b used_def)
  show "po_capacity pool = n" "po_increment_size pool = inc"
    "po_alignment pool = (if al = 0 then PJ_POOL_ALIGNMENT else al)" by (rule p)+
  show "safe f' (insert (po_addr pool, n) R)" "\<And>r. r \<in> R \<Longrightarrow> region r \<inter> region (po_addr pool, n) = {}"
    using S p(1) by auto
  show "104 \<le> unat n" "unat (po_addr pool) + unat n < 2 ^ 32" using S n' p(1) by auto
qed

lemma free_blocks_ok:
  "safe f R \<Longrightarrow> free_blocks pol f bs = Some f' \<Longrightarrow>
     safe f' (R - set (map (\<lambda>b. (pb_hdr b, pb_end b - pb_hdr b)) bs))"
proof (induction bs arbitrary: f R)
  case (Cons b bs)
  obtain fr where fr: "fp_block_free pol = Some fr" using Cons.prems(2) by (auto split: option.splits)
  let ?r = "(pb_hdr b, pb_end b - pb_hdr b)"
  have "safe (fr f (pb_hdr b) (pb_end b - pb_hdr b)) (R - {?r})"
    using free_keeps [OF Cons.prems(1) fr, of ?r] by simp
  from Cons.IH [OF this] Cons.prems(2) fr show ?case by (simp add: Diff_insert2 Diff_insert [symmetric] set_diff_eq)
qed simp

lemma reset_ok:
  assumes ok: "pool_ok pool" and safe: "safe f R" and r: "reset_pool pol f pool = Some (f', pool')"
  shows "pool_ok pool'" "pool_used pool' = {}" "owned pool' = [last (owned pool)]"
    "po_capacity pool' = snd (last (owned pool))" "safe f' (R - set (butlast (owned pool)))"
    "po_increment_size pool' = po_increment_size pool"
proof -
  have ne: "po_blocks pool \<noteq> []" using ok by (simp add: pool_ok_def)
  let ?b = "last (po_blocks pool)"
  have f': "free_blocks pol f (rev (butlast (po_blocks pool))) = Some f'"
    and p': "pool' = pool\<lparr>po_blocks := [?b\<lparr>pb_cur := pb_buf ?b\<rparr>], po_capacity := pb_end ?b - po_addr pool\<rparr>"
    using r ne by (auto simp: reset_pool_def Let_def split: option.splits)
  have bo: "block_ok ?b" using ok ne by (simp add: pool_ok_def)
  show ow: "owned pool' = [last (owned pool)]" by (simp add: owned_def p')
  show "po_capacity pool' = snd (last (owned pool))" by (simp add: owned_def p')
  have "pb_buf ?b \<le> pb_end ?b" using bo by (auto simp: block_ok_def)
  then show "pool_ok pool'" using ok bo by (simp add: pool_ok_def p' block_ok_def owned_def)
  show "pool_used pool' = {}" by (simp add: pool_used_def p' used_def)
  show "safe f' (R - set (butlast (owned pool)))"
    using free_blocks_ok [OF safe f'] by (simp add: owned_def butlast_append)
  show "po_increment_size pool' = po_increment_size pool" by (simp add: p')
qed

end

section \<open>The buffer based factory is a source of blocks\<close>

definition stack_safe :: "creation_param \<Rightarrow> (u32 \<times> u32) set \<Rightarrow> bool" where
  "stack_safe tls R \<longleftrightarrow> (case tls of None \<Rightarrow> True | Some (b, n) \<Rightarrow>
     unat b + unat n < 2 ^ 32 \<and> (\<forall>r \<in> R. region r \<inter> region (b, n) = {}))"

interpretation stack: block_source "stack_based_factory cb fmt" stack_safe for cb fmt
proof
  fix f :: creation_param and R n a f'
  assume s: "stack_safe f R" and a: "fp_block_alloc (stack_based_factory cb fmt) f n = (Some a, f')"
  then obtain m where m: "f = Some (a, m)" "n \<le> m" "f' = None"
    by (auto simp: stack_based_factory_def stack_alloc_def split: option.splits if_splits)
  then have "region (a, n) \<subseteq> region (a, m)" by (auto simp: region_def word_le_nat_alt)
  then show "unat a + unat n < 2 ^ 32 \<and> (\<forall>r \<in> R. region r \<inter> region (a, n) = {}) \<and> stack_safe f' (insert (a, n) R)"
    using s m by (auto simp: stack_safe_def word_le_nat_alt)
next
  fix f :: creation_param and R n f'
  assume "stack_safe f R" "fp_block_alloc (stack_based_factory cb fmt) f n = (None, f')"
  then show "stack_safe f' R"
    by (auto simp: stack_based_factory_def stack_alloc_def stack_safe_def split: option.splits if_splits)
qed (auto simp: stack_based_factory_def stack_safe_def split: option.splits)

section \<open>Properties\<close>

text \<open>A pool on a buffer of 400 bytes at address 1001.\<close>

definition sample_pool :: pj_pool_t where
  "sample_pool = the (fst (pj_pool_create_on_buf 0 (\<lambda>s a. s) None 1001 400))"

lemma sample_pool_ok [simp]:
  "pool_ok sample_pool" "pool_used sample_pool = {}" "owned sample_pool = [(1008, 393)]"
  "po_increment_size sample_pool = 0" "po_alignment sample_pool = 8"
proof -
  have c: "pj_pool_create_int (stack_based_factory 0 (\<lambda>s a. s)) (Some (1008, 393)) None 393 0 8 (Some 0) =
      (Some sample_pool, None)" by code_simp
  have s: "stack_safe (Some (1008, 393)) {}" by (simp add: stack_safe_def)
  have a: "po_addr sample_pool = 1008" by code_simp
  note C = stack.create_int_ok [OF s c]
  show "pool_ok sample_pool" "pool_used sample_pool = {}" "owned sample_pool = [(1008, 393)]"
    "po_increment_size sample_pool = 0" "po_alignment sample_pool = 8"
    using C a by simp_all
qed



text \<open>C10: from any well formed pool in use by nobody, whatever sequence of requests is made, the chunks
  handed out are pairwise disjoint and inside the pool's memory.\<close>

theorem pool_chunks_disjoint:
  assumes src: "block_source pol safe" and ok: "pool_ok pool" and safe: "safe f R" and own: "set (owned pool) \<subseteq> R"
    and req: "\<And>r. r \<in> set xs \<Longrightarrow> request_ok (po_increment_size pool) (po_alignment pool) r"
    and run: "alloc_run pol xs f pool [] = (f', pool', cs)"
  shows "pool_ok pool' \<and> apart cs \<and> (\<forall>c \<in> set cs. region c \<subseteq> pool_space pool')"
  using block_source.alloc_run_ok [OF src ok safe own req _ _ run] pool_used_space [of pool'] by fastforce

theorem pool_chunks_disjoint_witness:
  "\<exists>f' pool' cs. alloc_run (stack_based_factory 0 (\<lambda>s a. s)) [(0, 10), (32, 7), (4, 100), (0, 500)] None sample_pool [] =
     (f', pool', cs) \<and> length cs = 3 \<and> apart cs"
proof -
  let ?pol = "stack_based_factory 0 (\<lambda>s a. s)" and ?xs = "[(0, 10), (32, 7), (4, 100), (0, 500)]"
  obtain f' pool' cs where r: "alloc_run ?pol ?xs None sample_pool [] = (f', pool', cs)" by (metis prod_cases3)
  have "length (snd (snd (alloc_run ?pol ?xs None sample_pool []))) = 3"
    "PJ_IS_POWER_OF_TWO 32" "PJ_IS_POWER_OF_TWO 4" by code_simp+
  note l = this
  have s: "stack_safe None {(1008, 393)}" by (simp add: stack_safe_def)
  have q: "\<And>r. r \<in> set ?xs \<Longrightarrow> request_ok (po_increment_size sample_pool) (po_alignment sample_pool) r"
    using l(2,3) by (auto simp: request_ok_def)
  from pool_chunks_disjoint [OF stack.block_source_axioms sample_pool_ok(1) s _ q r] l(1) r show ?thesis by simp
qed

text \<open>A zeroed allocation whose byte count does not fit a 32-bit size is refused and changes neither
  pool nor memory; any other is the allocation of exactly the product, and then exactly the
  bytes of the chunk are zeroed.\<close>

theorem pool_calloc_checked:
  "pj_pool_calloc pol m f pool count n =
     (if 2 ^ 32 \<le> unat count * unat n then (None, m, fp_call pol (po_callback pool) f (-1), pool)
      else (case pj_pool_alloc pol f pool (count * n) of
        (r, f', pool') \<Rightarrow>
          (r, (\<lambda>a. if r \<noteq> None \<and> uint (the r) \<le> a \<and> a < uint (the r) + int (unat count * unat n) then 0 else m a),
           f', pool')))"
proof -
  have g: "(count \<noteq> 0 \<and> n > (-1) div count) = (2 ^ 32 \<le> unat count * unat n)"
  proof (cases "count = 0")
    case False
    then have c0: "0 < unat count" by (simp add: unat_gt_0)
    have "unat ((-1 :: u32) div count) = (2 ^ 32 - 1) div unat count" 
      by (simp add: unat_div unsigned_minus_1_eq_mask mask_eq_exp_minus_1)
    then have "n > (-1) div count \<longleftrightarrow> (2 ^ 32 - 1) div unat count < unat n" by (simp add: word_less_nat_alt)
    also have "\<dots> \<longleftrightarrow> 2 ^ 32 - 1 < unat n * unat count" using c0 by (rule div_less_iff_less_mult)
    also have "\<dots> \<longleftrightarrow> 2 ^ 32 \<le> unat count * unat n" by (simp add: mult.commute) linarith
    finally show ?thesis using False by simp
  qed simp
  show ?thesis
  proof (cases "2 ^ 32 \<le> unat count * unat n")
    case True
    then show ?thesis using g by (simp add: pj_pool_calloc_def)
  next
    case False
    then have u: "uint (n * count) = int (unat count * unat n)"
      by (simp add: unat_word_ariths uint_nat mult.commute del: of_nat_mult)
    show ?thesis using False g u
      by (auto simp: pj_pool_calloc_def pj_bzero_def mult.commute fun_eq_iff split: prod.split option.split)
  qed
qed

text \<open>Resetting a pool gives every block but the first back to the factory, empties the first, and
  sets the capacity back to that of the first; the pool is well formed again.\<close>

theorem pool_reset_initial:
  assumes "block_source pol safe" and "pool_ok pool" and "safe f R" and "pj_pool_reset pol f pool = Some (f', pool')"
  shows "pool_ok pool' \<and> pool_used pool' = {} \<and> owned pool' = [last (owned pool)] \<and>
    pj_pool_get_capacity pool' = snd (last (owned pool)) \<and> safe f' (R - set (butlast (owned pool)))"
  using block_source.reset_ok [OF assms(1-3) assms(4) [unfolded pj_pool_reset_def]]
  by (simp add: pj_pool_get_capacity_def)

theorem pool_reset_initial_witness:
  "\<exists>pool'. pj_pool_reset (stack_based_factory 0 (\<lambda>s a. s)) None
      (snd (snd (pj_pool_alloc (stack_based_factory 0 (\<lambda>s a. s)) None sample_pool 50))) = Some (None, pool') \<and>
    pool_used pool' = {} \<and> pj_pool_get_capacity pool' = 393"
proof -
  let ?pol = "stack_based_factory 0 (\<lambda>s a. s)"
  obtain r f1 pool1 where a: "pj_pool_aligned_alloc ?pol None sample_pool 0 50 = (r, f1, pool1)" by (metis prod_cases3)
  have s: "stack_safe None {(1008, 393)}" by (simp add: stack_safe_def)
  have fit: "fits sample_pool (if (0::u32) = 0 then po_alignment sample_pool else 0) 50" by (simp add: fits_def)
  note A = stack.aligned_alloc_ok [OF sample_pool_ok(1) s _ _ refl fit a]
  have ok: "pool_ok pool1" using A(1) by (simp add: alloc_result_def)
  have "owned (snd (snd (pj_pool_aligned_alloc ?pol None sample_pool 0 50))) = [(1008, 393)]"
    "map_option fst (pj_pool_reset ?pol None (snd (snd (pj_pool_aligned_alloc ?pol None sample_pool 0 50)))) = Some None"
    by code_simp+
  note e = this
  obtain pool' where r: "pj_pool_reset ?pol None pool1 = Some (None, pool')" using e(2) a by auto
  from pool_reset_initial [OF stack.block_source_axioms ok s r] r e(1) a show ?thesis by (simp add: pj_pool_alloc_def)
qed

text \<open>When the increment plus the needed size wraps, a pool that grows by \<open>inc\<close> asks its factory for
  fewer bytes than a block header, although the request is huge: the block put in the list
  then ends before it begins.\<close>

theorem pool_expand_wraps:
  assumes "2 ^ 32 \<le> unat inc + unat (sizeof_block + al - 1 + n)"
    and "unat inc < unat (sizeof_block + al - 1 + n)"
    and "po_increment_size pool = inc" and "find_block 0 al n (po_blocks pool) = (None, bs)"
    and "fp_block_alloc pol f 0 = (Some a, f')"
  shows "\<exists>b pool'. pj_pool_create_block pol f pool 0 = (Some b, f', pool') \<and> pb_end b - pb_hdr b = 0 \<and>
    pb_buf b - pb_hdr b = sizeof_block \<and>
    snd (snd (pj_pool_allocate_find pol f pool al n)) =
      pool'\<lparr>po_blocks := snd (pj_pool_alloc_from_block b al n) # po_blocks pool\<rparr>"
proof -
  let ?need = "sizeof_block + al - 1 + n"
  have nl: "unat ?need < 2 ^ 32" "unat inc < 2 ^ 32"
    using unsigned_less [of ?need, where ?'a = nat] unsigned_less [of inc, where ?'a = nat] by simp_all
  have "unat (inc + ?need) = (unat inc + unat ?need) mod 2 ^ 32" by (simp add: unat_word_ariths(1) [of inc ?need])
  also have "\<dots> = unat inc + unat ?need - 2 ^ 32" using assms(1) nl by (simp add: mod_if)
  finally have "unat (inc + ?need) < unat inc" using assms(1) nl by simp
  then have "unat ((inc + ?need) div inc) = 0" by (simp add: unat_div div_less)
  then have "(inc + ?need) div inc = 0" by (simp add: unat_eq_zero)
  then have e: "expand_size inc al n = 0" using assms(2) by (simp add: expand_size_def Let_def word_less_nat_alt)
  have i0: "inc \<noteq> 0" using assms(1) nl by auto
  show ?thesis using assms(3-5) e i0
    by (auto simp: allocate_find_eq pj_pool_create_block_def Let_def sizeof_block_def split: prod.split)
qed

text \<open>A factory whose \<^verbatim>\<open>malloc\<close> returns consecutive addresses, also for a request of no bytes.\<close>

definition bump_factory :: "u32 pj_pool_factory_policy" where
  "bump_factory = \<lparr>fp_block_alloc = (\<lambda>next n. (Some next, next + n)), fp_block_free = None,
     fp_call = (\<lambda>c s n. s), fp_callback = 0, fp_format = (\<lambda>s a. s)\<rparr>"

theorem pool_expand_wraps_witness:
  "\<exists>b pool'. pj_pool_create_block bump_factory 5000 (sample_pool\<lparr>po_increment_size := 4096\<rparr>) 0 = (Some b, 5000, pool') \<and>
     pb_end b - pb_hdr b = 0"
proof -
  let ?p = "sample_pool\<lparr>po_increment_size := 4096\<rparr>"
  have f: "fst (find_block 0 8 0xFFFFF830 (po_blocks ?p)) = None"
    "snd (fp_block_alloc bump_factory 5000 0) = 5000" "fst (fp_block_alloc bump_factory 5000 0) = Some 5000" by code_simp+
  obtain bs where bs: "find_block 0 8 0xFFFFF830 (po_blocks ?p) = (None, bs)" using f(1) by (metis prod.collapse)
  have a: "fp_block_alloc bump_factory 5000 0 = (Some 5000, 5000)" using f(2,3) by (metis prod.collapse)
  have "sizeof_block + 8 - 1 + 0xFFFFF830 = (0xFFFFF84B :: u32)" by code_simp
  then have "unat (sizeof_block + 8 - 1 + 0xFFFFF830) = unat (0xFFFFF84B :: u32)" by (rule arg_cong)
  then have "unat (sizeof_block + 8 - 1 + 0xFFFFF830) = 0xFFFFF84B" by (simp only:) simp
  then show ?thesis using pool_expand_wraps [where pool = ?p, OF _ _ _ bs a] by auto
qed

text \<open>A pool made on a caller's buffer lies wholly inside that buffer, at an aligned address, for any
  address and size of the buffer that does not reach beyond the address space; a buffer too
  small is refused.\<close>

theorem pool_on_buf_inside:
  assumes b: "unat buf + unat n < 2 ^ 32" and c: "pj_pool_create_on_buf cb fmt name buf n = (Some pool, tls)"
  shows "pool_ok pool \<and> aligned (po_addr pool) PJ_POOL_ALIGNMENT \<and> pool_space pool \<subseteq> region (buf, n) \<and>
    pool_used pool = {} \<and> po_increment_size pool = 0"
proof -
  let ?d = "buf AND (PJ_POOL_ALIGNMENT - 1)"
  let ?pad = "PJ_POOL_ALIGNMENT - ?d"
  define buf1 where "buf1 = (if ?d \<noteq> 0 then buf + ?pad else buf)"
  define n1 where "n1 = (if ?d \<noteq> 0 then n - ?pad else n)"
  have c1: "pj_pool_create_int (stack_based_factory cb fmt) (Some (buf1, n1)) name n1 0 PJ_POOL_ALIGNMENT (Some cb) = (Some pool, tls)"
    and pad: "?d \<noteq> 0 \<Longrightarrow> ?pad < n"
    using c by (auto simp: pj_pool_create_on_buf_def Let_def buf1_def n1_def split: if_splits)
  have m: "PJ_POOL_ALIGNMENT - 1 = mask 3" by (simp add: PJ_POOL_ALIGNMENT_def mask_eq_exp_minus_1)
  have "?d = buf AND mask 3" by (simp add: m)
  have al: "buf1 AND mask 3 = 0"
  proof (cases "?d = 0")
    case True
    then show ?thesis by (simp add: buf1_def m)
  next
    case False
    have "(buf + (8 - (buf AND mask 3))) AND mask 3 = (buf + 8 - buf) AND mask 3"
      by (metis add_diff_eq mask_eqs(4))
    also have "\<dots> = 0" by (simp add: mask_eq_exp_minus_1)
    finally have "(buf + (8 - (buf AND mask 3))) AND mask 3 = 0" .
    moreover have "buf1 = buf + (8 - (buf AND mask 3))"
      using False unfolding buf1_def m by (simp only: PJ_POOL_ALIGNMENT_def simp_thms if_True not_False_eq_True)
    ultimately show ?thesis by (simp only:)
  qed
  have rng: "unat buf \<le> unat buf1 \<and> unat buf1 + unat n1 = unat buf + unat n"
  proof (cases "?d = 0")
    case True
    then show ?thesis by (simp add: buf1_def n1_def)
  next
    case False
    have "unat ?pad < unat n" using pad [OF False] by (simp add: word_less_nat_alt)
    then have "unat (buf + ?pad) = unat buf + unat ?pad" "unat (n - ?pad) = unat n - unat ?pad"
      using b by (simp_all add: unat_word_ariths(1) unat_sub word_le_nat_alt)
    with \<open>unat ?pad < unat n\<close> False show ?thesis by (simp add: buf1_def n1_def)
  qed
  have s: "stack_safe (Some (buf1, n1)) {}" using rng b by (simp add: stack_safe_def)
  note C = stack.create_int_ok [OF s c1]
  have addr: "po_addr pool = buf1"
    using c1 by (auto simp: pj_pool_create_int_def Let_def pj_pool_init_int_def stack_based_factory_def
        stack_alloc_def split: if_splits)
  have "pool_space pool \<subseteq> region (buf, n)" using rng by (auto simp: pool_space_def C(4) addr region_def)
  then show ?thesis using C al addr m by (simp add: aligned_def)
qed

theorem pool_on_buf_inside_witness:
  "pool_ok (the (fst (pj_pool_create_on_buf 0 (\<lambda>s a. s) None 2003 300))) \<and>
   pool_space (the (fst (pj_pool_create_on_buf 0 (\<lambda>s a. s) None 2003 300))) \<subseteq> region (2003, 300)"
proof -
  have "fst (pj_pool_create_on_buf 0 (\<lambda>s a. s) None 2003 300) \<noteq> None" by code_simp
  then obtain p t where p: "pj_pool_create_on_buf 0 (\<lambda>s a. s) None 2003 300 = (Some p, t)" by (metis not_None_eq prod.collapse)
  then show ?thesis using pool_on_buf_inside [OF _ p] by simp
qed

end
