(* ===== verification/Pj_Caching.thy ===== *)
theory Pj_Caching
  imports Pj_Pool_Props
begin

text \<open>
  The caching pool factory of \<^verbatim>\<open>pjlib/src/pj/pool_caching.c\<close>: released pools are kept in
  sixteen lists by size and used again. A pool is known by its address; the lists hold the
  pools themselves, whose contents the application changes by allocating. The factory's lock is
  the depth to which it is held. Log output and the status dump are not modelled.
\<close>

definition PJ_CACHING_POOL_ARRAY_SIZE :: nat where "PJ_CACHING_POOL_ARRAY_SIZE = 16"

definition pool_sizes :: "u32 list" where
  "pool_sizes = [256, 512, 1024, 2048, 4096, 8192, 12288, 16384,
                 20480, 24576, 28672, 32768, 40960, 49152, 57344, 65536]"

definition START_SIZE :: nat where "START_SIZE = 5"

record pj_caching_pool =
  cp_capacity :: u32
  cp_max_capacity :: u32
  cp_used_count :: u32
  cp_used_size :: u32
  cp_peak_used_size :: u32
  cp_free_list :: "pj_pool_t list list"
  cp_used_list :: "pj_pool_t list"
  cp_lock_depth :: int

definition pj_caching_pool_init :: "u32 \<Rightarrow> pj_caching_pool" where
  "pj_caching_pool_init max_capacity =
     \<lparr>cp_capacity = 0, cp_max_capacity = max_capacity, cp_used_count = 0, cp_used_size = 0,
      cp_peak_used_size = 0, cp_free_list = replicate PJ_CACHING_POOL_ARRAY_SIZE [],
      cp_used_list = [], cp_lock_depth = 0\<rparr>"

text \<open>Destroying every pool of a list, in order.\<close>

fun destroy_all :: "'f pj_pool_factory_policy \<Rightarrow> 'f \<Rightarrow> pj_pool_t list \<Rightarrow> 'f option" where
  "destroy_all pol f [] = Some f"
| "destroy_all pol f (p # ps) =
     (case pj_pool_destroy_int pol f p of None \<Rightarrow> None | Some f1 \<Rightarrow> destroy_all pol f1 ps)"

definition pj_caching_pool_destroy ::
  "'f pj_pool_factory_policy \<Rightarrow> 'f \<Rightarrow> pj_caching_pool \<Rightarrow> ('f \<times> pj_caching_pool) option" where
  "pj_caching_pool_destroy pol f cp =
     (case destroy_all pol f (concat (cp_free_list cp)) of
        None \<Rightarrow> None
      | Some f1 \<Rightarrow>
          (case destroy_all pol f1 (cp_used_list cp) of
             None \<Rightarrow> None
           | Some f2 \<Rightarrow>
               Some (f2, cp\<lparr>cp_free_list := replicate PJ_CACHING_POOL_ARRAY_SIZE [], cp_used_list := [],
                            cp_lock_depth := 0\<rparr>)))"

text \<open>The two searches of the size table; the downward one counts one more than the index.\<close>

fun idx_down :: "nat \<Rightarrow> u32 \<Rightarrow> nat" where
  "idx_down 0 n = 0"
| "idx_down (Suc k) n = (if pool_sizes ! k \<ge> n then idx_down k n else Suc k)"

function idx_up :: "nat \<Rightarrow> u32 \<Rightarrow> nat" where
  "idx_up i n = (if i < PJ_CACHING_POOL_ARRAY_SIZE \<and> pool_sizes ! i < n then idx_up (i + 1) n else i)"
  by pat_completeness auto
termination by (relation "measure (\<lambda>(i, n). PJ_CACHING_POOL_ARRAY_SIZE - i)") auto

declare idx_up.simps [simp del]

definition size_index :: "u32 \<Rightarrow> nat" where
  "size_index n = (if n \<le> pool_sizes ! START_SIZE then idx_down START_SIZE n else idx_up (START_SIZE + 1) n)"

definition cpool_create_pool ::
  "'f pj_pool_factory_policy \<Rightarrow> 'f \<Rightarrow> pj_caching_pool \<Rightarrow> u8 list option \<Rightarrow> u32 \<Rightarrow> u32 \<Rightarrow> u32 \<Rightarrow> nat option
     \<Rightarrow> pj_pool_t option \<times> 'f \<times> pj_caching_pool" where
  "cpool_create_pool pol f cp0 name initial_size increment_sz alignment callback =
     (let cp = cp0\<lparr>cp_lock_depth := cp_lock_depth cp0 + 1\<rparr>;
          cb = (case callback of None \<Rightarrow> fp_callback pol | Some c \<Rightarrow> c);
          idx = size_index initial_size;
          finish = (\<lambda>pool cp1. let pool1 = pool\<lparr>po_factory_data := idx\<rparr>
                     in (pool1, cp1\<lparr>cp_used_list := cp_used_list cp1 @ [pool1],
                                    cp_used_count := cp_used_count cp1 + 1,
                                    cp_lock_depth := cp_lock_depth cp1 - 1\<rparr>))
      in if idx = PJ_CACHING_POOL_ARRAY_SIZE \<or> cp_free_list cp ! idx = [] then
           let sz = (if idx < PJ_CACHING_POOL_ARRAY_SIZE then pool_sizes ! idx else initial_size)
           in (case pj_pool_create_int pol f name sz increment_sz alignment (Some cb) of
                 (None, f1) \<Rightarrow> (None, f1, cp\<lparr>cp_lock_depth := cp_lock_depth cp - 1\<rparr>)
               | (Some pool, f1) \<Rightarrow> (case finish pool cp of (p, cp1) \<Rightarrow> (Some p, f1, cp1)))
         else
           let pool = pj_pool_init_int pol (hd (cp_free_list cp ! idx)) name increment_sz alignment cb;
               cap = (if cp_capacity cp > pj_pool_get_capacity pool
                      then cp_capacity cp - pj_pool_get_capacity pool else 0);
               cp1 = cp\<lparr>cp_free_list := (cp_free_list cp)[idx := tl (cp_free_list cp ! idx)],
                        cp_capacity := cap\<rparr>
           in (case finish pool cp1 of (p, cp2) \<Rightarrow> (Some p, f, cp2)))"

text \<open>Releasing the pool at an address of the used list; \<^term>\<open>None\<close> for an address not in the list, where
  the C code corrupts the list, or a call through a missing \<^verbatim>\<open>block_free\<close>.\<close>

definition cpool_release_pool ::
  "'f pj_pool_factory_policy \<Rightarrow> 'f \<Rightarrow> pj_caching_pool \<Rightarrow> u32 \<Rightarrow> ('f \<times> pj_caching_pool) option" where
  "cpool_release_pool pol f cp0 addr =
     (case List.find (\<lambda>p. po_addr p = addr) (cp_used_list cp0) of
        None \<Rightarrow> None
      | Some pool \<Rightarrow>
          let cp = cp0\<lparr>cp_lock_depth := cp_lock_depth cp0 + 1,
                       cp_used_list := remove1 pool (cp_used_list cp0),
                       cp_used_count := cp_used_count cp0 - 1\<rparr>;
              unlocked = (\<lambda>c. c\<lparr>cp_lock_depth := cp_lock_depth c - 1\<rparr>);
              pool_capacity = pj_pool_get_capacity pool
          in if pool_capacity > pool_sizes ! (PJ_CACHING_POOL_ARRAY_SIZE - 1) \<or>
                cp_capacity cp + pool_capacity > cp_max_capacity cp
             then (case pj_pool_destroy_int pol f pool of
                     None \<Rightarrow> None | Some f1 \<Rightarrow> Some (f1, unlocked cp))
             else
               (case pj_pool_reset pol f pool of
                  None \<Rightarrow> None
                | Some (f1, pool1) \<Rightarrow>
                    let cap1 = pj_pool_get_capacity pool1; i = po_factory_data pool1
                    in if i \<ge> PJ_CACHING_POOL_ARRAY_SIZE
                       then (case pj_pool_destroy_int pol f1 pool1 of
                               None \<Rightarrow> None | Some f2 \<Rightarrow> Some (f2, unlocked cp))
                       else Some (f1, unlocked (cp\<lparr>cp_free_list :=
                                    (cp_free_list cp)[i := pool1 # cp_free_list cp ! i],
                                    cp_capacity := cp_capacity cp + cap1\<rparr>))))"

definition cpool_on_block_alloc :: "pj_caching_pool \<Rightarrow> u32 \<Rightarrow> bool \<times> pj_caching_pool" where
  "cpool_on_block_alloc cp sz =
     (let used = cp_used_size cp + sz
      in (True, cp\<lparr>cp_used_size := used,
                   cp_peak_used_size := (if used > cp_peak_used_size cp then used else cp_peak_used_size cp)\<rparr>))"

definition cpool_on_block_free :: "pj_caching_pool \<Rightarrow> u32 \<Rightarrow> pj_caching_pool" where
  "cpool_on_block_free cp sz = cp\<lparr>cp_used_size := cp_used_size cp - sz\<rparr>"

text \<open>An allocation by the application from a pool in use.\<close>

definition cpool_alloc ::
  "'f pj_pool_factory_policy \<Rightarrow> 'f \<Rightarrow> pj_caching_pool \<Rightarrow> nat \<Rightarrow> u32 \<Rightarrow> u32
     \<Rightarrow> u32 option \<times> 'f \<times> pj_caching_pool" where
  "cpool_alloc pol f cp k al n =
     (case pj_pool_aligned_alloc pol f (cp_used_list cp ! k) al n of
        (r, f1, pool1) \<Rightarrow> (r, f1, cp\<lparr>cp_used_list := (cp_used_list cp)[k := pool1]\<rparr>))"

end
