(* ===== verification/Pj_Caching_Spec.thy ===== *)
theory Pj_Caching_Spec
  imports Pj_Caching "HOL-Library.Multiset"
begin

text \<open>
  The caching pool factory: at every moment all pools it knows, in use or kept, own disjoint
  memory; a pool it hands out is empty and at least as large as asked; what it keeps never
  exceeds the configured maximum.
\<close>

section \<open>The size table\<close>

lemma pool_sizes_length [simp]: "length pool_sizes = 16"
  by (simp add: pool_sizes_def)

lemma pool_sizes_sorted: "sorted (map unat pool_sizes)"
  by (simp add: pool_sizes_def)

lemma idx_down_least:
  "sorted (map unat pool_sizes) \<Longrightarrow> k \<le> 16 \<Longrightarrow> (k < 16 \<longrightarrow> n \<le> pool_sizes ! k) \<Longrightarrow>
     idx_down k n \<le> k \<and> (idx_down k n < 16 \<longrightarrow> n \<le> pool_sizes ! idx_down k n) \<and>
     (\<forall>i < idx_down k n. pool_sizes ! i < n)"
proof (induction k n rule: idx_down.induct)
  case (2 k n)
  show ?case
  proof (cases "pool_sizes ! k \<ge> n")
    case True
    with 2 show ?thesis by auto
  next
    case False
    have "pool_sizes ! i < n" if "i < Suc k" for i
    proof -
      have "map unat pool_sizes ! i \<le> map unat pool_sizes ! k"
        using 2(2,3) that by (intro sorted_nth_mono) auto
      then show ?thesis using False that 2(3) by (simp add: word_less_nat_alt word_le_nat_alt)
    qed
    with 2 False show ?thesis by auto
  qed
qed simp

lemma idx_up_least:
  "(\<forall>i < k. pool_sizes ! i < n) \<Longrightarrow> k \<le> 16 \<Longrightarrow>
     k \<le> idx_up k n \<and> idx_up k n \<le> 16 \<and> (idx_up k n < 16 \<longrightarrow> n \<le> pool_sizes ! idx_up k n) \<and>
     (\<forall>i < idx_up k n. pool_sizes ! i < n)"
proof (induction k n rule: idx_up.induct)
  case (1 i n)
  show ?case
  proof (cases "i < PJ_CACHING_POOL_ARRAY_SIZE \<and> pool_sizes ! i < n")
    case True
    have "idx_up i n = idx_up (i + 1) n" using True by (subst idx_up.simps) simp
    moreover have "\<forall>j < i + 1. pool_sizes ! j < n" using True 1(2) by (auto simp: less_Suc_eq)
    ultimately show ?thesis using 1(1) [OF True] True by (auto simp: PJ_CACHING_POOL_ARRAY_SIZE_def)
  next
    case False
    then have "idx_up i n = i" by (subst idx_up.simps) (simp only: if_False)
    with False 1(2,3) show ?thesis by (auto simp: PJ_CACHING_POOL_ARRAY_SIZE_def)
  qed
qed

text \<open>The index is that of the least size that holds the request, or 16.\<close>

lemma size_index_least:
  "size_index n \<le> 16 \<and> (size_index n < 16 \<longrightarrow> n \<le> pool_sizes ! size_index n) \<and>
     (\<forall>i < size_index n. pool_sizes ! i < n)"
proof (cases "n \<le> pool_sizes ! START_SIZE")
  case True
  from idx_down_least [OF pool_sizes_sorted, of START_SIZE n] True show ?thesis
    by (simp add: size_index_def START_SIZE_def)
next
  case False
  have "pool_sizes ! i < n" if "i < 6" for i
  proof -
    have "map unat pool_sizes ! i \<le> map unat pool_sizes ! 5"
      using that by (intro sorted_nth_mono [OF pool_sizes_sorted]) auto
    then show ?thesis using False that by (simp add: START_SIZE_def word_less_nat_alt word_le_nat_alt)
  qed
  then have "\<forall>i < 6. pool_sizes ! i < n" by blast
  from idx_up_least [OF this] False show ?thesis by (simp add: size_index_def START_SIZE_def)
qed

lemma pool_sizes_bounds: "i < 16 \<Longrightarrow> 256 \<le> unat (pool_sizes ! i) \<and> unat (pool_sizes ! i) \<le> 65536"
proof -
  assume "i < 16"
  then have "pool_sizes ! i \<in> set pool_sizes" by simp
  moreover have "\<forall>s \<in> set pool_sizes. 256 \<le> unat s \<and> unat s \<le> 65536" by (simp add: pool_sizes_def)
  ultimately show ?thesis by blast
qed

section \<open>Sets of regions\<close>

lemma apart_append: "apart (xs @ ys) \<longleftrightarrow> apart xs \<and> apart ys \<and> (\<forall>x \<in> set xs. \<forall>y \<in> set ys. region x \<inter> region y = {})"
  by (induction xs) auto

lemma apart_perm: "mset xs = mset ys \<Longrightarrow> apart xs \<Longrightarrow> apart ys"
proof (induction xs arbitrary: ys)
  case (Cons x xs)
  have "x \<in> set ys" using mset_eq_setD [OF Cons.prems(1)] by auto
  then obtain us vs where ys: "ys = us @ x # vs" by (auto simp: in_set_conv_decomp)
  then have m: "mset xs = mset (us @ vs)" using Cons.prems(1) by simp
  have "apart (us @ vs)" using Cons.IH [OF m] Cons.prems(2) by simp
  moreover have "region x \<inter> region d = {}" if "d \<in> set us \<union> set vs" for d
    using Cons.prems(2) that mset_eq_setD [OF m] by auto
  ultimately show ?case unfolding ys apart_append by (auto simp: Int_commute)
qed simp

definition region_ok :: "u32 \<times> u32 \<Rightarrow> bool" where
  "region_ok r \<longleftrightarrow> 0 < unat (snd r) \<and> unat (fst r) + unat (snd r) < 2 ^ 32"

definition regions_ok :: "(u32 \<times> u32) list \<Rightarrow> bool" where
  "regions_ok rs \<longleftrightarrow> apart rs \<and> (\<forall>r \<in> set rs. region_ok r)"

lemma regions_distinct: "regions_ok rs \<Longrightarrow> distinct rs"
proof (induction rs)
  case (Cons r rs)
  have "region r \<noteq> {}" using Cons.prems by (auto simp: regions_ok_def region_ok_def region_def)
  then show ?case using Cons by (auto simp: regions_ok_def)
qed simp

lemma regions_ok_perm: "mset xs = mset ys \<Longrightarrow> regions_ok xs \<Longrightarrow> regions_ok ys"
  unfolding regions_ok_def using apart_perm mset_eq_setD by metis

lemma regions_total:
  assumes "regions_ok rs"
  shows "sum_list (map (\<lambda>r. unat (snd r)) rs) = card (\<Union>r \<in> set rs. region r)"
    "sum_list (map (\<lambda>r. unat (snd r)) rs) < 2 ^ 32"
proof -
  show c: "sum_list (map (\<lambda>r. unat (snd r)) rs) = card (\<Union>r \<in> set rs. region r)"
    using assms
  proof (induction rs)
    case (Cons r rs)
    have "region r \<inter> (\<Union>r \<in> set rs. region r) = {}" using Cons.prems by (auto simp: regions_ok_def)
    then have "card (\<Union>r \<in> set (r # rs). region r) = card (region r) + card (\<Union>r \<in> set rs. region r)"
      by (simp add: card_Un_disjoint region_def)
    with Cons show ?case by (simp add: regions_ok_def region_def)
  qed simp
  have "(\<Union>r \<in> set rs. region r) \<subseteq> {..<2 ^ 32 - 1}"
    using assms by (auto simp: regions_ok_def region_ok_def region_def)
  then have "card (\<Union>r \<in> set rs. region r) \<le> card {..<(2 :: nat) ^ 32 - 1}" by (intro card_mono) auto
  then show "sum_list (map (\<lambda>r. unat (snd r)) rs) < 2 ^ 32" using c by simp
qed

lemma sum_list_unat:
  "sum_list (map (\<lambda>r. unat (snd r)) rs) < 2 ^ 32 \<Longrightarrow>
     unat (sum_list (map snd rs) :: u32) = sum_list (map (\<lambda>r. unat (snd r)) rs)"
  by (induction rs) (auto simp: unat_word_ariths)

lemma owned_last: "pool_ok pool \<Longrightarrow> owned pool = butlast (owned pool) @ [last (owned pool)]"
  by (simp add: owned_def)

lemma owned_set: "set (owned pool) = insert (last (owned pool)) (set (butlast (owned pool)))"
  by (simp add: owned_def butlast_append)

lemma capacity_regions:
  assumes "pool_ok pool" "regions_ok (owned pool)"
  shows "unat (snd (last (owned pool))) \<le> unat (po_capacity pool)"
proof -
  have "unat (po_capacity pool) = sum_list (map (\<lambda>r. unat (snd r)) (owned pool))"
    using assms sum_list_unat [OF regions_total(2) [OF assms(2)]] by (simp add: pool_ok_def)
  also have "\<dots> = sum_list (map (\<lambda>r. unat (snd r)) (butlast (owned pool))) + unat (snd (last (owned pool)))"
    by (subst owned_last [OF assms(1)]) simp
  finally show ?thesis by simp
qed

section \<open>The invariant of the factory\<close>

definition all_pools :: "pj_caching_pool \<Rightarrow> pj_pool_t list" where
  "all_pools cp = concat (cp_free_list cp) @ cp_used_list cp"

definition all_regions :: "pj_caching_pool \<Rightarrow> (u32 \<times> u32) list" where
  "all_regions cp = concat (map owned (all_pools cp))"

definition kept :: "pj_caching_pool \<Rightarrow> nat" where
  "kept cp = sum_list (map (\<lambda>p. unat (po_capacity p)) (concat (cp_free_list cp)))"

definition free_pool :: "nat \<Rightarrow> pj_pool_t \<Rightarrow> bool" where
  "free_pool i p \<longleftrightarrow> pool_ok p \<and> pool_used p = {} \<and> owned p = [(po_addr p, pool_sizes ! i)]"

definition used_pool :: "pj_pool_t \<Rightarrow> bool" where
  "used_pool p \<longleftrightarrow> pool_ok p \<and> po_factory_data p \<le> 16 \<and>
     (po_factory_data p < 16 \<longrightarrow> snd (last (owned p)) = pool_sizes ! po_factory_data p)"

definition cp_inv :: "('f \<Rightarrow> (u32 \<times> u32) set \<Rightarrow> bool) \<Rightarrow> 'f \<Rightarrow> pj_caching_pool \<Rightarrow> bool" where
  "cp_inv safe f cp \<longleftrightarrow> length (cp_free_list cp) = 16 \<and> regions_ok (all_regions cp) \<and>
     safe f (set (all_regions cp)) \<and> (\<forall>i < 16. \<forall>p \<in> set (cp_free_list cp ! i). free_pool i p) \<and>
     (\<forall>p \<in> set (cp_used_list cp). used_pool p) \<and>
     unat (cp_capacity cp) = kept cp \<and> cp_capacity cp \<le> cp_max_capacity cp"

lemma mset_concat_owned: "mset (concat (map owned ps)) = (\<Sum>p \<in># mset ps. mset (owned p))"
  by (induction ps) auto

lemma mset_map_sum: "sum_list (map (\<lambda>x. {#f x#}) xs) = mset (map f xs)"
  by (induction xs) auto

lemma all_regions_perm:
  "mset (map owned (all_pools cp)) = mset (map owned (all_pools cp')) \<Longrightarrow>
     mset (all_regions cp) = mset (all_regions cp')"
  unfolding all_regions_def
proof -
  have "mset (concat xs) = (\<Sum>x \<in># mset xs. mset x)" for xs :: "(u32 \<times> u32) list list" by (induction xs) auto
  then show "mset (map owned (all_pools cp)) = mset (map owned (all_pools cp')) \<Longrightarrow>
     mset (concat (map owned (all_pools cp))) = mset (concat (map owned (all_pools cp')))" by simp
qed

lemma free_pool_capacity: "free_pool i p \<Longrightarrow> po_capacity p = pool_sizes ! i"
  by (simp add: free_pool_def pool_ok_def)

lemma init_int_owned [simp]:
  "owned (pj_pool_init_int pol p name inc al cb) = owned p"
  "pool_used (pj_pool_init_int pol p name inc al cb) = pool_used p"
  "po_capacity (pj_pool_init_int pol p name inc al cb) = po_capacity p"
  "po_addr (pj_pool_init_int pol p name inc al cb) = po_addr p"
  by (simp_all add: pj_pool_init_int_def owned_def pool_used_def)

lemma factory_data_owned [simp]:
  "owned (p\<lparr>po_factory_data := i\<rparr>) = owned p" "pool_used (p\<lparr>po_factory_data := i\<rparr>) = pool_used p"
  "pool_ok (p\<lparr>po_factory_data := i\<rparr>) = pool_ok p"
  by (simp_all add: owned_def pool_used_def pool_ok_def)

lemma init_int_ok:
  assumes "pool_ok p" "al = 0 \<or> PJ_IS_POWER_OF_TWO al"
  shows "pool_ok (pj_pool_init_int pol p name inc al cb)"
proof -
  have "PJ_IS_POWER_OF_TWO PJ_POOL_ALIGNMENT" by code_simp
  then show ?thesis using assms init_int_owned(1) [of pol p name inc al cb]
    by (auto simp: pool_ok_def pj_pool_init_int_def)
qed

definition handed_out :: "u32 \<Rightarrow> pj_pool_t \<Rightarrow> bool" where
  "handed_out n p \<longleftrightarrow> used_pool p \<and> pool_used p = {} \<and> (\<exists>sz. owned p = [(po_addr p, sz)] \<and> n \<le> sz \<and> po_capacity p = sz)"

context block_source
begin

lemma create_new_ok:
  assumes inv: "cp_inv safe f cp" and idx: "idx = size_index n"
    and e: "idx = 16 \<or> cp_free_list cp ! idx = []"
    and c: "cpool_create_pool pol f cp name n inc al cb = (r, f', cp')"
  shows "cp_inv safe f' cp'" "cp_lock_depth cp' = cp_lock_depth cp"
    "r = Some p \<Longrightarrow> handed_out n p \<and> cp_used_list cp' = cp_used_list cp @ [p]"
proof -
  note I = size_index_least [of n, folded idx]
  define sz where "sz = (if idx < 16 then pool_sizes ! idx else n)"
  let ?cb = "Some (case cb of None \<Rightarrow> fp_callback pol | Some c \<Rightarrow> c)"
  obtain q f1 where q: "pj_pool_create_int pol f name sz inc al ?cb = (q, f1)" by fastforce
  have safe: "safe f (set (all_regions cp))" using inv by (simp add: cp_inv_def)
  have szn: "n \<le> sz" using I by (simp add: sz_def)
  note code = cpool_create_pool_def Let_def PJ_CACHING_POOL_ARRAY_SIZE_def
  have "cp_inv safe f' cp' \<and> cp_lock_depth cp' = cp_lock_depth cp \<and>
    (r = Some p \<longrightarrow> handed_out n p \<and> cp_used_list cp' = cp_used_list cp @ [p])"
  proof (cases q)
    case None
    have r: "r = None" "f' = f1" "cp' = cp" using c q e None by (auto simp: code sz_def idx [symmetric])
    have "safe f1 (set (all_regions cp))"
      using q None alloc_none [OF safe] safe
      by (auto simp: pj_pool_create_int_def Let_def split: if_splits prod.splits option.splits)
    with inv r show ?thesis by (simp add: cp_inv_def)
  next
    case (Some pool)
    note C = create_int_ok [OF safe q [unfolded Some]]
    define p1 where "p1 = pool\<lparr>po_factory_data := idx\<rparr>"
    have r: "r = Some p1" "f' = f1" "cp' = cp\<lparr>cp_used_list := cp_used_list cp @ [p1], cp_used_count := cp_used_count cp + 1\<rparr>"
      using c q e Some by (auto simp: code sz_def idx [symmetric] p1_def)
    have ar: "all_regions cp' = all_regions cp @ [(po_addr pool, sz)]"
      by (simp add: all_regions_def all_pools_def r(3) p1_def C(4))
    have up: "used_pool p1" using C(1,4) I by (simp add: used_pool_def p1_def sz_def)
    have "regions_ok (all_regions cp')"
      using inv C(6,9,10) unfolding ar by (auto simp: cp_inv_def regions_ok_def apart_append region_ok_def)
    then have "cp_inv safe f' cp'" using inv up C(5)
      by (simp add: cp_inv_def ar r(2)) (simp add: r(3) kept_def)
    moreover have "cp_lock_depth cp' = cp_lock_depth cp" by (simp add: r(3))
    moreover have "r = Some p \<Longrightarrow> handed_out n p \<and> cp_used_list cp' = cp_used_list cp @ [p]"
      using up C(2-4) szn by (auto simp: r handed_out_def p1_def)
    ultimately show ?thesis by blast
  qed
  then show "cp_inv safe f' cp'" "cp_lock_depth cp' = cp_lock_depth cp"
    "r = Some p \<Longrightarrow> handed_out n p \<and> cp_used_list cp' = cp_used_list cp @ [p]" by blast+
qed

lemma create_reuse_ok:
  assumes inv: "cp_inv safe f cp" and idx: "idx = size_index n" and al: "al = 0 \<or> PJ_IS_POWER_OF_TWO al"
    and e: "idx \<noteq> 16" "cp_free_list cp ! idx \<noteq> []"
    and c: "cpool_create_pool pol f cp name n inc al cb = (r, f', cp')"
  shows "cp_inv safe f' cp'" "cp_lock_depth cp' = cp_lock_depth cp"
    "\<exists>p. r = Some p \<and> handed_out n p \<and> cp_used_list cp' = cp_used_list cp @ [p]"
proof -
  note I = size_index_least [of n, folded idx]
  have i16: "idx < 16" using I e(1) by simp
  obtain p0 ps where p0: "cp_free_list cp ! idx = p0 # ps" using e(2) by (auto simp: neq_Nil_conv)
  have len: "length (cp_free_list cp) = 16" using inv by (simp add: cp_inv_def)
  have fp: "free_pool idx p0" using inv i16 p0 by (simp add: cp_inv_def)
  then have ok0: "pool_ok p0" by (simp add: free_pool_def)
  define p1 where "p1 = (pj_pool_init_int pol p0 name inc al (case cb of None \<Rightarrow> fp_callback pol | Some c \<Rightarrow> c))
    \<lparr>po_factory_data := idx\<rparr>"
  define cap where "cap = (if cp_capacity cp > po_capacity p0 then cp_capacity cp - po_capacity p0 else 0)"
  have r: "r = Some p1" "f' = f" "cp' = cp\<lparr>cp_free_list := (cp_free_list cp)[idx := ps], cp_capacity := cap,
      cp_used_list := cp_used_list cp @ [p1], cp_used_count := cp_used_count cp + 1\<rparr>"
    using c e p0 by (auto simp: cpool_create_pool_def Let_def PJ_CACHING_POOL_ARRAY_SIZE_def idx [symmetric] p1_def cap_def
        pj_pool_get_capacity_def)
  have ow: "owned p1 = owned p0" "pool_used p1 = pool_used p0" "pool_ok p1" "po_addr p1 = po_addr p0"
    "po_capacity p1 = po_capacity p0" "po_factory_data p1 = idx"
    using init_int_ok [OF ok0 al] by (simp_all add: p1_def)
  have up: "used_pool p1" using ow fp i16 by (simp add: used_pool_def free_pool_def)
  have "mset (map owned (concat ((cp_free_list cp)[idx := ps]))) + mset (map owned (p0 # ps)) =
      mset (map owned (concat (cp_free_list cp))) + mset (map owned ps)"
    using sum_concat_update [of idx "cp_free_list cp" "\<lambda>p. {#owned p#}" ps] len i16 p0 by (simp add: mset_map_sum)
  then have "mset (map owned (all_pools cp')) = mset (map owned (all_pools cp))"
    by (simp add: all_pools_def r(3) ow)
  then have perm: "mset (all_regions cp') = mset (all_regions cp)" by (rule all_regions_perm)
  have kp: "kept cp' + unat (po_capacity p0) = kept cp"
    using sum_concat_update [of idx "cp_free_list cp" "\<lambda>p. unat (po_capacity p)" ps] len i16 p0
    by (simp add: kept_def r(3))
  have uc: "unat cap = kept cp'" "cap \<le> cp_capacity cp"
  proof -
    have k: "unat (cp_capacity cp) = kept cp" using inv by (simp add: cp_inv_def)
    show "unat cap = kept cp'" using k kp by (auto simp: cap_def unat_sub word_less_nat_alt word_le_nat_alt)
    then show "cap \<le> cp_capacity cp" using k kp by (simp add: word_le_nat_alt)
  qed
  have cm: "cap \<le> cp_max_capacity cp" using uc(2) inv by (simp add: cp_inv_def order_trans)
  have "free_pool i p" if "i < 16" "p \<in> set (cp_free_list cp' ! i)" for i p
  proof -
    have "p \<in> set (cp_free_list cp ! i)" using that p0 len by (cases "i = idx") (auto simp: r(3))
    with inv that(1) show ?thesis by (simp add: cp_inv_def)
  qed
  moreover have "regions_ok (all_regions cp')" "set (all_regions cp') = set (all_regions cp)"
    using inv regions_ok_perm [OF perm [symmetric]] mset_eq_setD [OF perm] by (simp_all add: cp_inv_def)
  ultimately show "cp_inv safe f' cp'" using inv up uc len
    by (simp add: cp_inv_def r(2)) (auto simp: r(3) uc(1) cm)
  show "cp_lock_depth cp' = cp_lock_depth cp" by (simp add: r(3))
  show "\<exists>p. r = Some p \<and> handed_out n p \<and> cp_used_list cp' = cp_used_list cp @ [p]"
    using up ow fp I i16 free_pool_capacity [OF fp] by (auto simp: r handed_out_def free_pool_def)
qed

lemma destroy_ok:
  assumes ok: "pool_ok pool" and safe: "safe f R" and fr: "fp_block_free pol = Some fr"
  obtains f' where "pj_pool_destroy_int pol f pool = Some f'" "safe f' (R - set (owned pool))"
proof -
  have "\<exists>f'. free_blocks pol f bs = Some f'" for f bs by (induction bs arbitrary: f) (auto simp: fr)
  then obtain f0 where f0: "free_blocks pol f (rev (butlast (po_blocks pool))) = Some f0" by blast
  obtain f1 pool1 where r: "reset_pool pol f pool = Some (f1, pool1)"
    by (cases "po_blocks pool = []") (simp_all add: reset_pool_def Let_def f0)
  note R = reset_ok [OF ok safe r]
  have lo: "last (owned pool) = (po_addr pool1, pb_end (hd (po_blocks pool1)) - po_addr pool1)"
    using R(1,3) by (cases "po_blocks pool1") (auto simp: owned_def pool_ok_def split: if_splits)
  let ?f2 = "fr f1 (fst (last (owned pool))) (snd (last (owned pool)))"
  have "safe ?f2 (R - set (butlast (owned pool)) - {last (owned pool)})" by (rule free_keeps [OF R(5) fr])
  moreover have "R - set (butlast (owned pool)) - {last (owned pool)} = R - set (owned pool)"
    using owned_set [of pool] by auto
  ultimately have "safe ?f2 (R - set (owned pool))" by simp
  moreover have "pj_pool_destroy_int pol f pool = Some ?f2"
    using r fr lo by (simp add: pj_pool_destroy_int_def Let_def)
  ultimately show thesis using that by blast
qed

text \<open>Taking a pool out of the used list.\<close>

lemma remove_used:
  assumes inv: "cp_inv safe f cp" and p: "p \<in> set (cp_used_list cp)"
    and rest: "rest = concat (map owned (concat (cp_free_list cp) @ remove1 p (cp_used_list cp)))"
  shows "regions_ok (owned p @ rest)" "set (all_regions cp) = set (owned p) \<union> set rest"
    "set (owned p) \<inter> set rest = {}" "used_pool p"
proof -
  have m: "mset (owned p @ rest) = mset (all_regions cp)"
  proof -
    obtain M where M: "mset (cp_used_list cp) = add_mset p M" using p multi_member_split by (metis set_mset_mset)
    have "mset (remove1 p (cp_used_list cp)) = M" using M by simp
    then show ?thesis by (simp add: rest all_regions_def all_pools_def mset_concat_owned M ac_simps)
  qed
  show r: "regions_ok (owned p @ rest)" using regions_ok_perm [OF m [symmetric]] inv by (simp add: cp_inv_def)
  show "set (all_regions cp) = set (owned p) \<union> set rest" using mset_eq_setD [OF m] by simp
  show "set (owned p) \<inter> set rest = {}" using regions_distinct [OF r] by simp
  show "used_pool p" using inv p by (simp add: cp_inv_def)
qed

text \<open>The factory without that pool, once its memory has gone back to the source.\<close>

lemma without_used:
  assumes inv: "cp_inv safe f cp" and p: "p \<in> set (cp_used_list cp)"
    and rest: "rest = concat (map owned (concat (cp_free_list cp) @ remove1 p (cp_used_list cp)))"
    and safe': "safe f' (set rest)"
    and cp': "cp_free_list cp' = cp_free_list cp" "cp_used_list cp' = remove1 p (cp_used_list cp)"
      "cp_capacity cp' = cp_capacity cp" "cp_max_capacity cp' = cp_max_capacity cp"
  shows "cp_inv safe f' cp'"
proof -
  note R = remove_used [OF inv p rest]
  have ar: "all_regions cp' = rest" by (simp add: all_regions_def all_pools_def cp' rest)
  have "regions_ok rest" using R(1) by (auto simp: regions_ok_def apart_append)
  then show ?thesis using inv safe' set_remove1_subset [of p "cp_used_list cp"]
    unfolding cp_inv_def ar by (auto simp: cp' kept_def)
qed

lemma reset_kept:
  assumes "reset_pool pol f pool = Some (f', pool')" "pool_ok pool"
  shows "po_factory_data pool' = po_factory_data pool" "po_addr pool' = po_addr pool"
  using assms by (auto simp: reset_pool_def Let_def pool_ok_def split: option.splits)

text \<open>The factory with that pool moved, reset, to a free list.\<close>

lemma recycled:
  assumes inv: "cp_inv safe f cp" and p: "p \<in> set (cp_used_list cp)"
    and i: "i = po_factory_data p" "i < 16" and r: "reset_pool pol f p = Some (f', p1)"
    and room: "unat (cp_capacity cp) + unat (po_capacity p) \<le> unat (cp_max_capacity cp)"
    and cp': "cp_free_list cp' = (cp_free_list cp)[i := p1 # cp_free_list cp ! i]"
      "cp_used_list cp' = remove1 p (cp_used_list cp)"
      "cp_capacity cp' = cp_capacity cp + po_capacity p1" "cp_max_capacity cp' = cp_max_capacity cp"
  shows "cp_inv safe f' cp'"
proof -
  define rest where "rest = concat (map owned (concat (cp_free_list cp) @ remove1 p (cp_used_list cp)))"
  note U = remove_used [OF inv p rest_def]
  have pok: "pool_ok p" using U(4) by (simp add: used_pool_def)
  have safe: "safe f (set (all_regions cp))" using inv by (simp add: cp_inv_def)
  note R = reset_ok [OF pok safe r]
  note K = reset_kept [OF r pok]
  have len: "length (cp_free_list cp) = 16" using inv by (simp add: cp_inv_def)
  let ?l = "last (owned p)"
  have lo: "?l = (po_addr p, pool_sizes ! i)" using U(4) i by (simp add: used_pool_def) (simp add: owned_def)
  have fp: "free_pool i p1" using R(1-3) K lo by (simp add: free_pool_def)
  have rp: "regions_ok (owned p)" using U(1) by (simp add: regions_ok_def apart_append)
  have "unat (po_capacity p1) \<le> unat (po_capacity p)" using capacity_regions [OF pok rp] R(4) by simp
  then have cap: "unat (cp_capacity cp + po_capacity p1) = unat (cp_capacity cp) + unat (po_capacity p1)"
    "unat (cp_capacity cp) + unat (po_capacity p1) \<le> unat (cp_max_capacity cp)"
    using room unsigned_less [of "cp_max_capacity cp", where ?'a = nat] by (simp_all add: unat_word_ariths)
  have kp: "kept cp' = kept cp + unat (po_capacity p1)"
    using sum_concat_update [of i "cp_free_list cp" "\<lambda>p. unat (po_capacity p)" "p1 # cp_free_list cp ! i"] len i
    by (simp add: kept_def cp')
  have m: "mset (all_regions cp') = mset (?l # rest)"
  proof -
    have "mset (concat ((cp_free_list cp)[i := p1 # cp_free_list cp ! i])) = add_mset p1 (mset (concat (cp_free_list cp)))"
      using sum_concat_update [of i "cp_free_list cp" "\<lambda>p. {#p#}" "p1 # cp_free_list cp ! i"] len i
      by (simp add: mset_map_sum)
    then show ?thesis using R(3) by (simp add: all_regions_def all_pools_def cp' rest_def mset_concat_owned ac_simps)
  qed
  have lin: "?l \<in> set (owned p)" by (simp add: owned_def)
  have "regions_ok (?l # rest)"
    using U(1) lin by (auto simp: regions_ok_def apart_append)
  then have ro: "regions_ok (all_regions cp')" using regions_ok_perm [OF m [symmetric]] by simp
  have "distinct (owned p)" using regions_distinct [OF rp] .
  then have "?l \<notin> set (butlast (owned p))" by (subst (asm) owned_last [OF pok]) simp
  moreover have "set (butlast (owned p)) \<subseteq> set (owned p)" by (auto dest: in_set_butlastD)
  ultimately have "set (all_regions cp') \<subseteq> set (all_regions cp) - set (butlast (owned p))"
    using mset_eq_setD [OF m] U(2,3) lin by auto
  then have sf: "safe f' (set (all_regions cp'))" by (rule shrink [OF R(5)])
  have "free_pool j q" if "j < 16" "q \<in> set (cp_free_list cp' ! j)" for j q
    using that fp inv len by (cases "j = i") (auto simp: cp' cp_inv_def)
  then show ?thesis using inv ro sf kp cap len set_remove1_subset [of p "cp_used_list cp"]
    by (auto simp: cp_inv_def cp' word_le_nat_alt)
qed

lemma release_ok:
  assumes inv: "cp_inv safe f cp" and fr: "fp_block_free pol = Some fr"
    and mx: "unat (cp_max_capacity cp) + 65536 < 2 ^ 32"
    and a: "addr \<in> po_addr ` set (cp_used_list cp)"
  shows "\<exists>f' cp' p. cpool_release_pool pol f cp addr = Some (f', cp') \<and> cp_inv safe f' cp' \<and>
    cp_lock_depth cp' = cp_lock_depth cp \<and> p \<in> set (cp_used_list cp) \<and> po_addr p = addr \<and>
    cp_used_list cp' = remove1 p (cp_used_list cp) \<and> cp_max_capacity cp' = cp_max_capacity cp"
proof -
  obtain p where fd: "List.find (\<lambda>p. po_addr p = addr) (cp_used_list cp) = Some p"
    using a by (cases "List.find (\<lambda>p. po_addr p = addr) (cp_used_list cp)") (auto simp: find_None_iff)
  then have p: "p \<in> set (cp_used_list cp)" "po_addr p = addr" by (auto simp: find_Some_iff)
  define rest where "rest = concat (map owned (concat (cp_free_list cp) @ remove1 p (cp_used_list cp)))"
  note U = remove_used [OF inv p(1) rest_def]
  have pok: "pool_ok p" and safe: "safe f (set (all_regions cp))"
    using U(4) inv by (simp_all add: used_pool_def cp_inv_def)
  let ?cp1 = "cp\<lparr>cp_used_list := remove1 p (cp_used_list cp), cp_used_count := cp_used_count cp - 1\<rparr>"
  note code = cpool_release_pool_def fd Let_def pj_pool_get_capacity_def pj_pool_reset_def
  have gone: ?thesis if "cpool_release_pool pol f cp addr = Some (f', ?cp1)" "safe f' (set rest)" for f'
    using that p without_used [OF inv p(1) rest_def that(2), of ?cp1] by auto
  show ?thesis
  proof (cases "po_capacity p > pool_sizes ! 15 \<or> cp_capacity cp + po_capacity p > cp_max_capacity cp")
    case True
    obtain f' where d: "pj_pool_destroy_int pol f p = Some f'" "safe f' (set (all_regions cp) - set (owned p))"
      by (rule destroy_ok [OF pok safe fr])
    have "cpool_release_pool pol f cp addr = Some (f', ?cp1)"
      using True d(1) by (auto simp: code PJ_CACHING_POOL_ARRAY_SIZE_def)
    then show ?thesis by (rule gone) (use d(2) U(2,3) in \<open>auto intro: shrink\<close>)
  next
    case small: False
    obtain f0 where "pj_pool_destroy_int pol f p = Some f0" by (rule destroy_ok [OF pok safe fr])
    then obtain f1 p1 where r: "reset_pool pol f p = Some (f1, p1)"
      by (auto simp: pj_pool_destroy_int_def split: option.splits)
    note R = reset_ok [OF pok safe r]
    note K = reset_kept [OF r pok]
    show ?thesis
    proof (cases "po_factory_data p \<ge> 16")
      case True
      obtain f2 where d: "pj_pool_destroy_int pol f1 p1 = Some f2"
        "safe f2 (set (all_regions cp) - set (butlast (owned p)) - set (owned p1))"
        by (rule destroy_ok [OF R(1) R(5) fr])
      have "cpool_release_pool pol f cp addr = Some (f2, ?cp1)"
        using small r True K d(1) by (auto simp: code PJ_CACHING_POOL_ARRAY_SIZE_def)
      moreover have "set rest \<subseteq> set (all_regions cp) - set (butlast (owned p)) - set (owned p1)"
      proof -
        have "set (butlast (owned p)) \<union> set (owned p1) = set (owned p)"
          using R(3) owned_set [of p] by auto
        with U(2,3) show ?thesis by blast
      qed
      ultimately show ?thesis using gone shrink [OF d(2)] by blast
    next
      case False
      let ?i = "po_factory_data p"
      let ?cp2 = "?cp1\<lparr>cp_free_list := (cp_free_list cp)[?i := p1 # cp_free_list cp ! ?i],
        cp_capacity := cp_capacity cp + po_capacity p1\<rparr>"
      have c: "cpool_release_pool pol f cp addr = Some (f1, ?cp2)"
        using small r False K by (auto simp: code PJ_CACHING_POOL_ARRAY_SIZE_def)
      have le: "unat (po_capacity p) \<le> 65536" "unat (cp_capacity cp) \<le> unat (cp_max_capacity cp)"
        using small pool_sizes_bounds [of 15] inv by (auto simp: word_less_nat_alt word_le_nat_alt cp_inv_def)
      then have "unat (cp_capacity cp + po_capacity p) = unat (cp_capacity cp) + unat (po_capacity p)"
        using mx by (simp add: unat_word_ariths)
      then have room: "unat (cp_capacity cp) + unat (po_capacity p) \<le> unat (cp_max_capacity cp)"
        using small by (simp add: word_less_nat_alt)
      have "cp_inv safe f1 ?cp2" by (rule recycled [OF inv p(1) refl _ r room]) (use False in simp_all)
      with c p show ?thesis by auto
    qed
  qed
qed

lemma used_alloc_ok:
  assumes inv: "cp_inv safe f cp" and k: "k < length (cp_used_list cp)"
    and al: "al \<noteq> 0 \<Longrightarrow> PJ_IS_POWER_OF_TWO al"
    and fit: "fits (cp_used_list cp ! k) (if al = 0 then po_alignment (cp_used_list cp ! k) else al) n"
    and c: "cpool_alloc pol f cp k al n = (r, f', cp')"
  shows "cp_inv safe f' cp'"
proof -
  let ?p = "cp_used_list cp ! k"
  obtain f1 p1 where a: "pj_pool_aligned_alloc pol f ?p al n = (r, f', p1)"
    and cp': "cp' = cp\<lparr>cp_used_list := (cp_used_list cp)[k := p1]\<rparr>"
    using c by (auto simp: cpool_alloc_def split: prod.splits)
  have pin: "?p \<in> set (cp_used_list cp)" using k by simp
  have up: "used_pool ?p" "pool_ok ?p" using inv pin by (auto simp: cp_inv_def used_pool_def)
  have own: "set (owned ?p) \<subseteq> set (all_regions cp)" using pin by (auto simp: all_regions_def all_pools_def)
  have safe: "safe f (set (all_regions cp))" using inv by (simp add: cp_inv_def)
  note A = aligned_alloc_ok [OF up(2) safe own al refl fit a]
  have fd: "po_factory_data p1 = po_factory_data ?p"
    using a by (auto simp: pj_pool_aligned_alloc_def allocate_find_eq pj_pool_create_block_def Let_def
        split: prod.splits option.splits if_splits)
  have ok1: "pool_ok p1" using A(1) by (simp add: alloc_result_def)
  have lst: "last (owned p1) = last (owned ?p)" using A(4) by (auto simp: owned_def)
  have up1: "used_pool p1" using up ok1 fd lst by (simp add: used_pool_def)
  define rest where "rest = concat (map owned (concat (cp_free_list cp) @ take k (cp_used_list cp) @ drop (Suc k) (cp_used_list cp)))"
  have m: "mset (all_regions cp) = mset (owned ?p @ rest)"
  proof -
    have "mset (cp_used_list cp) = add_mset ?p (mset (take k (cp_used_list cp)) + mset (drop (Suc k) (cp_used_list cp)))"
      by (subst (1) id_take_nth_drop [OF k]) simp
    then show ?thesis by (simp add: rest_def all_regions_def all_pools_def mset_concat_owned ac_simps)
  qed
  have m1: "mset (all_regions cp') = mset (owned p1 @ rest)"
    using k by (simp add: rest_def all_regions_def all_pools_def mset_concat_owned cp' upd_conv_take_nth_drop ac_simps)
  have r0: "regions_ok (owned ?p @ rest)" using regions_ok_perm [OF m] inv by (simp add: cp_inv_def)
  have "regions_ok (owned p1 @ rest)"
  proof (cases "owned p1 = owned ?p")
    case False
    then obtain x where x: "owned p1 = x # owned ?p" "20 \<le> unat (snd x)" "unat (fst x) + unat (snd x) < 2 ^ 32"
      "\<forall>y \<in> set (all_regions cp). region y \<inter> region x = {}" using A(4) by auto
    have "\<forall>y \<in> set (owned ?p @ rest). region x \<inter> region y = {}"
      using x(4) mset_eq_setD [OF m] by (simp add: Int_commute)
    with r0 x show ?thesis by (simp add: regions_ok_def region_ok_def)
  qed (use r0 in simp)
  then have ro: "regions_ok (all_regions cp')" using regions_ok_perm [OF m1 [symmetric]] by simp
  have "set (all_regions cp') \<subseteq> set (all_regions cp) \<union> set (owned p1)"
    using mset_eq_setD [OF m1] mset_eq_setD [OF m] by auto
  then have sf: "safe f' (set (all_regions cp'))" using shrink [OF A(2)] by blast
  show ?thesis using inv ro sf up1 set_update_subset_insert [of "cp_used_list cp" k p1]
    by (auto simp: cp_inv_def) (auto simp: cp' kept_def)
qed

lemma init_inv: "safe f {} \<Longrightarrow> cp_inv safe f (pj_caching_pool_init mx)"
  by (simp add: cp_inv_def pj_caching_pool_init_def PJ_CACHING_POOL_ARRAY_SIZE_def all_regions_def all_pools_def
      regions_ok_def kept_def concat_replicate_trivial)

end

end
