(* ===== verification/Pj_Caching_Props.thy ===== *)
theory Pj_Caching_Props
  imports Pj_Caching_Spec
begin

text \<open>
  Sequences of operations on a caching pool factory, and the properties of the component.
\<close>

section \<open>Clients\<close>

datatype cp_op = Create_Op u32 u32 u32 | Alloc_Op nat u32 u32 | Release_Op nat

text \<open>A client creates pools, allocates from the pools in use and releases them, all by position in the
  used list; requests with an alignment that is no power of two or with sizes that wrap are
  left out.\<close>

fun cp_run ::
  "'f pj_pool_factory_policy \<Rightarrow> cp_op list \<Rightarrow> 'f \<Rightarrow> pj_caching_pool \<Rightarrow> ('f \<times> pj_caching_pool) option" where
  "cp_run pol [] f cp = Some (f, cp)"
| "cp_run pol (Create_Op n inc al # xs) f cp =
     (if al = 0 \<or> PJ_IS_POWER_OF_TWO al
      then (case cpool_create_pool pol f cp None n inc al None of (r, f1, cp1) \<Rightarrow> cp_run pol xs f1 cp1)
      else cp_run pol xs f cp)"
| "cp_run pol (Alloc_Op k al n # xs) f cp =
     (if k < length (cp_used_list cp) \<and> (al = 0 \<or> PJ_IS_POWER_OF_TWO al) \<and>
         fits (cp_used_list cp ! k) (if al = 0 then po_alignment (cp_used_list cp ! k) else al) n
      then (case cpool_alloc pol f cp k al n of (r, f1, cp1) \<Rightarrow> cp_run pol xs f1 cp1)
      else cp_run pol xs f cp)"
| "cp_run pol (Release_Op k # xs) f cp =
     (if k < length (cp_used_list cp)
      then (case cpool_release_pool pol f cp (po_addr (cp_used_list cp ! k)) of
              None \<Rightarrow> None | Some (f1, cp1) \<Rightarrow> cp_run pol xs f1 cp1)
      else cp_run pol xs f cp)"

lemma create_max [simp]:
  "cpool_create_pool pol f cp name n inc al cb = (r, f', cp') \<Longrightarrow> cp_max_capacity cp' = cp_max_capacity cp"
  by (auto simp: cpool_create_pool_def Let_def split: if_splits prod.splits option.splits)

lemma alloc_frame:
  "cpool_alloc pol f cp k al n = (r, f', cp') \<Longrightarrow>
     cp_max_capacity cp' = cp_max_capacity cp \<and> cp_lock_depth cp' = cp_lock_depth cp"
  by (auto simp: cpool_alloc_def split: prod.splits)

context block_source
begin

lemma create_ok_both:
  assumes inv: "cp_inv safe f cp" and al: "al = 0 \<or> PJ_IS_POWER_OF_TWO al"
    and c: "cpool_create_pool pol f cp name n inc al cb = (r, f', cp')"
  shows "cp_inv safe f' cp'" "cp_lock_depth cp' = cp_lock_depth cp"
    "r = Some p \<Longrightarrow> handed_out n p \<and> cp_used_list cp' = cp_used_list cp @ [p]"
  using create_new_ok [OF inv refl _ c] create_reuse_ok [OF inv refl al _ _ c] by (metis option.inject)+

lemma cp_run_ok:
  assumes fr: "fp_block_free pol = Some fr"
  shows "cp_inv safe f cp \<Longrightarrow> unat (cp_max_capacity cp) + 65536 < 2 ^ 32 \<Longrightarrow>
    \<exists>f' cp'. cp_run pol xs f cp = Some (f', cp') \<and> cp_inv safe f' cp' \<and>
      cp_max_capacity cp' = cp_max_capacity cp \<and> cp_lock_depth cp' = cp_lock_depth cp"
proof (induction xs arbitrary: f cp)
  case (Cons x xs)
  note IH = Cons.IH and inv = Cons.prems(1) and mx = Cons.prems(2)
  show ?case
  proof (cases x)
    case (Create_Op n inc al)
    obtain r f1 cp1 where c: "cpool_create_pool pol f cp None n inc al None = (r, f1, cp1)" by (metis prod_cases3)
    show ?thesis
    proof (cases "al = 0 \<or> PJ_IS_POWER_OF_TWO al")
      case True
      from IH [OF create_ok_both(1) [OF inv True c]] create_ok_both(2) [OF inv True c] create_max [OF c] mx
      show ?thesis using True by (simp add: Create_Op c)
    next
      case False
      with IH [OF inv mx] show ?thesis by (simp add: Create_Op)
    qed
  next
    case (Alloc_Op k al n)
    let ?ok = "k < length (cp_used_list cp) \<and> (al = 0 \<or> PJ_IS_POWER_OF_TWO al) \<and>
         fits (cp_used_list cp ! k) (if al = 0 then po_alignment (cp_used_list cp ! k) else al) n"
    obtain r f1 cp1 where c: "cpool_alloc pol f cp k al n = (r, f1, cp1)" by (metis prod_cases3)
    show ?thesis
    proof (cases ?ok)
      case True
      have "cp_inv safe f1 cp1" by (rule used_alloc_ok [OF inv _ _ _ c]) (use True in auto)
      from IH [OF this] alloc_frame [OF c] mx True show ?thesis by (simp add: Alloc_Op c)
    next
      case False
      have "cp_run pol (x # xs) f cp = cp_run pol xs f cp"
        using False unfolding Alloc_Op cp_run.simps by (simp only: if_False)
      with IH [OF inv mx] show ?thesis by simp
    qed
  next
    case (Release_Op k)
    show ?thesis
    proof (cases "k < length (cp_used_list cp)")
      case True
      then have "po_addr (cp_used_list cp ! k) \<in> po_addr ` set (cp_used_list cp)" by simp
      from release_ok [OF inv fr mx this] obtain f1 cp1 where
        c: "cpool_release_pool pol f cp (po_addr (cp_used_list cp ! k)) = Some (f1, cp1)" "cp_inv safe f1 cp1"
          "cp_lock_depth cp1 = cp_lock_depth cp" "cp_max_capacity cp1 = cp_max_capacity cp" by blast
      from IH [OF c(2)] c(3,4) mx show ?thesis using True by (simp add: Release_Op c(1))
    next
      case False
      with IH [OF inv mx] show ?thesis by (simp add: Release_Op)
    qed
  qed
qed simp

end

section \<open>Properties\<close>

text \<open>A source of blocks for the witnesses: consecutive addresses, nothing used again.\<close>

definition bump_source :: "u32 pj_pool_factory_policy" where
  "bump_source = \<lparr>fp_block_alloc = (\<lambda>next n. if unat next + unat n < 2 ^ 32 then (Some next, next + n) else (None, next)),
     fp_block_free = Some (\<lambda>s a n. s), fp_call = (\<lambda>c s n. s), fp_callback = 0, fp_format = (\<lambda>s a. s)\<rparr>"

definition bump_safe :: "u32 \<Rightarrow> (u32 \<times> u32) set \<Rightarrow> bool" where
  "bump_safe next R \<longleftrightarrow> (\<forall>r \<in> R. unat (fst r) + unat (snd r) \<le> unat next)"

lemma bump_source_ok: "block_source bump_source bump_safe"
proof
  fix f R n a f'
  assume s: "bump_safe f R" and a: "fp_block_alloc bump_source f n = (Some a, f')"
  then have e: "a = f" "unat f + unat n < 2 ^ 32" "f' = f + n" by (auto simp: bump_source_def split: if_splits)
  then have "unat (f + n) = unat f + unat n" by (simp add: unat_word_ariths)
  then show "unat a + unat n < 2 ^ 32 \<and> (\<forall>r \<in> R. region r \<inter> region (a, n) = {}) \<and> bump_safe f' (insert (a, n) R)"
    using s e by (force simp: bump_safe_def region_def)
qed (auto simp: bump_source_def bump_safe_def split: if_splits)

text \<open>A pool created through the factory, new or used before, is well formed and empty, is one block
  at least as large as asked for, and is the last of the used list; the lock is released on
  every path, and all memory the factory knows stays disjoint.\<close>

theorem cpool_create_large_enough:
  assumes "block_source pol safe" and "cp_inv safe f cp" and "al = 0 \<or> PJ_IS_POWER_OF_TWO al"
    and "cpool_create_pool pol f cp name n inc al cb = (r, f', cp')"
  shows "cp_inv safe f' cp' \<and> cp_lock_depth cp' = cp_lock_depth cp \<and>
    (\<forall>p. r = Some p \<longrightarrow> pool_ok p \<and> pool_used p = {} \<and> n \<le> pj_pool_get_capacity p \<and>
      owned p = [(po_addr p, po_capacity p)] \<and> cp_used_list cp' = cp_used_list cp @ [p])"
  using block_source.create_ok_both [OF assms]
  by (auto simp: handed_out_def used_pool_def pj_pool_get_capacity_def)

theorem cpool_create_large_enough_witness:
  "\<exists>p f' cp'. cpool_create_pool bump_source 1000 (pj_caching_pool_init 100000) None 300 64 0 None = (Some p, f', cp') \<and>
     300 \<le> pj_pool_get_capacity p"
proof -
  let ?c = "cpool_create_pool bump_source 1000 (pj_caching_pool_init 100000) None 300 64 0 None"
  obtain r f' cp' where c: "?c = (r, f', cp')" by (metis prod_cases3)
  have i: "cp_inv bump_safe 1000 (pj_caching_pool_init 100000)"
    by (rule block_source.init_inv [OF bump_source_ok]) (simp add: bump_safe_def)
  have "size_index 300 = 1" by code_simp
  then have "fst ?c \<noteq> None"
    by (simp add: cpool_create_pool_def Let_def pj_caching_pool_init_def PJ_CACHING_POOL_ARRAY_SIZE_def
        pool_sizes_def pj_pool_create_int_def sizeof_pool_def sizeof_block_def bump_source_def)
  then obtain p where "r = Some p" using c by auto
  with cpool_create_large_enough [OF bump_source_ok i _ c] c show ?thesis by auto
qed

text \<open>Releasing a pool in use, when the configured maximum leaves room for the largest size below the
  32-bit limit, takes exactly that pool out of use, destroying or keeping it, and what is
  kept never exceeds the maximum.\<close>

theorem cpool_release_within_max:
  assumes "block_source pol safe" and "cp_inv safe f cp" and "fp_block_free pol = Some fr"
    and "unat (cp_max_capacity cp) + 65536 < 2 ^ 32" and "addr \<in> po_addr ` set (cp_used_list cp)"
  shows "\<exists>f' cp' p. cpool_release_pool pol f cp addr = Some (f', cp') \<and> cp_inv safe f' cp' \<and>
    cp_lock_depth cp' = cp_lock_depth cp \<and> po_addr p = addr \<and>
    cp_used_list cp' = remove1 p (cp_used_list cp) \<and> kept cp' \<le> unat (cp_max_capacity cp)"
proof -
  obtain f' cp' p where r: "cpool_release_pool pol f cp addr = Some (f', cp')" "cp_inv safe f' cp'"
    "cp_lock_depth cp' = cp_lock_depth cp" "po_addr p = addr" "cp_used_list cp' = remove1 p (cp_used_list cp)"
    "cp_max_capacity cp' = cp_max_capacity cp"
    using block_source.release_ok [OF assms] by blast
  have "kept cp' \<le> unat (cp_max_capacity cp)" using r(2,6) by (simp add: cp_inv_def word_le_nat_alt)
  with r show ?thesis by blast
qed

theorem cpool_release_within_max_witness:
  "\<exists>p f1 cp1 f2 cp2. cpool_create_pool bump_source 1000 (pj_caching_pool_init 100000) None 300 64 0 None = (Some p, f1, cp1) \<and>
     cpool_release_pool bump_source f1 cp1 (po_addr p) = Some (f2, cp2) \<and> kept cp2 \<le> 100000"
proof -
  let ?c = "cpool_create_pool bump_source 1000 (pj_caching_pool_init 100000) None 300 64 0 None"
  obtain r f1 cp1 where c: "?c = (r, f1, cp1)" by (metis prod_cases3)
  have i: "cp_inv bump_safe 1000 (pj_caching_pool_init 100000)"
    by (rule block_source.init_inv [OF bump_source_ok]) (simp add: bump_safe_def)
  have "size_index 300 = 1" by code_simp
  then have "fst ?c \<noteq> None"
    by (simp add: cpool_create_pool_def Let_def pj_caching_pool_init_def PJ_CACHING_POOL_ARRAY_SIZE_def
        pool_sizes_def pj_pool_create_int_def sizeof_pool_def sizeof_block_def bump_source_def)
  then obtain p where p: "r = Some p" using c by auto
  have al: "(0 :: u32) = 0 \<or> PJ_IS_POWER_OF_TWO 0" by simp
  note C = block_source.create_ok_both [OF bump_source_ok i al c]
  have m: "cp_max_capacity cp1 = 100000" using create_max [OF c] by (simp add: pj_caching_pool_init_def)
  have fr: "fp_block_free bump_source = Some (\<lambda>s a n. s)" by (simp add: bump_source_def)
  have "po_addr p \<in> po_addr ` set (cp_used_list cp1)" using C(3) [OF p] by simp
  from cpool_release_within_max [OF bump_source_ok C(1) fr _ this] m c p show ?thesis by auto
qed

text \<open>C11: whatever sequence of creations, allocations and releases the application makes from a new
  factory, no operation fails in the factory itself, the memory of all pools, in use or kept,
  is pairwise disjoint at the end, the recorded capacity is that of the kept pools and within
  the maximum, and the lock is free.\<close>

theorem cpool_sequence_disjoint:
  assumes src: "block_source pol safe" and f: "safe f {}" and fr: "fp_block_free pol = Some fr"
    and mx: "unat mx + 65536 < 2 ^ 32"
  shows "\<exists>f' cp'. cp_run pol xs f (pj_caching_pool_init mx) = Some (f', cp') \<and> apart (all_regions cp') \<and>
    unat (cp_capacity cp') = kept cp' \<and> kept cp' \<le> unat mx \<and> cp_lock_depth cp' = 0"
proof -
  have m: "cp_max_capacity (pj_caching_pool_init mx) = mx" "cp_lock_depth (pj_caching_pool_init mx) = 0"
    by (simp_all add: pj_caching_pool_init_def)
  obtain f' cp' where "cp_run pol xs f (pj_caching_pool_init mx) = Some (f', cp')" "cp_inv safe f' cp'"
    "cp_max_capacity cp' = mx" "cp_lock_depth cp' = 0"
    using block_source.cp_run_ok [OF src fr block_source.init_inv [OF src f], of mx xs] mx m by auto
  then show ?thesis by (auto simp: cp_inv_def regions_ok_def word_le_nat_alt)
qed

theorem cpool_sequence_disjoint_witness:
  "\<exists>f' cp'. cp_run bump_source [Create_Op 300 256 0, Create_Op 100 256 8, Alloc_Op 1 0 700, Release_Op 0, Create_Op 400 0 0]
     1000 (pj_caching_pool_init 100000) = Some (f', cp') \<and> apart (all_regions cp')"
proof -
  have "bump_safe 1000 {}" "fp_block_free bump_source = Some (\<lambda>s a n. s)" by (simp_all add: bump_safe_def bump_source_def)
  from cpool_sequence_disjoint [OF bump_source_ok this, of 100000] show ?thesis by fastforce
qed

end
