(* ===== verification/Pj_Math.thy ===== *)
theory Pj_Math
  imports Pj_Prelude "HOL-Library.Signed_Division"
begin

text \<open>
  Unsigned arithmetic on natural numbers with the 32-bit wrap-around written out, and the
  statistics of \<^verbatim>\<open>pjlib/include/pj/math.h\<close>: the integer square root and the running minimum,
  maximum and mean, in the configuration without floating point
  (\<^verbatim>\<open>PJ_HAS_FLOATING_POINT\<close> is 0).
\<close>

section \<open>Unsigned arithmetic\<close>

definition uadd :: "nat \<Rightarrow> nat \<Rightarrow> nat" where "uadd a b = (a + b) mod 2 ^ 32"
definition usub :: "nat \<Rightarrow> nat \<Rightarrow> nat" where "usub a b = (a + 2 ^ 32 - b) mod 2 ^ 32"
definition umul :: "nat \<Rightarrow> nat \<Rightarrow> nat" where "umul a b = (a * b) mod 2 ^ 32"

text \<open>The conversions between \<^verbatim>\<open>int\<close> and \<^verbatim>\<open>unsigned\<close>.\<close>

definition u_of :: "int \<Rightarrow> nat" where "u_of i = nat (i mod 2 ^ 32)"
definition s_of :: "nat \<Rightarrow> int" where
  "s_of u = (if u mod 2 ^ 32 < 2 ^ 31 then int (u mod 2 ^ 32) else int (u mod 2 ^ 32) - 2 ^ 32)"

lemma uadd_small [pj_arith]: "a + b < 2 ^ 32 \<Longrightarrow> uadd a b = a + b"
  by (simp add: uadd_def)

lemma usub_small [pj_arith]: "b \<le> a \<Longrightarrow> a < 2 ^ 32 \<Longrightarrow> usub a b = a - b"
  by (simp add: usub_def mod_if)

lemma umul_small [pj_arith]: "a * b < 2 ^ 32 \<Longrightarrow> umul a b = a * b"
  by (simp add: umul_def)

lemma u_of_small [pj_arith]: "0 \<le> i \<Longrightarrow> i < 2 ^ 32 \<Longrightarrow> u_of i = nat i"
  by (simp add: u_of_def)

lemma s_of_small [pj_arith]: "u < 2 ^ 31 \<Longrightarrow> s_of u = int u"
  by (simp add: s_of_def)

lemma s_of_u_of [pj_arith]: "- (2 ^ 31) \<le> i \<Longrightarrow> i < 2 ^ 31 \<Longrightarrow> s_of (u_of i) = i"
proof (cases "0 \<le> i")
  case False
  assume "- (2 ^ 31) \<le> i" "i < 2 ^ 31"
  with False have "(i + 2 ^ 32) mod 2 ^ 32 = i + 2 ^ 32" by (intro mod_pos_pos_trivial) simp_all
  then have "i mod 2 ^ 32 = i + 2 ^ 32" by simp
  with False \<open>- (2 ^ 31) \<le> i\<close> show ?thesis by (simp add: s_of_def u_of_def nat_mod_as_int)
qed (simp add: s_of_def u_of_def nat_less_iff)

lemma s_of_upper: "s_of u < 2 ^ 31"
proof (cases "u mod 2 ^ 32 < 2 ^ 31")
  case False
  have "u mod 2 ^ 32 < 2 ^ 32" by (rule mod_less_divisor) simp
  then have "int (u mod 2 ^ 32) < 2 ^ 32" by (metis of_nat_less_iff of_nat_numeral of_nat_power)
  then have "s_of u < 0" using False by (simp only: s_of_def if_False)
  then show ?thesis by (rule less_trans) simp
qed (simp add: s_of_def nat_less_iff)

lemma usub_one [pj_arith]: "0 < a \<Longrightarrow> a < 2 ^ 32 \<Longrightarrow> usub a 1 = a - 1"
  by (rule usub_small) simp_all

section \<open>Integer square root\<close>

text \<open>\<^verbatim>\<open>while (prev) \<open>{\<close> prev >>= 2; res <<= 1; \<open>}\<close>\<close>\<close>

fun isqrt_guess :: "nat \<Rightarrow> nat \<Rightarrow> nat" where
  "isqrt_guess prev res = (if prev = 0 then res else isqrt_guess (prev div 4) (umul res 2))"

declare isqrt_guess.simps [simp del]

partial_function (option) isqrt_loop :: "nat \<Rightarrow> nat \<Rightarrow> nat option" where
  "isqrt_loop i res =
     (let prev = res; res1 = uadd prev (i div prev) div 2
      in if uadd prev res1 div 2 \<noteq> res1 then isqrt_loop i res1 else Some res1)"

declare isqrt_loop.simps [code]

definition pj_isqrt :: "nat \<Rightarrow> nat option" where
  "pj_isqrt i = isqrt_loop i (isqrt_guess (i div 4) 1)"

section \<open>Statistics\<close>

record pj_math_stat =
  st_n :: int
  st_max :: int
  st_min :: int
  st_last :: int
  st_mean :: int
  st_mean_res :: int
  st_m2 :: int

definition pj_math_stat_init :: pj_math_stat where
  "pj_math_stat_init = \<lparr>st_n = 0, st_max = 0, st_min = 0, st_last = 0, st_mean = 0, st_mean_res = 0, st_m2 = 0\<rparr>"

definition pj_math_stat_update :: "pj_math_stat \<Rightarrow> int \<Rightarrow> pj_math_stat" where
  "pj_math_stat_update stat val =
     (let mn = (if st_n stat \<noteq> 0 then (if st_min stat > val then val else st_min stat) else val);
          mx = (if st_n stat \<noteq> 0 then (if st_max stat < val then val else st_max stat) else val);
          n = st_n stat + 1;
          delta = val - st_mean stat;
          mean = st_mean stat + delta sdiv n;
          res = st_mean_res stat + delta smod n;
          (mean1, res1) = (if res \<ge> n then (mean + 1, res - n)
                           else if res \<le> - n then (mean - 1, res + n)
                           else (mean, res))
      in \<lparr>st_n = n, st_max = mx, st_min = mn, st_last = val, st_mean = mean1, st_mean_res = res1,
          st_m2 = st_m2 stat + delta * (val - mean1)\<rparr>)"

definition pj_math_stat_get_stddev :: "pj_math_stat \<Rightarrow> nat option" where
  "pj_math_stat_get_stddev stat =
     (if st_n stat = 0 then Some 0 else pj_isqrt (u_of (st_m2 stat sdiv st_n stat)))"

section \<open>Correctness of the square root\<close>

text \<open>The first guess is a power of two of half the length of the argument.\<close>

lemma isqrt_guess_power: "prev < 4 ^ k \<Longrightarrow> res * 2 ^ k < 2 ^ 32 \<Longrightarrow>
    \<exists>j \<le> k. isqrt_guess prev res = res * 2 ^ j \<and> prev < 4 ^ j"
proof (induction k arbitrary: prev res)
  case 0
  then show ?case by (simp add: isqrt_guess.simps)
next
  case (Suc k)
  show ?case
  proof (cases "prev = 0")
    case True
    then show ?thesis by (intro exI [of _ 0]) (simp add: isqrt_guess.simps)
  next
    case False
    have "res * 2 \<le> res * 2 ^ Suc k" by (rule mult_le_mono) simp_all
    then have u: "umul res 2 = res * 2" using Suc.prems(2) by (intro umul_small) linarith
    have "prev div 4 < 4 ^ k" using Suc.prems(1) by (simp add: less_mult_imp_div_less)
    moreover have "res * 2 * 2 ^ k < 2 ^ 32" using Suc.prems(2) by (simp add: mult.assoc)
    ultimately obtain j where "j \<le> k" "isqrt_guess (prev div 4) (res * 2) = res * 2 * 2 ^ j" "prev div 4 < 4 ^ j"
      using Suc.IH by blast
    then show ?thesis using False u
      by (intro exI [of _ "Suc j"]) (simp add: isqrt_guess.simps [of prev] mult.assoc)
  qed
qed

text \<open>One step of the iteration never falls below the root.\<close>

lemma newton_above:
  fixes i p :: nat
  assumes "0 < p" and "s * s \<le> i"
  shows "s \<le> (p + i div p) div 2"
proof -
  have "2 * s \<le> p + i div p"
  proof (rule ccontr)
    assume "\<not> 2 * s \<le> p + i div p"
    then have lt: "i div p + p + 1 \<le> 2 * s" by simp
    have "i < (i div p + 1) * p" using \<open>0 < p\<close> by (metis add.commute dividend_less_div_times mult_Suc plus_1_eq_Suc)
    also have "\<dots> \<le> (2 * s - p) * p" using lt by (intro mult_le_mono1) linarith
    finally have "s * s < (2 * s - p) * p" using assms(2) by linarith
    then have "int s * int s < (2 * int s - int p) * int p"
      using lt by (metis (no_types, lifting) of_nat_diff of_nat_less_iff of_nat_mult add_leD1 le_diff_conv2 trans_le_add2 of_nat_numeral add.commute add_leD2)
    then have "(int s - int p) * (int s - int p) < 0" by (simp add: algebra_simps)
    then show False using zero_le_square [of "int s - int p"] by linarith
  qed
  then show ?thesis by linarith
qed

lemma newton_down:
  fixes i p :: nat
  assumes "0 < p" and "i < p * p"
  shows "(p + i div p) div 2 < p"
proof -
  have "i div p < p" using assms by (simp add: less_mult_imp_div_less)
  then show ?thesis by linarith
qed

text \<open>What the loop stops with, from a value at or above the root.\<close>

definition isqrt_result :: "nat \<Rightarrow> nat \<Rightarrow> bool" where
  "isqrt_result i r \<longleftrightarrow> r * r \<le> i + 1 \<and> i < (r + 1) * (r + 1)"

lemma newton_stop:
  fixes i p :: nat
  assumes p: "0 < p" and r: "r = (p + i div p) div 2" and stop: "(p + r) div 2 = r"
  shows "isqrt_result i r"
proof -
  define q where "q = i div p"
  have q: "q * p \<le> i" "i < q * p + p" using p by (simp_all add: q_def dividend_less_div_times add.commute)
  have rq: "r = (p + q) div 2" using r q_def by simp
  have "p = r \<or> p = r + 1" using stop by linarith
  then consider "p = r" "q = r \<or> q = r + 1" | "p = r + 1" "q + 1 = r \<or> q = r" using rq by linarith
  then show ?thesis
  proof cases
    case 1
    then show ?thesis using q by (auto simp: isqrt_result_def algebra_simps)
  next
    case 2
    then show ?thesis using q by (auto simp: isqrt_result_def algebra_simps)
  qed
qed

lemma isqrt_loop_step:
  assumes "0 < p" and "p + i div p < 2 ^ 32" and "r = (p + i div p) div 2" and "p + r < 2 ^ 32"
  shows "isqrt_loop i p = (if (p + r) div 2 \<noteq> r then isqrt_loop i r else Some r)"
proof -
  have "uadd p (i div p) = p + i div p" "uadd p r = p + r" using assms by (simp_all add: uadd_def)
  then show ?thesis by (subst isqrt_loop.simps) (simp add: Let_def assms(3))
qed

definition root_of :: "nat \<Rightarrow> nat \<Rightarrow> bool" where
  "root_of i s \<longleftrightarrow> s * s \<le> i \<and> i < (s + 1) * (s + 1)"

lemma div_above_root:
  assumes "root_of i s" and "s \<le> p" and "0 < p"
  shows "i div p \<le> s + 2"
proof -
  have "(s + 3) * p > i"
  proof (cases "s = 0")
    case True
    then show ?thesis using assms by (simp add: root_of_def)
  next
    case False
    have "i < (s + 3) * s" using assms(1) False by (simp add: root_of_def algebra_simps)
    also have "\<dots> \<le> (s + 3) * p" using assms(2) by simp
    finally show ?thesis .
  qed
  then have "i div p < s + 3" by (simp add: less_mult_imp_div_less)
  then show ?thesis by simp
qed

lemma isqrt_loop_at:
  assumes r: "root_of i s" and s: "0 < s" "s < 2 ^ 20"
  shows "\<exists>r. isqrt_loop i s = Some r \<and> isqrt_result i r"
proof -
  let ?r = "(s + i div s) div 2"
  have d: "i div s \<le> s + 2" using div_above_root [OF r] s by simp
  have ge: "s \<le> ?r" using newton_above [of s s i] r s by (simp add: root_of_def)
  have e: "isqrt_loop i s = (if (s + ?r) div 2 \<noteq> ?r then isqrt_loop i ?r else Some ?r)"
    using d s by (intro isqrt_loop_step) simp_all
  show ?thesis
  proof (cases "(s + ?r) div 2 = ?r")
    case True
    then show ?thesis using e newton_stop [OF s(1) refl True] by simp
  next
    case False
    with ge d have r1: "?r = s + 1" by linarith
    have q: "i div (s + 1) = s"
    proof (rule div_nat_eqI)
      have "s + 2 \<le> i div s" using r1 by linarith
      then have "(s + 2) * s \<le> i div s * s" by (rule mult_le_mono1)
      also have "\<dots> \<le> i" by simp
      finally show "(s + 1) * s \<le> i" by (simp add: algebra_simps)
      show "i < (s + 1) * Suc s" using r by (simp add: root_of_def)
    qed
    have st: "(s + 1 + i div (s + 1)) div 2 = s" using q by simp
    have "isqrt_loop i (s + 1) = Some s"
      using isqrt_loop_step [of "s + 1" i s] q s st by simp
    moreover have "isqrt_result i s"
      using newton_stop [of "s + 1" s i] st by simp
    ultimately show ?thesis using e False r1 by simp
  qed
qed

lemma isqrt_loop_above:
  assumes "root_of i s" and "s < p" and "p < 2 ^ 20"
  shows "\<exists>r. isqrt_loop i p = Some r \<and> isqrt_result i r"
  using assms
proof (induction p rule: less_induct)
  case (less p)
  let ?r = "(p + i div p) div 2"
  have p: "0 < p" using less.prems(2) by simp
  have d: "i div p \<le> s + 2" using div_above_root [OF less.prems(1), of p] less.prems(2) p by simp
  have "i < p * p"
    using less.prems(1,2) mult_le_mono [of "s + 1" p "s + 1" p] by (simp add: root_of_def)
  then have lt: "?r < p" by (rule newton_down [OF p])
  have ge: "s \<le> ?r" using newton_above [OF p] less.prems(1) by (simp add: root_of_def)
  have e: "isqrt_loop i p = (if (p + ?r) div 2 \<noteq> ?r then isqrt_loop i ?r else Some ?r)"
    using d less.prems p by (intro isqrt_loop_step) simp_all
  show ?case
  proof (cases "(p + ?r) div 2 = ?r")
    case True
    then show ?thesis using e newton_stop [OF p refl True] by simp
  next
    case False
    have "0 < ?r" using False by (cases "?r = 0") auto
    then have "\<exists>r. isqrt_loop i ?r = Some r \<and> isqrt_result i r"
      using less.IH [OF lt less.prems(1)] isqrt_loop_at [OF less.prems(1)] ge lt less.prems(2,3)
      by (cases "?r = s") auto
    then show ?thesis using e False by simp
  qed
qed

lemma root_exists: "\<exists>s. root_of i s"
proof (induction i)
  case 0
  then show ?case by (intro exI [of _ 0]) (simp add: root_of_def)
next
  case (Suc i)
  then obtain s where s: "root_of i s" by blast
  show ?case
  proof (cases "Suc i < (s + 1) * (s + 1)")
    case True
    with s show ?thesis by (intro exI [of _ s]) (simp add: root_of_def)
  next
    case False
    with s show ?thesis by (intro exI [of _ "s + 1"]) (simp add: root_of_def)
  qed
qed

lemma isqrt_correct:
  assumes "i < 2 ^ 32"
  shows "\<exists>r. pj_isqrt i = Some r \<and> isqrt_result i r"
proof -
  have "i div 4 < 4 ^ 15" using assms by (simp add: less_mult_imp_div_less)
  from isqrt_guess_power [OF this, of 1] obtain j where j: "j \<le> 15" "isqrt_guess (i div 4) 1 = 2 ^ j" "i div 4 < 4 ^ j"
    by auto
  define g :: nat where "g = 2 ^ j"
  have g: "0 < g" "g \<le> 2 ^ 15" using j(1) using power_increasing [of j 15 "2 :: nat"] by (simp_all add: g_def)
  have "(4 :: nat) ^ j = g * g" by (simp add: g_def power_mult_distrib [symmetric])
  then have "i < 4 * g * g" using j(3) by simp
  then have d: "i div g < 4 * g" by (simp add: less_mult_imp_div_less)
  let ?r = "(g + i div g) div 2"
  obtain s where s: "root_of i s" using root_exists by blast
  have e: "pj_isqrt i = (if (g + ?r) div 2 \<noteq> ?r then isqrt_loop i ?r else Some ?r)"
    unfolding pj_isqrt_def j(2) g_def [symmetric] using d g by (intro isqrt_loop_step) simp_all
  have ge: "s \<le> ?r" using newton_above [OF g(1)] s by (simp add: root_of_def)
  show ?thesis
  proof (cases "(g + ?r) div 2 = ?r")
    case True
    then show ?thesis using e newton_stop [OF g(1) refl True] by simp
  next
    case False
    have "?r < 2 ^ 20" using d g by simp
    moreover have "0 < ?r" using False by (cases "?r = 0") auto
    ultimately have "\<exists>r. isqrt_loop i ?r = Some r \<and> isqrt_result i r"
      using isqrt_loop_above [OF s] isqrt_loop_at [OF s] ge by (cases "?r = s") auto
    then show ?thesis using e False by simp
  qed
qed

section \<open>Properties\<close>

text \<open>The integer square root ends for every 32-bit argument, without overflow on the way, with the root
  rounded down, except that an argument one below a square may give the root of that square.\<close>

theorem isqrt_rounds:
  assumes "i < 2 ^ 32"
  shows "\<exists>r. pj_isqrt i = Some r \<and> r * r \<le> i + 1 \<and> i < (r + 1) * (r + 1)"
  using isqrt_correct [OF assms] by (simp add: isqrt_result_def)

theorem isqrt_rounds_witness: "\<exists>r. pj_isqrt 4294967295 = Some r \<and> r * r \<le> 4294967296 \<and> 4294967295 < (r + 1) * (r + 1)"
  using isqrt_rounds [of 4294967295] by simp

end
