(* ===== verification/Pj_Jbuf.thy ===== *)
theory Pj_Jbuf
  imports Pj_Math
begin

text \<open>
  The jitter buffer of \<^verbatim>\<open>pjmedia/src/pjmedia/jbuf.c\<close>: the ring of frames
  (\<^verbatim>\<open>jb_framelist_t\<close>) with the frame contents in one byte array, and the adaptive
  buffer over it (\<^verbatim>\<open>pjmedia_jbuf\<close>) with both discard algorithms.

  A C \<^verbatim>\<open>unsigned\<close> or \<^verbatim>\<open>pj_size_t\<close> is a natural number with the wrap-around written out
  (\<^term>\<open>uadd\<close>, \<^term>\<open>usub\<close>, \<^term>\<open>umul\<close>), a C \<^verbatim>\<open>int\<close> an integer, and a conversion
  between them is \<^term>\<open>u_of\<close> or \<^term>\<open>s_of\<close>. Output parameters are results; \<^term>\<open>None\<close> is a
  loop that does not end. Log output is left out.
\<close>

section \<open>The frame list\<close>

definition INVALID_OFFSET :: int where "INVALID_OFFSET = -9999"
definition MAX_BURST_MSEC :: nat where "MAX_BURST_MSEC = 1000"
definition INIT_CYCLE :: int where "INIT_CYCLE = 10"
definition MAX_FRAME_INDEX :: nat where "MAX_FRAME_INDEX = 4294967295 div 9000"
definition STA_DISC_SAFE_SHRINKING_DIFF :: int where "STA_DISC_SAFE_SHRINKING_DIFF = 1"
definition MAX_MISORDER :: int where "MAX_MISORDER = 100"
definition MAX_DROPOUT :: int where "MAX_DROPOUT = 3000"

definition PJMEDIA_JB_MISSING_FRAME :: int where "PJMEDIA_JB_MISSING_FRAME = 0"
definition PJMEDIA_JB_NORMAL_FRAME :: int where "PJMEDIA_JB_NORMAL_FRAME = 1"
definition PJMEDIA_JB_ZERO_PREFETCH_FRAME :: int where "PJMEDIA_JB_ZERO_PREFETCH_FRAME = 2"
definition PJMEDIA_JB_ZERO_EMPTY_FRAME :: int where "PJMEDIA_JB_ZERO_EMPTY_FRAME = 3"
definition PJMEDIA_JB_DISCARDED_FRAME :: int where "PJMEDIA_JB_DISCARDED_FRAME = 1024"

named_theorems jb_frames

lemmas jb_frame_defs [jb_frames] =
  PJMEDIA_JB_MISSING_FRAME_def PJMEDIA_JB_NORMAL_FRAME_def PJMEDIA_JB_ZERO_PREFETCH_FRAME_def
  PJMEDIA_JB_ZERO_EMPTY_FRAME_def PJMEDIA_JB_DISCARDED_FRAME_def

record jb_framelist_t =
  fl_frame_size :: nat
  fl_max_count :: nat
  fl_content :: "u8 list"
  fl_frame_type :: "int list"
  fl_content_len :: "nat list"
  fl_bit_info :: "u32 list"
  fl_ts :: "u32 list"
  fl_head :: nat
  fl_size :: nat
  fl_discarded_num :: nat
  fl_origin :: int

text \<open>Writing the same value to a range, and copying bytes to an offset.\<close>

definition memset_at :: "nat \<Rightarrow> nat \<Rightarrow> 'a \<Rightarrow> 'a list \<Rightarrow> 'a list" where
  "memset_at i n v xs = take i xs @ replicate n v @ drop (i + n) xs"

definition memcpy_at :: "nat \<Rightarrow> 'a list \<Rightarrow> 'a list \<Rightarrow> 'a list" where
  "memcpy_at i bs xs = take i xs @ bs @ drop (i + length bs) xs"

definition jb_framelist_reset :: "jb_framelist_t \<Rightarrow> jb_framelist_t" where
  "jb_framelist_reset fl =
     fl\<lparr>fl_head := 0, fl_origin := INVALID_OFFSET, fl_size := 0, fl_discarded_num := 0,
        fl_frame_type := memset_at 0 (fl_max_count fl) PJMEDIA_JB_MISSING_FRAME (fl_frame_type fl),
        fl_content_len := memset_at 0 (fl_max_count fl) 0 (fl_content_len fl)\<rparr>"

text \<open>The arrays come from the pool with whatever contents the memory has: five lists.\<close>

definition jb_framelist_init ::
  "nat \<Rightarrow> nat \<Rightarrow> u8 list \<Rightarrow> int list \<Rightarrow> nat list \<Rightarrow> u32 list \<Rightarrow> u32 list \<Rightarrow> jb_framelist_t" where
  "jb_framelist_init frame_size max_count content frame_type content_len bit_info ts =
     jb_framelist_reset
       \<lparr>fl_frame_size = frame_size, fl_max_count = max_count, fl_content = content,
        fl_frame_type = frame_type, fl_content_len = content_len, fl_bit_info = bit_info, fl_ts = ts,
        fl_head = 0, fl_size = 0, fl_discarded_num = 0, fl_origin = 0\<rparr>"

definition jb_framelist_eff_size :: "jb_framelist_t \<Rightarrow> nat" where
  "jb_framelist_eff_size fl = usub (fl_size fl) (fl_discarded_num fl)"

definition jb_framelist_origin :: "jb_framelist_t \<Rightarrow> int" where
  "jb_framelist_origin fl = fl_origin fl"

definition jb_framelist_size :: "jb_framelist_t \<Rightarrow> nat" where
  "jb_framelist_size fl = fl_size fl"

text \<open>Taking the discarded frames of a range off the count.\<close>

fun count_down :: "int list \<Rightarrow> nat \<Rightarrow> nat \<Rightarrow> nat \<Rightarrow> nat" where
  "count_down types i 0 d = d"
| "count_down types i (Suc n) d =
     count_down types (i + 1) n (if types ! i = PJMEDIA_JB_DISCARDED_FRAME then usub d 1 else d)"

text \<open>The frames from \<^term>\<open>i\<close> on are taken off the count and cleared.\<close>

definition clear_range :: "nat \<Rightarrow> nat \<Rightarrow> jb_framelist_t \<Rightarrow> jb_framelist_t" where
  "clear_range i n fl =
     fl\<lparr>fl_discarded_num := count_down (fl_frame_type fl) i n (fl_discarded_num fl),
        fl_frame_type := memset_at i n PJMEDIA_JB_MISSING_FRAME (fl_frame_type fl),
        fl_content_len := memset_at i n 0 (fl_content_len fl)\<rparr>"

definition jb_framelist_remove_head :: "jb_framelist_t \<Rightarrow> nat \<Rightarrow> nat \<times> jb_framelist_t" where
  "jb_framelist_remove_head fl count0 =
     (let count = (if count0 > fl_size fl then fl_size fl else count0)
      in if count \<noteq> 0 then
           let tmp = uadd (fl_head fl) count;
               step1 = (if tmp > fl_max_count fl then usub (fl_max_count fl) (fl_head fl) else count);
               step2 = (if tmp > fl_max_count fl then usub count step1 else 0);
               fl1 = clear_range (fl_head fl) step1 fl;
               fl2 = (if step2 \<noteq> 0 then clear_range 0 step2 fl1 else fl1)
           in (count, fl2\<lparr>fl_origin := fl_origin fl2 + int count,
                          fl_head := uadd (fl_head fl2) count mod fl_max_count fl2,
                          fl_size := usub (fl_size fl2) count\<rparr>)
         else (count, fl))"

text \<open>What a retrieval hands to the caller: the bytes written to the frame buffer, the type, the size,
  the bit info, the timestamp and the sequence number.\<close>

record jb_out =
  o_frame :: "u8 list"
  o_type :: int
  o_size :: nat
  o_bit_info :: u32
  o_ts :: u32
  o_seq :: int

datatype jb_got = Got jb_out | No_Frame "u8 list"

partial_function (option) skip_discarded :: "jb_framelist_t \<Rightarrow> bool \<Rightarrow> (jb_framelist_t \<times> bool) option" where
  "skip_discarded fl prev_discarded =
     (if fl_frame_type fl ! fl_head fl = PJMEDIA_JB_DISCARDED_FRAME
      then skip_discarded (snd (jb_framelist_remove_head fl 1)) True
      else Some (fl, prev_discarded))"

declare skip_discarded.simps [code]

text \<open>Returning the frame at the head and freeing its slot.\<close>

definition take_head :: "jb_framelist_t \<Rightarrow> nat option \<Rightarrow> bool \<Rightarrow> jb_out \<times> jb_framelist_t" where
  "take_head fl buf_size prev_discarded =
     (let h = fl_head fl;
          frm_size = fl_content_len fl ! h;
          max_size = (case buf_size of Some n \<Rightarrow> n | None \<Rightarrow> frm_size);
          copy_size = min max_size frm_size;
          out = (if prev_discarded
                 then \<lparr>o_frame = [], o_type = PJMEDIA_JB_MISSING_FRAME, o_size = 0, o_bit_info = 0,
                       o_ts = fl_ts fl ! h, o_seq = fl_origin fl\<rparr>
                 else \<lparr>o_frame = take copy_size (drop (umul h (fl_frame_size fl)) (fl_content fl)),
                       o_type = fl_frame_type fl ! h, o_size = copy_size,
                       o_bit_info = fl_bit_info fl ! h, o_ts = fl_ts fl ! h, o_seq = fl_origin fl\<rparr>)
      in (out, fl\<lparr>fl_frame_type := (fl_frame_type fl)[h := PJMEDIA_JB_MISSING_FRAME],
                  fl_content_len := (fl_content_len fl)[h := 0],
                  fl_bit_info := (fl_bit_info fl)[h := 0],
                  fl_ts := (fl_ts fl)[h := 0],
                  fl_origin := fl_origin fl + 1,
                  fl_head := uadd h 1 mod fl_max_count fl,
                  fl_size := usub (fl_size fl) 1\<rparr>))"

definition jb_framelist_get :: "jb_framelist_t \<Rightarrow> nat option \<Rightarrow> (jb_got \<times> jb_framelist_t) option" where
  "jb_framelist_get fl buf_size =
     (if fl_size fl \<noteq> 0 then
        (case skip_discarded fl False of
           None \<Rightarrow> None
         | Some (fl1, prev_discarded) \<Rightarrow>
             if fl_size fl1 \<noteq> 0
             then (case take_head fl1 buf_size prev_discarded of (out, fl2) \<Rightarrow> Some (Got out, fl2))
             else Some (No_Frame (replicate (fl_frame_size fl1) 0), fl1))
      else Some (No_Frame (replicate (fl_frame_size fl) 0), fl))"

partial_function (option) peek_pos :: "jb_framelist_t \<Rightarrow> nat \<Rightarrow> nat \<Rightarrow> nat option" where
  "peek_pos fl pos idx =
     (if fl_frame_type fl ! pos \<noteq> PJMEDIA_JB_DISCARDED_FRAME
      then (if idx = 0 then Some pos else peek_pos fl (uadd pos 1 mod fl_max_count fl) (usub idx 1))
      else peek_pos fl (uadd pos 1 mod fl_max_count fl) idx)"

declare peek_pos.simps [code]

text \<open>The frame pointer is represented by the \<^verbatim>\<open>content_len\<close> bytes it points to; the inner option is
  the boolean result.\<close>

definition jb_framelist_peek :: "jb_framelist_t \<Rightarrow> nat \<Rightarrow> jb_out option option" where
  "jb_framelist_peek fl offset =
     (if offset \<ge> jb_framelist_eff_size fl then Some None
      else (case peek_pos fl (fl_head fl) offset of
              None \<Rightarrow> None
            | Some pos \<Rightarrow>
                Some (Some \<lparr>o_frame = take (fl_content_len fl ! pos) (drop (umul pos (fl_frame_size fl)) (fl_content fl)),
                            o_type = fl_frame_type fl ! pos, o_size = fl_content_len fl ! pos,
                            o_bit_info = fl_bit_info fl ! pos, o_ts = fl_ts fl ! pos,
                            o_seq = s_of (u_of (fl_origin fl + int offset))\<rparr>)))"

text \<open>Where a frame index lies: the first half of \<^verbatim>\<open>jb_framelist_put_at\<close>, which finds the distance to
  the first frame, after a sequence restart or a far jump in a list changed accordingly.\<close>

definition place :: "jb_framelist_t \<Rightarrow> int \<Rightarrow> pj_status_t + jb_framelist_t \<times> int" where
  "place fl index =
     (let distance = index - fl_origin fl
      in if distance < 0 then
           if fl_origin fl - index < MAX_MISORDER then Inl PJ_ETOOSMALL
           else if u_of (fl_origin fl + int (fl_size fl)) \<ge> MAX_FRAME_INDEX
           then Inr (fl\<lparr>fl_origin := s_of (u_of (index - int (fl_size fl)))\<rparr>, s_of (fl_size fl))
           else Inr ((jb_framelist_reset fl)\<lparr>fl_origin := index\<rparr>, 0)
         else Inr (fl, distance))"

definition jb_framelist_put_at ::
  "jb_framelist_t \<Rightarrow> int \<Rightarrow> u8 list \<Rightarrow> nat \<Rightarrow> u32 \<Rightarrow> u32 \<Rightarrow> int \<Rightarrow> pj_status_t \<times> jb_framelist_t" where
  "jb_framelist_put_at fl0 index frame frame_size bit_info ts frame_type =
     (if \<not> frame_size \<le> fl_frame_size fl0 then (PJ_EINVAL, fl0)
      else
        (case place fl0 index of
           Inl status \<Rightarrow> (status, fl0)
         | Inr (fl1, distance1) \<Rightarrow>
             let (fl2, distance2) = (if fl_size fl1 = 0 then (fl1\<lparr>fl_origin := index\<rparr>, 0) else (fl1, distance1))
             in if distance2 \<ge> s_of (fl_max_count fl2) \<and> \<not> distance2 > MAX_DROPOUT then (PJ_ETOOMANY, fl2)
                else
                  let (fl, distance) =
                        (if distance2 \<ge> s_of (fl_max_count fl2)
                         then ((jb_framelist_reset fl2)\<lparr>fl_origin := index\<rparr>, 0) else (fl2, distance2));
                      pos = uadd (fl_head fl) (u_of distance) mod fl_max_count fl
                  in if fl_frame_type fl ! pos \<noteq> PJMEDIA_JB_MISSING_FRAME then (PJ_EEXISTS, fl)
                     else (PJ_SUCCESS,
                       fl\<lparr>fl_frame_type := (fl_frame_type fl)[pos := frame_type],
                          fl_content_len := (fl_content_len fl)[pos := frame_size],
                          fl_bit_info := (fl_bit_info fl)[pos := bit_info],
                          fl_ts := (fl_ts fl)[pos := ts],
                          fl_size := (if fl_origin fl + s_of (fl_size fl) \<le> index then u_of (distance + 1)
                                      else fl_size fl),
                          fl_content := (if PJMEDIA_JB_NORMAL_FRAME = frame_type
                                         then memcpy_at (umul pos (fl_frame_size fl)) (take frame_size frame) (fl_content fl)
                                         else fl_content fl)\<rparr>)))"

definition jb_framelist_discard :: "jb_framelist_t \<Rightarrow> int \<Rightarrow> pj_status_t \<times> jb_framelist_t" where
  "jb_framelist_discard fl index =
     (if \<not> (index \<ge> fl_origin fl \<and> index < fl_origin fl + s_of (fl_size fl)) then (PJ_EINVAL, fl)
      else
        let pos = uadd (fl_head fl) (u_of (index - fl_origin fl)) mod fl_max_count fl
        in (PJ_SUCCESS, fl\<lparr>fl_frame_type := (fl_frame_type fl)[pos := PJMEDIA_JB_DISCARDED_FRAME],
                           fl_discarded_num := uadd (fl_discarded_num fl) 1\<rparr>))"

section \<open>The adaptive buffer\<close>

datatype pjmedia_jb_op = JB_OP_INIT | JB_OP_PUT | JB_OP_GET
datatype jb_status_t = JB_STATUS_INITIALIZING | JB_STATUS_PROCESSING
datatype pjmedia_jb_discard_algo =
  PJMEDIA_JB_DISCARD_NONE | PJMEDIA_JB_DISCARD_STATIC | PJMEDIA_JB_DISCARD_PROGRESSIVE

definition PJMEDIA_JB_DEFAULT_INIT_DELAY :: nat where "PJMEDIA_JB_DEFAULT_INIT_DELAY = 15"
definition PJMEDIA_JBUF_DISC_MIN_GAP :: nat where "PJMEDIA_JBUF_DISC_MIN_GAP = 200"
definition PJMEDIA_JBUF_PRO_DISC_MIN_BURST :: nat where "PJMEDIA_JBUF_PRO_DISC_MIN_BURST = 1"
definition PJMEDIA_JBUF_PRO_DISC_MAX_BURST :: nat where "PJMEDIA_JBUF_PRO_DISC_MAX_BURST = 100"
definition PJMEDIA_JBUF_PRO_DISC_T1 :: nat where "PJMEDIA_JBUF_PRO_DISC_T1 = 2000"
definition PJMEDIA_JBUF_PRO_DISC_T2 :: nat where "PJMEDIA_JBUF_PRO_DISC_T2 = 10000"
definition STABLE_HISTORY_LIMIT :: int where "STABLE_HISTORY_LIMIT = 20"

text \<open>The pointer to the discard function is the algorithm it stands for. The name, which only
  serves the log, is left out.\<close>

record pjmedia_jbuf =
  jb_frame_size :: nat
  jb_frame_ptime :: nat
  jb_frame_ptime_denum :: nat
  jb_max_count :: nat
  jb_init_prefetch :: int
  jb_min_prefetch :: int
  jb_max_prefetch :: int
  jb_max_burst :: int
  jb_min_shrink_gap :: int
  jb_discard_algo :: pjmedia_jb_discard_algo
  jb_min_delay :: nat
  jb_framelist :: jb_framelist_t
  jb_level :: int
  jb_max_hist_level :: int
  jb_stable_hist :: int
  jb_last_op :: pjmedia_jb_op
  jb_eff_level :: int
  jb_prefetch :: int
  jb_prefetching :: bool
  jb_status :: jb_status_t
  jb_init_cycle_cnt :: int
  jb_discard_ref :: int
  jb_discard_dist :: nat
  jb_delay :: pj_math_stat
  jb_burst :: pj_math_stat
  jb_lost :: nat
  jb_discard :: nat
  jb_empty :: nat

definition pjmedia_jbuf_reset :: "pjmedia_jbuf \<Rightarrow> pjmedia_jbuf" where
  "pjmedia_jbuf_reset jb =
     jb\<lparr>jb_level := 0, jb_last_op := JB_OP_INIT, jb_stable_hist := 0, jb_status := JB_STATUS_INITIALIZING,
        jb_init_cycle_cnt := 0, jb_max_hist_level := 0, jb_prefetching := (jb_prefetch jb \<noteq> 0),
        jb_discard_dist := 0, jb_framelist := jb_framelist_reset (jb_framelist jb)\<rparr>"

definition pjmedia_jbuf_set_discard :: "pjmedia_jbuf \<Rightarrow> pjmedia_jb_discard_algo \<Rightarrow> pjmedia_jbuf" where
  "pjmedia_jbuf_set_discard jb algo = jb\<lparr>jb_discard_algo := algo\<rparr>"

definition pjmedia_jbuf_create ::
  "nat \<Rightarrow> nat \<Rightarrow> nat \<Rightarrow> u8 list \<Rightarrow> int list \<Rightarrow> nat list \<Rightarrow> u32 list \<Rightarrow> u32 list \<Rightarrow> pjmedia_jbuf" where
  "pjmedia_jbuf_create frame_size ptime max_count content frame_type content_len bit_info ts =
     (let jb = \<lparr>jb_frame_size = frame_size, jb_frame_ptime = ptime, jb_frame_ptime_denum = 1,
          jb_max_count = max_count, jb_init_prefetch = 0, jb_min_prefetch = 0,
          jb_max_prefetch = s_of (umul max_count 4 div 5),
          jb_max_burst = s_of (max (MAX_BURST_MSEC div ptime) (umul max_count 3 div 4)),
          jb_min_shrink_gap = s_of (PJMEDIA_JBUF_DISC_MIN_GAP div ptime),
          jb_discard_algo = PJMEDIA_JB_DISCARD_NONE, jb_min_delay = 0,
          jb_framelist = jb_framelist_init frame_size max_count content frame_type content_len bit_info ts,
          jb_level = 0, jb_max_hist_level = 0, jb_stable_hist = 0, jb_last_op = JB_OP_INIT, jb_eff_level = 0,
          jb_prefetch = s_of (min PJMEDIA_JB_DEFAULT_INIT_DELAY (umul max_count 4 div 5)),
          jb_prefetching = False, jb_status = JB_STATUS_INITIALIZING, jb_init_cycle_cnt = 0,
          jb_discard_ref = 0, jb_discard_dist = 0, jb_delay = pj_math_stat_init, jb_burst = pj_math_stat_init,
          jb_lost = 0, jb_discard = 0, jb_empty = 0\<rparr>
      in pjmedia_jbuf_reset (pjmedia_jbuf_set_discard jb PJMEDIA_JB_DISCARD_PROGRESSIVE))"

definition pjmedia_jbuf_set_ptime2 :: "pjmedia_jbuf \<Rightarrow> nat \<Rightarrow> nat \<Rightarrow> pjmedia_jbuf" where
  "pjmedia_jbuf_set_ptime2 jb ptime ptime_denum =
     jb\<lparr>jb_frame_ptime := ptime, jb_frame_ptime_denum := ptime_denum,
        jb_min_shrink_gap := s_of (umul PJMEDIA_JBUF_DISC_MIN_GAP ptime_denum div ptime),
        jb_max_burst := s_of (max (umul MAX_BURST_MSEC ptime_denum div ptime) (umul (jb_max_count jb) 3 div 4))\<rparr>"

definition pjmedia_jbuf_set_ptime :: "pjmedia_jbuf \<Rightarrow> nat \<Rightarrow> pjmedia_jbuf" where
  "pjmedia_jbuf_set_ptime jb ptime = pjmedia_jbuf_set_ptime2 jb ptime 1"

definition pjmedia_jbuf_set_fixed :: "pjmedia_jbuf \<Rightarrow> nat \<Rightarrow> pj_status_t \<times> pjmedia_jbuf" where
  "pjmedia_jbuf_set_fixed jb prefetch =
     (if \<not> prefetch \<le> jb_max_count jb then (PJ_EINVAL, jb)
      else (PJ_SUCCESS, pjmedia_jbuf_set_discard
              (jb\<lparr>jb_min_prefetch := s_of prefetch, jb_max_prefetch := s_of prefetch,
                  jb_prefetch := s_of prefetch, jb_init_prefetch := s_of prefetch\<rparr>) PJMEDIA_JB_DISCARD_NONE))"

definition pjmedia_jbuf_set_adaptive :: "pjmedia_jbuf \<Rightarrow> nat \<Rightarrow> nat \<Rightarrow> nat \<Rightarrow> pj_status_t \<times> pjmedia_jbuf" where
  "pjmedia_jbuf_set_adaptive jb prefetch min_prefetch max_prefetch =
     (if \<not> (min_prefetch \<le> max_prefetch \<and> prefetch \<le> max_prefetch \<and> max_prefetch \<le> jb_max_count jb)
      then (PJ_EINVAL, jb)
      else (PJ_SUCCESS, jb\<lparr>jb_prefetch := s_of prefetch, jb_init_prefetch := s_of prefetch,
                           jb_min_prefetch := s_of min_prefetch, jb_max_prefetch := s_of max_prefetch\<rparr>))"

definition pjmedia_jbuf_is_full :: "pjmedia_jbuf \<Rightarrow> bool" where
  "pjmedia_jbuf_is_full jb \<longleftrightarrow> fl_size (jb_framelist jb) = fl_max_count (jb_framelist jb)"

text \<open>\<^verbatim>\<open>pjmedia_jbuf_destroy\<close> only writes the log: the frame list needs no destruction.\<close>

definition jbuf_calculate_jitter :: "pjmedia_jbuf \<Rightarrow> pjmedia_jbuf" where
  "jbuf_calculate_jitter jb0 =
     (let jb = jb0\<lparr>jb_burst := pj_math_stat_update (jb_burst jb0) (jb_level jb0),
                   jb_max_hist_level := max (jb_max_hist_level jb0) (jb_level jb0)\<rparr>
      in if jb_level jb < jb_eff_level jb then
           let jb1 = jb\<lparr>jb_stable_hist := jb_stable_hist jb + 1\<rparr>
           in if jb_stable_hist jb1 > STABLE_HISTORY_LIMIT then
                let diff0 = (jb_eff_level jb1 - jb_max_hist_level jb1) sdiv 3;
                    diff = (if diff0 < 1 then 1 else diff0);
                    eff = jb_eff_level jb1 - diff;
                    p1 = (if eff < jb_min_prefetch jb1 then jb_min_prefetch jb1 else eff);
                    p2 = (if p1 > jb_max_prefetch jb1 then jb_max_prefetch jb1 else p1)
                in jb1\<lparr>jb_eff_level := eff,
                       jb_prefetch := (if jb_init_prefetch jb1 \<noteq> 0 then p2 else jb_prefetch jb1),
                       jb_max_hist_level := 0, jb_stable_hist := 0\<rparr>
              else jb1
         else if jb_level jb > jb_eff_level jb then
           let eff = min (jb_max_hist_level jb) (s_of (umul (jb_max_count jb) 4 div 5));
               p1 = (if eff > jb_max_prefetch jb then jb_max_prefetch jb else eff);
               p2 = (if p1 < jb_min_prefetch jb then jb_min_prefetch jb else p1)
           in jb\<lparr>jb_eff_level := eff,
                 jb_prefetch := (if jb_init_prefetch jb \<noteq> 0 then p2 else jb_prefetch jb),
                 jb_stable_hist := 0\<rparr>
         else jb\<lparr>jb_stable_hist := 0\<rparr>)"

definition jbuf_discard_static :: "pjmedia_jbuf \<Rightarrow> pjmedia_jbuf" where
  "jbuf_discard_static jb =
     (let burst_level = max (jb_eff_level jb) (jb_level jb);
          cur_size = jb_framelist_eff_size (jb_framelist jb)
      in if cur_size \<le> jb_min_delay jb then jb
         else if s_of (usub cur_size (u_of (burst_level * 2))) \<ge> STA_DISC_SAFE_SHRINKING_DIFF then
           let seq_origin = jb_framelist_origin (jb_framelist jb);
               jb1 = (if seq_origin < jb_discard_ref jb then jb\<lparr>jb_discard_ref := seq_origin\<rparr> else jb)
           in if seq_origin - jb_discard_ref jb1 \<ge> jb_min_shrink_gap jb1 then
                (case jb_framelist_remove_head (jb_framelist jb1) 1 of
                   (diff, fl) \<Rightarrow> jb1\<lparr>jb_framelist := fl, jb_discard_ref := jb_framelist_origin fl,
                                     jb_discard := uadd (jb_discard jb1) diff\<rparr>)
              else jb1
         else jb)"

text \<open>The duration over which the latency is brought down.\<close>

definition discard_duration :: "nat \<Rightarrow> nat" where
  "discard_duration burst_level =
     (if burst_level \<le> PJMEDIA_JBUF_PRO_DISC_MIN_BURST then PJMEDIA_JBUF_PRO_DISC_T1
      else if burst_level \<ge> PJMEDIA_JBUF_PRO_DISC_MAX_BURST then PJMEDIA_JBUF_PRO_DISC_T2
      else uadd PJMEDIA_JBUF_PRO_DISC_T1
             (umul (PJMEDIA_JBUF_PRO_DISC_T2 - PJMEDIA_JBUF_PRO_DISC_T1)
                   (usub burst_level PJMEDIA_JBUF_PRO_DISC_MIN_BURST) div
              (PJMEDIA_JBUF_PRO_DISC_MAX_BURST - PJMEDIA_JBUF_PRO_DISC_MIN_BURST)))"

definition jbuf_discard_progressive :: "pjmedia_jbuf \<Rightarrow> pjmedia_jbuf" where
  "jbuf_discard_progressive jb =
     (if jb_last_op jb \<noteq> JB_OP_PUT then jb
      else
        let cur_size = jb_framelist_eff_size (jb_framelist jb);
            burst_level = u_of (max (jb_eff_level jb) (jb_level jb))
        in if cur_size \<le> burst_level \<or> cur_size \<le> jb_min_delay jb then jb\<lparr>jb_discard_dist := 0\<rparr>
           else
             let overflow = usub cur_size (max burst_level (jb_min_delay jb));
                 discard_dist = umul (discard_duration burst_level) (jb_frame_ptime_denum jb) div overflow
                                  div jb_frame_ptime jb;
                 last_seq = s_of (u_of (jb_framelist_origin (jb_framelist jb) +
                                        int (jb_framelist_size (jb_framelist jb)) - 1));
                 ref = (if jb_discard_dist jb = 0 then last_seq
                        else if last_seq < jb_discard_ref jb then last_seq
                        else jb_discard_ref jb);
                 dist = u_of (max (jb_min_shrink_gap jb) (s_of discard_dist));
                 jb1 = jb\<lparr>jb_discard_ref := ref, jb_discard_dist := dist\<rparr>
             in if last_seq \<ge> ref + s_of dist then
                  let discard_seq0 = s_of (u_of (ref + int dist));
                      discard_seq = (if discard_seq0 < jb_framelist_origin (jb_framelist jb1)
                                     then jb_framelist_origin (jb_framelist jb1) else discard_seq0)
                  in jb1\<lparr>jb_framelist := snd (jb_framelist_discard (jb_framelist jb1) discard_seq),
                         jb_discard_ref := discard_seq\<rparr>
                else jb1)"

definition run_discard_algo :: "pjmedia_jbuf \<Rightarrow> pjmedia_jbuf" where
  "run_discard_algo jb =
     (case jb_discard_algo jb of
        PJMEDIA_JB_DISCARD_NONE \<Rightarrow> jb
      | PJMEDIA_JB_DISCARD_STATIC \<Rightarrow> jbuf_discard_static jb
      | PJMEDIA_JB_DISCARD_PROGRESSIVE \<Rightarrow> jbuf_discard_progressive jb)"

definition jbuf_update :: "pjmedia_jbuf \<Rightarrow> pjmedia_jb_op \<Rightarrow> pjmedia_jbuf" where
  "jbuf_update jb0 oper =
     (let call = (\<lambda>jb. if jb_status jb = JB_STATUS_PROCESSING then run_discard_algo jb else jb);
          measure = (\<lambda>jb. (if oper = JB_OP_GET \<and> jb_level jb \<le> jb_max_burst jb
                           then jbuf_calculate_jitter jb else jb)\<lparr>jb_level := 0\<rparr>)
      in if jb_last_op jb0 \<noteq> oper then
           let jb = jb0\<lparr>jb_last_op := oper\<rparr>
           in if jb_status jb = JB_STATUS_INITIALIZING then
                let jb1 = jb\<lparr>jb_init_cycle_cnt := jb_init_cycle_cnt jb + 1\<rparr>
                in if jb_init_cycle_cnt jb1 \<ge> INIT_CYCLE \<and> oper = JB_OP_GET
                   then call (measure (jb1\<lparr>jb_status := JB_STATUS_PROCESSING,
                                           jb_level := min (jb_level jb1) (jb_max_burst jb1)\<rparr>))
                   else jb1\<lparr>jb_level := 0\<rparr>
              else call (measure jb)
         else call jb0)"

text \<open>The loop that makes room in a full buffer.\<close>

partial_function (option) make_room ::
  "pjmedia_jbuf \<Rightarrow> int \<Rightarrow> u8 list \<Rightarrow> nat \<Rightarrow> u32 \<Rightarrow> u32 \<Rightarrow> pj_status_t \<Rightarrow> (pj_status_t \<times> pjmedia_jbuf) option" where
  "make_room jb frame_seq frame min_frame_size bit_info ts status =
     (if status = PJ_ETOOMANY then
        let distance = (frame_seq - jb_framelist_origin (jb_framelist jb)) - s_of (jb_max_count jb) + 1;
            (removed, fl1) = jb_framelist_remove_head (jb_framelist jb) (u_of distance);
            (status1, fl2) = jb_framelist_put_at fl1 frame_seq frame min_frame_size bit_info ts PJMEDIA_JB_NORMAL_FRAME
        in make_room (jb\<lparr>jb_framelist := fl2, jb_discard := uadd (jb_discard jb) removed\<rparr>)
             frame_seq frame min_frame_size bit_info ts status1
      else Some (status, jb))"

declare make_room.simps [code]

text \<open>The result is whether the frame was refused, \<^verbatim>\<open>*discarded\<close>.\<close>

definition pjmedia_jbuf_put_frame3 ::
  "pjmedia_jbuf \<Rightarrow> u8 list \<Rightarrow> nat \<Rightarrow> u32 \<Rightarrow> int \<Rightarrow> u32 \<Rightarrow> (bool \<times> pjmedia_jbuf) option" where
  "pjmedia_jbuf_put_frame3 jb0 frame frame_size bit_info frame_seq ts =
     (let cur_size = s_of (jb_framelist_eff_size (jb_framelist jb0));
          min_frame_size = min frame_size (jb_frame_size jb0);
          (status0, fl) = jb_framelist_put_at (jb_framelist jb0) frame_seq frame min_frame_size bit_info ts
                            PJMEDIA_JB_NORMAL_FRAME
      in (case make_room (jb0\<lparr>jb_framelist := fl\<rparr>) frame_seq frame min_frame_size bit_info ts status0 of
            None \<Rightarrow> None
          | Some (status, jb) \<Rightarrow>
              let new_size = s_of (jb_framelist_eff_size (jb_framelist jb))
              in if status = PJ_SUCCESS then
                   let jb1 = (if jb_prefetching jb \<and> new_size \<ge> jb_prefetch jb
                              then jb\<lparr>jb_prefetching := False\<rparr> else jb);
                       jb2 = jb1\<lparr>jb_level := jb_level jb1 + (if new_size > cur_size then new_size - cur_size else 1)\<rparr>
                   in Some (False, jbuf_update jb2 JB_OP_PUT)
                 else Some (True, jb\<lparr>jb_discard := uadd (jb_discard jb) 1\<rparr>)))"

definition pjmedia_jbuf_put_frame2 ::
  "pjmedia_jbuf \<Rightarrow> u8 list \<Rightarrow> nat \<Rightarrow> u32 \<Rightarrow> int \<Rightarrow> (bool \<times> pjmedia_jbuf) option" where
  "pjmedia_jbuf_put_frame2 jb frame frame_size bit_info frame_seq =
     pjmedia_jbuf_put_frame3 jb frame frame_size bit_info frame_seq 0"

definition pjmedia_jbuf_put_frame :: "pjmedia_jbuf \<Rightarrow> u8 list \<Rightarrow> nat \<Rightarrow> int \<Rightarrow> pjmedia_jbuf option" where
  "pjmedia_jbuf_put_frame jb frame frame_size frame_seq =
     map_option snd (pjmedia_jbuf_put_frame3 jb frame frame_size 0 frame_seq 0)"

text \<open>What the application gets: the frame type, and what was written to its buffers, if anything was;
  the size is written in every case.\<close>

definition pjmedia_jbuf_get_frame3 ::
  "pjmedia_jbuf \<Rightarrow> nat option \<Rightarrow> (int \<times> jb_got option \<times> pjmedia_jbuf) option" where
  "pjmedia_jbuf_get_frame3 jb buf_size =
     (let finish = (\<lambda>jb. jbuf_update (jb\<lparr>jb_level := jb_level jb + 1\<rparr>) JB_OP_GET)
      in if jb_prefetching jb
         then Some (PJMEDIA_JB_ZERO_PREFETCH_FRAME, None, finish (jb\<lparr>jb_empty := uadd (jb_empty jb) 1\<rparr>))
         else if jb_framelist_eff_size (jb_framelist jb) < jb_min_delay jb
         then Some (PJMEDIA_JB_MISSING_FRAME, None, finish jb)
         else
           (case jb_framelist_get (jb_framelist jb) buf_size of
              None \<Rightarrow> None
            | Some (Got out, fl) \<Rightarrow>
                let jb1 = jb\<lparr>jb_framelist := fl\<rparr>;
                    normal = (o_type out = PJMEDIA_JB_NORMAL_FRAME);
                    jb2 = (if normal then jb1 else jb1\<lparr>jb_lost := uadd (jb_lost jb1) 1\<rparr>);
                    cur_size = uadd (jb_framelist_eff_size fl) 1;
                    jb3 = (if jb_last_op jb2 = JB_OP_PUT
                           then jb2\<lparr>jb_delay := pj_math_stat_update (jb_delay jb2)
                                      (s_of (umul cur_size (jb_frame_ptime jb2) div jb_frame_ptime_denum jb2))\<rparr>
                           else jb2)
                in Some (if normal then PJMEDIA_JB_NORMAL_FRAME else PJMEDIA_JB_MISSING_FRAME,
                         Some (Got out), finish jb3)
            | Some (No_Frame z, fl) \<Rightarrow>
                let jb1 = jb\<lparr>jb_framelist := fl,
                            jb_prefetching := (if jb_prefetch jb \<noteq> 0 then True else jb_prefetching jb),
                            jb_empty := uadd (jb_empty jb) 1\<rparr>
                in Some (PJMEDIA_JB_ZERO_EMPTY_FRAME, Some (No_Frame z), finish jb1)))"

definition pjmedia_jbuf_get_frame2 ::
  "pjmedia_jbuf \<Rightarrow> nat option \<Rightarrow> (int \<times> jb_got option \<times> pjmedia_jbuf) option" where
  "pjmedia_jbuf_get_frame2 jb buf_size = pjmedia_jbuf_get_frame3 jb buf_size"

definition pjmedia_jbuf_get_frame :: "pjmedia_jbuf \<Rightarrow> (int \<times> jb_got option \<times> pjmedia_jbuf) option" where
  "pjmedia_jbuf_get_frame jb = pjmedia_jbuf_get_frame3 jb None"

definition pjmedia_jbuf_peek_frame :: "pjmedia_jbuf \<Rightarrow> nat \<Rightarrow> (int \<times> jb_out option) option" where
  "pjmedia_jbuf_peek_frame jb offset =
     (case jb_framelist_peek (jb_framelist jb) offset of
        None \<Rightarrow> None
      | Some None \<Rightarrow> Some (PJMEDIA_JB_ZERO_EMPTY_FRAME, None)
      | Some (Some out) \<Rightarrow>
          Some (if o_type out = PJMEDIA_JB_NORMAL_FRAME then PJMEDIA_JB_NORMAL_FRAME else PJMEDIA_JB_MISSING_FRAME,
                Some out))"

partial_function (option) remove_more :: "jb_framelist_t \<Rightarrow> nat \<Rightarrow> nat \<Rightarrow> (nat \<times> jb_framelist_t) option" where
  "remove_more fl last_discard_num count =
     (if fl_discarded_num fl < last_discard_num then
        let frame_cnt = usub last_discard_num (fl_discarded_num fl);
            (n, fl1) = jb_framelist_remove_head fl frame_cnt
        in remove_more fl1 (fl_discarded_num fl) (uadd (usub count frame_cnt) n)
      else Some (count, fl))"

declare remove_more.simps [code]

definition pjmedia_jbuf_remove_frame :: "pjmedia_jbuf \<Rightarrow> nat \<Rightarrow> (nat \<times> pjmedia_jbuf) option" where
  "pjmedia_jbuf_remove_frame jb frame_cnt =
     (case jb_framelist_remove_head (jb_framelist jb) frame_cnt of
        (n, fl1) \<Rightarrow>
          (case remove_more fl1 (fl_discarded_num (jb_framelist jb)) n of
             None \<Rightarrow> None
           | Some (count, fl2) \<Rightarrow> Some (count, jb\<lparr>jb_framelist := fl2\<rparr>)))"

definition pjmedia_jbuf_set_min_delay :: "pjmedia_jbuf \<Rightarrow> nat \<Rightarrow> pjmedia_jbuf" where
  "pjmedia_jbuf_set_min_delay jb min_delay0 =
     (let min_delay = umul min_delay0 (jb_frame_ptime_denum jb);
          d = min_delay div jb_frame_ptime jb;
          d1 = (if min_delay mod jb_frame_ptime jb \<noteq> 0 then uadd d 1 else d)
      in jb\<lparr>jb_min_delay := (if d1 > jb_max_count jb div 2 then jb_max_count jb div 2 else d1)\<rparr>)"

record pjmedia_jb_state =
  js_frame_size :: nat
  js_min_prefetch :: nat
  js_max_prefetch :: nat
  js_max_count :: nat
  js_min_delay_set :: nat
  js_burst :: nat
  js_prefetch :: nat
  js_size :: nat
  js_avg_delay :: nat
  js_min_delay :: nat
  js_max_delay :: nat
  js_dev_delay :: nat
  js_avg_burst :: nat
  js_lost :: nat
  js_discard :: nat
  js_empty :: nat

definition pjmedia_jbuf_get_state :: "pjmedia_jbuf \<Rightarrow> pjmedia_jb_state option" where
  "pjmedia_jbuf_get_state jb =
     (case pj_math_stat_get_stddev (jb_delay jb) of
        None \<Rightarrow> None
      | Some dev \<Rightarrow>
          Some \<lparr>js_frame_size = jb_frame_size jb, js_min_prefetch = u_of (jb_min_prefetch jb),
                js_max_prefetch = u_of (jb_max_prefetch jb), js_max_count = jb_max_count jb,
                js_min_delay_set = jb_min_delay jb, js_burst = u_of (jb_eff_level jb),
                js_prefetch = u_of (jb_prefetch jb), js_size = jb_framelist_eff_size (jb_framelist jb),
                js_avg_delay = u_of (st_mean (jb_delay jb)), js_min_delay = u_of (st_min (jb_delay jb)),
                js_max_delay = u_of (st_max (jb_delay jb)), js_dev_delay = dev,
                js_avg_burst = u_of (st_mean (jb_burst jb)), js_lost = jb_lost jb,
                js_discard = jb_discard jb, js_empty = jb_empty jb\<rparr>)"

end
