(* ===== verification/Pj_Jbuf_Ring.thy ===== *)
theory Pj_Jbuf_Ring
  imports Pj_Jbuf
begin

text \<open>
  The frame list of the jitter buffer is a sequence of slots that starts at a sequence number:
  the invariant of the ring, the abstraction to the list of slots, and what every operation of
  the frame list does to that list.
\<close>

section \<open>Ranges of arrays\<close>

lemma length_memset_at [simp]: "i + n \<le> length xs \<Longrightarrow> length (memset_at i n v xs) = length xs"
  by (simp add: memset_at_def)

lemma nth_memset_at:
  "i + n \<le> length xs \<Longrightarrow> p < length xs \<Longrightarrow> memset_at i n v xs ! p = (if i \<le> p \<and> p < i + n then v else xs ! p)"
  by (auto simp: memset_at_def nth_append)

lemma length_memcpy_at [simp]: "i + length bs \<le> length xs \<Longrightarrow> length (memcpy_at i bs xs) = length xs"
  by (simp add: memcpy_at_def)

lemma read_memcpy_same:
  "i + length bs \<le> length xs \<Longrightarrow> n \<le> length bs \<Longrightarrow> take n (drop i (memcpy_at i bs xs)) = take n bs"
  by (simp add: memcpy_at_def)

lemma read_memcpy_other:
  assumes "i + length bs \<le> length xs" and "j + n \<le> i \<or> i + length bs \<le> j" and "j + n \<le> length xs"
  shows "take n (drop j (memcpy_at i bs xs)) = take n (drop j xs)"
  by (rule nth_equalityI) (use assms in \<open>auto simp: memcpy_at_def nth_append\<close>)

text \<open>Two slots of the content array do not overlap.\<close>

lemma slot_offset:
  fixes p q n :: nat
  assumes "p < q" and "n \<le> fs"
  shows "p * fs + n \<le> q * fs"
proof -
  have "p * fs + n \<le> (p + 1) * fs" using assms(2) by simp
  also have "\<dots> \<le> q * fs" using assms(1) by (intro mult_le_mono1) simp
  finally show ?thesis .
qed

section \<open>Positions in the ring\<close>

definition ring :: "nat \<Rightarrow> nat \<Rightarrow> nat \<Rightarrow> nat" where
  "ring m h i = (h + i) mod m"

text \<open>The distance of a position from the head.\<close>

definition off :: "nat \<Rightarrow> nat \<Rightarrow> nat \<Rightarrow> nat" where
  "off m h p = (if h \<le> p then p - h else p + m - h)"

lemma ring_less [simp]: "0 < m \<Longrightarrow> ring m h i < m"
  by (simp add: ring_def)

lemma ring_cases: "h < m \<Longrightarrow> i < m \<Longrightarrow> ring m h i = (if h + i < m then h + i else h + i - m)"
  by (simp add: ring_def mod_if)

lemma off_less: "h < m \<Longrightarrow> p < m \<Longrightarrow> off m h p < m"
  by (auto simp: off_def)

lemma ring_off: "h < m \<Longrightarrow> p < m \<Longrightarrow> ring m h (off m h p) = p"
  by (auto simp: ring_cases off_less) (auto simp: off_def split: if_splits)

lemma off_ring: "h < m \<Longrightarrow> i < m \<Longrightarrow> off m h (ring m h i) = i"
  by (auto simp: ring_cases off_def)

lemma ring_inj: "h < m \<Longrightarrow> i < m \<Longrightarrow> j < m \<Longrightarrow> ring m h i = ring m h j \<longleftrightarrow> i = j"
  using off_ring by metis

lemma ring_shift: "ring m (ring m h n) i = ring m h (n + i)"
  by (simp add: ring_def mod_add_left_eq add.assoc)

lemma ring_zero [simp]: "h < m \<Longrightarrow> ring m h 0 = h"
  by (simp add: ring_def)

lemma ring_wrap: "ring m h (m + i) = ring m h i"
  by (metis add.commute add.left_commute mod_add_self2 ring_def)

section \<open>The invariant\<close>

datatype jb_slot = Missing | Discarded | Frame "u8 list" u32 u32

definition slot_at :: "jb_framelist_t \<Rightarrow> nat \<Rightarrow> jb_slot" where
  "slot_at fl p =
     (if fl_frame_type fl ! p = PJMEDIA_JB_MISSING_FRAME then Missing
      else if fl_frame_type fl ! p = PJMEDIA_JB_DISCARDED_FRAME then Discarded
      else Frame (take (fl_content_len fl ! p) (drop (p * fl_frame_size fl) (fl_content fl)))
             (fl_bit_info fl ! p) (fl_ts fl ! p))"

definition slots :: "jb_framelist_t \<Rightarrow> jb_slot list" where
  "slots fl = map (\<lambda>i. slot_at fl (ring (fl_max_count fl) (fl_head fl) i)) [0..<fl_size fl]"

text \<open>The arrays have the sizes they were allocated with.\<close>

definition fl_shape :: "jb_framelist_t \<Rightarrow> bool" where
  "fl_shape fl \<longleftrightarrow>
     0 < fl_max_count fl \<and> fl_max_count fl < 2 ^ 30 \<and> fl_max_count fl * fl_frame_size fl < 2 ^ 32 \<and>
     length (fl_content fl) = fl_max_count fl * fl_frame_size fl \<and>
     length (fl_frame_type fl) = fl_max_count fl \<and> length (fl_content_len fl) = fl_max_count fl \<and>
     length (fl_bit_info fl) = fl_max_count fl \<and> length (fl_ts fl) = fl_max_count fl"

definition fl_ok :: "jb_framelist_t \<Rightarrow> bool" where
  "fl_ok fl \<longleftrightarrow> fl_shape fl \<and>
     fl_head fl < fl_max_count fl \<and> fl_size fl \<le> fl_max_count fl \<and>
     (\<forall>p < fl_max_count fl.
        fl_frame_type fl ! p \<in> {PJMEDIA_JB_MISSING_FRAME, PJMEDIA_JB_NORMAL_FRAME, PJMEDIA_JB_DISCARDED_FRAME} \<and>
        fl_content_len fl ! p \<le> fl_frame_size fl \<and>
        (fl_frame_type fl ! p = PJMEDIA_JB_MISSING_FRAME \<longrightarrow> fl_content_len fl ! p = 0) \<and>
        (fl_size fl \<le> off (fl_max_count fl) (fl_head fl) p \<longrightarrow> fl_frame_type fl ! p = PJMEDIA_JB_MISSING_FRAME)) \<and>
     fl_discarded_num fl = count_list (fl_frame_type fl) PJMEDIA_JB_DISCARDED_FRAME"

lemma fl_okD:
  assumes "fl_ok fl"
  shows "fl_shape fl" and "0 < fl_max_count fl" and "fl_max_count fl < 2 ^ 30" and "fl_head fl < fl_max_count fl"
    and "fl_size fl \<le> fl_max_count fl" and "length (fl_frame_type fl) = fl_max_count fl"
    and "length (fl_content_len fl) = fl_max_count fl"
  using assms by (auto simp: fl_ok_def fl_shape_def)

lemma slots_length [simp]: "length (slots fl) = fl_size fl"
  by (simp add: slots_def)

lemma slots_nth: "i < fl_size fl \<Longrightarrow> slots fl ! i = slot_at fl (ring (fl_max_count fl) (fl_head fl) i)"
  by (simp add: slots_def)

lemma slot_at_Discarded [simp]: "slot_at fl p = Discarded \<longleftrightarrow> fl_frame_type fl ! p = PJMEDIA_JB_DISCARDED_FRAME"
  by (simp add: slot_at_def jb_frames)

lemma slot_at_Missing [simp]: "slot_at fl p = Missing \<longleftrightarrow> fl_frame_type fl ! p = PJMEDIA_JB_MISSING_FRAME"
  by (simp add: slot_at_def)

text \<open>The discarded frames are those of the window.\<close>

lemma slots_nonmissing:
  assumes "fl_ok fl" and "p < fl_max_count fl" and "fl_frame_type fl ! p \<noteq> PJMEDIA_JB_MISSING_FRAME"
  shows "off (fl_max_count fl) (fl_head fl) p < fl_size fl"
  using assms by (auto simp: fl_ok_def not_less)

lemma bij_window:
  assumes "fl_ok fl"
  shows "bij_betw (ring (fl_max_count fl) (fl_head fl))
    {i. i < fl_size fl \<and> slots fl ! i = Discarded}
    {p. p < fl_max_count fl \<and> fl_frame_type fl ! p = PJMEDIA_JB_DISCARDED_FRAME}"
  unfolding bij_betw_def
proof
  note ok = fl_okD [OF assms]
  show "inj_on (ring (fl_max_count fl) (fl_head fl)) {i. i < fl_size fl \<and> slots fl ! i = Discarded}"
    using ok by (auto simp: inj_on_def ring_inj)
  show "ring (fl_max_count fl) (fl_head fl) ` {i. i < fl_size fl \<and> slots fl ! i = Discarded} =
      {p. p < fl_max_count fl \<and> fl_frame_type fl ! p = PJMEDIA_JB_DISCARDED_FRAME}" (is "?f ` ?A = ?B")
  proof
    show "?f ` ?A \<subseteq> ?B" using ok by (auto simp: slots_nth)
    show "?B \<subseteq> ?f ` ?A"
    proof
      fix p assume p: "p \<in> ?B"
      let ?i = "off (fl_max_count fl) (fl_head fl) p"
      have i: "?i < fl_size fl" using slots_nonmissing [OF assms, of p] p by (auto simp: jb_frames)
      have "?f ?i = p" using ring_off p ok(4) by simp
      then show "p \<in> ?f ` ?A" using p i by (force simp: slots_nth intro!: image_eqI [of _ _ ?i])
    qed
  qed
qed

lemma discarded_num_window:
  assumes "fl_ok fl"
  shows "fl_discarded_num fl = count_list (slots fl) Discarded"
proof -
  have "count_list (slots fl) Discarded = card {i. i < fl_size fl \<and> slots fl ! i = Discarded}"
    by (simp add: count_list_eq_length_filter length_filter_conv_card)
      (rule arg_cong [where f = card], auto)
  also have "\<dots> = card {p. p < fl_max_count fl \<and> fl_frame_type fl ! p = PJMEDIA_JB_DISCARDED_FRAME}"
    using bij_window [OF assms] by (rule bij_betw_same_card)
  also have "\<dots> = count_list (fl_frame_type fl) PJMEDIA_JB_DISCARDED_FRAME"
    by (simp add: count_list_eq_length_filter length_filter_conv_card fl_okD(6) [OF assms])
      (rule arg_cong [where f = card], auto)
  finally show ?thesis using assms by (simp add: fl_ok_def)
qed

lemma discarded_le_size: "fl_ok fl \<Longrightarrow> fl_discarded_num fl \<le> fl_size fl"
  using discarded_num_window [of fl] count_le_length [of "slots fl" Discarded] by simp

lemma eff_size_exact:
  assumes "fl_ok fl"
  shows "jb_framelist_eff_size fl = length (filter (\<lambda>s. s \<noteq> Discarded) (slots fl))"
proof -
  have "fl_size fl < 2 ^ 32" using fl_okD [OF assms] by simp
  then have "jb_framelist_eff_size fl = fl_size fl - count_list (slots fl) Discarded"
    using discarded_le_size [OF assms] discarded_num_window [OF assms] by (simp add: jb_framelist_eff_size_def usub_small)
  also have "\<dots> = length (filter (\<lambda>s. s \<noteq> Discarded) (slots fl))"
  proof -
    have "(\<lambda>s. s \<noteq> Discarded) = (\<lambda>s. \<not> Discarded = s)" by auto
    then show ?thesis using sum_length_filter_compl [of "(=) Discarded" "slots fl"]
      by (simp add: count_list_eq_length_filter)
  qed
  finally show ?thesis .
qed

section \<open>Clearing and removing\<close>

lemma count_down_exact:
  "i + n \<le> length ts \<Longrightarrow> count_list (take n (drop i ts)) PJMEDIA_JB_DISCARDED_FRAME \<le> d \<Longrightarrow> d < 2 ^ 32 \<Longrightarrow>
     count_down ts i n d = d - count_list (take n (drop i ts)) PJMEDIA_JB_DISCARDED_FRAME"
proof (induction n arbitrary: i d)
  case (Suc n)
  have t: "take (Suc n) (drop i ts) = ts ! i # take n (drop (i + 1) ts)"
    using Suc.prems(1) by (simp add: Cons_nth_drop_Suc [symmetric])
  show ?case
    using Suc.IH [of "i + 1" "if ts ! i = PJMEDIA_JB_DISCARDED_FRAME then d - 1 else d"] Suc.prems
    by (auto simp: t usub_one [simplified])
qed simp

lemma count_list_memset:
  assumes "i + n \<le> length xs" and "v \<noteq> x"
  shows "count_list (memset_at i n v xs) x + count_list (take n (drop i xs)) x = count_list xs x"
proof -
  have "xs = take i xs @ take n (drop i xs) @ drop (i + n) xs"
    by (metis add.commute append_take_drop_id drop_drop)
  then have "count_list xs x = count_list (take i xs) x + count_list (take n (drop i xs)) x + count_list (drop (i + n) xs) x"
    by (metis add.assoc count_list_append)
  moreover have "count_list (replicate n v) x = 0" using assms(2) by (simp add: count_list_0_iff)
  ultimately show ?thesis by (simp add: memset_at_def)
qed

text \<open>The part of the invariant that does not mention head and size.\<close>

definition fl_cells :: "jb_framelist_t \<Rightarrow> bool" where
  "fl_cells fl \<longleftrightarrow> fl_shape fl \<and>
     (\<forall>p < fl_max_count fl.
        fl_frame_type fl ! p \<in> {PJMEDIA_JB_MISSING_FRAME, PJMEDIA_JB_NORMAL_FRAME, PJMEDIA_JB_DISCARDED_FRAME} \<and>
        fl_content_len fl ! p \<le> fl_frame_size fl \<and>
        (fl_frame_type fl ! p = PJMEDIA_JB_MISSING_FRAME \<longrightarrow> fl_content_len fl ! p = 0)) \<and>
     fl_discarded_num fl = count_list (fl_frame_type fl) PJMEDIA_JB_DISCARDED_FRAME"

definition fl_window :: "jb_framelist_t \<Rightarrow> bool" where
  "fl_window fl \<longleftrightarrow> fl_head fl < fl_max_count fl \<and> fl_size fl \<le> fl_max_count fl \<and>
     (\<forall>i < fl_max_count fl. fl_size fl \<le> i \<longrightarrow>
        fl_frame_type fl ! ring (fl_max_count fl) (fl_head fl) i = PJMEDIA_JB_MISSING_FRAME)"

lemma fl_ok_parts: "fl_ok fl \<longleftrightarrow> fl_cells fl \<and> fl_window fl"
proof
  assume ok: "fl_ok fl"
  then show "fl_cells fl \<and> fl_window fl"
    by (auto simp: fl_ok_def fl_cells_def fl_window_def fl_shape_def off_ring)
next
  assume "fl_cells fl \<and> fl_window fl"
  then show "fl_ok fl"
    unfolding fl_ok_def fl_cells_def fl_window_def
    by (metis off_less ring_off)
qed

lemma clear_range_cells:
  assumes "fl_cells fl" and "i + n \<le> fl_max_count fl"
  shows "fl_cells (clear_range i n fl)"
proof -
  have l: "length (fl_frame_type fl) = fl_max_count fl" "length (fl_content_len fl) = fl_max_count fl"
    "fl_max_count fl < 2 ^ 30"
    using assms(1) by (simp_all add: fl_cells_def fl_shape_def)
  let ?c = "count_list (take n (drop i (fl_frame_type fl))) PJMEDIA_JB_DISCARDED_FRAME"
  have d: "fl_discarded_num fl = count_list (fl_frame_type fl) PJMEDIA_JB_DISCARDED_FRAME"
    using assms(1) by (simp add: fl_cells_def)
  have m: "count_list (memset_at i n PJMEDIA_JB_MISSING_FRAME (fl_frame_type fl)) PJMEDIA_JB_DISCARDED_FRAME + ?c =
      fl_discarded_num fl"
    using count_list_memset [of i n "fl_frame_type fl" PJMEDIA_JB_MISSING_FRAME PJMEDIA_JB_DISCARDED_FRAME] assms(2) l d
    by (simp add: jb_frames)
  have "fl_discarded_num fl < 2 ^ 32"
    using count_le_length [of "fl_frame_type fl" PJMEDIA_JB_DISCARDED_FRAME] l d by simp
  then have c: "count_down (fl_frame_type fl) i n (fl_discarded_num fl) = fl_discarded_num fl - ?c"
    using count_down_exact [of i n "fl_frame_type fl" "fl_discarded_num fl"] assms(2) l m by simp
  show ?thesis
    using assms l m c by (auto simp: fl_cells_def fl_shape_def clear_range_def nth_memset_at)
qed

lemma clear_range_nth:
  assumes "fl_shape fl" and "i + n \<le> fl_max_count fl" and "p < fl_max_count fl"
  shows "fl_frame_type (clear_range i n fl) ! p =
    (if i \<le> p \<and> p < i + n then PJMEDIA_JB_MISSING_FRAME else fl_frame_type fl ! p)"
  and "\<not> (i \<le> p \<and> p < i + n) \<Longrightarrow> slot_at (clear_range i n fl) p = slot_at fl p"
  using assms by (auto simp: clear_range_def fl_shape_def nth_memset_at slot_at_def)

lemma clear_range_simps [simp]:
  "fl_max_count (clear_range i n fl) = fl_max_count fl" "fl_frame_size (clear_range i n fl) = fl_frame_size fl"
  "fl_head (clear_range i n fl) = fl_head fl" "fl_size (clear_range i n fl) = fl_size fl"
  "fl_origin (clear_range i n fl) = fl_origin fl"
  by (simp_all add: clear_range_def)

text \<open>Both steps of a removal together clear the positions up to the distance \<^term>\<open>n\<close> from the head.\<close>

definition clear_both :: "nat \<Rightarrow> jb_framelist_t \<Rightarrow> jb_framelist_t" where
  "clear_both n fl =
     (if fl_head fl + n > fl_max_count fl
      then clear_range 0 (n - (fl_max_count fl - fl_head fl)) (clear_range (fl_head fl) (fl_max_count fl - fl_head fl) fl)
      else clear_range (fl_head fl) n fl)"

lemma remove_head_eq:
  assumes "fl_ok fl" and n: "n = min count (fl_size fl)"
  shows "jb_framelist_remove_head fl count =
    (n, if n = 0 then fl else (clear_both n fl)\<lparr>fl_origin := fl_origin fl + int n,
       fl_head := ring (fl_max_count fl) (fl_head fl) n, fl_size := fl_size fl - n\<rparr>)"
proof -
  note ok = fl_okD [OF assms(1)]
  have c: "(if count > fl_size fl then fl_size fl else count) = n" using n by simp
  have n1: "n \<le> fl_size fl" using n by simp
  have u: "uadd (fl_head fl) n = fl_head fl + n" using ok n1 by (simp add: uadd_small)
  have s: "usub (fl_max_count fl) (fl_head fl) = fl_max_count fl - fl_head fl"
    "usub (fl_size fl) n = fl_size fl - n" "usub n 0 = n"
    using ok n1 by (simp_all add: usub_small)
  have s2: "fl_head fl + n > fl_max_count fl \<Longrightarrow>
      usub n (fl_max_count fl - fl_head fl) = n - (fl_max_count fl - fl_head fl)"
    using ok n1 by (simp add: usub_small)
  show ?thesis
    unfolding jb_framelist_remove_head_def c Let_def u s
    using ok by (auto simp: clear_both_def ring_def s s2 u)
qed

lemma clear_both_spec:
  assumes "fl_ok fl" and "n \<le> fl_size fl" and "0 < n"
  shows "fl_cells (clear_both n fl)"
    and "i < fl_max_count fl \<Longrightarrow> fl_frame_type (clear_both n fl) ! ring (fl_max_count fl) (fl_head fl) i =
      (if i < n then PJMEDIA_JB_MISSING_FRAME else fl_frame_type fl ! ring (fl_max_count fl) (fl_head fl) i)"
    and "i < fl_max_count fl \<Longrightarrow> n \<le> i \<Longrightarrow>
      slot_at (clear_both n fl) (ring (fl_max_count fl) (fl_head fl) i) = slot_at fl (ring (fl_max_count fl) (fl_head fl) i)"
proof -
  note ok = fl_okD [OF assms(1)]
  have cells: "fl_cells fl" using assms(1) by (simp add: fl_ok_parts)
  let ?m = "fl_max_count fl" and ?h = "fl_head fl"
  have shape1: "fl_shape (clear_range ?h (?m - ?h) fl)"
    using clear_range_cells [OF cells, of ?h "?m - ?h"] ok by (simp add: fl_cells_def)
  show "fl_cells (clear_both n fl)"
    using ok assms(2) by (auto simp: clear_both_def intro!: clear_range_cells cells)
  show "i < ?m \<Longrightarrow> fl_frame_type (clear_both n fl) ! ring ?m ?h i =
      (if i < n then PJMEDIA_JB_MISSING_FRAME else fl_frame_type fl ! ring ?m ?h i)"
    using ok assms(2) shape1
    by (auto simp: clear_both_def clear_range_nth(1) ring_cases)
  show "i < ?m \<Longrightarrow> n \<le> i \<Longrightarrow> slot_at (clear_both n fl) (ring ?m ?h i) = slot_at fl (ring ?m ?h i)"
    using ok assms(2) shape1
    by (auto simp: clear_both_def clear_range_nth(2) ring_cases)
qed

lemma clear_both_simps [simp]:
  "fl_max_count (clear_both n fl) = fl_max_count fl" "fl_frame_size (clear_both n fl) = fl_frame_size fl"
  "fl_size (clear_both n fl) = fl_size fl" "fl_head (clear_both n fl) = fl_head fl"
  by (simp_all add: clear_both_def)

lemma slot_at_cong:
  "fl_frame_type fl' = fl_frame_type fl \<Longrightarrow> fl_content_len fl' = fl_content_len fl \<Longrightarrow>
   fl_content fl' = fl_content fl \<Longrightarrow> fl_frame_size fl' = fl_frame_size fl \<Longrightarrow>
   fl_bit_info fl' = fl_bit_info fl \<Longrightarrow> fl_ts fl' = fl_ts fl \<Longrightarrow> slot_at fl' p = slot_at fl p"
  by (simp add: slot_at_def)

lemma remove_head_spec:
  assumes "fl_ok fl" and "jb_framelist_remove_head fl count = (n, fl')"
  shows "fl_ok fl'" and "n = min count (fl_size fl)" and "slots fl' = drop n (slots fl)"
    and "fl_origin fl' = fl_origin fl + int n" and "fl_max_count fl' = fl_max_count fl"
    and "fl_frame_size fl' = fl_frame_size fl"
proof -
  note ok = fl_okD [OF assms(1)]
  let ?m = "fl_max_count fl" and ?h = "fl_head fl"
  have n: "n = min count (fl_size fl)"
    and e: "fl' = (if n = 0 then fl else (clear_both n fl)\<lparr>fl_origin := fl_origin fl + int n,
       fl_head := ring ?m ?h n, fl_size := fl_size fl - n\<rparr>)"
    using assms(2) remove_head_eq [OF assms(1) refl, of count] by auto
  show "n = min count (fl_size fl)" by (rule n)
  show "fl_origin fl' = fl_origin fl + int n" "fl_max_count fl' = ?m" "fl_frame_size fl' = fl_frame_size fl"
    by (simp_all add: e)
  have "fl_ok fl' \<and> slots fl' = drop n (slots fl)"
  proof (cases "n = 0")
    case False
    have nn: "n \<le> fl_size fl" "0 < n" using n False by auto
    note c = clear_both_spec [OF assms(1) nn]
    have "fl_cells fl'" using c(1) False by (simp add: e fl_cells_def fl_shape_def)
    moreover have "fl_window fl'"
      unfolding fl_window_def
    proof (intro conjI allI impI)
      show "fl_head fl' < fl_max_count fl'" "fl_size fl' \<le> fl_max_count fl'" using e ok False by auto
      fix i assume i: "i < fl_max_count fl'" "fl_size fl' \<le> i"
      show "fl_frame_type fl' ! ring (fl_max_count fl') (fl_head fl') i = PJMEDIA_JB_MISSING_FRAME"
      proof (cases "n + i < ?m")
        case True
        have "fl_frame_type fl ! ring ?m ?h (n + i) = PJMEDIA_JB_MISSING_FRAME"
          using assms(1) True i False nn by (auto simp: fl_ok_parts fl_window_def e)
        then show ?thesis using c(2) [OF True] False by (simp add: e ring_shift)
      next
        case out: False
        define j where "j = n + i - ?m"
        have "ring ?m ?h (n + i) = ring ?m ?h j" using ring_wrap [of ?m ?h j] out by (simp add: j_def)
        moreover have "j < n" "j < ?m" using i out nn ok by (auto simp: j_def e)
        ultimately show ?thesis using c(2) [of j] False by (simp add: e ring_shift)
      qed
    qed
    moreover have "slots fl' = drop n (slots fl)"
    proof (rule nth_equalityI)
      fix i assume "i < length (slots fl')"
      then have i: "n + i < fl_size fl" "i < fl_size fl'" using False by (simp_all add: e)
      have "slots fl' ! i = slot_at (clear_both n fl) (ring ?m ?h (n + i))"
        using i False by (simp add: slots_nth e ring_shift slot_at_def)
      also have "\<dots> = slots fl ! (n + i)" using c(3) [of "n + i"] i ok by (simp add: slots_nth)
      finally show "slots fl' ! i = drop n (slots fl) ! i" using i by simp
    qed (use False in \<open>simp add: e\<close>)
    ultimately show ?thesis by (simp add: fl_ok_parts)
  qed (use assms(1) e in simp)
  then show "fl_ok fl'" "slots fl' = drop n (slots fl)" by blast+
qed

section \<open>Reset\<close>

lemma reset_spec:
  assumes "fl_shape fl"
  shows "fl_ok (jb_framelist_reset fl)" and "slots (jb_framelist_reset fl) = []"
    and "fl_origin (jb_framelist_reset fl) = INVALID_OFFSET"
proof -
  have "memset_at 0 (fl_max_count fl) PJMEDIA_JB_MISSING_FRAME (fl_frame_type fl) =
      replicate (fl_max_count fl) PJMEDIA_JB_MISSING_FRAME"
    using assms by (simp add: memset_at_def fl_shape_def)
  moreover have "count_list (replicate (fl_max_count fl) PJMEDIA_JB_MISSING_FRAME) PJMEDIA_JB_DISCARDED_FRAME = 0"
    by (simp add: count_list_0_iff jb_frames)
  ultimately show "fl_ok (jb_framelist_reset fl)"
    using assms by (auto simp: fl_ok_parts fl_cells_def fl_window_def fl_shape_def jb_framelist_reset_def nth_memset_at)
qed (simp_all add: jb_framelist_reset_def slots_def)

lemma reset_simps [simp]:
  "fl_max_count (jb_framelist_reset fl) = fl_max_count fl" "fl_frame_size (jb_framelist_reset fl) = fl_frame_size fl"
  "fl_size (jb_framelist_reset fl) = 0" "fl_head (jb_framelist_reset fl) = 0"
  by (simp_all add: jb_framelist_reset_def)

lemma origin_update_ok [simp]: "fl_ok (fl\<lparr>fl_origin := o1\<rparr>) = fl_ok fl"
  by (simp add: fl_ok_def fl_shape_def)

lemma origin_update_slots [simp]: "slots (fl\<lparr>fl_origin := o1\<rparr>) = slots fl"
  by (simp add: slots_def slot_at_def)

section \<open>Retrieval\<close>

lemma head_slot:
  assumes "fl_ok fl" and "slots fl = s # ss"
  shows "slot_at fl (fl_head fl) = s"
  using assms fl_okD [OF assms(1)] slots_nth [of 0 fl] by (simp flip: slots_length)

lemma head_empty:
  assumes "fl_ok fl" and "slots fl = []"
  shows "fl_frame_type fl ! fl_head fl = PJMEDIA_JB_MISSING_FRAME"
proof -
  have "fl_size fl = 0" using assms(2) by (simp flip: slots_length)
  then show ?thesis using assms(1) fl_okD [OF assms(1)] by (auto simp: fl_ok_parts fl_window_def dest!: spec [of _ 0])
qed

text \<open>Skipping ends, because a slot outside the window is never a discarded frame.\<close>

lemma skip_discarded_spec:
  assumes "fl_ok fl"
  shows "\<exists>fl'. skip_discarded fl b = Some (fl', b \<or> takeWhile (\<lambda>s. s = Discarded) (slots fl) \<noteq> []) \<and> fl_ok fl' \<and>
    slots fl' = dropWhile (\<lambda>s. s = Discarded) (slots fl) \<and>
    fl_origin fl' = fl_origin fl + int (length (takeWhile (\<lambda>s. s = Discarded) (slots fl))) \<and>
    fl_max_count fl' = fl_max_count fl \<and> fl_frame_size fl' = fl_frame_size fl"
  using assms
proof (induction "slots fl" arbitrary: fl b)
  case Nil
  then show ?case using head_empty [OF Nil.prems Nil.hyps [symmetric]]
    by (subst skip_discarded.simps) (simp add: Nil.hyps [symmetric] jb_frames)
next
  case (Cons s ss)
  note h = head_slot [OF Cons.prems Cons.hyps(2) [symmetric]]
  show ?case
  proof (cases "s = Discarded")
    case True
    obtain n fl1 where r: "jb_framelist_remove_head fl 1 = (n, fl1)" by (cases "jb_framelist_remove_head fl 1")
    note R = remove_head_spec [OF Cons.prems r]
    have sz: "fl_size fl = Suc (length ss)" using Cons.hyps(2) by (metis length_Cons slots_length)
    then have n: "n = 1" using R(2) by simp
    have ss: "slots fl1 = ss" using R(3) n by (simp add: Cons.hyps(2) [symmetric])
    have "fl_frame_type fl ! fl_head fl = PJMEDIA_JB_DISCARDED_FRAME" using h True by auto
    then have "skip_discarded fl b = skip_discarded fl1 True" using r by (subst skip_discarded.simps) simp
    then show ?thesis using Cons.hyps(1) [OF ss [symmetric] R(1), of True] R n True
      by (auto simp: Cons.hyps(2) [symmetric] ss)
  next
    case False
    then have "fl_frame_type fl ! fl_head fl \<noteq> PJMEDIA_JB_DISCARDED_FRAME" using h by auto
    then have "skip_discarded fl b = Some (fl, b)" by (subst skip_discarded.simps) simp
    then show ?thesis using Cons.prems False by (simp add: Cons.hyps(2) [symmetric])
  qed
qed

text \<open>The frame handed out for a slot: nothing of a missing one, the contents of a normal one cut to the
  caller's buffer.\<close>

definition shows_slot :: "nat option \<Rightarrow> jb_slot \<Rightarrow> jb_out \<Rightarrow> bool" where
  "shows_slot buf_size s out \<longleftrightarrow>
     (case s of
        Frame bs bi t \<Rightarrow>
          o_type out = PJMEDIA_JB_NORMAL_FRAME \<and> o_bit_info out = bi \<and> o_ts out = t \<and>
          o_frame out = (case buf_size of None \<Rightarrow> bs | Some n \<Rightarrow> take n bs) \<and> o_size out = length (o_frame out)
      | _ \<Rightarrow> o_type out = PJMEDIA_JB_MISSING_FRAME \<and> o_frame out = [] \<and> o_size out = 0)"

lemma content_length:
  assumes "fl_ok fl" and "p < fl_max_count fl"
  shows "length (take (fl_content_len fl ! p) (drop (p * fl_frame_size fl) (fl_content fl))) = fl_content_len fl ! p"
proof -
  have "fl_content_len fl ! p \<le> fl_frame_size fl" "length (fl_content fl) = fl_max_count fl * fl_frame_size fl"
    using assms by (auto simp: fl_ok_def fl_shape_def)
  then show ?thesis using slot_offset [OF assms(2), of "fl_content_len fl ! p" "fl_frame_size fl"] by simp
qed

lemma umul_slot:
  assumes "fl_shape fl" and "p < fl_max_count fl"
  shows "umul p (fl_frame_size fl) = p * fl_frame_size fl"
proof -
  have "p * fl_frame_size fl \<le> fl_max_count fl * fl_frame_size fl" using assms(2) by (intro mult_le_mono1) simp
  also have "\<dots> < 2 ^ 32" using assms(1) by (simp add: fl_shape_def)
  finally show ?thesis by (rule umul_small)
qed

lemma take_head_spec:
  assumes ok: "fl_ok fl" and sl: "slots fl = s # ss" and nd: "s \<noteq> Discarded"
    and t: "take_head fl buf_size prev = (out, fl')"
  shows "fl_ok fl'" and "slots fl' = ss" and "fl_origin fl' = fl_origin fl + 1" and "o_seq out = fl_origin fl"
    and "fl_max_count fl' = fl_max_count fl" and "fl_frame_size fl' = fl_frame_size fl"
    and "shows_slot buf_size (if prev then Missing else s) out"
proof -
  note k = fl_okD [OF ok]
  let ?m = "fl_max_count fl" and ?h = "fl_head fl"
  have sz: "fl_size fl = Suc (length ss)" using sl by (metis length_Cons slots_length)
  have sa: "slot_at fl ?h = s" by (rule head_slot [OF ok sl])
  then have ft: "fl_frame_type fl ! ?h \<noteq> PJMEDIA_JB_DISCARDED_FRAME" using nd by auto
  have u: "uadd ?h 1 mod ?m = ring ?m ?h 1" "usub (fl_size fl) 1 = fl_size fl - 1"
    using k sz by (simp_all add: uadd_small ring_def usub_small)
  have e: "fl' = fl\<lparr>fl_frame_type := (fl_frame_type fl)[?h := PJMEDIA_JB_MISSING_FRAME],
                  fl_content_len := (fl_content_len fl)[?h := 0], fl_bit_info := (fl_bit_info fl)[?h := 0],
                  fl_ts := (fl_ts fl)[?h := 0], fl_origin := fl_origin fl + 1,
                  fl_head := ring ?m ?h 1, fl_size := fl_size fl - 1\<rparr>"
    using t u by (auto simp: take_head_def Let_def)
  show "fl_origin fl' = fl_origin fl + 1" "fl_max_count fl' = ?m" "fl_frame_size fl' = fl_frame_size fl"
    by (simp_all add: e)
  show "o_seq out = fl_origin fl" using t by (auto simp: take_head_def Let_def)
  have cnt: "count_list ((fl_frame_type fl)[?h := PJMEDIA_JB_MISSING_FRAME]) PJMEDIA_JB_DISCARDED_FRAME =
      count_list (fl_frame_type fl) PJMEDIA_JB_DISCARDED_FRAME"
    using k ft by (simp add: count_list_eq_length_filter length_filter_conv_card nth_list_update jb_frames)
      (rule arg_cong [where f = card], auto)
  have "fl_cells fl'"
    using ok k cnt by (auto simp: e fl_ok_def fl_cells_def fl_shape_def nth_list_update)
  moreover have "fl_window fl'"
    unfolding fl_window_def
  proof (intro conjI allI impI)
    show "fl_head fl' < fl_max_count fl'" "fl_size fl' \<le> fl_max_count fl'" using e k by auto
    fix i assume i: "i < fl_max_count fl'" "fl_size fl' \<le> i"
    show "fl_frame_type fl' ! ring (fl_max_count fl') (fl_head fl') i = PJMEDIA_JB_MISSING_FRAME"
    proof (cases "Suc i < ?m")
      case True
      have "fl_frame_type fl ! ring ?m ?h (Suc i) = PJMEDIA_JB_MISSING_FRAME"
        using ok True i sz by (auto simp: fl_ok_parts fl_window_def e)
      then show ?thesis using k by (auto simp: e ring_shift nth_list_update)
    next
      case False
      then have "Suc i = ?m" using i by (simp add: e)
      then have "ring ?m ?h (Suc i) = ?h" using ring_wrap [of ?m ?h 0] k by simp
      then show ?thesis using k by (simp add: e ring_shift)
    qed
  qed
  ultimately show "fl_ok fl'" by (simp add: fl_ok_parts)
  show "slots fl' = ss"
  proof (rule nth_equalityI)
    fix i assume "i < length (slots fl')"
    then have i: "i < length ss" "Suc i < ?m" using sz k by (simp_all add: e)
    then have ne: "ring ?m ?h (Suc i) \<noteq> ?h" using ring_inj [of ?h ?m "Suc i" 0] k by simp
    have "slots fl' ! i = slot_at fl (ring ?m ?h (Suc i))"
      using i sz k ne by (simp add: slots_nth e ring_shift slot_at_def)
    also have "\<dots> = slots fl ! Suc i" using i sz by (simp add: slots_nth)
    finally show "slots fl' ! i = ss ! i" using sl by simp
  qed (simp add: e sz)
  have ty: "fl_frame_type fl ! ?h = PJMEDIA_JB_MISSING_FRAME \<and> fl_content_len fl ! ?h = 0 \<or>
      fl_frame_type fl ! ?h = PJMEDIA_JB_NORMAL_FRAME" using ok ft k by (auto simp: fl_ok_def)
  note cl = content_length [OF ok k(4)] and um = umul_slot [OF k(1) k(4)]
  show "shows_slot buf_size (if prev then Missing else s) out"
    using t ty cl sa by (auto simp: shows_slot_def take_head_def Let_def um slot_at_def jb_frames split: option.splits)
qed

lemma get_spec:
  assumes ok: "fl_ok fl"
  defines "d \<equiv> length (takeWhile (\<lambda>s. s = Discarded) (slots fl))"
  shows "case dropWhile (\<lambda>s. s = Discarded) (slots fl) of
     [] \<Rightarrow> \<exists>fl'. jb_framelist_get fl buf_size = Some (No_Frame (replicate (fl_frame_size fl) 0), fl') \<and> fl_ok fl' \<and>
             slots fl' = [] \<and> fl_origin fl' = fl_origin fl + int d \<and>
             fl_max_count fl' = fl_max_count fl \<and> fl_frame_size fl' = fl_frame_size fl
   | s # ss \<Rightarrow> \<exists>out fl'. jb_framelist_get fl buf_size = Some (Got out, fl') \<and> fl_ok fl' \<and> slots fl' = ss \<and>
             o_seq out = fl_origin fl + int d \<and> fl_origin fl' = fl_origin fl + int d + 1 \<and>
             shows_slot buf_size (if 0 < d then Missing else s) out \<and>
             fl_max_count fl' = fl_max_count fl \<and> fl_frame_size fl' = fl_frame_size fl"
proof -
  obtain fl1 where s: "skip_discarded fl False = Some (fl1, 0 < d)" "fl_ok fl1"
      "slots fl1 = dropWhile (\<lambda>s. s = Discarded) (slots fl)" "fl_origin fl1 = fl_origin fl + int d"
      "fl_max_count fl1 = fl_max_count fl" "fl_frame_size fl1 = fl_frame_size fl"
    using skip_discarded_spec [OF ok, of False] by (auto simp: d_def)
  show ?thesis
  proof (cases "slots fl1")
    case Nil
    then have z: "fl_size fl1 = 0" by (metis list.size(3) slots_length)
    show ?thesis
    proof (cases "fl_size fl = 0")
      case True
      then have "slots fl = []" by (metis length_0_conv slots_length)
      then show ?thesis using True ok by (simp add: jb_framelist_get_def d_def)
    next
      case False
      then have "jb_framelist_get fl buf_size = Some (No_Frame (replicate (fl_frame_size fl) 0), fl1)"
        using s(1,6) z by (simp add: jb_framelist_get_def)
      then show ?thesis using s Nil by simp
    qed
  next
    case (Cons x ss)
    then have "x \<noteq> Discarded" using hd_dropWhile [of "\<lambda>s. s = Discarded" "slots fl"] unfolding s(3) [symmetric] by simp
    obtain out fl2 where t: "take_head fl1 buf_size (0 < d) = (out, fl2)" by (cases "take_head fl1 buf_size (0 < d)")
    note T = take_head_spec [OF s(2) Cons \<open>x \<noteq> Discarded\<close> t]
    have "slots fl1 \<noteq> []" "slots fl \<noteq> []" using Cons s(3) by auto
    then have "fl_size fl1 \<noteq> 0" "fl_size fl \<noteq> 0" by (metis length_0_conv slots_length)+
    then have "jb_framelist_get fl buf_size = Some (Got out, fl2)" using s(1) t by (simp add: jb_framelist_get_def)
    then show ?thesis unfolding s(3) [symmetric] Cons using T s(4-6) by simp
  qed
qed

end
