(* ===== verification/Pj_Jbuf_Put.thy ===== *)
theory Pj_Jbuf_Put
  imports Pj_Jbuf_Ring
begin

text \<open>
  Storing, discarding and inspecting frames in the ring, against the list of slots: an
  abstract insertion into a sequence that starts at a sequence number, and the proof that
  \<^verbatim>\<open>jb_framelist_put_at\<close> implements it.
\<close>

section \<open>Writing one slot\<close>

definition store :: "jb_framelist_t \<Rightarrow> nat \<Rightarrow> u8 list \<Rightarrow> nat \<Rightarrow> u32 \<Rightarrow> u32 \<Rightarrow> jb_framelist_t" where
  "store fl d frame n bit_info ts =
     (let pos = ring (fl_max_count fl) (fl_head fl) d
      in fl\<lparr>fl_frame_type := (fl_frame_type fl)[pos := PJMEDIA_JB_NORMAL_FRAME],
            fl_content_len := (fl_content_len fl)[pos := n],
            fl_bit_info := (fl_bit_info fl)[pos := bit_info],
            fl_ts := (fl_ts fl)[pos := ts],
            fl_size := (if fl_size fl \<le> d then d + 1 else fl_size fl),
            fl_content := memcpy_at (pos * fl_frame_size fl) (take n frame) (fl_content fl)\<rparr>)"

text \<open>A sequence of slots with a frame put at a distance; slots skipped are missing.\<close>

definition put_slot :: "jb_slot list \<Rightarrow> nat \<Rightarrow> jb_slot \<Rightarrow> jb_slot list" where
  "put_slot xs d s = (if d < length xs then xs[d := s] else xs @ replicate (d - length xs) Missing @ [s])"

lemma put_slot_nth:
  "i < length (put_slot xs d s) \<Longrightarrow>
     put_slot xs d s ! i = (if i = d then s else if i < length xs then xs ! i else Missing)"
  by (auto simp: put_slot_def nth_append nth_list_update)

lemma put_slot_length: "length (put_slot xs d s) = (if length xs \<le> d then d + 1 else length xs)"
  by (simp add: put_slot_def)

lemma store_content:
  assumes ok: "fl_ok fl" and d: "d < fl_max_count fl" and n: "n \<le> fl_frame_size fl" "n \<le> length frame"
  shows "length (fl_content (store fl d frame n bi ts)) = fl_max_count fl * fl_frame_size fl"
    and "take n (drop (ring (fl_max_count fl) (fl_head fl) d * fl_frame_size fl) (fl_content (store fl d frame n bi ts))) = take n frame"
    and "p < fl_max_count fl \<Longrightarrow> p \<noteq> ring (fl_max_count fl) (fl_head fl) d \<Longrightarrow> k \<le> fl_frame_size fl \<Longrightarrow>
      take k (drop (p * fl_frame_size fl) (fl_content (store fl d frame n bi ts))) = take k (drop (p * fl_frame_size fl) (fl_content fl))"
proof -
  let ?q = "ring (fl_max_count fl) (fl_head fl) d" and ?fs = "fl_frame_size fl"
  have q: "?q < fl_max_count fl" using fl_okD [OF ok] by simp
  have l: "length (fl_content fl) = fl_max_count fl * ?fs" using ok by (simp add: fl_ok_def fl_shape_def)
  have b: "?q * ?fs + length (take n frame) \<le> length (fl_content fl)"
    using slot_offset [OF q n(1)] n(2) l by simp
  show "length (fl_content (store fl d frame n bi ts)) = fl_max_count fl * ?fs" using b l by (simp add: store_def Let_def)
  show "take n (drop (?q * ?fs) (fl_content (store fl d frame n bi ts))) = take n frame"
    using read_memcpy_same [OF b, of n] n(2) by (simp add: store_def Let_def)
  assume p: "p < fl_max_count fl" "p \<noteq> ?q" "k \<le> ?fs"
  have "p * ?fs + k \<le> ?q * ?fs \<or> ?q * ?fs + length (take n frame) \<le> p * ?fs"
    using p(2) slot_offset [of p ?q k ?fs] slot_offset [of ?q p "length (take n frame)" ?fs] p(3) n
    by (cases "p < ?q") simp_all
  then show "take k (drop (p * ?fs) (fl_content (store fl d frame n bi ts))) = take k (drop (p * ?fs) (fl_content fl))"
    using read_memcpy_other [OF b] slot_offset [OF p(1) p(3)] l by (simp add: store_def Let_def)
qed

lemma store_fields [simp]:
  "fl_max_count (store fl d frame n bi ts) = fl_max_count fl" "fl_frame_size (store fl d frame n bi ts) = fl_frame_size fl"
  "fl_head (store fl d frame n bi ts) = fl_head fl" "fl_origin (store fl d frame n bi ts) = fl_origin fl"
  "fl_size (store fl d frame n bi ts) = (if fl_size fl \<le> d then d + 1 else fl_size fl)"
  by (simp_all add: store_def Let_def)

lemma store_spec:
  assumes ok: "fl_ok fl" and d: "d < fl_max_count fl" and n: "n \<le> fl_frame_size fl" "n \<le> length frame"
    and free: "fl_frame_type fl ! ring (fl_max_count fl) (fl_head fl) d = PJMEDIA_JB_MISSING_FRAME"
  shows "fl_ok (store fl d frame n bi ts)"
    and "slots (store fl d frame n bi ts) = put_slot (slots fl) d (Frame (take n frame) bi ts)"
proof -
  note k = fl_okD [OF ok] and c = store_content [OF ok d n]
  let ?m = "fl_max_count fl" and ?h = "fl_head fl" and ?fl = "store fl d frame n bi ts"
  let ?q = "ring ?m ?h d"
  have q: "?q < ?m" using k by simp
  have ft: "fl_frame_type ?fl = (fl_frame_type fl)[?q := PJMEDIA_JB_NORMAL_FRAME]"
    "fl_content_len ?fl = (fl_content_len fl)[?q := n]" "fl_bit_info ?fl = (fl_bit_info fl)[?q := bi]"
    "fl_ts ?fl = (fl_ts fl)[?q := ts]" "fl_discarded_num ?fl = fl_discarded_num fl"
    by (simp_all add: store_def Let_def)
  have cnt: "count_list ((fl_frame_type fl)[?q := PJMEDIA_JB_NORMAL_FRAME]) PJMEDIA_JB_DISCARDED_FRAME =
      count_list (fl_frame_type fl) PJMEDIA_JB_DISCARDED_FRAME"
    using k free by (simp add: count_list_eq_length_filter length_filter_conv_card nth_list_update jb_frames)
      (rule arg_cong [where f = card], auto)
  have "fl_cells ?fl"
    using ok k cnt c(1) n ft by (auto simp: fl_ok_def fl_cells_def fl_shape_def nth_list_update jb_frames)
  moreover have "fl_window ?fl"
    using ok k d ft by (auto simp: fl_ok_parts fl_window_def nth_list_update ring_inj)
  ultimately show "fl_ok ?fl" by (simp add: fl_ok_parts)
  show "slots ?fl = put_slot (slots fl) d (Frame (take n frame) bi ts)"
  proof (rule nth_equalityI)
    show l: "length (slots ?fl) = length (put_slot (slots fl) d (Frame (take n frame) bi ts))"
      by (simp add: put_slot_length)
    fix i assume i: "i < length (slots ?fl)"
    then have i1: "i < fl_size ?fl" "i < ?m" using k d by (auto split: if_splits)
    have "slots ?fl ! i = (if i = d then Frame (take n frame) bi ts
        else if i < fl_size fl then slots fl ! i else Missing)"
    proof (cases "i = d")
      case True
      then show ?thesis using i1 q k ok c(2) ft
        by (simp add: slots_nth slot_at_def jb_frames fl_ok_def fl_shape_def)
    next
      case False
      then have ne: "ring ?m ?h i \<noteq> ?q" using ring_inj [of ?h ?m i d] k i1 d by simp
      have "fl_content_len fl ! ring ?m ?h i \<le> fl_frame_size fl" using ok k by (auto simp: fl_ok_def)
      then have "slot_at ?fl (ring ?m ?h i) = slot_at fl (ring ?m ?h i)"
        using c(3) [of "ring ?m ?h i" "fl_content_len fl ! ring ?m ?h i"] ne ft k by (simp add: slot_at_def)
      moreover have "\<not> i < fl_size fl \<Longrightarrow> slot_at fl (ring ?m ?h i) = Missing"
        using ok i1(2) by (simp add: fl_ok_parts fl_window_def)
      ultimately show ?thesis using False i1 by (simp add: slots_nth)
    qed
    then show "slots ?fl ! i = put_slot (slots fl) d (Frame (take n frame) bi ts) ! i"
      using i unfolding l by (simp add: put_slot_nth)
  qed
qed

section \<open>The abstract insertion\<close>

text \<open>The three outcomes of placing a frame: too late, at a distance from a possibly new origin.\<close>

definition abs_place :: "int \<Rightarrow> jb_slot list \<Rightarrow> int \<Rightarrow> (int \<times> jb_slot list \<times> int) option" where
  "abs_place og xs index =
     (if xs = [] \<and> \<not> (index < og \<and> og - index < MAX_MISORDER) then Some (index, [], 0)
      else if index < og then
        if og - index < MAX_MISORDER then None
        else if u_of (og + int (length xs)) \<ge> MAX_FRAME_INDEX then Some (index - int (length xs), xs, int (length xs))
        else Some (index, [], 0)
      else Some (og, xs, index - og))"

definition abs_put :: "nat \<Rightarrow> int \<Rightarrow> jb_slot list \<Rightarrow> int \<Rightarrow> jb_slot \<Rightarrow> pj_status_t \<times> int \<times> jb_slot list" where
  "abs_put m og xs index s =
     (case abs_place og xs index of
        None \<Rightarrow> (PJ_ETOOSMALL, og, xs)
      | Some (og1, xs1, d) \<Rightarrow>
          if d \<ge> int m then (if d > MAX_DROPOUT then (PJ_SUCCESS, index, [s]) else (PJ_ETOOMANY, og1, xs1))
          else if nat d < length xs1 \<and> xs1 ! nat d \<noteq> Missing then (PJ_EEXISTS, og1, xs1)
          else (PJ_SUCCESS, og1, put_slot xs1 (nat d) s))"

definition seq_range :: "int \<Rightarrow> bool" where
  "seq_range i \<longleftrightarrow> - (2 ^ 29) \<le> i \<and> i < 2 ^ 29"

lemma place_spec:
  assumes ok: "fl_ok fl" and i: "seq_range index" and o: "seq_range (fl_origin fl)"
  shows "(case place fl index of
      Inl st \<Rightarrow> st = PJ_ETOOSMALL \<and> abs_place (fl_origin fl) (slots fl) index = None
    | Inr (fl1, d1) \<Rightarrow>
        \<exists>og xs d. abs_place (fl_origin fl) (slots fl) index = Some (og, xs, d) \<and>
          (if fl_size fl1 = 0 then (fl1\<lparr>fl_origin := index\<rparr>, 0) else (fl1, d1)) =
            ((if fl_size fl1 = 0 then fl1\<lparr>fl_origin := index\<rparr> else fl1), d) \<and>
          fl_ok fl1 \<and> slots fl1 = xs \<and> og = (if fl_size fl1 = 0 then index else fl_origin fl1) \<and>
          index = og + d \<and> 0 \<le> d \<and> fl_max_count fl1 = fl_max_count fl \<and> fl_frame_size fl1 = fl_frame_size fl)"
proof -
  have e: "slots fl = [] \<longleftrightarrow> fl_size fl = 0" by (metis length_0_conv slots_length)
  have sz: "fl_size fl < 2 ^ 30" using fl_okD [OF ok] by simp
  have s1: "s_of (fl_size fl) = int (fl_size fl)" using sz by (simp add: s_of_small)
  have s2: "s_of (u_of (index - int (fl_size fl))) = index - int (fl_size fl)"
    using sz i by (intro s_of_u_of) (simp_all add: seq_range_def)
  note r = reset_spec [OF fl_okD(1) [OF ok]]
  show ?thesis
  proof (cases "index < fl_origin fl")
    case True
    show ?thesis
      using True ok r e by (auto simp: place_def abs_place_def Let_def s1 s2)
  next
    case False
    then show ?thesis using ok e by (auto simp: place_def abs_place_def Let_def)
  qed
qed

text \<open>The second half of \<^verbatim>\<open>jb_framelist_put_at\<close>, at a distance within the capacity.\<close>

lemma put_core:
  assumes ok: "fl_ok fl" and d: "d < int (fl_max_count fl)" "0 \<le> d" and idx: "index = fl_origin fl + d"
    and n: "n \<le> fl_frame_size fl" "n \<le> length frame"
    and pos: "pos = uadd (fl_head fl) (u_of d) mod fl_max_count fl"
  shows "pos = ring (fl_max_count fl) (fl_head fl) (nat d)"
    and "fl_frame_type fl ! pos \<noteq> PJMEDIA_JB_MISSING_FRAME \<longleftrightarrow> nat d < length (slots fl) \<and> slots fl ! nat d \<noteq> Missing"
    and "fl\<lparr>fl_frame_type := (fl_frame_type fl)[pos := PJMEDIA_JB_NORMAL_FRAME],
            fl_content_len := (fl_content_len fl)[pos := n],
            fl_bit_info := (fl_bit_info fl)[pos := bi],
            fl_ts := (fl_ts fl)[pos := ts],
            fl_size := (if fl_origin fl + s_of (fl_size fl) \<le> index then u_of (d + 1) else fl_size fl),
            fl_content := memcpy_at (umul pos (fl_frame_size fl)) (take n frame) (fl_content fl)\<rparr> =
         store fl (nat d) frame n bi ts"
proof -
  note k = fl_okD [OF ok]
  have u: "u_of d = nat d" "u_of (d + 1) = nat d + 1" using d k by (simp_all add: u_of_small)
  show p: "pos = ring (fl_max_count fl) (fl_head fl) (nat d)" using d k by (simp add: pos u ring_def uadd_small)
  have nd: "nat d < fl_max_count fl" using d by simp
  show "fl_frame_type fl ! pos \<noteq> PJMEDIA_JB_MISSING_FRAME \<longleftrightarrow> nat d < length (slots fl) \<and> slots fl ! nat d \<noteq> Missing"
  proof (cases "nat d < fl_size fl")
    case True
    then show ?thesis by (simp add: p slots_nth)
  next
    case False
    then show ?thesis using ok nd by (simp add: p fl_ok_parts fl_window_def)
  qed
  have "s_of (fl_size fl) = int (fl_size fl)" using k by (simp add: s_of_small)
  moreover have "umul pos (fl_frame_size fl) = pos * fl_frame_size fl" using k by (intro umul_slot) (simp_all add: p)
  ultimately show "fl\<lparr>fl_frame_type := (fl_frame_type fl)[pos := PJMEDIA_JB_NORMAL_FRAME],
            fl_content_len := (fl_content_len fl)[pos := n],
            fl_bit_info := (fl_bit_info fl)[pos := bi],
            fl_ts := (fl_ts fl)[pos := ts],
            fl_size := (if fl_origin fl + s_of (fl_size fl) \<le> index then u_of (d + 1) else fl_size fl),
            fl_content := memcpy_at (umul pos (fl_frame_size fl)) (take n frame) (fl_content fl)\<rparr> =
         store fl (nat d) frame n bi ts"
    using d by (auto simp: store_def Let_def p u idx)
qed

definition put_core_result ::
  "jb_framelist_t \<Rightarrow> int \<Rightarrow> int \<Rightarrow> u8 list \<Rightarrow> nat \<Rightarrow> u32 \<Rightarrow> u32 \<Rightarrow> pj_status_t \<times> jb_framelist_t" where
  "put_core_result fl index d frame n bi ts =
     (let pos = uadd (fl_head fl) (u_of d) mod fl_max_count fl
      in if fl_frame_type fl ! pos \<noteq> PJMEDIA_JB_MISSING_FRAME then (PJ_EEXISTS, fl)
         else (PJ_SUCCESS, fl\<lparr>fl_frame_type := (fl_frame_type fl)[pos := PJMEDIA_JB_NORMAL_FRAME],
            fl_content_len := (fl_content_len fl)[pos := n],
            fl_bit_info := (fl_bit_info fl)[pos := bi],
            fl_ts := (fl_ts fl)[pos := ts],
            fl_size := (if fl_origin fl + s_of (fl_size fl) \<le> index then u_of (d + 1) else fl_size fl),
            fl_content := memcpy_at (umul pos (fl_frame_size fl)) (take n frame) (fl_content fl)\<rparr>))"

lemma put_core_spec:
  assumes ok: "fl_ok fl" and d: "d < int (fl_max_count fl)" "0 \<le> d" and idx: "index = fl_origin fl + d"
    and n: "n \<le> fl_frame_size fl" "n \<le> length frame"
    and r: "put_core_result fl index d frame n bi ts = (st, fl')"
  shows "fl_ok fl'" and "fl_max_count fl' = fl_max_count fl" and "fl_frame_size fl' = fl_frame_size fl"
    and "(st, fl_origin fl', slots fl') =
      (if nat d < length (slots fl) \<and> slots fl ! nat d \<noteq> Missing then (PJ_EEXISTS, fl_origin fl, slots fl)
       else (PJ_SUCCESS, fl_origin fl, put_slot (slots fl) (nat d) (Frame (take n frame) bi ts)))"
proof -
  let ?pos = "uadd (fl_head fl) (u_of d) mod fl_max_count fl"
  note c = put_core [OF ok d idx n refl]
  have "fl_ok fl' \<and> fl_max_count fl' = fl_max_count fl \<and> fl_frame_size fl' = fl_frame_size fl \<and>
     (st, fl_origin fl', slots fl') =
      (if nat d < length (slots fl) \<and> slots fl ! nat d \<noteq> Missing then (PJ_EEXISTS, fl_origin fl, slots fl)
       else (PJ_SUCCESS, fl_origin fl, put_slot (slots fl) (nat d) (Frame (take n frame) bi ts)))"
  proof (cases "fl_frame_type fl ! ?pos \<noteq> PJMEDIA_JB_MISSING_FRAME")
    case True
    then have "st = PJ_EEXISTS" "fl' = fl" using r by (simp_all add: put_core_result_def Let_def)
    then show ?thesis using ok True c(2) by simp
  next
    case False
    then have e: "st = PJ_SUCCESS" "fl' = store fl (nat d) frame n bi ts"
      using r unfolding put_core_result_def Let_def c(3) by simp_all
    have "nat d < fl_max_count fl" using d by simp
    moreover have "fl_frame_type fl ! ring (fl_max_count fl) (fl_head fl) (nat d) = PJMEDIA_JB_MISSING_FRAME"
      using False c(1) by simp
    ultimately show ?thesis using store_spec [OF ok _ n] False c(2) e by auto
  qed
  then show "fl_ok fl'" "fl_max_count fl' = fl_max_count fl" "fl_frame_size fl' = fl_frame_size fl"
    "(st, fl_origin fl', slots fl') =
      (if nat d < length (slots fl) \<and> slots fl ! nat d \<noteq> Missing then (PJ_EEXISTS, fl_origin fl, slots fl)
       else (PJ_SUCCESS, fl_origin fl, put_slot (slots fl) (nat d) (Frame (take n frame) bi ts)))" by blast+
qed

lemma put_at_unfold:
  assumes "frame_size \<le> fl_frame_size fl0"
  shows "jb_framelist_put_at fl0 index frame frame_size bi ts PJMEDIA_JB_NORMAL_FRAME =
    (case place fl0 index of
       Inl status \<Rightarrow> (status, fl0)
     | Inr (fl1, d1) \<Rightarrow>
         let (fl2, d2) = (if fl_size fl1 = 0 then (fl1\<lparr>fl_origin := index\<rparr>, 0) else (fl1, d1))
         in if d2 \<ge> s_of (fl_max_count fl2) \<and> \<not> d2 > MAX_DROPOUT then (PJ_ETOOMANY, fl2)
            else if d2 \<ge> s_of (fl_max_count fl2)
            then put_core_result ((jb_framelist_reset fl2)\<lparr>fl_origin := index\<rparr>) index 0 frame frame_size bi ts
            else put_core_result fl2 index d2 frame frame_size bi ts)"
  using assms unfolding jb_framelist_put_at_def put_core_result_def
  by (auto simp: Let_def split: sum.splits prod.splits)

lemma put_at_spec:
  assumes ok: "fl_ok fl" and i: "seq_range index" and o: "seq_range (fl_origin fl)"
    and n: "n \<le> fl_frame_size fl" "n \<le> length frame"
    and p: "jb_framelist_put_at fl index frame n bi ts PJMEDIA_JB_NORMAL_FRAME = (st, fl')"
  shows "fl_ok fl'" and "fl_max_count fl' = fl_max_count fl" and "fl_frame_size fl' = fl_frame_size fl"
    and "abs_put (fl_max_count fl) (fl_origin fl) (slots fl) index (Frame (take n frame) bi ts) =
      (st, fl_origin fl', slots fl')"
proof -
  note P = place_spec [OF ok i o] and k = fl_okD [OF ok]
  have m: "s_of (fl_max_count fl) = int (fl_max_count fl)" using k by (simp add: s_of_small)
  have "fl_ok fl' \<and> fl_max_count fl' = fl_max_count fl \<and> fl_frame_size fl' = fl_frame_size fl \<and>
    abs_put (fl_max_count fl) (fl_origin fl) (slots fl) index (Frame (take n frame) bi ts) = (st, fl_origin fl', slots fl')"
  proof (cases "place fl index")
    case (Inl a)
    then show ?thesis using P p ok unfolding put_at_unfold [OF n(1)] by (auto simp: abs_put_def)
  next
    case (Inr a)
    obtain fl1 d1 where a: "a = (fl1, d1)" by (cases a)
    obtain og xs d where A: "abs_place (fl_origin fl) (slots fl) index = Some (og, xs, d)"
      and e: "(if fl_size fl1 = 0 then (fl1\<lparr>fl_origin := index\<rparr>, 0) else (fl1, d1)) =
            ((if fl_size fl1 = 0 then fl1\<lparr>fl_origin := index\<rparr> else fl1), d)"
      and f: "fl_ok fl1" "slots fl1 = xs" "og = (if fl_size fl1 = 0 then index else fl_origin fl1)"
        "index = og + d" "0 \<le> d" "fl_max_count fl1 = fl_max_count fl" "fl_frame_size fl1 = fl_frame_size fl"
      using P Inr a by auto
    define fl2 where "fl2 = (if fl_size fl1 = 0 then fl1\<lparr>fl_origin := index\<rparr> else fl1)"
    have f2: "fl_ok fl2" "slots fl2 = xs" "fl_origin fl2 = og" "fl_max_count fl2 = fl_max_count fl"
      "fl_frame_size fl2 = fl_frame_size fl" using f by (auto simp: fl2_def)
    have pe: "(if d \<ge> int (fl_max_count fl) \<and> \<not> d > MAX_DROPOUT then (PJ_ETOOMANY, fl2)
            else if d \<ge> int (fl_max_count fl)
            then put_core_result ((jb_framelist_reset fl2)\<lparr>fl_origin := index\<rparr>) index 0 frame n bi ts
            else put_core_result fl2 index d frame n bi ts) = (st, fl')"
    proof -
      have "(if fl_size fl1 = 0 then (fl1\<lparr>fl_origin := index\<rparr>, 0) else (fl1, d1)) = (fl2, d)" using e by (simp add: fl2_def)
      moreover have "s_of (fl_max_count fl2) = int (fl_max_count fl)" using f2(4) m by simp
      ultimately show ?thesis using p Inr a unfolding put_at_unfold [OF n(1)] by (auto split: if_splits)
    qed
    show ?thesis
    proof (cases "d \<ge> int (fl_max_count fl)")
      case far: True
      show ?thesis
      proof (cases "d > MAX_DROPOUT")
        case True
        let ?fl = "(jb_framelist_reset fl2)\<lparr>fl_origin := index\<rparr>"
        note r = reset_spec [OF fl_okD(1) [OF f2(1)]]
        have okr: "fl_ok ?fl" "slots ?fl = []" using r by simp_all
        have pr: "put_core_result ?fl index 0 frame n bi ts = (st, fl')" using pe far True by simp
        have z: "(0 :: int) < int (fl_max_count ?fl)" "(0 :: int) \<le> 0" "index = fl_origin ?fl + 0"
          "n \<le> fl_frame_size ?fl" using k f2 n by simp_all
        note c = put_core_spec [OF okr(1) z n(2) pr]
        show ?thesis using c f2 far True A okr(2) by (simp add: abs_put_def put_slot_def)
      next
        case False
        then show ?thesis using pe far f2 A by (simp add: abs_put_def)
      qed
    next
      case False
      then have pr: "put_core_result fl2 index d frame n bi ts = (st, fl')" using pe by simp
      have z: "d < int (fl_max_count fl2)" "index = fl_origin fl2 + d" "n \<le> fl_frame_size fl2"
        using False f f2 n by simp_all
      note c = put_core_spec [OF f2(1) z(1) f(5) z(2,3) n(2) pr]
      show ?thesis using c f2 False A by (simp add: abs_put_def)
    qed
  qed
  then show "fl_ok fl'" "fl_max_count fl' = fl_max_count fl" "fl_frame_size fl' = fl_frame_size fl"
    "abs_put (fl_max_count fl) (fl_origin fl) (slots fl) index (Frame (take n frame) bi ts) = (st, fl_origin fl', slots fl')"
    by blast+
qed

section \<open>Discarding\<close>

lemma discard_spec:
  assumes ok: "fl_ok fl" and r: "fl_origin fl \<le> index" "index < fl_origin fl + int (fl_size fl)"
    and nd: "slots fl ! nat (index - fl_origin fl) \<noteq> Discarded"
    and p: "jb_framelist_discard fl index = (st, fl')"
  shows "st = PJ_SUCCESS" and "fl_ok fl'" and "slots fl' = (slots fl)[nat (index - fl_origin fl) := Discarded]"
    and "fl_origin fl' = fl_origin fl" and "fl_max_count fl' = fl_max_count fl" and "fl_frame_size fl' = fl_frame_size fl"
proof -
  note k = fl_okD [OF ok]
  let ?m = "fl_max_count fl" and ?h = "fl_head fl"
  define d where "d = nat (index - fl_origin fl)"
  have d: "d < fl_size fl" "d < ?m" using r k by (auto simp: d_def)
  have s: "s_of (fl_size fl) = int (fl_size fl)" using k by (simp add: s_of_small)
  have u: "u_of (index - fl_origin fl) = d" using r k by (simp add: d_def u_of_small)
  have pos: "uadd ?h d mod ?m = ring ?m ?h d" using d k by (simp add: ring_def uadd_small)
  let ?q = "ring ?m ?h d"
  have st: "st = PJ_SUCCESS"
    and e: "fl' = fl\<lparr>fl_frame_type := (fl_frame_type fl)[?q := PJMEDIA_JB_DISCARDED_FRAME],
                     fl_discarded_num := uadd (fl_discarded_num fl) 1\<rparr>"
    using p r by (auto simp: jb_framelist_discard_def Let_def s u pos)
  have q: "fl_frame_type fl ! ?q \<noteq> PJMEDIA_JB_DISCARDED_FRAME" "?q < length (fl_frame_type fl)"
    using nd d k by (simp_all add: slots_nth d_def [symmetric])
  have dl: "uadd (fl_discarded_num fl) 1 = fl_discarded_num fl + 1"
    using discarded_le_size [OF ok] k by (simp add: uadd_small)
  have cnt: "count_list ((fl_frame_type fl)[?q := PJMEDIA_JB_DISCARDED_FRAME]) PJMEDIA_JB_DISCARDED_FRAME =
      count_list (fl_frame_type fl) PJMEDIA_JB_DISCARDED_FRAME + 1"
  proof -
    have "{i. i < length (fl_frame_type fl) \<and> (fl_frame_type fl)[?q := PJMEDIA_JB_DISCARDED_FRAME] ! i = PJMEDIA_JB_DISCARDED_FRAME} =
        insert ?q {i. i < length (fl_frame_type fl) \<and> fl_frame_type fl ! i = PJMEDIA_JB_DISCARDED_FRAME}"
      using q by (auto simp: nth_list_update)
    then show ?thesis using q(1)
      by (simp add: count_list_eq_length_filter length_filter_conv_card eq_commute [of PJMEDIA_JB_DISCARDED_FRAME])
  qed
  show "st = PJ_SUCCESS" "fl_origin fl' = fl_origin fl" "fl_max_count fl' = ?m" "fl_frame_size fl' = fl_frame_size fl"
    using st e by simp_all
  have "fl_cells fl'" using ok k cnt q dl by (auto simp: e fl_ok_def fl_cells_def fl_shape_def nth_list_update jb_frames)
  moreover have "fl_window fl'" using ok k d by (auto simp: e fl_ok_parts fl_window_def nth_list_update ring_inj)
  ultimately show "fl_ok fl'" by (simp add: fl_ok_parts)
  show "slots fl' = (slots fl)[nat (index - fl_origin fl) := Discarded]"
  proof (rule nth_equalityI)
    fix i assume "i < length (slots fl')"
    then have i: "i < fl_size fl" "i < ?m" using k by (simp_all add: e)
    have "slots fl' ! i = (if i = d then Discarded else slots fl ! i)"
    proof (cases "i = d")
      case True
      then show ?thesis using i q(2) by (simp add: slots_nth e slot_at_def jb_frames)
    next
      case False
      then have "ring ?m ?h i \<noteq> ?q" using ring_inj [of ?h ?m i d] k i d by simp
      then show ?thesis using False i by (simp add: slots_nth e slot_at_def)
    qed
    then show "slots fl' ! i = (slots fl)[nat (index - fl_origin fl) := Discarded] ! i"
      using i by (simp add: d_def [symmetric] nth_list_update)
  qed (simp add: e)
qed

section \<open>Peeking\<close>

text \<open>The position found is that of the frame with the given number of frames, not counting discarded
  ones, before it; the search ends within the window.\<close>

lemma peek_pos_spec:
  assumes ok: "fl_ok fl"
  shows "i \<le> fl_size fl \<Longrightarrow> idx < length (filter (\<lambda>s. s \<noteq> Discarded) (drop i (slots fl))) \<Longrightarrow>
    \<exists>j. peek_pos fl (ring (fl_max_count fl) (fl_head fl) i) idx = Some (ring (fl_max_count fl) (fl_head fl) j) \<and>
      i \<le> j \<and> j < fl_size fl \<and> slots fl ! j \<noteq> Discarded \<and>
      length (filter (\<lambda>s. s \<noteq> Discarded) (take (j - i) (drop i (slots fl)))) = idx"
proof (induction "fl_size fl - i" arbitrary: i idx)
  case 0
  then show ?case by simp
next
  case (Suc k)
  note kk = fl_okD [OF ok]
  let ?m = "fl_max_count fl" and ?h = "fl_head fl"
  have i: "i < fl_size fl" using Suc.hyps(2) by simp
  have dr: "drop i (slots fl) = slots fl ! i # drop (Suc i) (slots fl)"
    using i by (simp add: Cons_nth_drop_Suc [symmetric])
  have "ring ?m ?h i < ?m" using kk by simp
  then have nx: "uadd (ring ?m ?h i) 1 mod ?m = ring ?m ?h (Suc i)"
    using kk(3) by (simp add: uadd_small ring_def mod_Suc_eq)
  have tk: "j > i \<Longrightarrow> take (j - i) (drop i (slots fl)) = slots fl ! i # take (j - Suc i) (drop (Suc i) (slots fl))" for j
    unfolding dr by (simp add: take_Cons')
  have k1: "k = fl_size fl - Suc i" "Suc i \<le> fl_size fl" using Suc.hyps(2) by simp_all
  have ix: "idx < 2 ^ 32" using Suc.prems(2) kk length_filter_le [of "\<lambda>s. s \<noteq> Discarded" "drop i (slots fl)"] by simp
  show ?case
  proof (cases "slots fl ! i = Discarded")
    case True
    then have t: "fl_frame_type fl ! ring ?m ?h i = PJMEDIA_JB_DISCARDED_FRAME" using i by (simp add: slots_nth)
    have "peek_pos fl (ring ?m ?h i) idx = peek_pos fl (ring ?m ?h (Suc i)) idx"
      using t nx by (subst peek_pos.simps) simp
    moreover obtain j where "peek_pos fl (ring ?m ?h (Suc i)) idx = Some (ring ?m ?h j)" "Suc i \<le> j" "j < fl_size fl"
      "slots fl ! j \<noteq> Discarded" "length (filter (\<lambda>s. s \<noteq> Discarded) (take (j - Suc i) (drop (Suc i) (slots fl)))) = idx"
      using Suc.hyps(1) [OF k1, of idx] Suc.prems(2) True by (auto simp: dr)
    ultimately show ?thesis using tk [of j] True by (intro exI [of _ j]) simp
  next
    case False
    then have t: "fl_frame_type fl ! ring ?m ?h i \<noteq> PJMEDIA_JB_DISCARDED_FRAME" using i by (simp add: slots_nth)
    show ?thesis
    proof (cases "idx = 0")
      case True
      have "peek_pos fl (ring ?m ?h i) idx = Some (ring ?m ?h i)" using t True by (subst peek_pos.simps) simp
      then show ?thesis using True False i by (intro exI [of _ i]) simp
    next
      case pos: False
      have "usub idx 1 = idx - 1" using pos ix by (intro usub_one) simp_all
      then have "peek_pos fl (ring ?m ?h i) idx = peek_pos fl (ring ?m ?h (Suc i)) (idx - 1)"
        using t nx pos by (subst peek_pos.simps) simp
      moreover have "idx - 1 < length (filter (\<lambda>s. s \<noteq> Discarded) (drop (Suc i) (slots fl)))"
        using Suc.prems(2) False pos by (simp add: dr)
      then obtain j where "peek_pos fl (ring ?m ?h (Suc i)) (idx - 1) = Some (ring ?m ?h j)" "Suc i \<le> j" "j < fl_size fl"
        "slots fl ! j \<noteq> Discarded" "length (filter (\<lambda>s. s \<noteq> Discarded) (take (j - Suc i) (drop (Suc i) (slots fl)))) = idx - 1"
        using Suc.hyps(1) [OF k1, of "idx - 1"] by blast
      ultimately show ?thesis using tk [of j] False pos by (intro exI [of _ j]) simp
    qed
  qed
qed

end
