(* ===== verification/Pj_Jbuf_Spec.thy ===== *)
theory Pj_Jbuf_Spec
  imports Pj_Jbuf_Put
begin

text \<open>
  The adaptive buffer over the ring: the invariant of \<^verbatim>\<open>pjmedia_jbuf\<close>, that the discard
  algorithms, the level adaptation and the insertion and retrieval of frames keep it, and what
  they do to the sequence of slots. The point of the invariant is that the progressive
  algorithm never discards a frame twice, so that the number of discarded frames is exact.
\<close>

section \<open>The invariant\<close>

text \<open>The numbers of the frames of the window stay within 29 bits, so that the mixed signed and unsigned
  arithmetic of the code is exact.\<close>

definition window_ok :: "int \<Rightarrow> jb_slot list \<Rightarrow> bool" where
  "window_ok og xs \<longleftrightarrow> - (2 ^ 28) \<le> og \<and> og + int (length xs) \<le> 2 ^ 28"

text \<open>No frame after the reference of a scheduled discard is discarded.\<close>

definition discarded_upto :: "int \<Rightarrow> int \<Rightarrow> jb_slot list \<Rightarrow> bool" where
  "discarded_upto ref og xs \<longleftrightarrow> (\<forall>i < length xs. xs ! i = Discarded \<longrightarrow> og + int i \<le> ref)"

definition schedule_ok :: "pjmedia_jb_discard_algo \<Rightarrow> int \<Rightarrow> nat \<Rightarrow> int \<Rightarrow> int \<Rightarrow> jb_slot list \<Rightarrow> bool" where
  "schedule_ok algo gap dist ref og xs \<longleftrightarrow>
     (algo = PJMEDIA_JB_DISCARD_PROGRESSIVE \<longrightarrow> 1 \<le> gap \<and> gap < 2 ^ 31 \<and>
        (dist \<noteq> 0 \<longrightarrow> - (2 ^ 29) \<le> ref \<and> ref \<le> 2 ^ 29 \<and> discarded_upto ref og xs))"

definition jb_inv :: "pjmedia_jbuf \<Rightarrow> bool" where
  "jb_inv jb \<longleftrightarrow>
     fl_ok (jb_framelist jb) \<and> fl_max_count (jb_framelist jb) = jb_max_count jb \<and> jb_max_count jb < 2 ^ 28 \<and>
     fl_frame_size (jb_framelist jb) = jb_frame_size jb \<and>
     window_ok (fl_origin (jb_framelist jb)) (slots (jb_framelist jb)) \<and>
     schedule_ok (jb_discard_algo jb) (jb_min_shrink_gap jb) (jb_discard_dist jb) (jb_discard_ref jb)
       (fl_origin (jb_framelist jb)) (slots (jb_framelist jb))"

lemma window_seq_range:
  assumes "window_ok og xs"
  shows "seq_range og" and "i \<le> length xs \<Longrightarrow> seq_range (og + int i)"
  using assms by (auto simp: window_ok_def seq_range_def)

text \<open>What the abstract sequence becomes when frames are only marked or taken off its front.\<close>

definition trimmed :: "int \<Rightarrow> jb_slot list \<Rightarrow> int \<Rightarrow> jb_slot list \<Rightarrow> bool" where
  "trimmed og xs og' xs' \<longleftrightarrow>
     og' = og \<and> xs' = xs \<or>
     (\<exists>i < length xs. og' = og \<and> xs' = xs[i := Discarded]) \<or>
     (xs \<noteq> [] \<and> og' = og + 1 \<and> xs' = tl xs)"

lemma trimmed_refl [simp]: "trimmed og xs og xs"
  by (simp add: trimmed_def)

section \<open>The discard algorithms\<close>

lemma discarded_upto_tl: "discarded_upto ref og xs \<Longrightarrow> discarded_upto ref (og + int n) (drop n xs)"
  unfolding discarded_upto_def
proof (intro allI impI)
  fix i assume h: "\<forall>i<length xs. xs ! i = Discarded \<longrightarrow> og + int i \<le> ref" "i < length (drop n xs)" "drop n xs ! i = Discarded"
  then have "og + int (n + i) \<le> ref" by (intro h(1) [rule_format]) simp_all
  then show "og + int n + int i \<le> ref" by simp
qed

lemma discarded_upto_last:
  "og + int (length xs) - 1 \<le> ref \<Longrightarrow> discarded_upto ref og xs"
  by (force simp: discarded_upto_def)

lemma static_keeps:
  assumes inv: "jb_inv jb" and a: "jb_discard_algo jb \<noteq> PJMEDIA_JB_DISCARD_PROGRESSIVE"
  shows "jb_inv (jbuf_discard_static jb)"
    and "trimmed (fl_origin (jb_framelist jb)) (slots (jb_framelist jb))
       (fl_origin (jb_framelist (jbuf_discard_static jb))) (slots (jb_framelist (jbuf_discard_static jb)))"
proof -
  obtain n fl1 where r: "jb_framelist_remove_head (jb_framelist jb) 1 = (n, fl1)"
    by (cases "jb_framelist_remove_head (jb_framelist jb) 1")
  have ok: "fl_ok (jb_framelist jb)" using inv by (simp add: jb_inv_def)
  note R = remove_head_spec [OF ok r]
  have e: "jbuf_discard_static jb = jb \<or> jbuf_discard_static jb = jb\<lparr>jb_discard_ref := fl_origin (jb_framelist jb)\<rparr> \<or>
      (\<exists>k. jbuf_discard_static jb = jb\<lparr>jb_framelist := fl1, jb_discard_ref := fl_origin fl1, jb_discard := k\<rparr>)"
    using r by (auto simp: jbuf_discard_static_def Let_def jb_framelist_origin_def)
  have nl: "n = (if slots (jb_framelist jb) = [] then 0 else 1)"
    using R(2) slots_length [of "jb_framelist jb"] by (cases "slots (jb_framelist jb)") auto
  have w: "window_ok (fl_origin fl1) (slots fl1)"
    using inv R nl by (auto simp: jb_inv_def window_ok_def neq_Nil_conv)
  show "jb_inv (jbuf_discard_static jb)"
    using e inv R w a by (auto simp: jb_inv_def schedule_ok_def)
  show "trimmed (fl_origin (jb_framelist jb)) (slots (jb_framelist jb))
       (fl_origin (jb_framelist (jbuf_discard_static jb))) (slots (jb_framelist (jbuf_discard_static jb)))"
    using e R(3,4) nl by (auto simp: trimmed_def drop_Suc split: if_splits)
qed

text \<open>The decision of the progressive algorithm, with its arithmetic read as integers.\<close>

lemma progressive_cases:
  assumes inv: "jb_inv jb" and a: "jb_discard_algo jb = PJMEDIA_JB_DISCARD_PROGRESSIVE"
  defines "og \<equiv> fl_origin (jb_framelist jb)" and "xs \<equiv> slots (jb_framelist jb)"
  defines "lst \<equiv> og + int (length xs) - 1"
  defines "ref \<equiv> (if jb_discard_dist jb = 0 \<or> lst < jb_discard_ref jb then lst else jb_discard_ref jb)"
  shows "jbuf_discard_progressive jb = jb \<or> jbuf_discard_progressive jb = jb\<lparr>jb_discard_dist := 0\<rparr> \<or>
    (xs \<noteq> [] \<and> (\<exists>dist. 1 \<le> dist \<and>
       (jbuf_discard_progressive jb = jb\<lparr>jb_discard_ref := ref, jb_discard_dist := dist\<rparr> \<or>
        ref + int dist \<le> lst \<and>
        jbuf_discard_progressive jb =
          jb\<lparr>jb_discard_dist := dist, jb_discard_ref := max (ref + int dist) og,
             jb_framelist := snd (jb_framelist_discard (jb_framelist jb) (max (ref + int dist) og))\<rparr>)))"
proof (cases "jb_last_op jb \<noteq> JB_OP_PUT \<or>
    jb_framelist_eff_size (jb_framelist jb) \<le> u_of (max (jb_eff_level jb) (jb_level jb)) \<or>
    jb_framelist_eff_size (jb_framelist jb) \<le> jb_min_delay jb")
  case True
  then show ?thesis by (auto simp: jbuf_discard_progressive_def Let_def)
next
  case False
  have ok: "fl_ok (jb_framelist jb)" and w: "window_ok og xs"
    and s: "1 \<le> jb_min_shrink_gap jb" "jb_min_shrink_gap jb < 2 ^ 31"
      "jb_discard_dist jb \<noteq> 0 \<Longrightarrow> - (2 ^ 29) \<le> jb_discard_ref jb \<and> jb_discard_ref jb \<le> 2 ^ 29"
    using inv a by (auto simp: jb_inv_def schedule_ok_def og_def xs_def)
  have ne: "xs \<noteq> []" using False eff_size_exact [OF ok] by (auto simp: xs_def)
  then have len: "0 < length xs" by simp
  have lst: "s_of (u_of (og + int (length xs) - 1)) = lst"
    using w unfolding lst_def by (intro s_of_u_of) (auto simp: window_ok_def)
  define dd where "dd = umul (discard_duration (u_of (max (jb_eff_level jb) (jb_level jb)))) (jb_frame_ptime_denum jb) div
      usub (jb_framelist_eff_size (jb_framelist jb)) (max (u_of (max (jb_eff_level jb) (jb_level jb))) (jb_min_delay jb)) div
      jb_frame_ptime jb"
  define dist where "dist = u_of (max (jb_min_shrink_gap jb) (s_of dd))"
  have "s_of dd < 2 ^ 31" by (rule s_of_upper)
  then have di: "int dist = max (jb_min_shrink_gap jb) (s_of dd)" "s_of dist = int dist"
    using s(1,2) by (simp_all add: dist_def u_of_small s_of_small)
  then have d1: "1 \<le> dist" using s(1) by linarith
  have ref: "- (2 ^ 29) \<le> ref" using s(3) w by (auto simp: ref_def lst_def window_ok_def)
  have sq: "ref + int dist \<le> lst \<Longrightarrow> s_of (u_of (ref + int dist)) = ref + int dist"
    using ref w by (intro s_of_u_of) (auto simp: window_ok_def lst_def)
  have sz: "fl_size (jb_framelist jb) = length xs" by (simp add: xs_def)
  have "jbuf_discard_progressive jb =
      (if lst \<ge> ref + int dist
       then jb\<lparr>jb_discard_dist := dist, jb_discard_ref := max (ref + int dist) og,
             jb_framelist := snd (jb_framelist_discard (jb_framelist jb) (max (ref + int dist) og))\<rparr>
       else jb\<lparr>jb_discard_ref := ref, jb_discard_dist := dist\<rparr>)"
  proof -
    have refe: "(if jb_discard_dist jb = 0 then lst else if lst < jb_discard_ref jb then lst else jb_discard_ref jb) = ref"
      by (simp add: ref_def)
    have c: "(jb_last_op jb \<noteq> JB_OP_PUT) = False"
      "(jb_framelist_eff_size (jb_framelist jb) \<le> u_of (max (jb_eff_level jb) (jb_level jb)) \<or>
        jb_framelist_eff_size (jb_framelist jb) \<le> jb_min_delay jb) = False" using False by auto
    show ?thesis
    proof (cases "lst \<ge> ref + int dist")
      case True
      then show ?thesis
        unfolding jbuf_discard_progressive_def Let_def jb_framelist_origin_def jb_framelist_size_def c if_False
          og_def [symmetric] sz lst dd_def [symmetric] dist_def [symmetric] di(2) refe
        by (simp add: sq og_def [symmetric] max_def)
    next
      case False
      then show ?thesis
        unfolding jbuf_discard_progressive_def Let_def jb_framelist_origin_def jb_framelist_size_def c if_False
          og_def [symmetric] sz lst dd_def [symmetric] dist_def [symmetric] di(2) refe
        by simp
    qed
  qed
  then show ?thesis using ne d1 by auto
qed

lemma progressive_keeps:
  assumes inv: "jb_inv jb" and a: "jb_discard_algo jb = PJMEDIA_JB_DISCARD_PROGRESSIVE"
  shows "jb_inv (jbuf_discard_progressive jb)"
    and "trimmed (fl_origin (jb_framelist jb)) (slots (jb_framelist jb))
       (fl_origin (jb_framelist (jbuf_discard_progressive jb))) (slots (jb_framelist (jbuf_discard_progressive jb)))"
proof -
  let ?fl = "jb_framelist jb"
  define og where "og = fl_origin ?fl"
  define xs where "xs = slots ?fl"
  define lst where "lst = og + int (length xs) - 1"
  define ref where "ref = (if jb_discard_dist jb = 0 \<or> lst < jb_discard_ref jb then lst else jb_discard_ref jb)"
  have ok: "fl_ok ?fl" and w: "window_ok og xs"
    and s: "jb_discard_dist jb \<noteq> 0 \<Longrightarrow> - (2 ^ 29) \<le> jb_discard_ref jb \<and> jb_discard_ref jb \<le> 2 ^ 29 \<and>
        discarded_upto (jb_discard_ref jb) og xs"
    using inv a by (auto simp: jb_inv_def schedule_ok_def og_def xs_def)
  have up: "discarded_upto ref og xs" using s discarded_upto_last [of og xs ref] by (auto simp: ref_def lst_def)
  have rb: "xs \<noteq> [] \<Longrightarrow> - (2 ^ 29) \<le> ref \<and> ref \<le> 2 ^ 29" using s w by (auto simp: ref_def lst_def window_ok_def)
  note c = progressive_cases [OF inv a, folded og_def xs_def, folded lst_def, folded ref_def]
  have "jb_inv (jbuf_discard_progressive jb) \<and> trimmed og xs (fl_origin (jb_framelist (jbuf_discard_progressive jb)))
      (slots (jb_framelist (jbuf_discard_progressive jb)))"
    using c
  proof (elim disjE conjE exE)
    assume "jbuf_discard_progressive jb = jb"
    then show ?thesis using inv by (simp add: og_def xs_def)
  next
    assume "jbuf_discard_progressive jb = jb\<lparr>jb_discard_dist := 0\<rparr>"
    then show ?thesis using inv by (simp add: og_def xs_def jb_inv_def schedule_ok_def)
  next
    fix dist assume "xs \<noteq> []" "1 \<le> dist" "jbuf_discard_progressive jb = jb\<lparr>jb_discard_ref := ref, jb_discard_dist := dist\<rparr>"
    then show ?thesis using inv up rb by (auto simp: og_def xs_def jb_inv_def schedule_ok_def)
  next
    fix dist
    assume ne: "xs \<noteq> []" and d1: "1 \<le> dist" and le: "ref + int dist \<le> lst"
      and e: "jbuf_discard_progressive jb =
          jb\<lparr>jb_discard_dist := dist, jb_discard_ref := max (ref + int dist) og,
             jb_framelist := snd (jb_framelist_discard ?fl (max (ref + int dist) og))\<rparr>"
    define t where "t = max (ref + int dist) og"
    obtain st fl1 where p: "jb_framelist_discard ?fl t = (st, fl1)" by (cases "jb_framelist_discard ?fl t")
    have t: "og \<le> t" "t \<le> lst" "ref < t" using le ne d1 by (auto simp: t_def lst_def neq_Nil_conv)
    have nd: "xs ! nat (t - og) \<noteq> Discarded"
    proof
      assume "xs ! nat (t - og) = Discarded"
      moreover have "nat (t - og) < length xs" using t by (auto simp: lst_def)
      ultimately have "og + int (nat (t - og)) \<le> ref" using up by (auto simp: discarded_upto_def)
      then show False using t by simp
    qed
    have t2: "t < fl_origin ?fl + int (fl_size ?fl)" "fl_origin ?fl \<le> t" "slots ?fl ! nat (t - fl_origin ?fl) \<noteq> Discarded"
      using t nd by (simp_all add: lst_def og_def xs_def)
    note D = discard_spec [OF ok t2(2,1,3) p]
    have up2: "discarded_upto t og (xs[nat (t - og) := Discarded])"
      unfolding discarded_upto_def
    proof (intro allI impI)
      fix i assume "i < length (xs[nat (t - og) := Discarded])" "xs[nat (t - og) := Discarded] ! i = Discarded"
      then show "og + int i \<le> t" using up t by (cases "i = nat (t - og)") (auto simp: discarded_upto_def)
    qed
    have "jb_inv (jbuf_discard_progressive jb)"
      using inv D up2 t rb [OF ne] w p unfolding e t_def [symmetric]
      by (auto simp: jb_inv_def schedule_ok_def og_def xs_def window_ok_def lst_def)
    moreover have "nat (t - og) < length xs" using t by (auto simp: lst_def)
    ultimately show ?thesis
      unfolding e t_def [symmetric] using D p by (auto simp: trimmed_def og_def xs_def)
  qed
  then show "jb_inv (jbuf_discard_progressive jb)"
    "trimmed (fl_origin (jb_framelist jb)) (slots (jb_framelist jb))
       (fl_origin (jb_framelist (jbuf_discard_progressive jb))) (slots (jb_framelist (jbuf_discard_progressive jb)))"
    by (simp_all add: og_def xs_def)
qed

lemma run_discard_keeps:
  assumes "jb_inv jb"
  shows "jb_inv (run_discard_algo jb)"
    and "trimmed (fl_origin (jb_framelist jb)) (slots (jb_framelist jb))
       (fl_origin (jb_framelist (run_discard_algo jb))) (slots (jb_framelist (run_discard_algo jb)))"
  using assms static_keeps [OF assms] progressive_keeps [OF assms]
  by (simp_all add: run_discard_algo_def split: pjmedia_jb_discard_algo.split)

section \<open>Level adaptation\<close>

lemma calculate_jitter_fields [simp]:
  "jb_framelist (jbuf_calculate_jitter jb) = jb_framelist jb"
  "jb_max_count (jbuf_calculate_jitter jb) = jb_max_count jb"
  "jb_frame_size (jbuf_calculate_jitter jb) = jb_frame_size jb"
  "jb_discard_algo (jbuf_calculate_jitter jb) = jb_discard_algo jb"
  "jb_min_shrink_gap (jbuf_calculate_jitter jb) = jb_min_shrink_gap jb"
  "jb_discard_dist (jbuf_calculate_jitter jb) = jb_discard_dist jb"
  "jb_discard_ref (jbuf_calculate_jitter jb) = jb_discard_ref jb"
  "jb_status (jbuf_calculate_jitter jb) = jb_status jb"
  "jb_last_op (jbuf_calculate_jitter jb) = jb_last_op jb"
  by (simp_all add: jbuf_calculate_jitter_def Let_def)

lemma calculate_jitter_inv [simp]: "jb_inv (jbuf_calculate_jitter jb) = jb_inv jb"
  by (simp add: jb_inv_def)

lemma jb_inv_fields [simp]:
  "jb_inv (jb\<lparr>jb_level := a\<rparr>) = jb_inv jb" "jb_inv (jb\<lparr>jb_last_op := b\<rparr>) = jb_inv jb"
  "jb_inv (jb\<lparr>jb_init_cycle_cnt := c\<rparr>) = jb_inv jb" "jb_inv (jb\<lparr>jb_status := d\<rparr>) = jb_inv jb"
  "jb_inv (jb\<lparr>jb_prefetching := e\<rparr>) = jb_inv jb" "jb_inv (jb\<lparr>jb_discard := f\<rparr>) = jb_inv jb"
  "jb_inv (jb\<lparr>jb_empty := g\<rparr>) = jb_inv jb" "jb_inv (jb\<lparr>jb_lost := h\<rparr>) = jb_inv jb"
  "jb_inv (jb\<lparr>jb_delay := i\<rparr>) = jb_inv jb" "jb_inv (jb\<lparr>jb_min_delay := j\<rparr>) = jb_inv jb"
  "jb_inv (jb\<lparr>jb_prefetch := k\<rparr>) = jb_inv jb" "jb_inv (jb\<lparr>jb_init_prefetch := l\<rparr>) = jb_inv jb"
  "jb_inv (jb\<lparr>jb_min_prefetch := m\<rparr>) = jb_inv jb" "jb_inv (jb\<lparr>jb_max_prefetch := n\<rparr>) = jb_inv jb"
  by (simp_all add: jb_inv_def)

lemma update_keeps:
  assumes inv: "jb_inv jb"
  shows "jb_inv (jbuf_update jb oper)"
    and "trimmed (fl_origin (jb_framelist jb)) (slots (jb_framelist jb))
       (fl_origin (jb_framelist (jbuf_update jb oper))) (slots (jb_framelist (jbuf_update jb oper)))"
proof -
  have "\<exists>jb1. jb_framelist jb1 = jb_framelist jb \<and> jb_inv jb1 \<and> (jbuf_update jb oper = jb1 \<or> jbuf_update jb oper = run_discard_algo jb1)"
  proof (cases "jb_last_op jb = oper")
    case True
    then have "jbuf_update jb oper = jb \<or> jbuf_update jb oper = run_discard_algo jb" by (simp add: jbuf_update_def Let_def)
    then show ?thesis using inv by blast
  next
    case False
    let ?meas = "\<lambda>j. (if oper = JB_OP_GET \<and> jb_level j \<le> jb_max_burst j then jbuf_calculate_jitter j else j)\<lparr>jb_level := 0\<rparr>"
    let ?j1 = "jb\<lparr>jb_last_op := oper, jb_init_cycle_cnt := jb_init_cycle_cnt jb + 1\<rparr>"
    let ?j2 = "?j1\<lparr>jb_status := JB_STATUS_PROCESSING, jb_level := min (jb_level jb) (jb_max_burst jb)\<rparr>"
    consider (m) "jb_status jb = JB_STATUS_PROCESSING"
      | (g) "jb_status jb = JB_STATUS_INITIALIZING" "INIT_CYCLE \<le> jb_init_cycle_cnt jb + 1 \<and> oper = JB_OP_GET"
      | (z) "jb_status jb = JB_STATUS_INITIALIZING" "\<not> (INIT_CYCLE \<le> jb_init_cycle_cnt jb + 1 \<and> oper = JB_OP_GET)"
      by (cases "jb_status jb") auto
    then show ?thesis
    proof cases
      case m
      then have "jbuf_update jb oper = run_discard_algo (?meas (jb\<lparr>jb_last_op := oper\<rparr>))"
        using False by (simp add: jbuf_update_def Let_def)
      moreover have "jb_framelist (?meas (jb\<lparr>jb_last_op := oper\<rparr>)) = jb_framelist jb" "jb_inv (?meas (jb\<lparr>jb_last_op := oper\<rparr>))"
        using inv by simp_all
      ultimately show ?thesis by blast
    next
      case g
      then have "jbuf_update jb oper = run_discard_algo (?meas ?j2)"
        using False by (simp add: jbuf_update_def Let_def)
      moreover have "jb_framelist (?meas ?j2) = jb_framelist jb" "jb_inv (?meas ?j2)" using inv by simp_all
      ultimately show ?thesis by blast
    next
      case z
      then have "jbuf_update jb oper = ?j1\<lparr>jb_level := 0\<rparr>"
        using False unfolding jbuf_update_def Let_def by (auto simp del: de_Morgan_conj)
      moreover have "jb_framelist (?j1\<lparr>jb_level := 0\<rparr>) = jb_framelist jb" "jb_inv (?j1\<lparr>jb_level := 0\<rparr>)" using inv by simp_all
      ultimately show ?thesis by blast
    qed
  qed
  then obtain jb1 where j: "jb_framelist jb1 = jb_framelist jb" "jb_inv jb1"
    "jbuf_update jb oper = jb1 \<or> jbuf_update jb oper = run_discard_algo jb1" by blast
  show "jb_inv (jbuf_update jb oper)" using j run_discard_keeps(1) [OF j(2)] by auto
  show "trimmed (fl_origin (jb_framelist jb)) (slots (jb_framelist jb))
       (fl_origin (jb_framelist (jbuf_update jb oper))) (slots (jb_framelist (jbuf_update jb oper)))"
    using j run_discard_keeps(2) [OF j(2)] by auto
qed

lemma discard_frame_size:
  "jb_frame_size (jbuf_discard_static jb) = jb_frame_size jb"
  "jb_frame_size (jbuf_discard_progressive jb) = jb_frame_size jb"
  "jb_frame_size (run_discard_algo jb) = jb_frame_size jb"
proof -
  show s: "jb_frame_size (jbuf_discard_static jb) = jb_frame_size jb"
    by (simp add: jbuf_discard_static_def Let_def split: prod.split)
  show p: "jb_frame_size (jbuf_discard_progressive jb) = jb_frame_size jb"
    by (simp add: jbuf_discard_progressive_def Let_def)
  show "jb_frame_size (run_discard_algo jb) = jb_frame_size jb"
    using s p by (simp add: run_discard_algo_def split: pjmedia_jb_discard_algo.split)
qed

lemma update_frame_size [simp]: "jb_frame_size (jbuf_update jb oper) = jb_frame_size jb"
  unfolding jbuf_update_def Let_def by (simp add: discard_frame_size)

section \<open>Inserting a frame\<close>

text \<open>The insertion of the buffer: a frame beyond the capacity pushes out as many of the oldest slots as
  it needs.\<close>

definition abs_jput :: "nat \<Rightarrow> int \<Rightarrow> jb_slot list \<Rightarrow> int \<Rightarrow> jb_slot \<Rightarrow> pj_status_t \<times> int \<times> jb_slot list" where
  "abs_jput m og xs index s =
     (case abs_put m og xs index s of
        (st, og1, xs1) \<Rightarrow>
          if st = PJ_ETOOMANY then
            let n = nat (index - og1) - m + 1
            in if length xs1 \<le> n then (PJ_SUCCESS, index, [s])
               else (PJ_SUCCESS, og1 + int n, put_slot (drop n xs1) (m - 1) s)
          else (st, og1, xs1))"

lemma abs_put_many:
  assumes "abs_put m og xs index s = (PJ_ETOOMANY, og1, xs1)" and "length xs \<le> m" and "0 < m"
  shows "int m \<le> index - og1" and "index - og1 \<le> MAX_DROPOUT" and "length xs1 \<le> m" and "xs1 = xs"
    and "og1 \<le> og"
  using assms
  by (auto simp: abs_put_def abs_place_def pj_status MAX_DROPOUT_def MAX_MISORDER_def split: option.splits if_splits)

text \<open>After making room the frame is stored.\<close>

lemma abs_put_after_room:
  assumes d: "int m \<le> index - og1" and l: "length xs1 \<le> m" "0 < m" and n: "n = nat (index - og1) - m + 1"
  shows "abs_put m (og1 + int (min n (length xs1))) (drop (min n (length xs1)) xs1) index s =
    (if length xs1 \<le> n then (PJ_SUCCESS, index, [s])
     else (PJ_SUCCESS, og1 + int n, put_slot (drop n xs1) (m - 1) s))"
proof (cases "length xs1 \<le> n")
  case True
  have "og1 + int (length xs1) \<le> index" using d l by linarith
  then show ?thesis using True l by (simp add: abs_put_def abs_place_def put_slot_def)
next
  case False
  then have e: "index - (og1 + int n) = int (m - 1)" using d l n by (simp add: of_nat_diff nat_diff_distrib)
  then have "og1 + int n \<le> index" by linarith
  moreover have "length xs1 - n \<le> m - 1" "nat (int (m - 1)) = m - 1" using n l by linarith+
  moreover have "\<not> int m \<le> int (m - 1)" "\<not> m \<le> m - Suc 0" using l by simp_all
  ultimately show ?thesis using False e l(2) by (simp add: abs_put_def abs_place_def del: of_nat_diff)
qed

lemma make_room_spec:
  assumes inv: "jb_inv jb" and i: "0 \<le> seq" "seq < 2 ^ 28" and n: "n \<le> jb_frame_size jb" "n \<le> length frame"
    and p: "jb_framelist_put_at (jb_framelist jb) seq frame n bi ts PJMEDIA_JB_NORMAL_FRAME = (st0, fl)"
  shows "\<exists>st fl' k. make_room (jb\<lparr>jb_framelist := fl\<rparr>) seq frame n bi ts st0 =
      Some (st, jb\<lparr>jb_framelist := fl', jb_discard := k\<rparr>) \<and> fl_ok fl' \<and>
      fl_max_count fl' = jb_max_count jb \<and> fl_frame_size fl' = jb_frame_size jb \<and>
      abs_jput (jb_max_count jb) (fl_origin (jb_framelist jb)) (slots (jb_framelist jb)) seq (Frame (take n frame) bi ts) =
        (st, fl_origin fl', slots fl')"
proof -
  let ?m = "jb_max_count jb" and ?s = "Frame (take n frame) bi ts" and ?fl = "jb_framelist jb"
  have ok: "fl_ok ?fl" and m: "fl_max_count ?fl = ?m" "?m < 2 ^ 28" and fs: "fl_frame_size ?fl = jb_frame_size jb"
    and w: "window_ok (fl_origin ?fl) (slots ?fl)" using inv by (simp_all add: jb_inv_def)
  have sr: "seq_range seq" "seq_range (fl_origin ?fl)"
    using i w by (auto simp: seq_range_def window_ok_def)
  have n1: "n \<le> fl_frame_size ?fl" using n fs by simp
  note P = put_at_spec [OF ok sr n1 n(2) p]
  have m0: "0 < ?m" "length (slots ?fl) \<le> ?m" using fl_okD [OF ok] m by simp_all
  show ?thesis
  proof (cases "st0 = PJ_ETOOMANY")
    case False
    then have "make_room (jb\<lparr>jb_framelist := fl\<rparr>) seq frame n bi ts st0 = Some (st0, jb\<lparr>jb_framelist := fl\<rparr>)"
      by (subst make_room.simps) simp
    moreover have "jb\<lparr>jb_framelist := fl\<rparr> = jb\<lparr>jb_framelist := fl, jb_discard := jb_discard jb\<rparr>" by simp
    ultimately show ?thesis using P False m fs
      by (intro exI [of _ st0] exI [of _ fl] exI [of _ "jb_discard jb"]) (simp add: abs_jput_def)
  next
    case True
    let ?og = "fl_origin fl" and ?xs = "slots fl"
    have a: "abs_put ?m (fl_origin ?fl) (slots ?fl) seq ?s = (PJ_ETOOMANY, ?og, ?xs)" using P True m by simp
    note A = abs_put_many [OF a m0(2,1)]
    define k where "k = nat (seq - ?og) - ?m + 1"
    have u: "u_of (seq - ?og - s_of ?m + 1) = k"
    proof -
      have "s_of ?m = int ?m" using m by (simp add: s_of_small)
      moreover have "int k = seq - ?og - int ?m + 1" using A(1) by (simp add: k_def of_nat_diff nat_diff_distrib)
      ultimately show ?thesis using A(2) by (simp add: MAX_DROPOUT_def u_of_def nat_eq_iff)
    qed
    obtain r fl1 where rm: "jb_framelist_remove_head fl k = (r, fl1)" by (cases "jb_framelist_remove_head fl k")
    note R = remove_head_spec [OF P(1) rm]
    obtain st1 fl2 where p2: "jb_framelist_put_at fl1 seq frame n bi ts PJMEDIA_JB_NORMAL_FRAME = (st1, fl2)"
      by (cases "jb_framelist_put_at fl1 seq frame n bi ts PJMEDIA_JB_NORMAL_FRAME")
    have "int r \<le> int ?m" using R(2) A(3) by simp
    then have o1: "seq_range (fl_origin fl1)"
      using R(4) A(1,2) i m by (auto simp: seq_range_def MAX_DROPOUT_def)
    have n2: "n \<le> fl_frame_size fl1" using n1 P(3) R(6) by simp
    note P2 = put_at_spec [OF R(1) sr(1) o1 n2 n(2) p2]
    have af: "abs_put ?m (fl_origin fl1) (slots fl1) seq ?s =
        (if length ?xs \<le> k then (PJ_SUCCESS, seq, [?s]) else (PJ_SUCCESS, ?og + int k, put_slot (drop k ?xs) (?m - 1) ?s))"
      using abs_put_after_room [OF A(1,3) m0(1) k_def, of ?s] R(2,3,4) by simp
    then have st1: "st1 = PJ_SUCCESS" using P2(4) R(5) P(2) m by (auto split: if_splits)
    have "make_room (jb\<lparr>jb_framelist := fl\<rparr>) seq frame n bi ts st0 =
        make_room (jb\<lparr>jb_framelist := fl2, jb_discard := uadd (jb_discard jb) r\<rparr>) seq frame n bi ts st1"
      using True rm p2 u by (subst make_room.simps) (simp add: Let_def jb_framelist_origin_def)
    also have "\<dots> = Some (st1, jb\<lparr>jb_framelist := fl2, jb_discard := uadd (jb_discard jb) r\<rparr>)"
      using st1 by (subst make_room.simps) (simp add: pj_status)
    finally have mr: "make_room (jb\<lparr>jb_framelist := fl\<rparr>) seq frame n bi ts st0 =
        Some (st1, jb\<lparr>jb_framelist := fl2, jb_discard := uadd (jb_discard jb) r\<rparr>)" .
    have "abs_jput ?m (fl_origin ?fl) (slots ?fl) seq ?s = abs_put ?m (fl_origin fl1) (slots fl1) seq ?s"
      unfolding af abs_jput_def a k_def by (simp add: Let_def)
    also have "\<dots> = (st1, fl_origin fl2, slots fl2)" using P2(4) R(5) P(2) m by simp
    finally show ?thesis using mr P2(1-3) R(5,6) P(2,3) m fs by auto
  qed
qed

text \<open>The outcomes of an insertion: refused without effect, or stored behind what is left of the window.\<close>

definition stored :: "nat \<Rightarrow> int \<Rightarrow> jb_slot list \<Rightarrow> int \<Rightarrow> jb_slot \<Rightarrow> int \<Rightarrow> jb_slot list \<Rightarrow> bool" where
  "stored m og xs index s og' xs' \<longleftrightarrow>
     (\<exists>n d. n \<le> length xs \<and> xs' = put_slot (drop n xs) d s \<and> og' + int d = index \<and> d < m \<and>
        (og' \<le> og + int n \<or> n = length xs) \<and>
        (og - index < MAX_MISORDER \<longrightarrow> og \<le> og' \<and> (og' = og + int n \<or> n = length xs)) \<and>
        (og \<le> og' \<or> index - int (length xs) \<le> og'))"

lemma storedI:
  "n \<le> length xs \<Longrightarrow> xs' = put_slot (drop n xs) d s \<Longrightarrow> og' + int d = index \<Longrightarrow> d < m \<Longrightarrow>
   og' \<le> og + int n \<or> n = length xs \<Longrightarrow> (og - index < MAX_MISORDER \<Longrightarrow> og \<le> og' \<and> (og' = og + int n \<or> n = length xs)) \<Longrightarrow>
   og \<le> og' \<or> index - int (length xs) \<le> og' \<Longrightarrow> stored m og xs index s og' xs'"
  unfolding stored_def by blast

lemma abs_put_outcome:
  assumes "abs_put m og xs index s = (st, og1, xs1)" and "length xs \<le> m" and "0 < m"
  shows "(st = PJ_ETOOSMALL \<or> st = PJ_EEXISTS) \<and> og1 = og \<and> xs1 = xs \<or>
    st = PJ_SUCCESS \<and> stored m og xs index s og1 xs1 \<or>
    st = PJ_ETOOMANY \<and> xs1 = xs \<and> og1 \<le> og \<and> (og - index < MAX_MISORDER \<longrightarrow> og1 = og) \<and> (og1 = og \<or> og1 = index - int (length xs))"
proof (cases "abs_place og xs index")
  case None
  then show ?thesis using assms(1) by (auto simp: abs_put_def)
next
  case (Some t)
  obtain og2 xs2 d where t: "t = (og2, xs2, d)" by (cases t)
  have p: "og2 + d = index" "0 \<le> d" "xs2 = xs \<and> og2 \<le> og \<and> (og2 = og \<or> og2 = index - int (length xs) \<and> MAX_MISORDER \<le> og - index) \<or>
      xs2 = [] \<and> og2 = index \<and> (og - index < MAX_MISORDER \<longrightarrow> og \<le> index)"
    using Some t by (auto simp: abs_place_def MAX_MISORDER_def split: if_splits)
  consider (far) "int m \<le> d" "MAX_DROPOUT < d" | (many) "int m \<le> d" "\<not> MAX_DROPOUT < d"
    | (dup) "d < int m" "nat d < length xs2 \<and> xs2 ! nat d \<noteq> Missing"
    | (put) "d < int m" "\<not> (nat d < length xs2 \<and> xs2 ! nat d \<noteq> Missing)" by linarith
  then show ?thesis
  proof cases
    case far
    then have r: "st = PJ_SUCCESS" "og1 = index" "xs1 = [s]" using assms(1) Some t by (simp_all add: abs_put_def)
    have "stored m og xs index s index [s]"
      by (rule storedI [of "length xs" _ _ 0]) (use p assms(3) in \<open>auto simp: put_slot_def MAX_MISORDER_def\<close>)
    then show ?thesis using r by simp
  next
    case many
    then have "st = PJ_ETOOMANY" "og1 = og2" "xs1 = xs2" using assms(1) Some t by (simp_all add: abs_put_def)
    then show ?thesis using p many assms(3) by auto
  next
    case dup
    then have "st = PJ_EEXISTS" "og1 = og2" "xs1 = xs2" using assms(1) Some t by (simp_all add: abs_put_def)
    then show ?thesis using p dup by auto
  next
    case put
    then have r: "st = PJ_SUCCESS" "og1 = og2" "xs1 = put_slot xs2 (nat d) s"
      using assms(1) Some t by (auto simp: abs_put_def split: if_splits)
    have "stored m og xs index s og2 (put_slot xs2 (nat d) s)"
      by (rule storedI [of "if xs2 = xs then 0 else length xs" _ _ "nat d"]) (use p put in auto)
    then show ?thesis using r by simp
  qed
qed

lemma abs_jput_outcome:
  assumes p: "abs_jput m og xs index s = (st, og', xs')" and l: "length xs \<le> m" "0 < m"
  shows "(st = PJ_ETOOSMALL \<or> st = PJ_EEXISTS) \<and> og' = og \<and> xs' = xs \<or>
    st = PJ_SUCCESS \<and> stored m og xs index s og' xs'"
proof -
  obtain st1 og1 xs1 where a: "abs_put m og xs index s = (st1, og1, xs1)" by (metis prod_cases3)
  show ?thesis
  proof (cases "st1 = PJ_ETOOMANY")
    case False
    then have "(st, og', xs') = (st1, og1, xs1)" using p a by (simp add: abs_jput_def)
    then show ?thesis using abs_put_outcome [OF a l] False by auto
  next
    case True
    note M = abs_put_many [OF a [unfolded True] l]
    have o: "og - index < MAX_MISORDER \<longrightarrow> og1 = og" "og1 = og \<or> og1 = index - int (length xs)"
      using abs_put_outcome [OF a l] True by (auto simp: pj_status)
    define n where "n = nat (index - og1) - m + 1"
    have e: "(if length xs \<le> n then (PJ_SUCCESS, index, [s]) else (PJ_SUCCESS, og1 + int n, put_slot (drop n xs) (m - 1) s)) = (st, og', xs')"
      using p a True M(4) unfolding n_def by (auto simp: abs_jput_def Let_def split: if_splits)
    show ?thesis
    proof (cases "length xs \<le> n")
      case True
      have "stored m og xs index s index [s]"
        by (rule storedI [of "length xs" _ _ 0]) (use o M(1) l in \<open>auto simp: put_slot_def\<close>)
      then show ?thesis using e True by auto
    next
      case False
      have "int n = index - og1 - int m + 1" using M(1) by (simp add: n_def of_nat_diff nat_diff_distrib)
      then have i: "og1 + int n + int (m - 1) = index" using l by (simp add: of_nat_diff)
      have "stored m og xs index s (og1 + int n) (put_slot (drop n xs) (m - 1) s)"
        by (rule storedI [of n _ _ "m - 1"]) (use o False M(5) l i in auto)
      then show ?thesis using e False by auto
    qed
  qed
qed

text \<open>What storing keeps.\<close>

lemma stored_window:
  assumes "stored m og xs index s og' xs'" and "window_ok og xs" and "0 \<le> index" and "index < 2 ^ 28"
    and "length xs \<le> m" and "m < 2 ^ 28"
  shows "window_ok og' xs'"
proof -
  obtain n d where "n \<le> length xs" "xs' = put_slot (drop n xs) d s" "og' + int d = index"
    "og' \<le> og + int n \<or> n = length xs" "og \<le> og' \<or> index - int (length xs) \<le> og'"
    using assms(1) by (auto simp: stored_def)
  then show ?thesis using assms(2-6) by (auto simp: window_ok_def put_slot_length split: if_splits)
qed

lemma stored_discarded_upto:
  assumes "stored m og xs index s og' xs'" and "discarded_upto ref og xs" and "s \<noteq> Discarded"
  shows "discarded_upto ref og' xs'"
proof -
  obtain n d where n: "n \<le> length xs" "xs' = put_slot (drop n xs) d s" "og' \<le> og + int n \<or> n = length xs"
    using assms(1) by (auto simp: stored_def)
  show ?thesis
    unfolding discarded_upto_def
  proof (intro allI impI)
    fix i assume i: "i < length xs'" "xs' ! i = Discarded"
    then have k: "i < length xs - n" "xs ! (n + i) = Discarded" "n + i < length xs"
      using n assms(3) by (auto simp: put_slot_nth split: if_splits)
    then have "og + int (n + i) \<le> ref" using assms(2) by (auto simp: discarded_upto_def)
    then show "og' + int i \<le> ref" using n(3) k by auto
  qed
qed

lemma prefetch_norm:
  "(if jb_prefetching j \<and> x \<ge> jb_prefetch j then j\<lparr>jb_prefetching := False\<rparr> else j) =
     j\<lparr>jb_prefetching := (jb_prefetching j \<and> x < jb_prefetch j)\<rparr>"
  by (cases j) auto

lemma put_form:
  assumes inv: "jb_inv jb" and seq: "0 \<le> seq" "seq < 2 ^ 28" and len: "min n (jb_frame_size jb) \<le> length frame"
    and s_def: "s = Frame (take (min n (jb_frame_size jb)) frame) bi ts"
  shows "\<exists>st fl' k lv.
    abs_jput (jb_max_count jb) (fl_origin (jb_framelist jb)) (slots (jb_framelist jb)) seq s = (st, fl_origin fl', slots fl') \<and>
    jb_inv (jb\<lparr>jb_framelist := fl', jb_discard := k\<rparr>) \<and>
    pjmedia_jbuf_put_frame3 jb frame n bi seq ts =
      (if st = PJ_SUCCESS
       then Some (False, jbuf_update (jb\<lparr>jb_framelist := fl', jb_discard := k,
              jb_prefetching := (jb_prefetching jb \<and> s_of (jb_framelist_eff_size fl') < jb_prefetch jb), jb_level := lv\<rparr>) JB_OP_PUT)
       else Some (True, jb\<lparr>jb_framelist := fl', jb_discard := k\<rparr>))"
proof -
  let ?n = "min n (jb_frame_size jb)" and ?fl = "jb_framelist jb" and ?m = "jb_max_count jb"
  obtain st0 fl where p: "jb_framelist_put_at ?fl seq frame ?n bi ts PJMEDIA_JB_NORMAL_FRAME = (st0, fl)"
    by (cases "jb_framelist_put_at ?fl seq frame ?n bi ts PJMEDIA_JB_NORMAL_FRAME")
  obtain st fl' k where mr: "make_room (jb\<lparr>jb_framelist := fl\<rparr>) seq frame ?n bi ts st0 =
      Some (st, jb\<lparr>jb_framelist := fl', jb_discard := k\<rparr>)" "fl_ok fl'"
      "fl_max_count fl' = ?m" "fl_frame_size fl' = jb_frame_size jb"
      "abs_jput ?m (fl_origin ?fl) (slots ?fl) seq s = (st, fl_origin fl', slots fl')"
    using make_room_spec [OF inv seq _ len p] unfolding s_def by auto
  let ?jb = "jb\<lparr>jb_framelist := fl', jb_discard := k\<rparr>"
  have ok: "fl_ok ?fl" "fl_max_count ?fl = ?m" "?m < 2 ^ 28" "window_ok (fl_origin ?fl) (slots ?fl)"
    using inv by (simp_all add: jb_inv_def)
  have l: "length (slots ?fl) \<le> ?m" "0 < ?m" using fl_okD [OF ok(1)] ok(2) by simp_all
  note out = abs_jput_outcome [OF mr(5) l]
  have "window_ok (fl_origin fl') (slots fl')"
    using out ok stored_window [OF _ ok(4) seq l(1) ok(3)] by auto
  moreover have "discarded_upto ref (fl_origin fl') (slots fl')" if "discarded_upto ref (fl_origin ?fl) (slots ?fl)" for ref
    using out that stored_discarded_upto [OF _ that] by (auto simp: s_def)
  ultimately have inv2: "jb_inv ?jb" using inv mr by (auto simp: jb_inv_def schedule_ok_def)
  show ?thesis
  proof (cases "st = PJ_SUCCESS")
    case False
    then have "pjmedia_jbuf_put_frame3 jb frame n bi seq ts = Some (True, ?jb\<lparr>jb_discard := uadd k 1\<rparr>)"
      using p mr(1) by (simp add: pjmedia_jbuf_put_frame3_def Let_def)
    moreover have "jb_inv (?jb\<lparr>jb_discard := uadd k 1\<rparr>)" using inv2 by (simp only: jb_inv_fields)
    ultimately show ?thesis using mr(5) False
      by (intro exI [of _ st] exI [of _ fl'] exI [of _ "uadd k 1"]) simp
  next
    case True
    define lv where "lv = jb_level jb + (if s_of (jb_framelist_eff_size fl') > s_of (jb_framelist_eff_size ?fl)
        then s_of (jb_framelist_eff_size fl') - s_of (jb_framelist_eff_size ?fl) else 1)"
    have "pjmedia_jbuf_put_frame3 jb frame n bi seq ts = Some (False, jbuf_update (jb\<lparr>jb_framelist := fl', jb_discard := k,
        jb_prefetching := (jb_prefetching jb \<and> s_of (jb_framelist_eff_size fl') < jb_prefetch jb), jb_level := lv\<rparr>) JB_OP_PUT)"
      using p mr(1) True unfolding pjmedia_jbuf_put_frame3_def lv_def Let_def prefetch_norm by simp
    then show ?thesis using mr(5) inv2 True
      by (intro exI [of _ st] exI [of _ fl'] exI [of _ k] exI [of _ lv]) simp
  qed
qed

lemma put_inv:
  assumes inv: "jb_inv jb" and seq: "0 \<le> seq" "seq < 2 ^ 28" and len: "min n (jb_frame_size jb) \<le> length frame"
    and s_def: "s = Frame (take (min n (jb_frame_size jb)) frame) bi ts"
  shows "\<exists>disc jb' st og xs. pjmedia_jbuf_put_frame3 jb frame n bi seq ts = Some (disc, jb') \<and> jb_inv jb' \<and>
    jb_frame_size jb' = jb_frame_size jb \<and>
    abs_jput (jb_max_count jb) (fl_origin (jb_framelist jb)) (slots (jb_framelist jb)) seq s = (st, og, xs) \<and>
    (disc \<longleftrightarrow> st \<noteq> PJ_SUCCESS) \<and>
    (if disc then fl_origin (jb_framelist jb') = og \<and> slots (jb_framelist jb') = xs
     else trimmed og xs (fl_origin (jb_framelist jb')) (slots (jb_framelist jb')))"
proof -
  obtain st fl' k lv where
    a: "abs_jput (jb_max_count jb) (fl_origin (jb_framelist jb)) (slots (jb_framelist jb)) seq s = (st, fl_origin fl', slots fl')"
    and i: "jb_inv (jb\<lparr>jb_framelist := fl', jb_discard := k\<rparr>)"
    and e: "pjmedia_jbuf_put_frame3 jb frame n bi seq ts =
      (if st = PJ_SUCCESS
       then Some (False, jbuf_update (jb\<lparr>jb_framelist := fl', jb_discard := k,
              jb_prefetching := (jb_prefetching jb \<and> s_of (jb_framelist_eff_size fl') < jb_prefetch jb), jb_level := lv\<rparr>) JB_OP_PUT)
       else Some (True, jb\<lparr>jb_framelist := fl', jb_discard := k\<rparr>))"
    using put_form [OF assms] by blast
  let ?j = "jb\<lparr>jb_framelist := fl', jb_discard := k,
              jb_prefetching := (jb_prefetching jb \<and> s_of (jb_framelist_eff_size fl') < jb_prefetch jb), jb_level := lv\<rparr>"
  have "jb_inv ?j" using i by (simp only: jb_inv_fields)
  note u = update_keeps [OF this, of JB_OP_PUT]
  show ?thesis using a i e u by (cases "st = PJ_SUCCESS") auto
qed

section \<open>Retrieving a frame\<close>

lemma window_drop: "window_ok og xs \<Longrightarrow> n \<le> length xs \<Longrightarrow> window_ok (og + int n) (drop n xs)"
  by (auto simp: window_ok_def)

lemma jb_inv_drop:
  assumes "jb_inv jb" and "fl_ok fl'" and "slots fl' = drop n (slots (jb_framelist jb))"
    and "fl_origin fl' = fl_origin (jb_framelist jb) + int n" and "n \<le> length (slots (jb_framelist jb))"
    and "fl_max_count fl' = fl_max_count (jb_framelist jb)" and "fl_frame_size fl' = fl_frame_size (jb_framelist jb)"
  shows "jb_inv (jb\<lparr>jb_framelist := fl'\<rparr>)"
  using assms discarded_upto_tl [of _ "fl_origin (jb_framelist jb)" "slots (jb_framelist jb)" n]
    window_drop [of "fl_origin (jb_framelist jb)" "slots (jb_framelist jb)" n]
  by (auto simp: jb_inv_def schedule_ok_def)

lemma get_inv:
  assumes inv: "jb_inv jb"
  defines "og \<equiv> fl_origin (jb_framelist jb)" and "xs \<equiv> slots (jb_framelist jb)"
  defines "d \<equiv> length (takeWhile (\<lambda>s. s = Discarded) xs)"
  shows "\<exists>ft got jb' og1 xs1. pjmedia_jbuf_get_frame3 jb buf_size = Some (ft, got, jb') \<and> jb_inv jb' \<and>
    jb_frame_size jb' = jb_frame_size jb \<and>
    trimmed og1 xs1 (fl_origin (jb_framelist jb')) (slots (jb_framelist jb')) \<and>
    (if jb_prefetching jb then ft = PJMEDIA_JB_ZERO_PREFETCH_FRAME \<and> got = None \<and> og1 = og \<and> xs1 = xs
     else if jb_framelist_eff_size (jb_framelist jb) < jb_min_delay jb
     then ft = PJMEDIA_JB_MISSING_FRAME \<and> got = None \<and> og1 = og \<and> xs1 = xs
     else (case dropWhile (\<lambda>s. s = Discarded) xs of
             [] \<Rightarrow> ft = PJMEDIA_JB_ZERO_EMPTY_FRAME \<and> got = Some (No_Frame (replicate (jb_frame_size jb) 0)) \<and>
                   og1 = og + int d \<and> xs1 = []
           | s # ss \<Rightarrow> \<exists>out. got = Some (Got out) \<and> ft = o_type out \<and> o_seq out = og + int d \<and>
                   shows_slot buf_size (if 0 < d then Missing else s) out \<and> og1 = og + int d + 1 \<and> xs1 = ss))"
proof -
  let ?fl = "jb_framelist jb"
  have ok: "fl_ok ?fl" and fs: "fl_frame_size ?fl = jb_frame_size jb" using inv by (simp_all add: jb_inv_def)
  consider (pre) "jb_prefetching jb" | (few) "\<not> jb_prefetching jb" "jb_framelist_eff_size ?fl < jb_min_delay jb"
    | (go) "\<not> jb_prefetching jb" "\<not> jb_framelist_eff_size ?fl < jb_min_delay jb" by blast
  then show ?thesis
  proof cases
    case pre
    let ?j = "jb\<lparr>jb_empty := uadd (jb_empty jb) 1, jb_level := jb_level jb + 1\<rparr>"
    have "pjmedia_jbuf_get_frame3 jb buf_size = Some (PJMEDIA_JB_ZERO_PREFETCH_FRAME, None, jbuf_update ?j JB_OP_GET)"
      using pre by (simp add: pjmedia_jbuf_get_frame3_def Let_def)
    moreover have "jb_inv ?j" using inv by simp
    ultimately show ?thesis using pre update_keeps [of ?j JB_OP_GET] by (auto simp: og_def xs_def)
  next
    case few
    let ?j = "jb\<lparr>jb_level := jb_level jb + 1\<rparr>"
    have "pjmedia_jbuf_get_frame3 jb buf_size = Some (PJMEDIA_JB_MISSING_FRAME, None, jbuf_update ?j JB_OP_GET)"
      using few by (simp add: pjmedia_jbuf_get_frame3_def Let_def)
    moreover have "jb_inv ?j" using inv by simp
    ultimately show ?thesis using few update_keeps [of ?j JB_OP_GET] by (auto simp: og_def xs_def)
  next
    case go
    note G = get_spec [OF ok, of buf_size, folded xs_def og_def, folded d_def]
    have dl: "d \<le> length xs" "drop d xs = dropWhile (\<lambda>s. s = Discarded) xs"
      by (simp_all add: d_def length_takeWhile_le dropWhile_eq_drop)
    show ?thesis
    proof (cases "dropWhile (\<lambda>s. s = Discarded) xs")
      case Nil
      obtain fl' where g: "jb_framelist_get ?fl buf_size = Some (No_Frame (replicate (jb_frame_size jb) 0), fl')"
        "fl_ok fl'" "slots fl' = []" "fl_origin fl' = og + int d"
        "fl_max_count fl' = fl_max_count ?fl" "fl_frame_size fl' = fl_frame_size ?fl"
        using G [unfolded Nil] fs by auto
      let ?j = "jb\<lparr>jb_framelist := fl', jb_prefetching := (if jb_prefetch jb \<noteq> 0 then True else jb_prefetching jb),
          jb_empty := uadd (jb_empty jb) 1, jb_level := jb_level jb + 1\<rparr>"
      have i: "jb_inv (jb\<lparr>jb_framelist := fl'\<rparr>)"
        using g dl(1) dl(2) [unfolded Nil] by (intro jb_inv_drop [OF inv, of _ d]) (simp_all add: og_def xs_def)
      have e: "pjmedia_jbuf_get_frame3 jb buf_size =
          Some (PJMEDIA_JB_ZERO_EMPTY_FRAME, Some (No_Frame (replicate (jb_frame_size jb) 0)), jbuf_update ?j JB_OP_GET)"
        using go g(1) by (simp add: pjmedia_jbuf_get_frame3_def Let_def)
      have "jb_inv ?j" using i by simp
      note u = update_keeps [OF this, of JB_OP_GET]
      have "trimmed (og + int d) [] (fl_origin (jb_framelist (jbuf_update ?j JB_OP_GET)))
          (slots (jb_framelist (jbuf_update ?j JB_OP_GET)))" using u(2) g(3,4) by simp
      then show ?thesis
        unfolding Nil using go u(1) e
        by (intro exI [of _ PJMEDIA_JB_ZERO_EMPTY_FRAME] exI [of _ "jbuf_update ?j JB_OP_GET"]
            exI [of _ "og + int d"] exI [of _ "[] :: jb_slot list"] exI [of _ "Some (No_Frame (replicate (jb_frame_size jb) 0))"]) simp
    next
      case (Cons s ss)
      then obtain out fl' where g: "jb_framelist_get ?fl buf_size = Some (Got out, fl')"
        "fl_ok fl'" "slots fl' = ss" "fl_origin fl' = og + int d + 1" "o_seq out = og + int d"
        "shows_slot buf_size (if 0 < d then Missing else s) out"
        "fl_max_count fl' = fl_max_count ?fl" "fl_frame_size fl' = fl_frame_size ?fl" using G by auto
      have dd: "drop (Suc d) xs = ss" "Suc d \<le> length xs"
        using dl Cons by (metis drop_Suc tl_drop list.sel(3), metis Suc_leI drop_eq_Nil2 list.distinct(1) not_le_imp_less)
      have i: "jb_inv (jb\<lparr>jb_framelist := fl'\<rparr>)"
        using g dd by (intro jb_inv_drop [OF inv, of _ "Suc d"]) (simp_all add: og_def xs_def)
      have ty: "o_type out = PJMEDIA_JB_NORMAL_FRAME \<or> o_type out = PJMEDIA_JB_MISSING_FRAME"
        using g(6) by (auto simp: shows_slot_def split: jb_slot.splits)
      define j3 where "j3 = (let jb1 = jb\<lparr>jb_framelist := fl'\<rparr>;
          jb2 = (if o_type out = PJMEDIA_JB_NORMAL_FRAME then jb1 else jb1\<lparr>jb_lost := uadd (jb_lost jb1) 1\<rparr>)
        in (if jb_last_op jb2 = JB_OP_PUT
            then jb2\<lparr>jb_delay := pj_math_stat_update (jb_delay jb2)
                 (s_of (umul (uadd (jb_framelist_eff_size fl') 1) (jb_frame_ptime jb2) div jb_frame_ptime_denum jb2))\<rparr>
            else jb2))"
      have j: "jb_framelist j3 = fl'" "jb_inv j3" "jb_frame_size j3 = jb_frame_size jb" using i by (simp_all add: j3_def Let_def)
      let ?j = "j3\<lparr>jb_level := jb_level j3 + 1\<rparr>"
      have "pjmedia_jbuf_get_frame3 jb buf_size =
          Some (if o_type out = PJMEDIA_JB_NORMAL_FRAME then PJMEDIA_JB_NORMAL_FRAME else PJMEDIA_JB_MISSING_FRAME,
                Some (Got out), jbuf_update ?j JB_OP_GET)"
        using go g(1) unfolding pjmedia_jbuf_get_frame3_def Let_def j3_def by simp
      then have e: "pjmedia_jbuf_get_frame3 jb buf_size = Some (o_type out, Some (Got out), jbuf_update ?j JB_OP_GET)"
        using ty by auto
      have "jb_inv ?j" using j by simp
      note u = update_keeps [OF this, of JB_OP_GET]
      have "trimmed (og + int d + 1) ss (fl_origin (jb_framelist (jbuf_update ?j JB_OP_GET)))
          (slots (jb_framelist (jbuf_update ?j JB_OP_GET)))" using u(2) g(3,4) j by simp
      then show ?thesis
        unfolding Cons using go u(1) e g(5,6) j(3)
        by (intro exI [of _ "o_type out"] exI [of _ "jbuf_update ?j JB_OP_GET"]
            exI [of _ "og + int d + 1"] exI [of _ ss] exI [of _ "Some (Got out)"]) simp
    qed
  qed
qed

end
