(* ===== verification/Pj_Jbuf_Props.thy ===== *)
theory Pj_Jbuf_Props
  imports Pj_Jbuf_Spec
begin

text \<open>
  Sequences of operations on a jitter buffer and the properties of the component: what an
  insertion, a retrieval and a removal do, that no operation fails to end or miscounts, that
  frames come out in order with what was put in, and where the count of discarded frames goes
  wrong.
\<close>

section \<open>Removing frames\<close>

abbreviation nondisc :: "jb_slot list \<Rightarrow> nat" where
  "nondisc xs \<equiv> length (filter (\<lambda>s. s \<noteq> Discarded) xs)"

lemma nondisc_count: "nondisc xs + count_list xs Discarded = length xs"
  by (induction xs) auto

lemma count_take_drop: "count_list (take n xs) x + count_list (drop n xs) x = count_list xs x"
  by (metis append_take_drop_id count_list_append)

lemma take_add_drop: "take (N + n) xs = take N xs @ take n (drop N xs)"
  by (simp add: take_add)

lemma remove_more_spec:
  assumes "fl_ok fl" and "slots fl = drop N xs" and "N \<le> length xs" and "length xs < 2 ^ 30"
    and "fl_discarded_num fl \<le> L" and "L \<le> length xs"
    and "c = nondisc (take N xs) + (L - fl_discarded_num fl)" and "c = F \<or> c \<le> F \<and> N = length xs"
  shows "\<exists>N' fl'. remove_more fl L c = Some (nondisc (take N' xs), fl') \<and> fl_ok fl' \<and> slots fl' = drop N' xs \<and>
    N \<le> N' \<and> N' \<le> length xs \<and> fl_origin fl' = fl_origin fl + int (N' - N) \<and>
    fl_max_count fl' = fl_max_count fl \<and> fl_frame_size fl' = fl_frame_size fl \<and>
    (nondisc (take N' xs) = F \<or> nondisc (take N' xs) \<le> F \<and> N' = length xs)"
  using assms
proof (induction L arbitrary: fl N c rule: less_induct)
  case (less L)
  note p = less.prems
  show ?case
  proof (cases "fl_discarded_num fl < L")
    case False
    then have "remove_more fl L c = Some (c, fl)" by (subst remove_more.simps) simp
    then show ?thesis using p False by (intro exI [of _ N] exI [of _ fl]) auto
  next
    case True
    define k where "k = L - fl_discarded_num fl"
    obtain n fl1 where r: "jb_framelist_remove_head fl k = (n, fl1)" by (cases "jb_framelist_remove_head fl k")
    note R = remove_head_spec [OF p(1) r]
    have sz: "fl_size fl = length xs - N" using p(2) by (metis length_drop slots_length)
    have nl: "n \<le> length xs - N" "n \<le> k" using R(2) sz by simp_all
    have u: "usub L (fl_discarded_num fl) = k" using p True by (simp add: k_def usub_small)
    have "nondisc (take N xs) \<le> length xs" using length_filter_le [of "\<lambda>s. s \<noteq> Discarded" "take N xs"] by simp
    then have c1: "k \<le> c" "c \<le> L + length xs" using p(7) unfolding k_def by linarith+
    define c' where "c' = c - k + n"
    have uc: "uadd (usub c k) n = c'"
      using c1 nl p(4,6) by (simp add: c'_def usub_small uadd_small)
    have rm: "remove_more fl L c = remove_more fl1 (fl_discarded_num fl) c'"
      using True by (subst remove_more.simps) (simp add: Let_def u r uc)
    have s1: "slots fl1 = drop (N + n) xs" using R(3) p(2) by (simp add: add.commute)
    have dn: "fl_discarded_num fl = count_list (drop N xs) Discarded" "fl_discarded_num fl1 = count_list (drop (N + n) xs) Discarded"
      using discarded_num_window [OF p(1)] discarded_num_window [OF R(1)] p(2) s1 by simp_all
    have dl: "fl_discarded_num fl = count_list (take n (drop N xs)) Discarded + fl_discarded_num fl1"
      using count_take_drop [of n "drop N xs" Discarded] dn by (simp add: add.commute)
    have "nondisc (take n (drop N xs)) + count_list (take n (drop N xs)) Discarded = n"
      using nondisc_count [of "take n (drop N xs)"] nl by simp
    then have cc: "c' = nondisc (take (N + n) xs) + (fl_discarded_num fl - fl_discarded_num fl1)"
      using p(7) dl by (simp add: c'_def k_def take_add_drop)
    have ex: "c' = F \<or> c' \<le> F \<and> N + n = length xs"
      using p(3,8) c1 nl R(2) sz by (auto simp: c'_def min_def split: if_splits)
    have h: "N + n \<le> length xs" "fl_discarded_num fl1 \<le> fl_discarded_num fl" "fl_discarded_num fl \<le> length xs"
      using nl p(3,6) dl True by auto
    from less.IH [OF True R(1) s1 h(1) p(4) h(2,3) cc ex] obtain N' fl' where
      i: "remove_more fl1 (fl_discarded_num fl) c' = Some (nondisc (take N' xs), fl')" "fl_ok fl'" "slots fl' = drop N' xs"
        "N + n \<le> N'" "N' \<le> length xs" "fl_origin fl' = fl_origin fl1 + int (N' - (N + n))"
        "fl_max_count fl' = fl_max_count fl1" "fl_frame_size fl' = fl_frame_size fl1"
        "nondisc (take N' xs) = F \<or> nondisc (take N' xs) \<le> F \<and> N' = length xs" by blast
    then show ?thesis using rm R(4,5,6) by (intro exI [of _ N'] exI [of _ fl']) auto
  qed
qed

lemma remove_frame_spec:
  assumes inv: "jb_inv jb"
  defines "xs \<equiv> slots (jb_framelist jb)"
  shows "\<exists>N jb'. pjmedia_jbuf_remove_frame jb cnt = Some (min cnt (nondisc xs), jb') \<and> jb_inv jb' \<and> N \<le> length xs \<and>
    slots (jb_framelist jb') = drop N xs \<and> fl_origin (jb_framelist jb') = fl_origin (jb_framelist jb) + int N \<and>
    nondisc (take N xs) = min cnt (nondisc xs) \<and> (\<exists>fl. jb' = jb\<lparr>jb_framelist := fl\<rparr>)"
proof -
  let ?fl = "jb_framelist jb"
  have ok: "fl_ok ?fl" using inv by (simp add: jb_inv_def)
  have len: "length xs < 2 ^ 30" using fl_okD [OF ok] by (simp add: xs_def)
  obtain n fl1 where r: "jb_framelist_remove_head ?fl cnt = (n, fl1)" by (cases "jb_framelist_remove_head ?fl cnt")
  note R = remove_head_spec [OF ok r]
  have n: "n = min cnt (length xs)" using R(2) by (simp add: xs_def)
  have dn: "fl_discarded_num ?fl = count_list xs Discarded" "fl_discarded_num fl1 = count_list (drop n xs) Discarded"
    using discarded_num_window [OF ok] discarded_num_window [OF R(1)] R(3) by (simp_all add: xs_def)
  have d: "fl_discarded_num ?fl - fl_discarded_num fl1 = count_list (take n xs) Discarded" "fl_discarded_num fl1 \<le> fl_discarded_num ?fl"
    using count_take_drop [of n xs Discarded] dn by linarith+
  have "n = nondisc (take n xs) + (fl_discarded_num ?fl - fl_discarded_num fl1)"
    using nondisc_count [of "take n xs"] n d(1) by simp
  moreover have "n \<le> length xs" "fl_discarded_num ?fl \<le> length xs" "n = cnt \<or> n \<le> cnt \<and> n = length xs"
    using n dn(1) count_le_length [of xs Discarded] by auto
  ultimately have "\<exists>N' fl'. remove_more fl1 (fl_discarded_num ?fl) n = Some (nondisc (take N' xs), fl') \<and> fl_ok fl' \<and>
      slots fl' = drop N' xs \<and> n \<le> N' \<and> N' \<le> length xs \<and> fl_origin fl' = fl_origin fl1 + int (N' - n) \<and>
      fl_max_count fl' = fl_max_count fl1 \<and> fl_frame_size fl' = fl_frame_size fl1 \<and>
      (nondisc (take N' xs) = cnt \<or> nondisc (take N' xs) \<le> cnt \<and> N' = length xs)"
    by (intro remove_more_spec [OF R(1) R(3) [folded xs_def] _ len d(2)])
  then
  obtain N fl' where m: "remove_more fl1 (fl_discarded_num ?fl) n = Some (nondisc (take N xs), fl')" "fl_ok fl'"
    "slots fl' = drop N xs" "n \<le> N" "N \<le> length xs" "fl_origin fl' = fl_origin fl1 + int (N - n)"
    "fl_max_count fl' = fl_max_count fl1" "fl_frame_size fl' = fl_frame_size fl1"
    "nondisc (take N xs) = cnt \<or> nondisc (take N xs) \<le> cnt \<and> N = length xs" by blast
  have le: "nondisc (take N xs) \<le> nondisc xs"
    by (metis append_take_drop_id filter_append le_add1 length_append)
  then have c: "nondisc (take N xs) = min cnt (nondisc xs)" using m(9) by auto
  have o: "fl_origin fl' = fl_origin ?fl + int N" using m(4,6) R(4) by simp
  have "jb_inv (jb\<lparr>jb_framelist := fl'\<rparr>)"
    using m o R(5,6) by (intro jb_inv_drop [OF inv, of _ N]) (simp_all add: xs_def)
  moreover have "pjmedia_jbuf_remove_frame jb cnt = Some (min cnt (nondisc xs), jb\<lparr>jb_framelist := fl'\<rparr>)"
    using r m(1) c by (simp add: pjmedia_jbuf_remove_frame_def)
  ultimately show ?thesis using m(3,5) o c by (intro exI [of _ N] exI [of _ "jb\<lparr>jb_framelist := fl'\<rparr>"]) auto
qed

section \<open>Creation and reset\<close>

text \<open>The memory the pool gives for the arrays.\<close>

definition fresh_arrays :: "nat \<Rightarrow> nat \<Rightarrow> u8 list \<Rightarrow> int list \<Rightarrow> nat list \<Rightarrow> u32 list \<Rightarrow> u32 list \<Rightarrow> bool" where
  "fresh_arrays frame_size max_count content types lens bits tss \<longleftrightarrow>
     0 < max_count \<and> max_count < 2 ^ 28 \<and> max_count * frame_size < 2 ^ 32 \<and>
     length content = max_count * frame_size \<and> length types = max_count \<and> length lens = max_count \<and>
     length bits = max_count \<and> length tss = max_count"

lemma create_spec:
  assumes "fresh_arrays fs m content types lens bits tss" and "1 \<le> ptime" and "ptime \<le> 200"
    and "jb = pjmedia_jbuf_create fs ptime m content types lens bits tss"
  shows "jb_inv jb" and "slots (jb_framelist jb) = []" and "fl_origin (jb_framelist jb) = INVALID_OFFSET"
    and "jb_max_count jb = m" and "jb_frame_size jb = fs" and "jb_min_delay jb = 0"
    and "jb_status jb = JB_STATUS_INITIALIZING" and "jb_last_op jb = JB_OP_INIT" and "jb_init_cycle_cnt jb = 0"
    and "jb_discard_algo jb = PJMEDIA_JB_DISCARD_PROGRESSIVE"
    and "jb_prefetch jb = int (min 15 (m * 4 div 5))" and "jb_prefetching jb = (jb_prefetch jb \<noteq> 0)"
proof -
  let ?fl = "\<lparr>fl_frame_size = fs, fl_max_count = m, fl_content = content, fl_frame_type = types, fl_content_len = lens,
     fl_bit_info = bits, fl_ts = tss, fl_head = 0, fl_size = 0, fl_discarded_num = 0, fl_origin = 0\<rparr>"
  have sh: "fl_shape ?fl" using assms(1) by (simp add: fl_shape_def fresh_arrays_def)
  have f: "jb_framelist jb = jb_framelist_reset (jb_framelist_reset ?fl)"
    by (simp add: assms(4) pjmedia_jbuf_create_def pjmedia_jbuf_reset_def pjmedia_jbuf_set_discard_def Let_def jb_framelist_init_def)
  note r1 = reset_spec [OF sh]
  note r = reset_spec [OF fl_okD(1) [OF r1(1)], folded f]
  have g: "1 \<le> 200 div ptime" "200 div ptime \<le> 200" using assms(2,3) by (simp_all add: Suc_le_eq div_greater_zero_iff)
  then have s: "s_of (200 div ptime) = int (200 div ptime)" 
    by (intro s_of_small) (rule le_less_trans [of _ 200], simp_all)
  show "jb_max_count jb = m" "jb_frame_size jb = fs" "jb_min_delay jb = 0" "jb_status jb = JB_STATUS_INITIALIZING"
    "jb_last_op jb = JB_OP_INIT" "jb_init_cycle_cnt jb = 0" "jb_discard_algo jb = PJMEDIA_JB_DISCARD_PROGRESSIVE"
    "jb_prefetching jb = (jb_prefetch jb \<noteq> 0)"
    by (simp_all add: assms(4) pjmedia_jbuf_create_def pjmedia_jbuf_reset_def pjmedia_jbuf_set_discard_def Let_def)
  show "slots (jb_framelist jb) = []" "fl_origin (jb_framelist jb) = INVALID_OFFSET" by (rule r)+
  have "min 15 (umul m 4 div 5) < 2 ^ 31" "umul m 4 = m * 4" using assms(1) by (simp_all add: umul_small fresh_arrays_def min_def)
  then show "jb_prefetch jb = int (min 15 (m * 4 div 5))"
    by (simp add: assms(4) pjmedia_jbuf_create_def pjmedia_jbuf_reset_def pjmedia_jbuf_set_discard_def Let_def
        PJMEDIA_JB_DEFAULT_INIT_DELAY_def s_of_small)
  have c: "jb_min_shrink_gap jb = int (200 div ptime)" "jb_discard_dist jb = 0" "jb_max_count jb = m" "jb_frame_size jb = fs"
    using s by (simp_all add: assms(4) pjmedia_jbuf_create_def pjmedia_jbuf_reset_def pjmedia_jbuf_set_discard_def Let_def
        PJMEDIA_JBUF_DISC_MIN_GAP_def)
  have b: "int (200 div ptime) < 2 ^ 31" 
  proof -
    have "int (200 div ptime) \<le> 200" using g(2) by linarith
    also have "(200 :: int) < 2 ^ 31" by simp
    finally show ?thesis .
  qed
  have w: "window_ok INVALID_OFFSET []" by (simp add: window_ok_def INVALID_OFFSET_def)
  have fm: "fl_max_count (jb_framelist jb) = m" "fl_frame_size (jb_framelist jb) = fs" by (simp_all add: f)
  show "jb_inv jb"
    unfolding jb_inv_def schedule_ok_def c r(2,3) fm using r(1) g(1) b w assms(1) by (simp add: fresh_arrays_def)
qed

lemma reset_inv:
  assumes "jb_inv jb"
  shows "jb_inv (pjmedia_jbuf_reset jb)" and "slots (jb_framelist (pjmedia_jbuf_reset jb)) = []"
proof -
  note r = reset_spec [OF fl_okD(1), of "jb_framelist jb"]
  show "slots (jb_framelist (pjmedia_jbuf_reset jb)) = []"
    using r(2) assms by (simp add: pjmedia_jbuf_reset_def jb_inv_def)
  show "jb_inv (pjmedia_jbuf_reset jb)"
    using r assms by (auto simp: pjmedia_jbuf_reset_def jb_inv_def schedule_ok_def window_ok_def INVALID_OFFSET_def)
qed

section \<open>Clients\<close>

text \<open>The operations of an application: inserting a frame, retrieving one into a buffer of a size, removing
  frames, and the settings that may change while the buffer is in use.\<close>

datatype jb_call =
    Put "u8 list" nat u32 int u32
  | Get "nat option"
  | Remove nat
  | Set_Min_Delay nat
  | Set_Adaptive nat nat nat

fun jb_call_ok :: "nat \<Rightarrow> jb_call \<Rightarrow> bool" where
  "jb_call_ok fs (Put frame n bi seq ts) \<longleftrightarrow> 0 \<le> seq \<and> seq < 2 ^ 28 \<and> min n fs \<le> length frame"
| "jb_call_ok fs c \<longleftrightarrow> True"

text \<open>A call gives the normal frame it delivers, if any.\<close>

definition delivered :: "int \<Rightarrow> jb_got option \<Rightarrow> jb_out list" where
  "delivered ft got = (case got of Some (Got out) \<Rightarrow> if ft = PJMEDIA_JB_NORMAL_FRAME then [out] else [] | _ \<Rightarrow> [])"

fun jb_step :: "jb_call \<Rightarrow> pjmedia_jbuf \<Rightarrow> (jb_out list \<times> pjmedia_jbuf) option" where
  "jb_step (Put frame n bi seq ts) jb =
     (case pjmedia_jbuf_put_frame3 jb frame n bi seq ts of None \<Rightarrow> None | Some (d, jb') \<Rightarrow> Some ([], jb'))"
| "jb_step (Get buf_size) jb =
     (case pjmedia_jbuf_get_frame3 jb buf_size of None \<Rightarrow> None | Some (ft, got, jb') \<Rightarrow> Some (delivered ft got, jb'))"
| "jb_step (Remove n) jb =
     (case pjmedia_jbuf_remove_frame jb n of None \<Rightarrow> None | Some (c, jb') \<Rightarrow> Some ([], jb'))"
| "jb_step (Set_Min_Delay n) jb = Some ([], pjmedia_jbuf_set_min_delay jb n)"
| "jb_step (Set_Adaptive a b c) jb = Some ([], snd (pjmedia_jbuf_set_adaptive jb a b c))"

fun jb_run :: "jb_call list \<Rightarrow> pjmedia_jbuf \<Rightarrow> (jb_out list \<times> pjmedia_jbuf) option" where
  "jb_run [] jb = Some ([], jb)"
| "jb_run (c # cs) jb =
     (case jb_step c jb of
        None \<Rightarrow> None
      | Some (out, jb1) \<Rightarrow> (case jb_run cs jb1 of None \<Rightarrow> None | Some (outs, jb2) \<Rightarrow> Some (out @ outs, jb2)))"

text \<open>The window only moves on and what it holds was there or is the frame just put.\<close>

definition moved :: "int \<Rightarrow> jb_slot list \<Rightarrow> int \<Rightarrow> jb_slot list \<Rightarrow> bool" where
  "moved og xs og' xs' \<longleftrightarrow> og \<le> og' \<and> og' + int (length xs') \<le> og + int (length xs) \<and>
     (\<forall>i < length xs'. \<forall>b t u. xs' ! i = Frame b t u \<longrightarrow>
        og \<le> og' + int i \<and> nat (og' + int i - og) < length xs \<and> xs ! nat (og' + int i - og) = Frame b t u)"

lemma moved_refl: "moved og xs og xs"
  by (simp add: moved_def)

lemma trimmed_moved: "trimmed og xs og' xs' \<Longrightarrow> moved og xs og' xs'"
  unfolding trimmed_def
proof (elim disjE exE conjE)
  fix i assume "i < length xs" "og' = og" "xs' = xs[i := Discarded]"
  then show ?thesis by (auto simp: moved_def nth_list_update split: if_splits)
next
  assume a: "xs \<noteq> []" "og' = og + 1" "xs' = tl xs"
  have e: "nat (1 + int i) = Suc i" for i by simp
  show ?thesis using a by (auto simp: moved_def nth_tl e neq_Nil_conv add.commute)
qed (simp add: moved_refl)

lemma drop_moved:
  assumes "n \<le> length xs"
  shows "moved og xs (og + int n) (drop n xs)"
proof -
  have "nat (int n + int i) = n + i" for i by simp
  then show ?thesis using assms by (auto simp: moved_def)
qed

lemma moved_trans:
  assumes "moved og xs og1 xs1" and "moved og1 xs1 og2 xs2"
  shows "moved og xs og2 xs2"
  unfolding moved_def
proof (intro conjI allI impI)
  show "og \<le> og2" "og2 + int (length xs2) \<le> og + int (length xs)" using assms by (auto simp: moved_def)
  fix i b t u assume i: "i < length xs2" "xs2 ! i = Frame b t u"
  let ?j = "nat (og2 + int i - og1)"
  have j: "og1 \<le> og2 + int i" "?j < length xs1" "xs1 ! ?j = Frame b t u" using assms(2) i by (auto simp: moved_def)
  then have "og \<le> og1 + int ?j" "nat (og1 + int ?j - og) < length xs" "xs ! nat (og1 + int ?j - og) = Frame b t u"
    using assms(1) by (auto simp: moved_def)
  moreover have "og1 + int ?j = og2 + int i" using j by simp
  ultimately show "og \<le> og2 + int i" "nat (og2 + int i - og) < length xs" "xs ! nat (og2 + int i - og) = Frame b t u" by simp_all
qed

lemma setters_inv:
  assumes "jb_inv jb"
  shows "jb_inv (pjmedia_jbuf_set_min_delay jb n)" and "jb_framelist (pjmedia_jbuf_set_min_delay jb n) = jb_framelist jb"
    and "jb_inv (snd (pjmedia_jbuf_set_adaptive jb a b c))"
    and "jb_framelist (snd (pjmedia_jbuf_set_adaptive jb a b c)) = jb_framelist jb"
  using assms by (simp_all add: pjmedia_jbuf_set_min_delay_def Let_def pjmedia_jbuf_set_adaptive_def)



section \<open>Order and contents\<close>

text \<open>The frames of the window carry what was put under their numbers.\<close>

type_synonym put_record = "int \<times> u8 list \<times> u32 \<times> u32"

definition frames_in :: "put_record set \<Rightarrow> int \<Rightarrow> jb_slot list \<Rightarrow> bool" where
  "frames_in P og xs \<longleftrightarrow> (\<forall>i < length xs. \<forall>b t u. xs ! i = Frame b t u \<longrightarrow> (og + int i, b, t, u) \<in> P)"

lemma frames_inD: "frames_in P og xs \<Longrightarrow> i < length xs \<Longrightarrow> xs ! i = Frame b t u \<Longrightarrow> (og + int i, b, t, u) \<in> P"
  by (simp add: frames_in_def)

lemma moved_frames: "moved og xs og' xs' \<Longrightarrow> frames_in P og xs \<Longrightarrow> frames_in P og' xs'"
  unfolding frames_in_def
proof (intro allI impI)
  fix i b t u
  assume m: "moved og xs og' xs'" and f: "\<forall>i < length xs. \<forall>b t u. xs ! i = Frame b t u \<longrightarrow> (og + int i, b, t, u) \<in> P"
    and i: "i < length xs'" "xs' ! i = Frame b t u"
  let ?j = "nat (og' + int i - og)"
  have "og \<le> og' + int i" "?j < length xs" "xs ! ?j = Frame b t u" using m i by (auto simp: moved_def)
  then have "(og + int ?j, b, t, u) \<in> P" "og + int ?j = og' + int i" using f by auto
  then show "(og' + int i, b, t, u) \<in> P" by simp
qed

definition client_inv :: "put_record set \<Rightarrow> int \<Rightarrow> int \<Rightarrow> int \<Rightarrow> jb_slot list \<Rightarrow> bool" where
  "client_inv P hi lst og xs \<longleftrightarrow> og + int (length xs) \<le> hi + 1 \<and> lst < og \<and> frames_in P og xs"

lemma client_moved: "client_inv P hi lst og xs \<Longrightarrow> moved og xs og' xs' \<Longrightarrow> client_inv P hi lst og' xs'"
  using moved_frames [of og xs og' xs' P] by (auto simp: client_inv_def moved_def)

lemma client_stored:
  assumes st: "stored m og xs seq (Frame b t u) og' xs'" and c: "client_inv P hi lst og xs" and s: "hi - 98 \<le> seq"
  shows "client_inv (insert (seq, b, t, u) P) (max hi seq) lst og' xs'"
proof -
  have mis: "og - seq < MAX_MISORDER" using c s by (simp add: client_inv_def MAX_MISORDER_def)
  obtain n d where n: "n \<le> length xs" "xs' = put_slot (drop n xs) d (Frame b t u)" "og' + int d = seq"
    "og' \<le> og + int n \<or> n = length xs" "og \<le> og'" "og' = og + int n \<or> n = length xs"
    using st mis by (auto simp: stored_def)
  have "frames_in (insert (seq, b, t, u) P) og' xs'"
    unfolding frames_in_def
  proof (intro allI impI)
    fix i b' t' u' assume i: "i < length xs'" "xs' ! i = Frame b' t' u'"
    show "(og' + int i, b', t', u') \<in> insert (seq, b, t, u) P"
    proof (cases "i = d")
      case True
      then show ?thesis using i n by (simp add: put_slot_nth)
    next
      case False
      then have k: "i < length xs - n" "xs ! (n + i) = Frame b' t' u'" using i n by (auto simp: put_slot_nth split: if_splits)
      then have "og' = og + int n" using n(6) by auto
      moreover have "(og + int (n + i), b', t', u') \<in> P" using frames_inD [of P og xs "n + i"] c k by (simp add: client_inv_def)
      ultimately show ?thesis by (simp add: add.assoc)
    qed
  qed
  moreover have "og' + int (length xs') \<le> max hi seq + 1"
    using n c by (auto simp: put_slot_length client_inv_def split: if_splits)
  ultimately show ?thesis using n c by (auto simp: client_inv_def)
qed

text \<open>The number of a frame may lag behind the highest so far by at most 98.\<close>

fun steady :: "int \<Rightarrow> jb_call list \<Rightarrow> bool" where
  "steady hi [] \<longleftrightarrow> True"
| "steady hi (Put frame n bi seq ts # cs) \<longleftrightarrow> hi - 98 \<le> seq \<and> steady (max hi seq) cs"
| "steady hi (c # cs) \<longleftrightarrow> steady hi cs"

fun put_of :: "nat \<Rightarrow> jb_call \<Rightarrow> put_record set" where
  "put_of fs (Put frame n bi seq ts) = {(seq, take (min n fs) frame, bi, ts)}"
| "put_of fs c = {}"

definition carries :: "put_record set \<Rightarrow> jb_out \<Rightarrow> bool" where
  "carries P out \<longleftrightarrow> (\<exists>b k. (o_seq out, b, o_bit_info out, o_ts out) \<in> P \<and> o_frame out = take k b \<and> o_size out = length (o_frame out))"

lemma client_get:
  assumes inv: "jb_inv jb" and c: "client_inv P hi lst (fl_origin (jb_framelist jb)) (slots (jb_framelist jb))"
  shows "\<exists>outs jb'. jb_step (Get buf_size) jb = Some (outs, jb') \<and> jb_inv jb' \<and> jb_frame_size jb' = jb_frame_size jb \<and>
    (outs = [] \<or> (\<exists>out. outs = [out] \<and> lst < o_seq out \<and> carries P out)) \<and>
    client_inv P hi (if outs = [] then lst else o_seq (hd outs)) (fl_origin (jb_framelist jb')) (slots (jb_framelist jb'))"
proof -
  let ?og = "fl_origin (jb_framelist jb)" and ?xs = "slots (jb_framelist jb)"
  let ?d = "length (takeWhile (\<lambda>s. s = Discarded) ?xs)" and ?r = "dropWhile (\<lambda>s. s = Discarded) ?xs"
  have dl: "?d \<le> length ?xs" "drop ?d ?xs = ?r" by (rule length_takeWhile_le, rule dropWhile_eq_drop [symmetric])
  obtain ft got jb' og1 xs1 where g: "pjmedia_jbuf_get_frame3 jb buf_size = Some (ft, got, jb')" "jb_inv jb'"
    "jb_frame_size jb' = jb_frame_size jb"
    "trimmed og1 xs1 (fl_origin (jb_framelist jb')) (slots (jb_framelist jb'))"
    and f: "if jb_prefetching jb then ft = PJMEDIA_JB_ZERO_PREFETCH_FRAME \<and> got = None \<and> og1 = ?og \<and> xs1 = ?xs
     else if jb_framelist_eff_size (jb_framelist jb) < jb_min_delay jb
     then ft = PJMEDIA_JB_MISSING_FRAME \<and> got = None \<and> og1 = ?og \<and> xs1 = ?xs
     else (case ?r of
             [] \<Rightarrow> ft = PJMEDIA_JB_ZERO_EMPTY_FRAME \<and> got = Some (No_Frame (replicate (jb_frame_size jb) 0)) \<and>
                   og1 = ?og + int ?d \<and> xs1 = []
           | s # ss \<Rightarrow> \<exists>out. got = Some (Got out) \<and> ft = o_type out \<and> o_seq out = ?og + int ?d \<and>
                   shows_slot buf_size (if 0 < ?d then Missing else s) out \<and> og1 = ?og + int ?d + 1 \<and> xs1 = ss)"
    using get_inv [OF inv, of buf_size] by auto
  have m: "moved og1 xs1 (fl_origin (jb_framelist jb')) (slots (jb_framelist jb'))" using g(4) by (rule trimmed_moved)
  have st: "jb_step (Get buf_size) jb = Some (delivered ft got, jb')" using g(1) by simp
  show ?thesis
  proof (cases "\<exists>out. got = Some (Got out)")
    case False
    then have dv: "delivered ft got = []" by (auto simp: delivered_def split: option.splits jb_got.splits)
    have "moved ?og ?xs og1 xs1"
    proof (cases ?r)
      case Nil
      have "moved ?og ?xs (?og + int ?d) []" using drop_moved [OF dl(1), of ?og] unfolding dl(2) Nil .
      then show ?thesis using f [unfolded Nil] moved_refl [of ?og ?xs] by (auto split: if_splits)
    next
      case (Cons s ss)
      then show ?thesis using f [unfolded Cons] False moved_refl [of ?og ?xs] by (auto split: if_splits)
    qed
    then show ?thesis using st dv g client_moved [OF c moved_trans [OF _ m]] by auto
  next
    case True
    then obtain out where o: "got = Some (Got out)" by blast
    obtain s ss where r: "?r = s # ss"
    proof (cases ?r)
      case Nil
      then show ?thesis using f [unfolded Nil] o by (auto split: if_splits)
    qed
    have h: "ft = o_type out" "o_seq out = ?og + int ?d" "shows_slot buf_size (if 0 < ?d then Missing else s) out"
      "og1 = ?og + int ?d + 1" "xs1 = ss" using f [unfolded r] o by (auto split: if_splits)
    have dd: "drop (Suc ?d) ?xs = ss" "Suc ?d \<le> length ?xs" "?xs ! ?d = s" "?d < length ?xs"
    proof -
      show l: "?d < length ?xs" using dl r by (metis drop_eq_Nil2 list.distinct(1) not_le_imp_less)
      then show "Suc ?d \<le> length ?xs" by simp
      show "drop (Suc ?d) ?xs = ss" using dl r by (metis drop_Suc tl_drop list.sel(3))
      show "?xs ! ?d = s" using dl r l by (metis hd_drop_conv_nth list.sel(1))
    qed
    have mv: "moved ?og ?xs og1 xs1" using drop_moved [OF dd(2), of ?og] dd(1) h by (simp add: algebra_simps)
    note c1 = client_moved [OF c moved_trans [OF mv m]]
    have og1: "og1 \<le> fl_origin (jb_framelist jb')" using m by (simp add: moved_def)
    show ?thesis
    proof (cases "ft = PJMEDIA_JB_NORMAL_FRAME")
      case False
      then show ?thesis using st o g c1 by (auto simp: delivered_def)
    next
      case True
      then have z: "?d = 0" and fr: "\<exists>b. s = Frame b (o_bit_info out) (o_ts out) \<and> o_size out = length (o_frame out) \<and>
          o_frame out = (case buf_size of None \<Rightarrow> b | Some n \<Rightarrow> take n b)"
        using h(1,3) by (auto simp: shows_slot_def jb_frames split: jb_slot.splits if_splits)
      then obtain b where b: "s = Frame b (o_bit_info out) (o_ts out)" "o_size out = length (o_frame out)"
        "o_frame out = (case buf_size of None \<Rightarrow> b | Some n \<Rightarrow> take n b)" by blast
      then have "\<exists>k. o_frame out = take k b" by (cases buf_size) (auto intro: exI [of _ "length b"])
      moreover have "(o_seq out, b, o_bit_info out, o_ts out) \<in> P"
        using c dd(3,4) b(1) h(2) by (auto simp: client_inv_def frames_in_def)
      ultimately have "carries P out" using b(2) by (auto simp: carries_def)
      moreover have "lst < o_seq out" using c h(2) by (simp add: client_inv_def)
      moreover have "client_inv P hi (o_seq out) (fl_origin (jb_framelist jb')) (slots (jb_framelist jb'))"
        using c1 og1 h(2,4) by (simp add: client_inv_def)
      ultimately show ?thesis using st o g True by (simp add: delivered_def)
    qed
  qed
qed

lemma client_step:
  assumes inv: "jb_inv jb" and c: "client_inv P hi lst (fl_origin (jb_framelist jb)) (slots (jb_framelist jb))"
    and ok: "jb_call_ok (jb_frame_size jb) call" and st: "steady hi (call # cs)"
  shows "\<exists>outs jb' hi'. jb_step call jb = Some (outs, jb') \<and> jb_inv jb' \<and> jb_frame_size jb' = jb_frame_size jb \<and>
    steady hi' cs \<and> (outs = [] \<or> (\<exists>out. outs = [out] \<and> lst < o_seq out \<and> carries P out)) \<and>
    client_inv (P \<union> put_of (jb_frame_size jb) call) hi' (if outs = [] then lst else o_seq (hd outs))
      (fl_origin (jb_framelist jb')) (slots (jb_framelist jb'))"
proof (cases call)
  case (Put frame n bi seq ts)
  let ?og = "fl_origin (jb_framelist jb)" and ?xs = "slots (jb_framelist jb)" and ?fs = "jb_frame_size jb"
  have h: "0 \<le> seq" "seq < 2 ^ 28" "min n ?fs \<le> length frame" "hi - 98 \<le> seq" "steady (max hi seq) cs"
    using ok st Put by simp_all
  from put_inv [OF inv h(1-3) refl, of bi ts] obtain disc jb' stt og xs where
    p: "pjmedia_jbuf_put_frame3 jb frame n bi seq ts = Some (disc, jb')" "jb_inv jb'" "jb_frame_size jb' = ?fs"
    and a: "abs_jput (jb_max_count jb) ?og ?xs seq (Frame (take (min n ?fs) frame) bi ts) = (stt, og, xs)"
    and d: "disc \<longleftrightarrow> stt \<noteq> PJ_SUCCESS"
      "if disc then fl_origin (jb_framelist jb') = og \<and> slots (jb_framelist jb') = xs
       else trimmed og xs (fl_origin (jb_framelist jb')) (slots (jb_framelist jb'))" by blast
  have fo: "fl_ok (jb_framelist jb)" "fl_max_count (jb_framelist jb) = jb_max_count jb" using inv by (simp_all add: jb_inv_def)
  then have l: "length ?xs \<le> jb_max_count jb" "0 < jb_max_count jb" using fl_okD [OF fo(1)] by simp_all
  let ?P = "insert (seq, take (min n ?fs) frame, bi, ts) P"
  have weak: "client_inv ?P (max hi seq) lst ?og ?xs" using c by (auto simp: client_inv_def frames_in_def)
  have c1: "client_inv ?P (max hi seq) lst og xs"
    using abs_jput_outcome [OF a l]
  proof
    assume "(stt = PJ_ETOOSMALL \<or> stt = PJ_EEXISTS) \<and> og = ?og \<and> xs = ?xs"
    then show ?thesis using weak by simp
  next
    assume "stt = PJ_SUCCESS \<and> stored (jb_max_count jb) ?og ?xs seq (Frame (take (min n ?fs) frame) bi ts) og xs"
    then show ?thesis using client_stored [OF _ c h(4)] by blast
  qed
  have "moved og xs (fl_origin (jb_framelist jb')) (slots (jb_framelist jb'))"
    using d trimmed_moved moved_refl by (auto split: if_splits)
  then have "client_inv ?P (max hi seq) lst (fl_origin (jb_framelist jb')) (slots (jb_framelist jb'))"
    by (rule client_moved [OF c1])
  then show ?thesis using p h(5) Put by (intro exI [of _ "[]"] exI [of _ jb'] exI [of _ "max hi seq"]) simp
next
  case (Get buf_size)
  have "steady hi cs" "put_of (jb_frame_size jb) call = {}" using st Get by simp_all
  then show ?thesis using client_get [OF inv c, of buf_size] unfolding Get by (metis Un_empty_right)
next
  case (Remove n)
  from remove_frame_spec [OF inv, of n] obtain N jb' where r: "pjmedia_jbuf_remove_frame jb n = Some (min n (nondisc (slots (jb_framelist jb))), jb')"
    "jb_inv jb'" "N \<le> length (slots (jb_framelist jb))" "slots (jb_framelist jb') = drop N (slots (jb_framelist jb))"
    "fl_origin (jb_framelist jb') = fl_origin (jb_framelist jb) + int N" "\<exists>fl. jb' = jb\<lparr>jb_framelist := fl\<rparr>" by blast
  have "client_inv P hi lst (fl_origin (jb_framelist jb')) (slots (jb_framelist jb'))"
    using client_moved [OF c drop_moved [OF r(3)]] r(4,5) by simp
  then show ?thesis using r st Remove by (intro exI [of _ "[]"] exI [of _ jb'] exI [of _ hi]) auto
next
  case (Set_Min_Delay n)
  then show ?thesis using setters_inv [OF inv] c st
    by (intro exI [of _ "[]"] exI [of _ "pjmedia_jbuf_set_min_delay jb n"] exI [of _ hi]) (auto simp: pjmedia_jbuf_set_min_delay_def Let_def)
next
  case (Set_Adaptive a1 b1 c1)
  then show ?thesis using setters_inv [OF inv] c st
    by (intro exI [of _ "[]"] exI [of _ "snd (pjmedia_jbuf_set_adaptive jb a1 b1 c1)"] exI [of _ hi])
      (auto simp: pjmedia_jbuf_set_adaptive_def)
qed

lemma carries_mono: "carries P out \<Longrightarrow> P \<subseteq> Q \<Longrightarrow> carries Q out"
  by (auto simp: carries_def)

lemma client_run:
  assumes "jb_inv jb" and "client_inv P hi lst (fl_origin (jb_framelist jb)) (slots (jb_framelist jb))"
    and "list_all (jb_call_ok (jb_frame_size jb)) cs" and "steady hi cs"
  shows "\<exists>outs jb'. jb_run cs jb = Some (outs, jb') \<and> jb_inv jb' \<and>
    sorted_wrt (\<lambda>a b. o_seq a < o_seq b) outs \<and> (\<forall>out \<in> set outs. lst < o_seq out) \<and>
    (\<forall>out \<in> set outs. carries (P \<union> (\<Union>c \<in> set cs. put_of (jb_frame_size jb) c)) out)"
  using assms
proof (induction cs arbitrary: jb P hi lst)
  case (Cons c cs)
  let ?fs = "jb_frame_size jb"
  from client_step [OF Cons.prems(1,2) _ Cons.prems(4)] Cons.prems(3)
  obtain outs1 jb1 hi1 where s: "jb_step c jb = Some (outs1, jb1)" "jb_inv jb1" "jb_frame_size jb1 = ?fs" "steady hi1 cs"
    "outs1 = [] \<or> (\<exists>out. outs1 = [out] \<and> lst < o_seq out \<and> carries P out)"
    "client_inv (P \<union> put_of ?fs c) hi1 (if outs1 = [] then lst else o_seq (hd outs1))
      (fl_origin (jb_framelist jb1)) (slots (jb_framelist jb1))" by auto
  let ?l = "if outs1 = [] then lst else o_seq (hd outs1)"
  have "list_all (jb_call_ok (jb_frame_size jb1)) cs" using Cons.prems(3) s(3) by simp
  from Cons.IH [OF s(2,6) this s(4)] obtain outs2 jb2 where
    r: "jb_run cs jb1 = Some (outs2, jb2)" "jb_inv jb2" "sorted_wrt (\<lambda>a b. o_seq a < o_seq b) outs2"
      "\<forall>out \<in> set outs2. ?l < o_seq out"
      "\<forall>out \<in> set outs2. carries (P \<union> put_of ?fs c \<union> (\<Union>c \<in> set cs. put_of ?fs c)) out"
    using s(3) by auto
  let ?Q = "P \<union> (\<Union>c \<in> set (c # cs). put_of ?fs c)"
  have q: "P \<union> put_of ?fs c \<union> (\<Union>c \<in> set cs. put_of ?fs c) = ?Q" by auto
  have "\<forall>out \<in> set outs1. carries ?Q out" using s(5) carries_mono [of P _ ?Q] by auto
  moreover have "sorted_wrt (\<lambda>a b. o_seq a < o_seq b) (outs1 @ outs2)" "\<forall>out \<in> set (outs1 @ outs2). lst < o_seq out"
    using s(5) r(3,4) by (auto dest: bspec)
  moreover have "jb_run (c # cs) jb = Some (outs1 @ outs2, jb2)" using s(1) r(1) by simp
  ultimately show ?case using r(2,5) unfolding q by auto
qed simp

section \<open>Round trip\<close>

text \<open>While the buffer is initializing nothing is discarded.\<close>

lemma update_initializing:
  assumes "jb_status jb = JB_STATUS_INITIALIZING"
    and "oper = JB_OP_PUT \<or> jb_last_op jb = oper \<or> jb_init_cycle_cnt jb + 1 < INIT_CYCLE"
  shows "jb_framelist (jbuf_update jb oper) = jb_framelist jb" and "jb_status (jbuf_update jb oper) = JB_STATUS_INITIALIZING"
    and "jb_last_op (jbuf_update jb oper) = oper" and "jb_prefetching (jbuf_update jb oper) = jb_prefetching jb"
    and "jb_min_delay (jbuf_update jb oper) = jb_min_delay jb" and "jb_max_count (jbuf_update jb oper) = jb_max_count jb"
    and "jb_prefetch (jbuf_update jb oper) = jb_prefetch jb"
    and "jb_init_cycle_cnt (jbuf_update jb oper) = jb_init_cycle_cnt jb + (if jb_last_op jb = oper then 0 else 1)"
proof -
  have "jbuf_update jb oper = (if jb_last_op jb = oper then jb
      else jb\<lparr>jb_last_op := oper, jb_init_cycle_cnt := jb_init_cycle_cnt jb + 1, jb_level := 0\<rparr>)"
    using assms unfolding jbuf_update_def Let_def by auto
  then show "jb_framelist (jbuf_update jb oper) = jb_framelist jb" "jb_status (jbuf_update jb oper) = JB_STATUS_INITIALIZING"
    "jb_last_op (jbuf_update jb oper) = oper" "jb_prefetching (jbuf_update jb oper) = jb_prefetching jb"
    "jb_min_delay (jbuf_update jb oper) = jb_min_delay jb" "jb_max_count (jbuf_update jb oper) = jb_max_count jb"
    "jb_prefetch (jbuf_update jb oper) = jb_prefetch jb"
    "jb_init_cycle_cnt (jbuf_update jb oper) = jb_init_cycle_cnt jb + (if jb_last_op jb = oper then 0 else 1)"
    using assms(1) by simp_all
qed

lemma abs_jput_append:
  assumes "length xs < m" and "xs \<noteq> [] \<Longrightarrow> og + int (length xs) = index" and "xs = [] \<Longrightarrow> og \<le> index"
  shows "abs_jput m og xs index s = (PJ_SUCCESS, index - int (length xs), xs @ [s])"
proof -
  have "abs_place og xs index = Some (index - int (length xs), xs, int (length xs))"
    using assms(2,3) by (cases "xs = []") (auto simp: abs_place_def)
  then have "abs_put m og xs index s = (PJ_SUCCESS, index - int (length xs), xs @ [s])"
    using assms(1) by (simp add: abs_put_def put_slot_def)
  then show ?thesis by (simp add: abs_jput_def pj_status)
qed

text \<open>A buffer being filled from its creation on, and one being emptied after that.\<close>

definition filling :: "pjmedia_jbuf \<Rightarrow> int \<Rightarrow> jb_slot list \<Rightarrow> bool" where
  "filling jb s xs \<longleftrightarrow> jb_inv jb \<and> jb_status jb = JB_STATUS_INITIALIZING \<and> jb_min_delay jb = 0 \<and>
     slots (jb_framelist jb) = xs \<and> (if xs = [] then fl_origin (jb_framelist jb) \<le> s else fl_origin (jb_framelist jb) = s) \<and>
     (jb_last_op jb = JB_OP_INIT \<and> jb_init_cycle_cnt jb = 0 \<or> jb_last_op jb = JB_OP_PUT \<and> jb_init_cycle_cnt jb = 1) \<and>
     (jb_prefetching jb \<longrightarrow> int (length xs) < jb_prefetch jb)"

definition draining :: "pjmedia_jbuf \<Rightarrow> int \<Rightarrow> jb_slot list \<Rightarrow> bool" where
  "draining jb s xs \<longleftrightarrow> jb_inv jb \<and> jb_status jb = JB_STATUS_INITIALIZING \<and> jb_min_delay jb = 0 \<and>
     slots (jb_framelist jb) = xs \<and> (xs \<noteq> [] \<longrightarrow> fl_origin (jb_framelist jb) = s) \<and> jb_init_cycle_cnt jb \<le> 2 \<and>
     (jb_last_op jb \<noteq> JB_OP_GET \<longrightarrow> jb_init_cycle_cnt jb \<le> 1) \<and> \<not> jb_prefetching jb"

lemma filling_put:
  assumes f: "filling jb s xs" and nd: "Discarded \<notin> set xs" and l: "length xs < jb_max_count jb" "length b \<le> jb_frame_size jb"
    and q: "0 \<le> s" "s + int (length xs) < 2 ^ 28"
  shows "\<exists>jb'. pjmedia_jbuf_put_frame3 jb b (length b) bi (s + int (length xs)) ts = Some (False, jb') \<and>
    filling jb' s (xs @ [Frame b bi ts]) \<and> jb_max_count jb' = jb_max_count jb \<and> jb_frame_size jb' = jb_frame_size jb \<and>
    jb_prefetch jb' = jb_prefetch jb"
proof -
  let ?q = "s + int (length xs)"
  have inv: "jb_inv jb" using f by (simp add: filling_def)
  have mn: "min (length b) (jb_frame_size jb) = length b" using l by simp
  have a: "abs_jput (jb_max_count jb) (fl_origin (jb_framelist jb)) (slots (jb_framelist jb)) ?q (Frame b bi ts) =
      (PJ_SUCCESS, s, xs @ [Frame b bi ts])"
    using abs_jput_append [of xs "jb_max_count jb" "fl_origin (jb_framelist jb)" ?q] l f by (auto simp: filling_def split: if_splits)
  have q2: "0 \<le> ?q" "?q < 2 ^ 28" "min (length b) (jb_frame_size jb) \<le> length b" using q by simp_all
  obtain fl' k lv where
    e: "fl_origin fl' = s" "slots fl' = xs @ [Frame b bi ts]" "jb_inv (jb\<lparr>jb_framelist := fl', jb_discard := k\<rparr>)"
      "pjmedia_jbuf_put_frame3 jb b (length b) bi ?q ts =
       Some (False, jbuf_update (jb\<lparr>jb_framelist := fl', jb_discard := k,
              jb_prefetching := (jb_prefetching jb \<and> s_of (jb_framelist_eff_size fl') < jb_prefetch jb), jb_level := lv\<rparr>) JB_OP_PUT)"
    using put_form [OF inv q2 refl, of bi ts] a unfolding mn take_all [OF order_refl] by auto
  let ?j = "jb\<lparr>jb_framelist := fl', jb_discard := k,
              jb_prefetching := (jb_prefetching jb \<and> s_of (jb_framelist_eff_size fl') < jb_prefetch jb), jb_level := lv\<rparr>"
  have st: "jb_status ?j = JB_STATUS_INITIALIZING" using f by (simp add: filling_def)
  have i: "jb_inv ?j" using e(3) by (simp only: jb_inv_fields)
  note u = update_initializing [OF st, of JB_OP_PUT, simplified] and v = update_keeps(1) [OF i, of JB_OP_PUT]
  have ok: "fl_ok fl'" "fl_max_count fl' < 2 ^ 28" using e(3) by (simp_all add: jb_inv_def)
  have "filter (\<lambda>s. s \<noteq> Discarded) (xs @ [Frame b bi ts]) = xs @ [Frame b bi ts]" using nd by (auto intro: filter_True)
  then have "jb_framelist_eff_size fl' = Suc (length xs)" using eff_size_exact [OF ok(1)] e(2) by simp
  then have ef: "s_of (jb_framelist_eff_size fl') = int (length xs) + 1"
    using fl_okD [OF ok(1)] ok(2) e(2) slots_length [of fl'] by (simp add: s_of_small)
  have "filling (jbuf_update ?j JB_OP_PUT) s (xs @ [Frame b bi ts])"
    using f u v e(1,2) ef by (auto simp: filling_def)
  then show ?thesis using e(4) u by (intro exI [of _ "jbuf_update ?j JB_OP_PUT"]) simp
qed

lemma draining_get:
  assumes f: "draining jb s (Frame b bi ts # ss)"
  shows "\<exists>jb'. pjmedia_jbuf_get_frame3 jb None = Some (PJMEDIA_JB_NORMAL_FRAME,
      Some (Got \<lparr>o_frame = b, o_type = PJMEDIA_JB_NORMAL_FRAME, o_size = length b, o_bit_info = bi, o_ts = ts, o_seq = s\<rparr>), jb') \<and>
    draining jb' (s + 1) ss"
proof -
  let ?out = "\<lparr>o_frame = b, o_type = PJMEDIA_JB_NORMAL_FRAME, o_size = length b, o_bit_info = bi, o_ts = ts, o_seq = s\<rparr>"
  have inv: "jb_inv jb" using f by (simp add: draining_def)
  then have ok: "fl_ok (jb_framelist jb)" by (simp add: jb_inv_def)
  have sl: "slots (jb_framelist jb) = Frame b bi ts # ss" "fl_origin (jb_framelist jb) = s" using f by (simp_all add: draining_def)
  obtain out fl' where g: "jb_framelist_get (jb_framelist jb) None = Some (Got out, fl')" "fl_ok fl'" "slots fl' = ss"
    "fl_origin fl' = s + 1" "o_seq out = s" "shows_slot None (Frame b bi ts) out"
    "fl_max_count fl' = fl_max_count (jb_framelist jb)" "fl_frame_size fl' = fl_frame_size (jb_framelist jb)"
    using get_spec [OF ok, of None] sl by auto
  have out: "out = ?out" using g(5,6) by (cases out) (simp add: shows_slot_def)
  have "1 \<le> length (slots (jb_framelist jb))" unfolding sl(1) by simp
  then have i: "jb_inv (jb\<lparr>jb_framelist := fl'\<rparr>)"
    by (intro jb_inv_drop [OF inv g(2), of 1]) (use g sl in simp_all)
  define j where "j = (let jb1 = jb\<lparr>jb_framelist := fl'\<rparr>
        in (if jb_last_op jb1 = JB_OP_PUT
            then jb1\<lparr>jb_delay := pj_math_stat_update (jb_delay jb1)
                 (s_of (umul (uadd (jb_framelist_eff_size fl') 1) (jb_frame_ptime jb1) div jb_frame_ptime_denum jb1))\<rparr>
            else jb1)\<lparr>jb_level := jb_level jb + 1\<rparr>)"
  have j: "jb_framelist j = fl'" "jb_inv j" "jb_status j = jb_status jb" "jb_last_op j = jb_last_op jb"
    "jb_prefetching j = jb_prefetching jb" "jb_min_delay j = jb_min_delay jb" "jb_init_cycle_cnt j = jb_init_cycle_cnt jb"
    using i by (simp_all add: j_def Let_def)
  have "pjmedia_jbuf_get_frame3 jb None = Some (PJMEDIA_JB_NORMAL_FRAME, Some (Got ?out), jbuf_update j JB_OP_GET)"
    using f g(1) out unfolding pjmedia_jbuf_get_frame3_def Let_def j_def by (simp add: draining_def)
  moreover have "draining (jbuf_update j JB_OP_GET) (s + 1) ss"
  proof -
    have c: "jb_status j = JB_STATUS_INITIALIZING" "JB_OP_GET = JB_OP_PUT \<or> jb_last_op j = JB_OP_GET \<or> jb_init_cycle_cnt j + 1 < INIT_CYCLE"
      using f j by (auto simp: draining_def INIT_CYCLE_def)
    show ?thesis using update_initializing [OF c] update_keeps(1) [OF j(2), of JB_OP_GET] f j g(3,4)
      by (auto simp: draining_def)
  qed
  ultimately show ?thesis by blast
qed

text \<open>Frames with consecutive numbers put one after the other, and what their retrieval gives.\<close>

type_synonym payload = "u8 list \<times> u32 \<times> u32"

fun put_calls :: "int \<Rightarrow> payload list \<Rightarrow> jb_call list" where
  "put_calls s [] = []"
| "put_calls s ((b, bi, ts) # fs) = Put b (length b) bi s ts # put_calls (s + 1) fs"

fun frames_out :: "int \<Rightarrow> payload list \<Rightarrow> jb_out list" where
  "frames_out s [] = []"
| "frames_out s ((b, bi, ts) # fs) =
     \<lparr>o_frame = b, o_type = PJMEDIA_JB_NORMAL_FRAME, o_size = length b, o_bit_info = bi, o_ts = ts, o_seq = s\<rparr> # frames_out (s + 1) fs"

abbreviation slot_of :: "payload \<Rightarrow> jb_slot" where
  "slot_of p \<equiv> (case p of (b, bi, ts) \<Rightarrow> Frame b bi ts)"

lemma run_append:
  "jb_run (xs @ ys) jb = (case jb_run xs jb of None \<Rightarrow> None
     | Some (o1, jb1) \<Rightarrow> (case jb_run ys jb1 of None \<Rightarrow> None | Some (o2, jb2) \<Rightarrow> Some (o1 @ o2, jb2)))"
  by (induction xs arbitrary: jb) (auto split: option.splits prod.splits)

lemma fill_all:
  assumes "filling jb s xs" and "Discarded \<notin> set xs" and "length xs + length fs \<le> jb_max_count jb"
    and "\<forall>p \<in> set fs. length (fst p) \<le> jb_frame_size jb" and "0 \<le> s" and "s + int (length xs + length fs) < 2 ^ 28"
  shows "\<exists>jb'. jb_run (put_calls (s + int (length xs)) fs) jb = Some ([], jb') \<and> filling jb' s (xs @ map slot_of fs) \<and>
    jb_prefetch jb' = jb_prefetch jb"
  using assms
proof (induction fs arbitrary: jb xs)
  case (Cons p fs)
  obtain b bi ts where p: "p = (b, bi, ts)" by (cases p)
  have h: "length xs < jb_max_count jb" "length b \<le> jb_frame_size jb" "s + int (length xs) < 2 ^ 28" using Cons.prems p by auto
  from filling_put [OF Cons.prems(1,2) h(1,2) Cons.prems(5) h(3), of bi ts] obtain jb1 where
    j: "pjmedia_jbuf_put_frame3 jb b (length b) bi (s + int (length xs)) ts = Some (False, jb1)"
      "filling jb1 s (xs @ [Frame b bi ts])" "jb_max_count jb1 = jb_max_count jb" "jb_frame_size jb1 = jb_frame_size jb"
      "jb_prefetch jb1 = jb_prefetch jb" by blast
  have k: "Discarded \<notin> set (xs @ [Frame b bi ts])" "length (xs @ [Frame b bi ts]) + length fs \<le> jb_max_count jb1"
    "\<forall>p \<in> set fs. length (fst p) \<le> jb_frame_size jb1" "s + int (length (xs @ [Frame b bi ts]) + length fs) < 2 ^ 28"
    using Cons.prems j by simp_all
  have "s + int (length (xs @ [Frame b bi ts])) = s + int (length xs) + 1" by simp
  with Cons.IH [OF j(2) k(1-3) Cons.prems(5) k(4)] show ?case using j(1,5) p by (auto simp: algebra_simps)
qed simp

lemma drain_all:
  "draining jb s (map slot_of fs) \<Longrightarrow>
     \<exists>jb'. jb_run (replicate (length fs) (Get None)) jb = Some (frames_out s fs, jb') \<and> draining jb' (s + int (length fs)) []"
proof (induction fs arbitrary: jb s)
  case (Cons p fs)
  obtain b bi ts where p: "p = (b, bi, ts)" by (cases p)
  from draining_get [of jb s b bi ts "map slot_of fs"] Cons.prems p obtain jb1 where
    g: "pjmedia_jbuf_get_frame3 jb None = Some (PJMEDIA_JB_NORMAL_FRAME,
      Some (Got \<lparr>o_frame = b, o_type = PJMEDIA_JB_NORMAL_FRAME, o_size = length b, o_bit_info = bi, o_ts = ts, o_seq = s\<rparr>), jb1)"
      "draining jb1 (s + 1) (map slot_of fs)" by auto
  from Cons.IH [OF g(2)] show ?case using g(1) p by (auto simp: delivered_def add.assoc)
qed simp

section \<open>Properties\<close>

text \<open>A buffer of ten frames of four bytes, 20 ms each, in memory that held zeros.\<close>

definition sample_jbuf :: pjmedia_jbuf where
  "sample_jbuf = pjmedia_jbuf_create 4 20 10 (replicate 40 0) (replicate 10 0) (replicate 10 0) (replicate 10 0) (replicate 10 0)"

lemma sample_arrays: "fresh_arrays 4 10 (replicate 40 0) (replicate 10 0) (replicate 10 0) (replicate 10 0) (replicate 10 0)"
  by (simp add: fresh_arrays_def)

lemmas sample_spec = create_spec [OF sample_arrays _ _ sample_jbuf_def, simplified]

text \<open>C12: putting a frame into the jitter buffer ends and implements the insertion into a sequence of slots
  that starts at a sequence number: a late frame and a duplicate are refused without effect, a
  frame beyond the capacity pushes out as many of the oldest slots as it needs, a far jump
  starts anew; after that at most one frame is marked discarded or taken off the front.\<close>

theorem jbuf_put_refines:
  assumes "jb_inv jb" and "0 \<le> seq" and "seq < 2 ^ 28" and "min n (jb_frame_size jb) \<le> length frame"
  shows "\<exists>disc jb' st og xs. pjmedia_jbuf_put_frame3 jb frame n bi seq ts = Some (disc, jb') \<and> jb_inv jb' \<and>
    abs_jput (jb_max_count jb) (fl_origin (jb_framelist jb)) (slots (jb_framelist jb)) seq
      (Frame (take (min n (jb_frame_size jb)) frame) bi ts) = (st, og, xs) \<and>
    (disc \<longleftrightarrow> st \<noteq> PJ_SUCCESS) \<and> st \<in> {PJ_SUCCESS, PJ_ETOOSMALL, PJ_EEXISTS} \<and>
    (if disc then og = fl_origin (jb_framelist jb) \<and> xs = slots (jb_framelist jb) \<and>
       fl_origin (jb_framelist jb') = og \<and> slots (jb_framelist jb') = xs
     else trimmed og xs (fl_origin (jb_framelist jb')) (slots (jb_framelist jb')))"
proof -
  let ?fl = "jb_framelist jb"
  obtain disc jb' st og xs where p: "pjmedia_jbuf_put_frame3 jb frame n bi seq ts = Some (disc, jb')" "jb_inv jb'"
    and a: "abs_jput (jb_max_count jb) (fl_origin ?fl) (slots ?fl) seq (Frame (take (min n (jb_frame_size jb)) frame) bi ts) = (st, og, xs)"
    and d: "disc \<longleftrightarrow> st \<noteq> PJ_SUCCESS" "if disc then fl_origin (jb_framelist jb') = og \<and> slots (jb_framelist jb') = xs
     else trimmed og xs (fl_origin (jb_framelist jb')) (slots (jb_framelist jb'))"
    using put_inv [OF assms refl, of bi ts] by blast
  have ok: "fl_ok ?fl" "fl_max_count ?fl = jb_max_count jb" using assms(1) by (simp_all add: jb_inv_def)
  then have l: "length (slots ?fl) \<le> jb_max_count jb" "0 < jb_max_count jb" using fl_okD [OF ok(1)] by simp_all
  note o = abs_jput_outcome [OF a l]
  have st: "st \<in> {PJ_SUCCESS, PJ_ETOOSMALL, PJ_EEXISTS}" using o by blast
  have "disc \<Longrightarrow> og = fl_origin ?fl \<and> xs = slots ?fl" using o d(1) by blast
  then have f: "if disc then og = fl_origin ?fl \<and> xs = slots ?fl \<and> fl_origin (jb_framelist jb') = og \<and> slots (jb_framelist jb') = xs
     else trimmed og xs (fl_origin (jb_framelist jb')) (slots (jb_framelist jb'))"
    using d(2) by (cases disc) simp_all
  show ?thesis
    by (rule exI [of _ disc], rule exI [of _ jb'], rule exI [of _ st], rule exI [of _ og], rule exI [of _ xs])
      (intro conjI p a d(1) st f)
qed

theorem jbuf_put_refines_witness:
  "\<exists>disc jb'. pjmedia_jbuf_put_frame3 sample_jbuf [1, 2, 3] 3 0 7 160 = Some (disc, jb') \<and> \<not> disc \<and> jb_inv jb'"
proof -
  have h: "jb_inv sample_jbuf" "(0 :: int) \<le> 7" "(7 :: int) < 2 ^ 28" "min 3 (jb_frame_size sample_jbuf) \<le> length [1, 2, 3 :: u8]"
    using sample_spec by simp_all
  have e: "take (min 3 (jb_frame_size sample_jbuf)) [1, 2, 3 :: u8] = [1, 2, 3]" using sample_spec(5) by simp
  obtain disc jb' st og xs where r: "pjmedia_jbuf_put_frame3 sample_jbuf [1, 2, 3] 3 0 7 160 = Some (disc, jb')" "jb_inv jb'"
    "abs_jput 10 INVALID_OFFSET [] 7 (Frame [1, 2, 3] 0 160) = (st, og, xs)" "disc \<longleftrightarrow> st \<noteq> PJ_SUCCESS"
    using jbuf_put_refines [OF h, of 0 160] unfolding sample_spec(2,3,4) e by blast
  have "st = PJ_SUCCESS" using r(3) abs_jput_append [of "[]" 10 INVALID_OFFSET 7] by (auto simp: INVALID_OFFSET_def)
  then show ?thesis using r by auto
qed

text \<open>C13: getting a frame ends on every path. While the buffer fills up or is below the minimum delay nothing
  is taken; otherwise discarded frames are skipped and the next slot is returned with its
  sequence number: its contents, or a missing frame when it is missing or when frames were
  skipped; an empty buffer gives a zeroed frame.\<close>

theorem jbuf_get_exact:
  assumes "jb_inv jb" and "og = fl_origin (jb_framelist jb)" and "xs = slots (jb_framelist jb)"
    and "d = length (takeWhile (\<lambda>s. s = Discarded) xs)"
  shows "\<exists>ft got jb' og1 xs1. pjmedia_jbuf_get_frame3 jb buf_size = Some (ft, got, jb') \<and> jb_inv jb' \<and>
    trimmed og1 xs1 (fl_origin (jb_framelist jb')) (slots (jb_framelist jb')) \<and>
    (if jb_prefetching jb then ft = PJMEDIA_JB_ZERO_PREFETCH_FRAME \<and> got = None \<and> og1 = og \<and> xs1 = xs
     else if jb_framelist_eff_size (jb_framelist jb) < jb_min_delay jb
     then ft = PJMEDIA_JB_MISSING_FRAME \<and> got = None \<and> og1 = og \<and> xs1 = xs
     else (case dropWhile (\<lambda>s. s = Discarded) xs of
             [] \<Rightarrow> ft = PJMEDIA_JB_ZERO_EMPTY_FRAME \<and> got = Some (No_Frame (replicate (jb_frame_size jb) 0)) \<and>
                   og1 = og + int d \<and> xs1 = []
           | s # ss \<Rightarrow> \<exists>out. got = Some (Got out) \<and> ft = o_type out \<and> o_seq out = og + int d \<and>
                   shows_slot buf_size (if 0 < d then Missing else s) out \<and> og1 = og + int d + 1 \<and> xs1 = ss))"
  using get_inv [OF assms(1), of buf_size] unfolding assms(2-4) by blast

theorem jbuf_get_exact_witness:
  "\<exists>ft got jb'. pjmedia_jbuf_get_frame3 sample_jbuf None = Some (ft, got, jb') \<and> ft = PJMEDIA_JB_ZERO_PREFETCH_FRAME \<and> jb_inv jb'"
proof -
  have "jb_inv sample_jbuf" "jb_prefetching sample_jbuf" using sample_spec by simp_all
  then show ?thesis using jbuf_get_exact [OF _ refl refl refl, of sample_jbuf None] by auto
qed



text \<open>C15: as long as no frame lags more than 98 behind the highest number, the frames an application gets
  have strictly increasing sequence numbers, and each carries the contents, cut to the buffer
  it was given, the bit info and the timestamp of a frame put under that very number.\<close>

theorem jbuf_in_order:
  assumes "fresh_arrays fs m content types lens bits tss" and "1 \<le> ptime" and "ptime \<le> 200"
    and "list_all (jb_call_ok fs) cs" and "steady (-10000) cs"
  shows "\<exists>outs jb. jb_run cs (pjmedia_jbuf_create fs ptime m content types lens bits tss) = Some (outs, jb) \<and>
    sorted_wrt (\<lambda>a b. o_seq a < o_seq b) outs \<and>
    (\<forall>out \<in> set outs. \<exists>frame n k. Put frame n (o_bit_info out) (o_seq out) (o_ts out) \<in> set cs \<and>
       o_frame out = take k (take (min n fs) frame) \<and> o_size out = length (o_frame out))"
proof -
  let ?jb = "pjmedia_jbuf_create fs ptime m content types lens bits tss"
  note c = create_spec [OF assms(1-3) refl]
  have "client_inv {} (-10000) (-10000) (fl_origin (jb_framelist ?jb)) (slots (jb_framelist ?jb))"
    unfolding c(2,3) by (simp add: client_inv_def frames_in_def INVALID_OFFSET_def)
  from client_run [OF c(1) this _ assms(5)] assms(4) c(5) obtain outs jb where
    r: "jb_run cs ?jb = Some (outs, jb)" "sorted_wrt (\<lambda>a b. o_seq a < o_seq b) outs"
      "\<forall>out \<in> set outs. carries (\<Union>c \<in> set cs. put_of fs c) out" by auto
  have "\<exists>frame n k. Put frame n (o_bit_info out) (o_seq out) (o_ts out) \<in> set cs \<and>
       o_frame out = take k (take (min n fs) frame) \<and> o_size out = length (o_frame out)" if h: "out \<in> set outs" for out
  proof -
    obtain b k call where b: "call \<in> set cs" "(o_seq out, b, o_bit_info out, o_ts out) \<in> put_of fs call" "o_frame out = take k b"
      "o_size out = length (o_frame out)" using bspec [OF r(3) h] unfolding carries_def by blast
    obtain frame n where "call = Put frame n (o_bit_info out) (o_seq out) (o_ts out)" "b = take (min n fs) frame"
      using b(2) by (cases call) simp_all
    then show ?thesis using b(1,3,4) by blast
  qed
  then show ?thesis using r(1,2) by blast
qed

theorem jbuf_in_order_witness:
  "\<exists>outs jb. jb_run [Put [1] 1 0 5 0, Put [2] 1 0 7 0, Get (Some 4), Put [3] 1 0 6 0, Get None] sample_jbuf = Some (outs, jb) \<and>
     sorted_wrt (\<lambda>a b. o_seq a < o_seq b) outs"
  unfolding sample_jbuf_def
  using jbuf_in_order [OF sample_arrays, of 20 "[Put [1] 1 0 5 0, Put [2] 1 0 7 0, Get (Some 4), Put [3] 1 0 6 0, Get None]"]
  by (simp del: jb_run.simps jb_step.simps) blast

text \<open>C16: frames with consecutive numbers put into a new buffer, no more than its capacity and at least as
  many as it waits for, are all delivered by as many retrievals, unchanged and in order.\<close>

theorem jbuf_roundtrip:
  assumes "fresh_arrays fs m content types lens bits tss" and "1 \<le> ptime" and "ptime \<le> 200"
    and "length ps \<le> m" and "min 15 (m * 4 div 5) \<le> length ps"
    and "\<forall>p \<in> set ps. length (fst p) \<le> fs" and "0 \<le> s" and "s + int (length ps) < 2 ^ 28"
  shows "\<exists>jb. jb_run (put_calls s ps @ replicate (length ps) (Get None))
      (pjmedia_jbuf_create fs ptime m content types lens bits tss) = Some (frames_out s ps, jb)"
proof -
  let ?jb = "pjmedia_jbuf_create fs ptime m content types lens bits tss"
  note c = create_spec [OF assms(1-3) refl]
  have "filling ?jb s []" using c assms(7) by (simp add: filling_def INVALID_OFFSET_def)
  from fill_all [OF this, of ps] assms c obtain jb1 where
    f: "jb_run (put_calls s ps) ?jb = Some ([], jb1)" "filling jb1 s (map slot_of ps)" "jb_prefetch jb1 = jb_prefetch ?jb" by auto
  have "\<not> jb_prefetching jb1" using f(2,3) assms(5) unfolding c(11) filling_def by auto
  then have "draining jb1 s (map slot_of ps)" using f(2) by (auto simp: filling_def draining_def split: if_splits)
  from drain_all [OF this] f(1) show ?thesis by (auto simp: run_append)
qed

theorem jbuf_roundtrip_witness:
  "\<exists>jb. jb_run (put_calls 3 (replicate 8 ([1, 2], 0, 5)) @ replicate 8 (Get None)) sample_jbuf =
     Some (frames_out 3 (replicate 8 ([1, 2], 0, 5)), jb)"
  unfolding sample_jbuf_def
  using jbuf_roundtrip [OF sample_arrays, of 20 "replicate 8 ([1, 2], 0, 5)" 3] by simp

text \<open>Removing frames ends, counts only frames that were not discarded, and removes as many as asked
  for or all there are, together with the discarded frames in between.\<close>

theorem jbuf_remove_exact:
  assumes "jb_inv jb" and "xs = slots (jb_framelist jb)"
  shows "\<exists>N jb'. pjmedia_jbuf_remove_frame jb cnt = Some (min cnt (length (filter (\<lambda>s. s \<noteq> Discarded) xs)), jb') \<and>
    jb_inv jb' \<and> N \<le> length xs \<and> slots (jb_framelist jb') = drop N xs \<and>
    fl_origin (jb_framelist jb') = fl_origin (jb_framelist jb) + int N \<and>
    length (filter (\<lambda>s. s \<noteq> Discarded) (take N xs)) = min cnt (length (filter (\<lambda>s. s \<noteq> Discarded) xs))"
  using remove_frame_spec [OF assms(1), of cnt] unfolding assms(2) by blast

theorem jbuf_remove_exact_witness:
  "\<exists>jb'. pjmedia_jbuf_remove_frame sample_jbuf 3 = Some (0, jb') \<and> slots (jb_framelist jb') = []"
  using jbuf_remove_exact [OF _ refl, of sample_jbuf 3] sample_spec(1,2) by auto



end
