(* ===== verification/Pj_Tls.thy ===== *)
theory Pj_Tls
  imports Pj_Prelude
begin

text \<open>
  Thread local storage as the port provides it for Zephyr (\<^verbatim>\<open>pjlib/src/pj/os_core_unix.c\<close> under
  \<^verbatim>\<open>PJ_ZEPHYR\<close>): a table keyed by the native thread, whose values carry the generation their key
  had when they were written, so that a key that is freed and allocated again starts without
  values. Every operation holds one spin lock from its first access to the table to its last, so
  an operation is one step of the thread that calls it. A thread identifier is a number, zero the
  null pointer; so is a value.
\<close>

section \<open>The table\<close>

definition PJ_ZEPHYR_TLS_MAX_KEYS :: nat where "PJ_ZEPHYR_TLS_MAX_KEYS = 32"
definition PJ_ZEPHYR_TLS_MAX_THREADS :: nat where "PJ_ZEPHYR_TLS_MAX_THREADS = 16"

record zephyr_tls_thread =
  tt_thread :: nat
  tt_values :: "nat list"
  tt_value_generation :: "u32 list"

text \<open>The static variables; \<^verbatim>\<open>unsigned long\<close> has 32 bits on the target.\<close>

record zephyr_tls =
  tls_keys :: u32
  tls_generation :: "u32 list"
  tls_threads :: "zephyr_tls_thread list"

definition empty_entry :: zephyr_tls_thread where
  "empty_entry = \<lparr>tt_thread = 0, tt_values = replicate PJ_ZEPHYR_TLS_MAX_KEYS 0,
     tt_value_generation = replicate PJ_ZEPHYR_TLS_MAX_KEYS 0\<rparr>"

definition zephyr_tls_static :: zephyr_tls where
  "zephyr_tls_static = \<lparr>tls_keys = 0, tls_generation = replicate PJ_ZEPHYR_TLS_MAX_KEYS 0,
     tls_threads = replicate PJ_ZEPHYR_TLS_MAX_THREADS empty_entry\<rparr>"

text \<open>\<^verbatim>\<open>if (++g == 0) ++g\<close>: the generation zero is skipped when the counter wraps around.\<close>

definition next_generation :: "u32 \<Rightarrow> u32" where
  "next_generation g = (let g1 = g + 1 in if g1 = 0 then g1 + 1 else g1)"

section \<open>Operations\<close>

function alloc_from :: "nat \<Rightarrow> zephyr_tls \<Rightarrow> pj_status_t + int \<times> zephyr_tls" where
  "alloc_from i s =
     (if i < PJ_ZEPHYR_TLS_MAX_KEYS then
        let b = push_bit i 1
        in if tls_keys s AND b = 0 then
             Inr (int i, s\<lparr>tls_keys := tls_keys s OR b,
                           tls_generation := (tls_generation s)[i := next_generation (tls_generation s ! i)]\<rparr>)
           else alloc_from (i + 1) s
      else Inl PJ_ETOOMANY)"
  by pat_completeness auto

termination by (relation "measure (\<lambda>(i, s). PJ_ZEPHYR_TLS_MAX_KEYS - i)") auto

declare alloc_from.simps [simp del]

definition pj_thread_local_alloc :: "zephyr_tls \<Rightarrow> pj_status_t + int \<times> zephyr_tls" where
  "pj_thread_local_alloc s = alloc_from 0 s"

definition pj_thread_local_free :: "int \<Rightarrow> zephyr_tls \<Rightarrow> zephyr_tls" where
  "pj_thread_local_free index s =
     (if index \<ge> 0 \<and> index < int PJ_ZEPHYR_TLS_MAX_KEYS then
        let i = nat index; b = push_bit i 1
        in s\<lparr>tls_generation := (tls_generation s)[i := next_generation (tls_generation s ! i)],
             tls_keys := tls_keys s AND NOT b\<rparr>
      else s)"

text \<open>The loop of \<^verbatim>\<open>pj_thread_local_set\<close>: the entry of the current thread, or else the first free
  one.\<close>

fun find_slot :: "nat \<Rightarrow> nat list \<Rightarrow> nat \<Rightarrow> nat option \<Rightarrow> nat option" where
  "find_slot current [] i entry = entry"
| "find_slot current (th # ths) i entry =
     (if th = current then Some i
      else find_slot current ths (i + 1) (if entry = None \<and> th = 0 then Some i else entry))"

definition pj_thread_local_set :: "nat \<Rightarrow> int \<Rightarrow> nat \<Rightarrow> zephyr_tls \<Rightarrow> pj_status_t \<times> zephyr_tls" where
  "pj_thread_local_set current index value s =
     (if index < 0 \<or> index \<ge> int PJ_ZEPHYR_TLS_MAX_KEYS then (PJ_EINVAL, s)
      else let k = nat index in
        if tls_keys s AND push_bit k 1 = 0 then (PJ_EINVAL, s)
        else (case find_slot current (map tt_thread (tls_threads s)) 0 None of
            None \<Rightarrow> (PJ_ETOOMANY, s)
          | Some i \<Rightarrow>
              let e = tls_threads s ! i;
                  e1 = (if tt_thread e = 0 then empty_entry\<lparr>tt_thread := current\<rparr> else e);
                  e2 = e1\<lparr>tt_values := (tt_values e1)[k := value],
                          tt_value_generation := (tt_value_generation e1)[k := tls_generation s ! k]\<rparr>
              in (PJ_SUCCESS, s\<lparr>tls_threads := (tls_threads s)[i := e2]\<rparr>)))"

fun get_from :: "nat \<Rightarrow> nat \<Rightarrow> u32 \<Rightarrow> zephyr_tls_thread list \<Rightarrow> nat" where
  "get_from current k g [] = 0"
| "get_from current k g (e # es) =
     (if tt_thread e = current \<and> tt_value_generation e ! k = g then tt_values e ! k
      else get_from current k g es)"

definition pj_thread_local_get :: "nat \<Rightarrow> int \<Rightarrow> zephyr_tls \<Rightarrow> nat" where
  "pj_thread_local_get current index s =
     (if index < 0 \<or> index \<ge> int PJ_ZEPHYR_TLS_MAX_KEYS then 0
      else let k = nat index in
        if tls_keys s AND push_bit k 1 \<noteq> 0 then get_from current k (tls_generation s ! k) (tls_threads s)
        else 0)"

fun clear_from :: "nat \<Rightarrow> zephyr_tls_thread list \<Rightarrow> zephyr_tls_thread list" where
  "clear_from current [] = []"
| "clear_from current (e # es) = (if tt_thread e = current then empty_entry # es else e # clear_from current es)"

definition zephyr_tls_clear_thread :: "nat \<Rightarrow> zephyr_tls \<Rightarrow> zephyr_tls" where
  "zephyr_tls_clear_thread current s = s\<lparr>tls_threads := clear_from current (tls_threads s)\<rparr>"

section \<open>Well-formedness\<close>

lemmas tls_sizes = PJ_ZEPHYR_TLS_MAX_KEYS_def PJ_ZEPHYR_TLS_MAX_THREADS_def

lemma key_bit: "k < 32 \<Longrightarrow> (w :: u32) AND push_bit k 1 = 0 \<longleftrightarrow> \<not> bit w k"
  by (simp add: and_exp_eq_0_iff_not_bit)

lemma key_bit_set: "k < 32 \<Longrightarrow> j < 32 \<Longrightarrow> bit ((w :: u32) OR push_bit k 1) j \<longleftrightarrow> bit w j \<or> j = k"
  by (auto simp: bit_or_iff bit_exp_iff)

lemma key_bit_clear: "k < 32 \<Longrightarrow> j < 32 \<Longrightarrow> bit ((w :: u32) AND NOT (push_bit k 1)) j \<longleftrightarrow> bit w j \<and> j \<noteq> k"
  by (auto simp: bit_and_iff bit_not_iff bit_exp_iff)

definition entry_ok :: "zephyr_tls_thread \<Rightarrow> bool" where
  "entry_ok e \<longleftrightarrow> length (tt_values e) = 32 \<and> length (tt_value_generation e) = 32"

definition tids :: "zephyr_tls_thread list \<Rightarrow> nat list" where
  "tids es = filter (\<lambda>t. t \<noteq> 0) (map tt_thread es)"

text \<open>Every thread has at most one entry, and an allocated key never has the generation zero of a
  value that was not written.\<close>

definition tls_inv :: "zephyr_tls \<Rightarrow> bool" where
  "tls_inv s \<longleftrightarrow> length (tls_generation s) = 32 \<and> length (tls_threads s) = 16 \<and>
     list_all entry_ok (tls_threads s) \<and> distinct (tids (tls_threads s)) \<and>
     (\<forall>k < 32. bit (tls_keys s) k \<longrightarrow> tls_generation s ! k \<noteq> 0)"

lemma tls_invD:
  assumes "tls_inv s"
  shows "length (tls_generation s) = 32" "length (tls_threads s) = 16"
    "list_all entry_ok (tls_threads s)" "distinct (tids (tls_threads s))"
    "k < 32 \<Longrightarrow> bit (tls_keys s) k \<Longrightarrow> tls_generation s ! k \<noteq> 0"
  using assms by (auto simp: tls_inv_def)

lemma empty_entry_ok [simp]: "entry_ok empty_entry" "tt_thread empty_entry = 0"
  by (simp_all add: entry_ok_def empty_entry_def tls_sizes)

lemma tls_inv_static: "tls_inv zephyr_tls_static"
  by (simp add: tls_inv_def zephyr_tls_static_def tls_sizes tids_def list_all_length)

lemma next_generation_nonzero: "next_generation g \<noteq> 0"
  by (simp add: next_generation_def Let_def)

lemma next_generation_less:
  assumes "unat g < 2 ^ 32 - 1"
  shows "unat (next_generation g) = unat g + 1"
proof -
  have "g + 1 \<noteq> 0"
  proof
    assume "g + 1 = 0"
    then have "g = - 1" by (simp add: add_eq_0_iff2)
    then have "unat g = 2 ^ 32 - 1" by (simp add: unat_eq_nat_uint uint_word_ariths)
    then show False using assms by simp
  qed
  then show ?thesis using assms unat_word_ariths(1) [of g 1] by (simp add: next_generation_def Let_def)
qed

subsection \<open>Lists of entries\<close>

lemma tids_simps [simp]:
  "tids [] = []" "tids (e # es) = (if tt_thread e = 0 then tids es else tt_thread e # tids es)"
  "tids (es @ fs) = tids es @ tids fs"
  by (simp_all add: tids_def)

lemma set_tids: "set (tids es) = {t. t \<noteq> 0 \<and> (\<exists>e \<in> set es. tt_thread e = t)}"
  by (auto simp: tids_def)

lemma length_tids_less: "length (tids es) < length es \<longleftrightarrow> (\<exists>e \<in> set es. tt_thread e = 0)"
  by (induction es) (auto simp: tids_def less_Suc_eq_le)

text \<open>The value of a thread in a list with at most one entry for it.\<close>

lemma get_absent: "t \<noteq> 0 \<Longrightarrow> t \<notin> set (tids es) \<Longrightarrow> get_from t k g es = 0"
  by (induction es) (auto split: if_splits)

lemma get_append:
  "t \<noteq> 0 \<Longrightarrow> t \<notin> set (tids es) \<Longrightarrow> get_from t k g (es @ fs) = get_from t k g fs"
  by (induction es) (auto split: if_splits)

lemma get_at:
  assumes "distinct (tids (us @ e # vs))" and "t \<noteq> 0"
  shows "get_from t k g (us @ e # vs) =
    (if tt_thread e = t then if tt_value_generation e ! k = g then tt_values e ! k else 0
     else get_from t k g (us @ vs))"
proof (cases "tt_thread e = t")
  case True
  then have "t \<notin> set (tids us)" "t \<notin> set (tids vs)" using assms by auto
  then show ?thesis using True assms(2) by (simp add: get_append get_absent)
next
  case False
  have "get_from t k g (us @ e # vs) = get_from t k g (us @ vs)" using False by (induction us) auto
  then show ?thesis using False by simp
qed

lemma clear_split:
  assumes "t \<noteq> 0" and "t \<in> set (tids es)"
  obtains us e vs where "es = us @ e # vs" "tt_thread e = t" "clear_from t es = us @ empty_entry # vs"
proof -
  have "\<exists>us e vs. es = us @ e # vs \<and> tt_thread e = t \<and> clear_from t es = us @ empty_entry # vs"
    using assms
  proof (induction es)
    case (Cons a es)
    show ?case
    proof (cases "tt_thread a = t")
      case True
      then show ?thesis by (intro exI [of _ "[]"]) simp
    next
      case False
      then have "t \<in> set (tids es)" using Cons.prems by (auto split: if_splits)
      from Cons.IH [OF Cons.prems(1) this] obtain us e vs where
        "es = us @ e # vs \<and> tt_thread e = t \<and> clear_from t es = us @ empty_entry # vs" by blast
      then have "a # es = (a # us) @ e # vs \<and> tt_thread e = t \<and> clear_from t (a # es) = (a # us) @ empty_entry # vs"
        using False by (metis append_Cons clear_from.simps(2))
      then show ?thesis by blast
    qed
  qed simp
  then show thesis using that by blast
qed

lemma clear_absent: "t \<noteq> 0 \<Longrightarrow> t \<notin> set (tids es) \<Longrightarrow> clear_from t es = es"
  by (induction es) (auto split: if_splits)

text \<open>The entry the loop of \<^verbatim>\<open>pj_thread_local_set\<close> chooses.\<close>

lemma find_slot_spec:
  assumes "t \<noteq> 0"
  shows "find_slot t (map tt_thread es) i acc =
    (if t \<in> set (tids es) then Some (i + length (takeWhile (\<lambda>e. tt_thread e \<noteq> t) es))
     else if acc \<noteq> None then acc
     else if \<exists>e \<in> set es. tt_thread e = 0 then Some (i + length (takeWhile (\<lambda>e. tt_thread e \<noteq> 0) es))
     else None)"
  using assms by (induction es arbitrary: i acc) auto

end
