(* ===== verification/Pj_Tls_Spec.thy ===== *)
theory Pj_Tls_Spec
  imports Pj_Tls
begin

text \<open>
  Thread local storage against its contract. The locale \<open>thread_local\<close> is what the thread registry
  relies on; the specification is a store indexed by key and thread, and every sequence of calls
  of any threads gives the outcomes of the specification as long as no generation counter can
  have wrapped around.
\<close>

section \<open>The interface\<close>

locale thread_local =
  fixes inv :: "'s \<Rightarrow> bool"
    and get :: "nat \<Rightarrow> int \<Rightarrow> 's \<Rightarrow> nat"
    and put :: "nat \<Rightarrow> int \<Rightarrow> nat \<Rightarrow> 's \<Rightarrow> pj_status_t \<times> 's"
    and clear :: "nat \<Rightarrow> 's \<Rightarrow> 's"
  assumes put_keeps: "inv s \<Longrightarrow> t \<noteq> 0 \<Longrightarrow> put t k v s = (PJ_SUCCESS, s') \<Longrightarrow> inv s'"
    and put_reads: "inv s \<Longrightarrow> t \<noteq> 0 \<Longrightarrow> put t k v s = (PJ_SUCCESS, s') \<Longrightarrow> t' \<noteq> 0 \<Longrightarrow>
      get t' k' s' = (if t' = t \<and> k' = k then v else get t' k' s)"
    and put_fails: "put t k v s = (st, s') \<Longrightarrow> st \<noteq> PJ_SUCCESS \<Longrightarrow> s' = s"
    and clear_keeps: "inv s \<Longrightarrow> t \<noteq> 0 \<Longrightarrow> inv (clear t s)"
    and clear_reads: "inv s \<Longrightarrow> t \<noteq> 0 \<Longrightarrow> t' \<noteq> 0 \<Longrightarrow>
      get t' k (clear t s) = (if t' = t then 0 else get t' k s)"
begin

lemma put_any_keeps: "inv s \<Longrightarrow> t \<noteq> 0 \<Longrightarrow> inv (snd (put t k v s))"
  using put_keeps put_fails by (metis prod.collapse)

lemma put_any_reads:
  "inv s \<Longrightarrow> t \<noteq> 0 \<Longrightarrow> t' \<noteq> 0 \<Longrightarrow> t' \<noteq> t \<Longrightarrow> get t' k' (snd (put t k v s)) = get t' k' s"
  using put_reads put_fails by (metis prod.collapse)

text \<open>Writing null and leaving: whatever the write returned, the thread has no value left and the
  others keep theirs.\<close>

lemma put_clear:
  assumes "inv s" and "t \<noteq> 0" and "t' \<noteq> 0"
  shows "inv (clear t (snd (put t k v s)))"
    "get t' k' (clear t (snd (put t k v s))) = (if t' = t then 0 else get t' k' s)"
  using assms clear_keeps clear_reads put_any_keeps put_any_reads by simp_all

end

section \<open>The operations of the table\<close>

definition stored :: "nat \<Rightarrow> nat \<Rightarrow> nat \<Rightarrow> u32 \<Rightarrow> zephyr_tls_thread \<Rightarrow> zephyr_tls_thread" where
  "stored t k v g e =
     (let e1 = (if tt_thread e = 0 then empty_entry\<lparr>tt_thread := t\<rparr> else e)
      in e1\<lparr>tt_values := (tt_values e1)[k := v], tt_value_generation := (tt_value_generation e1)[k := g]\<rparr>)"

definition room :: "nat \<Rightarrow> zephyr_tls \<Rightarrow> bool" where
  "room t s \<longleftrightarrow> t \<in> set (tids (tls_threads s)) \<or> length (tids (tls_threads s)) < 16"

lemma slot_split:
  assumes "find_slot t (map tt_thread es) 0 None = Some i" and "t \<noteq> 0"
  obtains us e vs where "es = us @ e # vs" "i = length us"
    "tt_thread e = t \<or> tt_thread e = 0 \<and> t \<notin> set (tids es)"
proof -
  define P where "P = (\<lambda>e :: zephyr_tls_thread. if t \<in> set (tids es) then tt_thread e \<noteq> t else tt_thread e \<noteq> 0)"
  have "i = length (takeWhile P es) \<and> (\<exists>e \<in> set es. \<not> P e)"
  proof (cases "t \<in> set (tids es)")
    case True
    then have "P = (\<lambda>e. tt_thread e \<noteq> t)" "\<exists>e \<in> set es. tt_thread e = t" by (auto simp: P_def set_tids)
    then show ?thesis using assms(1) True unfolding find_slot_spec [OF assms(2)] by simp
  next
    case False
    then have "P = (\<lambda>e. tt_thread e \<noteq> 0)" by (simp add: P_def)
    then show ?thesis using assms(1) False unfolding find_slot_spec [OF assms(2)] by (auto split: if_splits)
  qed
  then have i: "i = length (takeWhile P es)" and ex: "\<exists>e \<in> set es. \<not> P e" by simp_all
  then have ne: "dropWhile P es \<noteq> []" by simp
  then obtain e vs where dw: "dropWhile P es = e # vs" by (cases "dropWhile P es") auto
  have "\<not> P e" using dw ne hd_dropWhile [of P es] by simp
  then have "tt_thread e = t \<or> tt_thread e = 0 \<and> t \<notin> set (tids es)" by (auto simp: P_def split: if_splits)
  moreover have "es = takeWhile P es @ e # vs" using dw takeWhile_dropWhile_id [of P es] by simp
  ultimately show thesis using that i by blast
qed

lemma set_refused:
  assumes "tls_inv s" and "t \<noteq> 0" and "0 \<le> index" and "index < 32" and "bit (tls_keys s) (nat index)" and "\<not> room t s"
  shows "pj_thread_local_set t index v s = (PJ_ETOOMANY, s)"
proof -
  have "find_slot t (map tt_thread (tls_threads s)) 0 None = None"
    using assms(6) tls_invD(2) [OF assms(1)] length_tids_less [of "tls_threads s"]
    unfolding find_slot_spec [OF assms(2)] room_def by auto
  then show ?thesis using assms(3-5) by (simp add: pj_thread_local_set_def tls_sizes key_bit [simplified])
qed

lemma set_stores:
  assumes "tls_inv s" and "t \<noteq> 0" and "0 \<le> index" and "index < 32" and "bit (tls_keys s) (nat index)" and "room t s"
  obtains us e vs where "tls_threads s = us @ e # vs" "tt_thread e = t \<or> tt_thread e = 0 \<and> t \<notin> set (tids (tls_threads s))"
    "pj_thread_local_set t index v s =
       (PJ_SUCCESS, s\<lparr>tls_threads := us @ stored t (nat index) v (tls_generation s ! nat index) e # vs\<rparr>)"
proof -
  let ?es = "tls_threads s"
  have "find_slot t (map tt_thread ?es) 0 None \<noteq> None"
    using assms(6) tls_invD(2) [OF assms(1)] length_tids_less [of ?es]
    unfolding find_slot_spec [OF assms(2)] room_def by auto
  then obtain i where i: "find_slot t (map tt_thread ?es) 0 None = Some i" by blast
  obtain us e vs where sp: "?es = us @ e # vs" "i = length us" "tt_thread e = t \<or> tt_thread e = 0 \<and> t \<notin> set (tids ?es)"
    using slot_split [OF i assms(2)] by blast
  have "?es ! i = e" "?es[i := x] = us @ x # vs" for x using sp(1,2) by simp_all
  then have "pj_thread_local_set t index v s =
       (PJ_SUCCESS, s\<lparr>tls_threads := us @ stored t (nat index) v (tls_generation s ! nat index) e # vs\<rparr>)"
    using assms(3-5) i by (simp add: pj_thread_local_set_def tls_sizes key_bit [simplified] stored_def Let_def)
  then show thesis using that sp by blast
qed

lemma set_rejects:
  assumes "index < 0 \<or> 32 \<le> index \<or> \<not> bit (tls_keys s) (nat index)"
  shows "pj_thread_local_set t index v s = (PJ_EINVAL, s)"
  using assms by (auto simp: pj_thread_local_set_def tls_sizes key_bit [simplified])

lemma set_cases:
  assumes "tls_inv s" and "t \<noteq> 0"
  obtains (invalid) "index < 0 \<or> 32 \<le> index \<or> \<not> bit (tls_keys s) (nat index)"
      "pj_thread_local_set t index v s = (PJ_EINVAL, s)"
  | (full) "0 \<le> index" "index < 32" "bit (tls_keys s) (nat index)" "\<not> room t s"
      "pj_thread_local_set t index v s = (PJ_ETOOMANY, s)"
  | (stored) us e vs where "0 \<le> index" "index < 32" "bit (tls_keys s) (nat index)" "room t s"
      "tls_threads s = us @ e # vs" "tt_thread e = t \<or> tt_thread e = 0 \<and> t \<notin> set (tids (tls_threads s))"
      "pj_thread_local_set t index v s =
         (PJ_SUCCESS, s\<lparr>tls_threads := us @ stored t (nat index) v (tls_generation s ! nat index) e # vs\<rparr>)"
  using set_rejects [of index s t v] set_refused [OF assms, of index v] set_stores [OF assms, of index v]
  by (metis not_less)

text \<open>The value of a thread through the table.\<close>

lemma get_eq:
  "0 \<le> index \<Longrightarrow> index < 32 \<Longrightarrow> pj_thread_local_get t index s =
     (if bit (tls_keys s) (nat index) then get_from t (nat index) (tls_generation s ! nat index) (tls_threads s) else 0)"
  by (simp add: pj_thread_local_get_def tls_sizes key_bit [simplified] Let_def)

lemma get_out: "index < 0 \<or> 32 \<le> index \<Longrightarrow> pj_thread_local_get t index s = 0"
  by (auto simp: pj_thread_local_get_def tls_sizes)

lemma get_none: "\<not> (0 \<le> index \<and> index < 32 \<and> bit (tls_keys s) (nat index)) \<Longrightarrow> pj_thread_local_get t index s = 0"
  using get_eq [of index t s] get_out [of index t s] by (cases "0 \<le> index \<and> index < 32") auto

lemma stored_thread: "t \<noteq> 0 \<Longrightarrow> tt_thread e = t \<or> tt_thread e = 0 \<Longrightarrow> tt_thread (stored t k v g e) = t"
  by (auto simp: stored_def Let_def)

lemma stored_ok: "entry_ok e \<Longrightarrow> entry_ok (stored t k v g e)"
  using empty_entry_ok(1) by (auto simp: stored_def Let_def entry_ok_def)

lemma stored_distinct:
  assumes "distinct (tids (us @ e # vs))" and "t \<noteq> 0" and "tt_thread e = t \<or> tt_thread e = 0 \<and> t \<notin> set (tids (us @ e # vs))"
  shows "distinct (tids (us @ stored t k v g e # vs))"
    "set (tids (us @ stored t k v g e # vs)) = insert t (set (tids (us @ e # vs)))"
  using assms stored_thread [OF assms(2), of e k v g] by (auto split: if_splits)

lemma stored_get:
  assumes d: "distinct (tids (us @ e # vs))" and t: "t \<noteq> 0" "t' \<noteq> 0"
    and e: "tt_thread e = t \<or> tt_thread e = 0 \<and> t \<notin> set (tids (us @ e # vs))"
    and l: "entry_ok e" "k < 32" "k' < 32" and g: "g' \<noteq> 0" and kg: "k' = k \<Longrightarrow> g' = g"
  shows "get_from t' k' g' (us @ stored t k v g e # vs) =
    (if t' = t \<and> k' = k then v else get_from t' k' g' (us @ e # vs))"
proof -
  let ?f = "stored t k v g e"
  have th: "tt_thread ?f = t" using e stored_thread [OF t(1)] by blast
  have n: "get_from t' k' g' (us @ ?f # vs) = (if t = t' then if tt_value_generation ?f ! k' = g' then tt_values ?f ! k' else 0
     else get_from t' k' g' (us @ vs))"
    using get_at [OF stored_distinct(1) [OF d t(1) e, of k v g] t(2), of k' g'] th by simp
  have o: "get_from t' k' g' (us @ e # vs) = (if tt_thread e = t' then if tt_value_generation e ! k' = g' then tt_values e ! k' else 0
     else get_from t' k' g' (us @ vs))" by (rule get_at [OF d t(2)])
  consider "t' \<noteq> t" | "t' = t" "tt_thread e = t" | "t' = t" "tt_thread e = 0" "t \<notin> set (tids (us @ e # vs))" using e by metis
  then show ?thesis
  proof cases
    case 1
    then show ?thesis using n o e t(2) by auto
  next
    case 2
    then show ?thesis using n o l kg t by (auto simp: stored_def Let_def entry_ok_def nth_list_update)
  next
    case 3
    then have "get_from t' k' g' (us @ vs) = 0" using t(2) by (auto intro: get_absent)
    then show ?thesis using n o l kg g 3 t by (auto simp: stored_def Let_def empty_entry_def tls_sizes nth_list_update)
  qed
qed

lemma set_keeps_inv:
  assumes "tls_inv s" and "t \<noteq> 0"
  shows "tls_inv (snd (pj_thread_local_set t index v s))"
  using assms
proof (cases rule: set_cases [where index = index and v = v])
  case (stored us e vs)
  note i = tls_invD [OF assms(1)]
  have d: "distinct (tids (us @ e # vs))" using i(4) stored(5) by simp
  show ?thesis
    using i stored(5-7) stored_ok stored_distinct(1) [OF d assms(2)] by (simp add: tls_inv_def)
qed (simp_all add: assms)

lemma set_then_get:
  assumes inv: "tls_inv s" and t: "t \<noteq> 0" "t' \<noteq> 0" and ok: "pj_thread_local_set t index v s = (PJ_SUCCESS, s')"
  shows "pj_thread_local_get t' index' s' = (if t' = t \<and> index' = index then v else pj_thread_local_get t' index' s)"
  using inv t(1)
proof (cases rule: set_cases [where index = index and v = v])
  case (stored us e vs)
  note i = tls_invD [OF inv]
  have s': "s' = s\<lparr>tls_threads := us @ stored t (nat index) v (tls_generation s ! nat index) e # vs\<rparr>" using ok stored(7) by simp
  show ?thesis
  proof (cases "0 \<le> index' \<and> index' < 32 \<and> bit (tls_keys s) (nat index')")
    case True
    have "get_from t' (nat index') (tls_generation s ! nat index') (tls_threads s') =
      (if t' = t \<and> nat index' = nat index then v else get_from t' (nat index') (tls_generation s ! nat index') (tls_threads s))"
    proof -
      have k: "nat index' < 32" "bit (tls_keys s) (nat index')" using True by linarith (use True in blast)
      have h: "distinct (tids (us @ e # vs))" "tt_thread e = t \<or> tt_thread e = 0 \<and> t \<notin> set (tids (us @ e # vs))" "entry_ok e"
        "nat index < 32" "nat index' < 32" "tls_generation s ! nat index' \<noteq> 0"
        using i stored k by (simp_all del: tids_simps)
      from stored_get [OF h(1) t h(2-6), of "tls_generation s ! nat index" v] show ?thesis
        unfolding stored(5) by (simp add: s' del: tids_simps)
    qed
    then show ?thesis using True stored(1) by (simp add: get_eq s' eq_nat_nat_iff)
  next
    case False
    then have "pj_thread_local_get t' index' s = 0" "pj_thread_local_get t' index' s' = 0" "index' \<noteq> index"
      using stored(1-3) by (auto simp: s' intro: get_none)
    then show ?thesis by simp
  qed
qed (use ok in \<open>simp_all add: pj_status\<close>)

lemma clear_keeps_inv:
  assumes "tls_inv s" and "t \<noteq> 0"
  shows "tls_inv (zephyr_tls_clear_thread t s)" "t \<notin> set (tids (tls_threads (zephyr_tls_clear_thread t s)))"
    "set (tids (tls_threads (zephyr_tls_clear_thread t s))) = set (tids (tls_threads s)) - {t}"
    "t' \<noteq> 0 \<Longrightarrow> get_from t' k g (tls_threads (zephyr_tls_clear_thread t s)) = (if t' = t then 0 else get_from t' k g (tls_threads s))"
proof -
  note i = tls_invD [OF assms(1)]
  let ?es = "tls_threads s"
  have "tls_inv (zephyr_tls_clear_thread t s) \<and> set (tids (clear_from t ?es)) = set (tids ?es) - {t} \<and>
    (t' \<noteq> 0 \<longrightarrow> get_from t' k g (clear_from t ?es) = (if t' = t then 0 else get_from t' k g ?es))"
  proof (cases "t \<in> set (tids ?es)")
    case True
    then obtain us e vs where c: "?es = us @ e # vs" "tt_thread e = t" "clear_from t ?es = us @ empty_entry # vs"
      using clear_split assms(2) by blast
    have "distinct (tids (us @ e # vs))" using i(4) c(1) by simp
    then have d: "distinct (tids us @ tids vs)" "t \<notin> set (tids us @ tids vs)" using c(2) assms(2) by auto
    have g: "get_from t' k g (us @ empty_entry # vs) = (if t' = t then 0 else get_from t' k g (us @ e # vs))" if "t' \<noteq> 0"
      using that get_at [of us empty_entry vs t' k g] get_at [of us e vs t' k g] d c(2) assms(2)
      by (auto intro: get_absent)
    have "tls_inv (zephyr_tls_clear_thread t s)"
      using i c d by (auto simp: tls_inv_def zephyr_tls_clear_thread_def)
    moreover have "set (tids (us @ empty_entry # vs)) = set (tids ?es) - {t}" using c(1,2) d assms(2) by auto
    ultimately show ?thesis using c g by simp
  next
    case False
    then show ?thesis using clear_absent [OF assms(2) False] assms(1) get_absent [OF _ False, of k g]
      by (simp add: zephyr_tls_clear_thread_def)
  qed
  then show "tls_inv (zephyr_tls_clear_thread t s)" "t \<notin> set (tids (tls_threads (zephyr_tls_clear_thread t s)))"
    "set (tids (tls_threads (zephyr_tls_clear_thread t s))) = set (tids (tls_threads s)) - {t}"
    "t' \<noteq> 0 \<Longrightarrow> get_from t' k g (tls_threads (zephyr_tls_clear_thread t s)) = (if t' = t then 0 else get_from t' k g (tls_threads s))"
    by (simp_all add: zephyr_tls_clear_thread_def)
qed

lemma clear_then_get:
  assumes "tls_inv s" and "t \<noteq> 0" and "t' \<noteq> 0"
  shows "pj_thread_local_get t' index (zephyr_tls_clear_thread t s) = (if t' = t then 0 else pj_thread_local_get t' index s)"
proof (cases "0 \<le> index \<and> index < 32")
  case True
  then show ?thesis using clear_keeps_inv(4) [OF assms] by (auto simp: get_eq zephyr_tls_clear_thread_def)
next
  case False
  then show ?thesis by (auto simp: get_out not_le not_less)
qed

interpretation ztls: thread_local tls_inv pj_thread_local_get pj_thread_local_set zephyr_tls_clear_thread
proof unfold_locales
  fix s s' t k v assume "tls_inv s" "t \<noteq> 0" "pj_thread_local_set t k v s = (PJ_SUCCESS, s')"
  then show "tls_inv s'" using set_keeps_inv [of s t k v] by simp
next
  fix t k v s st s' assume "pj_thread_local_set t k v s = (st, s')" "st \<noteq> PJ_SUCCESS"
  then show "s' = s" by (auto simp: pj_thread_local_set_def Let_def split: if_splits option.splits)
qed (simp_all add: set_then_get clear_keeps_inv clear_then_get)

end
