(* ===== verification/Pj_Tls_Run.thy ===== *)
theory Pj_Tls_Run
  imports Pj_Tls_Spec
begin

text \<open>
  Sequences of thread local storage calls by any threads, on the table and on the specification:
  a set of allocated keys, the set of threads that have an entry, and one value per key and
  thread. The simulation needs that the generation counters do not wrap around, which takes
  $2^{32} - 1$ allocations and releases of one key.
\<close>

section \<open>The specification\<close>

record tls_abs =
  ab_keys :: "nat set"
  ab_threads :: "nat set"
  ab_store :: "nat \<Rightarrow> nat \<Rightarrow> nat"

definition abs_empty :: tls_abs where
  "abs_empty = \<lparr>ab_keys = {}, ab_threads = {}, ab_store = (\<lambda>_ _. 0)\<rparr>"

definition valid_key :: "int \<Rightarrow> tls_abs \<Rightarrow> bool" where
  "valid_key index a \<longleftrightarrow> 0 \<le> index \<and> nat index \<in> ab_keys a"

datatype tls_call = Alloc | Free int | Set int nat | Get int | Clear
datatype tls_result = Allocated "pj_status_t + int" | Status pj_status_t | Value nat | Done

fun abs_call :: "nat \<Rightarrow> tls_call \<Rightarrow> tls_abs \<Rightarrow> tls_result \<times> tls_abs" where
  "abs_call t Alloc a =
     (case filter (\<lambda>k. k \<notin> ab_keys a) [0 ..< 32] of
        [] \<Rightarrow> (Allocated (Inl PJ_ETOOMANY), a)
      | k # _ \<Rightarrow> (Allocated (Inr (int k)),
          a\<lparr>ab_keys := insert k (ab_keys a), ab_store := (ab_store a)(k := (\<lambda>_. 0))\<rparr>))"
| "abs_call t (Free index) a = (Done, if 0 \<le> index then a\<lparr>ab_keys := ab_keys a - {nat index}\<rparr> else a)"
| "abs_call t (Set index v) a =
     (if \<not> valid_key index a then (Status PJ_EINVAL, a)
      else if t \<notin> ab_threads a \<and> 16 \<le> card (ab_threads a) then (Status PJ_ETOOMANY, a)
      else (Status PJ_SUCCESS, a\<lparr>ab_threads := insert t (ab_threads a),
             ab_store := (ab_store a)(nat index := (ab_store a (nat index))(t := v))\<rparr>))"
| "abs_call t (Get index) a = (Value (if valid_key index a then ab_store a (nat index) t else 0), a)"
| "abs_call t Clear a = (Done, a\<lparr>ab_threads := ab_threads a - {t}, ab_store := (\<lambda>k. (ab_store a k)(t := 0))\<rparr>)"

fun do_call :: "nat \<Rightarrow> tls_call \<Rightarrow> zephyr_tls \<Rightarrow> tls_result \<times> zephyr_tls" where
  "do_call t Alloc s =
     (case pj_thread_local_alloc s of
        Inl st \<Rightarrow> (Allocated (Inl st), s)
      | Inr (k, s') \<Rightarrow> (Allocated (Inr k), s'))"
| "do_call t (Free index) s = (Done, pj_thread_local_free index s)"
| "do_call t (Set index v) s = (case pj_thread_local_set t index v s of (st, s') \<Rightarrow> (Status st, s'))"
| "do_call t (Get index) s = (Value (pj_thread_local_get t index s), s)"
| "do_call t Clear s = (Done, zephyr_tls_clear_thread t s)"

text \<open>One call after the other, each by the thread named with it.\<close>

fun results :: "(nat \<Rightarrow> tls_call \<Rightarrow> 's \<Rightarrow> tls_result \<times> 's) \<Rightarrow> (nat \<times> tls_call) list \<Rightarrow> 's \<Rightarrow> tls_result list" where
  "results f [] s = []"
| "results f ((t, c) # cs) s = (case f t c s of (r, s') \<Rightarrow> r # results f cs s')"

section \<open>The simulation\<close>

definition tls_rel :: "nat \<Rightarrow> zephyr_tls \<Rightarrow> tls_abs \<Rightarrow> bool" where
  "tls_rel n s a \<longleftrightarrow> tls_inv s \<and> ab_keys a = {k. k < 32 \<and> bit (tls_keys s) k} \<and>
     ab_threads a = set (tids (tls_threads s)) \<and>
     (\<forall>k \<in> ab_keys a. \<forall>t. t \<noteq> 0 \<longrightarrow> ab_store a k t = get_from t k (tls_generation s ! k) (tls_threads s)) \<and>
     (\<forall>k < 32. unat (tls_generation s ! k) \<le> n \<and>
        (\<forall>e \<in> set (tls_threads s). tt_value_generation e ! k \<le> tls_generation s ! k))"

lemma tls_relD:
  assumes "tls_rel n s a"
  shows "tls_inv s" "ab_keys a = {k. k < 32 \<and> bit (tls_keys s) k}" "ab_threads a = set (tids (tls_threads s))"
    "k < 32 \<Longrightarrow> bit (tls_keys s) k \<Longrightarrow> t \<noteq> 0 \<Longrightarrow> ab_store a k t = get_from t k (tls_generation s ! k) (tls_threads s)"
    "k < 32 \<Longrightarrow> unat (tls_generation s ! k) \<le> n"
    "k < 32 \<Longrightarrow> e \<in> set (tls_threads s) \<Longrightarrow> tt_value_generation e ! k \<le> tls_generation s ! k"
    "card (ab_threads a) = length (tids (tls_threads s))"
  using assms by (auto simp: tls_rel_def distinct_card dest: tls_invD(4))

lemma tls_rel_weaken: "tls_rel n s a \<Longrightarrow> n \<le> m \<Longrightarrow> tls_rel m s a"
  by (auto simp: tls_rel_def intro: order_trans)

lemma tls_rel_start: "tls_rel 0 zephyr_tls_static abs_empty"
proof -
  have "tids (replicate n empty_entry) = []" for n by (induction n) simp_all
  then show ?thesis using tls_inv_static
    by (simp add: tls_rel_def abs_empty_def zephyr_tls_static_def tls_sizes) (simp add: empty_entry_def tls_sizes)
qed

lemma valid_key_bit:
  "tls_rel n s a \<Longrightarrow> valid_key index a \<longleftrightarrow> 0 \<le> index \<and> index < 32 \<and> bit (tls_keys s) (nat index)"
  by (auto simp: valid_key_def tls_relD(2))

lemma set_clear_from: "set (clear_from t es) \<subseteq> insert empty_entry (set es)"
  by (induction es) auto

text \<open>A generation that no value carries makes the key read as null.\<close>

lemma get_older: "\<forall>e \<in> set es. tt_value_generation e ! k < g \<Longrightarrow> get_from t k g es = 0"
  by (induction es) auto

lemma generation_grows:
  assumes "tls_rel n s a" and "n < 2 ^ 32 - 1" and "k < 32"
  shows "tls_generation s ! k < next_generation (tls_generation s ! k)" "unat (next_generation (tls_generation s ! k)) \<le> Suc n"
proof -
  have "unat (tls_generation s ! k) \<le> n" using tls_relD(5) [OF assms(1,3)] .
  then have "unat (next_generation (tls_generation s ! k)) = unat (tls_generation s ! k) + 1"
    using assms(2) by (intro next_generation_less) simp
  then show "tls_generation s ! k < next_generation (tls_generation s ! k)" "unat (next_generation (tls_generation s ! k)) \<le> Suc n"
    using \<open>unat (tls_generation s ! k) \<le> n\<close> by (simp_all add: word_less_nat_alt)
qed

text \<open>Giving a key a new generation, as allocation and release do.\<close>

definition renew :: "nat \<Rightarrow> u32 \<Rightarrow> zephyr_tls \<Rightarrow> zephyr_tls" where
  "renew k keys s = s\<lparr>tls_keys := keys, tls_generation := (tls_generation s)[k := next_generation (tls_generation s ! k)]\<rparr>"

lemma renew_rel:
  assumes r: "tls_rel n s a" and n: "n < 2 ^ 32 - 1" and k: "k < 32"
    and keys: "\<And>j. j < 32 \<Longrightarrow> j \<noteq> k \<Longrightarrow> bit keys j = bit (tls_keys s) j"
    and a': "ab_keys a' = {j. j < 32 \<and> bit keys j}" "ab_threads a' = ab_threads a"
      "\<And>j. j \<noteq> k \<Longrightarrow> ab_store a' j = ab_store a j" "bit keys k \<Longrightarrow> ab_store a' k = (\<lambda>_. 0)"
  shows "tls_rel (Suc n) (renew k keys s) a'"
proof -
  note i = tls_relD [OF r] and gg = generation_grows [OF r n k]
  have l: "length (tls_generation s) = 32" using tls_invD(1) [OF i(1)] .
  let ?g = "next_generation (tls_generation s ! k)"
  have g: "(tls_generation s)[k := ?g] ! j = (if j = k then ?g else tls_generation s ! j)" for j
    using k l by simp
  have "tls_inv (renew k keys s)"
    using i(1) keys by (auto simp: tls_inv_def renew_def g next_generation_nonzero)
  moreover have "ab_store a' j t = get_from t j ((tls_generation s)[k := ?g] ! j) (tls_threads s)"
    if "j < 32" "bit keys j" "t \<noteq> 0" for j t
  proof (cases "j = k")
    case True
    then have "get_from t k ?g (tls_threads s) = 0" using i(6) [OF k] gg(1) by (intro get_older ballI) (meson le_less_trans)
    then show ?thesis using True a'(4) that g by simp
  next
    case False
    then show ?thesis using a'(3) i(4) keys that g by simp
  qed
  moreover have "unat ((tls_generation s)[k := ?g] ! j) \<le> Suc n \<and>
      (\<forall>e \<in> set (tls_threads s). tt_value_generation e ! j \<le> (tls_generation s)[k := ?g] ! j)" if "j < 32" for j
    using i(5,6) [OF that] gg g by (auto intro: le_SucI less_imp_le [OF le_less_trans])
  ultimately show ?thesis using a'(1,2) i(3) by (simp add: tls_rel_def renew_def)
qed

lemma alloc_from_spec:
  "i \<le> 32 \<Longrightarrow> alloc_from i s =
     (case filter (\<lambda>k. \<not> bit (tls_keys s) k) [i ..< 32] of
        [] \<Rightarrow> Inl PJ_ETOOMANY
      | k # _ \<Rightarrow> Inr (int k, renew k (tls_keys s OR push_bit k 1) s))"
proof (induction i s rule: alloc_from.induct)
  case (1 i s)
  show ?case
  proof (cases "i < 32")
    case True
    then have "[i ..< 32] = i # [Suc i ..< 32]" by (simp add: upt_conv_Cons)
    then show ?thesis using True 1 by (subst alloc_from.simps) (simp add: tls_sizes key_bit [simplified] renew_def Let_def)
  next
    case False
    then show ?thesis by (subst alloc_from.simps) (simp add: tls_sizes)
  qed
qed

lemma sim_alloc:
  assumes "tls_rel n s a" and "n < 2 ^ 32 - 1"
  shows "fst (do_call t Alloc s) = fst (abs_call t Alloc a) \<and> tls_rel (Suc n) (snd (do_call t Alloc s)) (snd (abs_call t Alloc a))"
proof -
  note i = tls_relD [OF assms(1)]
  have f: "filter (\<lambda>k. k \<notin> ab_keys a) [0 ..< 32] = filter (\<lambda>k. \<not> bit (tls_keys s) k) [0 ..< 32]"
    by (rule filter_cong) (auto simp: i(2))
  show ?thesis
  proof (cases "filter (\<lambda>k. \<not> bit (tls_keys s) k) [0 ..< 32]")
    case Nil
    then show ?thesis using tls_rel_weaken [OF assms(1), of "Suc n"] f by (simp add: pj_thread_local_alloc_def alloc_from_spec)
  next
    case (Cons k ks)
    then have "k \<in> set (filter (\<lambda>k. \<not> bit (tls_keys s) k) [0 ..< 32])" by simp
    then have k: "k < 32" "\<not> bit (tls_keys s) k" by auto
    have "tls_rel (Suc n) (renew k (tls_keys s OR push_bit k 1) s)
        (a\<lparr>ab_keys := insert k (ab_keys a), ab_store := (ab_store a)(k := (\<lambda>_. 0))\<rparr>)"
    proof (rule renew_rel [OF assms k(1)])
      show "bit (tls_keys s OR push_bit k 1) j = bit (tls_keys s) j" if "j < 32" "j \<noteq> k" for j
        using key_bit_set [OF k(1) that(1)] that(2) by blast
      show "ab_keys (a\<lparr>ab_keys := insert k (ab_keys a), ab_store := (ab_store a)(k := (\<lambda>_. 0))\<rparr>) =
          {j. j < 32 \<and> bit (tls_keys s OR push_bit k 1) j}"
        using key_bit_set [OF k(1)] k(1) by (simp add: i(2) del: push_bit_of_1) blast
    qed simp_all
    then show ?thesis using Cons f by (simp add: pj_thread_local_alloc_def alloc_from_spec)
  qed
qed

lemma sim_free:
  assumes "tls_rel n s a" and "n < 2 ^ 32 - 1"
  shows "tls_rel (Suc n) (pj_thread_local_free index s) (if 0 \<le> index then a\<lparr>ab_keys := ab_keys a - {nat index}\<rparr> else a)"
proof (cases "0 \<le> index \<and> index < 32")
  case True
  note i = tls_relD [OF assms(1)]
  have k: "nat index < 32" using True by linarith
  have e: "pj_thread_local_free index s = renew (nat index) (tls_keys s AND NOT (push_bit (nat index) 1)) s"
    using True by (simp add: pj_thread_local_free_def tls_sizes renew_def Let_def)
  have "tls_rel (Suc n) (renew (nat index) (tls_keys s AND NOT (push_bit (nat index) 1)) s) (a\<lparr>ab_keys := ab_keys a - {nat index}\<rparr>)"
  proof (rule renew_rel [OF assms k])
    show "bit (tls_keys s AND NOT (push_bit (nat index) 1)) j = bit (tls_keys s) j" if "j < 32" "j \<noteq> nat index" for j
      using key_bit_clear [OF k that(1)] that(2) by blast
    show "ab_keys (a\<lparr>ab_keys := ab_keys a - {nat index}\<rparr>) = {j. j < 32 \<and> bit (tls_keys s AND NOT (push_bit (nat index) 1)) j}"
      using key_bit_clear [OF k] by (simp add: i(2) del: push_bit_of_1) blast
  qed (use key_bit_clear [OF k k] in simp_all)
  then show ?thesis using e True by simp
next
  case False
  then have "pj_thread_local_free index s = s" by (auto simp: pj_thread_local_free_def tls_sizes)
  moreover have "0 \<le> index \<Longrightarrow> nat index \<notin> ab_keys a" using False by (auto simp: tls_relD(2) [OF assms(1)])
  ultimately show ?thesis using tls_rel_weaken [OF assms(1), of "Suc n"] by auto
qed

lemma stored_generation:
  assumes "entry_ok e" and "\<forall>j < 32. tt_value_generation e ! j \<le> gs ! j" and "k < 32" and "j < 32"
  shows "tt_value_generation (stored t k v (gs ! k) e) ! j \<le> gs ! j"
  using assms by (auto simp: stored_def Let_def entry_ok_def empty_entry_def tls_sizes nth_list_update)

lemma sim_set:
  assumes r: "tls_rel n s a" and t: "t \<noteq> 0"
  shows "fst (do_call t (Set index v) s) = fst (abs_call t (Set index v) a) \<and>
    tls_rel (Suc n) (snd (do_call t (Set index v) s)) (snd (abs_call t (Set index v) a))"
proof -
  note i = tls_relD [OF r] and vk = valid_key_bit [OF r, of index] and inv = tls_relD(1) [OF r]
  have w: "tls_rel (Suc n) s a" using tls_rel_weaken [OF r] by simp
  have rm: "room t s \<longleftrightarrow> \<not> (t \<notin> ab_threads a \<and> 16 \<le> card (ab_threads a))" unfolding room_def i(3) [symmetric] i(7) [symmetric] by linarith
  show ?thesis using inv t
  proof (cases rule: set_cases [where index = index and v = v])
    case invalid
    then show ?thesis using vk w by auto
  next
    case full
    then show ?thesis using vk w rm by simp
  next
    case (stored us e vs)
    let ?k = "nat index" let ?g = "tls_generation s ! ?k"
    let ?es = "us @ stored t ?k v ?g e # vs"
    let ?a = "a\<lparr>ab_threads := insert t (ab_threads a), ab_store := (ab_store a)(?k := (ab_store a ?k)(t := v))\<rparr>"
    have k: "?k < 32" using stored by linarith
    have d: "distinct (tids (us @ e # vs))" and eo: "entry_ok e" and e0: "e \<in> set (tls_threads s)"
      using tls_invD [OF inv] stored(5) by (simp_all del: tids_simps)
    have tt: "tt_thread e = t \<or> tt_thread e = 0 \<and> t \<notin> set (tids (us @ e # vs))" using stored(5,6) by simp
    have inv': "tls_inv (s\<lparr>tls_threads := ?es\<rparr>)" using set_keeps_inv [OF inv t, of index v] stored(7) by simp
    have st: "ab_store ?a j t' = get_from t' j (tls_generation s ! j) ?es" if j: "j < 32" "bit (tls_keys s) j" "t' \<noteq> 0" for j t'
    proof -
      have "tls_generation s ! j \<noteq> 0" using tls_invD(5) [OF inv] j by simp
      then have "get_from t' j (tls_generation s ! j) ?es =
          (if t' = t \<and> j = ?k then v else get_from t' j (tls_generation s ! j) (us @ e # vs))"
        using stored_get [OF d t j(3) tt eo k j(1)] by (simp del: tids_simps)
      then show ?thesis using i(4) [OF j] stored(5) by auto
    qed
    have gen: "tt_value_generation x ! j \<le> tls_generation s ! j" if "x \<in> set ?es" "j < 32" for x j
      using that stored_generation [OF eo _ k that(2), of "tls_generation s" t v] i(6) [OF _ e0] i(6) [OF that(2)] stored(5) by auto
    have th: "set (tids ?es) = insert t (ab_threads a)" using stored_distinct(2) [OF d t tt] stored(5) i(3) by (simp del: tids_simps)
    have "tls_rel (Suc n) (s\<lparr>tls_threads := ?es\<rparr>) ?a"
      unfolding tls_rel_def using inv' st gen th i(2,5) by (simp add: le_Suc_eq del: tids_simps)
    moreover have "valid_key index a" "(t \<notin> ab_threads a \<and> 16 \<le> card (ab_threads a)) = False" using stored(1-4) vk rm by blast+
    ultimately show ?thesis by (auto simp: stored(7))
  qed
qed

lemma sim_clear:
  assumes r: "tls_rel n s a" and t: "t \<noteq> 0"
  shows "tls_rel (Suc n) (zephyr_tls_clear_thread t s) (a\<lparr>ab_threads := ab_threads a - {t}, ab_store := (\<lambda>k. (ab_store a k)(t := 0))\<rparr>)"
proof -
  note i = tls_relD [OF r] and c = clear_keeps_inv [OF tls_relD(1) [OF r] t]
  have f: "tls_keys (zephyr_tls_clear_thread t s) = tls_keys s" "tls_generation (zephyr_tls_clear_thread t s) = tls_generation s"
    by (simp_all add: zephyr_tls_clear_thread_def)
  have "e = empty_entry \<or> e \<in> set (tls_threads s)" if "e \<in> set (tls_threads (zephyr_tls_clear_thread t s))" for e
    using that set_clear_from [of t "tls_threads s"] by (auto simp: zephyr_tls_clear_thread_def)
  then have "tt_value_generation e ! k \<le> tls_generation s ! k"
    if "e \<in> set (tls_threads (zephyr_tls_clear_thread t s))" "k < 32" for e k
  proof -
    have "tt_value_generation empty_entry ! k = 0" using that(2) by (simp add: empty_entry_def tls_sizes)
    then show ?thesis using that i(6) [of k e] \<open>\<And>e. e \<in> _ \<Longrightarrow> e = empty_entry \<or> _\<close> [OF that(1)] by auto
  qed
  then show ?thesis unfolding tls_rel_def using c i(2-5) by (simp add: f le_Suc_eq)
qed

lemma sim_call:
  assumes r: "tls_rel n s a" and n: "n < 2 ^ 32 - 1" and t: "t \<noteq> 0"
  shows "fst (do_call t c s) = fst (abs_call t c a) \<and> tls_rel (Suc n) (snd (do_call t c s)) (snd (abs_call t c a))"
proof (cases c)
  case (Get index)
  have "pj_thread_local_get t index s = (if valid_key index a then ab_store a (nat index) t else 0)"
    using tls_relD(4) [OF r, of "nat index" t] t get_eq [of index t s] get_none [of index s t]
    unfolding valid_key_bit [OF r] by auto
  then show ?thesis using Get tls_rel_weaken [OF r, of "Suc n"] by simp
next
  case (Free index)
  then show ?thesis using sim_free [OF r n, of index] by simp
qed (use sim_alloc [OF r n] sim_set [OF r t] sim_clear [OF r t] in simp_all)

lemma sim_results:
  assumes "tls_rel n s a" and "n + length cs < 2 ^ 32" and "\<forall>(t, c) \<in> set cs. t \<noteq> 0"
  shows "results do_call cs s = results abs_call cs a"
  using assms
proof (induction cs arbitrary: n s a)
  case (Cons tc cs)
  obtain t c where tc: "tc = (t, c)" by fastforce
  have h: "t \<noteq> 0" "n < 2 ^ 32 - 1" using Cons.prems(2,3) tc by auto
  note sc = sim_call [OF Cons.prems(1) h(2,1), of c]
  obtain r1 s1 r2 a2 where e: "do_call t c s = (r1, s1)" "abs_call t c a = (r2, a2)" by fastforce
  have "results do_call cs s1 = results abs_call cs a2"
    using sc e Cons.prems(2,3) by (intro Cons.IH [of "Suc n"]) auto
  then show ?case using sc e tc by simp
qed simp

end
