(* ===== verification/Pj_Mutex.thy ===== *)
theory Pj_Mutex
  imports Pj_Prelude Pj_Pool
begin

text \<open>
  Mutexes, semaphores and atomic variables of \<^verbatim>\<open>pjlib/src/pj/os_core_unix.c\<close>, in the configuration
  of the port: threads, standard atomics, release build. The POSIX functions are a parameter, a
  record of functions on the state of the operating system, each returning its error number, and of the constants it names.
  Logging is left out.
\<close>

section \<open>POSIX and memory\<close>

text \<open>A mutex, semaphore or attribute object is named by its address, zero the null pointer.
  \<^verbatim>\<open>api_alloc\<close> is the allocation of an object from a pool, \<^verbatim>\<open>api_format\<close> the text of a name that
  ends in \<^verbatim>\<open>%p\<close>.\<close>

record 'w pthread_api =
  pthread_mutexattr_init :: "'w \<Rightarrow> int \<times> int \<times> 'w"
  pthread_mutexattr_settype :: "int \<Rightarrow> int \<Rightarrow> 'w \<Rightarrow> int \<times> int \<times> 'w"
  pthread_mutexattr_destroy :: "int \<Rightarrow> 'w \<Rightarrow> int \<times> 'w"
  pthread_mutex_init :: "nat \<Rightarrow> int \<Rightarrow> 'w \<Rightarrow> int \<times> 'w"
  pthread_mutex_lock :: "nat \<Rightarrow> 'w \<Rightarrow> int \<times> 'w"
  pthread_mutex_trylock :: "nat \<Rightarrow> 'w \<Rightarrow> int \<times> 'w"
  pthread_mutex_unlock :: "nat \<Rightarrow> 'w \<Rightarrow> int \<times> 'w"
  pthread_mutex_destroy :: "nat \<Rightarrow> 'w \<Rightarrow> int \<times> 'w"
  sem_init :: "nat \<Rightarrow> u32 \<Rightarrow> 'w \<Rightarrow> int \<times> 'w"
  sem_wait :: "nat \<Rightarrow> 'w \<Rightarrow> int \<times> 'w"
  sem_trywait :: "nat \<Rightarrow> 'w \<Rightarrow> int \<times> 'w"
  sem_post :: "nat \<Rightarrow> 'w \<Rightarrow> int \<times> 'w"
  sem_destroy :: "nat \<Rightarrow> 'w \<Rightarrow> int \<times> 'w"
  pthread_cond_init :: "nat \<Rightarrow> 'w \<Rightarrow> int \<times> 'w"
  pthread_cond_destroy :: "nat \<Rightarrow> 'w \<Rightarrow> int \<times> 'w"
  pthread_attr_init :: "'w \<Rightarrow> 'w"
  pthread_attr_setstacksize :: "u32 \<Rightarrow> 'w \<Rightarrow> int \<times> 'w"
  pthread_attr_destroy :: "'w \<Rightarrow> 'w"
  pthread_create :: "nat \<Rightarrow> 'w \<Rightarrow> int \<times> nat \<times> 'w"
  pthread_join :: "nat \<Rightarrow> 'w \<Rightarrow> int \<times> 'w"
  ESRCH :: int
  PTHREAD_MUTEX_NORMAL :: int
  PTHREAD_MUTEX_RECURSIVE :: int
  EBUSY :: int
  os_errno :: "'w \<Rightarrow> int"
  api_alloc :: "nat \<Rightarrow> 'w \<Rightarrow> nat \<times> 'w"
  api_format :: "u8 list \<Rightarrow> nat \<Rightarrow> u8 list"

definition PJ_ERRNO_SPACE_SIZE :: int where "PJ_ERRNO_SPACE_SIZE = 50000"
definition PJ_ERRNO_START_SYS :: pj_status_t where "PJ_ERRNO_START_SYS = PJ_ERRNO_START_STATUS + PJ_ERRNO_SPACE_SIZE"

text \<open>Error numbers are positive on the target (\<^verbatim>\<open>PJ_NATIVE_ERR_POSITIVE\<close>).\<close>

definition PJ_STATUS_FROM_OS :: "int \<Rightarrow> pj_status_t" where
  "PJ_STATUS_FROM_OS e = (if e = 0 then PJ_SUCCESS else e + PJ_ERRNO_START_SYS)"

definition PJ_RETURN_OS_ERROR :: "int \<Rightarrow> pj_status_t" where
  "PJ_RETURN_OS_ERROR os_code = (if os_code \<noteq> 0 then PJ_STATUS_FROM_OS os_code else -1)"

text \<open>The kinds of mutex.\<close>

definition PJ_MUTEX_SIMPLE :: int where "PJ_MUTEX_SIMPLE = 1"
definition PJ_MUTEX_RECURSE :: int where "PJ_MUTEX_RECURSE = 2"

text \<open>\<^verbatim>\<open>pj_ansi_snprintf\<close> for a name ending in \<^verbatim>\<open>%p\<close>, \<^verbatim>\<open>pj_ansi_strxcpy\<close> for any other.\<close>

definition obj_name_of :: "'w pthread_api \<Rightarrow> u8 list \<Rightarrow> nat \<Rightarrow> u8 list" where
  "obj_name_of api name obj =
     (if dropWhile (\<lambda>c. c \<noteq> 37) name = [37, 112] then take (PJ_MAX_OBJ_NAME - 1) (api_format api name obj)
      else take (PJ_MAX_OBJ_NAME - 1) name)"

section \<open>Mutexes\<close>

text \<open>The result is the status, or the name the mutex got.\<close>

definition init_mutex ::
  "'w pthread_api \<Rightarrow> nat \<Rightarrow> u8 list option \<Rightarrow> int \<Rightarrow> 'w \<Rightarrow> (pj_status_t + u8 list) \<times> 'w" where
  "init_mutex api mutex name type w =
     (case pthread_mutexattr_init api w of (rc, attr, w) \<Rightarrow>
      if rc \<noteq> 0 then (Inl (PJ_RETURN_OS_ERROR rc), w)
      else (case pthread_mutexattr_settype api attr
                   (if type = PJ_MUTEX_SIMPLE then PTHREAD_MUTEX_NORMAL api else PTHREAD_MUTEX_RECURSIVE api) w of (rc, attr, w) \<Rightarrow>
      if rc \<noteq> 0 then (Inl (PJ_RETURN_OS_ERROR rc), snd (pthread_mutexattr_destroy api attr w))
      else (case pthread_mutex_init api mutex attr w of (rc, w) \<Rightarrow>
      if rc \<noteq> 0 then (Inl (PJ_RETURN_OS_ERROR rc), snd (pthread_mutexattr_destroy api attr w))
      else (case pthread_mutexattr_destroy api attr w of (rc, w) \<Rightarrow>
      if rc \<noteq> 0 then (Inl (PJ_RETURN_OS_ERROR rc), snd (pthread_mutex_destroy api mutex w))
      else (Inr (obj_name_of api (case name of None \<Rightarrow> [109, 116, 120, 37, 112] | Some n \<Rightarrow> n) mutex), w)))))"

definition pj_mutex_create ::
  "'w pthread_api \<Rightarrow> nat \<Rightarrow> u8 list option \<Rightarrow> int \<Rightarrow> 'w \<Rightarrow> (pj_status_t + nat) \<times> 'w" where
  "pj_mutex_create api pool name type w =
     (if pool = 0 then (Inl PJ_EINVAL, w)
      else (case api_alloc api pool w of (mutex, w) \<Rightarrow>
        if mutex = 0 then (Inl PJ_ENOMEM, w)
        else (case init_mutex api mutex name type w of
            (Inl rc, w) \<Rightarrow> (Inl rc, w)
          | (Inr _, w) \<Rightarrow> (Inr mutex, w))))"

definition pj_mutex_create_simple ::
  "'w pthread_api \<Rightarrow> nat \<Rightarrow> u8 list option \<Rightarrow> 'w \<Rightarrow> (pj_status_t + nat) \<times> 'w" where
  "pj_mutex_create_simple api pool name = pj_mutex_create api pool name PJ_MUTEX_SIMPLE"

definition pj_mutex_create_recursive ::
  "'w pthread_api \<Rightarrow> nat \<Rightarrow> u8 list option \<Rightarrow> 'w \<Rightarrow> (pj_status_t + nat) \<times> 'w" where
  "pj_mutex_create_recursive api pool name = pj_mutex_create api pool name PJ_MUTEX_RECURSE"

definition pj_mutex_lock :: "'w pthread_api \<Rightarrow> nat \<Rightarrow> 'w \<Rightarrow> pj_status_t \<times> 'w" where
  "pj_mutex_lock api mutex w =
     (if mutex = 0 then (PJ_EINVAL, w)
      else (case pthread_mutex_lock api mutex w of (status, w) \<Rightarrow>
        (if status = 0 then PJ_SUCCESS else PJ_RETURN_OS_ERROR status, w)))"

definition pj_mutex_unlock :: "'w pthread_api \<Rightarrow> nat \<Rightarrow> 'w \<Rightarrow> pj_status_t \<times> 'w" where
  "pj_mutex_unlock api mutex w =
     (if mutex = 0 then (PJ_EINVAL, w)
      else (case pthread_mutex_unlock api mutex w of (status, w) \<Rightarrow>
        (if status = 0 then PJ_SUCCESS else PJ_RETURN_OS_ERROR status, w)))"

definition pj_mutex_trylock :: "'w pthread_api \<Rightarrow> nat \<Rightarrow> 'w \<Rightarrow> pj_status_t \<times> 'w" where
  "pj_mutex_trylock api mutex w =
     (if mutex = 0 then (PJ_EINVAL, w)
      else (case pthread_mutex_trylock api mutex w of (status, w) \<Rightarrow>
        (if status = 0 then PJ_SUCCESS else PJ_RETURN_OS_ERROR status, w)))"

definition RETRY :: nat where "RETRY = 4"

text \<open>The loop of \<^verbatim>\<open>pj_mutex_destroy\<close>: a mutex that is still locked is unlocked and tried again.\<close>

function destroy_retry :: "'w pthread_api \<Rightarrow> nat \<Rightarrow> nat \<Rightarrow> int \<Rightarrow> 'w \<Rightarrow> int \<times> 'w" where
  "destroy_retry api mutex retry status w =
     (if retry < RETRY then
        (case pthread_mutex_destroy api mutex w of (status, w) \<Rightarrow>
           if status = PJ_SUCCESS then (status, w)
           else destroy_retry api mutex (retry + 1) status
             (if retry < RETRY - 1 \<and> status = EBUSY api then snd (pthread_mutex_unlock api mutex w) else w))
      else (status, w))"
  by pat_completeness auto

termination by (relation "measure (\<lambda>(api, mutex, retry, status, w). RETRY - retry)") auto

declare destroy_retry.simps [simp del]

definition pj_mutex_destroy :: "'w pthread_api \<Rightarrow> nat \<Rightarrow> 'w \<Rightarrow> pj_status_t \<times> 'w" where
  "pj_mutex_destroy api mutex w =
     (if mutex = 0 then (PJ_EINVAL, w)
      else (case destroy_retry api mutex 0 0 w of (status, w) \<Rightarrow>
        (if status = 0 then PJ_SUCCESS else PJ_RETURN_OS_ERROR status, w)))"

text \<open>The critical section is one static mutex.\<close>

definition pj_enter_critical_section :: "'w pthread_api \<Rightarrow> nat \<Rightarrow> 'w \<Rightarrow> 'w" where
  "pj_enter_critical_section api critical_section w = snd (pj_mutex_lock api critical_section w)"

definition pj_leave_critical_section :: "'w pthread_api \<Rightarrow> nat \<Rightarrow> 'w \<Rightarrow> 'w" where
  "pj_leave_critical_section api critical_section w = snd (pj_mutex_unlock api critical_section w)"

section \<open>Semaphores\<close>

text \<open>A semaphore object holds the address of the POSIX semaphore; the pair is returned.\<close>

record pj_sem_t =
  sm_sem :: nat
  sm_obj_name :: "u8 list"

definition pj_sem_create ::
  "'w pthread_api \<Rightarrow> nat \<Rightarrow> u8 list option \<Rightarrow> u32 \<Rightarrow> u32 \<Rightarrow> 'w \<Rightarrow> (pj_status_t + nat \<times> pj_sem_t) \<times> 'w" where
  "pj_sem_create api pool name initial max_cnt w =
     (if pool = 0 then (Inl PJ_EINVAL, w)
      else (case api_alloc api pool w of (sem, w) \<Rightarrow>
        if sem = 0 then (Inl PJ_ENOMEM, w)
        else (case api_alloc api pool w of (posix, w) \<Rightarrow>
          case sem_init api posix initial w of (rc, w) \<Rightarrow>
          if rc \<noteq> 0 then (Inl (PJ_RETURN_OS_ERROR (os_errno api w)), w)
          else (Inr (sem, \<lparr>sm_sem = posix,
                 sm_obj_name = obj_name_of api (case name of None \<Rightarrow> [115, 101, 109, 37, 112] | Some n \<Rightarrow> n) sem\<rparr>), w))))"

definition sem_status :: "'w pthread_api \<Rightarrow> int \<times> 'w \<Rightarrow> pj_status_t \<times> 'w" where
  "sem_status api r =
     (case r of (rc, w) \<Rightarrow> (if rc = 0 then PJ_SUCCESS else PJ_RETURN_OS_ERROR (os_errno api w), w))"

definition pj_sem_wait :: "'w pthread_api \<Rightarrow> pj_sem_t \<Rightarrow> 'w \<Rightarrow> pj_status_t \<times> 'w" where
  "pj_sem_wait api sem w = sem_status api (sem_wait api (sm_sem sem) w)"

definition pj_sem_trywait :: "'w pthread_api \<Rightarrow> pj_sem_t \<Rightarrow> 'w \<Rightarrow> pj_status_t \<times> 'w" where
  "pj_sem_trywait api sem w = sem_status api (sem_trywait api (sm_sem sem) w)"

definition pj_sem_post :: "'w pthread_api \<Rightarrow> pj_sem_t \<Rightarrow> 'w \<Rightarrow> pj_status_t \<times> 'w" where
  "pj_sem_post api sem w = sem_status api (sem_post api (sm_sem sem) w)"

definition pj_sem_destroy :: "'w pthread_api \<Rightarrow> pj_sem_t \<Rightarrow> 'w \<Rightarrow> pj_status_t \<times> 'w" where
  "pj_sem_destroy api sem w = sem_status api (sem_destroy api (sm_sem sem) w)"

section \<open>Atomic variables\<close>

text \<open>\<^verbatim>\<open>pj_atomic_value_t\<close> is a \<^verbatim>\<open>long\<close>; the standard's atomic operations wrap around.\<close>

type_synonym pj_atomic_t = u32

definition pj_atomic_inc_and_get :: "pj_atomic_t \<Rightarrow> u32 \<times> pj_atomic_t" where
  "pj_atomic_inc_and_get v = (let new_value = v + 1 in (new_value, new_value))"

definition pj_atomic_inc :: "pj_atomic_t \<Rightarrow> pj_atomic_t" where
  "pj_atomic_inc v = snd (pj_atomic_inc_and_get v)"

definition pj_atomic_dec_and_get :: "pj_atomic_t \<Rightarrow> u32 \<times> pj_atomic_t" where
  "pj_atomic_dec_and_get v = (let new_value = v - 1 in (new_value, new_value))"

lemma os_error_not_success: "PJ_RETURN_OS_ERROR e \<noteq> PJ_SUCCESS" if "e \<noteq> - 120000"
  using that by (auto simp: PJ_RETURN_OS_ERROR_def PJ_STATUS_FROM_OS_def PJ_ERRNO_START_SYS_def PJ_ERRNO_SPACE_SIZE_def pj_status)

end
