(* ===== verification/Pj_Thread.thy ===== *)
theory Pj_Thread
  imports Pj_Tls_Run Pj_Mutex
begin

text \<open>
  Threads of \<^verbatim>\<open>pjlib/src/pj/os_core_unix.c\<close>: the library knows a thread by the descriptor it has
  stored under the key \<^verbatim>\<open>thread_tls_id\<close> in the thread's local storage. Threads the library creates
  register themselves when they start; others are registered by the application. The calling
  thread is an argument, \<open>current\<close> its native identifier and \<open>self\<close> its POSIX one.
\<close>

section \<open>State\<close>

definition SIGNATURE1 :: u32 where "SIGNATURE1 = 0xDEAFBEEF"
definition SIGNATURE2 :: u32 where "SIGNATURE2 = 0xDEADC0DE"
definition PJ_THREAD_SUSPENDED :: u32 where "PJ_THREAD_SUSPENDED = 1"

record pj_thread_t =
  th_obj_name :: "u8 list"
  th_thread :: nat
  th_proc :: nat
  th_arg :: nat
  th_signature1 :: u32
  th_signature2 :: u32
  th_suspended_mutex :: nat

definition zero_thread :: pj_thread_t where
  "zero_thread = \<lparr>th_obj_name = [], th_thread = 0, th_proc = 0, th_arg = 0, th_signature1 = 0, th_signature2 = 0,
     th_suspended_mutex = 0\<rparr>"

text \<open>The static variables, the descriptors by address, and the operating system.\<close>

record 'w os_state =
  os_tls :: zephyr_tls
  os_thread_tls_id :: int
  os_threads :: "nat \<Rightarrow> pj_thread_t"
  os_world :: 'w

section \<open>Registration\<close>

definition pj_thread_is_registered :: "nat \<Rightarrow> 'w os_state \<Rightarrow> bool" where
  "pj_thread_is_registered current s \<longleftrightarrow> pj_thread_local_get current (os_thread_tls_id s) (os_tls s) \<noteq> 0"

definition pj_thread_this :: "nat \<Rightarrow> 'w os_state \<Rightarrow> nat" where
  "pj_thread_this current s = pj_thread_local_get current (os_thread_tls_id s) (os_tls s)"

text \<open>The name of a thread: \<^verbatim>\<open>thr%p\<close> when none was given or it is too long.\<close>

definition thread_name :: "'w pthread_api \<Rightarrow> nat \<Rightarrow> u8 list option \<Rightarrow> u8 list" where
  "thread_name api self name =
     (case name of
        Some n \<Rightarrow> if length n < PJ_MAX_OBJ_NAME - 1 then obj_name_of api n self
                  else take (PJ_MAX_OBJ_NAME - 1) (api_format api [116, 104, 114, 37, 112] self)
      | None \<Rightarrow> take (PJ_MAX_OBJ_NAME - 1) (api_format api [116, 104, 114, 37, 112] self))"

text \<open>A descriptor has 256 bytes, a thread record fewer, so the size check always passes.\<close>

definition pj_thread_register ::
  "'w pthread_api \<Rightarrow> nat \<Rightarrow> nat \<Rightarrow> u8 list option \<Rightarrow> nat \<Rightarrow> 'w os_state \<Rightarrow> (pj_status_t + nat) \<times> 'w os_state" where
  "pj_thread_register api self current name desc s =
     (let thread = zero_thread\<lparr>th_thread := self, th_signature1 := SIGNATURE1, th_signature2 := SIGNATURE2,
            th_obj_name := thread_name api self name\<rparr>;
          s = s\<lparr>os_threads := (os_threads s)(desc := thread)\<rparr>
      in case pj_thread_local_set current (os_thread_tls_id s) desc (os_tls s) of (rc, tls) \<Rightarrow>
        let s = s\<lparr>os_tls := tls\<rparr>
        in if rc \<noteq> PJ_SUCCESS then (Inl rc, s\<lparr>os_threads := (os_threads s)(desc := zero_thread)\<rparr>)
           else (Inr desc, s))"

definition pj_thread_attach ::
  "'w pthread_api \<Rightarrow> nat \<Rightarrow> nat \<Rightarrow> u8 list option \<Rightarrow> nat \<Rightarrow> 'w os_state \<Rightarrow> (pj_status_t + nat) \<times> 'w os_state" where
  "pj_thread_attach api self current name desc s = pj_thread_register api self current name desc s"

definition pj_thread_init :: "'w pthread_api \<Rightarrow> nat \<Rightarrow> nat \<Rightarrow> nat \<Rightarrow> 'w os_state \<Rightarrow> pj_status_t \<times> 'w os_state" where
  "pj_thread_init api self current main_thread_desc s =
     (case pj_thread_local_alloc (os_tls s) of
        Inl rc \<Rightarrow> (rc, s)
      | Inr (key, tls) \<Rightarrow>
          (case pj_thread_register api self current (Some [116, 104, 114, 37, 112]) main_thread_desc
                  (s\<lparr>os_thread_tls_id := key, os_tls := tls\<rparr>) of
             (Inl rc, s) \<Rightarrow> (rc, s)
           | (Inr _, s) \<Rightarrow> (PJ_SUCCESS, s)))"

definition pj_thread_destroy :: "'w pthread_api \<Rightarrow> nat \<Rightarrow> 'w os_state \<Rightarrow> pj_status_t \<times> 'w os_state" where
  "pj_thread_destroy api p s =
     (if p = 0 then (PJ_EINVAL, s)
      else let m = th_suspended_mutex (os_threads s p) in
        (PJ_SUCCESS,
         if m \<noteq> 0 then s\<lparr>os_world := snd (pj_mutex_destroy api m (os_world s)),
                         os_threads := (os_threads s)(p := (os_threads s p)\<lparr>th_suspended_mutex := 0\<rparr>)\<rparr>
         else s))"

definition pj_thread_unregister :: "'w pthread_api \<Rightarrow> nat \<Rightarrow> 'w os_state \<Rightarrow> pj_status_t \<times> 'w os_state" where
  "pj_thread_unregister api current s =
     (let rec = pj_thread_this current s in
      if rec = 0 then (PJ_EBUG, s)
      else (case pj_thread_destroy api rec s of (status, s) \<Rightarrow>
        if status \<noteq> PJ_SUCCESS then (status, s)
        else (case pj_thread_local_set current (os_thread_tls_id s) 0 (os_tls s) of (status, tls) \<Rightarrow>
          (status, s\<lparr>os_tls := zephyr_tls_clear_thread current tls\<rparr>))))"

section \<open>Threads of the library\<close>

text \<open>\<open>proc\<close> is the application's thread function, run on its argument; what the thread returns is
  its result.\<close>

definition thread_main ::
  "'w pthread_api \<Rightarrow> nat \<Rightarrow> nat \<Rightarrow> (nat \<Rightarrow> nat \<Rightarrow> 'w os_state \<Rightarrow> int \<times> 'w os_state) \<Rightarrow> nat \<Rightarrow> 'w os_state \<Rightarrow> int \<times> 'w os_state" where
  "thread_main api self current proc rec s =
     (let s = s\<lparr>os_threads := (os_threads s)(rec := (os_threads s rec)\<lparr>th_thread := self\<rparr>)\<rparr>;
          s = s\<lparr>os_tls := snd (pj_thread_local_set current (os_thread_tls_id s) rec (os_tls s))\<rparr>;
          m = th_suspended_mutex (os_threads s rec);
          s = (if m \<noteq> 0 then s\<lparr>os_world := snd (pj_mutex_unlock api m (snd (pj_mutex_lock api m (os_world s))))\<rparr> else s)
      in case proc (th_proc (os_threads s rec)) (th_arg (os_threads s rec)) s of (result, s) \<Rightarrow>
        (result, s\<lparr>os_tls := zephyr_tls_clear_thread current (os_tls s)\<rparr>))"

definition create_thread ::
  "'w pthread_api \<Rightarrow> u8 list option \<Rightarrow> nat \<Rightarrow> nat \<Rightarrow> u32 \<Rightarrow> nat \<Rightarrow> 'w os_state \<Rightarrow> pj_status_t \<times> 'w os_state" where
  "create_thread api name proc arg stack_size rec s =
     (if proc = 0 \<or> rec = 0 then (PJ_EINVAL, s)
      else
        let n = (case name of None \<Rightarrow> [116, 104, 114, 37, 112] | Some n \<Rightarrow> n);
            s = s\<lparr>os_threads := (os_threads s)(rec := (os_threads s rec)\<lparr>th_obj_name := obj_name_of api n rec\<rparr>),
                  os_world := pthread_attr_init api (os_world s)\<rparr>;
            (rc, w) = (if stack_size \<noteq> 0 then pthread_attr_setstacksize api stack_size (os_world s) else (0, os_world s))
        in if rc \<noteq> 0 then (PJ_RETURN_OS_ERROR rc, s\<lparr>os_world := pthread_attr_destroy api w\<rparr>)
           else
             let s = s\<lparr>os_threads := (os_threads s)(rec := (os_threads s rec)\<lparr>th_proc := proc, th_arg := arg\<rparr>)\<rparr>;
                 (rc, tid, w) = pthread_create api rec w;
                 s = s\<lparr>os_threads := (os_threads s)(rec := (os_threads s rec)\<lparr>th_thread := tid\<rparr>),
                       os_world := pthread_attr_destroy api w\<rparr>
             in (if rc \<noteq> 0 then PJ_RETURN_OS_ERROR rc else PJ_SUCCESS, s))"

definition pj_thread_create ::
  "'w pthread_api \<Rightarrow> nat \<Rightarrow> u8 list option \<Rightarrow> nat \<Rightarrow> nat \<Rightarrow> u32 \<Rightarrow> u32 \<Rightarrow> 'w os_state \<Rightarrow> (pj_status_t + nat) \<times> 'w os_state" where
  "pj_thread_create api pool name proc arg stack_size flags s =
     (if pool = 0 \<or> proc = 0 then (Inl PJ_EINVAL, s)
      else (case api_alloc api pool (os_world s) of (rec, w) \<Rightarrow>
        if rec = 0 then (Inl PJ_ENOMEM, s\<lparr>os_world := w\<rparr>)
        else
          let s = s\<lparr>os_world := w, os_threads := (os_threads s)(rec := zero_thread)\<rparr>;
              suspended = (flags AND PJ_THREAD_SUSPENDED \<noteq> 0)
          in case (if suspended then pj_mutex_create_simple api pool None (os_world s) else (Inr 0, os_world s)) of
               (Inl rc, w) \<Rightarrow> (Inl rc, s\<lparr>os_world := w\<rparr>)
             | (Inr m, w) \<Rightarrow>
                 let s = s\<lparr>os_threads := (os_threads s)(rec := (os_threads s rec)\<lparr>th_suspended_mutex := m\<rparr>),
                           os_world := (if suspended then snd (pj_mutex_lock api m w) else w)\<rparr>
                 in (case create_thread api name proc arg stack_size rec s of (status, s) \<Rightarrow>
                       (if status = PJ_SUCCESS then Inr rec else Inl status, s))))"

definition pj_thread_create2 ::
  "'w pthread_api \<Rightarrow> nat \<Rightarrow> u8 list option \<Rightarrow> nat \<Rightarrow> nat \<Rightarrow> u32 \<Rightarrow> nat \<Rightarrow> 'w os_state \<Rightarrow> pj_status_t \<times> 'w os_state" where
  "pj_thread_create2 api current name proc arg stack_size thread s =
     (if proc = 0 \<or> thread = 0 then (PJ_EINVAL, s)
      else if thread = pj_thread_this current s then (PJ_ECANCELLED, s)
      else create_thread api name proc arg stack_size thread s)"

definition pj_thread_resume :: "'w pthread_api \<Rightarrow> nat \<Rightarrow> 'w os_state \<Rightarrow> pj_status_t \<times> 'w os_state" where
  "pj_thread_resume api p s =
     (if p = 0 then (PJ_EINVAL, s)
      else (case pj_mutex_unlock api (th_suspended_mutex (os_threads s p)) (os_world s) of (rc, w) \<Rightarrow>
        (rc, s\<lparr>os_world := w\<rparr>)))"

definition pj_thread_join :: "'w pthread_api \<Rightarrow> nat \<Rightarrow> nat \<Rightarrow> 'w os_state \<Rightarrow> pj_status_t \<times> 'w os_state" where
  "pj_thread_join api current p s =
     (if p = pj_thread_this current s then (PJ_ECANCELLED, s)
      else (case pthread_join api (th_thread (os_threads s p)) (os_world s) of (result, w) \<Rightarrow>
        (if result = 0 \<or> result = ESRCH api then PJ_SUCCESS else PJ_RETURN_OS_ERROR result, s\<lparr>os_world := w\<rparr>)))"

definition pj_thread_get_name :: "nat \<Rightarrow> 'w os_state \<Rightarrow> u8 list" where
  "pj_thread_get_name p s = (if p = 0 then [] else th_obj_name (os_threads s p))"

end
