(* ===== verification/Pj_Thread_Props.thy ===== *)
theory Pj_Thread_Props
  imports Pj_Thread
begin

text \<open>
  The thread registry on the thread local storage: what registration and unregistration do to the
  calling thread and to all others, and what a full table means for a thread of the library.
\<close>

section \<open>The registry\<close>

definition key_valid :: "'w os_state \<Rightarrow> bool" where
  "key_valid s \<longleftrightarrow> tls_inv (os_tls s) \<and> 0 \<le> os_thread_tls_id s \<and> os_thread_tls_id s < 32 \<and>
     bit (tls_keys (os_tls s)) (nat (os_thread_tls_id s))"

definition threads_known :: "'w os_state \<Rightarrow> nat set" where
  "threads_known s = set (tids (tls_threads (os_tls s)))"

lemma room_iff:
  "key_valid s \<Longrightarrow> room t (os_tls s) \<longleftrightarrow> t \<in> threads_known s \<or> card (threads_known s) < 16"
  by (simp add: room_def threads_known_def key_valid_def distinct_card tls_invD(4))

lemma set_succeeds:
  assumes "key_valid s" and "t \<noteq> 0"
  shows "fst (pj_thread_local_set t (os_thread_tls_id s) v (os_tls s)) = (if room t (os_tls s) then PJ_SUCCESS else PJ_ETOOMANY)"
proof -
  have i: "tls_inv (os_tls s)" using assms(1) by (simp add: key_valid_def)
  show ?thesis using i assms(2)
    by (cases rule: set_cases [where index = "os_thread_tls_id s" and v = v])
      (use assms(1) in \<open>auto simp: key_valid_def\<close>)
qed

lemma set_tids_after:
  assumes "tls_inv tls" and "t \<noteq> 0"
  shows "set (tids (tls_threads (snd (pj_thread_local_set t k v tls)))) =
    (if fst (pj_thread_local_set t k v tls) = PJ_SUCCESS then insert t (set (tids (tls_threads tls))) else set (tids (tls_threads tls)))"
  using assms
proof (cases rule: set_cases [where index = k and v = v])
  case (stored us e vs)
  then have "distinct (tids (us @ e # vs))" "tt_thread e = t \<or> tt_thread e = 0 \<and> t \<notin> set (tids (us @ e # vs))"
    using tls_invD(4) [OF assms(1)] by (simp_all del: tids_simps)
  from stored_distinct(2) [OF this(1) assms(2) this(2)] show ?thesis using stored(5,7) by (simp del: tids_simps)
qed (simp_all add: pj_status)

lemma set_key_valid:
  assumes "key_valid s" and "t \<noteq> 0"
  shows "key_valid (s\<lparr>os_tls := snd (pj_thread_local_set t (os_thread_tls_id s) v (os_tls s))\<rparr>)"
proof -
  have "tls_keys (snd (pj_thread_local_set t k v tls)) = tls_keys tls" for k tls
    by (auto simp: pj_thread_local_set_def Let_def split: option.splits)
  then show ?thesis using assms set_keeps_inv by (auto simp: key_valid_def)
qed

lemma register_form:
  assumes "key_valid s" and "t \<noteq> 0" and "room t (os_tls s)"
  obtains tls thread where "pj_thread_register api self t name desc s =
      (Inr desc, s\<lparr>os_threads := (os_threads s)(desc := thread), os_tls := tls\<rparr>)"
    "pj_thread_local_set t (os_thread_tls_id s) desc (os_tls s) = (PJ_SUCCESS, tls)"
    "th_suspended_mutex thread = 0" "th_thread thread = self" "th_signature1 thread = SIGNATURE1" "th_signature2 thread = SIGNATURE2"
    "key_valid (s\<lparr>os_threads := (os_threads s)(desc := thread), os_tls := tls\<rparr>)"
proof -
  obtain tls where p: "pj_thread_local_set t (os_thread_tls_id s) desc (os_tls s) = (PJ_SUCCESS, tls)"
    using set_succeeds [OF assms(1,2), of desc] assms(3)
    by (cases "pj_thread_local_set t (os_thread_tls_id s) desc (os_tls s)") simp
  let ?th = "zero_thread\<lparr>th_thread := self, th_signature1 := SIGNATURE1, th_signature2 := SIGNATURE2,
            th_obj_name := thread_name api self name\<rparr>"
  have "key_valid (s\<lparr>os_threads := (os_threads s)(desc := ?th), os_tls := tls\<rparr>)"
    using set_key_valid [OF assms(1,2), of desc] p by (simp add: key_valid_def)
  then show thesis
    using that [of tls ?th] p by (simp add: pj_thread_register_def Let_def zero_thread_def)
qed

text \<open>The first registration: the library's initialisation on the static state.\<close>

lemma thread_init_static:
  assumes "t \<noteq> 0" and "os_tls s = zephyr_tls_static" and "desc \<noteq> 0"
  shows "\<exists>s'. pj_thread_init api self t desc s = (PJ_SUCCESS, s') \<and> key_valid s' \<and> pj_thread_this t s' = desc \<and>
    threads_known s' = {t}"
proof -
  let ?tls = "renew 0 (tls_keys zephyr_tls_static OR push_bit 0 1) zephyr_tls_static"
  let ?s = "s\<lparr>os_thread_tls_id := 0, os_tls := ?tls\<rparr>"
  have al: "pj_thread_local_alloc (os_tls s) = Inr (0, ?tls)"
    unfolding pj_thread_local_alloc_def assms(2) by (subst alloc_from_spec) (simp_all add: zephyr_tls_static_def upt_rec)
  have r: "tls_rel 1 ?tls (snd (abs_call t Alloc abs_empty))"
    using sim_alloc [OF tls_rel_start, of t] al assms(2) by simp
  have no: "tids (tls_threads ?tls) = []"
    using tls_relD(3) [OF r] by (simp add: abs_empty_def upt_rec)
  have kv: "key_valid ?s" using tls_relD(1) [OF r] by (simp add: key_valid_def renew_def zephyr_tls_static_def bit_0)
  have rm: "room t (os_tls ?s)" using no by (simp add: room_def)
  obtain tls th where g: "pj_thread_register api self t (Some [116, 104, 114, 37, 112]) desc ?s =
      (Inr desc, ?s\<lparr>os_threads := (os_threads ?s)(desc := th), os_tls := tls\<rparr>)"
    "pj_thread_local_set t (os_thread_tls_id ?s) desc (os_tls ?s) = (PJ_SUCCESS, tls)"
    "key_valid (?s\<lparr>os_threads := (os_threads ?s)(desc := th), os_tls := tls\<rparr>)"
    using register_form [OF kv assms(1) rm] by metis
  have "pj_thread_local_get t 0 tls = desc"
    using set_then_get [OF tls_relD(1) [OF r] assms(1) assms(1), of 0 desc tls 0] g(2) by simp
  moreover have "set (tids (tls_threads tls)) = {t}"
    using sim_set [OF r assms(1), of 0 desc] g(2) no
    by (auto simp: tls_rel_def abs_empty_def upt_rec valid_key_def)
  ultimately show ?thesis using al g(1,3) by (auto simp: pj_thread_init_def pj_thread_this_def threads_known_def)
qed

lemma unregister_clears:
  assumes kv: "key_valid s" and t: "t \<noteq> 0" and k: "t \<in> threads_known s" and r: "pj_thread_this t s \<noteq> 0"
  shows "\<exists>s'. pj_thread_unregister api t s = (PJ_SUCCESS, s') \<and> key_valid s' \<and> threads_known s' = threads_known s - {t} \<and>
    (\<forall>t'. t' \<noteq> 0 \<longrightarrow> pj_thread_this t' s' = (if t' = t then 0 else pj_thread_this t' s))"
proof -
  let ?p = "pj_thread_this t s" and ?id = "os_thread_tls_id s"
  define s1 where "s1 = snd (pj_thread_destroy api ?p s)"
  have d: "pj_thread_destroy api ?p s = (PJ_SUCCESS, s1)" "os_tls s1 = os_tls s" "os_thread_tls_id s1 = ?id"
    using r by (simp_all add: s1_def pj_thread_destroy_def Let_def)
  have inv: "tls_inv (os_tls s)" using kv by (simp add: key_valid_def)
  have rm: "room t (os_tls s)" using room_iff [OF kv] k by blast
  define tls where "tls = snd (pj_thread_local_set t ?id 0 (os_tls s))"
  have p: "pj_thread_local_set t ?id 0 (os_tls s) = (PJ_SUCCESS, tls)"
    using set_succeeds [OF kv t, of 0] rm by (simp add: tls_def prod_eq_iff)
  have c: "pj_thread_unregister api t s = (PJ_SUCCESS, s1\<lparr>os_tls := zephyr_tls_clear_thread t tls\<rparr>)"
    using r p d by (simp add: pj_thread_unregister_def Let_def)
  have kv2: "key_valid (s\<lparr>os_tls := tls\<rparr>)" using set_key_valid [OF kv t, of 0] by (simp add: tls_def)
  then have "key_valid (s1\<lparr>os_tls := zephyr_tls_clear_thread t tls\<rparr>)"
    using clear_keeps_inv(1) [of tls t] t d by (auto simp: key_valid_def zephyr_tls_clear_thread_def)
  moreover have "threads_known (s1\<lparr>os_tls := zephyr_tls_clear_thread t tls\<rparr>) = threads_known s - {t}"
    using clear_keeps_inv(3) [of tls t] kv2 t set_tids_after [OF inv t, of ?id 0] by (auto simp: threads_known_def key_valid_def tls_def)
  moreover have "pj_thread_this t' (s1\<lparr>os_tls := zephyr_tls_clear_thread t tls\<rparr>) = (if t' = t then 0 else pj_thread_this t' s)" if "t' \<noteq> 0" for t'
    using ztls.put_clear(2) [OF inv t that] d by (simp add: pj_thread_this_def tls_def)
  ultimately show ?thesis using c by blast
qed

text \<open>A full table does not keep a thread of the library from running: it then runs without a
  descriptor, and asking for the current thread gives the null pointer.\<close>

lemma thread_main_full:
  assumes "key_valid s" and "t \<noteq> 0" and "t \<notin> threads_known s" and "card (threads_known s) = 16"
  shows "\<exists>s1. thread_main api self t proc rec s =
      (case proc (th_proc (os_threads s1 rec)) (th_arg (os_threads s1 rec)) s1 of (result, s2) \<Rightarrow>
        (result, s2\<lparr>os_tls := zephyr_tls_clear_thread t (os_tls s2)\<rparr>)) \<and> pj_thread_this t s1 = 0"
proof -
  have inv: "tls_inv (os_tls s)" using assms(1) by (simp add: key_valid_def)
  have nr: "\<not> room t (os_tls s)" using room_iff [OF assms(1), of t] assms(3,4) by simp
  have e: "pj_thread_local_set t (os_thread_tls_id s) rec (os_tls s) = (PJ_ETOOMANY, os_tls s)"
    using set_refused [OF inv assms(2) _ _ _ nr] assms(1) by (simp add: key_valid_def)
  have z: "pj_thread_local_get t (os_thread_tls_id s) (os_tls s) = 0"
    using get_absent [OF assms(2), of "tls_threads (os_tls s)"] assms(1,3) by (simp add: threads_known_def key_valid_def get_eq)
  define s1 where "s1 = s\<lparr>os_threads := (os_threads s)(rec := (os_threads s rec)\<lparr>th_thread := self\<rparr>)\<rparr>"
  define m where "m = th_suspended_mutex (os_threads s rec)"
  let ?s = "if m \<noteq> 0 then s1\<lparr>os_world := snd (pj_mutex_unlock api m (snd (pj_mutex_lock api m (os_world s))))\<rparr> else s1"
  show ?thesis
    by (rule exI [of _ ?s]) (simp add: thread_main_def Let_def e z pj_thread_this_def s1_def m_def)
qed

section \<open>Properties\<close>

text \<open>C18: the storage table of the port behaves like one value per key and thread: for every sequence of
  calls by any threads, shorter than the generation counters can count, allocations, releases,
  writes, reads and thread exits give exactly the outcomes of the specification. In particular a
  key that was freed and allocated again reads as null in every thread.\<close>

theorem tls_run_refines:
  assumes "length cs < 2 ^ 32" and "list_all (\<lambda>(t, c). t \<noteq> 0) cs"
  shows "results do_call cs zephyr_tls_static = results abs_call cs abs_empty"
  by (rule sim_results [OF tls_rel_start]) (use assms in \<open>auto simp: list_all_iff\<close>)

theorem tls_run_refines_witness:
  "results do_call [(1, Alloc), (1, Set 0 5), (2, Get 0), (1, Get 0), (1, Free 0), (2, Alloc), (1, Get 0)] zephyr_tls_static =
    [Allocated (Inr 0), Status PJ_SUCCESS, Value 0, Value 5, Done, Allocated (Inr 0), Value 0]"
  by (subst tls_run_refines) (simp_all add: abs_empty_def valid_key_def upt_rec)

text \<open>A registration succeeds exactly when the thread has an entry already or fewer than 16 threads
  do; then the library knows the thread by the given descriptor and every other thread as before,
  and unregistering takes exactly this thread out of the table. When the table is full the
  registration fails with no effect but a zeroed descriptor.\<close>

theorem thread_register_exact:
  assumes kv: "key_valid s" and t: "t \<noteq> 0" and d: "desc \<noteq> 0"
  shows "if t \<in> threads_known s \<or> card (threads_known s) < 16
    then \<exists>s1 s2. pj_thread_register api self t name desc s = (Inr desc, s1) \<and> key_valid s1 \<and>
      th_signature1 (os_threads s1 desc) = SIGNATURE1 \<and> th_thread (os_threads s1 desc) = self \<and>
      threads_known s1 = insert t (threads_known s) \<and>
      (\<forall>t'. t' \<noteq> 0 \<longrightarrow> pj_thread_this t' s1 = (if t' = t then desc else pj_thread_this t' s)) \<and>
      pj_thread_unregister api t s1 = (PJ_SUCCESS, s2) \<and> key_valid s2 \<and>
      threads_known s2 = threads_known s - {t} \<and>
      (\<forall>t'. t' \<noteq> 0 \<longrightarrow> pj_thread_this t' s2 = (if t' = t then 0 else pj_thread_this t' s))
    else pj_thread_register api self t name desc s =
      (Inl PJ_ETOOMANY, s\<lparr>os_threads := (os_threads s)(desc := zero_thread)\<rparr>)"
proof (cases "room t (os_tls s)")
  case True
  have inv: "tls_inv (os_tls s)" using kv by (simp add: key_valid_def)
  obtain tls th where g: "pj_thread_register api self t name desc s = (Inr desc, s\<lparr>os_threads := (os_threads s)(desc := th), os_tls := tls\<rparr>)"
    "pj_thread_local_set t (os_thread_tls_id s) desc (os_tls s) = (PJ_SUCCESS, tls)" "th_thread th = self" "th_signature1 th = SIGNATURE1"
    "key_valid (s\<lparr>os_threads := (os_threads s)(desc := th), os_tls := tls\<rparr>)"
    using register_form [OF kv t True] by metis
  let ?s1 = "s\<lparr>os_threads := (os_threads s)(desc := th), os_tls := tls\<rparr>"
  have th: "pj_thread_this t' ?s1 = (if t' = t then desc else pj_thread_this t' s)" if "t' \<noteq> 0" for t'
    using set_then_get [OF inv t that g(2)] by (simp add: pj_thread_this_def)
  have kn: "threads_known ?s1 = insert t (threads_known s)"
    using set_tids_after [OF inv t, of "os_thread_tls_id s" desc] g(2) by (simp add: threads_known_def)
  have this1: "pj_thread_this t ?s1 \<noteq> 0" using th [OF t] d by simp
  obtain s2 where u: "pj_thread_unregister api t ?s1 = (PJ_SUCCESS, s2)" "key_valid s2" "threads_known s2 = threads_known ?s1 - {t}"
    "\<forall>t'. t' \<noteq> 0 \<longrightarrow> pj_thread_this t' s2 = (if t' = t then 0 else pj_thread_this t' ?s1)"
    using unregister_clears [OF g(5) t _ this1] kn by blast
  have "\<forall>t'. t' \<noteq> 0 \<longrightarrow> pj_thread_this t' s2 = (if t' = t then 0 else pj_thread_this t' s)" using u(4) th by simp
  then show ?thesis using True room_iff [OF kv, of t] g u(1-3) kn th by auto
next
  case False
  have "pj_thread_local_set t (os_thread_tls_id s) desc (os_tls s) = (PJ_ETOOMANY, os_tls s)"
    using set_refused [OF _ t _ _ _ False] kv by (simp add: key_valid_def)
  then show ?thesis using False room_iff [OF kv, of t] by (simp add: pj_thread_register_def Let_def pj_status)
qed

theorem thread_register_exact_witness:
  "\<forall>api :: unit pthread_api. \<exists>s s1. pj_thread_init api 7 1 100
       \<lparr>os_tls = zephyr_tls_static, os_thread_tls_id = 0, os_threads = (\<lambda>_. zero_thread), os_world = ()\<rparr> = (PJ_SUCCESS, s) \<and>
     pj_thread_register api 8 2 None 200 s = (Inr 200, s1) \<and> pj_thread_this 2 s1 = 200 \<and> pj_thread_this 1 s1 = 100"
proof
  fix api :: "unit pthread_api"
  obtain s where i: "pj_thread_init api 7 1 100
       \<lparr>os_tls = zephyr_tls_static, os_thread_tls_id = 0, os_threads = (\<lambda>_. zero_thread), os_world = ()\<rparr> = (PJ_SUCCESS, s)"
    "key_valid s" "pj_thread_this 1 s = 100" "threads_known s = {1}"
    using thread_init_static [of 1 "\<lparr>os_tls = zephyr_tls_static, os_thread_tls_id = 0, os_threads = (\<lambda>_. zero_thread), os_world = ()\<rparr>" 100 api 7]
    by auto
  show "\<exists>s s1. pj_thread_init api 7 1 100
       \<lparr>os_tls = zephyr_tls_static, os_thread_tls_id = 0, os_threads = (\<lambda>_. zero_thread), os_world = ()\<rparr> = (PJ_SUCCESS, s) \<and>
     pj_thread_register api 8 2 None 200 s = (Inr 200, s1) \<and> pj_thread_this 2 s1 = 200 \<and> pj_thread_this 1 s1 = 100"
    using thread_register_exact [OF i(2), of 2 200 api 8 None] i by auto
qed

end
