(* ===== verification/Pj_Lock.thy ===== *)
theory Pj_Lock
  imports Pj_Mutex
begin

text \<open>
  Lock objects and group locks, \<^verbatim>\<open>pjlib/src/pj/lock.c\<close>, without the debugging of group locks.
  A lock is a table of functions on an object; a group lock acquires several locks in the order
  of their priorities, counts references, and is destroyed with its handlers called when the
  last reference goes. Locks, pools and components are named by address, zero the null pointer;
  the calling thread is part of the environment of a call.
\<close>

section \<open>Lock objects\<close>

record 'w pj_lock_t =
  lk_object :: nat
  lk_acquire :: "nat \<Rightarrow> 'w \<Rightarrow> pj_status_t \<times> 'w"
  lk_tryacquire :: "nat \<Rightarrow> 'w \<Rightarrow> pj_status_t \<times> 'w"
  lk_release :: "nat \<Rightarrow> 'w \<Rightarrow> pj_status_t \<times> 'w"
  lk_destroy :: "nat \<Rightarrow> 'w \<Rightarrow> pj_status_t \<times> 'w"

definition mutex_lock_template :: "'w pthread_api \<Rightarrow> 'w pj_lock_t" where
  "mutex_lock_template api = \<lparr>lk_object = 0, lk_acquire = pj_mutex_lock api, lk_tryacquire = pj_mutex_trylock api,
     lk_release = pj_mutex_unlock api, lk_destroy = pj_mutex_destroy api\<rparr>"

text \<open>The new lock is returned with its address.\<close>

definition create_mutex_lock ::
  "'w pthread_api \<Rightarrow> nat \<Rightarrow> u8 list option \<Rightarrow> int \<Rightarrow> 'w \<Rightarrow> (pj_status_t + nat \<times> 'w pj_lock_t) \<times> 'w" where
  "create_mutex_lock api pool name type w =
     (if pool = 0 then (Inl PJ_EINVAL, w)
      else (case api_alloc api pool w of (p_lock, w) \<Rightarrow>
        if p_lock = 0 then (Inl PJ_ENOMEM, w)
        else (case pj_mutex_create api pool name type w of
            (Inl rc, w) \<Rightarrow> (Inl rc, w)
          | (Inr mutex, w) \<Rightarrow> (Inr (p_lock, (mutex_lock_template api)\<lparr>lk_object := mutex\<rparr>), w))))"

definition pj_lock_create_simple_mutex ::
  "'w pthread_api \<Rightarrow> nat \<Rightarrow> u8 list option \<Rightarrow> 'w \<Rightarrow> (pj_status_t + nat \<times> 'w pj_lock_t) \<times> 'w" where
  "pj_lock_create_simple_mutex api pool name = create_mutex_lock api pool name PJ_MUTEX_SIMPLE"

definition pj_lock_create_recursive_mutex ::
  "'w pthread_api \<Rightarrow> nat \<Rightarrow> u8 list option \<Rightarrow> 'w \<Rightarrow> (pj_status_t + nat \<times> 'w pj_lock_t) \<times> 'w" where
  "pj_lock_create_recursive_mutex api pool name = create_mutex_lock api pool name PJ_MUTEX_RECURSE"

definition null_op :: "nat \<Rightarrow> 'w \<Rightarrow> pj_status_t \<times> 'w" where
  "null_op arg w = (PJ_SUCCESS, w)"

definition null_lock_template :: "'w pj_lock_t" where
  "null_lock_template = \<lparr>lk_object = 0, lk_acquire = null_op, lk_tryacquire = null_op, lk_release = null_op, lk_destroy = null_op\<rparr>"

definition pj_lock_create_null_mutex :: "'w \<Rightarrow> (pj_status_t + 'w pj_lock_t) \<times> 'w" where
  "pj_lock_create_null_mutex w = (Inr null_lock_template, w)"

text \<open>The semaphore objects by address.\<close>

definition sem_lock_template :: "'w pthread_api \<Rightarrow> (nat \<Rightarrow> pj_sem_t) \<Rightarrow> 'w pj_lock_t" where
  "sem_lock_template api sems = \<lparr>lk_object = 0, lk_acquire = (\<lambda>obj. pj_sem_wait api (sems obj)),
     lk_tryacquire = (\<lambda>obj. pj_sem_trywait api (sems obj)), lk_release = (\<lambda>obj. pj_sem_post api (sems obj)),
     lk_destroy = (\<lambda>obj. pj_sem_destroy api (sems obj))\<rparr>"

definition pj_lock_create_semaphore ::
  "'w pthread_api \<Rightarrow> (nat \<Rightarrow> pj_sem_t) \<Rightarrow> nat \<Rightarrow> u8 list option \<Rightarrow> u32 \<Rightarrow> u32 \<Rightarrow> 'w
     \<Rightarrow> (pj_status_t + nat \<times> 'w pj_lock_t \<times> (nat \<Rightarrow> pj_sem_t)) \<times> 'w" where
  "pj_lock_create_semaphore api sems pool name initial max_cnt w =
     (if pool = 0 then (Inl PJ_EINVAL, w)
      else (case api_alloc api pool w of (p_lock, w) \<Rightarrow>
        if p_lock = 0 then (Inl PJ_ENOMEM, w)
        else (case pj_sem_create api pool name initial max_cnt w of
            (Inl rc, w) \<Rightarrow> (Inl rc, w)
          | (Inr (sem, obj), w) \<Rightarrow>
              let sems = sems(sem := obj)
              in (Inr (p_lock, (sem_lock_template api sems)\<lparr>lk_object := sem\<rparr>, sems), w))))"

text \<open>The lock objects by address.\<close>

type_synonym 'w locks = "nat \<Rightarrow> 'w pj_lock_t"

definition pj_lock_acquire :: "'w locks \<Rightarrow> nat \<Rightarrow> 'w \<Rightarrow> pj_status_t \<times> 'w" where
  "pj_lock_acquire L lock w = (if lock = 0 then (PJ_EINVAL, w) else lk_acquire (L lock) (lk_object (L lock)) w)"

definition pj_lock_tryacquire :: "'w locks \<Rightarrow> nat \<Rightarrow> 'w \<Rightarrow> pj_status_t \<times> 'w" where
  "pj_lock_tryacquire L lock w = (if lock = 0 then (PJ_EINVAL, w) else lk_tryacquire (L lock) (lk_object (L lock)) w)"

definition pj_lock_release :: "'w locks \<Rightarrow> nat \<Rightarrow> 'w \<Rightarrow> pj_status_t \<times> 'w" where
  "pj_lock_release L lock w = (if lock = 0 then (PJ_EINVAL, w) else lk_release (L lock) (lk_object (L lock)) w)"

definition pj_lock_destroy :: "'w locks \<Rightarrow> nat \<Rightarrow> 'w \<Rightarrow> pj_status_t \<times> 'w" where
  "pj_lock_destroy L lock w = (if lock = 0 then (PJ_EINVAL, w) else lk_destroy (L lock) (lk_object (L lock)) w)"

section \<open>Group locks\<close>

record grp_lock_item =
  li_prio :: int
  li_lock :: nat

record grp_destroy_callback =
  cb_comp :: nat
  cb_handler :: nat

record pj_grp_lock_t =
  gl_pool :: nat
  gl_ref_cnt :: pj_atomic_t
  gl_own_lock :: nat
  gl_owner :: nat
  gl_owner_cnt :: int
  gl_lock_list :: "grp_lock_item list"
  gl_destroy_list :: "grp_destroy_callback list"

text \<open>What a call of a group lock uses: the locks, the zeroed allocation of a list node from a pool,
  the release of a pool and its name, the destroy handlers, and the calling thread as the library
  knows it.\<close>

record 'w grp_env =
  ge_locks :: "'w locks"
  ge_alloc :: "nat \<Rightarrow> 'w \<Rightarrow> nat \<times> 'w"
  ge_pool_release :: "nat \<Rightarrow> 'w \<Rightarrow> 'w"
  ge_handler :: "nat \<Rightarrow> nat \<Rightarrow> 'w \<Rightarrow> 'w"
  ge_this :: nat
  ge_pool_name :: "nat \<Rightarrow> u8 list"

definition PJ_EGONE :: pj_status_t where "PJ_EGONE = PJ_ERRNO_START_STATUS + 23"

definition grp_lock_set_owner_thread :: "'w grp_env \<Rightarrow> pj_grp_lock_t \<Rightarrow> pj_grp_lock_t" where
  "grp_lock_set_owner_thread env g =
     (if gl_owner g = 0 then g\<lparr>gl_owner := ge_this env, gl_owner_cnt := 1\<rparr>
      else g\<lparr>gl_owner_cnt := gl_owner_cnt g + 1\<rparr>)"

definition grp_lock_unset_owner_thread :: "pj_grp_lock_t \<Rightarrow> pj_grp_lock_t" where
  "grp_lock_unset_owner_thread g =
     (let g = g\<lparr>gl_owner_cnt := gl_owner_cnt g - 1\<rparr>
      in if gl_owner_cnt g \<le> 0 then g\<lparr>gl_owner := 0, gl_owner_cnt := 0\<rparr> else g)"

text \<open>The loops over the lock list; releasing walks it backwards.\<close>

fun acquire_all :: "'w locks \<Rightarrow> nat list \<Rightarrow> 'w \<Rightarrow> 'w" where
  "acquire_all L [] w = w"
| "acquire_all L (l # ls) w = acquire_all L ls (snd (pj_lock_acquire L l w))"

fun release_all :: "'w locks \<Rightarrow> nat list \<Rightarrow> 'w \<Rightarrow> 'w" where
  "release_all L [] w = w"
| "release_all L (l # ls) w = release_all L ls (snd (pj_lock_release L l w))"

fun try_all :: "'w locks \<Rightarrow> nat list \<Rightarrow> nat list \<Rightarrow> 'w \<Rightarrow> pj_status_t \<times> 'w" where
  "try_all L prevs [] w = (PJ_SUCCESS, w)"
| "try_all L prevs (l # ls) w =
     (case pj_lock_tryacquire L l w of (status, w) \<Rightarrow>
        if status \<noteq> PJ_SUCCESS then (status, release_all L prevs w) else try_all L (l # prevs) ls w)"

definition lock_ptrs :: "pj_grp_lock_t \<Rightarrow> nat list" where
  "lock_ptrs g = map li_lock (gl_lock_list g)"

definition grp_lock_add_ref :: "pj_grp_lock_t \<Rightarrow> pj_grp_lock_t" where
  "grp_lock_add_ref g = g\<lparr>gl_ref_cnt := pj_atomic_inc (gl_ref_cnt g)\<rparr>"

definition grp_lock_acquire :: "'w grp_env \<Rightarrow> pj_grp_lock_t \<times> 'w \<Rightarrow> pj_status_t \<times> pj_grp_lock_t \<times> 'w" where
  "grp_lock_acquire env gw =
     (case gw of (g, w) \<Rightarrow>
        let w = acquire_all (ge_locks env) (lock_ptrs g) w
        in (PJ_SUCCESS, grp_lock_add_ref (grp_lock_set_owner_thread env g), w))"

definition grp_lock_tryacquire :: "'w grp_env \<Rightarrow> pj_grp_lock_t \<times> 'w \<Rightarrow> pj_status_t \<times> pj_grp_lock_t \<times> 'w" where
  "grp_lock_tryacquire env gw =
     (case gw of (g, w) \<Rightarrow>
        case try_all (ge_locks env) [] (lock_ptrs g) w of (status, w) \<Rightarrow>
          if status \<noteq> PJ_SUCCESS then (status, g, w)
          else (PJ_SUCCESS, grp_lock_add_ref (grp_lock_set_owner_thread env g), w))"

text \<open>Destruction releases the chained locks as often as the group lock is held, runs the handlers
  in order, and gives up the own lock and the pool.\<close>

fun release_times :: "'w locks \<Rightarrow> nat \<Rightarrow> nat \<Rightarrow> 'w \<Rightarrow> 'w" where
  "release_times L l 0 w = w"
| "release_times L l (Suc n) w = release_times L l n (snd (pj_lock_release L l w))"

fun acquire_times :: "'w locks \<Rightarrow> nat \<Rightarrow> nat \<Rightarrow> 'w \<Rightarrow> 'w" where
  "acquire_times L l 0 w = w"
| "acquire_times L l (Suc n) w = acquire_times L l n (snd (pj_lock_acquire L l w))"

fun release_chained :: "'w locks \<Rightarrow> nat \<Rightarrow> nat \<Rightarrow> nat list \<Rightarrow> 'w \<Rightarrow> 'w" where
  "release_chained L own n [] w = w"
| "release_chained L own n (l # ls) w = release_chained L own n ls (if l \<noteq> own then release_times L l n w else w)"

fun call_handlers :: "(nat \<Rightarrow> nat \<Rightarrow> 'w \<Rightarrow> 'w) \<Rightarrow> grp_destroy_callback list \<Rightarrow> 'w \<Rightarrow> 'w" where
  "call_handlers h [] w = w"
| "call_handlers h (cb # cbs) w = call_handlers h cbs (h (cb_handler cb) (cb_comp cb) w)"

definition grp_lock_destroy :: "'w grp_env \<Rightarrow> pj_grp_lock_t \<times> 'w \<Rightarrow> pj_status_t \<times> pj_grp_lock_t \<times> 'w" where
  "grp_lock_destroy env gw =
     (case gw of (g, w) \<Rightarrow>
        if gl_pool g = 0 then (PJ_EINVAL, g, w)
        else
          let w = release_chained (ge_locks env) (gl_own_lock g) (nat (gl_owner_cnt g)) (lock_ptrs g) w;
              w = call_handlers (ge_handler env) (gl_destroy_list g) w;
              w = snd (pj_lock_destroy (ge_locks env) (gl_own_lock g) w)
          in (PJ_SUCCESS, g\<lparr>gl_pool := 0\<rparr>, ge_pool_release env (gl_pool g) w))"

definition grp_lock_dec_ref :: "'w grp_env \<Rightarrow> pj_grp_lock_t \<times> 'w \<Rightarrow> pj_status_t \<times> pj_grp_lock_t \<times> 'w" where
  "grp_lock_dec_ref env gw =
     (case gw of (g, w) \<Rightarrow>
        case pj_atomic_dec_and_get (gl_ref_cnt g) of (cnt, ref_cnt) \<Rightarrow>
          let g = g\<lparr>gl_ref_cnt := ref_cnt\<rparr>
          in if cnt = 0 then (PJ_EGONE, snd (grp_lock_destroy env (g, w))) else (PJ_SUCCESS, g, w))"

definition grp_lock_release :: "'w grp_env \<Rightarrow> pj_grp_lock_t \<times> 'w \<Rightarrow> pj_status_t \<times> pj_grp_lock_t \<times> 'w" where
  "grp_lock_release env gw =
     (case gw of (g, w) \<Rightarrow>
        let g = grp_lock_unset_owner_thread g;
            w = release_all (ge_locks env) (rev (lock_ptrs g)) w
        in grp_lock_dec_ref env (g, w))"

text \<open>An operation that takes a node from a pool is undefined, \<open>None\<close>, when the pool has none: the
  code uses the null pointer.\<close>

definition grp_lock_add_handler ::
  "'w grp_env \<Rightarrow> nat \<Rightarrow> nat \<Rightarrow> nat \<Rightarrow> bool \<Rightarrow> pj_grp_lock_t \<times> 'w \<Rightarrow> (pj_status_t \<times> pj_grp_lock_t \<times> 'w) option" where
  "grp_lock_add_handler env pool cmp destroy acquire_lock gw =
     (let (g, w) = (if acquire_lock then snd (grp_lock_acquire env gw) else gw);
          pool = (if pool = 0 then gl_pool g else pool);
          (cb, w) = ge_alloc env pool w
      in if cb = 0 then None
         else let g = g\<lparr>gl_destroy_list := gl_destroy_list g @ [\<lparr>cb_comp = cmp, cb_handler = destroy\<rparr>]\<rparr>
              in Some (PJ_SUCCESS, if acquire_lock then snd (grp_lock_release env (g, w)) else (g, w)))"

text \<open>Creation: the new pool comes from the factory of the given one. On failure what was made is
  destroyed again.\<close>

definition pj_grp_lock_create ::
  "'w grp_env \<Rightarrow> 'w pthread_api \<Rightarrow> (nat \<Rightarrow> 'w \<Rightarrow> nat \<times> 'w) \<Rightarrow> nat \<Rightarrow> 'w
     \<Rightarrow> ((pj_status_t + pj_grp_lock_t \<times> 'w pj_lock_t) \<times> 'w) option" where
  "pj_grp_lock_create env api pool_create pool w =
     (if pool = 0 then Some (Inl PJ_EINVAL, w)
      else
        let (pool, w) = pool_create pool w
        in if pool = 0 then Some (Inl PJ_ENOMEM, w)
           else
             let (glock, w) = ge_alloc env pool w;
                 g = \<lparr>gl_pool = pool, gl_ref_cnt = 0, gl_own_lock = 0, gl_owner = 0, gl_owner_cnt = 0, gl_lock_list = [], gl_destroy_list = []\<rparr>
             in if glock = 0 then None
                else
                  let (ref_cnt, w) = ge_alloc env pool w
                  in if ref_cnt = 0 then Some (Inl PJ_ENOMEM, snd (snd (grp_lock_destroy env (g, w))))
                     else (case pj_lock_create_recursive_mutex api pool (Some (ge_pool_name env pool)) w of
                         (Inl status, w) \<Rightarrow> Some (Inl status, snd (snd (grp_lock_destroy env (g, w))))
                       | (Inr (own_lock, lock), w) \<Rightarrow>
                           let (item, w) = ge_alloc env pool w
                           in if item = 0 then None
                              else Some (Inr (g\<lparr>gl_own_lock := own_lock, gl_lock_list := [\<lparr>li_prio = 0, li_lock = own_lock\<rparr>]\<rparr>, lock), w)))"

definition pj_grp_lock_create_w_handler ::
  "'w grp_env \<Rightarrow> 'w pthread_api \<Rightarrow> (nat \<Rightarrow> 'w \<Rightarrow> nat \<times> 'w) \<Rightarrow> nat \<Rightarrow> nat \<Rightarrow> nat \<Rightarrow> 'w
     \<Rightarrow> ((pj_status_t + pj_grp_lock_t \<times> 'w pj_lock_t) \<times> 'w) option" where
  "pj_grp_lock_create_w_handler env api pool_create pool member handler w =
     (case pj_grp_lock_create env api pool_create pool w of
        Some (Inr (g, lock), w) \<Rightarrow>
          (case grp_lock_add_handler env (gl_pool g) member handler False (g, w) of
             Some (_, g, w) \<Rightarrow> Some (Inr (g, lock), w)
           | None \<Rightarrow> None)
      | r \<Rightarrow> r)"

definition pj_grp_lock_destroy :: "'w grp_env \<Rightarrow> pj_grp_lock_t \<times> 'w \<Rightarrow> pj_status_t \<times> pj_grp_lock_t \<times> 'w" where
  "pj_grp_lock_destroy env gw = grp_lock_destroy env gw"

definition pj_grp_lock_acquire :: "'w grp_env \<Rightarrow> pj_grp_lock_t \<times> 'w \<Rightarrow> pj_status_t \<times> pj_grp_lock_t \<times> 'w" where
  "pj_grp_lock_acquire env gw = grp_lock_acquire env gw"

definition pj_grp_lock_tryacquire :: "'w grp_env \<Rightarrow> pj_grp_lock_t \<times> 'w \<Rightarrow> pj_status_t \<times> pj_grp_lock_t \<times> 'w" where
  "pj_grp_lock_tryacquire env gw = grp_lock_tryacquire env gw"

definition pj_grp_lock_release :: "'w grp_env \<Rightarrow> pj_grp_lock_t \<times> 'w \<Rightarrow> pj_status_t \<times> pj_grp_lock_t \<times> 'w" where
  "pj_grp_lock_release env gw = grp_lock_release env gw"

text \<open>The loop of \<^verbatim>\<open>pj_grp_lock_replace\<close>, which copies the handlers to the new lock.\<close>

fun move_handlers ::
  "'w grp_env \<Rightarrow> grp_destroy_callback list \<Rightarrow> pj_grp_lock_t \<times> 'w \<Rightarrow> (pj_grp_lock_t \<times> 'w) option" where
  "move_handlers env [] gw = Some gw"
| "move_handlers env (ocb # ocbs) (g, w) =
     (case ge_alloc env (gl_pool g) w of (ncb, w) \<Rightarrow>
        if ncb = 0 then None
        else move_handlers env ocbs (g\<lparr>gl_destroy_list := gl_destroy_list g @ [ocb]\<rparr>, w))"

definition pj_grp_lock_replace ::
  "'w grp_env \<Rightarrow> pj_grp_lock_t \<Rightarrow> pj_grp_lock_t \<Rightarrow> 'w \<Rightarrow> (pj_status_t \<times> pj_grp_lock_t \<times> pj_grp_lock_t \<times> 'w) option" where
  "pj_grp_lock_replace env old_lock new_lock w =
     (case move_handlers env (gl_destroy_list old_lock) (new_lock, w) of
        None \<Rightarrow> None
      | Some (new_lock, w) \<Rightarrow>
          (case grp_lock_destroy env (old_lock\<lparr>gl_destroy_list := []\<rparr>, w) of (_, old_lock, w) \<Rightarrow>
             Some (PJ_SUCCESS, old_lock, new_lock, w)))"

definition pj_grp_lock_add_handler ::
  "'w grp_env \<Rightarrow> nat \<Rightarrow> nat \<Rightarrow> nat \<Rightarrow> pj_grp_lock_t \<times> 'w \<Rightarrow> (pj_status_t \<times> pj_grp_lock_t \<times> 'w) option" where
  "pj_grp_lock_add_handler env pool cmp destroy gw = grp_lock_add_handler env pool cmp destroy True gw"

fun del_handler :: "nat \<Rightarrow> nat \<Rightarrow> grp_destroy_callback list \<Rightarrow> grp_destroy_callback list" where
  "del_handler cmp destroy [] = []"
| "del_handler cmp destroy (cb # cbs) =
     (if cb_comp cb = cmp \<and> cb_handler cb = destroy then cbs else cb # del_handler cmp destroy cbs)"

definition pj_grp_lock_del_handler ::
  "'w grp_env \<Rightarrow> nat \<Rightarrow> nat \<Rightarrow> pj_grp_lock_t \<times> 'w \<Rightarrow> pj_status_t \<times> pj_grp_lock_t \<times> 'w" where
  "pj_grp_lock_del_handler env cmp destroy gw =
     (case grp_lock_acquire env gw of (_, g, w) \<Rightarrow>
        let g = g\<lparr>gl_destroy_list := del_handler cmp destroy (gl_destroy_list g)\<rparr>
        in (PJ_SUCCESS, snd (grp_lock_release env (g, w))))"

definition pj_grp_lock_add_ref :: "pj_grp_lock_t \<Rightarrow> pj_status_t \<times> pj_grp_lock_t" where
  "pj_grp_lock_add_ref g = (PJ_SUCCESS, grp_lock_add_ref g)"

definition pj_grp_lock_dec_ref :: "'w grp_env \<Rightarrow> pj_grp_lock_t \<times> 'w \<Rightarrow> pj_status_t \<times> pj_grp_lock_t \<times> 'w" where
  "pj_grp_lock_dec_ref env gw = grp_lock_dec_ref env gw"

definition pj_grp_lock_get_ref :: "pj_grp_lock_t \<Rightarrow> u32" where
  "pj_grp_lock_get_ref g = gl_ref_cnt g"

text \<open>Insertion before the first lock of at least the same priority, removal of the first entry of a
  lock.\<close>

fun insert_item :: "int \<Rightarrow> nat \<Rightarrow> grp_lock_item list \<Rightarrow> grp_lock_item list" where
  "insert_item pos lock [] = [\<lparr>li_prio = pos, li_lock = lock\<rparr>]"
| "insert_item pos lock (lck # lcks) =
     (if li_prio lck \<ge> pos then \<lparr>li_prio = pos, li_lock = lock\<rparr> # lck # lcks else lck # insert_item pos lock lcks)"

fun remove_item :: "nat \<Rightarrow> grp_lock_item list \<Rightarrow> grp_lock_item list option" where
  "remove_item lock [] = None"
| "remove_item lock (lck # lcks) =
     (if li_lock lck = lock then Some lcks else map_option ((#) lck) (remove_item lock lcks))"

definition pj_grp_lock_chain_lock ::
  "'w grp_env \<Rightarrow> nat \<Rightarrow> int \<Rightarrow> pj_grp_lock_t \<times> 'w \<Rightarrow> (pj_status_t \<times> pj_grp_lock_t \<times> 'w) option" where
  "pj_grp_lock_chain_lock env lock pos gw =
     (case grp_lock_acquire env gw of (_, g, w) \<Rightarrow>
        let w = acquire_times (ge_locks env) lock (nat (gl_owner_cnt g)) w;
            (new_lck, w) = ge_alloc env (gl_pool g) w
        in if new_lck = 0 then None
           else let g = g\<lparr>gl_lock_list := insert_item pos lock (gl_lock_list g)\<rparr>
                in Some (PJ_SUCCESS, snd (grp_lock_release env (g, w))))"

definition pj_grp_lock_unchain_lock ::
  "'w grp_env \<Rightarrow> nat \<Rightarrow> pj_grp_lock_t \<times> 'w \<Rightarrow> pj_status_t \<times> pj_grp_lock_t \<times> 'w" where
  "pj_grp_lock_unchain_lock env lock gw =
     (case grp_lock_acquire env gw of (_, g, w) \<Rightarrow>
        let (g, w) = (case remove_item lock (gl_lock_list g) of
              None \<Rightarrow> (g, w)
            | Some lcks \<Rightarrow> (g\<lparr>gl_lock_list := lcks\<rparr>, release_times (ge_locks env) lock (nat (gl_owner_cnt g)) w))
        in (PJ_SUCCESS, snd (grp_lock_release env (g, w))))"

end
