(* ===== verification/Pj_Lock_Spec.thy ===== *)
theory Pj_Lock_Spec
  imports Pj_Lock
begin

text \<open>
  What group locks rely on and what they keep. The locale \<open>lock_table\<close> is the contract of a lock
  object: how often the calling thread holds each lock. The locale \<open>grp_locks\<close> adds what a
  group lock needs of pools and threads; inside it every operation keeps the invariant that the
  lock list is ordered by priority and each of its locks is held once for every acquisition of
  the group.
\<close>

section \<open>The contract of locks\<close>

locale lock_table =
  fixes L :: "'w locks" and hold :: "'w \<Rightarrow> nat \<Rightarrow> nat"
  assumes acquire_hold: "l \<noteq> 0 \<Longrightarrow> hold (snd (pj_lock_acquire L l w)) = (hold w)(l := hold w l + 1)"
    and try_hold: "l \<noteq> 0 \<Longrightarrow> hold (snd (pj_lock_tryacquire L l w)) =
      (if fst (pj_lock_tryacquire L l w) = PJ_SUCCESS then (hold w)(l := hold w l + 1) else hold w)"
    and release_hold: "l \<noteq> 0 \<Longrightarrow> 0 < hold w l \<Longrightarrow> hold (snd (pj_lock_release L l w)) = (hold w)(l := hold w l - 1)"
begin

lemma acquire_all_hold: "0 \<notin> set ls \<Longrightarrow> hold (acquire_all L ls w) = (\<lambda>l. hold w l + count_list ls l)"
  by (induction ls arbitrary: w) (auto simp: acquire_hold)

lemma release_all_hold:
  "0 \<notin> set ls \<Longrightarrow> \<forall>l. count_list ls l \<le> hold w l \<Longrightarrow> hold (release_all L ls w) = (\<lambda>l. hold w l - count_list ls l)"
proof (induction ls arbitrary: w)
  case (Cons a ls)
  have "0 < hold w a" using spec [OF Cons.prems(2), of a] by simp
  then have h: "hold (snd (pj_lock_release L a w)) = (hold w)(a := hold w a - 1)" using Cons.prems(1) by (simp add: release_hold)
  have "\<forall>l. count_list ls l \<le> hold (snd (pj_lock_release L a w)) l"
    unfolding h using Cons.prems(2) by (auto simp: fun_upd_def split: if_splits)
  then have "hold (release_all L ls (snd (pj_lock_release L a w))) = (\<lambda>l. hold (snd (pj_lock_release L a w)) l - count_list ls l)"
    using Cons.IH Cons.prems(1) by simp
  then show ?case unfolding h by auto
qed simp

lemma acquire_times_hold: "l \<noteq> 0 \<Longrightarrow> hold (acquire_times L l n w) = (hold w)(l := hold w l + n)"
  by (induction n arbitrary: w) (auto simp: acquire_hold)

lemma release_times_hold: "l \<noteq> 0 \<Longrightarrow> n \<le> hold w l \<Longrightarrow> hold (release_times L l n w) = (hold w)(l := hold w l - n)"
  by (induction n arbitrary: w) (auto simp: release_hold)

text \<open>Trying all locks takes all of them or gives back those already taken.\<close>

lemma try_all_hold:
  assumes "0 \<notin> set ls" and "0 \<notin> set prevs" and "\<forall>l. count_list prevs l \<le> hold w l"
  shows "hold (snd (try_all L prevs ls w)) =
    (if fst (try_all L prevs ls w) = PJ_SUCCESS then (\<lambda>l. hold w l + count_list ls l) else (\<lambda>l. hold w l - count_list prevs l))"
  using assms
proof (induction ls arbitrary: prevs w)
  case (Cons a ls)
  obtain st w1 where t: "pj_lock_tryacquire L a w = (st, w1)" by fastforce
  have h: "hold w1 = (if st = PJ_SUCCESS then (hold w)(a := hold w a + 1) else hold w)" using try_hold [of a w] Cons.prems(1) t by simp
  show ?case
  proof (cases "st = PJ_SUCCESS")
    case True
    have "0 \<notin> set ls" "0 \<notin> set (a # prevs)" "\<forall>l. count_list (a # prevs) l \<le> hold w1 l"
      using Cons.prems True h by auto
    from Cons.IH [OF this] show ?thesis using t True h by (auto simp: fun_eq_iff)
  next
    case False
    then show ?thesis using t h release_all_hold [OF Cons.prems(2), of w1] Cons.prems(3) by simp
  qed
qed simp

end

section \<open>Lists of locks\<close>

lemma insert_item_count: "count_list (map li_lock (insert_item pos lock xs)) l = count_list (map li_lock xs) l + (if l = lock then 1 else 0)"
  by (induction xs) auto

lemma insert_item_set: "set (map li_prio (insert_item pos lock xs)) = insert pos (set (map li_prio xs))"
  by (induction xs) auto

lemma insert_item_sorted: "sorted (map li_prio xs) \<Longrightarrow> sorted (map li_prio (insert_item pos lock xs))"
proof (induction xs)
  case (Cons a xs)
  then show ?case using insert_item_set [of pos lock xs] by (auto intro: order_trans)
qed simp

lemma insert_item_locks: "set (map li_lock (insert_item pos lock xs)) = insert lock (set (map li_lock xs))"
  by (induction xs) auto

lemma remove_item_some:
  "remove_item lock xs = Some ys \<Longrightarrow>
    (\<forall>l. count_list (map li_lock xs) l = count_list (map li_lock ys) l + (if l = lock then 1 else 0)) \<and>
    set ys \<subseteq> set xs \<and> (sorted (map li_prio xs) \<longrightarrow> sorted (map li_prio ys))"
proof (induction xs arbitrary: ys)
  case (Cons a xs)
  then show ?case
  proof (cases "li_lock a = lock")
    case False
    then obtain zs where z: "remove_item lock xs = Some zs" "ys = a # zs" using Cons.prems by auto
    from Cons.IH [OF z(1)] show ?thesis using z(2) False by auto
  qed (use Cons.prems in auto)
qed simp

lemma remove_item_none: "remove_item lock xs = None \<longleftrightarrow> lock \<notin> set (map li_lock xs)"
  by (induction xs) auto

section \<open>The invariant of a group lock\<close>

text \<open>Of one thread: \<open>base\<close> says how often it holds each lock without the group, \<open>pl\<close> and \<open>own\<close> name
  the pool and the own lock, \<open>n\<close> bounds the references. The group keeps a reference besides those of its acquisitions.\<close>

definition grp_inv ::
  "'w grp_env \<Rightarrow> ('w \<Rightarrow> nat \<Rightarrow> nat) \<Rightarrow> (nat \<Rightarrow> nat) \<Rightarrow> nat \<Rightarrow> nat \<Rightarrow> nat \<Rightarrow> pj_grp_lock_t \<times> 'w \<Rightarrow> bool" where
  "grp_inv env hold base pl own n gw \<longleftrightarrow>
     (case gw of (g, w) \<Rightarrow>
        pl \<noteq> 0 \<and> gl_pool g = pl \<and> gl_own_lock g = own \<and> 0 \<notin> set (lock_ptrs g) \<and> sorted (map li_prio (gl_lock_list g)) \<and>
        0 \<le> gl_owner_cnt g \<and> gl_owner g = (if gl_owner_cnt g = 0 then 0 else ge_this env) \<and>
        (\<forall>l. hold w l = base l + nat (gl_owner_cnt g) * count_list (lock_ptrs g) l) \<and>
        nat (gl_owner_cnt g) < unat (gl_ref_cnt g) \<and> unat (gl_ref_cnt g) \<le> n)"

locale grp_locks = lock_table "ge_locks env" hold for env :: "'w grp_env" and hold :: "'w \<Rightarrow> nat \<Rightarrow> nat" +
  assumes alloc_ok: "fst (ge_alloc env p w) \<noteq> 0"
    and alloc_hold: "hold (snd (ge_alloc env p w)) = hold w"
    and this_known: "ge_this env \<noteq> 0"
begin

lemma ref_up: "unat r \<le> n \<Longrightarrow> n + 1 < 2 ^ 32 \<Longrightarrow> unat (pj_atomic_inc r) = unat r + 1"
  using unat_word_ariths(1) [of r 1] by (simp add: pj_atomic_inc_def pj_atomic_inc_and_get_def Let_def)

lemma enter_inv:
  assumes "grp_inv env hold base pl own n (g, w)" and "n + 1 < 2 ^ 32" and "hold w' = (\<lambda>l. hold w l + count_list (lock_ptrs g) l)"
  shows "grp_inv env hold base pl own (n + 1) (grp_lock_add_ref (grp_lock_set_owner_thread env g), w')"
    "gl_owner_cnt (grp_lock_add_ref (grp_lock_set_owner_thread env g)) = gl_owner_cnt g + 1"
    "gl_lock_list (grp_lock_add_ref (grp_lock_set_owner_thread env g)) = gl_lock_list g"
    "gl_destroy_list (grp_lock_add_ref (grp_lock_set_owner_thread env g)) = gl_destroy_list g"
proof -
  let ?g = "grp_lock_set_owner_thread env g"
  have u: "unat (pj_atomic_inc (gl_ref_cnt g)) = unat (gl_ref_cnt g) + 1"
    using assms(1,2) by (intro ref_up [of _ n]) (simp_all add: grp_inv_def)
  have f: "gl_owner_cnt ?g = gl_owner_cnt g + 1" "gl_owner ?g = ge_this env" "gl_pool ?g = gl_pool g" "gl_ref_cnt ?g = gl_ref_cnt g" "gl_own_lock ?g = gl_own_lock g"
    "gl_lock_list ?g = gl_lock_list g" "gl_destroy_list ?g = gl_destroy_list g"
    using assms(1) this_known by (auto simp: grp_lock_set_owner_thread_def grp_inv_def split: if_splits)
  then show "gl_owner_cnt (grp_lock_add_ref ?g) = gl_owner_cnt g + 1" "gl_lock_list (grp_lock_add_ref ?g) = gl_lock_list g"
    "gl_destroy_list (grp_lock_add_ref ?g) = gl_destroy_list g" by (simp_all add: grp_lock_add_ref_def)
  show "grp_inv env hold base pl own (n + 1) (grp_lock_add_ref ?g, w')"
    using assms(1,3) u f by (auto simp: grp_inv_def grp_lock_add_ref_def lock_ptrs_def nat_add_distrib algebra_simps)
qed

lemma acquire_inv:
  assumes "grp_inv env hold base pl own n (g, w)" and "n + 1 < 2 ^ 32"
  obtains g' w' where "grp_lock_acquire env (g, w) = (PJ_SUCCESS, g', w')" "grp_inv env hold base pl own (n + 1) (g', w')"
    "gl_owner_cnt g' = gl_owner_cnt g + 1" "gl_lock_list g' = gl_lock_list g" "gl_destroy_list g' = gl_destroy_list g"
proof -
  let ?w = "acquire_all (ge_locks env) (lock_ptrs g) w"
  have "hold ?w = (\<lambda>l. hold w l + count_list (lock_ptrs g) l)" using assms(1) acquire_all_hold by (simp add: grp_inv_def)
  from enter_inv [OF assms this] show thesis using that by (simp add: grp_lock_acquire_def)
qed

lemma try_inv:
  assumes "grp_inv env hold base pl own n (g, w)" and "n + 1 < 2 ^ 32"
  shows "\<exists>st g' w'. grp_lock_tryacquire env (g, w) = (st, g', w') \<and> grp_inv env hold base pl own (n + 1) (g', w') \<and>
    gl_lock_list g' = gl_lock_list g \<and> gl_destroy_list g' = gl_destroy_list g \<and>
    (if st = PJ_SUCCESS then gl_owner_cnt g' = gl_owner_cnt g + 1 else g' = g \<and> hold w' = hold w)"
proof -
  obtain st w' where t: "try_all (ge_locks env) [] (lock_ptrs g) w = (st, w')" by fastforce
  have "0 \<notin> set (lock_ptrs g)" using assms(1) by (simp add: grp_inv_def)
  from try_all_hold [OF this, of "[]" w] t
  have h: "hold w' = (if st = PJ_SUCCESS then (\<lambda>l. hold w l + count_list (lock_ptrs g) l) else hold w)" by (auto split: if_splits)
  show ?thesis
  proof (cases "st = PJ_SUCCESS")
    case True
    then show ?thesis using enter_inv [OF assms, of w'] h t by (simp add: grp_lock_tryacquire_def)
  next
    case False
    then have "grp_inv env hold base pl own (n + 1) (g, w')" using assms(1) h by (simp add: grp_inv_def)
    then show ?thesis using False h t by (simp add: grp_lock_tryacquire_def)
  qed
qed

lemma release_inv:
  assumes i: "grp_inv env hold base pl own n (g, w)" and c: "0 < gl_owner_cnt g"
  obtains g' w' where "grp_lock_release env (g, w) = (PJ_SUCCESS, g', w')" "grp_inv env hold base pl own n (g', w')"
    "gl_owner_cnt g' = gl_owner_cnt g - 1" "gl_lock_list g' = gl_lock_list g" "gl_destroy_list g' = gl_destroy_list g"
    "unat (gl_ref_cnt g') = unat (gl_ref_cnt g) - 1"
proof -
  let ?g = "grp_lock_unset_owner_thread g" and ?w = "release_all (ge_locks env) (rev (lock_ptrs g)) w"
  let ?r = "gl_ref_cnt g - 1"
  have f: "gl_lock_list ?g = gl_lock_list g" "gl_ref_cnt ?g = gl_ref_cnt g" "gl_pool ?g = gl_pool g" "gl_destroy_list ?g = gl_destroy_list g" "gl_own_lock ?g = gl_own_lock g"
    "gl_owner_cnt ?g = gl_owner_cnt g - 1" "gl_owner ?g = (if gl_owner_cnt g = 1 then 0 else gl_owner g)"
    using c by (auto simp: grp_lock_unset_owner_thread_def Let_def)
  have lt: "nat (gl_owner_cnt g) < unat (gl_ref_cnt g)" using i by (simp add: grp_inv_def)
  then have r: "unat ?r = unat (gl_ref_cnt g) - 1" using c by (simp add: unat_minus_one unat_gt_0 [symmetric])
  have "unat ?r \<noteq> 0" using r lt c by linarith
  then have r0: "?r \<noteq> 0" by (metis unat_0)
  have mult: "nat (gl_owner_cnt g) * x = x + nat (gl_owner_cnt g - 1) * x" for x
    using c by (cases "nat (gl_owner_cnt g)") (auto simp: nat_diff_distrib)
  have "hold ?w = (\<lambda>l. hold w l - count_list (lock_ptrs g) l)"
    using i c by (subst release_all_hold) (auto simp: grp_inv_def mult count_list_rev)
  then have "hold ?w l = base l + nat (gl_owner_cnt g - 1) * count_list (lock_ptrs g) l" for l
    using i mult [of "count_list (lock_ptrs g) l"] by (simp add: grp_inv_def)
  then have "grp_inv env hold base pl own n (?g\<lparr>gl_ref_cnt := ?r\<rparr>, ?w)"
    using i c r lt f by (auto simp: grp_inv_def lock_ptrs_def)
  moreover have "grp_lock_release env (g, w) = (PJ_SUCCESS, ?g\<lparr>gl_ref_cnt := ?r\<rparr>, ?w)"
    using r0 f by (simp add: grp_lock_release_def Let_def grp_lock_dec_ref_def pj_atomic_dec_and_get_def lock_ptrs_def)
  ultimately show thesis using that f r by simp
qed

end

section \<open>The operations that work inside the group lock\<close>

context grp_locks
begin

text \<open>An operation that acquires the group, changes it and releases it again.\<close>

lemma bracket_inv:
  assumes "grp_inv env hold base pl own (n + 1) (g1, w1)" and "gl_owner_cnt g1 = gl_owner_cnt g + 1" and "0 \<le> gl_owner_cnt g"
  shows "\<exists>g' w'. snd (grp_lock_release env (g1, w1)) = (g', w') \<and> grp_inv env hold base pl own (n + 1) (g', w') \<and>
    gl_owner_cnt g' = gl_owner_cnt g \<and> gl_lock_list g' = gl_lock_list g1 \<and> gl_destroy_list g' = gl_destroy_list g1"
proof -
  have "0 < gl_owner_cnt g1" using assms(2,3) by simp
  from release_inv [OF assms(1) this] show ?thesis using assms(2) by (metis add_diff_cancel_right' snd_conv)
qed

lemma chain_inv:
  assumes i: "grp_inv env hold base pl own n (g, w)" and n: "n + 1 < 2 ^ 32" and l: "lock \<noteq> 0"
  shows "\<exists>g' w'. pj_grp_lock_chain_lock env lock pos (g, w) = Some (PJ_SUCCESS, g', w') \<and> grp_inv env hold base pl own (n + 1) (g', w') \<and>
    gl_owner_cnt g' = gl_owner_cnt g \<and> gl_lock_list g' = insert_item pos lock (gl_lock_list g) \<and> gl_destroy_list g' = gl_destroy_list g"
proof -
  obtain g1 w1 where a: "grp_lock_acquire env (g, w) = (PJ_SUCCESS, g1, w1)" "grp_inv env hold base pl own (n + 1) (g1, w1)"
    "gl_owner_cnt g1 = gl_owner_cnt g + 1" "gl_lock_list g1 = gl_lock_list g" "gl_destroy_list g1 = gl_destroy_list g"
    using acquire_inv [OF i n] by blast
  let ?c = "nat (gl_owner_cnt g1)"
  obtain x w2 where al: "ge_alloc env (gl_pool g1) (acquire_times (ge_locks env) lock ?c w1) = (x, w2)" by fastforce
  have x: "x \<noteq> 0" using alloc_ok al by (metis fst_conv)
  have "hold w2 = hold (acquire_times (ge_locks env) lock ?c w1)" using alloc_hold al by (metis snd_conv)
  then have h: "hold w2 = (hold w1)(lock := hold w1 lock + ?c)" using acquire_times_hold [OF l] by simp
  let ?g = "g1\<lparr>gl_lock_list := insert_item pos lock (gl_lock_list g1)\<rparr>"
  have "grp_inv env hold base pl own (n + 1) (?g, w2)"
    using a(2) h l insert_item_sorted insert_item_locks [of pos lock "gl_lock_list g1"]
    by (auto simp: grp_inv_def lock_ptrs_def insert_item_count)
  from bracket_inv [OF this, of g] a i x al show ?thesis
    by (auto simp: pj_grp_lock_chain_lock_def Let_def grp_inv_def)
qed

lemma unchain_inv:
  assumes i: "grp_inv env hold base pl own n (g, w)" and n: "n + 1 < 2 ^ 32"
  shows "\<exists>g' w'. pj_grp_lock_unchain_lock env lock (g, w) = (PJ_SUCCESS, g', w') \<and> grp_inv env hold base pl own (n + 1) (g', w') \<and>
    gl_owner_cnt g' = gl_owner_cnt g \<and> gl_destroy_list g' = gl_destroy_list g \<and>
    gl_lock_list g' = (case remove_item lock (gl_lock_list g) of None \<Rightarrow> gl_lock_list g | Some lcks \<Rightarrow> lcks)"
proof -
  obtain g1 w1 where a: "grp_lock_acquire env (g, w) = (PJ_SUCCESS, g1, w1)" "grp_inv env hold base pl own (n + 1) (g1, w1)"
    "gl_owner_cnt g1 = gl_owner_cnt g + 1" "gl_lock_list g1 = gl_lock_list g" "gl_destroy_list g1 = gl_destroy_list g"
    using acquire_inv [OF i n] by blast
  have c0: "0 \<le> gl_owner_cnt g" using i by (simp add: grp_inv_def)
  show ?thesis
  proof (cases "remove_item lock (gl_lock_list g1)")
    case None
    from bracket_inv [OF a(2,3) c0] show ?thesis using a None by (auto simp: pj_grp_lock_unchain_lock_def)
  next
    case (Some lcks)
    let ?c = "nat (gl_owner_cnt g1)" and ?g = "g1\<lparr>gl_lock_list := lcks\<rparr>"
    let ?w = "release_times (ge_locks env) lock ?c w1"
    note r = remove_item_some [OF Some]
    have "remove_item lock (gl_lock_list g1) \<noteq> None" using Some by simp
    then have "lock \<in> set (lock_ptrs g1)" unfolding remove_item_none lock_ptrs_def by blast
    moreover have "0 \<notin> set (lock_ptrs g1)" using a(2) by (simp add: grp_inv_def)
    ultimately have l0: "lock \<noteq> 0" by metis
    have hw: "hold w1 x = base x + ?c * (count_list (map li_lock lcks) x + (if x = lock then 1 else 0))" for x
      using a(2) r by (auto simp: grp_inv_def lock_ptrs_def)
    have h: "hold ?w = (hold w1)(lock := hold w1 lock - ?c)" using hw [of lock] by (intro release_times_hold [OF l0]) simp
    have "hold ?w x = base x + ?c * count_list (map li_lock lcks) x" for x unfolding h using hw [of x] by auto
    then have "grp_inv env hold base pl own (n + 1) (?g, ?w)" using a(2) r by (auto simp: grp_inv_def lock_ptrs_def)
    from bracket_inv [OF this, of g] a c0 Some show ?thesis by (auto simp: pj_grp_lock_unchain_lock_def)
  qed
qed

lemma add_handler_inv:
  assumes i: "grp_inv env hold base pl own n (g, w)" and n: "n + 1 < 2 ^ 32"
  shows "\<exists>g' w'. pj_grp_lock_add_handler env pool cmp d (g, w) = Some (PJ_SUCCESS, g', w') \<and> grp_inv env hold base pl own (n + 1) (g', w') \<and>
    gl_owner_cnt g' = gl_owner_cnt g \<and> gl_lock_list g' = gl_lock_list g \<and>
    gl_destroy_list g' = gl_destroy_list g @ [\<lparr>cb_comp = cmp, cb_handler = d\<rparr>]"
proof -
  obtain g1 w1 where a: "grp_lock_acquire env (g, w) = (PJ_SUCCESS, g1, w1)" "grp_inv env hold base pl own (n + 1) (g1, w1)"
    "gl_owner_cnt g1 = gl_owner_cnt g + 1" "gl_lock_list g1 = gl_lock_list g" "gl_destroy_list g1 = gl_destroy_list g"
    using acquire_inv [OF i n] by blast
  obtain x w2 where al: "ge_alloc env (if pool = 0 then gl_pool g1 else pool) w1 = (x, w2)" by fastforce
  have x: "x \<noteq> 0" "hold w2 = hold w1" using alloc_ok alloc_hold al by (metis fst_conv, metis snd_conv)
  let ?g = "g1\<lparr>gl_destroy_list := gl_destroy_list g1 @ [\<lparr>cb_comp = cmp, cb_handler = d\<rparr>]\<rparr>"
  have "grp_inv env hold base pl own (n + 1) (?g, w2)" using a(2) x(2) by (simp add: grp_inv_def lock_ptrs_def)
  from bracket_inv [OF this, of g] a i x(1) al show ?thesis
    by (auto simp: pj_grp_lock_add_handler_def grp_lock_add_handler_def Let_def grp_inv_def)
qed

lemma del_handler_inv:
  assumes i: "grp_inv env hold base pl own n (g, w)" and n: "n + 1 < 2 ^ 32"
  shows "\<exists>g' w'. pj_grp_lock_del_handler env cmp d (g, w) = (PJ_SUCCESS, g', w') \<and> grp_inv env hold base pl own (n + 1) (g', w') \<and>
    gl_owner_cnt g' = gl_owner_cnt g \<and> gl_lock_list g' = gl_lock_list g \<and> gl_destroy_list g' = del_handler cmp d (gl_destroy_list g)"
proof -
  obtain g1 w1 where a: "grp_lock_acquire env (g, w) = (PJ_SUCCESS, g1, w1)" "grp_inv env hold base pl own (n + 1) (g1, w1)"
    "gl_owner_cnt g1 = gl_owner_cnt g + 1" "gl_lock_list g1 = gl_lock_list g" "gl_destroy_list g1 = gl_destroy_list g"
    using acquire_inv [OF i n] by blast
  let ?g = "g1\<lparr>gl_destroy_list := del_handler cmp d (gl_destroy_list g1)\<rparr>"
  have "grp_inv env hold base pl own (n + 1) (?g, w1)" using a(2) by (simp add: grp_inv_def lock_ptrs_def)
  from bracket_inv [OF this, of g] a i show ?thesis
    by (auto simp: pj_grp_lock_del_handler_def Let_def grp_inv_def)
qed

end

end
