(* ===== verification/Pj_Lock_Props.thy ===== *)
theory Pj_Lock_Props
  imports Pj_Lock_Spec
begin

text \<open>
  Sequences of calls of one thread on a group lock, recursive mutexes of POSIX as an instance of the
  lock contract, and the properties of group locks.
\<close>

section \<open>POSIX mutexes\<close>

text \<open>Recursive mutexes as POSIX documents them, seen by one thread: how often it holds each, and
  which another thread holds. Waiting for a mutex returns when the other thread has given it up.\<close>

record posix =
  px_count :: "nat \<Rightarrow> nat"
  px_busy :: "nat \<Rightarrow> bool"
  px_next :: nat
  px_log :: "(nat \<times> nat) list"

definition px_enter :: "nat \<Rightarrow> posix \<Rightarrow> posix" where
  "px_enter m w = w\<lparr>px_count := (px_count w)(m := px_count w m + 1), px_busy := (px_busy w)(m := False)\<rparr>"

definition posix_api :: "posix pthread_api" where
  "posix_api = \<lparr>
     pthread_mutexattr_init = (\<lambda>w. (0, 0, w)),
     pthread_mutexattr_settype = (\<lambda>attr type w. (0, type, w)),
     pthread_mutexattr_destroy = (\<lambda>attr w. (0, w)),
     pthread_mutex_init = (\<lambda>m attr w. (0, w\<lparr>px_count := (px_count w)(m := 0), px_busy := (px_busy w)(m := False)\<rparr>)),
     pthread_mutex_lock = (\<lambda>m w. (0, px_enter m w)),
     pthread_mutex_trylock = (\<lambda>m w. if px_busy w m then (16, w) else (0, px_enter m w)),
     pthread_mutex_unlock = (\<lambda>m w. if px_count w m = 0 then (1, w) else (0, w\<lparr>px_count := (px_count w)(m := px_count w m - 1)\<rparr>)),
     pthread_mutex_destroy = (\<lambda>m w. if 0 < px_count w m \<or> px_busy w m then (16, w) else (0, w)),
     sem_init = (\<lambda>s v w. (0, w\<lparr>px_count := (px_count w)(s := unat v)\<rparr>)),
     sem_wait = (\<lambda>s w. (0, w\<lparr>px_count := (px_count w)(s := px_count w s - 1)\<rparr>)),
     sem_trywait = (\<lambda>s w. if px_count w s = 0 then (-1, w) else (0, w\<lparr>px_count := (px_count w)(s := px_count w s - 1)\<rparr>)),
     sem_post = (\<lambda>s w. (0, w\<lparr>px_count := (px_count w)(s := px_count w s + 1)\<rparr>)),
     sem_destroy = (\<lambda>s w. (0, w)),
     pthread_cond_init = (\<lambda>c w. (0, w)),
     pthread_cond_destroy = (\<lambda>c w. (0, w)),
     pthread_attr_init = (\<lambda>w. w),
     pthread_attr_setstacksize = (\<lambda>n w. (0, w)),
     pthread_attr_destroy = (\<lambda>w. w),
     pthread_create = (\<lambda>r w. (0, px_next w, w\<lparr>px_next := px_next w + 1\<rparr>)),
     pthread_join = (\<lambda>t w. (0, w)),
     ESRCH = 3, PTHREAD_MUTEX_NORMAL = 0, PTHREAD_MUTEX_RECURSIVE = 1, EBUSY = 16,
     os_errno = (\<lambda>w. 11),
     api_alloc = (\<lambda>p w. (px_next w + 1, w\<lparr>px_next := px_next w + 1\<rparr>)),
     api_format = (\<lambda>f p. f)\<rparr>"

definition posix_env :: "posix grp_env" where
  "posix_env = \<lparr>ge_locks = (\<lambda>l. (mutex_lock_template posix_api)\<lparr>lk_object := l\<rparr>),
     ge_alloc = api_alloc posix_api, ge_pool_release = (\<lambda>p w. w),
     ge_handler = (\<lambda>h c w. w\<lparr>px_log := px_log w @ [(c, h)]\<rparr>), ge_this = 1, ge_pool_name = (\<lambda>p. [])\<rparr>"

interpretation posix: grp_locks posix_env px_count
proof unfold_locales
  fix l :: nat and w :: posix
  assume "l \<noteq> 0"
  then show "px_count (snd (pj_lock_acquire (ge_locks posix_env) l w)) = (px_count w)(l := px_count w l + 1)"
    and "px_count (snd (pj_lock_tryacquire (ge_locks posix_env) l w)) =
      (if fst (pj_lock_tryacquire (ge_locks posix_env) l w) = PJ_SUCCESS then (px_count w)(l := px_count w l + 1) else px_count w)"
    and "0 < px_count w l \<Longrightarrow> px_count (snd (pj_lock_release (ge_locks posix_env) l w)) = (px_count w)(l := px_count w l - 1)"
    by (simp_all add: pj_lock_acquire_def pj_lock_tryacquire_def pj_lock_release_def posix_env_def mutex_lock_template_def
        pj_mutex_lock_def pj_mutex_trylock_def pj_mutex_unlock_def posix_api_def px_enter_def os_error_not_success)
qed (simp_all add: posix_env_def posix_api_def)

section \<open>Sequences of calls\<close>

datatype grp_call =
  Acquire | Tryacquire | Release | Add_Ref | Dec_Ref
  | Chain nat int | Unchain nat | Add_Handler nat nat nat | Del_Handler nat nat

fun grp_step :: "'w grp_env \<Rightarrow> grp_call \<Rightarrow> pj_grp_lock_t \<times> 'w \<Rightarrow> (pj_status_t \<times> pj_grp_lock_t \<times> 'w) option" where
  "grp_step env Acquire gw = Some (pj_grp_lock_acquire env gw)"
| "grp_step env Tryacquire gw = Some (pj_grp_lock_tryacquire env gw)"
| "grp_step env Release gw = Some (pj_grp_lock_release env gw)"
| "grp_step env Add_Ref (g, w) = (case pj_grp_lock_add_ref g of (st, g) \<Rightarrow> Some (st, g, w))"
| "grp_step env Dec_Ref gw = Some (pj_grp_lock_dec_ref env gw)"
| "grp_step env (Chain l pos) gw = pj_grp_lock_chain_lock env l pos gw"
| "grp_step env (Unchain l) gw = Some (pj_grp_lock_unchain_lock env l gw)"
| "grp_step env (Add_Handler pool c d) gw = pj_grp_lock_add_handler env pool c d gw"
| "grp_step env (Del_Handler c d) gw = Some (pj_grp_lock_del_handler env c d gw)"

fun grp_run :: "'w grp_env \<Rightarrow> grp_call list \<Rightarrow> pj_grp_lock_t \<times> 'w \<Rightarrow> (pj_status_t list \<times> pj_grp_lock_t \<times> 'w) option" where
  "grp_run env [] gw = Some ([], gw)"
| "grp_run env (c # cs) gw =
     (case grp_step env c gw of
        None \<Rightarrow> None
      | Some (st, gw) \<Rightarrow> map_option (\<lambda>(sts, gw). (st # sts, gw)) (grp_run env cs gw))"

text \<open>What a thread has to obey: it releases only what it has acquired, gives up only references
  beyond one and those of its acquisitions, and chains real locks.\<close>

fun call_ok :: "pj_grp_lock_t \<Rightarrow> grp_call \<Rightarrow> bool" where
  "call_ok g Release \<longleftrightarrow> 0 < gl_owner_cnt g"
| "call_ok g Dec_Ref \<longleftrightarrow> nat (gl_owner_cnt g) + 1 < unat (gl_ref_cnt g)"
| "call_ok g (Chain l pos) \<longleftrightarrow> l \<noteq> 0"
| "call_ok g _ \<longleftrightarrow> True"

fun obeys :: "'w grp_env \<Rightarrow> grp_call list \<Rightarrow> pj_grp_lock_t \<times> 'w \<Rightarrow> bool" where
  "obeys env [] gw \<longleftrightarrow> True"
| "obeys env (c # cs) gw \<longleftrightarrow> call_ok (fst gw) c \<and>
     (case grp_step env c gw of None \<Rightarrow> True | Some (st, gw) \<Rightarrow> obeys env cs gw)"

text \<open>The nesting depth and the handlers a sequence of calls leaves.\<close>

fun depth_change :: "grp_call \<Rightarrow> pj_status_t \<Rightarrow> int" where
  "depth_change Acquire st = 1"
| "depth_change Tryacquire st = (if st = PJ_SUCCESS then 1 else 0)"
| "depth_change Release st = -1"
| "depth_change _ st = 0"

fun handlers_after :: "grp_call \<Rightarrow> (nat \<times> nat) list \<Rightarrow> (nat \<times> nat) list" where
  "handlers_after (Add_Handler pool c d) hs = hs @ [(c, d)]"
| "handlers_after (Del_Handler c d) hs = remove1 (c, d) hs"
| "handlers_after _ hs = hs"

abbreviation cb_pairs :: "grp_destroy_callback list \<Rightarrow> (nat \<times> nat) list" where
  "cb_pairs \<equiv> map (\<lambda>cb. (cb_comp cb, cb_handler cb))"

lemma del_handler_pairs: "cb_pairs (del_handler c d cbs) = remove1 (c, d) (cb_pairs cbs)"
  by (induction cbs) auto

lemma call_handlers_fold: "call_handlers h cbs w = fold (\<lambda>(c, d). h d c) (cb_pairs cbs) w"
  by (induction cbs arbitrary: w) auto

lemma release_chained_none: "release_chained L own 0 ls w = w"
  by (induction ls arbitrary: w) auto

lemma grp_inv_weaken: "grp_inv env hold base pl own n gw \<Longrightarrow> n \<le> m \<Longrightarrow> grp_inv env hold base pl own m gw"
  by (auto simp: grp_inv_def split: prod.splits)

context grp_locks
begin

lemma grp_step_inv:
  assumes i: "grp_inv env hold base pl own n (g, w)" and n: "n + 1 < 2 ^ 32" and ok: "call_ok g c"
  shows "\<exists>st g' w'. grp_step env c (g, w) = Some (st, g', w') \<and> grp_inv env hold base pl own (n + 1) (g', w') \<and>
    gl_owner_cnt g' = gl_owner_cnt g + depth_change c st \<and>
    cb_pairs (gl_destroy_list g') = handlers_after c (cb_pairs (gl_destroy_list g))"
proof (cases c)
  case Acquire
  obtain g' w' where "grp_lock_acquire env (g, w) = (PJ_SUCCESS, g', w')" "grp_inv env hold base pl own (n + 1) (g', w')"
    "gl_owner_cnt g' = gl_owner_cnt g + 1" "gl_destroy_list g' = gl_destroy_list g"
    using acquire_inv [OF i n] by blast
  then show ?thesis using Acquire by (simp add: pj_grp_lock_acquire_def)
next
  case Tryacquire
  then show ?thesis using try_inv [OF i n] by (auto simp: pj_grp_lock_tryacquire_def split: if_splits)
next
  case Release
  then have "0 < gl_owner_cnt g" using ok by simp
  then obtain g' w' where "grp_lock_release env (g, w) = (PJ_SUCCESS, g', w')" "grp_inv env hold base pl own n (g', w')"
    "gl_owner_cnt g' = gl_owner_cnt g - 1" "gl_destroy_list g' = gl_destroy_list g"
    using release_inv [OF i] by blast
  then show ?thesis using Release grp_inv_weaken [of env hold base pl own n "(g', w')" "n + 1"] by (simp add: pj_grp_lock_release_def)
next
  case Add_Ref
  then show ?thesis using i ref_up [of "gl_ref_cnt g" n] n
    by (auto simp: pj_grp_lock_add_ref_def grp_lock_add_ref_def grp_inv_def lock_ptrs_def)
next
  case Dec_Ref
  then have lt: "nat (gl_owner_cnt g) + 1 < unat (gl_ref_cnt g)" using ok by simp
  then have r: "unat (gl_ref_cnt g - 1) = unat (gl_ref_cnt g) - 1" by (simp add: unat_minus_one unat_gt_0 [symmetric])
  then have "unat (gl_ref_cnt g - 1) \<noteq> 0" using lt by linarith
  then have "gl_ref_cnt g - 1 \<noteq> 0" by (metis unat_0)
  then show ?thesis using i Dec_Ref lt r
    by (auto simp: pj_grp_lock_dec_ref_def grp_lock_dec_ref_def pj_atomic_dec_and_get_def Let_def grp_inv_def lock_ptrs_def)
next
  case (Chain l pos)
  then show ?thesis using chain_inv [OF i n, of l pos] ok by auto
next
  case (Unchain l)
  then show ?thesis using unchain_inv [OF i n, of l] by auto
next
  case (Add_Handler pool cm d)
  then show ?thesis using add_handler_inv [OF i n, of pool cm d] by auto
next
  case (Del_Handler cm d)
  then show ?thesis using del_handler_inv [OF i n, of cm d] by (auto simp: del_handler_pairs)
qed

lemma grp_run_inv:
  assumes "grp_inv env hold base pl own n (g, w)" and "n + length cs < 2 ^ 32" and "obeys env cs (g, w)"
  shows "\<exists>sts g' w'. grp_run env cs (g, w) = Some (sts, g', w') \<and> grp_inv env hold base pl own (n + length cs) (g', w') \<and>
    gl_owner_cnt g' = gl_owner_cnt g + (\<Sum>(c, st) \<leftarrow> zip cs sts. depth_change c st) \<and>
    cb_pairs (gl_destroy_list g') = fold handlers_after cs (cb_pairs (gl_destroy_list g))"
  using assms
proof (induction cs arbitrary: n g w)
  case (Cons c cs)
  have h: "n + 1 < 2 ^ 32" "call_ok g c" using Cons.prems(2,3) by auto
  obtain st g1 w1 where s: "grp_step env c (g, w) = Some (st, g1, w1)" "grp_inv env hold base pl own (n + 1) (g1, w1)"
    "gl_owner_cnt g1 = gl_owner_cnt g + depth_change c st"
    "cb_pairs (gl_destroy_list g1) = handlers_after c (cb_pairs (gl_destroy_list g))"
    using grp_step_inv [OF Cons.prems(1) h] by blast
  have o: "obeys env cs (g1, w1)" using Cons.prems(3) s(1) by simp
  have "n + 1 + length cs < 2 ^ 32" using Cons.prems(2) by simp
  from Cons.IH [OF s(2) this o] show ?case using s(1,3,4) by auto
qed simp

end

section \<open>Properties\<close>

text \<open>The witnesses use a group of two mutexes, the own lock 1 and a chained lock 2.\<close>

definition sample_grp :: pj_grp_lock_t where
  "sample_grp = \<lparr>gl_pool = 9, gl_ref_cnt = 1, gl_own_lock = 1, gl_owner = 0, gl_owner_cnt = 0,
     gl_lock_list = [\<lparr>li_prio = 0, li_lock = 1\<rparr>, \<lparr>li_prio = 5, li_lock = 2\<rparr>], gl_destroy_list = []\<rparr>"

definition sample_px :: "(nat \<Rightarrow> bool) \<Rightarrow> posix" where
  "sample_px busy = \<lparr>px_count = (\<lambda>_. 0), px_busy = busy, px_next = 100, px_log = []\<rparr>"

lemma sample_inv: "grp_inv posix_env px_count (\<lambda>_. 0) 9 1 1 (sample_grp, sample_px busy)"
  by (simp add: grp_inv_def sample_grp_def sample_px_def lock_ptrs_def)

text \<open>C19: trying a group lock takes all of its locks or none: on success the thread holds every lock of the
  group once more than before and the group counts one more acquisition and reference; on failure
  every lock is held exactly as before, the group is unchanged and the status is an error.\<close>

theorem grp_tryacquire_atomic:
  assumes env: "grp_locks env hold" and nz: "0 \<notin> set (lock_ptrs g)" and r: "pj_grp_lock_tryacquire env (g, w) = (st, g', w')"
  shows "if st = PJ_SUCCESS
    then (\<forall>l. hold w' l = hold w l + count_list (lock_ptrs g) l) \<and> lock_ptrs g' = lock_ptrs g \<and>
      gl_ref_cnt g' = gl_ref_cnt g + 1 \<and> (gl_owner g \<noteq> 0 \<longrightarrow> gl_owner_cnt g' = gl_owner_cnt g + 1) \<and>
      (gl_owner g = 0 \<longrightarrow> gl_owner g' = ge_this env \<and> gl_owner_cnt g' = 1)
    else g' = g \<and> hold w' = hold w"
proof -
  have T: "lock_table (ge_locks env) hold" using env by (simp add: grp_locks_def)
  obtain st1 w1 where t: "try_all (ge_locks env) [] (lock_ptrs g) w = (st1, w1)" by fastforce
  have h: "hold w1 = (if st1 = PJ_SUCCESS then (\<lambda>l. hold w l + count_list (lock_ptrs g) l) else hold w)"
    using lock_table.try_all_hold [OF T nz, of "[]" w] t by (auto split: if_splits)
  show ?thesis
    using r t h by (auto simp: pj_grp_lock_tryacquire_def grp_lock_tryacquire_def grp_lock_add_ref_def grp_lock_set_owner_thread_def
        lock_ptrs_def pj_atomic_inc_def pj_atomic_inc_and_get_def Let_def split: if_splits)
qed

theorem grp_tryacquire_atomic_witness:
  "\<exists>st g' w'. pj_grp_lock_tryacquire posix_env (sample_grp, sample_px (\<lambda>l. l = 2)) = (st, g', w') \<and>
     st = PJ_RETURN_OS_ERROR 16 \<and> px_count w' = (\<lambda>_. 0)"
proof -
  obtain st g' w' where r: "pj_grp_lock_tryacquire posix_env (sample_grp, sample_px (\<lambda>l. l = 2)) = (st, g', w')"
    by (metis prod_cases3)
  have nz: "0 \<notin> set (lock_ptrs sample_grp)" by (simp add: sample_grp_def lock_ptrs_def)
  have st: "st = PJ_RETURN_OS_ERROR 16"
    using r by (simp add: pj_grp_lock_tryacquire_def grp_lock_tryacquire_def sample_grp_def lock_ptrs_def pj_lock_tryacquire_def
        posix_env_def mutex_lock_template_def pj_mutex_trylock_def posix_api_def sample_px_def px_enter_def os_error_not_success
        split: if_splits)
  then have "px_count w' = px_count (sample_px (\<lambda>l. l = 2))"
    using grp_tryacquire_atomic [OF posix.grp_locks_axioms nz r] os_error_not_success [of 16] by simp
  then show ?thesis using r st by (simp add: sample_px_def)
qed

text \<open>C20: for every sequence of calls of one thread that obeys the rules, no call goes wrong, the group is
  not destroyed, its locks stay ordered by priority whatever is chained and unchained meanwhile,
  the nesting depth is what the acquisitions and releases make it, and every lock of the group is
  held exactly once per level of nesting besides what the thread held before.\<close>

theorem grp_run_balanced:
  assumes env: "grp_locks env hold" and inv: "grp_inv env hold base pl own n (g, w)"
    and len: "n + length cs < 2 ^ 32" and ob: "obeys env cs (g, w)"
  shows "\<exists>sts g' w'. grp_run env cs (g, w) = Some (sts, g', w') \<and> gl_pool g' = pl \<and> pl \<noteq> 0 \<and>
    sorted (map li_prio (gl_lock_list g')) \<and>
    gl_owner_cnt g' = gl_owner_cnt g + (\<Sum>(c, st) \<leftarrow> zip cs sts. depth_change c st) \<and> 0 \<le> gl_owner_cnt g' \<and>
    (\<forall>l. hold w' l = base l + nat (gl_owner_cnt g') * count_list (lock_ptrs g') l)"
  using grp_locks.grp_run_inv [OF env inv len ob] by (auto simp: grp_inv_def)

theorem grp_run_balanced_witness:
  "\<exists>sts g' w'. grp_run posix_env [Acquire, Chain 3 (-1), Release] (sample_grp, sample_px (\<lambda>_. False)) = Some (sts, g', w') \<and>
     sorted (map li_prio (gl_lock_list g')) \<and> gl_pool g' = 9"
proof -
  have "obeys posix_env [Acquire, Chain 3 (-1), Release] (sample_grp, sample_px (\<lambda>_. False))"
  proof -
    have "(1 :: nat) + 1 < 2 ^ 32" by simp
    then obtain g1 w1 where a: "grp_lock_acquire posix_env (sample_grp, sample_px (\<lambda>_. False)) = (PJ_SUCCESS, g1, w1)"
      "grp_inv posix_env px_count (\<lambda>_. 0) 9 1 (1 + 1) (g1, w1)" "gl_owner_cnt g1 = gl_owner_cnt sample_grp + 1"
      using posix.acquire_inv [OF sample_inv, of "\<lambda>_. False"] by blast
    obtain g2 w2 where c: "pj_grp_lock_chain_lock posix_env 3 (-1) (g1, w1) = Some (PJ_SUCCESS, g2, w2)" "gl_owner_cnt g2 = gl_owner_cnt g1"
      using posix.chain_inv [OF a(2), of 3 "-1"] by auto
    show ?thesis using a c by (simp add: pj_grp_lock_acquire_def pj_grp_lock_release_def sample_grp_def split: prod.splits)
  qed
  then show ?thesis
    using grp_run_balanced [OF posix.grp_locks_axioms sample_inv, of "[Acquire, Chain 3 (-1), Release]" "\<lambda>_. False"]
    by (simp del: grp_run.simps obeys.simps) blast
qed

text \<open>C21: when a thread that has obeyed the rules and has released all it acquired gives up the last
  reference, the group is destroyed then and not before: no lock is held any more, the handlers
  still registered run once each in the order of their registration, then the own lock and the
  pool go, and destroying the group again has no effect.\<close>

theorem grp_last_reference:
  assumes env: "grp_locks env hold" and inv: "grp_inv env hold base pl own n (g, w)"
    and len: "n + length cs < 2 ^ 32" and ob: "obeys env cs (g, w)"
    and run: "grp_run env cs (g, w) = Some (sts, g', w')" and idle: "gl_owner_cnt g' = 0" and last: "gl_ref_cnt g' = 1"
  shows "\<exists>g'' w''. pj_grp_lock_dec_ref env (g', w') = (PJ_EGONE, g'', w'') \<and> gl_pool g'' = 0 \<and> hold w' = base \<and>
    w'' = ge_pool_release env pl (snd (pj_lock_destroy (ge_locks env) own
      (fold (\<lambda>(c, d). ge_handler env d c) (fold handlers_after cs (cb_pairs (gl_destroy_list g))) w'))) \<and>
    pj_grp_lock_destroy env (g'', w'') = (PJ_EINVAL, g'', w'')"
proof -
  have i: "grp_inv env hold base pl own (n + length cs) (g', w')"
    and h: "cb_pairs (gl_destroy_list g') = fold handlers_after cs (cb_pairs (gl_destroy_list g))"
    using grp_locks.grp_run_inv [OF env inv len ob] run by auto
  have "hold w' = base" using i idle by (auto simp: grp_inv_def)
  moreover have "pj_grp_lock_dec_ref env (g', w') = (PJ_EGONE, g'\<lparr>gl_ref_cnt := 0, gl_pool := 0\<rparr>,
      ge_pool_release env pl (snd (pj_lock_destroy (ge_locks env) own
      (fold (\<lambda>(c, d). ge_handler env d c) (fold handlers_after cs (cb_pairs (gl_destroy_list g))) w'))))"
    using i idle last unfolding h [symmetric]
    by (simp add: pj_grp_lock_dec_ref_def grp_lock_dec_ref_def pj_atomic_dec_and_get_def grp_lock_destroy_def grp_inv_def Let_def
        release_chained_none call_handlers_fold)
  ultimately show ?thesis by (auto simp: pj_grp_lock_destroy_def grp_lock_destroy_def)
qed

theorem grp_last_reference_witness:
  "\<exists>sts g' w' g'' w''. grp_run posix_env [Add_Ref, Dec_Ref] (sample_grp, sample_px (\<lambda>_. False)) = Some (sts, g', w') \<and>
     pj_grp_lock_dec_ref posix_env (g', w') = (PJ_EGONE, g'', w'') \<and> gl_pool g'' = 0 \<and> px_count w' = (\<lambda>_. 0)"
proof -
  let ?w = "sample_px (\<lambda>_. False)"
  have r: "grp_run posix_env [Add_Ref, Dec_Ref] (sample_grp, ?w) = Some ([PJ_SUCCESS, PJ_SUCCESS], sample_grp, ?w)"
    and o: "obeys posix_env [Add_Ref, Dec_Ref] (sample_grp, ?w)"
    by (simp_all add: sample_grp_def pj_grp_lock_add_ref_def grp_lock_add_ref_def pj_grp_lock_dec_ref_def grp_lock_dec_ref_def
        pj_atomic_inc_def pj_atomic_inc_and_get_def pj_atomic_dec_and_get_def Let_def)
  have f: "gl_owner_cnt sample_grp = 0" "gl_ref_cnt sample_grp = 1" by (simp_all add: sample_grp_def)
  have "1 + length [Add_Ref, Dec_Ref] < (2 :: nat) ^ 32" by simp
  from grp_last_reference [OF posix.grp_locks_axioms sample_inv this o r f] r show ?thesis by blast
qed

end
