(* ===== verification/Pj_Sync.thy ===== *)
theory Pj_Sync
  imports Pj_Mutex
begin

text \<open>
  Barriers and events of \<^verbatim>\<open>pjlib/src/pj/os_core_unix.c\<close>, built from a mutex and a condition
  variable (the barrier as it is where POSIX barriers are missing). All fields are accessed under
  the mutex, which is given up only by leaving the function or by waiting on the condition, so
  the code between two such points is one step; the steps are executable functions on the
  object, and a step relation interleaves the threads. A thread waiting on the condition may be
  woken at any time, with or without a signal.
\<close>

section \<open>Barriers\<close>

record pj_barrier_t =
  br_count :: u32
  br_trip_count :: u32
  br_generation :: u32

definition pj_barrier_create ::
  "'w pthread_api \<Rightarrow> nat \<Rightarrow> u32 \<Rightarrow> 'w \<Rightarrow> (pj_status_t + nat \<times> pj_barrier_t) \<times> 'w" where
  "pj_barrier_create api pool trip_count w =
     (if pool = 0 then (Inl PJ_EINVAL, w)
      else (case api_alloc api pool w of (barrier, w) \<Rightarrow>
        if barrier = 0 then (Inl PJ_ENOMEM, w)
        else (case pthread_cond_init api barrier w of (rc, w) \<Rightarrow>
          if PJ_STATUS_FROM_OS rc \<noteq> PJ_SUCCESS then (Inl (PJ_STATUS_FROM_OS rc), w)
          else (case init_mutex api barrier (Some [98, 97, 114, 114, 105, 101, 114, 37, 112]) PJ_MUTEX_SIMPLE w of
              (Inl status, w) \<Rightarrow> (Inl status, snd (pthread_cond_destroy api barrier w))
            | (Inr _, w) \<Rightarrow> (Inr (barrier, \<lparr>br_count = 0, br_trip_count = trip_count, br_generation = 0\<rparr>), w)))))"

definition pj_barrier_destroy :: "'w pthread_api \<Rightarrow> nat \<Rightarrow> 'w \<Rightarrow> pj_status_t \<times> 'w" where
  "pj_barrier_destroy api barrier w = pj_mutex_destroy api barrier (snd (pthread_cond_destroy api barrier w))"

text \<open>\<^verbatim>\<open>pj_barrier_wait\<close> up to its first wait: whether this thread is the last one, which then
  wakes all, and the barrier. And the test after a wait: whether the generation the thread has
  seen is over.\<close>

definition barrier_enter :: "pj_barrier_t \<Rightarrow> bool \<times> pj_barrier_t" where
  "barrier_enter b =
     (let b = b\<lparr>br_count := br_count b + 1\<rparr>
      in if br_count b \<ge> br_trip_count b then (True, b\<lparr>br_count := 0, br_generation := br_generation b + 1\<rparr>)
         else (False, b))"

definition barrier_over :: "u32 \<Rightarrow> pj_barrier_t \<Rightarrow> bool" where
  "barrier_over gen b \<longleftrightarrow> gen \<noteq> br_generation b"

section \<open>Events\<close>

datatype event_state = EV_STATE_OFF | EV_STATE_SET | EV_STATE_PULSED

record pj_event_t =
  ev_state :: event_state
  ev_auto_reset :: bool
  ev_threads_waiting :: int
  ev_threads_to_release :: int

definition pj_event_create ::
  "'w pthread_api \<Rightarrow> nat \<Rightarrow> u8 list option \<Rightarrow> bool \<Rightarrow> bool \<Rightarrow> 'w \<Rightarrow> (pj_status_t + nat \<times> pj_event_t) \<times> 'w" where
  "pj_event_create api pool name manual_reset initial w =
     (case api_alloc api pool w of (event, w) \<Rightarrow>
        if event = 0 then (Inl PJ_ENOMEM, w)
        else (case init_mutex api event name PJ_MUTEX_SIMPLE w of
            (Inl rc, w) \<Rightarrow> (Inl rc, w)
          | (Inr _, w) \<Rightarrow>
              (case pthread_cond_init api event w of (prc, w) \<Rightarrow>
                 if prc \<noteq> 0 then (Inl (PJ_RETURN_OS_ERROR prc), snd (pj_mutex_destroy api event w))
                 else (Inr (event, \<lparr>ev_state = (if initial then EV_STATE_SET else EV_STATE_OFF), ev_auto_reset = \<not> manual_reset,
                        ev_threads_waiting = 0, ev_threads_to_release = (if initial then 1 else 0)\<rparr>), w))))"

definition event_on_one_release :: "pj_event_t \<Rightarrow> pj_event_t" where
  "event_on_one_release e =
     (if ev_state e = EV_STATE_SET then
        if ev_auto_reset e then e\<lparr>ev_threads_to_release := 0, ev_state := EV_STATE_OFF\<rparr> else e
      else
        if ev_auto_reset e then e\<lparr>ev_threads_to_release := 0, ev_state := EV_STATE_OFF\<rparr>
        else
          let e = e\<lparr>ev_threads_to_release := ev_threads_to_release e - 1\<rparr>
          in if ev_threads_to_release e = 0 then e\<lparr>ev_state := EV_STATE_OFF\<rparr> else e)"

text \<open>\<^verbatim>\<open>pj_event_wait\<close>: entering, and what follows the loop once the event is signalled.\<close>

definition event_wait_enter :: "pj_event_t \<Rightarrow> pj_event_t" where
  "event_wait_enter e = e\<lparr>ev_threads_waiting := ev_threads_waiting e + 1\<rparr>"

definition event_wait_leave :: "pj_event_t \<Rightarrow> pj_event_t" where
  "event_wait_leave e = event_on_one_release (e\<lparr>ev_threads_waiting := ev_threads_waiting e - 1\<rparr>)"

definition pj_event_trywait :: "pj_event_t \<Rightarrow> pj_status_t \<times> pj_event_t" where
  "pj_event_trywait e =
     (let status = (if ev_state e \<noteq> EV_STATE_OFF then PJ_SUCCESS else -1)
      in (status, if status = PJ_SUCCESS then event_on_one_release e else e))"

text \<open>Which waiting threads the call signals.\<close>

datatype wake = Wake_None | Wake_One | Wake_All

definition pj_event_set :: "pj_event_t \<Rightarrow> wake \<times> pj_event_t" where
  "pj_event_set e =
     (let e = e\<lparr>ev_threads_to_release := 1, ev_state := EV_STATE_SET\<rparr>
      in (if ev_auto_reset e then Wake_One else Wake_All, e))"

definition pj_event_pulse :: "pj_event_t \<Rightarrow> wake \<times> pj_event_t" where
  "pj_event_pulse e =
     (if ev_threads_waiting e \<noteq> 0 then
        let e = e\<lparr>ev_threads_to_release := (if ev_auto_reset e then 1 else ev_threads_waiting e), ev_state := EV_STATE_PULSED\<rparr>
        in (if ev_threads_to_release e = 1 then Wake_One else Wake_All, e)
      else (Wake_None, e))"

definition pj_event_reset :: "pj_event_t \<Rightarrow> pj_event_t" where
  "pj_event_reset e = e\<lparr>ev_state := EV_STATE_OFF, ev_threads_to_release := 0\<rparr>"

definition pj_event_destroy :: "'w pthread_api \<Rightarrow> nat \<Rightarrow> 'w \<Rightarrow> pj_status_t \<times> 'w" where
  "pj_event_destroy api event w = (PJ_SUCCESS, snd (pthread_cond_destroy api event (snd (pj_mutex_destroy api event w))))"

section \<open>Threads at a barrier\<close>

text \<open>A thread is elsewhere, waiting on the condition with the generation it has seen, or woken and
  about to test again. Beside the program's state the system records the number of the current
  round, how many threads have arrived in each round, the round each thread has last arrived in,
  who was last in each round, and the returns: thread, round, and result.\<close>

datatype bar_pc = Elsewhere | Asleep u32 | Awake u32

record bar_sys =
  bs_bar :: pj_barrier_t
  bs_pc :: "nat \<Rightarrow> bar_pc"
  bs_round :: nat
  bs_arrived :: "nat \<Rightarrow> nat"
  bs_at :: "nat \<Rightarrow> nat"
  bs_last :: "nat \<Rightarrow> nat option"
  bs_returned :: "(nat \<times> nat \<times> bool) list"

fun awaken :: "bar_pc \<Rightarrow> bar_pc" where
  "awaken (Asleep g) = Awake g"
| "awaken pc = pc"

definition arrive :: "nat \<Rightarrow> bar_sys \<Rightarrow> bar_sys" where
  "arrive t s = s\<lparr>bs_arrived := (bs_arrived s)(bs_round s := bs_arrived s (bs_round s) + 1), bs_at := (bs_at s)(t := bs_round s)\<rparr>"

definition return_from :: "nat \<Rightarrow> bool \<Rightarrow> bar_sys \<Rightarrow> bar_sys" where
  "return_from t b s = s\<lparr>bs_returned := (t, bs_at s t, b) # bs_returned s\<rparr>"

definition bar_start :: "u32 \<Rightarrow> bar_sys" where
  "bar_start trip = \<lparr>bs_bar = \<lparr>br_count = 0, br_trip_count = trip, br_generation = 0\<rparr>, bs_pc = (\<lambda>_. Elsewhere), bs_round = 0,
     bs_arrived = (\<lambda>_. 0), bs_at = (\<lambda>_. 0), bs_last = (\<lambda>_. None), bs_returned = []\<rparr>"

inductive bar_step :: "nat \<Rightarrow> bar_sys \<Rightarrow> bar_sys \<Rightarrow> bool" where
  Last: "bs_pc s t = Elsewhere \<Longrightarrow> barrier_enter (bs_bar s) = (True, b) \<Longrightarrow>
    bar_step t s (return_from t True ((arrive t s)\<lparr>bs_bar := b, bs_pc := (\<lambda>u. awaken (bs_pc s u)),
      bs_last := (bs_last s)(bs_round s := Some t), bs_round := bs_round s + 1\<rparr>))"
| Early: "bs_pc s t = Elsewhere \<Longrightarrow> barrier_enter (bs_bar s) = (False, b) \<Longrightarrow>
    bar_step t s ((arrive t s)\<lparr>bs_bar := b, bs_pc := (bs_pc s)(t := Asleep (br_generation b))\<rparr>)"
| Wake: "bs_pc s t = Asleep g \<Longrightarrow> bar_step t s (s\<lparr>bs_pc := (bs_pc s)(t := Awake g)\<rparr>)"
| Again: "bs_pc s t = Awake g \<Longrightarrow> \<not> barrier_over g (bs_bar s) \<Longrightarrow> bar_step t s (s\<lparr>bs_pc := (bs_pc s)(t := Asleep g)\<rparr>)"
| Pass: "bs_pc s t = Awake g \<Longrightarrow> barrier_over g (bs_bar s) \<Longrightarrow>
    bar_step t s (return_from t False (s\<lparr>bs_pc := (bs_pc s)(t := Elsewhere)\<rparr>))"

inductive bar_reachable :: "u32 \<Rightarrow> bar_sys \<Rightarrow> bool" for trip where
  bar_init: "bar_reachable trip (bar_start trip)"
| bar_next: "bar_reachable trip s \<Longrightarrow> bar_step t s s' \<Longrightarrow> bar_reachable trip s'"

inductive_simps bar_step_simps: "bar_step t s s'"

section \<open>Threads at an event\<close>

text \<open>The system records how many waits have succeeded and how many signals were given, a set event
  at creation counting as one.\<close>

datatype ev_pc = Ev_Idle | Ev_Asleep | Ev_Awake

record ev_sys =
  es_event :: pj_event_t
  es_pc :: "nat \<Rightarrow> ev_pc"
  es_released :: nat
  es_signals :: nat

definition ev_start :: "bool \<Rightarrow> bool \<Rightarrow> ev_sys" where
  "ev_start auto_reset initial = \<lparr>es_event = \<lparr>ev_state = (if initial then EV_STATE_SET else EV_STATE_OFF), ev_auto_reset = auto_reset,
       ev_threads_waiting = 0, ev_threads_to_release = (if initial then 1 else 0)\<rparr>,
     es_pc = (\<lambda>_. Ev_Idle), es_released = 0, es_signals = (if initial then 1 else 0)\<rparr>"

text \<open>A signal wakes one thread that sleeps, if there is one.\<close>

inductive woken :: "wake \<Rightarrow> (nat \<Rightarrow> ev_pc) \<Rightarrow> (nat \<Rightarrow> ev_pc) \<Rightarrow> bool" where
  "woken Wake_None pc pc"
| "pc t = Ev_Asleep \<Longrightarrow> woken Wake_One pc (pc(t := Ev_Awake))"
| "\<forall>t. pc t \<noteq> Ev_Asleep \<Longrightarrow> woken Wake_One pc pc"
| "woken Wake_All pc (\<lambda>t. if pc t = Ev_Asleep then Ev_Awake else pc t)"

inductive_simps woken_simps [simp]: "woken Wake_None pc pc'" "woken Wake_One pc pc'" "woken Wake_All pc pc'"

inductive ev_step :: "ev_sys \<Rightarrow> ev_sys \<Rightarrow> bool" where
  Enter_Pass: "es_pc s t = Ev_Idle \<Longrightarrow> ev_state (es_event s) \<noteq> EV_STATE_OFF \<Longrightarrow>
    ev_step s (s\<lparr>es_event := event_wait_leave (event_wait_enter (es_event s)), es_released := es_released s + 1\<rparr>)"
| Enter_Sleep: "es_pc s t = Ev_Idle \<Longrightarrow> ev_state (es_event s) = EV_STATE_OFF \<Longrightarrow>
    ev_step s (s\<lparr>es_event := event_wait_enter (es_event s), es_pc := (es_pc s)(t := Ev_Asleep)\<rparr>)"
| Ev_Wake: "es_pc s t = Ev_Asleep \<Longrightarrow> ev_step s (s\<lparr>es_pc := (es_pc s)(t := Ev_Awake)\<rparr>)"
| Ev_Again: "es_pc s t = Ev_Awake \<Longrightarrow> ev_state (es_event s) = EV_STATE_OFF \<Longrightarrow> ev_step s (s\<lparr>es_pc := (es_pc s)(t := Ev_Asleep)\<rparr>)"
| Ev_Pass: "es_pc s t = Ev_Awake \<Longrightarrow> ev_state (es_event s) \<noteq> EV_STATE_OFF \<Longrightarrow>
    ev_step s (s\<lparr>es_event := event_wait_leave (es_event s), es_pc := (es_pc s)(t := Ev_Idle), es_released := es_released s + 1\<rparr>)"
| Ev_Try: "pj_event_trywait (es_event s) = (st, e) \<Longrightarrow>
    ev_step s (s\<lparr>es_event := e, es_released := es_released s + (if st = PJ_SUCCESS then 1 else 0)\<rparr>)"
| Ev_Set: "pj_event_set (es_event s) = (wk, e) \<Longrightarrow> woken wk (es_pc s) pc \<Longrightarrow>
    ev_step s (s\<lparr>es_event := e, es_pc := pc, es_signals := es_signals s + 1\<rparr>)"
| Ev_Pulse: "pj_event_pulse (es_event s) = (wk, e) \<Longrightarrow> woken wk (es_pc s) pc \<Longrightarrow>
    ev_step s (s\<lparr>es_event := e, es_pc := pc, es_signals := es_signals s + 1\<rparr>)"
| Ev_Reset: "ev_step s (s\<lparr>es_event := pj_event_reset (es_event s)\<rparr>)"

inductive ev_reachable :: "bool \<Rightarrow> bool \<Rightarrow> ev_sys \<Rightarrow> bool" for auto_reset initial where
  ev_init: "ev_reachable auto_reset initial (ev_start auto_reset initial)"
| ev_next: "ev_reachable auto_reset initial s \<Longrightarrow> ev_step s s' \<Longrightarrow> ev_reachable auto_reset initial s'"

section \<open>The invariant of a barrier\<close>

fun seen :: "bar_pc \<Rightarrow> u32 option" where
  "seen Elsewhere = None"
| "seen (Asleep g) = Some g"
| "seen (Awake g) = Some g"

definition bar_inv :: "u32 \<Rightarrow> bar_sys \<Rightarrow> bool" where
  "bar_inv trip s \<longleftrightarrow>
     br_trip_count (bs_bar s) = trip \<and> br_generation (bs_bar s) = of_nat (bs_round s) \<and>
     br_count (bs_bar s) < trip \<and> bs_arrived s (bs_round s) = unat (br_count (bs_bar s)) \<and>
     (\<forall>r < bs_round s. bs_arrived s r = unat trip \<and> bs_last s r \<noteq> None) \<and> (\<forall>r > bs_round s. bs_arrived s r = 0) \<and>
     (\<forall>t g. seen (bs_pc s t) = Some g \<longrightarrow> g = of_nat (bs_at s t) \<and> bs_at s t \<le> bs_round s) \<and>
     (\<forall>t r b. (t, r, b) \<in> set (bs_returned s) \<longrightarrow> r < bs_round s \<and> (b \<longrightarrow> bs_last s r = Some t))"

text \<open>A thread that sleeps has seen the current generation.\<close>

definition sleepers_current :: "bar_sys \<Rightarrow> bool" where
  "sleepers_current s \<longleftrightarrow> (\<forall>t g. bs_pc s t = Asleep g \<longrightarrow> g = br_generation (bs_bar s))"

lemma barrier_enter_last:
  assumes "barrier_enter b = (True, b')" and "br_count b < br_trip_count b"
  shows "unat (br_count b) + 1 = unat (br_trip_count b)" "b' = b\<lparr>br_count := 0, br_generation := br_generation b + 1\<rparr>"
proof -
  have ge: "br_trip_count b \<le> br_count b + 1" and b': "b' = b\<lparr>br_count := 0, br_generation := br_generation b + 1\<rparr>"
    using assms(1) by (auto simp: barrier_enter_def Let_def split: if_splits)
  have lt: "unat (br_count b) < unat (br_trip_count b)" using assms(2) by (simp add: word_less_nat_alt)
  moreover have "unat (br_trip_count b) \<le> unat (br_count b + 1)" using ge by (simp add: word_le_nat_alt)
  moreover have "unat (br_count b + 1) \<le> unat (br_count b) + 1" using unat_word_ariths(1) [of "br_count b" 1] by simp
  ultimately show "unat (br_count b) + 1 = unat (br_trip_count b)" by simp
  show "b' = b\<lparr>br_count := 0, br_generation := br_generation b + 1\<rparr>" by (rule b')
qed

lemma barrier_enter_early:
  assumes "barrier_enter b = (False, b')" and "br_count b < br_trip_count b"
  shows "unat (br_count b + 1) = unat (br_count b) + 1" "br_count b + 1 < br_trip_count b" "b' = b\<lparr>br_count := br_count b + 1\<rparr>"
proof -
  show "br_count b + 1 < br_trip_count b" "b' = b\<lparr>br_count := br_count b + 1\<rparr>"
    using assms(1) by (auto simp: barrier_enter_def Let_def not_le split: if_splits)
  show "unat (br_count b + 1) = unat (br_count b) + 1"
    using assms(2) unat_word_ariths(1) [of "br_count b" 1] unsigned_less [of "br_trip_count b", where ?'a = nat] by (simp add: word_less_nat_alt)
qed

end
