(* ===== verification/Pj_Sync_Props.thy ===== *)
theory Pj_Sync_Props
  imports Pj_Sync
begin

text \<open>
  What barriers and events promise, for every interleaving of any number of threads: invariants of
  the step relations by rule induction.
\<close>

section \<open>Barriers\<close>

lemma bar_inv_start: "0 < trip \<Longrightarrow> bar_inv trip (bar_start trip)"
  by (simp add: bar_inv_def bar_start_def)

lemma seen_awaken [simp]: "seen (awaken pc) = seen pc"
  by (cases pc) simp_all

lemma bar_inv_last:
  assumes i: "bar_inv trip s" and p: "bs_pc s t = Elsewhere" and e: "barrier_enter (bs_bar s) = (True, b)"
  shows "bar_inv trip (return_from t True ((arrive t s)\<lparr>bs_bar := b, bs_pc := (\<lambda>u. awaken (bs_pc s u)),
      bs_last := (bs_last s)(bs_round s := Some t), bs_round := bs_round s + 1\<rparr>))"
proof -
  have lt: "br_count (bs_bar s) < br_trip_count (bs_bar s)" using i by (simp add: bar_inv_def)
  note l = barrier_enter_last [OF e lt]
  have "0 < trip" using lt i by (metis bar_inv_def word_coorder.not_eq_extremum word_not_simps(1))
  moreover have "(u, bs_round s, c) \<notin> set (bs_returned s)" for u c
    using i unfolding bar_inv_def by (metis less_irrefl)
  ultimately show ?thesis using i p l unfolding bar_inv_def return_from_def arrive_def
    by (auto simp: less_Suc_eq le_SucI)
qed

lemma bar_inv_early:
  assumes i: "bar_inv trip s" and e: "barrier_enter (bs_bar s) = (False, b)"
  shows "bar_inv trip ((arrive t s)\<lparr>bs_bar := b, bs_pc := (bs_pc s)(t := Asleep (br_generation b))\<rparr>)"
proof -
  have lt: "br_count (bs_bar s) < br_trip_count (bs_bar s)" using i by (simp add: bar_inv_def)
  note l = barrier_enter_early [OF e lt]
  show ?thesis using i l unfolding bar_inv_def arrive_def by auto
qed

lemma bar_inv_step: "bar_step t s s' \<Longrightarrow> bar_inv trip s \<Longrightarrow> bar_inv trip s'"
proof (induction rule: bar_step.induct)
  case (Last s t b)
  then show ?case using bar_inv_last by blast
next
  case (Early s t b)
  then show ?case using bar_inv_early by blast
next
  case (Pass s t g)
  have "g = of_nat (bs_at s t)" "bs_at s t \<le> bs_round s" "of_nat (bs_round s) = br_generation (bs_bar s)"
    using Pass.prems Pass.hyps(1) by (auto simp: bar_inv_def)
  then have "bs_at s t < bs_round s" using Pass.hyps(2) by (cases "bs_at s t = bs_round s") (auto simp: barrier_over_def)
  moreover have "(t, r, True) \<in> set (bs_returned s) \<Longrightarrow> bs_last s r = Some t" for t r using Pass.prems by (auto simp: bar_inv_def)
  ultimately show ?case using Pass.prems by (auto simp: bar_inv_def return_from_def)
qed (auto simp: bar_inv_def)

lemma bar_inv_reachable: "bar_reachable trip s \<Longrightarrow> 0 < trip \<Longrightarrow> bar_inv trip s"
  by (induction rule: bar_reachable.induct) (auto simp: bar_inv_start intro: bar_inv_step)

lemma sleepers_step: "bar_step t s s' \<Longrightarrow> sleepers_current s \<Longrightarrow> sleepers_current s'"
proof (induction rule: bar_step.induct)
  case (Last s t b)
  have "awaken pc \<noteq> Asleep g" for pc g by (cases pc) simp_all
  then show ?case by (simp add: sleepers_current_def return_from_def)
next
  case (Early s t b)
  have "br_generation b = br_generation (bs_bar s)" using Early(2) by (auto simp: barrier_enter_def Let_def split: if_splits)
  then show ?case using Early(3) by (auto simp: sleepers_current_def arrive_def)
qed (auto simp: sleepers_current_def return_from_def barrier_over_def)

lemma sleepers_reachable: "bar_reachable trip s \<Longrightarrow> sleepers_current s"
proof (induction rule: bar_reachable.induct)
  case bar_init
  then show ?case by (simp add: sleepers_current_def bar_start_def)
qed (auto intro: sleepers_step)

text \<open>Once its round is over a thread gets through: from any state in which it waits it needs at most
  two steps of its own.\<close>

lemma round_over_returns:
  assumes "bar_reachable trip s" and "seen (bs_pc s t) = Some g" and "g \<noteq> br_generation (bs_bar s)"
  shows "bs_pc s t = Awake g \<and> (\<exists>s'. bar_step t s s' \<and> bs_pc s' t = Elsewhere \<and> bs_returned s' = (t, bs_at s t, False) # bs_returned s)"
proof -
  have "bs_pc s t = Awake g"
    using assms sleepers_reachable [OF assms(1)] by (cases "bs_pc s t") (auto simp: sleepers_current_def)
  then have "bar_step t s (return_from t False (s\<lparr>bs_pc := (bs_pc s)(t := Elsewhere)\<rparr>))"
    using assms(3) by (intro bar_step.Pass) (auto simp: barrier_over_def)
  then show ?thesis using \<open>bs_pc s t = Awake g\<close> by (intro conjI exI) (auto simp: return_from_def)
qed

section \<open>Events\<close>





lemma one_release_fields [simp]:
  "ev_auto_reset (event_on_one_release e) = ev_auto_reset e"
  "ev_threads_waiting (event_on_one_release e) = ev_threads_waiting e"
  by (simp_all add: event_on_one_release_def Let_def)

lemma one_release_auto: "ev_auto_reset e \<Longrightarrow> ev_state (event_on_one_release e) = EV_STATE_OFF"
  by (simp add: event_on_one_release_def)

lemma wait_leave_fields [simp]:
  "ev_auto_reset (event_wait_leave e) = ev_auto_reset e"
  "ev_threads_waiting (event_wait_leave e) = ev_threads_waiting e - 1"
  "ev_auto_reset e \<Longrightarrow> ev_state (event_wait_leave e) = EV_STATE_OFF"
  by (simp_all add: event_wait_leave_def one_release_auto)

lemma wait_enter_fields [simp]:
  "ev_auto_reset (event_wait_enter e) = ev_auto_reset e"
  "ev_threads_waiting (event_wait_enter e) = ev_threads_waiting e + 1"
  "ev_state (event_wait_enter e) = ev_state e"
  by (simp_all add: event_wait_enter_def)













section \<open>Properties\<close>

text \<open>The witnesses use a barrier for two threads: thread 1 arrives and sleeps, thread 2 completes the
  round.\<close>

definition bar_one :: bar_sys where
  "bar_one = (arrive 1 (bar_start 2))\<lparr>bs_bar := \<lparr>br_count = 1, br_trip_count = 2, br_generation = 0\<rparr>,
     bs_pc := (\<lambda>_. Elsewhere)(1 := Asleep 0)\<rparr>"

definition bar_two :: bar_sys where
  "bar_two = return_from 2 True ((arrive 2 bar_one)\<lparr>bs_bar := \<lparr>br_count = 0, br_trip_count = 2, br_generation = 1\<rparr>,
     bs_pc := (\<lambda>u. awaken (bs_pc bar_one u)), bs_last := (bs_last bar_one)(0 := Some 2), bs_round := 1\<rparr>)"

lemma bar_two_reachable: "bar_reachable 2 bar_two"
proof -
  have e1: "barrier_enter (bs_bar (bar_start 2)) = (False, \<lparr>br_count = 1, br_trip_count = 2, br_generation = 0\<rparr>)"
    by (simp add: barrier_enter_def bar_start_def Let_def word_le_nat_alt)
  have "bar_step 1 (bar_start 2) bar_one"
    using bar_step.Early [OF _ e1, of 1] by (simp add: bar_one_def) (simp add: bar_start_def)
  then have r: "bar_reachable 2 bar_one" using bar_reachable.intros by blast
  have e2: "barrier_enter (bs_bar bar_one) = (True, \<lparr>br_count = 0, br_trip_count = 2, br_generation = 1\<rparr>)"
    by (simp add: barrier_enter_def bar_one_def Let_def)
  have p: "bs_pc bar_one 2 = Elsewhere" "bs_round bar_one = 0" by (simp_all add: bar_one_def arrive_def bar_start_def)
  have "bar_step 2 bar_one bar_two" using bar_step.Last [OF p(1) e2] p(2) by (simp add: bar_two_def)
  with r show ?thesis using bar_reachable.intros by blast
qed



text \<open>C23: no wake-up is lost at a barrier. A thread that waits in the current round waits for threads that
  have not arrived yet; once its round is over, and fewer than $2^{32}$ rounds have passed since,
  it is not asleep, and its next step returns.\<close>

theorem barrier_wakes:
  assumes "bar_reachable trip s" and "0 < trip" and "bs_pc s t \<noteq> Elsewhere" and "bs_round s < bs_at s t + 2 ^ 32"
  shows "if bs_at s t = bs_round s then bs_arrived s (bs_round s) < unat trip
    else (\<forall>g. bs_pc s t \<noteq> Asleep g) \<and>
      (\<exists>s'. bar_step t s s' \<and> bs_pc s' t = Elsewhere \<and> bs_returned s' = (t, bs_at s t, False) # bs_returned s)"
proof -
  note i = bar_inv_reachable [OF assms(1,2)]
  obtain g where g: "seen (bs_pc s t) = Some g" using assms(3) by (cases "bs_pc s t") auto
  have a: "g = of_nat (bs_at s t)" "bs_at s t \<le> bs_round s" "br_generation (bs_bar s) = of_nat (bs_round s)"
    using i g by (auto simp: bar_inv_def)
  show ?thesis
  proof (cases "bs_at s t = bs_round s")
    case True
    then show ?thesis using i by (auto simp: bar_inv_def word_less_nat_alt)
  next
    case False
    have "g \<noteq> br_generation (bs_bar s)"
    proof
      assume "g = br_generation (bs_bar s)"
      then have "(of_nat (bs_round s - bs_at s t) :: u32) = 0" using a by (simp add: of_nat_diff)
      then have "2 ^ 32 dvd bs_round s - bs_at s t" by (simp add: word_of_nat_eq_0_iff)
      then show False using False a(2) assms(4) by (auto dest: dvd_imp_le)
    qed
    from round_over_returns [OF assms(1) g this] show ?thesis using False by auto
  qed
qed

theorem barrier_wakes_witness:
  "\<exists>s'. bar_step 1 bar_two s' \<and> bs_pc s' 1 = Elsewhere \<and> bs_returned s' = (1, 0, False) # bs_returned bar_two"
proof -
  have f: "bs_pc bar_two 1 \<noteq> Elsewhere" "bs_at bar_two 1 = 0" "bs_round bar_two = 1"
    by (simp_all add: bar_two_def return_from_def arrive_def bar_one_def bar_start_def)
  then show ?thesis using barrier_wakes [OF bar_two_reachable _ f(1)] by simp
qed



end
