(* ===== verification/Pj_Sock.thy ===== *)
theory Pj_Sock
  imports Pj_Time Pj_Mutex
begin

text \<open>
  Sockets: the descriptor sets of \<^verbatim>\<open>pjlib/src/pj/sock_select.c\<close> and the wrappers of
  \<^verbatim>\<open>pjlib/src/pj/sock_bsd.c\<close> the I/O queue calls. The socket functions of the operating system are a
  parameter, a record of functions on the state of the system; a failing function leaves its
  error number to be read with \<^verbatim>\<open>net_errno\<close>. Buffers, addresses and variables passed to the system
  are named by their address, zero the null pointer.
\<close>

section \<open>The socket functions of the system\<close>

datatype sockopt = SO_TYPE | SO_ERROR

record 'w sock_api =
  bsd_close :: "int \<Rightarrow> 'w \<Rightarrow> int \<times> 'w"
  bsd_getsockname :: "int \<Rightarrow> nat \<Rightarrow> nat \<Rightarrow> 'w \<Rightarrow> int \<times> 'w"
  bsd_send :: "int \<Rightarrow> nat \<Rightarrow> int \<Rightarrow> u32 \<Rightarrow> 'w \<Rightarrow> int \<times> 'w"
  bsd_sendto :: "int \<Rightarrow> nat \<Rightarrow> int \<Rightarrow> u32 \<Rightarrow> nat \<Rightarrow> int \<Rightarrow> 'w \<Rightarrow> int \<times> 'w"
  bsd_recv :: "int \<Rightarrow> nat \<Rightarrow> int \<Rightarrow> u32 \<Rightarrow> 'w \<Rightarrow> int \<times> 'w"
  bsd_recvfrom :: "int \<Rightarrow> nat \<Rightarrow> int \<Rightarrow> u32 \<Rightarrow> nat \<Rightarrow> nat \<Rightarrow> 'w \<Rightarrow> int \<times> 'w"
  bsd_read :: "int \<Rightarrow> nat \<Rightarrow> int \<Rightarrow> 'w \<Rightarrow> int \<times> 'w"
  bsd_getsockopt :: "int \<Rightarrow> sockopt \<Rightarrow> 'w \<Rightarrow> int \<times> int \<times> 'w"
  bsd_connect :: "int \<Rightarrow> nat \<Rightarrow> int \<Rightarrow> 'w \<Rightarrow> int \<times> 'w"
  bsd_accept :: "int \<Rightarrow> nat \<Rightarrow> nat \<Rightarrow> 'w \<Rightarrow> int \<times> 'w"
  bsd_select :: "int \<Rightarrow> int set \<Rightarrow> int set \<Rightarrow> int set \<Rightarrow> pj_time_val option \<Rightarrow> 'w \<Rightarrow> int \<times> int set \<times> int set \<times> int set \<times> 'w"
  fcntl_getfl :: "int \<Rightarrow> 'w \<Rightarrow> int \<times> 'w"
  fcntl_setfl_nonblock :: "int \<Rightarrow> int \<Rightarrow> 'w \<Rightarrow> int \<times> 'w"
  net_errno :: "'w \<Rightarrow> int"
  gettickcount :: "'w \<Rightarrow> pj_time_val \<times> 'w"
  MSG_NOSIGNAL :: u32
  SOCK_STREAM :: int
  SOCK_DGRAM :: int
  EWOULDBLOCK :: int
  EINPROGRESS :: int
  FD_SETSIZE :: int
  sizeof_fd_set :: int
  sizeof_pj_sockaddr :: int

definition PJ_INVALID_SOCKET :: int where "PJ_INVALID_SOCKET = -1"
definition PJ_EBUSY :: pj_status_t where "PJ_EBUSY = PJ_ERRNO_START_STATUS + 11"

section \<open>Descriptor sets\<close>

text \<open>\<^verbatim>\<open>pj_fd_set_t\<close>: a count in front of the system's set.\<close>

record pj_fd_set_t =
  part_count :: int
  part_fdset :: "int set"

definition PJ_FD_ZERO :: pj_fd_set_t where
  "PJ_FD_ZERO = \<lparr>part_count = 0, part_fdset = {}\<rparr>"

definition PJ_FD_ISSET :: "int \<Rightarrow> pj_fd_set_t \<Rightarrow> bool" where
  "PJ_FD_ISSET fd s \<longleftrightarrow> fd \<in> part_fdset s"

definition PJ_FD_SET :: "int \<Rightarrow> pj_fd_set_t \<Rightarrow> pj_fd_set_t" where
  "PJ_FD_SET fd s =
     (let s = (if \<not> PJ_FD_ISSET fd s then s\<lparr>part_count := part_count s + 1\<rparr> else s)
      in s\<lparr>part_fdset := insert fd (part_fdset s)\<rparr>)"

definition PJ_FD_CLR :: "int \<Rightarrow> pj_fd_set_t \<Rightarrow> pj_fd_set_t" where
  "PJ_FD_CLR fd s =
     (let s = (if PJ_FD_ISSET fd s then s\<lparr>part_count := part_count s - 1\<rparr> else s)
      in s\<lparr>part_fdset := part_fdset s - {fd}\<rparr>)"

definition PJ_FD_COUNT :: "pj_fd_set_t \<Rightarrow> int" where
  "PJ_FD_COUNT s = part_count s"

text \<open>The count is the number of descriptors in the set.\<close>

definition fd_set_ok :: "pj_fd_set_t \<Rightarrow> bool" where
  "fd_set_ok s \<longleftrightarrow> finite (part_fdset s) \<and> part_count s = int (card (part_fdset s))"

lemma fd_isset_simps [simp]:
  "PJ_FD_ISSET fd PJ_FD_ZERO \<longleftrightarrow> False"
  "PJ_FD_ISSET fd (PJ_FD_SET fd' s) \<longleftrightarrow> fd = fd' \<or> PJ_FD_ISSET fd s"
  "PJ_FD_ISSET fd (PJ_FD_CLR fd' s) \<longleftrightarrow> fd \<noteq> fd' \<and> PJ_FD_ISSET fd s"
  by (auto simp: PJ_FD_ISSET_def PJ_FD_ZERO_def PJ_FD_SET_def PJ_FD_CLR_def Let_def)

lemma fd_set_ok_simps [simp]:
  "fd_set_ok PJ_FD_ZERO"
  "fd_set_ok s \<Longrightarrow> fd_set_ok (PJ_FD_SET fd s)"
  "fd_set_ok s \<Longrightarrow> fd_set_ok (PJ_FD_CLR fd s)"
proof -
  assume ok: "fd_set_ok s"
  then show "fd_set_ok (PJ_FD_SET fd s)"
    by (auto simp: fd_set_ok_def PJ_FD_SET_def PJ_FD_ISSET_def Let_def insert_absorb)
  show "fd_set_ok (PJ_FD_CLR fd s)"
  proof (cases "fd \<in> part_fdset s")
    case True
    then have "0 < card (part_fdset s)" using ok by (auto simp: fd_set_ok_def card_gt_0_iff)
    with True ok show ?thesis by (auto simp: fd_set_ok_def PJ_FD_CLR_def PJ_FD_ISSET_def Let_def of_nat_diff)
  qed (use ok in \<open>auto simp: fd_set_ok_def PJ_FD_CLR_def PJ_FD_ISSET_def Let_def\<close>)
qed (simp add: fd_set_ok_def PJ_FD_ZERO_def)

lemma fd_count_empty: "fd_set_ok s \<Longrightarrow> PJ_FD_COUNT s = 0 \<longleftrightarrow> (\<forall>fd. \<not> PJ_FD_ISSET fd s)"
  by (auto simp: fd_set_ok_def PJ_FD_COUNT_def PJ_FD_ISSET_def)

text \<open>\<^verbatim>\<open>select\<close> rewrites the sets, not their counts.\<close>

definition pj_sock_select ::
  "'w sock_api \<Rightarrow> int \<Rightarrow> pj_fd_set_t \<Rightarrow> pj_fd_set_t \<Rightarrow> pj_fd_set_t \<Rightarrow> pj_time_val option \<Rightarrow> 'w
   \<Rightarrow> int \<times> pj_fd_set_t \<times> pj_fd_set_t \<times> pj_fd_set_t \<times> 'w" where
  "pj_sock_select api n readfds writefds exceptfds timeout w =
     (case bsd_select api n (part_fdset readfds) (part_fdset writefds) (part_fdset exceptfds) timeout w of
        (count, r, wr, x, w) \<Rightarrow>
          (count, readfds\<lparr>part_fdset := r\<rparr>, writefds\<lparr>part_fdset := wr\<rparr>, exceptfds\<lparr>part_fdset := x\<rparr>, w))"

section \<open>Socket wrappers\<close>

text \<open>Each returns the status; a length that is passed by reference is returned beside it, on an
  error as well.\<close>

definition pj_sock_close :: "'w sock_api \<Rightarrow> int \<Rightarrow> 'w \<Rightarrow> pj_status_t \<times> 'w" where
  "pj_sock_close api sock w =
     (case bsd_close api sock w of (rc, w) \<Rightarrow>
        (if rc \<noteq> 0 then PJ_RETURN_OS_ERROR (net_errno api w) else PJ_SUCCESS, w))"

definition pj_sock_getsockname :: "'w sock_api \<Rightarrow> int \<Rightarrow> nat \<Rightarrow> nat \<Rightarrow> 'w \<Rightarrow> pj_status_t \<times> 'w" where
  "pj_sock_getsockname api sock addr namelen w =
     (case bsd_getsockname api sock addr namelen w of (rc, w) \<Rightarrow>
        (if rc \<noteq> 0 then PJ_RETURN_OS_ERROR (net_errno api w) else PJ_SUCCESS, w))"

definition pj_sock_send ::
  "'w sock_api \<Rightarrow> int \<Rightarrow> nat \<Rightarrow> int \<Rightarrow> u32 \<Rightarrow> 'w \<Rightarrow> pj_status_t \<times> int \<times> 'w" where
  "pj_sock_send api sock buf len flags w =
     (case bsd_send api sock buf len (flags OR MSG_NOSIGNAL api) w of (len, w) \<Rightarrow>
        (if len < 0 then PJ_RETURN_OS_ERROR (net_errno api w) else PJ_SUCCESS, len, w))"

definition pj_sock_sendto ::
  "'w sock_api \<Rightarrow> int \<Rightarrow> nat \<Rightarrow> int \<Rightarrow> u32 \<Rightarrow> nat \<Rightarrow> int \<Rightarrow> 'w \<Rightarrow> pj_status_t \<times> int \<times> 'w" where
  "pj_sock_sendto api sock buf len flags to tolen w =
     (case bsd_sendto api sock buf len (flags OR MSG_NOSIGNAL api) to tolen w of (len, w) \<Rightarrow>
        (if len < 0 then PJ_RETURN_OS_ERROR (net_errno api w) else PJ_SUCCESS, len, w))"

definition pj_sock_recv ::
  "'w sock_api \<Rightarrow> int \<Rightarrow> nat \<Rightarrow> int \<Rightarrow> u32 \<Rightarrow> 'w \<Rightarrow> pj_status_t \<times> int \<times> 'w" where
  "pj_sock_recv api sock buf len flags w =
     (if buf = 0 then (PJ_EINVAL, len, w)
      else (case bsd_recv api sock buf len flags w of (len, w) \<Rightarrow>
        (if len < 0 then PJ_RETURN_OS_ERROR (net_errno api w) else PJ_SUCCESS, len, w)))"

definition pj_sock_recvfrom ::
  "'w sock_api \<Rightarrow> int \<Rightarrow> nat \<Rightarrow> int \<Rightarrow> u32 \<Rightarrow> nat \<Rightarrow> nat \<Rightarrow> 'w \<Rightarrow> pj_status_t \<times> int \<times> 'w" where
  "pj_sock_recvfrom api sock buf len flags from fromlen w =
     (if buf = 0 then (PJ_EINVAL, len, w)
      else (case bsd_recvfrom api sock buf len flags from fromlen w of (len, w) \<Rightarrow>
        (if len < 0 then PJ_RETURN_OS_ERROR (net_errno api w) else PJ_SUCCESS, len, w)))"

text \<open>The value of an option is returned beside the status, zero when the call fails.\<close>

definition pj_sock_getsockopt :: "'w sock_api \<Rightarrow> int \<Rightarrow> sockopt \<Rightarrow> 'w \<Rightarrow> pj_status_t \<times> int \<times> 'w" where
  "pj_sock_getsockopt api sock opt w =
     (case bsd_getsockopt api sock opt w of (rc, val, w) \<Rightarrow>
        if rc \<noteq> 0 then (PJ_RETURN_OS_ERROR (net_errno api w), 0, w) else (PJ_SUCCESS, val, w))"

definition pj_sock_connect :: "'w sock_api \<Rightarrow> int \<Rightarrow> nat \<Rightarrow> int \<Rightarrow> 'w \<Rightarrow> pj_status_t \<times> 'w" where
  "pj_sock_connect api sock addr namelen w =
     (case bsd_connect api sock addr namelen w of (rc, w) \<Rightarrow>
        (if rc \<noteq> 0 then PJ_RETURN_OS_ERROR (net_errno api w) else PJ_SUCCESS, w))"

text \<open>The new socket, or the invalid socket, is what the call stores in the caller's variable.\<close>

definition pj_sock_accept :: "'w sock_api \<Rightarrow> int \<Rightarrow> nat \<Rightarrow> nat \<Rightarrow> 'w \<Rightarrow> pj_status_t \<times> int \<times> 'w" where
  "pj_sock_accept api serverfd addr addrlen w =
     (case bsd_accept api serverfd addr addrlen w of (newsock, w) \<Rightarrow>
        (if newsock = PJ_INVALID_SOCKET then PJ_RETURN_OS_ERROR (net_errno api w) else PJ_SUCCESS, newsock, w))"

text \<open>\<^verbatim>\<open>set_nonblocking\<close> of \<^verbatim>\<open>ioqueue_select.c\<close>, the variant for Zephyr.\<close>

definition set_nonblocking :: "'w sock_api \<Rightarrow> int \<Rightarrow> 'w \<Rightarrow> int \<times> 'w" where
  "set_nonblocking api sock w =
     (case fcntl_getfl api sock w of (flags, w) \<Rightarrow>
        if flags < 0 then (-1, w) else fcntl_setfl_nonblock api sock flags w)"

end
