(* ===== verification/Pj_Ioqueue.thy ===== *)
theory Pj_Ioqueue
  imports Pj_Sock
begin

text \<open>
  The I/O queue over \<^verbatim>\<open>select\<close>: \<^verbatim>\<open>pjlib/src/pj/ioqueue_select.c\<close> and
  \<^verbatim>\<open>ioqueue_common_abs.c\<close>, in the configuration of the port (safe unregistration, callbacks
  without the key's lock, fast track, TCP).

  The functions run in many threads at once. Everything between taking the lock of a key and
  giving it up, or the lock of the queue where it is taken alone, is one section here; so is every
  access made without a lock. A section is an executable function on the state of the queue,
  and returns with the new state what the thread does next, as a list of frames: the sections
  that follow, and \<^verbatim>\<open>App\<close> where code of the application runs, in a callback. Three
  functions hold the key's lock over a callback when concurrency is disabled (accepted and failed
  connections); it is not held here, which allows more interleavings than the program has.
\<close>

section \<open>Data\<close>

datatype pj_ioqueue_operation_e =
    PJ_IOQUEUE_OP_NONE | PJ_IOQUEUE_OP_READ | PJ_IOQUEUE_OP_RECV | PJ_IOQUEUE_OP_RECV_FROM
  | PJ_IOQUEUE_OP_WRITE | PJ_IOQUEUE_OP_SEND | PJ_IOQUEUE_OP_SEND_TO | PJ_IOQUEUE_OP_ACCEPT | PJ_IOQUEUE_OP_CONNECT

text \<open>\<^verbatim>\<open>union operation_key\<close>. The members that a kind of operation does not have are not used.\<close>

record operation_key =
  op_op :: pj_ioqueue_operation_e
  op_buf :: nat
  op_size :: int
  op_flags :: u32
  op_rmt_addr :: nat
  op_rmt_addrlen :: int
  op_bytes_read :: int
  op_written :: int
  op_accept_fd :: nat
  op_local_addr :: nat
  op_addrlen :: nat

text \<open>Callbacks are named by their address, zero for none.\<close>

record pj_ioqueue_callback =
  on_read_complete :: nat
  on_write_complete :: nat
  on_accept_complete :: nat
  on_connect_complete :: nat

record pj_ioqueue_key_t =
  key_grp_lock :: nat
  key_closing :: bool
  key_read_thread :: nat
  key_write_thread :: nat
  key_concurrent :: bool
  key_fd :: int
  key_fd_type :: int
  key_user_data :: nat
  key_cb :: pj_ioqueue_callback
  key_connecting :: bool
  key_read_list :: "nat list"
  key_write_list :: "nat list"
  key_accept_list :: "nat list"
  key_read_cb_list :: "nat list"
  key_write_cb_list :: "nat list"
  key_ref_count :: int
  key_free_time :: pj_time_val

text \<open>The calls of the application. \<^verbatim>\<open>Recv\<close> is \<^verbatim>\<open>pj_ioqueue_recv\<close>, and \<^verbatim>\<open>pj_ioqueue_recvfrom\<close> where
  an address and a variable for its length are given; \<^verbatim>\<open>Send\<close> likewise.\<close>

datatype io_call =
    Recv nat nat nat int u32 "(nat \<times> nat) option"
  | Send nat nat nat int u32 "(nat \<times> int) option"
  | Accept nat nat nat nat nat nat
  | Connect nat nat int
  | Post_Completion nat nat int
  | Clear_Key nat
  | Unregister nat
  | Register int nat nat "pj_ioqueue_callback option"
  | Poll "pj_time_val option"
  | Set_Concurrency nat bool

datatype ioqueue_event_type = READABLE_EVENT | WRITEABLE_EVENT | EXCEPTION_EVENT

text \<open>What a thread does next.\<close>

datatype io_frame =
    App
  | Start io_call | Check_Op io_call | Check_List io_call | Try io_call | Spin io_call nat | Commit io_call
  | Finish io_call
  | Post_Read io_call nat nat int | Post_Write io_call nat nat int | Post_Accept io_call nat nat int
  | Clear_Read io_call nat nat | Clear_Write io_call nat nat
  | Drain nat | Drain_Own nat | Drain_Wait nat nat | Cancel nat | Clear_Cb nat | Dec nat | Un_Grp nat
  | Select pj_fd_set_t pj_fd_set_t pj_fd_set_t int "pj_time_val option"
  | Scan pj_fd_set_t pj_fd_set_t pj_fd_set_t
  | Events "(nat \<times> ioqueue_event_type) list" nat
  | Dispatch nat ioqueue_event_type "(nat \<times> ioqueue_event_type) list" nat
  | Unref nat "(nat \<times> ioqueue_event_type) list" nat
  | Unref_Grp nat "(nat \<times> ioqueue_event_type) list" nat
  | Cb_Read nat nat nat | Cb_Write nat nat | Cb_Accept nat nat pj_status_t | Cb_Connect nat pj_status_t | Cb_Except nat
  | Call_Read nat nat | Call_Write nat nat | Read_Loop nat | Write_Loop nat | Grp_Dec nat

text \<open>What is recorded of a run: the callbacks, the results of the calls (status, and length, key
  or count), and the bytes that \<^verbatim>\<open>pj_sock_send\<close> took on a key: first address and number.\<close>

datatype io_event =
    Read_Complete nat nat nat int | Write_Complete nat nat nat int
  | Accept_Complete nat nat nat int pj_status_t | Connect_Complete nat nat pj_status_t
  | Returned nat io_call pj_status_t int
  | Sent nat nat int

text \<open>The queue, and with it the memory its functions work on: the keys, the operation keys, the
  socket variables of the callers; how many references it holds on each group lock; the state of
  the system; and the record of the run.\<close>

record 'w pj_ioqueue_t =
  iq_max :: int
  iq_count :: int
  iq_nfds :: int
  iq_default_concurrency :: bool
  iq_active_list :: "nat list"
  iq_closing_list :: "nat list"
  iq_free_list :: "nat list"
  iq_rfdset :: pj_fd_set_t
  iq_wfdset :: pj_fd_set_t
  iq_xfdset :: pj_fd_set_t
  io_keys :: "nat \<Rightarrow> pj_ioqueue_key_t"
  io_ops :: "nat \<Rightarrow> operation_key"
  io_socks :: "nat \<Rightarrow> int"
  io_grp_refs :: "nat \<Rightarrow> int"
  io_world :: 'w
  io_log :: "io_event list"

definition PJ_IOQUEUE_MAX_HANDLES :: int where "PJ_IOQUEUE_MAX_HANDLES = 32"
definition PJ_IOQUEUE_ALWAYS_ASYNC :: u32 where "PJ_IOQUEUE_ALWAYS_ASYNC = push_bit 31 1"
definition PJ_IOQUEUE_KEY_FREE_DELAY :: int where "PJ_IOQUEUE_KEY_FREE_DELAY = 500"
definition PJ_IOQUEUE_MAX_EVENTS_IN_SINGLE_POLL :: nat where "PJ_IOQUEUE_MAX_EVENTS_IN_SINGLE_POLL = 16"
definition PJ_IOQUEUE_MAX_CAND_EVENTS :: nat where "PJ_IOQUEUE_MAX_CAND_EVENTS = 16"
definition PENDING_RETRY :: nat where "PENDING_RETRY = 2"

abbreviation key_of :: "'w pj_ioqueue_t \<Rightarrow> nat \<Rightarrow> pj_ioqueue_key_t" where "key_of s h \<equiv> io_keys s h"
abbreviation op_of :: "'w pj_ioqueue_t \<Rightarrow> nat \<Rightarrow> operation_key" where "op_of s x \<equiv> io_ops s x"

definition upd_key :: "nat \<Rightarrow> (pj_ioqueue_key_t \<Rightarrow> pj_ioqueue_key_t) \<Rightarrow> 'w pj_ioqueue_t \<Rightarrow> 'w pj_ioqueue_t" where
  "upd_key h f s = s\<lparr>io_keys := (io_keys s)(h := f (io_keys s h))\<rparr>"

definition upd_op :: "nat \<Rightarrow> (operation_key \<Rightarrow> operation_key) \<Rightarrow> 'w pj_ioqueue_t \<Rightarrow> 'w pj_ioqueue_t" where
  "upd_op x f s = s\<lparr>io_ops := (io_ops s)(x := f (io_ops s x))\<rparr>"

definition add_log :: "io_event \<Rightarrow> 'w pj_ioqueue_t \<Rightarrow> 'w pj_ioqueue_t" where
  "add_log e s = s\<lparr>io_log := e # io_log s\<rparr>"

definition ret :: "nat \<Rightarrow> io_call \<Rightarrow> pj_status_t \<Rightarrow> int \<Rightarrow> 'w pj_ioqueue_t \<Rightarrow> io_frame list \<times> 'w pj_ioqueue_t" where
  "ret t c status n s = ([], add_log (Returned t c status n) s)"

text \<open>\<^verbatim>\<open>pj_grp_lock_add_ref\<close> and \<^verbatim>\<open>pj_grp_lock_dec_ref\<close> on the group lock of a key that has one.\<close>

definition grp_ref :: "nat \<Rightarrow> int \<Rightarrow> 'w pj_ioqueue_t \<Rightarrow> 'w pj_ioqueue_t" where
  "grp_ref g n s = (if g \<noteq> 0 then s\<lparr>io_grp_refs := (io_grp_refs s)(g := io_grp_refs s g + n)\<rparr> else s)"

definition key_has_pending_write :: "pj_ioqueue_key_t \<Rightarrow> bool" where
  "key_has_pending_write key \<longleftrightarrow> key_write_list key \<noteq> []"

definition key_has_pending_read :: "pj_ioqueue_key_t \<Rightarrow> bool" where
  "key_has_pending_read key \<longleftrightarrow> key_read_list key \<noteq> []"

definition key_has_pending_accept :: "pj_ioqueue_key_t \<Rightarrow> bool" where
  "key_has_pending_accept key \<longleftrightarrow> key_accept_list key \<noteq> []"

definition key_has_pending_connect :: "pj_ioqueue_key_t \<Rightarrow> bool" where
  "key_has_pending_connect key \<longleftrightarrow> key_connecting key"

section \<open>Descriptor sets of the queue\<close>

definition ioqueue_remove_from_set2 :: "nat \<Rightarrow> ioqueue_event_type set \<Rightarrow> 'w pj_ioqueue_t \<Rightarrow> 'w pj_ioqueue_t" where
  "ioqueue_remove_from_set2 h event_types s =
     (let fd = key_fd (key_of s h);
          s = (if READABLE_EVENT \<in> event_types then s\<lparr>iq_rfdset := PJ_FD_CLR fd (iq_rfdset s)\<rparr> else s);
          s = (if WRITEABLE_EVENT \<in> event_types then s\<lparr>iq_wfdset := PJ_FD_CLR fd (iq_wfdset s)\<rparr> else s)
      in if EXCEPTION_EVENT \<in> event_types then s\<lparr>iq_xfdset := PJ_FD_CLR fd (iq_xfdset s)\<rparr> else s)"

definition ioqueue_remove_from_set :: "nat \<Rightarrow> ioqueue_event_type \<Rightarrow> 'w pj_ioqueue_t \<Rightarrow> 'w pj_ioqueue_t" where
  "ioqueue_remove_from_set h event_type s = ioqueue_remove_from_set2 h {event_type} s"

definition ioqueue_add_to_set2 :: "nat \<Rightarrow> ioqueue_event_type set \<Rightarrow> 'w pj_ioqueue_t \<Rightarrow> 'w pj_ioqueue_t" where
  "ioqueue_add_to_set2 h event_types s =
     (let fd = key_fd (key_of s h);
          s = (if READABLE_EVENT \<in> event_types then s\<lparr>iq_rfdset := PJ_FD_SET fd (iq_rfdset s)\<rparr> else s);
          s = (if WRITEABLE_EVENT \<in> event_types then s\<lparr>iq_wfdset := PJ_FD_SET fd (iq_wfdset s)\<rparr> else s)
      in if EXCEPTION_EVENT \<in> event_types then s\<lparr>iq_xfdset := PJ_FD_SET fd (iq_xfdset s)\<rparr> else s)"

definition ioqueue_add_to_set :: "nat \<Rightarrow> ioqueue_event_type \<Rightarrow> 'w pj_ioqueue_t \<Rightarrow> 'w pj_ioqueue_t" where
  "ioqueue_add_to_set h event_type s = ioqueue_add_to_set2 h {event_type} s"

text \<open>The largest descriptor of the active keys, and at least zero.\<close>

definition rescan_fdset :: "'w pj_ioqueue_t \<Rightarrow> 'w pj_ioqueue_t" where
  "rescan_fdset s =
     s\<lparr>iq_nfds := foldl (\<lambda>mx h. if key_fd (key_of s h) > mx then key_fd (key_of s h) else mx) 0 (iq_active_list s)\<rparr>"

section \<open>Creation\<close>

text \<open>The keys are created with the queue, all in the free list; their contents are what the memory
  holds, but for the reference count. Creating and destroying the locks of the keys, the mutex of
  the reference counts and the lock of the queue are calls of the lock component.\<close>

record 'w ioqueue_locks =
  key_lock_create :: "nat \<Rightarrow> 'w \<Rightarrow> pj_status_t \<times> 'w"
  key_lock_destroy :: "nat \<Rightarrow> 'w \<Rightarrow> 'w"
  ref_cnt_mutex_create :: "'w \<Rightarrow> pj_status_t \<times> 'w"
  ref_cnt_mutex_destroy :: "'w \<Rightarrow> 'w"
  ioq_lock_create :: "'w \<Rightarrow> pj_status_t \<times> 'w"
  ioq_lock_acquire :: "'w \<Rightarrow> 'w"
  ioq_lock_release :: "'w \<Rightarrow> 'w"
  ioq_lock_destroy :: "'w \<Rightarrow> pj_status_t \<times> 'w"

definition destroy_key_locks :: "'w ioqueue_locks \<Rightarrow> nat list \<Rightarrow> 'w \<Rightarrow> 'w" where
  "destroy_key_locks L hs w = fold (key_lock_destroy L) hs w"

fun create_keys :: "'w ioqueue_locks \<Rightarrow> nat list \<Rightarrow> 'w pj_ioqueue_t \<Rightarrow> pj_status_t \<times> 'w pj_ioqueue_t" where
  "create_keys L [] s = (PJ_SUCCESS, s)"
| "create_keys L (h # hs) s =
     (let s = upd_key h (\<lambda>k. k\<lparr>key_ref_count := 0\<rparr>) s
      in case key_lock_create L h (io_world s) of (rc, w) \<Rightarrow>
           if rc \<noteq> PJ_SUCCESS
           then (rc, s\<lparr>io_world := ref_cnt_mutex_destroy L (destroy_key_locks L (iq_free_list s) w)\<rparr>)
           else create_keys L hs (s\<lparr>io_world := w, iq_free_list := iq_free_list s @ [h]\<rparr>))"

definition pj_ioqueue_create2 ::
  "'w ioqueue_locks \<Rightarrow> nat list \<Rightarrow> bool option \<Rightarrow> 'w pj_ioqueue_t \<Rightarrow> pj_status_t \<times> 'w pj_ioqueue_t" where
  "pj_ioqueue_create2 L keys cfg s =
     (if \<not> (0 < length keys \<and> int (length keys) \<le> PJ_IOQUEUE_MAX_HANDLES) then (PJ_EINVAL, s)
      else
        let s = s\<lparr>iq_default_concurrency := (case cfg of Some c \<Rightarrow> c | None \<Rightarrow> True),
                  iq_max := int (length keys), iq_count := 0,
                  iq_rfdset := PJ_FD_ZERO, iq_wfdset := PJ_FD_ZERO, iq_xfdset := PJ_FD_ZERO, iq_active_list := []\<rparr>;
            s = rescan_fdset s
        in case ref_cnt_mutex_create L (io_world s) of (rc, w) \<Rightarrow>
          let s = s\<lparr>io_world := w\<rparr>
          in if rc \<noteq> PJ_SUCCESS then (rc, s)
             else (case create_keys L keys (s\<lparr>iq_free_list := [], iq_closing_list := []\<rparr>) of (rc, s) \<Rightarrow>
               if rc \<noteq> PJ_SUCCESS then (rc, s)
               else (case ioq_lock_create L (io_world s) of (rc, w) \<Rightarrow> (rc, s\<lparr>io_world := w\<rparr>))))"

text \<open>The queue of the port owns its lock, so \<^verbatim>\<open>ioqueue_destroy\<close> releases and destroys it.\<close>

definition pj_ioqueue_destroy :: "'w ioqueue_locks \<Rightarrow> 'w pj_ioqueue_t \<Rightarrow> pj_status_t \<times> 'w pj_ioqueue_t" where
  "pj_ioqueue_destroy L s =
     (let w = ioq_lock_acquire L (io_world s);
          w = destroy_key_locks L (iq_active_list s) w;
          w = destroy_key_locks L (iq_closing_list s) w;
          w = destroy_key_locks L (iq_free_list s) w;
          w = ref_cnt_mutex_destroy L w
      in case ioq_lock_destroy L (ioq_lock_release L w) of (rc, w) \<Rightarrow> (rc, s\<lparr>io_world := w\<rparr>))"

section \<open>Life of a key\<close>

definition ioqueue_init_key ::
  "'w sock_api \<Rightarrow> nat \<Rightarrow> int \<Rightarrow> nat \<Rightarrow> nat \<Rightarrow> pj_ioqueue_callback \<Rightarrow> 'w pj_ioqueue_t \<Rightarrow> 'w pj_ioqueue_t" where
  "ioqueue_init_key api h sock grp_lock user_data cb s =
     (let s = upd_key h (\<lambda>k. k\<lparr>key_fd := sock, key_user_data := user_data, key_read_list := [], key_write_list := [],
                key_accept_list := [], key_connecting := False, key_read_cb_list := [], key_read_thread := 0,
                key_write_cb_list := [], key_write_thread := 0, key_closing := False, key_cb := cb,
                key_ref_count := key_ref_count k + 1, key_concurrent := iq_default_concurrency s\<rparr>) s
      in case pj_sock_getsockopt api sock SO_TYPE (io_world s) of (rc, fd_type, w) \<Rightarrow>
           grp_ref grp_lock 1
             (upd_key h (\<lambda>k. k\<lparr>key_fd_type := (if rc \<noteq> PJ_SUCCESS then SOCK_STREAM api else fd_type), key_grp_lock := grp_lock\<rparr>)
               (s\<lparr>io_world := w\<rparr>)))"

text \<open>The keys whose delay is over go back to the end of the free list.\<close>

fun free_keys :: "pj_time_val \<Rightarrow> nat list \<Rightarrow> 'w pj_ioqueue_t \<Rightarrow> 'w pj_ioqueue_t" where
  "free_keys now [] s = s"
| "free_keys now (h # hs) s =
     free_keys now hs
       (if PJ_TIME_VAL_GTE now (key_free_time (key_of s h))
        then s\<lparr>iq_closing_list := remove1 h (iq_closing_list s), iq_free_list := iq_free_list s @ [h]\<rparr>
        else s)"

definition scan_closing_keys :: "'w sock_api \<Rightarrow> 'w pj_ioqueue_t \<Rightarrow> 'w pj_ioqueue_t" where
  "scan_closing_keys api s =
     (case gettickcount api (io_world s) of (now, w) \<Rightarrow> free_keys now (iq_closing_list s) (s\<lparr>io_world := w\<rparr>))"

definition register_failed :: "nat \<Rightarrow> 'w pj_ioqueue_t \<Rightarrow> 'w pj_ioqueue_t" where
  "register_failed h s =
     (let s = grp_ref (key_grp_lock (key_of s h)) (-1) s;
          s = upd_key h (\<lambda>k. k\<lparr>key_grp_lock := 0, key_ref_count := 0\<rparr>) s
      in s\<lparr>iq_free_list := iq_free_list s @ [h]\<rparr>)"

definition pj_ioqueue_register_sock2 ::
  "'w sock_api \<Rightarrow> int \<Rightarrow> nat \<Rightarrow> nat \<Rightarrow> pj_ioqueue_callback option \<Rightarrow> 'w pj_ioqueue_t \<Rightarrow> pj_status_t \<times> nat \<times> 'w pj_ioqueue_t" where
  "pj_ioqueue_register_sock2 api sock grp_lock user_data cb s =
     (case cb of None \<Rightarrow> (PJ_EINVAL, 0, s)
      | Some cb \<Rightarrow>
        if sock = PJ_INVALID_SOCKET then (PJ_EINVAL, 0, s)
        else if sizeof_fd_set api < FD_SETSIZE api \<and> sock \<ge> FD_SETSIZE api then (PJ_ETOOBIG, 0, s)
        else if iq_count s \<ge> iq_max s then (PJ_ETOOMANY, 0, s)
        else
          let s = scan_closing_keys api s
          in case iq_free_list s of [] \<Rightarrow> (PJ_ETOOMANY, 0, s)
             | h # free \<Rightarrow>
               let s = ioqueue_init_key api h sock grp_lock user_data cb (s\<lparr>iq_free_list := free\<rparr>)
               in case set_nonblocking api sock (io_world s) of (rc, w) \<Rightarrow>
                 let s = s\<lparr>io_world := w\<rparr>
                 in if rc \<noteq> 0
                    then (let rc = PJ_RETURN_OS_ERROR (net_errno api (io_world s)) in (rc, 0, register_failed h s))
                    else (PJ_SUCCESS, h, rescan_fdset (s\<lparr>iq_active_list := iq_active_list s @ [h], iq_count := iq_count s + 1\<rparr>)))"

definition increment_counter :: "nat \<Rightarrow> 'w pj_ioqueue_t \<Rightarrow> 'w pj_ioqueue_t" where
  "increment_counter h s = upd_key h (\<lambda>k. k\<lparr>key_ref_count := key_ref_count k + 1\<rparr>) s"

text \<open>The key is erased from the list it is in, which is the active list when it has a reference.\<close>

definition decrement_counter :: "'w sock_api \<Rightarrow> nat \<Rightarrow> 'w pj_ioqueue_t \<Rightarrow> 'w pj_ioqueue_t" where
  "decrement_counter api h s =
     (let s = upd_key h (\<lambda>k. k\<lparr>key_ref_count := key_ref_count k - 1\<rparr>) s
      in if key_ref_count (key_of s h) = 0 then
           (case gettickcount api (io_world s) of (now, w) \<Rightarrow>
              let free_time = pj_time_val_normalize (Time_Val (tv_sec now) (tv_msec now + PJ_IOQUEUE_KEY_FREE_DELAY));
                  s = upd_key h (\<lambda>k. k\<lparr>key_free_time := free_time\<rparr>) (s\<lparr>io_world := w\<rparr>)
              in rescan_fdset (s\<lparr>iq_active_list := remove1 h (iq_active_list s), iq_closing_list := iq_closing_list s @ [h]\<rparr>))
         else s)"

section \<open>Unregistration\<close>

text \<open>The locked part of \<^verbatim>\<open>pj_ioqueue_unregister\<close>.\<close>

definition unregister_close :: "'w sock_api \<Rightarrow> nat \<Rightarrow> 'w pj_ioqueue_t \<Rightarrow> 'w pj_ioqueue_t" where
  "unregister_close api h s =
     (let s = (if iq_count s > 0 then s\<lparr>iq_count := iq_count s - 1\<rparr> else s);
          fd = key_fd (key_of s h);
          s = (if fd \<noteq> PJ_INVALID_SOCKET then
                 upd_key h (\<lambda>k. k\<lparr>key_fd := PJ_INVALID_SOCKET\<rparr>)
                   (s\<lparr>iq_rfdset := PJ_FD_CLR fd (iq_rfdset s), iq_wfdset := PJ_FD_CLR fd (iq_wfdset s),
                      iq_xfdset := PJ_FD_CLR fd (iq_xfdset s), io_world := snd (pj_sock_close api fd (io_world s))\<rparr>)
               else s)
      in upd_key h (\<lambda>k. k\<lparr>key_closing := True\<rparr>) s)"

definition unregister_start ::
  "'w sock_api \<Rightarrow> nat \<Rightarrow> nat \<Rightarrow> 'w pj_ioqueue_t \<Rightarrow> io_frame list \<times> 'w pj_ioqueue_t" where
  "unregister_start api t h s =
     (if h = 0 then ret t (Unregister h) PJ_EINVAL 0 s
      else if key_closing (key_of s h) then ret t (Unregister h) PJ_SUCCESS 0 s
      else ([Drain h], unregister_close api h s))"

text \<open>\<^verbatim>\<open>ioqueue_drain_pending_writes\<close>: the callbacks that are due are called by the thread that is in a
  write callback; when that is another thread it is waited for, a second at most; then what is
  still queued is cancelled.\<close>

definition drain_own :: "nat \<Rightarrow> 'w pj_ioqueue_t \<Rightarrow> io_frame list \<times> 'w pj_ioqueue_t" where
  "drain_own h s =
     (case key_write_cb_list (key_of s h) of [] \<Rightarrow> ([Cancel h], s)
      | x # xs \<Rightarrow>
          let s = upd_key h (\<lambda>k. k\<lparr>key_write_cb_list := xs\<rparr>) s;
              s = grp_ref (key_grp_lock (key_of s h)) 1 s
          in ((if on_write_complete (key_cb (key_of s h)) \<noteq> 0 then [Call_Write h x] else []) @ [Grp_Dec h, Drain_Own h], s))"

definition drain_start :: "nat \<Rightarrow> nat \<Rightarrow> 'w pj_ioqueue_t \<Rightarrow> io_frame list \<times> 'w pj_ioqueue_t" where
  "drain_start t h s =
     (if key_write_thread (key_of s h) = t then drain_own h s
      else if key_write_thread (key_of s h) \<noteq> 0 then ([Drain_Wait h 0], s)
      else ([Cancel h], s))"

definition drain_wait :: "nat \<Rightarrow> nat \<Rightarrow> 'w pj_ioqueue_t \<Rightarrow> io_frame list \<times> 'w pj_ioqueue_t" where
  "drain_wait h counter s =
     (if counter + 1 > 100 then ([Cancel h], s)
      else if key_write_thread (key_of s h) \<noteq> 0 then ([Drain_Wait h (counter + 1)], s)
      else ([Cancel h], s))"

definition cancel_write :: "nat \<Rightarrow> nat \<Rightarrow> 'w pj_ioqueue_t \<Rightarrow> io_frame list \<times> 'w pj_ioqueue_t" where
  "cancel_write t h s =
     (case key_write_list (key_of s h) of [] \<Rightarrow> ([Clear_Cb h], s)
      | x # xs \<Rightarrow>
          let s = upd_key h (\<lambda>k. k\<lparr>key_write_list := xs\<rparr>) s;
              s = grp_ref (key_grp_lock (key_of s h)) 1 s
          in if on_write_complete (key_cb (key_of s h)) \<noteq> 0
             then ([App, Grp_Dec h, Cancel h], add_log (Write_Complete t h x (- PJ_ECANCELLED)) s)
             else ([Grp_Dec h, Cancel h], s))"

definition clear_callbacks :: "nat \<Rightarrow> 'w pj_ioqueue_t \<Rightarrow> 'w pj_ioqueue_t" where
  "clear_callbacks h s =
     upd_key h (\<lambda>k. k\<lparr>key_cb := \<lparr>on_read_complete = 0, on_write_complete = 0, on_accept_complete = 0, on_connect_complete = 0\<rparr>\<rparr>) s"

section \<open>Reading and writing\<close>

text \<open>\<^verbatim>\<open>pj_ioqueue_recv\<close> and \<^verbatim>\<open>pj_ioqueue_recvfrom\<close>.\<close>

fun recv_start :: "nat \<Rightarrow> io_call \<Rightarrow> 'w pj_ioqueue_t \<Rightarrow> io_frame list \<times> 'w pj_ioqueue_t" where
  "recv_start t (Recv h x buf len flags from) s =
     (let c = Recv h x buf len flags from
      in if h = 0 \<or> x = 0 \<or> buf = 0 then ret t c PJ_EINVAL len s
         else if key_closing (key_of s h) then ret t c PJ_ECANCELLED len s
         else ([Check_Op c], s))"
| "recv_start t c s = ([], s)"

fun recv_check_op :: "nat \<Rightarrow> io_call \<Rightarrow> 'w pj_ioqueue_t \<Rightarrow> io_frame list \<times> 'w pj_ioqueue_t" where
  "recv_check_op t (Recv h x buf len flags from) s =
     (let c = Recv h x buf len flags from
      in if op_op (op_of s x) \<noteq> PJ_IOQUEUE_OP_NONE then ret t c PJ_EPENDING len s
         else if flags AND PJ_IOQUEUE_ALWAYS_ASYNC = 0 then ([Try c], s)
         else ([Commit c], s))"
| "recv_check_op t c s = ([], s)"

fun recv_try :: "'w sock_api \<Rightarrow> nat \<Rightarrow> io_call \<Rightarrow> 'w pj_ioqueue_t \<Rightarrow> io_frame list \<times> 'w pj_ioqueue_t" where
  "recv_try api t (Recv h x buf len flags from) s =
     (let c = Recv h x buf len flags from;
          fd = key_fd (key_of s h)
      in case (case from of None \<Rightarrow> pj_sock_recv api fd buf len flags (io_world s)
                 | Some (addr, addrlen) \<Rightarrow> pj_sock_recvfrom api fd buf len flags addr addrlen (io_world s)) of
           (status, sz, w) \<Rightarrow>
             let s = s\<lparr>io_world := w\<rparr>
             in if status = PJ_SUCCESS then ret t c PJ_SUCCESS sz s
                else if status \<noteq> PJ_STATUS_FROM_OS (EWOULDBLOCK api) then ret t c status len s
                else ([Commit c], s))"
| "recv_try api t c s = ([], s)"

fun recv_commit :: "nat \<Rightarrow> io_call \<Rightarrow> 'w pj_ioqueue_t \<Rightarrow> io_frame list \<times> 'w pj_ioqueue_t" where
  "recv_commit t (Recv h x buf len flags from) s =
     (let c = Recv h x buf len flags from
      in if key_closing (key_of s h) then ret t c PJ_ECANCELLED len s
         else if op_op (op_of s x) \<noteq> PJ_IOQUEUE_OP_NONE then ret t c PJ_EPENDING len s
         else
           let flags = flags AND NOT PJ_IOQUEUE_ALWAYS_ASYNC;
               s = upd_op x (\<lambda>r. case from of
                       None \<Rightarrow> r\<lparr>op_op := PJ_IOQUEUE_OP_RECV, op_buf := buf, op_size := len, op_flags := flags\<rparr>
                     | Some (addr, addrlen) \<Rightarrow> r\<lparr>op_op := PJ_IOQUEUE_OP_RECV_FROM, op_buf := buf, op_size := len,
                         op_flags := flags, op_rmt_addr := addr, op_addrlen := addrlen\<rparr>) s;
               s = upd_key h (\<lambda>k. k\<lparr>key_read_list := key_read_list k @ [x]\<rparr>) s
           in ret t c PJ_EPENDING len (ioqueue_add_to_set h READABLE_EVENT s))"
| "recv_commit t c s = ([], s)"

text \<open>\<^verbatim>\<open>pj_ioqueue_send\<close> and \<^verbatim>\<open>pj_ioqueue_sendto\<close>.\<close>

fun send_start :: "nat \<Rightarrow> io_call \<Rightarrow> 'w pj_ioqueue_t \<Rightarrow> io_frame list \<times> 'w pj_ioqueue_t" where
  "send_start t (Send h x buf len flags to) s =
     (let c = Send h x buf len flags to
      in if h = 0 \<or> x = 0 \<or> buf = 0 then ret t c PJ_EINVAL len s
         else if key_closing (key_of s h) then ret t c PJ_ECANCELLED len s
         else ([Check_List c], s))"
| "send_start t c s = ([], s)"

text \<open>What follows the fast track: \<^verbatim>\<open>pj_ioqueue_sendto\<close> checks the length of the address.\<close>

definition send_slow :: "'w sock_api \<Rightarrow> nat \<Rightarrow> io_call \<Rightarrow> 'w pj_ioqueue_t \<Rightarrow> io_frame list \<times> 'w pj_ioqueue_t" where
  "send_slow api t c s =
     (case c of
        Send h x buf len flags (Some (addr, addrlen)) \<Rightarrow>
          if addrlen \<le> sizeof_pj_sockaddr api then ([Spin c 0], s) else ret t c PJ_EBUG len s
      | _ \<Rightarrow> ([Spin c 0], s))"

fun send_check_list :: "'w sock_api \<Rightarrow> nat \<Rightarrow> io_call \<Rightarrow> 'w pj_ioqueue_t \<Rightarrow> io_frame list \<times> 'w pj_ioqueue_t" where
  "send_check_list api t (Send h x buf len flags to) s =
     (let c = Send h x buf len flags to
      in if key_write_list (key_of s h) = [] then ([Try c], s) else send_slow api t c s)"
| "send_check_list api t c s = ([], s)"

text \<open>Handing bytes to the socket. The bytes a \<^verbatim>\<open>pj_sock_send\<close> took are recorded.\<close>

definition key_send ::
  "'w sock_api \<Rightarrow> nat \<Rightarrow> nat \<Rightarrow> int \<Rightarrow> u32 \<Rightarrow> 'w pj_ioqueue_t \<Rightarrow> pj_status_t \<times> int \<times> 'w pj_ioqueue_t" where
  "key_send api h buf len flags s =
     (case pj_sock_send api (key_fd (key_of s h)) buf len flags (io_world s) of (rc, sent, w) \<Rightarrow>
        let s = s\<lparr>io_world := w\<rparr>
        in (rc, sent, if rc = PJ_SUCCESS then add_log (Sent h buf sent) s else s))"

definition key_sendto ::
  "'w sock_api \<Rightarrow> nat \<Rightarrow> nat \<Rightarrow> int \<Rightarrow> u32 \<Rightarrow> nat \<Rightarrow> int \<Rightarrow> 'w pj_ioqueue_t \<Rightarrow> pj_status_t \<times> int \<times> 'w pj_ioqueue_t" where
  "key_sendto api h buf len flags addr addrlen s =
     (case pj_sock_sendto api (key_fd (key_of s h)) buf len flags addr addrlen (io_world s) of (rc, sent, w) \<Rightarrow>
        (rc, sent, s\<lparr>io_world := w\<rparr>))"

fun send_try :: "'w sock_api \<Rightarrow> nat \<Rightarrow> io_call \<Rightarrow> 'w pj_ioqueue_t \<Rightarrow> io_frame list \<times> 'w pj_ioqueue_t" where
  "send_try api t (Send h x buf len flags to) s =
     (let c = Send h x buf len flags to;
          flags = flags AND NOT PJ_IOQUEUE_ALWAYS_ASYNC
      in case (case to of None \<Rightarrow> key_send api h buf len flags s
                 | Some (addr, addrlen) \<Rightarrow> key_sendto api h buf len flags addr addrlen s) of
           (status, sent, s) \<Rightarrow>
             if status = PJ_SUCCESS then ret t c PJ_SUCCESS sent s
             else if status \<noteq> PJ_STATUS_FROM_OS (EWOULDBLOCK api) then ret t c status len s
             else send_slow api t c s)"
| "send_try api t c s = ([], s)"

text \<open>A busy operation key is tested again, twice at most, and once more after the loop.\<close>

fun send_spin :: "io_call \<Rightarrow> nat \<Rightarrow> 'w pj_ioqueue_t \<Rightarrow> io_frame list \<times> 'w pj_ioqueue_t" where
  "send_spin (Send h x buf len flags to) retry s =
     (let c = Send h x buf len flags to
      in if op_op (op_of s x) \<noteq> PJ_IOQUEUE_OP_NONE \<and> retry < PENDING_RETRY then ([Spin c (retry + 1)], s)
         else ([Check_Op c], s))"
| "send_spin c retry s = ([], s)"

fun send_check_op :: "nat \<Rightarrow> io_call \<Rightarrow> 'w pj_ioqueue_t \<Rightarrow> io_frame list \<times> 'w pj_ioqueue_t" where
  "send_check_op t (Send h x buf len flags to) s =
     (let c = Send h x buf len flags to
      in if op_op (op_of s x) \<noteq> PJ_IOQUEUE_OP_NONE then ret t c PJ_EBUSY len s else ([Commit c], s))"
| "send_check_op t c s = ([], s)"

fun send_commit :: "nat \<Rightarrow> io_call \<Rightarrow> 'w pj_ioqueue_t \<Rightarrow> io_frame list \<times> 'w pj_ioqueue_t" where
  "send_commit t (Send h x buf len flags to) s =
     (let c = Send h x buf len flags to
      in if key_closing (key_of s h) then ret t c PJ_ECANCELLED len s
         else if op_op (op_of s x) \<noteq> PJ_IOQUEUE_OP_NONE then ret t c PJ_EBUSY len s
         else
           let flags = flags AND NOT PJ_IOQUEUE_ALWAYS_ASYNC;
               s = upd_op x (\<lambda>r. case to of
                       None \<Rightarrow> r\<lparr>op_op := PJ_IOQUEUE_OP_SEND, op_buf := buf, op_size := len, op_written := 0, op_flags := flags\<rparr>
                     | Some (addr, addrlen) \<Rightarrow> r\<lparr>op_op := PJ_IOQUEUE_OP_SEND_TO, op_buf := buf, op_size := len, op_written := 0,
                         op_flags := flags, op_rmt_addr := addr, op_rmt_addrlen := addrlen\<rparr>) s;
               s = upd_key h (\<lambda>k. k\<lparr>key_write_list := key_write_list k @ [x]\<rparr>) s
           in ret t c PJ_EPENDING len (ioqueue_add_to_set h WRITEABLE_EVENT s))"
| "send_commit t c s = ([], s)"

section \<open>Accepting and connecting\<close>

fun accept_start :: "nat \<Rightarrow> io_call \<Rightarrow> 'w pj_ioqueue_t \<Rightarrow> io_frame list \<times> 'w pj_ioqueue_t" where
  "accept_start t (Accept h x new_sock local remote addrlen) s =
     (let c = Accept h x new_sock local remote addrlen
      in if h = 0 \<or> x = 0 \<or> new_sock = 0 then ret t c PJ_EINVAL 0 s
         else if key_closing (key_of s h) then ret t c PJ_ECANCELLED 0 s
         else ([Check_Op c], s))"
| "accept_start t c s = ([], s)"

fun accept_check_op :: "nat \<Rightarrow> io_call \<Rightarrow> 'w pj_ioqueue_t \<Rightarrow> io_frame list \<times> 'w pj_ioqueue_t" where
  "accept_check_op t (Accept h x new_sock local remote addrlen) s =
     (let c = Accept h x new_sock local remote addrlen
      in if op_op (op_of s x) \<noteq> PJ_IOQUEUE_OP_NONE then ret t c PJ_EPENDING 0 s else ([Check_List c], s))"
| "accept_check_op t c s = ([], s)"

fun accept_check_list :: "io_call \<Rightarrow> 'w pj_ioqueue_t \<Rightarrow> io_frame list \<times> 'w pj_ioqueue_t" where
  "accept_check_list (Accept h x new_sock local remote addrlen) s =
     (let c = Accept h x new_sock local remote addrlen
      in (if key_accept_list (key_of s h) = [] then [Try c] else [Commit c], s))"
| "accept_check_list c s = ([], s)"

text \<open>\<^verbatim>\<open>pj_sock_accept\<close> stores the new socket in a variable of the caller.\<close>

definition key_accept :: "'w sock_api \<Rightarrow> nat \<Rightarrow> nat \<Rightarrow> nat \<Rightarrow> nat \<Rightarrow> 'w pj_ioqueue_t \<Rightarrow> pj_status_t \<times> 'w pj_ioqueue_t" where
  "key_accept api h new_sock remote addrlen s =
     (case pj_sock_accept api (key_fd (key_of s h)) remote addrlen (io_world s) of (status, sock, w) \<Rightarrow>
        (status, s\<lparr>io_world := w, io_socks := (io_socks s)(new_sock := sock)\<rparr>))"

definition sock_name :: "'w sock_api \<Rightarrow> nat \<Rightarrow> nat \<Rightarrow> nat \<Rightarrow> 'w pj_ioqueue_t \<Rightarrow> pj_status_t \<times> 'w pj_ioqueue_t" where
  "sock_name api new_sock local addrlen s =
     (case pj_sock_getsockname api (io_socks s new_sock) local addrlen (io_world s) of (status, w) \<Rightarrow>
        (status, s\<lparr>io_world := w\<rparr>))"

fun accept_try :: "'w sock_api \<Rightarrow> nat \<Rightarrow> io_call \<Rightarrow> 'w pj_ioqueue_t \<Rightarrow> io_frame list \<times> 'w pj_ioqueue_t" where
  "accept_try api t (Accept h x new_sock local remote addrlen) s =
     (let c = Accept h x new_sock local remote addrlen
      in case key_accept api h new_sock remote addrlen s of (status, s) \<Rightarrow>
           if status = PJ_SUCCESS then
             if local \<noteq> 0 \<and> addrlen \<noteq> 0 then
               (case sock_name api new_sock local addrlen s of (status, s) \<Rightarrow>
                  if status \<noteq> PJ_SUCCESS
                  then ret t c status 0
                         (s\<lparr>io_world := snd (pj_sock_close api (io_socks s new_sock) (io_world s)),
                            io_socks := (io_socks s)(new_sock := PJ_INVALID_SOCKET)\<rparr>)
                  else ret t c PJ_SUCCESS 0 s)
             else ret t c PJ_SUCCESS 0 s
           else if status \<noteq> PJ_STATUS_FROM_OS (EWOULDBLOCK api) then ret t c status 0 s
           else ([Commit c], s))"
| "accept_try api t c s = ([], s)"

fun accept_commit :: "nat \<Rightarrow> io_call \<Rightarrow> 'w pj_ioqueue_t \<Rightarrow> io_frame list \<times> 'w pj_ioqueue_t" where
  "accept_commit t (Accept h x new_sock local remote addrlen) s =
     (let c = Accept h x new_sock local remote addrlen
      in if key_closing (key_of s h) then ret t c PJ_ECANCELLED 0 s
         else if op_op (op_of s x) \<noteq> PJ_IOQUEUE_OP_NONE then ret t c PJ_ECANCELLED 0 s
         else
           let s = upd_op x (\<lambda>r. r\<lparr>op_op := PJ_IOQUEUE_OP_ACCEPT, op_accept_fd := new_sock, op_rmt_addr := remote,
                       op_addrlen := addrlen, op_local_addr := local\<rparr>) s;
               s = upd_key h (\<lambda>k. k\<lparr>key_accept_list := key_accept_list k @ [x]\<rparr>) s
           in ret t c PJ_EPENDING 0 (ioqueue_add_to_set h READABLE_EVENT s))"
| "accept_commit t c s = ([], s)"

fun connect_start :: "nat \<Rightarrow> io_call \<Rightarrow> 'w pj_ioqueue_t \<Rightarrow> io_frame list \<times> 'w pj_ioqueue_t" where
  "connect_start t (Connect h addr addrlen) s =
     (let c = Connect h addr addrlen
      in if h = 0 \<or> addr = 0 \<or> addrlen = 0 then ret t c PJ_EINVAL 0 s
         else if key_closing (key_of s h) then ret t c PJ_ECANCELLED 0 s
         else ([Check_Op c], s))"
| "connect_start t c s = ([], s)"

fun connect_check :: "nat \<Rightarrow> io_call \<Rightarrow> 'w pj_ioqueue_t \<Rightarrow> io_frame list \<times> 'w pj_ioqueue_t" where
  "connect_check t (Connect h addr addrlen) s =
     (let c = Connect h addr addrlen
      in if key_connecting (key_of s h) then ret t c PJ_EPENDING 0 s else ([Try c], s))"
| "connect_check t c s = ([], s)"

fun connect_try :: "'w sock_api \<Rightarrow> nat \<Rightarrow> io_call \<Rightarrow> 'w pj_ioqueue_t \<Rightarrow> io_frame list \<times> 'w pj_ioqueue_t" where
  "connect_try api t (Connect h addr addrlen) s =
     (let c = Connect h addr addrlen
      in case pj_sock_connect api (key_fd (key_of s h)) addr addrlen (io_world s) of (status, w) \<Rightarrow>
           let s = s\<lparr>io_world := w\<rparr>
           in if status = PJ_SUCCESS then ret t c PJ_SUCCESS 0 s
              else if status = PJ_STATUS_FROM_OS (EINPROGRESS api) then ([Commit c], s)
              else ret t c status 0 s)"
| "connect_try api t c s = ([], s)"

fun connect_commit :: "nat \<Rightarrow> io_call \<Rightarrow> 'w pj_ioqueue_t \<Rightarrow> io_frame list \<times> 'w pj_ioqueue_t" where
  "connect_commit t (Connect h addr addrlen) s =
     (let c = Connect h addr addrlen
      in if key_closing (key_of s h) then ret t c PJ_ECANCELLED 0 s
         else
           let s = upd_key h (\<lambda>k. k\<lparr>key_connecting := True\<rparr>) s
           in ret t c PJ_EPENDING 0 (ioqueue_add_to_set2 h {WRITEABLE_EVENT, EXCEPTION_EVENT} s))"
| "connect_commit t c s = ([], s)"

section \<open>Posted completions and cleared keys\<close>

definition pj_ioqueue_op_key_init :: "operation_key" where
  "pj_ioqueue_op_key_init = \<lparr>op_op = PJ_IOQUEUE_OP_NONE, op_buf = 0, op_size = 0, op_flags = 0, op_rmt_addr = 0, op_rmt_addrlen = 0,
     op_bytes_read = 0, op_written = 0, op_accept_fd = 0, op_local_addr = 0, op_addrlen = 0\<rparr>"

definition pj_ioqueue_is_pending :: "nat \<Rightarrow> 'w pj_ioqueue_t \<Rightarrow> bool" where
  "pj_ioqueue_is_pending x s \<longleftrightarrow> op_op (op_of s x) \<noteq> PJ_IOQUEUE_OP_NONE"

definition pj_ioqueue_post_completion ::
  "nat \<Rightarrow> nat \<Rightarrow> nat \<Rightarrow> int \<Rightarrow> 'w pj_ioqueue_t \<Rightarrow> io_frame list \<times> 'w pj_ioqueue_t" where
  "pj_ioqueue_post_completion t h x bytes_status s =
     (let c = Post_Completion h x bytes_status; none = upd_op x (\<lambda>r. r\<lparr>op_op := PJ_IOQUEUE_OP_NONE\<rparr>)
      in if x \<in> set (key_read_list (key_of s h)) then
           ([Post_Read c h x bytes_status],
            ioqueue_remove_from_set h READABLE_EVENT
              (none (upd_key h (\<lambda>k. k\<lparr>key_read_list := remove1 x (key_read_list k)\<rparr>) s)))
         else if x \<in> set (key_write_list (key_of s h)) then
           ([Post_Write c h x bytes_status],
            ioqueue_remove_from_set h WRITEABLE_EVENT
              (none (upd_key h (\<lambda>k. k\<lparr>key_write_list := remove1 x (key_write_list k)\<rparr>) s)))
         else if x \<in> set (key_accept_list (key_of s h)) then
           ([Post_Accept c h x bytes_status],
            none (upd_key h (\<lambda>k. k\<lparr>key_accept_list := remove1 x (key_accept_list k)\<rparr>) s))
         else
           ret t c PJ_EINVALIDOP 0
             (if key_connecting (key_of s h)
              then ioqueue_remove_from_set2 h {WRITEABLE_EVENT, EXCEPTION_EVENT} (upd_key h (\<lambda>k. k\<lparr>key_connecting := False\<rparr>) s)
              else s))"

text \<open>After the lock is released the callback is called, if there is one.\<close>

definition post_read :: "nat \<Rightarrow> io_call \<Rightarrow> nat \<Rightarrow> nat \<Rightarrow> int \<Rightarrow> 'w pj_ioqueue_t \<Rightarrow> io_frame list \<times> 'w pj_ioqueue_t" where
  "post_read t c h x n s =
     (if on_read_complete (key_cb (key_of s h)) \<noteq> 0 then ([App, Finish c], add_log (Read_Complete t h x n) s) else ([Finish c], s))"

definition post_write :: "nat \<Rightarrow> io_call \<Rightarrow> nat \<Rightarrow> nat \<Rightarrow> int \<Rightarrow> 'w pj_ioqueue_t \<Rightarrow> io_frame list \<times> 'w pj_ioqueue_t" where
  "post_write t c h x n s =
     (if on_write_complete (key_cb (key_of s h)) \<noteq> 0 then ([App, Finish c], add_log (Write_Complete t h x n) s) else ([Finish c], s))"

definition post_accept :: "nat \<Rightarrow> io_call \<Rightarrow> nat \<Rightarrow> nat \<Rightarrow> int \<Rightarrow> 'w pj_ioqueue_t \<Rightarrow> io_frame list \<times> 'w pj_ioqueue_t" where
  "post_accept t c h x n s =
     (if on_accept_complete (key_cb (key_of s h)) \<noteq> 0 then ([App, Finish c], add_log (Accept_Complete t h x PJ_INVALID_SOCKET n) s) else ([Finish c], s))"

text \<open>\<^verbatim>\<open>pj_ioqueue_clear_key\<close> empties the lists, waits for the callbacks that other threads are in,
  a second at most for reading and another for writing, and clears the sets.\<close>

definition clear_finish :: "nat \<Rightarrow> io_call \<Rightarrow> nat \<Rightarrow> 'w pj_ioqueue_t \<Rightarrow> io_frame list \<times> 'w pj_ioqueue_t" where
  "clear_finish t c h s =
     ret t c PJ_SUCCESS 0
       (ioqueue_remove_from_set2 h {READABLE_EVENT, WRITEABLE_EVENT, EXCEPTION_EVENT} (upd_key h (\<lambda>k. k\<lparr>key_connecting := False\<rparr>) s))"

definition clear_wait_write :: "nat \<Rightarrow> io_call \<Rightarrow> nat \<Rightarrow> 'w pj_ioqueue_t \<Rightarrow> io_frame list \<times> 'w pj_ioqueue_t" where
  "clear_wait_write t c h s =
     (if key_write_thread (key_of s h) \<noteq> 0 \<and> key_write_thread (key_of s h) \<noteq> t then ([Clear_Write c h 0], s)
      else clear_finish t c h s)"

definition clear_write :: "nat \<Rightarrow> io_call \<Rightarrow> nat \<Rightarrow> nat \<Rightarrow> 'w pj_ioqueue_t \<Rightarrow> io_frame list \<times> 'w pj_ioqueue_t" where
  "clear_write t c h counter s =
     (let s = upd_key h (\<lambda>k. k\<lparr>key_write_list := []\<rparr>) s
      in if counter + 1 > 100 then clear_finish t c h s
         else if key_write_thread (key_of s h) \<noteq> 0 \<and> key_write_thread (key_of s h) \<noteq> t then ([Clear_Write c h (counter + 1)], s)
         else clear_finish t c h s)"

definition clear_read :: "nat \<Rightarrow> io_call \<Rightarrow> nat \<Rightarrow> nat \<Rightarrow> 'w pj_ioqueue_t \<Rightarrow> io_frame list \<times> 'w pj_ioqueue_t" where
  "clear_read t c h counter s =
     (let s = upd_key h (\<lambda>k. k\<lparr>key_read_list := []\<rparr>) s
      in if counter + 1 > 100 then clear_wait_write t c h s
         else if key_read_thread (key_of s h) \<noteq> 0 \<and> key_read_thread (key_of s h) \<noteq> t then ([Clear_Read c h (counter + 1)], s)
         else clear_wait_write t c h s)"

definition pj_ioqueue_clear_key :: "nat \<Rightarrow> nat \<Rightarrow> 'w pj_ioqueue_t \<Rightarrow> io_frame list \<times> 'w pj_ioqueue_t" where
  "pj_ioqueue_clear_key t h s =
     (let c = Clear_Key h
      in if h = 0 then ret t c PJ_EINVAL 0 s
         else
           let s = upd_key h (\<lambda>k. k\<lparr>key_read_list := [], key_write_list := [], key_accept_list := [],
                       key_read_cb_list := [], key_write_cb_list := []\<rparr>) s
           in if key_read_thread (key_of s h) \<noteq> 0 \<and> key_read_thread (key_of s h) \<noteq> t then ([Clear_Read c h 0], s)
              else clear_wait_write t c h s)"

definition pj_ioqueue_set_concurrency :: "nat \<Rightarrow> nat \<Rightarrow> bool \<Rightarrow> 'w pj_ioqueue_t \<Rightarrow> io_frame list \<times> 'w pj_ioqueue_t" where
  "pj_ioqueue_set_concurrency t h allow s =
     (if h = 0 then ret t (Set_Concurrency h allow) PJ_EINVAL 0 s
      else ret t (Set_Concurrency h allow) PJ_SUCCESS 0 (upd_key h (\<lambda>k. k\<lparr>key_concurrent := allow\<rparr>) s))"

text \<open>Settings that touch no shared structure; the new keys of a queue take its default.\<close>

definition pj_ioqueue_set_default_concurrency :: "bool \<Rightarrow> 'w pj_ioqueue_t \<Rightarrow> pj_status_t \<times> 'w pj_ioqueue_t" where
  "pj_ioqueue_set_default_concurrency allow s = (PJ_SUCCESS, s\<lparr>iq_default_concurrency := allow\<rparr>)"

definition pj_ioqueue_get_user_data :: "nat \<Rightarrow> 'w pj_ioqueue_t \<Rightarrow> nat" where
  "pj_ioqueue_get_user_data h s = (if h = 0 then 0 else key_user_data (key_of s h))"

definition pj_ioqueue_set_user_data :: "nat \<Rightarrow> nat \<Rightarrow> 'w pj_ioqueue_t \<Rightarrow> pj_status_t \<times> nat \<times> 'w pj_ioqueue_t" where
  "pj_ioqueue_set_user_data h user_data s =
     (if h = 0 then (PJ_EINVAL, 0, s)
      else (PJ_SUCCESS, key_user_data (key_of s h), upd_key h (\<lambda>k. k\<lparr>key_user_data := user_data\<rparr>) s))"

section \<open>Dispatching events\<close>

text \<open>The dispatch functions once the key's lock is taken: whether the event counts as processed,
  and what follows outside of the lock.\<close>

definition dispatch_connected :: "'w sock_api \<Rightarrow> nat \<Rightarrow> 'w pj_ioqueue_t \<Rightarrow> bool \<times> io_frame list \<times> 'w pj_ioqueue_t" where
  "dispatch_connected api h s =
     (let s = upd_key h (\<lambda>k. k\<lparr>key_connecting := False\<rparr>) s;
          s = ioqueue_remove_from_set2 h {WRITEABLE_EVENT, EXCEPTION_EVENT} s
      in case pj_sock_getsockopt api (key_fd (key_of s h)) SO_ERROR (io_world s) of (gs_rc, val, w) \<Rightarrow>
           (True, [Cb_Connect h (if gs_rc \<noteq> 0 then PJ_SUCCESS else PJ_STATUS_FROM_OS val)], s\<lparr>io_world := w\<rparr>))"

text \<open>The socket call for a pending write, and the new value of \<^verbatim>\<open>written\<close>.\<close>

definition send_op :: "'w sock_api \<Rightarrow> nat \<Rightarrow> nat \<Rightarrow> 'w pj_ioqueue_t \<Rightarrow> pj_status_t \<times> 'w pj_ioqueue_t" where
  "send_op api h x s =
     (let r = op_of s x; buf = nat (int (op_buf r) + op_written r); sent = op_size r - op_written r
      in case (if op_op r = PJ_IOQUEUE_OP_SEND then key_send api h buf sent (op_flags r) s
               else if op_op r = PJ_IOQUEUE_OP_SEND_TO
               then key_sendto api h buf sent (op_flags r) (op_rmt_addr r) (op_rmt_addrlen r) s
               else (PJ_EBUG, sent, upd_op x (\<lambda>r. r\<lparr>op_op := PJ_IOQUEUE_OP_NONE\<rparr>) s)) of
           (send_rc, sent, s) \<Rightarrow>
             (send_rc, upd_op x (\<lambda>r. r\<lparr>op_written := (if send_rc = PJ_SUCCESS then op_written r + sent else - send_rc)\<rparr>) s))"

text \<open>A write that is complete: its callback is called by this thread, or left to the thread that
  is in a write callback of the key.\<close>

definition write_done :: "nat \<Rightarrow> nat \<Rightarrow> nat \<Rightarrow> 'w pj_ioqueue_t \<Rightarrow> bool \<times> io_frame list \<times> 'w pj_ioqueue_t" where
  "write_done t h x s =
     (if key_concurrent (key_of s h) then (True, [Cb_Write h x, Write_Loop h], s)
      else if key_write_thread (key_of s h) \<noteq> 0
      then (True, [], upd_key h (\<lambda>k. k\<lparr>key_write_cb_list := key_write_cb_list k @ [x]\<rparr>) s)
      else (True, [Cb_Write h x, Write_Loop h], upd_key h (\<lambda>k. k\<lparr>key_write_thread := t\<rparr>) s))"

text \<open>\<^verbatim>\<open>pj_list_erase\<close> of the first pending write, and the descriptor leaves the set with the last one.\<close>

definition erase_write :: "nat \<Rightarrow> 'w pj_ioqueue_t \<Rightarrow> 'w pj_ioqueue_t" where
  "erase_write h s =
     (let s = upd_key h (\<lambda>k. k\<lparr>key_write_list := tl (key_write_list k)\<rparr>) s
      in if key_write_list (key_of s h) = [] then ioqueue_remove_from_set h WRITEABLE_EVENT s else s)"

definition dispatch_write :: "'w sock_api \<Rightarrow> nat \<Rightarrow> nat \<Rightarrow> 'w pj_ioqueue_t \<Rightarrow> bool \<times> io_frame list \<times> 'w pj_ioqueue_t" where
  "dispatch_write api t h s =
     (let x = hd (key_write_list (key_of s h)); dgram = (key_fd_type (key_of s h) = SOCK_DGRAM api);
          s = (if dgram then erase_write h s else s)
      in case send_op api h x s of (send_rc, s) \<Rightarrow>
           if send_rc \<noteq> PJ_SUCCESS \<or> op_written (op_of s x) = op_size (op_of s x) \<or> dgram then
             let s = upd_op x (\<lambda>r. r\<lparr>op_op := PJ_IOQUEUE_OP_NONE\<rparr>) s
             in write_done t h x (if \<not> dgram then erase_write h s else s)
           else (True, [], s))"

definition ioqueue_dispatch_write_event ::
  "'w sock_api \<Rightarrow> nat \<Rightarrow> nat \<Rightarrow> 'w pj_ioqueue_t \<Rightarrow> bool \<times> io_frame list \<times> 'w pj_ioqueue_t" where
  "ioqueue_dispatch_write_event api t h s =
     (if key_closing (key_of s h) then (True, [], s)
      else if key_connecting (key_of s h) then dispatch_connected api h s
      else if key_has_pending_write (key_of s h) then dispatch_write api t h s
      else (False, [], s))"

definition dispatch_accept :: "'w sock_api \<Rightarrow> nat \<Rightarrow> 'w pj_ioqueue_t \<Rightarrow> bool \<times> io_frame list \<times> 'w pj_ioqueue_t" where
  "dispatch_accept api h s =
     (let x = hd (key_accept_list (key_of s h));
          s = upd_key h (\<lambda>k. k\<lparr>key_accept_list := tl (key_accept_list k)\<rparr>) s;
          s = upd_op x (\<lambda>r. r\<lparr>op_op := PJ_IOQUEUE_OP_NONE\<rparr>) s;
          s = (if key_accept_list (key_of s h) = [] then ioqueue_remove_from_set h READABLE_EVENT s else s);
          r = op_of s x
      in case key_accept api h (op_accept_fd r) (op_rmt_addr r) (op_addrlen r) s of (rc, s) \<Rightarrow>
         case (if rc = PJ_SUCCESS \<and> op_local_addr r \<noteq> 0
               then sock_name api (op_accept_fd r) (op_local_addr r) (op_addrlen r) s else (rc, s)) of (rc, s) \<Rightarrow>
           (True, [Cb_Accept h x rc], s))"

text \<open>The socket call for a pending read.\<close>

definition recv_op :: "'w sock_api \<Rightarrow> nat \<Rightarrow> nat \<Rightarrow> 'w pj_ioqueue_t \<Rightarrow> pj_status_t \<times> int \<times> 'w pj_ioqueue_t" where
  "recv_op api h x s =
     (let r = op_of s x; fd = key_fd (key_of s h);
          s = upd_op x (\<lambda>r. r\<lparr>op_op := PJ_IOQUEUE_OP_NONE\<rparr>) s
      in case (if op_op r = PJ_IOQUEUE_OP_RECV_FROM
               then pj_sock_recvfrom api fd (op_buf r) (op_size r) (op_flags r) (op_rmt_addr r) (op_addrlen r) (io_world s)
               else if op_op r = PJ_IOQUEUE_OP_RECV then pj_sock_recv api fd (op_buf r) (op_size r) (op_flags r) (io_world s)
               else (case bsd_read api fd (op_buf r) (op_size r) (io_world s) of (bytes_read, w) \<Rightarrow>
                       (if bytes_read \<ge> 0 then PJ_SUCCESS else PJ_RETURN_OS_ERROR (net_errno api w), bytes_read, w))) of
           (rc, bytes_read, w) \<Rightarrow> (rc, bytes_read, s\<lparr>io_world := w\<rparr>))"

definition read_done :: "nat \<Rightarrow> nat \<Rightarrow> nat \<Rightarrow> 'w pj_ioqueue_t \<Rightarrow> bool \<times> io_frame list \<times> 'w pj_ioqueue_t" where
  "read_done t h x s =
     (let cb = on_read_complete (key_cb (key_of s h))
      in if key_concurrent (key_of s h) then (True, [Cb_Read h x cb, Read_Loop h], s)
         else if key_read_thread (key_of s h) \<noteq> 0
         then (True, [], upd_key h (\<lambda>k. k\<lparr>key_read_cb_list := key_read_cb_list k @ [x]\<rparr>) s)
         else (True, [Cb_Read h x cb, Read_Loop h], upd_key h (\<lambda>k. k\<lparr>key_read_thread := t\<rparr>) s))"

definition dispatch_read :: "'w sock_api \<Rightarrow> nat \<Rightarrow> nat \<Rightarrow> 'w pj_ioqueue_t \<Rightarrow> bool \<times> io_frame list \<times> 'w pj_ioqueue_t" where
  "dispatch_read api t h s =
     (let x = hd (key_read_list (key_of s h));
          s = upd_key h (\<lambda>k. k\<lparr>key_read_list := tl (key_read_list k)\<rparr>) s;
          s = (if key_read_list (key_of s h) = [] then ioqueue_remove_from_set h READABLE_EVENT s else s)
      in case recv_op api h x s of (rc, bytes_read, s) \<Rightarrow>
           read_done t h x (upd_op x (\<lambda>r. r\<lparr>op_bytes_read := (if rc \<noteq> PJ_SUCCESS then - rc else bytes_read)\<rparr>) s))"

definition ioqueue_dispatch_read_event ::
  "'w sock_api \<Rightarrow> nat \<Rightarrow> nat \<Rightarrow> 'w pj_ioqueue_t \<Rightarrow> bool \<times> io_frame list \<times> 'w pj_ioqueue_t" where
  "ioqueue_dispatch_read_event api t h s =
     (if key_closing (key_of s h) then (True, [], s)
      else if key_has_pending_accept (key_of s h) then dispatch_accept api h s
      else if key_has_pending_read (key_of s h) then dispatch_read api t h s
      else (False, [], s))"

definition ioqueue_dispatch_exception_event :: "nat \<Rightarrow> 'w pj_ioqueue_t \<Rightarrow> bool \<times> io_frame list \<times> 'w pj_ioqueue_t" where
  "ioqueue_dispatch_exception_event h s =
     (if \<not> key_connecting (key_of s h) then (True, [], s)
      else if key_closing (key_of s h) then (True, [], s)
      else
        let s = upd_key h (\<lambda>k. k\<lparr>key_connecting := False\<rparr>) s
        in (True, [Cb_Except h], ioqueue_remove_from_set2 h {WRITEABLE_EVENT, EXCEPTION_EVENT} s))"

text \<open>One round of the loops over the callbacks that are due.\<close>

definition ioqueue_dispatch_read_event_no_lock :: "nat \<Rightarrow> 'w pj_ioqueue_t \<Rightarrow> io_frame list \<times> 'w pj_ioqueue_t" where
  "ioqueue_dispatch_read_event_no_lock h s =
     (case key_read_cb_list (key_of s h) of
        x # xs \<Rightarrow>
          if \<not> key_closing (key_of s h) then
            let s = upd_key h (\<lambda>k. k\<lparr>key_read_cb_list := xs\<rparr>) s
            in (if on_read_complete (key_cb (key_of s h)) \<noteq> 0 then [Call_Read h x, Read_Loop h] else [], s)
          else ([], upd_key h (\<lambda>k. k\<lparr>key_read_thread := 0\<rparr>) s)
      | [] \<Rightarrow> ([], upd_key h (\<lambda>k. k\<lparr>key_read_thread := 0\<rparr>) s))"

definition ioqueue_dispatch_write_event_no_lock :: "nat \<Rightarrow> 'w pj_ioqueue_t \<Rightarrow> io_frame list \<times> 'w pj_ioqueue_t" where
  "ioqueue_dispatch_write_event_no_lock h s =
     (case key_write_cb_list (key_of s h) of
        x # xs \<Rightarrow>
          let s = upd_key h (\<lambda>k. k\<lparr>key_write_cb_list := xs\<rparr>) s
          in (if on_write_complete (key_cb (key_of s h)) \<noteq> 0 then [Call_Write h x, Write_Loop h] else [], s)
      | [] \<Rightarrow> ([], upd_key h (\<lambda>k. k\<lparr>key_write_thread := 0\<rparr>) s))"

text \<open>The callbacks. Whether there is one, and whether the key is closing, is tested without the
  lock.\<close>

definition cb_write :: "nat \<Rightarrow> nat \<Rightarrow> nat \<Rightarrow> 'w pj_ioqueue_t \<Rightarrow> io_frame list \<times> 'w pj_ioqueue_t" where
  "cb_write t h x s =
     (if on_write_complete (key_cb (key_of s h)) \<noteq> 0
      then ([App], add_log (Write_Complete t h x (op_written (op_of s x))) s) else ([], s))"

definition cb_read :: "nat \<Rightarrow> nat \<Rightarrow> nat \<Rightarrow> nat \<Rightarrow> 'w pj_ioqueue_t \<Rightarrow> io_frame list \<times> 'w pj_ioqueue_t" where
  "cb_read t h x cb s =
     (if \<not> key_closing (key_of s h) \<and> cb \<noteq> 0
      then ([App], add_log (Read_Complete t h x (op_bytes_read (op_of s x))) s) else ([], s))"

definition cb_accept :: "nat \<Rightarrow> nat \<Rightarrow> nat \<Rightarrow> pj_status_t \<Rightarrow> 'w pj_ioqueue_t \<Rightarrow> io_frame list \<times> 'w pj_ioqueue_t" where
  "cb_accept t h x rc s =
     (if on_accept_complete (key_cb (key_of s h)) \<noteq> 0 \<and> \<not> key_closing (key_of s h)
      then ([App], add_log (Accept_Complete t h x (io_socks s (op_accept_fd (op_of s x))) rc) s) else ([], s))"

definition cb_connect :: "nat \<Rightarrow> nat \<Rightarrow> pj_status_t \<Rightarrow> 'w pj_ioqueue_t \<Rightarrow> io_frame list \<times> 'w pj_ioqueue_t" where
  "cb_connect t h status s =
     (if on_connect_complete (key_cb (key_of s h)) \<noteq> 0 \<and> \<not> key_closing (key_of s h)
      then ([App], add_log (Connect_Complete t h status) s) else ([], s))"

definition cb_except :: "'w sock_api \<Rightarrow> nat \<Rightarrow> nat \<Rightarrow> 'w pj_ioqueue_t \<Rightarrow> io_frame list \<times> 'w pj_ioqueue_t" where
  "cb_except api t h s =
     (if on_connect_complete (key_cb (key_of s h)) \<noteq> 0 \<and> \<not> key_closing (key_of s h) then
        (case pj_sock_getsockopt api (key_fd (key_of s h)) SO_ERROR (io_world s) of (gs_rc, val, w) \<Rightarrow>
           ([App], add_log (Connect_Complete t h (if gs_rc = 0 then PJ_RETURN_OS_ERROR val else -1)) (s\<lparr>io_world := w\<rparr>)))
      else ([], s))"

section \<open>Polling\<close>

definition poll_start :: "'w sock_api \<Rightarrow> nat \<Rightarrow> pj_time_val option \<Rightarrow> 'w pj_ioqueue_t \<Rightarrow> io_frame list \<times> 'w pj_ioqueue_t" where
  "poll_start api t timeout s =
     (if PJ_FD_COUNT (iq_rfdset s) = 0 \<and> PJ_FD_COUNT (iq_wfdset s) = 0 \<and> PJ_FD_COUNT (iq_xfdset s) = 0
      then ret t (Poll timeout) PJ_SUCCESS 0 (scan_closing_keys api s)
      else ([Select (iq_rfdset s) (iq_wfdset s) (iq_xfdset s) (iq_nfds s) timeout], s))"

definition poll_select ::
  "'w sock_api \<Rightarrow> nat \<Rightarrow> pj_fd_set_t \<Rightarrow> pj_fd_set_t \<Rightarrow> pj_fd_set_t \<Rightarrow> int \<Rightarrow> pj_time_val option \<Rightarrow> 'w pj_ioqueue_t
   \<Rightarrow> io_frame list \<times> 'w pj_ioqueue_t" where
  "poll_select api t rfdset wfdset xfdset nfds timeout s =
     (case pj_sock_select api (nfds + 1) rfdset wfdset xfdset timeout (io_world s) of (count, rfdset, wfdset, xfdset, w) \<Rightarrow>
        let s = s\<lparr>io_world := w\<rparr>
        in if count = 0 then ret t (Poll timeout) PJ_SUCCESS 0 s
           else if count < 0 then ret t (Poll timeout) PJ_SUCCESS (- PJ_RETURN_OS_ERROR (net_errno api w)) s
           else ([Scan rfdset wfdset xfdset], s))"

text \<open>The events of one key, then of the active keys in order, while there is room. Each
  event takes a reference.\<close>

definition add_event ::
  "bool \<Rightarrow> nat \<Rightarrow> ioqueue_event_type \<Rightarrow> (nat \<times> ioqueue_event_type) list \<times> 'w pj_ioqueue_t
   \<Rightarrow> (nat \<times> ioqueue_event_type) list \<times> 'w pj_ioqueue_t" where
  "add_event cond h e = (\<lambda>(evs, s).
     if cond \<and> \<not> key_closing (key_of s h) \<and> length evs < PJ_IOQUEUE_MAX_CAND_EVENTS
     then (evs @ [(h, e)], increment_counter h s) else (evs, s))"

definition scan_key ::
  "pj_fd_set_t \<Rightarrow> pj_fd_set_t \<Rightarrow> pj_fd_set_t \<Rightarrow> nat \<Rightarrow> (nat \<times> ioqueue_event_type) list \<times> 'w pj_ioqueue_t
   \<Rightarrow> (nat \<times> ioqueue_event_type) list \<times> 'w pj_ioqueue_t" where
  "scan_key rfdset wfdset xfdset h es =
     (let k = key_of (snd es) h
      in if key_fd k = PJ_INVALID_SOCKET then es
         else
           let es = add_event ((key_has_pending_write k \<or> key_has_pending_connect k) \<and> PJ_FD_ISSET (key_fd k) wfdset) h WRITEABLE_EVENT es;
               es = add_event ((key_has_pending_read k \<or> key_has_pending_accept k) \<and> PJ_FD_ISSET (key_fd k) rfdset) h READABLE_EVENT es
           in add_event (key_has_pending_connect k \<and> PJ_FD_ISSET (key_fd k) xfdset) h EXCEPTION_EVENT es)"

fun scan_keys ::
  "pj_fd_set_t \<Rightarrow> pj_fd_set_t \<Rightarrow> pj_fd_set_t \<Rightarrow> nat list \<Rightarrow> (nat \<times> ioqueue_event_type) list \<times> 'w pj_ioqueue_t
   \<Rightarrow> (nat \<times> ioqueue_event_type) list \<times> 'w pj_ioqueue_t" where
  "scan_keys r w x [] es = es"
| "scan_keys r w x (h # hs) es =
     (if length (fst es) < PJ_IOQUEUE_MAX_CAND_EVENTS then scan_keys r w x hs (scan_key r w x h es) else es)"

definition poll_scan ::
  "pj_fd_set_t \<Rightarrow> pj_fd_set_t \<Rightarrow> pj_fd_set_t \<Rightarrow> 'w pj_ioqueue_t \<Rightarrow> io_frame list \<times> 'w pj_ioqueue_t" where
  "poll_scan r w x s =
     (case scan_keys r w x (iq_active_list s) ([], s) of (evs, s) \<Rightarrow>
        ([Events evs 0], fold (\<lambda>(h, _) s. grp_ref (key_grp_lock (key_of s h)) 1 s) evs s))"

text \<open>The loop over the events, and the dispatch of one: \<^verbatim>\<open>locked\<close> says whether
  \<^verbatim>\<open>pj_ioqueue_trylock_key\<close> succeeds.\<close>

definition poll_events :: "nat \<Rightarrow> (nat \<times> ioqueue_event_type) list \<Rightarrow> nat \<Rightarrow> 'w pj_ioqueue_t \<Rightarrow> io_frame list \<times> 'w pj_ioqueue_t" where
  "poll_events t evs processed s =
     (case evs of [] \<Rightarrow> ret t (Poll None) PJ_SUCCESS (int processed) s
      | (h, e) # rest \<Rightarrow>
          ([if processed < PJ_IOQUEUE_MAX_EVENTS_IN_SINGLE_POLL then Dispatch h e rest processed else Unref h rest processed], s))"

definition poll_dispatch ::
  "'w sock_api \<Rightarrow> nat \<Rightarrow> bool \<Rightarrow> nat \<Rightarrow> ioqueue_event_type \<Rightarrow> (nat \<times> ioqueue_event_type) list \<Rightarrow> nat \<Rightarrow> 'w pj_ioqueue_t
   \<Rightarrow> io_frame list \<times> 'w pj_ioqueue_t" where
  "poll_dispatch api t locked h e rest processed s =
     (case (if \<not> locked then (False, [], s)
            else case e of READABLE_EVENT \<Rightarrow> ioqueue_dispatch_read_event api t h s
                 | WRITEABLE_EVENT \<Rightarrow> ioqueue_dispatch_write_event api t h s
                 | EXCEPTION_EVENT \<Rightarrow> ioqueue_dispatch_exception_event h s) of
        (done, frames, s) \<Rightarrow> (frames @ [Unref h rest (if done then processed + 1 else processed)], s))"

end
