(* ===== verification/Pj_Ioqueue_Run.thy ===== *)
theory Pj_Ioqueue_Run
  imports Pj_Ioqueue
begin

text \<open>
  The threads of an application over one I/O queue. A thread is a stack of frames; where
  \<^verbatim>\<open>App\<close> is on top the application runs, at the bottom of the stack or in a callback, and may
  call a function of the queue or return from the callback. Any thread may take the next step.

  The application may call a function on a key it owns, or from inside a callback or an
  unregistration of that key. It gives a key up with \<^verbatim>\<open>pj_ioqueue_unregister\<close>, and, as the
  comments in the source require, not while another thread is in a call on the key, unless that
  call is made from a callback of the key.
\<close>

section \<open>One step of a thread\<close>

fun frame_step :: "'w sock_api \<Rightarrow> nat \<Rightarrow> bool \<Rightarrow> io_frame \<Rightarrow> 'w pj_ioqueue_t \<Rightarrow> io_frame list \<times> 'w pj_ioqueue_t" where
  "frame_step api t b App s = ([App], s)"
| "frame_step api t b (Start c) s =
     (case c of
        Recv _ _ _ _ _ _ \<Rightarrow> recv_start t c s
      | Send _ _ _ _ _ _ \<Rightarrow> send_start t c s
      | Accept _ _ _ _ _ _ \<Rightarrow> accept_start t c s
      | Connect _ _ _ \<Rightarrow> connect_start t c s
      | Post_Completion h x n \<Rightarrow> pj_ioqueue_post_completion t h x n s
      | Clear_Key h \<Rightarrow> pj_ioqueue_clear_key t h s
      | Unregister h \<Rightarrow> unregister_start api t h s
      | Register sock grp_lock user_data cb \<Rightarrow>
          (case pj_ioqueue_register_sock2 api sock grp_lock user_data cb s of (rc, h, s) \<Rightarrow> ret t c rc (int h) s)
      | Poll timeout \<Rightarrow> poll_start api t timeout s
      | Set_Concurrency h allow \<Rightarrow> pj_ioqueue_set_concurrency t h allow s)"
| "frame_step api t b (Check_Op c) s =
     (case c of Recv _ _ _ _ _ _ \<Rightarrow> recv_check_op t c s | Send _ _ _ _ _ _ \<Rightarrow> send_check_op t c s
      | Accept _ _ _ _ _ _ \<Rightarrow> accept_check_op t c s | _ \<Rightarrow> connect_check t c s)"
| "frame_step api t b (Check_List c) s =
     (case c of Send _ _ _ _ _ _ \<Rightarrow> send_check_list api t c s | _ \<Rightarrow> accept_check_list c s)"
| "frame_step api t b (Try c) s =
     (case c of Recv _ _ _ _ _ _ \<Rightarrow> recv_try api t c s | Send _ _ _ _ _ _ \<Rightarrow> send_try api t c s
      | Accept _ _ _ _ _ _ \<Rightarrow> accept_try api t c s | _ \<Rightarrow> connect_try api t c s)"
| "frame_step api t b (Spin c n) s = send_spin c n s"
| "frame_step api t b (Commit c) s =
     (case c of Recv _ _ _ _ _ _ \<Rightarrow> recv_commit t c s | Send _ _ _ _ _ _ \<Rightarrow> send_commit t c s
      | Accept _ _ _ _ _ _ \<Rightarrow> accept_commit t c s | _ \<Rightarrow> connect_commit t c s)"
| "frame_step api t b (Finish c) s = ret t c PJ_SUCCESS 0 s"
| "frame_step api t b (Post_Read c h x n) s = post_read t c h x n s"
| "frame_step api t b (Post_Write c h x n) s = post_write t c h x n s"
| "frame_step api t b (Post_Accept c h x n) s = post_accept t c h x n s"
| "frame_step api t b (Clear_Read c h n) s = clear_read t c h n s"
| "frame_step api t b (Clear_Write c h n) s = clear_write t c h n s"
| "frame_step api t b (Drain h) s = drain_start t h s"
| "frame_step api t b (Drain_Own h) s = drain_own h s"
| "frame_step api t b (Drain_Wait h n) s = drain_wait h n s"
| "frame_step api t b (Cancel h) s = cancel_write t h s"
| "frame_step api t b (Clear_Cb h) s = ([Dec h], clear_callbacks h s)"
| "frame_step api t b (Dec h) s = ([Un_Grp h], decrement_counter api h s)"
| "frame_step api t b (Un_Grp h) s = ret t (Unregister h) PJ_SUCCESS 0 (grp_ref (key_grp_lock (key_of s h)) (-1) s)"
| "frame_step api t b (Select r w x nfds timeout) s = poll_select api t r w x nfds timeout s"
| "frame_step api t b (Scan r w x) s = poll_scan r w x s"
| "frame_step api t b (Events evs p) s = poll_events t evs p s"
| "frame_step api t b (Dispatch h e rest p) s = poll_dispatch api t b h e rest p s"
| "frame_step api t b (Unref h rest p) s = ([Unref_Grp h rest p], decrement_counter api h s)"
| "frame_step api t b (Unref_Grp h rest p) s = ([Events rest p], grp_ref (key_grp_lock (key_of s h)) (-1) s)"
| "frame_step api t b (Cb_Read h x cb) s = cb_read t h x cb s"
| "frame_step api t b (Cb_Write h x) s = cb_write t h x s"
| "frame_step api t b (Cb_Accept h x rc) s = cb_accept t h x rc s"
| "frame_step api t b (Cb_Connect h status) s = cb_connect t h status s"
| "frame_step api t b (Cb_Except h) s = cb_except api t h s"
| "frame_step api t b (Call_Read h x) s = ([App], add_log (Read_Complete t h x (op_bytes_read (op_of s x))) s)"
| "frame_step api t b (Call_Write h x) s = ([App], add_log (Write_Complete t h x (op_written (op_of s x))) s)"
| "frame_step api t b (Read_Loop h) s = ioqueue_dispatch_read_event_no_lock h s"
| "frame_step api t b (Write_Loop h) s = ioqueue_dispatch_write_event_no_lock h s"
| "frame_step api t b (Grp_Dec h) s = ([], grp_ref (key_grp_lock (key_of s h)) (-1) s)"

section \<open>Which keys a frame uses and holds\<close>

fun call_key :: "io_call \<Rightarrow> nat option" where
  "call_key (Recv h _ _ _ _ _) = Some h"
| "call_key (Send h _ _ _ _ _) = Some h"
| "call_key (Accept h _ _ _ _ _) = Some h"
| "call_key (Connect h _ _) = Some h"
| "call_key (Post_Completion h _ _) = Some h"
| "call_key (Clear_Key h) = Some h"
| "call_key (Unregister h) = Some h"
| "call_key (Register _ _ _ _) = None"
| "call_key (Poll _) = None"
| "call_key (Set_Concurrency h _) = Some h"

text \<open>The references a frame holds: that of the registration while it is unregistered, and one
  for every event that is not yet dispatched.\<close>

fun held :: "io_frame \<Rightarrow> nat list" where
  "held (Drain h) = [h]"
| "held (Drain_Own h) = [h]"
| "held (Drain_Wait h _) = [h]"
| "held (Cancel h) = [h]"
| "held (Clear_Cb h) = [h]"
| "held (Dec h) = [h]"
| "held (Events evs _) = map fst evs"
| "held (Dispatch h _ rest _) = h # map fst rest"
| "held (Unref h rest _) = h # map fst rest"
| "held (Unref_Grp _ rest _) = map fst rest"
| "held _ = []"

text \<open>The keys a frame reads or writes without holding them itself. (The group lock of a key is
  read once more after the reference is dropped, by \<^verbatim>\<open>Un_Grp\<close> and \<^verbatim>\<open>Unref_Grp\<close>: the key is then in the
  closing list, which it leaves after half a second at the earliest.)\<close>

fun used :: "io_frame \<Rightarrow> nat list" where
  "used (Start c) = (case call_key c of None \<Rightarrow> [] | Some h \<Rightarrow> [h])"
| "used (Check_Op c) = (case call_key c of None \<Rightarrow> [] | Some h \<Rightarrow> [h])"
| "used (Check_List c) = (case call_key c of None \<Rightarrow> [] | Some h \<Rightarrow> [h])"
| "used (Try c) = (case call_key c of None \<Rightarrow> [] | Some h \<Rightarrow> [h])"
| "used (Spin c _) = (case call_key c of None \<Rightarrow> [] | Some h \<Rightarrow> [h])"
| "used (Commit c) = (case call_key c of None \<Rightarrow> [] | Some h \<Rightarrow> [h])"
| "used (Post_Read _ h _ _) = [h]"
| "used (Post_Write _ h _ _) = [h]"
| "used (Post_Accept _ h _ _) = [h]"
| "used (Clear_Read _ h _) = [h]"
| "used (Clear_Write _ h _) = [h]"
| "used (Cb_Read h _ _) = [h]"
| "used (Cb_Write h _) = [h]"
| "used (Cb_Accept h _ _) = [h]"
| "used (Cb_Connect h _) = [h]"
| "used (Cb_Except h) = [h]"
| "used (Call_Read h _) = [h]"
| "used (Call_Write h _) = [h]"
| "used (Read_Loop h) = [h]"
| "used (Write_Loop h) = [h]"
| "used (Grp_Dec h) = [h]"
| "used _ = []"

definition held_by :: "io_frame list \<Rightarrow> nat list" where
  "held_by fs = concat (map held fs)"

text \<open>A stack in which every key that is used is owned by the application, or held further down.\<close>

fun stack_ok :: "nat set \<Rightarrow> io_frame list \<Rightarrow> bool" where
  "stack_ok owned [] \<longleftrightarrow> True"
| "stack_ok owned (f # fs) \<longleftrightarrow> (\<forall>h\<in>set (used f). h \<in> owned \<or> h \<in> set (held_by fs)) \<and> stack_ok owned fs"

section \<open>The system\<close>

record 'w io_sys =
  sy_ioq :: "'w pj_ioqueue_t"
  sy_threads :: "nat list"
  sy_stack :: "nat \<Rightarrow> io_frame list"
  sy_owned :: "nat set"

datatype io_act = Call io_call | Return | Run bool

definition may_call :: "nat \<Rightarrow> io_call \<Rightarrow> 'w io_sys \<Rightarrow> bool" where
  "may_call t c s \<longleftrightarrow>
     (case call_key c of None \<Rightarrow> True | Some h \<Rightarrow> h \<in> sy_owned s \<or> h \<in> set (held_by (sy_stack s t)))"

text \<open>When a key is closed, no thread is in a call on the key that relies on owning it.\<close>

definition may_run :: "nat \<Rightarrow> io_frame \<Rightarrow> 'w io_sys \<Rightarrow> bool" where
  "may_run t f s \<longleftrightarrow>
     (case f of
        Start (Unregister h) \<Rightarrow>
          (\<forall>u\<in>set (sy_threads s). stack_ok (sy_owned s - {h}) (if u = t then tl (sy_stack s u) else sy_stack s u))
      | _ \<Rightarrow> True)"

text \<open>A key is owned from the return of its registration until it is closed.\<close>

definition owned_after :: "'w sock_api \<Rightarrow> io_frame \<Rightarrow> 'w io_sys \<Rightarrow> nat set" where
  "owned_after api f s =
     (case f of
        Start (Register sock grp_lock user_data cb) \<Rightarrow>
          (case pj_ioqueue_register_sock2 api sock grp_lock user_data cb (sy_ioq s) of (_, h, _) \<Rightarrow>
             if h \<noteq> 0 then insert h (sy_owned s) else sy_owned s)
      | Start (Unregister h) \<Rightarrow> sy_owned s - {h}
      | _ \<Rightarrow> sy_owned s)"

definition io_step :: "'w sock_api \<Rightarrow> nat \<Rightarrow> io_act \<Rightarrow> 'w io_sys \<Rightarrow> 'w io_sys option" where
  "io_step api t a s =
     (if t \<notin> set (sy_threads s) then None
      else case a of
        Call c \<Rightarrow>
          (case sy_stack s t of
             App # fs \<Rightarrow>
               if may_call t c s then
                 Some (s\<lparr>sy_stack := (sy_stack s)(t := Start c # App # fs)\<rparr>)
               else None
           | _ \<Rightarrow> None)
      | Return \<Rightarrow>
          (case sy_stack s t of App # f # fs \<Rightarrow> Some (s\<lparr>sy_stack := (sy_stack s)(t := f # fs)\<rparr>) | _ \<Rightarrow> None)
      | Run b \<Rightarrow>
          (case sy_stack s t of
             f # fs \<Rightarrow>
               if f = App \<or> \<not> may_run t f s then None
               else (case frame_step api t b f (sy_ioq s) of (frames, q) \<Rightarrow>
                  Some (s\<lparr>sy_ioq := q, sy_stack := (sy_stack s)(t := frames @ fs), sy_owned := owned_after api f s\<rparr>))
           | [] \<Rightarrow> None))"

fun io_exec :: "'w sock_api \<Rightarrow> (nat \<times> io_act) list \<Rightarrow> 'w io_sys \<Rightarrow> 'w io_sys option" where
  "io_exec api [] s = Some s"
| "io_exec api ((t, a) # as) s = (case io_step api t a s of None \<Rightarrow> None | Some s' \<Rightarrow> io_exec api as s')"

text \<open>The system right after the creation of the queue.\<close>

definition io_start :: "nat list \<Rightarrow> 'w pj_ioqueue_t \<Rightarrow> 'w io_sys" where
  "io_start threads q = \<lparr>sy_ioq = q, sy_threads = threads, sy_stack = (\<lambda>_. [App]), sy_owned = {}\<rparr>"

section \<open>Induction over runs\<close>

text \<open>Invariants: a predicate that every allowed step keeps holds after a run of such steps.\<close>

fun allowed :: "'w sock_api \<Rightarrow> (nat \<Rightarrow> io_act \<Rightarrow> 'w io_sys \<Rightarrow> bool) \<Rightarrow> (nat \<times> io_act) list \<Rightarrow> 'w io_sys \<Rightarrow> bool" where
  "allowed api ok [] s \<longleftrightarrow> True"
| "allowed api ok ((t, a) # as) s \<longleftrightarrow> ok t a s \<and> (case io_step api t a s of None \<Rightarrow> True | Some s' \<Rightarrow> allowed api ok as s')"

locale io_invariant =
  fixes api :: "'w sock_api" and ok :: "nat \<Rightarrow> io_act \<Rightarrow> 'w io_sys \<Rightarrow> bool" and P :: "'w io_sys \<Rightarrow> bool"
  assumes step: "P s \<Longrightarrow> ok t a s \<Longrightarrow> io_step api t a s = Some s' \<Longrightarrow> P s'"
begin

lemma exec:
  assumes run: "io_exec api as s = Some s'" and ok: "allowed api ok as s" and init: "P s"
  shows "P s'"
  using run ok init
proof (induction as arbitrary: s)
  case (Cons x as)
  obtain t a where x: "x = (t, a)" by (cases x)
  with Cons show ?case by (auto split: option.splits dest: step)
qed simp

end

lemma allowed_True [simp]: "allowed api (\<lambda>_ _ _. True) as s"
proof (induction as arbitrary: s)
  case (Cons x as)
  then show ?case by (cases x) (auto split: option.splits)
qed simp

lemma allowed_mono:
  "allowed api ok as s \<Longrightarrow> (\<And>t a s. ok t a s \<Longrightarrow> ok' t a s) \<Longrightarrow> allowed api ok' as s"
proof (induction as arbitrary: s)
  case (Cons x as)
  then show ?case by (cases x) (auto split: option.splits)
qed simp

text \<open>The three kinds of steps.\<close>

lemma io_step_cases [consumes 1, case_names Call Return Run]:
  assumes "io_step api t a s = Some s'"
  obtains c fs where "a = Call c" "t \<in> set (sy_threads s)" "sy_stack s t = App # fs" "may_call t c s"
      "s' = s\<lparr>sy_stack := (sy_stack s)(t := Start c # App # fs)\<rparr>"
    | f fs where "a = Return" "t \<in> set (sy_threads s)" "sy_stack s t = App # f # fs" "s' = s\<lparr>sy_stack := (sy_stack s)(t := f # fs)\<rparr>"
    | b f fs frames q where "a = Run b" "t \<in> set (sy_threads s)" "sy_stack s t = f # fs" "f \<noteq> App" "may_run t f s"
      "frame_step api t b f (sy_ioq s) = (frames, q)"
      "s' = s\<lparr>sy_ioq := q, sy_stack := (sy_stack s)(t := frames @ fs), sy_owned := owned_after api f s\<rparr>"
  using assms that unfolding io_step_def
  by (auto split: if_splits io_act.splits list.splits io_frame.splits prod.splits simp del: fun_upd_apply)

end
