(* ===== verification/Pj_Ioqueue_Inv.thy ===== *)
theory Pj_Ioqueue_Inv
  imports Pj_Ioqueue_Run
begin

text \<open>
  What the sections of the I/O queue do to the life of the keys: the lists of the queue, the
  reference counts and the closing flags. Most leave them alone; the frames a section returns
  hold the references of the frame it replaces and use no key that is not covered.
\<close>

section \<open>The part of the state that says which keys live\<close>

type_synonym key_life = "nat list \<times> nat list \<times> nat list \<times> int \<times> int \<times> (nat \<Rightarrow> int) \<times> (nat \<Rightarrow> bool)"

definition life :: "'w pj_ioqueue_t \<Rightarrow> key_life" where
  "life s = (iq_active_list s, iq_closing_list s, iq_free_list s, iq_count s, iq_max s,
             (\<lambda>h. key_ref_count (key_of s h)), (\<lambda>h. key_closing (key_of s h)))"

lemma life_upd_key [simp]:
  "(\<And>k. key_ref_count (f k) = key_ref_count k) \<Longrightarrow> (\<And>k. key_closing (f k) = key_closing k) \<Longrightarrow> life (upd_key h f s) = life s"
  by (auto simp: life_def upd_key_def fun_eq_iff)

lemma life_simps [simp]:
  "life (upd_op x g s) = life s"
  "life (add_log e s) = life s"
  "life (grp_ref gl n s) = life s"
  "life (s\<lparr>io_world := w\<rparr>) = life s"
  "life (s\<lparr>io_socks := m\<rparr>) = life s"
  "life (s\<lparr>io_world := w, io_socks := m\<rparr>) = life s"
  "life (ioqueue_add_to_set2 h es s) = life s"
  "life (ioqueue_remove_from_set2 h es s) = life s"
  "life (ioqueue_add_to_set h et s) = life s"
  "life (ioqueue_remove_from_set h et s) = life s"
  "life (rescan_fdset s) = life s"
  by (simp_all add: life_def upd_op_def add_log_def grp_ref_def ioqueue_add_to_set2_def ioqueue_add_to_set_def
      ioqueue_remove_from_set2_def ioqueue_remove_from_set_def rescan_fdset_def Let_def)

section \<open>Frames that follow\<close>

lemma held_by_simps [simp]: "held_by [] = []" "held_by (f # fs) = held f @ held_by fs" "held_by (fs @ gs) = held_by fs @ held_by gs"
  by (simp_all add: held_by_def)

lemma stack_ok_append:
  "stack_ok A fr \<Longrightarrow> (\<And>h. h \<in> A \<Longrightarrow> h \<in> owned \<or> h \<in> set (held_by fs)) \<Longrightarrow> stack_ok owned fs \<Longrightarrow> stack_ok owned (fr @ fs)"
  by (induction fr) auto

lemma stack_ok_mono: "stack_ok A fs \<Longrightarrow> A \<subseteq> B \<Longrightarrow> stack_ok B fs"
  by (induction fs) auto

text \<open>A section that leaves the life of the keys alone and passes on what it holds.\<close>

definition quiet :: "io_frame \<Rightarrow> 'w pj_ioqueue_t \<Rightarrow> io_frame list \<times> 'w pj_ioqueue_t \<Rightarrow> bool" where
  "quiet f s res \<longleftrightarrow> life (snd res) = life s \<and> held_by (fst res) = held f \<and> stack_ok (set (used f)) (fst res)"


named_theorems quiet_sections

lemma quiet_ret [simp]: "life s' = life s \<Longrightarrow> held f = [] \<Longrightarrow> quiet f s (ret t c st n s')"
  by (simp add: quiet_def ret_def)

lemma quiet_pair [simp]:
  "quiet f s (fr, s') \<longleftrightarrow> life s' = life s \<and> held_by fr = held f \<and> stack_ok (set (used f)) fr"
  by (simp add: quiet_def)

lemma quiet_recv [quiet_sections]:
  "quiet (Start (Recv h x buf len flags from)) s (recv_start t (Recv h x buf len flags from) s)"
  "quiet (Check_Op (Recv h x buf len flags from)) s (recv_check_op t (Recv h x buf len flags from) s)"
  "quiet (Try (Recv h x buf len flags from)) s (recv_try api t (Recv h x buf len flags from) s)"
  "quiet (Commit (Recv h x buf len flags from)) s (recv_commit t (Recv h x buf len flags from) s)"
  by (auto simp: Let_def split: prod.split option.split)

lemma life_key_send [simp]:
  "key_send api h buf len flags s = (rc, sent, s') \<Longrightarrow> life s' = life s"
  "key_sendto api h buf len flags addr addrlen s = (rc, sent, s') \<Longrightarrow> life s' = life s"
  by (auto simp: key_send_def key_sendto_def Let_def split: prod.splits if_splits)

lemma quiet_send_slow: "held f = [] \<Longrightarrow> h \<in> set (used f) \<Longrightarrow> life s' = life s \<Longrightarrow> quiet f s (send_slow api t (Send h x buf len flags to) s')"
  by (auto simp: send_slow_def split: option.split)

lemma quiet_send [quiet_sections]:
  "quiet (Start (Send h x buf len flags to)) s (send_start t (Send h x buf len flags to) s)"
  "quiet (Check_List (Send h x buf len flags to)) s (send_check_list api t (Send h x buf len flags to) s)"
  "quiet (Try (Send h x buf len flags to)) s (send_try api t (Send h x buf len flags to) s)"
  "quiet (Spin (Send h x buf len flags to) n) s (send_spin (Send h x buf len flags to) n s)"
  "quiet (Check_Op (Send h x buf len flags to)) s (send_check_op t (Send h x buf len flags to) s)"
  "quiet (Commit (Send h x buf len flags to)) s (send_commit t (Send h x buf len flags to) s)"
  by (auto simp: Let_def intro!: quiet_send_slow split: prod.split option.splits)

lemma life_accept [simp]:
  "key_accept api h ns r al s = (rc, s') \<Longrightarrow> life s' = life s"
  "sock_name api ns l al s = (rc, s') \<Longrightarrow> life s' = life s"
  by (auto simp: key_accept_def sock_name_def split: prod.splits)

lemma quiet_accept [quiet_sections]:
  "quiet (Start (Accept h x ns l r al)) s (accept_start t (Accept h x ns l r al) s)"
  "quiet (Check_Op (Accept h x ns l r al)) s (accept_check_op t (Accept h x ns l r al) s)"
  "quiet (Check_List (Accept h x ns l r al)) s (accept_check_list (Accept h x ns l r al) s)"
  "quiet (Try (Accept h x ns l r al)) s (accept_try api t (Accept h x ns l r al) s)"
  "quiet (Commit (Accept h x ns l r al)) s (accept_commit t (Accept h x ns l r al) s)"
  by (auto simp: Let_def split: prod.split)

lemma quiet_connect [quiet_sections]:
  "quiet (Start (Connect h a l)) s (connect_start t (Connect h a l) s)"
  "quiet (Check_Op (Connect h a l)) s (connect_check t (Connect h a l) s)"
  "quiet (Try (Connect h a l)) s (connect_try api t (Connect h a l) s)"
  "quiet (Commit (Connect h a l)) s (connect_commit t (Connect h a l) s)"
  by (auto simp: Let_def split: prod.split)

lemma quiet_post [quiet_sections]:
  "quiet (Start (Post_Completion h x n)) s (pj_ioqueue_post_completion t h x n s)"
  "quiet (Post_Read c h x n) s (post_read t c h x n s)"
  "quiet (Post_Write c h x n) s (post_write t c h x n s)"
  "quiet (Post_Accept c h x n) s (post_accept t c h x n s)"
  by (auto simp: Let_def pj_ioqueue_post_completion_def post_read_def post_write_def post_accept_def)

lemma quiet_clear_finish: "held f = [] \<Longrightarrow> life s' = life s \<Longrightarrow> quiet f s (clear_finish t c h s')"
  by (simp add: clear_finish_def)

lemma quiet_clear_wait_write:
  "held f = [] \<Longrightarrow> h \<in> set (used f) \<Longrightarrow> life s' = life s \<Longrightarrow> quiet f s (clear_wait_write t c h s')"
  by (auto simp: clear_wait_write_def intro: quiet_clear_finish)

lemma quiet_clear [quiet_sections]:
  "quiet (Clear_Read c h n) s (clear_read t c h n s)"
  "quiet (Clear_Write c h n) s (clear_write t c h n s)"
  "quiet (Start (Clear_Key h)) s (pj_ioqueue_clear_key t h s)"
  "quiet (Start (Set_Concurrency h allow)) s (pj_ioqueue_set_concurrency t h allow s)"
  by (auto simp: clear_read_def clear_write_def pj_ioqueue_clear_key_def pj_ioqueue_set_concurrency_def Let_def
      intro!: quiet_clear_finish quiet_clear_wait_write)

lemma quiet_drain_own: "held f = [h] \<Longrightarrow> quiet f s (drain_own h s)"
  by (auto simp: drain_own_def Let_def split: list.split)

lemma quiet_unregister [quiet_sections]:
  "quiet (Drain h) s (drain_start t h s)"
  "quiet (Drain_Own h) s (drain_own h s)"
  "quiet (Drain_Wait h n) s (drain_wait h n s)"
  "quiet (Cancel h) s (cancel_write t h s)"
  "quiet (Clear_Cb h) s ([Dec h], clear_callbacks h s)"
  by (auto simp: drain_start_def drain_wait_def cancel_write_def clear_callbacks_def Let_def quiet_drain_own split: list.split)

lemma quiet_poll [quiet_sections]:
  "quiet (Select r w x nfds timeout) s (poll_select api t r w x nfds timeout s)"
  "quiet (Events evs p) s (poll_events t evs p s)"
  by (auto simp: poll_select_def poll_events_def Let_def split: prod.split list.split)

section \<open>Dispatch\<close>

text \<open>A dispatch leaves the life of the keys alone; the frames it returns use the key, and hold
  nothing.\<close>

definition quiet_dispatch :: "nat \<Rightarrow> 'w pj_ioqueue_t \<Rightarrow> bool \<times> io_frame list \<times> 'w pj_ioqueue_t \<Rightarrow> bool" where
  "quiet_dispatch h s res \<longleftrightarrow>
     life (snd (snd res)) = life s \<and> (\<forall>f\<in>set (fst (snd res)). held f = [] \<and> set (used f) = {h})"

lemma quiet_dispatch_pair [simp]:
  "quiet_dispatch h s (b, fr, s') \<longleftrightarrow> life s' = life s \<and> (\<forall>f\<in>set fr. held f = [] \<and> set (used f) = {h})"
  by (simp add: quiet_dispatch_def)

lemma life_send_op: "send_op api h x s = (rc, s') \<Longrightarrow> life s' = life s"
  by (auto simp: send_op_def Let_def split: prod.splits if_splits)

lemma life_recv_op: "recv_op api h x s = (rc, n, s') \<Longrightarrow> life s' = life s"
  by (auto simp: recv_op_def Let_def split: prod.splits if_splits)

lemma quiet_write_done: "life s' = life s \<Longrightarrow> quiet_dispatch h s (write_done t h x s')"
  by (simp add: write_done_def)

lemma quiet_read_done: "life s' = life s \<Longrightarrow> quiet_dispatch h s (read_done t h x s')"
  by (simp add: read_done_def Let_def)

lemma life_erase_write [simp]: "life (erase_write h s) = life s"
  by (simp add: erase_write_def Let_def)

lemma quiet_dispatch_write: "quiet_dispatch h s (dispatch_write api t h s)"
  by (auto simp: dispatch_write_def Let_def intro!: quiet_write_done dest!: life_send_op split: prod.split)

lemma quiet_dispatch_read: "quiet_dispatch h s (dispatch_read api t h s)"
  by (auto simp: dispatch_read_def Let_def intro!: quiet_read_done dest!: life_recv_op split: prod.split)

lemma quiet_dispatch_connected: "quiet_dispatch h s (dispatch_connected api h s)"
  by (auto simp: dispatch_connected_def Let_def split: prod.split)

lemma quiet_dispatch_accept: "quiet_dispatch h s (dispatch_accept api h s)"
  by (auto simp: dispatch_accept_def Let_def dest!: life_accept split: prod.split if_splits)

lemma quiet_events:
  "quiet_dispatch h s (ioqueue_dispatch_write_event api t h s)"
  "quiet_dispatch h s (ioqueue_dispatch_read_event api t h s)"
  "quiet_dispatch h s (ioqueue_dispatch_exception_event h s)"
  by (simp_all add: ioqueue_dispatch_write_event_def ioqueue_dispatch_read_event_def ioqueue_dispatch_exception_event_def
      quiet_dispatch_write quiet_dispatch_read quiet_dispatch_connected quiet_dispatch_accept Let_def)

lemma stack_ok_users:
  "(\<And>f. f \<in> set fr \<Longrightarrow> held f = [] \<and> set (used f) = {h}) \<Longrightarrow> h \<in> A \<or> h \<in> set (held_by fs) \<Longrightarrow> stack_ok A fs \<Longrightarrow> stack_ok A (fr @ fs)"
  by (induction fr) auto

lemma held_by_users: "(\<And>f. f \<in> set fr \<Longrightarrow> held f = []) \<Longrightarrow> held_by fr = []"
  by (induction fr) auto

lemma quiet_poll_dispatch [quiet_sections]: "quiet (Dispatch h e rest p) s (poll_dispatch api t b h e rest p s)"
proof -
  obtain d fr s' where res: "(if \<not> b then (False, [], s)
      else case e of READABLE_EVENT \<Rightarrow> ioqueue_dispatch_read_event api t h s
           | WRITEABLE_EVENT \<Rightarrow> ioqueue_dispatch_write_event api t h s
           | EXCEPTION_EVENT \<Rightarrow> ioqueue_dispatch_exception_event h s) = (d, fr, s')"
    by (metis surj_pair)
  have "quiet_dispatch h s (d, fr, s')"
    by (subst res [symmetric]) (simp add: quiet_events split: ioqueue_event_type.split)
  with res show ?thesis
    by (auto simp: poll_dispatch_def held_by_users intro!: stack_ok_users)
qed

lemma quiet_callbacks [quiet_sections]:
  "quiet (Cb_Read h x cb) s (cb_read t h x cb s)"
  "quiet (Cb_Write h x) s (cb_write t h x s)"
  "quiet (Cb_Accept h x rc) s (cb_accept t h x rc s)"
  "quiet (Cb_Connect h rc) s (cb_connect t h rc s)"
  "quiet (Cb_Except h) s (cb_except api t h s)"
  "quiet (Read_Loop h) s (ioqueue_dispatch_read_event_no_lock h s)"
  "quiet (Write_Loop h) s (ioqueue_dispatch_write_event_no_lock h s)"
  by (auto simp: cb_read_def cb_write_def cb_accept_def cb_connect_def cb_except_def Let_def
      ioqueue_dispatch_read_event_no_lock_def ioqueue_dispatch_write_event_no_lock_def split: prod.split list.split)

section \<open>The frames that change the life of a key\<close>

fun vital :: "io_frame \<Rightarrow> bool" where
  "vital (Start (Unregister h)) = True"
| "vital (Start (Register _ _ _ _)) = True"
| "vital (Start (Poll _)) = True"
| "vital (Scan _ _ _) = True"
| "vital (Dec h) = True"
| "vital (Unref _ _ _) = True"
| "vital _ = False"

lemmas section_simps =
  recv_start.simps recv_check_op.simps recv_try.simps recv_commit.simps
  send_start.simps send_check_list.simps send_try.simps send_spin.simps send_check_op.simps send_commit.simps
  accept_start.simps accept_check_op.simps accept_check_list.simps accept_try.simps accept_commit.simps
  connect_start.simps connect_check.simps connect_try.simps connect_commit.simps

declare section_simps [simp del]

lemma frame_step_quiet: "\<not> vital f \<Longrightarrow> quiet f s (frame_step api t b f s)"
proof (cases f)
  case (Start c)
  assume "\<not> vital f" then show ?thesis by (cases c) (simp_all add: Start quiet_sections)
next
  case (Check_Op c) then show ?thesis by (cases c) (simp_all add: quiet_sections, simp_all add: section_simps)
next
  case (Check_List c) then show ?thesis by (cases c) (simp_all add: quiet_sections, simp_all add: section_simps)
next
  case (Try c) then show ?thesis by (cases c) (simp_all add: quiet_sections, simp_all add: section_simps)
next
  case (Spin c n) then show ?thesis by (cases c) (simp_all add: quiet_sections, simp_all add: section_simps)
next
  case (Commit c) then show ?thesis by (cases c) (simp_all add: quiet_sections, simp_all add: section_simps)
qed (simp_all add: quiet_sections del: quiet_pair, simp_all)

end
