(* ===== verification/Pj_Ioqueue_Life.thy ===== *)
theory Pj_Ioqueue_Life
  imports Pj_Ioqueue_Inv
begin

text \<open>
  The life of the keys of an I/O queue, for any interleaving of threads: the keys are divided
  among the active, the closing and the free list; the reference count of a key is one for a
  registration that is not closing, and one for every reference a thread holds; keys without
  references are not active. So a key that is in use is never recycled.
\<close>

section \<open>Lists, counts and references\<close>

fun life_ok :: "nat set \<Rightarrow> key_life \<Rightarrow> (nat \<Rightarrow> nat) \<Rightarrow> bool" where
  "life_ok K (act, clo, fre, cnt, mx, rc, cl) refs \<longleftrightarrow>
     distinct (act @ clo @ fre) \<and> set (act @ clo @ fre) = K \<and> 0 \<notin> K \<and>
     (\<forall>h\<in>K. rc h = (if h \<in> set act \<and> \<not> cl h then 1 else 0) + int (refs h)) \<and>
     (\<forall>h\<in>set act. rc h > 0) \<and> (\<forall>h. h \<notin> set act \<longrightarrow> refs h = 0) \<and>
     cnt = int (card {h \<in> set act. \<not> cl h}) \<and> mx = int (card K)"

lemma life_ok_close:
  assumes "life_ok K (act, clo, fre, cnt, mx, rc, cl) refs" "h \<in> set act" "\<not> cl h"
  shows "0 < cnt" "life_ok K (act, clo, fre, cnt - 1, mx, rc, cl(h := True)) (refs(h := Suc (refs h)))"
proof -
  let ?A = "{h \<in> set act. \<not> cl h}"
  have h: "h \<in> ?A" using assms(2,3) by simp
  then have pos: "0 < card ?A" by (auto simp: card_gt_0_iff)
  show "0 < cnt" using assms(1) pos by simp
  have "{h' \<in> set act. \<not> (cl(h := True)) h'} = ?A - {h}" by auto
  with assms h pos show "life_ok K (act, clo, fre, cnt - 1, mx, rc, cl(h := True)) (refs(h := Suc (refs h)))"
    by (auto simp: of_nat_diff)
qed

lemma life_ok_free:
  assumes "life_ok K (act, clo, fre, cnt, mx, rc, cl) refs" "h \<in> set clo"
  shows "life_ok K (act, remove1 h clo, fre @ [h], cnt, mx, rc, cl) refs"
proof -
  have "set (remove1 h clo) = set clo - {h}" using assms(1) by (simp add: set_remove1_eq)
  with assms show ?thesis by (auto simp: distinct_remove1)
qed

lemma life_ok_open:
  assumes ok: "life_ok K (act, clo, h # fre, cnt, mx, rc, cl) refs"
  shows "life_ok K (act @ [h], clo, fre, cnt + 1, mx, rc(h := rc h + 1), cl(h := False)) refs"
proof -
  have new: "h \<notin> set act" "h \<in> K" "refs h = 0" "rc h = 0" using ok by auto
  then have "{h' \<in> set (act @ [h]). \<not> (cl(h := False)) h'} = insert h {h' \<in> set act. \<not> cl h'}" by auto
  then have "int (card {h' \<in> set (act @ [h]). \<not> (cl(h := False)) h'}) = cnt + 1" using ok new by simp
  with ok new show ?thesis by auto
qed

lemma life_ok_unused:
  assumes ok: "life_ok K (act, clo, h # fre, cnt, mx, rc, cl) refs"
  shows "life_ok K (act, clo, fre @ [h], cnt, mx, rc(h := 0), cl(h := False)) refs"
proof -
  have new: "h \<notin> set act" using ok by auto
  then have "{h' \<in> set act. \<not> (cl(h := False)) h'} = {h' \<in> set act. \<not> cl h'}" by auto
  with ok new show ?thesis by auto
qed

lemma life_ok_take:
  "life_ok K (act, clo, fre, cnt, mx, rc, cl) refs \<Longrightarrow> h \<in> set act \<Longrightarrow>
   life_ok K (act, clo, fre, cnt, mx, rc(h := rc h + 1), cl) (refs(h := Suc (refs h)))"
  by auto

lemma life_ok_drop:
  assumes "life_ok K (act, clo, fre, cnt, mx, rc, cl) refs" "0 < refs h" "rc h - 1 \<noteq> 0"
  shows "life_ok K (act, clo, fre, cnt, mx, rc(h := rc h - 1), cl) (refs(h := refs h - 1))"
proof -
  have "h \<in> set act" using assms by auto
  moreover from this have "0 < rc h" using assms(1) by simp
  ultimately show ?thesis using assms by auto
qed

lemma life_ok_drop_last:
  assumes ok: "life_ok K (act, clo, fre, cnt, mx, rc, cl) refs" and pos: "0 < refs h" and last: "rc h - 1 = 0"
  shows "cl h" "life_ok K (remove1 h act, clo @ [h], fre, cnt, mx, rc(h := rc h - 1), cl) (refs(h := refs h - 1))"
proof -
  have act: "h \<in> set act" and K: "h \<in> K" using ok pos by auto
  with ok pos last show cl: "cl h" by (auto split: if_splits)
  have "rc h = int (refs h)" using ok K cl by simp
  then have refs: "refs h = 1" using last by simp
  have set: "set (remove1 h act) = set act - {h}" using ok by (simp add: set_remove1_eq)
  then have "{h' \<in> set (remove1 h act). \<not> cl h'} = {h' \<in> set act. \<not> cl h'}" using cl by auto
  with ok act cl refs set show "life_ok K (remove1 h act, clo @ [h], fre, cnt, mx, rc(h := rc h - 1), cl) (refs(h := refs h - 1))"
    by (auto simp: distinct_remove1)
qed

lemma life_okD:
  assumes "life_ok K (life s) R"
  shows "distinct (iq_active_list s @ iq_closing_list s @ iq_free_list s)"
    "set (iq_active_list s @ iq_closing_list s @ iq_free_list s) = K" "0 \<notin> K"
    "h \<in> K \<Longrightarrow> key_ref_count (key_of s h) = (if h \<in> set (iq_active_list s) \<and> \<not> key_closing (key_of s h) then 1 else 0) + int (R h)"
    "0 < R h \<Longrightarrow> h \<in> set (iq_active_list s)"
    "h \<in> set (iq_active_list s) \<Longrightarrow> 0 < key_ref_count (key_of s h)"
    "iq_count s = int (card {h \<in> set (iq_active_list s). \<not> key_closing (key_of s h)})" "iq_max s = int (card K)"
  using assms by (auto simp: life_def)

declare life_ok.simps [simp del]

section \<open>References held by the threads\<close>

definition refs :: "'w io_sys \<Rightarrow> nat \<Rightarrow> nat" where
  "refs s h = (\<Sum>t\<in>set (sy_threads s). count_list (held_by (sy_stack s t)) h)"

lemma refs_upd:
  assumes "t \<in> set (sy_threads s)" "sy_threads s' = sy_threads s" "sy_stack s' = (sy_stack s)(t := st)"
  shows "refs s' h + count_list (held_by (sy_stack s t)) h = refs s h + count_list (held_by st) h"
proof -
  let ?T = "set (sy_threads s)"
  have "(\<Sum>u\<in>?T - {t}. count_list (held_by (((sy_stack s)(t := st)) u)) h) = (\<Sum>u\<in>?T - {t}. count_list (held_by (sy_stack s u)) h)"
    by (rule sum.cong) auto
  with assms show ?thesis by (simp add: refs_def sum.remove [where A = "?T" and x = t])
qed

lemma refs_owned [simp]: "refs (s\<lparr>sy_owned := A\<rparr>) = refs s"
  by (simp add: refs_def fun_eq_iff)

lemma refs_pos: "t \<in> set (sy_threads s) \<Longrightarrow> h \<in> set (held_by (sy_stack s t)) \<Longrightarrow> 0 < refs s h"
  unfolding refs_def by (rule sum_pos2 [of _ t]) (auto intro: gr0I simp: count_list_0_iff)

lemma life_eqD:
  "life q = life q' \<Longrightarrow> iq_active_list q = iq_active_list q'"
  "life q = life q' \<Longrightarrow> key_closing (key_of q h) = key_closing (key_of q' h)"
  by (auto simp: life_def fun_eq_iff)

section \<open>The invariant\<close>

definition owned_ok :: "'w io_sys \<Rightarrow> bool" where
  "owned_ok s \<longleftrightarrow> (\<forall>h\<in>sy_owned s. h \<in> set (iq_active_list (sy_ioq s)) \<and> \<not> key_closing (key_of (sy_ioq s) h))"

definition stacks_ok :: "'w io_sys \<Rightarrow> bool" where
  "stacks_ok s \<longleftrightarrow> (\<forall>t\<in>set (sy_threads s). stack_ok (sy_owned s) (sy_stack s t))"

definition keys_ok :: "nat set \<Rightarrow> 'w io_sys \<Rightarrow> bool" where
  "keys_ok K s \<longleftrightarrow> life_ok K (life (sy_ioq s)) (refs s) \<and> owned_ok s \<and> stacks_ok s"

text \<open>A key that is owned, or held by a thread, is active.\<close>

lemma held_active:
  assumes "life_ok K (life (sy_ioq s)) (refs s)" "t \<in> set (sy_threads s)" "h \<in> set (held_by (sy_stack s t))"
  shows "h \<in> set (iq_active_list (sy_ioq s))"
  using life_okD(5) [OF assms(1) refs_pos [OF assms(2,3)]] .

lemma used_active:
  assumes ok: "keys_ok K s" and t: "t \<in> set (sy_threads s)" and st: "sy_stack s t = xs @ f # fs" and h: "h \<in> set (used f)"
  shows "h \<in> set (iq_active_list (sy_ioq s))"
proof -
  have "stack_ok (sy_owned s) (xs @ f # fs) \<Longrightarrow> h \<in> sy_owned s \<or> h \<in> set (held_by fs)" using h by (induction xs) auto
  moreover have "stack_ok (sy_owned s) (xs @ f # fs)" using ok t st by (metis keys_ok_def stacks_ok_def)
  ultimately show ?thesis
    using ok t st held_active [of K s t h] by (auto simp: keys_ok_def owned_ok_def)
qed

text \<open>A step that replaces the top of a stack by frames that hold what it held.\<close>

lemma refs_same:
  assumes "t \<in> set (sy_threads s)" "sy_stack s t = f # fs" "held_by fr = held f"
    "sy_threads s' = sy_threads s" "sy_stack s' = (sy_stack s)(t := fr @ fs)"
  shows "refs s' = refs s"
  using refs_upd [OF assms(1,4,5)] assms(2,3) by (auto simp: fun_eq_iff)

lemma refs_replace:
  assumes t: "t \<in> set (sy_threads s)" and st: "sy_stack s t = f # fs"
  shows "refs (s\<lparr>sy_ioq := q, sy_stack := (sy_stack s)(t := fr @ fs)\<rparr>)
       = (\<lambda>h. refs s h + count_list (held_by fr) h - count_list (held f) h)" (is "refs ?s = _")
proof
  fix h
  have "count_list (held f) h \<le> refs s h" using t st by (auto simp: refs_def sum.remove [where x = t])
  then show "refs ?s h = refs s h + count_list (held_by fr) h - count_list (held f) h"
    using refs_upd [OF t, of ?s "fr @ fs" h] st by simp
qed

lemma stacks_ok_replace:
  assumes ok: "stacks_ok s" and t: "t \<in> set (sy_threads s)" and st: "sy_stack s t = f # fs" and fr: "stack_ok (set (used f)) fr"
    and s': "sy_threads s' = sy_threads s" "sy_stack s' = (sy_stack s)(t := fr @ fs)" "sy_owned s \<subseteq> sy_owned s'"
  shows "stacks_ok s'"
proof -
  have all: "stack_ok (sy_owned s') (sy_stack s u)" if "u \<in> set (sy_threads s)" for u
    using that ok s'(3) stack_ok_mono by (auto simp: stacks_ok_def)
  have "stack_ok (sy_owned s') (fr @ fs)"
    using all [OF t] by (intro stack_ok_append [OF fr]) (auto simp: st)
  with all show ?thesis by (simp add: stacks_ok_def s')
qed

lemma keys_ok_quiet:
  assumes ok: "keys_ok K s" and t: "t \<in> set (sy_threads s)" and st: "sy_stack s t = f # fs"
    and q: "quiet f (sy_ioq s) (fr, q)"
  shows "keys_ok K (s\<lparr>sy_ioq := q, sy_stack := (sy_stack s)(t := fr @ fs), sy_owned := sy_owned s\<rparr>)"
proof -
  let ?s = "s\<lparr>sy_ioq := q, sy_stack := (sy_stack s)(t := fr @ fs), sy_owned := sy_owned s\<rparr>"
  have life: "life q = life (sy_ioq s)" and fr: "held_by fr = held f" "stack_ok (set (used f)) fr"
    using q by auto
  have "refs ?s = refs s" by (rule refs_same [OF t st fr(1)]) simp_all
  moreover have "stacks_ok s" using ok by (simp add: keys_ok_def)
  then have "stacks_ok ?s" by (rule stacks_ok_replace [OF _ t st fr(2)]) simp_all
  moreover have "owned_ok ?s" using ok by (simp add: keys_ok_def owned_ok_def life_eqD [OF life])
  ultimately show ?thesis using ok life by (simp add: keys_ok_def)
qed

section \<open>The sections that change the life of a key\<close>

lemma life_unregister_close:
  "life (unregister_close api h s) =
     (case life s of (act, clo, fre, cnt, mx, rc, cl) \<Rightarrow> (act, clo, fre, if cnt > 0 then cnt - 1 else cnt, mx, rc, cl(h := True)))"
  by (auto simp: unregister_close_def life_def upd_key_def Let_def fun_eq_iff)

lemma life_decrement_counter:
  "life (decrement_counter api h s) =
     (case life s of (act, clo, fre, cnt, mx, rc, cl) \<Rightarrow>
        if rc h - 1 = 0 then (remove1 h act, clo @ [h], fre, cnt, mx, rc(h := rc h - 1), cl)
        else (act, clo, fre, cnt, mx, rc(h := rc h - 1), cl))"
  by (auto simp: decrement_counter_def life_def upd_key_def rescan_fdset_def Let_def fun_eq_iff split: prod.split)

lemma free_keys_ok:
  assumes "life_ok K (life s) R" "distinct hs" "set hs \<subseteq> set (iq_closing_list s)"
  shows "life_ok K (life (free_keys now hs s)) R \<and> iq_active_list (free_keys now hs s) = iq_active_list s
       \<and> io_keys (free_keys now hs s) = io_keys s \<and> iq_count (free_keys now hs s) = iq_count s \<and> iq_max (free_keys now hs s) = iq_max s"
  using assms
proof (induction hs arbitrary: s)
  case (Cons h hs)
  let ?s = "s\<lparr>iq_closing_list := remove1 h (iq_closing_list s), iq_free_list := iq_free_list s @ [h]\<rparr>"
  have "life_ok K (life ?s) R"
    using Cons.prems life_ok_free [where h = h and clo = "iq_closing_list s" and refs = R] by (simp add: life_def)
  moreover have "set hs \<subseteq> set (remove1 h (iq_closing_list s))" using Cons.prems life_okD(1) [OF Cons.prems(1)] by auto
  ultimately show ?case using Cons.prems Cons.IH [of s] Cons.IH [of ?s] by simp
qed simp

lemma scan_closing_keys_ok:
  assumes "life_ok K (life s) R"
  shows "life_ok K (life (scan_closing_keys api s)) R \<and> iq_active_list (scan_closing_keys api s) = iq_active_list s
       \<and> io_keys (scan_closing_keys api s) = io_keys s \<and> iq_count (scan_closing_keys api s) = iq_count s \<and> iq_max (scan_closing_keys api s) = iq_max s"
proof (cases "gettickcount api (io_world s)")
  case (Pair now w)
  have "distinct (iq_closing_list s)" using life_okD(1) [OF assms] by simp
  with assms show ?thesis
    using free_keys_ok [of K "s\<lparr>io_world := w\<rparr>" R "iq_closing_list s" now] by (simp add: scan_closing_keys_def Pair)
qed

lemma life_init_key:
  "life (ioqueue_init_key api h sock g u cb s) =
     (case life s of (act, clo, fre, cnt, mx, rc, cl) \<Rightarrow> (act, clo, fre, cnt, mx, rc(h := rc h + 1), cl(h := False)))"
  by (auto simp: ioqueue_init_key_def Let_def split: prod.split) (auto simp: life_def upd_key_def fun_eq_iff)

text \<open>Registration: on success the key is one that was free, and active and open afterwards; the
  other keys keep their place.\<close>

lemma register_ok:
  assumes ok: "life_ok K (life s) R" and reg: "pj_ioqueue_register_sock2 api sock g u cb s = (rc, h, q)"
  shows "life_ok K (life q) R"
    and "h \<noteq> 0 \<Longrightarrow> h \<notin> set (iq_active_list s) \<and> h \<in> set (iq_active_list q) \<and> \<not> key_closing (key_of q h)"
    and "h' \<in> set (iq_active_list s) \<Longrightarrow> h' \<in> set (iq_active_list q) \<and> key_closing (key_of q h') = key_closing (key_of s h')"
proof -
  define s1 where "s1 = scan_closing_keys api s"
  have s1: "life_ok K (life s1) R" "iq_active_list s1 = iq_active_list s" "io_keys s1 = io_keys s"
    using scan_closing_keys_ok [OF ok, of api] by (simp_all add: s1_def)
  note reg' = reg [unfolded pj_ioqueue_register_sock2_def Let_def, folded s1_def]
  have "life_ok K (life q) R \<and> (h \<noteq> 0 \<longrightarrow> h \<notin> set (iq_active_list s) \<and> h \<in> set (iq_active_list q) \<and> \<not> key_closing (key_of q h)) \<and>
     (\<forall>h'. h' \<in> set (iq_active_list s) \<longrightarrow> h' \<in> set (iq_active_list q) \<and> key_closing (key_of q h') = key_closing (key_of s h'))"
  proof (cases "iq_free_list s1")
    case Nil
    then show ?thesis using reg' ok s1 by (auto split: option.splits if_splits simp: pj_status Let_def)
  next
    case (Cons k free)
    define s2 where "s2 = ioqueue_init_key api k sock g u (the cb) (s1\<lparr>iq_free_list := free\<rparr>)"
    have notin: "k \<notin> set (iq_active_list s)" using life_okD(1) [OF s1(1)] by (simp add: s1(2) Cons)
    have s2: "life s2 = (iq_active_list s1, iq_closing_list s1, free, iq_count s1, iq_max s1,
        (\<lambda>h. key_ref_count (key_of s1 h))(k := key_ref_count (key_of s1 k) + 1), (\<lambda>h. key_closing (key_of s1 h))(k := False))"
      unfolding s2_def life_init_key by (simp add: life_def)
    obtain rc' w where nb: "set_nonblocking api sock (io_world s2) = (rc', w)" by fastforce
    consider "q = s \<or> q = s1" "h = 0"
      | "q = register_failed k (s2\<lparr>io_world := w\<rparr>)" "h = 0"
      | "h = k" "q = rescan_fdset (s2\<lparr>io_world := w, iq_active_list := iq_active_list s2 @ [k], iq_count := iq_count s2 + 1\<rparr>)"
      using reg' nb s2_def
      by (auto split: option.splits if_splits simp: Cons Let_def)
    then show ?thesis
    proof cases
      case 1 then show ?thesis using ok s1 by auto
    next
      case 2
      have lq: "life q = (iq_active_list s1, iq_closing_list s1, free @ [k], iq_count s1, iq_max s1,
          (\<lambda>h. key_ref_count (key_of s1 h))(k := 0), (\<lambda>h. key_closing (key_of s1 h))(k := False))"
        using s2 by (auto simp: 2 register_failed_def Let_def life_def upd_key_def grp_ref_def fun_eq_iff)
      have "life_ok K (life q) R" unfolding lq by (rule life_ok_unused [OF s1(1) [unfolded life_def Cons]])
      then show ?thesis using lq s1(2,3) notin 2(2) by (auto simp: life_def fun_eq_iff)
    next
      case 3
      have lq: "life q = (iq_active_list s1 @ [k], iq_closing_list s1, free, iq_count s1 + 1, iq_max s1,
          (\<lambda>h. key_ref_count (key_of s1 h))(k := key_ref_count (key_of s1 k) + 1), (\<lambda>h. key_closing (key_of s1 h))(k := False))"
        using s2 by (auto simp: 3 life_def rescan_fdset_def fun_eq_iff)
      have "life_ok K (life q) R" unfolding lq by (rule life_ok_open [OF s1(1) [unfolded life_def Cons]])
      then show ?thesis using lq s1(2,3) notin 3(1) by (auto simp: life_def fun_eq_iff)
    qed
  qed
  then show "life_ok K (life q) R"
    "h \<noteq> 0 \<Longrightarrow> h \<notin> set (iq_active_list s) \<and> h \<in> set (iq_active_list q) \<and> \<not> key_closing (key_of q h)"
    "h' \<in> set (iq_active_list s) \<Longrightarrow> h' \<in> set (iq_active_list q) \<and> key_closing (key_of q h') = key_closing (key_of s h')"
    by simp_all
qed

text \<open>The scan of a poll: every event has taken a reference on a key that is active.\<close>

definition scan_ok :: "nat set \<Rightarrow> (nat \<Rightarrow> nat) \<Rightarrow> 'w pj_ioqueue_t \<Rightarrow> (nat \<times> ioqueue_event_type) list \<times> 'w pj_ioqueue_t \<Rightarrow> bool" where
  "scan_ok K R s es \<longleftrightarrow> life_ok K (life (snd es)) (\<lambda>h. R h + count_list (map fst (fst es)) h) \<and>
     iq_active_list (snd es) = iq_active_list s \<and> (\<forall>h. key_closing (key_of (snd es) h) = key_closing (key_of s h))"

lemma life_increment:
  "life (increment_counter h s) = (case life s of (act, clo, fre, cnt, mx, rc, cl) \<Rightarrow> (act, clo, fre, cnt, mx, rc(h := rc h + 1), cl))"
  by (auto simp: increment_counter_def life_def upd_key_def fun_eq_iff)

lemma scan_ok_add_event:
  assumes ok: "scan_ok K R s es" and h: "h \<in> set (iq_active_list s)"
  shows "scan_ok K R s (add_event c h e es)"
proof (cases es)
  case (Pair evs q)
  have "(\<lambda>h'. R h' + count_list (map fst (evs @ [(h, e)])) h') =
      (\<lambda>h'. R h' + count_list (map fst evs) h')(h := Suc (R h + count_list (map fst evs) h))"
    by (auto simp: fun_eq_iff)
  moreover have "life_ok K (life (increment_counter h q)) ((\<lambda>h'. R h' + count_list (map fst evs) h')(h := Suc (R h + count_list (map fst evs) h)))"
  proof -
    obtain act clo fre cnt mx rc cl where L: "life q = (act, clo, fre, cnt, mx, rc, cl)" by (cases "life q")
    have "h \<in> set act" using L h ok by (simp add: life_def scan_ok_def Pair)
    moreover have "life_ok K (act, clo, fre, cnt, mx, rc, cl) (\<lambda>h'. R h' + count_list (map fst evs) h')"
      using ok by (simp add: scan_ok_def Pair L)
    ultimately show ?thesis using life_ok_take by (simp add: life_increment L)
  qed
  moreover have "iq_active_list (increment_counter h q) = iq_active_list q" "\<And>h'. key_closing (key_of (increment_counter h q) h') = key_closing (key_of q h')"
    by (simp_all add: increment_counter_def upd_key_def)
  ultimately show ?thesis using ok by (simp add: add_event_def Pair scan_ok_def)
qed

lemma scan_ok_scan_key: "scan_ok K R s es \<Longrightarrow> h \<in> set (iq_active_list s) \<Longrightarrow> scan_ok K R s (scan_key r w x h es)"
  by (simp add: scan_key_def Let_def scan_ok_add_event)

lemma scan_ok_scan_keys: "scan_ok K R s es \<Longrightarrow> set hs \<subseteq> set (iq_active_list s) \<Longrightarrow> scan_ok K R s (scan_keys r w x hs es)"
  by (induction hs arbitrary: es) (simp_all add: scan_ok_scan_key)

lemma life_fold_grp: "life (fold (\<lambda>(h, _) s. grp_ref (key_grp_lock (key_of s h)) 1 s) evs s) = life s"
  by (induction evs arbitrary: s) auto

lemma poll_scan_ok:
  assumes ok: "life_ok K (life s) R" and res: "poll_scan r w x s = (fr, q)"
  obtains evs where "fr = [Events evs 0]" "life_ok K (life q) (\<lambda>h. R h + count_list (map fst evs) h)"
    "iq_active_list q = iq_active_list s" "\<And>h. key_closing (key_of q h) = key_closing (key_of s h)"
proof -
  obtain evs q1 where scan: "scan_keys r w x (iq_active_list s) ([], s) = (evs, q1)" by fastforce
  have "scan_ok K R s ([], s)" using ok by (simp add: scan_ok_def)
  then have "scan_ok K R s (evs, q1)" using scan_ok_scan_keys [of K R s "([], s)" "iq_active_list s" r w x] by (simp add: scan)
  moreover have "fr = [Events evs 0]" and life: "life q = life q1" using res by (auto simp: poll_scan_def scan life_fold_grp)
  ultimately show ?thesis using that life_eqD [OF life] by (simp add: scan_ok_def)
qed

section \<open>Every step keeps the invariant\<close>

lemma keys_ok_step:
  assumes ok: "keys_ok K s" and t: "t \<in> set (sy_threads s)" and st: "sy_stack s t = f # fs"
    and life: "life_ok K (life q) (\<lambda>h. refs s h + count_list (held_by fr) h - count_list (held f) h)"
    and fr: "stack_ok (set (used f)) fr"
    and own: "\<And>h. h \<in> sy_owned s \<Longrightarrow> h \<in> set (iq_active_list q) \<and> \<not> key_closing (key_of q h)"
  shows "keys_ok K (s\<lparr>sy_ioq := q, sy_stack := (sy_stack s)(t := fr @ fs), sy_owned := sy_owned s\<rparr>)" (is "keys_ok K ?s")
proof -
  have "stacks_ok s" using ok by (simp add: keys_ok_def)
  then have "stacks_ok ?s" by (rule stacks_ok_replace [OF _ t st fr(1)]) simp_all
  moreover have "life_ok K (life q) (refs ?s)" unfolding refs_owned refs_replace [OF t st] by (rule life)
  ultimately show ?thesis using own by (simp add: keys_ok_def owned_ok_def)
qed

lemma owned_open:
  "keys_ok K s \<Longrightarrow> h \<in> sy_owned s \<Longrightarrow> h \<in> set (iq_active_list (sy_ioq s)) \<and> \<not> key_closing (key_of (sy_ioq s) h)"
  by (simp add: keys_ok_def owned_ok_def)

lemma keys_ok_unregister:
  assumes ok: "keys_ok K s" and t: "t \<in> set (sy_threads s)" and st: "sy_stack s t = Start (Unregister h) # fs"
    and may: "may_run t (Start (Unregister h)) s" and res: "unregister_start api t h (sy_ioq s) = (fr, q)"
  shows "keys_ok K (s\<lparr>sy_ioq := q, sy_stack := (sy_stack s)(t := fr @ fs), sy_owned := sy_owned s - {h}\<rparr>)" (is "keys_ok K ?s")
proof -
  let ?f = "Start (Unregister h)"
  have act: "h \<in> set (iq_active_list (sy_ioq s))" using used_active [OF ok t, of "[]" _ fs h] st by simp
  have lok: "life_ok K (life (sy_ioq s)) (refs s)" using ok by (simp add: keys_ok_def)
  then have h0: "h \<noteq> 0" using act life_okD(2,3) [OF lok] by auto
  have others: "stack_ok (sy_owned s - {h}) (sy_stack s u)" if "u \<in> set (sy_threads s)" "u \<noteq> t" for u
    using may that by (auto simp: may_run_def split: if_splits)
  have "stack_ok (sy_owned s - {h}) fs" using may t st by (auto simp: may_run_def split: if_splits)
  moreover have "stack_ok {} fr" using res by (auto simp: unregister_start_def ret_def split: if_splits)
  ultimately have "stack_ok (sy_owned s - {h}) (fr @ fs)" by (intro stack_ok_append [where A = "{}"]) simp_all
  with others have stacks: "stacks_ok ?s" by (simp add: stacks_ok_def)
  show ?thesis
  proof (cases "key_closing (key_of (sy_ioq s) h)")
    case True
    then have "quiet ?f (sy_ioq s) (fr, q)" using res h0 by (auto simp: unregister_start_def ret_def split: if_splits)
    then have "keys_ok K (s\<lparr>sy_ioq := q, sy_stack := (sy_stack s)(t := fr @ fs), sy_owned := sy_owned s\<rparr>)"
      by (rule keys_ok_quiet [OF ok t st])
    then show ?thesis using stacks by (auto simp: keys_ok_def owned_ok_def)
  next
    case False
    then have fr: "fr = [Drain h]" and q: "q = unregister_close api h (sy_ioq s)"
      using res h0 by (auto simp: unregister_start_def split: if_splits)
    obtain a clo fre cnt mx rc cl where L: "life (sy_ioq s) = (a, clo, fre, cnt, mx, rc, cl)" by (cases "life (sy_ioq s)")
    have pre: "life_ok K (a, clo, fre, cnt, mx, rc, cl) (refs s)" "h \<in> set a" "\<not> cl h"
      using lok act False L by (auto simp: life_def)
    have life: "life q = (a, clo, fre, cnt - 1, mx, rc, cl(h := True))"
      using life_ok_close(1) [OF pre] by (simp add: q life_unregister_close L)
    have "refs ?s = (refs s)(h := Suc (refs s h))" unfolding refs_owned refs_replace [OF t st] by (auto simp: fr)
    then have "life_ok K (life q) (refs ?s)" using life_ok_close(2) [OF pre] by (simp add: life)
    moreover have "h' \<in> set (iq_active_list q) \<and> \<not> key_closing (key_of q h')" if "h' \<in> sy_owned s - {h}" for h'
      using that owned_open [OF ok, of h'] life L by (auto simp: life_def fun_eq_iff)
    ultimately show ?thesis using stacks by (simp add: keys_ok_def owned_ok_def)
  qed
qed

lemma keys_ok_decrement:
  assumes ok: "keys_ok K s" and t: "t \<in> set (sy_threads s)" and st: "sy_stack s t = f # fs"
    and held: "held f = h # held_by fr" and used: "used f = []" and fr: "stack_ok {} fr"
  shows "keys_ok K (s\<lparr>sy_ioq := decrement_counter api h (sy_ioq s), sy_stack := (sy_stack s)(t := fr @ fs), sy_owned := sy_owned s\<rparr>)"
proof -
  obtain a clo fre cnt mx rc cl where L: "life (sy_ioq s) = (a, clo, fre, cnt, mx, rc, cl)" by (cases "life (sy_ioq s)")
  let ?q = "decrement_counter api h (sy_ioq s)"
  have pre: "life_ok K (a, clo, fre, cnt, mx, rc, cl) (refs s)" using ok L by (simp add: keys_ok_def)
  have pos: "0 < refs s h" using refs_pos [OF t, of h] by (simp add: st held)
  have R: "(\<lambda>h'. refs s h' + count_list (held_by fr) h' - count_list (held f) h') = (refs s)(h := refs s h - 1)"
    by (auto simp: held)
  have "life_ok K (life ?q) ((refs s)(h := refs s h - 1)) \<and>
      (\<forall>h'. h' \<in> sy_owned s \<longrightarrow> h' \<in> set (iq_active_list ?q) \<and> \<not> key_closing (key_of ?q h'))"
  proof (cases "rc h - 1 = 0")
    case True
    then have life: "life ?q = (remove1 h a, clo @ [h], fre, cnt, mx, rc(h := rc h - 1), cl)" by (simp add: life_decrement_counter L)
    have "cl h" and lok: "life_ok K (life ?q) ((refs s)(h := refs s h - 1))"
      using life_ok_drop_last [OF pre pos True] by (simp_all add: life)
    moreover have "h' \<in> set (remove1 h a) \<and> \<not> cl h'" if "h' \<in> sy_owned s" for h'
    proof -
      have h': "h' \<in> set a" "\<not> cl h'" using owned_open [OF ok that] L by (auto simp: life_def)
      then have "h' \<noteq> h" using \<open>cl h\<close> by auto
      with h' show ?thesis by (simp add: in_set_remove1)
    qed
    ultimately show ?thesis using life by (auto simp: life_def fun_eq_iff)
  next
    case False
    then have life: "life ?q = (a, clo, fre, cnt, mx, rc(h := rc h - 1), cl)" by (simp add: life_decrement_counter L)
    moreover have "h' \<in> set a \<and> \<not> cl h'" if "h' \<in> sy_owned s" for h'
      using owned_open [OF ok that] L by (auto simp: life_def)
    moreover have "life_ok K (life ?q) ((refs s)(h := refs s h - 1))" unfolding life by (rule life_ok_drop [OF pre pos False])
    ultimately show ?thesis by (auto simp: life_def fun_eq_iff)
  qed
  then show ?thesis by (intro keys_ok_step [OF ok t st]) (simp_all add: R used fr)
qed

lemma keys_ok_register:
  assumes ok: "keys_ok K s" and t: "t \<in> set (sy_threads s)" and st: "sy_stack s t = Start (Register sock g u cb) # fs"
    and reg: "pj_ioqueue_register_sock2 api sock g u cb (sy_ioq s) = (rc, h, q)"
  shows "keys_ok K (s\<lparr>sy_ioq := add_log e q, sy_stack := (sy_stack s)(t := fs), sy_owned := if h \<noteq> 0 then insert h (sy_owned s) else sy_owned s\<rparr>)"
    (is "keys_ok K ?s")
proof -
  have lok: "life_ok K (life (sy_ioq s)) (refs s)" using ok by (simp add: keys_ok_def)
  note r = register_ok [OF lok reg]
  have stacks: "stacks_ok s" using ok by (simp add: keys_ok_def)
  have "stacks_ok ?s"
    by (rule stacks_ok_replace [OF stacks t st, of "[]"]) auto
  moreover have "refs ?s = refs s" by (rule refs_same [OF t st, of "[]"]) simp_all
  moreover have "owned_ok ?s" using owned_open [OF ok] r by (auto simp: owned_ok_def add_log_def)
  ultimately show ?thesis using r(1) by (simp add: keys_ok_def)
qed

lemma owned_after_same:
  "(\<And>sock g u cb. f \<noteq> Start (Register sock g u cb)) \<Longrightarrow> (\<And>h. f \<noteq> Start (Unregister h)) \<Longrightarrow> owned_after api f s = sy_owned s"
  by (auto simp: owned_after_def split: io_frame.split io_call.split)

lemma keys_ok_run:
  assumes ok: "keys_ok K s" and t: "t \<in> set (sy_threads s)" and st: "sy_stack s t = f # fs"
    and may: "may_run t f s" and res: "frame_step api t b f (sy_ioq s) = (fr, q)"
  shows "keys_ok K (s\<lparr>sy_ioq := q, sy_stack := (sy_stack s)(t := fr @ fs), sy_owned := owned_after api f s\<rparr>)"
proof (cases "vital f")
  case False
  then have "owned_after api f s = sy_owned s" by (intro owned_after_same) auto
  with False show ?thesis
    using keys_ok_quiet [OF ok t st, of fr q] frame_step_quiet [OF False, of "sy_ioq s" api t b] res by simp
next
  case True
  then consider (Unregister) h where "f = Start (Unregister h)"
    | (Register) sock g u cb where "f = Start (Register sock g u cb)"
    | (Poll) timeout where "f = Start (Poll timeout)" | (Scan) r w x where "f = Scan r w x"
    | (Dec) h where "f = Dec h" | (Unref) h rest p where "f = Unref h rest p"
    by (cases f rule: vital.cases) auto
  then show ?thesis
  proof cases
    case Unregister
    then show ?thesis using keys_ok_unregister [OF ok t _, of h fs api fr q] st may res by (simp add: owned_after_def)
  next
    case Register
    obtain rc h q' where reg: "pj_ioqueue_register_sock2 api sock g u cb (sy_ioq s) = (rc, h, q')" by (metis surj_pair)
    then show ?thesis
      using keys_ok_register [OF ok t, of sock g u cb fs api rc h q'] st res
      by (auto simp: Register owned_after_def ret_def)
  next
    case Poll
    have lok: "life_ok K (life (sy_ioq s)) (refs s)" using ok by (simp add: keys_ok_def)
    note sc = scan_closing_keys_ok [OF lok, of api]
    have fr: "held_by fr = []" "stack_ok {} fr"
      using res by (auto simp: Poll poll_start_def ret_def split: if_splits)
    moreover have "life_ok K (life q) (refs s)" "\<And>h. h \<in> sy_owned s \<Longrightarrow> h \<in> set (iq_active_list q) \<and> \<not> key_closing (key_of q h)"
      using res sc lok owned_open [OF ok] by (auto simp: Poll poll_start_def ret_def add_log_def life_def split: if_splits)
    moreover have "held f = []" "used f = []" "owned_after api f s = sy_owned s" by (simp_all add: Poll owned_after_same)
    ultimately show ?thesis using keys_ok_step [OF ok t st, of q fr] by simp
  next
    case Scan
    have lok: "life_ok K (life (sy_ioq s)) (refs s)" using ok by (simp add: keys_ok_def)
    obtain evs where "fr = [Events evs 0]" "life_ok K (life q) (\<lambda>h. refs s h + count_list (map fst evs) h)"
      "iq_active_list q = iq_active_list (sy_ioq s)" "\<And>h. key_closing (key_of q h) = key_closing (key_of (sy_ioq s) h)"
      using poll_scan_ok [OF lok, of r w x fr q] res Scan by auto
    moreover have "held f = []" "used f = []" "owned_after api f s = sy_owned s" by (simp_all add: Scan owned_after_same)
    ultimately show ?thesis using keys_ok_step [OF ok t st, of q fr] owned_open [OF ok] by simp
  next
    case Dec
    then show ?thesis
      using keys_ok_decrement [OF ok t st, of h "[Un_Grp h]" api] res by (auto simp: owned_after_same)
  next
    case Unref
    then show ?thesis
      using keys_ok_decrement [OF ok t st, of h "[Unref_Grp h rest p]" api] res by (auto simp: owned_after_same)
  qed
qed

lemma keys_ok_stack:
  assumes ok: "keys_ok K s" and t: "t \<in> set (sy_threads s)" and st: "held_by st = held_by (sy_stack s t)" "stack_ok (sy_owned s) st"
  shows "keys_ok K (s\<lparr>sy_stack := (sy_stack s)(t := st)\<rparr>)" (is "keys_ok K ?s")
proof -
  have "refs ?s = refs s" using refs_upd [OF t, of ?s st] st(1) by (auto simp: fun_eq_iff)
  then show ?thesis using ok st(2) by (auto simp: keys_ok_def owned_ok_def stacks_ok_def)
qed

theorem keys_ok_io_step:
  assumes ok: "keys_ok K s" and step: "io_step api t a s = Some s'"
  shows "keys_ok K s'"
  using step
proof (cases rule: io_step_cases)
  case (Call c fs)
  have "stack_ok (sy_owned s) (App # fs)" using ok Call(2,3) by (metis keys_ok_def stacks_ok_def)
  moreover have "\<forall>h\<in>set (used (Start c)). h \<in> sy_owned s \<or> h \<in> set (held_by (App # fs))"
    using Call(3,4) by (auto simp: may_call_def split: option.splits)
  ultimately show ?thesis using keys_ok_stack [OF ok Call(2)] Call(3) by (simp add: Call(5))
next
  case (Return f fs)
  have "stack_ok (sy_owned s) (App # f # fs)" using ok Return(2,3) by (metis keys_ok_def stacks_ok_def)
  then show ?thesis using keys_ok_stack [OF ok Return(2)] Return(3) by (simp add: Return(4))
next
  case (Run b f fs frames q)
  then show ?thesis using keys_ok_run [OF ok Run(2,3,5,6)] by simp
qed

interpretation keys: io_invariant api "\<lambda>_ _ _. True" "keys_ok K" for api K
  by unfold_locales (rule keys_ok_io_step)

end
