(* ===== verification/Pj_Ioqueue_Write.thy ===== *)
theory Pj_Ioqueue_Write
  imports Pj_Ioqueue_Life
begin

text \<open>
  Writes that are queued complete exactly once. The writes of a key that were accepted are those
  whose completion has been called, those that are queued, and those whose completion a thread
  is about to call. The invariant is proved for queues with concurrency disabled, where the
  completions of a key are called by one thread at a time.
\<close>

section \<open>What is counted\<close>

text \<open>Error numbers are not negative.\<close>

definition errno_ok :: "'w sock_api \<Rightarrow> bool" where
  "errno_ok api \<longleftrightarrow> (\<forall>w. 0 \<le> net_errno api w)"

fun queued_event :: "nat \<Rightarrow> io_event \<Rightarrow> bool" where
  "queued_event h (Returned _ (Send h' _ _ _ _ _) status _) \<longleftrightarrow> h' = h \<and> status = PJ_EPENDING"
| "queued_event h _ \<longleftrightarrow> False"

fun completed_event :: "nat \<Rightarrow> io_event \<Rightarrow> bool" where
  "completed_event h (Write_Complete _ h' _ _) \<longleftrightarrow> h' = h"
| "completed_event h _ \<longleftrightarrow> False"

definition queued :: "'w pj_ioqueue_t \<Rightarrow> nat \<Rightarrow> nat" where
  "queued s h = length (filter (queued_event h) (io_log s))"

definition completed :: "'w pj_ioqueue_t \<Rightarrow> nat \<Rightarrow> nat" where
  "completed s h = length (filter (completed_event h) (io_log s))"

fun completing :: "nat \<Rightarrow> io_frame \<Rightarrow> bool" where
  "completing h (Cb_Write h' _) \<longleftrightarrow> h' = h"
| "completing h (Call_Write h' _) \<longleftrightarrow> h' = h"
| "completing h _ \<longleftrightarrow> False"

definition completing_in :: "io_frame list \<Rightarrow> nat \<Rightarrow> nat" where
  "completing_in fs h = length (filter (completing h) fs)"

definition in_flight :: "'w io_sys \<Rightarrow> nat \<Rightarrow> nat" where
  "in_flight s h = (\<Sum>t\<in>set (sy_threads s). completing_in (sy_stack s t) h)"

definition pending_writes :: "'w pj_ioqueue_t \<Rightarrow> nat \<Rightarrow> nat" where
  "pending_writes s h =
     (if h \<in> set (iq_active_list s) then length (key_write_list (key_of s h)) + length (key_write_cb_list (key_of s h)) else 0)"

section \<open>The part of the state writes depend on\<close>

type_synonym write_view = "nat list \<times> nat list \<times> nat \<times> bool \<times> nat"

definition write_view :: "pj_ioqueue_key_t \<Rightarrow> write_view" where
  "write_view k = (key_write_list k, key_write_cb_list k, key_write_thread k, key_concurrent k, on_write_complete (key_cb k))"

definition writes :: "'w pj_ioqueue_t \<Rightarrow> (nat \<Rightarrow> write_view) \<times> (nat \<Rightarrow> nat) \<times> (nat \<Rightarrow> nat)" where
  "writes s = ((\<lambda>h. write_view (key_of s h)), queued s, completed s)"

lemma writes_upd_key [simp]: "(\<And>k. write_view (f k) = write_view k) \<Longrightarrow> writes (upd_key h f s) = writes s"
  by (auto simp: writes_def upd_key_def queued_def completed_def fun_eq_iff)

lemma write_view_simps [simp]:
  "write_view (k\<lparr>key_read_list := xs\<rparr>) = write_view k"
  "write_view (k\<lparr>key_accept_list := xs\<rparr>) = write_view k"
  "write_view (k\<lparr>key_connecting := b\<rparr>) = write_view k"
  "write_view (k\<lparr>key_read_cb_list := xs\<rparr>) = write_view k"
  "write_view (k\<lparr>key_read_thread := n\<rparr>) = write_view k"
  "write_view (k\<lparr>key_ref_count := i\<rparr>) = write_view k"
  "write_view (k\<lparr>key_free_time := ft\<rparr>) = write_view k"
  by (simp_all add: write_view_def)

lemma writes_add_log [simp]:
  "(\<And>h. \<not> queued_event h e) \<Longrightarrow> (\<And>h. \<not> completed_event h e) \<Longrightarrow> writes (add_log e s) = writes s"
  by (simp add: writes_def add_log_def queued_def completed_def fun_eq_iff)

lemma writes_simps [simp]:
  "writes (upd_op x g s) = writes s"
  "writes (grp_ref gl n s) = writes s"
  "writes (s\<lparr>io_world := w\<rparr>) = writes s"
  "writes (s\<lparr>io_socks := m\<rparr>) = writes s"
  "writes (s\<lparr>io_world := w, io_socks := m\<rparr>) = writes s"
  "writes (s\<lparr>iq_closing_list := a, iq_free_list := b\<rparr>) = writes s"
  "writes (s\<lparr>iq_active_list := a, iq_closing_list := b\<rparr>) = writes s"
  "writes (ioqueue_add_to_set2 h es s) = writes s"
  "writes (ioqueue_remove_from_set2 h es s) = writes s"
  "writes (ioqueue_add_to_set h et s) = writes s"
  "writes (ioqueue_remove_from_set h et s) = writes s"
  "writes (rescan_fdset s) = writes s"
  by (simp_all add: writes_def upd_op_def grp_ref_def ioqueue_add_to_set2_def ioqueue_add_to_set_def queued_def completed_def
      ioqueue_remove_from_set2_def ioqueue_remove_from_set_def rescan_fdset_def Let_def fun_eq_iff)

section \<open>Sections that leave writes alone\<close>

text \<open>The frames of writing and of unregistration.\<close>

fun write_frame :: "io_frame \<Rightarrow> bool" where
  "write_frame (Cb_Write _ _) = True"
| "write_frame (Call_Write _ _) = True"
| "write_frame (Write_Loop _) = True"
| "write_frame (Drain _) = True"
| "write_frame (Drain_Own _) = True"
| "write_frame (Drain_Wait _ _) = True"
| "write_frame (Cancel _) = True"
| "write_frame (Clear_Cb _) = True"
| "write_frame (Dec _) = True"
| "write_frame _ = False"

definition calm :: "'w pj_ioqueue_t \<Rightarrow> io_frame list \<times> 'w pj_ioqueue_t \<Rightarrow> bool" where
  "calm s res \<longleftrightarrow> writes (snd res) = writes s \<and> (\<forall>f\<in>set (fst res). \<not> write_frame f)"

lemma calm_pair [simp]: "calm s (fr, s') \<longleftrightarrow> writes s' = writes s \<and> (\<forall>f\<in>set fr. \<not> write_frame f)"
  by (simp add: calm_def)

lemma calm_ret [simp]:
  "writes s' = writes s \<Longrightarrow> (\<And>h. \<not> queued_event h (Returned t c st n)) \<Longrightarrow> calm s (ret t c st n s')"
  by (simp add: ret_def)

named_theorems calm_sections

lemma calm_recv [calm_sections]:
  "calm s (recv_start t c s)" "calm s (recv_check_op t c s)" "calm s (recv_try api t c s)" "calm s (recv_commit t c s)"
  by (cases c; auto simp: section_simps Let_def split: prod.split option.split)+

lemma calm_accept_ops [simp]:
  "key_accept api h ns r al s = (rc, s') \<Longrightarrow> writes s' = writes s"
  "sock_name api ns l al s = (rc, s') \<Longrightarrow> writes s' = writes s"
  by (auto simp: key_accept_def sock_name_def split: prod.splits)

lemma calm_accept [calm_sections]:
  "calm s (accept_start t c s)" "calm s (accept_check_op t c s)" "calm s (accept_check_list c s)" "calm s (accept_try api t c s)"
  "calm s (accept_commit t c s)"
  by (cases c; auto simp: section_simps Let_def split: prod.split)+

lemma calm_connect [calm_sections]:
  "calm s (connect_start t c s)" "calm s (connect_check t c s)" "calm s (connect_try api t c s)" "calm s (connect_commit t c s)"
  by (cases c; auto simp: section_simps Let_def split: prod.split)+

lemma errno_not_pending:
  assumes "errno_ok api"
  shows "pj_sock_send api fd buf len flags w = (rc, n, w') \<Longrightarrow> rc \<noteq> PJ_EPENDING"
    "pj_sock_sendto api fd buf len flags a al w = (rc, n, w') \<Longrightarrow> rc \<noteq> PJ_EPENDING"
proof -
  have os: "PJ_RETURN_OS_ERROR (net_errno api v) \<noteq> PJ_EPENDING" for v
    using assms by (auto simp: errno_ok_def PJ_RETURN_OS_ERROR_def PJ_STATUS_FROM_OS_def PJ_ERRNO_START_SYS_def PJ_ERRNO_SPACE_SIZE_def
        PJ_EPENDING_def pj_status dest: spec [of _ v])
  have "PJ_SUCCESS \<noteq> PJ_EPENDING" by (simp add: PJ_EPENDING_def pj_status)
  with os show "pj_sock_send api fd buf len flags w = (rc, n, w') \<Longrightarrow> rc \<noteq> PJ_EPENDING"
    "pj_sock_sendto api fd buf len flags a al w = (rc, n, w') \<Longrightarrow> rc \<noteq> PJ_EPENDING"
    by (auto simp: pj_sock_send_def pj_sock_sendto_def split: prod.splits if_splits)
qed

lemmas send_status = PJ_EPENDING_def PJ_EBUG_def PJ_EBUSY_def PJ_ECANCELLED_def pj_status

lemma calm_key_send:
  "key_send api h buf len flags s = (rc, n, s') \<Longrightarrow> writes s' = writes s \<and> (errno_ok api \<longrightarrow> rc \<noteq> PJ_EPENDING)"
  "key_sendto api h buf len flags a al s = (rc, n, s') \<Longrightarrow> writes s' = writes s \<and> (errno_ok api \<longrightarrow> rc \<noteq> PJ_EPENDING)"
  by (auto simp: key_send_def key_sendto_def Let_def errno_not_pending split: prod.splits if_splits)

lemma calm_send_slow: "writes s' = writes s \<Longrightarrow> calm s (send_slow api t c s')"
  by (auto simp: send_slow_def send_status split: io_call.split option.split)

lemma calm_send [calm_sections]:
  "calm s (send_start t c s)" "calm s (send_check_list api t c s)" "calm s (send_spin c n s)" "calm s (send_check_op t c s)"
  by (cases c; auto simp: section_simps Let_def send_status intro!: calm_send_slow)+

lemma calm_send_try: "errno_ok api \<Longrightarrow> calm s (send_try api t c s)"
  by (cases c)
    (auto simp: section_simps Let_def send_status [symmetric] intro!: calm_send_slow dest!: calm_key_send split: prod.split option.split)

lemma writes_free_keys: "writes (free_keys now hs s) = writes s"
  by (induction hs arbitrary: s) auto

lemma writes_scan_closing_keys: "writes (scan_closing_keys api s) = writes s"
  by (simp add: scan_closing_keys_def writes_free_keys split: prod.split)

lemma writes_decrement_counter: "writes (decrement_counter api h s) = writes s"
  by (auto simp: decrement_counter_def Let_def split: prod.split)

lemma writes_increment_counter: "writes (increment_counter h s) = writes s"
  by (simp add: increment_counter_def)

lemma writes_scan_keys: "writes (snd (scan_keys r w x hs es)) = writes (snd es)"
proof (induction hs arbitrary: es)
  case (Cons h hs)
  have ev: "writes (snd (add_event c h e es)) = writes (snd es)" for c e and es :: "(nat \<times> ioqueue_event_type) list \<times> 'a pj_ioqueue_t"
    by (cases es) (simp add: add_event_def writes_increment_counter)
  show ?case by (simp add: Cons scan_key_def Let_def ev)
qed simp

lemma calm_poll [calm_sections]:
  "calm s (poll_start api t timeout s)" "calm s (poll_select api t r w x nfds timeout s)" "calm s (poll_scan r w x s)"
  "calm s (poll_events t evs p s)"
proof -
  have "writes (fold (\<lambda>(h, _) s. grp_ref (key_grp_lock (key_of s h)) 1 s) evs s) = writes s" for evs :: "(nat \<times> ioqueue_event_type) list" and s :: "'a pj_ioqueue_t"
    by (induction evs arbitrary: s) auto
  then show "calm s (poll_scan r w x s)"
    using writes_scan_keys [of r w x "iq_active_list s" "([], s)"] by (auto simp: poll_scan_def split: prod.split)
qed (auto simp: poll_start_def poll_select_def poll_events_def Let_def writes_scan_closing_keys split: prod.split list.split)

lemma calm_callbacks [calm_sections]:
  "calm s (cb_read t h x cb s)" "calm s (cb_accept t h x rc s)" "calm s (cb_connect t h rc s)" "calm s (cb_except api t h s)"
  "calm s (ioqueue_dispatch_read_event_no_lock h s)"
  by (auto simp: cb_read_def cb_accept_def cb_connect_def cb_except_def Let_def ioqueue_dispatch_read_event_no_lock_def
      split: prod.split list.split)

text \<open>Dispatch, but for that of a write.\<close>

definition calm_dispatch :: "'w pj_ioqueue_t \<Rightarrow> bool \<times> io_frame list \<times> 'w pj_ioqueue_t \<Rightarrow> bool" where
  "calm_dispatch s res \<longleftrightarrow> calm s (snd res)"

lemma calm_dispatch_pair [simp]: "calm_dispatch s (d, fr, s') \<longleftrightarrow> writes s' = writes s \<and> (\<forall>f\<in>set fr. \<not> write_frame f)"
  by (simp add: calm_dispatch_def)

lemma calm_recv_op: "recv_op api h x s = (rc, n, s') \<Longrightarrow> writes s' = writes s"
  by (auto simp: recv_op_def Let_def split: prod.splits if_splits)

lemma calm_read_done: "writes s' = writes s \<Longrightarrow> calm_dispatch s (read_done t h x s')"
  by (simp add: read_done_def Let_def)

lemma calm_dispatch_read: "calm_dispatch s (dispatch_read api t h s)"
  by (auto simp: dispatch_read_def Let_def intro!: calm_read_done dest!: calm_recv_op split: prod.split)

lemma calm_dispatch_accept: "calm_dispatch s (dispatch_accept api h s)"
  by (auto simp: dispatch_accept_def Let_def dest!: calm_accept_ops split: prod.split if_splits)

lemma calm_dispatch_read_event: "calm_dispatch s (ioqueue_dispatch_read_event api t h s)"
  by (simp add: ioqueue_dispatch_read_event_def calm_dispatch_read calm_dispatch_accept)

lemma calm_dispatch_other:
  "calm_dispatch s (ioqueue_dispatch_exception_event h s)" "calm_dispatch s (dispatch_connected api h s)"
  by (auto simp: ioqueue_dispatch_exception_event_def dispatch_connected_def Let_def split: prod.split)

end
