(* ===== verification/Pj_Ioqueue_Drain.thy ===== *)
theory Pj_Ioqueue_Drain
  imports Pj_Ioqueue_Write
begin

text \<open>
  One key of an I/O queue as far as its writes are concerned, seen by itself: what the sections
  do to it, and the invariant they keep.
\<close>

section \<open>A key by itself\<close>

text \<open>The frames that concern the writes of a key.\<close>

fun about :: "nat \<Rightarrow> io_frame \<Rightarrow> bool" where
  "about h (Cb_Write h' _) \<longleftrightarrow> h' = h"
| "about h (Call_Write h' _) \<longleftrightarrow> h' = h"
| "about h (Write_Loop h') \<longleftrightarrow> h' = h"
| "about h (Drain h') \<longleftrightarrow> h' = h"
| "about h (Drain_Own h') \<longleftrightarrow> h' = h"
| "about h (Drain_Wait h' _) \<longleftrightarrow> h' = h"
| "about h (Cancel h') \<longleftrightarrow> h' = h"
| "about h (Clear_Cb h') \<longleftrightarrow> h' = h"
| "about h (Dec h') \<longleftrightarrow> h' = h"
| "about h _ \<longleftrightarrow> False"

fun unregistering :: "nat \<Rightarrow> io_frame \<Rightarrow> bool" where
  "unregistering h (Drain h') \<longleftrightarrow> h' = h"
| "unregistering h (Drain_Own h') \<longleftrightarrow> h' = h"
| "unregistering h (Drain_Wait h' _) \<longleftrightarrow> h' = h"
| "unregistering h (Cancel h') \<longleftrightarrow> h' = h"
| "unregistering h (Clear_Cb h') \<longleftrightarrow> h' = h"
| "unregistering h (Dec h') \<longleftrightarrow> h' = h"
| "unregistering h _ \<longleftrightarrow> False"

record wkey =
  wk_active :: bool
  wk_closing :: bool
  wk_list :: "nat list"
  wk_cbs :: "nat list"
  wk_thread :: nat
  wk_concurrent :: bool
  wk_on :: nat
  wk_queued :: nat
  wk_completed :: nat
  wk_stack :: "nat \<Rightarrow> io_frame list"

definition wkey :: "'w io_sys \<Rightarrow> nat \<Rightarrow> wkey" where
  "wkey s h = (let q = sy_ioq s; k = key_of q h in
     \<lparr>wk_active = h \<in> set (iq_active_list q), wk_closing = key_closing k, wk_list = key_write_list k, wk_cbs = key_write_cb_list k,
      wk_thread = key_write_thread k, wk_concurrent = key_concurrent k, wk_on = on_write_complete (key_cb k),
      wk_queued = queued q h, wk_completed = completed q h, wk_stack = (\<lambda>t. filter (about h) (sy_stack s t))\<rparr>)"

definition flight :: "nat set \<Rightarrow> nat \<Rightarrow> wkey \<Rightarrow> nat" where
  "flight T h a = (\<Sum>t\<in>T. completing_in (wk_stack a t) h)"

text \<open>No completion is due or under way; and no write is queued either.\<close>

definition quiesced :: "nat set \<Rightarrow> nat \<Rightarrow> wkey \<Rightarrow> bool" where
  "quiesced T h a \<longleftrightarrow> wk_closing a \<and> wk_cbs a = [] \<and> flight T h a = 0"

definition drained :: "nat set \<Rightarrow> nat \<Rightarrow> wkey \<Rightarrow> bool" where
  "drained T h a \<longleftrightarrow> quiesced T h a \<and> wk_list a = []"

section \<open>The invariant\<close>

definition w_loop :: "nat set \<Rightarrow> nat \<Rightarrow> wkey \<Rightarrow> bool" where
  "w_loop T h a \<longleftrightarrow> (wk_active a \<longrightarrow> \<not> wk_concurrent a \<and> (wk_thread a = 0 \<longrightarrow> wk_cbs a = []) \<and>
     (\<forall>t\<in>T. count_list (wk_stack a t) (Write_Loop h) = (if wk_thread a = t then 1 else 0)))"

definition w_null :: "nat set \<Rightarrow> nat \<Rightarrow> wkey \<Rightarrow> bool" where
  "w_null T h a \<longleftrightarrow> (wk_active a \<and> wk_on a = 0 \<longrightarrow> drained T h a)"

definition w_left :: "nat set \<Rightarrow> nat \<Rightarrow> wkey \<Rightarrow> bool" where
  "w_left T h a \<longleftrightarrow> (wk_active a \<and> wk_closing a \<and> (\<forall>t\<in>T. \<forall>f\<in>set (wk_stack a t). \<not> unregistering h f) \<longrightarrow> drained T h a)"

definition w_completing :: "nat set \<Rightarrow> nat \<Rightarrow> wkey \<Rightarrow> bool" where
  "w_completing T h a \<longleftrightarrow> (\<forall>t\<in>T. \<forall>f\<in>set (wk_stack a t). completing h f \<longrightarrow> wk_thread a = t)"

fun phase_ok :: "nat set \<Rightarrow> nat \<Rightarrow> wkey \<Rightarrow> nat \<Rightarrow> io_frame \<Rightarrow> bool" where
  "phase_ok T h a t (Drain _) \<longleftrightarrow> wk_closing a"
| "phase_ok T h a t (Drain_Wait _ _) \<longleftrightarrow> wk_closing a"
| "phase_ok T h a t (Drain_Own _) \<longleftrightarrow> wk_closing a \<and> wk_thread a \<in> {0, t}"
| "phase_ok T h a t (Cancel _) \<longleftrightarrow> quiesced T h a"
| "phase_ok T h a t (Clear_Cb _) \<longleftrightarrow> drained T h a"
| "phase_ok T h a t (Dec _) \<longleftrightarrow> drained T h a"
| "phase_ok T h a t _ \<longleftrightarrow> True"

definition w_phase :: "nat set \<Rightarrow> nat \<Rightarrow> wkey \<Rightarrow> bool" where
  "w_phase T h a \<longleftrightarrow> (\<forall>t\<in>T. \<forall>f\<in>set (wk_stack a t). phase_ok T h a t f)"

definition w_law :: "nat set \<Rightarrow> nat \<Rightarrow> wkey \<Rightarrow> bool" where
  "w_law T h a \<longleftrightarrow>
     wk_queued a = wk_completed a + (if wk_active a then length (wk_list a) + length (wk_cbs a) else 0) + flight T h a"

definition w_ok :: "nat set \<Rightarrow> nat \<Rightarrow> wkey \<Rightarrow> bool" where
  "w_ok T h a \<longleftrightarrow> w_loop T h a \<and> w_null T h a \<and> w_left T h a \<and> w_completing T h a \<and> w_phase T h a \<and> w_law T h a"

lemmas w_defs = w_ok_def w_loop_def w_null_def w_left_def w_completing_def w_phase_def w_law_def

lemma w_phaseD: "w_ok T h a \<Longrightarrow> t \<in> T \<Longrightarrow> wk_stack a t = f # rs \<Longrightarrow> phase_ok T h a t f"
  by (auto simp: w_ok_def w_phase_def)

section \<open>Counting\<close>

lemma completing_in_simps [simp]:
  "completing_in [] h = 0"
  "completing_in (f # fs) h = (if completing h f then 1 else 0) + completing_in fs h"
  by (simp_all add: completing_in_def)

lemma completing_in_none: "(\<And>f. f \<in> set fs \<Longrightarrow> \<not> completing h f) \<Longrightarrow> completing_in fs h = 0"
  by (induction fs) auto

lemma flight_upd:
  assumes "finite T" "t \<in> T" "wk_stack a' = (wk_stack a)(t := st)"
  shows "flight T h a' + completing_in (wk_stack a t) h = flight T h a + completing_in st h"
proof -
  have "(\<Sum>u\<in>T - {t}. completing_in (((wk_stack a)(t := st)) u) h) = (\<Sum>u\<in>T - {t}. completing_in (wk_stack a u) h)"
    by (rule sum.cong) auto
  with assms show ?thesis by (simp add: flight_def sum.remove [where A = T and x = t])
qed

lemma flight_same: "wk_stack a' = wk_stack a \<Longrightarrow> flight T h a' = flight T h a"
  by (simp add: flight_def)

text \<open>When the thread in the callbacks is none, or this one and nothing of its stack completes, no
  completion is under way.\<close>

lemma flight_zero:
  assumes fin: "finite T" and c: "w_completing T h a" and t: "wk_thread a = 0 \<and> 0 \<notin> T \<or> wk_thread a = t \<and> completing_in (wk_stack a t) h = 0"
  shows "flight T h a = 0"
proof -
  have "completing_in (wk_stack a u) h = 0" if "u \<in> T" for u
  proof (cases "wk_thread a = u")
    case True with t that show ?thesis by auto
  next
    case False with c that show ?thesis by (intro completing_in_none) (auto simp: w_completing_def)
  qed
  then show ?thesis using fin by (simp add: flight_def)
qed

lemma flight_pos: "finite T \<Longrightarrow> t \<in> T \<Longrightarrow> f \<in> set (wk_stack a t) \<Longrightarrow> completing h f \<Longrightarrow> flight T h a \<noteq> 0"
proof -
  assume *: "finite T" "t \<in> T" "f \<in> set (wk_stack a t)" "completing h f"
  then have "completing_in (wk_stack a t) h \<noteq> 0" by (auto simp: completing_in_def filter_empty_conv)
  then show ?thesis using *(1,2) by (auto simp: flight_def)
qed

section \<open>What happens to a key\<close>

lemma phase_mono:
  "phase_ok T h a t f \<Longrightarrow> (wk_closing a \<Longrightarrow> wk_closing a') \<Longrightarrow> (wk_closing a \<Longrightarrow> wk_thread a' = wk_thread a \<or> wk_thread a' = 0) \<Longrightarrow>
   (quiesced T h a \<Longrightarrow> quiesced T h a') \<Longrightarrow> (drained T h a \<Longrightarrow> drained T h a') \<Longrightarrow> phase_ok T h a' t f"
  by (cases f) auto

text \<open>The parts of the invariant after a step of one thread: what has to be shown of the new key.\<close>

lemma w_okI:
  assumes ok: "w_ok T h a" and T: "finite T" "t \<in> T" and st: "wk_stack a' = (wk_stack a)(t := st)"
    and loop: "w_loop T h a'" and null: "w_null T h a'" and left: "w_left T h a'" and law: "w_law T h a'"
    and phase: "\<And>f. f \<in> set st \<Longrightarrow> f \<notin> set (wk_stack a t) \<Longrightarrow> phase_ok T h a' t f"
    and compl: "\<And>f. f \<in> set st \<Longrightarrow> completing h f \<Longrightarrow> wk_thread a' = t"
    and thread: "\<And>u f. u \<in> T \<Longrightarrow> u \<noteq> t \<Longrightarrow> f \<in> set (wk_stack a u) \<Longrightarrow> completing h f \<Longrightarrow> wk_thread a' = wk_thread a"
    and mono: "wk_closing a \<Longrightarrow> wk_closing a'" "wk_closing a \<Longrightarrow> wk_thread a' = wk_thread a \<or> wk_thread a' = 0"
      "quiesced T h a \<Longrightarrow> quiesced T h a'" "drained T h a \<Longrightarrow> drained T h a'"
  shows "w_ok T h a'"
proof -
  have old: "phase_ok T h a u f" if "u \<in> T" "f \<in> set (wk_stack a u)" for u f
    using ok that by (simp add: w_ok_def w_phase_def)
  have "phase_ok T h a' u f" if u: "u \<in> T" and f: "f \<in> set (wk_stack a' u)" for u f
  proof (cases "f \<in> set (wk_stack a u)")
    case True show ?thesis by (rule phase_mono [OF old [OF u True] mono])
  next
    case False then show ?thesis using f phase by (auto simp: st split: if_splits)
  qed
  moreover have "wk_thread a' = u" if "u \<in> T" "f \<in> set (wk_stack a' u)" "completing h f" for u f
    using that compl thread [of u f] ok by (auto simp: st w_ok_def w_completing_def split: if_splits)
  ultimately show ?thesis using loop null left law by (simp add: w_ok_def w_phase_def w_completing_def)
qed

lemma w_ok_open:
  assumes "w_ok T h a" "wk_active a" "\<not> wk_closing a"
  shows "wk_on a \<noteq> 0" "\<not> quiesced T h a" "\<not> drained T h a" "t \<in> T \<Longrightarrow> f \<in> set (wk_stack a t) \<Longrightarrow> \<not> unregistering h f"
proof -
  show q: "\<not> quiesced T h a" "\<not> drained T h a" using assms(3) by (auto simp: quiesced_def drained_def)
  then show "wk_on a \<noteq> 0" using assms by (auto simp: w_ok_def w_null_def)
  assume "t \<in> T" "f \<in> set (wk_stack a t)"
  then have "phase_ok T h a t f" using assms(1) by (simp add: w_ok_def w_phase_def)
  then show "\<not> unregistering h f" using q assms(3) by (cases f) auto
qed

lemma w_queue:
  assumes ok: "w_ok T h a" and op: "wk_active a" "\<not> wk_closing a"
  shows "w_ok T h (a\<lparr>wk_list := wk_list a @ [x], wk_queued := Suc (wk_queued a)\<rparr>)" (is "w_ok T h ?a")
proof -
  note open1 = w_ok_open [OF ok op]
  have fl: "flight T h ?a = flight T h a" by (rule flight_same) simp
  have "phase_ok T h ?a t f" if "t \<in> T" "f \<in> set (wk_stack a t)" for t f
    by (rule phase_mono [of T h a]) (use ok that open1 in \<open>auto simp: w_ok_def w_phase_def\<close>)
  then show ?thesis
    using ok op open1(1) fl by (simp add: w_ok_def w_loop_def w_null_def w_left_def w_completing_def w_phase_def w_law_def)
qed

lemma w_defer:
  assumes ok: "w_ok T h a" and op: "wk_active a" "\<not> wk_closing a" and list: "wk_list a = x # xs" and thread: "wk_thread a \<noteq> 0"
  shows "w_ok T h (a\<lparr>wk_list := xs, wk_cbs := wk_cbs a @ [x]\<rparr>)" (is "w_ok T h ?a")
proof -
  note open1 = w_ok_open [OF ok op]
  have fl: "flight T h ?a = flight T h a" by (rule flight_same) simp
  have "phase_ok T h ?a t f" if "t \<in> T" "f \<in> set (wk_stack a t)" for t f
    by (rule phase_mono [of T h a]) (use ok that open1 in \<open>auto simp: w_ok_def w_phase_def\<close>)
  then show ?thesis
    using ok op open1(1) fl list thread by (simp add: w_ok_def w_loop_def w_null_def w_left_def w_completing_def w_phase_def w_law_def)
qed

lemma w_call:
  assumes ok: "w_ok T h a" and T: "finite T" "t \<in> T" "0 \<notin> T" and op: "wk_active a" "\<not> wk_closing a"
    and list: "wk_list a = x # xs" and thread: "wk_thread a = 0"
  shows "w_ok T h (a\<lparr>wk_list := xs, wk_thread := t, wk_stack := (wk_stack a)(t := Cb_Write h x # Write_Loop h # wk_stack a t)\<rparr>)"
    (is "w_ok T h ?a")
proof (rule w_okI [OF ok T(1,2), where st = "Cb_Write h x # Write_Loop h # wk_stack a t"])
  note open1 = w_ok_open [OF ok op]
  have none: "\<not> completing h f" if "u \<in> T" "f \<in> set (wk_stack a u)" for u f
    using ok that thread T(3) by (auto simp: w_ok_def w_completing_def)
  then show "w_law T h ?a"
    using ok op list flight_upd [OF T(1,2), of ?a a "Cb_Write h x # Write_Loop h # wk_stack a t" h] by (simp add: w_ok_def w_law_def)
  have "u \<noteq> 0" if "u \<in> T" for u using that T(3) by (cases u) auto
  then show "w_loop T h ?a" using ok op thread T by (auto simp: w_ok_def w_loop_def)
  show "w_null T h ?a" "w_left T h ?a" using op open1 by (simp_all add: w_null_def w_left_def)
  show "completing h f \<Longrightarrow> wk_thread ?a = wk_thread a" if "u \<in> T" "u \<noteq> t" "f \<in> set (wk_stack a u)" for u f using none that by blast
  show "quiesced T h a \<Longrightarrow> quiesced T h ?a" "drained T h a \<Longrightarrow> drained T h ?a" using open1 by simp_all
qed (use op in auto)

lemma w_close:
  assumes ok: "w_ok T h a" and T: "finite T" "t \<in> T" and op: "wk_active a" "\<not> wk_closing a"
  shows "w_ok T h (a\<lparr>wk_closing := True, wk_stack := (wk_stack a)(t := Drain h # wk_stack a t)\<rparr>)" (is "w_ok T h ?a")
proof (rule w_okI [OF ok T, where st = "Drain h # wk_stack a t"])
  note open1 = w_ok_open [OF ok op]
  show "w_law T h ?a"
    using ok flight_upd [OF T, of ?a a "Drain h # wk_stack a t" h] by (simp add: w_ok_def w_law_def)
  show "w_loop T h ?a" using ok by (simp add: w_ok_def w_loop_def)
  show "w_null T h ?a" using open1 by (simp add: w_null_def)
  show "w_left T h ?a" using T by (auto simp: w_left_def intro!: bexI [of _ t])
  show "quiesced T h a \<Longrightarrow> quiesced T h ?a" "drained T h a \<Longrightarrow> drained T h ?a" using open1 by simp_all
qed (use ok T in \<open>auto simp: w_ok_def w_completing_def\<close>)

text \<open>Steps of the thread that unregisters the key, from a frame of the unregistration to another.
  Nothing on the stack of the thread completes a write.\<close>

lemma w_unregister_step:
  assumes ok: "w_ok T h a" and T: "finite T" "t \<in> T" and st: "wk_stack a t = f # rs"
    and f: "unregistering h f" "\<not> completing h f'" "f' \<noteq> Write_Loop h" "unregistering h f'"
    and phase: "phase_ok T h (a\<lparr>wk_stack := (wk_stack a)(t := f' # rs)\<rparr>) t f'"
  shows "w_ok T h (a\<lparr>wk_stack := (wk_stack a)(t := f' # rs)\<rparr>)" (is "w_ok T h ?a")
proof (rule w_okI [OF ok T, where st = "f' # rs"])
  have nc: "\<not> completing h f" "f \<noteq> Write_Loop h" using f(1) by (cases f; auto)+
  have fl: "flight T h ?a = flight T h a" using flight_upd [OF T, of ?a a "f' # rs" h] st nc f by simp
  then show "w_law T h ?a" using ok by (simp add: w_ok_def w_law_def)
  show "w_loop T h ?a" using ok T(2) st nc f by (auto simp: w_ok_def w_loop_def)
  show "w_null T h ?a" using ok fl by (simp add: w_ok_def w_null_def drained_def quiesced_def)
  show "w_left T h ?a" using T f by (auto simp: w_left_def intro!: bexI [of _ t])
  show "phase_ok T h ?a t g" if "g \<in> set (f' # rs)" "g \<notin> set (wk_stack a t)" for g using that phase st by auto
  show "completing h g \<Longrightarrow> wk_thread ?a = t" if "g \<in> set (f' # rs)" for g
    using that ok T(2) st f by (auto simp: w_ok_def w_completing_def)
  show "quiesced T h a \<Longrightarrow> quiesced T h ?a" "drained T h a \<Longrightarrow> drained T h ?a" using fl by (simp_all add: quiesced_def drained_def)
qed simp_all

lemma w_drain_wait:
  assumes ok: "w_ok T h a" and T: "finite T" "t \<in> T" and st: "wk_stack a t = f # rs" and f: "f = Drain h \<or> f = Drain_Wait h n"
  shows "w_ok T h (a\<lparr>wk_stack := (wk_stack a)(t := Drain_Wait h m # rs)\<rparr>)"
proof (rule w_unregister_step [OF ok T st])
  have "phase_ok T h a t f" using ok T(2) st by (auto simp: w_ok_def w_phase_def)
  then show "phase_ok T h (a\<lparr>wk_stack := (wk_stack a)(t := Drain_Wait h m # rs)\<rparr>) t (Drain_Wait h m)" using f by auto
qed (use f in auto)

text \<open>The draining ends when no completion is due: no thread is in the callbacks, or it is this one.\<close>

lemma w_drain_end:
  assumes ok: "w_ok T h a" and T: "finite T" "t \<in> T" "0 \<notin> T" and st: "wk_stack a t = f # rs"
    and f: "f = Drain h \<or> f = Drain_Own h \<or> f = Drain_Wait h n" and act: "wk_active a"
    and cbs: "wk_thread a = 0 \<or> wk_thread a = t \<and> wk_cbs a = []" and none: "\<And>g. g \<in> set rs \<Longrightarrow> \<not> completing h g"
  shows "w_ok T h (a\<lparr>wk_stack := (wk_stack a)(t := Cancel h # rs)\<rparr>)" (is "w_ok T h ?a")
proof (rule w_unregister_step [OF ok T(1,2) st])
  have "phase_ok T h a t f" using ok T(2) st by (auto simp: w_ok_def w_phase_def)
  then have cl: "wk_closing a" using f by auto
  have "completing_in (wk_stack a t) h = 0" using st f none by (intro completing_in_none) auto
  then have "flight T h a = 0" using ok cbs T(3) by (intro flight_zero [OF T(1), of h a t]) (auto simp: w_ok_def)
  then have "flight T h ?a = 0" using flight_upd [OF T(1,2), of ?a a "Cancel h # rs" h] st f none
    by (simp add: completing_in_none)
  moreover have "wk_cbs a = []" using ok cbs act by (auto simp: w_ok_def w_loop_def)
  ultimately show "phase_ok T h ?a t (Cancel h)" using cl by (simp add: quiesced_def)
qed (use f in auto)

lemma w_drain_next:
  assumes ok: "w_ok T h a" and T: "finite T" "t \<in> T" and st: "wk_stack a t = f # rs"
    and f: "f = Drain h \<or> f = Drain_Own h" and act: "wk_active a" and thread: "wk_thread a = t" and cbs: "wk_cbs a = x # xs"
    and none: "\<And>g. g \<in> set rs \<Longrightarrow> \<not> completing h g"
  shows "w_ok T h (a\<lparr>wk_cbs := xs, wk_stack := (wk_stack a)(t := Call_Write h x # Drain_Own h # rs)\<rparr>)" (is "w_ok T h ?a")
proof (rule w_okI [OF ok T, where st = "Call_Write h x # Drain_Own h # rs"])
  have "phase_ok T h a t f" using ok T(2) st by (auto simp: w_ok_def w_phase_def)
  then have cl: "wk_closing a" using f by auto
  have nq: "\<not> quiesced T h a" "\<not> drained T h a" using cbs by (auto simp: quiesced_def drained_def)
  show "w_law T h ?a"
    using ok act cbs f st flight_upd [OF T, of ?a a "Call_Write h x # Drain_Own h # rs" h] by (auto simp: w_ok_def w_law_def)
  show "w_loop T h ?a" using ok T(2) st f act thread cbs by (auto simp: w_ok_def w_loop_def)
  show "w_null T h ?a" using ok nq by (auto simp: w_ok_def w_null_def)
  show "w_left T h ?a" using T by (auto simp: w_left_def intro!: bexI [of _ t])
  show "phase_ok T h ?a t g" if "g \<in> set (Call_Write h x # Drain_Own h # rs)" "g \<notin> set (wk_stack a t)" for g
    using that st cl thread by auto
  show "quiesced T h a \<Longrightarrow> quiesced T h ?a" "drained T h a \<Longrightarrow> drained T h ?a" using nq by simp_all
qed (use thread in auto)

lemma w_cancel_next:
  assumes ok: "w_ok T h a" and T: "finite T" "t \<in> T" and st: "wk_stack a t = Cancel h # rs" and act: "wk_active a" and list: "wk_list a = x # xs"
  shows "wk_on a \<noteq> 0" "w_ok T h (a\<lparr>wk_list := xs, wk_completed := Suc (wk_completed a)\<rparr>)" (is "w_ok T h ?a")
proof -
  have "\<not> drained T h a" using list by (simp add: drained_def)
  then show "wk_on a \<noteq> 0" using ok act by (auto simp: w_ok_def w_null_def)
  have q: "quiesced T h a" using ok T(2) st by (force simp: w_ok_def w_phase_def)
  have fl: "flight T h ?a = flight T h a" by (rule flight_same) simp
  show "w_ok T h ?a"
  proof (rule w_okI [OF ok T, where st = "wk_stack a t"])
    show "w_law T h ?a" using ok act list fl by (simp add: w_ok_def w_law_def)
    show "w_null T h ?a" using ok \<open>wk_on a \<noteq> 0\<close> by (simp add: w_null_def)
    show "w_left T h ?a" using T st by (auto simp: w_left_def intro!: bexI [of _ t])
    show "quiesced T h a \<Longrightarrow> quiesced T h ?a" "drained T h a \<Longrightarrow> drained T h ?a" using list fl by (simp_all add: quiesced_def drained_def)
    show "completing h f \<Longrightarrow> wk_thread ?a = t" if "f \<in> set (wk_stack a t)" for f using that ok T(2) by (auto simp: w_ok_def w_completing_def)
  qed (use ok in \<open>auto simp: w_ok_def w_loop_def\<close>)
qed

lemma w_cancel_end:
  assumes ok: "w_ok T h a" and T: "finite T" "t \<in> T" and st: "wk_stack a t = Cancel h # rs" and list: "wk_list a = []"
  shows "w_ok T h (a\<lparr>wk_stack := (wk_stack a)(t := Clear_Cb h # rs)\<rparr>)" (is "w_ok T h ?a")
proof (rule w_unregister_step [OF ok T st])
  have "quiesced T h a" using ok T(2) st by (force simp: w_ok_def w_phase_def)
  moreover have "flight T h ?a = flight T h a" using flight_upd [OF T, of ?a a "Clear_Cb h # rs" h] st by simp
  ultimately show "phase_ok T h ?a t (Clear_Cb h)" using list by (simp add: drained_def quiesced_def)
qed simp_all

lemma w_clear:
  assumes ok: "w_ok T h a" and T: "finite T" "t \<in> T" and st: "wk_stack a t = Clear_Cb h # rs"
  shows "w_ok T h (a\<lparr>wk_on := 0, wk_stack := (wk_stack a)(t := Dec h # rs)\<rparr>)" (is "w_ok T h ?a")
proof -
  let ?b = "a\<lparr>wk_stack := (wk_stack a)(t := Dec h # rs)\<rparr>"
  have "drained T h a" using ok T(2) st by (force simp: w_ok_def w_phase_def)
  moreover have fl: "flight T h ?b = flight T h a" using flight_upd [OF T, of ?b a "Dec h # rs" h] st by simp
  ultimately have d: "drained T h ?b" by (simp add: drained_def quiesced_def)
  have b: "w_ok T h ?b" by (rule w_unregister_step [OF ok T st]) (use d in simp_all)
  have "flight T h ?a = flight T h ?b" by (rule flight_same) simp
  then have "drained T h ?a" using d by (simp add: drained_def quiesced_def)
  show ?thesis
  proof (rule w_okI [OF b T, where st = "Dec h # rs"])
    show "w_law T h ?a" using b \<open>flight T h ?a = _\<close> by (simp add: w_ok_def w_law_def)
    show "w_loop T h ?a" using b by (simp add: w_ok_def w_loop_def)
    show "completing h f \<Longrightarrow> wk_thread ?a = t" if "f \<in> set (Dec h # rs)" for f
      using that ok T(2) st by (auto simp: w_ok_def w_completing_def)
  qed (use \<open>drained T h ?a\<close> d in \<open>auto simp: w_null_def w_left_def drained_def quiesced_def\<close>)
qed

lemma w_dec:
  assumes ok: "w_ok T h a" and T: "finite T" "t \<in> T" and st: "wk_stack a t = Dec h # rs" and act: "act \<Longrightarrow> wk_active a"
  shows "w_ok T h (a\<lparr>wk_active := act, wk_stack := (wk_stack a)(t := rs)\<rparr>)" (is "w_ok T h ?a")
proof (rule w_okI [OF ok T, where st = rs])
  have d: "drained T h a" using ok T(2) st by (force simp: w_ok_def w_phase_def)
  have fl: "flight T h ?a = flight T h a" using flight_upd [OF T, of ?a a rs h] st by simp
  have d': "drained T h ?a" using d fl by (simp add: drained_def quiesced_def)
  then show "w_null T h ?a" "w_left T h ?a" unfolding w_null_def w_left_def by blast+
  show "w_law T h ?a" using ok d fl by (simp add: w_ok_def w_law_def drained_def quiesced_def split: if_splits)
  show "w_loop T h ?a" using ok T(2) st act by (auto simp: w_ok_def w_loop_def)
  show "completing h f \<Longrightarrow> wk_thread ?a = t" if "f \<in> set rs" for f using that ok T(2) st by (auto simp: w_ok_def w_completing_def)
  show "drained T h a \<Longrightarrow> drained T h ?a" "quiesced T h a \<Longrightarrow> quiesced T h ?a" using d' fl by (simp_all add: drained_def quiesced_def)
qed (use st in auto)

lemma w_inactive:
  assumes ok: "w_ok T h a" and act: "wk_active a" "wk_closing a" and none: "\<And>t f. t \<in> T \<Longrightarrow> f \<in> set (wk_stack a t) \<Longrightarrow> \<not> unregistering h f"
  shows "w_ok T h (a\<lparr>wk_active := False\<rparr>)" (is "w_ok T h ?a")
proof -
  have d: "drained T h a" using ok act none by (simp add: w_ok_def w_left_def)
  have fl: "flight T h ?a = flight T h a" by (rule flight_same) simp
  have "phase_ok T h ?a t f" if "t \<in> T" "f \<in> set (wk_stack a t)" for t f
    by (rule phase_mono [of T h a]) (use ok that fl in \<open>auto simp: w_ok_def w_phase_def drained_def quiesced_def\<close>)
  then show ?thesis
    using ok d fl by (simp add: w_ok_def w_loop_def w_null_def w_left_def w_phase_def w_completing_def w_law_def drained_def quiesced_def split: if_splits)
qed

text \<open>A completion is called.\<close>

lemma w_complete:
  assumes ok: "w_ok T h a" and T: "finite T" "t \<in> T" and st: "wk_stack a t = f # rs" and f: "completing h f"
  shows "wk_active a \<Longrightarrow> wk_on a \<noteq> 0" "w_ok T h (a\<lparr>wk_completed := Suc (wk_completed a), wk_stack := (wk_stack a)(t := rs)\<rparr>)" (is "w_ok T h ?a")
proof -
  have pos: "flight T h a \<noteq> 0" using flight_pos [OF T, of f a h] st f by simp
  then have nq: "\<not> quiesced T h a" "\<not> drained T h a" by (auto simp: quiesced_def drained_def)
  then show "wk_active a \<Longrightarrow> wk_on a \<noteq> 0" using ok by (auto simp: w_ok_def w_null_def)
  have fw: "f \<noteq> Write_Loop h" "\<not> unregistering h f" using f by (cases f; auto)+
  show "w_ok T h ?a"
  proof (rule w_okI [OF ok T, where st = rs])
    show "w_law T h ?a" using ok st f flight_upd [OF T, of ?a a rs h] by (simp add: w_ok_def w_law_def)
    show "w_loop T h ?a" using ok T(2) st fw by (auto simp: w_ok_def w_loop_def)
    show "w_null T h ?a" using ok nq by (auto simp: w_ok_def w_null_def)
    show "w_left T h ?a"
    proof (cases "wk_active a \<and> wk_closing a")
      case True
      then obtain u g where "u \<in> T" "g \<in> set (wk_stack a u)" "unregistering h g" using ok nq by (auto simp: w_ok_def w_left_def)
      then have "\<exists>u\<in>T. \<exists>g\<in>set (wk_stack ?a u). unregistering h g" using st fw by (intro bexI [of _ u] bexI [of _ g]) (auto split: if_splits)
      then show ?thesis unfolding w_left_def by blast
    qed (auto simp: w_left_def)
    show "completing h g \<Longrightarrow> wk_thread ?a = t" if "g \<in> set rs" for g using that ok T(2) st by (auto simp: w_ok_def w_completing_def)
    show "quiesced T h a \<Longrightarrow> quiesced T h ?a" "drained T h a \<Longrightarrow> drained T h ?a" using nq by simp_all
  qed (use st in auto)
qed

lemma w_loop_thread:
  "w_ok T h a \<Longrightarrow> t \<in> T \<Longrightarrow> wk_active a \<Longrightarrow> wk_stack a t = Write_Loop h # rs \<Longrightarrow> wk_thread a = t"
  by (auto simp: w_ok_def w_loop_def split: if_splits)

lemma w_left_keep:
  assumes ok: "w_ok T h a" and a': "wk_active a' = wk_active a" "wk_closing a' = wk_closing a"
    and st: "\<And>u g. u \<in> T \<Longrightarrow> g \<in> set (wk_stack a u) \<Longrightarrow> unregistering h g \<Longrightarrow> g \<in> set (wk_stack a' u)"
    and d: "drained T h a \<Longrightarrow> drained T h a'"
  shows "w_left T h a'"
proof (cases "drained T h a")
  case True then show ?thesis using d by (simp add: w_left_def)
next
  case False
  then have "wk_active a \<Longrightarrow> wk_closing a \<Longrightarrow> \<exists>u\<in>T. \<exists>g\<in>set (wk_stack a u). unregistering h g" using ok by (auto simp: w_ok_def w_left_def)
  then show ?thesis using st a' unfolding w_left_def by meson
qed

lemma w_loop_end:
  assumes ok: "w_ok T h a" and T: "finite T" "t \<in> T" "0 \<notin> T" and st: "wk_stack a t = Write_Loop h # rs"
    and act: "wk_active a" and cbs: "wk_cbs a = []" and none: "\<And>g. g \<in> set rs \<Longrightarrow> \<not> completing h g"
  shows "w_ok T h (a\<lparr>wk_thread := 0, wk_stack := (wk_stack a)(t := rs)\<rparr>)" (is "w_ok T h ?a")
proof (rule w_okI [OF ok T(1,2), where st = rs])
  have wt: "wk_thread a = t" by (rule w_loop_thread [OF ok T(2) act st])
  have nz: "u \<noteq> 0" if "u \<in> T" for u using that T(3) by (cases u) auto
  have fl: "flight T h ?a = flight T h a" using flight_upd [OF T(1,2), of ?a a rs h] st by simp
  show "w_law T h ?a" using ok fl by (simp add: w_ok_def w_law_def)
  have "count_list (wk_stack a u) (Write_Loop h) = (if t = u then 1 else 0)" if "u \<in> T" for u
    using ok that act wt by (simp add: w_ok_def w_loop_def)
  moreover from this [OF T(2)] have "count_list rs (Write_Loop h) = 0" using st by simp
  ultimately show "w_loop T h ?a" using ok act cbs nz wt by (auto simp: w_ok_def w_loop_def)
  show d: "quiesced T h a \<Longrightarrow> quiesced T h ?a" "drained T h a \<Longrightarrow> drained T h ?a" using fl by (simp_all add: drained_def quiesced_def)
  then show "w_null T h ?a" using ok by (auto simp: w_ok_def w_null_def)
  show "w_left T h ?a" by (rule w_left_keep [OF ok]) (use st d in \<open>auto split: if_splits\<close>)
  show "completing h f \<Longrightarrow> wk_thread ?a = wk_thread a" if "u \<in> T" "u \<noteq> t" "f \<in> set (wk_stack a u)" for u f
    using that ok wt by (auto simp: w_ok_def w_completing_def)
qed (use st none in auto)

lemma w_loop_next:
  assumes ok: "w_ok T h a" and T: "finite T" "t \<in> T" and st: "wk_stack a t = Write_Loop h # rs"
    and act: "wk_active a" and cbs: "wk_cbs a = x # xs"
  shows "wk_on a \<noteq> 0" "w_ok T h (a\<lparr>wk_cbs := xs, wk_stack := (wk_stack a)(t := Call_Write h x # Write_Loop h # rs)\<rparr>)" (is "w_ok T h ?a")
proof -
  have nq: "\<not> quiesced T h a" "\<not> drained T h a" using cbs by (auto simp: quiesced_def drained_def)
  then show "wk_on a \<noteq> 0" using ok act by (auto simp: w_ok_def w_null_def)
  have wt: "wk_thread a = t" by (rule w_loop_thread [OF ok T(2) act st])
  show "w_ok T h ?a"
  proof (rule w_okI [OF ok T, where st = "Call_Write h x # Write_Loop h # rs"])
    show "w_law T h ?a"
      using ok act cbs st flight_upd [OF T, of ?a a "Call_Write h x # Write_Loop h # rs" h] by (simp add: w_ok_def w_law_def)
    show "w_loop T h ?a" using ok T(2) st act cbs wt by (auto simp: w_ok_def w_loop_def)
    show "w_null T h ?a" using ok nq by (auto simp: w_ok_def w_null_def)
    show "w_left T h ?a" by (rule w_left_keep [OF ok]) (use st nq in \<open>auto split: if_splits\<close>)
    show "quiesced T h a \<Longrightarrow> quiesced T h ?a" "drained T h a \<Longrightarrow> drained T h ?a" using nq by simp_all
  qed (use st wt in auto)
qed

text \<open>A registration starts with empty lists, and no thread has anything to do with the key.\<close>

lemma w_register:
  assumes ok: "w_ok T h a" and inact: "\<not> wk_active a" and none: "\<And>u. u \<in> T \<Longrightarrow> wk_stack a u = []" and zero: "0 \<notin> T"
    and new: "wk_active a'" "\<not> wk_closing a'" "wk_list a' = []" "wk_cbs a' = []" "wk_thread a' = 0" "\<not> wk_concurrent a'" "wk_on a' \<noteq> 0"
      "wk_queued a' = wk_queued a" "wk_completed a' = wk_completed a" "wk_stack a' = wk_stack a"
  shows "w_ok T h a'"
proof -
  have "flight T h a = 0" "flight T h a' = 0" using none new(10) by (simp_all add: flight_def)
  moreover have "u \<noteq> 0" if "u \<in> T" for u using that zero by (cases u) auto
  ultimately show ?thesis
    using ok inact new none by (auto simp: w_ok_def w_loop_def w_null_def w_left_def w_completing_def w_phase_def w_law_def)
qed

end
