(* ===== verification/Pj_Ioqueue_Serial.thy ===== *)
theory Pj_Ioqueue_Serial
  imports Pj_Ioqueue_Drain
begin

text \<open>
  The invariant of \<^verbatim>\<open>Pj_Ioqueue_Drain\<close> for the whole system: the sections of the I/O queue do to
  each key what is described there, for queues whose callbacks are not concurrent.
\<close>

section \<open>The sections that concern writes\<close>

text \<open>Fields of the state after the primitive updates.\<close>

named_theorems fields

lemma io_keys_simps [fields]:
  "io_keys (upd_key h f s) = (io_keys s)(h := f (io_keys s h))"
  "io_keys (upd_op x g s) = io_keys s"
  "io_keys (add_log e s) = io_keys s"
  "io_keys (grp_ref gl n s) = io_keys s"
  "io_keys (ioqueue_add_to_set h et s) = io_keys s"
  "io_keys (ioqueue_remove_from_set h et s) = io_keys s"
  by (simp_all add: upd_key_def upd_op_def add_log_def grp_ref_def ioqueue_add_to_set2_def ioqueue_add_to_set_def
      ioqueue_remove_from_set2_def ioqueue_remove_from_set_def Let_def)

lemma iq_active_simps [fields]:
  "iq_active_list (upd_key h f s) = iq_active_list s"
  "iq_active_list (add_log e s) = iq_active_list s"
  by (simp_all add: upd_key_def add_log_def)

lemma io_log_simps [fields]:
  "io_log (upd_key h f s) = io_log s"
  "io_log (upd_op x g s) = io_log s"
  "io_log (add_log e s) = e # io_log s"
  "io_log (grp_ref gl n s) = io_log s"
  "io_log (ioqueue_add_to_set h et s) = io_log s"
  "io_log (ioqueue_remove_from_set h et s) = io_log s"
  by (simp_all add: upd_key_def upd_op_def add_log_def grp_ref_def ioqueue_add_to_set2_def ioqueue_add_to_set_def
      ioqueue_remove_from_set2_def ioqueue_remove_from_set_def Let_def)

lemma io_ops_simps [fields]:
  "io_ops (upd_key h f s) = io_ops s"
  "io_ops (upd_op x g s) = (io_ops s)(x := g (io_ops s x))"
  by (simp_all add: upd_key_def upd_op_def)

lemma counts_upd_op [fields]: "queued (upd_op x g s) = queued s" "completed (upd_op x g s) = completed s"
  by (simp_all add: fun_eq_iff queued_def completed_def fields)

text \<open>What a section does to the writes of one key: the new view, and what it adds to the counts.\<close>

definition writes_to :: "nat \<Rightarrow> write_view \<Rightarrow> nat \<Rightarrow> nat \<Rightarrow> 'w pj_ioqueue_t \<Rightarrow> 'w pj_ioqueue_t \<Rightarrow> bool" where
  "writes_to h v n m s q \<longleftrightarrow>
     (\<lambda>h'. write_view (key_of q h')) = (\<lambda>h'. write_view (key_of s h'))(h := v) \<and>
     queued q = (queued s)(h := queued s h + n) \<and> completed q = (completed s)(h := completed s h + m)"

lemma writes_to_trans: "writes_to h v n m s q \<Longrightarrow> writes s = writes s0 \<Longrightarrow> writes_to h v n m s0 q"
  by (auto simp: writes_to_def writes_def)

lemma writes_to_calm: "writes q = writes s \<Longrightarrow> writes_to h (write_view (key_of s h)) 0 0 s q"
  by (auto simp: writes_to_def writes_def fun_eq_iff)

lemma send_commit_cases:
  obtains "calm s (send_commit t (Send h x buf len flags to) s)"
  | q where "send_commit t (Send h x buf len flags to) s = ([], q)" "\<not> key_closing (key_of s h)"
      "writes_to h (case write_view (key_of s h) of (l, r) \<Rightarrow> (l @ [x], r)) 1 0 s q"
proof (cases "key_closing (key_of s h) \<or> op_op (op_of s x) \<noteq> PJ_IOQUEUE_OP_NONE")
  case True
  then show ?thesis by (intro that(1)) (auto simp: section_simps Let_def send_status)
next
  case False
  then show ?thesis
    by (intro that(2))
      (auto simp: section_simps Let_def ret_def writes_to_def fields write_view_def queued_def completed_def fun_eq_iff)
qed

lemma writes_send_op: "send_op api h x s = (rc, s') \<Longrightarrow> writes s' = writes s"
  by (auto simp: send_op_def Let_def dest!: calm_key_send split: prod.splits if_splits)

lemma write_done_cases:
  assumes "\<not> key_concurrent (key_of s h)"
  obtains q where "write_done t h x s = (True, [], q)" "key_write_thread (key_of s h) \<noteq> 0"
      "writes_to h (case write_view (key_of s h) of (l, c, r) \<Rightarrow> (l, c @ [x], r)) 0 0 s q"
  | q where "write_done t h x s = (True, [Cb_Write h x, Write_Loop h], q)" "key_write_thread (key_of s h) = 0"
      "writes_to h (case write_view (key_of s h) of (l, c, th, r) \<Rightarrow> (l, c, t, r)) 0 0 s q"
proof (cases "key_write_thread (key_of s h) = 0")
  case True
  show ?thesis
    by (rule that(2)) (use assms True in \<open>auto simp: write_done_def writes_to_def fields write_view_def queued_def completed_def fun_eq_iff\<close>)
next
  case False
  show ?thesis
    by (rule that(1)) (use assms False in \<open>auto simp: write_done_def writes_to_def fields write_view_def queued_def completed_def fun_eq_iff\<close>)
qed

text \<open>A dispatched write either leaves the writes alone, or takes the first of the list: it goes to the
  callbacks that are due, or is completed by this thread.\<close>

lemma erase_write_writes: "writes_to h (case write_view (key_of s h) of (l, r) \<Rightarrow> (tl l, r)) 0 0 s (erase_write h s)"
  by (auto simp: erase_write_def Let_def writes_to_def fields write_view_def queued_def completed_def fun_eq_iff)

lemma writes_to_upd_op [simp]: "writes_to h v n m s (upd_op x g q) \<longleftrightarrow> writes_to h v n m s q"
  by (simp add: writes_to_def fields)

lemma writes_to_cong: "writes q' = writes q \<Longrightarrow> writes_to h v n m s q' = writes_to h v n m s q"
  by (simp add: writes_to_def writes_def)

lemma writes_to_then:
  "writes_to h v n m s q \<Longrightarrow> writes_to h v' n' m' q q' \<Longrightarrow> writes_to h v' (n + n') (m + m') s q'"
  by (auto simp: writes_to_def fun_eq_iff)

lemma writes_to_view: "writes_to h v n m s q \<Longrightarrow> write_view (key_of q h) = v"
  by (auto simp: writes_to_def fun_eq_iff)

lemma dispatch_write_cases:
  assumes list: "key_write_list (key_of s h) = x # xs" and conc: "\<not> key_concurrent (key_of s h)"
  obtains "calm_dispatch s (dispatch_write api t h s)"
  | q where "dispatch_write api t h s = (True, [], q)" "key_write_thread (key_of s h) \<noteq> 0"
      "writes_to h (case write_view (key_of s h) of (l, c, r) \<Rightarrow> (xs, c @ [x], r)) 0 0 s q"
  | q where "dispatch_write api t h s = (True, [Cb_Write h x, Write_Loop h], q)" "key_write_thread (key_of s h) = 0"
      "writes_to h (case write_view (key_of s h) of (l, c, th, r) \<Rightarrow> (xs, c, t, r)) 0 0 s q"
proof -
  define dgram where "dgram \<longleftrightarrow> key_fd_type (key_of s h) = SOCK_DGRAM api"
  define s1 where "s1 = (if dgram then erase_write h s else s)"
  obtain rc s2 where send: "send_op api h x s1 = (rc, s2)" by fastforce
  define fin where "fin \<longleftrightarrow> rc \<noteq> PJ_SUCCESS \<or> op_written (op_of s2 x) = op_size (op_of s2 x) \<or> dgram"
  define s3 where "s3 = (let s = upd_op x (\<lambda>r. r\<lparr>op_op := PJ_IOQUEUE_OP_NONE\<rparr>) s2 in if \<not> dgram then erase_write h s else s)"
  have res: "dispatch_write api t h s = (if fin then write_done t h x s3 else (True, [], s2))"
    by (simp add: dispatch_write_def list dgram_def [symmetric] s1_def [symmetric] send fin_def s3_def Let_def)
  have s2: "writes s2 = writes s1" by (rule writes_send_op [OF send])
  show ?thesis
  proof (cases fin)
    case False
    then have "\<not> dgram" by (simp add: fin_def)
    then show ?thesis using False s2 by (intro that(1)) (simp add: res s1_def)
  next
    case True
    let ?v = "case write_view (key_of s h) of (l, r) \<Rightarrow> (tl l, r)"
    have s3: "writes_to h ?v 0 0 s s3"
    proof (cases dgram)
      case True
      then have "writes_to h ?v 0 0 s s1" using erase_write_writes [of h s] by (simp add: s1_def)
      then show ?thesis using True by (simp add: s3_def Let_def writes_to_cong [OF s2])
    next
      case False
      then have s2': "writes s2 = writes s" using s2 by (simp add: s1_def)
      then have v: "write_view (key_of s2 h) = write_view (key_of s h)" by (auto simp: writes_def fun_eq_iff)
      have "writes_to h (case write_view (key_of s2 h) of (l, r) \<Rightarrow> (tl l, r)) 0 0 (upd_op x (\<lambda>r. r\<lparr>op_op := PJ_IOQUEUE_OP_NONE\<rparr>) s2) s3"
        using False erase_write_writes [of h "upd_op x (\<lambda>r. r\<lparr>op_op := PJ_IOQUEUE_OP_NONE\<rparr>) s2"] by (simp add: s3_def Let_def fields)
      then show ?thesis using writes_to_trans [of h _ 0 0 _ s3 s] s2' by (simp add: v)
    qed
    have view: "write_view (key_of s3 h) = ?v" by (rule writes_to_view [OF s3])
    then have kv: "\<not> key_concurrent (key_of s3 h)" "key_write_thread (key_of s3 h) = key_write_thread (key_of s h)"
      using conc by (simp_all add: write_view_def)
    from kv(1) show ?thesis
    proof (cases rule: write_done_cases [of s3 h t x])
      case (1 q)
      show ?thesis by (rule that(2) [of q]) (use 1 kv True writes_to_then [OF s3 1(3)] view list in \<open>simp_all add: res write_view_def\<close>)
    next
      case (2 q)
      show ?thesis by (rule that(3) [of q]) (use 2 kv True writes_to_then [OF s3 2(3)] view list in \<open>simp_all add: res write_view_def\<close>)
    qed
  qed
qed

section \<open>The invariant of the system\<close>

text \<open>Runs in which the keys have a write callback, operations are neither posted nor cleared,
  concurrency stays disabled, and no thread stays in a callback for longer than an unregistration waits.\<close>

fun serial_frame :: "io_frame \<Rightarrow> bool" where
  "serial_frame (Start c) = (case c of Post_Completion _ _ _ \<Rightarrow> False | Clear_Key _ \<Rightarrow> False | Set_Concurrency _ _ \<Rightarrow> False
     | Register _ _ _ cb \<Rightarrow> (case cb of Some cb \<Rightarrow> on_write_complete cb \<noteq> 0 | None \<Rightarrow> True) | _ \<Rightarrow> True)"
| "serial_frame (Post_Read _ _ _ _) = False"
| "serial_frame (Post_Write _ _ _ _) = False"
| "serial_frame (Post_Accept _ _ _ _) = False"
| "serial_frame (Clear_Read _ _ _) = False"
| "serial_frame (Clear_Write _ _ _) = False"
| "serial_frame (Drain_Wait _ n) = (n < 100)"
| "serial_frame _ = True"

definition serial_use :: "nat \<Rightarrow> io_act \<Rightarrow> 'w io_sys \<Rightarrow> bool" where
  "serial_use t a s \<longleftrightarrow> \<not> iq_default_concurrency (sy_ioq s) \<and>
     (case a of Run _ \<Rightarrow> (case sy_stack s t of f # _ \<Rightarrow> serial_frame f | [] \<Rightarrow> True) | _ \<Rightarrow> True)"

fun calls_write :: "io_frame \<Rightarrow> bool" where
  "calls_write (Cb_Write _ _) = True"
| "calls_write (Call_Write _ _) = True"
| "calls_write _ = False"

lemma completing_calls: "completing h f \<Longrightarrow> calls_write f"
  by (cases f) auto

lemma completing_about: "completing h f \<Longrightarrow> about h f"
  by (cases f) auto

text \<open>A thread that is about to call a completion does nothing else.\<close>

definition tails_ok :: "'w io_sys \<Rightarrow> bool" where
  "tails_ok s \<longleftrightarrow> (\<forall>t\<in>set (sy_threads s). \<forall>f\<in>set (tl (sy_stack s t)). \<not> calls_write f)"

definition serial_ok :: "nat set \<Rightarrow> 'w io_sys \<Rightarrow> bool" where
  "serial_ok K s \<longleftrightarrow> keys_ok K s \<and> tails_ok s \<and> 0 \<notin> set (sy_threads s) \<and>
     (\<forall>h. w_ok (set (sy_threads s)) h (wkey s h))"

text \<open>A key after a step of one thread.\<close>

lemma wkey_step:
  "wkey (s\<lparr>sy_ioq := q, sy_stack := (sy_stack s)(t := fr @ fs), sy_owned := A\<rparr>) h =
     (case write_view (key_of q h) of (l, c, th, cc, on) \<Rightarrow>
       \<lparr>wk_active = h \<in> set (iq_active_list q), wk_closing = key_closing (key_of q h), wk_list = l, wk_cbs = c,
        wk_thread = th, wk_concurrent = cc, wk_on = on, wk_queued = queued q h, wk_completed = completed q h,
        wk_stack = (wk_stack (wkey s h))(t := filter (about h) fr @ filter (about h) fs)\<rparr>)"
  by (auto simp: wkey_def Let_def write_view_def fun_eq_iff)

lemma wkey_fields [simp]:
  "wk_active (wkey s h) = (h \<in> set (iq_active_list (sy_ioq s)))"
  "wk_closing (wkey s h) = key_closing (key_of (sy_ioq s) h)"
  "wk_list (wkey s h) = key_write_list (key_of (sy_ioq s) h)"
  "wk_cbs (wkey s h) = key_write_cb_list (key_of (sy_ioq s) h)"
  "wk_thread (wkey s h) = key_write_thread (key_of (sy_ioq s) h)"
  "wk_concurrent (wkey s h) = key_concurrent (key_of (sy_ioq s) h)"
  "wk_on (wkey s h) = on_write_complete (key_cb (key_of (sy_ioq s) h))"
  "wk_queued (wkey s h) = queued (sy_ioq s) h"
  "wk_completed (wkey s h) = completed (sy_ioq s) h"
  "wk_stack (wkey s h) t = filter (about h) (sy_stack s t)"
  by (simp_all add: wkey_def Let_def)

lemma wkey_same:
  assumes st: "sy_stack s t = f # fs" and fr: "filter (about h) fr = filter (about h) [f]"
    and q: "write_view (key_of q h) = write_view (key_of (sy_ioq s) h)" "queued q h = queued (sy_ioq s) h" "completed q h = completed (sy_ioq s) h"
      "h \<in> set (iq_active_list q) \<longleftrightarrow> h \<in> set (iq_active_list (sy_ioq s))" "key_closing (key_of q h) = key_closing (key_of (sy_ioq s) h)"
  shows "wkey (s\<lparr>sy_ioq := q, sy_stack := (sy_stack s)(t := fr @ fs), sy_owned := A\<rparr>) h = wkey s h"
  unfolding wkey_step using st fr q by (auto simp: write_view_def wkey_def Let_def fun_eq_iff)

lemma tails_ok_replace:
  assumes ok: "tails_ok s" and t: "t \<in> set (sy_threads s)" and st: "sy_stack s t = f # fs" and fr: "\<And>g. g \<in> set (tl fr) \<Longrightarrow> \<not> calls_write g"
  shows "tails_ok (s\<lparr>sy_ioq := q, sy_stack := (sy_stack s)(t := fr @ fs), sy_owned := A\<rparr>)" (is "tails_ok ?s")
proof -
  have fs: "\<not> calls_write g" if "g \<in> set fs" for g using ok t st that by (auto simp: tails_ok_def)
  have "\<not> calls_write g" if "g \<in> set (tl (fr @ fs))" for g
  proof (cases fr)
    case Nil then show ?thesis using that fs by (cases fs) auto
  next
    case (Cons a list) then show ?thesis using that fs fr by auto
  qed
  then show ?thesis using ok by (auto simp: tails_ok_def)
qed

lemma serial_tail: "serial_ok K s \<Longrightarrow> t \<in> set (sy_threads s) \<Longrightarrow> sy_stack s t = f # fs \<Longrightarrow> g \<in> set fs \<Longrightarrow> \<not> completing h g"
  unfolding serial_ok_def tails_ok_def by (metis completing_calls list.sel(3))

text \<open>To show that a step keeps the invariant: it concerns one key at most.\<close>

lemma serial_ok_step:
  assumes ok: "serial_ok K s" and t: "t \<in> set (sy_threads s)" and st: "sy_stack s t = f # fs"
    and keys: "keys_ok K (s\<lparr>sy_ioq := q, sy_stack := (sy_stack s)(t := fr @ fs), sy_owned := A\<rparr>)"
    and fr: "\<And>g. g \<in> set (tl fr) \<Longrightarrow> \<not> calls_write g"
    and other: "\<And>h. h \<noteq> k \<Longrightarrow> filter (about h) fr = filter (about h) [f]"
      "\<And>h. h \<noteq> k \<Longrightarrow> h \<in> set (iq_active_list q) \<longleftrightarrow> h \<in> set (iq_active_list (sy_ioq s))"
      "\<And>h. h \<noteq> k \<Longrightarrow> key_closing (key_of q h) = key_closing (key_of (sy_ioq s) h)"
    and wr: "writes_to k v n m (sy_ioq s) q"
    and own: "w_ok (set (sy_threads s)) k
       (case v of (l, c, th, cc, on) \<Rightarrow>
       \<lparr>wk_active = k \<in> set (iq_active_list q), wk_closing = key_closing (key_of q k), wk_list = l, wk_cbs = c,
        wk_thread = th, wk_concurrent = cc, wk_on = on, wk_queued = queued (sy_ioq s) k + n, wk_completed = completed (sy_ioq s) k + m,
        wk_stack = (wk_stack (wkey s k))(t := filter (about k) fr @ filter (about k) fs)\<rparr>)"
  shows "serial_ok K (s\<lparr>sy_ioq := q, sy_stack := (sy_stack s)(t := fr @ fs), sy_owned := A\<rparr>)" (is "serial_ok K ?s")
proof -
  have "w_ok (set (sy_threads s)) h (wkey ?s h)" for h
  proof (cases "h = k")
    case True
    have "wkey ?s k = (case v of (l, c, th, cc, on) \<Rightarrow>
       \<lparr>wk_active = k \<in> set (iq_active_list q), wk_closing = key_closing (key_of q k), wk_list = l, wk_cbs = c,
        wk_thread = th, wk_concurrent = cc, wk_on = on, wk_queued = queued (sy_ioq s) k + n, wk_completed = completed (sy_ioq s) k + m,
        wk_stack = (wk_stack (wkey s k))(t := filter (about k) fr @ filter (about k) fs)\<rparr>)"
      unfolding wkey_step using wr by (simp add: writes_to_view [OF wr] writes_to_def)
    then show ?thesis using own True by simp
  next
    case False
    have "write_view (key_of q h) = write_view (key_of (sy_ioq s) h)" "queued q h = queued (sy_ioq s) h" "completed q h = completed (sy_ioq s) h"
      using wr False by (auto simp: writes_to_def fun_eq_iff)
    then have "wkey ?s h = wkey s h" using False by (intro wkey_same [OF st]) (simp_all add: other)
    with ok show ?thesis by (simp add: serial_ok_def)
  qed
  moreover have "tails_ok ?s" using ok t st fr by (intro tails_ok_replace) (simp_all add: serial_ok_def)
  ultimately show ?thesis using ok keys by (simp add: serial_ok_def)
qed

lemma not_write_frame: "\<not> write_frame f \<Longrightarrow> \<not> about h f \<and> \<not> calls_write f"
  by (cases f) auto

lemma filter_about_none: "(\<And>f. f \<in> set fr \<Longrightarrow> \<not> write_frame f) \<Longrightarrow> filter (about h) fr = []"
  using not_write_frame by (auto simp: filter_empty_conv)

lemma serial_ok_calm:
  assumes ok: "serial_ok K s" and t: "t \<in> set (sy_threads s)" and st: "sy_stack s t = f # fs"
    and keys: "keys_ok K (s\<lparr>sy_ioq := q, sy_stack := (sy_stack s)(t := fr @ fs), sy_owned := A\<rparr>)"
    and f: "\<not> write_frame f" and calm: "calm (sy_ioq s) (fr, q)"
    and act: "\<And>h. h \<in> set (iq_active_list q) \<longleftrightarrow> h \<in> set (iq_active_list (sy_ioq s))"
    and cl: "\<And>h. key_closing (key_of q h) = key_closing (key_of (sy_ioq s) h)"
  shows "serial_ok K (s\<lparr>sy_ioq := q, sy_stack := (sy_stack s)(t := fr @ fs), sy_owned := A\<rparr>)" (is "serial_ok K ?s")
proof -
  have w: "writes q = writes (sy_ioq s)" and fr: "\<And>g. g \<in> set fr \<Longrightarrow> \<not> write_frame g" using calm by auto
  have none: "filter (about h) fr = []" "\<not> about h f" for h using filter_about_none [OF fr] not_write_frame [OF f] by auto
  have "wkey ?s h = wkey s h" for h
    using w by (intro wkey_same [OF st]) (auto simp: none act cl writes_def fun_eq_iff)
  moreover have "\<not> calls_write g" if "g \<in> set (tl fr)" for g
    using that fr not_write_frame by (metis list.set_sel(2) tl_Nil)
  then have "tails_ok ?s" using ok t st by (intro tails_ok_replace) (simp_all add: serial_ok_def)
  ultimately show ?thesis using ok keys by (simp add: serial_ok_def)
qed

section \<open>Steps that concern the writes of a key\<close>

text \<open>A section that leaves the life of the keys alone and changes the writes of one key.\<close>

definition wk_upd :: "wkey \<Rightarrow> write_view \<Rightarrow> nat \<Rightarrow> nat \<Rightarrow> nat \<Rightarrow> io_frame list \<Rightarrow> wkey" where
  "wk_upd a v n m t st = (case v of (l, c, th, cc, on) \<Rightarrow>
     a\<lparr>wk_list := l, wk_cbs := c, wk_thread := th, wk_concurrent := cc, wk_on := on,
       wk_queued := wk_queued a + n, wk_completed := wk_completed a + m, wk_stack := (wk_stack a)(t := st)\<rparr>)"

lemma serial_ok_own:
  assumes ok: "serial_ok K s" and t: "t \<in> set (sy_threads s)" and st: "sy_stack s t = f # fs"
    and q: "quiet f (sy_ioq s) (fr, q)" and wr: "writes_to k v n m (sy_ioq s) q"
    and own: "w_ok (set (sy_threads s)) k (wk_upd (wkey s k) v n m t (filter (about k) fr @ filter (about k) fs))"
    and fr: "\<And>g. g \<in> set (tl fr) \<Longrightarrow> \<not> calls_write g"
    and other: "\<And>h. h \<noteq> k \<Longrightarrow> filter (about h) fr = filter (about h) [f]"
  shows "serial_ok K (s\<lparr>sy_ioq := q, sy_stack := (sy_stack s)(t := fr @ fs), sy_owned := sy_owned s\<rparr>)"
proof (rule serial_ok_step [OF ok t st, where k = k and v = v and n = n and m = m])
  have keys: "keys_ok K s" using ok by (simp add: serial_ok_def)
  show "keys_ok K (s\<lparr>sy_ioq := q, sy_stack := (sy_stack s)(t := fr @ fs), sy_owned := sy_owned s\<rparr>)"
    by (rule keys_ok_quiet [OF keys t st q])
  have life: "life q = life (sy_ioq s)" using q by simp
  show "(h \<in> set (iq_active_list q)) = (h \<in> set (iq_active_list (sy_ioq s)))" for h by (simp add: life_eqD(1) [OF life])
  show "key_closing (key_of q h) = key_closing (key_of (sy_ioq s) h)" for h by (rule life_eqD(2) [OF life])
  have "wk_upd (wkey s k) v n m t (filter (about k) fr @ filter (about k) fs) = (case v of (l, c, th, cc, on) \<Rightarrow>
     \<lparr>wk_active = k \<in> set (iq_active_list q), wk_closing = key_closing (key_of q k), wk_list = l, wk_cbs = c,
        wk_thread = th, wk_concurrent = cc, wk_on = on, wk_queued = queued (sy_ioq s) k + n, wk_completed = completed (sy_ioq s) k + m,
        wk_stack = (wk_stack (wkey s k))(t := filter (about k) fr @ filter (about k) fs)\<rparr>)"
    by (simp add: wk_upd_def wkey_def Let_def life_eqD [OF life] split: prod.split)
  with own show "w_ok (set (sy_threads s)) k (case v of (l, c, th, cc, on) \<Rightarrow>
     \<lparr>wk_active = k \<in> set (iq_active_list q), wk_closing = key_closing (key_of q k), wk_list = l, wk_cbs = c,
        wk_thread = th, wk_concurrent = cc, wk_on = on, wk_queued = queued (sy_ioq s) k + n, wk_completed = completed (sy_ioq s) k + m,
        wk_stack = (wk_stack (wkey s k))(t := filter (about k) fr @ filter (about k) fs)\<rparr>)"
    by simp
qed (use fr other wr in simp_all)

lemma serial_w_ok: "serial_ok K s \<Longrightarrow> w_ok (set (sy_threads s)) h (wkey s h)"
  by (simp add: serial_ok_def)

lemma serial_keys_ok: "serial_ok K s \<Longrightarrow> keys_ok K s"
  by (simp add: serial_ok_def)

lemma serial_zero: "serial_ok K s \<Longrightarrow> 0 \<notin> set (sy_threads s)"
  by (simp add: serial_ok_def)

lemma serial_ok_quiet_calm:
  assumes ok: "serial_ok K s" and t: "t \<in> set (sy_threads s)" and st: "sy_stack s t = f # fs"
    and quiet: "quiet f (sy_ioq s) (fr, q)" and f: "\<not> write_frame f" and calm: "calm (sy_ioq s) (fr, q)"
  shows "serial_ok K (s\<lparr>sy_ioq := q, sy_stack := (sy_stack s)(t := fr @ fs), sy_owned := sy_owned s\<rparr>)"
proof (rule serial_ok_calm [OF ok t st _ f calm])
  show "keys_ok K (s\<lparr>sy_ioq := q, sy_stack := (sy_stack s)(t := fr @ fs), sy_owned := sy_owned s\<rparr>)"
    by (rule keys_ok_quiet [OF serial_keys_ok [OF ok] t st quiet])
  have life: "life q = life (sy_ioq s)" using quiet by simp
  show "(h \<in> set (iq_active_list q)) = (h \<in> set (iq_active_list (sy_ioq s)))" for h by (simp add: life_eqD(1) [OF life])
  show "key_closing (key_of q h) = key_closing (key_of (sy_ioq s) h)" for h by (rule life_eqD(2) [OF life])
qed

lemma serial_send_commit:
  assumes ok: "serial_ok K s" and t: "t \<in> set (sy_threads s)" and st: "sy_stack s t = Commit (Send h x buf len flags to) # fs"
    and res: "send_commit t (Send h x buf len flags to) (sy_ioq s) = (fr, q)"
  shows "serial_ok K (s\<lparr>sy_ioq := q, sy_stack := (sy_stack s)(t := fr @ fs), sy_owned := sy_owned s\<rparr>)"
proof -
  have act: "h \<in> set (iq_active_list (sy_ioq s))" using used_active [OF serial_keys_ok [OF ok] t, of "[]" _ fs h] st by simp
  have quiet: "quiet (Commit (Send h x buf len flags to)) (sy_ioq s) (fr, q)" using quiet_send(6) [of h x buf len flags to "sy_ioq s" t] res by simp
  show ?thesis
  proof (cases rule: send_commit_cases [of "sy_ioq s" t h x buf len flags to])
    case 1
    then show ?thesis by (intro serial_ok_quiet_calm [OF ok t st quiet]) (use res in simp_all)
  next
    case (2 q')
    then have fr: "fr = []" "q' = q" using res by auto
    have eq: "wk_upd (wkey s h) (case write_view (key_of (sy_ioq s) h) of (l, r) \<Rightarrow> (l @ [x], r)) 1 0 t (filter (about h) fr @ filter (about h) fs)
        = (wkey s h)\<lparr>wk_list := wk_list (wkey s h) @ [x], wk_queued := Suc (wk_queued (wkey s h))\<rparr>"
      using st by (auto simp: fr wk_upd_def wkey_def Let_def write_view_def fun_eq_iff)
    have "w_ok (set (sy_threads s)) h (wk_upd (wkey s h) (case write_view (key_of (sy_ioq s) h) of (l, r) \<Rightarrow> (l @ [x], r)) 1 0 t
        (filter (about h) fr @ filter (about h) fs))"
      unfolding eq by (rule w_queue [OF serial_w_ok [OF ok]]) (use act 2(2) in simp_all)
    then show ?thesis by (rule serial_ok_own [OF ok t st quiet 2(3) [unfolded fr(2)]]) (simp_all add: fr)
  qed
qed

lemmas wk_eq_defs = wk_upd_def wkey_def Let_def write_view_def fun_eq_iff

lemma serial_dispatch_write:
  assumes ok: "serial_ok K s" and t: "t \<in> set (sy_threads s)" and st: "sy_stack s t = Dispatch h WRITEABLE_EVENT rest p # fs"
    and res: "poll_dispatch api t b h WRITEABLE_EVENT rest p (sy_ioq s) = (fr, q)"
  shows "serial_ok K (s\<lparr>sy_ioq := q, sy_stack := (sy_stack s)(t := fr @ fs), sy_owned := sy_owned s\<rparr>)"
proof -
  let ?k = "key_of (sy_ioq s) h" and ?T = "set (sy_threads s)"
  have lok: "life_ok K (life (sy_ioq s)) (refs s)" using serial_keys_ok [OF ok] by (simp add: keys_ok_def)
  have act: "h \<in> set (iq_active_list (sy_ioq s))" using held_active [OF lok t, of h] st by simp
  have w: "w_ok ?T h (wkey s h)" by (rule serial_w_ok [OF ok])
  then have conc: "\<not> key_concurrent ?k" using act by (simp add: w_ok_def w_loop_def)
  have quiet: "quiet (Dispatch h WRITEABLE_EVENT rest p) (sy_ioq s) (fr, q)"
    using quiet_poll_dispatch [of h WRITEABLE_EVENT rest p "sy_ioq s" api t b] res by simp
  show ?thesis
  proof (cases "b \<and> \<not> key_closing ?k \<and> \<not> key_connecting ?k \<and> key_has_pending_write ?k")
    case False
    then have "calm (sy_ioq s) (fr, q)"
      using res calm_dispatch_other(2) [of "sy_ioq s" api h]
      by (auto simp: poll_dispatch_def ioqueue_dispatch_write_event_def calm_dispatch_def split: if_splits prod.splits)
    then show ?thesis by (rule serial_ok_quiet_calm [OF ok t st quiet, rotated]) simp
  next
    case True
    then obtain x xs where list: "key_write_list ?k = x # xs" by (cases "key_write_list ?k") (auto simp: key_has_pending_write_def)
    have cl: "\<not> key_closing ?k" using True by simp
    have ev: "ioqueue_dispatch_write_event api t h (sy_ioq s) = dispatch_write api t h (sy_ioq s)"
      using True by (simp add: ioqueue_dispatch_write_event_def)
    show ?thesis
    proof (cases rule: dispatch_write_cases [OF list conc, of api t])
      case 1
      then have "calm (sy_ioq s) (fr, q)" using res True ev by (auto simp: poll_dispatch_def calm_dispatch_def split: prod.splits)
      then show ?thesis by (rule serial_ok_quiet_calm [OF ok t st quiet, rotated]) simp
    next
      case (2 q')
      then have fr: "fr = [Unref h rest (p + 1)]" "q' = q" using res True ev by (auto simp: poll_dispatch_def)
      have eq: "wk_upd (wkey s h) (case write_view ?k of (l, c, r) \<Rightarrow> (xs, c @ [x], r)) 0 0 t (filter (about h) fr @ filter (about h) fs)
          = (wkey s h)\<lparr>wk_list := xs, wk_cbs := wk_cbs (wkey s h) @ [x]\<rparr>"
        using st by (auto simp: fr wk_eq_defs)
      have "w_ok ?T h (wk_upd (wkey s h) (case write_view ?k of (l, c, r) \<Rightarrow> (xs, c @ [x], r)) 0 0 t (filter (about h) fr @ filter (about h) fs))"
        unfolding eq by (rule w_defer [OF w]) (use act cl list 2(2) in simp_all)
      then show ?thesis by (rule serial_ok_own [OF ok t st quiet 2(3) [unfolded fr(2)]]) (simp_all add: fr)
    next
      case (3 q')
      then have fr: "fr = [Cb_Write h x, Write_Loop h, Unref h rest (p + 1)]" "q' = q" using res True ev by (auto simp: poll_dispatch_def)
      have eq: "wk_upd (wkey s h) (case write_view ?k of (l, c, th, r) \<Rightarrow> (xs, c, t, r)) 0 0 t (filter (about h) fr @ filter (about h) fs)
          = (wkey s h)\<lparr>wk_list := xs, wk_thread := t, wk_stack := (wk_stack (wkey s h))(t := Cb_Write h x # Write_Loop h # wk_stack (wkey s h) t)\<rparr>"
        using st by (auto simp: fr wk_eq_defs)
      have "w_ok ?T h (wk_upd (wkey s h) (case write_view ?k of (l, c, th, r) \<Rightarrow> (xs, c, t, r)) 0 0 t (filter (about h) fr @ filter (about h) fs))"
        unfolding eq by (rule w_call [OF w]) (use act cl list 3(2) t serial_zero [OF ok] in simp_all)
      then show ?thesis by (rule serial_ok_own [OF ok t st quiet 3(3) [unfolded fr(2)]]) (auto simp: fr)
    qed
  qed
qed

text \<open>Unregistration, from the closing of the key to the end of the draining.\<close>

lemma writes_unregister_close: "writes (unregister_close api h s) = writes s"
  by (auto simp: unregister_close_def Let_def writes_def upd_key_def queued_def completed_def write_view_def fun_eq_iff)

lemma serial_unregister:
  assumes ok: "serial_ok K s" and t: "t \<in> set (sy_threads s)" and st: "sy_stack s t = Start (Unregister h) # fs"
    and may: "may_run t (Start (Unregister h)) s" and res: "unregister_start api t h (sy_ioq s) = (fr, q)"
  shows "serial_ok K (s\<lparr>sy_ioq := q, sy_stack := (sy_stack s)(t := fr @ fs), sy_owned := sy_owned s - {h}\<rparr>)"
proof -
  let ?k = "key_of (sy_ioq s) h" and ?T = "set (sy_threads s)"
  have keys: "keys_ok K (s\<lparr>sy_ioq := q, sy_stack := (sy_stack s)(t := fr @ fs), sy_owned := sy_owned s - {h}\<rparr>)"
    by (rule keys_ok_unregister [OF serial_keys_ok [OF ok] t st may res])
  have act: "h \<in> set (iq_active_list (sy_ioq s))" using used_active [OF serial_keys_ok [OF ok] t, of "[]" _ fs h] st by simp
  have "life_ok K (life (sy_ioq s)) (refs s)" using serial_keys_ok [OF ok] by (simp add: keys_ok_def)
  then have h0: "h \<noteq> 0" using act life_okD(2,3) by fastforce
  show ?thesis
  proof (cases "key_closing ?k")
    case True
    then show ?thesis
      by (intro serial_ok_calm [OF ok t st keys]) (use res h0 in \<open>auto simp: unregister_start_def ret_def fields\<close>)
  next
    case False
    then have fr: "fr = [Drain h]" and q: "q = unregister_close api h (sy_ioq s)" using res h0 by (auto simp: unregister_start_def)
    have life: "life q = (case life (sy_ioq s) of (a, clo, fre, cnt, mx, rc, cl) \<Rightarrow> (a, clo, fre, if cnt > 0 then cnt - 1 else cnt, mx, rc, cl(h := True)))"
      by (simp add: q life_unregister_close)
    then have fields: "iq_active_list q = iq_active_list (sy_ioq s)" "\<And>h'. key_closing (key_of q h') = (h' = h \<or> key_closing (key_of (sy_ioq s) h'))"
      by (auto simp: life_def fun_eq_iff)
    have eq: "(case write_view ?k of (l, c, th, cc, on) \<Rightarrow>
       \<lparr>wk_active = h \<in> set (iq_active_list q), wk_closing = key_closing (key_of q h), wk_list = l, wk_cbs = c,
        wk_thread = th, wk_concurrent = cc, wk_on = on, wk_queued = queued (sy_ioq s) h + 0, wk_completed = completed (sy_ioq s) h + 0,
        wk_stack = (wk_stack (wkey s h))(t := filter (about h) fr @ filter (about h) fs)\<rparr>)
      = (wkey s h)\<lparr>wk_closing := True, wk_stack := (wk_stack (wkey s h))(t := Drain h # wk_stack (wkey s h) t)\<rparr>"
      using st fields by (auto simp: fr wk_eq_defs)
    show ?thesis
    proof (rule serial_ok_step [OF ok t st keys, where k = h and v = "write_view ?k" and n = 0 and m = 0])
      show "writes_to h (write_view ?k) 0 0 (sy_ioq s) q" by (rule writes_to_calm) (simp add: q writes_unregister_close)
    next
      show "w_ok ?T h (case write_view ?k of (l, c, th, cc, on) \<Rightarrow>
       \<lparr>wk_active = h \<in> set (iq_active_list q), wk_closing = key_closing (key_of q h), wk_list = l, wk_cbs = c,
        wk_thread = th, wk_concurrent = cc, wk_on = on, wk_queued = queued (sy_ioq s) h + 0, wk_completed = completed (sy_ioq s) h + 0,
        wk_stack = (wk_stack (wkey s h))(t := filter (about h) fr @ filter (about h) fs)\<rparr>)"
        unfolding eq by (rule w_close [OF serial_w_ok [OF ok]]) (use act False t in simp_all)
    qed (auto simp: fr fields)
  qed
qed

lemma serial_drain_own:
  assumes ok: "serial_ok K s" and t: "t \<in> set (sy_threads s)" and st: "sy_stack s t = f # fs" and f: "f = Drain h \<or> f = Drain_Own h"
    and thread: "f = Drain h \<Longrightarrow> key_write_thread (key_of (sy_ioq s) h) = t"
    and res: "drain_own h (sy_ioq s) = (fr, q)"
  shows "serial_ok K (s\<lparr>sy_ioq := q, sy_stack := (sy_stack s)(t := fr @ fs), sy_owned := sy_owned s\<rparr>)"
proof -
  let ?k = "key_of (sy_ioq s) h" and ?T = "set (sy_threads s)"
  have w: "w_ok ?T h (wkey s h)" by (rule serial_w_ok [OF ok])
  have wst: "wk_stack (wkey s h) t = f # filter (about h) fs" using st f by auto
  have quiet: "quiet f (sy_ioq s) (fr, q)" using quiet_drain_own [of f h "sy_ioq s"] f res by auto
  have lok: "life_ok K (life (sy_ioq s)) (refs s)" using serial_keys_ok [OF ok] by (simp add: keys_ok_def)
  have act: "h \<in> set (iq_active_list (sy_ioq s))" using held_active [OF lok t, of h] st f by auto
  have "phase_ok ?T h (wkey s h) t f" by (rule w_phaseD [OF w t wst])
  then have th: "key_write_thread ?k = 0 \<or> key_write_thread ?k = t" using f thread by auto
  show ?thesis
  proof (cases "key_write_cb_list ?k")
    case Nil
    then have fr: "fr = [Cancel h]" "q = sy_ioq s" using res by (auto simp: drain_own_def)
    have eq: "wk_upd (wkey s h) (write_view ?k) 0 0 t (filter (about h) fr @ filter (about h) fs)
        = (wkey s h)\<lparr>wk_stack := (wk_stack (wkey s h))(t := Cancel h # filter (about h) fs)\<rparr>"
      by (auto simp: fr wk_eq_defs)
    have "w_ok ?T h (wk_upd (wkey s h) (write_view ?k) 0 0 t (filter (about h) fr @ filter (about h) fs))"
      unfolding eq
      by (rule w_drain_end [OF w _ t _ wst, where n = 0])
        (use f act th Nil serial_zero [OF ok] serial_tail [OF ok t st] in auto)
    moreover have "writes_to h (write_view ?k) 0 0 (sy_ioq s) q" by (rule writes_to_calm) (simp add: fr)
    ultimately show ?thesis using f by (intro serial_ok_own [OF ok t st quiet, where k = h]) (auto simp: fr)
  next
    case (Cons x xs)
    then have th': "key_write_thread ?k = t" using th w act by (auto simp: w_ok_def w_loop_def)
    have "\<not> drained ?T h (wkey s h)" using Cons by (simp add: drained_def quiesced_def)
    then have on: "on_write_complete (key_cb ?k) \<noteq> 0" using w act by (auto simp: w_ok_def w_null_def)
    then have fr: "fr = [Call_Write h x, Grp_Dec h, Drain_Own h]"
      and q: "q = grp_ref (key_grp_lock ?k) 1 (upd_key h (\<lambda>k. k\<lparr>key_write_cb_list := xs\<rparr>) (sy_ioq s))"
      using res Cons by (auto simp: drain_own_def Let_def upd_key_def grp_ref_def split: if_splits)
    have wr: "writes_to h (case write_view ?k of (l, c, r) \<Rightarrow> (l, xs, r)) 0 0 (sy_ioq s) q"
      by (auto simp: q writes_to_def fields write_view_def queued_def completed_def fun_eq_iff)
    have eq: "wk_upd (wkey s h) (case write_view ?k of (l, c, r) \<Rightarrow> (l, xs, r)) 0 0 t (filter (about h) fr @ filter (about h) fs)
        = (wkey s h)\<lparr>wk_cbs := xs, wk_stack := (wk_stack (wkey s h))(t := Call_Write h x # Drain_Own h # filter (about h) fs)\<rparr>"
      by (auto simp: fr wk_eq_defs)
    have "w_ok ?T h (wk_upd (wkey s h) (case write_view ?k of (l, c, r) \<Rightarrow> (l, xs, r)) 0 0 t (filter (about h) fr @ filter (about h) fs))"
      unfolding eq by (rule w_drain_next [OF w _ t wst f]) (use act th' Cons serial_tail [OF ok t st] in auto)
    then show ?thesis using f by (intro serial_ok_own [OF ok t st quiet wr]) (auto simp: fr)
  qed
qed

lemma serial_held_active:
  "serial_ok K s \<Longrightarrow> t \<in> set (sy_threads s) \<Longrightarrow> sy_stack s t = f # fs \<Longrightarrow> h \<in> set (held f) \<Longrightarrow> h \<in> set (iq_active_list (sy_ioq s))"
  using held_active [of K s t h] serial_keys_ok [of K s] by (simp add: keys_ok_def)

lemma serial_used_active:
  "serial_ok K s \<Longrightarrow> t \<in> set (sy_threads s) \<Longrightarrow> sy_stack s t = f # fs \<Longrightarrow> h \<in> set (used f) \<Longrightarrow> h \<in> set (iq_active_list (sy_ioq s))"
  using used_active [of K s t "[]" f fs h] serial_keys_ok [of K s] by simp

text \<open>A frame of the key's own replaced by another, with no other change.\<close>

lemma serial_ok_frame:
  assumes ok: "serial_ok K s" and t: "t \<in> set (sy_threads s)" and st: "sy_stack s t = f # fs" and f: "about h f"
    and quiet: "quiet f (sy_ioq s) (fr, sy_ioq s)"
    and own: "w_ok (set (sy_threads s)) h ((wkey s h)\<lparr>wk_stack := (wk_stack (wkey s h))(t := filter (about h) fr @ filter (about h) fs)\<rparr>)"
    and fr: "\<And>g. g \<in> set (tl fr) \<Longrightarrow> \<not> calls_write g" "\<And>h'. h' \<noteq> h \<Longrightarrow> filter (about h') fr = []"
  shows "serial_ok K (s\<lparr>sy_ioq := sy_ioq s, sy_stack := (sy_stack s)(t := fr @ fs), sy_owned := sy_owned s\<rparr>)"
proof -
  let ?k = "key_of (sy_ioq s) h"
  have eq: "wk_upd (wkey s h) (write_view ?k) 0 0 t (filter (about h) fr @ filter (about h) fs)
      = (wkey s h)\<lparr>wk_stack := (wk_stack (wkey s h))(t := filter (about h) fr @ filter (about h) fs)\<rparr>"
    by (auto simp: wk_eq_defs)
  have wr: "writes_to h (write_view ?k) 0 0 (sy_ioq s) (sy_ioq s)" by (rule writes_to_calm) simp
  have "\<not> about h' f" if "h' \<noteq> h" for h' using f that by (cases f) auto
  then show ?thesis using own fr unfolding eq [symmetric] by (intro serial_ok_own [OF ok t st quiet wr]) auto
qed

lemma serial_drain_start:
  assumes ok: "serial_ok K s" and t: "t \<in> set (sy_threads s)" and st: "sy_stack s t = Drain h # fs"
    and res: "drain_start t h (sy_ioq s) = (fr, q)"
  shows "serial_ok K (s\<lparr>sy_ioq := q, sy_stack := (sy_stack s)(t := fr @ fs), sy_owned := sy_owned s\<rparr>)"
proof -
  let ?k = "key_of (sy_ioq s) h" and ?T = "set (sy_threads s)"
  have w: "w_ok ?T h (wkey s h)" by (rule serial_w_ok [OF ok])
  have wst: "wk_stack (wkey s h) t = Drain h # filter (about h) fs" using st by simp
  have act: "h \<in> set (iq_active_list (sy_ioq s))" by (rule serial_held_active [OF ok t st]) simp
  consider "key_write_thread ?k = t" | "key_write_thread ?k \<noteq> t" "key_write_thread ?k \<noteq> 0" | "key_write_thread ?k = 0" "t \<noteq> 0"
    using serial_zero [OF ok] t by (cases t) auto
  then show ?thesis
  proof cases
    case 1
    then show ?thesis using serial_drain_own [OF ok t st, of h fr q] res by (simp add: drain_start_def)
  next
    case 2
    then have fr: "fr = [Drain_Wait h 0]" "q = sy_ioq s" using res by (auto simp: drain_start_def)
    show ?thesis unfolding fr
      by (rule serial_ok_frame [OF ok t st]) (use w_drain_wait [OF w _ t wst, of 0 0] in auto)
  next
    case 3
    then have fr: "fr = [Cancel h]" "q = sy_ioq s" using res by (auto simp: drain_start_def)
    have "w_ok ?T h ((wkey s h)\<lparr>wk_stack := (wk_stack (wkey s h))(t := Cancel h # filter (about h) fs)\<rparr>)"
      by (rule w_drain_end [OF w _ t _ wst, where n = 0]) (use act 3 serial_zero [OF ok] serial_tail [OF ok t st] in auto)
    then show ?thesis unfolding fr by (intro serial_ok_frame [OF ok t st]) auto
  qed
qed

lemma serial_drain_wait:
  assumes ok: "serial_ok K s" and t: "t \<in> set (sy_threads s)" and st: "sy_stack s t = Drain_Wait h n # fs" and n: "n < 100"
    and res: "drain_wait h n (sy_ioq s) = (fr, q)"
  shows "serial_ok K (s\<lparr>sy_ioq := q, sy_stack := (sy_stack s)(t := fr @ fs), sy_owned := sy_owned s\<rparr>)"
proof -
  let ?k = "key_of (sy_ioq s) h" and ?T = "set (sy_threads s)"
  have w: "w_ok ?T h (wkey s h)" by (rule serial_w_ok [OF ok])
  have wst: "wk_stack (wkey s h) t = Drain_Wait h n # filter (about h) fs" using st by simp
  have act: "h \<in> set (iq_active_list (sy_ioq s))" by (rule serial_held_active [OF ok t st]) simp
  show ?thesis
  proof (cases "key_write_thread ?k = 0")
    case True
    then have fr: "fr = [Cancel h]" "q = sy_ioq s" using res n by (auto simp: drain_wait_def)
    have "w_ok ?T h ((wkey s h)\<lparr>wk_stack := (wk_stack (wkey s h))(t := Cancel h # filter (about h) fs)\<rparr>)"
      by (rule w_drain_end [OF w _ t _ wst, where n = n]) (use act True serial_zero [OF ok] serial_tail [OF ok t st] in auto)
    then show ?thesis unfolding fr by (intro serial_ok_frame [OF ok t st]) auto
  next
    case False
    then have fr: "fr = [Drain_Wait h (n + 1)]" "q = sy_ioq s" using res n by (auto simp: drain_wait_def)
    show ?thesis unfolding fr
      by (rule serial_ok_frame [OF ok t st]) (use w_drain_wait [OF w _ t wst, of n "n + 1"] in auto)
  qed
qed

lemma serial_cancel:
  assumes ok: "serial_ok K s" and t: "t \<in> set (sy_threads s)" and st: "sy_stack s t = Cancel h # fs"
    and res: "cancel_write t h (sy_ioq s) = (fr, q)"
  shows "serial_ok K (s\<lparr>sy_ioq := q, sy_stack := (sy_stack s)(t := fr @ fs), sy_owned := sy_owned s\<rparr>)"
proof -
  let ?k = "key_of (sy_ioq s) h" and ?T = "set (sy_threads s)"
  have w: "w_ok ?T h (wkey s h)" by (rule serial_w_ok [OF ok])
  have wst: "wk_stack (wkey s h) t = Cancel h # filter (about h) fs" using st by simp
  have act: "h \<in> set (iq_active_list (sy_ioq s))" by (rule serial_held_active [OF ok t st]) simp
  have quiet: "quiet (Cancel h) (sy_ioq s) (fr, q)" using quiet_unregister(4) [of h "sy_ioq s" t] res by simp
  show ?thesis
  proof (cases "key_write_list ?k")
    case Nil
    then have fr: "fr = [Clear_Cb h]" "q = sy_ioq s" using res by (auto simp: cancel_write_def)
    show ?thesis unfolding fr
      by (rule serial_ok_frame [OF ok t st]) (use w_cancel_end [OF w _ t wst] Nil in auto)
  next
    case (Cons x xs)
    have list: "wk_list (wkey s h) = x # xs" using Cons by simp
    note next1 = w_cancel_next [OF w _ t wst _ list]
    have "on_write_complete (key_cb ?k) \<noteq> 0" using next1(1) act by simp
    then have fr: "fr = [App, Grp_Dec h, Cancel h]"
      and q: "q = add_log (Write_Complete t h x (- PJ_ECANCELLED)) (grp_ref (key_grp_lock ?k) 1 (upd_key h (\<lambda>k. k\<lparr>key_write_list := xs\<rparr>) (sy_ioq s)))"
      using res Cons by (auto simp: cancel_write_def Let_def fields split: if_splits)
    have wr: "writes_to h (case write_view ?k of (l, r) \<Rightarrow> (xs, r)) 0 1 (sy_ioq s) q"
      by (auto simp: q writes_to_def fields write_view_def queued_def completed_def fun_eq_iff)
    have eq: "wk_upd (wkey s h) (case write_view ?k of (l, r) \<Rightarrow> (xs, r)) 0 1 t (filter (about h) fr @ filter (about h) fs)
        = (wkey s h)\<lparr>wk_list := xs, wk_completed := Suc (wk_completed (wkey s h))\<rparr>"
      using st by (auto simp: fr wk_eq_defs)
    have "w_ok ?T h (wk_upd (wkey s h) (case write_view ?k of (l, r) \<Rightarrow> (xs, r)) 0 1 t (filter (about h) fr @ filter (about h) fs))"
      unfolding eq using next1(2) act by simp
    then show ?thesis by (rule serial_ok_own [OF ok t st quiet wr]) (auto simp: fr)
  qed
qed

lemma serial_clear:
  assumes ok: "serial_ok K s" and t: "t \<in> set (sy_threads s)" and st: "sy_stack s t = Clear_Cb h # fs"
  shows "serial_ok K (s\<lparr>sy_ioq := clear_callbacks h (sy_ioq s), sy_stack := (sy_stack s)(t := [Dec h] @ fs), sy_owned := sy_owned s\<rparr>)"
proof -
  let ?k = "key_of (sy_ioq s) h" and ?T = "set (sy_threads s)"
  have w: "w_ok ?T h (wkey s h)" by (rule serial_w_ok [OF ok])
  have wst: "wk_stack (wkey s h) t = Clear_Cb h # filter (about h) fs" using st by simp
  have wr: "writes_to h (case write_view ?k of (l, c, th, cc, on) \<Rightarrow> (l, c, th, cc, 0)) 0 0 (sy_ioq s) (clear_callbacks h (sy_ioq s))"
    by (auto simp: clear_callbacks_def writes_to_def fields write_view_def queued_def completed_def fun_eq_iff)
  have eq: "wk_upd (wkey s h) (case write_view ?k of (l, c, th, cc, on) \<Rightarrow> (l, c, th, cc, 0)) 0 0 t (filter (about h) [Dec h] @ filter (about h) fs)
      = (wkey s h)\<lparr>wk_on := 0, wk_stack := (wk_stack (wkey s h))(t := Dec h # filter (about h) fs)\<rparr>"
    by (auto simp: wk_eq_defs)
  have "w_ok ?T h (wk_upd (wkey s h) (case write_view ?k of (l, c, th, cc, on) \<Rightarrow> (l, c, th, cc, 0)) 0 0 t (filter (about h) [Dec h] @ filter (about h) fs))"
    unfolding eq by (rule w_clear [OF w _ t wst]) simp
  then show ?thesis by (rule serial_ok_own [OF ok t st quiet_unregister(5) wr]) auto
qed

end
