(* ===== verification/Pj_Ioqueue_Complete.thy ===== *)
theory Pj_Ioqueue_Complete
  imports Pj_Ioqueue_Serial
begin

text \<open>
  The last steps that concern writes: completions, the end of a key and its registration; and the
  invariant for every run of a queue without concurrent callbacks.
\<close>

section \<open>Completions\<close>

lemma serial_completion:
  assumes ok: "serial_ok K s" and t: "t \<in> set (sy_threads s)" and st: "sy_stack s t = f # fs" and f: "f = Cb_Write h x \<or> f = Call_Write h x"
    and res: "frame_step api t b f (sy_ioq s) = (fr, q)"
  shows "serial_ok K (s\<lparr>sy_ioq := q, sy_stack := (sy_stack s)(t := fr @ fs), sy_owned := sy_owned s\<rparr>)"
proof -
  let ?k = "key_of (sy_ioq s) h" and ?T = "set (sy_threads s)"
  have w: "w_ok ?T h (wkey s h)" by (rule serial_w_ok [OF ok])
  have wst: "wk_stack (wkey s h) t = f # filter (about h) fs" using st f by auto
  have act: "h \<in> set (iq_active_list (sy_ioq s))" by (rule serial_used_active [OF ok t st]) (use f in auto)
  have "\<not> vital f" using f by auto
  then have quiet: "quiet f (sy_ioq s) (fr, q)" using frame_step_quiet [of f "sy_ioq s" api t b] res by simp
  have compl: "completing h f" using f by auto
  note done1 = w_complete [OF w _ t wst compl]
  have "on_write_complete (key_cb ?k) \<noteq> 0" using done1(1) act by simp
  then have fr: "fr = [App]" and q: "q = add_log (Write_Complete t h x (op_written (op_of (sy_ioq s) x))) (sy_ioq s)"
    using res f by (auto simp: cb_write_def)
  have wr: "writes_to h (write_view ?k) 0 1 (sy_ioq s) q"
    by (auto simp: q writes_to_def fields write_view_def queued_def completed_def fun_eq_iff)
  have eq: "wk_upd (wkey s h) (write_view ?k) 0 1 t (filter (about h) fr @ filter (about h) fs)
      = (wkey s h)\<lparr>wk_completed := Suc (wk_completed (wkey s h)), wk_stack := (wk_stack (wkey s h))(t := filter (about h) fs)\<rparr>"
    by (auto simp: fr wk_eq_defs)
  have "w_ok ?T h (wk_upd (wkey s h) (write_view ?k) 0 1 t (filter (about h) fr @ filter (about h) fs))"
    unfolding eq using done1(2) by simp
  then show ?thesis by (rule serial_ok_own [OF ok t st quiet wr]) (use f in \<open>auto simp: fr\<close>)
qed

lemma serial_write_loop:
  assumes ok: "serial_ok K s" and t: "t \<in> set (sy_threads s)" and st: "sy_stack s t = Write_Loop h # fs"
    and res: "ioqueue_dispatch_write_event_no_lock h (sy_ioq s) = (fr, q)"
  shows "serial_ok K (s\<lparr>sy_ioq := q, sy_stack := (sy_stack s)(t := fr @ fs), sy_owned := sy_owned s\<rparr>)"
proof -
  let ?k = "key_of (sy_ioq s) h" and ?T = "set (sy_threads s)"
  have w: "w_ok ?T h (wkey s h)" by (rule serial_w_ok [OF ok])
  have wst: "wk_stack (wkey s h) t = Write_Loop h # filter (about h) fs" using st by simp
  have act: "h \<in> set (iq_active_list (sy_ioq s))" by (rule serial_used_active [OF ok t st]) simp
  have quiet: "quiet (Write_Loop h) (sy_ioq s) (fr, q)" using quiet_callbacks(7) [of h "sy_ioq s"] res by simp
  show ?thesis
  proof (cases "key_write_cb_list ?k")
    case Nil
    then have fr: "fr = []" and q: "q = upd_key h (\<lambda>k. k\<lparr>key_write_thread := 0\<rparr>) (sy_ioq s)"
      using res by (auto simp: ioqueue_dispatch_write_event_no_lock_def)
    have wr: "writes_to h (case write_view ?k of (l, c, th, r) \<Rightarrow> (l, c, 0, r)) 0 0 (sy_ioq s) q"
      by (auto simp: q writes_to_def fields write_view_def queued_def completed_def fun_eq_iff)
    have eq: "wk_upd (wkey s h) (case write_view ?k of (l, c, th, r) \<Rightarrow> (l, c, 0, r)) 0 0 t (filter (about h) fr @ filter (about h) fs)
        = (wkey s h)\<lparr>wk_thread := 0, wk_stack := (wk_stack (wkey s h))(t := filter (about h) fs)\<rparr>"
      by (auto simp: fr wk_eq_defs)
    have "w_ok ?T h (wk_upd (wkey s h) (case write_view ?k of (l, c, th, r) \<Rightarrow> (l, c, 0, r)) 0 0 t (filter (about h) fr @ filter (about h) fs))"
      unfolding eq by (rule w_loop_end [OF w _ t _ wst]) (use act Nil serial_zero [OF ok] serial_tail [OF ok t st] in auto)
    then show ?thesis by (rule serial_ok_own [OF ok t st quiet wr]) (auto simp: fr)
  next
    case (Cons x xs)
    have cbs: "wk_cbs (wkey s h) = x # xs" using Cons by simp
    note next1 = w_loop_next [OF w _ t wst _ cbs]
    have "on_write_complete (key_cb ?k) \<noteq> 0" using next1(1) act by simp
    then have fr: "fr = [Call_Write h x, Write_Loop h]" and q: "q = upd_key h (\<lambda>k. k\<lparr>key_write_cb_list := xs\<rparr>) (sy_ioq s)"
      using res Cons by (auto simp: ioqueue_dispatch_write_event_no_lock_def Let_def fields)
    have wr: "writes_to h (case write_view ?k of (l, c, r) \<Rightarrow> (l, xs, r)) 0 0 (sy_ioq s) q"
      by (auto simp: q writes_to_def fields write_view_def queued_def completed_def fun_eq_iff)
    have eq: "wk_upd (wkey s h) (case write_view ?k of (l, c, r) \<Rightarrow> (l, xs, r)) 0 0 t (filter (about h) fr @ filter (about h) fs)
        = (wkey s h)\<lparr>wk_cbs := xs, wk_stack := (wk_stack (wkey s h))(t := Call_Write h x # Write_Loop h # filter (about h) fs)\<rparr>"
      by (auto simp: fr wk_eq_defs)
    have "w_ok ?T h (wk_upd (wkey s h) (case write_view ?k of (l, c, r) \<Rightarrow> (l, xs, r)) 0 0 t (filter (about h) fr @ filter (about h) fs))"
      unfolding eq using next1(2) act by simp
    then show ?thesis by (rule serial_ok_own [OF ok t st quiet wr]) (auto simp: fr)
  qed
qed

section \<open>The end of a key, and its registration\<close>

lemma decrement_counter_life:
  assumes ok: "keys_ok K s" and t: "t \<in> set (sy_threads s)" and st: "sy_stack s t = f # fs" and h: "h \<in> set (held f)"
    and q: "q = decrement_counter api h (sy_ioq s)"
  shows "key_closing (key_of q h') = key_closing (key_of (sy_ioq s) h')"
    "h' \<noteq> h \<Longrightarrow> h' \<in> set (iq_active_list q) \<longleftrightarrow> h' \<in> set (iq_active_list (sy_ioq s))"
    "h \<in> set (iq_active_list q) \<Longrightarrow> h \<in> set (iq_active_list (sy_ioq s))"
    "h \<notin> set (iq_active_list q) \<Longrightarrow> key_closing (key_of (sy_ioq s) h) \<and> refs s h = 1"
proof -
  have lok: "life_ok K (life (sy_ioq s)) (refs s)" using ok by (simp add: keys_ok_def)
  have act: "h \<in> set (iq_active_list (sy_ioq s))" using held_active [OF lok t, of h] st h by simp
  have pos: "0 < refs s h" using refs_pos [OF t, of h] st h by simp
  have rc: "key_ref_count (key_of (sy_ioq s) h) = (if key_closing (key_of (sy_ioq s) h) then 0 else 1) + int (refs s h)"
    using life_okD(4) [OF lok, of h] life_okD(2) [OF lok] act by auto
  have life: "iq_active_list q = (if key_ref_count (key_of (sy_ioq s) h) - 1 = 0 then remove1 h (iq_active_list (sy_ioq s)) else iq_active_list (sy_ioq s))"
    "(\<lambda>h. key_closing (key_of q h)) = (\<lambda>h. key_closing (key_of (sy_ioq s) h))"
    using life_decrement_counter [of api h "sy_ioq s"] by (auto simp: q life_def split: if_splits)
  show "key_closing (key_of q h') = key_closing (key_of (sy_ioq s) h')" using life(2) by (simp add: fun_eq_iff)
  show "h' \<noteq> h \<Longrightarrow> h' \<in> set (iq_active_list q) \<longleftrightarrow> h' \<in> set (iq_active_list (sy_ioq s))" by (simp add: life(1) in_set_remove1)
  show "h \<in> set (iq_active_list q) \<Longrightarrow> h \<in> set (iq_active_list (sy_ioq s))" by (rule act)
  show "h \<notin> set (iq_active_list q) \<Longrightarrow> key_closing (key_of (sy_ioq s) h) \<and> refs s h = 1"
    using life(1) act rc pos by (auto split: if_splits)
qed

lemma serial_dec:
  assumes ok: "serial_ok K s" and t: "t \<in> set (sy_threads s)" and st: "sy_stack s t = Dec h # fs"
  shows "serial_ok K (s\<lparr>sy_ioq := decrement_counter api h (sy_ioq s), sy_stack := (sy_stack s)(t := [Un_Grp h] @ fs), sy_owned := sy_owned s\<rparr>)"
proof -
  let ?k = "key_of (sy_ioq s) h" and ?T = "set (sy_threads s)" and ?q = "decrement_counter api h (sy_ioq s)"
  have w: "w_ok ?T h (wkey s h)" by (rule serial_w_ok [OF ok])
  have wst: "wk_stack (wkey s h) t = Dec h # filter (about h) fs" using st by simp
  note d = decrement_counter_life [OF serial_keys_ok [OF ok] t st, of h ?q api]
  have keys: "keys_ok K (s\<lparr>sy_ioq := ?q, sy_stack := (sy_stack s)(t := [Un_Grp h] @ fs), sy_owned := sy_owned s\<rparr>)"
    by (rule keys_ok_decrement [OF serial_keys_ok [OF ok] t st]) simp_all
  have eq: "(case write_view ?k of (l, c, th, cc, on) \<Rightarrow>
       \<lparr>wk_active = h \<in> set (iq_active_list ?q), wk_closing = key_closing (key_of ?q h), wk_list = l, wk_cbs = c,
        wk_thread = th, wk_concurrent = cc, wk_on = on, wk_queued = queued (sy_ioq s) h + 0, wk_completed = completed (sy_ioq s) h + 0,
        wk_stack = (wk_stack (wkey s h))(t := filter (about h) [Un_Grp h] @ filter (about h) fs)\<rparr>)
      = (wkey s h)\<lparr>wk_active := h \<in> set (iq_active_list ?q), wk_stack := (wk_stack (wkey s h))(t := filter (about h) fs)\<rparr>"
    using d(1) [of h] by (auto simp: wk_eq_defs)
  show ?thesis
  proof (rule serial_ok_step [OF ok t st keys, where k = h and v = "write_view ?k" and n = 0 and m = 0])
    show "writes_to h (write_view ?k) 0 0 (sy_ioq s) ?q" by (rule writes_to_calm) (simp add: writes_decrement_counter)
  next
    show "w_ok ?T h (case write_view ?k of (l, c, th, cc, on) \<Rightarrow>
       \<lparr>wk_active = h \<in> set (iq_active_list ?q), wk_closing = key_closing (key_of ?q h), wk_list = l, wk_cbs = c,
        wk_thread = th, wk_concurrent = cc, wk_on = on, wk_queued = queued (sy_ioq s) h + 0, wk_completed = completed (sy_ioq s) h + 0,
        wk_stack = (wk_stack (wkey s h))(t := filter (about h) [Un_Grp h] @ filter (about h) fs)\<rparr>)"
      unfolding eq by (rule w_dec [OF w _ t wst]) (use d(3) in auto)
  qed (use d in auto)
qed

lemma refs_two:
  assumes t: "t \<in> set (sy_threads s)" and st: "sy_stack s t = f # fs" and f: "h \<in> set (held f)"
    and u: "u \<in> set (sy_threads s)" and g: "g \<in> set (sy_stack s u)" "h \<in> set (held g)" "g \<noteq> f"
  shows "2 \<le> refs s h"
proof -
  have one: "1 \<le> count_list xs x" if "x \<in> set xs" for xs and x :: nat using that by (induction xs) auto
  have fpos: "1 \<le> count_list (held f) h" by (rule one [OF f])
  show ?thesis
  proof (cases "u = t")
    case True
    then have "h \<in> set (held_by fs)" using g st by (auto simp: held_by_def)
    then have "2 \<le> count_list (held_by (sy_stack s t)) h" using one [of h "held_by fs"] fpos by (simp add: st)
    also have "\<dots> \<le> refs s h" unfolding refs_def by (rule member_le_sum) (use t in auto)
    finally show ?thesis .
  next
    case False
    have "h \<in> set (held_by (sy_stack s u))" using g by (auto simp: held_by_def)
    then have "2 \<le> count_list (held_by (sy_stack s t)) h + count_list (held_by (sy_stack s u)) h"
      using one [of h "held_by (sy_stack s u)"] fpos by (simp add: st)
    also have "\<dots> = (\<Sum>v\<in>{t, u}. count_list (held_by (sy_stack s v)) h)" using False by simp
    also have "\<dots> \<le> refs s h" unfolding refs_def by (rule sum_mono2) (use t u in auto)
    finally show ?thesis .
  qed
qed

lemma unregistering_held: "unregistering h g \<Longrightarrow> h \<in> set (held g)"
  by (cases g) auto

lemma serial_unref:
  assumes ok: "serial_ok K s" and t: "t \<in> set (sy_threads s)" and st: "sy_stack s t = Unref h rest p # fs"
  shows "serial_ok K (s\<lparr>sy_ioq := decrement_counter api h (sy_ioq s), sy_stack := (sy_stack s)(t := [Unref_Grp h rest p] @ fs), sy_owned := sy_owned s\<rparr>)"
proof -
  let ?k = "key_of (sy_ioq s) h" and ?T = "set (sy_threads s)" and ?q = "decrement_counter api h (sy_ioq s)"
  have w: "w_ok ?T h (wkey s h)" by (rule serial_w_ok [OF ok])
  note d = decrement_counter_life [OF serial_keys_ok [OF ok] t st, of h ?q api]
  have act: "h \<in> set (iq_active_list (sy_ioq s))" by (rule serial_held_active [OF ok t st]) simp
  have keys: "keys_ok K (s\<lparr>sy_ioq := ?q, sy_stack := (sy_stack s)(t := [Unref_Grp h rest p] @ fs), sy_owned := sy_owned s\<rparr>)"
    by (rule keys_ok_decrement [OF serial_keys_ok [OF ok] t st]) simp_all
  have eq: "(case write_view ?k of (l, c, th, cc, on) \<Rightarrow>
       \<lparr>wk_active = h \<in> set (iq_active_list ?q), wk_closing = key_closing (key_of ?q h), wk_list = l, wk_cbs = c,
        wk_thread = th, wk_concurrent = cc, wk_on = on, wk_queued = queued (sy_ioq s) h + 0, wk_completed = completed (sy_ioq s) h + 0,
        wk_stack = (wk_stack (wkey s h))(t := filter (about h) [Unref_Grp h rest p] @ filter (about h) fs)\<rparr>)
      = (wkey s h)\<lparr>wk_active := h \<in> set (iq_active_list ?q)\<rparr>"
    using d(1) [of h] st by (auto simp: wk_eq_defs)
  have own: "w_ok ?T h ((wkey s h)\<lparr>wk_active := h \<in> set (iq_active_list ?q)\<rparr>)"
  proof (cases "h \<in> set (iq_active_list ?q)")
    case True
    then have "(wkey s h)\<lparr>wk_active := h \<in> set (iq_active_list ?q)\<rparr> = wkey s h" using act by (simp add: wkey_def Let_def)
    then show ?thesis using w by simp
  next
    case False
    then have last: "key_closing ?k" "refs s h = 1" using d(4) by simp_all
    have "\<not> unregistering h g" if "u \<in> ?T" "g \<in> set (wk_stack (wkey s h) u)" for u g
    proof
      assume un: "unregistering h g"
      then have "g \<noteq> Unref h rest p" by auto
      then show False using refs_two [OF t st _ that(1), of h g] that(2) unregistering_held [OF un] last(2) by simp
    qed
    then show ?thesis using w_inactive [OF w] act last(1) False by simp
  qed
  show ?thesis
  proof (rule serial_ok_step [OF ok t st keys, where k = h and v = "write_view ?k" and n = 0 and m = 0])
    show "writes_to h (write_view ?k) 0 0 (sy_ioq s) ?q" by (rule writes_to_calm) (simp add: writes_decrement_counter)
  next
    show "w_ok ?T h (case write_view ?k of (l, c, th, cc, on) \<Rightarrow>
       \<lparr>wk_active = h \<in> set (iq_active_list ?q), wk_closing = key_closing (key_of ?q h), wk_list = l, wk_cbs = c,
        wk_thread = th, wk_concurrent = cc, wk_on = on, wk_queued = queued (sy_ioq s) h + 0, wk_completed = completed (sy_ioq s) h + 0,
        wk_stack = (wk_stack (wkey s h))(t := filter (about h) [Unref_Grp h rest p] @ filter (about h) fs)\<rparr>)"
      unfolding eq by (rule own)
  qed (use d in auto)
qed

lemma free_keys_default: "iq_default_concurrency (free_keys now hs s) = iq_default_concurrency s"
  by (induction hs arbitrary: s) auto

lemma scan_closing_default: "iq_default_concurrency (scan_closing_keys api s) = iq_default_concurrency s"
  by (simp add: scan_closing_keys_def free_keys_default split: prod.split)

lemma init_key_view:
  "write_view (key_of (ioqueue_init_key api h sock g u cb s) h') =
     (if h' = h then ([], [], 0, iq_default_concurrency s, on_write_complete cb) else write_view (key_of s h'))"
  "io_log (ioqueue_init_key api h sock g u cb s) = io_log s"
  by (auto simp: ioqueue_init_key_def Let_def fields write_view_def split: prod.split)

text \<open>A registration changes the writes of one key, which was not active: if it is now, they are
  empty.\<close>

lemma register_writes:
  assumes ok: "life_ok K (life s) R" and conc: "\<not> iq_default_concurrency s" and cb: "\<And>c. cb = Some c \<Longrightarrow> on_write_complete c \<noteq> 0"
    and reg: "pj_ioqueue_register_sock2 api sock g u cb s = (rc, h, q)"
  obtains k on where "k \<notin> set (iq_active_list s)" "\<forall>h'. h' \<noteq> k \<longrightarrow> (h' \<in> set (iq_active_list q) \<longleftrightarrow> h' \<in> set (iq_active_list s))"
    "\<forall>h'. h' \<noteq> k \<longrightarrow> key_closing (key_of q h') = key_closing (key_of s h')"
    "k \<notin> set (iq_active_list q) \<and> writes_to k (write_view (key_of q k)) 0 0 s q \<or>
     \<not> key_closing (key_of q k) \<and> on \<noteq> 0 \<and> writes_to k ([], [], 0, False, on) 0 0 s q"
proof -
  define s1 where "s1 = scan_closing_keys api s"
  have s1: "life_ok K (life s1) R" "iq_active_list s1 = iq_active_list s" "io_keys s1 = io_keys s" "writes s1 = writes s"
    "\<not> iq_default_concurrency s1"
    using scan_closing_keys_ok [OF ok, of api] conc by (simp_all add: s1_def writes_scan_closing_keys scan_closing_default)
  note reg' = reg [unfolded pj_ioqueue_register_sock2_def Let_def, folded s1_def]
  have zero: "0 \<notin> set (iq_active_list s)" using life_okD(2,3) [OF ok] by auto
  show ?thesis
  proof (cases "q = s \<or> q = s1")
    case True
    then have "writes q = writes s" using s1 by auto
    then have "writes_to 0 (write_view (key_of q 0)) 0 0 s q" using writes_to_calm [of q s 0] by (auto simp: writes_def fun_eq_iff)
    then show ?thesis using zero s1 True by (intro that [of 0]) auto
  next
    case False
    obtain c where c: "cb = Some c" using reg' False by (auto split: option.splits)
    obtain k free where free: "iq_free_list s1 = k # free" using reg' False c by (cases "iq_free_list s1") (auto split: if_splits)
    define s2 where "s2 = ioqueue_init_key api k sock g u c (s1\<lparr>iq_free_list := free\<rparr>)"
    have k: "k \<notin> set (iq_active_list s)" using life_okD(1) [OF s1(1)] by (simp add: s1(2) free)
    have s2: "write_view (key_of s2 h') = (if h' = k then ([], [], 0, False, on_write_complete c) else write_view (key_of s h'))" for h'
      using s1(3,5) by (simp add: s2_def init_key_view)
    have log: "io_log s2 = io_log s1" by (simp add: s2_def init_key_view)
    have cnt: "queued s1 = queued s" "completed s1 = completed s" using s1(4) by (simp_all add: writes_def)
    obtain rc' w where nb: "set_nonblocking api sock (io_world s2) = (rc', w)" by fastforce
    have act2: "iq_active_list s2 = iq_active_list s"
      using life_init_key [of api k sock g u c "s1\<lparr>iq_free_list := free\<rparr>"] by (simp add: s2_def life_def s1(2))
    have cl2: "key_closing (key_of s2 h') = (if h' = k then False else key_closing (key_of s h'))" for h'
      using life_init_key [of api k sock g u c "s1\<lparr>iq_free_list := free\<rparr>"] by (auto simp: s2_def life_def s1(3) fun_eq_iff)
    consider "q = register_failed k (s2\<lparr>io_world := w\<rparr>)"
      | "q = rescan_fdset (s2\<lparr>io_world := w, iq_active_list := iq_active_list s2 @ [k], iq_count := iq_count s2 + 1\<rparr>)"
      using reg' nb False by (auto split: if_splits simp: c free Let_def s2_def)
    then show ?thesis
    proof cases
      case 1
      have "writes_to k (write_view (key_of q k)) 0 0 s q"
        using s2 cnt log by (auto simp: 1 register_failed_def Let_def writes_to_def fields queued_def completed_def fun_eq_iff)
      moreover have "iq_active_list q = iq_active_list s" using act2 by (simp add: 1 register_failed_def Let_def grp_ref_def upd_key_def)
      moreover have "key_closing (key_of q h') = key_closing (key_of s h')" if "h' \<noteq> k" for h'
        using that cl2 by (simp add: 1 register_failed_def Let_def fields)
      ultimately show ?thesis using k by (intro that [of k]) auto
    next
      case 2
      have "writes_to k ([], [], 0, False, on_write_complete c) 0 0 s q"
        using s2 cnt log by (auto simp: 2 rescan_fdset_def writes_to_def queued_def completed_def fun_eq_iff)
      moreover have "iq_active_list q = iq_active_list s @ [k]" using act2 by (simp add: 2 rescan_fdset_def)
      moreover have "key_closing (key_of q h') = (if h' = k then False else key_closing (key_of s h'))" for h'
        using cl2 by (simp add: 2 rescan_fdset_def)
      ultimately show ?thesis using k cb [OF c] by (intro that [of k "on_write_complete c"]) auto
    qed
  qed
qed

text \<open>No thread has a frame of a key that is not active.\<close>

lemma about_active:
  assumes ok: "keys_ok K s" and t: "t \<in> set (sy_threads s)" and g: "g \<in> set (sy_stack s t)" "about h g"
  shows "h \<in> set (iq_active_list (sy_ioq s))"
proof -
  obtain xs ys where st: "sy_stack s t = xs @ g # ys" using g(1) by (auto simp: in_set_conv_decomp)
  have "h \<in> set (used g) \<or> h \<in> set (held g)" using g(2) by (cases g) auto
  then show ?thesis
  proof
    assume "h \<in> set (used g)" then show ?thesis by (rule used_active [OF ok t st])
  next
    assume "h \<in> set (held g)"
    then have "h \<in> set (held_by (sy_stack s t))" by (simp add: st)
    then show ?thesis using held_active [OF _ t] ok by (auto simp: keys_ok_def)
  qed
qed

lemma w_idle:
  assumes ok: "w_ok T h a" and "\<not> wk_active a" "\<not> wk_active a'" "\<And>u. u \<in> T \<Longrightarrow> wk_stack a u = []" "wk_stack a' = wk_stack a"
    "wk_queued a' = wk_queued a" "wk_completed a' = wk_completed a"
  shows "w_ok T h a'"
proof -
  have "flight T h a = 0" "flight T h a' = 0" using assms(4,5) by (simp_all add: flight_def)
  then show ?thesis using assms by (simp add: w_ok_def w_loop_def w_null_def w_left_def w_completing_def w_phase_def w_law_def)
qed

lemma serial_register:
  assumes ok: "serial_ok K s" and t: "t \<in> set (sy_threads s)" and st: "sy_stack s t = Start (Register sock g u cb) # fs"
    and conc: "\<not> iq_default_concurrency (sy_ioq s)" and cb: "\<And>c. cb = Some c \<Longrightarrow> on_write_complete c \<noteq> 0"
    and res: "frame_step api t b (Start (Register sock g u cb)) (sy_ioq s) = (fr, q)"
  shows "serial_ok K (s\<lparr>sy_ioq := q, sy_stack := (sy_stack s)(t := fr @ fs), sy_owned := owned_after api (Start (Register sock g u cb)) s\<rparr>)"
proof -
  let ?T = "set (sy_threads s)"
  have keys: "keys_ok K (s\<lparr>sy_ioq := q, sy_stack := (sy_stack s)(t := fr @ fs), sy_owned := owned_after api (Start (Register sock g u cb)) s\<rparr>)"
    by (rule keys_ok_run [OF serial_keys_ok [OF ok] t st _ res]) (simp add: may_run_def)
  obtain rc h q' where reg: "pj_ioqueue_register_sock2 api sock g u cb (sy_ioq s) = (rc, h, q')" by (metis surj_pair)
  then have fr: "fr = []" and q: "q = add_log (Returned t (Register sock g u cb) rc (int h)) q'" using res by (auto simp: ret_def)
  have lok: "life_ok K (life (sy_ioq s)) (refs s)" using serial_keys_ok [OF ok] by (simp add: keys_ok_def)
  obtain k on where k: "k \<notin> set (iq_active_list (sy_ioq s))"
    and other: "\<forall>h'. h' \<noteq> k \<longrightarrow> (h' \<in> set (iq_active_list q') \<longleftrightarrow> h' \<in> set (iq_active_list (sy_ioq s)))"
      "\<forall>h'. h' \<noteq> k \<longrightarrow> key_closing (key_of q' h') = key_closing (key_of (sy_ioq s) h')"
    and new: "k \<notin> set (iq_active_list q') \<and> writes_to k (write_view (key_of q' k)) 0 0 (sy_ioq s) q' \<or>
      \<not> key_closing (key_of q' k) \<and> on \<noteq> 0 \<and> writes_to k ([], [], 0, False, on) 0 0 (sy_ioq s) q'"
    by (rule register_writes [OF lok conc cb reg])
  define v where "v = (if k \<in> set (iq_active_list q') then ([], [], 0, False, on) else write_view (key_of q' k))"
  have "writes q = writes q'" by (simp add: q)
  then have wr: "writes_to k v 0 0 (sy_ioq s) q"
    using new writes_to_view [of k "([], [], 0, False, on)" 0 0 "sy_ioq s" q'] by (auto simp: v_def writes_to_cong [of q q'])
  have none: "wk_stack (wkey s k) w = []" if "w \<in> ?T" for w
    using about_active [OF serial_keys_ok [OF ok] that] k by (auto simp: filter_empty_conv)
  have w: "w_ok ?T k (wkey s k)" by (rule serial_w_ok [OF ok])
  define a' where "a' = (case v of (l, c, th, cc, on) \<Rightarrow>
       \<lparr>wk_active = k \<in> set (iq_active_list q), wk_closing = key_closing (key_of q k), wk_list = l, wk_cbs = c,
        wk_thread = th, wk_concurrent = cc, wk_on = on, wk_queued = queued (sy_ioq s) k + 0, wk_completed = completed (sy_ioq s) k + 0,
        wk_stack = (wk_stack (wkey s k))(t := filter (about k) fr @ filter (about k) fs)\<rparr>)"
  have st': "wk_stack a' = wk_stack (wkey s k)" using st by (auto simp: a'_def fr fun_eq_iff split: prod.split)
  have fields': "wk_active a' = (k \<in> set (iq_active_list q'))" "wk_closing a' = key_closing (key_of q' k)"
      "wk_queued a' = wk_queued (wkey s k)" "wk_completed a' = wk_completed (wkey s k)"
    by (simp_all add: a'_def q fields split: prod.split)
  have own: "w_ok ?T k a'"
  proof (cases "k \<in> set (iq_active_list q')")
    case True
    then have "\<not> key_closing (key_of q' k)" "on \<noteq> 0" using new by auto
    then show ?thesis
      using True fields' by (intro w_register [OF w _ none serial_zero [OF ok]]) (simp_all add: k st', simp_all add: a'_def v_def)
  next
    case False
    then show ?thesis using k fields' by (intro w_idle [OF w _ _ none st']) simp_all
  qed
  show ?thesis
    by (rule serial_ok_step [OF ok t st keys, where k = k and v = v and n = 0 and m = 0])
      (use own other wr in \<open>auto simp: a'_def fr q fields\<close>)
qed

end
