(* ===== verification/Pj_Ioqueue_Total.thy ===== *)
theory Pj_Ioqueue_Total
  imports Pj_Ioqueue_Complete
begin

text \<open>
  The invariants of the I/O queue over whole runs: a queue that was just created satisfies them
  and every step of every thread keeps them.
\<close>

section \<open>Every step of a serial queue\<close>

lemma calm_poll_dispatch: "e \<noteq> WRITEABLE_EVENT \<Longrightarrow> calm s (poll_dispatch api t b h e rest p s)"
  using calm_dispatch_read_event [of s api t h] calm_dispatch_other(1) [of s h]
  by (cases e) (auto simp: poll_dispatch_def calm_dispatch_def split: prod.split)

lemma frame_step_calm:
  assumes "\<not> vital f" "\<not> write_frame f" "serial_frame f" "errno_ok api"
    "\<And>h x buf len flags to. f \<noteq> Commit (Send h x buf len flags to)" "\<And>h rest p. f \<noteq> Dispatch h WRITEABLE_EVENT rest p"
  shows "calm s (frame_step api t b f s)"
proof (cases f)
  case (Start c) then show ?thesis using assms(1,3) by (cases c) (simp_all add: calm_sections)
next
  case (Check_Op c) then show ?thesis by (cases c) (simp_all add: calm_sections)
next
  case (Check_List c) then show ?thesis by (cases c) (simp_all add: calm_sections)
next
  case (Try c) then show ?thesis using assms(4) by (cases c) (simp_all add: calm_sections calm_send_try)
next
  case (Commit c) then show ?thesis using assms(5) by (cases c) (simp_all add: calm_sections)
next
  case (Finish c) then show ?thesis by (cases c) (simp_all add: send_status)
next
  case (Dispatch h e rest p) then show ?thesis using assms(6) by (auto intro!: calm_poll_dispatch)
qed (use assms(2,3) in \<open>simp_all add: calm_sections del: calm_pair\<close>, simp_all add: writes_decrement_counter)

text \<open>The frames of writing.\<close>

lemma serial_write_frame:
  assumes ok: "serial_ok K s" and t: "t \<in> set (sy_threads s)" and st: "sy_stack s t = f # fs"
    and f: "write_frame f" "serial_frame f" and res: "frame_step api t b f (sy_ioq s) = (fr, q)"
  shows "serial_ok K (s\<lparr>sy_ioq := q, sy_stack := (sy_stack s)(t := fr @ fs), sy_owned := sy_owned s\<rparr>)"
proof (cases f)
  case (Cb_Write h x) then show ?thesis using serial_completion [OF ok t st _ res] by blast
next
  case (Call_Write h x) then show ?thesis using serial_completion [OF ok t st _ res] by blast
next
  case (Write_Loop h) then show ?thesis using serial_write_loop [OF ok t, of h fs fr q] st res by simp
next
  case (Drain h) then show ?thesis using serial_drain_start [OF ok t, of h fs fr q] st res by simp
next
  case (Drain_Own h) then show ?thesis using serial_drain_own [OF ok t, of f fs h fr q] st res by simp
next
  case (Drain_Wait h n) then show ?thesis using serial_drain_wait [OF ok t, of h n fs fr q] st res f by simp
next
  case (Cancel h) then show ?thesis using serial_cancel [OF ok t, of h fs fr q] st res by simp
next
  case (Clear_Cb h) then show ?thesis using serial_clear [OF ok t, of h fs] st res by auto
next
  case (Dec h) then show ?thesis using serial_dec [OF ok t, of h fs api] st res by auto
qed (use f in simp_all)

text \<open>The frames that change the life of a key.\<close>

lemma serial_vital:
  assumes ok: "serial_ok K s" and t: "t \<in> set (sy_threads s)" and st: "sy_stack s t = f # fs" and vital: "vital f"
    and f: "serial_frame f" "\<not> iq_default_concurrency (sy_ioq s)" and may: "may_run t f s"
    and res: "frame_step api t b f (sy_ioq s) = (fr, q)"
  shows "serial_ok K (s\<lparr>sy_ioq := q, sy_stack := (sy_stack s)(t := fr @ fs), sy_owned := owned_after api f s\<rparr>)"
proof -
  have keys: "keys_ok K (s\<lparr>sy_ioq := q, sy_stack := (sy_stack s)(t := fr @ fs), sy_owned := owned_after api f s\<rparr>)"
    by (rule keys_ok_run [OF serial_keys_ok [OF ok] t st may res])
  have lok: "life_ok K (life (sy_ioq s)) (refs s)" using serial_keys_ok [OF ok] by (simp add: keys_ok_def)
  from vital consider (Unregister) h where "f = Start (Unregister h)"
    | (Register) sock g u cb where "f = Start (Register sock g u cb)"
    | (Poll) timeout where "f = Start (Poll timeout)" | (Scan) r w x where "f = Scan r w x"
    | (Dec) h where "f = Dec h" | (Unref) h rest p where "f = Unref h rest p"
    by (cases f rule: vital.cases) auto
  then show ?thesis
  proof cases
    case Unregister
    then show ?thesis using serial_unregister [OF ok t, of h fs api fr q] st may res by (simp add: owned_after_def)
  next
    case Register
    then show ?thesis using serial_register [OF ok t, of sock g u cb fs api b fr q] st f res by (simp split: option.splits)
  next
    case Poll
    have "calm (sy_ioq s) (fr, q)" using calm_poll(1) [of "sy_ioq s" api t timeout] res by (simp add: Poll)
    moreover have "iq_active_list q = iq_active_list (sy_ioq s)" "io_keys q = io_keys (sy_ioq s)"
      using res scan_closing_keys_ok [OF lok, of api] by (auto simp: Poll poll_start_def ret_def fields split: if_splits)
    ultimately show ?thesis by (intro serial_ok_calm [OF ok t st keys]) (simp_all add: Poll)
  next
    case Scan
    have "calm (sy_ioq s) (fr, q)" using calm_poll(3) [of "sy_ioq s" r w x] res by (simp add: Scan)
    moreover obtain evs where "iq_active_list q = iq_active_list (sy_ioq s)" "\<And>h. key_closing (key_of q h) = key_closing (key_of (sy_ioq s) h)"
      using poll_scan_ok [OF lok, of r w x fr q] res Scan by auto
    ultimately show ?thesis by (intro serial_ok_calm [OF ok t st keys]) (simp_all add: Scan)
  next
    case Dec
    then show ?thesis using serial_dec [OF ok t, of h fs api] st res by (auto simp: owned_after_same)
  next
    case Unref
    then show ?thesis using serial_unref [OF ok t, of h rest p fs api] st res by (auto simp: owned_after_same)
  qed
qed

lemma serial_run:
  assumes ok: "serial_ok K s" and t: "t \<in> set (sy_threads s)" and st: "sy_stack s t = f # fs"
    and f: "serial_frame f" "\<not> iq_default_concurrency (sy_ioq s)" and may: "may_run t f s" and api: "errno_ok api"
    and res: "frame_step api t b f (sy_ioq s) = (fr, q)"
  shows "serial_ok K (s\<lparr>sy_ioq := q, sy_stack := (sy_stack s)(t := fr @ fs), sy_owned := owned_after api f s\<rparr>)"
proof (cases "vital f")
  case True
  show ?thesis by (rule serial_vital [OF ok t st True f may res])
next
  case False
  then have own: "owned_after api f s = sy_owned s" by (intro owned_after_same) auto
  have quiet: "quiet f (sy_ioq s) (fr, q)" using frame_step_quiet [OF False, of "sy_ioq s" api t b] res by simp
  consider "write_frame f" | h x buf len flags to where "f = Commit (Send h x buf len flags to)"
    | h rest p where "f = Dispatch h WRITEABLE_EVENT rest p" | "\<not> write_frame f" "calm (sy_ioq s) (fr, q)"
    using frame_step_calm [OF False _ f(1) api, of "sy_ioq s" t b] res by metis
  then show ?thesis unfolding own
  proof cases
    case 1
    then show "serial_ok K (s\<lparr>sy_ioq := q, sy_stack := (sy_stack s)(t := fr @ fs), sy_owned := sy_owned s\<rparr>)"
      by (rule serial_write_frame [OF ok t st _ f(1) res])
  next
    case 2
    then show "serial_ok K (s\<lparr>sy_ioq := q, sy_stack := (sy_stack s)(t := fr @ fs), sy_owned := sy_owned s\<rparr>)"
      using serial_send_commit [OF ok t] st res by simp
  next
    case 3
    then show "serial_ok K (s\<lparr>sy_ioq := q, sy_stack := (sy_stack s)(t := fr @ fs), sy_owned := sy_owned s\<rparr>)"
      using serial_dispatch_write [OF ok t] st res by simp
  next
    case 4
    then show "serial_ok K (s\<lparr>sy_ioq := q, sy_stack := (sy_stack s)(t := fr @ fs), sy_owned := sy_owned s\<rparr>)"
      by (rule serial_ok_quiet_calm [OF ok t st quiet])
  qed
qed

text \<open>A call or a return moves a frame that does not concern writes.\<close>

lemma serial_stack:
  assumes ok: "serial_ok K s" and keys: "keys_ok K (s\<lparr>sy_stack := (sy_stack s)(t := st)\<rparr>)"
    and st: "\<And>h. filter (about h) st = filter (about h) (sy_stack s t)" "\<And>f. f \<in> set (tl st) \<Longrightarrow> f \<in> set (tl (sy_stack s t))"
  shows "serial_ok K (s\<lparr>sy_stack := (sy_stack s)(t := st)\<rparr>)" (is "serial_ok K ?s")
proof -
  have "wkey ?s h = wkey s h" for h using st(1) by (simp add: wkey_def Let_def fun_eq_iff)
  moreover have "tails_ok ?s" using ok st(2) by (auto simp: serial_ok_def tails_ok_def)
  ultimately show ?thesis using ok keys by (simp add: serial_ok_def)
qed

lemma serial_io_step:
  assumes ok: "serial_ok K s" and use: "serial_use t a s" and api: "errno_ok api" and step: "io_step api t a s = Some s'"
  shows "serial_ok K s'"
proof -
  have keys: "keys_ok K s'" by (rule keys_ok_io_step [OF serial_keys_ok [OF ok] step])
  from step show ?thesis
  proof (cases rule: io_step_cases)
    case (Call c fs)
    have "\<not> calls_write f" if "f \<in> set fs" for f using that ok Call(2,3) by (auto simp: serial_ok_def tails_ok_def)
    then have "tails_ok s'" using ok by (auto simp: Call(5) serial_ok_def tails_ok_def)
    moreover have "wkey s' h = wkey s h" for h using Call(3) by (auto simp: Call(5) wkey_def Let_def fun_eq_iff)
    ultimately show ?thesis using ok keys by (simp add: serial_ok_def Call(5))
  next
    case (Return f fs)
    show ?thesis unfolding Return(4)
      by (rule serial_stack [OF ok]) (use keys Return in \<open>auto dest: list.set_sel(2) split: if_splits\<close>)
  next
    case (Run b f fs fr q)
    then show ?thesis using use serial_run [OF ok Run(2,3) _ _ Run(5) api Run(6)] by (simp add: serial_use_def)
  qed
qed

interpretation serial: io_invariant api serial_use "\<lambda>s. errno_ok api \<and> serial_ok K s" for api K
  by unfold_locales (auto intro: serial_io_step)

end
