(* ===== verification/Pj_Ioqueue_Props.thy ===== *)
theory Pj_Ioqueue_Props
  imports Pj_Ioqueue_Total
begin

text \<open>
  What the I/O queue promises, over every interleaving of the threads that use it.
\<close>

section \<open>A queue that was just created\<close>

lemma create_keys_state:
  assumes "create_keys L hs s = (PJ_SUCCESS, s')"
  shows "iq_free_list s' = iq_free_list s @ hs \<and> iq_active_list s' = iq_active_list s \<and> iq_closing_list s' = iq_closing_list s \<and>
    iq_count s' = iq_count s \<and> iq_max s' = iq_max s \<and> io_log s' = io_log s \<and>
    (\<forall>h. key_ref_count (key_of s' h) = (if h \<in> set hs then 0 else key_ref_count (key_of s h)))"
  using assms
proof (induction hs arbitrary: s)
  case (Cons h hs)
  define s1 where "s1 = upd_key h (\<lambda>k. k\<lparr>key_ref_count := 0\<rparr>) s"
  obtain rc w where lock: "key_lock_create L h (io_world s1) = (rc, w)" by fastforce
  have "create_keys L hs (s1\<lparr>io_world := w, iq_free_list := iq_free_list s1 @ [h]\<rparr>) = (PJ_SUCCESS, s')"
    using Cons.prems lock by (auto simp: Let_def s1_def [symmetric] split: if_splits)
  note st = Cons.IH [OF this]
  have "key_ref_count (key_of s1 h') = (if h' = h then 0 else key_ref_count (key_of s h'))" for h' by (simp add: s1_def upd_key_def)
  with st show ?case by (simp add: s1_def upd_key_def)
qed simp

lemma create2_state:
  assumes "pj_ioqueue_create2 L keys cfg q0 = (PJ_SUCCESS, q)"
  shows "iq_free_list q = keys" "iq_active_list q = []" "iq_closing_list q = []" "iq_count q = 0" "iq_max q = int (length keys)"
    "io_log q = io_log q0" "h \<in> set keys \<Longrightarrow> key_ref_count (key_of q h) = 0"
proof -
  let ?s = "rescan_fdset (q0\<lparr>iq_default_concurrency := (case cfg of Some c \<Rightarrow> c | None \<Rightarrow> True),
      iq_max := int (length keys), iq_count := 0,
      iq_rfdset := PJ_FD_ZERO, iq_wfdset := PJ_FD_ZERO, iq_xfdset := PJ_FD_ZERO, iq_active_list := []\<rparr>)"
  obtain rc w where mutex: "ref_cnt_mutex_create L (io_world ?s) = (rc, w)" by fastforce
  obtain rc' q1 where keys: "create_keys L keys (?s\<lparr>io_world := w, iq_free_list := [], iq_closing_list := []\<rparr>) = (rc', q1)" by fastforce
  have "PJ_EINVAL \<noteq> PJ_SUCCESS" by (simp add: pj_status)
  then have rc': "rc' = PJ_SUCCESS" and q: "\<exists>w. q = q1\<lparr>io_world := w\<rparr>"
    using assms mutex keys by (auto simp: pj_ioqueue_create2_def Let_def split: if_splits prod.splits)
  note st = create_keys_state [OF keys [unfolded rc']]
  show "iq_free_list q = keys" "iq_active_list q = []" "iq_closing_list q = []" "iq_count q = 0" "iq_max q = int (length keys)"
    "io_log q = io_log q0" "h \<in> set keys \<Longrightarrow> key_ref_count (key_of q h) = 0"
    using st q by (auto simp: rescan_fdset_def)
qed

lemma keys_ok_start:
  assumes create: "pj_ioqueue_create2 L keys cfg q0 = (PJ_SUCCESS, q)" and keys: "distinct keys" "0 \<notin> set keys"
  shows "keys_ok (set keys) (io_start threads q)"
proof -
  have "life_ok (set keys) (life q) (\<lambda>_. 0)"
    using create2_state [OF create] keys by (simp add: life_ok.simps life_def distinct_card)
  moreover have "refs (io_start threads q) = (\<lambda>_. 0)" by (simp add: refs_def io_start_def fun_eq_iff)
  ultimately show ?thesis by (simp add: keys_ok_def owned_ok_def stacks_ok_def) (simp add: io_start_def)
qed


section \<open>Properties\<close>

lemma keys_ok_exec:
  assumes "pj_ioqueue_create2 L keys cfg q0 = (PJ_SUCCESS, q)" "distinct keys" "0 \<notin> set keys"
    "io_exec api as (io_start threads q) = Some s"
  shows "keys_ok (set keys) s"
  by (rule keys.exec [OF assms(4) allowed_True keys_ok_start [OF assms(1-3)]])

interpretation threads: io_invariant api "\<lambda>_ _ _. True" "\<lambda>s. sy_threads s = threads" for api threads
proof
  fix s s' :: "'a io_sys" and t a
  assume "sy_threads s = threads" "io_step api t a s = Some s'"
  from this(2,1) show "sy_threads s' = threads" by (cases rule: io_step_cases) auto
qed







section \<open>Polling and the delay of closed keys\<close>

text \<open>The events of a key, as a list.\<close>

definition key_events :: "pj_fd_set_t \<Rightarrow> pj_fd_set_t \<Rightarrow> pj_fd_set_t \<Rightarrow> 'w pj_ioqueue_t \<Rightarrow> nat \<Rightarrow> (nat \<times> ioqueue_event_type) list" where
  "key_events r w x s h =
     (let k = key_of s h
      in if key_fd k = PJ_INVALID_SOCKET \<or> key_closing k then []
         else map (Pair h)
           ((if (key_has_pending_write k \<or> key_has_pending_connect k) \<and> PJ_FD_ISSET (key_fd k) w then [WRITEABLE_EVENT] else []) @
            (if (key_has_pending_read k \<or> key_has_pending_accept k) \<and> PJ_FD_ISSET (key_fd k) r then [READABLE_EVENT] else []) @
            (if key_has_pending_connect k \<and> PJ_FD_ISSET (key_fd k) x then [EXCEPTION_EVENT] else [])))"

text \<open>Taking references leaves everything else of the keys alone.\<close>

definition referenced :: "(nat \<times> ioqueue_event_type) list \<Rightarrow> 'w pj_ioqueue_t \<Rightarrow> 'w pj_ioqueue_t" where
  "referenced evs s = s\<lparr>io_keys := (\<lambda>h. (key_of s h)\<lparr>key_ref_count := key_ref_count (key_of s h) + int (count_list (map fst evs) h)\<rparr>)\<rparr>"

lemma referenced_Nil [simp]: "referenced [] s = s"
  by (simp add: referenced_def)

lemma referenced_fields [simp]:
  "key_fd (key_of (referenced evs s) h) = key_fd (key_of s h)"
  "key_closing (key_of (referenced evs s) h) = key_closing (key_of s h)"
  "key_has_pending_write (key_of (referenced evs s) h) = key_has_pending_write (key_of s h)"
  "key_has_pending_read (key_of (referenced evs s) h) = key_has_pending_read (key_of s h)"
  "key_has_pending_accept (key_of (referenced evs s) h) = key_has_pending_accept (key_of s h)"
  "key_has_pending_connect (key_of (referenced evs s) h) = key_has_pending_connect (key_of s h)"
  by (simp_all add: referenced_def key_has_pending_write_def key_has_pending_read_def key_has_pending_accept_def key_has_pending_connect_def)

lemma increment_referenced: "increment_counter h (referenced evs s) = referenced (evs @ [(h, e)]) s"
  by (auto simp: increment_counter_def upd_key_def referenced_def fun_eq_iff)

lemma add_event_take:
  assumes "evs = take 16 es"
  shows "add_event c h e (evs, referenced evs s) =
    (let evs' = take 16 (es @ (if c \<and> \<not> key_closing (key_of s h) then [(h, e)] else [])) in (evs', referenced evs' s))"
proof (cases "length es < 16")
  case True
  with assms show ?thesis
    by (auto simp: add_event_def PJ_IOQUEUE_MAX_CAND_EVENTS_def Let_def increment_referenced)
next
  case False
  with assms show ?thesis by (auto simp: add_event_def PJ_IOQUEUE_MAX_CAND_EVENTS_def Let_def)
qed

lemma scan_key_take:
  assumes evs: "evs = take 16 es"
  shows "scan_key r w x h (evs, referenced evs s) =
    (let evs' = take 16 (es @ key_events r w x s h) in (evs', referenced evs' s))"
proof (cases "key_fd (key_of s h) = PJ_INVALID_SOCKET")
  case True
  then show ?thesis using evs by (simp add: scan_key_def key_events_def Let_def)
next
  case False
  let ?k = "key_of s h" and ?opt = "\<lambda>c e. if c \<and> \<not> key_closing (key_of s h) then [(h, e)] else []"
  define W where "W = ?opt ((key_has_pending_write ?k \<or> key_has_pending_connect ?k) \<and> PJ_FD_ISSET (key_fd ?k) w) WRITEABLE_EVENT"
  define R where "R = ?opt ((key_has_pending_read ?k \<or> key_has_pending_accept ?k) \<and> PJ_FD_ISSET (key_fd ?k) r) READABLE_EVENT"
  define X where "X = ?opt (key_has_pending_connect ?k \<and> PJ_FD_ISSET (key_fd ?k) x) EXCEPTION_EVENT"
  note step = add_event_take [OF refl, of _ h _ _ s, unfolded Let_def]
  have "scan_key r w x h (evs, referenced evs s) = (take 16 (((es @ W) @ R) @ X), referenced (take 16 (((es @ W) @ R) @ X)) s)"
    using False unfolding evs scan_key_def Let_def W_def R_def X_def by (simp only: snd_conv referenced_fields if_False step)
  moreover have "key_events r w x s h = W @ R @ X" using False by (simp add: key_events_def W_def R_def X_def Let_def)
  ultimately show ?thesis by (simp add: Let_def)
qed

lemma scan_keys_take:
  assumes "evs = take 16 es"
  shows "scan_keys r w x hs (evs, referenced evs s) =
    (let evs' = take 16 (es @ concat (map (key_events r w x s) hs)) in (evs', referenced evs' s))"
  using assms
proof (induction hs arbitrary: evs es)
  case (Cons h hs)
  show ?case
  proof (cases "length es < 16")
    case True
    have step: "scan_key r w x h (evs, referenced evs s) =
        (take 16 (es @ key_events r w x s h), referenced (take 16 (es @ key_events r w x s h)) s)"
      using scan_key_take [OF Cons.prems] by (simp add: Let_def)
    have len: "length evs < PJ_IOQUEUE_MAX_CAND_EVENTS" using True Cons.prems by (simp add: PJ_IOQUEUE_MAX_CAND_EVENTS_def)
    show ?thesis using Cons.IH [OF refl, of "es @ key_events r w x s h"] len by (simp add: step)
  next
    case False
    then show ?thesis using Cons.prems by (simp add: PJ_IOQUEUE_MAX_CAND_EVENTS_def Let_def)
  qed
qed (simp add: Let_def)

text \<open>C28: A poll takes up exactly the events that are there: for the active keys in order, each that
  is not closing, the events its pending operations wait for and \<^verbatim>\<open>select\<close> reported, writing before
  reading before exceptions, sixteen at most; and each of them takes one reference of its key.\<close>

theorem ioqueue_poll_scan_exact:
  "\<exists>q. poll_scan r w x s = ([Events (take 16 (concat (map (key_events r w x s) (iq_active_list s)))) 0], q) \<and>
     (\<forall>h. key_ref_count (key_of q h) = key_ref_count (key_of s h) +
        int (count_list (map fst (take 16 (concat (map (key_events r w x s) (iq_active_list s))))) h))"
proof -
  define evs where "evs = take 16 (concat (map (key_events r w x s) (iq_active_list s)))"
  have "scan_keys r w x (iq_active_list s) ([], s) = (evs, referenced evs s)"
    using scan_keys_take [of "[]" "[]" r w x "iq_active_list s" s] by (simp add: evs_def Let_def)
  then have scan: "poll_scan r w x s =
      ([Events evs 0], fold (\<lambda>(h, _) s. grp_ref (key_grp_lock (key_of s h)) 1 s) evs (referenced evs s))"
    by (simp add: poll_scan_def)
  have "io_keys (fold (\<lambda>(h, _) s. grp_ref (key_grp_lock (key_of s h)) 1 s) xs s') = io_keys s'"
    for xs :: "(nat \<times> ioqueue_event_type) list" and s' :: "'a pj_ioqueue_t"
    by (induction xs arbitrary: s') (auto simp: fields)
  then show ?thesis unfolding scan by (simp add: referenced_def evs_def)
qed

lemma free_keys_filter:
  assumes "distinct (hs @ ks)" "iq_closing_list s = ks @ hs"
  shows "iq_closing_list (free_keys now hs s) = ks @ filter (\<lambda>h. \<not> PJ_TIME_VAL_GTE now (key_free_time (key_of s h))) hs \<and>
    iq_free_list (free_keys now hs s) = iq_free_list s @ filter (\<lambda>h. PJ_TIME_VAL_GTE now (key_free_time (key_of s h))) hs"
  using assms
proof (induction hs arbitrary: s ks)
  case (Cons h hs)
  show ?case
  proof (cases "PJ_TIME_VAL_GTE now (key_free_time (key_of s h))")
    case True
    let ?s = "s\<lparr>iq_closing_list := ks @ hs, iq_free_list := iq_free_list s @ [h]\<rparr>"
    have "remove1 h (iq_closing_list s) = ks @ hs" using Cons.prems by (simp add: remove1_append)
    then show ?thesis using Cons.IH [of ks ?s] Cons.prems True by (simp add: Cons.prems(2))
  next
    case False
    then show ?thesis using Cons.IH [of "ks @ [h]" s] Cons.prems by simp
  qed
qed simp

lemma decrement_last:
  assumes "key_ref_count (key_of s h) = 1" "gettickcount api (io_world s) = (now, w)"
  shows "iq_active_list (decrement_counter api h s) = remove1 h (iq_active_list s)"
    "iq_closing_list (decrement_counter api h s) = iq_closing_list s @ [h]"
    "iq_free_list (decrement_counter api h s) = iq_free_list s"
    "key_free_time (key_of (decrement_counter api h s) h') =
       (if h' = h then pj_time_val_normalize (Time_Val (tv_sec now) (tv_msec now + 500)) else key_free_time (key_of s h'))"
  using assms by (simp_all add: decrement_counter_def upd_key_def rescan_fdset_def Let_def PJ_IOQUEUE_KEY_FREE_DELAY_def)

text \<open>A key is reused after its delay only. Dropping the last reference of a key takes it off the
  active list; a scan of the closing keys that follows, at any time, moves to the free list exactly
  the keys whose time has come, in order, and the key itself exactly when half a second has passed.\<close>

theorem ioqueue_key_reuse_delay:
  assumes create: "pj_ioqueue_create2 L keys cfg q0 = (PJ_SUCCESS, q)" "distinct keys" "0 \<notin> set keys"
    and run: "io_exec api as (io_start threads q) = Some s"
    and last: "h \<in> set (iq_active_list (sy_ioq s))" "key_ref_count (key_of (sy_ioq s) h) = 1"
    and dec: "decrement_counter api h (sy_ioq s) = q1" and time: "gettickcount api (io_world (sy_ioq s)) = (now, w)"
    and scan: "gettickcount api w1 = (later, w2)" "normalized later" "scan_closing_keys api (q1\<lparr>io_world := w1\<rparr>) = q2"
  shows "h \<notin> set (iq_active_list q1) \<and> h \<in> set (iq_closing_list q1)
    \<and> iq_closing_list q2 = filter (\<lambda>h. PJ_TIME_VAL_LT later (key_free_time (key_of q1 h))) (iq_closing_list q1)
    \<and> iq_free_list q2 = iq_free_list q1 @ filter (\<lambda>h. PJ_TIME_VAL_GTE later (key_free_time (key_of q1 h))) (iq_closing_list q1)
    \<and> (h \<in> set (iq_free_list q2) \<longleftrightarrow> PJ_TIME_VAL_MSEC now + 500 \<le> PJ_TIME_VAL_MSEC later)"
proof -
  have "life_ok (set keys) (life (sy_ioq s)) (refs s)" using keys_ok_exec [OF create run] by (simp add: keys_ok_def)
  note dist = life_okD(1) [OF this]
  note q1 = decrement_last [OF last(2) time, unfolded dec]
  have h: "h \<notin> set (iq_closing_list (sy_ioq s))" "h \<notin> set (iq_free_list (sy_ioq s))" "h \<notin> set (iq_active_list q1)"
    using dist last(1) q1(1) by auto
  have "distinct (iq_closing_list q1)" using dist h by (simp add: q1)
  note lists = free_keys_filter [of "iq_closing_list q1" "[]" "q1\<lparr>io_world := w2\<rparr>" later]
  have "iq_closing_list q2 = filter (\<lambda>h. PJ_TIME_VAL_LT later (key_free_time (key_of q1 h))) (iq_closing_list q1)"
    "iq_free_list q2 = iq_free_list q1 @ filter (\<lambda>h. PJ_TIME_VAL_GTE later (key_free_time (key_of q1 h))) (iq_closing_list q1)"
    using lists \<open>distinct (iq_closing_list q1)\<close> scan(1,3) by (auto simp: scan_closing_keys_def not_le)
  moreover from this have "h \<in> set (iq_free_list q2) \<longleftrightarrow> \<not> later < key_free_time (key_of q1 h)" using h(2) q1(2,3) by (auto simp: not_less)
  moreover have "later < key_free_time (key_of q1 h) \<longleftrightarrow> PJ_TIME_VAL_MSEC later < PJ_TIME_VAL_MSEC now + 500"
    using scan(2) by (simp add: q1(4) normalized_less_iff pj_time_val_normalize_msec) (simp add: PJ_TIME_VAL_MSEC_def algebra_simps)
  ultimately show ?thesis using h(3) q1(2) by (auto simp: not_less)
qed

section \<open>A run\<close>

text \<open>A small system to run the queue on: the state is the list of the results of the next calls of
  \<^verbatim>\<open>send\<close>; every descriptor is ready; the clock shows their number in seconds.\<close>

definition demo_api :: "int list sock_api" where
  "demo_api = \<lparr>
     bsd_close = (\<lambda>fd w. (0, w)), bsd_getsockname = (\<lambda>fd a l w. (0, w)),
     bsd_send = (\<lambda>fd buf len flags w. case w of [] \<Rightarrow> (len, []) | n # w \<Rightarrow> (n, w)),
     bsd_sendto = (\<lambda>fd buf len flags a al w. (len, w)),
     bsd_recv = (\<lambda>fd buf len flags w. (-1, w)), bsd_recvfrom = (\<lambda>fd buf len flags a al w. (-1, w)),
     bsd_read = (\<lambda>fd buf len w. (-1, w)), bsd_getsockopt = (\<lambda>fd opt w. (0, 1, w)),
     bsd_connect = (\<lambda>fd a l w. (0, w)), bsd_accept = (\<lambda>fd a l w. (-1, w)),
     bsd_select = (\<lambda>n r w x timeout wd. (1, r, w, x, wd)),
     fcntl_getfl = (\<lambda>fd w. (0, w)), fcntl_setfl_nonblock = (\<lambda>fd fl w. (0, w)),
     net_errno = (\<lambda>w. 11), gettickcount = (\<lambda>w. (Time_Val (int (length w)) 0, w)),
     MSG_NOSIGNAL = 0, SOCK_STREAM = 1, SOCK_DGRAM = 2, EWOULDBLOCK = 11, EINPROGRESS = 115,
     FD_SETSIZE = 64, sizeof_fd_set = 8, sizeof_pj_sockaddr = 28\<rparr>"

definition demo_locks :: "'w ioqueue_locks" where
  "demo_locks = \<lparr>key_lock_create = (\<lambda>h w. (PJ_SUCCESS, w)), key_lock_destroy = (\<lambda>h w. w),
     ref_cnt_mutex_create = (\<lambda>w. (PJ_SUCCESS, w)), ref_cnt_mutex_destroy = (\<lambda>w. w),
     ioq_lock_create = (\<lambda>w. (PJ_SUCCESS, w)), ioq_lock_acquire = (\<lambda>w. w), ioq_lock_release = (\<lambda>w. w),
     ioq_lock_destroy = (\<lambda>w. (PJ_SUCCESS, w))\<rparr>"

definition demo_key :: pj_ioqueue_key_t where
  "demo_key = \<lparr>key_grp_lock = 0, key_closing = False, key_read_thread = 0, key_write_thread = 0, key_concurrent = False,
     key_fd = 0, key_fd_type = 0, key_user_data = 0,
     key_cb = \<lparr>on_read_complete = 0, on_write_complete = 0, on_accept_complete = 0, on_connect_complete = 0\<rparr>,
     key_connecting = False, key_read_list = [], key_write_list = [], key_accept_list = [], key_read_cb_list = [],
     key_write_cb_list = [], key_ref_count = 7, key_free_time = Time_Val 0 0\<rparr>"

definition demo_op :: operation_key where
  "demo_op = \<lparr>op_op = PJ_IOQUEUE_OP_NONE, op_buf = 0, op_size = 0, op_flags = 0, op_rmt_addr = 0, op_rmt_addrlen = 0,
     op_bytes_read = 0, op_written = 0, op_accept_fd = 0, op_local_addr = 0, op_addrlen = 0\<rparr>"

text \<open>Memory before the queue is created.\<close>

definition demo_memory :: "int list \<Rightarrow> int list pj_ioqueue_t" where
  "demo_memory w = \<lparr>iq_max = 0, iq_count = 0, iq_nfds = 0, iq_default_concurrency = True, iq_active_list = [], iq_closing_list = [],
     iq_free_list = [], iq_rfdset = PJ_FD_ZERO, iq_wfdset = PJ_FD_ZERO, iq_xfdset = PJ_FD_ZERO,
     io_keys = (\<lambda>_. demo_key), io_ops = (\<lambda>_. demo_op), io_socks = (\<lambda>_. 0), io_grp_refs = (\<lambda>_. 0), io_world = w, io_log = []\<rparr>"

definition demo_cb :: pj_ioqueue_callback where
  "demo_cb = \<lparr>on_read_complete = 1, on_write_complete = 2, on_accept_complete = 0, on_connect_complete = 0\<rparr>"

definition demo_queue :: "bool \<Rightarrow> int list \<Rightarrow> int list pj_ioqueue_t" where
  "demo_queue concurrent w = snd (pj_ioqueue_create2 demo_locks [1, 2] (Some concurrent) (demo_memory w))"

text \<open>Thread 1 registers a socket, and queues two writes as the socket takes nothing; thread 2 polls, and
  thread 1 unregisters the key while thread 2 is in the completion of the first.\<close>

abbreviation run_n :: "nat \<Rightarrow> nat \<Rightarrow> (nat \<times> io_act) list" where
  "run_n t n \<equiv> replicate n (t, Run True)"

definition demo_acts :: "(nat \<times> io_act) list" where
  "demo_acts =
     [(1, Call (Register 5 0 0 (Some demo_cb)))] @ run_n 1 1 @
     [(1, Call (Send 1 10 100 4 0 None))] @ run_n 1 6 @ [(1, Call (Send 1 11 200 4 0 None))] @ run_n 1 5 @
     [(2, Call (Poll None))] @ run_n 2 6 @
     [(1, Call (Unregister 1))] @ run_n 1 2 @ [(2, Return)] @ run_n 2 4 @ run_n 1 2 @ [(1, Return)] @ run_n 1 5"

lemma demo_create: "pj_ioqueue_create2 demo_locks [1, 2] (Some c) (demo_memory w) = (PJ_SUCCESS, demo_queue c w)"
  by (simp add: demo_queue_def pj_ioqueue_create2_def demo_locks_def PJ_IOQUEUE_MAX_HANDLES_def Let_def)









text \<open>The run before the reference of the registration is dropped.\<close>

lemma demo_before_dec:
  "case io_exec demo_api (take 36 demo_acts) (io_start [1, 2] (demo_queue False [-1])) of None \<Rightarrow> False
   | Some s \<Rightarrow> sy_stack s 1 = [Dec 1, App] \<and> iq_active_list (sy_ioq s) = [1] \<and> iq_free_list (sy_ioq s) = [2] \<and>
       key_ref_count (key_of (sy_ioq s) 1) = 1 \<and> io_world (sy_ioq s) = []"
  by code_simp

theorem ioqueue_key_reuse_delay_witness:
  "\<exists>s q1 q2. io_exec demo_api (take 36 demo_acts) (io_start [1, 2] (demo_queue False [-1])) = Some s \<and>
     decrement_counter demo_api 1 (sy_ioq s) = q1 \<and> scan_closing_keys demo_api (q1\<lparr>io_world := [0]\<rparr>) = q2 \<and>
     1 \<in> set (iq_closing_list q1) \<and> 1 \<in> set (iq_free_list q2)"
proof -
  from demo_before_dec obtain s where run: "io_exec demo_api (take 36 demo_acts) (io_start [1, 2] (demo_queue False [-1])) = Some s"
    and s: "iq_active_list (sy_ioq s) = [1]" "key_ref_count (key_of (sy_ioq s) 1) = 1" "io_world (sy_ioq s) = []"
    by (auto split: option.splits)
  have time: "gettickcount demo_api (io_world (sy_ioq s)) = (Time_Val 0 0, [])" "gettickcount demo_api [0] = (Time_Val 1 0, [0])"
    by (simp_all add: demo_api_def s)
  let ?q1 = "decrement_counter demo_api 1 (sy_ioq s)"
  have act: "1 \<in> set (iq_active_list (sy_ioq s))" by (simp add: s)
  have keys: "distinct [1, 2 :: nat]" "0 \<notin> set [1, 2 :: nat]" and norm: "normalized (Time_Val 1 0)" by (simp_all add: normalized_def)
  have "PJ_TIME_VAL_MSEC (Time_Val 0 0) + 500 \<le> PJ_TIME_VAL_MSEC (Time_Val 1 0)" by (simp add: PJ_TIME_VAL_MSEC_def)
  then have "1 \<in> set (iq_closing_list ?q1)" "1 \<in> set (iq_free_list (scan_closing_keys demo_api (?q1\<lparr>io_world := [0]\<rparr>)))"
    using ioqueue_key_reuse_delay [OF demo_create keys run act s(2) refl time(1,2) norm refl] by blast+
  with run show ?thesis by blast
qed


end
