(* ===== verification/Pjsip_Tsx.thy ===== *)
theory Pjsip_Tsx
  imports Pj_Time
begin

text \<open>
  One SIP transaction (\<^verbatim>\<open>pjsip/src/pjsip/sip_transaction.c\<close>): the structure, its timers, the
  messages it sends, and the handlers of its states. The transaction user and the transport
  layer are a parameter: \<open>on_tsx_state\<close> is what the transaction user does inside a callback and
  \<open>call_out\<close> what happens inside a call of the transport layer, both as functions on the whole
  transaction, because either may call back into it. \<open>Pjsip_Tsx_Run\<close> closes that recursion.

  The transaction layer is loaded throughout (\<^verbatim>\<open>mod_tsx_layer.mod.id >= 0\<close>), and the compile-time
  settings have their default values. \<^verbatim>\<open>lock_timer\<close> only makes a pair of timer calls atomic. Addresses,
  object names, reason phrases and logging have no counterpart.
\<close>

section \<open>Data\<close>

datatype pjsip_tsx_state_e =
    PJSIP_TSX_STATE_NULL | PJSIP_TSX_STATE_CALLING | PJSIP_TSX_STATE_TRYING
  | PJSIP_TSX_STATE_PROCEEDING | PJSIP_TSX_STATE_COMPLETED | PJSIP_TSX_STATE_CONFIRMED
  | PJSIP_TSX_STATE_TERMINATED | PJSIP_TSX_STATE_DESTROYED

primrec state_index :: "pjsip_tsx_state_e \<Rightarrow> nat" where
  "state_index PJSIP_TSX_STATE_NULL = 0"
| "state_index PJSIP_TSX_STATE_CALLING = 1"
| "state_index PJSIP_TSX_STATE_TRYING = 2"
| "state_index PJSIP_TSX_STATE_PROCEEDING = 3"
| "state_index PJSIP_TSX_STATE_COMPLETED = 4"
| "state_index PJSIP_TSX_STATE_CONFIRMED = 5"
| "state_index PJSIP_TSX_STATE_TERMINATED = 6"
| "state_index PJSIP_TSX_STATE_DESTROYED = 7"

lemma state_index_inj: "state_index a = state_index b \<longleftrightarrow> a = b"
  by (cases a; cases b) simp_all

text \<open>The enumeration is compared by value in the code.\<close>

instantiation pjsip_tsx_state_e :: linorder
begin

definition less_eq_pjsip_tsx_state_e :: "pjsip_tsx_state_e \<Rightarrow> pjsip_tsx_state_e \<Rightarrow> bool" where
  "less_eq_pjsip_tsx_state_e a b \<longleftrightarrow> state_index a \<le> state_index b"

definition less_pjsip_tsx_state_e :: "pjsip_tsx_state_e \<Rightarrow> pjsip_tsx_state_e \<Rightarrow> bool" where
  "less_pjsip_tsx_state_e a b \<longleftrightarrow> state_index a < state_index b"

instance
  by standard
    (auto simp: less_eq_pjsip_tsx_state_e_def less_pjsip_tsx_state_e_def state_index_inj)

end

datatype pjsip_role_e = PJSIP_ROLE_UAC | PJSIP_ROLE_UAS

datatype pjsip_method_e =
    PJSIP_INVITE_METHOD | PJSIP_CANCEL_METHOD | PJSIP_ACK_METHOD | PJSIP_BYE_METHOD
  | PJSIP_REGISTER_METHOD | PJSIP_OPTIONS_METHOD | PJSIP_OTHER_METHOD

text \<open>Of a message the transaction reads the kind, the method of a request or the code of a
  response, and the method of the CSeq header of a response.\<close>

datatype pjsip_msg = PJSIP_REQUEST_MSG pjsip_method_e | PJSIP_RESPONSE_MSG int pjsip_method_e

record pjsip_tx_data =
  ref_cnt :: int
  is_pending :: bool
  msg :: pjsip_msg

text \<open>A timer entry: its identifier, whether it is in the timer heap, and the delay it was last
  scheduled with.\<close>

record tsx_timer =
  tid :: int
  running :: bool
  tdelay :: pj_time_val

datatype tsx_entry = Retransmit_Timer | Timeout_Timer | Misc_Timer

text \<open>The callbacks the user module of the transaction has set.\<close>

record pjsip_module =
  has_on_rx_response :: bool
  has_on_tsx_state :: bool

datatype tsx_handler =
    On_State_Null | On_State_Calling | On_State_Trying | On_State_Proceeding_Uas
  | On_State_Proceeding_Uac | On_State_Completed_Uas | On_State_Completed_Uac
  | On_State_Confirmed | On_State_Terminated | On_State_Destroyed

fun tsx_state_handler_uac :: "pjsip_tsx_state_e \<Rightarrow> tsx_handler option" where
  "tsx_state_handler_uac PJSIP_TSX_STATE_NULL = Some On_State_Null"
| "tsx_state_handler_uac PJSIP_TSX_STATE_CALLING = Some On_State_Calling"
| "tsx_state_handler_uac PJSIP_TSX_STATE_TRYING = None"
| "tsx_state_handler_uac PJSIP_TSX_STATE_PROCEEDING = Some On_State_Proceeding_Uac"
| "tsx_state_handler_uac PJSIP_TSX_STATE_COMPLETED = Some On_State_Completed_Uac"
| "tsx_state_handler_uac PJSIP_TSX_STATE_CONFIRMED = Some On_State_Confirmed"
| "tsx_state_handler_uac PJSIP_TSX_STATE_TERMINATED = Some On_State_Terminated"
| "tsx_state_handler_uac PJSIP_TSX_STATE_DESTROYED = Some On_State_Destroyed"

fun tsx_state_handler_uas :: "pjsip_tsx_state_e \<Rightarrow> tsx_handler option" where
  "tsx_state_handler_uas PJSIP_TSX_STATE_NULL = Some On_State_Null"
| "tsx_state_handler_uas PJSIP_TSX_STATE_CALLING = None"
| "tsx_state_handler_uas PJSIP_TSX_STATE_TRYING = Some On_State_Trying"
| "tsx_state_handler_uas PJSIP_TSX_STATE_PROCEEDING = Some On_State_Proceeding_Uas"
| "tsx_state_handler_uas PJSIP_TSX_STATE_COMPLETED = Some On_State_Completed_Uas"
| "tsx_state_handler_uas PJSIP_TSX_STATE_CONFIRMED = Some On_State_Confirmed"
| "tsx_state_handler_uas PJSIP_TSX_STATE_TERMINATED = Some On_State_Terminated"
| "tsx_state_handler_uas PJSIP_TSX_STATE_DESTROYED = Some On_State_Destroyed"

text \<open>What starts a state change, as the event the transaction user is told about.\<close>

datatype tsx_event_src =
    Src_Rx_Msg pjsip_msg | Src_Tx_Msg | Src_Timer tsx_entry | Src_Transport_Error | Src_User
  | Src_Unknown

text \<open>The events a state handler receives.\<close>

datatype pjsip_event = Event_Rx_Msg pjsip_msg | Event_Tx_Msg nat | Event_Timer tsx_entry

text \<open>What the rest of the system does: calls of the interface, received messages, timers that
  leave the heap and whose callback then runs, completions of the transport layer. \<open>Send_Cb\<close>
  carries the arguments of \<^verbatim>\<open>send_msg_callback\<close> (message, \<^verbatim>\<open>sent\<close>, \<^verbatim>\<open>*cont\<close>, transport) and
  whether the transport is reliable and whether it is shutting down.\<close>

datatype tsx_action =
    Send_Msg "nat option" | Terminate int | Terminate_Async int nat | Stop_Retransmit
  | Set_Timeout nat | Retransmit_No_State "nat option"
  | Recv_Msg pjsip_msg | Poll tsx_entry | Dispatch tsx_entry
  | Send_Cb nat int bool nat bool bool | Transport_Cb nat int | Tp_State int
  | Set_Pending nat bool

text \<open>One answer of the environment: what it does while it is called, the status it returns and
  the object it creates.\<close>

record tsx_answer =
  ans_acts :: "tsx_action list"
  ans_status :: pj_status_t
  ans_obj :: nat

datatype tsx_log = Log_Rx_Response int | Log_Tsx_State pjsip_tsx_state_e pjsip_tsx_state_e
  | Log_Send nat

text \<open>
  The transaction with the memory around it. A null pointer is \<open>None\<close>, or 0 for the transport;
  the bits of \<^verbatim>\<open>transport_flag\<close> are five booleans. \<open>grp_refs\<close> and \<open>held\<close> are the reference
  counter and the recursion depth of the group lock, \<open>freed\<close> tells whether the counter has reached
  zero and the memory has been given back, \<open>attached\<close> the messages whose module data
  points to the transaction, \<open>tdatas\<close> the messages, \<open>fired\<close> the timer entries that have left the
  heap and whose callback has not run yet, \<open>tp_sends\<close> the messages a transport still has to
  complete. \<open>answers\<close> is what the environment will do, \<open>hist\<close> every value the state has had and
  \<open>tsx_logs\<close> the notifications and transmissions, in order.
\<close>

record tsx =
  tsx_user :: "pjsip_module option"
  terminating :: bool
  grp_refs :: int
  freed :: bool
  held :: nat
  role :: pjsip_role_e
  meth :: pjsip_method_e
  cseq :: int
  status_code :: int
  state :: pjsip_tsx_state_e
  handle_200resp :: bool
  state_handler :: "tsx_handler option"
  transport :: nat
  is_reliable :: bool
  has_pending_transport :: bool
  has_pending_resched :: bool
  has_pending_send :: bool
  has_pending_destroy :: bool
  has_resolved_server :: bool
  transport_err :: pj_status_t
  pending_tx :: "nat option"
  last_tx :: "nat option"
  retransmit_count :: nat
  retransmit_timer :: tsx_timer
  timeout_timer :: tsx_timer
  misc_timer :: tsx_timer
  misc_param :: "nat \<times> int"
  registered :: bool
  attached :: "nat set"
  tdatas :: "nat \<Rightarrow> pjsip_tx_data"
  fired :: "tsx_entry list"
  tp_sends :: "nat list"
  answers :: "tsx_answer list"
  hist :: "pjsip_tsx_state_e list"
  tsx_logs :: "tsx_log list"

section \<open>Constants and configuration\<close>

definition TIMER_INACTIVE :: int where "TIMER_INACTIVE = 0"
definition RETRANSMIT_TIMER :: int where "RETRANSMIT_TIMER = 1"
definition TIMEOUT_TIMER :: int where "TIMEOUT_TIMER = 2"
definition TRANSPORT_ERR_TIMER :: int where "TRANSPORT_ERR_TIMER = 3"
definition TRANSPORT_DISC_TIMER :: int where "TRANSPORT_DISC_TIMER = 4"
definition TERMINATE_TIMER :: int where "TERMINATE_TIMER = 5"
definition TRANSPORT_CB_TIMER :: int where "TRANSPORT_CB_TIMER = 6"

lemmas timer_ids [simp] = TIMER_INACTIVE_def RETRANSMIT_TIMER_def TIMEOUT_TIMER_def
  TRANSPORT_ERR_TIMER_def TRANSPORT_DISC_TIMER_def TERMINATE_TIMER_def TRANSPORT_CB_TIMER_def

definition PJ_EUNKNOWN :: pj_status_t where "PJ_EUNKNOWN = PJ_ERRNO_START_STATUS + 1"
definition PJ_ERESOLVE :: pj_status_t where "PJ_ERESOLVE = PJ_ERRNO_START_STATUS + 18"
definition PJ_EIGNORED :: pj_status_t where "PJ_EIGNORED = PJ_ERRNO_START_STATUS + 20"
definition PJSIP_ERRNO_START_PJSIP :: pj_status_t where "PJSIP_ERRNO_START_PJSIP = 171000"
definition PJSIP_ENOTREQUESTMSG :: pj_status_t where
  "PJSIP_ENOTREQUESTMSG = PJSIP_ERRNO_START_PJSIP + 21"
definition PJSIP_ENOTRESPONSEMSG :: pj_status_t where
  "PJSIP_ENOTRESPONSEMSG = PJSIP_ERRNO_START_PJSIP + 22"
definition PJSIP_EINVALIDMETHOD :: pj_status_t where
  "PJSIP_EINVALIDMETHOD = PJSIP_ERRNO_START_PJSIP + 55"

lemmas tsx_status [simp] = PJ_EUNKNOWN_def PJ_EPENDING_def PJ_EBUG_def PJ_ECANCELLED_def
  PJ_ERESOLVE_def PJ_EIGNORED_def PJSIP_ERRNO_START_PJSIP_def PJSIP_ENOTREQUESTMSG_def
  PJSIP_ENOTRESPONSEMSG_def PJSIP_EINVALIDMETHOD_def

definition PJSIP_SC_TSX_TIMEOUT :: int where "PJSIP_SC_TSX_TIMEOUT = 408"
definition PJSIP_SC_CALL_TSX_DOES_NOT_EXIST :: int where "PJSIP_SC_CALL_TSX_DOES_NOT_EXIST = 481"
definition PJSIP_SC_BAD_GATEWAY :: int where "PJSIP_SC_BAD_GATEWAY = 502"
definition PJSIP_SC_TSX_TRANSPORT_ERROR :: int where "PJSIP_SC_TSX_TRANSPORT_ERROR = 503"
definition PJSIP_TSX_1XX_RETRANS_DELAY :: int where "PJSIP_TSX_1XX_RETRANS_DELAY = 60"

lemmas sip_codes [simp] = PJSIP_SC_TSX_TIMEOUT_def PJSIP_SC_CALL_TSX_DOES_NOT_EXIST_def
  PJSIP_SC_BAD_GATEWAY_def PJSIP_SC_TSX_TRANSPORT_ERROR_def PJSIP_TSX_1XX_RETRANS_DELAY_def

definition PJSIP_IS_STATUS_IN_CLASS :: "int \<Rightarrow> int \<Rightarrow> bool" where
  "PJSIP_IS_STATUS_IN_CLASS code cl \<longleftrightarrow> code div 100 = cl div 100"

text \<open>The timer values of the module and the part of the run-time configuration they come from.
  \<open>edns_nxdomain\<close> is the status the DNS resolver reports for a name that does not exist.\<close>

record tsx_config =
  cfg_t1 :: u32
  cfg_t2 :: u32
  cfg_t4 :: u32
  cfg_td :: u32
  t1_timer_val :: pj_time_val
  t2_timer_val :: pj_time_val
  t4_timer_val :: pj_time_val
  td_timer_val :: pj_time_val
  timeout_timer_val :: pj_time_val
  max_retrans_count :: int
  edns_nxdomain :: pj_status_t

definition msec_val :: "u32 \<Rightarrow> pj_time_val" where
  "msec_val t = Time_Val (uint t div 1000) (uint t mod 1000)"

definition pjsip_tsx_set_timers ::
  "u32 \<Rightarrow> u32 \<Rightarrow> u32 \<Rightarrow> u32 \<Rightarrow> tsx_config \<Rightarrow> tsx_config" where
  "pjsip_tsx_set_timers t1 t2 t4 td g =
     (let g1 = (if t1 \<noteq> 0 then g\<lparr>t1_timer_val := msec_val t1, cfg_t1 := t1\<rparr> else g);
          g2 = (if t2 \<noteq> 0 then g1\<lparr>t2_timer_val := msec_val t2, cfg_t2 := t2\<rparr> else g1);
          g3 = (if t4 \<noteq> 0 then g2\<lparr>t4_timer_val := msec_val t4, cfg_t4 := t4\<rparr> else g2)
      in if td \<noteq> 0 then g3\<lparr>td_timer_val := msec_val td, timeout_timer_val := msec_val td,
           cfg_td := td\<rparr> else g3)"

definition pjsip_tsx_initialize_timer_values :: "tsx_config \<Rightarrow> tsx_config" where
  "pjsip_tsx_initialize_timer_values g = g\<lparr>t1_timer_val := msec_val (cfg_t1 g),
     t2_timer_val := msec_val (cfg_t2 g), t4_timer_val := msec_val (cfg_t4 g),
     td_timer_val := msec_val (cfg_td g), timeout_timer_val := msec_val (cfg_td g)\<rparr>"

definition pjsip_tsx_set_max_retransmit_count :: "int \<Rightarrow> tsx_config \<Rightarrow> tsx_config" where
  "pjsip_tsx_set_max_retransmit_count m g = g\<lparr>max_retrans_count := m\<rparr>"

text \<open>The calls that leave the transaction: sending on a known transport, resolving and sending a
  message without one, building an ACK.\<close>

datatype tsx_call = Transport_Send nat | Stateless_Send nat | Create_Ack

text \<open>The environment of a transaction.\<close>

record tsx_env =
  tcfg :: tsx_config
  on_tsx_state :: "tsx \<Rightarrow> tsx"
  call_out :: "tsx_call \<Rightarrow> tsx \<Rightarrow> tsx_answer \<times> tsx"

section \<open>Locks, references and timers\<close>

definition tsx_grp_lock_add_ref :: "tsx \<Rightarrow> tsx" where
  "tsx_grp_lock_add_ref s = s\<lparr>grp_refs := grp_refs s + 1\<rparr>"

text \<open>The last reference destroys the lock, and \<^verbatim>\<open>tsx_on_destroy\<close> the transaction with it.\<close>

definition tsx_grp_lock_dec_ref :: "tsx \<Rightarrow> tsx" where
  "tsx_grp_lock_dec_ref s =
     s\<lparr>grp_refs := grp_refs s - 1, freed := freed s \<or> grp_refs s - 1 = 0\<rparr>"

text \<open>Acquiring the group lock also takes a reference, and releasing it drops one.\<close>

definition tsx_grp_lock_acquire :: "tsx \<Rightarrow> tsx" where
  "tsx_grp_lock_acquire s = s\<lparr>held := held s + 1, grp_refs := grp_refs s + 1\<rparr>"

definition tsx_grp_lock_release :: "tsx \<Rightarrow> tsx" where
  "tsx_grp_lock_release s = tsx_grp_lock_dec_ref (s\<lparr>held := held s - 1\<rparr>)"

definition pjsip_tx_data_add_ref :: "nat \<Rightarrow> tsx \<Rightarrow> tsx" where
  "pjsip_tx_data_add_ref i s =
     s\<lparr>tdatas := (tdatas s)(i := (tdatas s i)\<lparr>ref_cnt := ref_cnt (tdatas s i) + 1\<rparr>)\<rparr>"

definition pjsip_tx_data_dec_ref :: "nat \<Rightarrow> tsx \<Rightarrow> tsx" where
  "pjsip_tx_data_dec_ref i s =
     s\<lparr>tdatas := (tdatas s)(i := (tdatas s i)\<lparr>ref_cnt := ref_cnt (tdatas s i) - 1\<rparr>)\<rparr>"

fun timer_of :: "tsx_entry \<Rightarrow> tsx \<Rightarrow> tsx_timer" where
  "timer_of Retransmit_Timer s = retransmit_timer s"
| "timer_of Timeout_Timer s = timeout_timer s"
| "timer_of Misc_Timer s = misc_timer s"

fun set_timer :: "tsx_entry \<Rightarrow> tsx_timer \<Rightarrow> tsx \<Rightarrow> tsx" where
  "set_timer Retransmit_Timer t s = s\<lparr>retransmit_timer := t\<rparr>"
| "set_timer Timeout_Timer t s = s\<lparr>timeout_timer := t\<rparr>"
| "set_timer Misc_Timer t s = s\<lparr>misc_timer := t\<rparr>"

text \<open>Scheduling fails without effect on an entry that is in the heap, takes a reference of the
  group lock otherwise; cancelling an entry that is in the heap gives the reference back and sets
  the identifier.\<close>

definition tsx_schedule_timer :: "tsx_entry \<Rightarrow> pj_time_val \<Rightarrow> int \<Rightarrow> tsx \<Rightarrow> tsx" where
  "tsx_schedule_timer en delay active_id s =
     (if running (timer_of en s) then s
      else tsx_grp_lock_add_ref
        (set_timer en \<lparr>tid = active_id, running = True, tdelay = delay\<rparr> s))"

definition tsx_cancel_timer :: "tsx_entry \<Rightarrow> tsx \<Rightarrow> tsx" where
  "tsx_cancel_timer en s =
     (if running (timer_of en s)
      then tsx_grp_lock_dec_ref
        (set_timer en ((timer_of en s)\<lparr>tid := TIMER_INACTIVE, running := False\<rparr>) s)
      else s)"

definition tsx_restart_timer :: "tsx_entry \<Rightarrow> pj_time_val \<Rightarrow> int \<Rightarrow> tsx \<Rightarrow> tsx" where
  "tsx_restart_timer en delay active_id s =
     tsx_schedule_timer en delay active_id (tsx_cancel_timer en s)"

definition timeout_zero :: pj_time_val where "timeout_zero = Time_Val 0 0"

definition tsx_set_status_code :: "int \<Rightarrow> tsx \<Rightarrow> tsx" where
  "tsx_set_status_code code s = s\<lparr>status_code := code\<rparr>"

section \<open>The transport of the transaction\<close>

text \<open>\<^verbatim>\<open>tsx_tp_state_callback\<close> for a disconnection with the given reason.\<close>

definition tsx_tp_state_callback :: "pj_status_t \<Rightarrow> tsx \<Rightarrow> tsx" where
  "tsx_tp_state_callback info_status s =
     (let s1 = s\<lparr>has_pending_transport := False, transport_err := info_status\<rparr>
      in if state s1 < PJSIP_TSX_STATE_COMPLETED
         then tsx_restart_timer Timeout_Timer timeout_zero TRANSPORT_DISC_TIMER s1
         else s1)"

text \<open>The second argument tells whether the new transport is being shut down or destroyed.\<close>

definition tsx_update_transport :: "nat \<Rightarrow> bool \<Rightarrow> tsx \<Rightarrow> tsx" where
  "tsx_update_transport tp down s =
     (let s1 = (if transport s \<noteq> 0 then s\<lparr>transport := 0\<rparr> else s)
      in if tp \<noteq> 0
         then (let s2 = s1\<lparr>transport := tp\<rparr>
               in if down then tsx_tp_state_callback PJSIP_SC_TSX_TRANSPORT_ERROR s2 else s2)
         else s1)"

text \<open>\<^verbatim>\<open>mod_tsx_layer_unregister_tsx\<close> as far as this transaction is concerned.\<close>

definition unregister_tsx :: "tsx \<Rightarrow> tsx" where
  "unregister_tsx s = s\<lparr>registered := False\<rparr>"

definition tsx_shutdown :: "tsx \<Rightarrow> tsx" where
  "tsx_shutdown s =
     (let s1 = tsx_update_transport 0 False s;
          s2 = (case last_tx s1 of
                  Some x \<Rightarrow> (pjsip_tx_data_dec_ref x s1)\<lparr>last_tx := None\<rparr>
                | None \<Rightarrow> s1);
          s3 = tsx_cancel_timer Retransmit_Timer (tsx_cancel_timer Timeout_Timer s2);
          s4 = s3\<lparr>has_pending_resched := False, has_pending_send := False\<rparr>;
          s5 = (if has_pending_transport s4
                then s4\<lparr>has_pending_destroy := True, tsx_user := None\<rparr> else s4)
      in if terminating s5 then s5 else tsx_grp_lock_dec_ref (s5\<lparr>terminating := True\<rparr>))"

section \<open>State changes\<close>

text \<open>The flags \<^verbatim>\<open>NO_NOTIFY\<close>, \<^verbatim>\<open>NO_SCHEDULE_HANDLER\<close> and \<^verbatim>\<open>RELEASE_LOCK\<close>.\<close>

record tsx_flags =
  no_notify :: bool
  no_schedule_handler :: bool
  release_lock :: bool

definition flags_none :: tsx_flags where "flags_none = \<lparr>no_notify = False, no_schedule_handler = False, release_lock = False\<rparr>"

definition enter_state :: "pjsip_tsx_state_e \<Rightarrow> tsx \<Rightarrow> tsx" where
  "enter_state st s = s\<lparr>state := st, hist := hist s @ [st],
     state_handler := (if role s = PJSIP_ROLE_UAC then tsx_state_handler_uac st
                       else tsx_state_handler_uas st)\<rparr>"

definition notify_rx :: "tsx_env \<Rightarrow> tsx_event_src \<Rightarrow> tsx_flags \<Rightarrow> tsx \<Rightarrow> tsx" where
  "notify_rx e src fl s =
     (case src of
        Src_Rx_Msg (PJSIP_RESPONSE_MSG code cm) \<Rightarrow>
          (case tsx_user s of
             Some u \<Rightarrow>
               if \<not> no_notify fl \<and> has_on_rx_response u
               then on_tsx_state e (s\<lparr>tsx_logs := tsx_logs s @ [Log_Rx_Response code]\<rparr>) else s
           | None \<Rightarrow> s)
      | _ \<Rightarrow> s)"

definition unlocked_notify :: "tsx_event_src \<Rightarrow> tsx_flags \<Rightarrow> bool" where
  "unlocked_notify src fl \<longleftrightarrow> release_lock fl \<or> src = Src_Timer Timeout_Timer"

definition notify_state ::
  "tsx_env \<Rightarrow> pjsip_tsx_state_e \<Rightarrow> tsx_event_src \<Rightarrow> tsx_flags \<Rightarrow> tsx \<Rightarrow> tsx" where
  "notify_state e prev src fl s =
     (case tsx_user s of
        Some u \<Rightarrow>
          if has_on_tsx_state u \<and> \<not> no_notify fl
          then (let unlock = unlocked_notify src fl;
                    s1 = (if unlock then tsx_grp_lock_release s else s);
                    s2 = on_tsx_state e
                           (s1\<lparr>tsx_logs := tsx_logs s1 @ [Log_Tsx_State prev (state s1)]\<rparr>)
                in if unlock then tsx_grp_lock_acquire s2 else s2)
          else s
      | None \<Rightarrow> s)"

text \<open>The end of the change to \<^verbatim>\<open>TERMINATED\<close>: the outstanding message is disowned and the timer
  that destroys the transaction is started.\<close>

definition detach_pending :: "tsx \<Rightarrow> tsx" where
  "detach_pending s =
     (if has_pending_transport s
      then (case pending_tx s of
              Some x \<Rightarrow> (tsx_grp_lock_dec_ref (s\<lparr>attached := attached s - {x}, pending_tx := None\<rparr>))
            | None \<Rightarrow> s)\<lparr>has_pending_transport := False\<rparr>
      else s)"

definition after_terminated :: "tsx_flags \<Rightarrow> tsx \<Rightarrow> tsx" where
  "after_terminated fl s =
     (let s1 = tsx_cancel_timer Timeout_Timer (detach_pending s)
      in if no_schedule_handler fl then s1
         else tsx_schedule_timer Timeout_Timer timeout_zero TIMEOUT_TIMER s1)"

definition tsx_set_state ::
  "tsx_env \<Rightarrow> pjsip_tsx_state_e \<Rightarrow> tsx_event_src \<Rightarrow> tsx_flags \<Rightarrow> tsx \<Rightarrow> tsx" where
  "tsx_set_state e st src fl s =
     (let s1 = enter_state st s;
          s2 = notify_rx e src fl s1;
          s3 = notify_state e (state s) src fl s2
      in if st = PJSIP_TSX_STATE_TERMINATED then after_terminated fl s3
         else if st = PJSIP_TSX_STATE_DESTROYED then tsx_shutdown (unregister_tsx s3)
         else s3)"

section \<open>Sending\<close>

text \<open>The part of \<^verbatim>\<open>tsx_send_msg\<close> that uses the transport of the transaction. A transport that
  answers \<^verbatim>\<open>PJ_EPENDING\<close> owes a completion.\<close>

definition send_on_transport :: "tsx_env \<Rightarrow> nat \<Rightarrow> tsx \<Rightarrow> pj_status_t \<times> tsx" where
  "send_on_transport e x s =
     (let s1 = (tsx_grp_lock_add_ref s)\<lparr>has_pending_transport := True,
                 tsx_logs := tsx_logs s @ [Log_Send x]\<rparr>;
          (a, s2) = call_out e (Transport_Send x) s1
      in if ans_status a = PJ_EPENDING then (PJ_SUCCESS, s2\<lparr>tp_sends := tp_sends s2 @ [x]\<rparr>)
         else (let s3 = tsx_grp_lock_dec_ref (s2\<lparr>has_pending_transport := False\<rparr>)
               in (ans_status a,
                   if ans_status a \<noteq> PJ_SUCCESS then tsx_update_transport 0 False s3 else s3)))"

text \<open>The permanent error of a client transaction that has resolved the server.\<close>

definition send_permanent_error :: "tsx_env \<Rightarrow> pj_status_t \<Rightarrow> tsx \<Rightarrow> pj_status_t \<times> tsx" where
  "send_permanent_error e status s =
     (let status' = (if status = PJ_SUCCESS then PJ_EUNKNOWN else status)
      in (status', tsx_set_state e PJSIP_TSX_STATE_TERMINATED Src_Transport_Error flags_none
                     (tsx_set_status_code PJSIP_SC_TSX_TRANSPORT_ERROR s)))"

text \<open>The long way: the message is handed to \<^verbatim>\<open>pjsip_endpt_send_request_stateless\<close> or
  \<^verbatim>\<open>pjsip_endpt_send_response\<close>, which call \<^verbatim>\<open>send_msg_callback\<close>, perhaps before they return.\<close>

definition is_request :: "pjsip_msg \<Rightarrow> bool" where
  "is_request m \<longleftrightarrow> (case m of PJSIP_REQUEST_MSG _ \<Rightarrow> True | PJSIP_RESPONSE_MSG _ _ \<Rightarrow> False)"

definition send_stateless :: "tsx_env \<Rightarrow> nat \<Rightarrow> tsx \<Rightarrow> pj_status_t \<times> tsx" where
  "send_stateless e x s =
     (let s1 = tsx_grp_lock_add_ref ((pjsip_tx_data_add_ref x s)\<lparr>attached := insert x (attached s),
                 pending_tx := Some x, has_pending_transport := True,
                 tsx_logs := tsx_logs s @ [Log_Send x]\<rparr>);
          (a, s2) = call_out e (Stateless_Send x) s1;
          status = (if ans_status a = PJ_EPENDING then PJ_SUCCESS else ans_status a);
          s3 = (if status \<noteq> PJ_SUCCESS
                then (let s2' = (if is_request (msg (tdatas s2 x))
                                 then tsx_set_status_code PJSIP_SC_TSX_TRANSPORT_ERROR s2 else s2)
                      in (pjsip_tx_data_dec_ref x
                           (tsx_grp_lock_dec_ref (s2'\<lparr>has_pending_transport := False\<rparr>)))
                           \<lparr>attached := attached s2 - {x}, pending_tx := None\<rparr>)
                else s2)
      in (if status = PJ_SUCCESS \<and> state s3 = PJSIP_TSX_STATE_TERMINATED then transport_err s3
          else status, s3))"

definition tsx_send_msg :: "tsx_env \<Rightarrow> nat option \<Rightarrow> tsx \<Rightarrow> pj_status_t \<times> tsx" where
  "tsx_send_msg e tx s =
     (case tx of
        None \<Rightarrow> (PJ_EINVAL, s)
      | Some x \<Rightarrow>
          if has_pending_transport s then (PJ_SUCCESS, s\<lparr>has_pending_send := True\<rparr>)
          else if is_pending (tdatas s x) then (PJ_SUCCESS, s)
          else (let tried = transport s \<noteq> 0;
                    (status, s1) = (if tried then send_on_transport e x s else (PJ_SUCCESS, s))
                in if tried \<and> status = PJ_SUCCESS then (PJ_SUCCESS, s1)
                   else if role s1 = PJSIP_ROLE_UAC \<and> has_resolved_server s1
                   then send_permanent_error e status s1
                   else send_stateless e x s1))"

section \<open>Retransmission\<close>

text \<open>The interval in milliseconds, in 32-bit arithmetic as in the code.\<close>

definition retransmit_interval :: "tsx_config \<Rightarrow> tsx \<Rightarrow> u32" where
  "retransmit_interval g s =
     (let t = (if role s = PJSIP_ROLE_UAC \<and> status_code s \<ge> 100 then cfg_t2 g
               else push_bit (retransmit_count s) 1 * cfg_t1 g)
      in if role s = PJSIP_ROLE_UAC
         then (if t > cfg_t2 g \<and> meth s \<noteq> PJSIP_INVITE_METHOD then cfg_t2 g else t)
         else if status_code s < 200 then word_of_int (PJSIP_TSX_1XX_RETRANS_DELAY * 1000)
         else if t > cfg_t2 g then cfg_t2 g else t)"

definition tsx_resched_retransmission :: "tsx_env \<Rightarrow> tsx \<Rightarrow> tsx" where
  "tsx_resched_retransmission e s =
     (let msec_time = retransmit_interval (tcfg e) s
      in if msec_time \<noteq> 0
         then tsx_schedule_timer Retransmit_Timer (msec_val msec_time) RETRANSMIT_TIMER s
         else s)"

definition retrans_exhausted :: "tsx_env \<Rightarrow> nat \<Rightarrow> tsx \<Rightarrow> bool" where
  "retrans_exhausted e x s \<longleftrightarrow>
     max_retrans_count (tcfg e) \<ge> 0 \<and> int (retransmit_count s) \<ge> max_retrans_count (tcfg e) \<and>
     is_request (msg (tdatas s x))"

definition tsx_retransmit :: "tsx_env \<Rightarrow> bool \<Rightarrow> tsx \<Rightarrow> pj_status_t \<times> tsx" where
  "tsx_retransmit e resched s =
     (if resched \<and> running (retransmit_timer s) then (PJ_SUCCESS, s)
      else case last_tx s of
        None \<Rightarrow> (PJ_EBUG, s)
      | Some x \<Rightarrow>
          if retrans_exhausted e x s
          then (PJ_SUCCESS, tsx_restart_timer Timeout_Timer timeout_zero TIMEOUT_TIMER s)
          else (let s1 = s\<lparr>retransmit_count := retransmit_count s + 1\<rparr>;
                    s2 = (if resched
                          then (if has_pending_transport s1 then s1\<lparr>has_pending_resched := True\<rparr>
                                else tsx_resched_retransmission e s1)
                          else s1);
                    (status, s3) = tsx_send_msg e (last_tx s2) s2
                in if status \<noteq> PJ_SUCCESS then (status, s3)
                   else (PJ_SUCCESS,
                         if resched \<and> has_pending_transport s3
                         then (tsx_cancel_timer Retransmit_Timer s3)\<lparr>has_pending_resched := True\<rparr>
                         else s3)))"

text \<open>What \<^verbatim>\<open>send_msg_callback\<close> and \<^verbatim>\<open>transport_callback_impl\<close> do when a message is on its way:
  send what had to wait, restart the retransmission timer.\<close>

definition send_waiting :: "tsx_env \<Rightarrow> tsx \<Rightarrow> tsx" where
  "send_waiting e s =
     (if has_pending_send s
      then snd (tsx_send_msg e (last_tx s) (s\<lparr>has_pending_send := False\<rparr>)) else s)"

definition resched_waiting :: "tsx_env \<Rightarrow> tsx \<Rightarrow> tsx" where
  "resched_waiting e s =
     (if has_pending_resched s \<and> \<not> has_pending_transport s
      then (let s1 = s\<lparr>has_pending_resched := False\<rparr>
            in if is_reliable s1 then s1 else tsx_resched_retransmission e s1)
      else s)"

section \<open>Completions of the transport layer\<close>

definition cb_sent ::
  "tsx_env \<Rightarrow> nat \<Rightarrow> bool \<Rightarrow> bool \<Rightarrow> tsx \<Rightarrow> tsx" where
  "cb_sent e tp rel down s =
     (let s1 = (if transport s \<noteq> tp
                then (tsx_update_transport tp down s)\<lparr>is_reliable := rel\<rparr> else s);
          s2 = s1\<lparr>has_pending_transport := False, has_resolved_server := True\<rparr>
      in if has_pending_destroy s2
         then tsx_set_state e PJSIP_TSX_STATE_DESTROYED Src_Unknown flags_none s2
         else resched_waiting e (send_waiting e s2))"

definition cb_failed :: "tsx_env \<Rightarrow> pj_status_t \<Rightarrow> tsx \<Rightarrow> tsx" where
  "cb_failed e err s =
     (let s1 = s\<lparr>transport_err := err, has_pending_transport := False,
                 has_resolved_server := True\<rparr>;
          sc = (if err = PJ_ERESOLVE \<or> err = edns_nxdomain (tcfg e) \<or> err = PJ_ECANCELLED
                then PJSIP_SC_BAD_GATEWAY else PJSIP_SC_TSX_TRANSPORT_ERROR);
          live = (state s1 \<noteq> PJSIP_TSX_STATE_TERMINATED \<and> state s1 \<noteq> PJSIP_TSX_STATE_DESTROYED)
      in if (role s1 = PJSIP_ROLE_UAC \<or> sc = PJSIP_SC_BAD_GATEWAY) \<and> live
         then tsx_set_state e PJSIP_TSX_STATE_TERMINATED Src_Transport_Error
                (flags_none\<lparr>release_lock := True\<rparr>) (tsx_set_status_code sc s1)
         else if has_pending_destroy s1
         then tsx_set_state e PJSIP_TSX_STATE_DESTROYED Src_Transport_Error flags_none
                (tsx_set_status_code sc s1)
         else if role s1 = PJSIP_ROLE_UAS \<and> has_pending_resched s1 \<and> live
         then tsx_resched_retransmission e (s1\<lparr>has_pending_resched := False\<rparr>)
         else s1)"

definition cb_next_server :: "tsx_env \<Rightarrow> nat \<Rightarrow> tsx \<Rightarrow> tsx" where
  "cb_next_server e x s =
     (let s1 = s\<lparr>retransmit_count := 0\<rparr>;
          s2 = (if tid (timeout_timer s1) \<noteq> 0
                then tsx_restart_timer Timeout_Timer (timeout_timer_val (tcfg e)) TIMEOUT_TIMER s1
                else s1)
      in tsx_grp_lock_add_ref (s2\<lparr>attached := insert x (attached s2), pending_tx := Some x\<rparr>))"

definition send_msg_callback ::
  "tsx_env \<Rightarrow> nat \<Rightarrow> int \<Rightarrow> bool \<Rightarrow> nat \<Rightarrow> bool \<Rightarrow> bool \<Rightarrow> tsx \<Rightarrow> tsx" where
  "send_msg_callback e x sent cont tp rel down s =
     (if x \<notin> attached s then s
      else (let s1 = (tsx_grp_lock_dec_ref (tsx_grp_lock_acquire s))
                       \<lparr>attached := attached s - {x}, pending_tx := None\<rparr>;
                s2 = (if sent > 0 then cb_sent e tp rel down s1
                      else (let f = (if tp = transport s1 then tsx_update_transport 0 False s1
                                     else s1)
                            in if \<not> cont \<or> has_pending_destroy f \<or> - sent = PJ_ECANCELLED
                               then cb_failed e (- sent) f
                               else cb_next_server e x f))
            in tsx_grp_lock_release s2))"

definition transport_callback_impl :: "tsx_env \<Rightarrow> int \<Rightarrow> tsx \<Rightarrow> tsx" where
  "transport_callback_impl e sent s =
     (let s1 = (tsx_grp_lock_acquire s)\<lparr>has_pending_transport := False\<rparr>
      in if (sent > 0 \<or> role s1 = PJSIP_ROLE_UAS) \<and> has_pending_destroy s1
         then tsx_grp_lock_dec_ref (tsx_grp_lock_release
                (tsx_set_state e PJSIP_TSX_STATE_DESTROYED Src_Unknown flags_none s1))
         else (let s2 = (if sent > 0 \<or> role s1 = PJSIP_ROLE_UAS
                         then resched_waiting e (send_waiting e s1) else s1);
                   s3 = tsx_grp_lock_release s2;
                   s4 = (if sent < 0 \<and> role s3 = PJSIP_ROLE_UAC
                         then (let f = s3\<lparr>transport_err := - sent\<rparr>
                               in if state f < PJSIP_TSX_STATE_COMPLETED
                                  then tsx_restart_timer Timeout_Timer timeout_zero
                                         TRANSPORT_ERR_TIMER f
                                  else f)
                         else s3)
               in tsx_grp_lock_dec_ref s4))"

text \<open>\<^verbatim>\<open>transport_callback\<close>: when another thread has the lock, the work is left to the miscellaneous
  timer. The thread that calls it has no lock of this transaction: a transport that has answered
  \<^verbatim>\<open>PJ_EPENDING\<close> completes the send from the event loop.\<close>

definition transport_callback :: "tsx_env \<Rightarrow> nat \<Rightarrow> int \<Rightarrow> tsx \<Rightarrow> tsx" where
  "transport_callback e x sent s =
     (if held s \<noteq> 0
      then (let s1 = pjsip_tx_data_add_ref x (tsx_cancel_timer Misc_Timer s)
            in tsx_schedule_timer Misc_Timer timeout_zero TRANSPORT_CB_TIMER
                 (s1\<lparr>misc_param := (x, sent), misc_timer := (misc_timer s1)\<lparr>tid := TIMER_INACTIVE\<rparr>\<rparr>))
      else tsx_grp_lock_release (transport_callback_impl e sent (tsx_grp_lock_acquire s)))"

definition tsx_misc_timer_callback :: "tsx_env \<Rightarrow> tsx \<Rightarrow> tsx" where
  "tsx_misc_timer_callback e s =
     (if tid (misc_timer s) = TRANSPORT_CB_TIMER
      then pjsip_tx_data_dec_ref (fst (misc_param s))
             (transport_callback_impl e (snd (misc_param s)) s)
      else s)"

section \<open>State handlers\<close>

definition keep_last_tx :: "nat \<Rightarrow> tsx \<Rightarrow> tsx" where
  "keep_last_tx x s =
     (if last_tx s \<noteq> Some x then pjsip_tx_data_add_ref x (s\<lparr>last_tx := Some x\<rparr>) else s)"

definition discard_last_tx :: "nat \<Rightarrow> tsx \<Rightarrow> tsx" where
  "discard_last_tx x s =
     (case last_tx s of
        Some y \<Rightarrow> if y \<noteq> x then (pjsip_tx_data_dec_ref y s)\<lparr>last_tx := None\<rparr> else s
      | None \<Rightarrow> s)"

text \<open>The retransmission timer is started, or left to the completion of the transport.\<close>

definition start_retransmit :: "pj_time_val \<Rightarrow> tsx \<Rightarrow> tsx" where
  "start_retransmit delay s =
     (let s1 = s\<lparr>retransmit_count := 0\<rparr>
      in if has_pending_transport s1 then s1\<lparr>has_pending_resched := True\<rparr>
         else tsx_schedule_timer Retransmit_Timer delay RETRANSMIT_TIMER s1)"

definition null_uac_sent :: "tsx_env \<Rightarrow> tsx \<Rightarrow> tsx" where
  "null_uac_sent e s =
     (let s1 = tsx_restart_timer Timeout_Timer (timeout_timer_val (tcfg e)) TIMEOUT_TIMER s;
          s2 = (if is_reliable s1 then s1 else start_retransmit (t1_timer_val (tcfg e)) s1)
      in tsx_set_state e PJSIP_TSX_STATE_CALLING Src_Tx_Msg flags_none s2)"

fun event_src :: "pjsip_event \<Rightarrow> tsx_event_src" where
  "event_src (Event_Rx_Msg m) = Src_Rx_Msg m"
| "event_src (Event_Tx_Msg x) = Src_Tx_Msg"
| "event_src (Event_Timer en) = Src_Timer en"

definition tsx_on_state_null :: "tsx_env \<Rightarrow> pjsip_event \<Rightarrow> tsx \<Rightarrow> pj_status_t \<times> tsx" where
  "tsx_on_state_null e ev s =
     (if role s = PJSIP_ROLE_UAS
      then (PJ_SUCCESS, tsx_set_state e PJSIP_TSX_STATE_TRYING (event_src ev) flags_none s)
      else case ev of
        Event_Tx_Msg x \<Rightarrow>
          (let s1 = keep_last_tx x (discard_last_tx x s);
               (status, s2) = tsx_send_msg e (Some x) s1
           in if status \<noteq> PJ_SUCCESS then (status, s2) else (PJ_SUCCESS, null_uac_sent e s2))
      | _ \<Rightarrow> (PJ_EBUG, s))"

subsection \<open>Client transactions\<close>

definition uac_completed_delay :: "tsx_env \<Rightarrow> tsx \<Rightarrow> pj_time_val" where
  "uac_completed_delay e s =
     (if is_reliable s then timeout_zero
      else if meth s = PJSIP_INVITE_METHOD then td_timer_val (tcfg e) else t4_timer_val (tcfg e))"

definition uac_2xx :: "tsx_env \<Rightarrow> pjsip_msg \<Rightarrow> tsx \<Rightarrow> tsx" where
  "uac_2xx e m s =
     (let s1 = tsx_cancel_timer Timeout_Timer s
      in if meth s1 = PJSIP_INVITE_METHOD
         then tsx_set_state e PJSIP_TSX_STATE_TERMINATED (Src_Rx_Msg m) flags_none s1
         else tsx_set_state e PJSIP_TSX_STATE_COMPLETED (Src_Rx_Msg m) flags_none
                (tsx_cancel_timer Retransmit_Timer
                  (tsx_schedule_timer Timeout_Timer (uac_completed_delay e s1) TIMEOUT_TIMER s1)))"

text \<open>After the ACK has been handed over: the transaction user is told, the ACK replaces the
  request for retransmission, and timer D or K is started.\<close>

definition uac_final_end :: "tsx_env \<Rightarrow> pjsip_msg \<Rightarrow> nat option \<Rightarrow> tsx \<Rightarrow> tsx" where
  "uac_final_end e m ack s =
     (let s1 = tsx_set_state e PJSIP_TSX_STATE_COMPLETED (Src_Rx_Msg m) flags_none s;
          s2 = (if meth s1 = PJSIP_INVITE_METHOD \<and> ack \<noteq> last_tx s1
                then (case last_tx s1 of Some y \<Rightarrow> pjsip_tx_data_dec_ref y s1 | None \<Rightarrow> s1)
                       \<lparr>last_tx := ack\<rparr>
                else s1)
      in tsx_restart_timer Timeout_Timer (uac_completed_delay e s2) TIMEOUT_TIMER s2)"

definition uac_final :: "tsx_env \<Rightarrow> pjsip_msg \<Rightarrow> tsx \<Rightarrow> pj_status_t \<times> tsx" where
  "uac_final e m s =
     (let s1 = tsx_cancel_timer Timeout_Timer (tsx_cancel_timer Retransmit_Timer s)
      in if meth s1 = PJSIP_INVITE_METHOD
         then (let (a, s2) = call_out e Create_Ack s1
               in if ans_status a \<noteq> PJ_SUCCESS then (ans_status a, s2)
                  else (let ack = ans_obj a;
                            (status, s3) = tsx_send_msg e (Some ack) s2
                        in if status \<noteq> PJ_SUCCESS then (status, s3)
                           else (PJ_SUCCESS, uac_final_end e m (Some ack) s3)))
         else if meth s1 = PJSIP_BYE_METHOD \<and>
                 (status_code s1 = PJSIP_SC_TSX_TIMEOUT \<or>
                  status_code s1 = PJSIP_SC_CALL_TSX_DOES_NOT_EXIST)
         then (PJ_SUCCESS, tsx_set_state e PJSIP_TSX_STATE_TERMINATED (Src_Rx_Msg m) flags_none s1)
         else (PJ_SUCCESS, uac_final_end e m None s1))"

definition tsx_on_state_proceeding_uac ::
  "tsx_env \<Rightarrow> pjsip_event \<Rightarrow> tsx \<Rightarrow> pj_status_t \<times> tsx" where
  "tsx_on_state_proceeding_uac e ev s =
     (case ev of
        Event_Rx_Msg m \<Rightarrow>
          (case m of
             PJSIP_REQUEST_MSG _ \<Rightarrow> (PJSIP_ENOTRESPONSEMSG, s)
           | PJSIP_RESPONSE_MSG code _ \<Rightarrow>
               (let s1 = tsx_set_status_code code s
                in if PJSIP_IS_STATUS_IN_CLASS code 100
                   then (PJ_SUCCESS,
                         tsx_set_state e PJSIP_TSX_STATE_PROCEEDING (Src_Rx_Msg m) flags_none s1)
                   else if PJSIP_IS_STATUS_IN_CLASS code 200 then (PJ_SUCCESS, uac_2xx e m s1)
                   else if 300 \<le> code \<and> code \<le> 699 then uac_final e m s1
                   else (PJ_EBUG, s1)))
      | Event_Tx_Msg _ \<Rightarrow> (PJ_EINVALIDOP, s)
      | Event_Timer en \<Rightarrow>
          if en = Retransmit_Timer then tsx_retransmit e True s
          else (PJ_SUCCESS,
                tsx_set_state e PJSIP_TSX_STATE_TERMINATED (Src_Timer Timeout_Timer) flags_none
                  (tsx_set_status_code PJSIP_SC_TSX_TIMEOUT s)))"

text \<open>The timers a response stops in state \<^verbatim>\<open>CALLING\<close>.\<close>

definition calling_timers :: "tsx_env \<Rightarrow> int \<Rightarrow> tsx \<Rightarrow> tsx" where
  "calling_timers e code s =
     (let s1 = tsx_cancel_timer Retransmit_Timer s;
          s2 = (if code \<ge> 200
                then (if tid (timeout_timer s1) \<noteq> 0 then tsx_cancel_timer Timeout_Timer s1 else s1)
                else if meth s1 = PJSIP_INVITE_METHOD then tsx_cancel_timer Timeout_Timer s1
                else if is_reliable s1 then s1
                else tsx_schedule_timer Retransmit_Timer (t2_timer_val (tcfg e)) RETRANSMIT_TIMER s1)
      in s2\<lparr>has_pending_resched := False\<rparr>)"

definition tsx_on_state_calling :: "tsx_env \<Rightarrow> pjsip_event \<Rightarrow> tsx \<Rightarrow> pj_status_t \<times> tsx" where
  "tsx_on_state_calling e ev s =
     (case ev of
        Event_Timer en \<Rightarrow>
          (case en of
             Retransmit_Timer \<Rightarrow> tsx_retransmit e True s
           | Timeout_Timer \<Rightarrow>
               (PJ_SUCCESS,
                tsx_set_state e PJSIP_TSX_STATE_TERMINATED (Src_Timer Timeout_Timer) flags_none
                  (tsx_set_status_code PJSIP_SC_TSX_TIMEOUT
                    ((tsx_cancel_timer Retransmit_Timer s)\<lparr>has_pending_resched := False\<rparr>)))
           | Misc_Timer \<Rightarrow> (PJ_EBUG, s))
      | Event_Rx_Msg m \<Rightarrow>
          (case m of
             PJSIP_REQUEST_MSG _ \<Rightarrow> (PJSIP_ENOTRESPONSEMSG, s)
           | PJSIP_RESPONSE_MSG code _ \<Rightarrow>
               (PJ_SUCCESS, snd (tsx_on_state_proceeding_uac e ev (calling_timers e code s))))
      | Event_Tx_Msg _ \<Rightarrow> (PJ_EBUG, s))"

definition tsx_on_state_completed_uac ::
  "tsx_env \<Rightarrow> pjsip_event \<Rightarrow> tsx \<Rightarrow> pj_status_t \<times> tsx" where
  "tsx_on_state_completed_uac e ev s =
     (case ev of
        Event_Timer en \<Rightarrow>
          (PJ_SUCCESS,
           if en \<noteq> Timeout_Timer then s
           else tsx_set_state e PJSIP_TSX_STATE_TERMINATED (Src_Timer en) flags_none s)
      | Event_Rx_Msg m \<Rightarrow>
          if meth s = PJSIP_INVITE_METHOD
          then (case m of
                  PJSIP_RESPONSE_MSG code _ \<Rightarrow>
                    if code \<ge> 200 then tsx_retransmit e False s else (PJ_SUCCESS, s)
                | PJSIP_REQUEST_MSG _ \<Rightarrow> (PJ_SUCCESS, s))
          else (PJ_SUCCESS, s)
      | Event_Tx_Msg _ \<Rightarrow> (PJ_EINVALIDOP, s))"

subsection \<open>Server transactions\<close>

definition uas_timeout_delay :: "tsx_env \<Rightarrow> tsx \<Rightarrow> pj_time_val" where
  "uas_timeout_delay e s =
     (if meth s = PJSIP_INVITE_METHOD \<or> \<not> is_reliable s then timeout_timer_val (tcfg e)
      else timeout_zero)"

definition uas_sent_1xx :: "tsx_env \<Rightarrow> nat \<Rightarrow> tsx \<Rightarrow> tsx" where
  "uas_sent_1xx e x s =
     (let s1 = tsx_set_state e PJSIP_TSX_STATE_PROCEEDING Src_Tx_Msg flags_none (keep_last_tx x s)
      in if PJSIP_TSX_1XX_RETRANS_DELAY > 0 \<and> meth s1 = PJSIP_INVITE_METHOD \<and> status_code s1 > 100
         then start_retransmit (Time_Val PJSIP_TSX_1XX_RETRANS_DELAY 0)
                (tsx_cancel_timer Retransmit_Timer s1)
         else s1)"

definition uas_sent_2xx :: "tsx_env \<Rightarrow> nat \<Rightarrow> tsx \<Rightarrow> tsx" where
  "uas_sent_2xx e x s =
     (let s1 = tsx_cancel_timer Retransmit_Timer s
      in if meth s1 = PJSIP_INVITE_METHOD \<and> \<not> handle_200resp s1
         then tsx_set_state e PJSIP_TSX_STATE_TERMINATED Src_Tx_Msg flags_none s1
         else (let s2 = (if meth s1 = PJSIP_INVITE_METHOD
                         then start_retransmit (t1_timer_val (tcfg e)) s1 else s1);
                   s3 = keep_last_tx x s2
               in tsx_set_state e PJSIP_TSX_STATE_COMPLETED Src_Tx_Msg flags_none
                    (tsx_restart_timer Timeout_Timer (uas_timeout_delay e s3) TIMEOUT_TIMER s3)))"

fun cseq_method :: "pjsip_msg \<Rightarrow> pjsip_method_e" where
  "cseq_method (PJSIP_REQUEST_MSG m) = m"
| "cseq_method (PJSIP_RESPONSE_MSG _ m) = m"

definition uas_sent_final :: "tsx_env \<Rightarrow> nat \<Rightarrow> tsx \<Rightarrow> tsx" where
  "uas_sent_final e x s =
     (let s1 = keep_last_tx x (tsx_cancel_timer Retransmit_Timer s);
          s2 = tsx_restart_timer Timeout_Timer (uas_timeout_delay e s1) TIMEOUT_TIMER s1;
          s3 = (if \<not> is_reliable s2 \<and> cseq_method (msg (tdatas s2 x)) = PJSIP_INVITE_METHOD
                then start_retransmit (t1_timer_val (tcfg e)) s2 else s2)
      in tsx_set_state e PJSIP_TSX_STATE_COMPLETED Src_Tx_Msg flags_none s3)"

definition uas_sent :: "tsx_env \<Rightarrow> nat \<Rightarrow> tsx \<Rightarrow> tsx" where
  "uas_sent e x s =
     (if PJSIP_IS_STATUS_IN_CLASS (status_code s) 100 then uas_sent_1xx e x s
      else if PJSIP_IS_STATUS_IN_CLASS (status_code s) 200 then uas_sent_2xx e x s
      else if status_code s \<ge> 300 then uas_sent_final e x s
      else s)"

definition tsx_on_state_proceeding_uas ::
  "tsx_env \<Rightarrow> pjsip_event \<Rightarrow> tsx \<Rightarrow> pj_status_t \<times> tsx" where
  "tsx_on_state_proceeding_uas e ev s =
     (case ev of
        Event_Rx_Msg _ \<Rightarrow>
          (case last_tx s of
             None \<Rightarrow> (PJ_EBUG, s)
           | Some x \<Rightarrow>
               if has_pending_transport s then (PJ_SUCCESS, s\<lparr>has_pending_send := True\<rparr>)
               else tsx_send_msg e (Some x) s)
      | Event_Tx_Msg x \<Rightarrow>
          (case msg (tdatas s x) of
             PJSIP_REQUEST_MSG _ \<Rightarrow> (PJSIP_ENOTRESPONSEMSG, s)
           | PJSIP_RESPONSE_MSG code _ \<Rightarrow>
               (let (status, s1) = tsx_send_msg e (Some x)
                                     (discard_last_tx x (tsx_set_status_code code s))
                in if status \<noteq> PJ_SUCCESS then (status, s1) else (PJ_SUCCESS, uas_sent e x s1)))
      | Event_Timer en \<Rightarrow>
          (case en of
             Retransmit_Timer \<Rightarrow> tsx_retransmit e True s
           | Timeout_Timer \<Rightarrow>
               (PJ_EBUG,
                tsx_set_state e PJSIP_TSX_STATE_TERMINATED (Src_Timer Timeout_Timer) flags_none
                  (tsx_set_status_code PJSIP_SC_TSX_TIMEOUT s))
           | Misc_Timer \<Rightarrow> (PJ_EBUG, s)))"

definition tsx_on_state_trying :: "tsx_env \<Rightarrow> pjsip_event \<Rightarrow> tsx \<Rightarrow> pj_status_t \<times> tsx" where
  "tsx_on_state_trying e ev s =
     (case ev of
        Event_Tx_Msg _ \<Rightarrow>
          (let (status, s1) = tsx_on_state_proceeding_uas e ev s
           in (status,
               if status = PJ_SUCCESS \<and> state s1 = PJSIP_TSX_STATE_TRYING
               then tsx_set_state e PJSIP_TSX_STATE_PROCEEDING Src_Tx_Msg flags_none s1 else s1))
      | _ \<Rightarrow> (PJ_SUCCESS, s))"

text \<open>An ACK in state \<^verbatim>\<open>COMPLETED\<close>; \<^verbatim>\<open>PJSIP_INV_ABSORB_RETRANS_AFTER_ACK\<close> is set.\<close>

definition uas_ack_delay :: "tsx_env \<Rightarrow> tsx \<Rightarrow> pj_time_val" where
  "uas_ack_delay e s =
     (if status_code s div 100 = 2 then td_timer_val (tcfg e)
      else if is_reliable s then timeout_zero else t4_timer_val (tcfg e))"

definition uas_ack :: "tsx_env \<Rightarrow> pjsip_msg \<Rightarrow> tsx \<Rightarrow> tsx" where
  "uas_ack e m s =
     (let s1 = (tsx_cancel_timer Retransmit_Timer s)\<lparr>has_pending_resched := False\<rparr>
      in tsx_set_state e PJSIP_TSX_STATE_CONFIRMED (Src_Rx_Msg m) flags_none
           (tsx_restart_timer Timeout_Timer (uas_ack_delay e s1) TIMEOUT_TIMER s1))"

definition tsx_on_state_completed_uas ::
  "tsx_env \<Rightarrow> pjsip_event \<Rightarrow> tsx \<Rightarrow> pj_status_t \<times> tsx" where
  "tsx_on_state_completed_uas e ev s =
     (case ev of
        Event_Rx_Msg m \<Rightarrow>
          (case m of
             PJSIP_RESPONSE_MSG _ _ \<Rightarrow> (PJSIP_ENOTREQUESTMSG, s)
           | PJSIP_REQUEST_MSG rm \<Rightarrow>
               if rm \<noteq> PJSIP_ACK_METHOD then tsx_retransmit e False s
               else if meth s \<noteq> PJSIP_INVITE_METHOD then (PJSIP_EINVALIDMETHOD, s)
               else (PJ_SUCCESS, uas_ack e m s))
      | Event_Timer en \<Rightarrow>
          if en = Retransmit_Timer then tsx_retransmit e True s
          else (PJ_SUCCESS,
                tsx_set_state e PJSIP_TSX_STATE_TERMINATED (Src_Timer Timeout_Timer) flags_none
                  (if meth s = PJSIP_INVITE_METHOD
                   then tsx_set_status_code PJSIP_SC_TSX_TIMEOUT s else s))
      | Event_Tx_Msg x \<Rightarrow> (if last_tx s \<noteq> Some x then PJ_EINVALIDOP else PJ_SUCCESS, s))"

definition tsx_on_state_confirmed :: "tsx_env \<Rightarrow> pjsip_event \<Rightarrow> tsx \<Rightarrow> pj_status_t \<times> tsx" where
  "tsx_on_state_confirmed e ev s =
     (case ev of
        Event_Rx_Msg m \<Rightarrow> (if is_request m then PJ_SUCCESS else PJSIP_ENOTREQUESTMSG, s)
      | Event_Timer en \<Rightarrow>
          (PJ_SUCCESS,
           if en = Retransmit_Timer then s
           else tsx_set_state e PJSIP_TSX_STATE_TERMINATED (Src_Timer Timeout_Timer) flags_none s)
      | Event_Tx_Msg _ \<Rightarrow> (PJ_EBUG, s))"

definition tsx_on_state_terminated :: "tsx_env \<Rightarrow> pjsip_event \<Rightarrow> tsx \<Rightarrow> pj_status_t \<times> tsx" where
  "tsx_on_state_terminated e ev s =
     (case ev of
        Event_Timer en \<Rightarrow>
          (PJ_SUCCESS, tsx_set_state e PJSIP_TSX_STATE_DESTROYED (Src_Timer en) flags_none s)
      | _ \<Rightarrow> (PJ_EIGNORED, s))"

definition tsx_on_state_destroyed :: "tsx_env \<Rightarrow> pjsip_event \<Rightarrow> tsx \<Rightarrow> pj_status_t \<times> tsx" where
  "tsx_on_state_destroyed e ev s = (PJ_EIGNORED, s)"

text \<open>The call through \<^verbatim>\<open>tsx->state_handler\<close>; a null handler is \<open>None\<close> and nothing is known of
  what the code does then.\<close>

fun tsx_handle :: "tsx_env \<Rightarrow> tsx_handler \<Rightarrow> pjsip_event \<Rightarrow> tsx \<Rightarrow> pj_status_t \<times> tsx" where
  "tsx_handle e On_State_Null ev s = tsx_on_state_null e ev s"
| "tsx_handle e On_State_Calling ev s = tsx_on_state_calling e ev s"
| "tsx_handle e On_State_Trying ev s = tsx_on_state_trying e ev s"
| "tsx_handle e On_State_Proceeding_Uas ev s = tsx_on_state_proceeding_uas e ev s"
| "tsx_handle e On_State_Proceeding_Uac ev s = tsx_on_state_proceeding_uac e ev s"
| "tsx_handle e On_State_Completed_Uas ev s = tsx_on_state_completed_uas e ev s"
| "tsx_handle e On_State_Completed_Uac ev s = tsx_on_state_completed_uac e ev s"
| "tsx_handle e On_State_Confirmed ev s = tsx_on_state_confirmed e ev s"
| "tsx_handle e On_State_Terminated ev s = tsx_on_state_terminated e ev s"
| "tsx_handle e On_State_Destroyed ev s = tsx_on_state_destroyed e ev s"

section \<open>Interface functions\<close>

definition call_handler :: "tsx_env \<Rightarrow> pjsip_event \<Rightarrow> tsx \<Rightarrow> pj_status_t \<times> tsx" where
  "call_handler e ev s =
     (case state_handler s of None \<Rightarrow> (PJ_EBUG, s) | Some h \<Rightarrow> tsx_handle e h ev s)"

definition locked_handler :: "tsx_env \<Rightarrow> pjsip_event \<Rightarrow> tsx \<Rightarrow> pj_status_t \<times> tsx" where
  "locked_handler e ev s =
     (let (status, s1) = call_handler e ev (tsx_grp_lock_acquire s)
      in (status, tsx_grp_lock_release s1))"

definition pjsip_tsx_send_msg :: "tsx_env \<Rightarrow> nat option \<Rightarrow> tsx \<Rightarrow> pj_status_t \<times> tsx" where
  "pjsip_tsx_send_msg e tdata s =
     (case (case tdata of Some x \<Rightarrow> Some x | None \<Rightarrow> last_tx s) of
        None \<Rightarrow> (PJ_EINVALIDOP, s)
      | Some x \<Rightarrow>
          (let (status, s1) = locked_handler e (Event_Tx_Msg x) s
           in (status, if status = PJ_SUCCESS then pjsip_tx_data_dec_ref x s1 else s1)))"

definition pjsip_tsx_recv_msg :: "tsx_env \<Rightarrow> pjsip_msg \<Rightarrow> tsx \<Rightarrow> tsx" where
  "pjsip_tsx_recv_msg e m s = snd (locked_handler e (Event_Rx_Msg m) s)"

definition pjsip_tsx_terminate :: "tsx_env \<Rightarrow> int \<Rightarrow> tsx \<Rightarrow> pj_status_t \<times> tsx" where
  "pjsip_tsx_terminate e code s =
     (if code < 200 then (PJ_EINVAL, s)
      else (let s1 = tsx_grp_lock_acquire s;
                s2 = (if state s1 < PJSIP_TSX_STATE_TERMINATED
                      then tsx_set_state e PJSIP_TSX_STATE_TERMINATED Src_User flags_none
                             (tsx_set_status_code code s1)
                      else s1)
            in (PJ_SUCCESS, tsx_grp_lock_release s2)))"

definition pjsip_tsx_terminate_async2 :: "int \<Rightarrow> nat \<Rightarrow> tsx \<Rightarrow> pj_status_t \<times> tsx" where
  "pjsip_tsx_terminate_async2 code millisec s =
     (if code < 200 then (PJ_EINVAL, s)
      else (let s1 = (if status_code s < 200 then tsx_set_status_code code s else s)
            in (PJ_SUCCESS,
                tsx_restart_timer Timeout_Timer
                  (pj_time_val_normalize (Time_Val 0 (int millisec))) TERMINATE_TIMER s1)))"

definition pjsip_tsx_terminate_async :: "int \<Rightarrow> tsx \<Rightarrow> pj_status_t \<times> tsx" where
  "pjsip_tsx_terminate_async code s = pjsip_tsx_terminate_async2 code 100 s"

definition pjsip_tsx_stop_retransmit :: "tsx \<Rightarrow> pj_status_t \<times> tsx" where
  "pjsip_tsx_stop_retransmit s =
     (if meth s \<noteq> PJSIP_INVITE_METHOD then (PJ_EINVALIDOP, s)
      else (PJ_SUCCESS, tsx_cancel_timer Retransmit_Timer s))"

definition pjsip_tsx_set_timeout :: "nat \<Rightarrow> tsx \<Rightarrow> pj_status_t \<times> tsx" where
  "pjsip_tsx_set_timeout millisec s =
     (if role s \<noteq> PJSIP_ROLE_UAC \<or> meth s \<noteq> PJSIP_INVITE_METHOD then (PJ_EINVALIDOP, s)
      else if status_code s \<ge> 200 \<and> tid (timeout_timer s) \<noteq> 0 then (PJ_EEXISTS, s)
      else (PJ_SUCCESS,
            tsx_restart_timer Timeout_Timer
              (pj_time_val_normalize (Time_Val 0 (int millisec))) TIMEOUT_TIMER s))"

definition pjsip_tsx_retransmit_no_state ::
  "tsx_env \<Rightarrow> nat option \<Rightarrow> tsx \<Rightarrow> pj_status_t \<times> tsx" where
  "pjsip_tsx_retransmit_no_state e tdata s =
     (let s1 = tsx_grp_lock_acquire s;
          tx = (case tdata of Some x \<Rightarrow> Some x | None \<Rightarrow> last_tx s1);
          s2 = (case tdata of
                  Some _ \<Rightarrow> s1
                | None \<Rightarrow> (case tx of Some x \<Rightarrow> pjsip_tx_data_add_ref x s1 | None \<Rightarrow> s1));
          (status, s3) = tsx_send_msg e tx s2;
          s4 = tsx_grp_lock_release s3
      in (status,
          if status = PJ_SUCCESS
          then (case tx of Some x \<Rightarrow> pjsip_tx_data_dec_ref x s4 | None \<Rightarrow> s4) else s4))"

section \<open>Timers\<close>

text \<open>The server transaction of an INVITE without a final response survives the loss of its
  transport (\<^verbatim>\<open>PJSIP_TSX_UAS_CONTINUE_ON_TP_ERROR\<close> is set).\<close>

definition continue_on_tp_error :: "bool \<Rightarrow> tsx \<Rightarrow> bool" where
  "continue_on_tp_error tp_disc s \<longleftrightarrow>
     tp_disc \<and> meth s = PJSIP_INVITE_METHOD \<and> role s = PJSIP_ROLE_UAS \<and> status_code s < 200 \<and>
     \<not> has_pending_transport s \<and> \<not> has_pending_destroy s"

definition clear_flags :: "tsx \<Rightarrow> tsx" where
  "clear_flags s = s\<lparr>has_pending_transport := False, has_pending_resched := False,
     has_pending_send := False, has_pending_destroy := False, has_resolved_server := False\<rparr>"

definition tsx_transport_gone :: "tsx_env \<Rightarrow> bool \<Rightarrow> tsx \<Rightarrow> tsx" where
  "tsx_transport_gone e tp_disc s =
     (let s1 = tsx_grp_lock_acquire s;
          s2 = tsx_update_transport 0 False s1
      in if continue_on_tp_error tp_disc s2 then tsx_grp_lock_release (clear_flags s2)
         else (let s3 = (if status_code s2 < 200
                         then tsx_set_status_code PJSIP_SC_TSX_TRANSPORT_ERROR s2 else s2);
                   s4 = tsx_grp_lock_release
                          (tsx_set_state e PJSIP_TSX_STATE_TERMINATED Src_Transport_Error
                            (flags_none\<lparr>no_notify := True, no_schedule_handler := True\<rparr>) s3);
                   s5 = (case tsx_user s4 of
                           Some u \<Rightarrow>
                             if has_on_tsx_state u
                             then on_tsx_state e (s4\<lparr>tsx_logs :=
                                    tsx_logs s4 @ [Log_Tsx_State (state s1) (state s4)]\<rparr>)
                             else s4
                         | None \<Rightarrow> s4)
               in tsx_schedule_timer Timeout_Timer timeout_zero TIMEOUT_TIMER s5))"

definition clear_tid :: "tsx_entry \<Rightarrow> tsx \<Rightarrow> tsx" where
  "clear_tid en s = set_timer en ((timer_of en s)\<lparr>tid := 0\<rparr>) s"

definition tsx_timer_callback :: "tsx_env \<Rightarrow> tsx_entry \<Rightarrow> tsx \<Rightarrow> tsx" where
  "tsx_timer_callback e en s =
     (let i = tid (timer_of en s)
      in if state s \<ge> PJSIP_TSX_STATE_DESTROYED then s
         else if i = TERMINATE_TIMER
         then (if state s < PJSIP_TSX_STATE_TERMINATED
               then snd (pjsip_tsx_terminate e (status_code s) s) else s)
         else if i = TRANSPORT_ERR_TIMER \<or> i = TRANSPORT_DISC_TIMER
         then (let s1 = clear_tid en s
               in if state s1 < PJSIP_TSX_STATE_TERMINATED
                  then tsx_transport_gone e (i = TRANSPORT_DISC_TIMER) s1 else s1)
         else snd (locked_handler e (Event_Timer en) (clear_tid en s)))"

section \<open>Creation\<close>

definition idle_timer :: tsx_timer where
  "idle_timer = \<lparr>tid = TIMER_INACTIVE, running = False, tdelay = timeout_zero\<rparr>"

text \<open>\<^verbatim>\<open>tsx_create\<close>: everything is zero but the fields set here; the own reference is taken.\<close>

definition tsx_create ::
  "pjsip_module option \<Rightarrow> (nat \<Rightarrow> pjsip_tx_data) \<Rightarrow> tsx_answer list \<Rightarrow> int \<Rightarrow> tsx" where
  "tsx_create user store script lock_refs =
     \<lparr>tsx_user = user, terminating = False, grp_refs = lock_refs + 1, freed = False, held = 0,
      role = PJSIP_ROLE_UAC, meth = PJSIP_INVITE_METHOD, cseq = 0, status_code = 0,
      state = PJSIP_TSX_STATE_NULL, handle_200resp = True, state_handler = None, transport = 0,
      is_reliable = False, has_pending_transport = False, has_pending_resched = False,
      has_pending_send = False, has_pending_destroy = False, has_resolved_server = False,
      transport_err = 0, pending_tx = None, last_tx = None, retransmit_count = 0,
      retransmit_timer = idle_timer, timeout_timer = idle_timer, misc_timer = idle_timer,
      misc_param = (0, 0), registered = False, attached = {}, tdatas = store, fired = [],
      tp_sends = [], answers = script, hist = [PJSIP_TSX_STATE_NULL], tsx_logs = []\<rparr>"

text \<open>The fields \<^verbatim>\<open>pjsip_tsx_create_uac2\<close> sets once the message is known to be a request other
  than ACK, up to the registration; \<open>rel\<close> is the reliability of the destination.\<close>

definition tsx_init_uac :: "pjsip_method_e \<Rightarrow> int \<Rightarrow> nat \<Rightarrow> bool \<Rightarrow> tsx \<Rightarrow> tsx" where
  "tsx_init_uac m cs x rel s =
     (pjsip_tx_data_add_ref x
        (s\<lparr>role := PJSIP_ROLE_UAC, meth := m, cseq := cs, state := PJSIP_TSX_STATE_NULL,
           state_handler := Some On_State_Null, last_tx := Some x\<rparr>))\<lparr>is_reliable := rel\<rparr>"

text \<open>The same for \<^verbatim>\<open>pjsip_tsx_create_uas2\<close>; \<open>tp\<close> is the transport of the response address.\<close>

definition tsx_init_uas :: "pjsip_method_e \<Rightarrow> int \<Rightarrow> nat \<Rightarrow> bool \<Rightarrow> bool \<Rightarrow> tsx \<Rightarrow> tsx" where
  "tsx_init_uas m cs tp rel down s =
     (let s1 = s\<lparr>role := PJSIP_ROLE_UAS, meth := m, cseq := cs, state := PJSIP_TSX_STATE_NULL,
                 state_handler := Some On_State_Null\<rparr>
      in (if tp \<noteq> 0 then tsx_update_transport tp down s1 else s1)\<lparr>is_reliable := rel\<rparr>)"

definition register_tsx :: "tsx \<Rightarrow> tsx" where
  "register_tsx s = s\<lparr>registered := True\<rparr>"

end
