(* ===== verification/Pjsip_Tsx_Run.thy ===== *)
theory Pjsip_Tsx_Run
  imports Pjsip_Tsx
begin

text \<open>
  Runs of one SIP transaction. The environment is closed here: inside a callback of the
  transaction user, and inside a call of the transport layer, the environment performs the
  actions its next answer lists, and each of them may again lead to callbacks. \<open>tsx_world g n\<close>
  is the environment with at most \<open>n\<close> levels of nesting; every finite execution has one, and the
  theorems hold for all \<open>n\<close>.

  An action is performed only where it can occur (\<open>tsx_enabled\<close>). Another thread can deliver a
  message, run a timer callback or complete a send only when the group lock is free; the thread
  that holds it may call the interface from a callback. During a call of the transport layer the
  events of the transport layer itself can occur, the completion of the message being handed over
  included. Two threads that are both inside a callback with the lock released return in the
  reverse order; a callback is atomic up to its own calls, and the tests a timer callback makes
  before it takes the lock are made together with taking it.
\<close>

datatype tsx_site = In_User | In_Transport | In_Stateless nat bool

text \<open>Which actions can occur. Obligations of the transaction user: a server transaction is given
  the request before it is asked to send, and nothing is retransmitted by hand once the
  transaction is terminated. Documented behaviour of the transport layer: \<^verbatim>\<open>sent\<close> is not zero, a
  successful send names its transport, a disconnection has a reason, and a send that is refused
  has not called back.\<close>

definition lock_free :: "tsx \<Rightarrow> bool" where
  "lock_free s \<longleftrightarrow> held s = 0"

text \<open>The transaction user is inside the callback that announces the destruction. A completion of
  the transport layer that arrives there is left out (the properties show what it can do).\<close>

definition being_destroyed :: "tsx \<Rightarrow> bool" where
  "being_destroyed s \<longleftrightarrow> state s = PJSIP_TSX_STATE_DESTROYED \<and> \<not> terminating s"

fun tsx_enabled :: "tsx_site \<Rightarrow> tsx_action \<Rightarrow> tsx \<Rightarrow> bool" where
  "tsx_enabled site (Send_Msg td) s \<longleftrightarrow>
     site = In_User \<and> (role s = PJSIP_ROLE_UAS \<longrightarrow> state s \<noteq> PJSIP_TSX_STATE_NULL)"
| "tsx_enabled site (Terminate code) s \<longleftrightarrow> site = In_User"
| "tsx_enabled site (Terminate_Async code ms) s \<longleftrightarrow> site = In_User"
| "tsx_enabled site Stop_Retransmit s \<longleftrightarrow> site = In_User"
| "tsx_enabled site (Set_Timeout ms) s \<longleftrightarrow> True"
| "tsx_enabled site (Retransmit_No_State td) s \<longleftrightarrow>
     site = In_User \<and> state s < PJSIP_TSX_STATE_TERMINATED"
| "tsx_enabled site (Recv_Msg m) s \<longleftrightarrow>
     site = In_User \<and> lock_free s \<and> (is_request m \<longleftrightarrow> role s = PJSIP_ROLE_UAS)"
| "tsx_enabled site (Poll en) s \<longleftrightarrow> running (timer_of en s)"
| "tsx_enabled site (Dispatch en) s \<longleftrightarrow> site = In_User \<and> lock_free s \<and> en \<in> set (fired s) \<and>
     (en = Misc_Timer \<longrightarrow> \<not> being_destroyed s)"
| "tsx_enabled site (Send_Cb x sent cont tp rel down) s \<longleftrightarrow>
     sent \<noteq> 0 \<and> (sent > 0 \<longrightarrow> tp \<noteq> 0) \<and>
     (site = In_User \<and> lock_free s \<and> \<not> being_destroyed s \<or> site = In_Stateless x True)"
| "tsx_enabled site (Transport_Cb x sent) s \<longleftrightarrow>
     sent \<noteq> 0 \<and> x \<in> set (tp_sends s) \<and> \<not> being_destroyed s"
| "tsx_enabled site (Tp_State status) s \<longleftrightarrow> status \<noteq> 0 \<and> transport s \<noteq> 0"
| "tsx_enabled site (Set_Pending x b) s \<longleftrightarrow> True"

text \<open>A timer entry leaves the heap; its reference of the group lock is dropped when its callback
  has run.\<close>

definition poll_timer :: "tsx_entry \<Rightarrow> tsx \<Rightarrow> tsx" where
  "poll_timer en s =
     (set_timer en ((timer_of en s)\<lparr>running := False\<rparr>) s)\<lparr>fired := fired s @ [en]\<rparr>"

definition dispatch_timer :: "tsx_env \<Rightarrow> tsx_entry \<Rightarrow> tsx \<Rightarrow> tsx" where
  "dispatch_timer e en s =
     (let s1 = s\<lparr>fired := remove1 en (fired s)\<rparr>
      in tsx_grp_lock_dec_ref
           (if en = Misc_Timer then tsx_misc_timer_callback e s1 else tsx_timer_callback e en s1))"

fun tsx_do :: "tsx_env \<Rightarrow> tsx_action \<Rightarrow> tsx \<Rightarrow> tsx" where
  "tsx_do e (Send_Msg td) s = snd (pjsip_tsx_send_msg e td s)"
| "tsx_do e (Terminate code) s = snd (pjsip_tsx_terminate e code s)"
| "tsx_do e (Terminate_Async code ms) s = snd (pjsip_tsx_terminate_async2 code ms s)"
| "tsx_do e Stop_Retransmit s = snd (pjsip_tsx_stop_retransmit s)"
| "tsx_do e (Set_Timeout ms) s = snd (pjsip_tsx_set_timeout ms s)"
| "tsx_do e (Retransmit_No_State td) s = snd (pjsip_tsx_retransmit_no_state e td s)"
| "tsx_do e (Recv_Msg m) s = pjsip_tsx_recv_msg e m s"
| "tsx_do e (Poll en) s = poll_timer en s"
| "tsx_do e (Dispatch en) s = dispatch_timer e en s"
| "tsx_do e (Send_Cb x sent cont tp rel down) s = send_msg_callback e x sent cont tp rel down s"
| "tsx_do e (Transport_Cb x sent) s =
     transport_callback e x sent (s\<lparr>tp_sends := remove1 x (tp_sends s)\<rparr>)"
| "tsx_do e (Tp_State status) s = tsx_tp_state_callback status s"
| "tsx_do e (Set_Pending x b) s =
     s\<lparr>tdatas := (tdatas s)(x := (tdatas s x)\<lparr>is_pending := b\<rparr>)\<rparr>"

definition tsx_step :: "tsx_env \<Rightarrow> tsx_site \<Rightarrow> tsx_action \<Rightarrow> tsx \<Rightarrow> tsx" where
  "tsx_step e site a s = (if tsx_enabled site a s then tsx_do e a s else s)"

definition tsx_run :: "tsx_env \<Rightarrow> tsx_site \<Rightarrow> tsx_action list \<Rightarrow> tsx \<Rightarrow> tsx" where
  "tsx_run e site acts s = fold (tsx_step e site) acts s"

definition default_answer :: tsx_answer where
  "default_answer = \<lparr>ans_acts = [], ans_status = PJ_SUCCESS, ans_obj = 0\<rparr>"

definition next_answer :: "tsx \<Rightarrow> tsx_answer" where
  "next_answer s = (case answers s of [] \<Rightarrow> default_answer | a # _ \<Rightarrow> a)"

definition drop_answer :: "tsx \<Rightarrow> tsx" where
  "drop_answer s = s\<lparr>answers := tl (answers s)\<rparr>"

fun call_site :: "tsx_call \<Rightarrow> pj_status_t \<Rightarrow> tsx_site" where
  "call_site (Transport_Send x) st = In_Transport"
| "call_site (Stateless_Send x) st = In_Stateless x (st = PJ_SUCCESS \<or> st = PJ_EPENDING)"
| "call_site Create_Ack st = In_Transport"

text \<open>\<^verbatim>\<open>pjsip_endpt_create_ack\<close> makes a new message with one reference.\<close>

definition new_object :: "tsx_call \<Rightarrow> tsx_answer \<Rightarrow> tsx \<Rightarrow> tsx" where
  "new_object c a s =
     (if c = Create_Ack \<and> ans_status a = PJ_SUCCESS
      then s\<lparr>tdatas := (tdatas s)(ans_obj a :=
             \<lparr>ref_cnt = 1, is_pending = False, msg = PJSIP_REQUEST_MSG PJSIP_ACK_METHOD\<rparr>)\<rparr>
      else s)"

primrec tsx_world :: "tsx_config \<Rightarrow> nat \<Rightarrow> tsx_env" where
  "tsx_world g 0 = \<lparr>tcfg = g, on_tsx_state = drop_answer,
     call_out = (\<lambda>c s. (next_answer s, new_object c (next_answer s) (drop_answer s)))\<rparr>"
| "tsx_world g (Suc n) = \<lparr>tcfg = g,
     on_tsx_state = (\<lambda>s. tsx_run (tsx_world g n) In_User (ans_acts (next_answer s)) (drop_answer s)),
     call_out = (\<lambda>c s. let a = next_answer s
        in (a, new_object c a
                 (tsx_run (tsx_world g n) (call_site c (ans_status a)) (ans_acts a)
                   (drop_answer s))))\<rparr>"

text \<open>A run starts with a freshly created and registered transaction, on which no lock is held.\<close>

definition tsx_new_uac ::
  "pjsip_module option \<Rightarrow> (nat \<Rightarrow> pjsip_tx_data) \<Rightarrow> tsx_answer list \<Rightarrow> int \<Rightarrow> pjsip_method_e \<Rightarrow> int \<Rightarrow>
   nat \<Rightarrow> bool \<Rightarrow> tsx" where
  "tsx_new_uac user store script refs m cs x rel =
     register_tsx (tsx_init_uac m cs x rel (tsx_create user store script refs))"

definition tsx_new_uas ::
  "pjsip_module option \<Rightarrow> (nat \<Rightarrow> pjsip_tx_data) \<Rightarrow> tsx_answer list \<Rightarrow> int \<Rightarrow> pjsip_method_e \<Rightarrow> int \<Rightarrow>
   nat \<Rightarrow> bool \<Rightarrow> bool \<Rightarrow> tsx" where
  "tsx_new_uas user store script refs m cs tp rel down =
     register_tsx (tsx_init_uas m cs tp rel down (tsx_create user store script refs))"

end
