(* ===== verification/Pjsip_Tsx_Inv.thy ===== *)
theory Pjsip_Tsx_Inv
  imports Pjsip_Tsx_Run
begin

text \<open>
  The invariant of a SIP transaction and the proof that every operation keeps it. \<open>tsx_edge\<close> is
  the abstract machine, the state diagrams of RFC 3261 with the shortcuts of the implementation.
  The locale \<open>tsx_environment\<close> states what the transaction relies on while it has called the
  transaction user or the transport layer; every operation is shown to keep the invariant under
  it, and \<open>Pjsip_Tsx_Close\<close> interprets it on the environments of the model.
\<close>

section \<open>The abstract machine\<close>

inductive tsx_edge :: "pjsip_role_e \<Rightarrow> pjsip_method_e \<Rightarrow> pjsip_tsx_state_e \<Rightarrow> pjsip_tsx_state_e \<Rightarrow> bool"
  for r m where
  request_sent: "r = PJSIP_ROLE_UAC \<Longrightarrow> tsx_edge r m PJSIP_TSX_STATE_NULL PJSIP_TSX_STATE_CALLING"
| request_received: "r = PJSIP_ROLE_UAS \<Longrightarrow> tsx_edge r m PJSIP_TSX_STATE_NULL PJSIP_TSX_STATE_TRYING"
| provisional:
    "a = PJSIP_TSX_STATE_CALLING \<and> r = PJSIP_ROLE_UAC \<or> a = PJSIP_TSX_STATE_TRYING \<and> r = PJSIP_ROLE_UAS \<or>
     a = PJSIP_TSX_STATE_PROCEEDING \<Longrightarrow> tsx_edge r m a PJSIP_TSX_STATE_PROCEEDING"
| final:
    "a = PJSIP_TSX_STATE_CALLING \<and> r = PJSIP_ROLE_UAC \<or> a = PJSIP_TSX_STATE_TRYING \<and> r = PJSIP_ROLE_UAS \<or>
     a = PJSIP_TSX_STATE_PROCEEDING \<Longrightarrow> tsx_edge r m a PJSIP_TSX_STATE_COMPLETED"
| ack_received:
    "r = PJSIP_ROLE_UAS \<Longrightarrow> m = PJSIP_INVITE_METHOD \<Longrightarrow>
     tsx_edge r m PJSIP_TSX_STATE_COMPLETED PJSIP_TSX_STATE_CONFIRMED"
| terminated: "a < PJSIP_TSX_STATE_TERMINATED \<Longrightarrow> tsx_edge r m a PJSIP_TSX_STATE_TERMINATED"
| send_failed_again:
    "r = PJSIP_ROLE_UAC \<Longrightarrow> tsx_edge r m PJSIP_TSX_STATE_TERMINATED PJSIP_TSX_STATE_TERMINATED"
| destroyed: "tsx_edge r m PJSIP_TSX_STATE_TERMINATED PJSIP_TSX_STATE_DESTROYED"
| destroyed_late: "tsx_edge r m PJSIP_TSX_STATE_DESTROYED PJSIP_TSX_STATE_DESTROYED"

lemmas state_order = less_eq_pjsip_tsx_state_e_def less_pjsip_tsx_state_e_def

inductive_cases tsx_edgeE: "tsx_edge r m a b"


lemma destroyed_top [simp]:
  "x \<le> PJSIP_TSX_STATE_DESTROYED"
  "PJSIP_TSX_STATE_DESTROYED \<le> x \<longleftrightarrow> x = PJSIP_TSX_STATE_DESTROYED"
  by (cases x; simp add: state_order)+

lemma tsx_edge_destroyed: "tsx_edge r m PJSIP_TSX_STATE_DESTROYED b \<Longrightarrow> b = PJSIP_TSX_STATE_DESTROYED"
  by (erule tsx_edgeE) (auto simp: state_order)

lemma tsx_edge_mono: "tsx_edge r m a b \<Longrightarrow> a \<le> b"
  by (erule tsx_edgeE) (auto simp: state_order)

text \<open>Which states a transaction of a role and method can be in; exactly those with a handler.\<close>

definition state_typed :: "pjsip_role_e \<Rightarrow> pjsip_method_e \<Rightarrow> pjsip_tsx_state_e \<Rightarrow> bool" where
  "state_typed r m st \<longleftrightarrow>
     (r = PJSIP_ROLE_UAC \<longrightarrow> st \<noteq> PJSIP_TSX_STATE_TRYING \<and> st \<noteq> PJSIP_TSX_STATE_CONFIRMED) \<and>
     (r = PJSIP_ROLE_UAS \<longrightarrow> st \<noteq> PJSIP_TSX_STATE_CALLING) \<and>
     (st = PJSIP_TSX_STATE_CONFIRMED \<longrightarrow> m = PJSIP_INVITE_METHOD)"

lemma tsx_edge_typed: "tsx_edge r m a b \<Longrightarrow> state_typed r m b"
  by (erule tsx_edgeE) (auto simp: state_typed_def)

definition handler_table :: "pjsip_role_e \<Rightarrow> pjsip_tsx_state_e \<Rightarrow> tsx_handler option" where
  "handler_table r st =
     (if r = PJSIP_ROLE_UAC then tsx_state_handler_uac st else tsx_state_handler_uas st)"

lemma handler_typed: "state_typed r m st \<Longrightarrow> handler_table r st \<noteq> None"
  by (cases r; cases st) (simp_all add: state_typed_def handler_table_def)

section \<open>The invariant\<close>

definition hist_ok :: "tsx \<Rightarrow> bool" where
  "hist_ok s \<longleftrightarrow> hist s \<noteq> [] \<and> hd (hist s) = PJSIP_TSX_STATE_NULL \<and> last (hist s) = state s \<and>
     successively (tsx_edge (role s) (meth s)) (hist s)"

text \<open>Completions the transport layer still owes, directly or through the miscellaneous timer.\<close>

definition owes_completion :: "tsx \<Rightarrow> bool" where
  "owes_completion s \<longleftrightarrow>
     tp_sends s \<noteq> [] \<or> running (misc_timer s) \<or> Misc_Timer \<in> set (fired s)"

text \<open>A client transaction uses a transport only once it has resolved the server, and a message
  waits only for a completion that is still to come.\<close>

definition uac_ok :: "tsx \<Rightarrow> bool" where
  "uac_ok s \<longleftrightarrow> (role s = PJSIP_ROLE_UAC \<longrightarrow>
     (transport s \<noteq> 0 \<or> owes_completion s \<longrightarrow> has_resolved_server s) \<and>
     (has_pending_send s \<longrightarrow> has_pending_transport s \<or> has_resolved_server s \<or>
        PJSIP_TSX_STATE_TERMINATED \<le> state s))"

definition destroy_ok :: "tsx \<Rightarrow> bool" where
  "destroy_ok s \<longleftrightarrow>
     (terminating s \<or> \<not> registered s \<or> has_pending_destroy s \<longrightarrow> state s = PJSIP_TSX_STATE_DESTROYED) \<and>
     (terminating s \<longrightarrow> \<not> has_pending_send s)"

definition tsx_ok :: "tsx \<Rightarrow> bool" where
  "tsx_ok s \<longleftrightarrow> hist_ok s \<and> state_typed (role s) (meth s) (state s) \<and>
     state_handler s = handler_table (role s) (state s) \<and> uac_ok s \<and> destroy_ok s"

text \<open>A destroyed transaction has been shut down, except inside the callback that announces it.\<close>

definition settled :: "tsx \<Rightarrow> bool" where
  "settled s \<longleftrightarrow> (state s = PJSIP_TSX_STATE_DESTROYED \<longrightarrow> terminating s \<and> \<not> registered s)"

text \<open>What any operation does to a transaction, whoever calls it. While the lock is held a
  transaction is not destroyed.\<close>

definition tsx_grows :: "tsx \<Rightarrow> tsx \<Rightarrow> bool" where
  "tsx_grows s s' \<longleftrightarrow>
     role s' = role s \<and> meth s' = meth s \<and> held s' = held s \<and> state s \<le> state s' \<and>
     (transport_err s \<noteq> 0 \<longrightarrow> transport_err s' \<noteq> 0) \<and> (settled s \<longrightarrow> settled s') \<and>
     (terminating s \<longrightarrow> terminating s') \<and>
     (role s = PJSIP_ROLE_UAC \<longrightarrow> has_resolved_server s \<longrightarrow> has_resolved_server s')"

definition undestroyed :: "tsx \<Rightarrow> tsx \<Rightarrow> bool" where
  "undestroyed s s' \<longleftrightarrow>
     (state s' = PJSIP_TSX_STATE_DESTROYED \<longrightarrow> state s = PJSIP_TSX_STATE_DESTROYED)"

definition tsx_evolves :: "tsx \<Rightarrow> tsx \<Rightarrow> bool" where
  "tsx_evolves s s' \<longleftrightarrow> tsx_grows s s' \<and> (0 < held s \<longrightarrow> undestroyed s s')"

lemma tsx_grows_refl [simp]: "tsx_grows s s"
  by (simp add: tsx_grows_def)

lemma tsx_grows_trans: "tsx_grows s t \<Longrightarrow> tsx_grows t u \<Longrightarrow> tsx_grows s u"
  unfolding tsx_grows_def by (elim conjE, intro conjI; (simp; fail)?, (blast intro: order_trans)?)

lemma undestroyed_trans: "undestroyed s t \<Longrightarrow> undestroyed t u \<Longrightarrow> undestroyed s u"
  by (simp add: undestroyed_def)

lemma undestroyed_same: "state s' = state s \<Longrightarrow> undestroyed s s'"
  by (simp add: undestroyed_def)

lemma tsx_evolves_refl [simp]: "tsx_evolves s s"
  by (simp add: tsx_evolves_def undestroyed_def)

lemma tsx_evolves_trans: "tsx_evolves s t \<Longrightarrow> tsx_evolves t u \<Longrightarrow> tsx_evolves s u"
  unfolding tsx_evolves_def using tsx_grows_trans undestroyed_trans
  by (metis tsx_grows_def)

lemma tsx_evolves_fields:
  assumes "tsx_evolves s s'"
  shows "role s' = role s" "meth s' = meth s" "held s' = held s" "state s \<le> state s'"
  using assms by (simp_all add: tsx_evolves_def tsx_grows_def)

text \<open>What happens while a message is being handed over: the state stays as it is, or the hand-over
  has failed for good and the transaction is terminated with an error.\<close>

definition sending :: "tsx \<Rightarrow> tsx \<Rightarrow> bool" where
  "sending s s' \<longleftrightarrow> state s' = state s \<or>
     state s' = PJSIP_TSX_STATE_TERMINATED \<and> transport_err s' \<noteq> 0"

lemma sending_refl [simp]: "sending s s"
  by (simp add: sending_def)

lemma sending_trans:
  "sending s t \<Longrightarrow> sending t u \<Longrightarrow> tsx_evolves t u \<Longrightarrow> sending s u"
  by (auto simp: sending_def tsx_evolves_def tsx_grows_def)

definition busy :: "tsx \<Rightarrow> bool" where
  "busy s \<longleftrightarrow> tsx_ok s \<and> 0 < held s \<and> state s \<noteq> PJSIP_TSX_STATE_DESTROYED"

definition resolving :: "tsx \<Rightarrow> bool" where
  "resolving s \<longleftrightarrow> busy s \<and>
     (role s = PJSIP_ROLE_UAC \<longrightarrow> has_pending_send s \<longrightarrow> PJSIP_TSX_STATE_TERMINATED \<le> state s)"

section \<open>What the elementary operations leave alone\<close>

lemma cancel_timer_frame [simp]:
  "role (tsx_cancel_timer en s) = role s" "meth (tsx_cancel_timer en s) = meth s"
  "held (tsx_cancel_timer en s) = held s" "state (tsx_cancel_timer en s) = state s"
  "state_handler (tsx_cancel_timer en s) = state_handler s"
  "hist (tsx_cancel_timer en s) = hist s" "transport (tsx_cancel_timer en s) = transport s"
  "has_pending_transport (tsx_cancel_timer en s) = has_pending_transport s"
  "has_pending_resched (tsx_cancel_timer en s) = has_pending_resched s"
  "has_pending_send (tsx_cancel_timer en s) = has_pending_send s"
  "has_pending_destroy (tsx_cancel_timer en s) = has_pending_destroy s"
  "has_resolved_server (tsx_cancel_timer en s) = has_resolved_server s"
  "transport_err (tsx_cancel_timer en s) = transport_err s"
  "terminating (tsx_cancel_timer en s) = terminating s"
  "registered (tsx_cancel_timer en s) = registered s"
  "tp_sends (tsx_cancel_timer en s) = tp_sends s" "fired (tsx_cancel_timer en s) = fired s"
  "tsx_user (tsx_cancel_timer en s) = tsx_user s"
  "status_code (tsx_cancel_timer en s) = status_code s"
  "is_reliable (tsx_cancel_timer en s) = is_reliable s"
  "last_tx (tsx_cancel_timer en s) = last_tx s"
  "pending_tx (tsx_cancel_timer en s) = pending_tx s"
  "attached (tsx_cancel_timer en s) = attached s" "tdatas (tsx_cancel_timer en s) = tdatas s"
  "retransmit_count (tsx_cancel_timer en s) = retransmit_count s"
  "handle_200resp (tsx_cancel_timer en s) = handle_200resp s"
  "answers (tsx_cancel_timer en s) = answers s" "tsx_logs (tsx_cancel_timer en s) = tsx_logs s"
  "misc_param (tsx_cancel_timer en s) = misc_param s"
  by (cases en; simp add: tsx_cancel_timer_def tsx_grp_lock_dec_ref_def)+

lemma schedule_timer_frame [simp]:
  "role (tsx_schedule_timer en d i s) = role s" "meth (tsx_schedule_timer en d i s) = meth s"
  "held (tsx_schedule_timer en d i s) = held s" "state (tsx_schedule_timer en d i s) = state s"
  "state_handler (tsx_schedule_timer en d i s) = state_handler s"
  "hist (tsx_schedule_timer en d i s) = hist s"
  "transport (tsx_schedule_timer en d i s) = transport s"
  "has_pending_transport (tsx_schedule_timer en d i s) = has_pending_transport s"
  "has_pending_resched (tsx_schedule_timer en d i s) = has_pending_resched s"
  "has_pending_send (tsx_schedule_timer en d i s) = has_pending_send s"
  "has_pending_destroy (tsx_schedule_timer en d i s) = has_pending_destroy s"
  "has_resolved_server (tsx_schedule_timer en d i s) = has_resolved_server s"
  "transport_err (tsx_schedule_timer en d i s) = transport_err s"
  "terminating (tsx_schedule_timer en d i s) = terminating s"
  "registered (tsx_schedule_timer en d i s) = registered s"
  "tp_sends (tsx_schedule_timer en d i s) = tp_sends s"
  "fired (tsx_schedule_timer en d i s) = fired s"
  "tsx_user (tsx_schedule_timer en d i s) = tsx_user s"
  "status_code (tsx_schedule_timer en d i s) = status_code s"
  "is_reliable (tsx_schedule_timer en d i s) = is_reliable s"
  "last_tx (tsx_schedule_timer en d i s) = last_tx s"
  "pending_tx (tsx_schedule_timer en d i s) = pending_tx s"
  "attached (tsx_schedule_timer en d i s) = attached s"
  "tdatas (tsx_schedule_timer en d i s) = tdatas s"
  "retransmit_count (tsx_schedule_timer en d i s) = retransmit_count s"
  "handle_200resp (tsx_schedule_timer en d i s) = handle_200resp s"
  "answers (tsx_schedule_timer en d i s) = answers s"
  "tsx_logs (tsx_schedule_timer en d i s) = tsx_logs s"
  "misc_param (tsx_schedule_timer en d i s) = misc_param s"
  by (cases en; simp add: tsx_schedule_timer_def tsx_grp_lock_add_ref_def)+

lemma restart_timer_frame [simp]:
  "role (tsx_restart_timer en d i s) = role s" "meth (tsx_restart_timer en d i s) = meth s"
  "held (tsx_restart_timer en d i s) = held s" "state (tsx_restart_timer en d i s) = state s"
  "state_handler (tsx_restart_timer en d i s) = state_handler s"
  "hist (tsx_restart_timer en d i s) = hist s"
  "transport (tsx_restart_timer en d i s) = transport s"
  "has_pending_transport (tsx_restart_timer en d i s) = has_pending_transport s"
  "has_pending_resched (tsx_restart_timer en d i s) = has_pending_resched s"
  "has_pending_send (tsx_restart_timer en d i s) = has_pending_send s"
  "has_pending_destroy (tsx_restart_timer en d i s) = has_pending_destroy s"
  "has_resolved_server (tsx_restart_timer en d i s) = has_resolved_server s"
  "transport_err (tsx_restart_timer en d i s) = transport_err s"
  "terminating (tsx_restart_timer en d i s) = terminating s"
  "registered (tsx_restart_timer en d i s) = registered s"
  "tp_sends (tsx_restart_timer en d i s) = tp_sends s"
  "fired (tsx_restart_timer en d i s) = fired s"
  "tsx_user (tsx_restart_timer en d i s) = tsx_user s"
  "status_code (tsx_restart_timer en d i s) = status_code s"
  "is_reliable (tsx_restart_timer en d i s) = is_reliable s"
  "last_tx (tsx_restart_timer en d i s) = last_tx s"
  "pending_tx (tsx_restart_timer en d i s) = pending_tx s"
  "attached (tsx_restart_timer en d i s) = attached s"
  "tdatas (tsx_restart_timer en d i s) = tdatas s"
  "retransmit_count (tsx_restart_timer en d i s) = retransmit_count s"
  "handle_200resp (tsx_restart_timer en d i s) = handle_200resp s"
  "answers (tsx_restart_timer en d i s) = answers s"
  "tsx_logs (tsx_restart_timer en d i s) = tsx_logs s"
  "misc_param (tsx_restart_timer en d i s) = misc_param s"
  by (simp_all add: tsx_restart_timer_def)

lemma misc_timer_frame [simp]:
  "en \<noteq> Misc_Timer \<Longrightarrow> misc_timer (tsx_cancel_timer en s) = misc_timer s"
  "en \<noteq> Misc_Timer \<Longrightarrow> misc_timer (tsx_schedule_timer en d i s) = misc_timer s"
  "en \<noteq> Misc_Timer \<Longrightarrow> misc_timer (tsx_restart_timer en d i s) = misc_timer s"
  by (cases en; simp add: tsx_cancel_timer_def tsx_schedule_timer_def tsx_restart_timer_def
      tsx_grp_lock_dec_ref_def tsx_grp_lock_add_ref_def)+

lemma tp_state_frame [simp]:
  "role (tsx_tp_state_callback st s) = role s" "meth (tsx_tp_state_callback st s) = meth s"
  "held (tsx_tp_state_callback st s) = held s" "state (tsx_tp_state_callback st s) = state s"
  "state_handler (tsx_tp_state_callback st s) = state_handler s"
  "hist (tsx_tp_state_callback st s) = hist s"
  "transport (tsx_tp_state_callback st s) = transport s"
  "has_pending_resched (tsx_tp_state_callback st s) = has_pending_resched s"
  "has_pending_send (tsx_tp_state_callback st s) = has_pending_send s"
  "has_pending_destroy (tsx_tp_state_callback st s) = has_pending_destroy s"
  "has_resolved_server (tsx_tp_state_callback st s) = has_resolved_server s"
  "terminating (tsx_tp_state_callback st s) = terminating s"
  "registered (tsx_tp_state_callback st s) = registered s"
  "tp_sends (tsx_tp_state_callback st s) = tp_sends s"
  "fired (tsx_tp_state_callback st s) = fired s"
  "tsx_user (tsx_tp_state_callback st s) = tsx_user s"
  "status_code (tsx_tp_state_callback st s) = status_code s"
  "is_reliable (tsx_tp_state_callback st s) = is_reliable s"
  "last_tx (tsx_tp_state_callback st s) = last_tx s"
  "pending_tx (tsx_tp_state_callback st s) = pending_tx s"
  "attached (tsx_tp_state_callback st s) = attached s"
  "tdatas (tsx_tp_state_callback st s) = tdatas s"
  "retransmit_count (tsx_tp_state_callback st s) = retransmit_count s"
  "handle_200resp (tsx_tp_state_callback st s) = handle_200resp s"
  "answers (tsx_tp_state_callback st s) = answers s"
  "tsx_logs (tsx_tp_state_callback st s) = tsx_logs s"
  "misc_param (tsx_tp_state_callback st s) = misc_param s"
  "misc_timer (tsx_tp_state_callback st s) = misc_timer s"
  "has_pending_transport (tsx_tp_state_callback st s) = False"
  "transport_err (tsx_tp_state_callback st s) = st"
  by (simp_all add: tsx_tp_state_callback_def Let_def)

lemma drop_transport_frame [simp]:
  "role (tsx_update_transport 0 False s) = role s"
  "meth (tsx_update_transport 0 False s) = meth s"
  "held (tsx_update_transport 0 False s) = held s"
  "state (tsx_update_transport 0 False s) = state s"
  "state_handler (tsx_update_transport 0 False s) = state_handler s"
  "hist (tsx_update_transport 0 False s) = hist s"
  "has_pending_transport (tsx_update_transport 0 False s) = has_pending_transport s"
  "has_pending_resched (tsx_update_transport 0 False s) = has_pending_resched s"
  "has_pending_send (tsx_update_transport 0 False s) = has_pending_send s"
  "has_pending_destroy (tsx_update_transport 0 False s) = has_pending_destroy s"
  "has_resolved_server (tsx_update_transport 0 False s) = has_resolved_server s"
  "transport_err (tsx_update_transport 0 False s) = transport_err s"
  "terminating (tsx_update_transport 0 False s) = terminating s"
  "registered (tsx_update_transport 0 False s) = registered s"
  "tp_sends (tsx_update_transport 0 False s) = tp_sends s"
  "fired (tsx_update_transport 0 False s) = fired s"
  "tsx_user (tsx_update_transport 0 False s) = tsx_user s"
  "status_code (tsx_update_transport 0 False s) = status_code s"
  "is_reliable (tsx_update_transport 0 False s) = is_reliable s"
  "last_tx (tsx_update_transport 0 False s) = last_tx s"
  "pending_tx (tsx_update_transport 0 False s) = pending_tx s"
  "attached (tsx_update_transport 0 False s) = attached s"
  "tdatas (tsx_update_transport 0 False s) = tdatas s"
  "retransmit_count (tsx_update_transport 0 False s) = retransmit_count s"
  "handle_200resp (tsx_update_transport 0 False s) = handle_200resp s"
  "answers (tsx_update_transport 0 False s) = answers s"
  "tsx_logs (tsx_update_transport 0 False s) = tsx_logs s"
  "misc_param (tsx_update_transport 0 False s) = misc_param s"
  "misc_timer (tsx_update_transport 0 False s) = misc_timer s"
  "timeout_timer (tsx_update_transport 0 False s) = timeout_timer s"
  "retransmit_timer (tsx_update_transport 0 False s) = retransmit_timer s"
  "grp_refs (tsx_update_transport 0 False s) = grp_refs s"
  "transport (tsx_update_transport 0 False s) = 0"
  by (simp_all add: tsx_update_transport_def)

lemma update_transport_frame [simp]:
  "role (tsx_update_transport tp down s) = role s"
  "meth (tsx_update_transport tp down s) = meth s"
  "held (tsx_update_transport tp down s) = held s"
  "state (tsx_update_transport tp down s) = state s"
  "state_handler (tsx_update_transport tp down s) = state_handler s"
  "hist (tsx_update_transport tp down s) = hist s"
  "has_pending_resched (tsx_update_transport tp down s) = has_pending_resched s"
  "has_pending_send (tsx_update_transport tp down s) = has_pending_send s"
  "has_pending_destroy (tsx_update_transport tp down s) = has_pending_destroy s"
  "has_resolved_server (tsx_update_transport tp down s) = has_resolved_server s"
  "terminating (tsx_update_transport tp down s) = terminating s"
  "registered (tsx_update_transport tp down s) = registered s"
  "tp_sends (tsx_update_transport tp down s) = tp_sends s"
  "fired (tsx_update_transport tp down s) = fired s"
  "tsx_user (tsx_update_transport tp down s) = tsx_user s"
  "status_code (tsx_update_transport tp down s) = status_code s"
  "is_reliable (tsx_update_transport tp down s) = is_reliable s"
  "last_tx (tsx_update_transport tp down s) = last_tx s"
  "pending_tx (tsx_update_transport tp down s) = pending_tx s"
  "attached (tsx_update_transport tp down s) = attached s"
  "tdatas (tsx_update_transport tp down s) = tdatas s"
  "retransmit_count (tsx_update_transport tp down s) = retransmit_count s"
  "handle_200resp (tsx_update_transport tp down s) = handle_200resp s"
  "answers (tsx_update_transport tp down s) = answers s"
  "tsx_logs (tsx_update_transport tp down s) = tsx_logs s"
  "misc_param (tsx_update_transport tp down s) = misc_param s"
  "misc_timer (tsx_update_transport tp down s) = misc_timer s"
  "transport (tsx_update_transport tp down s) = tp"
  by (simp_all add: tsx_update_transport_def Let_def)

section \<open>What the invariant depends on\<close>

definition tsx_view where
  "tsx_view s = ((role s, meth s, held s, state s, state_handler s, hist s, transport s),
     (has_pending_transport s, has_pending_send s, has_pending_destroy s, has_resolved_server s),
     (transport_err s, terminating s, registered s, tp_sends s, fired s, running (misc_timer s)))"

lemma tsx_view_updates [simp]:
  "tsx_view (s\<lparr>tsx_logs := l\<rparr>) = tsx_view s" "tsx_view (s\<lparr>tdatas := d\<rparr>) = tsx_view s"
  "tsx_view (s\<lparr>status_code := c\<rparr>) = tsx_view s" "tsx_view (s\<lparr>last_tx := x\<rparr>) = tsx_view s"
  "tsx_view (s\<lparr>retransmit_count := n\<rparr>) = tsx_view s" "tsx_view (s\<lparr>is_reliable := b\<rparr>) = tsx_view s"
  "tsx_view (s\<lparr>has_pending_resched := b\<rparr>) = tsx_view s" "tsx_view (s\<lparr>pending_tx := x\<rparr>) = tsx_view s"
  "tsx_view (s\<lparr>attached := a\<rparr>) = tsx_view s" "tsx_view (s\<lparr>grp_refs := i\<rparr>) = tsx_view s"
  "tsx_view (s\<lparr>freed := b\<rparr>) = tsx_view s" "tsx_view (s\<lparr>answers := ans\<rparr>) = tsx_view s" "tsx_view (s\<lparr>misc_param := p\<rparr>) = tsx_view s"
  "tsx_view (s\<lparr>timeout_timer := t\<rparr>) = tsx_view s" "tsx_view (s\<lparr>retransmit_timer := t\<rparr>) = tsx_view s"
  by (simp_all add: tsx_view_def)

lemma tsx_view_ops [simp]:
  "tsx_view (tsx_grp_lock_add_ref s) = tsx_view s" "tsx_view (tsx_grp_lock_dec_ref s) = tsx_view s"
  "tsx_view (pjsip_tx_data_add_ref x s) = tsx_view s" "tsx_view (pjsip_tx_data_dec_ref x s) = tsx_view s"
  "tsx_view (tsx_set_status_code c s) = tsx_view s"
  by (simp_all add: tsx_grp_lock_add_ref_def tsx_grp_lock_dec_ref_def pjsip_tx_data_add_ref_def
      pjsip_tx_data_dec_ref_def tsx_set_status_code_def)

lemma tsx_view_timers [simp]:
  "en \<noteq> Misc_Timer \<Longrightarrow> tsx_view (tsx_cancel_timer en s) = tsx_view s"
  "en \<noteq> Misc_Timer \<Longrightarrow> tsx_view (tsx_schedule_timer en d i s) = tsx_view s"
  "en \<noteq> Misc_Timer \<Longrightarrow> tsx_view (tsx_restart_timer en d i s) = tsx_view s"
  by (simp_all add: tsx_view_def)

lemma tsx_view_fields:
  assumes "tsx_view s' = tsx_view s"
  shows "role s' = role s" "meth s' = meth s" "held s' = held s" "state s' = state s"
    "state_handler s' = state_handler s" "hist s' = hist s" "transport s' = transport s"
    "has_pending_transport s' = has_pending_transport s" "has_pending_send s' = has_pending_send s"
    "has_pending_destroy s' = has_pending_destroy s"
    "has_resolved_server s' = has_resolved_server s" "transport_err s' = transport_err s"
    "terminating s' = terminating s" "registered s' = registered s" "tp_sends s' = tp_sends s"
    "fired s' = fired s" "running (misc_timer s') = running (misc_timer s)"
  using assms by (simp_all add: tsx_view_def)

lemma tsx_ok_view: "tsx_view s' = tsx_view s \<Longrightarrow> tsx_ok s' \<longleftrightarrow> tsx_ok s"
  by (simp add: tsx_view_def tsx_ok_def hist_ok_def uac_ok_def owes_completion_def destroy_ok_def)

lemma tsx_evolves_view: "tsx_view s' = tsx_view s \<Longrightarrow> tsx_evolves s s'"
  by (simp add: tsx_view_def tsx_evolves_def tsx_grows_def settled_def undestroyed_def)

definition keeps :: "tsx \<Rightarrow> tsx \<Rightarrow> bool" where
  "keeps s s' \<longleftrightarrow> tsx_ok s' \<and> tsx_evolves s s'"

lemma keeps_refl: "tsx_ok s \<Longrightarrow> keeps s s"
  by (simp add: keeps_def)

lemma keeps_trans: "keeps s t \<Longrightarrow> keeps t u \<Longrightarrow> keeps s u"
  by (auto simp: keeps_def intro: tsx_evolves_trans)

lemma keeps_ok: "keeps s s' \<Longrightarrow> tsx_ok s'"
  by (simp add: keeps_def)

lemma keeps_view: "tsx_ok s \<Longrightarrow> tsx_view s' = tsx_view s \<Longrightarrow> keeps s s'"
  using tsx_ok_view [of s' s] tsx_evolves_view [of s' s] by (simp add: keeps_def)

lemma view_keeps: "tsx_view s = tsx_view t \<Longrightarrow> keeps s u \<longleftrightarrow> keeps t u"
  by (simp add: keeps_def tsx_evolves_def tsx_grows_def settled_def undestroyed_def tsx_view_def)

lemma keeps_view_after: "keeps s t \<Longrightarrow> tsx_view u = tsx_view t \<Longrightarrow> keeps s u"
  by (meson keeps_ok keeps_trans keeps_view)

lemma keeps_frames:
  assumes "keeps s t"
  shows "keeps s (pjsip_tx_data_dec_ref x t)" "keeps s (tsx_grp_lock_dec_ref t)"
    "en \<noteq> Misc_Timer \<Longrightarrow> keeps s (tsx_schedule_timer en d i t)"
  by (rule keeps_view_after [OF assms]; simp)+

lemma busy_view: "tsx_view s' = tsx_view s \<Longrightarrow> busy s' \<longleftrightarrow> busy s"
  using tsx_ok_view [of s' s] by (simp add: busy_def) (simp add: tsx_view_def)

lemma busy_keeps: "busy s \<Longrightarrow> keeps s s' \<Longrightarrow> busy s'"
  by (auto simp: busy_def keeps_def tsx_evolves_def tsx_grows_def undestroyed_def)

lemma keeps_held: "keeps s s' \<Longrightarrow> held s' = held s"
  by (simp add: keeps_def tsx_evolves_def tsx_grows_def)

lemma keeps_role: "keeps s s' \<Longrightarrow> role s' = role s \<and> meth s' = meth s"
  by (simp add: keeps_def tsx_evolves_def tsx_grows_def)

section \<open>Parts of a state change\<close>

lemma enter_state_fields [simp]:
  "state (enter_state st s) = st" "role (enter_state st s) = role s"
  "meth (enter_state st s) = meth s" "held (enter_state st s) = held s"
  "tsx_user (enter_state st s) = tsx_user s" "hist (enter_state st s) = hist s @ [st]"
  "transport_err (enter_state st s) = transport_err s"
  "terminating (enter_state st s) = terminating s" "registered (enter_state st s) = registered s"
  "has_resolved_server (enter_state st s) = has_resolved_server s"
  by (simp_all add: enter_state_def)

lemma enter_state_ok:
  assumes "tsx_ok s" and edge: "tsx_edge (role s) (meth s) (state s) st"
  shows "tsx_ok (enter_state st s)"
proof -
  have "hist_ok (enter_state st s)"
    using assms by (simp add: tsx_ok_def hist_ok_def successively_append_iff)
  moreover have "uac_ok (enter_state st s)"
    using assms tsx_edge_mono [OF edge]
    by (auto simp: tsx_ok_def uac_ok_def owes_completion_def enter_state_def)
  moreover have "destroy_ok (enter_state st s)"
    using assms by (auto simp: tsx_ok_def destroy_ok_def enter_state_def dest: tsx_edge_destroyed)
  ultimately show ?thesis
    using tsx_edge_typed [OF edge] by (simp add: tsx_ok_def enter_state_def handler_table_def)
qed

lemma enter_state_grows:
  "tsx_edge (role s) (meth s) (state s) st \<Longrightarrow> st \<noteq> PJSIP_TSX_STATE_DESTROYED \<Longrightarrow>
     tsx_grows s (enter_state st s)"
  by (auto simp: tsx_grows_def enter_state_def settled_def tsx_edge_mono)

lemma after_terminated_keeps:
  assumes "tsx_ok s" "PJSIP_TSX_STATE_TERMINATED \<le> state s"
  shows "keeps s (after_terminated fl s)"
proof -
  have d: "keeps s (detach_pending s)"
    using assms
    by (cases "pending_tx s")
      (auto simp: detach_pending_def keeps_def tsx_ok_def hist_ok_def uac_ok_def owes_completion_def
        destroy_ok_def tsx_evolves_def tsx_grows_def settled_def undestroyed_def
        tsx_grp_lock_dec_ref_def)
  show ?thesis
    by (rule keeps_view_after [OF d]) (simp add: after_terminated_def Let_def)
qed

lemma tsx_shutdown_fields [simp]:
  "state (tsx_shutdown s) = state s" "role (tsx_shutdown s) = role s" "meth (tsx_shutdown s) = meth s"
  "held (tsx_shutdown s) = held s" "terminating (tsx_shutdown s)" "registered (tsx_shutdown s) = registered s"
  "transport_err (tsx_shutdown s) = transport_err s" "hist (tsx_shutdown s) = hist s"
  "state_handler (tsx_shutdown s) = state_handler s"
  "has_pending_transport (tsx_shutdown s) = has_pending_transport s"
  "has_pending_send (tsx_shutdown s) = False" "transport (tsx_shutdown s) = 0"
  "has_resolved_server (tsx_shutdown s) = has_resolved_server s"
  "tp_sends (tsx_shutdown s) = tp_sends s" "fired (tsx_shutdown s) = fired s"
  "misc_timer (tsx_shutdown s) = misc_timer s"
  by (cases "last_tx s"; simp add: tsx_shutdown_def Let_def tsx_grp_lock_dec_ref_def
      pjsip_tx_data_dec_ref_def)+

lemma tsx_shutdown_ok:
  assumes "tsx_ok s" "state s = PJSIP_TSX_STATE_DESTROYED"
  shows "tsx_ok (tsx_shutdown (unregister_tsx s))"
  using assms
  by (simp add: tsx_ok_def hist_ok_def uac_ok_def owes_completion_def destroy_ok_def unregister_tsx_def)

section \<open>The environment's contract\<close>

locale tsx_environment =
  fixes e :: tsx_env
  assumes user_keeps: "tsx_ok s \<Longrightarrow> tsx_ok (on_tsx_state e s) \<and> tsx_evolves s (on_tsx_state e s)"
    and transport_keeps: "busy s \<Longrightarrow> (\<forall>x. c \<noteq> Stateless_Send x) \<Longrightarrow> call_out e c s = (a, s') \<Longrightarrow>
      busy s' \<and> tsx_evolves s s' \<and> state s' = state s \<and> has_pending_send s' = has_pending_send s"
    and resolver_keeps: "resolving s \<Longrightarrow> call_out e (Stateless_Send x) s = (a, s') \<Longrightarrow>
      resolving s' \<and> tsx_evolves s s' \<and> sending s s'"

end
