(* ===== verification/Pjsip_Tsx_Ops.thy ===== *)
theory Pjsip_Tsx_Ops
  imports Pjsip_Tsx_Inv
begin

text \<open>
  Every operation of a SIP transaction keeps the invariant, in an environment that keeps the
  contract \<open>tsx_environment\<close>.
\<close>

definition lock_kept :: "tsx_event_src \<Rightarrow> tsx_flags \<Rightarrow> tsx \<Rightarrow> bool" where
  "lock_kept src fl s \<longleftrightarrow> (if unlocked_notify src fl then 1 < held s else 0 < held s)"

text \<open>The outcome of an operation that may give the lock away.\<close>

definition changed :: "tsx \<Rightarrow> tsx \<Rightarrow> bool \<Rightarrow> bool" where
  "changed s s' k \<longleftrightarrow> tsx_ok s' \<and> tsx_grows s s' \<and> (k \<longrightarrow> undestroyed s s')"

lemma keeps_changed: "keeps s s' \<Longrightarrow> (k \<Longrightarrow> 0 < held s) \<Longrightarrow> changed s s' k"
  by (auto simp: keeps_def changed_def tsx_evolves_def)

lemma changed_keeps: "changed s s' True \<Longrightarrow> keeps s s'"
  by (auto simp: keeps_def changed_def tsx_evolves_def)

lemma changed_trans: "changed s t k \<Longrightarrow> changed t u k \<Longrightarrow> changed s u k"
  unfolding changed_def using tsx_grows_trans undestroyed_trans by blast

lemma changed_weaken: "changed s t k \<Longrightarrow> (l \<Longrightarrow> k) \<Longrightarrow> changed s t l"
  by (auto simp: changed_def)

lemma changed_ok: "changed s t k \<Longrightarrow> tsx_ok t"
  by (simp add: changed_def)

lemma changed_held: "changed s t k \<Longrightarrow> held t = held s"
  by (simp add: changed_def tsx_grows_def)

lemma resched_view [simp]: "tsx_view (tsx_resched_retransmission e s) = tsx_view s"
  by (simp add: tsx_resched_retransmission_def Let_def)

lemma resched_waiting_view [simp]: "tsx_view (resched_waiting e s) = tsx_view s"
  by (simp add: resched_waiting_def Let_def)

lemma start_retransmit_view [simp]: "tsx_view (start_retransmit d s) = tsx_view s"
  by (simp add: start_retransmit_def Let_def)

lemma cb_next_server_view [simp]: "tsx_view (cb_next_server e x s) = tsx_view s"
  by (simp add: cb_next_server_def Let_def)

lemma last_tx_view [simp]:
  "tsx_view (keep_last_tx x s) = tsx_view s" "tsx_view (discard_last_tx x s) = tsx_view s"
  by (auto simp: keep_last_tx_def discard_last_tx_def split: option.splits)

lemma calling_timers_view [simp]: "tsx_view (calling_timers e code s) = tsx_view s"
  by (simp add: calling_timers_def Let_def)

lemma clear_tid_view [simp]: "tsx_view (clear_tid en s) = tsx_view s"
  by (cases en; simp add: clear_tid_def tsx_view_def)

text \<open>The invariant does not depend on the lock.\<close>

lemma tsx_ok_lock [simp]:
  "tsx_ok (tsx_grp_lock_acquire s) = tsx_ok s" "tsx_ok (tsx_grp_lock_release s) = tsx_ok s"
  by (simp_all add: tsx_ok_def hist_ok_def uac_ok_def owes_completion_def destroy_ok_def
      tsx_grp_lock_acquire_def tsx_grp_lock_release_def tsx_grp_lock_dec_ref_def)

lemma held_lock [simp]:
  "held (tsx_grp_lock_acquire s) = held s + 1" "held (tsx_grp_lock_release s) = held s - 1"
  by (simp_all add: tsx_grp_lock_acquire_def tsx_grp_lock_release_def tsx_grp_lock_dec_ref_def)

lemma lock_fields [simp]:
  "state (tsx_grp_lock_acquire s) = state s" "state (tsx_grp_lock_release s) = state s"
  "role (tsx_grp_lock_acquire s) = role s" "role (tsx_grp_lock_release s) = role s"
  "meth (tsx_grp_lock_acquire s) = meth s" "meth (tsx_grp_lock_release s) = meth s"
  "transport_err (tsx_grp_lock_acquire s) = transport_err s"
  "transport_err (tsx_grp_lock_release s) = transport_err s"
  "terminating (tsx_grp_lock_acquire s) = terminating s"
  "terminating (tsx_grp_lock_release s) = terminating s"
  "has_resolved_server (tsx_grp_lock_acquire s) = has_resolved_server s"
  "has_resolved_server (tsx_grp_lock_release s) = has_resolved_server s"
  "state_handler (tsx_grp_lock_acquire s) = state_handler s"
  "settled (tsx_grp_lock_acquire s) = settled s" "settled (tsx_grp_lock_release s) = settled s"
  by (simp_all add: tsx_grp_lock_acquire_def tsx_grp_lock_release_def tsx_grp_lock_dec_ref_def settled_def)

lemma locked_keeps:
  "changed (tsx_grp_lock_acquire s) t (0 < held s) \<Longrightarrow> keeps s (tsx_grp_lock_release t)"
  by (simp add: changed_def keeps_def tsx_evolves_def tsx_grows_def undestroyed_def)

lemma busy_acquire: "tsx_ok s \<Longrightarrow> state s \<noteq> PJSIP_TSX_STATE_DESTROYED \<Longrightarrow> busy (tsx_grp_lock_acquire s)"
  by (simp add: busy_def)

context tsx_environment
begin

lemma user_keeps_log:
  assumes "tsx_ok s"
  shows "keeps s (on_tsx_state e (s\<lparr>tsx_logs := l\<rparr>))"
proof -
  have "keeps s (s\<lparr>tsx_logs := l\<rparr>)" using assms by (rule keeps_view) simp
  then show ?thesis using user_keeps keeps_trans by (auto simp: keeps_def)
qed

lemma notify_rx_keeps: "tsx_ok s \<Longrightarrow> keeps s (notify_rx e src fl s)"
  by (auto simp: notify_rx_def user_keeps_log keeps_refl split: tsx_event_src.splits
      pjsip_msg.splits option.splits)

lemma unlocked_user:
  assumes "tsx_ok s" "0 < held s"
  shows "changed s (tsx_grp_lock_acquire (on_tsx_state e
    ((tsx_grp_lock_release s)\<lparr>tsx_logs := l\<rparr>))) (1 < held s)"
proof -
  let ?r = "tsx_grp_lock_release s"
  have r: "tsx_ok ?r" using assms(1)
    by (simp add: tsx_ok_def hist_ok_def uac_ok_def owes_completion_def destroy_ok_def
        tsx_grp_lock_release_def tsx_grp_lock_dec_ref_def)
  have k: "keeps ?r (on_tsx_state e (?r\<lparr>tsx_logs := l\<rparr>))" by (rule user_keeps_log [OF r])
  then have ok: "tsx_ok (tsx_grp_lock_acquire (on_tsx_state e (?r\<lparr>tsx_logs := l\<rparr>)))"
    by (simp add: keeps_def tsx_ok_def hist_ok_def uac_ok_def owes_completion_def destroy_ok_def
        tsx_grp_lock_acquire_def)
  show ?thesis
    using k ok assms(2)
    by (simp add: changed_def keeps_def tsx_evolves_def tsx_grows_def settled_def undestroyed_def
        tsx_grp_lock_release_def tsx_grp_lock_dec_ref_def tsx_grp_lock_acquire_def)
qed

lemma notify_state_changed:
  assumes "tsx_ok s" "unlocked_notify src fl \<longrightarrow> 0 < held s"
  shows "changed s (notify_state e prev src fl s) (lock_kept src fl s)"
proof (cases "tsx_user s")
  case (Some u)
  show ?thesis
  proof (cases "has_on_tsx_state u \<and> \<not> no_notify fl")
    case True
    show ?thesis
    proof (cases "unlocked_notify src fl")
      case un: True
      with Some True show ?thesis
        using unlocked_user [OF assms(1)] assms(2)
        by (simp add: notify_state_def Let_def lock_kept_def)
    next
      case False
      with Some True show ?thesis
        using user_keeps_log [OF assms(1)] keeps_changed [of s]
        by (simp add: notify_state_def Let_def lock_kept_def)
    qed
  next
    case False
    with Some show ?thesis
      using assms(1) by (auto simp: notify_state_def changed_def undestroyed_def)
  qed
qed (use assms(1) in \<open>simp add: notify_state_def changed_def undestroyed_def\<close>)

lemma notifications_changed:
  assumes "tsx_ok s" "unlocked_notify src fl \<longrightarrow> 0 < held s"
  shows "changed s (notify_state e prev src fl (notify_rx e src fl s)) (lock_kept src fl s)"
proof -
  have rx: "keeps s (notify_rx e src fl s)" by (rule notify_rx_keeps [OF assms(1)])
  then have h: "held (notify_rx e src fl s) = held s" by (rule keeps_held)
  then have lk: "lock_kept src fl (notify_rx e src fl s) = lock_kept src fl s"
    by (simp add: lock_kept_def)
  have "changed s (notify_rx e src fl s) (lock_kept src fl s)"
    by (rule keeps_changed [OF rx]) (auto simp: lock_kept_def split: if_splits)
  moreover have "changed (notify_rx e src fl s)
      (notify_state e prev src fl (notify_rx e src fl s)) (lock_kept src fl s)"
    using notify_state_changed [OF keeps_ok [OF rx], of src fl prev] assms(2) h lk by simp
  ultimately show ?thesis by (rule changed_trans)
qed

lemma set_state_changed:
  assumes ok: "tsx_ok s" and edge: "tsx_edge (role s) (meth s) (state s) st"
    and st: "st \<noteq> PJSIP_TSX_STATE_DESTROYED" and lk: "unlocked_notify src fl \<longrightarrow> 0 < held s"
  shows "changed s (tsx_set_state e st src fl s) (lock_kept src fl s) \<and>
    st \<le> state (tsx_set_state e st src fl s)"
proof -
  let ?s1 = "enter_state st s"
  let ?s3 = "notify_state e (state s) src fl (notify_rx e src fl ?s1)"
  have s1: "changed s ?s1 (lock_kept src fl s)"
    using enter_state_ok [OF ok edge] enter_state_grows [OF edge st] st
    by (simp add: changed_def undestroyed_def)
  have lks: "lock_kept src fl ?s1 = lock_kept src fl s" by (simp add: lock_kept_def)
  have s3: "changed ?s1 ?s3 (lock_kept src fl s)"
    using notifications_changed [OF enter_state_ok [OF ok edge]] lk by (simp add: lks [symmetric])
  then have le: "st \<le> state ?s3" by (simp add: changed_def tsx_grows_def)
  have c3: "changed s ?s3 (lock_kept src fl s)"
    by (rule changed_trans [OF s1 s3])
  show ?thesis
  proof (cases "st = PJSIP_TSX_STATE_TERMINATED")
    case True
    have k: "keeps ?s3 (after_terminated fl ?s3)"
      using after_terminated_keeps changed_ok [OF s3] le True by blast
    have "changed ?s3 (after_terminated fl ?s3) (lock_kept src fl s)"
      by (rule keeps_changed [OF k])
        (use changed_held [OF c3] in \<open>auto simp: lock_kept_def split: if_splits\<close>)
    then show ?thesis
      using changed_trans [OF c3] True le keeps_def k
      by (auto simp: tsx_set_state_def Let_def dest: tsx_evolves_fields(4))
  next
    case False
    then show ?thesis using c3 le st by (simp add: tsx_set_state_def Let_def)
  qed
qed

text \<open>A change whose notification keeps the lock.\<close>

lemma set_state_locked:
  assumes ok: "tsx_ok s" and h: "0 < held s" and edge: "tsx_edge (role s) (meth s) (state s) st"
    and st: "st \<noteq> PJSIP_TSX_STATE_DESTROYED" and src: "src \<noteq> Src_Timer Timeout_Timer"
  shows "keeps s (tsx_set_state e st src flags_none s) \<and>
    st \<le> state (tsx_set_state e st src flags_none s)"
proof -
  have "\<not> unlocked_notify src flags_none" using src by (simp add: unlocked_notify_def flags_none_def)
  then show ?thesis
    using set_state_changed [OF ok edge st, of src flags_none] h
    by (auto simp: lock_kept_def intro: changed_keeps)
qed

text \<open>A change whose notification gives the lock away.\<close>

lemma set_state_unlocked:
  assumes "tsx_ok s" "0 < held s" "tsx_edge (role s) (meth s) (state s) st"
    "st \<noteq> PJSIP_TSX_STATE_DESTROYED"
  shows "changed s (tsx_set_state e st src fl s) (1 < held s)"
  using set_state_changed [OF assms(1,3,4), of src fl] assms(2)
  by (auto simp: lock_kept_def elim: changed_weaken)

lemma set_state_destroyed:
  assumes ok: "tsx_ok s" and st: "PJSIP_TSX_STATE_TERMINATED \<le> state s"
    and lk: "unlocked_notify src fl \<longrightarrow> 0 < held s"
  defines "s' \<equiv> tsx_set_state e PJSIP_TSX_STATE_DESTROYED src fl s"
  shows "tsx_ok s'" "tsx_grows s s'" "state s' = PJSIP_TSX_STATE_DESTROYED" "settled s'"
proof -
  let ?s1 = "enter_state PJSIP_TSX_STATE_DESTROYED s"
  let ?s3 = "notify_state e (state s) src fl (notify_rx e src fl ?s1)"
  have edge: "tsx_edge (role s) (meth s) (state s) PJSIP_TSX_STATE_DESTROYED"
    using st by (cases "state s") (auto simp: state_order intro: destroyed destroyed_late)
  have c: "changed ?s1 ?s3 (lock_kept src fl ?s1)"
    using notifications_changed [OF enter_state_ok [OF ok edge]] lk by simp
  then have d: "state ?s3 = PJSIP_TSX_STATE_DESTROYED"
    by (simp add: changed_def tsx_grows_def)
  have s': "s' = tsx_shutdown (unregister_tsx ?s3)"
    by (simp add: s'_def tsx_set_state_def Let_def)
  show "tsx_ok s'" unfolding s' by (rule tsx_shutdown_ok [OF changed_ok [OF c] d])
  show "state s' = PJSIP_TSX_STATE_DESTROYED" "settled s'"
    using d by (simp_all add: s' settled_def unregister_tsx_def)
  show "tsx_grows s s'"
    using c d by (simp add: s' changed_def tsx_grows_def settled_def unregister_tsx_def)
qed

lemma send_on_transport_spec:
  assumes b: "busy s" and tp: "transport s \<noteq> 0" and r: "send_on_transport e x s = (st, s')"
  shows "keeps s s' \<and> state s' = state s \<and> has_pending_send s' = has_pending_send s"
proof -
  let ?s1 = "(tsx_grp_lock_add_ref s)\<lparr>has_pending_transport := True, tsx_logs := tsx_logs s @ [Log_Send x]\<rparr>"
  obtain a s2 where c: "call_out e (Transport_Send x) ?s1 = (a, s2)" by fastforce
  have ok: "tsx_ok s" using b by (simp add: busy_def)
  have s1: "keeps s ?s1"
    using ok by (simp add: keeps_def tsx_ok_def hist_ok_def uac_ok_def owes_completion_def destroy_ok_def
        tsx_evolves_def tsx_grows_def settled_def undestroyed_def tsx_grp_lock_add_ref_def)
  have s2: "busy s2" "tsx_evolves ?s1 s2" "state s2 = state ?s1" "has_pending_send s2 = has_pending_send ?s1"
    using transport_keeps [OF busy_keeps [OF b s1] _ c] by simp_all
  then have k2: "keeps s s2" using keeps_trans [OF s1, of s2] by (simp add: keeps_def busy_def)
  have res: "role s = PJSIP_ROLE_UAC \<Longrightarrow> has_resolved_server s2"
    using ok tp k2 by (simp add: keeps_def tsx_evolves_def tsx_grows_def tsx_ok_def uac_ok_def)
  have end2: "keeps s2 (s2\<lparr>tp_sends := tp_sends s2 @ [x]\<rparr>)"
    "keeps s2 (tsx_grp_lock_dec_ref (s2\<lparr>has_pending_transport := False\<rparr>))"
    "keeps s2 (tsx_update_transport 0 False (tsx_grp_lock_dec_ref (s2\<lparr>has_pending_transport := False\<rparr>)))"
    using keeps_ok [OF k2] res keeps_role [OF k2]
    by (auto simp: keeps_def tsx_ok_def hist_ok_def uac_ok_def owes_completion_def destroy_ok_def
        tsx_evolves_def tsx_grows_def settled_def undestroyed_def tsx_grp_lock_dec_ref_def)
  show ?thesis
    using r c k2 s2 end2 keeps_trans [OF k2]
    by (auto simp: send_on_transport_def Let_def tsx_grp_lock_dec_ref_def tsx_grp_lock_add_ref_def
        split: if_splits)
qed

lemma send_permanent_error_spec:
  assumes b: "busy s" and r: "role s = PJSIP_ROLE_UAC" and p: "send_permanent_error e st0 s = (st, s')"
  shows "keeps s s' \<and> state s' = PJSIP_TSX_STATE_TERMINATED \<and> st \<noteq> 0"
proof -
  let ?s1 = "tsx_set_status_code PJSIP_SC_TSX_TRANSPORT_ERROR s"
  have v: "tsx_view ?s1 = tsx_view s" by (simp only: tsx_view_ops)
  have b1: "busy ?s1" using b busy_view [OF v] by simp
  then have ok1: "tsx_ok ?s1" "0 < held ?s1" "state ?s1 \<noteq> PJSIP_TSX_STATE_DESTROYED"
    by (simp_all add: busy_def)
  have edge: "tsx_edge (role ?s1) (meth ?s1) (state ?s1) PJSIP_TSX_STATE_TERMINATED"
    using ok1(3) r by (cases "state ?s1")
      (auto simp: state_order tsx_set_status_code_def intro: terminated send_failed_again)
  have s': "s' = tsx_set_state e PJSIP_TSX_STATE_TERMINATED Src_Transport_Error flags_none ?s1"
    "st \<noteq> 0" using p by (auto simp: send_permanent_error_def Let_def pj_status split: if_splits)
  have c: "keeps ?s1 s'" "PJSIP_TSX_STATE_TERMINATED \<le> state s'"
    using set_state_locked [OF ok1(1,2) edge, of Src_Transport_Error] by (simp_all add: s')
  then have "keeps s s'" using view_keeps [OF v] by blast
  moreover have "state s' = PJSIP_TSX_STATE_TERMINATED"
    using c ok1(2,3)
    by (cases "state s'") (auto simp: keeps_def tsx_evolves_def undestroyed_def state_order)
  ultimately show ?thesis using s'(2) by simp
qed

lemma send_stateless_spec:
  assumes b: "busy s" and np: "\<not> has_pending_transport s"
    and nr: "role s = PJSIP_ROLE_UAC \<longrightarrow> \<not> has_resolved_server s"
    and r: "send_stateless e x s = (st, s')"
  shows "keeps s s' \<and> sending s s' \<and> (st = 0 \<longrightarrow> state s' = state s)"
proof -
  let ?s1 = "tsx_grp_lock_add_ref ((pjsip_tx_data_add_ref x s)\<lparr>attached := insert x (attached s),
    pending_tx := Some x, has_pending_transport := True, tsx_logs := tsx_logs s @ [Log_Send x]\<rparr>)"
  obtain a s2 where c: "call_out e (Stateless_Send x) ?s1 = (a, s2)" by fastforce
  have ok: "tsx_ok s" using b by (simp add: busy_def)
  have s1: "keeps s ?s1"
    using ok by (simp add: keeps_def tsx_ok_def hist_ok_def uac_ok_def owes_completion_def destroy_ok_def
        tsx_evolves_def tsx_grows_def settled_def undestroyed_def tsx_grp_lock_add_ref_def
        pjsip_tx_data_add_ref_def)
  have f1: "state ?s1 = state s" "role ?s1 = role s" "has_pending_send ?s1 = has_pending_send s"
    by (simp_all add: tsx_grp_lock_add_ref_def pjsip_tx_data_add_ref_def)
  have "resolving ?s1"
    using busy_keeps [OF b s1] ok np nr f1 by (auto simp: resolving_def tsx_ok_def uac_ok_def)
  then have s2: "resolving s2" "tsx_evolves ?s1 s2" "sending ?s1 s2"
    using resolver_keeps [OF _ c] by blast+
  then have k2: "keeps s s2" using keeps_trans [OF s1, of s2] by (simp add: keeps_def resolving_def busy_def)
  have sd: "sending s s2" using s2(3) f1 by (simp add: sending_def)
  let ?t = "\<lambda>u. (pjsip_tx_data_dec_ref x (tsx_grp_lock_dec_ref (u\<lparr>has_pending_transport := False\<rparr>)))
    \<lparr>attached := attached s2 - {x}, pending_tx := None\<rparr>"
  have end2: "keeps s2 (?t (tsx_set_status_code c s2))" "keeps s2 (?t s2)" for c
    using s2(1)
    by (auto simp: keeps_def resolving_def busy_def tsx_ok_def hist_ok_def uac_ok_def
        owes_completion_def destroy_ok_def tsx_evolves_def tsx_grows_def settled_def undestroyed_def
        tsx_grp_lock_dec_ref_def pjsip_tx_data_dec_ref_def tsx_set_status_code_def)
  have "keeps s s' \<and> state s' = state s2 \<and> transport_err s' = transport_err s2"
    using r c keeps_trans [OF k2 end2(1)] keeps_trans [OF k2 end2(2)] k2
    by (auto simp: send_stateless_def Let_def tsx_grp_lock_dec_ref_def pjsip_tx_data_dec_ref_def
        tsx_set_status_code_def split: if_splits)
  moreover have "st = 0 \<longrightarrow> state s2 = state s"
    using r c sd by (auto simp: send_stateless_def Let_def sending_def pj_status split: if_splits)
  ultimately show ?thesis using sd by (simp add: sending_def)
qed

lemma tsx_send_msg_spec:
  assumes b: "busy s" and r: "tsx_send_msg e tx s = (st, s')"
  shows "keeps s s' \<and> (st = 0 \<longrightarrow> state s' = state s) \<and>
    (role s = PJSIP_ROLE_UAS \<or> state s = PJSIP_TSX_STATE_TERMINATED \<longrightarrow> sending s s')"
proof -
  have ok: "tsx_ok s" using b by (simp add: busy_def)
  have ps: "has_pending_transport s \<Longrightarrow> keeps s (s\<lparr>has_pending_send := True\<rparr>)"
    using b by (auto simp: busy_def keeps_def tsx_ok_def hist_ok_def uac_ok_def owes_completion_def
        destroy_ok_def tsx_evolves_def tsx_grows_def settled_def undestroyed_def)
  show ?thesis
  proof (cases "tx = None \<or> has_pending_transport s \<or> is_pending (tdatas s (the tx))")
    case True
    with r ps keeps_refl [OF ok] show ?thesis
      by (auto simp: tsx_send_msg_def sending_def split: if_splits option.splits)
  next
    case False
    then obtain x where x: "tx = Some x" by auto
    let ?tried = "transport s \<noteq> 0"
    obtain st1 s1 where s1: "(if ?tried then send_on_transport e x s else (PJ_SUCCESS, s)) = (st1, s1)"
      by fastforce
    have k1: "keeps s s1" "state s1 = state s"
      using s1 send_on_transport_spec [OF b] keeps_refl [OF ok] by (auto split: if_splits)
    have np: "\<not> (?tried \<and> st1 = PJ_SUCCESS) \<Longrightarrow> \<not> has_pending_transport s1"
      using s1 False
      by (auto simp: send_on_transport_def Let_def tsx_grp_lock_dec_ref_def split: if_splits prod.splits)
    have b1: "busy s1" by (rule busy_keeps [OF b k1(1)])
    have pe: "role s1 = PJSIP_ROLE_UAC \<Longrightarrow> send_permanent_error e st1 s1 = (st, s') \<Longrightarrow>
        keeps s s' \<and> st \<noteq> 0 \<and> state s' = PJSIP_TSX_STATE_TERMINATED"
      using send_permanent_error_spec [OF b1] keeps_trans [OF k1(1)] by blast
    have sl: "\<not> has_pending_transport s1 \<Longrightarrow> \<not> (role s1 = PJSIP_ROLE_UAC \<and> has_resolved_server s1) \<Longrightarrow>
        send_stateless e x s1 = (st, s') \<Longrightarrow>
        keeps s s' \<and> sending s1 s' \<and> (st = 0 \<longrightarrow> state s' = state s1)"
      using send_stateless_spec [OF b1] keeps_trans [OF k1(1)] by blast
    consider "?tried \<and> st1 = PJ_SUCCESS" "st = PJ_SUCCESS" "s' = s1"
      | "\<not> (?tried \<and> st1 = PJ_SUCCESS)" "role s1 = PJSIP_ROLE_UAC" "send_permanent_error e st1 s1 = (st, s')"
      | "\<not> (?tried \<and> st1 = PJ_SUCCESS)" "\<not> (role s1 = PJSIP_ROLE_UAC \<and> has_resolved_server s1)"
        "send_stateless e x s1 = (st, s')"
      using r s1 x False by (auto simp: tsx_send_msg_def Let_def split: if_splits)
    then show ?thesis
    proof cases
      case 1 then show ?thesis using k1 by (simp add: sending_def)
    next
      case 2 then show ?thesis using pe k1 keeps_role [OF k1(1)] by (auto simp: sending_def)
    next
      case 3 then show ?thesis using sl np k1 by (auto simp: sending_def)
    qed
  qed
qed

lemma send_waiting_spec:
  assumes ok: "tsx_ok s" "0 < held s" and d: "state s = PJSIP_TSX_STATE_DESTROYED \<longrightarrow> terminating s"
  shows "keeps s (send_waiting e s) \<and>
    (role s = PJSIP_ROLE_UAS \<or> state s = PJSIP_TSX_STATE_TERMINATED \<or> \<not> has_pending_send s \<longrightarrow>
       sending s (send_waiting e s)) \<and>
    (\<not> has_pending_send s \<longrightarrow> send_waiting e s = s)"
proof (cases "has_pending_send s")
  case True
  let ?s1 = "s\<lparr>has_pending_send := False\<rparr>"
  have nd: "state s \<noteq> PJSIP_TSX_STATE_DESTROYED"
    using True ok(1) d by (auto simp: tsx_ok_def destroy_ok_def)
  have k: "keeps s ?s1"
    using ok by (simp add: keeps_def tsx_ok_def hist_ok_def uac_ok_def owes_completion_def destroy_ok_def
        tsx_evolves_def tsx_grows_def settled_def undestroyed_def)
  have b: "busy ?s1" using k ok nd by (simp add: busy_def keeps_def)
  obtain st s2 where r: "tsx_send_msg e (last_tx s) ?s1 = (st, s2)" by fastforce
  have "send_waiting e s = s2" using True r by (simp add: send_waiting_def)
  then show ?thesis
    using tsx_send_msg_spec [OF b r] keeps_trans [OF k] True by (auto simp: sending_def)
qed (simp add: send_waiting_def keeps_refl [OF ok(1)])

lemma cb_sent_spec:
  assumes ok: "tsx_ok s" "0 < held s" "tp \<noteq> 0"
    and d: "state s = PJSIP_TSX_STATE_DESTROYED \<longrightarrow> terminating s"
  shows "keeps s (cb_sent e tp rel down s) \<and>
    (role s = PJSIP_ROLE_UAS \<or> state s = PJSIP_TSX_STATE_TERMINATED \<or> \<not> has_pending_send s \<longrightarrow>
       sending s (cb_sent e tp rel down s)) \<and>
    (\<not> has_pending_send s \<longrightarrow> \<not> has_pending_send (cb_sent e tp rel down s))"
proof -
  define s2 where "s2 = (if transport s \<noteq> tp then (tsx_update_transport tp down s)\<lparr>is_reliable := rel\<rparr> else s)
    \<lparr>has_pending_transport := False, has_resolved_server := True\<rparr>"
  have f: "state s2 = state s" "role s2 = role s" "has_pending_send s2 = has_pending_send s"
    "terminating s2 = terminating s" "held s2 = held s" "has_pending_destroy s2 = has_pending_destroy s"
    by (simp_all add: s2_def)
  have te: "transport_err s \<noteq> 0 \<Longrightarrow> transport_err (tsx_update_transport tp down s) \<noteq> 0"
    using ok(3) by (simp add: tsx_update_transport_def Let_def)
  have k: "keeps s s2"
    using ok te by (simp add: s2_def keeps_def tsx_ok_def hist_ok_def uac_ok_def owes_completion_def destroy_ok_def
        tsx_evolves_def tsx_grows_def settled_def undestroyed_def)
  note ok2 = keeps_ok [OF k]
  show ?thesis
  proof (cases "has_pending_destroy s")
    case True
    then have sd: "state s = PJSIP_TSX_STATE_DESTROYED" using ok(1) by (simp add: tsx_ok_def destroy_ok_def)
    let ?t = "tsx_set_state e PJSIP_TSX_STATE_DESTROYED Src_Unknown flags_none s2"
    have "tsx_ok ?t" "tsx_grows s2 ?t" "state ?t = PJSIP_TSX_STATE_DESTROYED"
      using set_state_destroyed [OF ok2, of Src_Unknown flags_none] sd f
      by (simp_all add: unlocked_notify_def flags_none_def)
    moreover from this have "keeps s2 ?t"
      using sd f(1) by (simp add: keeps_def tsx_evolves_def undestroyed_def)
    moreover have "terminating ?t" using d sd f calculation(2) unfolding tsx_grows_def by metis
    ultimately show ?thesis
      using keeps_trans [OF k] True sd f
      by (auto simp: cb_sent_def Let_def sending_def tsx_ok_def destroy_ok_def s2_def [symmetric])
  next
    case False
    have v: "tsx_view (resched_waiting e (send_waiting e s2)) = tsx_view (send_waiting e s2)" by simp
    have w: "keeps s2 (send_waiting e s2)"
      "role s = PJSIP_ROLE_UAS \<or> state s = PJSIP_TSX_STATE_TERMINATED \<or> \<not> has_pending_send s \<longrightarrow>
         sending s (send_waiting e s2)"
      "\<not> has_pending_send s \<longrightarrow> send_waiting e s2 = s2"
      using send_waiting_spec [OF ok2] ok(2) d f by (simp_all add: sending_def)
    have c: "cb_sent e tp rel down s = resched_waiting e (send_waiting e s2)"
      using False f(6) by (simp add: cb_sent_def Let_def s2_def [symmetric])
    show ?thesis
      unfolding c using keeps_view_after [OF keeps_trans [OF k w(1)] v] w(2,3) f(3)
        tsx_view_fields(4,9,12) [OF v] by (auto simp: sending_def)
  qed
qed

lemma cb_failed_spec:
  assumes ok: "tsx_ok s" "0 < held s" "err \<noteq> 0"
  shows "changed s (cb_failed e err s) (1 < held s) \<and>
    (1 < held s \<and> state s \<noteq> PJSIP_TSX_STATE_DESTROYED \<longrightarrow> sending s (cb_failed e err s)) \<and>
    (role s = PJSIP_ROLE_UAC \<longrightarrow> PJSIP_TSX_STATE_TERMINATED \<le> state (cb_failed e err s))"
proof -
  let ?s1 = "s\<lparr>transport_err := err, has_pending_transport := False, has_resolved_server := True\<rparr>"
  have k: "keeps s ?s1"
    using ok by (simp add: keeps_def tsx_ok_def hist_ok_def uac_ok_def owes_completion_def destroy_ok_def
        tsx_evolves_def tsx_grows_def settled_def undestroyed_def)
  then have c1: "changed s ?s1 (1 < held s)" using keeps_changed ok(2) by blast
  define sc where "sc = (if err = PJ_ERESOLVE \<or> err = edns_nxdomain (tcfg e) \<or> err = PJ_ECANCELLED
                then PJSIP_SC_BAD_GATEWAY else PJSIP_SC_TSX_TRANSPORT_ERROR)"
  define live where "live \<longleftrightarrow> state s \<noteq> PJSIP_TSX_STATE_TERMINATED \<and> state s \<noteq> PJSIP_TSX_STATE_DESTROYED"
  let ?s2 = "tsx_set_status_code sc ?s1"
  have v: "tsx_view ?s2 = tsx_view ?s1" by (simp only: tsx_view_ops)
  have ok2: "tsx_ok ?s2" using keeps_ok [OF k] tsx_ok_view [OF v] by simp
  have c2: "changed s ?s2 (1 < held s)" using keeps_changed [OF keeps_view_after [OF k v]] ok(2) by simp
  have f2: "state ?s2 = state s" "held ?s2 = held s" "role ?s2 = role s" "transport_err ?s2 = err"
    by (simp_all add: tsx_set_status_code_def)
  consider (ends) "(role s = PJSIP_ROLE_UAC \<or> sc = PJSIP_SC_BAD_GATEWAY) \<and> live"
    | (destroy) "\<not> ((role s = PJSIP_ROLE_UAC \<or> sc = PJSIP_SC_BAD_GATEWAY) \<and> live)" "has_pending_destroy s"
    | (rest) "\<not> ((role s = PJSIP_ROLE_UAC \<or> sc = PJSIP_SC_BAD_GATEWAY) \<and> live)" "\<not> has_pending_destroy s"
    by blast
  then show ?thesis
  proof cases
    case ends
    let ?t = "tsx_set_state e PJSIP_TSX_STATE_TERMINATED Src_Transport_Error
      (flags_none\<lparr>release_lock := True\<rparr>) ?s2"
    have st: "state s < PJSIP_TSX_STATE_TERMINATED"
      using ends by (cases "state s") (auto simp: live_def state_order)
    have edge: "tsx_edge (role ?s2) (meth ?s2) (state ?s2) PJSIP_TSX_STATE_TERMINATED"
      using st f2 by (auto intro: terminated)
    have t: "changed ?s2 ?t (1 < held s)" "PJSIP_TSX_STATE_TERMINATED \<le> state ?t"
      using set_state_changed [OF ok2 edge, of Src_Transport_Error "flags_none\<lparr>release_lock := True\<rparr>"]
        ok(2) f2(2) by (simp_all add: lock_kept_def unlocked_notify_def)
    have "cb_failed e err s = ?t"
      using ends unfolding sc_def live_def by (simp add: cb_failed_def Let_def)
    moreover have "transport_err ?t \<noteq> 0"
      using t(1) f2(4) ok(3) by (simp add: changed_def tsx_grows_def)
    moreover have "1 < held s \<Longrightarrow> state ?t = PJSIP_TSX_STATE_TERMINATED"
      using t st f2(1) by (cases "state ?t") (auto simp: changed_def undestroyed_def state_order)
    ultimately show ?thesis using changed_trans [OF c2 t(1)] t(2) by (auto simp: sending_def)
  next
    case destroy
    let ?t = "tsx_set_state e PJSIP_TSX_STATE_DESTROYED Src_Transport_Error flags_none ?s2"
    have sd: "state s = PJSIP_TSX_STATE_DESTROYED" using ok(1) destroy(2) by (simp add: tsx_ok_def destroy_ok_def)
    have "tsx_ok ?t" "tsx_grows ?s2 ?t" "state ?t = PJSIP_TSX_STATE_DESTROYED"
      using set_state_destroyed [OF ok2, of Src_Transport_Error flags_none] sd f2
      by (simp_all add: unlocked_notify_def flags_none_def)
    then have "changed ?s2 ?t (1 < held s)" using sd f2 by (simp add: changed_def undestroyed_def)
    moreover have "cb_failed e err s = ?t"
      using destroy unfolding sc_def live_def by (auto simp: cb_failed_def Let_def)
    ultimately show ?thesis
      using changed_trans [OF c2] sd \<open>state ?t = _\<close> by simp
  next
    case rest
    let ?t = "cb_failed e err s"
    have v: "tsx_view ?t = tsx_view ?s1"
      using rest unfolding sc_def live_def by (auto simp: cb_failed_def Let_def)
    have "role s = PJSIP_ROLE_UAC \<Longrightarrow> PJSIP_TSX_STATE_TERMINATED \<le> state s"
      using rest by (cases "state s") (auto simp: live_def state_order)
    then show ?thesis
      using keeps_changed [OF keeps_view_after [OF k v]] ok(2) tsx_view_fields [OF v]
      by (auto simp: sending_def)
  qed
qed

end

end
