(* ===== verification/Pjsip_Tsx_Handlers.thy ===== *)
theory Pjsip_Tsx_Handlers
  imports Pjsip_Tsx_Ops
begin

text \<open>
  The completions of the transport layer, the state handlers and the interface functions of a SIP
  transaction keep the invariant, in an environment that keeps the contract \<open>tsx_environment\<close>.
\<close>

definition is_timer :: "pjsip_event \<Rightarrow> bool" where
  "is_timer ev \<longleftrightarrow> (case ev of Event_Timer _ \<Rightarrow> True | _ \<Rightarrow> False)"

context tsx_environment
begin

lemma send_msg_callback_spec:
  assumes ok: "tsx_ok s" and sent: "sent \<noteq> 0" "sent > 0 \<longrightarrow> tp \<noteq> 0"
    and d: "state s = PJSIP_TSX_STATE_DESTROYED \<longrightarrow> terminating s"
  shows "keeps s (send_msg_callback e x sent cont tp rel down s) \<and>
    (resolving s \<longrightarrow> resolving (send_msg_callback e x sent cont tp rel down s) \<and>
       sending s (send_msg_callback e x sent cont tp rel down s))"
proof (cases "x \<in> attached s")
  case True
  define s1 where "s1 = (tsx_grp_lock_dec_ref (tsx_grp_lock_acquire s))
    \<lparr>attached := attached s - {x}, pending_tx := None\<rparr>"
  define f where "f = (if tp = transport s1 then tsx_update_transport 0 False s1 else s1)"
  define t where "t = (if sent > 0 then cb_sent e tp rel down s1
    else if \<not> cont \<or> has_pending_destroy f \<or> - sent = PJ_ECANCELLED then cb_failed e (- sent) f
    else cb_next_server e x f)"
  have cb: "send_msg_callback e x sent cont tp rel down s = tsx_grp_lock_release t"
    using True by (simp add: send_msg_callback_def t_def f_def s1_def Let_def)
  have f1: "tsx_view s1 = tsx_view (tsx_grp_lock_acquire s)" by (simp add: s1_def)
  have ok1: "tsx_ok s1" using ok tsx_ok_view [OF f1] by simp
  have f1': "0 < held s1" "held s1 = held s + 1" "role s1 = role s" "state s1 = state s"
    "has_pending_send s1 = has_pending_send s" "terminating s1 = terminating s"
    "has_pending_destroy s1 = has_pending_destroy s"
    by (simp_all add: s1_def tsx_grp_lock_dec_ref_def tsx_grp_lock_acquire_def)
  note ok1 = ok1 f1'
  have kf: "keeps s1 f"
    using ok1(1) by (auto simp: f_def keeps_def tsx_ok_def hist_ok_def uac_ok_def owes_completion_def
        destroy_ok_def tsx_evolves_def tsx_grows_def settled_def undestroyed_def)
  have ff: "held f = held s1" "state f = state s" "role f = role s" "has_pending_send f = has_pending_send s"
    using ok1 by (simp_all add: f_def)
  have t: "changed s1 t (0 < held s) \<and>
      (resolving s \<longrightarrow> sending s t \<and>
        (role s = PJSIP_ROLE_UAC \<longrightarrow> has_pending_send t \<longrightarrow> PJSIP_TSX_STATE_TERMINATED \<le> state t))"
  proof (cases "sent > 0")
    case True
    then have te: "t = cb_sent e tp rel down s1" by (simp add: t_def)
    have c: "keeps s1 t" "role s = PJSIP_ROLE_UAS \<or> state s = PJSIP_TSX_STATE_TERMINATED \<or>
        \<not> has_pending_send s \<longrightarrow> sending s t" "\<not> has_pending_send s \<longrightarrow> \<not> has_pending_send t"
      using cb_sent_spec [OF ok1(1,2), of tp rel down] True sent(2) d ok1
      unfolding te by (simp_all add: sending_def)
    have "resolving s \<Longrightarrow> role s = PJSIP_ROLE_UAS \<or> state s = PJSIP_TSX_STATE_TERMINATED \<or> \<not> has_pending_send s"
      by (cases "state s"; cases "role s") (auto simp: resolving_def busy_def state_order)
    moreover have "state s \<le> state t" using c(1) ok1(5) tsx_evolves_fields(4) by (metis keeps_def)
    ultimately show ?thesis
      using c keeps_changed [OF c(1)] ok1(2) by (auto simp: resolving_def)
  next
    case False
    show ?thesis
    proof (cases "\<not> cont \<or> has_pending_destroy f \<or> - sent = PJ_ECANCELLED")
      case True
      then have te: "t = cb_failed e (- sent) f" using False by (auto simp: t_def)
      have c: "changed f t (1 < held f)"
        "1 < held f \<and> state f \<noteq> PJSIP_TSX_STATE_DESTROYED \<longrightarrow> sending f t"
        "role f = PJSIP_ROLE_UAC \<longrightarrow> PJSIP_TSX_STATE_TERMINATED \<le> state t"
        using cb_failed_spec [OF keeps_ok [OF kf], of "- sent"] sent(1) ok1(2) ff(1)
        unfolding te by simp_all
      have "changed s1 t (0 < held s)"
        using changed_trans [OF keeps_changed [OF kf, of "0 < held s"], of t] c(1) ff(1) ok1(3) by simp
      then show ?thesis
        using c(2,3) ff ok1(3) by (auto simp: resolving_def busy_def sending_def)
    next
      case nf: False
      then have te: "tsx_view t = tsx_view f" using False by (simp add: t_def)
      have "resolving s \<Longrightarrow> role s = PJSIP_ROLE_UAC \<Longrightarrow> has_pending_send s \<Longrightarrow>
          PJSIP_TSX_STATE_TERMINATED \<le> state s" by (simp add: resolving_def)
      then show ?thesis
        using keeps_changed [OF keeps_view_after [OF kf te], of "0 < held s"] tsx_view_fields(4,9,12) [OF te]
          ff ok1(2,3) by (auto simp: sending_def)
    qed
  qed
  have cc: "changed (tsx_grp_lock_acquire s) t (0 < held s)"
    using t f1 by (simp add: changed_def tsx_grows_def undestroyed_def settled_def tsx_view_def)
  have k: "keeps s (tsx_grp_lock_release t)" by (rule locked_keeps [OF cc])
  have "has_pending_send (tsx_grp_lock_release t) = has_pending_send t"
    by (simp add: tsx_grp_lock_release_def tsx_grp_lock_dec_ref_def)
  then show ?thesis
    unfolding cb using k t busy_keeps [OF _ k] keeps_role [OF k]
    by (auto simp: resolving_def sending_def)
qed (simp add: send_msg_callback_def keeps_refl [OF ok])

lemma transport_callback_impl_keeps:
  assumes ok: "tsx_ok s" and res: "role s = PJSIP_ROLE_UAC \<longrightarrow> has_resolved_server s"
    and d: "state s = PJSIP_TSX_STATE_DESTROYED \<longrightarrow> terminating s"
  shows "keeps s (transport_callback_impl e sent s)"
proof -
  define s1 where "s1 = (tsx_grp_lock_acquire s)\<lparr>has_pending_transport := False\<rparr>"
  have k1: "keeps (tsx_grp_lock_acquire s) s1"
    using ok res by (auto simp: s1_def tsx_grp_lock_acquire_def keeps_def tsx_ok_def hist_ok_def uac_ok_def
        owes_completion_def destroy_ok_def tsx_evolves_def tsx_grows_def settled_def undestroyed_def)
  have f1: "held s1 = held s + 1" "role s1 = role s" "state s1 = state s" "terminating s1 = terminating s"
    by (simp_all add: s1_def tsx_grp_lock_acquire_def)
  have lift: "keeps s1 t \<Longrightarrow> keeps s (tsx_grp_lock_release t)" for t
    using locked_keeps keeps_changed [OF keeps_trans [OF k1]] by simp
  show ?thesis
  proof (cases "(sent > 0 \<or> role s1 = PJSIP_ROLE_UAS) \<and> has_pending_destroy s1")
    case True
    let ?t = "tsx_set_state e PJSIP_TSX_STATE_DESTROYED Src_Unknown flags_none s1"
    have sd: "state s1 = PJSIP_TSX_STATE_DESTROYED"
      using True keeps_ok [OF k1] by (simp add: tsx_ok_def destroy_ok_def)
    have "tsx_ok ?t" "tsx_grows s1 ?t"
      using set_state_destroyed [OF keeps_ok [OF k1], of Src_Unknown flags_none] sd
      by (simp_all add: unlocked_notify_def flags_none_def)
    then have "keeps s1 ?t" using sd by (simp add: keeps_def tsx_evolves_def undestroyed_def)
    then show ?thesis
      using True keeps_view_after [OF lift]
      by (simp add: transport_callback_impl_def Let_def s1_def [symmetric])
  next
    case False
    define s2 where "s2 = (if sent > 0 \<or> role s1 = PJSIP_ROLE_UAS
      then resched_waiting e (send_waiting e s1) else s1)"
    have "keeps s1 (send_waiting e s1)"
      using send_waiting_spec [OF keeps_ok [OF k1]] d f1 by simp
    then have k2: "keeps s1 s2"
      using keeps_view_after keeps_refl [OF keeps_ok [OF k1]] by (auto simp: s2_def)
    define s3 where "s3 = tsx_grp_lock_release s2"
    have k3: "keeps s s3" unfolding s3_def by (rule lift [OF k2])
    define s4 where "s4 = (if sent < 0 \<and> role s3 = PJSIP_ROLE_UAC
      then if state (s3\<lparr>transport_err := - sent\<rparr>) < PJSIP_TSX_STATE_COMPLETED
           then tsx_restart_timer Timeout_Timer timeout_zero TRANSPORT_ERR_TIMER (s3\<lparr>transport_err := - sent\<rparr>)
           else s3\<lparr>transport_err := - sent\<rparr>
      else s3)"
    have "keeps s3 (s3\<lparr>transport_err := - sent\<rparr>)" if "sent < 0"
      using keeps_ok [OF k3] that by (simp add: keeps_def tsx_ok_def hist_ok_def uac_ok_def
          owes_completion_def destroy_ok_def tsx_evolves_def tsx_grows_def settled_def undestroyed_def)
    then have "keeps s3 s4"
      using keeps_view_after keeps_refl [OF keeps_ok [OF k3]] by (auto simp: s4_def)
    then have "keeps s (tsx_grp_lock_dec_ref s4)" using keeps_view_after keeps_trans [OF k3] by simp
    moreover have "transport_callback_impl e sent s = tsx_grp_lock_dec_ref s4"
      unfolding transport_callback_impl_def Let_def s1_def [symmetric] if_not_P [OF False]
      by (simp only: s4_def s3_def s2_def)
    ultimately show ?thesis by simp
  qed
qed

lemma transport_callback_keeps:
  assumes ok: "tsx_ok s" and res: "role s = PJSIP_ROLE_UAC \<longrightarrow> has_resolved_server s"
    and d: "state s = PJSIP_TSX_STATE_DESTROYED \<longrightarrow> terminating s"
  shows "keeps s (transport_callback e x sent s) \<and> (0 < held s \<longrightarrow> state (transport_callback e x sent s) = state s \<and>
    has_pending_send (transport_callback e x sent s) = has_pending_send s)"
proof (cases "held s = 0")
  case True
  have k: "keeps (tsx_grp_lock_acquire s) (transport_callback_impl e sent (tsx_grp_lock_acquire s))"
    by (rule transport_callback_impl_keeps) (use assms in simp_all)
  have "keeps s (tsx_grp_lock_release (transport_callback_impl e sent (tsx_grp_lock_acquire s)))"
    by (rule locked_keeps [OF keeps_changed [OF k]]) simp
  with True show ?thesis by (simp add: transport_callback_def)
next
  case False
  let ?t = "transport_callback e x sent s"
  have v: "role ?t = role s" "meth ?t = meth s" "held ?t = held s" "state ?t = state s"
    "state_handler ?t = state_handler s" "hist ?t = hist s" "transport ?t = transport s"
    "has_pending_transport ?t = has_pending_transport s" "has_pending_send ?t = has_pending_send s"
    "has_pending_destroy ?t = has_pending_destroy s"
    "has_resolved_server ?t = has_resolved_server s" "transport_err ?t = transport_err s"
    "terminating ?t = terminating s" "registered ?t = registered s"
    using False by (simp_all add: transport_callback_def Let_def pjsip_tx_data_add_ref_def)
  show ?thesis
    using ok res v by (simp add: keeps_def tsx_ok_def hist_ok_def uac_ok_def destroy_ok_def
        tsx_evolves_def tsx_grows_def settled_def undestroyed_def)
qed

lemma tsx_retransmit_keeps:
  assumes b: "busy s"
  shows "keeps s (snd (tsx_retransmit e resched s))"
proof -
  have ok: "tsx_ok s" using b by (simp add: busy_def)
  define s2 where "s2 = (let s1 = s\<lparr>retransmit_count := retransmit_count s + 1\<rparr> in if resched
    then (if has_pending_transport s1 then s1\<lparr>has_pending_resched := True\<rparr> else tsx_resched_retransmission e s1)
    else s1)"
  have v2: "tsx_view s2 = tsx_view s" by (simp add: s2_def Let_def)
  obtain st s3 where r: "tsx_send_msg e (last_tx s2) s2 = (st, s3)" by fastforce
  have k3: "keeps s s3" using tsx_send_msg_spec [OF _ r] b busy_view [OF v2] view_keeps [OF v2] by blast
  have k4: "keeps s ((tsx_cancel_timer Retransmit_Timer s3)\<lparr>has_pending_resched := True\<rparr>)"
    by (rule keeps_view_after [OF k3]) simp
  show ?thesis
    using r k3 k4 keeps_refl [OF ok] keeps_view [OF ok]
    by (simp add: tsx_retransmit_def s2_def Let_def split: option.split)
qed

lemma set_state_from:
  assumes ok: "tsx_ok s" "0 < held s" and v: "tsx_view s1 = tsx_view s"
    and edge: "tsx_edge (role s) (meth s) (state s) st" and st: "st \<noteq> PJSIP_TSX_STATE_DESTROYED"
    and src: "src \<noteq> Src_Timer Timeout_Timer"
  shows "keeps s (tsx_set_state e st src flags_none s1)"
  using set_state_locked [of s1 st src] view_keeps [OF v] ok tsx_ok_view [OF v] tsx_view_fields(1-4) [OF v]
    edge st src by simp

lemma timeout_terminates:
  assumes ok: "tsx_ok s" "0 < held s" and v: "tsx_view s1 = tsx_view s"
    and st: "state s < PJSIP_TSX_STATE_TERMINATED"
  shows "changed s (tsx_set_state e PJSIP_TSX_STATE_TERMINATED src fl s1) False"
proof -
  have "changed s1 (tsx_set_state e PJSIP_TSX_STATE_TERMINATED src fl s1) (1 < held s1)"
    by (rule set_state_unlocked)
      (use ok tsx_ok_view [OF v] tsx_view_fields(1-4) [OF v] terminated st in auto)
  then show ?thesis using v by (simp add: changed_def tsx_grows_def settled_def tsx_view_def)
qed

lemma handled:
  "keeps s s' \<Longrightarrow> 0 < held s \<Longrightarrow> changed s s' k"
  using keeps_changed by blast

lemma on_state_null_changed:
  assumes b: "busy s" and st: "state s = PJSIP_TSX_STATE_NULL"
  shows "changed s (snd (tsx_on_state_null e ev s)) (\<not> is_timer ev)"
proof -
  have ok: "tsx_ok s" "0 < held s" using b by (simp_all add: busy_def)
  show ?thesis
  proof (cases "role s = PJSIP_ROLE_UAS")
    case True
    then have edge: "tsx_edge (role s) (meth s) (state s) PJSIP_TSX_STATE_TRYING"
      using st by (simp add: request_received)
    show ?thesis
    proof (cases "is_timer ev")
      case t: True
      then show ?thesis
        using set_state_unlocked [OF ok edge, of "event_src ev" flags_none] changed_weaken True
        by (auto simp: tsx_on_state_null_def)
    next
      case False
      then have "event_src ev \<noteq> Src_Timer Timeout_Timer" by (cases ev) (auto simp: is_timer_def)
      then show ?thesis
        using handled [OF set_state_from [OF ok refl edge]] ok(2) True
        by (simp add: tsx_on_state_null_def)
    qed
  next
    case False
    then have uac: "role s = PJSIP_ROLE_UAC" by (cases "role s") auto
    show ?thesis
    proof (cases ev)
      case (Event_Tx_Msg x)
      let ?s1 = "keep_last_tx x (discard_last_tx x s)"
      have v1: "tsx_view ?s1 = tsx_view s" by simp
      obtain stt s2 where r: "tsx_send_msg e (Some x) ?s1 = (stt, s2)" by fastforce
      have k: "keeps s s2" "stt = 0 \<longrightarrow> state s2 = state s"
        using tsx_send_msg_spec [OF _ r] b busy_view [OF v1] view_keeps [OF v1] tsx_view_fields(4) [OF v1]
        by auto
      have "stt = 0 \<Longrightarrow> keeps s (null_uac_sent e s2)"
      proof -
        assume "stt = 0"
        then have edge: "tsx_edge (role s2) (meth s2) (state s2) PJSIP_TSX_STATE_CALLING"
          using k keeps_role [OF k(1)] uac st by (simp add: request_sent)
        have h: "0 < held s2" using keeps_held [OF k(1)] ok(2) by simp
        show ?thesis
          unfolding null_uac_sent_def Let_def
          by (rule keeps_trans [OF k(1)], rule set_state_from [OF keeps_ok [OF k(1)] h _ edge]) simp_all
      qed
      then show ?thesis
        using handled ok(2) r k uac Event_Tx_Msg
        by (auto simp: tsx_on_state_null_def Let_def pj_status)
    qed (use uac handled [OF keeps_refl [OF ok(1)] ok(2)] in \<open>simp_all add: tsx_on_state_null_def\<close>)
  qed
qed

lemma uac_final_end_keeps:
  assumes ok: "tsx_ok s" "0 < held s" and edge: "tsx_edge (role s) (meth s) (state s) PJSIP_TSX_STATE_COMPLETED"
  shows "keeps s (uac_final_end e m ack s)"
proof -
  let ?s1 = "tsx_set_state e PJSIP_TSX_STATE_COMPLETED (Src_Rx_Msg m) flags_none s"
  have k: "keeps s ?s1" by (rule set_state_from [OF ok refl edge]) simp_all
  show ?thesis
    by (rule keeps_view_after [OF k]) (auto simp: uac_final_end_def Let_def split: option.split)
qed

lemma uac_final_keeps:
  assumes b: "busy s" and edge: "tsx_edge (role s) (meth s) (state s) PJSIP_TSX_STATE_COMPLETED"
    and st: "state s < PJSIP_TSX_STATE_TERMINATED"
  shows "keeps s (snd (uac_final e m s))"
proof -
  define s1 where "s1 = tsx_cancel_timer Timeout_Timer (tsx_cancel_timer Retransmit_Timer s)"
  have v: "tsx_view s1 = tsx_view s" by (simp add: s1_def)
  note f = tsx_view_fields(1-4) [OF v]
  have b1: "busy s1" using b busy_view [OF v] by simp
  then have ok: "tsx_ok s1" "0 < held s1" by (simp_all add: busy_def)
  have edge1: "tsx_edge (role s1) (meth s1) (state s1) PJSIP_TSX_STATE_COMPLETED" using edge f by simp
  have k: "keeps s1 (snd (uac_final e m s))"
  proof (cases "meth s1 = PJSIP_INVITE_METHOD")
    case True
    obtain a s2 where c: "call_out e Create_Ack s1 = (a, s2)" by fastforce
    have s2: "busy s2" "tsx_evolves s1 s2" "state s2 = state s1"
      using transport_keeps [OF b1 _ c] by simp_all
    then have k2: "keeps s1 s2" by (simp add: keeps_def busy_def)
    obtain stt s3 where r: "tsx_send_msg e (Some (ans_obj a)) s2 = (stt, s3)" by fastforce
    have k3: "keeps s1 s3" "stt = 0 \<Longrightarrow> state s3 = state s1"
      using tsx_send_msg_spec [OF s2(1) r] keeps_trans [OF k2] s2(3) by auto
    have k4: "keeps s1 (uac_final_end e m (Some (ans_obj a)) s3)" if "stt = 0"
      by (rule keeps_trans [OF k3(1)], rule uac_final_end_keeps [OF keeps_ok [OF k3(1)]])
        (use keeps_held [OF k3(1)] ok(2) keeps_role [OF k3(1)] k3(2) [OF that] edge1 in simp_all)
    then show ?thesis
      using True c r k2 k3 by (simp add: uac_final_def Let_def s1_def [symmetric] pj_status)
  next
    case False
    have "tsx_edge (role s1) (meth s1) (state s1) PJSIP_TSX_STATE_TERMINATED" using st f by (simp add: terminated)
    then have "keeps s1 (tsx_set_state e PJSIP_TSX_STATE_TERMINATED (Src_Rx_Msg m) flags_none s1)"
      by (rule set_state_from [OF ok refl]) simp_all
    with False uac_final_end_keeps [OF ok edge1] show ?thesis
      by (simp add: uac_final_def Let_def s1_def [symmetric])
  qed
  then show ?thesis using view_keeps [OF v] by simp
qed

lemma uac_2xx_keeps:
  assumes ok: "tsx_ok s" "0 < held s" and edge: "tsx_edge (role s) (meth s) (state s) PJSIP_TSX_STATE_COMPLETED"
    and st: "state s < PJSIP_TSX_STATE_TERMINATED"
  shows "keeps s (uac_2xx e m s)"
proof -
  have "keeps s (tsx_set_state e PJSIP_TSX_STATE_TERMINATED (Src_Rx_Msg m) flags_none
      (tsx_cancel_timer Timeout_Timer s))"
    by (rule set_state_from [OF ok _ terminated [OF st]]) simp_all
  moreover have "keeps s (tsx_set_state e PJSIP_TSX_STATE_COMPLETED (Src_Rx_Msg m) flags_none
      (tsx_cancel_timer Retransmit_Timer
        (tsx_schedule_timer Timeout_Timer d TIMEOUT_TIMER (tsx_cancel_timer Timeout_Timer s))))" for d
    by (rule set_state_from [OF ok _ edge]) simp_all
  ultimately show ?thesis by (simp add: uac_2xx_def Let_def)
qed

lemma uac_edges:
  assumes "state s = PJSIP_TSX_STATE_CALLING \<or> state s = PJSIP_TSX_STATE_PROCEEDING"
    "role s = PJSIP_ROLE_UAC"
  shows "tsx_edge (role s) (meth s) (state s) PJSIP_TSX_STATE_PROCEEDING"
    "tsx_edge (role s) (meth s) (state s) PJSIP_TSX_STATE_COMPLETED"
    "state s < PJSIP_TSX_STATE_TERMINATED"
  using assms by (auto simp: state_order intro: provisional final)

lemma on_state_proceeding_uac_changed:
  assumes b: "busy s" and st: "state s = PJSIP_TSX_STATE_CALLING \<or> state s = PJSIP_TSX_STATE_PROCEEDING"
    and r: "role s = PJSIP_ROLE_UAC"
  shows "changed s (snd (tsx_on_state_proceeding_uac e ev s)) (\<not> is_timer ev)"
proof -
  have ok: "tsx_ok s" "0 < held s" using b by (simp_all add: busy_def)
  note ed = uac_edges [OF st r]
  show ?thesis
  proof (cases ev)
    case (Event_Rx_Msg m)
    show ?thesis
    proof (cases m)
      case (PJSIP_RESPONSE_MSG code cm)
      let ?s1 = "tsx_set_status_code code s"
      have v: "tsx_view ?s1 = tsx_view s" by simp
      note f = tsx_view_fields(1-4) [OF v]
      have b1: "busy ?s1" using b busy_view [OF v] by simp
      have "keeps ?s1 (snd (uac_final e m ?s1))" "keeps ?s1 (uac_2xx e m ?s1)"
        using uac_final_keeps [OF b1] uac_2xx_keeps ed f b1 by (simp_all add: busy_def)
      then have "keeps s (snd (uac_final e m ?s1))" "keeps s (uac_2xx e m ?s1)" "keeps s ?s1"
        "keeps s (tsx_set_state e PJSIP_TSX_STATE_PROCEEDING (Src_Rx_Msg m) flags_none ?s1)"
        using view_keeps [OF v] keeps_view [OF ok(1) v] set_state_from [OF ok v ed(1), of "Src_Rx_Msg m"] by simp_all
      then show ?thesis
        using handled ok(2) Event_Rx_Msg PJSIP_RESPONSE_MSG
        by (simp add: tsx_on_state_proceeding_uac_def Let_def)
    qed (use Event_Rx_Msg handled [OF keeps_refl [OF ok(1)] ok(2)] in
        \<open>simp add: tsx_on_state_proceeding_uac_def\<close>)
  next
    case (Event_Timer en)
    have "changed s (tsx_set_state e PJSIP_TSX_STATE_TERMINATED (Src_Timer Timeout_Timer) flags_none
        (tsx_set_status_code PJSIP_SC_TSX_TIMEOUT s)) False"
      by (rule timeout_terminates [OF ok _ ed(3)]) simp
    then show ?thesis
      using handled [OF tsx_retransmit_keeps [OF b] ok(2)] Event_Timer
      by (simp add: tsx_on_state_proceeding_uac_def is_timer_def)
  qed (use handled [OF keeps_refl [OF ok(1)] ok(2)] in \<open>simp add: tsx_on_state_proceeding_uac_def\<close>)
qed

lemma on_state_calling_changed:
  assumes b: "busy s" and st: "state s = PJSIP_TSX_STATE_CALLING" and r: "role s = PJSIP_ROLE_UAC"
  shows "changed s (snd (tsx_on_state_calling e ev s)) (\<not> is_timer ev)"
proof -
  have ok: "tsx_ok s" "0 < held s" using b by (simp_all add: busy_def)
  have t: "changed s (tsx_set_state e PJSIP_TSX_STATE_TERMINATED (Src_Timer Timeout_Timer) flags_none
      (tsx_set_status_code PJSIP_SC_TSX_TIMEOUT
        ((tsx_cancel_timer Retransmit_Timer s)\<lparr>has_pending_resched := False\<rparr>))) False"
    by (rule timeout_terminates [OF ok]) (use st in \<open>simp_all add: state_order\<close>)
  have p: "changed s (snd (tsx_on_state_proceeding_uac e ev (calling_timers e code s))) (\<not> is_timer ev)" for code
  proof -
    have v: "tsx_view (calling_timers e code s) = tsx_view s" by simp
    have "changed (calling_timers e code s)
        (snd (tsx_on_state_proceeding_uac e ev (calling_timers e code s))) (\<not> is_timer ev)"
      by (rule on_state_proceeding_uac_changed)
        (use b busy_view [OF v] tsx_view_fields [OF v] st r in simp_all)
    then show ?thesis using v by (simp add: changed_def tsx_grows_def settled_def undestroyed_def tsx_view_def)
  qed
  show ?thesis
    using t p handled [OF tsx_retransmit_keeps [OF b] ok(2)] handled [OF keeps_refl [OF ok(1)] ok(2)]
    by (cases ev) (auto simp: tsx_on_state_calling_def is_timer_def split: tsx_entry.split pjsip_msg.split)
qed

lemma on_state_completed_uac_changed:
  assumes b: "busy s" and st: "state s = PJSIP_TSX_STATE_COMPLETED"
  shows "changed s (snd (tsx_on_state_completed_uac e ev s)) (\<not> is_timer ev)"
proof -
  have ok: "tsx_ok s" "0 < held s" using b by (simp_all add: busy_def)
  have "changed s (tsx_set_state e PJSIP_TSX_STATE_TERMINATED src flags_none s) False" for src
    by (rule timeout_terminates [OF ok]) (use st in \<open>simp_all add: state_order\<close>)
  then show ?thesis
    using handled [OF tsx_retransmit_keeps [OF b] ok(2)] handled [OF keeps_refl [OF ok(1)] ok(2)]
    by (cases ev) (auto simp: tsx_on_state_completed_uac_def is_timer_def split: pjsip_msg.split)
qed

lemma uas_edges:
  assumes "state s = PJSIP_TSX_STATE_TRYING \<or> state s = PJSIP_TSX_STATE_PROCEEDING"
    "role s = PJSIP_ROLE_UAS"
  shows "tsx_edge (role s) (meth s) (state s) PJSIP_TSX_STATE_PROCEEDING"
    "tsx_edge (role s) (meth s) (state s) PJSIP_TSX_STATE_COMPLETED"
    "state s < PJSIP_TSX_STATE_TERMINATED"
  using assms by (auto simp: state_order intro: provisional final)

lemma uas_sent_keeps:
  assumes ok: "tsx_ok s" "0 < held s"
    and st: "state s = PJSIP_TSX_STATE_TRYING \<or> state s = PJSIP_TSX_STATE_PROCEEDING"
    and r: "role s = PJSIP_ROLE_UAS"
  shows "keeps s (uas_sent e x s)"
proof -
  note ed = uas_edges [OF st r]
  let ?t = "tsx_set_state e PJSIP_TSX_STATE_PROCEEDING Src_Tx_Msg flags_none (keep_last_tx x s)"
  have "keeps s ?t" by (rule set_state_from [OF ok _ ed(1)]) simp_all
  then have "keeps s (uas_sent_1xx e x s)"
    by (rule keeps_view_after) (simp add: uas_sent_1xx_def Let_def)
  moreover have "keeps s (uas_sent_2xx e x s)"
    using set_state_from [OF ok _ ed(2), of _ Src_Tx_Msg]
      set_state_from [OF ok _ terminated [OF ed(3)], of _ Src_Tx_Msg]
    by (simp add: uas_sent_2xx_def Let_def)
  moreover have "keeps s (uas_sent_final e x s)"
    using set_state_from [OF ok _ ed(2), of _ Src_Tx_Msg] by (simp add: uas_sent_final_def Let_def)
  ultimately show ?thesis using keeps_refl [OF ok(1)] by (simp add: uas_sent_def)
qed

lemma on_state_proceeding_uas_changed:
  assumes b: "busy s" and st: "state s = PJSIP_TSX_STATE_TRYING \<or> state s = PJSIP_TSX_STATE_PROCEEDING"
    and r: "role s = PJSIP_ROLE_UAS"
  shows "changed s (snd (tsx_on_state_proceeding_uas e ev s)) (\<not> is_timer ev)"
proof -
  have ok: "tsx_ok s" "0 < held s" using b by (simp_all add: busy_def)
  note idle = handled [OF keeps_refl [OF ok(1)] ok(2)]
  show ?thesis
  proof (cases ev)
    case (Event_Rx_Msg m)
    have ps: "has_pending_transport s \<Longrightarrow> keeps s (s\<lparr>has_pending_send := True\<rparr>)"
      using b by (auto simp: busy_def keeps_def tsx_ok_def hist_ok_def uac_ok_def owes_completion_def
          destroy_ok_def tsx_evolves_def tsx_grows_def settled_def undestroyed_def)
    have "keeps s (snd (tsx_send_msg e tx s))" for tx
      using tsx_send_msg_spec [OF b] by (cases "tsx_send_msg e tx s") auto
    then show ?thesis
      using Event_Rx_Msg ps handled ok(2) idle
      by (simp add: tsx_on_state_proceeding_uas_def split: option.split)
  next
    case (Event_Tx_Msg x)
    show ?thesis
    proof (cases "msg (tdatas s x)")
      case (PJSIP_RESPONSE_MSG code cm)
      let ?s1 = "discard_last_tx x (tsx_set_status_code code s)"
      have v: "tsx_view ?s1 = tsx_view s" by simp
      obtain stt s2 where r2: "tsx_send_msg e (Some x) ?s1 = (stt, s2)" by fastforce
      have k: "keeps s s2" "stt = 0 \<Longrightarrow> state s2 = state s"
        using tsx_send_msg_spec [OF _ r2] b busy_view [OF v] view_keeps [OF v] tsx_view_fields(4) [OF v]
        by auto
      have "stt = 0 \<Longrightarrow> keeps s (uas_sent e x s2)"
        using keeps_trans [OF k(1) uas_sent_keeps [OF keeps_ok [OF k(1)]]] keeps_held [OF k(1)]
          keeps_role [OF k(1)] k(2) ok(2) st r by simp
      then show ?thesis
        using handled ok(2) r2 k Event_Tx_Msg PJSIP_RESPONSE_MSG
        by (simp add: tsx_on_state_proceeding_uas_def Let_def pj_status)
    qed (use idle Event_Tx_Msg in \<open>simp add: tsx_on_state_proceeding_uas_def\<close>)
  next
    case (Event_Timer en)
    have "changed s (tsx_set_state e PJSIP_TSX_STATE_TERMINATED (Src_Timer Timeout_Timer) flags_none
        (tsx_set_status_code PJSIP_SC_TSX_TIMEOUT s)) False"
      by (rule timeout_terminates [OF ok _ uas_edges(3) [OF st r]]) simp
    then show ?thesis
      using handled [OF tsx_retransmit_keeps [OF b] ok(2)] idle Event_Timer
      by (simp add: tsx_on_state_proceeding_uas_def is_timer_def split: tsx_entry.split)
  qed
qed

lemma on_state_trying_changed:
  assumes b: "busy s" and st: "state s = PJSIP_TSX_STATE_TRYING" and r: "role s = PJSIP_ROLE_UAS"
  shows "changed s (snd (tsx_on_state_trying e ev s)) (\<not> is_timer ev)"
proof -
  have ok: "tsx_ok s" "0 < held s" using b by (simp_all add: busy_def)
  show ?thesis
  proof (cases ev)
    case (Event_Tx_Msg x)
    obtain stt s1 where p: "tsx_on_state_proceeding_uas e ev s = (stt, s1)" by fastforce
    have k: "keeps s s1"
      using on_state_proceeding_uas_changed [OF b _ r, of ev] st p Event_Tx_Msg
      by (simp add: is_timer_def changed_keeps)
    have "keeps s (tsx_set_state e PJSIP_TSX_STATE_PROCEEDING Src_Tx_Msg flags_none s1)"
      if "state s1 = PJSIP_TSX_STATE_TRYING"
      by (rule keeps_trans [OF k], rule set_state_from [OF keeps_ok [OF k] _ refl])
        (use keeps_held [OF k] ok(2) uas_edges(1) [of s1] keeps_role [OF k] r that in auto)
    then show ?thesis
      using handled ok(2) k p Event_Tx_Msg by (simp add: tsx_on_state_trying_def Let_def)
  qed (use handled [OF keeps_refl [OF ok(1)] ok(2)] in \<open>simp_all add: tsx_on_state_trying_def\<close>)
qed

lemma on_state_completed_uas_changed:
  assumes b: "busy s" and st: "state s = PJSIP_TSX_STATE_COMPLETED" and r: "role s = PJSIP_ROLE_UAS"
  shows "changed s (snd (tsx_on_state_completed_uas e ev s)) (\<not> is_timer ev)"
proof -
  have ok: "tsx_ok s" "0 < held s" using b by (simp_all add: busy_def)
  have t: "changed s (tsx_set_state e PJSIP_TSX_STATE_TERMINATED (Src_Timer Timeout_Timer) flags_none
      (if meth s = PJSIP_INVITE_METHOD then tsx_set_status_code PJSIP_SC_TSX_TIMEOUT s else s)) False"
    by (rule timeout_terminates [OF ok]) (use st in \<open>simp_all add: state_order\<close>)
  have "meth s = PJSIP_INVITE_METHOD \<Longrightarrow> keeps s (uas_ack e m s)" for m
    unfolding uas_ack_def Let_def
    by (rule set_state_from [OF ok]) (use st r ack_received in auto)
  then show ?thesis
    using t handled [OF tsx_retransmit_keeps [OF b] ok(2)] handled [OF keeps_refl [OF ok(1)] ok(2)]
      handled [of s] ok(2)
    by (cases ev) (auto simp: tsx_on_state_completed_uas_def is_timer_def split: pjsip_msg.split)
qed

lemma on_state_confirmed_changed:
  assumes b: "busy s" and st: "state s = PJSIP_TSX_STATE_CONFIRMED"
  shows "changed s (snd (tsx_on_state_confirmed e ev s)) (\<not> is_timer ev)"
proof -
  have ok: "tsx_ok s" "0 < held s" using b by (simp_all add: busy_def)
  have "changed s (tsx_set_state e PJSIP_TSX_STATE_TERMINATED (Src_Timer Timeout_Timer) flags_none s) False"
    by (rule timeout_terminates [OF ok]) (use st in \<open>simp_all add: state_order\<close>)
  then show ?thesis
    using handled [OF keeps_refl [OF ok(1)] ok(2)]
    by (cases ev) (auto simp: tsx_on_state_confirmed_def is_timer_def)
qed

lemma on_state_terminated_changed:
  assumes ok: "tsx_ok s" "0 < held s" and st: "state s = PJSIP_TSX_STATE_TERMINATED"
  shows "changed s (snd (tsx_on_state_terminated e ev s)) (\<not> is_timer ev)"
proof (cases ev)
  case (Event_Timer en)
  then show ?thesis
    using set_state_destroyed [OF ok(1), of "Src_Timer en" flags_none] ok(2) st
    by (simp add: tsx_on_state_terminated_def is_timer_def changed_def)
qed (use handled [OF keeps_refl [OF ok(1)] ok(2)] in \<open>simp_all add: tsx_on_state_terminated_def\<close>)

lemma call_handler_changed:
  assumes ok: "tsx_ok s" "0 < held s"
  shows "changed s (snd (call_handler e ev s)) (\<not> is_timer ev)"
proof -
  have h: "state_handler s = handler_table (role s) (state s)" "state_typed (role s) (meth s) (state s)"
    using ok(1) by (simp_all add: tsx_ok_def)
  have b: "state s \<noteq> PJSIP_TSX_STATE_DESTROYED \<Longrightarrow> busy s" using ok by (simp add: busy_def)
  note idle = handled [OF keeps_refl [OF ok(1)] ok(2)]
  note cases' = on_state_null_changed on_state_calling_changed on_state_trying_changed
    on_state_proceeding_uas_changed on_state_proceeding_uac_changed on_state_completed_uac_changed
    on_state_completed_uas_changed on_state_confirmed_changed on_state_terminated_changed [OF ok]
  show ?thesis
    using h b idle cases'
    by (cases "role s"; cases "state s")
      (simp_all add: call_handler_def handler_table_def state_typed_def tsx_on_state_destroyed_def)
qed

lemma locked_handler_changed:
  assumes "tsx_ok s"
  shows "(\<not> is_timer ev \<longrightarrow> keeps s (snd (locked_handler e ev s))) \<and>
    (held s = 0 \<longrightarrow> keeps s (snd (locked_handler e ev s)))"
proof -
  have c: "changed (tsx_grp_lock_acquire s) (snd (call_handler e ev (tsx_grp_lock_acquire s))) (\<not> is_timer ev)"
    by (rule call_handler_changed) (use assms in simp_all)
  have eq: "snd (locked_handler e ev s) = tsx_grp_lock_release (snd (call_handler e ev (tsx_grp_lock_acquire s)))"
    by (simp add: locked_handler_def split: prod.split)
  show ?thesis
    unfolding eq using locked_keeps changed_weaken [OF c, of "0 < held s"] by auto
qed

lemma send_msg_keeps:
  assumes "tsx_ok s"
  shows "keeps s (snd (pjsip_tsx_send_msg e td s))"
proof -
  have k: "keeps s (snd (locked_handler e (Event_Tx_Msg x) s))" for x
    using locked_handler_changed [OF assms, of "Event_Tx_Msg x"] by (simp add: is_timer_def)
  then have "keeps s (pjsip_tx_data_dec_ref x (snd (locked_handler e (Event_Tx_Msg x) s)))" for x
    by (rule keeps_frames)
  with k keeps_refl [OF assms] show ?thesis
    by (auto simp: pjsip_tsx_send_msg_def Let_def split: option.split prod.split) (metis snd_conv)+
qed

lemma terminate_keeps:
  assumes "tsx_ok s"
  shows "keeps s (snd (pjsip_tsx_terminate e code s))"
proof -
  let ?a = "tsx_grp_lock_acquire s"
  have "keeps ?a (tsx_set_state e PJSIP_TSX_STATE_TERMINATED Src_User flags_none (tsx_set_status_code code ?a))"
    if "state s < PJSIP_TSX_STATE_TERMINATED"
    by (rule set_state_from) (use assms that terminated in simp_all)
  then have "keeps s (tsx_grp_lock_release (if state ?a < PJSIP_TSX_STATE_TERMINATED
      then tsx_set_state e PJSIP_TSX_STATE_TERMINATED Src_User flags_none (tsx_set_status_code code ?a) else ?a))"
    using assms by (intro locked_keeps) (auto intro!: handled simp: keeps_refl)
  with keeps_refl [OF assms] show ?thesis by (simp add: pjsip_tsx_terminate_def Let_def)
qed

lemma retransmit_no_state_keeps:
  assumes ok: "tsx_ok s" and st: "state s < PJSIP_TSX_STATE_TERMINATED"
  shows "keeps s (snd (pjsip_tsx_retransmit_no_state e td s))"
proof -
  let ?a = "tsx_grp_lock_acquire s"
  define tx where "tx = (case td of Some x \<Rightarrow> Some x | None \<Rightarrow> last_tx ?a)"
  define s2 where "s2 = (case td of Some _ \<Rightarrow> ?a
    | None \<Rightarrow> (case tx of Some x \<Rightarrow> pjsip_tx_data_add_ref x ?a | None \<Rightarrow> ?a))"
  have v: "tsx_view s2 = tsx_view ?a" by (simp add: s2_def split: option.split)
  have "state s \<noteq> PJSIP_TSX_STATE_DESTROYED" using st by (auto simp: state_order)
  then have b: "busy s2" using busy_acquire [OF ok] busy_view [OF v] by simp
  obtain stt s3 where r: "tsx_send_msg e tx s2 = (stt, s3)" by fastforce
  have "keeps ?a s3" using tsx_send_msg_spec [OF b r] view_keeps [OF v] by blast
  then have k: "keeps s (tsx_grp_lock_release s3)" by (intro locked_keeps) (rule handled, simp_all)
  then have "keeps s (pjsip_tx_data_dec_ref x (tsx_grp_lock_release s3))" for x by (rule keeps_frames)
  with k show ?thesis
    unfolding pjsip_tsx_retransmit_no_state_def Let_def tx_def [symmetric]
    unfolding s2_def [symmetric] r by (simp split: option.split)
qed

lemma transport_gone_keeps:
  assumes ok: "tsx_ok s" "held s = 0" and st: "state s < PJSIP_TSX_STATE_TERMINATED"
  shows "keeps s (tsx_transport_gone e disc s)"
proof -
  define s2 where "s2 = tsx_update_transport 0 False (tsx_grp_lock_acquire s)"
  have k2: "keeps (tsx_grp_lock_acquire s) s2"
    using ok(1) by (simp add: s2_def keeps_def tsx_ok_def hist_ok_def uac_ok_def owes_completion_def
        destroy_ok_def tsx_evolves_def tsx_grows_def settled_def undestroyed_def tsx_grp_lock_acquire_def)
  have f2: "held s2 = 1" "state s2 = state s" "role s2 = role s" using ok(2) by (simp_all add: s2_def)
  show ?thesis
  proof (cases "continue_on_tp_error disc s2")
    case True
    then have "role s2 = PJSIP_ROLE_UAS" by (simp add: continue_on_tp_error_def)
    then have "keeps s2 (clear_flags s2)"
      using keeps_ok [OF k2]
      by (simp add: clear_flags_def keeps_def tsx_ok_def hist_ok_def uac_ok_def
          owes_completion_def destroy_ok_def tsx_evolves_def tsx_grows_def settled_def undestroyed_def)
    then have "keeps s (tsx_grp_lock_release (clear_flags s2))"
      using locked_keeps [OF handled [OF keeps_trans [OF k2]]] by simp
    with True show ?thesis by (simp add: tsx_transport_gone_def Let_def s2_def [symmetric])
  next
    case False
    define s3 where "s3 = (if status_code s2 < 200
      then tsx_set_status_code PJSIP_SC_TSX_TRANSPORT_ERROR s2 else s2)"
    have v3: "tsx_view s3 = tsx_view s2" by (simp add: s3_def)
    define t where "t = tsx_set_state e PJSIP_TSX_STATE_TERMINATED Src_Transport_Error
      (flags_none\<lparr>no_notify := True, no_schedule_handler := True\<rparr>) s3"
    have "changed s2 t False"
      unfolding t_def
      by (rule timeout_terminates [OF keeps_ok [OF k2] _ v3]) (use f2 st in simp_all)
    then have "changed (tsx_grp_lock_acquire s) t False"
      using changed_trans [OF keeps_changed [OF k2, of False]] by simp
    then have k4: "keeps s (tsx_grp_lock_release t)" using locked_keeps ok(2) by simp
    define s5 where "s5 = (case tsx_user (tsx_grp_lock_release t) of
        Some u \<Rightarrow> if has_on_tsx_state u
          then on_tsx_state e ((tsx_grp_lock_release t)\<lparr>tsx_logs := tsx_logs (tsx_grp_lock_release t) @
                 [Log_Tsx_State (state (tsx_grp_lock_acquire s)) (state (tsx_grp_lock_release t))]\<rparr>)
          else tsx_grp_lock_release t
      | None \<Rightarrow> tsx_grp_lock_release t)"
    have "keeps s s5"
      using k4 keeps_trans [OF k4 user_keeps_log [OF keeps_ok [OF k4]]]
      by (simp add: s5_def del: lock_fields split: option.split)
    then have "keeps s (tsx_schedule_timer Timeout_Timer timeout_zero TIMEOUT_TIMER s5)"
      by (rule keeps_frames) simp
    moreover have "tsx_transport_gone e disc s = tsx_schedule_timer Timeout_Timer timeout_zero TIMEOUT_TIMER s5"
      unfolding tsx_transport_gone_def Let_def s2_def [symmetric] if_not_P [OF False] s3_def [symmetric]
        t_def [symmetric] by (simp only: s5_def)
    ultimately show ?thesis by simp
  qed
qed

lemma timer_callback_keeps:
  assumes ok: "tsx_ok s" "held s = 0"
  shows "keeps s (tsx_timer_callback e en s)"
proof -
  have v: "tsx_view (clear_tid en s) = tsx_view s" by simp
  have okv: "tsx_ok (clear_tid en s)" using ok(1) tsx_ok_view [OF v] by simp
  have "keeps s (tsx_transport_gone e disc (clear_tid en s))"
    if "state (clear_tid en s) < PJSIP_TSX_STATE_TERMINATED" for disc
    using transport_gone_keeps [OF okv _ that] ok(2) view_keeps [OF v] tsx_view_fields(3) [OF v] by simp
  moreover have "keeps s (snd (locked_handler e ev (clear_tid en s)))" for ev
    using locked_handler_changed [OF okv] ok(2) tsx_view_fields(3) [OF v] view_keeps [OF v] by simp
  ultimately show ?thesis
    using terminate_keeps [OF ok(1)] keeps_refl [OF ok(1)] keeps_view [OF ok(1) v]
    by (simp add: tsx_timer_callback_def Let_def)
qed

end

end
