(* ===== verification/Pjsip_Tsx_Close.thy ===== *)
theory Pjsip_Tsx_Close
  imports Pjsip_Tsx_Handlers
begin

text \<open>
  Runs of a SIP transaction keep the invariant. Every action of the environment is shown to keep
  it under the contract \<open>tsx_environment\<close>; the contract itself is then shown for the environments
  of the model by induction on the depth of the nesting, each level using the lemmas of the level
  below.
\<close>

section \<open>Single actions\<close>

lemma drop_answer_view [simp]: "tsx_view (drop_answer s) = tsx_view s"
  by (simp add: drop_answer_def)

lemma new_object_view [simp]: "tsx_view (new_object c a s) = tsx_view s"
  by (simp add: new_object_def)

lemma poll_timer_keeps:
  assumes ok: "tsx_ok s" and r: "running (timer_of en s)"
  shows "keeps s (poll_timer en s) \<and> state (poll_timer en s) = state s \<and>
    has_pending_send (poll_timer en s) = has_pending_send s"
  using assms
  by (cases en; simp add: poll_timer_def keeps_def tsx_ok_def hist_ok_def uac_ok_def owes_completion_def
      destroy_ok_def tsx_evolves_def tsx_grows_def settled_def undestroyed_def; blast)

lemma tp_state_keeps:
  assumes ok: "tsx_ok s" and "transport s \<noteq> 0" "st \<noteq> 0"
  shows "keeps s (tsx_tp_state_callback st s)"
  using assms
  by (auto simp: keeps_def tsx_ok_def hist_ok_def uac_ok_def owes_completion_def destroy_ok_def
      tsx_evolves_def tsx_grows_def settled_def undestroyed_def)

lemma interface_views [simp]:
  "tsx_view (snd (pjsip_tsx_terminate_async2 code ms s)) = tsx_view s"
  "tsx_view (snd (pjsip_tsx_stop_retransmit s)) = tsx_view s"
  "tsx_view (snd (pjsip_tsx_set_timeout ms s)) = tsx_view s"
  by (simp_all add: pjsip_tsx_terminate_async2_def pjsip_tsx_stop_retransmit_def
      pjsip_tsx_set_timeout_def Let_def)

lemma owed_resolved: "tsx_ok s \<Longrightarrow> owes_completion s \<Longrightarrow> role s = PJSIP_ROLE_UAC \<longrightarrow> has_resolved_server s"
  by (simp add: tsx_ok_def uac_ok_def)

lemma take_completion:
  assumes "tsx_ok s"
  shows "keeps s (s\<lparr>tp_sends := remove1 x (tp_sends s)\<rparr>)" "keeps s (s\<lparr>fired := remove1 en (fired s)\<rparr>)"
proof -
  have "tp_sends s = [] \<Longrightarrow> remove1 x (tp_sends s) = []"
    "Misc_Timer \<in> set (remove1 en (fired s)) \<Longrightarrow> Misc_Timer \<in> set (fired s)"
    by (simp, meson notin_set_remove1)
  then show "keeps s (s\<lparr>tp_sends := remove1 x (tp_sends s)\<rparr>)" "keeps s (s\<lparr>fired := remove1 en (fired s)\<rparr>)"
    using assms
    by (auto simp: keeps_def tsx_ok_def hist_ok_def uac_ok_def owes_completion_def destroy_ok_def
        tsx_evolves_def tsx_grows_def settled_def undestroyed_def)
qed

context tsx_environment
begin

lemma transport_cb_keeps:
  assumes ok: "tsx_ok s" and en: "tsx_enabled site (Transport_Cb x sent) s"
  shows "keeps s (tsx_do e (Transport_Cb x sent) s) \<and> (0 < held s \<longrightarrow>
    state (tsx_do e (Transport_Cb x sent) s) = state s \<and>
    has_pending_send (tsx_do e (Transport_Cb x sent) s) = has_pending_send s)"
proof -
  let ?s1 = "s\<lparr>tp_sends := remove1 x (tp_sends s)\<rparr>"
  have k: "keeps s ?s1" by (rule take_completion(1) [OF ok])
  have "owes_completion s" using en by (auto simp: owes_completion_def)
  then have "keeps ?s1 (transport_callback e x sent ?s1) \<and> (0 < held ?s1 \<longrightarrow>
      state (transport_callback e x sent ?s1) = state ?s1 \<and>
      has_pending_send (transport_callback e x sent ?s1) = has_pending_send ?s1)"
    by (intro transport_callback_keeps)
      (use keeps_ok [OF k] en owed_resolved [OF ok] in \<open>auto simp: being_destroyed_def\<close>)
  then show ?thesis using keeps_trans [OF k] by simp
qed

lemma dispatch_keeps:
  assumes ok: "tsx_ok s" and en: "tsx_enabled In_User (Dispatch en) s"
  shows "keeps s (dispatch_timer e en s)"
proof -
  let ?s1 = "s\<lparr>fired := remove1 en (fired s)\<rparr>"
  have k: "keeps s ?s1" by (rule take_completion(2) [OF ok])
  have h: "held ?s1 = 0" using en by (simp add: lock_free_def)
  have "keeps ?s1 (transport_callback_impl e sent ?s1)" if "en = Misc_Timer" for sent
  proof (rule transport_callback_impl_keeps)
    have "owes_completion s" using that en by (simp add: owes_completion_def)
    then show "role ?s1 = PJSIP_ROLE_UAC \<longrightarrow> has_resolved_server ?s1" using owed_resolved [OF ok] by simp
    show "state ?s1 = PJSIP_TSX_STATE_DESTROYED \<longrightarrow> terminating ?s1"
      using that en by (simp add: being_destroyed_def)
  qed (rule keeps_ok [OF k])
  then have "keeps ?s1 (tsx_misc_timer_callback e ?s1)" if "en = Misc_Timer"
    using that keeps_refl [OF keeps_ok [OF k]] keeps_frames(1)
    by (simp add: tsx_misc_timer_callback_def)
  then have "keeps s (if en = Misc_Timer then tsx_misc_timer_callback e ?s1 else tsx_timer_callback e en ?s1)"
    using keeps_trans [OF k] timer_callback_keeps [OF keeps_ok [OF k] h] by simp
  then show ?thesis unfolding dispatch_timer_def Let_def by (rule keeps_frames)
qed

text \<open>Actions of the transaction user and of other threads.\<close>

lemma user_action_keeps:
  assumes ok: "tsx_ok s" and en: "tsx_enabled In_User a s"
  shows "keeps s (tsx_do e a s)"
proof (cases a)
  case (Send_Cb x sent cont tp rel down)
  then have "keeps s (send_msg_callback e x sent cont tp rel down s)"
    using send_msg_callback_spec [OF ok, of sent tp] en by (auto simp: being_destroyed_def)
  with Send_Cb show ?thesis by simp
next
  case (Recv_Msg m)
  then show ?thesis
    using locked_handler_changed [OF ok, of "Event_Rx_Msg m"] by (simp add: pjsip_tsx_recv_msg_def is_timer_def)
next
  case (Transport_Cb x sent)
  then show ?thesis using transport_cb_keeps [OF ok] en by blast
next
  case (Dispatch en')
  then show ?thesis using dispatch_keeps [OF ok] en by simp
qed (use en send_msg_keeps [OF ok] terminate_keeps [OF ok] retransmit_no_state_keeps [OF ok]
      poll_timer_keeps [OF ok] tp_state_keeps [OF ok] keeps_view [OF ok] in simp_all)

text \<open>Actions during a call of the transport layer.\<close>

lemma transport_action_keeps:
  assumes b: "busy s" and en: "tsx_enabled site a s" and site: "site \<noteq> In_User"
    and nc: "\<forall>x sent cont tp rel down. a \<noteq> Send_Cb x sent cont tp rel down"
  shows "keeps s (tsx_do e a s) \<and> state (tsx_do e a s) = state s \<and>
    has_pending_send (tsx_do e a s) = has_pending_send s"
proof -
  have ok: "tsx_ok s" "0 < held s" using b by (simp_all add: busy_def)
  have v: "tsx_view (snd (pjsip_tsx_set_timeout ms s)) = tsx_view s" for ms by simp
  show ?thesis
  proof (cases a)
    case (Transport_Cb x sent)
    then show ?thesis using transport_cb_keeps [OF ok(1)] en ok(2) by blast
  next
    case (Set_Timeout ms)
    then show ?thesis using keeps_view [OF ok(1) v] tsx_view_fields(4,9) [OF v] by simp
  qed (use en site nc poll_timer_keeps [OF ok(1)] tp_state_keeps [OF ok(1)] keeps_view [OF ok(1)] in simp_all)
qed

lemma user_run_keeps:
  "tsx_ok s \<Longrightarrow> keeps s (tsx_run e In_User acts s)"
proof (induction acts arbitrary: s)
  case (Cons a acts)
  have "keeps s (tsx_step e In_User a s)"
    using user_action_keeps [OF Cons.prems] keeps_refl [OF Cons.prems] by (simp add: tsx_step_def)
  with Cons.IH keeps_ok keeps_trans show ?case unfolding tsx_run_def fold_Cons comp_apply by blast
qed (simp add: tsx_run_def keeps_refl)

lemma transport_run_keeps:
  "busy s \<Longrightarrow> keeps s (tsx_run e In_Transport acts s) \<and> state (tsx_run e In_Transport acts s) = state s \<and>
     has_pending_send (tsx_run e In_Transport acts s) = has_pending_send s"
proof (induction acts arbitrary: s)
  case (Cons a acts)
  let ?t = "tsx_step e In_Transport a s"
  have "tsx_enabled In_Transport a s \<Longrightarrow> \<forall>x sent cont tp rel down. a \<noteq> Send_Cb x sent cont tp rel down"
    by auto
  then have t: "keeps s ?t" "state ?t = state s" "has_pending_send ?t = has_pending_send s"
    using transport_action_keeps [OF Cons.prems, of In_Transport a] Cons.prems
    by (auto simp: tsx_step_def busy_def keeps_refl)
  with Cons.IH [OF busy_keeps [OF Cons.prems t(1)]] keeps_trans [OF t(1)] show ?case
    by (simp add: tsx_run_def)
qed (simp add: tsx_run_def keeps_refl busy_def)

lemma resolver_run_keeps:
  "resolving s \<Longrightarrow> resolving (tsx_run e (In_Stateless x b) acts s) \<and>
     keeps s (tsx_run e (In_Stateless x b) acts s) \<and> sending s (tsx_run e (In_Stateless x b) acts s)"
proof (induction acts arbitrary: s)
  case (Cons a acts)
  let ?t = "tsx_step e (In_Stateless x b) a s"
  have bs: "busy s" using Cons.prems by (simp add: resolving_def)
  have ok: "tsx_ok s" "state s \<noteq> PJSIP_TSX_STATE_DESTROYED" using bs by (simp_all add: busy_def)
  have t: "keeps s ?t \<and> resolving ?t \<and> sending s ?t"
  proof (cases "tsx_enabled (In_Stateless x b) a s")
    case True
    show ?thesis
    proof (cases "\<exists>y sent cont tp rel down. a = Send_Cb y sent cont tp rel down")
      case cb: True
      then obtain y sent cont tp rel down where a: "a = Send_Cb y sent cont tp rel down" by blast
      have "keeps s (send_msg_callback e y sent cont tp rel down s) \<and>
          (resolving s \<longrightarrow> resolving (send_msg_callback e y sent cont tp rel down s) \<and>
             sending s (send_msg_callback e y sent cont tp rel down s))"
        by (rule send_msg_callback_spec [OF ok(1)]) (use True a ok(2) in auto)
      then show ?thesis using True a Cons.prems by (simp add: tsx_step_def)
    next
      case False
      then have k: "keeps s ?t" "state ?t = state s" "has_pending_send ?t = has_pending_send s"
        using transport_action_keeps [OF bs True] True by (auto simp: tsx_step_def)
      then show ?thesis
        using Cons.prems busy_keeps [OF bs k(1)] keeps_role [OF k(1)] by (simp add: resolving_def sending_def)
    qed
  next
    case False
    then show ?thesis using Cons.prems keeps_refl [OF ok(1)] by (simp add: tsx_step_def)
  qed
  have u: "resolving (tsx_run e (In_Stateless x b) acts ?t) \<and> keeps ?t (tsx_run e (In_Stateless x b) acts ?t) \<and>
      sending ?t (tsx_run e (In_Stateless x b) acts ?t)"
    using Cons.IH t by blast
  have "keeps s (tsx_run e (In_Stateless x b) acts ?t)" "sending s (tsx_run e (In_Stateless x b) acts ?t)"
    using t u keeps_trans sending_trans by (blast, auto simp: keeps_def intro: sending_trans)
  with u show ?case by (simp add: tsx_run_def)
qed (simp add: tsx_run_def keeps_refl resolving_def busy_def)

end

section \<open>The environments of the model\<close>

lemma tsx_environment_0: "tsx_environment (tsx_world g 0)"
proof
  fix s c a s' x
  have v: "tsx_view (drop_answer s) = tsx_view s" "tsx_view (new_object d b (drop_answer s)) = tsx_view s" for d b
    by simp_all
  show "tsx_ok s \<Longrightarrow> tsx_ok (on_tsx_state (tsx_world g 0) s) \<and>
      tsx_evolves s (on_tsx_state (tsx_world g 0) s)"
    using keeps_view [OF _ v(1)] by (simp add: keeps_def)
  assume "call_out (tsx_world g 0) c s = (a, s')"
  then have w: "tsx_view s' = tsx_view s" by auto
  show "busy s \<Longrightarrow> busy s' \<and> tsx_evolves s s' \<and> state s' = state s \<and> has_pending_send s' = has_pending_send s"
    using busy_view [OF w] tsx_evolves_view [OF w] tsx_view_fields(4,9) [OF w] by simp
next
  fix s a s' x
  assume "call_out (tsx_world g 0) (Stateless_Send x) s = (a, s')"
  then have w: "tsx_view s' = tsx_view s" by auto
  show "resolving s \<Longrightarrow> resolving s' \<and> tsx_evolves s s' \<and> sending s s'"
    using busy_view [OF w] tsx_evolves_view [OF w] tsx_view_fields(1,4,9) [OF w]
    by (simp add: resolving_def sending_def)
qed

lemma tsx_environment_Suc:
  assumes env: "tsx_environment (tsx_world g n)"
  shows "tsx_environment (tsx_world g (Suc n))"
proof
  fix s c a s' x
  have v: "tsx_view (drop_answer s) = tsx_view s" by simp
  show "tsx_ok s \<Longrightarrow> tsx_ok (on_tsx_state (tsx_world g (Suc n)) s) \<and>
      tsx_evolves s (on_tsx_state (tsx_world g (Suc n)) s)"
    using tsx_environment.user_run_keeps [OF env, of "drop_answer s"] tsx_ok_view [OF v] view_keeps [OF v]
    by (simp add: keeps_def)
  assume c: "\<forall>x. c \<noteq> Stateless_Send x" and r: "call_out (tsx_world g (Suc n)) c s = (a, s')"
  from c have "call_site c st = In_Transport" for st by (cases c) simp_all
  then obtain acts where s': "tsx_view s' = tsx_view (tsx_run (tsx_world g n) In_Transport acts (drop_answer s))"
    using r by (auto simp: Let_def)
  let ?t = "tsx_run (tsx_world g n) In_Transport acts (drop_answer s)"
  show "busy s \<Longrightarrow> busy s' \<and> tsx_evolves s s' \<and> state s' = state s \<and> has_pending_send s' = has_pending_send s"
  proof -
    assume b: "busy s"
    have t: "keeps s ?t" "state ?t = state s" "has_pending_send ?t = has_pending_send s"
      using tsx_environment.transport_run_keeps [OF env, of "drop_answer s" acts] b busy_view [OF v]
        view_keeps [OF v] tsx_view_fields(4,9) [OF v] by simp_all
    have "keeps s s'" by (rule keeps_view_after [OF t(1) s'])
    then show ?thesis
      using busy_keeps [OF b] t tsx_view_fields(4,9) [OF s'] by (simp add: keeps_def)
  qed
next
  fix s a s' x
  have v: "tsx_view (drop_answer s) = tsx_view s" by simp
  assume r: "call_out (tsx_world g (Suc n)) (Stateless_Send x) s = (a, s')" and s: "resolving s"
  obtain acts b where s': "tsx_view s' = tsx_view (tsx_run (tsx_world g n) (In_Stateless x b) acts (drop_answer s))"
    using r by (auto simp: Let_def)
  let ?t = "tsx_run (tsx_world g n) (In_Stateless x b) acts (drop_answer s)"
  have "resolving (drop_answer s)"
    using s busy_view [OF v] tsx_view_fields(1,4,9) [OF v] by (simp add: resolving_def)
  then have t: "resolving ?t" "keeps s ?t" "sending s ?t"
    using tsx_environment.resolver_run_keeps [OF env, of "drop_answer s" x b acts] view_keeps [OF v]
      tsx_view_fields(4) [OF v] by (simp_all add: sending_def)
  have "keeps s s'" by (rule keeps_view_after [OF t(2) s'])
  then show "resolving s' \<and> tsx_evolves s s' \<and> sending s s'"
    using t busy_view [OF s'] tsx_view_fields(1,4,9,12) [OF s']
    by (simp add: resolving_def sending_def keeps_def)
qed

interpretation world: tsx_environment "tsx_world g n" for g n
  by (induction n) (rule tsx_environment_0, rule tsx_environment_Suc)

section \<open>Fresh transactions\<close>

lemma tsx_new_uac_ok: "tsx_ok (tsx_new_uac user store script refs m cs x rel)"
  by (simp add: tsx_new_uac_def register_tsx_def tsx_init_uac_def pjsip_tx_data_add_ref_def
      tsx_create_def idle_timer_def tsx_ok_def hist_ok_def state_typed_def handler_table_def uac_ok_def
      owes_completion_def destroy_ok_def)

lemma tsx_new_uas_ok: "tsx_ok (tsx_new_uas user store script refs m cs tp rel down)"
  by (simp add: tsx_new_uas_def register_tsx_def tsx_init_uas_def Let_def
      tsx_create_def idle_timer_def tsx_ok_def hist_ok_def state_typed_def handler_table_def uac_ok_def
      owes_completion_def destroy_ok_def)

end
