(* ===== verification/Pjsip_Tsx_Refs.thy ===== *)
theory Pjsip_Tsx_Refs
  imports Pjsip_Tsx_Close
begin

text \<open>
  The references of the group lock of a SIP transaction. \<open>holders\<close> counts who relies on the
  transaction staying in memory: the transaction itself until it is shut down, every level of the
  lock, every timer in the heap or with its callback still to run, and every send whose completion
  is still to come. No operation takes the reference counter below that number (\<open>counts\<close>).
\<close>

section \<open>Who holds a reference\<close>

fun one_if :: "bool \<Rightarrow> int" where
  "one_if True = 1"
| "one_if False = 0"

definition timer_refs :: "tsx \<Rightarrow> int" where
  "timer_refs s = one_if (running (retransmit_timer s)) + one_if (running (timeout_timer s)) +
     one_if (running (misc_timer s)) + int (length (fired s))"

text \<open>A send holds its reference until its completion has been processed; a completion that was
  deferred to the miscellaneous timer still holds it.\<close>

definition send_refs :: "tsx \<Rightarrow> int" where
  "send_refs s = int (length (tp_sends s)) + int (card (attached s)) +
     one_if (running (misc_timer s)) + int (count_list (fired s) Misc_Timer)"

definition holders :: "tsx \<Rightarrow> int" where
  "holders s = one_if (\<not> terminating s) + int (held s) + timer_refs s + send_refs s"

definition slack :: "tsx \<Rightarrow> int" where
  "slack s = grp_refs s - holders s"

definition refs_ok :: "tsx \<Rightarrow> bool" where
  "refs_ok s \<longleftrightarrow> finite (attached s) \<and> (\<forall>x. pending_tx s = Some x \<longrightarrow> x \<in> attached s)"

definition counts :: "tsx \<Rightarrow> tsx \<Rightarrow> bool" where
  "counts s s' \<longleftrightarrow> refs_ok s' \<and> slack s \<le> slack s' \<and> held s' = held s"

lemmas count_defs = counts_def slack_def holders_def timer_refs_def send_refs_def

lemma counts_refl: "refs_ok s \<Longrightarrow> counts s s"
  by (simp add: counts_def)

lemma counts_trans: "counts s t \<Longrightarrow> counts t u \<Longrightarrow> counts s u"
  by (auto simp: counts_def)

lemma counts_ok: "counts s t \<Longrightarrow> refs_ok t"
  by (simp add: counts_def)

lemma counts_held: "counts s t \<Longrightarrow> held t = held s"
  by (simp add: counts_def)

text \<open>What the count depends on.\<close>

definition count_view where
  "count_view s = (terminating s, held s, grp_refs s, tp_sends s, fired s, attached s, pending_tx s,
     running (retransmit_timer s), running (timeout_timer s), running (misc_timer s))"

lemma counts_view: "counts s t \<Longrightarrow> count_view u = count_view t \<Longrightarrow> counts s u"
  by (simp add: count_view_def count_defs refs_ok_def)

lemma view_counts: "count_view s = count_view t \<Longrightarrow> counts s u = counts t u"
  by (simp add: count_view_def count_defs)

lemma refs_ok_view: "count_view s = count_view t \<Longrightarrow> refs_ok s = refs_ok t"
  by (simp add: count_view_def refs_ok_def)

lemma count_view_updates [simp]:
  "count_view (s\<lparr>tsx_logs := l\<rparr>) = count_view s" "count_view (s\<lparr>tdatas := d\<rparr>) = count_view s"
  "count_view (s\<lparr>status_code := c\<rparr>) = count_view s" "count_view (s\<lparr>last_tx := x\<rparr>) = count_view s"
  "count_view (s\<lparr>retransmit_count := n\<rparr>) = count_view s" "count_view (s\<lparr>is_reliable := b\<rparr>) = count_view s"
  "count_view (s\<lparr>has_pending_resched := b\<rparr>) = count_view s"
  "count_view (s\<lparr>has_pending_send := b\<rparr>) = count_view s"
  "count_view (s\<lparr>has_pending_transport := b\<rparr>) = count_view s"
  "count_view (s\<lparr>has_pending_destroy := b\<rparr>) = count_view s"
  "count_view (s\<lparr>has_resolved_server := b\<rparr>) = count_view s"
  "count_view (s\<lparr>transport := n\<rparr>) = count_view s" "count_view (s\<lparr>transport_err := c\<rparr>) = count_view s"
  "count_view (s\<lparr>answers := ans\<rparr>) = count_view s" "count_view (s\<lparr>misc_param := p\<rparr>) = count_view s"
  "count_view (s\<lparr>registered := b\<rparr>) = count_view s" "count_view (s\<lparr>tsx_user := u\<rparr>) = count_view s"
  by (simp_all add: count_view_def)

lemma count_view_ops [simp]:
  "count_view (enter_state st s) = count_view s" "count_view (tsx_set_status_code c s) = count_view s"
  "count_view (pjsip_tx_data_add_ref x s) = count_view s"
  "count_view (pjsip_tx_data_dec_ref x s) = count_view s"
  "count_view (keep_last_tx x s) = count_view s" "count_view (discard_last_tx x s) = count_view s"
  "count_view (unregister_tsx s) = count_view s" "count_view (clear_flags s) = count_view s"
  "count_view (clear_tid en s) = count_view s" "count_view (drop_answer s) = count_view s"
  "count_view (new_object c' a s) = count_view s"
  "count_view (tsx_update_transport 0 False s) = count_view s"
  by (cases en; auto simp: count_view_def enter_state_def tsx_set_status_code_def
      pjsip_tx_data_add_ref_def pjsip_tx_data_dec_ref_def keep_last_tx_def discard_last_tx_def
      unregister_tsx_def clear_flags_def clear_tid_def drop_answer_def new_object_def
      split: option.split)+

section \<open>Elementary operations\<close>

lemma int_length_remove1: "x \<in> set xs \<Longrightarrow> int (length (remove1 x xs)) = int (length xs) - 1"
  using length_pos_if_in_set [of x xs] by (simp add: length_remove1 of_nat_diff Suc_leI)

lemma counts_cancel:
  assumes "counts s t"
  shows "counts s (tsx_cancel_timer en t)"
proof -
  have "counts t (tsx_cancel_timer en t)"
    using counts_ok [OF assms]
    by (cases en; simp add: tsx_cancel_timer_def tsx_grp_lock_dec_ref_def count_defs refs_ok_def)
  with assms show ?thesis by (rule counts_trans)
qed

lemma counts_schedule:
  assumes "counts s t" "en \<noteq> Misc_Timer"
  shows "counts s (tsx_schedule_timer en d i t)"
proof -
  have "counts t (tsx_schedule_timer en d i t)"
    using counts_ok [OF assms(1)] assms(2)
    by (cases en; simp add: tsx_schedule_timer_def tsx_grp_lock_add_ref_def count_defs refs_ok_def)
  with assms(1) show ?thesis by (rule counts_trans)
qed

lemma counts_restart:
  assumes "counts s t" "en \<noteq> Misc_Timer"
  shows "counts s (tsx_restart_timer en d i t)"
  unfolding tsx_restart_timer_def by (rule counts_schedule [OF counts_cancel [OF assms(1)] assms(2)])

lemma counts_tp_state:
  assumes "counts s t"
  shows "counts s (tsx_tp_state_callback st t)"
proof -
  have "counts s (t\<lparr>has_pending_transport := False, transport_err := st\<rparr>)"
    by (rule counts_view [OF assms]) simp
  then show ?thesis by (simp add: tsx_tp_state_callback_def Let_def counts_restart)
qed

lemma counts_update_transport:
  assumes "counts s t"
  shows "counts s (tsx_update_transport tp down t)"
proof -
  have "counts s (t\<lparr>transport := 0\<rparr>)" "counts s (t\<lparr>transport := tp\<rparr>)"
    "counts s (t\<lparr>transport := 0, transport := tp\<rparr>)"
    by (rule counts_view [OF assms]; simp)+
  then show ?thesis using assms counts_tp_state by (simp add: tsx_update_transport_def Let_def)
qed

lemma counts_shutdown:
  assumes "counts s t"
  shows "counts s (tsx_shutdown t)"
proof -
  define u where "u = tsx_update_transport 0 False t"
  define v where "v = (case last_tx u of Some x \<Rightarrow> (pjsip_tx_data_dec_ref x u)\<lparr>last_tx := None\<rparr> | None \<Rightarrow> u)"
  have "count_view v = count_view t" by (simp add: v_def u_def split: option.split)
  then have v: "counts s (tsx_cancel_timer Retransmit_Timer (tsx_cancel_timer Timeout_Timer v))" (is "counts s ?w")
    by (intro counts_cancel counts_view [OF assms])
  define x where "x = (let s4 = ?w\<lparr>has_pending_resched := False, has_pending_send := False\<rparr>
    in if has_pending_transport s4 then s4\<lparr>has_pending_destroy := True, tsx_user := None\<rparr> else s4)"
  have x: "counts s x" by (rule counts_view [OF v]) (simp add: x_def Let_def)
  then have "\<not> terminating x \<Longrightarrow> counts s (tsx_grp_lock_dec_ref (x\<lparr>terminating := True\<rparr>))"
    by (simp add: count_defs refs_ok_def tsx_grp_lock_dec_ref_def)
  moreover have "tsx_shutdown t = (if terminating x then x else tsx_grp_lock_dec_ref (x\<lparr>terminating := True\<rparr>))"
    unfolding tsx_shutdown_def Let_def x_def v_def u_def ..
  ultimately show ?thesis using x by simp
qed

lemma counts_detach:
  assumes "counts s t"
  shows "counts s (detach_pending t)"
proof (cases "pending_tx t")
  case (Some x)
  with assms have x: "finite (attached t)" "x \<in> attached t" by (auto simp: counts_def refs_ok_def)
  then have "int (card (attached t - {x})) = int (card (attached t)) - 1"
    by (metis card_Suc_Diff1 of_nat_Suc add_diff_cancel_left')
  with Some x assms show ?thesis
    by (simp add: detach_pending_def count_defs refs_ok_def tsx_grp_lock_dec_ref_def)
next
  case None
  with assms show ?thesis by (simp add: detach_pending_def count_defs refs_ok_def)
qed

lemma counts_after_terminated: "counts s t \<Longrightarrow> counts s (after_terminated fl t)"
  by (simp add: after_terminated_def Let_def counts_schedule counts_cancel counts_detach)

lemma counts_locked:
  assumes "counts (tsx_grp_lock_acquire s) t"
  shows "counts s (tsx_grp_lock_release t)"
  using assms
  by (simp add: count_defs refs_ok_def tsx_grp_lock_acquire_def tsx_grp_lock_release_def tsx_grp_lock_dec_ref_def)

lemma refs_ok_lock [simp]:
  "refs_ok (tsx_grp_lock_acquire s) = refs_ok s" "refs_ok (tsx_grp_lock_release s) = refs_ok s"
  by (simp_all add: refs_ok_def tsx_grp_lock_acquire_def tsx_grp_lock_release_def tsx_grp_lock_dec_ref_def)

lemma slack_lock [simp]:
  "slack (tsx_grp_lock_acquire s) = slack s" "0 < held s \<Longrightarrow> slack (tsx_grp_lock_release s) = slack s"
  by (simp_all add: count_defs tsx_grp_lock_acquire_def tsx_grp_lock_release_def tsx_grp_lock_dec_ref_def)

text \<open>A status with which the transport layer refuses a message.\<close>

definition refused :: "pj_status_t \<Rightarrow> bool" where
  "refused st \<longleftrightarrow> st \<noteq> PJ_SUCCESS \<and> st \<noteq> PJ_EPENDING"

locale tsx_counting =
  fixes e :: tsx_env
  assumes user_counts: "refs_ok s \<Longrightarrow> counts s (on_tsx_state e s)"
    and call_counts: "refs_ok s \<Longrightarrow> 0 < held s \<Longrightarrow> call_out e c s = (a, s') \<Longrightarrow> counts s s'"
    and refused_keeps: "refs_ok s \<Longrightarrow> 0 < held s \<Longrightarrow> call_out e (Stateless_Send x) s = (a, s') \<Longrightarrow>
      refused (ans_status a) \<Longrightarrow> attached s' = attached s"

context tsx_counting
begin

lemma counts_user:
  assumes "counts s t"
  shows "counts s (on_tsx_state e (t\<lparr>tsx_logs := l\<rparr>))"
proof -
  have "counts s (t\<lparr>tsx_logs := l\<rparr>)" by (rule counts_view [OF assms]) simp
  then show ?thesis using counts_trans user_counts counts_ok by blast
qed

lemma counts_unlocked_user:
  assumes "counts s t" "0 < held s"
  shows "counts s (tsx_grp_lock_acquire (on_tsx_state e ((tsx_grp_lock_release t)\<lparr>tsx_logs := l\<rparr>)))"
proof -
  let ?r = "tsx_grp_lock_release t"
  have h: "0 < held t" using assms counts_held by simp
  have "counts ?r (on_tsx_state e (?r\<lparr>tsx_logs := l\<rparr>))"
    by (rule counts_user [OF counts_refl]) (use counts_ok [OF assms(1)] in simp)
  then have "counts t (tsx_grp_lock_acquire (on_tsx_state e (?r\<lparr>tsx_logs := l\<rparr>)))"
    using h by (simp add: counts_def)
  with assms(1) show ?thesis by (rule counts_trans)
qed

lemma counts_notify_rx: "counts s t \<Longrightarrow> counts s (notify_rx e src fl t)"
  by (auto simp: notify_rx_def counts_user split: tsx_event_src.splits pjsip_msg.splits option.splits)

lemma counts_notify_state:
  "counts s t \<Longrightarrow> 0 < held s \<Longrightarrow> counts s (notify_state e prev src fl t)"
  using counts_user counts_unlocked_user by (simp add: notify_state_def Let_def split: option.split)

lemma counts_set_state:
  assumes "counts s t" "0 < held s"
  shows "counts s (tsx_set_state e st src fl t)"
proof -
  have "counts s (enter_state st t)" by (rule counts_view [OF assms(1)]) simp
  then have n: "counts s (notify_state e (state t) src fl (notify_rx e src fl (enter_state st t)))" (is "counts s ?u")
    by (intro counts_notify_state counts_notify_rx assms(2))
  moreover have "counts s (unregister_tsx ?u)" by (rule counts_view [OF n]) simp
  ultimately have "counts s (if b then after_terminated fl ?u
      else if d then tsx_shutdown (unregister_tsx ?u) else ?u)" for b d
    by (simp add: counts_after_terminated counts_shutdown)
  then show ?thesis unfolding tsx_set_state_def Let_def .
qed

lemma counts_status: "counts s t \<Longrightarrow> counts s (tsx_set_status_code c t)"
  by (erule counts_view) simp

lemma counts_call_out:
  "counts s t \<Longrightarrow> 0 < held s \<Longrightarrow> call_out e c t = (a, u) \<Longrightarrow> counts s u"
  using call_counts [of t c a u] counts_trans counts_ok counts_held by metis

lemma counts_send_on_transport:
  assumes c: "counts s t" and h: "0 < held s"
  shows "counts s (snd (send_on_transport e x t))"
proof -
  let ?t1 = "(tsx_grp_lock_add_ref t)\<lparr>has_pending_transport := True, tsx_logs := tsx_logs t @ [Log_Send x]\<rparr>"
  have ok: "refs_ok ?t1" "held ?t1 = held t" "slack ?t1 = slack t + 1"
    using counts_ok [OF c] by (simp_all add: refs_ok_def tsx_grp_lock_add_ref_def count_defs)
  obtain a u where r: "call_out e (Transport_Send x) ?t1 = (a, u)" by fastforce
  have u: "refs_ok u" "held u = held t" "slack t + 1 \<le> slack u"
    using call_counts [OF ok(1) _ r] ok h counts_held [OF c] by (simp_all add: counts_def)
  have "counts s (u\<lparr>tp_sends := tp_sends u @ [x]\<rparr>)"
    "counts s (tsx_grp_lock_dec_ref (u\<lparr>has_pending_transport := False\<rparr>))"
    using u c by (simp_all add: count_defs refs_ok_def tsx_grp_lock_dec_ref_def)
  then show ?thesis
    using r counts_update_transport by (simp add: send_on_transport_def Let_def)
qed

lemma counts_send_stateless:
  assumes c: "counts s t" and h: "0 < held s"
  shows "counts s (snd (send_stateless e x t))"
proof -
  let ?t1 = "tsx_grp_lock_add_ref ((pjsip_tx_data_add_ref x t)\<lparr>attached := insert x (attached t),
    pending_tx := Some x, has_pending_transport := True, tsx_logs := tsx_logs t @ [Log_Send x]\<rparr>)"
  have f: "finite (attached t)" using counts_ok [OF c] by (simp add: refs_ok_def)
  have ci: "int (card (insert x (attached t))) \<le> int (card (attached t)) + 1"
    using card_insert_le_m1 [of "card (attached t) + 1" "attached t" x] by simp
  have ok: "refs_ok ?t1" "held ?t1 = held t" "slack t \<le> slack ?t1" "x \<in> attached ?t1"
    using f ci by (simp_all add: refs_ok_def tsx_grp_lock_add_ref_def pjsip_tx_data_add_ref_def count_defs)
  obtain a u where r: "call_out e (Stateless_Send x) ?t1 = (a, u)" by fastforce
  have h1: "0 < held ?t1" using ok(2) h counts_held [OF c] by simp
  have u: "refs_ok u" "held u = held t" "slack t \<le> slack u"
    using call_counts [OF ok(1) h1 r] ok by (simp_all add: counts_def)
  then have cu: "counts s u" using c by (simp add: counts_def)
  let ?z = "\<lambda>v. (pjsip_tx_data_dec_ref x (tsx_grp_lock_dec_ref (v\<lparr>has_pending_transport := False\<rparr>)))
    \<lparr>attached := attached u - {x}, pending_tx := None\<rparr>"
  have "counts s (?z u) \<and> counts s (?z (tsx_set_status_code sc u))" if ref: "refused (ans_status a)" for sc
  proof -
    have "x \<in> attached u" using refused_keeps [OF ok(1) h1 r ref] ok(4) by simp
    then have "int (card (attached u - {x})) = int (card (attached u)) - 1"
      using u(1) by (metis refs_ok_def card_Suc_Diff1 of_nat_Suc add_diff_cancel_left')
    then show ?thesis
      using cu u(1) by (simp add: count_defs refs_ok_def tsx_grp_lock_dec_ref_def pjsip_tx_data_dec_ref_def
          tsx_set_status_code_def)
  qed
  then show ?thesis
    using r cu by (auto simp: send_stateless_def Let_def refused_def)
qed

lemma counts_send_msg:
  assumes c: "counts s t" and h: "0 < held s"
  shows "counts s (snd (tsx_send_msg e tx t))"
proof -
  have p: "counts s (t\<lparr>has_pending_send := True\<rparr>)" by (rule counts_view [OF c]) simp
  have pe: "counts s u \<Longrightarrow> counts s (snd (send_permanent_error e st u))" for st u
    using counts_set_state [OF counts_status h] by (simp add: send_permanent_error_def Let_def)
  have st: "counts s (snd (send_on_transport e x t))" for x by (rule counts_send_on_transport [OF c h])
  show ?thesis
    using p c st pe counts_send_stateless [OF _ h]
    by (auto simp: tsx_send_msg_def Let_def split: option.split prod.split) (metis snd_conv)+
qed

lemma counts_resched: "counts s t \<Longrightarrow> counts s (tsx_resched_retransmission e t)"
  by (simp add: tsx_resched_retransmission_def Let_def counts_schedule)

lemma counts_resched_waiting:
  assumes "counts s t"
  shows "counts s (resched_waiting e t)"
proof -
  have "counts s (t\<lparr>has_pending_resched := False\<rparr>)" by (rule counts_view [OF assms]) simp
  with assms show ?thesis by (simp add: resched_waiting_def Let_def counts_resched)
qed

lemma counts_send_waiting:
  assumes "counts s t" "0 < held s"
  shows "counts s (send_waiting e t)"
proof -
  have "counts s (t\<lparr>has_pending_send := False\<rparr>)" by (rule counts_view [OF assms(1)]) simp
  with assms show ?thesis by (simp add: send_waiting_def counts_send_msg)
qed

lemma counts_retransmit:
  assumes c: "counts s t" and h: "0 < held s"
  shows "counts s (snd (tsx_retransmit e resched t))"
proof -
  define u where "u = (let s1 = t\<lparr>retransmit_count := retransmit_count t + 1\<rparr> in if resched
    then (if has_pending_transport s1 then s1\<lparr>has_pending_resched := True\<rparr> else tsx_resched_retransmission e s1)
    else s1)"
  have "counts s (t\<lparr>retransmit_count := retransmit_count t + 1\<rparr>)"
    "counts s (t\<lparr>retransmit_count := retransmit_count t + 1, has_pending_resched := True\<rparr>)"
    by (rule counts_view [OF c]; simp)+
  then have u: "counts s u" by (simp add: u_def Let_def counts_resched)
  obtain st v where r: "tsx_send_msg e (last_tx u) u = (st, v)" by fastforce
  have v: "counts s v" using counts_send_msg [OF u h, of "last_tx u"] r by simp
  have "counts s ((tsx_cancel_timer Retransmit_Timer v)\<lparr>has_pending_resched := True\<rparr>)"
    by (rule counts_view [OF counts_cancel [OF v]]) simp
  with v r c show ?thesis
    by (simp add: tsx_retransmit_def u_def Let_def counts_restart split: option.split)
qed

lemma counts_cb_sent:
  assumes c: "counts s t" and h: "0 < held s"
  shows "counts s (cb_sent e tp rel down t)"
proof -
  define u where "u = (if transport t \<noteq> tp then (tsx_update_transport tp down t)\<lparr>is_reliable := rel\<rparr> else t)
    \<lparr>has_pending_transport := False, has_resolved_server := True\<rparr>"
  have "counts s u"
    using counts_view [OF c] counts_view [OF counts_update_transport [OF c]] by (simp add: u_def)
  then have "counts s (if d then tsx_set_state e PJSIP_TSX_STATE_DESTROYED Src_Unknown flags_none u
      else resched_waiting e (send_waiting e u))" for d
    by (simp add: counts_set_state h counts_resched_waiting counts_send_waiting)
  then show ?thesis unfolding cb_sent_def Let_def u_def [symmetric] .
qed

lemma counts_cb_failed:
  assumes c: "counts s t" and h: "0 < held s"
  shows "counts s (cb_failed e err t)"
proof -
  have "counts s (t\<lparr>transport_err := err, has_pending_transport := False, has_resolved_server := True\<rparr>)" (is "counts s ?u")
    "counts s (t\<lparr>transport_err := err, has_pending_transport := False, has_resolved_server := True,
       has_pending_resched := False\<rparr>)"
    by (rule counts_view [OF c]; simp)+
  then show ?thesis
    by (simp add: cb_failed_def Let_def counts_set_state counts_status h counts_resched)
qed

lemma counts_send_cb:
  assumes "refs_ok s"
  shows "counts s (send_msg_callback e x sent cont tp rel down s)"
proof (cases "x \<in> attached s")
  case True
  define u where "u = (tsx_grp_lock_dec_ref (tsx_grp_lock_acquire s))\<lparr>attached := attached s - {x}, pending_tx := None\<rparr>"
  have f: "finite (attached s)" using assms by (simp add: refs_ok_def)
  have cd: "int (card (attached s - {x})) = int (card (attached s)) - 1"
    using True f by (metis card_Suc_Diff1 of_nat_Suc add_diff_cancel_left')
  have h: "0 < held (tsx_grp_lock_acquire s)" by simp
  have u: "counts (tsx_grp_lock_acquire s) u"
    using f cd by (simp add: u_def count_defs refs_ok_def tsx_grp_lock_dec_ref_def tsx_grp_lock_acquire_def)
  define w where "w = (if tp = transport u then tsx_update_transport 0 False u else u)"
  have w: "counts (tsx_grp_lock_acquire s) w" using u counts_update_transport by (simp add: w_def)
  have aw: "attached w = attached s - {x}" by (simp add: w_def u_def)
  define z where "z = (let s1 = w\<lparr>retransmit_count := 0\<rparr> in if tid (timeout_timer s1) \<noteq> 0
    then tsx_restart_timer Timeout_Timer (timeout_timer_val (tcfg e)) TIMEOUT_TIMER s1 else s1)"
  have z: "counts (tsx_grp_lock_acquire s) z"
    using counts_view [OF w] by (simp add: z_def Let_def counts_restart)
  have az: "attached z = attached s - {x}" by (simp add: z_def Let_def aw)
  then have "slack (tsx_grp_lock_add_ref (z\<lparr>attached := insert x (attached z), pending_tx := Some x\<rparr>)) = slack z"
    using f True cd by (simp add: count_defs tsx_grp_lock_add_ref_def insert_absorb)
  moreover have nz: "cb_next_server e x w =
      tsx_grp_lock_add_ref (z\<lparr>attached := insert x (attached z), pending_tx := Some x\<rparr>)"
    by (simp only: cb_next_server_def Let_def z_def)
  ultimately have ns: "counts (tsx_grp_lock_acquire s) (cb_next_server e x w)"
    using z f az unfolding nz by (simp add: counts_def refs_ok_def tsx_grp_lock_add_ref_def)
  have "counts (tsx_grp_lock_acquire s) (if sent > 0 then cb_sent e tp rel down u
      else if b then cb_failed e (- sent) w else cb_next_server e x w)" for b
    using counts_cb_sent [OF u h] counts_cb_failed [OF w h] ns by simp
  then have "counts s (tsx_grp_lock_release (if sent > 0 then cb_sent e tp rel down u
      else if b then cb_failed e (- sent) w else cb_next_server e x w))" for b
    by (rule counts_locked)
  then show ?thesis
    using True unfolding send_msg_callback_def Let_def u_def [symmetric] w_def [symmetric] by simp
qed (simp add: send_msg_callback_def counts_refl [OF assms])

lemma dec_ref_counts:
  "counts s t \<Longrightarrow> refs_ok (tsx_grp_lock_dec_ref t) \<and> slack s - 1 \<le> slack (tsx_grp_lock_dec_ref t) \<and>
     held (tsx_grp_lock_dec_ref t) = held s"
  by (simp add: count_defs refs_ok_def tsx_grp_lock_dec_ref_def)

text \<open>Processing the completion of a transport drops the reference of the send.\<close>

lemma counts_transport_impl:
  assumes ok: "refs_ok s"
  shows "refs_ok (transport_callback_impl e sent s) \<and> slack s - 1 \<le> slack (transport_callback_impl e sent s) \<and>
    held (transport_callback_impl e sent s) = held s"
proof -
  define u where "u = (tsx_grp_lock_acquire s)\<lparr>has_pending_transport := False\<rparr>"
  have h: "0 < held (tsx_grp_lock_acquire s)" by simp
  have u: "counts (tsx_grp_lock_acquire s) u"
    unfolding u_def by (rule counts_view [OF counts_refl]) (use ok in simp_all)
  define v where "v = (if sent > 0 \<or> role u = PJSIP_ROLE_UAS then resched_waiting e (send_waiting e u) else u)"
  have v: "counts s (tsx_grp_lock_release v)" (is "counts s ?r")
    by (rule counts_locked) (simp add: v_def u counts_resched_waiting counts_send_waiting)
  define w where "w = (if sent < 0 \<and> role ?r = PJSIP_ROLE_UAC
      then if state (?r\<lparr>transport_err := - sent\<rparr>) < PJSIP_TSX_STATE_COMPLETED
           then tsx_restart_timer Timeout_Timer timeout_zero TRANSPORT_ERR_TIMER (?r\<lparr>transport_err := - sent\<rparr>)
           else ?r\<lparr>transport_err := - sent\<rparr>
      else ?r)"
  have "counts s (?r\<lparr>transport_err := - sent\<rparr>)" by (rule counts_view [OF v]) simp
  with v have w: "counts s w" by (simp add: w_def counts_restart del: lock_fields)
  have d: "counts s (tsx_grp_lock_release (tsx_set_state e PJSIP_TSX_STATE_DESTROYED Src_Unknown flags_none u))"
    by (rule counts_locked [OF counts_set_state [OF u h]])
  have eq: "transport_callback_impl e sent s =
      (if (sent > 0 \<or> role u = PJSIP_ROLE_UAS) \<and> has_pending_destroy u
       then tsx_grp_lock_dec_ref (tsx_grp_lock_release
              (tsx_set_state e PJSIP_TSX_STATE_DESTROYED Src_Unknown flags_none u))
       else tsx_grp_lock_dec_ref w)"
    unfolding transport_callback_impl_def Let_def u_def [symmetric] w_def v_def ..
  show ?thesis unfolding eq using dec_ref_counts [OF d] dec_ref_counts [OF w] by simp
qed

lemma counts_transport_callback:
  assumes ok: "refs_ok s" and t_def: "t = transport_callback e x sent s"
  shows "refs_ok t \<and> slack s - 1 \<le> slack t \<and> held t = held s \<and> (0 < held s \<longrightarrow> attached t = attached s)"
proof (cases "held s = 0")
  case True
  have "refs_ok (tsx_grp_lock_acquire s)" using ok by simp
  note i = counts_transport_impl [OF this, of sent]
  from True i have "slack (tsx_grp_lock_release (transport_callback_impl e sent (tsx_grp_lock_acquire s))) =
      slack (transport_callback_impl e sent (tsx_grp_lock_acquire s))"
    by (intro slack_lock) simp
  with True i show ?thesis by (simp add: t_def transport_callback_def)
next
  case False
  define c where "c = tsx_cancel_timer Misc_Timer s"
  have c1: "counts s c" unfolding c_def by (rule counts_cancel [OF counts_refl [OF ok]])
  have c: "\<not> running (misc_timer c)" "attached c = attached s"
    by (simp_all add: c_def tsx_cancel_timer_def tsx_grp_lock_dec_ref_def)
  define u where "u = (pjsip_tx_data_add_ref x c)\<lparr>misc_param := (x, sent),
    misc_timer := (misc_timer c)\<lparr>tid := TIMER_INACTIVE\<rparr>\<rparr>"
  have u: "counts s u" "\<not> running (misc_timer u)" "attached u = attached s"
    by (rule counts_view [OF c1])
      (use c in \<open>simp_all add: u_def count_view_def pjsip_tx_data_add_ref_def\<close>)
  have "t = tsx_schedule_timer Misc_Timer timeout_zero TRANSPORT_CB_TIMER u"
    using False by (simp add: t_def transport_callback_def Let_def u_def c_def pjsip_tx_data_add_ref_def)
  then show ?thesis
    using u by (simp add: tsx_schedule_timer_def count_defs refs_ok_def tsx_grp_lock_add_ref_def)
qed

lemma counts_start_retransmit: "counts s t \<Longrightarrow> counts s (start_retransmit d t)"
proof -
  assume c: "counts s t"
  have "counts s (t\<lparr>retransmit_count := 0\<rparr>)" "counts s (t\<lparr>retransmit_count := 0, has_pending_resched := True\<rparr>)"
    by (rule counts_view [OF c]; simp)+
  then show ?thesis by (simp add: start_retransmit_def Let_def counts_schedule)
qed

lemma counts_last_tx:
  "counts s t \<Longrightarrow> counts s (keep_last_tx x t)" "counts s t \<Longrightarrow> counts s (discard_last_tx x t)"
  by (erule counts_view, simp)+

lemma counts_no_resched: "counts s t \<Longrightarrow> counts s (t\<lparr>has_pending_resched := b\<rparr>)"
  by (erule counts_view) simp

lemma counts_null:
  assumes c: "counts s t" and h: "0 < held s"
  shows "counts s (snd (tsx_on_state_null e ev t))"
proof -
  have "counts s (snd (tsx_send_msg e (Some x) (keep_last_tx x (discard_last_tx x t))))" for x
    by (intro counts_send_msg counts_last_tx c h)
  moreover have "counts s u \<Longrightarrow> counts s (null_uac_sent e u)" for u
    by (simp add: null_uac_sent_def Let_def counts_set_state h counts_restart counts_start_retransmit)
  ultimately show ?thesis
    using c by (auto simp: tsx_on_state_null_def Let_def counts_set_state h split: pjsip_event.split prod.split)
      (metis snd_conv)+
qed

lemma counts_uac_final_end:
  assumes c: "counts s t" and h: "0 < held s"
  shows "counts s (uac_final_end e m ack t)"
proof -
  define u where "u = tsx_set_state e PJSIP_TSX_STATE_COMPLETED (Src_Rx_Msg m) flags_none t"
  have u: "counts s u" unfolding u_def by (rule counts_set_state [OF c h])
  have "counts s ((case last_tx u of Some y \<Rightarrow> pjsip_tx_data_dec_ref y u | None \<Rightarrow> u)\<lparr>last_tx := ack\<rparr>)"
    by (rule counts_view [OF u]) (simp split: option.split)
  with u show ?thesis
    by (simp add: uac_final_end_def Let_def u_def [symmetric] counts_restart)
qed

lemma counts_uac_final:
  assumes c: "counts s t" and h: "0 < held s"
  shows "counts s (snd (uac_final e m t))"
proof -
  define u where "u = tsx_cancel_timer Timeout_Timer (tsx_cancel_timer Retransmit_Timer t)"
  have u: "counts s u" unfolding u_def by (intro counts_cancel c)
  obtain a v where r: "call_out e Create_Ack u = (a, v)" by fastforce
  have v: "counts s v" by (rule counts_call_out [OF u h r])
  obtain st w where r2: "tsx_send_msg e (Some (ans_obj a)) v = (st, w)" by fastforce
  have w: "counts s w" using counts_send_msg [OF v h, of "Some (ans_obj a)"] r2 by simp
  show ?thesis
    using r r2 u v w by (simp add: uac_final_def Let_def u_def [symmetric] counts_set_state h counts_uac_final_end)
qed

lemma counts_proceeding_uac:
  assumes c: "counts s t" and h: "0 < held s"
  shows "counts s (snd (tsx_on_state_proceeding_uac e ev t))"
proof -
  have "counts s u \<Longrightarrow> counts s (uac_2xx e m u)" for m u
    by (simp add: uac_2xx_def Let_def counts_set_state h counts_cancel counts_schedule)
  then show ?thesis
    using c by (simp add: tsx_on_state_proceeding_uac_def Let_def counts_set_state h counts_status counts_retransmit
        counts_uac_final split: pjsip_event.split pjsip_msg.split)
qed

lemma counts_calling:
  assumes c: "counts s t" and h: "0 < held s"
  shows "counts s (snd (tsx_on_state_calling e ev t))"
proof -
  have "counts s (calling_timers e code t)" for code
    by (simp add: calling_timers_def Let_def c counts_no_resched counts_cancel counts_schedule)
  then show ?thesis
    using c by (simp add: tsx_on_state_calling_def counts_set_state h counts_status counts_no_resched counts_cancel
        counts_retransmit counts_proceeding_uac split: pjsip_event.split tsx_entry.split pjsip_msg.split)
qed

lemma counts_uas_sent:
  assumes c: "counts s t" and h: "0 < held s"
  shows "counts s (uas_sent e x t)"
  using c
  by (simp add: uas_sent_def uas_sent_1xx_def uas_sent_2xx_def uas_sent_final_def Let_def counts_set_state h
      counts_last_tx counts_start_retransmit counts_cancel counts_restart)

lemma counts_proceeding_uas:
  assumes c: "counts s t" and h: "0 < held s"
  shows "counts s (snd (tsx_on_state_proceeding_uas e ev t))"
proof -
  have p: "counts s (t\<lparr>has_pending_send := True\<rparr>)" by (rule counts_view [OF c]) simp
  have "counts s (snd (tsx_send_msg e (Some x) (discard_last_tx x (tsx_set_status_code code t))))" for x code
    by (intro counts_send_msg counts_last_tx counts_status c h)
  then show ?thesis
    using c p counts_uas_sent [OF _ h]
    by (auto simp: tsx_on_state_proceeding_uas_def Let_def counts_set_state h counts_status counts_retransmit
        counts_send_msg split: pjsip_event.split option.split pjsip_msg.split tsx_entry.split prod.split)
      (metis snd_conv)+
qed

lemma counts_handler:
  assumes c: "counts s t" and h: "0 < held s"
  shows "counts s (snd (call_handler e ev t))"
proof -
  have tr: "counts s (snd (tsx_on_state_trying e ev t))"
    using c counts_proceeding_uas [OF c h, of ev]
    by (auto simp: tsx_on_state_trying_def Let_def counts_set_state h split: pjsip_event.split prod.split)
  have "counts s (uas_ack e m t)" for m
    using c by (simp add: uas_ack_def Let_def counts_set_state h counts_no_resched counts_cancel counts_restart)
  then have "counts s (snd (tsx_handle e hd ev t))" for hd
    using c tr counts_null [OF c h] counts_calling [OF c h] counts_proceeding_uac [OF c h] counts_proceeding_uas [OF c h]
    by (cases hd) (simp_all add: tsx_on_state_completed_uac_def tsx_on_state_completed_uas_def
        tsx_on_state_confirmed_def tsx_on_state_terminated_def tsx_on_state_destroyed_def
        counts_set_state h counts_status counts_retransmit split: pjsip_event.split pjsip_msg.split)
  with c show ?thesis by (simp add: call_handler_def split: option.split)
qed

lemma counts_locked_handler:
  assumes "refs_ok s"
  shows "counts s (snd (locked_handler e ev s))"
proof -
  have "counts (tsx_grp_lock_acquire s) (snd (call_handler e ev (tsx_grp_lock_acquire s)))"
    by (rule counts_handler [OF counts_refl]) (use assms in simp_all)
  then show ?thesis by (auto simp: locked_handler_def dest!: counts_locked split: prod.split)
qed

lemma counts_send_api:
  assumes "refs_ok s"
  shows "counts s (snd (pjsip_tsx_send_msg e td s))"
proof -
  have k: "counts s (snd (locked_handler e (Event_Tx_Msg x) s))" for x
    by (rule counts_locked_handler [OF assms])
  then have "counts s (pjsip_tx_data_dec_ref x (snd (locked_handler e (Event_Tx_Msg x) s)))" for x
    by (rule counts_view) simp
  with k counts_refl [OF assms] show ?thesis
    by (auto simp: pjsip_tsx_send_msg_def Let_def split: option.split prod.split) (metis snd_conv)+
qed

lemma counts_terminate:
  assumes "refs_ok s"
  shows "counts s (snd (pjsip_tsx_terminate e code s))"
proof -
  let ?a = "tsx_grp_lock_acquire s"
  have a: "counts ?a ?a" using assms by (simp add: counts_refl)
  have "counts ?a (if b then tsx_set_state e PJSIP_TSX_STATE_TERMINATED Src_User flags_none
      (tsx_set_status_code code ?a) else ?a)" for b
    using a by (simp add: counts_set_state counts_status)
  then have "counts s (tsx_grp_lock_release (if b then tsx_set_state e PJSIP_TSX_STATE_TERMINATED Src_User flags_none
      (tsx_set_status_code code ?a) else ?a))" for b
    by (rule counts_locked)
  with counts_refl [OF assms] show ?thesis by (simp add: pjsip_tsx_terminate_def Let_def)
qed

lemma counts_retransmit_no_state:
  assumes "refs_ok s"
  shows "counts s (snd (pjsip_tsx_retransmit_no_state e td s))"
proof -
  let ?a = "tsx_grp_lock_acquire s"
  have a: "counts ?a ?a" using assms by (simp add: counts_refl)
  have "counts ?a (pjsip_tx_data_add_ref x ?a)" for x by (rule counts_view [OF a]) simp
  then have m: "counts ?a (snd (tsx_send_msg e tx ?a))" "counts ?a (snd (tsx_send_msg e tx (pjsip_tx_data_add_ref x ?a)))"
    for tx x using a by (auto intro!: counts_send_msg)
  then have k: "counts s (tsx_grp_lock_release (snd (tsx_send_msg e tx ?a)))"
    "counts s (tsx_grp_lock_release (snd (tsx_send_msg e tx (pjsip_tx_data_add_ref x ?a))))" for tx x
    by (auto intro: counts_locked)
  have "counts s (pjsip_tx_data_dec_ref y (tsx_grp_lock_release (snd (tsx_send_msg e tx ?a))))"
    "counts s (pjsip_tx_data_dec_ref y (tsx_grp_lock_release (snd (tsx_send_msg e tx (pjsip_tx_data_add_ref x ?a)))))" for tx x y
    by (rule counts_view [OF k(1)], simp) (rule counts_view [OF k(2)], simp)
  with k show ?thesis
    by (auto simp: pjsip_tsx_retransmit_no_state_def Let_def split: option.split prod.split) (metis snd_conv)+
qed

lemma counts_transport_gone:
  assumes "refs_ok s"
  shows "counts s (tsx_transport_gone e disc s)"
proof -
  define u where "u = tsx_update_transport 0 False (tsx_grp_lock_acquire s)"
  have h: "0 < held (tsx_grp_lock_acquire s)" by simp
  have u: "counts (tsx_grp_lock_acquire s) u"
    unfolding u_def by (rule counts_update_transport [OF counts_refl]) (use assms in simp)
  have cf: "counts s (tsx_grp_lock_release (clear_flags u))"
    by (rule counts_locked [OF counts_view [OF u]]) simp
  define v where "v = (if status_code u < 200 then tsx_set_status_code PJSIP_SC_TSX_TRANSPORT_ERROR u else u)"
  define w where "w = tsx_grp_lock_release (tsx_set_state e PJSIP_TSX_STATE_TERMINATED Src_Transport_Error
      (flags_none\<lparr>no_notify := True, no_schedule_handler := True\<rparr>) v)"
  have w: "counts s w"
    unfolding w_def by (rule counts_locked [OF counts_set_state [OF _ h]]) (simp add: v_def u counts_status)
  define x where "x = (case tsx_user w of Some m \<Rightarrow> if has_on_tsx_state m
      then on_tsx_state e (w\<lparr>tsx_logs := tsx_logs w @ [Log_Tsx_State (state (tsx_grp_lock_acquire s)) (state w)]\<rparr>)
      else w | None \<Rightarrow> w)"
  have "counts s x" using w counts_user [OF w] by (simp add: x_def split: option.split)
  then have "counts s (tsx_schedule_timer Timeout_Timer timeout_zero TIMEOUT_TIMER x)"
    by (rule counts_schedule) simp
  moreover have "tsx_transport_gone e disc s = (if continue_on_tp_error disc u
      then tsx_grp_lock_release (clear_flags u) else tsx_schedule_timer Timeout_Timer timeout_zero TIMEOUT_TIMER x)"
    unfolding tsx_transport_gone_def Let_def u_def [symmetric] v_def [symmetric] w_def [symmetric] x_def ..
  ultimately show ?thesis using cf by simp
qed

lemma counts_timer_callback:
  assumes ok: "refs_ok s"
  shows "counts s (tsx_timer_callback e en s)"
proof -
  have v: "count_view (clear_tid en s) = count_view s" by simp
  have "refs_ok (clear_tid en s)" using ok refs_ok_view [OF v] by simp
  then have "counts (clear_tid en s) (tsx_transport_gone e disc (clear_tid en s))"
    "counts (clear_tid en s) (snd (locked_handler e (Event_Timer en) (clear_tid en s)))"
    "counts (clear_tid en s) (clear_tid en s)" for disc
    by (rule counts_transport_gone, rule counts_locked_handler, rule counts_refl)
  then show ?thesis
    using view_counts [OF v] counts_refl [OF ok] counts_terminate [OF ok]
    by (simp add: tsx_timer_callback_def Let_def)
qed

lemma counts_dispatch:
  assumes ok: "refs_ok s" and en: "en \<in> set (fired s)"
  shows "counts s (dispatch_timer e en s)"
proof -
  let ?s1 = "s\<lparr>fired := remove1 en (fired s)\<rparr>"
  have ok1: "refs_ok ?s1" using ok by (simp add: refs_ok_def)
  have l: "int (length (remove1 en (fired s))) = int (length (fired s)) - 1"
    by (rule int_length_remove1 [OF en])
  have n: "count_list (remove1 en (fired s)) Misc_Timer =
      count_list (fired s) Misc_Timer - (if en = Misc_Timer then 1 else 0)"
    by (simp add: count_list_remove1)
  have m: "en = Misc_Timer \<Longrightarrow> 0 < count_list (fired s) Misc_Timer"
    using en by (metis count_list_0_iff gr0I)
  have sl: "slack ?s1 = slack s + 1 + (if en = Misc_Timer then 1 else 0)"
    using l n m by (auto simp: count_defs of_nat_diff Suc_leI)
  have "refs_ok (tsx_misc_timer_callback e ?s1) \<and> slack ?s1 - 1 \<le> slack (tsx_misc_timer_callback e ?s1) \<and>
      held (tsx_misc_timer_callback e ?s1) = held s"
  proof -
    have v: "count_view (pjsip_tx_data_dec_ref x t) = count_view t" for x t by simp
    have "slack (pjsip_tx_data_dec_ref x t) = slack t" "refs_ok (pjsip_tx_data_dec_ref x t) = refs_ok t"
      "held (pjsip_tx_data_dec_ref x t) = held t" for x t
      by (simp_all add: count_defs refs_ok_def pjsip_tx_data_dec_ref_def)
    then show ?thesis
      using counts_transport_impl [OF ok1] ok1 by (simp add: tsx_misc_timer_callback_def)
  qed
  then show ?thesis
    using counts_timer_callback [OF ok1, of en] sl
    by (auto simp: dispatch_timer_def Let_def count_defs refs_ok_def tsx_grp_lock_dec_ref_def)
qed

lemma counts_action:
  assumes ok: "refs_ok s" and en: "tsx_enabled site a s"
  shows "counts s (tsx_do e a s)"
proof (cases a)
  case (Transport_Cb x sent)
  let ?s1 = "s\<lparr>tp_sends := remove1 x (tp_sends s)\<rparr>"
  have ok1: "refs_ok ?s1" using ok by (simp add: refs_ok_def)
  have "x \<in> set (tp_sends s)" using en Transport_Cb by simp
  then have l: "int (length (remove1 x (tp_sends s))) = int (length (tp_sends s)) - 1"
    by (rule int_length_remove1)
  then have "slack ?s1 = slack s + 1" by (simp add: count_defs)
  with counts_transport_callback [OF ok1 refl, of x sent] Transport_Cb show ?thesis by (simp add: counts_def)
next
  case (Poll t)
  with en ok show ?thesis
    by (cases t) (simp_all add: poll_timer_def count_defs refs_ok_def)
next
  case (Tp_State st)
  then show ?thesis using counts_tp_state [OF counts_refl [OF ok]] by simp
next
  case (Set_Pending x b)
  then show ?thesis using counts_view [OF counts_refl [OF ok]] by simp
qed (use ok en counts_refl [OF ok] in \<open>simp_all add: counts_send_api counts_terminate counts_retransmit_no_state
      counts_locked_handler counts_dispatch counts_send_cb pjsip_tsx_recv_msg_def
      pjsip_tsx_terminate_async2_def pjsip_tsx_stop_retransmit_def pjsip_tsx_set_timeout_def Let_def
      counts_restart counts_cancel counts_status\<close>)

lemma counts_run: "refs_ok s \<Longrightarrow> counts s (tsx_run e site acts s)"
proof (induction acts arbitrary: s)
  case (Cons a acts)
  have "counts s (tsx_step e site a s)"
    using counts_action [OF Cons.prems] counts_refl [OF Cons.prems] by (simp add: tsx_step_def)
  with Cons.IH counts_ok counts_trans show ?case unfolding tsx_run_def fold_Cons comp_apply by blast
qed (simp add: tsx_run_def counts_refl)

text \<open>A message the transport layer refuses is still attached when it says so.\<close>

lemma refused_action:
  assumes ok: "refs_ok s" and h: "0 < held s" and en: "tsx_enabled (In_Stateless x False) a s"
  shows "attached (tsx_do e a s) = attached s"
proof (cases a)
  case (Transport_Cb y sent)
  let ?s1 = "s\<lparr>tp_sends := remove1 y (tp_sends s)\<rparr>"
  have "refs_ok ?s1" using ok by (simp add: refs_ok_def)
  from counts_transport_callback [OF this refl, of y sent] Transport_Cb h show ?thesis by simp
next
  case (Poll t)
  then show ?thesis by (cases t) (simp_all add: poll_timer_def)
qed (use en in \<open>simp_all add: pjsip_tsx_set_timeout_def\<close>)

lemma refused_run:
  "refs_ok s \<Longrightarrow> 0 < held s \<Longrightarrow> attached (tsx_run e (In_Stateless x False) acts s) = attached s"
proof (induction acts arbitrary: s)
  case (Cons a acts)
  let ?t = "tsx_step e (In_Stateless x False) a s"
  have c: "counts s ?t"
    using counts_action [OF Cons.prems(1)] counts_refl [OF Cons.prems(1)] by (simp add: tsx_step_def)
  have "attached ?t = attached s" using refused_action [OF Cons.prems] by (simp add: tsx_step_def)
  moreover have "attached (tsx_run e (In_Stateless x False) acts ?t) = attached ?t"
    by (rule Cons.IH [OF counts_ok [OF c]]) (use counts_held [OF c] Cons.prems(2) in simp)
  ultimately show ?case by (simp add: tsx_run_def)
qed (simp add: tsx_run_def)

end

section \<open>The environments of the model\<close>

lemma tsx_counting_world: "tsx_counting (tsx_world g n)"
proof (induction n)
  case 0
  show ?case
  proof
    fix s assume "refs_ok s"
    then show "counts s (on_tsx_state (tsx_world g 0) s)"
      using counts_view [OF counts_refl] by simp
  next
    fix s c a s' assume "refs_ok s" "call_out (tsx_world g 0) c s = (a, s')"
    then show "counts s s'" using counts_view [OF counts_refl] by auto
  qed (auto simp: new_object_def drop_answer_def)
next
  case (Suc n)
  have d: "refs_ok s \<Longrightarrow> refs_ok (drop_answer s)" "counts (drop_answer s) t = counts s t"
    "held (drop_answer s) = held s" "attached (drop_answer s) = attached s" for s t
    using refs_ok_view [of "drop_answer s" s] view_counts [of "drop_answer s" s]
    by (simp_all add: drop_answer_def)
  have n: "count_view (new_object c a t) = count_view t" for c a t by simp
  show ?case
  proof
    fix s assume ok: "refs_ok s"
    then show "counts s (on_tsx_state (tsx_world g (Suc n)) s)"
      using tsx_counting.counts_run [OF Suc.IH d(1) [OF ok]] by (simp add: d)
  next
    fix s c a s' assume ok: "refs_ok s" and r: "call_out (tsx_world g (Suc n)) c s = (a, s')"
    obtain site acts where v: "count_view s' = count_view (tsx_run (tsx_world g n) site acts (drop_answer s))"
      using r by (auto simp: Let_def)
    show "counts s s'"
      by (rule counts_view [OF _ v])
        (use tsx_counting.counts_run [OF Suc.IH d(1) [OF ok]] in \<open>simp add: d\<close>)
  next
    fix s x a s' assume ok: "refs_ok s" and h: "0 < held s" and ref: "refused (ans_status a)"
      and r: "call_out (tsx_world g (Suc n)) (Stateless_Send x) s = (a, s')"
    have "a = next_answer s" using r by (simp add: Let_def)
    then have s': "s' = tsx_run (tsx_world g n) (In_Stateless x False) (ans_acts a) (drop_answer s)"
      using r ref by (auto simp: Let_def new_object_def refused_def)
    show "attached s' = attached s"
      unfolding s' using tsx_counting.refused_run [OF Suc.IH d(1) [OF ok]] h by (simp add: d)
  qed
qed

interpretation world_refs: tsx_counting "tsx_world g n" for g n
  by (rule tsx_counting_world)

end
