(* ===== verification/Pjsip_Tsx_Live.thy ===== *)
theory Pjsip_Tsx_Live
  imports Pjsip_Tsx_Close
begin

text \<open>
  A SIP transaction that has had its final response ends. \<open>armed\<close> says that the timer which ends
  it is in the heap, or has left it and its callback is still to run, and that its identifier is
  one the callback acts on. Every operation keeps that (\<open>lives\<close>), as long as nobody calls
  \<^verbatim>\<open>pjsip_tsx_terminate_async\<close>, which replaces that timer.
\<close>

section \<open>The timer that ends a transaction\<close>

definition resting :: "tsx \<Rightarrow> bool" where
  "resting s \<longleftrightarrow> \<not> terminating s \<and>
     (state s = PJSIP_TSX_STATE_COMPLETED \<or> state s = PJSIP_TSX_STATE_CONFIRMED \<or>
      state s = PJSIP_TSX_STATE_TERMINATED)"

definition ends_tsx :: "tsx_timer \<Rightarrow> bool" where
  "ends_tsx t \<longleftrightarrow>
     tid t \<noteq> TRANSPORT_ERR_TIMER \<and> tid t \<noteq> TRANSPORT_DISC_TIMER \<and> tid t \<noteq> TERMINATE_TIMER"

definition sound_timer :: "tsx \<Rightarrow> bool" where
  "sound_timer s \<longleftrightarrow> (resting s \<longrightarrow> running (timeout_timer s) \<longrightarrow> ends_tsx (timeout_timer s))"

definition armed :: "tsx \<Rightarrow> bool" where
  "armed s \<longleftrightarrow> (resting s \<longrightarrow>
     (running (timeout_timer s) \<or> Timeout_Timer \<in> set (fired s)) \<and> ends_tsx (timeout_timer s))"

lemma armed_sound: "armed s \<Longrightarrow> sound_timer s"
  by (auto simp: armed_def sound_timer_def)

fun is_async :: "tsx_action \<Rightarrow> bool" where
  "is_async (Terminate_Async _ _) = True"
| "is_async _ = False"

definition no_async :: "tsx \<Rightarrow> bool" where
  "no_async s \<longleftrightarrow> (\<forall>a \<in> set (answers s). \<forall>b \<in> set (ans_acts a). \<not> is_async b)"

definition handler_ok :: "tsx \<Rightarrow> bool" where
  "handler_ok s \<longleftrightarrow> state_handler s = handler_table (role s) (state s)"

definition live_base :: "tsx \<Rightarrow> bool" where
  "live_base s \<longleftrightarrow> no_async s \<and> handler_ok s"

definition lives :: "tsx \<Rightarrow> tsx \<Rightarrow> bool" where
  "lives s s' \<longleftrightarrow> live_base s' \<and> (terminating s \<longrightarrow> terminating s') \<and>
     (sound_timer s \<longrightarrow> sound_timer s') \<and> (armed s \<longrightarrow> armed s')"

definition revives :: "tsx \<Rightarrow> tsx \<Rightarrow> bool" where
  "revives s s' \<longleftrightarrow> live_base s' \<and> (terminating s \<longrightarrow> terminating s') \<and> armed s'"

lemma revives_lives: "revives s s' \<Longrightarrow> lives s s'"
  by (auto simp: lives_def revives_def armed_sound)

lemma lives_refl: "live_base s \<Longrightarrow> lives s s"
  by (simp add: lives_def)

lemma lives_trans: "lives s t \<Longrightarrow> lives t u \<Longrightarrow> lives s u"
  by (auto simp: lives_def)

lemma lives_base: "lives s t \<Longrightarrow> live_base t"
  by (simp add: lives_def)

lemma lives_revives: "lives s t \<Longrightarrow> revives t u \<Longrightarrow> revives s u"
  by (auto simp: lives_def revives_def)

lemma revives_lives_trans: "revives s t \<Longrightarrow> lives t u \<Longrightarrow> revives s u"
  by (auto simp: lives_def revives_def)

text \<open>What this depends on.\<close>

definition live_view where
  "live_view s = (role s, state s, state_handler s, terminating s, timeout_timer s, fired s, answers s)"

lemmas live_defs = live_base_def no_async_def handler_ok_def lives_def revives_def sound_timer_def
  armed_def resting_def

lemma lives_view: "lives s t \<Longrightarrow> live_view u = live_view t \<Longrightarrow> lives s u"
  unfolding live_view_def live_defs by simp

lemma revives_view: "revives s t \<Longrightarrow> live_view u = live_view t \<Longrightarrow> revives s u"
  unfolding live_view_def live_defs by simp

lemma view_lives: "live_view s = live_view t \<Longrightarrow> lives s u = lives t u"
  unfolding live_view_def live_defs by simp

lemma view_live_base: "live_view s = live_view t \<Longrightarrow> live_base s = live_base t"
  unfolding live_view_def live_defs by simp

lemma live_view_updates [simp]:
  "live_view (s\<lparr>tsx_logs := l\<rparr>) = live_view s" "live_view (s\<lparr>tdatas := d\<rparr>) = live_view s"
  "live_view (s\<lparr>status_code := c\<rparr>) = live_view s" "live_view (s\<lparr>last_tx := x\<rparr>) = live_view s"
  "live_view (s\<lparr>retransmit_count := n\<rparr>) = live_view s" "live_view (s\<lparr>is_reliable := b\<rparr>) = live_view s"
  "live_view (s\<lparr>has_pending_resched := b\<rparr>) = live_view s"
  "live_view (s\<lparr>has_pending_send := b\<rparr>) = live_view s"
  "live_view (s\<lparr>has_pending_transport := b\<rparr>) = live_view s"
  "live_view (s\<lparr>has_pending_destroy := b\<rparr>) = live_view s"
  "live_view (s\<lparr>has_resolved_server := b\<rparr>) = live_view s"
  "live_view (s\<lparr>transport := n\<rparr>) = live_view s" "live_view (s\<lparr>transport_err := c\<rparr>) = live_view s"
  "live_view (s\<lparr>misc_param := p\<rparr>) = live_view s" "live_view (s\<lparr>pending_tx := x\<rparr>) = live_view s"
  "live_view (s\<lparr>registered := b\<rparr>) = live_view s" "live_view (s\<lparr>tsx_user := u\<rparr>) = live_view s"
  "live_view (s\<lparr>attached := a\<rparr>) = live_view s" "live_view (s\<lparr>grp_refs := i\<rparr>) = live_view s"
  "live_view (s\<lparr>freed := b\<rparr>) = live_view s" "live_view (s\<lparr>held := n\<rparr>) = live_view s"
  "live_view (s\<lparr>tp_sends := ts\<rparr>) = live_view s" "live_view (s\<lparr>retransmit_timer := t\<rparr>) = live_view s"
  "live_view (s\<lparr>misc_timer := t\<rparr>) = live_view s"
  by (simp_all add: live_view_def)

lemma live_view_ops [simp]:
  "live_view (tsx_grp_lock_add_ref s) = live_view s" "live_view (tsx_grp_lock_dec_ref s) = live_view s"
  "live_view (tsx_grp_lock_acquire s) = live_view s" "live_view (tsx_grp_lock_release s) = live_view s"
  "live_view (tsx_set_status_code c s) = live_view s"
  "live_view (pjsip_tx_data_add_ref x s) = live_view s"
  "live_view (pjsip_tx_data_dec_ref x s) = live_view s"
  "live_view (keep_last_tx x s) = live_view s" "live_view (discard_last_tx x s) = live_view s"
  "live_view (unregister_tsx s) = live_view s" "live_view (clear_flags s) = live_view s"
  "live_view (new_object c' a s) = live_view s"
  "live_view (tsx_update_transport 0 False s) = live_view s"
  "live_view (detach_pending s) = live_view s"
  by (auto simp: tsx_grp_lock_add_ref_def tsx_grp_lock_dec_ref_def tsx_grp_lock_acquire_def
      tsx_grp_lock_release_def tsx_set_status_code_def pjsip_tx_data_add_ref_def pjsip_tx_data_dec_ref_def
      keep_last_tx_def discard_last_tx_def unregister_tsx_def clear_flags_def new_object_def
      tsx_update_transport_def detach_pending_def split: option.split)

lemma live_view_timers [simp]:
  "en \<noteq> Timeout_Timer \<Longrightarrow> live_view (tsx_cancel_timer en s) = live_view s"
  "en \<noteq> Timeout_Timer \<Longrightarrow> live_view (tsx_schedule_timer en d i s) = live_view s"
  "en \<noteq> Timeout_Timer \<Longrightarrow> live_view (tsx_restart_timer en d i s) = live_view s"
  "en \<noteq> Timeout_Timer \<Longrightarrow> live_view (clear_tid en s) = live_view s"
  by (cases en; simp add: tsx_cancel_timer_def tsx_schedule_timer_def tsx_restart_timer_def clear_tid_def)+

lemma live_view_composed [simp]:
  "live_view (tsx_resched_retransmission e s) = live_view s" "live_view (resched_waiting e s) = live_view s"
  "live_view (start_retransmit d s) = live_view s"
  by (simp_all add: tsx_resched_retransmission_def resched_waiting_def start_retransmit_def Let_def)

section \<open>Elementary operations\<close>

lemma restart_timeout [simp]:
  "timeout_timer (tsx_restart_timer Timeout_Timer d i s) = \<lparr>tid = i, running = True, tdelay = d\<rparr>"
  by (simp add: tsx_restart_timer_def tsx_schedule_timer_def tsx_cancel_timer_def tsx_grp_lock_add_ref_def
      tsx_grp_lock_dec_ref_def)

lemma restart_revives:
  assumes "live_base t"
  shows "revives t (tsx_restart_timer Timeout_Timer d TIMEOUT_TIMER t)"
  using assms by (simp add: live_defs ends_tsx_def)

lemma lives_restart: "lives s t \<Longrightarrow> lives s (tsx_restart_timer Timeout_Timer d TIMEOUT_TIMER t)"
  using lives_trans revives_lives restart_revives lives_base by blast

text \<open>In the other states the timer may be stopped and restarted at will.\<close>

lemma idle_timers [simp]:
  "resting (tsx_cancel_timer en t) = resting t" "resting (tsx_restart_timer en d i t) = resting t"
  "resting (tsx_schedule_timer en d i t) = resting t"
  by (simp_all add: resting_def)

lemma idle_lives:
  "lives s t \<Longrightarrow> live_base u \<Longrightarrow> (terminating t \<Longrightarrow> terminating u) \<Longrightarrow> \<not> resting u \<Longrightarrow> lives s u"
  by (auto simp: lives_def armed_def sound_timer_def)

lemma base_timers [simp]:
  "live_base (tsx_cancel_timer en t) = live_base t" "live_base (tsx_restart_timer en d i t) = live_base t"
  "live_base (tsx_schedule_timer en d i t) = live_base t"
  by (simp_all add: live_base_def no_async_def handler_ok_def)

lemma lives_idle:
  assumes "lives s t" "\<not> resting t"
  shows "lives s (tsx_cancel_timer Timeout_Timer t)" "lives s (tsx_restart_timer Timeout_Timer d i t)"
  by (rule idle_lives [OF assms(1)]; use assms lives_base in simp)+

lemma lives_tp_state:
  assumes "lives s t"
  shows "lives s (tsx_tp_state_callback st t)"
proof -
  let ?u = "t\<lparr>has_pending_transport := False, transport_err := st\<rparr>"
  have u: "lives s ?u" by (rule lives_view [OF assms]) simp
  moreover have "state ?u < PJSIP_TSX_STATE_COMPLETED \<Longrightarrow> \<not> resting ?u" by (auto simp: resting_def state_order)
  ultimately show ?thesis by (simp add: tsx_tp_state_callback_def Let_def lives_idle(2))
qed

lemma lives_update_transport:
  assumes "lives s t"
  shows "lives s (tsx_update_transport tp down t)"
proof -
  have "lives s (t\<lparr>transport := 0\<rparr>)" "lives s (t\<lparr>transport := tp\<rparr>)" by (rule lives_view [OF assms]; simp)+
  then show ?thesis using assms lives_tp_state by (simp add: tsx_update_transport_def Let_def)
qed

lemma shutdown_revives:
  assumes "live_base t"
  shows "revives t (tsx_shutdown t)"
proof -
  have "answers (tsx_shutdown t) = answers t"
    by (cases "last_tx t"; simp add: tsx_shutdown_def Let_def tsx_grp_lock_dec_ref_def pjsip_tx_data_dec_ref_def)
  with assms show ?thesis by (simp add: live_defs)
qed

lemma after_terminated_revives:
  assumes "live_base t" "\<not> no_schedule_handler fl"
  shows "revives t (after_terminated fl t)"
proof -
  have v: "live_view (detach_pending t) = live_view t" by simp
  then have "revives t (tsx_restart_timer Timeout_Timer timeout_zero TIMEOUT_TIMER (detach_pending t))"
    using restart_revives [of "detach_pending t"] view_live_base [OF v] assms(1) v
    by (simp add: revives_def live_view_def)
  with assms(2) show ?thesis by (simp add: after_terminated_def Let_def tsx_restart_timer_def)
qed

lemma after_terminated_sound:
  assumes "live_base t" "no_schedule_handler fl"
  shows "live_base (after_terminated fl t)" "terminating (after_terminated fl t) = terminating t"
    "sound_timer (after_terminated fl t)"
proof -
  have v: "live_view (detach_pending t) = live_view t" by simp
  have "\<not> running (timeout_timer (after_terminated fl t))"
    using assms(2) by (simp add: after_terminated_def Let_def tsx_cancel_timer_def tsx_grp_lock_dec_ref_def)
  then show "live_base (after_terminated fl t)" "terminating (after_terminated fl t) = terminating t"
    "sound_timer (after_terminated fl t)"
    using assms v by (auto simp: after_terminated_def Let_def live_defs live_view_def)
qed

locale tsx_liveness =
  fixes e :: tsx_env
  assumes user_lives: "live_base s \<Longrightarrow> lives s (on_tsx_state e s)"
    and call_lives: "live_base s \<Longrightarrow> call_out e c s = (a, s') \<Longrightarrow> lives s s'"

context tsx_liveness
begin

lemma lives_user:
  assumes "lives s t"
  shows "lives s (on_tsx_state e (t\<lparr>tsx_logs := l\<rparr>))"
proof -
  have "lives s (t\<lparr>tsx_logs := l\<rparr>)" by (rule lives_view [OF assms]) simp
  then show ?thesis using lives_trans user_lives lives_base by blast
qed

lemma lives_notify_rx: "lives s t \<Longrightarrow> lives s (notify_rx e src fl t)"
  by (auto simp: notify_rx_def lives_user split: tsx_event_src.splits pjsip_msg.splits option.splits)

lemma lives_notify_state:
  assumes "lives s t"
  shows "lives s (notify_state e prev src fl t)"
proof -
  have "lives s (tsx_grp_lock_release t)" by (rule lives_view [OF assms]) simp
  then have "lives s (tsx_grp_lock_acquire (on_tsx_state e ((tsx_grp_lock_release t)\<lparr>tsx_logs := l\<rparr>)))" for l
    by (rule lives_view [OF lives_user]) simp
  then show ?thesis
    using assms lives_user [OF assms] by (simp add: notify_state_def Let_def split: option.split)
qed

lemma notifications_lives:
  "live_base t \<Longrightarrow> lives t (notify_state e prev src fl (notify_rx e src fl t))"
  by (intro lives_notify_state lives_notify_rx lives_refl)

lemma enter_state_base: "live_base t \<Longrightarrow> live_base (enter_state st t)"
  by (simp add: live_base_def no_async_def handler_ok_def enter_state_def handler_table_def)

text \<open>A state change leaves the timer armed, whatever the transaction user does; for the states
  that rest on a timer started before, that timer has to run.\<close>

lemma set_state_revives:
  assumes b: "live_base t" and fl: "\<not> no_schedule_handler fl"
    and tm: "st = PJSIP_TSX_STATE_COMPLETED \<or> st = PJSIP_TSX_STATE_CONFIRMED \<Longrightarrow>
      running (timeout_timer t) \<and> ends_tsx (timeout_timer t)"
  shows "revives t (tsx_set_state e st src fl t)"
proof -
  let ?s1 = "enter_state st t"
  let ?s3 = "notify_state e (state t) src fl (notify_rx e src fl ?s1)"
  have b1: "live_base ?s1" by (rule enter_state_base [OF b])
  have l3: "lives ?s1 ?s3" by (rule notifications_lives [OF b1])
  then have b3: "live_base ?s3" "terminating t \<longrightarrow> terminating ?s3"
    by (simp_all add: lives_def)
  have u: "live_base (unregister_tsx ?s3)"
    using view_live_base [of "unregister_tsx ?s3" ?s3] b3(1) by simp
  consider "st = PJSIP_TSX_STATE_TERMINATED" | "st = PJSIP_TSX_STATE_DESTROYED"
    | "st \<noteq> PJSIP_TSX_STATE_TERMINATED" "st \<noteq> PJSIP_TSX_STATE_DESTROYED" by blast
  then show ?thesis
  proof cases
    case 1
    with after_terminated_revives [OF b3(1) fl] b3(2) show ?thesis
      by (simp add: tsx_set_state_def Let_def revives_def)
  next
    case 2
    with shutdown_revives [OF u] b3(2) show ?thesis
      by (simp add: tsx_set_state_def Let_def revives_def unregister_tsx_def)
  next
    case 3
    have "armed ?s1" using 3(1) tm by (auto simp: armed_def resting_def enter_state_def)
    then have "armed ?s3" using l3 by (simp add: lives_def)
    with 3 b3 show ?thesis by (simp add: tsx_set_state_def Let_def revives_def)
  qed
qed

lemma lives_set_state:
  assumes "lives s t" "\<not> no_schedule_handler fl"
    "st = PJSIP_TSX_STATE_COMPLETED \<or> st = PJSIP_TSX_STATE_CONFIRMED \<Longrightarrow>
      running (timeout_timer t) \<and> ends_tsx (timeout_timer t)"
  shows "lives s (tsx_set_state e st src fl t)"
  using lives_trans [OF assms(1) revives_lives [OF set_state_revives [OF lives_base [OF assms(1)] assms(2,3)]]]
  by blast

lemma lives_set_other:
  assumes "lives s t" "\<not> no_schedule_handler fl" "st \<noteq> PJSIP_TSX_STATE_COMPLETED"
    "st \<noteq> PJSIP_TSX_STATE_CONFIRMED"
  shows "lives s (tsx_set_state e st src fl t)"
  by (rule lives_set_state [OF assms(1,2)]) (use assms(3,4) in simp)

lemma lives_set_timed:
  assumes "lives s t" "\<not> no_schedule_handler fl" "running (timeout_timer t)" "ends_tsx (timeout_timer t)"
  shows "lives s (tsx_set_state e st src fl t)"
  by (rule lives_set_state [OF assms(1,2)]) (use assms(3,4) in simp)

lemma flags_schedule [simp]:
  "\<not> no_schedule_handler flags_none" "\<not> no_schedule_handler (flags_none\<lparr>release_lock := True\<rparr>)"
  by (simp_all add: flags_none_def)

lemma lives_status: "lives s t \<Longrightarrow> lives s (tsx_set_status_code c t)"
  by (erule lives_view) simp

lemma lives_call_out: "lives s t \<Longrightarrow> call_out e c t = (a, u) \<Longrightarrow> lives s u"
  using call_lives lives_trans lives_base by blast

lemma lives_send_on_transport:
  assumes "lives s t"
  shows "lives s (snd (send_on_transport e x t))"
proof -
  let ?t1 = "(tsx_grp_lock_add_ref t)\<lparr>has_pending_transport := True, tsx_logs := tsx_logs t @ [Log_Send x]\<rparr>"
  have t1: "lives s ?t1" by (rule lives_view [OF assms]) simp
  obtain a u where r: "call_out e (Transport_Send x) ?t1 = (a, u)" by fastforce
  have u: "lives s u" by (rule lives_call_out [OF t1 r])
  have "lives s (u\<lparr>tp_sends := tp_sends u @ [x]\<rparr>)" "lives s (tsx_grp_lock_dec_ref (u\<lparr>has_pending_transport := False\<rparr>))"
    by (rule lives_view [OF u]; simp)+
  then show ?thesis using r lives_update_transport by (simp add: send_on_transport_def Let_def)
qed

lemma lives_send_stateless:
  assumes "lives s t"
  shows "lives s (snd (send_stateless e x t))"
proof -
  let ?t1 = "tsx_grp_lock_add_ref ((pjsip_tx_data_add_ref x t)\<lparr>attached := insert x (attached t),
    pending_tx := Some x, has_pending_transport := True, tsx_logs := tsx_logs t @ [Log_Send x]\<rparr>)"
  have t1: "lives s ?t1" by (rule lives_view [OF assms]) simp
  obtain a u where r: "call_out e (Stateless_Send x) ?t1 = (a, u)" by fastforce
  have u: "lives s u" by (rule lives_call_out [OF t1 r])
  have "lives s (snd (send_stateless e x t)) = lives s u \<or> lives s (snd (send_stateless e x t))"
    using r lives_view [OF u] by (simp add: send_stateless_def Let_def)
  with u show ?thesis by blast
qed

lemma lives_send_msg:
  assumes l: "lives s t"
  shows "lives s (snd (tsx_send_msg e tx t))"
proof -
  have p: "lives s (t\<lparr>has_pending_send := True\<rparr>)" by (rule lives_view [OF l]) simp
  have pe: "lives s u \<Longrightarrow> lives s (snd (send_permanent_error e st u))" for st u
    by (simp add: send_permanent_error_def Let_def lives_set_other lives_status)
  show ?thesis
    using p l lives_send_on_transport [OF l] pe lives_send_stateless
    by (auto simp: tsx_send_msg_def Let_def split: option.split prod.split) (metis snd_conv)+
qed

lemma lives_send_waiting:
  assumes "lives s t"
  shows "lives s (send_waiting e t)"
proof -
  have "lives s (t\<lparr>has_pending_send := False\<rparr>)" by (rule lives_view [OF assms]) simp
  with assms show ?thesis by (simp add: send_waiting_def lives_send_msg)
qed

lemma lives_resched_waiting: "lives s t \<Longrightarrow> lives s (resched_waiting e t)"
  by (erule lives_view) simp

lemma lives_retransmit:
  assumes l: "lives s t"
  shows "lives s (snd (tsx_retransmit e resched t))"
proof -
  define u where "u = (let s1 = t\<lparr>retransmit_count := retransmit_count t + 1\<rparr> in if resched
    then (if has_pending_transport s1 then s1\<lparr>has_pending_resched := True\<rparr> else tsx_resched_retransmission e s1)
    else s1)"
  have u: "lives s u" by (rule lives_view [OF l]) (simp add: u_def Let_def)
  obtain st v where r: "tsx_send_msg e (last_tx u) u = (st, v)" by fastforce
  have v: "lives s v" using lives_send_msg [OF u, of "last_tx u"] r by simp
  have "lives s ((tsx_cancel_timer Retransmit_Timer v)\<lparr>has_pending_resched := True\<rparr>)"
    by (rule lives_view [OF v]) simp
  with v r l lives_restart [OF l] show ?thesis
    by (simp add: tsx_retransmit_def u_def Let_def split: option.split)
qed

lemma lives_cb_sent:
  assumes l: "lives s t"
  shows "lives s (cb_sent e tp rel down t)"
proof -
  define u where "u = (if transport t \<noteq> tp then (tsx_update_transport tp down t)\<lparr>is_reliable := rel\<rparr> else t)
    \<lparr>has_pending_transport := False, has_resolved_server := True\<rparr>"
  have "lives s u"
    using lives_view [OF l] lives_view [OF lives_update_transport [OF l]] by (simp add: u_def)
  then have "lives s (if d then tsx_set_state e PJSIP_TSX_STATE_DESTROYED Src_Unknown flags_none u
      else resched_waiting e (send_waiting e u))" for d
    by (simp add: lives_set_other lives_resched_waiting lives_send_waiting)
  then show ?thesis unfolding cb_sent_def Let_def u_def [symmetric] .
qed

lemma lives_cb_failed:
  assumes l: "lives s t"
  shows "lives s (cb_failed e err t)"
proof -
  let ?u = "t\<lparr>transport_err := err, has_pending_transport := False, has_resolved_server := True\<rparr>"
  have u: "lives s ?u" by (rule lives_view [OF l]) simp
  have "lives s (tsx_resched_retransmission e (?u\<lparr>has_pending_resched := False\<rparr>))"
    by (rule lives_view [OF l]) simp
  with u show ?thesis by (simp add: cb_failed_def Let_def lives_set_other lives_status)
qed

lemma lives_send_cb:
  assumes b: "live_base s"
  shows "lives s (send_msg_callback e x sent cont tp rel down s)"
proof (cases "x \<in> attached s")
  case True
  define u where "u = (tsx_grp_lock_dec_ref (tsx_grp_lock_acquire s))\<lparr>attached := attached s - {x}, pending_tx := None\<rparr>"
  have u: "lives s u" by (rule lives_view [OF lives_refl [OF b]]) (simp add: u_def)
  define w where "w = (if tp = transport u then tsx_update_transport 0 False u else u)"
  have w: "lives s w" using u lives_update_transport by (simp add: w_def)
  have "lives s (w\<lparr>retransmit_count := 0\<rparr>)" by (rule lives_view [OF w]) simp
  then have z: "lives s (if tid (timeout_timer (w\<lparr>retransmit_count := 0\<rparr>)) \<noteq> 0
      then tsx_restart_timer Timeout_Timer d TIMEOUT_TIMER (w\<lparr>retransmit_count := 0\<rparr>) else w\<lparr>retransmit_count := 0\<rparr>)"
    for d using lives_restart by simp
  have "lives s (cb_next_server e x w)"
    unfolding cb_next_server_def Let_def by (rule lives_view [OF z]) (simp only: live_view_ops live_view_updates)
  then have "lives s (if sent > 0 then cb_sent e tp rel down u
      else if b then cb_failed e (- sent) w else cb_next_server e x w)" for b
    using lives_cb_sent [OF u] lives_cb_failed [OF w] by simp
  then have "lives s (tsx_grp_lock_release (if sent > 0 then cb_sent e tp rel down u
      else if b then cb_failed e (- sent) w else cb_next_server e x w))" for b
    by (rule lives_view) simp
  then show ?thesis
    using True unfolding send_msg_callback_def Let_def u_def [symmetric] w_def [symmetric] by simp
qed (simp add: send_msg_callback_def lives_refl [OF b])

end

lemma timeout_frame [simp]:
  "timeout_timer (tsx_cancel_timer Retransmit_Timer s) = timeout_timer s"
  "timeout_timer (tsx_schedule_timer Retransmit_Timer d i s) = timeout_timer s"
  "timeout_timer (start_retransmit d' s) = timeout_timer s"
  by (simp_all add: tsx_cancel_timer_def tsx_schedule_timer_def tsx_grp_lock_add_ref_def
      tsx_grp_lock_dec_ref_def start_retransmit_def Let_def)

lemma ends_timeout [simp]: "ends_tsx \<lparr>tid = TIMEOUT_TIMER, running = r, tdelay = d\<rparr>"
  by (simp add: ends_tsx_def)

lemma lives_retransmit_timer:
  "lives s t \<Longrightarrow> lives s (tsx_cancel_timer Retransmit_Timer t)"
  "lives s t \<Longrightarrow> lives s (tsx_schedule_timer Retransmit_Timer d i t)"
  "lives s t \<Longrightarrow> lives s (start_retransmit d' t)"
  "lives s t \<Longrightarrow> lives s (t\<lparr>has_pending_resched := b\<rparr>)"
  by (erule lives_view, simp)+

lemma lives_last_tx:
  "lives s t \<Longrightarrow> lives s (keep_last_tx x t)" "lives s t \<Longrightarrow> lives s (discard_last_tx x t)"
  by (erule lives_view, simp)+

text \<open>The handlers that stop the timer belong to states that do not rest on it.\<close>

lemma handler_state:
  assumes "live_base s" "state_handler s = Some h"
  shows "h = On_State_Null \<Longrightarrow> state s = PJSIP_TSX_STATE_NULL"
    "h = On_State_Calling \<Longrightarrow> state s = PJSIP_TSX_STATE_CALLING"
    "h = On_State_Proceeding_Uac \<Longrightarrow> state s = PJSIP_TSX_STATE_PROCEEDING"
  using assms by (cases "role s"; cases "state s"; simp add: live_base_def handler_ok_def handler_table_def)+

context tsx_liveness
begin

lemma lives_transport_impl:
  assumes b: "live_base s"
  shows "lives s (transport_callback_impl e sent s)"
proof -
  define u where "u = (tsx_grp_lock_acquire s)\<lparr>has_pending_transport := False\<rparr>"
  have u: "lives s u" by (rule lives_view [OF lives_refl [OF b]]) (simp add: u_def)
  define v where "v = (if sent > 0 \<or> role u = PJSIP_ROLE_UAS then resched_waiting e (send_waiting e u) else u)"
  have v1: "lives s v" by (simp add: v_def u lives_resched_waiting lives_send_waiting)
  have v: "lives s (tsx_grp_lock_release v)" (is "lives s ?r") by (rule lives_view [OF v1]) simp
  define w where "w = (if sent < 0 \<and> role ?r = PJSIP_ROLE_UAC
      then if state (?r\<lparr>transport_err := - sent\<rparr>) < PJSIP_TSX_STATE_COMPLETED
           then tsx_restart_timer Timeout_Timer timeout_zero TRANSPORT_ERR_TIMER (?r\<lparr>transport_err := - sent\<rparr>)
           else ?r\<lparr>transport_err := - sent\<rparr>
      else ?r)"
  have v2: "lives s (?r\<lparr>transport_err := - sent\<rparr>)" by (rule lives_view [OF v]) simp
  have "state (?r\<lparr>transport_err := - sent\<rparr>) < PJSIP_TSX_STATE_COMPLETED \<Longrightarrow> \<not> resting (?r\<lparr>transport_err := - sent\<rparr>)"
    by (auto simp: resting_def state_order)
  with v v2 have w: "lives s w" by (simp add: w_def lives_idle(2) del: lock_fields)
  have "lives s (tsx_set_state e PJSIP_TSX_STATE_DESTROYED Src_Unknown flags_none u)"
    by (simp add: lives_set_other u)
  then have d: "lives s (tsx_grp_lock_dec_ref (tsx_grp_lock_release
      (tsx_set_state e PJSIP_TSX_STATE_DESTROYED Src_Unknown flags_none u)))"
    by (rule lives_view) simp
  have "lives s (tsx_grp_lock_dec_ref w)" by (rule lives_view [OF w]) simp
  with d have "lives s (if c then tsx_grp_lock_dec_ref (tsx_grp_lock_release
              (tsx_set_state e PJSIP_TSX_STATE_DESTROYED Src_Unknown flags_none u)) else tsx_grp_lock_dec_ref w)" for c
    by simp
  then show ?thesis
    unfolding transport_callback_impl_def Let_def u_def [symmetric] w_def v_def .
qed

lemma lives_transport_callback:
  assumes b: "live_base s"
  shows "lives s (transport_callback e x sent s)"
proof -
  have v: "live_view (tsx_grp_lock_acquire s) = live_view s" by simp
  have "lives s (transport_callback_impl e sent (tsx_grp_lock_acquire s))"
    using lives_transport_impl [of "tsx_grp_lock_acquire s" sent] view_lives [OF v] view_live_base [OF v] b by simp
  then have "lives s (tsx_grp_lock_release (transport_callback_impl e sent (tsx_grp_lock_acquire s)))"
    by (rule lives_view) simp
  then show ?thesis
    using lives_view [OF lives_refl [OF b]] by (simp add: transport_callback_def Let_def)
qed

lemma lives_null:
  assumes l: "lives s t"
  shows "lives s (snd (tsx_on_state_null e ev t))"
proof -
  have "lives s (snd (tsx_send_msg e (Some x) (keep_last_tx x (discard_last_tx x t))))" for x
    by (intro lives_send_msg lives_last_tx l)
  moreover have "lives s u \<Longrightarrow> lives s (null_uac_sent e u)" for u
    by (simp add: null_uac_sent_def Let_def lives_set_other lives_restart lives_retransmit_timer
        del: timer_ids)
  ultimately show ?thesis
    using l by (auto simp: tsx_on_state_null_def Let_def lives_set_other split: pjsip_event.split prod.split)
      (metis snd_conv)+
qed

lemma uac_final_end_revives:
  assumes b: "live_base t"
  shows "revives t (uac_final_end e m ack t)"
proof -
  define u where "u = tsx_set_state e PJSIP_TSX_STATE_COMPLETED (Src_Rx_Msg m) flags_none t"
  have "lives (enter_state PJSIP_TSX_STATE_COMPLETED t) u"
    using notifications_lives [OF enter_state_base [OF b]] by (simp add: u_def tsx_set_state_def Let_def)
  then have u: "live_base u" "terminating t \<longrightarrow> terminating u" by (simp_all add: lives_def)
  define v where "v = (if meth u = PJSIP_INVITE_METHOD \<and> ack \<noteq> last_tx u
    then (case last_tx u of Some y \<Rightarrow> pjsip_tx_data_dec_ref y u | None \<Rightarrow> u)\<lparr>last_tx := ack\<rparr> else u)"
  have v: "live_view v = live_view u" by (simp add: v_def split: option.split)
  have "revives v (tsx_restart_timer Timeout_Timer (uac_completed_delay e v) TIMEOUT_TIMER v)"
    by (rule restart_revives) (use view_live_base [OF v] u in simp)
  then show ?thesis
    using u v unfolding uac_final_end_def Let_def u_def [symmetric] v_def [symmetric]
    by (simp add: revives_def live_view_def)
qed

lemma lives_uac_final:
  assumes l: "lives s t" and nr: "\<not> resting t"
  shows "lives s (snd (uac_final e m t))"
proof -
  define u where "u = tsx_cancel_timer Timeout_Timer (tsx_cancel_timer Retransmit_Timer t)"
  have u: "lives s u"
    unfolding u_def by (rule lives_idle(1)) (use l nr lives_retransmit_timer in simp_all)
  obtain a v where r: "call_out e Create_Ack u = (a, v)" by fastforce
  have v: "lives s v" by (rule lives_call_out [OF u r])
  obtain st w where r2: "tsx_send_msg e (Some (ans_obj a)) v = (st, w)" by fastforce
  have w: "lives s w" using lives_send_msg [OF v, of "Some (ans_obj a)"] r2 by simp
  have fe: "lives s x \<Longrightarrow> lives s (uac_final_end e m ack x)" for ack x
    using lives_trans revives_lives uac_final_end_revives lives_base by blast
  show ?thesis
    using r r2 u v w by (simp add: uac_final_def Let_def u_def [symmetric] lives_set_other fe)
qed

lemma lives_proceeding_uac:
  assumes l: "lives s t" and nr: "\<not> resting t"
  shows "lives s (snd (tsx_on_state_proceeding_uac e ev t))"
proof -
  have "lives s (uac_2xx e m u)" if u: "lives s u" "\<not> resting u" for m u
  proof -
    have c: "lives s (tsx_cancel_timer Timeout_Timer u)" by (rule lives_idle(1) [OF u])
    have t: "lives s (tsx_cancel_timer Retransmit_Timer (tsx_restart_timer Timeout_Timer d TIMEOUT_TIMER u))" for d
      by (intro lives_retransmit_timer lives_restart u)
    have "lives s (tsx_set_state e PJSIP_TSX_STATE_COMPLETED (Src_Rx_Msg m) flags_none
        (tsx_cancel_timer Retransmit_Timer (tsx_restart_timer Timeout_Timer d TIMEOUT_TIMER u)))" for d
      by (rule lives_set_timed [OF t]) (simp_all del: timer_ids)
    with c show ?thesis
      by (simp add: uac_2xx_def Let_def lives_set_other tsx_restart_timer_def [symmetric] del: timer_ids)
  qed
  moreover have "\<not> resting (tsx_set_status_code c t)" for c using nr by (simp add: resting_def tsx_set_status_code_def)
  ultimately show ?thesis
    using l by (simp add: tsx_on_state_proceeding_uac_def Let_def lives_set_other lives_status lives_retransmit
        lives_uac_final split: pjsip_event.split pjsip_msg.split)
qed

lemma lives_calling:
  assumes l: "lives s t" and nr: "\<not> resting t"
  shows "lives s (snd (tsx_on_state_calling e ev t))"
proof -
  have c: "lives s (calling_timers e code t)" for code
    using l nr by (simp add: calling_timers_def Let_def lives_retransmit_timer lives_idle(1))
  have "\<not> resting (calling_timers e code t)" for code
    using nr by (simp add: calling_timers_def Let_def resting_def)
  with c show ?thesis
    using l by (simp add: tsx_on_state_calling_def lives_set_other lives_status lives_retransmit_timer
        lives_retransmit lives_proceeding_uac split: pjsip_event.split tsx_entry.split pjsip_msg.split)
qed

lemma lives_uas_sent:
  assumes l: "lives s t"
  shows "lives s (uas_sent e x t)"
proof -
  have k: "timeout_timer (keep_last_tx x u) = timeout_timer u" for u
    by (simp add: keep_last_tx_def pjsip_tx_data_add_ref_def)
  have "lives s (uas_sent_1xx e x t)"
    using l by (simp add: uas_sent_1xx_def Let_def lives_set_other lives_last_tx lives_retransmit_timer)
  moreover have "lives s (uas_sent_2xx e x t)"
    using l by (simp add: uas_sent_2xx_def Let_def lives_set_other lives_set_timed lives_last_tx
        lives_retransmit_timer lives_restart del: timer_ids)
  moreover have "lives s (uas_sent_final e x t)"
    using l by (simp add: uas_sent_final_def Let_def lives_set_timed lives_last_tx
        lives_retransmit_timer lives_restart del: timer_ids)
  ultimately show ?thesis using l by (simp add: uas_sent_def)
qed

lemma lives_proceeding_uas:
  assumes l: "lives s t"
  shows "lives s (snd (tsx_on_state_proceeding_uas e ev t))"
proof -
  have p: "lives s (t\<lparr>has_pending_send := True\<rparr>)" by (rule lives_view [OF l]) simp
  have "lives s (snd (tsx_send_msg e (Some x) (discard_last_tx x (tsx_set_status_code code t))))" for x code
    by (intro lives_send_msg lives_last_tx lives_status l)
  then show ?thesis
    using l p lives_uas_sent
    by (auto simp: tsx_on_state_proceeding_uas_def Let_def lives_set_other lives_status lives_retransmit
        lives_send_msg split: pjsip_event.split option.split pjsip_msg.split tsx_entry.split prod.split)
      (metis snd_conv)+
qed

lemma lives_handler:
  assumes l: "lives s t"
  shows "lives s (snd (call_handler e ev t))"
proof (cases "state_handler t")
  case (Some h)
  note st = handler_state [OF lives_base [OF l] Some]
  have nr: "h = On_State_Calling \<or> h = On_State_Proceeding_Uac \<Longrightarrow> \<not> resting t"
    using st by (auto simp: resting_def)
  have tr: "lives s (snd (tsx_on_state_trying e ev t))"
    using l lives_proceeding_uas [OF l, of ev]
    by (auto simp: tsx_on_state_trying_def Let_def lives_set_other split: pjsip_event.split prod.split)
  have "lives s (uas_ack e m t)" for m
    using l by (simp add: uas_ack_def Let_def lives_set_timed lives_retransmit_timer lives_restart del: timer_ids)
  then have "lives s (snd (tsx_handle e h ev t))"
    using l tr nr lives_null [OF l] lives_calling [OF l] lives_proceeding_uac [OF l] lives_proceeding_uas [OF l]
    by (cases h) (simp_all add: tsx_on_state_completed_uac_def tsx_on_state_completed_uas_def
        tsx_on_state_confirmed_def tsx_on_state_terminated_def tsx_on_state_destroyed_def
        lives_set_other lives_status lives_retransmit split: pjsip_event.split pjsip_msg.split)
  with Some show ?thesis by (simp add: call_handler_def)
qed (simp add: call_handler_def l)

lemma lives_locked_handler:
  assumes b: "live_base s"
  shows "lives s (snd (locked_handler e ev s))"
proof -
  have "lives s (snd (call_handler e ev (tsx_grp_lock_acquire s)))"
    by (rule lives_handler) (rule lives_view [OF lives_refl [OF b]], simp)
  then have "lives s (tsx_grp_lock_release (snd (call_handler e ev (tsx_grp_lock_acquire s))))"
    by (rule lives_view) simp
  then show ?thesis by (cases "call_handler e ev (tsx_grp_lock_acquire s)") (simp add: locked_handler_def)
qed

lemma lives_send_api:
  assumes "live_base s"
  shows "lives s (snd (pjsip_tsx_send_msg e td s))"
proof -
  have k: "lives s (snd (locked_handler e (Event_Tx_Msg x) s))" for x
    by (rule lives_locked_handler [OF assms])
  then have "lives s (pjsip_tx_data_dec_ref x (snd (locked_handler e (Event_Tx_Msg x) s)))" for x
    by (rule lives_view) simp
  with k lives_refl [OF assms] show ?thesis
    by (auto simp: pjsip_tsx_send_msg_def Let_def split: option.split prod.split) (metis snd_conv)+
qed

lemma lives_terminate:
  assumes b: "live_base s"
  shows "lives s (snd (pjsip_tsx_terminate e code s))"
proof -
  have "lives s (tsx_grp_lock_acquire s)" by (rule lives_view [OF lives_refl [OF b]]) simp
  then have "lives s (if c then tsx_set_state e PJSIP_TSX_STATE_TERMINATED Src_User flags_none
      (tsx_set_status_code code (tsx_grp_lock_acquire s)) else tsx_grp_lock_acquire s)" for c
    by (simp add: lives_set_other lives_status)
  then have "lives s (tsx_grp_lock_release (if c then tsx_set_state e PJSIP_TSX_STATE_TERMINATED Src_User flags_none
      (tsx_set_status_code code (tsx_grp_lock_acquire s)) else tsx_grp_lock_acquire s))" for c
    by (rule lives_view) simp
  with lives_refl [OF b] show ?thesis by (simp add: pjsip_tsx_terminate_def Let_def)
qed

lemma lives_retransmit_no_state:
  assumes b: "live_base s"
  shows "lives s (snd (pjsip_tsx_retransmit_no_state e td s))"
proof -
  define tx where "tx = (case td of Some x \<Rightarrow> Some x | None \<Rightarrow> last_tx (tsx_grp_lock_acquire s))"
  define u where "u = (case td of Some _ \<Rightarrow> tsx_grp_lock_acquire s
    | None \<Rightarrow> (case tx of Some x \<Rightarrow> pjsip_tx_data_add_ref x (tsx_grp_lock_acquire s) | None \<Rightarrow> tsx_grp_lock_acquire s))"
  have u: "lives s u"
    by (rule lives_view [OF lives_refl [OF b]]) (simp add: u_def split: option.split)
  obtain st v where r: "tsx_send_msg e tx u = (st, v)" by fastforce
  have v: "lives s v" using lives_send_msg [OF u, of tx] r by simp
  have "lives s (tsx_grp_lock_release v)" "lives s (pjsip_tx_data_dec_ref x (tsx_grp_lock_release v))" for x
    by (rule lives_view [OF v]; simp)+
  then show ?thesis
    unfolding pjsip_tsx_retransmit_no_state_def Let_def tx_def [symmetric]
    unfolding u_def [symmetric] r by (simp split: option.split)
qed

text \<open>The one change that does not start the timer itself; its caller does.\<close>

lemma transport_gone_lives:
  assumes b: "live_base s"
  shows "lives s (tsx_transport_gone e disc s)"
proof -
  define u where "u = tsx_update_transport 0 False (tsx_grp_lock_acquire s)"
  have u: "lives s u" by (rule lives_view [OF lives_refl [OF b]]) (simp add: u_def)
  have cf: "lives s (tsx_grp_lock_release (clear_flags u))" by (rule lives_view [OF u]) simp
  define v where "v = (if status_code u < 200 then tsx_set_status_code PJSIP_SC_TSX_TRANSPORT_ERROR u else u)"
  have v: "lives s v" by (simp add: v_def u lives_status)
  define fl where "fl = flags_none\<lparr>no_notify := True, no_schedule_handler := True\<rparr>"
  define w where "w = tsx_grp_lock_release (tsx_set_state e PJSIP_TSX_STATE_TERMINATED Src_Transport_Error fl v)"
  have n: "notify_state e (state v) Src_Transport_Error fl (notify_rx e Src_Transport_Error fl
      (enter_state PJSIP_TSX_STATE_TERMINATED v)) = enter_state PJSIP_TSX_STATE_TERMINATED v"
    by (simp add: notify_rx_def notify_state_def fl_def split: option.split)
  have wv: "live_view w = live_view (after_terminated fl (enter_state PJSIP_TSX_STATE_TERMINATED v))"
    using n by (simp add: w_def tsx_set_state_def Let_def)
  have "no_schedule_handler fl" by (simp add: fl_def)
  note at = after_terminated_sound [OF enter_state_base [OF lives_base [OF v]] this, of PJSIP_TSX_STATE_TERMINATED]
  have w: "live_base w" "sound_timer w" "terminating s \<longrightarrow> terminating w"
    using at wv v unfolding live_view_def live_defs by simp_all
  define x where "x = (case tsx_user w of Some m \<Rightarrow> if has_on_tsx_state m
      then on_tsx_state e (w\<lparr>tsx_logs := tsx_logs w @ [Log_Tsx_State (state (tsx_grp_lock_acquire s)) (state w)]\<rparr>)
      else w | None \<Rightarrow> w)"
  have "lives w x" using lives_user [OF lives_refl [OF w(1)]] lives_refl [OF w(1)] by (simp add: x_def split: option.split)
  then have x: "live_base x" "sound_timer x" "terminating s \<longrightarrow> terminating x" using w by (simp_all add: lives_def)
  have "revives s (tsx_schedule_timer Timeout_Timer timeout_zero TIMEOUT_TIMER x)"
  proof (cases "running (timeout_timer x)")
    case True
    then have "armed x" using x(2) by (auto simp: armed_def sound_timer_def)
    with True x show ?thesis by (simp add: tsx_schedule_timer_def revives_def)
  next
    case False
    then have "tsx_schedule_timer Timeout_Timer timeout_zero TIMEOUT_TIMER x =
        tsx_restart_timer Timeout_Timer timeout_zero TIMEOUT_TIMER x"
      by (simp add: tsx_restart_timer_def tsx_cancel_timer_def)
    then show ?thesis using restart_revives [OF x(1), of timeout_zero] x(3)
      by (simp add: revives_def del: timer_ids)
  qed
  then have "lives s (tsx_schedule_timer Timeout_Timer timeout_zero TIMEOUT_TIMER x)" by (rule revives_lives)
  with cf have "lives s (if c then tsx_grp_lock_release (clear_flags u)
      else tsx_schedule_timer Timeout_Timer timeout_zero TIMEOUT_TIMER x)" for c by simp
  then show ?thesis
    unfolding tsx_transport_gone_def Let_def u_def [symmetric] v_def [symmetric] fl_def [symmetric]
      w_def [symmetric] x_def .
qed

lemma lives_clear_tid:
  assumes "live_base s"
  shows "lives s (clear_tid en s)"
  using assms by (cases en) (simp_all add: clear_tid_def live_defs ends_tsx_def)

lemma timer_callback_lives:
  assumes b: "live_base s"
  shows "lives s (tsx_timer_callback e en s)"
proof -
  have c: "lives s (clear_tid en s)" by (rule lives_clear_tid [OF b])
  have "lives s (tsx_transport_gone e disc (clear_tid en s))"
    "lives s (snd (locked_handler e (Event_Timer en) (clear_tid en s)))" for disc
    using lives_trans [OF c] transport_gone_lives lives_locked_handler lives_base [OF c] by blast+
  with c lives_refl [OF b] lives_terminate [OF b] show ?thesis by (simp add: tsx_timer_callback_def Let_def)
qed

text \<open>The timer of a resting transaction does what it is for.\<close>

lemma timeout_handled:
  assumes b: "live_base s" and r: "resting s" and t: "ends_tsx (timeout_timer s)"
  shows "armed (tsx_timer_callback e Timeout_Timer s)"
proof -
  let ?c = "tsx_grp_lock_acquire (clear_tid Timeout_Timer s)"
  have f: "state_handler ?c = state_handler s" "role ?c = role s" "state ?c = state s" "meth ?c = meth s"
    by (simp_all add: tsx_grp_lock_acquire_def clear_tid_def)
  have bc: "live_base ?c"
    using lives_base [OF lives_clear_tid [OF b]] view_live_base [of ?c "clear_tid Timeout_Timer s"] by simp
  then have bs: "live_base (tsx_set_status_code k ?c)" for k
    using view_live_base [of "tsx_set_status_code k ?c" ?c] by simp
  have rv: "armed (tsx_set_state e st src flags_none ?c)" "armed (tsx_set_state e st src flags_none (tsx_set_status_code k ?c))"
    if "st = PJSIP_TSX_STATE_TERMINATED \<or> st = PJSIP_TSX_STATE_DESTROYED" for st src k
    using set_state_revives [OF bc, of flags_none st src] set_state_revives [OF bs, of flags_none st k src] that
    by (auto simp: revives_def)
  have h: "state_handler s = handler_table (role s) (state s)" using b by (simp add: live_base_def handler_ok_def)
  have hd: "armed (snd (call_handler e (Event_Timer Timeout_Timer) ?c))"
    using r rv h f
    by (cases "role s"; cases "state s")
      (simp_all add: resting_def call_handler_def handler_table_def tsx_on_state_completed_uac_def
        tsx_on_state_completed_uas_def tsx_on_state_confirmed_def tsx_on_state_terminated_def)
  have av: "live_view u = live_view w \<Longrightarrow> armed u = armed w" for u w
    by (simp add: armed_def resting_def live_view_def)
  have "armed (snd (locked_handler e (Event_Timer Timeout_Timer) (clear_tid Timeout_Timer s)))"
    using hd av [of "tsx_grp_lock_release w" w for w]
    by (cases "call_handler e (Event_Timer Timeout_Timer) ?c") (simp add: locked_handler_def)
  moreover have "\<not> state s \<ge> PJSIP_TSX_STATE_DESTROYED" using r by (auto simp: resting_def)
  ultimately show ?thesis using t by (simp add: tsx_timer_callback_def Let_def ends_tsx_def)
qed

lemma lives_dispatch:
  assumes b: "live_base s"
  shows "lives s (dispatch_timer e en s)"
proof -
  let ?s1 = "s\<lparr>fired := remove1 en (fired s)\<rparr>"
  have b1: "live_base ?s1" using b by (simp add: live_base_def no_async_def handler_ok_def)
  define t where "t = (if en = Misc_Timer then tsx_misc_timer_callback e ?s1 else tsx_timer_callback e en ?s1)"
  have "lives ?s1 (tsx_misc_timer_callback e ?s1)"
    using lives_view [OF lives_transport_impl [OF b1]] lives_refl [OF b1]
    by (simp add: tsx_misc_timer_callback_def)
  then have t: "lives ?s1 t" unfolding t_def using timer_callback_lives [OF b1] by (cases "en = Misc_Timer") simp_all
  have "lives s t"
  proof (cases "en = Timeout_Timer \<and> resting s \<and> armed s")
    case True
    then have "armed t"
      using timeout_handled [OF b1] by (simp add: t_def armed_def resting_def)
    with t show ?thesis by (simp add: lives_def armed_sound)
  next
    case False
    have "armed s \<Longrightarrow> armed ?s1"
      using False by (auto simp: armed_def resting_def in_set_remove1)
    moreover have "sound_timer ?s1 = sound_timer s" by (simp add: sound_timer_def resting_def)
    ultimately show ?thesis using t by (simp add: lives_def)
  qed
  then show ?thesis unfolding dispatch_timer_def Let_def t_def [symmetric] by (rule lives_view) simp
qed

lemma lives_action:
  assumes b: "live_base s" and en: "tsx_enabled site a s" and na: "\<not> is_async a"
  shows "lives s (tsx_do e a s)"
proof (cases a)
  case (Transport_Cb x sent)
  let ?s1 = "s\<lparr>tp_sends := remove1 x (tp_sends s)\<rparr>"
  have v: "live_view ?s1 = live_view s" by simp
  show ?thesis
    using lives_transport_callback [of ?s1 x sent] view_live_base [OF v] view_lives [OF v] b Transport_Cb by simp
next
  case (Poll t)
  with en b show ?thesis by (cases t) (simp_all add: poll_timer_def live_defs ends_tsx_def)
next
  case (Tp_State st)
  then show ?thesis using lives_tp_state [OF lives_refl [OF b]] by simp
next
  case (Set_Pending x c)
  then show ?thesis using lives_view [OF lives_refl [OF b]] by simp
next
  case (Set_Timeout ms)
  then show ?thesis
    using lives_restart [OF lives_refl [OF b]] lives_refl [OF b]
    by (simp add: pjsip_tsx_set_timeout_def del: timer_ids)
qed (use b na lives_refl [OF b] in \<open>simp_all add: lives_send_api lives_terminate lives_retransmit_no_state
      lives_locked_handler lives_dispatch lives_send_cb pjsip_tsx_recv_msg_def
      pjsip_tsx_stop_retransmit_def lives_retransmit_timer\<close>)

lemma lives_run:
  "live_base s \<Longrightarrow> \<forall>a \<in> set acts. \<not> is_async a \<Longrightarrow> lives s (tsx_run e site acts s)"
proof (induction acts arbitrary: s)
  case (Cons a acts)
  have l: "lives s (tsx_step e site a s)"
    using lives_action [OF Cons.prems(1)] lives_refl [OF Cons.prems(1)] Cons.prems(2) by (simp add: tsx_step_def)
  have "lives (tsx_step e site a s) (tsx_run e site acts (tsx_step e site a s))"
    by (rule Cons.IH [OF lives_base [OF l]]) (use Cons.prems(2) in simp)
  with l lives_trans show ?case unfolding tsx_run_def fold_Cons comp_apply by blast
qed (simp add: tsx_run_def lives_refl)

end

section \<open>The environments of the model\<close>

lemma lives_drop_answer: "live_base s \<Longrightarrow> lives s (drop_answer s)"
  by (cases "answers s") (auto simp: live_defs drop_answer_def)

lemma next_answer_no_async: "live_base s \<Longrightarrow> \<forall>a \<in> set (ans_acts (next_answer s)). \<not> is_async a"
  by (cases "answers s") (auto simp: live_base_def no_async_def next_answer_def default_answer_def)

lemma tsx_liveness_world: "tsx_liveness (tsx_world g n)"
proof (induction n)
  case 0
  show ?case
  proof
    fix s assume "live_base s"
    then show "lives s (on_tsx_state (tsx_world g 0) s)" using lives_drop_answer by simp
  next
    fix s c a s' assume "live_base s" "call_out (tsx_world g 0) c s = (a, s')"
    then show "lives s s'" using lives_view [OF lives_drop_answer] by auto
  qed
next
  case (Suc n)
  have r: "lives s (tsx_run (tsx_world g n) site (ans_acts (next_answer s)) (drop_answer s))" if "live_base s" for s site
    using lives_trans [OF lives_drop_answer [OF that]]
      tsx_liveness.lives_run [OF Suc.IH lives_base [OF lives_drop_answer [OF that]] next_answer_no_async [OF that]]
    by blast
  show ?case
  proof
    fix s assume "live_base s"
    then show "lives s (on_tsx_state (tsx_world g (Suc n)) s)" using r by simp
  next
    fix s c a s' assume "live_base s" "call_out (tsx_world g (Suc n)) c s = (a, s')"
    then show "lives s s'" using lives_view [OF r] by (auto simp: Let_def)
  qed
qed

interpretation world_live: tsx_liveness "tsx_world g n" for g n
  by (rule tsx_liveness_world)

end
