(* ===== verification/Pjsip_Tsx_Demo.thy ===== *)
theory Pjsip_Tsx_Demo
  imports Pjsip_Tsx_Run
begin

text \<open>
  Concrete runs of a transaction with the default timers, evaluated by the simplifier. They are
  the inputs of the witnesses, and they show where the implementation does not do what it means
  to: a response that stops both timers of a client transaction, a termination request that takes
  away the timer that destroys the transaction, a transaction that is freed inside its own
  callback, one that goes back from its last state, and one that announces its end twice.
\<close>

section \<open>A transaction to run\<close>

definition default_timers :: tsx_config where
  "default_timers = pjsip_tsx_initialize_timer_values
     \<lparr>cfg_t1 = 500, cfg_t2 = 4000, cfg_t4 = 5000, cfg_td = 32000, t1_timer_val = timeout_zero,
      t2_timer_val = timeout_zero, t4_timer_val = timeout_zero, td_timer_val = timeout_zero,
      timeout_timer_val = timeout_zero, max_retrans_count = -1, edns_nxdomain = 320053\<rparr>"

definition call_user :: "pjsip_module option" where
  "call_user = Some \<lparr>has_on_rx_response = True, has_on_tsx_state = True\<rparr>"

definition invites :: "nat \<Rightarrow> pjsip_tx_data" where
  "invites i = \<lparr>ref_cnt = 1, is_pending = False, msg = PJSIP_REQUEST_MSG PJSIP_INVITE_METHOD\<rparr>"

definition finals :: "nat \<Rightarrow> pjsip_tx_data" where
  "finals i = \<lparr>ref_cnt = 1, is_pending = False,
     msg = PJSIP_RESPONSE_MSG (if i = 0 then 180 else 486) PJSIP_INVITE_METHOD\<rparr>"

definition answer :: "tsx_action list \<Rightarrow> pj_status_t \<Rightarrow> nat \<Rightarrow> tsx_answer" where
  "answer acts st x = \<lparr>ans_acts = acts, ans_status = st, ans_obj = x\<rparr>"

text \<open>The transport layer sends a message before it returns, on transport 7.\<close>

definition sent_at_once :: tsx_answer where
  "sent_at_once = answer [Send_Cb 0 5 False 7 False False] PJ_SUCCESS 0"

definition invite_uac :: "tsx_answer list \<Rightarrow> tsx" where
  "invite_uac script = tsx_new_uac call_user invites script 0 PJSIP_INVITE_METHOD 1 0 False"

definition invite_uas :: "tsx_answer list \<Rightarrow> tsx" where
  "invite_uas script = tsx_new_uas call_user finals script 0 PJSIP_INVITE_METHOD 1 7 False False"

definition run_tsx :: "tsx_action list \<Rightarrow> tsx \<Rightarrow> tsx" where
  "run_tsx acts s = tsx_run (tsx_world default_timers 3) In_User acts s"

definition rsp :: "int \<Rightarrow> tsx_action" where
  "rsp code = Recv_Msg (PJSIP_RESPONSE_MSG code PJSIP_INVITE_METHOD)"

definition fire :: "tsx_entry \<Rightarrow> tsx_action list" where
  "fire en = [Poll en, Dispatch en]"

section \<open>Calls that end as they should\<close>

text \<open>A call that is answered, and one that is refused: the second sends an ACK.\<close>

definition answered_call :: tsx where
  "answered_call = run_tsx [Send_Msg None, rsp 180, rsp 200] (invite_uac [sent_at_once])"

definition refused_call :: tsx where
  "refused_call = run_tsx [Send_Msg None, rsp 180, rsp 486]
     (invite_uac [sent_at_once, default_answer, default_answer, default_answer,
        answer [] PJ_SUCCESS 9])"

definition refused_server :: tsx where
  "refused_server = run_tsx ([Recv_Msg (PJSIP_REQUEST_MSG PJSIP_INVITE_METHOD), Send_Msg (Some 0),
     Send_Msg (Some 1)] @ fire Retransmit_Timer @ [Recv_Msg (PJSIP_REQUEST_MSG PJSIP_ACK_METHOD)])
     (invite_uas [])"

lemma answered_call_run:
  "state answered_call = PJSIP_TSX_STATE_TERMINATED \<and>
   hist answered_call = [PJSIP_TSX_STATE_NULL, PJSIP_TSX_STATE_CALLING, PJSIP_TSX_STATE_PROCEEDING,
     PJSIP_TSX_STATE_TERMINATED] \<and>
   hist (run_tsx (fire Timeout_Timer) answered_call) = [PJSIP_TSX_STATE_NULL, PJSIP_TSX_STATE_CALLING,
     PJSIP_TSX_STATE_PROCEEDING, PJSIP_TSX_STATE_TERMINATED, PJSIP_TSX_STATE_DESTROYED] \<and>
   freed (run_tsx (fire Timeout_Timer) answered_call)"
  by code_simp

lemma refused_call_run:
  "state refused_call = PJSIP_TSX_STATE_COMPLETED \<and> status_code refused_call = 486 \<and>
   last_tx refused_call = Some 9 \<and> running (timeout_timer refused_call) \<and>
   tdelay (timeout_timer refused_call) = Time_Val 32 0"
  by code_simp

lemma refused_server_run:
  "hist refused_server = [PJSIP_TSX_STATE_NULL, PJSIP_TSX_STATE_TRYING, PJSIP_TSX_STATE_PROCEEDING,
     PJSIP_TSX_STATE_COMPLETED, PJSIP_TSX_STATE_CONFIRMED] \<and>
   state refused_server = PJSIP_TSX_STATE_CONFIRMED \<and>
   retransmit_count refused_server = 1 \<and> \<not> running (retransmit_timer refused_server) \<and>
   tdelay (timeout_timer refused_server) = Time_Val 5 0"
  by code_simp

section \<open>Calls that do not\<close>

text \<open>The parser accepts status codes up to 999. A response above 699 stops the retransmissions and
  the timeout of a client transaction in state \<^verbatim>\<open>CALLING\<close> and is then refused by the handler: the
  transaction stays in the table with no timer left.\<close>

definition odd_response :: tsx where
  "odd_response = run_tsx [Send_Msg None, rsp 700] (invite_uac [sent_at_once])"

lemma odd_response_hangs:
  "state odd_response = PJSIP_TSX_STATE_CALLING \<and> registered odd_response \<and>
   \<not> running (timeout_timer odd_response) \<and> \<not> running (retransmit_timer odd_response) \<and>
   fired odd_response = [] \<and> tp_sends odd_response = [] \<and> attached odd_response = {}"
  by code_simp

text \<open>A termination request on a terminated transaction replaces the timer that would destroy it by
  one whose callback does nothing: the transaction is never taken out of the table.\<close>

definition stuck_call :: tsx where
  "stuck_call = run_tsx (Terminate_Async 487 100 # fire Timeout_Timer) answered_call"

lemma terminate_async_strands:
  "state stuck_call = PJSIP_TSX_STATE_TERMINATED \<and> registered stuck_call \<and> \<not> terminating stuck_call \<and>
   \<not> running (timeout_timer stuck_call) \<and> \<not> running (retransmit_timer stuck_call) \<and>
   fired stuck_call = [] \<and> tp_sends stuck_call = [] \<and> attached stuck_call = {}"
  by code_simp

text \<open>\<^verbatim>\<open>send_msg_callback\<close> drops the reference of the send first and releases the lock around the
  callback that announces the transport error. When timer B expires during that callback the
  transaction is destroyed and freed, and \<^verbatim>\<open>tsx_set_state\<close> then locks it again.\<close>

definition freed_call :: tsx where
  "freed_call = run_tsx [Send_Msg None, Send_Cb 0 (- 120) False 0 False False]
     (invite_uac [default_answer, default_answer, answer (fire Timeout_Timer) PJ_SUCCESS 0])"

lemma freed_inside_callback:
  "freed freed_call \<and> grp_refs freed_call = 1 \<and> running (timeout_timer freed_call)"
  by code_simp

text \<open>A message that had to wait is sent when the completion of the one before it arrives, in
  whatever state the transaction is by then. If that fails in a terminated transaction, the
  transaction user is told of the termination a second time; if the completion arrives while the
  transaction user is told of the destruction, the transaction goes back to \<^verbatim>\<open>TERMINATED\<close>.\<close>

definition waiting_call :: tsx where
  "waiting_call = run_tsx ([Send_Msg None] @ fire Retransmit_Timer @
       [Retransmit_No_State None, Terminate 487])
     (invite_uac [sent_at_once, default_answer, answer [] PJ_EPENDING 0, default_answer,
        answer [] 120 0])"

definition completes_late :: tsx_env where
  "completes_late = (tsx_world default_timers 2)\<lparr>on_tsx_state :=
     (\<lambda>s. if being_destroyed s \<and> 0 \<in> set (tp_sends s)
          then transport_callback (tsx_world default_timers 1) 0 5
                 (s\<lparr>tp_sends := remove1 0 (tp_sends s)\<rparr>)
          else s)\<rparr>"

lemma terminated_twice:
  "tsx_logs (run_tsx [Transport_Cb 0 5] waiting_call) = tsx_logs waiting_call @
     [Log_Send 0, Log_Tsx_State PJSIP_TSX_STATE_TERMINATED PJSIP_TSX_STATE_TERMINATED]"
  by code_simp

lemma back_from_destroyed:
  "hist (tsx_run completes_late In_User (fire Timeout_Timer) waiting_call) = hist waiting_call @
     [PJSIP_TSX_STATE_DESTROYED, PJSIP_TSX_STATE_TERMINATED]"
  by code_simp

end
