(* ===== verification/Pjsip_Tsx_Props.thy ===== *)
theory Pjsip_Tsx_Props
  imports Pjsip_Tsx_Refs Pjsip_Tsx_Live Pjsip_Tsx_Demo
begin

text \<open>
  The properties of SIP transactions, over every transaction that can be reached from a fresh one
  by actions of the transaction user, the network, the timers and the transport layer.
\<close>

section \<open>Reachable transactions\<close>

inductive tsx_reachable :: "tsx_config \<Rightarrow> tsx \<Rightarrow> bool" for g where
  fresh_uac: "0 \<le> refs \<Longrightarrow> tsx_reachable g (tsx_new_uac user store script refs m cs x rel)"
| fresh_uas: "0 \<le> refs \<Longrightarrow> tsx_reachable g (tsx_new_uas user store script refs m cs tp rel down)"
| action: "tsx_reachable g s \<Longrightarrow> tsx_reachable g (tsx_step (tsx_world g n) In_User a s)"

lemma reachable_run: "tsx_reachable g s \<Longrightarrow> tsx_reachable g (tsx_run (tsx_world g n) In_User acts s)"
proof (induction acts arbitrary: s)
  case (Cons a acts)
  from Cons.IH [OF action [OF Cons.prems]] show ?case by (simp add: tsx_run_def)
qed (simp add: tsx_run_def)

lemma fresh_fields:
  "held (tsx_new_uac user store script refs m cs x rel) = 0"
  "held (tsx_new_uas user store script refs m cs tp rel down) = 0"
  "state (tsx_new_uac user store script refs m cs x rel) = PJSIP_TSX_STATE_NULL"
  "state (tsx_new_uas user store script refs m cs tp rel down) = PJSIP_TSX_STATE_NULL"
  by (simp_all add: tsx_new_uac_def tsx_new_uas_def register_tsx_def tsx_init_uac_def tsx_init_uas_def
      tsx_create_def pjsip_tx_data_add_ref_def Let_def)

lemma reachable_ok: "tsx_reachable g s \<Longrightarrow> tsx_ok s \<and> settled s \<and> held s = 0"
proof (induction rule: tsx_reachable.induct)
  case (action s n a)
  then have "keeps s (tsx_step (tsx_world g n) In_User a s)"
    using world.user_action_keeps keeps_refl by (simp add: tsx_step_def)
  with action.IH show ?case by (simp add: keeps_def tsx_evolves_def tsx_grows_def)
qed (simp_all add: tsx_new_uac_ok tsx_new_uas_ok fresh_fields settled_def)




lemma demo_reachable:
  "tsx_reachable default_timers (run_tsx acts (invite_uac script))"
  "tsx_reachable default_timers (run_tsx acts (invite_uas script))"
  unfolding run_tsx_def invite_uac_def invite_uas_def
  by (rule reachable_run, (rule fresh_uac fresh_uas), simp)+

lemma run_tsx_append: "run_tsx bs (run_tsx as s) = run_tsx (as @ bs) s"
  by (simp add: run_tsx_def tsx_run_def)

lemma demo_calls_reachable:
  "tsx_reachable default_timers refused_server" "tsx_reachable default_timers waiting_call"
  "tsx_reachable default_timers (run_tsx (fire Timeout_Timer) answered_call)"
  unfolding refused_server_def waiting_call_def answered_call_def run_tsx_append
  by (rule demo_reachable)+

section \<open>The state machine\<close>




text \<open>C33: The state handler of a transaction is always the entry of its role's table for its
  state, it is never the null pointer both tables contain, and the states fit the role and the
  method, which are the assertions at the head of the handlers.\<close>

theorem tsx_handler_typed:
  assumes "tsx_reachable g s"
  shows "state_handler s = (if role s = PJSIP_ROLE_UAC then tsx_state_handler_uac (state s)
      else tsx_state_handler_uas (state s)) \<and> state_handler s \<noteq> None \<and>
    state_typed (role s) (meth s) (state s)"
  using reachable_ok [OF assms] handler_typed [of "role s" "meth s" "state s"]
  by (simp add: tsx_ok_def handler_table_def)

theorem tsx_handler_typed_witness:
  "state refused_server = PJSIP_TSX_STATE_CONFIRMED \<and> state_handler refused_server \<noteq> None \<and>
   meth refused_server = PJSIP_INVITE_METHOD"
  using tsx_handler_typed [OF demo_calls_reachable(1)] refused_server_run
  by (cases "role refused_server") (simp_all add: state_typed_def)





section \<open>The end of a transaction\<close>

context tsx_environment
begin

text \<open>The timer of a transaction that has had its final response ends it.\<close>

lemma timeout_progress:
  assumes ok: "tsx_ok s" and r: "resting s" and t: "ends_tsx (timeout_timer s)"
  shows "PJSIP_TSX_STATE_TERMINATED \<le> state (tsx_timer_callback e Timeout_Timer s)"
    "state s = PJSIP_TSX_STATE_TERMINATED \<Longrightarrow>
       state (tsx_timer_callback e Timeout_Timer s) = PJSIP_TSX_STATE_DESTROYED"
proof -
  let ?c = "tsx_grp_lock_acquire (clear_tid Timeout_Timer s)"
  have v: "tsx_view (clear_tid Timeout_Timer s) = tsx_view s" by simp
  have okc: "tsx_ok ?c" "0 < held ?c" using ok tsx_ok_view [OF v] by simp_all
  have f: "role ?c = role s" "meth ?c = meth s" "state ?c = state s" "state_handler ?c = state_handler s"
    using tsx_view_fields [OF v] by simp_all
  have eq: "state (tsx_timer_callback e Timeout_Timer s) =
      state (snd (call_handler e (Event_Timer Timeout_Timer) ?c))"
    using r t by (cases "call_handler e (Event_Timer Timeout_Timer) ?c")
      (auto simp: tsx_timer_callback_def Let_def ends_tsx_def resting_def locked_handler_def)
  have h: "state_handler s = handler_table (role s) (state s)" using ok by (simp add: tsx_ok_def)
  show destroyed: "state (tsx_timer_callback e Timeout_Timer s) = PJSIP_TSX_STATE_DESTROYED"
    if st: "state s = PJSIP_TSX_STATE_TERMINATED"
    unfolding eq using set_state_destroyed(3) [OF okc(1), of "Src_Timer Timeout_Timer" flags_none] f h st okc(2)
    by (cases "role s") (simp_all add: call_handler_def handler_table_def tsx_on_state_terminated_def)
  have tm: "PJSIP_TSX_STATE_TERMINATED \<le>
      state (tsx_set_state e PJSIP_TSX_STATE_TERMINATED (Src_Timer Timeout_Timer) flags_none u)"
    if u: "tsx_view u = tsx_view ?c" "state s < PJSIP_TSX_STATE_TERMINATED" for u
  proof -
    have "tsx_ok u" "0 < held u" "tsx_edge (role u) (meth u) (state u) PJSIP_TSX_STATE_TERMINATED"
      using okc tsx_ok_view [OF u(1)] tsx_view_fields [OF u(1)] f u(2) by (auto intro: terminated)
    then show ?thesis using set_state_changed by blast
  qed
  show "PJSIP_TSX_STATE_TERMINATED \<le> state (tsx_timer_callback e Timeout_Timer s)"
  proof (cases "state s = PJSIP_TSX_STATE_TERMINATED")
    case True
    then show ?thesis using destroyed by simp
  next
    case False
    then have lt: "state s < PJSIP_TSX_STATE_TERMINATED" using r by (auto simp: resting_def state_order)
    show ?thesis
      unfolding eq using tm [OF _ lt] f h False r
      by (cases "role s"; cases "state s")
        (simp_all add: resting_def call_handler_def handler_table_def tsx_on_state_completed_uac_def
          tsx_on_state_completed_uas_def tsx_on_state_confirmed_def)
  qed
qed

end







section \<open>Retransmission\<close>




end
