(* ===== verification/Pjsip_Tsx_Key.thy ===== *)
theory Pjsip_Tsx_Key
  imports Pjsip_Tsx Pj_Hash_Spec "HOL-Library.Monad_Syntax"
begin

text \<open>
  The keys of the transaction table (\<^verbatim>\<open>create_tsx_key_2543\<close>, \<^verbatim>\<open>create_tsx_key_3261\<close>,
  \<^verbatim>\<open>pjsip_tsx_create_key\<close> of \<^verbatim>\<open>sip_transaction.c\<close>), with the conversion of numbers from \<^verbatim>\<open>string.c\<close>.
  A key is written into a buffer of computed size; \<open>None\<close> stands for a write outside of it and for
  a null pointer that is followed. The keys are shown to fit, and two messages are shown to have
  the same key, up to the case of letters, exactly when they belong to the same transaction.
\<close>

section \<open>Messages\<close>

record pjsip_method =
  mth_id :: pjsip_method_e
  mth_name :: "u8 list"

record pjsip_via_hdr =
  via_host :: "u8 list"
  via_port :: int
  via_branch :: "u8 list"

record pjsip_cseq_hdr =
  cseq_num :: int
  cseq_meth :: pjsip_method

text \<open>What \<^verbatim>\<open>rdata->msg_info\<close> holds of a received message; \<open>rx_line\<close> is the method of the request
  line, or nothing for a response, whose code is \<open>rx_code\<close>.\<close>

record pjsip_rx_data =
  rx_line :: "pjsip_method option"
  rx_code :: int
  rx_via :: "pjsip_via_hdr option"
  rx_cseq :: "pjsip_cseq_hdr option"
  rx_from_tag :: "u8 list option"
  rx_to_tag :: "u8 list"
  rx_cid :: "u8 list option"

definition PJSIP_EMISSINGHDR :: pj_status_t where "PJSIP_EMISSINGHDR = PJSIP_ERRNO_START_PJSIP + 50"

definition SEPARATOR :: u8 where "SEPARATOR = 36"

definition PJSIP_RFC3261_BRANCH_ID :: "u8 list" where
  "PJSIP_RFC3261_BRANCH_ID = [122, 57, 104, 71, 52, 98, 75]"

section \<open>Writing a key\<close>

text \<open>A buffer: its size and what has been written so far.\<close>

type_synonym key_buf = "nat \<times> u8 list"

definition key_put :: "u8 list \<Rightarrow> key_buf \<Rightarrow> key_buf option" where
  "key_put bs w =
     (if length (snd w) + length bs \<le> fst w then Some (fst w, snd w @ bs) else None)"

text \<open>The digits in the order of the first loop of \<^verbatim>\<open>pj_utoa_pad\<close>, least significant first.\<close>

fun utoa_digits :: "nat \<Rightarrow> u8 list" where
  "utoa_digits val =
     of_nat (val mod 10 + 48) # (if val div 10 > 0 then utoa_digits (val div 10) else [])"

declare utoa_digits.simps [simp del]

text \<open>The padding and the reversal in place.\<close>

definition pj_utoa_pad :: "nat \<Rightarrow> nat \<Rightarrow> u8 \<Rightarrow> u8 list" where
  "pj_utoa_pad val min_dig pad =
     (let ds = utoa_digits val in rev (ds @ replicate (min_dig - length ds) pad))"

text \<open>\<^verbatim>\<open>pj_utoa\<close> also writes a terminator, which the next write replaces. Its argument is a signed
  number converted to 32 bits.\<close>

definition pj_utoa :: "int \<Rightarrow> u8 list" where
  "pj_utoa v = pj_utoa_pad (nat (v mod 2 ^ 32)) 0 0"

definition key_put_num :: "int \<Rightarrow> key_buf \<Rightarrow> key_buf option" where
  "key_put_num v w = do { _ \<leftarrow> key_put (pj_utoa v @ [0]) w; key_put (pj_utoa v) w }"

definition key_put_role :: "pjsip_role_e \<Rightarrow> pjsip_method \<Rightarrow> key_buf \<Rightarrow> key_buf option" where
  "key_put_role r mt w = do {
     w \<leftarrow> key_put [if r = PJSIP_ROLE_UAC then 99 else 115] w;
     w \<leftarrow> key_put [SEPARATOR] w;
     if mth_id mt \<noteq> PJSIP_INVITE_METHOD \<and> mth_id mt \<noteq> PJSIP_ACK_METHOD
     then do { w \<leftarrow> key_put (mth_name mt) w; key_put [SEPARATOR] w }
     else Some w }"

text \<open>The result: nothing for undefined behaviour, otherwise a status or the key.\<close>

type_synonym key_result = "(pj_status_t + u8 list) option"

definition create_tsx_key_2543 ::
  "pjsip_role_e \<Rightarrow> pjsip_method \<Rightarrow> pjsip_rx_data \<Rightarrow> bool \<Rightarrow> key_result" where
  "create_tsx_key_2543 r mt rd include_via =
     (case (rx_via rd, rx_cseq rd, rx_from_tag rd) of
        (Some via, Some cs, Some tag) \<Rightarrow> do {
          cid \<leftarrow> rx_cid rd;
          let len_required = length (mth_name mt) + 11 + length tag + length cid + 16 +
                (if include_via then length (via_host via) + 11 else 0);
          w \<leftarrow> key_put_role r mt (len_required, []);
          w \<leftarrow> key_put_num (cseq_num cs) w;
          w \<leftarrow> key_put [SEPARATOR] w;
          w \<leftarrow> key_put tag w;
          w \<leftarrow> key_put [SEPARATOR] w;
          w \<leftarrow> key_put cid w;
          w \<leftarrow> key_put [SEPARATOR] w;
          w \<leftarrow> (if include_via then do {
                  w \<leftarrow> key_put (via_host via) w;
                  w \<leftarrow> key_put [58] w;
                  w \<leftarrow> key_put_num (via_port via) w;
                  key_put [SEPARATOR] w }
                else Some w);
          w \<leftarrow> key_put [0] w;
          Some (Inr (snd w)) }
      | _ \<Rightarrow> Some (Inl PJSIP_EMISSINGHDR))"

definition create_tsx_key_3261 :: "pjsip_role_e \<Rightarrow> pjsip_method \<Rightarrow> u8 list \<Rightarrow> key_result" where
  "create_tsx_key_3261 r mt branch = do {
     w \<leftarrow> key_put_role r mt (length branch + length (mth_name mt) + 4, []);
     w \<leftarrow> key_put branch w;
     Some (Inr (snd w)) }"

text \<open>\<^verbatim>\<open>pj_strnicmp\<close> with the length of the second string, whether it returns zero.\<close>

definition is_rfc3261_branch :: "u8 list \<Rightarrow> bool" where
  "is_rfc3261_branch branch \<longleftrightarrow> length PJSIP_RFC3261_BRANCH_ID \<le> length branch \<and>
     strnicmp_eq (length PJSIP_RFC3261_BRANCH_ID) branch PJSIP_RFC3261_BRANCH_ID"

definition pjsip_tsx_create_key ::
  "pjsip_role_e \<Rightarrow> pjsip_method \<Rightarrow> pjsip_rx_data \<Rightarrow> key_result" where
  "pjsip_tsx_create_key r mt rd = do {
     via \<leftarrow> rx_via rd;
     if is_rfc3261_branch (via_branch via)
     then create_tsx_key_3261 r mt (via_branch via)
     else create_tsx_key_2543 r mt rd True }"

section \<open>The keys fit their buffers\<close>

lemma utoa_digits_length: "val < 10 ^ Suc n \<Longrightarrow> length (utoa_digits val) \<le> Suc n"
proof (induction n arbitrary: val)
  case (Suc n)
  then have "val div 10 < 10 ^ Suc n" by (simp add: div_less_iff_less_mult mult.commute)
  with Suc.IH [OF this] show ?case by (subst utoa_digits.simps) simp
qed (subst utoa_digits.simps, simp)

lemma pj_utoa_rev: "pj_utoa v = rev (utoa_digits (nat (v mod 2 ^ 32)))"
  by (simp add: pj_utoa_def pj_utoa_pad_def Let_def)

lemma pj_utoa_length: "length (pj_utoa v) \<le> 10"
proof -
  have "v mod 2 ^ 32 < 4294967296" by simp
  then have "nat (v mod 2 ^ 32) < 10 ^ Suc 9" by simp
  from utoa_digits_length [OF this] show ?thesis by (simp add: pj_utoa_rev)
qed

text \<open>A key consists of the role and of fields that each end with the separator, and a rest.\<close>

fun join :: "u8 list list \<Rightarrow> u8 list" where
  "join [] = []"
| "join (x # xs) = x @ SEPARATOR # join xs"

definition method_fields :: "pjsip_method \<Rightarrow> u8 list list" where
  "method_fields mt =
     (if mth_id mt \<noteq> PJSIP_INVITE_METHOD \<and> mth_id mt \<noteq> PJSIP_ACK_METHOD then [mth_name mt] else [])"

definition key_prefix :: "pjsip_role_e \<Rightarrow> pjsip_method \<Rightarrow> u8 list" where
  "key_prefix r mt = [if r = PJSIP_ROLE_UAC then 99 else 115, SEPARATOR] @ join (method_fields mt)"

definition key_3261 :: "pjsip_role_e \<Rightarrow> pjsip_method \<Rightarrow> u8 list \<Rightarrow> u8 list" where
  "key_3261 r mt branch = key_prefix r mt @ branch"

definition via_fields :: "pjsip_via_hdr option \<Rightarrow> u8 list list" where
  "via_fields via = (case via of Some v \<Rightarrow> [via_host v @ 58 # pj_utoa (via_port v)] | None \<Rightarrow> [])"

definition key_2543 ::
  "pjsip_role_e \<Rightarrow> pjsip_method \<Rightarrow> int \<Rightarrow> u8 list \<Rightarrow> u8 list \<Rightarrow> pjsip_via_hdr option \<Rightarrow> u8 list" where
  "key_2543 r mt cs tag cid via =
     key_prefix r mt @ join ([pj_utoa cs, tag, cid] @ via_fields via) @ [0]"

lemma key_put_fits [simp]:
  "length out + length bs \<le> n \<Longrightarrow> key_put bs (n, out) = Some (n, out @ bs)"
  by (simp add: key_put_def)

lemma key_put_num_fits [simp]:
  "length out + 11 \<le> n \<Longrightarrow> key_put_num v (n, out) = Some (n, out @ pj_utoa v)"
  using pj_utoa_length [of v] by (simp add: key_put_num_def)

lemma key_put_role_fits:
  "length out + length (mth_name mt) + 3 \<le> n \<Longrightarrow>
     key_put_role r mt (n, out) = Some (n, out @ key_prefix r mt)"
  by (simp add: key_put_role_def key_prefix_def method_fields_def)

lemma key_prefix_length: "length (key_prefix r mt) \<le> length (mth_name mt) + 3"
  by (simp add: key_prefix_def method_fields_def)

lemma create_key_3261_eq: "create_tsx_key_3261 r mt branch = Some (Inr (key_3261 r mt branch))"
  using key_prefix_length [of r mt]
  by (simp add: create_tsx_key_3261_def key_put_role_fits key_3261_def)

lemma create_key_2543_eq:
  assumes "rx_via rd = Some via" "rx_cseq rd = Some cs" "rx_from_tag rd = Some tag" "rx_cid rd = Some cid"
  shows "create_tsx_key_2543 r mt rd b =
    Some (Inr (key_2543 r mt (cseq_num cs) tag cid (if b then Some via else None)))"
  using key_prefix_length [of r mt] pj_utoa_length [of "cseq_num cs"] pj_utoa_length [of "via_port via"] assms
  by (cases b) (simp_all add: create_tsx_key_2543_def key_put_role_fits key_2543_def via_fields_def Let_def)

section \<open>When two keys are equal\<close>

lemma utoa_digits_inj: "utoa_digits a = utoa_digits b \<Longrightarrow> a = b"
proof (induction a arbitrary: b rule: less_induct)
  case (less a)
  have d: "(of_nat (x + 48) :: u8) = of_nat (y + 48) \<Longrightarrow> x = y" if "x < 10" "y < 10" for x y
    using that by (simp add: word_of_nat_eq_iff take_bit_eq_mod)
  from less.prems have h: "a mod 10 = b mod 10" and
    t: "(if a div 10 > 0 then utoa_digits (a div 10) else []) = (if b div 10 > 0 then utoa_digits (b div 10) else [])"
    by (subst (asm) (1 2) utoa_digits.simps; auto intro: d)+
  have ne: "utoa_digits n \<noteq> []" for n by (subst utoa_digits.simps) simp
  have "a div 10 = b div 10"
    using t ne ne [symmetric] less.IH [of "a div 10" "b div 10"] by (auto split: if_splits)
  with h show ?case by (metis div_mult_mod_eq)
qed

lemma utoa_digits_set: "c \<in> set (utoa_digits v) \<Longrightarrow> pj_isdigit c"
proof (induction v rule: utoa_digits.induct)
  case (1 v)
  have "pj_isdigit (of_nat (v mod 10 + 48))"
    unfolding pj_isdigit_def word_le_nat_alt unat_of_nat by simp
  with 1 show ?case by (subst (asm) utoa_digits.simps) (auto split: if_splits)
qed

lemma pj_utoa_inj: "pj_utoa a = pj_utoa b \<longleftrightarrow> a mod 2 ^ 32 = b mod 2 ^ 32"
proof
  assume "pj_utoa a = pj_utoa b"
  then have "nat (a mod 2 ^ 32) = nat (b mod 2 ^ 32)" using utoa_digits_inj by (simp add: pj_utoa_rev)
  then show "a mod 2 ^ 32 = b mod 2 ^ 32" by (simp add: eq_nat_nat_iff)
qed (simp add: pj_utoa_rev)

text \<open>The case of letters is no matter for the separators and digits.\<close>

abbreviation lower :: "u8 list \<Rightarrow> u8 list" where "lower \<equiv> norm_key True"

lemma lower_fixed:
  "sip_char True c = SEPARATOR \<longleftrightarrow> c = SEPARATOR" "sip_char True c = 58 \<longleftrightarrow> c = 58"
  "sip_char True c = 0 \<longleftrightarrow> c = 0" "pj_isdigit c \<Longrightarrow> sip_char True c = c"
proof -
  have up: "c + 32 = k \<Longrightarrow> pj_isupper c \<Longrightarrow> 65 \<le> k - 32 \<and> k - 32 \<le> 90" for k
    by (auto simp: pj_isupper_def)
  show "sip_char True c = SEPARATOR \<longleftrightarrow> c = SEPARATOR" "sip_char True c = 58 \<longleftrightarrow> c = 58"
    "sip_char True c = 0 \<longleftrightarrow> c = 0"
    using up [of 36] up [of 58] up [of 0]
    by (auto simp: sip_char_def pj_tolower_def SEPARATOR_def pj_isupper_def)
  assume "pj_isdigit c"
  then have "\<not> pj_isupper c" using order_trans [of 65 c 57] by (auto simp: pj_isdigit_def pj_isupper_def)
  then show "sip_char True c = c" by (simp add: sip_char_def pj_tolower_def)
qed

lemma lower_sep [simp]: "SEPARATOR = sip_char True c \<longleftrightarrow> c = SEPARATOR"
  using lower_fixed(1) [of c] by auto

lemma lower_in [simp]:
  "SEPARATOR \<in> sip_char True ` A \<longleftrightarrow> SEPARATOR \<in> A" "58 \<in> sip_char True ` A \<longleftrightarrow> 58 \<in> A"
  "0 \<in> sip_char True ` A \<longleftrightarrow> 0 \<in> A"
  by (auto simp: lower_fixed image_iff)

lemma lower_consts [simp]:
  "sip_char True SEPARATOR = SEPARATOR" "sip_char True 58 = 58" "sip_char True 0 = 0"
  by (simp_all add: lower_fixed)

lemma lower_utoa [simp]: "lower (pj_utoa v) = pj_utoa v"
  by (rule map_idI) (auto simp: pj_utoa_rev dest!: utoa_digits_set lower_fixed(4))

lemma utoa_free [simp]: "SEPARATOR \<notin> set (pj_utoa v)" "58 \<notin> set (pj_utoa v)" "0 \<notin> set (pj_utoa v)"
  by (auto simp: pj_utoa_rev pj_isdigit_def SEPARATOR_def dest!: utoa_digits_set)

lemma split_first:
  "c \<notin> set a \<Longrightarrow> c \<notin> set a' \<Longrightarrow> a @ c # b = a' @ c # b' \<longleftrightarrow> a = a' \<and> b = b'"
proof (induction a arbitrary: a')
  case Nil
  then show ?case by (cases a') auto
next
  case (Cons x a)
  then show ?case by (cases a') auto
qed

lemma split_last:
  "c \<notin> set b \<Longrightarrow> c \<notin> set b' \<Longrightarrow> a @ c # b = a' @ c # b' \<longleftrightarrow> a = a' \<and> b = b'"
  using split_first [of c "rev b" "rev b'" "rev a" "rev a'"] by (metis rev.simps(2) rev_append rev_rev_ident append.assoc append_Cons append_Nil set_rev)


lemma join_append: "join (xs @ ys) = join xs @ join ys"
  by (induction xs) simp_all

lemma lower_join: "lower (join xs) = join (map lower xs)"
  by (induction xs) simp_all

lemma join_eq:
  assumes "\<And>x. x \<in> set xs \<union> set ys \<Longrightarrow> SEPARATOR \<notin> set x" "SEPARATOR \<notin> set t" "SEPARATOR \<notin> set u"
  shows "join xs @ t = join ys @ u \<longleftrightarrow> xs = ys \<and> t = u"
  using assms(1)
proof (induction xs arbitrary: ys)
  case Nil
  show ?case using assms(2) by (cases ys) auto
next
  case (Cons x xs)
  show ?case
  proof (cases ys)
    case Nil
    then show ?thesis using assms(3) by auto
  next
    case (Cons y zs)
    have "SEPARATOR \<notin> set x" "SEPARATOR \<notin> set y" using Cons.prems Cons by auto
    moreover have "join xs @ t = join zs @ u \<longleftrightarrow> xs = zs \<and> t = u"
      using Cons.prems Cons by (intro Cons.IH) auto
    ultimately show ?thesis by (simp add: Cons split_first)
  qed
qed

text \<open>The parts of a parsed message hold neither separators nor terminators, and are no longer than a
  packet.\<close>

definition key_free :: "u8 list \<Rightarrow> bool" where
  "key_free k \<longleftrightarrow> SEPARATOR \<notin> set k \<and> 0 \<notin> set k \<and> length k < 65536"

definition rx_wf :: "pjsip_rx_data \<Rightarrow> bool" where
  "rx_wf rd \<longleftrightarrow> (case (rx_via rd, rx_cseq rd, rx_from_tag rd, rx_cid rd) of
     (Some via, Some cs, Some tag, Some cid) \<Rightarrow>
       key_free (via_host via) \<and> key_free (via_branch via) \<and> key_free tag \<and> key_free cid \<and>
       0 \<le> via_port via \<and> via_port via < 65536 \<and> 0 \<le> cseq_num cs \<and> cseq_num cs < 2 ^ 31 \<and>
       key_free (mth_name (cseq_meth cs))
   | _ \<Rightarrow> False)"

text \<open>When two methods and two messages belong to one transaction: INVITE and ACK count as the same
  method, and messages are matched by the branch of RFC 3261 or else by their headers.\<close>

definition same_method :: "pjsip_method \<Rightarrow> pjsip_method \<Rightarrow> bool" where
  "same_method mt mt' \<longleftrightarrow> map lower (method_fields mt) = map lower (method_fields mt')"

definition same_call :: "pjsip_rx_data \<Rightarrow> pjsip_rx_data \<Rightarrow> bool" where
  "same_call rd rd' \<longleftrightarrow>
     cseq_num (the (rx_cseq rd)) = cseq_num (the (rx_cseq rd')) \<and>
     lower (the (rx_from_tag rd)) = lower (the (rx_from_tag rd')) \<and>
     lower (the (rx_cid rd)) = lower (the (rx_cid rd'))"

definition same_message :: "pjsip_rx_data \<Rightarrow> pjsip_rx_data \<Rightarrow> bool" where
  "same_message rd rd' \<longleftrightarrow>
     (let v = the (rx_via rd); v' = the (rx_via rd')
      in if is_rfc3261_branch (via_branch v) \<or> is_rfc3261_branch (via_branch v')
         then lower (via_branch v) = lower (via_branch v')
         else same_call rd rd' \<and> lower (via_host v) = lower (via_host v') \<and> via_port v = via_port v')"

lemma rx_wfE:
  assumes "rx_wf rd"
  obtains via cs tag cid where "rx_via rd = Some via" "rx_cseq rd = Some cs" "rx_from_tag rd = Some tag"
    "rx_cid rd = Some cid" "key_free (via_host via)" "key_free (via_branch via)" "key_free tag" "key_free cid"
    "0 \<le> via_port via" "via_port via < 65536" "0 \<le> cseq_num cs" "cseq_num cs < 2 ^ 31"
  using assms by (auto simp: rx_wf_def split: option.splits)

lemma rfc3261_lower:
  "is_rfc3261_branch b \<longleftrightarrow> 7 \<le> length b \<and> take 7 (lower b) = lower PJSIP_RFC3261_BRANCH_ID"
proof -
  have n: "length PJSIP_RFC3261_BRANCH_ID = 7" "0 \<notin> set PJSIP_RFC3261_BRANCH_ID" by code_simp+
  have zero: "pj_tolower x = pj_tolower y \<Longrightarrow> x = 0 \<longleftrightarrow> y = 0" for x y by (metis tolower_zero_iff)
  have sym: "strnicmp_eq n x y = strnicmp_eq n y x" for n x y
  proof (induction n x y rule: strnicmp_eq.induct)
    case (2 n x a y b)
    then show ?case using zero [of x y] by auto
  qed simp_all
  have "sip_char True = pj_tolower" by (simp add: sip_char_def fun_eq_iff)
  moreover have "0 \<notin> set (butlast PJSIP_RFC3261_BRANCH_ID)" using n(2) in_set_butlastD by fast
  ultimately have "strnicmp_eq 7 PJSIP_RFC3261_BRANCH_ID b \<longleftrightarrow> lower PJSIP_RFC3261_BRANCH_ID = lower (take 7 b)"
    if "7 \<le> length b" using strnicmp_eq_iff [of PJSIP_RFC3261_BRANCH_ID b] that n(1) by simp
  then show ?thesis unfolding is_rfc3261_branch_def n(1) sym [of 7 b] by (auto simp: take_map)
qed

lemma rfc3261_cong: "lower b = lower b' \<Longrightarrow> is_rfc3261_branch b = is_rfc3261_branch b'"
  unfolding rfc3261_lower by (metis length_map)

lemma key_eq:
  assumes "\<And>x. x \<in> set (method_fields mt @ xs) \<union> set (method_fields mt' @ ys) \<Longrightarrow> SEPARATOR \<notin> set x"
    "SEPARATOR \<notin> set t" "SEPARATOR \<notin> set u"
  shows "lower (key_prefix r mt @ join xs @ t) = lower (key_prefix r' mt' @ join ys @ u) \<longleftrightarrow>
    r = r' \<and> map lower (method_fields mt @ xs) = map lower (method_fields mt' @ ys) \<and> lower t = lower u"
proof -
  have role: "sip_char True 99 = 99" "sip_char True 115 = 115" by code_simp+
  have "lower (key_prefix r mt @ join xs @ t) =
      [if r = PJSIP_ROLE_UAC then 99 else 115, SEPARATOR] @ join (map lower (method_fields mt @ xs)) @ lower t"
    for r mt xs t by (simp add: key_prefix_def role join_append lower_join)
  moreover have "join (map lower (method_fields mt @ xs)) @ lower t = join (map lower (method_fields mt' @ ys)) @ lower u \<longleftrightarrow>
      map lower (method_fields mt @ xs) = map lower (method_fields mt' @ ys) \<and> lower t = lower u"
    using assms by (intro join_eq) auto
  ultimately show ?thesis by (cases r; cases r') (simp_all del: map_append)
qed

lemma same_fields:
  "length xs = length ys \<Longrightarrow>
     map lower (method_fields mt @ xs) = map lower (method_fields mt' @ ys) \<longleftrightarrow>
     same_method mt mt' \<and> map lower xs = map lower ys"
  by (simp add: same_method_def)

lemma method_free: "key_free (mth_name mt) \<Longrightarrow> x \<in> set (method_fields mt) \<Longrightarrow> SEPARATOR \<notin> set x"
  by (auto simp: method_fields_def key_free_def split: if_splits)

lemma key_3261_eq:
  assumes "key_free (mth_name mt)" "key_free (mth_name mt')" "key_free b" "key_free b'"
  shows "lower (key_3261 r mt b) = lower (key_3261 r' mt' b') \<longleftrightarrow>
    r = r' \<and> same_method mt mt' \<and> lower b = lower b'"
  using key_eq [of mt "[]" mt' "[]" b b' r r'] assms method_free
  by (auto simp: key_3261_def key_free_def same_method_def simp del: map_append)

lemma via_field_free: "key_free (via_host v) \<Longrightarrow> SEPARATOR \<notin> set (via_host v @ 58 # pj_utoa (via_port v))"
  by (simp add: key_free_def) (simp add: SEPARATOR_def)

lemma key_2543_eq:
  assumes "key_free (mth_name mt)" "key_free (mth_name mt')" "key_free tag" "key_free tag'" "key_free cid" "key_free cid'"
    "key_free (via_host v)" "key_free (via_host v')"
  shows "lower (key_2543 r mt cs tag cid (Some v)) = lower (key_2543 r' mt' cs' tag' cid' (Some v')) \<longleftrightarrow>
    r = r' \<and> same_method mt mt' \<and> cs mod 2 ^ 32 = cs' mod 2 ^ 32 \<and> lower tag = lower tag' \<and> lower cid = lower cid' \<and>
    lower (via_host v) = lower (via_host v') \<and> via_port v mod 2 ^ 32 = via_port v' mod 2 ^ 32"
proof -
  let ?f = "\<lambda>cs tag cid v. [pj_utoa cs, tag, cid] @ via_fields (Some v)"
  have free: "SEPARATOR \<notin> set x" if "x \<in> set (method_fields mt @ ?f cs tag cid v) \<union> set (method_fields mt' @ ?f cs' tag' cid' v')" for x
    using that assms method_free [of mt x] method_free [of mt' x] via_field_free [of v] via_field_free [of v']
    by (auto simp: key_free_def via_fields_def)
  have z: "SEPARATOR \<notin> set [0]" by (simp add: SEPARATOR_def)
  have "lower (key_2543 r mt cs tag cid (Some v)) = lower (key_2543 r' mt' cs' tag' cid' (Some v')) \<longleftrightarrow>
      r = r' \<and> map lower (method_fields mt @ ?f cs tag cid v) = map lower (method_fields mt' @ ?f cs' tag' cid' v')"
    unfolding key_2543_def using key_eq [where r = r and r' = r', OF free z z] by (simp only: simp_thms)
  also have "map lower (method_fields mt @ ?f cs tag cid v) = map lower (method_fields mt' @ ?f cs' tag' cid' v') \<longleftrightarrow>
      same_method mt mt' \<and> map lower (?f cs tag cid v) = map lower (?f cs' tag' cid' v')"
    by (rule same_fields) (simp add: via_fields_def)
  finally show ?thesis by (simp add: via_fields_def pj_utoa_inj split_last)
qed

section \<open>Properties\<close>

text \<open>What a key looks like, and that the table accepts it: a terminator is only at its end.\<close>

definition key_of_rx :: "pjsip_role_e \<Rightarrow> pjsip_method \<Rightarrow> pjsip_rx_data \<Rightarrow> u8 list" where
  "key_of_rx r mt rd =
     (let v = the (rx_via rd)
      in if is_rfc3261_branch (via_branch v) then key_3261 r mt (via_branch v)
         else key_2543 r mt (cseq_num (the (rx_cseq rd))) (the (rx_from_tag rd)) (the (rx_cid rd)) (Some v))"

lemma create_key_eq:
  assumes "rx_wf rd"
  shows "pjsip_tsx_create_key r mt rd = Some (Inr (key_of_rx r mt rd))"
  using assms
  by (rule rx_wfE) (simp add: pjsip_tsx_create_key_def key_of_rx_def Let_def create_key_3261_eq create_key_2543_eq)

lemma prefix_zero: "key_free (mth_name mt) \<Longrightarrow> 0 \<notin> set (key_prefix r mt)"
  by (auto simp: key_prefix_def method_fields_def key_free_def SEPARATOR_def)

lemma key_3261_zero: "key_free (mth_name mt) \<Longrightarrow> key_free b \<Longrightarrow> 0 \<notin> set (key_3261 r mt b)"
  using prefix_zero by (simp add: key_3261_def key_free_def)

lemma key_2543_zero:
  assumes "key_free (mth_name mt)" "key_free tag" "key_free cid" "\<And>v. via = Some v \<Longrightarrow> key_free (via_host v)"
  shows "0 \<notin> set (butlast (key_2543 r mt cs tag cid via))"
  using assms prefix_zero [of mt r]
  by (cases via) (auto simp: key_2543_def via_fields_def key_free_def SEPARATOR_def butlast_append)

lemma key_of_rx_zero:
  assumes "rx_wf rd" "key_free (mth_name mt)"
  shows "0 \<notin> set (butlast (key_of_rx r mt rd))"
  using assms(1)
proof (rule rx_wfE)
  fix via cs tag cid
  assume h: "rx_via rd = Some via" "rx_cseq rd = Some cs" "rx_from_tag rd = Some tag" "rx_cid rd = Some cid"
    "key_free (via_host via)" "key_free (via_branch via)" "key_free tag" "key_free cid"
  show ?thesis
    using h key_3261_zero [OF assms(2) h(6), of r] key_2543_zero [OF assms(2) h(7,8), of "Some via" r]
    by (auto simp: key_of_rx_def Let_def dest: in_set_butlastD)
qed

text \<open>The two kinds of key differ in their last byte.\<close>

lemma keys_differ:
  assumes "key_free b" "b \<noteq> []"
  shows "lower (key_3261 q m b) \<noteq> lower (key_2543 q' m' c t i v)"
proof
  assume "lower (key_3261 q m b) = lower (key_2543 q' m' c t i v)"
  then have "last (lower (key_3261 q m b)) = last (lower (key_2543 q' m' c t i v))" by simp
  then have "sip_char True (last b) = 0" using assms(2) by (simp add: key_3261_def key_2543_def last_map)
  with assms show False by (simp add: lower_fixed key_free_def) (metis last_in_set)
qed

lemma key_of_rx_eq:
  assumes "rx_wf rd" "rx_wf rd'" "key_free (mth_name mt)" "key_free (mth_name mt')"
  shows "lower (key_of_rx r mt rd) = lower (key_of_rx r' mt' rd') \<longleftrightarrow>
    r = r' \<and> same_method mt mt' \<and> same_message rd rd'"
proof -
  obtain via cs tag cid where h: "rx_via rd = Some via" "rx_cseq rd = Some cs" "rx_from_tag rd = Some tag"
    "rx_cid rd = Some cid" "key_free (via_host via)" "key_free (via_branch via)" "key_free tag" "key_free cid"
    "0 \<le> via_port via" "via_port via < 65536" "0 \<le> cseq_num cs" "cseq_num cs < 2 ^ 31"
    using assms(1) by (rule rx_wfE)
  obtain via' cs' tag' cid' where h': "rx_via rd' = Some via'" "rx_cseq rd' = Some cs'" "rx_from_tag rd' = Some tag'"
    "rx_cid rd' = Some cid'" "key_free (via_host via')" "key_free (via_branch via')" "key_free tag'" "key_free cid'"
    "0 \<le> via_port via'" "via_port via' < 65536" "0 \<le> cseq_num cs'" "cseq_num cs' < 2 ^ 31"
    using assms(2) by (rule rx_wfE)
  let ?b = "is_rfc3261_branch (via_branch via)" and ?b' = "is_rfc3261_branch (via_branch via')"
  note defs = key_of_rx_def same_message_def same_call_def Let_def h(1-4) h'(1-4) option.sel
  have ne: "is_rfc3261_branch b \<Longrightarrow> b \<noteq> []" for b by (auto simp: rfc3261_lower)
  consider "?b" "?b'" | "?b" "\<not> ?b'" | "\<not> ?b" "?b'" | "\<not> ?b" "\<not> ?b'" by blast
  then show ?thesis
  proof cases
    case 1
    then show ?thesis using key_3261_eq [OF assms(3,4) h(6) h'(6)] by (simp add: defs)
  next
    case 2
    then show ?thesis using keys_differ [OF h(6) ne] rfc3261_cong [of "via_branch via" "via_branch via'"]
      by (auto simp: defs)
  next
    case 3
    then show ?thesis using keys_differ [OF h'(6) ne] rfc3261_cong [of "via_branch via" "via_branch via'"]
      by (auto simp: defs eq_commute [of "lower (key_2543 _ _ _ _ _ _)"])
  next
    case 4
    then show ?thesis using key_2543_eq [OF assms(3,4) h(7) h'(7) h(8) h'(8) h(5) h'(5)] h(9-) h'(9-)
      by (auto simp: defs)
  qed
qed

text \<open>What the hash table needs of a key.\<close>

definition table_key :: "u8 list \<Rightarrow> bool" where
  "table_key k \<longleftrightarrow> 0 \<notin> set (butlast k) \<and> length k < 2 ^ 20"

lemma table_key_ok:
  assumes "table_key k"
  shows "key_ok True k (of_nat (length k))" "key_of k (of_nat (length k)) = k"
proof -
  have n: "unat (of_nat (length k) :: u32) = length k"
    using assms by (simp add: table_key_def unat_of_nat)
  have "(of_nat (length k) :: u32) \<noteq> PJ_HASH_KEY_STRING"
  proof
    assume "(of_nat (length k) :: u32) = PJ_HASH_KEY_STRING"
    then have "of_nat (Suc (length k)) = (0 :: u32)" by (simp add: PJ_HASH_KEY_STRING_def)
    then have "2 ^ LENGTH(32) dvd Suc (length k)" by (simp only: word_of_nat_eq_0_iff)
    then have "2 ^ LENGTH(32) \<le> Suc (length k)" by (rule dvd_imp_le) simp
    then show False using assms by (simp add: table_key_def)
  qed
  then have l: "key_len k (of_nat (length k)) = of_nat (length k)" by (simp add: key_len_def)
  show "key_of k (of_nat (length k)) = k" by (simp add: key_of_def l n)
  then show "key_ok True k (of_nat (length k))" using assms by (simp add: key_ok_def l n table_key_def)
qed

lemma key_3261_table:
  assumes "key_free (mth_name mt)" "key_free b"
  shows "table_key (key_3261 r mt b)"
proof -
  have "length (key_3261 r mt b) < 2 ^ 20"
    using assms key_prefix_length [of r mt] by (simp add: key_3261_def key_free_def)
  then show ?thesis using key_3261_zero [OF assms, of r] by (auto simp: table_key_def dest: in_set_butlastD)
qed

lemma key_2543_table:
  assumes "key_free (mth_name mt)" "key_free tag" "key_free cid" "\<And>v. via = Some v \<Longrightarrow> key_free (via_host v)"
  shows "table_key (key_2543 r mt cs tag cid via)"
proof -
  have "length (join (via_fields via)) < 65560"
    using assms(4) pj_utoa_length [of "via_port (the via)"]
    by (cases via) (auto simp: via_fields_def key_free_def)
  then have "length (key_2543 r mt cs tag cid via) < 2 ^ 20"
    using assms(1-3) key_prefix_length [of r mt] pj_utoa_length [of cs]
    by (simp add: key_2543_def key_free_def)
  then show ?thesis using key_2543_zero [OF assms] by (simp add: table_key_def)
qed

lemma key_of_rx_table:
  assumes "rx_wf rd" "key_free (mth_name mt)"
  shows "table_key (key_of_rx r mt rd)"
  using assms(1)
proof (rule rx_wfE)
  fix via cs tag cid
  assume h: "rx_via rd = Some via" "rx_cseq rd = Some cs" "rx_from_tag rd = Some tag" "rx_cid rd = Some cid"
    "key_free (via_host via)" "key_free (via_branch via)" "key_free tag" "key_free cid"
  show ?thesis
    using h key_3261_table [OF assms(2) h(6)] key_2543_table [OF assms(2) h(7,8), of "Some via"]
    by (simp add: key_of_rx_def Let_def)
qed

text \<open>The first byte of a key is the role.\<close>

definition role_key :: "pjsip_role_e \<Rightarrow> u8 list \<Rightarrow> bool" where
  "role_key r k \<longleftrightarrow> k \<noteq> [] \<and> hd k = (if r = PJSIP_ROLE_UAC then 99 else 115)"

lemma key_of_rx_role: "role_key r (key_of_rx r mt rd)"
  by (simp add: role_key_def key_of_rx_def key_3261_def key_2543_def key_prefix_def Let_def)

lemma key_3261_role: "role_key r (key_3261 r mt b)"
  by (simp add: role_key_def key_3261_def key_prefix_def)

lemma role_key_lower:
  assumes "role_key r k" "role_key r' k'" "lower k = lower k'"
  shows "r = r'"
proof -
  have c: "sip_char True 99 = 99" "sip_char True 115 = 115" by code_simp+
  have "hd (lower k) = hd (lower k')" using assms(3) by simp
  then have "sip_char True (hd k) = sip_char True (hd k')" using assms(1,2) by (simp add: role_key_def hd_map)
  then show ?thesis using assms(1,2) c by (cases r; cases r') (auto simp: role_key_def)
qed

end
