(* ===== verification/Pjsip_Tsx_Layer.thy ===== *)
theory Pjsip_Tsx_Layer
  imports Pjsip_Tsx_Key Pjsip_Tsx_Run Pj_Hash_Props
begin

text \<open>
  The transaction layer of \<^verbatim>\<open>sip_transaction.c\<close>: the two hash tables of the module, registration,
  lookup, the dispatch of received messages, the detection of merged requests, the creation of
  transactions with all its checks, and the shutdown of the module. The tables are those of
  \<open>Pj_Hash\<close>, the transactions those of \<open>Pjsip_Tsx\<close>. An address of a transaction is a number.

  A transaction that is destroyed takes itself out of the tables (\<^verbatim>\<open>tsx_set_state\<close>); \<open>lay_store\<close>
  writes a transaction back and does that for the tables.
\<close>

section \<open>The module\<close>

text \<open>\<open>lay_keys\<close> holds \<^verbatim>\<open>transaction_key\<close> and \<^verbatim>\<open>transaction_key2\<close> of each transaction, \<open>lay_sent\<close> the
  codes of the stateless responses.\<close>

record tsx_layer =
  lay_htable :: pj_hash_table_t
  lay_htable2 :: pj_hash_table_t
  lay_objs :: "nat \<Rightarrow> tsx"
  lay_keys :: "nat \<Rightarrow> u8 list \<times> u8 list"
  lay_sent :: "int list"

definition PJSIP_EINVALIDHDR :: pj_status_t where "PJSIP_EINVALIDHDR = PJSIP_ERRNO_START_PJSIP + 51"
definition PJSIP_SC_BAD_REQUEST :: int where "PJSIP_SC_BAD_REQUEST = 400"
definition PJSIP_SC_SERVICE_UNAVAILABLE :: int where "PJSIP_SC_SERVICE_UNAVAILABLE = 503"

definition set_obj :: "nat \<Rightarrow> tsx \<Rightarrow> tsx_layer \<Rightarrow> tsx_layer" where
  "set_obj i s L = L\<lparr>lay_objs := (lay_objs L)(i := s)\<rparr>"

text \<open>The tables of \<^verbatim>\<open>pjsip_tsx_layer_init_module\<close>; no transaction exists yet.\<close>

definition pjsip_tsx_layer_init_module :: "u32 \<Rightarrow> tsx_layer option" where
  "pjsip_tsx_layer_init_module max_count = do {
     h \<leftarrow> pj_hash_create max_count;
     h2 \<leftarrow> pj_hash_create max_count;
     Some \<lparr>lay_htable = h, lay_htable2 = h2,
       lay_objs = (\<lambda>_. tsx_create None
         (\<lambda>_. \<lparr>ref_cnt = 0, is_pending = False, msg = PJSIP_REQUEST_MSG PJSIP_OTHER_METHOD\<rparr>) [] 0),
       lay_keys = (\<lambda>_. ([], [])), lay_sent = []\<rparr> }"

section \<open>Registration and lookup\<close>

text \<open>The functions of the table with a key and its length; \<open>hashed_key\<close> is what
  \<^verbatim>\<open>pj_hash_calc_tolower\<close> computes for a new transaction.\<close>

definition tab_get :: "sip_state \<Rightarrow> pj_hash_table_t \<Rightarrow> u8 list \<Rightarrow> u32 option \<Rightarrow> nat option" where
  "tab_get st h key hval = fst (pj_hash_get_lower st h key (of_nat (length key)) hval)"

definition hashed_key :: "u8 list \<Rightarrow> u32" where
  "hashed_key key = fst (pj_hash_calc_tolower 0 key)"

definition tab_set ::
  "sip_state \<Rightarrow> bool \<Rightarrow> pj_hash_table_t \<Rightarrow> u8 list \<Rightarrow> nat option \<Rightarrow> pj_hash_table_t option" where
  "tab_set st pool h key val =
     pj_hash_set_lower st pool h key (of_nat (length key)) (hashed_key key) val"

definition mod_tsx_layer_register_tsx ::
  "sip_state \<Rightarrow> nat \<Rightarrow> tsx_layer \<Rightarrow> (pj_status_t \<times> tsx_layer) option" where
  "mod_tsx_layer_register_tsx st i L =
     (if tab_get st (lay_htable L) (fst (lay_keys L i)) None \<noteq> None then Some (PJ_EEXISTS, L)
      else do {
        h \<leftarrow> tab_set st True (lay_htable L) (fst (lay_keys L i)) (Some i);
        h2 \<leftarrow> (if role (lay_objs L i) = PJSIP_ROLE_UAS
               then tab_set st True (lay_htable2 L) (snd (lay_keys L i)) (Some i)
               else Some (lay_htable2 L));
        Some (PJ_SUCCESS, set_obj i (register_tsx (lay_objs L i))
                            (L\<lparr>lay_htable := h, lay_htable2 := h2\<rparr>)) })"

definition mod_tsx_layer_unregister_tsx :: "sip_state \<Rightarrow> nat \<Rightarrow> tsx_layer \<Rightarrow> tsx_layer option" where
  "mod_tsx_layer_unregister_tsx st i L = do {
     h \<leftarrow> tab_set st False (lay_htable L) (fst (lay_keys L i)) None;
     h2 \<leftarrow> (if role (lay_objs L i) = PJSIP_ROLE_UAS
            then tab_set st False (lay_htable2 L) (snd (lay_keys L i)) None
            else Some (lay_htable2 L));
     Some (set_obj i (unregister_tsx (lay_objs L i)) (L\<lparr>lay_htable := h, lay_htable2 := h2\<rparr>)) }"

definition lay_store :: "sip_state \<Rightarrow> nat \<Rightarrow> tsx \<Rightarrow> tsx_layer \<Rightarrow> tsx_layer option" where
  "lay_store st i s L =
     (if registered (lay_objs L i) \<and> \<not> registered s
      then map_option (set_obj i s) (mod_tsx_layer_unregister_tsx st i L)
      else Some (set_obj i s L))"

definition pjsip_tsx_layer_get_tsx_count :: "tsx_layer \<Rightarrow> u32" where
  "pjsip_tsx_layer_get_tsx_count L = pj_hash_count (lay_htable L)"

definition find_tsx :: "sip_state \<Rightarrow> u8 list \<Rightarrow> bool \<Rightarrow> bool \<Rightarrow> tsx_layer \<Rightarrow> nat option \<times> tsx_layer" where
  "find_tsx st key lock add_ref L =
     (case tab_get st (lay_htable L) key (Some 0) of
        None \<Rightarrow> (None, L)
      | Some i \<Rightarrow>
          (let s1 = tsx_grp_lock_add_ref (lay_objs L i);
               s2 = (if lock then tsx_grp_lock_acquire s1 else s1);
               s3 = (if \<not> add_ref then tsx_grp_lock_dec_ref s2 else s2)
           in (Some i, set_obj i s3 L)))"

definition pjsip_tsx_layer_find_tsx ::
  "sip_state \<Rightarrow> u8 list \<Rightarrow> bool \<Rightarrow> tsx_layer \<Rightarrow> nat option \<times> tsx_layer" where
  "pjsip_tsx_layer_find_tsx st key lock L = find_tsx st key lock False L"

definition pjsip_tsx_layer_find_tsx2 ::
  "sip_state \<Rightarrow> u8 list \<Rightarrow> bool \<Rightarrow> tsx_layer \<Rightarrow> nat option \<times> tsx_layer" where
  "pjsip_tsx_layer_find_tsx2 st key add_ref L = find_tsx st key False add_ref L"

section \<open>Received messages\<close>

text \<open>The key of a message for its CSeq method; nothing when it cannot be made, which the callers do
  not check.\<close>

definition rx_key :: "pjsip_role_e \<Rightarrow> pjsip_rx_data \<Rightarrow> u8 list option" where
  "rx_key r rd = do {
     cs \<leftarrow> rx_cseq rd;
     res \<leftarrow> pjsip_tsx_create_key r (cseq_meth cs) rd;
     (case res of Inr key \<Rightarrow> Some key | Inl _ \<Rightarrow> None) }"

definition pjsip_tsx_detect_merged_requests ::
  "sip_state \<Rightarrow> pjsip_rx_data \<Rightarrow> tsx_layer \<Rightarrow> nat option option" where
  "pjsip_tsx_detect_merged_requests st rd L =
     (if rx_line rd = None then Some None
      else if rx_to_tag rd \<noteq> [] then Some None
      else do {
        cs \<leftarrow> rx_cseq rd;
        res \<leftarrow> pjsip_tsx_create_key PJSIP_ROLE_UAS (cseq_meth cs) rd;
        (case res of
           Inl _ \<Rightarrow> Some None
         | Inr key \<Rightarrow>
             if tab_get st (lay_htable L) key (Some 0) \<noteq> None then Some None
             else do {
               res2 \<leftarrow> create_tsx_key_2543 PJSIP_ROLE_UAS (cseq_meth cs) rd False;
               (case res2 of
                  Inl _ \<Rightarrow> Some None
                | Inr key2 \<Rightarrow> Some (tab_get st (lay_htable2 L) key2 (Some 0))) }) })"

text \<open>The message is handed to the transaction with a reference held.\<close>

definition deliver ::
  "sip_state \<Rightarrow> tsx_env \<Rightarrow> nat \<Rightarrow> pjsip_msg \<Rightarrow> tsx_layer \<Rightarrow> (bool \<times> tsx_layer) option" where
  "deliver st e i m L = do {
     L' \<leftarrow> lay_store st i
             (tsx_grp_lock_dec_ref (pjsip_tsx_recv_msg e m (tsx_grp_lock_add_ref (lay_objs L i)))) L;
     Some (True, L') }"

definition mod_tsx_layer_on_rx_request ::
  "sip_state \<Rightarrow> tsx_env \<Rightarrow> pjsip_rx_data \<Rightarrow> tsx_layer \<Rightarrow> (bool \<times> tsx_layer) option" where
  "mod_tsx_layer_on_rx_request st e rd L = do {
     key \<leftarrow> rx_key PJSIP_ROLE_UAS rd;
     line \<leftarrow> rx_line rd;
     cs \<leftarrow> rx_cseq rd;
     (case tab_get st (lay_htable L) key (Some 0) of
        None \<Rightarrow> Some (False, L)
      | Some i \<Rightarrow>
          (let s = lay_objs L i
           in if state s = PJSIP_TSX_STATE_TERMINATED then Some (False, L)
              else if mth_id line = PJSIP_ACK_METHOD \<and> meth s = PJSIP_INVITE_METHOD \<and>
                      status_code s div 100 = 2
              then Some (False, L)
              else if mth_id line = meth s \<and> cseq_num cs \<noteq> cseq s
              then Some (True, L\<lparr>lay_sent := lay_sent L @ [PJSIP_SC_BAD_REQUEST]\<rparr>)
              else deliver st e i (PJSIP_REQUEST_MSG (mth_id line)) L)) }"

definition mod_tsx_layer_on_rx_response ::
  "sip_state \<Rightarrow> tsx_env \<Rightarrow> pjsip_rx_data \<Rightarrow> tsx_layer \<Rightarrow> (bool \<times> tsx_layer) option" where
  "mod_tsx_layer_on_rx_response st e rd L = do {
     key \<leftarrow> rx_key PJSIP_ROLE_UAC rd;
     cs \<leftarrow> rx_cseq rd;
     (case tab_get st (lay_htable L) key (Some 0) of
        None \<Rightarrow> Some (False, L)
      | Some i \<Rightarrow>
          if state (lay_objs L i) = PJSIP_TSX_STATE_TERMINATED then Some (False, L)
          else deliver st e i (PJSIP_RESPONSE_MSG (rx_code rd) (mth_id (cseq_meth cs))) L) }"

section \<open>Creation\<close>

text \<open>A message to be sent: the method of the request line, the CSeq number and the branch of the
  topmost Via header, empty when there is none.\<close>

record pjsip_tx_msg =
  tx_line :: "pjsip_method option"
  tx_cseq :: "int option"
  tx_branch :: "u8 list"

text \<open>What creation obtains from elsewhere: the status of allocations, a unique string, the status of
  the address computation, and the transport with its properties.\<close>

record tsx_creation =
  tc_user :: "pjsip_module option"
  tc_lock :: "int option"
  tc_store :: "nat \<Rightarrow> pjsip_tx_data"
  tc_script :: "tsx_answer list"
  tc_status :: pj_status_t
  tc_unique :: "u8 list"
  tc_addr :: pj_status_t
  tc_transport :: nat
  tc_reliable :: bool
  tc_down :: bool

text \<open>\<open>tc_lock\<close> is the group lock of the caller, with its references, if there is one.\<close>

definition tc_create :: "tsx_creation \<Rightarrow> tsx" where
  "tc_create c = tsx_create (tc_user c) (tc_store c) (tc_script c)
     (case tc_lock c of Some n \<Rightarrow> n | None \<Rightarrow> 0)"

definition lay_set :: "nat \<Rightarrow> u8 list \<Rightarrow> u8 list \<Rightarrow> tsx \<Rightarrow> tsx_layer \<Rightarrow> tsx_layer" where
  "lay_set i key key2 s L = set_obj i s (L\<lparr>lay_keys := (lay_keys L)(i := (key, key2))\<rparr>)"

text \<open>The end of both functions: registration, and the release of the lock that was taken.\<close>

definition lay_finish ::
  "sip_state \<Rightarrow> nat \<Rightarrow> (tsx \<Rightarrow> tsx) \<Rightarrow> tsx_layer \<Rightarrow> (pj_status_t \<times> tsx_layer) option" where
  "lay_finish st i unlock L = do {
     (status, L1) \<leftarrow> mod_tsx_layer_register_tsx st i L;
     if status \<noteq> PJ_SUCCESS
     then Some (status, set_obj i (tsx_shutdown (unlock (lay_objs L1 i))) L1)
     else Some (PJ_SUCCESS, set_obj i (unlock (lay_objs L1 i)) L1) }"

definition pjsip_tsx_create_uac2 ::
  "sip_state \<Rightarrow> nat \<Rightarrow> nat \<Rightarrow> pjsip_tx_msg \<Rightarrow> tsx_creation \<Rightarrow> tsx_layer \<Rightarrow>
     (pj_status_t \<times> tsx_layer) option" where
  "pjsip_tsx_create_uac2 st i x tm c L =
     (case tx_line tm of
        None \<Rightarrow> Some (PJSIP_ENOTREQUESTMSG, L)
      | Some mt \<Rightarrow>
          if mth_id mt = PJSIP_ACK_METHOD then Some (PJ_EINVALIDOP, L)
          else (case tx_cseq tm of
             None \<Rightarrow> Some (PJSIP_EMISSINGHDR, L)
           | Some cs \<Rightarrow>
               if tc_status c \<noteq> PJ_SUCCESS then Some (tc_status c, L)
               else (let lock = (\<lambda>s. if tc_lock c \<noteq> None then tsx_grp_lock_acquire s else s);
                         unlock = (\<lambda>s. if tc_lock c \<noteq> None then tsx_grp_lock_release s else s);
                         branch = (if tx_branch tm = []
                                   then PJSIP_RFC3261_BRANCH_ID @ [80, 106] @ tc_unique c
                                   else tx_branch tm)
                     in do {
                       res \<leftarrow> create_tsx_key_3261 PJSIP_ROLE_UAC mt branch;
                       (case res of
                          Inl _ \<Rightarrow> None
                        | Inr key \<Rightarrow>
                            if tc_addr c \<noteq> PJ_SUCCESS
                            then Some (tc_addr c, lay_set i key []
                              (tsx_shutdown (unlock (tsx_init_uac (mth_id mt) cs x False
                                (lock (tc_create c))))) L)
                            else lay_finish st i unlock (lay_set i key []
                              (tsx_init_uac (mth_id mt) cs x (tc_reliable c) (lock (tc_create c))) L)) })))"

definition pjsip_method_cmp :: "pjsip_method \<Rightarrow> pjsip_method \<Rightarrow> bool" where
  "pjsip_method_cmp m1 m2 \<longleftrightarrow>
     mth_id m1 = mth_id m2 \<and> (mth_id m1 \<noteq> PJSIP_OTHER_METHOD \<or> mth_name m1 = mth_name m2)"

definition pjsip_tsx_create_uas2 ::
  "sip_state \<Rightarrow> nat \<Rightarrow> pjsip_rx_data \<Rightarrow> tsx_creation \<Rightarrow> tsx_layer \<Rightarrow>
     (pj_status_t \<times> tsx_layer) option" where
  "pjsip_tsx_create_uas2 st i rd c L =
     (case rx_line rd of
        None \<Rightarrow> Some (PJSIP_ENOTREQUESTMSG, L)
      | Some mt \<Rightarrow>
          if mth_id mt = PJSIP_ACK_METHOD then Some (PJ_EINVALIDOP, L)
          else (case rx_cseq rd of
             None \<Rightarrow> Some (PJSIP_EMISSINGHDR, L)
           | Some cs \<Rightarrow>
               if rx_via rd = None then Some (PJSIP_EMISSINGHDR, L)
               else if \<not> pjsip_method_cmp mt (cseq_meth cs) then Some (PJSIP_EINVALIDHDR, L)
               else if tc_status c \<noteq> PJ_SUCCESS then Some (tc_status c, L)
               else (let s0 = tsx_grp_lock_acquire (tc_create c);
                         s1 = s0\<lparr>role := PJSIP_ROLE_UAS, meth := mth_id mt, cseq := cseq_num cs\<rparr>;
                         fail = (\<lambda>status key key2 s. Some (status,
                           lay_set i key key2 (tsx_shutdown (tsx_grp_lock_release s)) L))
                     in do {
                       res \<leftarrow> pjsip_tsx_create_key PJSIP_ROLE_UAS mt rd;
                       (case res of
                          Inl status \<Rightarrow> fail status [] [] s1
                        | Inr key \<Rightarrow> do {
                            res2 \<leftarrow> create_tsx_key_2543 PJSIP_ROLE_UAS mt rd False;
                            (case res2 of
                               Inl status \<Rightarrow> fail status key [] s1
                             | Inr key2 \<Rightarrow>
                                 if tc_addr c \<noteq> PJ_SUCCESS
                                 then fail (tc_addr c) key key2
                                   (tsx_init_uas (mth_id mt) (cseq_num cs) 0 False False s0)
                                 else lay_finish st i tsx_grp_lock_release (lay_set i key key2
                                   (tsx_init_uas (mth_id mt) (cseq_num cs) (tc_transport c)
                                     (tc_reliable c) (tc_down c) s0) L)) }) })))"

section \<open>Shutdown of the module\<close>

text \<open>The loop of \<^verbatim>\<open>mod_tsx_layer_stop\<close>, with fuel.\<close>

fun mod_tsx_layer_stop :: "sip_state \<Rightarrow> tsx_env \<Rightarrow> nat \<Rightarrow> tsx_layer \<Rightarrow> tsx_layer option" where
  "mod_tsx_layer_stop st e 0 L = None"
| "mod_tsx_layer_stop st e (Suc fuel) L =
     (case pj_hash_first (lay_htable L) of
        None \<Rightarrow> Some L
      | Some it \<Rightarrow>
          (let i = pj_hash_this (lay_htable L) it
           in do {
             L1 \<leftarrow> mod_tsx_layer_unregister_tsx st i L;
             mod_tsx_layer_stop st e fuel
               (set_obj i (tsx_shutdown
                 (snd (pjsip_tsx_terminate e PJSIP_SC_SERVICE_UNAVAILABLE (lay_objs L1 i)))) L1) }))"

end
