(* ===== verification/Pjsip_Tsx_Layer_Props.thy ===== *)
theory Pjsip_Tsx_Layer_Props
  imports Pjsip_Tsx_Layer Pjsip_Tsx_Close Pjsip_Tsx_Demo
begin

text \<open>
  The transaction layer against its specification: the table holds exactly the transactions that
  are registered, under their keys. The contract of a keyed table is interpreted on the functions
  the layer calls, so that the proofs rest on the verified hash table, and the invariant of a
  transaction is carried through the messages the layer delivers.
\<close>

section \<open>The tables\<close>

lemma tab_get_view:
  "hash_inv st True h \<Longrightarrow> table_key k \<Longrightarrow> tab_get st h k hv = hash_view st True h (lower k)"
  using hash_get_view [OF _ table_key_ok(1)] table_key_ok(2)
  by (simp add: tab_get_def pj_hash_get_lower_def)

text \<open>A binding is deleted without a pool.\<close>

lemma delete_without_pool:
  "hash_set st False h key n hv None False l = hash_set st True h key n hv None False l"
  by (simp add: hash_set_def find_entry_def Let_def)

lemma tab_set_view:
  assumes "hash_inv st True h" "table_key k" "pool \<or> v = None"
  obtains h' where "tab_set st pool h k v = Some h'" "hash_inv st True h'"
    "hash_view st True h' = (hash_view st True h)(lower k := v)"
proof -
  obtain h' where "hash_set st True h k (of_nat (length k)) (hashed_key k) v False True = Some h'"
    "hash_inv st True h'" "hash_view st True h' = (hash_view st True h)(lower k := v)"
    by (rule hash_set_view [OF assms(1) table_key_ok(1) [OF assms(2)] _ refl, of True False])
      (simp_all add: table_key_ok(2) [OF assms(2)])
  with assms(3) that show thesis
    by (cases pool) (auto simp: tab_set_def pj_hash_set_lower_def delete_without_pool)
qed

definition tab_put :: "sip_state \<Rightarrow> pj_hash_table_t \<Rightarrow> u8 list \<Rightarrow> nat option \<Rightarrow> pj_hash_table_t" where
  "tab_put st h k v = (case tab_set st (v \<noteq> None) h k v of Some h' \<Rightarrow> h' | None \<Rightarrow> h)"

interpretation tsx_table: keyed_table "hash_inv st True" table_key lower "hash_view st True"
  "\<lambda>h k. tab_get st h k None" "tab_put st" for st
proof
  fix h :: pj_hash_table_t and k :: "u8 list" and v :: "nat option"
  assume h: "hash_inv st True h" and k: "table_key k"
  show "tab_get st h k None = hash_view st True h (lower k)" using tab_get_view [OF h k] .
  obtain h' where "tab_set st (v \<noteq> None) h k v = Some h'" "hash_inv st True h'"
    "hash_view st True h' = (hash_view st True h)(lower k := v)"
    by (rule tab_set_view [OF h k, of "v \<noteq> None" v]) auto
  then show "hash_inv st True (tab_put st h k v)"
    "hash_view st True (tab_put st h k v) = (hash_view st True h)(lower k := v)"
    by (simp_all add: tab_put_def)
qed

lemma tab_set_put:
  assumes "hash_inv st True h" "table_key k" "pool = (v \<noteq> None)"
  shows "tab_set st pool h k v = Some (tab_put st h k v)"
  by (rule tab_set_view [OF assms(1,2), of pool v]) (use assms(3) in \<open>auto simp: tab_put_def\<close>)

section \<open>The invariant of the layer\<close>

definition obj_ok :: "tsx_layer \<Rightarrow> nat \<Rightarrow> bool" where
  "obj_ok L i \<longleftrightarrow>
     (let s = lay_objs L i; (key, key2) = lay_keys L i
      in table_key key \<and> role_key (role s) key \<and> (role s = PJSIP_ROLE_UAS \<longrightarrow> table_key key2) \<and>
         tsx_ok s \<and> settled s \<and> held s = 0)"

definition layer_ok :: "sip_state \<Rightarrow> tsx_layer \<Rightarrow> bool" where
  "layer_ok st L \<longleftrightarrow> hash_inv st True (lay_htable L) \<and> hash_inv st True (lay_htable2 L) \<and>
     (\<forall>k i. hash_view st True (lay_htable L) k = Some i \<longleftrightarrow>
        registered (lay_objs L i) \<and> lower (fst (lay_keys L i)) = k) \<and>
     (\<forall>k i. hash_view st True (lay_htable2 L) k = Some i \<longrightarrow>
        registered (lay_objs L i) \<and> role (lay_objs L i) = PJSIP_ROLE_UAS \<and>
        lower (snd (lay_keys L i)) = k) \<and>
     (\<forall>i. registered (lay_objs L i) \<longrightarrow> obj_ok L i)"

lemma layer_okD:
  assumes "layer_ok st L"
  shows "hash_inv st True (lay_htable L)" "hash_inv st True (lay_htable2 L)"
    "hash_view st True (lay_htable L) k = Some i \<longleftrightarrow>
       registered (lay_objs L i) \<and> lower (fst (lay_keys L i)) = k"
    "hash_view st True (lay_htable2 L) k = Some i \<Longrightarrow>
       registered (lay_objs L i) \<and> role (lay_objs L i) = PJSIP_ROLE_UAS \<and> lower (snd (lay_keys L i)) = k"
    "registered (lay_objs L i) \<Longrightarrow> obj_ok L i"
  using assms unfolding layer_ok_def by blast+

lemma obj_okD:
  assumes "obj_ok L i"
  shows "table_key (fst (lay_keys L i))" "role_key (role (lay_objs L i)) (fst (lay_keys L i))"
    "role (lay_objs L i) = PJSIP_ROLE_UAS \<Longrightarrow> table_key (snd (lay_keys L i))"
    "tsx_ok (lay_objs L i)" "settled (lay_objs L i)" "held (lay_objs L i) = 0"
  using assms by (auto simp: obj_ok_def Let_def split: prod.splits)

lemma set_obj_simps [simp]:
  "lay_htable (set_obj i s L) = lay_htable L" "lay_htable2 (set_obj i s L) = lay_htable2 L"
  "lay_keys (set_obj i s L) = lay_keys L" "lay_objs (set_obj i s L) = (lay_objs L)(i := s)"
  "lay_sent (set_obj i s L) = lay_sent L"
  by (simp_all add: set_obj_def)

lemma layer_ok_obj:
  assumes ok: "layer_ok st L" and r: "registered s = registered (lay_objs L i)"
    and s: "registered s \<Longrightarrow> role s = role (lay_objs L i) \<and> tsx_ok s \<and> settled s \<and> held s = 0"
  shows "layer_ok st (set_obj i s L)"
proof -
  have "obj_ok (set_obj i s L) j" if "registered (lay_objs (set_obj i s L) j)" for j
    using that r s layer_okD(5) [OF ok, of j] by (auto simp: obj_ok_def Let_def split: prod.splits if_splits)
  then show ?thesis
    using ok r s unfolding layer_ok_def by (auto split: if_splits)
qed

lemma keeps_obj_ok: "keeps s s' \<Longrightarrow> tsx_ok s \<Longrightarrow> settled s \<Longrightarrow> held s = 0 \<Longrightarrow>
    role s' = role s \<and> tsx_ok s' \<and> settled s' \<and> held s' = 0"
  by (simp add: keeps_def tsx_evolves_def tsx_grows_def)

text \<open>Taking a registered transaction out of the tables.\<close>

lemma unregister_ok:
  assumes ok: "layer_ok st L" and r: "registered (lay_objs L i)"
  obtains L' where "mod_tsx_layer_unregister_tsx st i L = Some L'" "layer_ok st L'"
    "lay_objs L' = (lay_objs L)(i := unregister_tsx (lay_objs L i))" "lay_keys L' = lay_keys L"
    "hash_view st True (lay_htable L') = (hash_view st True (lay_htable L))(lower (fst (lay_keys L i)) := None)"
    "hash_view st True (lay_htable2 L') (lower (snd (lay_keys L i))) =
       (if role (lay_objs L i) = PJSIP_ROLE_UAS then None
        else hash_view st True (lay_htable2 L) (lower (snd (lay_keys L i))))"
proof -
  let ?k = "fst (lay_keys L i)" and ?k2 = "snd (lay_keys L i)"
  let ?uas = "role (lay_objs L i) = PJSIP_ROLE_UAS"
  note o = obj_okD [OF layer_okD(5) [OF ok r]]
  define h where "h = tab_put st (lay_htable L) ?k None"
  define h2 where "h2 = (if ?uas then tab_put st (lay_htable2 L) ?k2 None else lay_htable2 L)"
  define L' where "L' = set_obj i (unregister_tsx (lay_objs L i)) (L\<lparr>lay_htable := h, lay_htable2 := h2\<rparr>)"
  have h: "tab_set st False (lay_htable L) ?k None = Some h" "hash_inv st True h"
    "hash_view st True h = (hash_view st True (lay_htable L))(lower ?k := None)"
    using tab_set_put [OF layer_okD(1) [OF ok] o(1), of False None] tsx_table.put_keeps [OF layer_okD(1) [OF ok] o(1)]
      tsx_table.put_view [OF layer_okD(1) [OF ok] o(1)] by (simp_all add: h_def)
  have h2: "(if ?uas then tab_set st False (lay_htable2 L) ?k2 None else Some (lay_htable2 L)) = Some h2"
    "hash_inv st True h2"
    "hash_view st True h2 = (if ?uas then (hash_view st True (lay_htable2 L))(lower ?k2 := None)
       else hash_view st True (lay_htable2 L))"
    using tab_set_put [OF layer_okD(2) [OF ok] o(3), of False None] tsx_table.put_keeps [OF layer_okD(2) [OF ok] o(3)]
      tsx_table.put_view [OF layer_okD(2) [OF ok] o(3)] layer_okD(2) [OF ok] by (simp_all add: h2_def)
  have u: "mod_tsx_layer_unregister_tsx st i L = Some L'"
    using h(1) h2(1) by (simp add: mod_tsx_layer_unregister_tsx_def L'_def)
  have objs: "lay_objs L' = (lay_objs L)(i := unregister_tsx (lay_objs L i))" "lay_keys L' = lay_keys L"
    by (simp_all add: L'_def)
  have ir: "\<not> registered (lay_objs L' i)" by (simp add: objs unregister_tsx_def)
  have v1: "hash_view st True h k = Some j \<longleftrightarrow> registered (lay_objs L' j) \<and> lower (fst (lay_keys L' j)) = k" for k j
  proof (cases "k = lower ?k")
    case True
    have "j = i" if "registered (lay_objs L j)" "lower (fst (lay_keys L j)) = lower ?k" for j
      using that r layer_okD(3) [OF ok, of "lower ?k" j] layer_okD(3) [OF ok, of "lower ?k" i] by simp
    with True ir show ?thesis by (auto simp: h(3) objs split: if_splits)
  next
    case False
    with ir layer_okD(3) [OF ok] show ?thesis by (auto simp: h(3) objs split: if_splits)
  qed
  have v2: "registered (lay_objs L' j) \<and> role (lay_objs L' j) = PJSIP_ROLE_UAS \<and> lower (snd (lay_keys L' j)) = k"
    if "hash_view st True h2 k = Some j" for k j
  proof -
    have j: "hash_view st True (lay_htable2 L) k = Some j" "k = lower ?k2 \<longrightarrow> \<not> ?uas"
      using that by (auto simp: h2(3) split: if_splits)
    with layer_okD(4) [OF ok j(1)] have "j \<noteq> i" by auto
    with layer_okD(4) [OF ok j(1)] show ?thesis by (simp add: objs)
  qed
  have "obj_ok L' j" if "registered (lay_objs L' j)" for j
    using that ir layer_okD(5) [OF ok, of j] by (cases "j = i") (auto simp: obj_ok_def Let_def objs)
  then have "layer_ok st L'"
    using v1 v2 h(2) h2(2) unfolding layer_ok_def by (simp add: L'_def)
  with u objs h(3) h2(3) show thesis by (intro that [of L']) (simp_all add: L'_def)
qed

lemma lay_store_ok:
  assumes ok: "layer_ok st L" and r: "registered (lay_objs L i)" and k: "keeps (lay_objs L i) s"
  shows "\<exists>L'. lay_store st i s L = Some L' \<and> layer_ok st L' \<and> lay_objs L' = (lay_objs L)(i := s) \<and>
    lay_keys L' = lay_keys L"
proof -
  note s = keeps_obj_ok [OF k obj_okD(4-6) [OF layer_okD(5) [OF ok r]]]
  show ?thesis
  proof (cases "registered s")
    case True
    then show ?thesis using layer_ok_obj [OF ok, of s i] r s by (simp add: lay_store_def)
  next
    case False
    obtain L1 where u: "mod_tsx_layer_unregister_tsx st i L = Some L1" "layer_ok st L1"
      "lay_objs L1 = (lay_objs L)(i := unregister_tsx (lay_objs L i))" "lay_keys L1 = lay_keys L"
      using ok r by (rule unregister_ok)
    have "layer_ok st (set_obj i s L1)"
      by (rule layer_ok_obj [OF u(2)]) (use False in \<open>simp_all add: u(3) unregister_tsx_def\<close>)
    with u False r show ?thesis by (simp add: lay_store_def)
  qed
qed

lemma lay_set_simps [simp]:
  "lay_htable (lay_set i key key2 s L) = lay_htable L" "lay_htable2 (lay_set i key key2 s L) = lay_htable2 L"
  "lay_keys (lay_set i key key2 s L) = (lay_keys L)(i := (key, key2))"
  "lay_objs (lay_set i key key2 s L) = (lay_objs L)(i := s)"
  by (simp_all add: lay_set_def)

lemma lay_set_ok:
  assumes ok: "layer_ok st L" and r: "\<not> registered (lay_objs L i)" "\<not> registered s"
  shows "layer_ok st (lay_set i key key2 s L)"
proof -
  have "obj_ok (lay_set i key key2 s L) j" if "registered (lay_objs (lay_set i key key2 s L) j)" for j
    using that r layer_okD(5) [OF ok, of j] by (cases "j = i") (auto simp: obj_ok_def Let_def)
  moreover have "hash_view st True (lay_htable2 L) k = Some j \<Longrightarrow> j \<noteq> i" for k j
    using layer_okD(4) [OF ok] r by blast
  ultimately show ?thesis using ok r unfolding layer_ok_def by auto
qed

text \<open>Registration of a new transaction, the release of its lock included.\<close>

lemma lay_finish_ok:
  assumes ok: "layer_ok st L" and r: "\<not> registered (lay_objs L i)" "\<not> registered s"
    and k: "table_key key" "role_key (role s) key" "role s = PJSIP_ROLE_UAS \<Longrightarrow> table_key key2"
    and t: "t = unlock (register_tsx s)" "registered t" "role t = role s" "tsx_ok t" "settled t" "held t = 0"
    and f: "\<not> registered (tsx_shutdown (unlock s))"
  obtains L' where
    "lay_finish st i unlock (lay_set i key key2 s L) =
       Some (if hash_view st True (lay_htable L) (lower key) = None then PJ_SUCCESS else PJ_EEXISTS, L')"
    "layer_ok st L'"
    "hash_view st True (lay_htable L) (lower key) = None \<Longrightarrow>
       lay_objs L' = (lay_objs L)(i := t) \<and> lay_keys L' = (lay_keys L)(i := (key, key2)) \<and>
       (role s = PJSIP_ROLE_UAS \<longrightarrow> hash_view st True (lay_htable2 L') (lower key2) = Some i)"
    "hash_view st True (lay_htable L) (lower key) \<noteq> None \<Longrightarrow>
       (\<forall>j. registered (lay_objs L' j) = registered (lay_objs L j)) \<and> \<not> registered (lay_objs L' i)"
proof -
  let ?L = "lay_set i key key2 s L" and ?uas = "role s = PJSIP_ROLE_UAS"
  have g: "tab_get st (lay_htable ?L) key None = hash_view st True (lay_htable L) (lower key)"
    using tab_get_view [OF layer_okD(1) [OF ok] k(1)] by simp
  show thesis
  proof (cases "hash_view st True (lay_htable L) (lower key)")
    case (Some j)
    have reg: "mod_tsx_layer_register_tsx st i ?L = Some (PJ_EEXISTS, ?L)"
      using g Some by (simp add: mod_tsx_layer_register_tsx_def)
    have e: "PJ_EEXISTS \<noteq> PJ_SUCCESS" by code_simp
    have "lay_finish st i unlock ?L = Some (PJ_EEXISTS, set_obj i (tsx_shutdown (unlock s)) ?L)"
      using e by (simp only: lay_finish_def reg) (simp add: lay_set_def)
    moreover have "layer_ok st (set_obj i (tsx_shutdown (unlock s)) ?L)"
      by (rule layer_ok_obj [OF lay_set_ok [OF ok r]]) (use f r in simp_all)
    moreover have "registered (lay_objs (set_obj i (tsx_shutdown (unlock s)) ?L) j) = registered (lay_objs L j)" for j
      using f r by simp
    ultimately show thesis using Some r(1) f by (intro that [of "set_obj i (tsx_shutdown (unlock s)) ?L"]) simp_all
  next
    case None
    define h where "h = tab_put st (lay_htable L) key (Some i)"
    define h2 where "h2 = (if ?uas then tab_put st (lay_htable2 L) key2 (Some i) else lay_htable2 L)"
    define L' where "L' = set_obj i t (?L\<lparr>lay_htable := h, lay_htable2 := h2\<rparr>)"
    have h: "tab_set st True (lay_htable L) key (Some i) = Some h" "hash_inv st True h"
      "hash_view st True h = (hash_view st True (lay_htable L))(lower key \<mapsto> i)"
      using tab_set_put [OF layer_okD(1) [OF ok] k(1), of True "Some i"] tsx_table.put_keeps [OF layer_okD(1) [OF ok] k(1)]
        tsx_table.put_view [OF layer_okD(1) [OF ok] k(1)] by (simp_all add: h_def)
    have h2: "(if ?uas then tab_set st True (lay_htable2 L) key2 (Some i) else Some (lay_htable2 L)) = Some h2"
      "hash_inv st True h2"
      "hash_view st True h2 = (if ?uas then (hash_view st True (lay_htable2 L))(lower key2 \<mapsto> i)
         else hash_view st True (lay_htable2 L))"
      using tab_set_put [OF layer_okD(2) [OF ok] k(3), of True "Some i"] tsx_table.put_keeps [OF layer_okD(2) [OF ok] k(3)]
        tsx_table.put_view [OF layer_okD(2) [OF ok] k(3)] layer_okD(2) [OF ok] by (simp_all add: h2_def)
    have fin: "lay_finish st i unlock ?L = Some (PJ_SUCCESS, L')"
      using g None h(1) h2(1) t(1) by (cases ?uas) (simp_all add: lay_finish_def mod_tsx_layer_register_tsx_def L'_def set_obj_def)
    have new: "hash_view st True (lay_htable L) k \<noteq> Some i" "hash_view st True (lay_htable2 L) k \<noteq> Some i" for k
      using layer_okD(3,4) [OF ok] r(1) by blast+
    have v1: "hash_view st True h x = Some j \<longleftrightarrow> registered (lay_objs L' j) \<and> lower (fst (lay_keys L' j)) = x" for x j
      using None new layer_okD(3) [OF ok, of x j] t(2) by (auto simp: h(3) L'_def)
    have v2: "registered (lay_objs L' j) \<and> role (lay_objs L' j) = PJSIP_ROLE_UAS \<and> lower (snd (lay_keys L' j)) = x"
      if "hash_view st True h2 x = Some j" for x j
      using that new(2) layer_okD(4) [OF ok, of x j] t(2,3) by (auto simp: h2(3) L'_def split: if_splits)
    have "obj_ok L' j" if "registered (lay_objs L' j)" for j
      using that layer_okD(5) [OF ok, of j] k t by (cases "j = i") (auto simp: obj_ok_def Let_def L'_def)
    then have "layer_ok st L'" using v1 v2 h(2) h2(2) unfolding layer_ok_def by (simp add: L'_def)
    moreover have "lay_objs L' = (lay_objs L)(i := t)" "lay_keys L' = (lay_keys L)(i := (key, key2))"
      "?uas \<Longrightarrow> hash_view st True (lay_htable2 L') (lower key2) = Some i"
      by (simp_all add: L'_def h2(3))
    ultimately show thesis using fin None by (intro that [of L']) simp_all
  qed
qed

section \<open>Creation\<close>

lemma new_fields:
  "registered (tsx_new_uac user store script refs m cs x rel)" "role (tsx_new_uac user store script refs m cs x rel) = PJSIP_ROLE_UAC"
  "held (tsx_new_uac user store script refs m cs x rel) = 0" "settled (tsx_new_uac user store script refs m cs x rel)"
  "registered (tsx_new_uas user store script refs m cs tp rel down)" "role (tsx_new_uas user store script refs m cs tp rel down) = PJSIP_ROLE_UAS"
  "held (tsx_new_uas user store script refs m cs tp rel down) = 0" "settled (tsx_new_uas user store script refs m cs tp rel down)"
  by (simp_all add: tsx_new_uac_def tsx_new_uas_def register_tsx_def tsx_init_uac_def tsx_init_uas_def
      tsx_create_def pjsip_tx_data_add_ref_def settled_def Let_def)

definition tc_refs :: "tsx_creation \<Rightarrow> int" where
  "tc_refs c = (case tc_lock c of Some n \<Rightarrow> n | None \<Rightarrow> 0)"

text \<open>A transaction that has been created under the lock is the one a run starts with.\<close>

lemma created_uac:
  assumes "0 \<le> tc_refs c"
    and s: "s = tsx_init_uac m cs x rel (if tc_lock c \<noteq> None then tsx_grp_lock_acquire (tc_create c) else tc_create c)"
  shows "(if tc_lock c \<noteq> None then tsx_grp_lock_release (register_tsx s) else register_tsx s) =
    tsx_new_uac (tc_user c) (tc_store c) (tc_script c) (tc_refs c) m cs x rel"
  using assms(1) unfolding s
  by (auto simp: tsx_new_uac_def tsx_init_uac_def register_tsx_def tc_create_def tsx_create_def tc_refs_def
      pjsip_tx_data_add_ref_def tsx_grp_lock_acquire_def tsx_grp_lock_release_def tsx_grp_lock_dec_ref_def)

lemma created_uas:
  assumes "0 \<le> tc_refs c"
  shows "tsx_grp_lock_release (register_tsx (tsx_init_uas m cs tp rel down (tsx_grp_lock_acquire (tc_create c)))) =
    tsx_new_uas (tc_user c) (tc_store c) (tc_script c) (tc_refs c) m cs tp rel down"
  using assms
  by (auto simp: tsx_new_uas_def tsx_init_uas_def register_tsx_def tc_create_def tsx_create_def tc_refs_def idle_timer_def
      tsx_update_transport_def tsx_tp_state_callback_def tsx_restart_timer_def tsx_cancel_timer_def tsx_schedule_timer_def
      tsx_grp_lock_add_ref_def tsx_grp_lock_acquire_def tsx_grp_lock_release_def tsx_grp_lock_dec_ref_def Let_def state_order)

lemma init_unregistered:
  "\<not> registered (tc_create c)" "registered (tsx_grp_lock_acquire s) = registered s"
  "registered (tsx_grp_lock_release s) = registered s" "registered (tsx_init_uac m cs x rel s) = registered s"
  "registered (tsx_init_uas m cs tp rel down s) = registered s"
  by (simp_all add: tc_create_def tsx_create_def tsx_grp_lock_acquire_def tsx_grp_lock_release_def
      tsx_grp_lock_dec_ref_def tsx_init_uac_def tsx_init_uas_def pjsip_tx_data_add_ref_def Let_def)

lemma init_role:
  "role (tsx_init_uac m cs x rel s) = PJSIP_ROLE_UAC" "role (tsx_init_uas m cs tp rel down s) = PJSIP_ROLE_UAS"
  by (simp_all add: tsx_init_uac_def tsx_init_uas_def pjsip_tx_data_add_ref_def Let_def)

definition tx_wf :: "pjsip_tx_msg \<Rightarrow> tsx_creation \<Rightarrow> bool" where
  "tx_wf tm c \<longleftrightarrow> (\<forall>mt. tx_line tm = Some mt \<longrightarrow> key_free (mth_name mt)) \<and> key_free (tx_branch tm) \<and>
     key_free (PJSIP_RFC3261_BRANCH_ID @ [80, 106] @ tc_unique c) \<and> 0 \<le> tc_refs c"

definition uac_branch :: "pjsip_tx_msg \<Rightarrow> tsx_creation \<Rightarrow> u8 list" where
  "uac_branch tm c = (if tx_branch tm = [] then PJSIP_RFC3261_BRANCH_ID @ [80, 106] @ tc_unique c else tx_branch tm)"

text \<open>A client transaction is created exactly when the request is complete, the rest of the system
  plays along and its key is free.\<close>

lemma create_uac2_ok:
  assumes ok: "layer_ok st L" and r: "\<not> registered (lay_objs L i)" and wf: "tx_wf tm c"
  obtains status L' where "pjsip_tsx_create_uac2 st i x tm c L = Some (status, L')" "layer_ok st L'"
    "status = PJ_SUCCESS \<longleftrightarrow> (\<exists>mt. tx_line tm = Some mt \<and> mth_id mt \<noteq> PJSIP_ACK_METHOD \<and> tx_cseq tm \<noteq> None \<and>
       tc_status c = PJ_SUCCESS \<and> tc_addr c = PJ_SUCCESS \<and>
       hash_view st True (lay_htable L) (lower (key_3261 PJSIP_ROLE_UAC mt (uac_branch tm c))) = None)"
    "status = PJ_SUCCESS \<Longrightarrow> registered (lay_objs L' i) \<and> role (lay_objs L' i) = PJSIP_ROLE_UAC \<and>
       fst (lay_keys L' i) = key_3261 PJSIP_ROLE_UAC (the (tx_line tm)) (uac_branch tm c)"
proof -
  have codes: "PJSIP_ENOTREQUESTMSG \<noteq> PJ_SUCCESS" "PJ_EINVALIDOP \<noteq> PJ_SUCCESS" "PJSIP_EMISSINGHDR \<noteq> PJ_SUCCESS"
    "PJ_EEXISTS \<noteq> PJ_SUCCESS" by code_simp+
  show thesis
  proof (cases "\<exists>mt cs. tx_line tm = Some mt \<and> mth_id mt \<noteq> PJSIP_ACK_METHOD \<and> tx_cseq tm = Some cs \<and> tc_status c = PJ_SUCCESS")
    case False
    then have "\<exists>status. pjsip_tsx_create_uac2 st i x tm c L = Some (status, L) \<and> status \<noteq> PJ_SUCCESS"
      using codes by (cases "tx_line tm"; cases "tx_cseq tm") (auto simp: pjsip_tsx_create_uac2_def)
    then obtain status where "pjsip_tsx_create_uac2 st i x tm c L = Some (status, L)" "status \<noteq> PJ_SUCCESS"
      by blast
    with False ok show thesis by (intro that) auto
  next
    case True
    then obtain mt cs where m: "tx_line tm = Some mt" "mth_id mt \<noteq> PJSIP_ACK_METHOD" "tx_cseq tm = Some cs"
      "tc_status c = PJ_SUCCESS" by blast
    let ?lock = "\<lambda>s. if tc_lock c \<noteq> None then tsx_grp_lock_acquire s else s"
    let ?unlock = "\<lambda>s. if tc_lock c \<noteq> None then tsx_grp_lock_release s else s"
    let ?key = "key_3261 PJSIP_ROLE_UAC mt (uac_branch tm c)"
    let ?s = "\<lambda>rel. tsx_init_uac (mth_id mt) cs x rel (?lock (tc_create c))"
    have key: "table_key ?key" "role_key PJSIP_ROLE_UAC ?key"
      using wf m(1) by (simp_all add: key_3261_table key_3261_role tx_wf_def uac_branch_def)
    have run: "pjsip_tsx_create_uac2 st i x tm c L =
      (if tc_addr c \<noteq> PJ_SUCCESS then Some (tc_addr c, lay_set i ?key [] (tsx_shutdown (?unlock (?s False))) L)
       else lay_finish st i ?unlock (lay_set i ?key [] (?s (tc_reliable c)) L))"
      using m by (simp add: pjsip_tsx_create_uac2_def create_key_3261_eq uac_branch_def Let_def)
    show thesis
    proof (cases "tc_addr c = PJ_SUCCESS")
      case False
      have "layer_ok st (lay_set i ?key [] (tsx_shutdown (?unlock (?s False))) L)"
        by (rule lay_set_ok [OF ok r]) (simp add: init_unregistered)
      moreover have "pjsip_tsx_create_uac2 st i x tm c L =
          Some (tc_addr c, lay_set i ?key [] (tsx_shutdown (?unlock (?s False))) L)"
        unfolding run using False by (simp only: if_True simp_thms)
      ultimately show thesis using False by - (rule that, assumption+, blast+)
    next
      case True
      note t = created_uac [OF _ refl, of c "mth_id mt" cs x "tc_reliable c"]
      have refs: "0 \<le> tc_refs c" using wf by (simp add: tx_wf_def)
      let ?t = "tsx_new_uac (tc_user c) (tc_store c) (tc_script c) (tc_refs c) (mth_id mt) cs x (tc_reliable c)"
      obtain L' where L': "lay_finish st i ?unlock (lay_set i ?key [] (?s (tc_reliable c)) L) =
          Some (if hash_view st True (lay_htable L) (lower ?key) = None then PJ_SUCCESS else PJ_EEXISTS, L')"
        "layer_ok st L'"
        "hash_view st True (lay_htable L) (lower ?key) = None \<Longrightarrow>
          lay_objs L' = (lay_objs L)(i := ?t) \<and> lay_keys L' = (lay_keys L)(i := (?key, []))"
        by (rule lay_finish_ok [OF ok r, of "?s (tc_reliable c)" ?key "[]" ?t ?unlock])
          (use key t [OF refs] new_fields(1-4) tsx_new_uac_ok in \<open>simp_all add: init_unregistered init_role\<close>)
      have "pjsip_tsx_create_uac2 st i x tm c L =
          Some (if hash_view st True (lay_htable L) (lower ?key) = None then PJ_SUCCESS else PJ_EEXISTS, L')"
        unfolding run using True L'(1) by (simp only: if_False simp_thms)
      from that [OF this L'(2)] show thesis using True m codes(4) new_fields(1,2) L'(3)
        by (cases "hash_view st True (lay_htable L) (lower ?key)") simp_all
    qed
  qed
qed

lemma rx_wf_cseq: "rx_wf rd \<Longrightarrow> \<exists>cs. rx_cseq rd = Some cs \<and> key_free (mth_name (cseq_meth cs))"
  by (auto simp: rx_wf_def split: option.splits)

lemma rx_wf_merged:
  assumes "rx_wf rd" "key_free (mth_name mt)"
  obtains key2 where "create_tsx_key_2543 PJSIP_ROLE_UAS mt rd False = Some (Inr key2)" "table_key key2"
    "key2 = key_2543 PJSIP_ROLE_UAS mt (cseq_num (the (rx_cseq rd))) (the (rx_from_tag rd)) (the (rx_cid rd)) None"
  using assms(1)
proof (rule rx_wfE)
  fix via cs tag cid
  assume h: "rx_via rd = Some via" "rx_cseq rd = Some cs" "rx_from_tag rd = Some tag" "rx_cid rd = Some cid"
    "key_free tag" "key_free cid"
  show thesis using create_key_2543_eq [OF h(1-4), of PJSIP_ROLE_UAS mt False] key_2543_table [OF assms(2) h(5,6), of None] h
    by (intro that) simp_all
qed

definition uas_wf :: "pjsip_rx_data \<Rightarrow> tsx_creation \<Rightarrow> bool" where
  "uas_wf rd c \<longleftrightarrow> rx_wf rd \<and> (\<forall>mt. rx_line rd = Some mt \<longrightarrow> key_free (mth_name mt)) \<and> 0 \<le> tc_refs c"

lemma create_uas2_ok:
  assumes ok: "layer_ok st L" and r: "\<not> registered (lay_objs L i)" and wf: "uas_wf rd c"
  obtains status L' where "pjsip_tsx_create_uas2 st i rd c L = Some (status, L')" "layer_ok st L'"
    "status = PJ_SUCCESS \<longleftrightarrow> (\<exists>mt. rx_line rd = Some mt \<and> mth_id mt \<noteq> PJSIP_ACK_METHOD \<and>
       pjsip_method_cmp mt (cseq_meth (the (rx_cseq rd))) \<and> tc_status c = PJ_SUCCESS \<and> tc_addr c = PJ_SUCCESS \<and>
       hash_view st True (lay_htable L) (lower (key_of_rx PJSIP_ROLE_UAS mt rd)) = None)"
    "status = PJ_SUCCESS \<Longrightarrow> lay_objs L' = (lay_objs L)(i := lay_objs L' i) \<and> registered (lay_objs L' i) \<and>
       role (lay_objs L' i) = PJSIP_ROLE_UAS \<and>
       lay_keys L' = (lay_keys L)(i := (key_of_rx PJSIP_ROLE_UAS (the (rx_line rd)) rd,
         key_2543 PJSIP_ROLE_UAS (the (rx_line rd)) (cseq_num (the (rx_cseq rd))) (the (rx_from_tag rd))
           (the (rx_cid rd)) None)) \<and>
       hash_view st True (lay_htable2 L') (lower (snd (lay_keys L' i))) = Some i"
proof -
  have codes: "PJSIP_ENOTREQUESTMSG \<noteq> PJ_SUCCESS" "PJ_EINVALIDOP \<noteq> PJ_SUCCESS" "PJSIP_EINVALIDHDR \<noteq> PJ_SUCCESS"
    "PJ_EEXISTS \<noteq> PJ_SUCCESS" by code_simp+
  have wfr: "rx_wf rd" "0 \<le> tc_refs c" using wf by (simp_all add: uas_wf_def)
  obtain cs via where cs: "rx_cseq rd = Some cs" and via: "rx_via rd = Some via" using wfr(1) by (rule rx_wfE) blast
  show thesis
  proof (cases "\<exists>mt. rx_line rd = Some mt \<and> mth_id mt \<noteq> PJSIP_ACK_METHOD \<and> pjsip_method_cmp mt (cseq_meth cs) \<and>
      tc_status c = PJ_SUCCESS")
    case False
    then have "\<exists>status. pjsip_tsx_create_uas2 st i rd c L = Some (status, L) \<and> status \<noteq> PJ_SUCCESS"
      using codes cs via by (cases "rx_line rd") (auto simp: pjsip_tsx_create_uas2_def)
    then obtain status where "pjsip_tsx_create_uas2 st i rd c L = Some (status, L)" "status \<noteq> PJ_SUCCESS"
      by blast
    with False ok cs show thesis by (intro that) auto
  next
    case True
    then obtain mt where m: "rx_line rd = Some mt" "mth_id mt \<noteq> PJSIP_ACK_METHOD" "pjsip_method_cmp mt (cseq_meth cs)"
      "tc_status c = PJ_SUCCESS" by blast
    have free: "key_free (mth_name mt)" using wf m(1) by (simp add: uas_wf_def)
    let ?key = "key_of_rx PJSIP_ROLE_UAS mt rd" and ?acq = "tsx_grp_lock_acquire (tc_create c)"
    obtain key2 where k2: "create_tsx_key_2543 PJSIP_ROLE_UAS mt rd False = Some (Inr key2)" "table_key key2"
      "key2 = key_2543 PJSIP_ROLE_UAS mt (cseq_num (the (rx_cseq rd))) (the (rx_from_tag rd)) (the (rx_cid rd)) None"
      using wfr(1) free by (rule rx_wf_merged)
    let ?s = "tsx_init_uas (mth_id mt) (cseq_num cs) (tc_transport c) (tc_reliable c) (tc_down c) ?acq"
    let ?f = "lay_set i ?key key2 (tsx_shutdown (tsx_grp_lock_release (tsx_init_uas (mth_id mt) (cseq_num cs) 0 False False ?acq))) L"
    have run: "pjsip_tsx_create_uas2 st i rd c L =
        (if tc_addr c \<noteq> PJ_SUCCESS then Some (tc_addr c, ?f)
         else lay_finish st i tsx_grp_lock_release (lay_set i ?key key2 ?s L))"
      using m cs via k2(1) create_key_eq [OF wfr(1), of PJSIP_ROLE_UAS mt] by (simp add: pjsip_tsx_create_uas2_def Let_def)
    show thesis
    proof (cases "tc_addr c = PJ_SUCCESS")
      case False
      have "layer_ok st ?f" by (rule lay_set_ok [OF ok r]) (simp add: init_unregistered)
      moreover have "pjsip_tsx_create_uas2 st i rd c L = Some (tc_addr c, ?f)"
        unfolding run using False by (simp only: if_True simp_thms)
      ultimately show thesis using False by - (rule that, assumption+, blast+)
    next
      case True
      let ?t = "tsx_new_uas (tc_user c) (tc_store c) (tc_script c) (tc_refs c) (mth_id mt) (cseq_num cs) (tc_transport c)
        (tc_reliable c) (tc_down c)"
      obtain L' where L': "lay_finish st i tsx_grp_lock_release (lay_set i ?key key2 ?s L) =
          Some (if hash_view st True (lay_htable L) (lower ?key) = None then PJ_SUCCESS else PJ_EEXISTS, L')"
        "layer_ok st L'"
        "hash_view st True (lay_htable L) (lower ?key) = None \<Longrightarrow>
          lay_objs L' = (lay_objs L)(i := ?t) \<and> lay_keys L' = (lay_keys L)(i := (?key, key2)) \<and>
          hash_view st True (lay_htable2 L') (lower key2) = Some i"
        by (rule lay_finish_ok [OF ok r, of ?s ?key key2 ?t tsx_grp_lock_release])
          (use key_of_rx_table [OF wfr(1) free] key_of_rx_role [of PJSIP_ROLE_UAS mt rd] k2(2) created_uas [OF wfr(2)]
             new_fields(5-8) tsx_new_uas_ok in \<open>simp_all add: init_unregistered init_role\<close>)
      have "pjsip_tsx_create_uas2 st i rd c L =
          Some (if hash_view st True (lay_htable L) (lower ?key) = None then PJ_SUCCESS else PJ_EEXISTS, L')"
        unfolding run using True L'(1) by (simp only: if_False simp_thms)
      from that [OF this L'(2)] show thesis using True m cs codes(4) new_fields(5,6) L'(3) k2(3)
        by (cases "hash_view st True (lay_htable L) (lower ?key)") simp_all
    qed
  qed
qed

section \<open>Received messages\<close>

lemma rx_key_eq:
  assumes "rx_wf rd"
  obtains cs where "rx_cseq rd = Some cs" "key_free (mth_name (cseq_meth cs))"
    "rx_key r rd = Some (key_of_rx r (cseq_meth cs) rd)" "table_key (key_of_rx r (cseq_meth cs) rd)"
proof -
  obtain cs where "rx_cseq rd = Some cs" "key_free (mth_name (cseq_meth cs))" using rx_wf_cseq [OF assms] by blast
  then show thesis using create_key_eq [OF assms] key_of_rx_table [OF assms] by (intro that) (simp_all add: rx_key_def)
qed

text \<open>A transaction that is found has the role the key was made for.\<close>

lemma found_ok:
  assumes ok: "layer_ok st L" and k: "table_key k" "role_key r k" and f: "tab_get st (lay_htable L) k hv = Some i"
  shows "registered (lay_objs L i)" "role (lay_objs L i) = r" "obj_ok L i"
proof -
  have v: "hash_view st True (lay_htable L) (lower k) = Some i" using f tab_get_view [OF layer_okD(1) [OF ok] k(1)] by simp
  then have i: "registered (lay_objs L i)" "lower (fst (lay_keys L i)) = lower k" using layer_okD(3) [OF ok] by auto
  then show "registered (lay_objs L i)" "obj_ok L i" using layer_okD(5) [OF ok] by blast+
  then show "role (lay_objs L i) = r" using role_key_lower [OF obj_okD(2) k(2)] i(2) by blast
qed

lemma deliver_ok:
  assumes ok: "layer_ok st L" and r: "registered (lay_objs L i)"
    and m: "is_request m \<longleftrightarrow> role (lay_objs L i) = PJSIP_ROLE_UAS"
  shows "\<exists>s L'. deliver st (tsx_world g n) i m L = Some (True, L') \<and> layer_ok st L' \<and>
    keeps (lay_objs L i) s \<and> lay_objs L' = (lay_objs L)(i := s) \<and> lay_keys L' = lay_keys L"
proof -
  let ?s = "lay_objs L i" and ?a = "tsx_grp_lock_add_ref (lay_objs L i)"
  let ?t = "tsx_grp_lock_dec_ref (pjsip_tsx_recv_msg (tsx_world g n) m ?a)"
  note o = obj_okD(4-6) [OF layer_okD(5) [OF ok r]]
  have v: "tsx_view ?a = tsx_view ?s" by (simp add: tsx_grp_lock_add_ref_def tsx_view_def)
  have "tsx_enabled In_User (Recv_Msg m) ?a" using m o(3) tsx_view_fields [OF v] by (simp add: lock_free_def)
  then have "keeps ?a (pjsip_tsx_recv_msg (tsx_world g n) m ?a)"
    using world.user_action_keeps [of ?a "Recv_Msg m"] o(1) tsx_ok_view [OF v] by simp
  then have "keeps ?s ?t" using view_keeps [OF v] keeps_frames(2) by blast
  from lay_store_ok [OF ok r this] this show ?thesis by (auto simp: deliver_def)
qed

lemma layer_ok_sent: "layer_ok st (L\<lparr>lay_sent := x\<rparr>) \<longleftrightarrow> layer_ok st L"
  by (simp add: layer_ok_def obj_ok_def)

lemma on_rx_request_ok:
  assumes ok: "layer_ok st L" and wf: "rx_wf rd" "rx_line rd = Some line"
  shows "\<exists>b L'. mod_tsx_layer_on_rx_request st (tsx_world g n) rd L = Some (b, L') \<and> layer_ok st L'"
proof -
  obtain cs where k: "rx_cseq rd = Some cs" "rx_key PJSIP_ROLE_UAS rd = Some (key_of_rx PJSIP_ROLE_UAS (cseq_meth cs) rd)"
    "table_key (key_of_rx PJSIP_ROLE_UAS (cseq_meth cs) rd)" using wf(1) by (rule rx_key_eq)
  let ?k = "key_of_rx PJSIP_ROLE_UAS (cseq_meth cs) rd"
  show ?thesis
  proof (cases "tab_get st (lay_htable L) ?k (Some 0)")
    case None
    with ok k wf(2) show ?thesis by (auto simp: mod_tsx_layer_on_rx_request_def)
  next
    case (Some i)
    note f = found_ok [OF ok k(3) key_of_rx_role Some]
    have "\<exists>L'. deliver st (tsx_world g n) i (PJSIP_REQUEST_MSG (mth_id line)) L = Some (True, L') \<and> layer_ok st L'"
      using deliver_ok [OF ok f(1), of "PJSIP_REQUEST_MSG (mth_id line)"] f(2) by (auto simp: is_request_def)
    with ok k wf(2) Some show ?thesis by (auto simp: mod_tsx_layer_on_rx_request_def Let_def layer_ok_sent)
  qed
qed

lemma on_rx_response_ok:
  assumes ok: "layer_ok st L" and wf: "rx_wf rd"
  shows "\<exists>b L'. mod_tsx_layer_on_rx_response st (tsx_world g n) rd L = Some (b, L') \<and> layer_ok st L'"
proof -
  obtain cs where k: "rx_cseq rd = Some cs" "rx_key PJSIP_ROLE_UAC rd = Some (key_of_rx PJSIP_ROLE_UAC (cseq_meth cs) rd)"
    "table_key (key_of_rx PJSIP_ROLE_UAC (cseq_meth cs) rd)" using wf by (rule rx_key_eq)
  let ?k = "key_of_rx PJSIP_ROLE_UAC (cseq_meth cs) rd" and ?m = "PJSIP_RESPONSE_MSG (rx_code rd) (mth_id (cseq_meth cs))"
  show ?thesis
  proof (cases "tab_get st (lay_htable L) ?k (Some 0)")
    case None
    with ok k show ?thesis by (auto simp: mod_tsx_layer_on_rx_response_def)
  next
    case (Some i)
    note f = found_ok [OF ok k(3) key_of_rx_role Some]
    have "\<exists>L'. deliver st (tsx_world g n) i ?m L = Some (True, L') \<and> layer_ok st L'"
      using deliver_ok [OF ok f(1), of ?m] f(2) by (auto simp: is_request_def)
    with ok k Some show ?thesis by (auto simp: mod_tsx_layer_on_rx_response_def)
  qed
qed

section \<open>Runs of the layer\<close>

text \<open>A new transaction gets an address at which none is registered; messages are as the parser leaves
  them. Anything a transaction in the table can do of itself (\<open>tsx_step\<close>) is an action of the layer.\<close>

inductive layer_reachable :: "sip_state \<Rightarrow> tsx_config \<Rightarrow> tsx_layer \<Rightarrow> bool" for st g where
  started: "pjsip_tsx_layer_init_module max_count = Some L \<Longrightarrow> layer_reachable st g L"
| created_client: "layer_reachable st g L \<Longrightarrow> \<not> registered (lay_objs L i) \<Longrightarrow> tx_wf tm c \<Longrightarrow>
    pjsip_tsx_create_uac2 st i x tm c L = Some (status, L') \<Longrightarrow> layer_reachable st g L'"
| created_server: "layer_reachable st g L \<Longrightarrow> \<not> registered (lay_objs L i) \<Longrightarrow> uas_wf rd c \<Longrightarrow>
    pjsip_tsx_create_uas2 st i rd c L = Some (status, L') \<Longrightarrow> layer_reachable st g L'"
| request: "layer_reachable st g L \<Longrightarrow> rx_wf rd \<Longrightarrow> rx_line rd = Some line \<Longrightarrow>
    mod_tsx_layer_on_rx_request st (tsx_world g n) rd L = Some (b, L') \<Longrightarrow> layer_reachable st g L'"
| response: "layer_reachable st g L \<Longrightarrow> rx_wf rd \<Longrightarrow>
    mod_tsx_layer_on_rx_response st (tsx_world g n) rd L = Some (b, L') \<Longrightarrow> layer_reachable st g L'"
| acted: "layer_reachable st g L \<Longrightarrow> registered (lay_objs L i) \<Longrightarrow>
    lay_store st i (tsx_step (tsx_world g n) In_User a (lay_objs L i)) L = Some L' \<Longrightarrow> layer_reachable st g L'"

lemma init_module_ok:
  obtains L where "pjsip_tsx_layer_init_module n = Some L" "layer_ok st L"
    "hash_view st True (lay_htable L) = Map.empty" "\<And>i. \<not> registered (lay_objs L i)"
proof -
  obtain h where h: "pj_hash_create n = Some h" "hash_inv st True h" "hash_view st True h = Map.empty"
    by (rule create_ok [of n st True]) blast
  then show thesis
    by (intro that [of "the (pjsip_tsx_layer_init_module n)"])
      (simp_all add: pjsip_tsx_layer_init_module_def layer_ok_def tsx_create_def)
qed

lemma layer_reachable_ok: "layer_reachable st g L \<Longrightarrow> layer_ok st L"
proof (induction rule: layer_reachable.induct)
  case (started n L)
  obtain L' where "pjsip_tsx_layer_init_module n = Some L'" "layer_ok st L'" by (rule init_module_ok [of n st])
  with started show ?case by simp
next
  case (created_client L i tm c x status L')
  obtain s1 L1 where "pjsip_tsx_create_uac2 st i x tm c L = Some (s1, L1)" "layer_ok st L1"
    by (rule create_uac2_ok [OF created_client.IH created_client.hyps(2,3), of x])
  with created_client.hyps show ?case by simp
next
  case (created_server L i rd c status L')
  obtain s1 L1 where "pjsip_tsx_create_uas2 st i rd c L = Some (s1, L1)" "layer_ok st L1"
    by (rule create_uas2_ok [OF created_server.IH created_server.hyps(2,3)])
  with created_server.hyps show ?case by simp
next
  case (request L rd line n b L')
  then show ?case using on_rx_request_ok [OF request.IH request.hyps(2,3), of g n] by auto
next
  case (response L rd n b L')
  then show ?case using on_rx_response_ok [OF response.IH response.hyps(2), of g n] by auto
next
  case (acted L i n a L')
  let ?s = "lay_objs L i"
  have "keeps ?s (tsx_step (tsx_world g n) In_User a ?s)"
    using world.user_action_keeps [of ?s a] obj_okD(4) [OF layer_okD(5) [OF acted.IH acted.hyps(2)]] keeps_refl
    by (simp add: tsx_step_def)
  from lay_store_ok [OF acted.IH acted.hyps(2) this] acted.hyps(3) show ?case by auto
qed

section \<open>Shutdown of the module\<close>

lemma first_entry:
  assumes inv: "hash_inv st True h"
  shows "case pj_hash_first h of
      None \<Rightarrow> hash_view st True h = Map.empty
    | Some it \<Rightarrow> \<exists>k. hash_view st True h k = Some (pj_hash_this h it)"
proof -
  have len: "length (ht_table h) = Suc (unat (ht_rows h))" using inv by (simp add: hash_inv_def)
  have f: "pj_hash_first h = it_opt (next_row h 0)" by (simp add: pj_hash_first_def it_opt_def Let_def)
  have rest: "it_rest h (pj_hash_first h) = concat (ht_table h)" using next_row_rest [OF len, of 0] f by simp
  show ?thesis
  proof (cases "pj_hash_first h")
    case None
    then have "concat (ht_table h) = []" using rest by (simp add: it_rest_def)
    then have "set (map (pair_of True) (concat (ht_table h))) = {}" by (simp only: list.map set_empty list.set)
    then have "{(k, v). hash_view st True h k = Some v} = {}" by (simp only: entries_view(1) [OF inv])
    then have "hash_view st True h k = None" for k by (cases "hash_view st True h k") auto
    then show ?thesis using None by (simp add: fun_eq_iff)
  next
    case (Some it)
    have v: "it_valid h it" using Some next_row_rest [OF len, of 0] unfolding f by (simp add: it_opt_def split: if_splits)
    let ?e = "ht_table h ! it_index it ! the (it_entry it)"
    have "it_rest h (Some it) = ?e # it_rest h (pj_hash_next h it)" using hash_next_rest(1) [OF v len] .
    then have "concat (ht_table h) = ?e # it_rest h (pj_hash_next h it)" using rest Some by simp
    then have "?e \<in> set (concat (ht_table h))" by (simp only: list.set_intros)
    then have "pair_of True ?e \<in> set (map (pair_of True) (concat (ht_table h)))" by (simp only: set_map imageI)
    then have "pair_of True ?e \<in> {(k, v). hash_view st True h k = Some v}" by (simp only: entries_view(1) [OF inv])
    then show ?thesis using Some by (auto simp: pair_of_def pj_hash_this_def)
  qed
qed

lemma view_finite: "hash_inv st True h \<Longrightarrow> finite (dom (hash_view st True h))"
proof -
  assume inv: "hash_inv st True h"
  have "dom (hash_view st True h) = fst ` {(k, v). hash_view st True h k = Some v}" by force
  also have "\<dots> = fst ` set (map (pair_of True) (concat (ht_table h)))" using entries_view(1) [OF inv] by simp
  finally show ?thesis by simp
qed

lemma terminate_unregistered:
  assumes "\<And>s. \<not> registered s \<Longrightarrow> \<not> registered (on_tsx_state e s)" "\<not> registered s"
  shows "\<not> registered (snd (pjsip_tsx_terminate e code s))"
  using assms
  by (simp add: pjsip_tsx_terminate_def Let_def tsx_set_state_def notify_rx_def notify_state_def
      after_terminated_def detach_pending_def tsx_grp_lock_acquire_def tsx_grp_lock_release_def
      tsx_grp_lock_dec_ref_def tsx_set_status_code_def split: option.splits)

lemma layer_stop_ok:
  assumes cb: "\<And>s. \<not> registered s \<Longrightarrow> \<not> registered (on_tsx_state e s)"
    and "layer_ok st L" "card (dom (hash_view st True (lay_htable L))) < fuel"
  shows "\<exists>L'. mod_tsx_layer_stop st e fuel L = Some L' \<and> layer_ok st L' \<and>
    hash_view st True (lay_htable L') = Map.empty \<and> (\<forall>i. \<not> registered (lay_objs L' i)) \<and>
    (\<forall>i. registered (lay_objs L i) \<longrightarrow> terminating (lay_objs L' i)) \<and>
    (\<forall>i. \<not> registered (lay_objs L i) \<longrightarrow> lay_objs L' i = lay_objs L i)"
  using assms(2-)
proof (induction fuel arbitrary: L)
  case (Suc fuel)
  note ok = Suc.prems(1)
  show ?case
  proof (cases "pj_hash_first (lay_htable L)")
    case None
    then have e: "hash_view st True (lay_htable L) = Map.empty" using first_entry [OF layer_okD(1) [OF ok]] by simp
    then have "\<not> registered (lay_objs L i)" for i
      using layer_okD(3) [OF ok, of "lower (fst (lay_keys L i))" i] by simp
    with None e ok show ?thesis by simp
  next
    case (Some it)
    define i where "i = pj_hash_this (lay_htable L) it"
    obtain k where k: "hash_view st True (lay_htable L) k = Some i"
      using first_entry [OF layer_okD(1) [OF ok]] Some by (auto simp: i_def)
    then have r: "registered (lay_objs L i)" "lower (fst (lay_keys L i)) = k" using layer_okD(3) [OF ok] by auto
    obtain L1 where L1: "mod_tsx_layer_unregister_tsx st i L = Some L1" "layer_ok st L1"
      "lay_objs L1 = (lay_objs L)(i := unregister_tsx (lay_objs L i))"
      "hash_view st True (lay_htable L1) = (hash_view st True (lay_htable L))(k := None)"
      by (rule unregister_ok [OF ok r(1)]) (use r(2) in auto)
    define s where "s = tsx_shutdown (snd (pjsip_tsx_terminate e PJSIP_SC_SERVICE_UNAVAILABLE (lay_objs L1 i)))"
    define L2 where "L2 = set_obj i s L1"
    have s: "\<not> registered s" "terminating s"
      using terminate_unregistered [OF cb] L1(3) by (simp_all add: s_def unregister_tsx_def)
    have ok2: "layer_ok st L2" unfolding L2_def by (rule layer_ok_obj [OF L1(2)]) (use s L1(3) in \<open>auto simp: unregister_tsx_def\<close>)
    have "card (dom (hash_view st True (lay_htable L2))) < card (dom (hash_view st True (lay_htable L)))"
      using L1(4) k view_finite [OF layer_okD(1) [OF ok]]
      by (auto simp: L2_def intro: psubset_card_mono)
    then have "card (dom (hash_view st True (lay_htable L2))) < fuel" using Suc.prems(2) by simp
    from Suc.IH [OF ok2 this] obtain L' where L': "mod_tsx_layer_stop st e fuel L2 = Some L'"
      "layer_ok st L'" "hash_view st True (lay_htable L') = Map.empty" "\<forall>i. \<not> registered (lay_objs L' i)"
      "\<forall>j. registered (lay_objs L2 j) \<longrightarrow> terminating (lay_objs L' j)"
      "\<forall>j. \<not> registered (lay_objs L2 j) \<longrightarrow> lay_objs L' j = lay_objs L2 j" by blast
    have "mod_tsx_layer_stop st e (Suc fuel) L = Some L'"
      using Some L1(1) L'(1) by (simp add: i_def [symmetric] s_def [symmetric] L2_def Let_def)
    moreover have o: "lay_objs L2 = (lay_objs L)(i := s)" using L1(3) by (simp add: L2_def)
    moreover have "terminating (lay_objs L' j)" if "registered (lay_objs L j)" for j
      using that L'(5,6) s o by (cases "j = i") auto
    moreover have "lay_objs L' j = lay_objs L j" if "\<not> registered (lay_objs L j)" for j
      using that L'(6) r(1) o by (cases "j = i") auto
    ultimately show ?thesis using L'(2-4) by blast
  qed
qed simp

end
