(* ===== verification/Pjsip_Tsx_Match.thy ===== *)
theory Pjsip_Tsx_Match
  imports Pjsip_Tsx_Layer_Props
begin

text \<open>
  What the transaction layer guarantees: which messages share a key, that the table finds exactly
  the transactions that are registered, that a response finds the client transaction it answers,
  that the shutdown of the module ends, and where the table for merged requests loses an entry.
\<close>

section \<open>Facts for the properties\<close>

text \<open>The key of a client transaction against the key of a received message.\<close>

lemma key_3261_rx:
  assumes wf: "rx_wf rd" and f: "key_free (mth_name mt)" "key_free (mth_name mt')" "key_free b" "b \<noteq> []"
  shows "lower (key_3261 r mt b) = lower (key_of_rx r' mt' rd) \<longleftrightarrow>
    r = r' \<and> same_method mt mt' \<and> is_rfc3261_branch b \<and> lower b = lower (via_branch (the (rx_via rd)))"
proof -
  let ?v = "the (rx_via rd)"
  have v: "key_free (via_branch ?v)" using wf by (rule rx_wfE) simp
  show ?thesis
  proof (cases "is_rfc3261_branch (via_branch ?v)")
    case True
    then show ?thesis using key_3261_eq [OF f(1,2) f(3) v] rfc3261_cong [of b "via_branch ?v"]
      by (auto simp: key_of_rx_def Let_def)
  next
    case False
    then have "lower (key_3261 r mt b) \<noteq> lower (key_of_rx r' mt' rd)"
      using keys_differ [OF f(3,4)] by (simp add: key_of_rx_def Let_def)
    with False rfc3261_cong [of b "via_branch ?v"] show ?thesis by auto
  qed
qed

lemma table_size:
  assumes ok: "layer_ok st L"
  shows "card (dom (hash_view st True (lay_htable L))) = card {i. registered (lay_objs L i)}"
proof -
  let ?h = "hash_view st True (lay_htable L)"
  let ?f = "\<lambda>i. lower (fst (lay_keys L i))" and ?r = "{i. registered (lay_objs L i)}"
  have f: "registered (lay_objs L i) \<Longrightarrow> ?h (?f i) = Some i" for i using layer_okD(3) [OF ok] by blast
  have "inj_on ?f ?r"
  proof (rule inj_onI)
    fix i j assume "i \<in> ?r" "j \<in> ?r" and e: "?f i = ?f j"
    then have "?h (?f i) = Some i" "?h (?f i) = Some j" using f [of i] f [of j] unfolding e by simp_all
    then show "i = j" by (metis option.inject)
  qed
  moreover have "dom ?h = ?f ` ?r"
  proof
    show "dom ?h \<subseteq> ?f ` ?r"
    proof
      fix k assume "k \<in> dom ?h"
      then obtain i where "?h k = Some i" by blast
      then have i: "registered (lay_objs L i) \<and> ?f i = k" by (rule iffD1 [OF layer_okD(3) [OF ok]])
      then have "i \<in> ?r" by simp
      with i [THEN conjunct2, symmetric] show "k \<in> ?f ` ?r" by (rule image_eqI)
    qed
    show "?f ` ?r \<subseteq> dom ?h" using f by blast
  qed
  ultimately show ?thesis by (simp only: card_image)
qed

lemma table_count:
  assumes inv: "hash_inv st True h"
  shows "pj_hash_count h = of_nat (card (dom (hash_view st True h)))"
proof -
  let ?ps = "map (pair_of True) (concat (ht_table h))"
  have "dom (hash_view st True h) = fst ` {(k, v). hash_view st True h k = Some v}" by force
  then have d: "dom (hash_view st True h) = set (map fst ?ps)" by (simp only: entries_view(1) [OF inv, symmetric] set_map)
  have "distinct (map fst ?ps)" using entries_view(2) [OF inv] .
  then have "card (dom (hash_view st True h)) = length (concat (ht_table h))"
    unfolding d by (simp only: distinct_card length_map)
  then show ?thesis using inv by (simp only: pj_hash_count_def hash_inv_def)
qed

lemma key_2543_lower:
  "lower (key_2543 r mt cs tag cid None) =
     lower [if r = PJSIP_ROLE_UAC then 99 else 115, SEPARATOR] @
     join (map lower (method_fields mt)) @ join [pj_utoa cs, lower tag, lower cid] @ [0]"
  by (simp add: key_2543_def key_prefix_def via_fields_def lower_join)

section \<open>Concrete messages\<close>

definition invite_method :: pjsip_method where
  "invite_method = \<lparr>mth_id = PJSIP_INVITE_METHOD, mth_name = [73, 78, 86, 73, 84, 69]\<rparr>"

text \<open>A call with the given digit at the end of its branch.\<close>

definition call_branch :: "u8 \<Rightarrow> u8 list" where
  "call_branch d = PJSIP_RFC3261_BRANCH_ID @ [80, 106, d]"

definition call_rx :: "pjsip_method option \<Rightarrow> u8 list \<Rightarrow> pjsip_rx_data" where
  "call_rx line b = \<lparr>rx_line = line, rx_code = 180,
     rx_via = Some \<lparr>via_host = [104, 49], via_port = 5060, via_branch = b\<rparr>,
     rx_cseq = Some \<lparr>cseq_num = 1, cseq_meth = invite_method\<rparr>,
     rx_from_tag = Some [116, 97], rx_to_tag = [], rx_cid = Some [99, 105]\<rparr>"

definition call_creation :: tsx_creation where
  "call_creation = \<lparr>tc_user = call_user, tc_lock = None, tc_store = invites, tc_script = [sent_at_once],
     tc_status = PJ_SUCCESS, tc_unique = [49], tc_addr = PJ_SUCCESS, tc_transport = 7,
     tc_reliable = False, tc_down = False\<rparr>"

definition call_tx :: pjsip_tx_msg where
  "call_tx = \<lparr>tx_line = Some invite_method, tx_cseq = Some 1, tx_branch = []\<rparr>"

definition sip_zero :: sip_state where
  "sip_zero = \<lparr>sip_k0 = 0, sip_k1 = 0, sip_key_ready = True\<rparr>"

lemma call_free:
  "key_free (mth_name invite_method)" "key_free (call_branch 49)" "key_free (call_branch 50)" "key_free [49]"
  by (simp_all add: key_free_def SEPARATOR_def invite_method_def call_branch_def PJSIP_RFC3261_BRANCH_ID_def)

lemma call_rfc3261:
  "is_rfc3261_branch (call_branch 49)" "is_rfc3261_branch (call_branch 50)" "\<not> is_rfc3261_branch [49]"
  by code_simp+

lemma call_wf:
  "key_free b \<Longrightarrow> rx_wf (call_rx line b)" "tx_wf call_tx call_creation"
  "uac_branch call_tx call_creation = call_branch 49"
  "key_free b \<Longrightarrow> uas_wf (call_rx (Some invite_method) b) call_creation"
proof -
  have f: "key_free [104, 49]" "key_free [116, 97]" "key_free [99, 105]" "key_free []"
    by (simp_all add: key_free_def SEPARATOR_def)
  have b: "PJSIP_RFC3261_BRANCH_ID @ [80, 106] @ tc_unique call_creation = call_branch 49"
    by (simp add: call_creation_def call_branch_def)
  show rx: "key_free b \<Longrightarrow> rx_wf (call_rx line b)" for line using f call_free(1) by (simp add: rx_wf_def call_rx_def)
  show "uac_branch call_tx call_creation = call_branch 49" using b by (simp add: uac_branch_def call_tx_def)
  have "0 \<le> tc_refs call_creation" by (simp add: tc_refs_def call_creation_def)
  then show "tx_wf call_tx call_creation" "key_free b \<Longrightarrow> uas_wf (call_rx (Some invite_method) b) call_creation"
    using b f(4) call_free(1,2) rx by (simp_all add: tx_wf_def uas_wf_def call_tx_def call_rx_def)
qed

lemma one_call:
  obtains L0 L where "layer_reachable sip_zero default_timers L0" "\<not> registered (lay_objs L0 1)"
    "pjsip_tsx_create_uac2 sip_zero 1 0 call_tx call_creation L0 = Some (PJ_SUCCESS, L)"
    "layer_reachable sip_zero default_timers L" "registered (lay_objs L 1)"
proof -
  obtain L0 where L0: "pjsip_tsx_layer_init_module 31 = Some L0" "layer_ok sip_zero L0"
    "hash_view sip_zero True (lay_htable L0) = Map.empty" "\<And>i. \<not> registered (lay_objs L0 i)"
    by (rule init_module_ok [of 31 sip_zero]) blast
  then have r: "layer_reachable sip_zero default_timers L0" using layer_reachable.started by blast
  obtain status L where L: "pjsip_tsx_create_uac2 sip_zero 1 0 call_tx call_creation L0 = Some (status, L)"
    "status = PJ_SUCCESS \<longleftrightarrow> (\<exists>mt. tx_line call_tx = Some mt \<and> mth_id mt \<noteq> PJSIP_ACK_METHOD \<and> tx_cseq call_tx \<noteq> None \<and>
       tc_status call_creation = PJ_SUCCESS \<and> tc_addr call_creation = PJ_SUCCESS \<and>
       hash_view sip_zero True (lay_htable L0) (lower (key_3261 PJSIP_ROLE_UAC mt (uac_branch call_tx call_creation))) = None)"
    "status = PJ_SUCCESS \<Longrightarrow> registered (lay_objs L 1)"
    by (rule create_uac2_ok [OF L0(2,4) call_wf(2), of 1 0]) blast
  have "status = PJ_SUCCESS" using L(2) L0(3) by (simp add: call_tx_def call_creation_def invite_method_def)
  then show thesis using that [OF r L0(4)] L layer_reachable.created_client [OF r L0(4) call_wf(2)] by blast
qed

text \<open>Two requests of one call that differ in their branches; both become server transactions.\<close>

abbreviation merged_rx :: "u8 \<Rightarrow> pjsip_rx_data" where
  "merged_rx d \<equiv> call_rx (Some invite_method) (call_branch d)"

abbreviation merged_key :: "u8 \<Rightarrow> u8 list" where
  "merged_key d \<equiv> key_of_rx PJSIP_ROLE_UAS invite_method (merged_rx d)"

abbreviation merged_key2 :: "u8 list" where
  "merged_key2 \<equiv> key_2543 PJSIP_ROLE_UAS invite_method 1 [116, 97] [99, 105] None"

lemma merged_fields:
  "rx_line (merged_rx d) = Some invite_method" "cseq_meth (the (rx_cseq (merged_rx d))) = invite_method"
  "cseq_num (the (rx_cseq (merged_rx d))) = 1" "the (rx_from_tag (merged_rx d)) = [116, 97]"
  "the (rx_cid (merged_rx d)) = [99, 105]" "tc_status call_creation = PJ_SUCCESS"
  "tc_addr call_creation = PJ_SUCCESS" "mth_id invite_method \<noteq> PJSIP_ACK_METHOD"
  "pjsip_method_cmp invite_method invite_method"
  by (simp_all add: call_rx_def call_creation_def invite_method_def pjsip_method_cmp_def)

lemma merged_wf: "uas_wf (merged_rx 49) call_creation" "uas_wf (merged_rx 50) call_creation"
  using call_wf(4) call_free(2,3) by blast+

text \<open>The second request is made a transaction as well, since its branch is another one.\<close>

lemma merged_key_free:
  assumes ok: "layer_ok st L" and only: "\<And>j. registered (lay_objs L j) \<Longrightarrow> fst (lay_keys L j) = merged_key 49"
  shows "hash_view st True (lay_htable L) (lower (merged_key 50)) = None"
    "tab_get st (lay_htable L) (merged_key 50) hv = None"
proof -
  have "\<not> same_message (merged_rx 49) (merged_rx 50)" by code_simp
  then have k: "lower (merged_key 49) \<noteq> lower (merged_key 50)"
    using key_of_rx_eq [OF call_wf(1) call_wf(1) call_free(1) call_free(1), OF call_free(2,3)] by blast
  show v: "hash_view st True (lay_htable L) (lower (merged_key 50)) = None"
  proof (cases "hash_view st True (lay_htable L) (lower (merged_key 50))")
    case (Some j)
    then have "registered (lay_objs L j) \<and> lower (fst (lay_keys L j)) = lower (merged_key 50)"
      by (rule iffD1 [OF layer_okD(3) [OF ok]])
    then have "lower (merged_key 49) = lower (merged_key 50)" using only [of j] by (simp only:)
    with k show ?thesis by blast
  qed
  show "tab_get st (lay_htable L) (merged_key 50) hv = None"
    using tab_get_view [OF layer_okD(1) [OF ok] key_of_rx_table [OF call_wf(1) [OF call_free(3)] call_free(1)]] v by simp
qed

lemma two_requests:
  obtains L0 L1 L2 where "layer_reachable sip_zero default_timers L0" "\<not> registered (lay_objs L0 1)"
    "pjsip_tsx_create_uas2 sip_zero 1 (merged_rx 49) call_creation L0 = Some (PJ_SUCCESS, L1)"
    "tab_get sip_zero (lay_htable L1) (merged_key 50) (Some 0) = None"
    "layer_reachable sip_zero default_timers L2"
    "registered (lay_objs L2 1)" "registered (lay_objs L2 2)"
    "role (lay_objs L2 1) = PJSIP_ROLE_UAS" "role (lay_objs L2 2) = PJSIP_ROLE_UAS"
    "lower (snd (lay_keys L2 1)) = lower (snd (lay_keys L2 2))"
proof -
  obtain L0 where L0: "pjsip_tsx_layer_init_module 31 = Some L0" "layer_ok sip_zero L0"
    "hash_view sip_zero True (lay_htable L0) = Map.empty" "\<And>i. \<not> registered (lay_objs L0 i)"
    by (rule init_module_ok [of 31 sip_zero]) blast
  then have r0: "layer_reachable sip_zero default_timers L0" using layer_reachable.started by blast
  obtain L1 where L1: "pjsip_tsx_create_uas2 sip_zero 1 (merged_rx 49) call_creation L0 = Some (PJ_SUCCESS, L1)"
    "layer_ok sip_zero L1" "lay_objs L1 = (lay_objs L0)(1 := lay_objs L1 1)" "registered (lay_objs L1 1)"
    "role (lay_objs L1 1) = PJSIP_ROLE_UAS" "lay_keys L1 = (lay_keys L0)(1 := (merged_key 49, merged_key2))"
    by (rule create_uas2_ok [OF L0(2,4) merged_wf(1), of 1]) (simp add: merged_fields L0(3))
  have r1: "layer_reachable sip_zero default_timers L1"
    by (rule layer_reachable.created_server [OF r0 L0(4) merged_wf(1) L1(1)])
  have only: "registered (lay_objs L1 j) \<Longrightarrow> j = 1" for j
    using L0(4) [of j] by (subst (asm) L1(3)) (simp split: if_splits)
  then have n2: "\<not> registered (lay_objs L1 2)" by fastforce
  have "fst (lay_keys L1 j) = merged_key 49" if "registered (lay_objs L1 j)" for j
    using only [OF that] by (simp add: L1(6))
  note free = merged_key_free [OF L1(2) this]
  obtain L2 where L2: "pjsip_tsx_create_uas2 sip_zero 2 (merged_rx 50) call_creation L1 = Some (PJ_SUCCESS, L2)"
    "lay_objs L2 = (lay_objs L1)(2 := lay_objs L2 2)" "registered (lay_objs L2 2)"
    "role (lay_objs L2 2) = PJSIP_ROLE_UAS" "lay_keys L2 = (lay_keys L1)(2 := (merged_key 50, merged_key2))"
    by (rule create_uas2_ok [OF L1(2) n2 merged_wf(2)]) (simp add: merged_fields free(1))
  have "layer_reachable sip_zero default_timers L2" by (rule layer_reachable.created_server [OF r1 n2 merged_wf(2) L2(1)])
  moreover have "lay_objs L2 1 = lay_objs L1 1" by (subst L2(2)) simp
  moreover have "snd (lay_keys L2 1) = snd (lay_keys L2 2)" by (simp add: L1(6) L2(5))
  ultimately show thesis using that [OF r0 L0(4) L1(1) free(2)] L1(4,5) L2(3,4) by simp
qed

section \<open>Properties\<close>



text \<open>C36: in every state the layer can reach, the table returns a transaction for a key exactly when
  that transaction is registered under this key, up to the case of letters. So no two registered
  transactions share a key, a registered transaction is always found, and a transaction that is
  found is neither destroyed nor shut down, has the role its key was made for, and follows the
  state machine of its role.\<close>

theorem layer_table_exact:
  assumes "layer_reachable st g L" "table_key k"
  shows "(tab_get st (lay_htable L) k hv = Some i \<longleftrightarrow>
      registered (lay_objs L i) \<and> norm_key True (fst (lay_keys L i)) = norm_key True k) \<and>
    (tab_get st (lay_htable L) k hv = Some i \<longrightarrow>
      state (lay_objs L i) \<noteq> PJSIP_TSX_STATE_DESTROYED \<and> \<not> terminating (lay_objs L i) \<and>
      (role_key r k \<longrightarrow> role (lay_objs L i) = r) \<and> hist_ok (lay_objs L i)) \<and>
    pjsip_tsx_layer_get_tsx_count L = of_nat (card {i. registered (lay_objs L i)})"
proof -
  note ok = layer_reachable_ok [OF assms(1)]
  have g: "tab_get st (lay_htable L) k hv = Some i \<longleftrightarrow>
      registered (lay_objs L i) \<and> lower (fst (lay_keys L i)) = lower k"
    using tab_get_view [OF layer_okD(1) [OF ok] assms(2)] layer_okD(3) [OF ok] by simp
  moreover have "state (lay_objs L i) \<noteq> PJSIP_TSX_STATE_DESTROYED \<and> \<not> terminating (lay_objs L i) \<and>
      (role_key r k \<longrightarrow> role (lay_objs L i) = r) \<and> hist_ok (lay_objs L i)"
    if "tab_get st (lay_htable L) k hv = Some i"
  proof -
    have "registered (lay_objs L i)" using that g by simp
    note o = obj_okD [OF layer_okD(5) [OF ok this]]
    have "destroy_ok (lay_objs L i)" "hist_ok (lay_objs L i)" using o(4) by (simp_all add: tsx_ok_def)
    then show ?thesis using o(5) found_ok(2) [OF ok assms(2) _ that] \<open>registered _\<close>
      by (auto simp: settled_def destroy_ok_def)
  qed
  moreover have "pjsip_tsx_layer_get_tsx_count L = of_nat (card {i. registered (lay_objs L i)})"
    using table_count [OF layer_okD(1) [OF ok]] table_size [OF ok] by (simp add: pjsip_tsx_layer_get_tsx_count_def)
  ultimately show ?thesis by blast
qed

theorem layer_table_exact_witness:
  "\<exists>L :: tsx_layer. registered (lay_objs L 1) \<and>
     tab_get sip_zero (lay_htable L) (fst (lay_keys L 1)) None = Some 1 \<and>
     state (lay_objs L 1) \<noteq> PJSIP_TSX_STATE_DESTROYED \<and> \<not> terminating (lay_objs L 1)"
proof -
  obtain L0 L where L: "layer_reachable sip_zero default_timers L" "registered (lay_objs L 1)"
    by (rule one_call)
  have "table_key (fst (lay_keys L 1))" using obj_okD(1) [OF layer_okD(5) [OF layer_reachable_ok]] L by blast
  note exact = layer_table_exact [OF L(1) this, of None 1 PJSIP_ROLE_UAC]
  from exact [THEN conjunct1] L(2) have t: "tab_get sip_zero (lay_htable L) (fst (lay_keys L 1)) None = Some 1" by simp
  from mp [OF exact [THEN conjunct2, THEN conjunct1] t] L(2) t show ?thesis by (intro exI [of _ L] conjI) simp_all
qed

text \<open>C37: after a client transaction has been created, a well-formed response finds it exactly when the
  method of its CSeq header is the method of the request (ACK and INVITE being the same) and its
  topmost branch is the branch of the request up to the case of letters, provided that branch is
  one of RFC 3261. A request that the application gave an older branch is never answered.\<close>

theorem uac_response_found:
  assumes "layer_reachable st g L" "\<not> registered (lay_objs L i)" "tx_wf tm c" "rx_wf rd"
    "pjsip_tsx_create_uac2 st i x tm c L = Some (PJ_SUCCESS, L')"
  shows "\<exists>key. rx_key PJSIP_ROLE_UAC rd = Some key \<and>
    (fst (pjsip_tsx_layer_find_tsx st key lock L') = Some i \<longleftrightarrow>
       same_method (the (tx_line tm)) (cseq_meth (the (rx_cseq rd))) \<and> is_rfc3261_branch (uac_branch tm c) \<and>
       norm_key True (uac_branch tm c) = norm_key True (via_branch (the (rx_via rd))))"
proof -
  obtain status L2 where c: "pjsip_tsx_create_uac2 st i x tm c L = Some (status, L2)" "layer_ok st L2"
    "status = PJ_SUCCESS \<Longrightarrow> tx_line tm \<noteq> None"
    "status = PJ_SUCCESS \<Longrightarrow> registered (lay_objs L2 i) \<and>
       fst (lay_keys L2 i) = key_3261 PJSIP_ROLE_UAC (the (tx_line tm)) (uac_branch tm c)"
    by (rule create_uac2_ok [OF layer_reachable_ok [OF assms(1)] assms(2,3), of x]) blast
  then have L': "layer_ok st L'" "registered (lay_objs L' i)" "tx_line tm \<noteq> None"
    "fst (lay_keys L' i) = key_3261 PJSIP_ROLE_UAC (the (tx_line tm)) (uac_branch tm c)" using assms(5) by simp_all
  obtain cs where cs: "rx_cseq rd = Some cs" "key_free (mth_name (cseq_meth cs))"
    "rx_key PJSIP_ROLE_UAC rd = Some (key_of_rx PJSIP_ROLE_UAC (cseq_meth cs) rd)"
    "table_key (key_of_rx PJSIP_ROLE_UAC (cseq_meth cs) rd)" using assms(4) by (rule rx_key_eq)
  let ?k = "key_of_rx PJSIP_ROLE_UAC (cseq_meth cs) rd"
  have b: "key_free (mth_name (the (tx_line tm)))" "key_free (uac_branch tm c)" "uac_branch tm c \<noteq> []"
    using assms(3) L'(3) by (auto simp: tx_wf_def uac_branch_def)
  have "fst (pjsip_tsx_layer_find_tsx st ?k lock L') = tab_get st (lay_htable L') ?k (Some 0)"
    by (simp add: pjsip_tsx_layer_find_tsx_def find_tsx_def Let_def split: option.splits)
  also have "\<dots> = Some i \<longleftrightarrow> lower (key_3261 PJSIP_ROLE_UAC (the (tx_line tm)) (uac_branch tm c)) = lower ?k"
    using tab_get_view [OF layer_okD(1) [OF L'(1)] cs(4)] layer_okD(3) [OF L'(1), of "lower ?k" i] L'(2)
    by (simp only: L'(4) simp_thms)
  finally show ?thesis using key_3261_rx [OF assms(4) b(1) cs(2) b(2,3)] cs(1,3) by simp
qed

theorem uac_response_found_witness:
  "\<exists>L L' key. pjsip_tsx_create_uac2 sip_zero 1 0 call_tx call_creation L = Some (PJ_SUCCESS, L') \<and>
    rx_key PJSIP_ROLE_UAC (call_rx None (call_branch 49)) = Some key \<and>
    fst (pjsip_tsx_layer_find_tsx sip_zero key False L') = Some 1"
proof -
  obtain L L' where L: "layer_reachable sip_zero default_timers L" "\<not> registered (lay_objs L 1)"
    "pjsip_tsx_create_uac2 sip_zero 1 0 call_tx call_creation L = Some (PJ_SUCCESS, L')" by (rule one_call)
  have "same_method (the (tx_line call_tx)) (cseq_meth (the (rx_cseq (call_rx None (call_branch 49)))))"
    "via_branch (the (rx_via (call_rx None (call_branch 49)))) = call_branch 49"
    by (simp_all add: call_tx_def call_rx_def same_method_def)
  then show ?thesis
    using uac_response_found [OF L(1,2) call_wf(2) call_wf(1) [OF call_free(2)] L(3), of None False] L(3)
      call_rfc3261(1) call_wf(3) by auto
qed

text \<open>C38: the loop that stops the module ends: more rounds than there are registered transactions are
  never needed. Afterwards the table is empty, every transaction that was registered has been
  taken out and shut down, and the others are as they were. It needs of the callback of the
  transaction user only that it does not put a transaction back that has been taken out.\<close>

theorem layer_stop_empties:
  assumes "layer_reachable st g L" "\<And>s. \<not> registered s \<Longrightarrow> \<not> registered (on_tsx_state e s)"
    "card {i. registered (lay_objs L i)} < fuel"
  shows "\<exists>L'. mod_tsx_layer_stop st e fuel L = Some L' \<and> pjsip_tsx_layer_get_tsx_count L' = 0 \<and>
    (\<forall>k hv. table_key k \<longrightarrow> tab_get st (lay_htable L') k hv = None) \<and>
    (\<forall>i. registered (lay_objs L i) \<longrightarrow> \<not> registered (lay_objs L' i) \<and> terminating (lay_objs L' i)) \<and>
    (\<forall>i. \<not> registered (lay_objs L i) \<longrightarrow> lay_objs L' i = lay_objs L i)"
proof -
  note ok = layer_reachable_ok [OF assms(1)]
  obtain L' where L': "mod_tsx_layer_stop st e fuel L = Some L'" "layer_ok st L'"
    "hash_view st True (lay_htable L') = Map.empty" "\<forall>i. \<not> registered (lay_objs L' i)"
    "\<forall>i. registered (lay_objs L i) \<longrightarrow> terminating (lay_objs L' i)"
    "\<forall>i. \<not> registered (lay_objs L i) \<longrightarrow> lay_objs L' i = lay_objs L i"
    using layer_stop_ok [OF assms(2) ok, of fuel] assms(3) table_size [OF ok] by (simp only:) blast
  have "pjsip_tsx_layer_get_tsx_count L' = 0"
    using table_count [OF layer_okD(1) [OF L'(2)]] L'(3) by (simp add: pjsip_tsx_layer_get_tsx_count_def)
  moreover have "tab_get st (lay_htable L') k hv = None" if "table_key k" for k hv
    using tab_get_view [OF layer_okD(1) [OF L'(2)] that] L'(3) by simp
  ultimately show ?thesis using L'(1,4-) by blast
qed

theorem layer_stop_empties_witness:
  "\<exists>L L' fuel. registered (lay_objs L 1) \<and>
     mod_tsx_layer_stop sip_zero (tsx_world default_timers 0) fuel L = Some L' \<and>
     pjsip_tsx_layer_get_tsx_count L' = 0 \<and> terminating (lay_objs L' 1)"
proof -
  obtain L0 L where L: "layer_reachable sip_zero default_timers L" "registered (lay_objs L 1)" by (rule one_call)
  have "\<not> registered (on_tsx_state (tsx_world default_timers 0) s)" if "\<not> registered s" for s
    using that by (simp add: drop_answer_def)
  from layer_stop_empties [OF L(1) this lessI] L(2) show ?thesis by blast
qed

text \<open>C39: once a server transaction has been created for a request, another request of the same call,
  with the same method and CSeq number and no To tag, that matches no transaction itself is
  reported as a merged request of that transaction.\<close>

theorem merged_request_detected:
  assumes "layer_reachable st g L" "\<not> registered (lay_objs L i)" "uas_wf rd c" "rx_wf rd'"
    "pjsip_tsx_create_uas2 st i rd c L = Some (PJ_SUCCESS, L')"
    "rx_line rd' \<noteq> None" "rx_to_tag rd' = []" "same_call rd rd'"
    "same_method (the (rx_line rd)) (cseq_meth (the (rx_cseq rd')))"
    "tab_get st (lay_htable L') (key_of_rx PJSIP_ROLE_UAS (cseq_meth (the (rx_cseq rd'))) rd') (Some 0) = None"
  shows "pjsip_tsx_detect_merged_requests st rd' L' = Some (Some i)"
proof -
  let ?m = "the (rx_line rd)"
  obtain status L2 where c: "pjsip_tsx_create_uas2 st i rd c L = Some (status, L2)" "layer_ok st L2"
    "status = PJ_SUCCESS \<Longrightarrow> rx_line rd \<noteq> None"
    "status = PJ_SUCCESS \<Longrightarrow> lay_keys L2 = (lay_keys L)(i := (key_of_rx PJSIP_ROLE_UAS ?m rd,
       key_2543 PJSIP_ROLE_UAS ?m (cseq_num (the (rx_cseq rd))) (the (rx_from_tag rd)) (the (rx_cid rd)) None)) \<and>
       hash_view st True (lay_htable2 L2) (lower (snd (lay_keys L2 i))) = Some i"
    by (rule create_uas2_ok [OF layer_reachable_ok [OF assms(1)] assms(2,3)]) blast
  then have L': "layer_ok st L'" and v: "hash_view st True (lay_htable2 L') (lower
      (key_2543 PJSIP_ROLE_UAS ?m (cseq_num (the (rx_cseq rd))) (the (rx_from_tag rd)) (the (rx_cid rd)) None)) = Some i"
    and line: "rx_line rd \<noteq> None" using assms(5) by auto
  obtain cs where cs: "rx_cseq rd' = Some cs" "key_free (mth_name (cseq_meth cs))" using rx_wf_cseq [OF assms(4)] by blast
  obtain key2 where k2: "create_tsx_key_2543 PJSIP_ROLE_UAS (cseq_meth cs) rd' False = Some (Inr key2)" "table_key key2"
    "key2 = key_2543 PJSIP_ROLE_UAS (cseq_meth cs) (cseq_num cs) (the (rx_from_tag rd')) (the (rx_cid rd')) None"
    using assms(4) cs(2) by (rule rx_wf_merged) (simp add: cs(1))
  have "lower key2 = lower
      (key_2543 PJSIP_ROLE_UAS ?m (cseq_num (the (rx_cseq rd))) (the (rx_from_tag rd)) (the (rx_cid rd)) None)"
    using assms(8,9) by (simp add: k2(3) key_2543_lower same_call_def same_method_def cs(1))
  then have "tab_get st (lay_htable2 L') key2 (Some 0) = Some i"
    using v tab_get_view [OF layer_okD(2) [OF L'] k2(2)] by simp
  then show ?thesis using assms(6,7,10) cs(1) k2(1) create_key_eq [OF assms(4)]
    by (simp add: pjsip_tsx_detect_merged_requests_def)
qed

theorem merged_request_detected_witness:
  "\<exists>L L'. pjsip_tsx_create_uas2 sip_zero 1 (merged_rx 49) call_creation L = Some (PJ_SUCCESS, L') \<and>
     pjsip_tsx_detect_merged_requests sip_zero (merged_rx 50) L' = Some (Some 1)"
proof -
  obtain L L' L2 where L: "layer_reachable sip_zero default_timers L" "\<not> registered (lay_objs L 1)"
    "pjsip_tsx_create_uas2 sip_zero 1 (merged_rx 49) call_creation L = Some (PJ_SUCCESS, L')"
    "tab_get sip_zero (lay_htable L') (merged_key 50) (Some 0) = None" by (rule two_requests)
  have "same_call (merged_rx 49) (merged_rx 50)" "rx_line (merged_rx 50) \<noteq> None" "rx_to_tag (merged_rx 50) = []"
    "same_method (the (rx_line (merged_rx 49))) (cseq_meth (the (rx_cseq (merged_rx 50))))"
    by (simp_all add: same_call_def same_method_def call_rx_def)
  with merged_request_detected [OF L(1,2) merged_wf(1) call_wf(1) [where line = "Some invite_method", OF call_free(3)] L(3)] L(3,4)
  show ?thesis by (auto simp: merged_fields)
qed

text \<open>C40: the table for merged requests has one entry per call. When two server transactions of a call
  are registered, because the second one was created although it is a merged request, the end of
  either of them removes that entry: the other one is still registered, but the next merged
  request is not recognised any more.\<close>

theorem merged_entry_lost:
  assumes "layer_reachable st g L" "registered (lay_objs L i)" "registered (lay_objs L j)" "i \<noteq> j"
    "role (lay_objs L i) = PJSIP_ROLE_UAS" "role (lay_objs L j) = PJSIP_ROLE_UAS"
    "norm_key True (snd (lay_keys L i)) = norm_key True (snd (lay_keys L j))"
  shows "\<exists>L'. mod_tsx_layer_unregister_tsx st j L = Some L' \<and> registered (lay_objs L' i) \<and>
    tab_get st (lay_htable L') (fst (lay_keys L i)) hv = Some i \<and>
    tab_get st (lay_htable2 L') (snd (lay_keys L i)) hv = None"
proof -
  note ok = layer_reachable_ok [OF assms(1)]
  note o = obj_okD [OF layer_okD(5) [OF ok assms(2)]]
  obtain L' where L': "mod_tsx_layer_unregister_tsx st j L = Some L'" "layer_ok st L'"
    "lay_objs L' = (lay_objs L)(j := unregister_tsx (lay_objs L j))" "lay_keys L' = lay_keys L"
    "hash_view st True (lay_htable2 L') (lower (snd (lay_keys L j))) = None"
    by (rule unregister_ok [OF ok assms(3)]) (simp add: assms(6))
  have r: "registered (lay_objs L' i)" using assms(2,4) by (simp add: L'(3))
  then have "tab_get st (lay_htable L') (fst (lay_keys L i)) hv = Some i"
    using tab_get_view [OF layer_okD(1) [OF L'(2)] o(1)] layer_okD(3) [OF L'(2), of "lower (fst (lay_keys L i))" i]
    by (simp only: L'(4) simp_thms)
  moreover have "tab_get st (lay_htable2 L') (snd (lay_keys L i)) hv = None"
    using tab_get_view [OF layer_okD(2) [OF L'(2)] o(3) [OF assms(5)]] L'(5) by (simp only: assms(7))
  ultimately show ?thesis using L'(1) r by blast
qed

theorem merged_entry_lost_witness:
  "\<exists>L L'. registered (lay_objs L 2) \<and> mod_tsx_layer_unregister_tsx sip_zero 2 L = Some L' \<and>
     registered (lay_objs L' 1) \<and> tab_get sip_zero (lay_htable2 L') (snd (lay_keys L 1)) None = None"
proof -
  obtain L0 L1 L where L: "layer_reachable sip_zero default_timers L" "registered (lay_objs L 1)" "registered (lay_objs L 2)"
    "role (lay_objs L 1) = PJSIP_ROLE_UAS" "role (lay_objs L 2) = PJSIP_ROLE_UAS"
    "lower (snd (lay_keys L 1)) = lower (snd (lay_keys L 2))" by (rule two_requests)
  from merged_entry_lost [OF L(1-3) _ L(4-6), of None] L(3) show ?thesis by auto
qed

end
