(* ===== verification/Spec2Isabelle.thy ===== *)
theory Spec2Isabelle
  imports Pj_Fifobuf Pj_Timer_Spec Pj_Hash_Props Pj_Caching_Props Pj_Jbuf_Props Pj_Thread_Props Pj_Lock_Props
    Pj_Sync_Props Pj_Ioqueue_Props Pjsip_Tsx_Props Pjsip_Tsx_Match
begin

text \<open>
  A verification of the core of PJSIP as ported to Zephyr (\<^verbatim>\<open>src/pjproject\<close>): the base library PJLIB
  with its memory pools, containers, timers, threads, locks and event machinery, the jitter buffer
  of PJMEDIA, and the transactions of the SIP stack with the layer that finds them. The paths below are relative to \<^verbatim>\<open>src/pjproject\<close>.

  \<^bold>\<open>The program.\<close> Everything in PJSIP allocates from memory pools (\<^verbatim>\<open>pool.c\<close>), which obtain
  their blocks from a factory, normally the caching factory (\<^verbatim>\<open>pool_caching.c\<close>). An application
  has worker threads (\<^verbatim>\<open>os_core_unix.c\<close>) that call \<^verbatim>\<open>pj_ioqueue_poll\<close> (\<^verbatim>\<open>ioqueue_select.c\<close>,
  \<^verbatim>\<open>ioqueue_common_abs.c\<close>) and \<^verbatim>\<open>pj_timer_heap_poll\<close> (\<^verbatim>\<open>timer.c\<close>) in turn; these call back into
  transports, transactions and media, whose objects are protected by group locks (\<^verbatim>\<open>lock.c\<close>) and
  found through hash tables (\<^verbatim>\<open>hash.c\<close>). The port replaces the thread local storage of the host by a
  table of its own, and runs without POSIX barriers. Received audio passes through the jitter
  buffer (\<^verbatim>\<open>pjmedia/jbuf.c\<close>). A SIP request and its responses form a transaction
  (\<^verbatim>\<open>sip_transaction.c\<close>): the layer makes a key from a received message, finds the transaction in a
  hash table and hands it the message; the transaction sends over the transport layer, retransmits
  by timers, and tells its user of every change of state.

  \<^bold>\<open>Conventions.\<close> The definitions follow the functions of the source in their order and keep their
  names. A C struct is a record, an enumeration a datatype; a pointer that is only compared or
  followed is a number, zero for the null pointer; a list linked by pointers is a list. Machine
  integers are words, or numbers with the wrap-around written out (\<^verbatim>\<open>uadd\<close>, \<^verbatim>\<open>usub\<close>, \<^verbatim>\<open>umul\<close>) where both
  signed and unsigned arithmetic is mixed. Time values are unbounded integers. A loop whose end is
  not obvious has fuel or an option as result, and it is proved to end; error returns are status
  codes, as in the source. What belongs to the operating system (POSIX threads and mutexes,
  sockets, the clock, sources of entropy) is a parameter: a record of functions on a state of
  its own. Properties that need something of such a parameter name it in a hypothesis, or in a
  locale, and have a witness that satisfies it.

  The target is that of the port: 32 bits, little endian, alignment of pools 8, release build
  (\<^verbatim>\<open>pj_assert\<close> does nothing, \<^verbatim>\<open>PJ_ASSERT_RETURN\<close> checks), \<^verbatim>\<open>PJ_ZEPHYR\<close>, standard atomics, no floating
  point, no debugging of group locks, \<^verbatim>\<open>PJ_IOQUEUE_HAS_SAFE_UNREG\<close>, \<^verbatim>\<open>PJ_IOQUEUE_CALLBACK_NO_LOCK\<close> and
  \<^verbatim>\<open>PJ_IOQUEUE_FAST_TRACK\<close> set, TCP enabled, at most 32 handles. Log output is left out everywhere.

  \<^bold>\<open>The theories.\<close>

  \<^item> \<^verbatim>\<open>Pj_Prelude\<close>: machine integers, status codes, byte memory, shared lemmas.

  \<^item> \<^verbatim>\<open>Pj_Fifobuf\<close> (\<^verbatim>\<open>fifobuf.c\<close>): the circular allocator on byte memory, with the headers it
    writes. Any sequence of allocations, releases and writes refines a queue of chunks; the
    available size is exact; where the order of releases is not checked.

  \<^item> \<^verbatim>\<open>Pj_Time\<close> (\<^verbatim>\<open>types.h\<close>, \<^verbatim>\<open>types.c\<close>): time values; the comparison macros are a linear order.

  \<^item> \<^verbatim>\<open>Pj_Timer\<close> (\<^verbatim>\<open>timer.c\<close>, \<^verbatim>\<open>timer.h\<close>): the heap of pointers to copies of the entries, the array of
    timer ids with its free list threaded through it, the lock. \<^verbatim>\<open>Pj_Timer_Inv\<close> to \<^verbatim>\<open>Pj_Timer_Poll\<close>
    prove the invariant and each operation; \<^verbatim>\<open>Pj_Timer_Props\<close> and \<^verbatim>\<open>Pj_Timer_Spec\<close> refine the heap to a
    map from entries to times. Polling ends and fires exactly the earliest expired entries, up to
    the limit.

  \<^item> \<^verbatim>\<open>Pj_Ctype\<close>, \<^verbatim>\<open>Pj_Hash\<close>, \<^verbatim>\<open>Pj_Hash_Spec\<close>, \<^verbatim>\<open>Pj_Hash_Props\<close> (\<^verbatim>\<open>ctype.h\<close>, \<^verbatim>\<open>hash.c\<close>): the chained table with
    its keyed hash. The locale \<^verbatim>\<open>keyed_table\<close> is the contract of a finite map; it is interpreted for
    exact keys and for keys up to case.

  \<^item> \<^verbatim>\<open>Pj_Pool\<close>, \<^verbatim>\<open>Pj_Pool_Spec\<close>, \<^verbatim>\<open>Pj_Pool_Props\<close> (\<^verbatim>\<open>pool.c\<close>, \<^verbatim>\<open>pool_i.h\<close>, \<^verbatim>\<open>pool_buf.c\<close>): pools over a factory.
    What a pool needs of the factory is the locale \<^verbatim>\<open>block_source\<close>. Chunks are aligned, inside the
    pool and disjoint; where the size of a new block wraps.

  \<^item> \<^verbatim>\<open>Pj_Caching\<close>, \<^verbatim>\<open>Pj_Caching_Spec\<close>, \<^verbatim>\<open>Pj_Caching_Props\<close> (\<^verbatim>\<open>pool_caching.c\<close>): the factory that keeps
    released pools. The memory of all pools stays disjoint and what is kept within the maximum.

  \<^item> \<^verbatim>\<open>Pj_Math\<close> (\<^verbatim>\<open>math.h\<close>): statistics; the integer square root ends, and how it rounds.

  \<^item> \<^verbatim>\<open>Pj_Jbuf\<close> (\<^verbatim>\<open>pjmedia/jbuf.c\<close>): the ring of frames and the adaptive buffer with both discard
    algorithms. \<^verbatim>\<open>Pj_Jbuf_Ring\<close> and \<^verbatim>\<open>Pj_Jbuf_Put\<close> refine the ring to a list of slots,
    \<^verbatim>\<open>Pj_Jbuf_Spec\<close> holds the invariant of the buffer, \<^verbatim>\<open>Pj_Jbuf_Props\<close> its properties: no operation of
    any sequence of calls runs forever, frames come out in order and unchanged, and where the count
    of discarded frames goes wrong. Sequence numbers stay within 29 bits, so that the mixed
    arithmetic is exact.

  \<^item> \<^verbatim>\<open>Pj_Mutex\<close>, \<^verbatim>\<open>Pj_Tls\<close>, \<^verbatim>\<open>Pj_Thread\<close> (\<^verbatim>\<open>os_core_unix.c\<close>): mutexes, semaphores and atomics over POSIX,
    the thread local storage of the port, threads. \<^verbatim>\<open>Pj_Tls_Run\<close>, \<^verbatim>\<open>Pj_Tls_Spec\<close> and
    \<^verbatim>\<open>Pj_Thread_Props\<close> show that the table behaves as one value per key and thread.

  \<^item> \<^verbatim>\<open>Pj_Lock\<close>, \<^verbatim>\<open>Pj_Lock_Spec\<close>, \<^verbatim>\<open>Pj_Lock_Props\<close> (\<^verbatim>\<open>lock.c\<close>): lock objects and group locks. The locales
    \<^verbatim>\<open>lock_table\<close> and \<^verbatim>\<open>grp_locks\<close> are what a group lock needs of its locks, of pools and threads.

  \<^item> \<^verbatim>\<open>Pj_Sync\<close>, \<^verbatim>\<open>Pj_Sync_Props\<close> (\<^verbatim>\<open>os_core_unix.c\<close>): events and barriers, as step relations that
    interleave the threads.

  \<^item> \<^verbatim>\<open>Pj_Sock\<close> (\<^verbatim>\<open>sock_select.c\<close>, \<^verbatim>\<open>sock_bsd.c\<close>) and \<^verbatim>\<open>Pj_Ioqueue\<close> (\<^verbatim>\<open>ioqueue_select.c\<close>,
    \<^verbatim>\<open>ioqueue_common_abs.c\<close>): the I/O queue. A function of the queue is a sequence of sections, each run
    under a lock or a single access without one; a section is an executable function that
    returns the frames the thread continues with. \<^verbatim>\<open>Pj_Ioqueue_Run\<close> interleaves any number of threads
    (memory is sequentially consistent), with the convention of the source that a key is not
    unregistered while another thread is in a call on it; the locale \<^verbatim>\<open>io_invariant\<close> is the rule for
    invariants over runs. \<^verbatim>\<open>Pj_Ioqueue_Inv\<close> and \<^verbatim>\<open>Pj_Ioqueue_Life\<close> prove that keys in use are never
    recycled. \<^verbatim>\<open>Pj_Ioqueue_Write\<close>, \<^verbatim>\<open>Pj_Ioqueue_Drain\<close> (one key by itself), \<^verbatim>\<open>Pj_Ioqueue_Serial\<close>,
    \<^verbatim>\<open>Pj_Ioqueue_Complete\<close> and \<^verbatim>\<open>Pj_Ioqueue_Total\<close> prove that in a queue without concurrency every queued
    write completes once. \<^verbatim>\<open>Pj_Ioqueue_Props\<close> states the properties, with a run of two threads as
    witness, and a run in which a completion is lost when concurrency is allowed.

  \<^item> \<^verbatim>\<open>Pjsip_Tsx\<close> (\<^verbatim>\<open>sip_transaction.c\<close>): one transaction, with its handlers for every state, its three
    timers, the counter of its group lock, the references of its messages and the completions of the
    transport layer. The transaction user and the transport layer are the parameter \<^verbatim>\<open>tsx_env\<close>.
    \<^verbatim>\<open>Pjsip_Tsx_Run\<close> closes it: \<^verbatim>\<open>tsx_world g n\<close> lets callbacks and calls of the transport layer
    perform any list of further actions, nested at most \<^verbatim>\<open>n\<close> deep, and the theorems hold for every
    \<^verbatim>\<open>n\<close>. \<^verbatim>\<open>tsx_enabled\<close> says where an action can occur; completions that arrive during the callback
    that announces the destruction are left out there. \<^verbatim>\<open>Pjsip_Tsx_Inv\<close>, \<^verbatim>\<open>Pjsip_Tsx_Ops\<close>,
    \<^verbatim>\<open>Pjsip_Tsx_Handlers\<close> and \<^verbatim>\<open>Pjsip_Tsx_Close\<close> prove the invariant, \<^verbatim>\<open>Pjsip_Tsx_Refs\<close> the counting of
    references, \<^verbatim>\<open>Pjsip_Tsx_Live\<close> that a timer is left to end the transaction. \<^verbatim>\<open>Pjsip_Tsx_Demo\<close> holds
    concrete runs, with those that show defects; \<^verbatim>\<open>Pjsip_Tsx_Props\<close> states the properties: the states
    follow the machine of RFC 3261, nothing that is relied on is freed, a final response leads to the
    end, the intervals of retransmission.

  \<^item> \<^verbatim>\<open>Pjsip_Tsx_Key\<close> and \<^verbatim>\<open>Pjsip_Tsx_Layer\<close> (\<^verbatim>\<open>sip_transaction.c\<close>, \<^verbatim>\<open>string.c\<close>): the keys, written into
    buffers of the computed size, and the layer with its two tables, which are those of \<^verbatim>\<open>Pj_Hash\<close>.
    \<^verbatim>\<open>Pjsip_Tsx_Layer_Props\<close> interprets \<^verbatim>\<open>keyed_table\<close> on them and carries the invariants of the table and
    of each transaction through creation, received messages and actions of the user.
    \<^verbatim>\<open>Pjsip_Tsx_Match\<close> states the properties: which messages share a key, that the table holds exactly
    the registered transactions, which responses find their transaction, that the shutdown ends
    (the fuel needed is one more than the number of registered transactions), and what becomes of
    merged requests. A transaction that ends inside a call takes itself out of the tables when the
    call is over; calls of one transaction into another are left out.

  \<^bold>\<open>Not modelled.\<close> Log output and dumps; the parts of the operating system layer that only forward
  to the host (clocks, priorities, read-write mutexes, files); the Windows and epoll I/O queues; SSL
  sockets, which bind to other libraries; the SIP stack apart from its transactions (parser, endpoint,
  transports, dialogs, user agents); ICE and TURN, codecs, devices and the rest of the media
  framework; third-party code. The next parts to model are the active socket over the I/O queue,
  the RTP session, strings and the encodings of PJLIB-UTIL, and the dialogs over transactions.
\<close>

end
